(* ===== verification/Tlpi_Prelude.thy ===== *)
theory Tlpi_Prelude
  imports Main "HOL-Library.Word"
begin

text \<open>
  Shared vocabulary of the development: how a C function can end (\<open>outcome\<close>), C strings
  and the \<^verbatim>\<open>string.h\<close> operations the sources use, slot arrays searched linearly,
  and the generic lemmas and theorem collections the component theories build on.
\<close>

unbundle bit_operations_syntax

named_theorems outcome_simps \<open>evaluation of sequenced C calls\<close>
named_theorems cstr_simps \<open>the string.h operations\<close>

section \<open>How a call ends\<close>

text \<open>
  A C function either returns a value, or terminates the process through \<^verbatim>\<open>exit()\<close> /
  \<^verbatim>\<open>_exit()\<close> or \<^verbatim>\<open>abort()\<close>, or runs into undefined behaviour (a read of an
  uninitialised variable, a null stream, an index outside an array). All of these are
  values of the model; \<open>'s\<close> is the program state at that moment.
\<close>

datatype ('a, 's) outcome =
    Ret 'a 's
  | Exit int 's
  | Abort 's
  | Undef

definition EXIT_SUCCESS :: int where [simp]: "EXIT_SUCCESS = 0"

definition EXIT_FAILURE :: int where [simp]: "EXIT_FAILURE = 1"

text \<open>Sequencing: the continuation runs only when the first call returned.\<close>

definition obind :: "('a, 's) outcome \<Rightarrow> ('a \<Rightarrow> 's \<Rightarrow> ('b, 's) outcome) \<Rightarrow> ('b, 's) outcome" where
  "obind m f = (case m of Ret a s \<Rightarrow> f a s | Exit c s \<Rightarrow> Exit c s | Abort s \<Rightarrow> Abort s | Undef \<Rightarrow> Undef)"

lemma obind_simps [simp, outcome_simps]:
  "obind (Ret a s) f = f a s"
  "obind (Exit c s) f = Exit c s"
  "obind (Abort s) f = Abort s"
  "obind Undef f = Undef"
  by (simp_all add: obind_def)

lemma obind_assoc: "obind (obind m f) g = obind m (\<lambda>a s. obind (f a s) g)"
  by (cases m) simp_all

lemma obind_Ret_iff: "obind m f = Ret b t \<longleftrightarrow> (\<exists>a s. m = Ret a s \<and> f a s = Ret b t)"
  by (cases m) auto

text \<open>
  A property of the state a call leaves behind, whatever way it ends; undefined behaviour
  satisfies no property, so \<open>final P m\<close> also says that \<open>m\<close> is defined.
\<close>

definition final :: "('s \<Rightarrow> bool) \<Rightarrow> ('a, 's) outcome \<Rightarrow> bool" where
  "final P m = (case m of Ret a s \<Rightarrow> P s | Exit c s \<Rightarrow> P s | Abort s \<Rightarrow> P s | Undef \<Rightarrow> False)"

lemma final_simps [simp, outcome_simps]:
  "final P (Ret a s) = P s"
  "final P (Exit c s) = P s"
  "final P (Abort s) = P s"
  "final P Undef = False"
  by (simp_all add: final_def)

lemma final_obind:
  "final P m \<Longrightarrow> (\<And>a s. m = Ret a s \<Longrightarrow> P s \<Longrightarrow> final P (f a s)) \<Longrightarrow> final P (obind m f)"
  by (cases m) simp_all

lemma final_mono: "final P m \<Longrightarrow> (\<And>s. P s \<Longrightarrow> Q s) \<Longrightarrow> final Q m"
  by (cases m) simp_all

text \<open>
  \<open>safe Q m\<close>: \<open>m\<close> is free of undefined behaviour, and where it returns, the result and
  the new state satisfy \<open>Q\<close>.
\<close>

definition safe :: "('a \<Rightarrow> 's \<Rightarrow> bool) \<Rightarrow> ('a, 's) outcome \<Rightarrow> bool" where
  "safe Q m = (case m of Ret a s \<Rightarrow> Q a s | Undef \<Rightarrow> False | _ \<Rightarrow> True)"

lemma safe_simps [simp, outcome_simps]:
  "safe Q (Ret a s) = Q a s" "safe Q (Exit c s)" "safe Q (Abort s)" "\<not> safe Q Undef"
  by (simp_all add: safe_def)

lemma safe_obind: "safe R m \<Longrightarrow> (\<And>a s. R a s \<Longrightarrow> safe Q (f a s)) \<Longrightarrow> safe Q (obind m f)"
  by (cases m) simp_all

lemma safe_mono: "safe R m \<Longrightarrow> (\<And>a s. R a s \<Longrightarrow> Q a s) \<Longrightarrow> safe Q m"
  by (cases m) simp_all

lemma safe_if: "(b \<Longrightarrow> safe Q m) \<Longrightarrow> (\<not> b \<Longrightarrow> safe Q m') \<Longrightarrow> safe Q (if b then m else m')"
  by simp

lemma safe_Ret: "safe Q m \<Longrightarrow> m = Ret a s \<Longrightarrow> Q a s"
  by simp

text \<open>Iterating a call over a list, stopping when the process ends.\<close>

fun ofold :: "('x \<Rightarrow> 's \<Rightarrow> (unit, 's) outcome) \<Rightarrow> 'x list \<Rightarrow> 's \<Rightarrow> (unit, 's) outcome" where
  "ofold f [] s = Ret () s"
| "ofold f (x # xs) s = obind (f x s) (\<lambda>_ s. ofold f xs s)"

lemma final_ofold:
  assumes "P s" and "\<And>x s. x \<in> set xs \<Longrightarrow> P s \<Longrightarrow> final P (f x s)"
  shows "final P (ofold f xs s)"
  using assms
proof (induction xs arbitrary: s)
  case Nil
  then show ?case by simp
next
  case (Cons x xs)
  have "final P (f x s)" using Cons.prems by simp
  then show ?case
    by (simp, rule final_obind) (use Cons in auto)
qed

text \<open>A call whose failure ends the program with a message.\<close>

definition must :: "('w \<Rightarrow> bool \<times> 'w) \<Rightarrow> 'w \<Rightarrow> (unit, 'w) outcome" where
  "must f w = (case f w of (True, w) \<Rightarrow> Ret () w | (False, w) \<Rightarrow> Exit EXIT_FAILURE w)"

definition must_get :: "('w \<Rightarrow> 'a option \<times> 'w) \<Rightarrow> 'w \<Rightarrow> ('a, 'w) outcome" where
  "must_get f w = (case f w of (Some a, w) \<Rightarrow> Ret a w | (None, w) \<Rightarrow> Exit EXIT_FAILURE w)"

lemma must_Ret_iff: "must f w = Ret () w' \<longleftrightarrow> f w = (True, w')"
  by (auto simp: must_def split: prod.splits bool.splits)

lemma must_get_Ret_iff: "must_get f w = Ret a w' \<longleftrightarrow> f w = (Some a, w')"
  by (auto simp: must_get_def split: prod.splits option.splits)

text \<open>Sequencing before a loop that may exhaust its bound (\<open>None\<close>).\<close>

definition obind_opt :: "('a, 's) outcome \<Rightarrow> ('a \<Rightarrow> 's \<Rightarrow> ('b, 's) outcome option) \<Rightarrow> ('b, 's) outcome option" where
  "obind_opt m f = (case m of Ret a s \<Rightarrow> f a s | Exit c s \<Rightarrow> Some (Exit c s) | Abort s \<Rightarrow> Some (Abort s) | Undef \<Rightarrow> Some Undef)"

lemma obind_opt_simps [simp, outcome_simps]:
  "obind_opt (Ret a s) f = f a s"
  "obind_opt (Exit c s) f = Some (Exit c s)"
  "obind_opt (Abort s) f = Some (Abort s)"
  "obind_opt Undef f = Some Undef"
  by (simp_all add: obind_opt_def)

section \<open>C strings\<close>

text \<open>
  A C string is its characters before the terminating null byte, so \<open>cchar s (length s)\<close>
  is the null byte. The model's strings never contain it.
\<close>

type_synonym cstring = string

definition NUL :: char where "NUL = CHR 0x00"

definition newline :: char where "newline = CHR 0x0A"

definition cchar :: "cstring \<Rightarrow> nat \<Rightarrow> char" where
  "cchar s i = (if i < length s then s ! i else NUL)"

definition no_nul :: "cstring \<Rightarrow> bool" where
  "no_nul s \<longleftrightarrow> NUL \<notin> set s"

lemma no_nul_simps [simp]:
  "no_nul []" "no_nul (c # s) \<longleftrightarrow> c \<noteq> NUL \<and> no_nul s" "no_nul (s @ t) \<longleftrightarrow> no_nul s \<and> no_nul t"
  by (auto simp: no_nul_def)

lemma no_nul_take [simp]: "no_nul s \<Longrightarrow> no_nul (take n s)"
  by (auto simp: no_nul_def dest: in_set_takeD)

lemma no_nul_drop [simp]: "no_nul s \<Longrightarrow> no_nul (drop n s)"
  by (auto simp: no_nul_def dest: in_set_dropD)

lemma cchar_eq_NUL: "no_nul s \<Longrightarrow> cchar s i = NUL \<longleftrightarrow> length s \<le> i"
  by (auto simp: cchar_def no_nul_def in_set_conv_nth)

text \<open>\<^verbatim>\<open>strncmp(a, b, n) == 0\<close>: equal up to \<open>n\<close> characters or up to a common end.\<close>

fun strncmp_eq :: "cstring \<Rightarrow> cstring \<Rightarrow> nat \<Rightarrow> bool" where
  "strncmp_eq a b 0 = True"
| "strncmp_eq [] [] (Suc n) = True"
| "strncmp_eq (x # xs) (y # ys) (Suc n) = (x = y \<and> strncmp_eq xs ys n)"
| "strncmp_eq _ _ (Suc n) = False"

lemma strncmp_eq_prefix [cstr_simps]: "strncmp_eq a b (length a) \<longleftrightarrow> take (length a) b = a"
proof (induction a arbitrary: b)
  case (Cons x xs)
  then show ?case by (cases b) auto
qed simp

lemma strncmp_eq_prefix': "strncmp_eq b a (length a) \<longleftrightarrow> take (length a) b = a"
proof (induction a arbitrary: b)
  case (Cons x xs)
  then show ?case by (cases b) auto
qed simp

text \<open>
  \<^verbatim>\<open>strncpy(dst, src, n)\<close> leaves the first \<open>n\<close> characters of \<open>src\<close> in the array;
  \<^verbatim>\<open>snprintf(dst, n, ...)\<close> leaves at most \<open>n - 1\<close> characters and the null byte.
\<close>

definition strncpy :: "cstring \<Rightarrow> nat \<Rightarrow> cstring" where
  "strncpy src n = take n src"

definition snprintf :: "nat \<Rightarrow> cstring \<Rightarrow> cstring" where
  "snprintf n text = take (n - 1) text"

lemma strncpy_fits [cstr_simps]: "length s \<le> n \<Longrightarrow> strncpy s n = s"
  by (simp add: strncpy_def)

lemma snprintf_fits [cstr_simps]: "length s < n \<Longrightarrow> snprintf n s = s"
  by (simp add: snprintf_def)

lemma length_snprintf: "0 < n \<Longrightarrow> length (snprintf n s) < n"
  by (simp add: snprintf_def)

text \<open>\<^verbatim>\<open>strchr(s, c)\<close> for a character other than the null byte: what precedes and what follows.\<close>

fun strchr :: "cstring \<Rightarrow> char \<Rightarrow> (cstring \<times> cstring) option" where
  "strchr [] c = None"
| "strchr (x # xs) c =
     (if x = c then Some ([], xs)
      else case strchr xs c of None \<Rightarrow> None | Some (a, b) \<Rightarrow> Some (x # a, b))"

lemma strchr_None_iff: "strchr s c = None \<longleftrightarrow> c \<notin> set s"
  by (induction s) (auto split: option.splits)

lemma strchr_append [simp]: "c \<notin> set a \<Longrightarrow> strchr (a @ c # b) c = Some (a, b)"
  by (induction a) auto

lemma strchr_SomeD: "strchr s c = Some (a, b) \<Longrightarrow> s = a @ c # b \<and> c \<notin> set a"
  by (induction s arbitrary: a) (auto split: if_splits option.splits)

lemma strchr_Some_iff: "strchr s c = Some (a, b) \<longleftrightarrow> s = a @ c # b \<and> c \<notin> set a"
  using strchr_SomeD by fastforce

section \<open>Linear search in an array\<close>

text \<open>
  \<^verbatim>\<open>for (int j = 0; j < n; j++) if (P(a[j])) return j; return -1;\<close>
\<close>

fun find_from :: "('a \<Rightarrow> bool) \<Rightarrow> 'a list \<Rightarrow> nat \<Rightarrow> int" where
  "find_from P [] j = -1"
| "find_from P (x # xs) j = (if P x then int j else find_from P xs (Suc j))"

definition find_slot :: "('a \<Rightarrow> bool) \<Rightarrow> 'a list \<Rightarrow> int" where
  "find_slot P xs = find_from P xs 0"

lemma find_from_neg: "find_from P xs j < 0 \<longleftrightarrow> (\<forall>x\<in>set xs. \<not> P x)"
  by (induction xs arbitrary: j) auto

lemma find_from_ge: "0 \<le> find_from P xs j \<Longrightarrow>
   int j \<le> find_from P xs j \<and> nat (find_from P xs j) - j < length xs \<and> P (xs ! (nat (find_from P xs j) - j))
   \<and> (\<forall>k < nat (find_from P xs j) - j. \<not> P (xs ! k))"
proof (induction xs arbitrary: j)
  case (Cons x xs)
  show ?case
  proof (cases "P x")
    case False
    with Cons.prems have ge: "0 \<le> find_from P xs (Suc j)" by simp
    note ih = Cons.IH [OF ge]
    define r where "r = nat (find_from P xs (Suc j))"
    from ih ge have r: "Suc j \<le> r" "r - Suc j < length xs" "P (xs ! (r - Suc j))"
      "\<forall>k < r - Suc j. \<not> P (xs ! k)" by (auto simp: r_def)
    then have eq: "r - j = Suc (r - Suc j)" by simp
    have "\<forall>k < r - j. \<not> P ((x # xs) ! k)"
      using r(4) False eq by (auto simp: nth_Cons split: nat.splits)
    moreover have "int j \<le> find_from P xs (Suc j)" using r(1) ge by (simp add: r_def)
    ultimately show ?thesis using False ge r eq by (auto simp: r_def [symmetric])
  qed auto
qed simp

lemma find_slot_ge_minus1: "-1 \<le> find_slot P xs"
proof -
  have "-1 \<le> find_from P xs j" for j
    by (induction xs arbitrary: j) auto
  then show ?thesis by (simp add: find_slot_def)
qed

lemma find_slot_neg_iff: "find_slot P xs < 0 \<longleftrightarrow> (\<forall>x\<in>set xs. \<not> P x)"
  by (simp add: find_slot_def find_from_neg)

lemma find_slot_nonneg_iff: "0 \<le> find_slot P xs \<longleftrightarrow> (\<exists>x\<in>set xs. P x)"
  using find_slot_neg_iff [of P xs] by auto

lemma find_slot_eq_minus1_iff: "find_slot P xs = -1 \<longleftrightarrow> (\<forall>x\<in>set xs. \<not> P x)"
  using find_slot_neg_iff [of P xs] find_slot_ge_minus1 [of P xs] by auto

lemma find_slot_found:
  assumes "0 \<le> find_slot P xs"
  shows "nat (find_slot P xs) < length xs" and "P (xs ! nat (find_slot P xs))"
    and "k < nat (find_slot P xs) \<Longrightarrow> \<not> P (xs ! k)"
  using find_from_ge [of P xs 0] assms by (auto simp: find_slot_def)

lemma take_min_length [simp]: "take (min (length xs) m) xs = take m xs"
  by (simp add: min_def)

lemma distinct_map_filter_iff:
  "distinct (map f (filter P xs)) \<longleftrightarrow>
     (\<forall>j<length xs. \<forall>i<j. P (xs ! i) \<longrightarrow> P (xs ! j) \<longrightarrow> f (xs ! i) \<noteq> f (xs ! j))"
proof (induction xs)
  case (Cons x xs)
  have "f x \<notin> f ` {y \<in> set xs. P y} \<longleftrightarrow> (\<forall>j<length xs. P (xs ! j) \<longrightarrow> f x \<noteq> f (xs ! j))"
    by (auto simp: set_conv_nth)
  then show ?case
    by (auto simp: Cons.IH All_less_Suc2)
qed simp

lemma length_filter_nth: "length (filter (\<lambda>j. P (c ! j)) [0..<length c]) = length (filter P c)"
proof -
  have "filter P c = map ((!) c) (filter (P \<circ> (!) c) [0..<length c])"
    using filter_map [of P "(!) c" "[0..<length c]"] by (simp add: map_nth)
  then show ?thesis by (simp add: comp_def)
qed

end
