(* ===== verification/Dtree_State.thy ===== *)
theory Dtree_State
  imports Tlpi_Prelude
begin

text \<open>
  The state of \<^verbatim>\<open>inotify/inotify_dtree.c\<close>, the program that keeps a cache of
  directory trees consistent with the filesystem: its file-scope variables as one record,
  the messages it logs, the events it reads, and the operating system it calls.

  The kernel, \<^verbatim>\<open>nftw()\<close> and the heap are not part of the sources. They are the
  argument \<open>os\<close> of the definitions, a record of functions over an opaque state \<open>'k\<close>;
  nothing is assumed of them except where a lemma says so.
\<close>

section \<open>Constants of the interface\<close>

definition PATH_MAX :: nat where "PATH_MAX = 4096"

definition NAME_MAX :: nat where "NAME_MAX = 255"

definition VB_BASIC :: int where "VB_BASIC = 1"

definition VB_NOISY :: int where "VB_NOISY = 2"

text \<open>\<^verbatim>\<open>sizeof(struct inotify_event)\<close> and the size of the event buffer.\<close>

definition EVENT_SIZE :: nat where "EVENT_SIZE = 16"

definition INOTIFY_READ_BUF_LEN :: nat where
  "INOTIFY_READ_BUF_LEN = 100 * (EVENT_SIZE + NAME_MAX + 1)"

definition ALLOC_INCR :: nat where "ALLOC_INCR = 200"

type_synonym mask = "32 word"

definition IN_MOVED_FROM :: mask where "IN_MOVED_FROM = 0x40"
definition IN_MOVED_TO :: mask where "IN_MOVED_TO = 0x80"
definition IN_CREATE :: mask where "IN_CREATE = 0x100"
definition IN_DELETE_SELF :: mask where "IN_DELETE_SELF = 0x400"
definition IN_MOVE_SELF :: mask where "IN_MOVE_SELF = 0x800"
definition IN_UNMOUNT :: mask where "IN_UNMOUNT = 0x2000"
definition IN_Q_OVERFLOW :: mask where "IN_Q_OVERFLOW = 0x4000"
definition IN_IGNORED :: mask where "IN_IGNORED = 0x8000"
definition IN_ONLYDIR :: mask where "IN_ONLYDIR = 0x1000000"
definition IN_ISDIR :: mask where "IN_ISDIR = 0x40000000"

lemmas in_defs = IN_MOVED_FROM_def IN_MOVED_TO_def IN_CREATE_def IN_DELETE_SELF_def
  IN_MOVE_SELF_def IN_UNMOUNT_def IN_Q_OVERFLOW_def IN_IGNORED_def IN_ONLYDIR_def IN_ISDIR_def

text \<open>\<^verbatim>\<open>mask & flags\<close> used as a C condition.\<close>

definition has :: "mask \<Rightarrow> mask \<Rightarrow> bool" where
  "has m f \<longleftrightarrow> m AND f \<noteq> 0"

section \<open>Data\<close>

record watch =
  w_wd :: int
  w_path :: cstring

record inotify_event =
  ev_wd :: int
  ev_mask :: mask
  ev_cookie :: mask
  ev_len :: nat
  ev_name :: cstring

datatype errno = ENOENT | EINTR | EINVAL | EAGAIN | EACCES | EOTHER int

record fstat =
  st_isdir :: bool
  st_ino :: nat
  st_dev :: nat

text \<open>
  A message as it is handed to \<^verbatim>\<open>vfprintf()\<close>: the words of its format string and the
  values it prints.
\<close>

datatype farg = FI int | FS cstring | FE errno | FM mask

type_synonym logmsg = "cstring \<times> farg list"

section \<open>The program's variables\<close>

record 'k dtree =
  verboseMask :: int
  checkCache :: bool
  dumpCache :: bool
  readBufferSize :: int
  stopFile :: "cstring option"
  abortOnCacheProblem :: bool
  logfp :: "logmsg list option"
  stderr_out :: "logmsg list"
  stdout_out :: "cstring list"
  inotifyReadCnt :: int
  wlCache :: "watch list"
  rootDirPaths :: "cstring option list"
  ignoreRootDirs :: nat
  rootDirStat :: "fstat list"
  dirCnt :: int
  ifd :: int
  reinitCnt :: int
  overflowCnt :: int
  kern :: 'k

text \<open>
  The calls of the operating system and of the C library. \<open>sys_nftw\<close> gives the entries
  the tree walk visits, with their type, and whether \<^verbatim>\<open>nftw()\<close> itself succeeded;
  \<open>sys_realloc\<close> gives what the newly allocated slots happen to hold, \<open>None\<close> when there is no
  memory; a slot whose pathname array holds no null byte is \<open>None\<close> too; \<open>sys_alloc\<close> whether \<^verbatim>\<open>calloc()\<close> and \<^verbatim>\<open>strdup()\<close> find it.
\<close>

record 'k os =
  sys_inotify_init :: "'k \<Rightarrow> (errno + int) \<times> 'k"
  sys_inotify_add_watch :: "int \<Rightarrow> cstring \<Rightarrow> mask \<Rightarrow> 'k \<Rightarrow> (errno + int) \<times> 'k"
  sys_inotify_rm_watch :: "int \<Rightarrow> int \<Rightarrow> 'k \<Rightarrow> errno option \<times> 'k"
  sys_close :: "int \<Rightarrow> 'k \<Rightarrow> 'k"
  sys_nftw :: "cstring \<Rightarrow> 'k \<Rightarrow> ((cstring \<times> bool) list \<times> bool) \<times> 'k"
  sys_lstat :: "cstring \<Rightarrow> 'k \<Rightarrow> errno + fstat"
  sys_alloc :: "nat \<Rightarrow> 'k \<Rightarrow> bool"
  sys_realloc :: "nat \<Rightarrow> 'k \<Rightarrow> (nat \<Rightarrow> watch option) option"
  sys_read_events :: "int \<Rightarrow> nat \<Rightarrow> 'k \<Rightarrow> (errno + inotify_event list) \<times> 'k"
  sys_sigaction :: "'k \<Rightarrow> bool"
  sys_read_stdin :: "nat \<Rightarrow> 'k \<Rightarrow> (errno + cstring) \<times> 'k"
  sys_open_creat :: "cstring \<Rightarrow> 'k \<Rightarrow> 'k"
  sys_write_file :: "cstring \<Rightarrow> cstring list \<Rightarrow> 'k \<Rightarrow> 'k option"

section \<open>Logging\<close>

definition logMessage :: "int \<Rightarrow> logmsg \<Rightarrow> 'k dtree \<Rightarrow> 'k dtree" where
  "logMessage vb_mask m s =
     (let s1 = (if vb_mask = 0 \<or> vb_mask AND verboseMask s \<noteq> 0
                then s\<lparr>stderr_out := stderr_out s @ [m]\<rparr> else s)
      in case logfp s1 of None \<Rightarrow> s1 | Some l \<Rightarrow> s1\<lparr>logfp := Some (l @ [m])\<rparr>)"

text \<open>Whether a message of this kind is printed anywhere, so that its arguments are read.\<close>

definition prints :: "int \<Rightarrow> 'k dtree \<Rightarrow> bool" where
  "prints vb_mask s \<longleftrightarrow> vb_mask = 0 \<or> vb_mask AND verboseMask s \<noteq> 0 \<or> logfp s \<noteq> None"

text \<open>The messages \<^verbatim>\<open>displayInotifyEvent\<close> prints for an event, in order.\<close>

definition displayInotifyEvent :: "inotify_event \<Rightarrow> 'k dtree \<Rightarrow> 'k dtree" where
  "displayInotifyEvent ev s =
     fold (logMessage VB_NOISY)
       ([(''wd'', [FI (ev_wd ev)])]
        @ (if ev_cookie ev > 0 then [(''cookie'', [FM (ev_cookie ev)])] else [])
        @ [(''mask'', [])]
        @ map (\<lambda>f. ('''', [FM f]))
            (filter (has (ev_mask ev))
               [IN_ISDIR, IN_CREATE, IN_DELETE_SELF, IN_MOVE_SELF, IN_MOVED_FROM, IN_MOVED_TO,
                IN_IGNORED, IN_Q_OVERFLOW, IN_UNMOUNT])
        @ [('''', [])]
        @ (if ev_len ev > 0 then [(''name'', [FS (ev_name ev)])] else []))
       s"

text \<open>
  Logging writes to the two output streams only. \<open>core\<close> blanks those streams, so that
  \<open>core s = core t\<close> says that two states differ in what was printed at most.
\<close>

definition core :: "'k dtree \<Rightarrow> 'k dtree" where
  "core s = s\<lparr>stderr_out := [], logfp := None\<rparr>"

named_theorems log_simps \<open>fields that logging leaves alone\<close>

lemma logMessage_fields [simp, log_simps]:
  "verboseMask (logMessage v m s) = verboseMask s"
  "checkCache (logMessage v m s) = checkCache s"
  "dumpCache (logMessage v m s) = dumpCache s"
  "readBufferSize (logMessage v m s) = readBufferSize s"
  "stopFile (logMessage v m s) = stopFile s"
  "abortOnCacheProblem (logMessage v m s) = abortOnCacheProblem s"
  "inotifyReadCnt (logMessage v m s) = inotifyReadCnt s"
  "wlCache (logMessage v m s) = wlCache s"
  "rootDirPaths (logMessage v m s) = rootDirPaths s"
  "ignoreRootDirs (logMessage v m s) = ignoreRootDirs s"
  "rootDirStat (logMessage v m s) = rootDirStat s"
  "dirCnt (logMessage v m s) = dirCnt s"
  "ifd (logMessage v m s) = ifd s"
  "reinitCnt (logMessage v m s) = reinitCnt s"
  "overflowCnt (logMessage v m s) = overflowCnt s"
  "kern (logMessage v m s) = kern s"
  "(logfp (logMessage v m s) = None) = (logfp s = None)"
  by (simp_all add: logMessage_def Let_def split: option.splits)

lemma logMessage_upd [simp, log_simps]:
  "(logMessage v m s)\<lparr>kern := k\<rparr> = logMessage v m (s\<lparr>kern := k\<rparr>)"
  "(logMessage v m s)\<lparr>dirCnt := d\<rparr> = logMessage v m (s\<lparr>dirCnt := d\<rparr>)"
  "(logMessage v m s)\<lparr>ifd := d\<rparr> = logMessage v m (s\<lparr>ifd := d\<rparr>)"
  "(logMessage v m s)\<lparr>reinitCnt := d\<rparr> = logMessage v m (s\<lparr>reinitCnt := d\<rparr>)"
  "(logMessage v m s)\<lparr>overflowCnt := d\<rparr> = logMessage v m (s\<lparr>overflowCnt := d\<rparr>)"
  "(logMessage v m s)\<lparr>inotifyReadCnt := d\<rparr> = logMessage v m (s\<lparr>inotifyReadCnt := d\<rparr>)"
  "(logMessage v m s)\<lparr>wlCache := c\<rparr> = logMessage v m (s\<lparr>wlCache := c\<rparr>)"
  by (simp_all add: logMessage_def Let_def split: option.splits)

lemma core_logMessage [simp, log_simps]: "core (logMessage v m s) = core s"
  by (simp add: core_def logMessage_def Let_def split: option.splits)

text \<open>
  A step that only logs: every field a caller can observe, the output streams apart, is
  unchanged. Facts about the cache are moved across such steps with this predicate.
\<close>

lemma core_eqD:
  assumes "core s = core t"
  shows "wlCache s = wlCache t" "rootDirPaths s = rootDirPaths t" "ignoreRootDirs s = ignoreRootDirs t"
    "kern s = kern t" "abortOnCacheProblem s = abortOnCacheProblem t" "dirCnt s = dirCnt t"
    "ifd s = ifd t" "checkCache s = checkCache t" "dumpCache s = dumpCache t"
    "readBufferSize s = readBufferSize t" "verboseMask s = verboseMask t"
  using assms by (cases s; cases t; simp add: core_def)+

lemma fold_logMessage:
  "core (fold (logMessage v) ms s) = core s"
  "(logfp (fold (logMessage v) ms s) = None) = (logfp s = None)"
  by (induction ms arbitrary: s) simp_all

lemma core_displayInotifyEvent [simp, log_simps]: "core (displayInotifyEvent ev s) = core s"
  by (simp add: displayInotifyEvent_def fold_logMessage del: fold_append)

lemma logfp_displayInotifyEvent [simp]:
  "(logfp (displayInotifyEvent ev s) = None) = (logfp s = None)"
  by (simp add: displayInotifyEvent_def fold_logMessage del: fold_append)

lemmas displayInotifyEvent_fields [simp, log_simps] = core_eqD [OF core_displayInotifyEvent]

end
