(* ===== verification/Watch_Cache.thy ===== *)
theory Watch_Cache
  imports Dtree_State
begin

text \<open>
  The watch cache of \<^verbatim>\<open>inotify_dtree.c\<close>: a dynamically sized array of slots, each
  unused (\<open>w_wd = -1\<close>) or pairing a watch descriptor with the pathname it stands for.
  The operations are translated over the slot array and the program state; the array is
  then shown to implement a finite map from watch descriptors to pathnames, which is the
  interface the tree walk and the event handlers rely on.
\<close>

section \<open>Operations\<close>

definition used :: "watch \<Rightarrow> bool" where
  "used w \<longleftrightarrow> 0 \<le> w_wd w"

definition freeCache :: "'k dtree \<Rightarrow> 'k dtree" where
  "freeCache s = s\<lparr>wlCache := []\<rparr>"

definition findWatch :: "watch list \<Rightarrow> int \<Rightarrow> int" where
  "findWatch c wd = find_slot (\<lambda>w. w_wd w = wd) c"

definition pathnameToCacheSlot :: "watch list \<Rightarrow> cstring \<Rightarrow> int" where
  "pathnameToCacheSlot c pathname = find_slot (\<lambda>w. 0 \<le> w_wd w \<and> w_path w = pathname) c"

definition pathnameInCache :: "watch list \<Rightarrow> cstring \<Rightarrow> bool" where
  "pathnameInCache c pathname \<longleftrightarrow> pathnameToCacheSlot c pathname \<ge> 0"

text \<open>\<^verbatim>\<open>fprintf(logfp, ...)\<close> on a null stream is undefined, also when the cache is empty.\<close>

definition dumpCacheToLog :: "'k dtree \<Rightarrow> (unit, 'k dtree) outcome" where
  "dumpCacheToLog s =
     (case logfp s of
        None \<Rightarrow> Undef
      | Some l \<Rightarrow>
          Ret () (s\<lparr>logfp := Some (l
            @ map (\<lambda>(j, w). (''wd'', [FI (int j), FI (w_wd w), FS (w_path w)]))
                  (filter (\<lambda>(j, w). 0 \<le> w_wd w) (enumerate 0 (wlCache s)))
            @ [(''Total entries'', [FI (int (length (filter (\<lambda>w. 0 \<le> w_wd w) (wlCache s))))])])\<rparr>))"

definition createStopFileAndAbort :: "'k os \<Rightarrow> 'k dtree \<Rightarrow> ('a, 'k dtree) outcome" where
  "createStopFileAndAbort os s =
     (let s1 = (case stopFile s of None \<Rightarrow> s | Some f \<Rightarrow> s\<lparr>kern := sys_open_creat os f (kern s)\<rparr>)
      in obind (dumpCacheToLog s1) (\<lambda>_ s2. Abort s2))"

definition findWatchChecked :: "'k os \<Rightarrow> int \<Rightarrow> 'k dtree \<Rightarrow> (int, 'k dtree) outcome" where
  "findWatchChecked os wd s =
     (let slot = findWatch (wlCache s) wd in
      if slot \<ge> 0 then Ret slot s
      else
        let s1 = logMessage 0 (''Could not find watch'', [FI wd]) s in
        if abortOnCacheProblem s1 then createStopFileAndAbort os s1 else Ret (-1) s1)"

definition empty_slot :: watch where
  "empty_slot = \<lparr>w_wd = -1, w_path = []\<rparr>"

definition markCacheSlotEmpty :: "nat \<Rightarrow> 'k dtree \<Rightarrow> 'k dtree" where
  "markCacheSlotEmpty slot s =
     (let w = wlCache s ! slot;
          s1 = logMessage VB_NOISY (''markCacheSlotEmpty'', [FI (int slot), FI (w_wd w), FS (w_path w)]) s
      in s1\<lparr>wlCache := (wlCache s1)[slot := empty_slot]\<rparr>)"

text \<open>
  New slots are blanked one by one, which logs what they hold: a pathname array without a null
  byte is then read past its end.
\<close>

definition findEmptyCacheSlot :: "'k os \<Rightarrow> 'k dtree \<Rightarrow> (int, 'k dtree) outcome" where
  "findEmptyCacheSlot os s =
     (let j = find_slot (\<lambda>w. w_wd w = -1) (wlCache s) in
      if j \<ge> 0 then Ret j s
      else
        let n = length (wlCache s) in
        case sys_realloc os (n + ALLOC_INCR) (kern s) of
          None \<Rightarrow> Exit EXIT_FAILURE s
        | Some fresh \<Rightarrow>
            if prints VB_NOISY s \<and> (\<exists>i\<in>set [n..<n + ALLOC_INCR]. fresh i = None) then Undef
            else
              Ret (int n)
                (fold markCacheSlotEmpty [n..<n + ALLOC_INCR]
                   (s\<lparr>wlCache := wlCache s @ map (\<lambda>i. case fresh i of Some w \<Rightarrow> w | None \<Rightarrow> empty_slot) [n..<n + ALLOC_INCR]\<rparr>)))"

definition addWatchToCache :: "'k os \<Rightarrow> int \<Rightarrow> cstring \<Rightarrow> 'k dtree \<Rightarrow> (int, 'k dtree) outcome" where
  "addWatchToCache os wd pathname s =
     obind (findEmptyCacheSlot os s) (\<lambda>slot s.
       Ret slot (s\<lparr>wlCache := (wlCache s)[nat slot := \<lparr>w_wd = wd, w_path = strncpy pathname PATH_MAX\<rparr>]\<rparr>))"

text \<open>
  The consistency check as it is written: the directory test hangs on the test for a used
  slot, so it looks at unused slots and at the \<^verbatim>\<open>stat\<close> buffer of an earlier
  iteration, which may not have been filled yet.
\<close>

fun checkCacheConsistency_loop ::
  "'k os \<Rightarrow> nat list \<Rightarrow> fstat option \<Rightarrow> int \<Rightarrow> 'k dtree \<Rightarrow> (int, 'k dtree) outcome" where
  "checkCacheConsistency_loop os [] sb failures s = Ret failures s"
| "checkCacheConsistency_loop os (j # js) sb failures s =
     (let w = wlCache s ! j in
      if 0 \<le> w_wd w then
        (case sys_lstat os (w_path w) (kern s) of
           Inl e \<Rightarrow> checkCacheConsistency_loop os js sb (failures + 1)
                     (logMessage 0 (''checkCacheConsistency: stat'',
                        [FI (int j), FI (w_wd w), FS (w_path w), FE e]) s)
         | Inr st \<Rightarrow> checkCacheConsistency_loop os js (Some st) failures s)
      else
        (case sb of
           None \<Rightarrow> Undef
         | Some st \<Rightarrow>
             if \<not> st_isdir st
             then Exit EXIT_FAILURE (logMessage 0 (''is not a directory'', [FS (w_path w)]) s)
             else checkCacheConsistency_loop os js sb failures s))"

definition checkCacheConsistency :: "'k os \<Rightarrow> 'k dtree \<Rightarrow> (unit, 'k dtree) outcome" where
  "checkCacheConsistency os s =
     obind (checkCacheConsistency_loop os [0..<length (wlCache s)] None 0 s) (\<lambda>failures s.
       Ret () (if failures > 0 then logMessage VB_NOISY (''failures'', [FI failures]) s else s))"

section \<open>The cache as a finite map\<close>

definition cache_map :: "watch list \<Rightarrow> int \<rightharpoonup> cstring" where
  "cache_map c wd = (if wd < 0 then None else map_option w_path (find (\<lambda>w. w_wd w = wd) c))"

text \<open>
  The representation invariant: unused slots are blank, no watch descriptor occupies two
  slots, and the array grows by whole increments.
\<close>

definition cache_ok :: "watch list \<Rightarrow> bool" where
  "cache_ok c \<longleftrightarrow>
     (\<forall>w\<in>set c. used w \<or> w = empty_slot) \<and> distinct (map w_wd (filter used c))
     \<and> ALLOC_INCR dvd length c"

lemma used_empty_slot [simp]: "\<not> used empty_slot"
  by (simp add: used_def empty_slot_def)

lemma w_empty_slot [simp]: "w_wd empty_slot = -1" "w_path empty_slot = []"
  by (simp_all add: empty_slot_def)

lemma cache_ok_Nil [simp]: "cache_ok []"
  by (simp add: cache_ok_def)

lemma slot_split:
  "j < length c \<Longrightarrow> \<exists>l r. c = l @ c ! j # r \<and> length l = j \<and> (\<forall>x. c[j := x] = l @ x # r)"
  by (metis id_take_nth_drop length_take min.absorb2 order_less_imp_le upd_conv_take_nth_drop)

lemma find_map_Some_iff:
  assumes "distinct (map w_wd (filter used c))" and "0 \<le> wd"
  shows "find (\<lambda>w. w_wd w = wd) c = Some w \<longleftrightarrow> w \<in> set c \<and> w_wd w = wd"
  using assms by (induction c) (auto simp: used_def split: if_splits)

lemma cache_map_Some_iff:
  assumes "cache_ok c"
  shows "cache_map c wd = Some p \<longleftrightarrow> (\<exists>w\<in>set c. used w \<and> w_wd w = wd \<and> w_path w = p)"
  using assms find_map_Some_iff [of c wd]
  by (auto simp: cache_map_def cache_ok_def used_def)

lemma cache_map_neg [simp]: "wd < 0 \<Longrightarrow> cache_map c wd = None"
  by (simp add: cache_map_def)

lemma cache_map_empty: "cache_map [] = Map.empty"
  by (rule ext) (simp add: cache_map_def)

lemma map_eqI_Some: "(\<And>k v. m k = Some v \<longleftrightarrow> m' k = Some v) \<Longrightarrow> m = m'"
  by (rule ext) (metis option.exhaust)

lemma cache_ok_mark:
  assumes "cache_ok c" and "j < length c"
  shows "cache_ok (c[j := empty_slot])"
    and "cache_map (c[j := empty_slot]) = (cache_map c)(w_wd (c ! j) := None)"
proof -
  from slot_split [OF assms(2)] obtain l r
    where c: "c = l @ c ! j # r" and upd: "c[j := empty_slot] = l @ empty_slot # r" by blast
  have ok: "cache_ok (l @ c ! j # r)" using assms(1) c by simp
  from ok show ok': "cache_ok (c[j := empty_slot])"
    unfolding upd by (auto simp: cache_ok_def split: if_splits)
  have others: "\<forall>w\<in>set l \<union> set r. used w \<longrightarrow> w_wd w \<noteq> w_wd (c ! j)"
  proof (cases "used (c ! j)")
    case True
    with ok have "w_wd (c ! j) \<notin> w_wd ` {w \<in> set l \<union> set r. used w}"
      by (auto simp: cache_ok_def)
    then show ?thesis by (metis (mono_tags, lifting) image_eqI mem_Collect_eq)
  next
    case False
    with ok have "w_wd (c ! j) = -1" by (auto simp: cache_ok_def)
    then show ?thesis by (auto simp: used_def)
  qed
  have "cache_map (l @ empty_slot # r) = (cache_map (l @ c ! j # r))(w_wd (c ! j) := None)"
  proof (rule map_eqI_Some)
    fix k v
    show "cache_map (l @ empty_slot # r) k = Some v \<longleftrightarrow>
        ((cache_map (l @ c ! j # r))(w_wd (c ! j) := None)) k = Some v"
      using ok' ok others unfolding upd by (auto simp: cache_map_Some_iff)
  qed
  then show "cache_map (c[j := empty_slot]) = (cache_map c)(w_wd (c ! j) := None)"
    using c upd by simp
qed

lemma cache_ok_store:
  assumes "cache_ok c" and "j < length c" and "w_wd (c ! j) = -1" and "0 \<le> wd"
    and "cache_map c wd = None"
  shows "cache_ok (c[j := \<lparr>w_wd = wd, w_path = p\<rparr>])"
    and "cache_map (c[j := \<lparr>w_wd = wd, w_path = p\<rparr>]) = (cache_map c)(wd \<mapsto> p)"
proof -
  let ?w = "\<lparr>w_wd = wd, w_path = p\<rparr>"
  from slot_split [OF assms(2)] obtain l r
    where c: "c = l @ c ! j # r" and upd: "c[j := ?w] = l @ ?w # r" by blast
  have ok: "cache_ok (l @ c ! j # r)" using assms(1) c by simp
  have unused: "\<not> used (c ! j)" using assms(3) by (simp add: used_def)
  have fresh: "\<forall>w\<in>set (l @ c ! j # r). used w \<longrightarrow> w_wd w \<noteq> wd"
    using assms(5) cache_map_Some_iff [OF assms(1), of wd] c by (metis option.distinct(1))
  from ok unused fresh show ok': "cache_ok (c[j := ?w])"
    unfolding upd using assms(4) by (auto simp: cache_ok_def used_def)
  have "cache_map (l @ ?w # r) = (cache_map (l @ c ! j # r))(wd \<mapsto> p)"
  proof (rule map_eqI_Some)
    fix k v
    show "cache_map (l @ ?w # r) k = Some v \<longleftrightarrow> ((cache_map (l @ c ! j # r))(wd \<mapsto> p)) k = Some v"
      using ok' ok unused fresh assms(4) unfolding upd
      by (auto simp: cache_map_Some_iff used_def)
  qed
  then show "cache_map (c[j := ?w]) = (cache_map c)(wd \<mapsto> p)" using c upd by simp
qed

lemma cache_ok_grow:
  assumes "cache_ok c"
  shows "cache_ok (c @ replicate ALLOC_INCR empty_slot)"
    and "cache_map (c @ replicate ALLOC_INCR empty_slot) = cache_map c"
proof -
  from assms show ok: "cache_ok (c @ replicate ALLOC_INCR empty_slot)"
    by (auto simp: cache_ok_def)
  show "cache_map (c @ replicate ALLOC_INCR empty_slot) = cache_map c"
    by (rule map_eqI_Some) (auto simp: cache_map_Some_iff ok assms)
qed

section \<open>The operations on the map\<close>

text \<open>
  \<open>only_cache s t\<close>: \<open>t\<close> differs from \<open>s\<close> in the slot array and in what was
  logged, in nothing else.
\<close>

definition only_cache :: "'k dtree \<Rightarrow> 'k dtree \<Rightarrow> bool" where
  "only_cache s t \<longleftrightarrow> core (s\<lparr>wlCache := []\<rparr>) = core (t\<lparr>wlCache := []\<rparr>)
     \<and> (logfp s = None) = (logfp t = None)"

lemma only_cache_refl [simp, intro]: "only_cache s s"
  by (simp add: only_cache_def)

lemma only_cache_trans [trans]: "only_cache s t \<Longrightarrow> only_cache t u \<Longrightarrow> only_cache s u"
  by (simp add: only_cache_def)

lemma only_cache_log [simp]:
  "only_cache s (logMessage v m t) = only_cache s t"
  "only_cache (logMessage v m s) t = only_cache s t"
  by (simp_all add: only_cache_def core_def logMessage_def Let_def split: option.splits)

lemma only_cache_upd [simp]:
  "only_cache s (t\<lparr>wlCache := c\<rparr>) = only_cache s t"
  "only_cache (s\<lparr>wlCache := c\<rparr>) t = only_cache s t"
  by (simp_all add: only_cache_def core_def)

lemma only_cacheD:
  assumes "only_cache s t"
  shows "kern t = kern s" "rootDirPaths t = rootDirPaths s" "ignoreRootDirs t = ignoreRootDirs s"
    "ifd t = ifd s" "dirCnt t = dirCnt s" "abortOnCacheProblem t = abortOnCacheProblem s"
    "checkCache t = checkCache s" "dumpCache t = dumpCache s" "readBufferSize t = readBufferSize s"
    "(logfp t = None) = (logfp s = None)" "verboseMask t = verboseMask s"
  using assms by (cases s; cases t; simp add: only_cache_def core_def)+

lemma wlCache_mark [simp]: "wlCache (markCacheSlotEmpty j s) = (wlCache s)[j := empty_slot]"
  by (simp add: markCacheSlotEmpty_def Let_def)

lemma only_cache_mark [simp]: "only_cache s (markCacheSlotEmpty j t) = only_cache s t"
  by (simp add: markCacheSlotEmpty_def Let_def)

lemma fold_mark:
  "wlCache (fold markCacheSlotEmpty js s) = fold (\<lambda>j c. c[j := empty_slot]) js (wlCache s)"
  "only_cache s (fold markCacheSlotEmpty js s)"
proof -
  have "only_cache t (fold markCacheSlotEmpty js s)" if "only_cache t s" for t
    using that by (induction js arbitrary: s) simp_all
  then show "only_cache s (fold markCacheSlotEmpty js s)" by simp
  show "wlCache (fold markCacheSlotEmpty js s) = fold (\<lambda>j c. c[j := empty_slot]) js (wlCache s)"
    by (induction js arbitrary: s) simp_all
qed

lemma fold_update_fresh:
  "length c = n \<Longrightarrow> fold (\<lambda>j c. c[j := x]) [n..<n + length ys] (c @ ys) = c @ replicate (length ys) x"
proof (induction ys arbitrary: c n)
  case (Cons y ys)
  have "fold (\<lambda>j c. c[j := x]) [Suc n..<Suc n + length ys] ((c @ [x]) @ ys)
      = (c @ [x]) @ replicate (length ys) x"
    by (rule Cons.IH) (simp add: Cons.prems)
  moreover have "[n..<n + length (y # ys)] = n # [Suc n..<Suc n + length ys]"
    using upt_conv_Cons [of n "n + length (y # ys)"] by simp
  ultimately show ?case using Cons.prems by (simp add: list_update_append)
qed simp

lemma findWatch_iff:
  assumes "cache_ok c" and "0 \<le> wd"
  shows "findWatch c wd \<ge> 0 \<longleftrightarrow> cache_map c wd \<noteq> None"
    and "findWatch c wd \<ge> 0 \<Longrightarrow> nat (findWatch c wd) < length c
           \<and> w_wd (c ! nat (findWatch c wd)) = wd
           \<and> cache_map c wd = Some (w_path (c ! nat (findWatch c wd)))"
proof -
  have none: "cache_map c wd = None \<longleftrightarrow> (\<forall>w\<in>set c. w_wd w \<noteq> wd)"
    using assms(2) by (auto simp: cache_map_def find_None_iff)
  then show "findWatch c wd \<ge> 0 \<longleftrightarrow> cache_map c wd \<noteq> None"
    by (auto simp: findWatch_def find_slot_nonneg_iff)
  assume "findWatch c wd \<ge> 0"
  note f = find_slot_found [OF this [unfolded findWatch_def]]
  have "c ! nat (findWatch c wd) \<in> set c" using f(1) by (simp add: findWatch_def)
  then have "cache_map c wd = Some (w_path (c ! nat (findWatch c wd)))"
    using f(2) assms unfolding cache_map_Some_iff [OF assms(1)] findWatch_def used_def
    by (intro bexI [of _ "c ! nat (find_slot (\<lambda>w. w_wd w = wd) c)"]) simp_all
  then show "nat (findWatch c wd) < length c \<and> w_wd (c ! nat (findWatch c wd)) = wd
           \<and> cache_map c wd = Some (w_path (c ! nat (findWatch c wd)))"
    using f by (simp add: findWatch_def)
qed

text \<open>A free slot is always found or made; the map it stores does not change.\<close>

lemma findEmptyCacheSlot_spec:
  assumes "cache_ok (wlCache s)" and "findEmptyCacheSlot os s = Ret j t"
  shows "0 \<le> j \<and> nat j < length (wlCache t) \<and> w_wd (wlCache t ! nat j) = -1 \<and> cache_ok (wlCache t)
    \<and> cache_map (wlCache t) = cache_map (wlCache s) \<and> only_cache s t"
proof (cases "find_slot (\<lambda>w. w_wd w = -1) (wlCache s) \<ge> 0")
  case True
  with assms find_slot_found [OF True] show ?thesis
    by (auto simp: findEmptyCacheSlot_def Let_def)
next
  case False
  let ?n = "length (wlCache s)"
  from False assms(2) obtain fresh :: "nat \<Rightarrow> watch" where j: "j = int ?n"
    and t: "t = fold markCacheSlotEmpty [?n..<?n + ALLOC_INCR]
                 (s\<lparr>wlCache := wlCache s @ map fresh [?n..<?n + ALLOC_INCR]\<rparr>)"
    by (auto simp: findEmptyCacheSlot_def Let_def split: option.splits if_splits)
  have len: "length (map fresh [?n..<?n + ALLOC_INCR]) = ALLOC_INCR" by simp
  have c: "wlCache t = wlCache s @ replicate ALLOC_INCR empty_slot"
    using fold_update_fresh [of "wlCache s" ?n empty_slot "map fresh [?n..<?n + ALLOC_INCR]", OF refl]
    unfolding t fold_mark(1) len by simp
  have "only_cache s t" unfolding t using fold_mark(2) only_cache_upd(2) by blast
  moreover have "0 < ALLOC_INCR" by (simp add: ALLOC_INCR_def)
  ultimately show ?thesis
    using c j cache_ok_grow [OF assms(1)] by (simp add: nth_append)
qed

lemma addWatchToCache_spec:
  assumes "cache_ok (wlCache s)" and "0 \<le> wd" and "cache_map (wlCache s) wd = None"
    and "addWatchToCache os wd p s = Ret j t"
  shows "cache_ok (wlCache t) \<and> cache_map (wlCache t) = (cache_map (wlCache s))(wd \<mapsto> strncpy p PATH_MAX)
    \<and> only_cache s t"
proof -
  from assms(4) obtain u where u: "findEmptyCacheSlot os s = Ret j u"
    and t: "t = u\<lparr>wlCache := (wlCache u)[nat j := \<lparr>w_wd = wd, w_path = strncpy p PATH_MAX\<rparr>]\<rparr>"
    by (auto simp: addWatchToCache_def obind_Ret_iff)
  note f = findEmptyCacheSlot_spec [OF assms(1) u]
  from f assms(3) have "cache_map (wlCache u) wd = None" by simp
  with f cache_ok_store [of "wlCache u" "nat j" wd "strncpy p PATH_MAX"] assms(2) t
  show ?thesis by simp
qed

text \<open>
  Whether a message about new slots reads only what is there: either \<^verbatim>\<open>realloc()\<close> happens to
  deliver arrays that hold a null byte, or such messages are not printed.
\<close>

definition terminated_memory :: "'k os \<Rightarrow> bool" where
  "terminated_memory os \<longleftrightarrow> (\<forall>n k fresh i. sys_realloc os n k = Some fresh \<longrightarrow> fresh i \<noteq> None)"

definition fresh_ok :: "'k os \<Rightarrow> 'k dtree \<Rightarrow> bool" where
  "fresh_ok os s \<longleftrightarrow> terminated_memory os \<or> \<not> prints VB_NOISY s"

lemma prints_simps [simp]:
  "prints v (logMessage v' m s) = prints v s" "prints v (s\<lparr>kern := k\<rparr>) = prints v s"
  "prints v (s\<lparr>dirCnt := d\<rparr>) = prints v s" "prints v (s\<lparr>ifd := d\<rparr>) = prints v s"
  "prints v (s\<lparr>wlCache := c\<rparr>) = prints v s" "prints v (s\<lparr>reinitCnt := d\<rparr>) = prints v s"
  "prints v (s\<lparr>overflowCnt := d\<rparr>) = prints v s" "prints v (s\<lparr>inotifyReadCnt := d\<rparr>) = prints v s"
  "prints v (s\<lparr>rootDirPaths := r\<rparr>) = prints v s" "prints v (s\<lparr>rootDirStat := t\<rparr>) = prints v s"
  "prints v (s\<lparr>ignoreRootDirs := i\<rparr>) = prints v s" "prints v (s\<lparr>dumpCache := b\<rparr>) = prints v s"
  "prints v (s\<lparr>checkCache := b\<rparr>) = prints v s" "prints v (s\<lparr>stdout_out := ls\<rparr>) = prints v s"
  "prints v (s\<lparr>abortOnCacheProblem := b\<rparr>) = prints v s" "prints v (s\<lparr>stopFile := f\<rparr>) = prints v s"
  "prints v (s\<lparr>readBufferSize := d\<rparr>) = prints v s" "logfp s = Some l \<Longrightarrow> prints v (s\<lparr>logfp := Some l'\<rparr>) = prints v s"
  by (simp_all add: prints_def)

lemma fresh_ok_simps [simp]:
  "fresh_ok os (logMessage v m s) = fresh_ok os s" "fresh_ok os (s\<lparr>kern := k\<rparr>) = fresh_ok os s"
  "fresh_ok os (s\<lparr>dirCnt := d\<rparr>) = fresh_ok os s" "fresh_ok os (s\<lparr>ifd := d\<rparr>) = fresh_ok os s"
  "fresh_ok os (s\<lparr>wlCache := c\<rparr>) = fresh_ok os s" "fresh_ok os (s\<lparr>reinitCnt := d\<rparr>) = fresh_ok os s"
  "fresh_ok os (s\<lparr>overflowCnt := d\<rparr>) = fresh_ok os s" "fresh_ok os (s\<lparr>inotifyReadCnt := d\<rparr>) = fresh_ok os s"
  "fresh_ok os (s\<lparr>rootDirPaths := r\<rparr>) = fresh_ok os s" "fresh_ok os (s\<lparr>rootDirStat := t\<rparr>) = fresh_ok os s"
  "fresh_ok os (s\<lparr>ignoreRootDirs := i\<rparr>) = fresh_ok os s" "fresh_ok os (s\<lparr>dumpCache := b\<rparr>) = fresh_ok os s"
  "fresh_ok os (s\<lparr>checkCache := b\<rparr>) = fresh_ok os s" "fresh_ok os (s\<lparr>stdout_out := ls\<rparr>) = fresh_ok os s"
  "fresh_ok os (s\<lparr>abortOnCacheProblem := b\<rparr>) = fresh_ok os s" "fresh_ok os (s\<lparr>stopFile := f\<rparr>) = fresh_ok os s"
  "fresh_ok os (s\<lparr>readBufferSize := d\<rparr>) = fresh_ok os s"
  "logfp s = Some l \<Longrightarrow> fresh_ok os (s\<lparr>logfp := Some l'\<rparr>) = fresh_ok os s"
  by (simp_all add: fresh_ok_def)

text \<open>Without verbose messages a full cache just grows by blank slots.\<close>

lemma logMessage_quiet: "\<not> prints v s \<Longrightarrow> logMessage v m s = s"
  by (simp add: logMessage_def prints_def Let_def)

lemma fold_mark_quiet:
  "\<not> prints VB_NOISY s \<Longrightarrow> fold markCacheSlotEmpty js s = s\<lparr>wlCache := fold (\<lambda>j c. c[j := empty_slot]) js (wlCache s)\<rparr>"
proof (induction js arbitrary: s)
  case (Cons j js)
  then have "\<not> prints VB_NOISY (s\<lparr>wlCache := (wlCache s)[j := empty_slot]\<rparr>)" by (simp add: prints_def)
  from Cons.IH [OF this] show ?case using Cons.prems by (simp add: markCacheSlotEmpty_def logMessage_quiet)
qed simp

lemma findEmptyCacheSlot_grows:
  assumes "\<not> prints VB_NOISY s" and "find_slot (\<lambda>w. w_wd w = -1) (wlCache s) < 0"
    and "sys_realloc os (length (wlCache s) + ALLOC_INCR) (kern s) = Some fresh"
  shows "findEmptyCacheSlot os s = Ret (int (length (wlCache s))) (s\<lparr>wlCache := wlCache s @ replicate ALLOC_INCR empty_slot\<rparr>)"
proof -
  let ?n = "length (wlCache s)" and ?f = "\<lambda>i. case fresh i of Some w \<Rightarrow> w | None \<Rightarrow> empty_slot"
  have "\<not> prints VB_NOISY (s\<lparr>wlCache := wlCache s @ map ?f [?n..<?n + ALLOC_INCR]\<rparr>)" using assms(1) by (simp add: prints_def)
  from fold_mark_quiet [OF this] show ?thesis
    using assms fold_update_fresh [of "wlCache s" ?n empty_slot "map ?f [?n..<?n + ALLOC_INCR]", OF refl]
    by (simp add: findEmptyCacheSlot_def Let_def)
qed

lemma findEmptyCacheSlot_total:
  "fresh_ok os s \<Longrightarrow> \<exists>j t. findEmptyCacheSlot os s = Ret j t \<or> findEmptyCacheSlot os s = Exit EXIT_FAILURE s"
  by (auto simp: findEmptyCacheSlot_def fresh_ok_def terminated_memory_def Let_def split: option.splits) (metis option.distinct(1))

lemma addWatchToCache_cases:
  "fresh_ok os s \<Longrightarrow> (\<exists>j t. addWatchToCache os wd p s = Ret j t) \<or> addWatchToCache os wd p s = Exit EXIT_FAILURE s"
  using findEmptyCacheSlot_total [of os s] by (auto simp: addWatchToCache_def)

section \<open>The interface the tree walk relies on\<close>

text \<open>
  A store of watches: a lookup map with finitely many entries, an insertion that may end
  the process, and the law that inserting a descriptor that is not stored yet extends the
  map by it. What a client needs of one insertion is that nothing stored is lost and that
  the number of entries grows by exactly one.
\<close>

locale watch_store =
  fixes ok :: "'s \<Rightarrow> bool"
    and look :: "'s \<Rightarrow> int \<Rightarrow> cstring option"
    and put :: "int \<Rightarrow> cstring \<Rightarrow> 's \<Rightarrow> ('r, 's) outcome"
    and stored :: "cstring \<Rightarrow> cstring"
  assumes finite_look: "ok s \<Longrightarrow> finite (dom (look s))"
    and put_ok: "ok s \<Longrightarrow> 0 \<le> wd \<Longrightarrow> look s wd = None \<Longrightarrow> put wd p s = Ret r t \<Longrightarrow> ok t"
    and put_look: "ok s \<Longrightarrow> 0 \<le> wd \<Longrightarrow> look s wd = None \<Longrightarrow> put wd p s = Ret r t \<Longrightarrow>
      look t = (look s)(wd \<mapsto> stored p)"
begin

lemma put_grows:
  assumes "ok s" and "0 \<le> wd" and "look s wd = None" and "put wd p s = Ret r t"
  shows "look s \<subseteq>\<^sub>m look t" and "card (dom (look t)) = Suc (card (dom (look s)))"
    and "ran (look t) = insert (stored p) (ran (look s))"
proof -
  note l = put_look [OF assms]
  show "look s \<subseteq>\<^sub>m look t" using assms(3) l by (auto simp: map_le_def)
  have "wd \<notin> dom (look s)" using assms(3) by auto
  then show "card (dom (look t)) = Suc (card (dom (look s)))"
    using l finite_look [OF assms(1)] by simp
  show "ran (look t) = insert (stored p) (ran (look s))"
    using l assms(3) by (simp add: ran_map_upd)
qed

end

lemma finite_cache_map: "cache_ok c \<Longrightarrow> finite (dom (cache_map c))"
proof -
  assume "cache_ok c"
  then have "dom (cache_map c) \<subseteq> w_wd ` set c" by (auto simp: cache_map_Some_iff)
  then show ?thesis by (rule finite_subset) simp
qed

interpretation wc: watch_store "\<lambda>s. cache_ok (wlCache s)" "\<lambda>s. cache_map (wlCache s)"
    "addWatchToCache os" "\<lambda>p. strncpy p PATH_MAX" for os
  by unfold_locales (use addWatchToCache_spec finite_cache_map in blast)+

lemma card_cache_map: "cache_ok c \<Longrightarrow> card (dom (cache_map c)) = length (filter used c)"
proof -
  assume ok: "cache_ok c"
  then have "dom (cache_map c) = set (map w_wd (filter used c))"
    by (simp add: set_eq_iff cache_map_Some_iff dom_def image_iff) blast
  moreover have "distinct (map w_wd (filter used c))" using ok by (simp add: cache_ok_def)
  ultimately show ?thesis by (metis distinct_card length_map)
qed

end
