(* ===== verification/Dtree_Tree.thy ===== *)
theory Dtree_Tree
  imports Watch_Cache
begin

text \<open>
  The functions of \<^verbatim>\<open>inotify_dtree.c\<close> that work on whole directory trees: the list
  of root directories, the tree walk that adds watches, renaming and zapping a subtree in
  the cache, and rebuilding the cache from scratch.
\<close>

section \<open>Root directories\<close>

fun copyRootDirPaths_loop :: "'k os \<Rightarrow> cstring list \<Rightarrow> 'k dtree \<Rightarrow> (unit, 'k dtree) outcome" where
  "copyRootDirPaths_loop os [] s = Ret () s"
| "copyRootDirPaths_loop os (a # as) s =
     (if \<not> sys_alloc os (length a + 1) (kern s) then Exit EXIT_FAILURE s
      else case sys_lstat os a (kern s) of
        Inl e \<Rightarrow> Exit EXIT_FAILURE s
      | Inr st \<Rightarrow>
          (let s1 = s\<lparr>rootDirPaths := rootDirPaths s @ [Some a], rootDirStat := rootDirStat s @ [st]\<rparr>
           in if \<exists>st'\<in>set (rootDirStat s). st_ino st = st_ino st' \<and> st_dev st = st_dev st'
              then Exit EXIT_FAILURE s1
              else copyRootDirPaths_loop os as s1))"

text \<open>
  The second allocation is tested through the first pointer; when it fails, the first
  \<^verbatim>\<open>lstat()\<close> on the null array fails and ends the program.
\<close>

definition copyRootDirPaths :: "'k os \<Rightarrow> cstring list \<Rightarrow> 'k dtree \<Rightarrow> (unit, 'k dtree) outcome" where
  "copyRootDirPaths os argv s =
     (if \<exists>p\<in>set argv. (case sys_lstat os p (kern s) of Inl _ \<Rightarrow> True | Inr sb \<Rightarrow> \<not> st_isdir sb)
      then Exit EXIT_FAILURE s
      else if \<not> sys_alloc os (8 * length argv) (kern s) then Exit EXIT_FAILURE s
      else if \<not> sys_alloc os (144 * length argv) (kern s) \<and> argv \<noteq> [] then Exit EXIT_FAILURE s
      else obind (copyRootDirPaths_loop os argv (s\<lparr>rootDirPaths := [], rootDirStat := []\<rparr>)) (\<lambda>_ s.
             Ret () (s\<lparr>ignoreRootDirs := 0\<rparr>)))"

definition findRootDirPath :: "cstring option list \<Rightarrow> cstring \<Rightarrow> int" where
  "findRootDirPath roots path = find_slot (\<lambda>r. r = Some path) roots"

definition isRootDirPath :: "cstring option list \<Rightarrow> cstring \<Rightarrow> bool" where
  "isRootDirPath roots path \<longleftrightarrow> findRootDirPath roots path \<ge> 0"

definition zapRootDirPath :: "cstring \<Rightarrow> 'k dtree \<Rightarrow> (unit, 'k dtree) outcome" where
  "zapRootDirPath path s =
     (let p = findRootDirPath (rootDirPaths s) path in
      if p < 0 then Exit EXIT_FAILURE s
      else
        let s1 = s\<lparr>rootDirPaths := (rootDirPaths s)[nat p := None], ignoreRootDirs := ignoreRootDirs s + 1\<rparr>
        in if ignoreRootDirs s1 = length (rootDirPaths s1) then Exit EXIT_SUCCESS s1 else Ret () s1)"

section \<open>Walking a tree\<close>

definition watch_flags :: "cstring option list \<Rightarrow> cstring \<Rightarrow> mask" where
  "watch_flags roots pathname =
     (let flags = IN_CREATE OR IN_MOVED_FROM OR IN_MOVED_TO OR IN_DELETE_SELF
      in if isRootDirPath roots pathname then flags OR IN_MOVE_SELF else flags)"

definition traverseTree :: "'k os \<Rightarrow> cstring \<times> bool \<Rightarrow> 'k dtree \<Rightarrow> (unit, 'k dtree) outcome" where
  "traverseTree os entry s =
     (let (pathname, is_dir) = entry in
      if \<not> is_dir then Ret () s
      else
        let (r, k) = sys_inotify_add_watch os (ifd s) pathname
                       (watch_flags (rootDirPaths s) pathname OR IN_ONLYDIR) (kern s);
            s = s\<lparr>kern := k\<rparr>
        in case r of
             Inl e \<Rightarrow>
               (let s1 = logMessage VB_BASIC (''inotify_add_watch'', [FS pathname, FE e]) s
                in if e = ENOENT then Ret () s1 else Exit EXIT_FAILURE s1)
           | Inr wd \<Rightarrow>
               if findWatch (wlCache s) wd \<ge> 0
               then Ret () (logMessage VB_BASIC (''already in cache'', [FI wd, FS pathname]) s)
               else obind (addWatchToCache os wd pathname (s\<lparr>dirCnt := dirCnt s + 1\<rparr>)) (\<lambda>slot s.
                      Ret () (logMessage VB_NOISY (''watchDir'', [FI wd, FI slot, FS pathname]) s)))"

definition watchDir :: "'k os \<Rightarrow> int \<Rightarrow> cstring \<Rightarrow> 'k dtree \<Rightarrow> (int, 'k dtree) outcome" where
  "watchDir os inotifyFd pathname s =
     (let ((visits, walked), k) = sys_nftw os pathname (kern s) in
      obind (ofold (traverseTree os) visits (s\<lparr>dirCnt := 0, ifd := inotifyFd, kern := k\<rparr>)) (\<lambda>_ s.
        Ret (dirCnt s) (if walked then s else logMessage VB_BASIC (''nftw'', [FS pathname]) s)))"

definition watchSubtree :: "'k os \<Rightarrow> int \<Rightarrow> cstring \<Rightarrow> 'k dtree \<Rightarrow> (unit, 'k dtree) outcome" where
  "watchSubtree os inotifyFd path s =
     obind (watchDir os inotifyFd path s) (\<lambda>cnt s.
       Ret () (logMessage VB_BASIC (''watchSubtree'', [FS path, FI cnt]) s))"

section \<open>Renaming and zapping subtrees\<close>

text \<open>
  The test of both loops: the cached path is \<open>full\<close> itself or lies below it.
\<close>

definition in_subtree :: "cstring \<Rightarrow> cstring \<Rightarrow> bool" where
  "in_subtree full p \<longleftrightarrow> strncmp_eq full p (length full)
     \<and> (cchar p (length full) = CHR ''/'' \<or> cchar p (length full) = NUL)"

definition join_path :: "cstring \<Rightarrow> cstring \<Rightarrow> cstring" where
  "join_path d n = d @ ''/'' @ n"

definition rewrite_slot :: "cstring \<Rightarrow> cstring \<Rightarrow> nat \<Rightarrow> 'k dtree \<Rightarrow> 'k dtree" where
  "rewrite_slot fullPath newPrefix j s =
     (let w = wlCache s ! j in
      if in_subtree fullPath (w_path w) then
        let text = newPrefix @ drop (length fullPath) (w_path w);
            newPath = snprintf PATH_MAX text;
            s1 = (if length text > PATH_MAX then logMessage VB_BASIC (''Truncated pathname'', [FS newPath]) s else s);
            s2 = s1\<lparr>wlCache := (wlCache s1)[j := w\<lparr>w_path := strncpy newPath PATH_MAX\<rparr>]\<rparr>
        in logMessage VB_NOISY (''wd'', [FI (w_wd w), FI (int j), FS newPath]) s2
      else s)"

definition rewriteCachedPaths ::
  "cstring \<Rightarrow> cstring \<Rightarrow> cstring \<Rightarrow> cstring \<Rightarrow> 'k dtree \<Rightarrow> 'k dtree" where
  "rewriteCachedPaths oldPathPrefix oldName newPathPrefix newName s =
     (let fullPath = snprintf PATH_MAX (join_path oldPathPrefix oldName);
          newPrefix = snprintf PATH_MAX (join_path newPathPrefix newName);
          s1 = logMessage VB_BASIC (''Rename'', [FS fullPath, FS newPrefix]) s
      in fold (rewrite_slot fullPath newPrefix) [0..<length (wlCache s)] s1)"

fun zapSubtree_loop ::
  "'k os \<Rightarrow> int \<Rightarrow> cstring \<Rightarrow> nat list \<Rightarrow> int \<Rightarrow> 'k dtree \<Rightarrow> int \<times> 'k dtree" where
  "zapSubtree_loop os inotifyFd pn [] cnt s = (cnt, s)"
| "zapSubtree_loop os inotifyFd pn (j # js) cnt s =
     (let w = wlCache s ! j in
      if 0 \<le> w_wd w \<and> in_subtree pn (w_path w) then
        let s1 = logMessage VB_NOISY (''removing watch'', [FI (w_wd w), FS (w_path w)]) s;
            (r, k) = sys_inotify_rm_watch os inotifyFd (w_wd w) (kern s1);
            s2 = s1\<lparr>kern := k\<rparr>
        in case r of
             Some e \<Rightarrow> (-1, logMessage 0 (''inotify_rm_watch'', [FI (w_wd w), FS (w_path w), FE e]) s2)
           | None \<Rightarrow> zapSubtree_loop os inotifyFd pn js (cnt + 1) (markCacheSlotEmpty j s2)
      else zapSubtree_loop os inotifyFd pn js cnt s)"

definition zap_all :: "'k os \<Rightarrow> int \<Rightarrow> cstring \<Rightarrow> 'k dtree \<Rightarrow> int \<times> 'k dtree" where
  "zap_all os inotifyFd path s =
     zapSubtree_loop os inotifyFd path [0..<length (wlCache s)] 0
       (logMessage VB_NOISY (''Zapping subtree'', [FS path]) s)"

text \<open>The copy \<^verbatim>\<open>strdup()\<close> makes is not tested: without memory the first used slot is compared with a null pointer.\<close>

definition zapSubtree :: "'k os \<Rightarrow> int \<Rightarrow> cstring \<Rightarrow> 'k dtree \<Rightarrow> (int, 'k dtree) outcome" where
  "zapSubtree os inotifyFd path s =
     (if \<not> sys_alloc os (length path + 1) (kern s) \<and> (\<exists>w\<in>set (wlCache s). 0 \<le> w_wd w) then Undef
      else (case zap_all os inotifyFd path s of (cnt, s) \<Rightarrow> Ret cnt s))"

section \<open>Rebuilding the cache\<close>

text \<open>One turn of the loop over the root directories.\<close>

definition rebuild_root :: "'k os \<Rightarrow> int \<Rightarrow> cstring option \<Rightarrow> 'k dtree \<Rightarrow> (unit, 'k dtree) outcome" where
  "rebuild_root os fd p s = (case p of None \<Rightarrow> Ret () s | Some d \<Rightarrow> watchSubtree os fd d s)"

definition reinitialize :: "'k os \<Rightarrow> int \<Rightarrow> 'k dtree \<Rightarrow> (int, 'k dtree) outcome" where
  "reinitialize os oldInotifyFd s =
     (let s1 = (if oldInotifyFd \<ge> 0
                then let s0 = s\<lparr>kern := sys_close os oldInotifyFd (kern s), reinitCnt := reinitCnt s + 1\<rparr>
                     in logMessage 0 (''Reinitializing cache'', [FI (reinitCnt s0)]) s0
                else (logMessage 0 (''Initializing cache'', []) s)\<lparr>reinitCnt := 0\<rparr>);
          (r, k) = sys_inotify_init os (kern s1);
          s2 = s1\<lparr>kern := k\<rparr>
      in case r of
           Inl e \<Rightarrow> Exit EXIT_FAILURE s2
         | Inr inotifyFd \<Rightarrow>
             (let s3 = freeCache (logMessage VB_BASIC (''new inotifyFd'', [FI inotifyFd]) s2)
              in obind (ofold (rebuild_root os inotifyFd) (rootDirPaths s3) s3) (\<lambda>_ s.
                   let cnt = int (length (filter (\<lambda>w. 0 \<le> w_wd w) (wlCache s))) in
                   Ret inotifyFd
                     (if oldInotifyFd \<ge> 0 then logMessage 0 (''Rebuilt cache'', [FI cnt]) s else s))))"

section \<open>Paths below a directory\<close>

definition subpath :: "cstring \<Rightarrow> cstring \<Rightarrow> bool" where
  "subpath d p \<longleftrightarrow> p = d \<or> (\<exists>r. p = d @ CHR ''/'' # r)"

lemma in_subtree_append:
  "in_subtree full (full @ r) \<longleftrightarrow> r = [] \<or> hd r = CHR ''/'' \<or> hd r = NUL"
  by (cases r) (auto simp: in_subtree_def cchar_def strncmp_eq_prefix)

lemma in_subtreeE: "in_subtree full p \<Longrightarrow> \<exists>r. p = full @ r"
  by (metis append_take_drop_id strncmp_eq_prefix in_subtree_def)

text \<open>On C strings the test of the loops is exactly the subpath relation.\<close>

lemma in_subtree_iff:
  assumes "no_nul p"
  shows "in_subtree full p \<longleftrightarrow> subpath full p"
proof
  assume u: "in_subtree full p"
  then obtain r where p: "p = full @ r" using in_subtreeE by blast
  with u assms show "subpath full p" by (cases r) (auto simp: in_subtree_append subpath_def)
next
  assume "subpath full p"
  then show "in_subtree full p" using in_subtree_append [of full "[]"] by (auto simp: subpath_def in_subtree_append)
qed

lemma subpath_refl [simp]: "subpath d d"
  by (simp add: subpath_def)

lemma subpath_trans: "subpath a b \<Longrightarrow> subpath b c \<Longrightarrow> subpath a c"
  by (auto simp: subpath_def)

lemma not_in_subtree_empty: "full \<noteq> [] \<Longrightarrow> \<not> in_subtree full []"
  using in_subtreeE by fastforce

section \<open>Renaming a subtree\<close>

definition rewrite_watch :: "cstring \<Rightarrow> cstring \<Rightarrow> watch \<Rightarrow> watch" where
  "rewrite_watch full np w =
     (if in_subtree full (w_path w)
      then w\<lparr>w_path := strncpy (snprintf PATH_MAX (np @ drop (length full) (w_path w))) PATH_MAX\<rparr> else w)"

definition rewrite_path :: "cstring \<Rightarrow> cstring \<Rightarrow> cstring \<Rightarrow> cstring" where
  "rewrite_path full np p =
     (if in_subtree full p then strncpy (snprintf PATH_MAX (np @ drop (length full) p)) PATH_MAX else p)"

lemma rewrite_watch_sel [simp]:
  "w_wd (rewrite_watch full np w) = w_wd w"
  "w_path (rewrite_watch full np w) = rewrite_path full np (w_path w)"
  by (simp_all add: rewrite_watch_def rewrite_path_def)

lemma fold_slots_map:
  "fold (\<lambda>j c. c[j := f (c ! j)]) [0..<length c] c = map f c"
proof -
  have "fold (\<lambda>j c. c[j := f (c ! j)]) [0..<n] c = map f (take n c) @ drop n c" if "n \<le> length c" for n
    using that
  proof (induction n)
    case (Suc n)
    then have "drop n c = c ! n # drop (Suc n) c" by (simp add: Cons_nth_drop_Suc)
    moreover have "take (Suc n) c = take n c @ [c ! n]"
      using Suc.prems by (simp add: take_Suc_conv_app_nth)
    ultimately show ?case
      using Suc by (simp add: list_update_append nth_append)
  qed simp
  from this [of "length c"] show ?thesis by simp
qed

lemma rewrite_slot_frame: "only_cache u s \<Longrightarrow> only_cache u (rewrite_slot full np j s)"
  by (simp add: rewrite_slot_def Let_def)

lemma wlCache_rewrite_slot:
  "wlCache (rewrite_slot full np j s) = (wlCache s)[j := rewrite_watch full np (wlCache s ! j)]"
  by (simp add: rewrite_slot_def rewrite_watch_def Let_def)

lemma rewriteCachedPaths_spec:
  fixes s :: "'k dtree"
  defines "full \<equiv> \<lambda>d n. snprintf PATH_MAX (join_path d n)"
  shows "wlCache (rewriteCachedPaths od on nd nn s) = map (rewrite_watch (full od on) (full nd nn)) (wlCache s)"
    and "only_cache s (rewriteCachedPaths od on nd nn s)"
proof -
  let ?g = "rewrite_slot (full od on) (full nd nn)"
  have c: "wlCache (fold ?g js u) =
      fold (\<lambda>j c. c[j := rewrite_watch (full od on) (full nd nn) (c ! j)]) js (wlCache u)"
    for js and u :: "'k dtree"
    by (induction js arbitrary: u) (simp_all add: wlCache_rewrite_slot)
  show "wlCache (rewriteCachedPaths od on nd nn s) = map (rewrite_watch (full od on) (full nd nn)) (wlCache s)"
    by (simp add: rewriteCachedPaths_def Let_def c [unfolded full_def] fold_slots_map full_def)
  have "only_cache s (fold ?g js u)" if "only_cache s u" for js u
    using that by (induction js arbitrary: u) (simp_all add: rewrite_slot_frame)
  then show "only_cache s (rewriteCachedPaths od on nd nn s)"
    by (simp add: rewriteCachedPaths_def Let_def full_def)
qed

lemma full_path_nonempty: "snprintf PATH_MAX (join_path d n) \<noteq> []"
  by (simp add: snprintf_def join_path_def PATH_MAX_def)

lemma find_map_wd:
  assumes "\<And>w. w_wd (f w) = w_wd w"
  shows "find (\<lambda>w. w_wd w = wd) (map f c) = map_option f (find (\<lambda>w. w_wd w = wd) c)"
  by (induction c) (simp_all add: assms)

lemma cache_map_rewrite:
  "cache_map (map (rewrite_watch full np) c) wd = map_option (rewrite_path full np) (cache_map c wd)"
  by (simp add: cache_map_def find_map_wd option.map_comp comp_def)

lemma cache_ok_rewrite:
  assumes "cache_ok c" and "full \<noteq> []"
  shows "cache_ok (map (rewrite_watch full np) c)"
proof -
  have "rewrite_watch full np empty_slot = empty_slot"
    using not_in_subtree_empty [OF assms(2)] by (simp add: rewrite_watch_def)
  moreover have "used (rewrite_watch full np w) = used w" for w by (simp add: used_def)
  ultimately show ?thesis using assms(1)
    by (force simp: cache_ok_def filter_map comp_def)
qed

section \<open>Zapping a subtree\<close>

definition zap_cond :: "cstring \<Rightarrow> watch \<Rightarrow> bool" where
  "zap_cond pn w \<longleftrightarrow> used w \<and> in_subtree pn (w_path w)"

text \<open>
  The loop blanks the matching slots it reaches. Only a failing \<^verbatim>\<open>inotify_rm_watch()\<close>
  stops it early, and then the result is -1.
\<close>

lemma zapSubtree_loop_spec:
  assumes "zapSubtree_loop os fd pn js cnt s = (r, t)" and "0 \<le> cnt"
    and "distinct js" and "\<forall>j\<in>set js. j < length (wlCache s)"
  shows "length (wlCache t) = length (wlCache s)
    \<and> (\<forall>j<length (wlCache s). wlCache t ! j = wlCache s ! j
          \<or> j \<in> set js \<and> zap_cond pn (wlCache s ! j) \<and> wlCache t ! j = empty_slot)
    \<and> (r = -1 \<or> r = cnt + int (length (filter (\<lambda>j. zap_cond pn (wlCache s ! j)) js))
        \<and> (\<forall>j\<in>set js. zap_cond pn (wlCache s ! j) \<longrightarrow> wlCache t ! j = empty_slot))
    \<and> only_cache (s\<lparr>kern := kern t\<rparr>) t"
  using assms
proof (induction js arbitrary: cnt s)
  case Nil
  then show ?case by simp
next
  case (Cons j js)
  let ?w = "wlCache s ! j"
  show ?case
  proof (cases "zap_cond pn ?w")
    case False
    then have "zapSubtree_loop os fd pn js cnt s = (r, t)"
      using Cons.prems(1) by (auto simp: zap_cond_def used_def Let_def split: if_splits)
    from Cons.IH [OF this] Cons.prems False show ?thesis by auto
  next
    case True
    let ?s1 = "logMessage VB_NOISY (''removing watch'', [FI (w_wd ?w), FS (w_path ?w)]) s"
    obtain e k where rm: "sys_inotify_rm_watch os fd (w_wd ?w) (kern s) = (e, k)" by fastforce
    let ?s2 = "?s1\<lparr>kern := k\<rparr>"
    show ?thesis
    proof (cases e)
      case (Some x)
      with Cons.prems(1) True rm show ?thesis
        by (auto simp: zap_cond_def used_def Let_def)
    next
      case None
      let ?u = "markCacheSlotEmpty j ?s2"
      from None Cons.prems(1) True rm
      have run: "zapSubtree_loop os fd pn js (cnt + 1) ?u = (r, t)" by (simp add: zap_cond_def used_def Let_def)
      have u: "wlCache ?u = (wlCache s)[j := empty_slot]" by simp
      have oc: "only_cache (s\<lparr>kern := kern t\<rparr>) (?u\<lparr>kern := kern t\<rparr>)"
        by (simp add: markCacheSlotEmpty_def Let_def) (simp add: only_cache_def core_def)
      from Cons.prems have j: "j \<notin> set js" "distinct js" "j < length (wlCache s)"
        "\<forall>i\<in>set js. i < length (wlCache ?u)" "0 \<le> cnt + 1" by (auto simp: u)
      note ih = Cons.IH [OF run j(5) j(2) j(4)]
      have same: "wlCache ?u ! i = wlCache s ! i" if "i \<noteq> j" for i
        using that u by simp
      have "filter (\<lambda>i. zap_cond pn (wlCache ?u ! i)) js = filter (\<lambda>i. zap_cond pn (wlCache s ! i)) js"
        by (rule filter_cong [OF refl]) (metis j(1) same)
      then have res: "r = -1 \<or> r = cnt + int (length (filter (\<lambda>i. zap_cond pn (wlCache s ! i)) (j # js)))
          \<and> (\<forall>i\<in>set js. zap_cond pn (wlCache ?u ! i) \<longrightarrow> wlCache t ! i = empty_slot)"
        using ih True by auto
      have len: "length (wlCache t) = length (wlCache s)" using ih u by simp
      have each: "wlCache t ! i = wlCache ?u ! i \<or> i \<in> set js \<and> zap_cond pn (wlCache ?u ! i) \<and> wlCache t ! i = empty_slot"
        if "i < length (wlCache s)" for i using ih that u by auto
      from each [OF j(3)] j(1) have at_j: "wlCache t ! j = empty_slot" using u j(3) by simp
      have each': "wlCache t ! i = wlCache s ! i \<or> i \<in> set (j # js) \<and> zap_cond pn (wlCache s ! i) \<and> wlCache t ! i = empty_slot"
        if "i < length (wlCache s)" for i
        using each [OF that] same [of i] at_j True by (cases "i = j") auto
      have zapped: "(\<forall>i\<in>set js. zap_cond pn (wlCache ?u ! i) \<longrightarrow> wlCache t ! i = empty_slot) \<Longrightarrow>
          \<forall>i\<in>set (j # js). zap_cond pn (wlCache s ! i) \<longrightarrow> wlCache t ! i = empty_slot"
        using at_j same by (metis set_ConsD)
      have "only_cache (s\<lparr>kern := kern t\<rparr>) t" using ih oc only_cache_trans by blast
      then show ?thesis using len each' res zapped by blast
    qed
  qed
qed

lemma zapSubtree_loop_nonneg:
  assumes "\<And>wd k. fst (sys_inotify_rm_watch os fd wd k) = None" and "0 \<le> cnt"
  shows "0 \<le> fst (zapSubtree_loop os fd pn js cnt s)"
  using assms(2) by (induction js arbitrary: cnt s) (simp_all add: Let_def case_prod_beta assms(1))

text \<open>
  \<^verbatim>\<open>zapSubtree()\<close> returns the number of entries it removed and leaves exactly the
  entries outside the subtree, or it returns -1 and has removed only entries of the subtree.
\<close>

lemma zap_all_spec:
  assumes "cache_ok (wlCache s)" and "zap_all os fd path s = (r, t)"
  shows "cache_ok (wlCache t)" and "cache_map (wlCache t) \<subseteq>\<^sub>m cache_map (wlCache s)"
    and "only_cache (s\<lparr>kern := kern t\<rparr>) t"
    and "r \<noteq> -1 \<Longrightarrow> r = int (card {wd. \<exists>p. cache_map (wlCache s) wd = Some p \<and> in_subtree path p})
           \<and> cache_map (wlCache t) = cache_map (wlCache s) |` {wd. \<forall>p. cache_map (wlCache s) wd = Some p \<longrightarrow> \<not> in_subtree path p}"
    and "cache_map (wlCache s) wd = Some p \<Longrightarrow> \<not> in_subtree path p \<Longrightarrow> cache_map (wlCache t) wd = Some p"
proof -
  let ?c = "wlCache s" and ?d = "wlCache t"
  let ?s1 = "logMessage VB_NOISY (''Zapping subtree'', [FS path]) s"
  have run: "zapSubtree_loop os fd path [0..<length ?c] 0 ?s1 = (r, t)"
    using assms(2) by (simp add: zap_all_def)
  note sp = zapSubtree_loop_spec [OF run, simplified]
  have len: "length ?d = length ?c" using sp by simp
  have each: "j < length ?c \<Longrightarrow> ?d ! j = ?c ! j \<or> zap_cond path (?c ! j) \<and> ?d ! j = empty_slot" for j
    using sp by auto
  have from_c: "w \<in> set ?c" if "w \<in> set ?d" "used w" for w
    using that each len by (auto simp: in_set_conv_nth) (metis used_empty_slot)
  have stays: "w \<in> set ?d" if "w \<in> set ?c" "\<not> zap_cond path w" for w
    using that each len by (auto simp: in_set_conv_nth)
  have "distinct (map w_wd (filter used ?c))" using assms(1) by (simp add: cache_ok_def)
  then have "distinct (map w_wd (filter used ?d))" and dz: "distinct (map w_wd (filter (zap_cond path) ?c))"
    unfolding distinct_map_filter_iff using each len
    by (metis order_less_trans used_empty_slot, metis zap_cond_def)
  moreover have "\<forall>w\<in>set ?d. used w \<or> w = empty_slot"
    using each len assms(1) by (auto simp: in_set_conv_nth cache_ok_def) (metis nth_mem)
  ultimately show ok: "cache_ok ?d" using assms(1) len by (simp add: cache_ok_def)
  show "cache_map ?d \<subseteq>\<^sub>m cache_map ?c"
  proof (unfold map_le_def, intro ballI)
    fix wd
    assume "wd \<in> dom (cache_map ?d)"
    then obtain p where p: "cache_map ?d wd = Some p" by blast
    then have "cache_map ?c wd = Some p"
      using from_c by (auto simp: cache_map_Some_iff ok assms(1))
    with p show "cache_map ?d wd = cache_map ?c wd" by simp
  qed
  show "only_cache (s\<lparr>kern := kern t\<rparr>) t"
    using sp by simp
  show keep: "cache_map ?c wd = Some p \<Longrightarrow> \<not> in_subtree path p \<Longrightarrow> cache_map ?d wd = Some p" for wd p
    using stays by (auto simp: cache_map_Some_iff ok assms(1) zap_cond_def)
  assume r: "r \<noteq> -1"
  have gone: "\<not> zap_cond path w" if "w \<in> set ?d" for w
    using that r sp len each by (auto simp: in_set_conv_nth zap_cond_def)
  have "{wd. \<exists>p. cache_map ?c wd = Some p \<and> in_subtree path p} = set (map w_wd (filter (zap_cond path) ?c))"
    by (auto simp: cache_map_Some_iff assms(1) zap_cond_def)
  then have "int (card {wd. \<exists>p. cache_map ?c wd = Some p \<and> in_subtree path p}) = r"
    using distinct_card [OF dz] sp r length_filter_nth [of "zap_cond path" ?c] by simp
  moreover have "cache_map ?d = cache_map ?c |` {wd. \<forall>p. cache_map ?c wd = Some p \<longrightarrow> \<not> in_subtree path p}"
  proof (rule map_eqI_Some)
    fix wd p
    have "cache_map ?d wd = Some p \<longleftrightarrow> cache_map ?c wd = Some p \<and> \<not> in_subtree path p"
      using keep from_c gone by (auto simp: cache_map_Some_iff ok assms(1) zap_cond_def)
    then show "cache_map ?d wd = Some p \<longleftrightarrow>
        (cache_map ?c |` {wd. \<forall>p. cache_map ?c wd = Some p \<longrightarrow> \<not> in_subtree path p}) wd = Some p"
      by (auto simp: restrict_map_def)
  qed
  ultimately show "r = int (card {wd. \<exists>p. cache_map ?c wd = Some p \<and> in_subtree path p})
      \<and> cache_map ?d = cache_map ?c |` {wd. \<forall>p. cache_map ?c wd = Some p \<longrightarrow> \<not> in_subtree path p}"
    by simp
qed

lemma zapSubtree_all: "zapSubtree os fd path s = Ret r t \<Longrightarrow> zap_all os fd path s = (r, t)"
  by (auto simp: zapSubtree_def split: if_splits prod.splits)

lemmas zapSubtree_spec = zap_all_spec [OF _ zapSubtree_all]

text \<open>\<^verbatim>\<open>strdup()\<close> finds memory.\<close>

definition strdup_ok :: "'k os \<Rightarrow> bool" where
  "strdup_ok os \<longleftrightarrow> (\<forall>n k. sys_alloc os n k)"

lemma zapSubtree_returns: "strdup_ok os \<Longrightarrow> \<exists>r t. zapSubtree os fd path s = Ret r t \<and> zap_all os fd path s = (r, t)"
  by (auto simp: zapSubtree_def strdup_ok_def split: prod.splits)

section \<open>What the tree walk adds\<close>

text \<open>
  What is relied on of the kernel: \<^verbatim>\<open>inotify_add_watch()\<close> returns a nonnegative
  watch descriptor when it succeeds.
\<close>

definition add_watch_nonneg :: "'k os \<Rightarrow> bool" where
  "add_watch_nonneg os \<longleftrightarrow>
     (\<forall>fd p m k wd k'. sys_inotify_add_watch os fd p m k = (Inr wd, k') \<longrightarrow> 0 \<le> wd)"

text \<open>The settings and the list of roots, which building the cache leaves alone.\<close>

definition same_config :: "'k dtree \<Rightarrow> 'k dtree \<Rightarrow> bool" where
  "same_config s t \<longleftrightarrow> rootDirPaths t = rootDirPaths s \<and> ignoreRootDirs t = ignoreRootDirs s
     \<and> abortOnCacheProblem t = abortOnCacheProblem s \<and> checkCache t = checkCache s
     \<and> dumpCache t = dumpCache s \<and> readBufferSize t = readBufferSize s
     \<and> verboseMask t = verboseMask s \<and> (logfp t = None) = (logfp s = None)"

lemma same_config_refl [simp]: "same_config s s"
  by (simp add: same_config_def)

lemma same_config_trans: "same_config s t \<Longrightarrow> same_config t u \<Longrightarrow> same_config s u"
  by (simp add: same_config_def)

lemma same_config_upd [simp]:
  "same_config s (logMessage v m t) = same_config s t"
  "same_config (logMessage v m s) t = same_config s t"
  "same_config s (t\<lparr>kern := k\<rparr>) = same_config s t"
  "same_config (s\<lparr>kern := k\<rparr>) t = same_config s t"
  "same_config s (t\<lparr>dirCnt := d\<rparr>) = same_config s t"
  "same_config (s\<lparr>dirCnt := d\<rparr>) t = same_config s t"
  "same_config s (t\<lparr>ifd := d\<rparr>) = same_config s t"
  "same_config (s\<lparr>ifd := d\<rparr>) t = same_config s t"
  "same_config s (t\<lparr>reinitCnt := d\<rparr>) = same_config s t"
  "same_config s (t\<lparr>overflowCnt := d\<rparr>) = same_config s t"
  "same_config s (t\<lparr>wlCache := c\<rparr>) = same_config s t"
  "same_config (s\<lparr>wlCache := c\<rparr>) t = same_config s t"
  by (simp_all add: same_config_def)

lemma only_cache_same_config: "only_cache s t \<Longrightarrow> same_config s t"
  using only_cacheD [of s t] by (simp add: same_config_def)

definition grows :: "cstring set \<Rightarrow> 'k dtree \<Rightarrow> 'k dtree \<Rightarrow> bool" where
  "grows V s t \<longleftrightarrow> cache_ok (wlCache t) \<and> cache_map (wlCache s) \<subseteq>\<^sub>m cache_map (wlCache t)
     \<and> int (card (dom (cache_map (wlCache t)))) - dirCnt t = int (card (dom (cache_map (wlCache s)))) - dirCnt s
     \<and> ran (cache_map (wlCache t)) \<subseteq> ran (cache_map (wlCache s)) \<union> (\<lambda>p. strncpy p PATH_MAX) ` V
     \<and> same_config s t \<and> dirCnt s \<le> dirCnt t"

lemma grows_refl: "cache_ok (wlCache s) \<Longrightarrow> grows V s s"
  by (simp add: grows_def)

lemma grows_trans: "grows V s t \<Longrightarrow> grows V t u \<Longrightarrow> grows V s u"
  unfolding grows_def by (auto intro: map_le_trans same_config_trans)

lemma grows_ok: "grows V s t \<Longrightarrow> cache_ok (wlCache t)"
  by (simp add: grows_def)

lemma add_watch_nonnegD:
  "add_watch_nonneg os \<Longrightarrow> sys_inotify_add_watch os fd p m k = (Inr wd, k') \<Longrightarrow> 0 \<le> wd"
  unfolding add_watch_nonneg_def by blast

lemma grows_log [simp]:
  "grows V s (logMessage v m t) = grows V s t"
  "grows V (logMessage v m s) t = grows V s t"
  by (simp_all add: grows_def)

lemma grows_kern [simp]:
  "grows V s (t\<lparr>kern := k\<rparr>) = grows V s t"
  "grows V (s\<lparr>kern := k\<rparr>) t = grows V s t"
  by (simp_all add: grows_def)

text \<open>
  Calls that either return or end the program with a failure status: no abort and no
  undefined behaviour.
\<close>

definition ends_well :: "('a, 's) outcome \<Rightarrow> bool" where
  "ends_well m \<longleftrightarrow> (case m of Ret a s \<Rightarrow> True | Exit c s \<Rightarrow> c = EXIT_FAILURE | _ \<Rightarrow> False)"

lemma ends_well_simps [simp]:
  "ends_well (Ret a s)" "ends_well (Exit c s) \<longleftrightarrow> c = EXIT_FAILURE" "\<not> ends_well (Abort s)" "\<not> ends_well Undef"
  by (simp_all add: ends_well_def)

lemma ends_well_obind: "ends_well m \<Longrightarrow> (\<And>a s. m = Ret a s \<Longrightarrow> ends_well (f a s)) \<Longrightarrow> ends_well (obind m f)"
  by (cases m) simp_all

text \<open>The calls of the tree walk do not change which messages are printed.\<close>

definition walks :: "'k os \<Rightarrow> 'k dtree \<Rightarrow> ('a, 'k dtree) outcome \<Rightarrow> bool" where
  "walks os s m \<longleftrightarrow> (case m of Ret a t \<Rightarrow> verboseMask t = verboseMask s \<and> (logfp t = None) = (logfp s = None) | _ \<Rightarrow> True)
     \<and> (fresh_ok os s \<longrightarrow> ends_well m)"

lemma walks_simps [simp]:
  "walks os s (Ret a t) \<longleftrightarrow> verboseMask t = verboseMask s \<and> (logfp t = None) = (logfp s = None)"
  "walks os s (Exit EXIT_FAILURE t)"
  by (simp_all add: walks_def)

lemma walks_from:
  "verboseMask s = verboseMask t \<Longrightarrow> (logfp s = None) = (logfp t = None) \<Longrightarrow> walks os s m = walks os t m"
  by (simp add: walks_def fresh_ok_def prints_def split: outcome.splits)

lemma walks_obind:
  assumes "walks os s m" and "\<And>a t. m = Ret a t \<Longrightarrow> walks os t (f a t)"
  shows "walks os s (obind m f)"
proof (cases m)
  case (Ret a t)
  with assms(1) have "verboseMask s = verboseMask t" "(logfp s = None) = (logfp t = None)" by simp_all
  then show ?thesis using Ret assms(2) by (simp add: walks_from [of s t])
qed (use assms(1) in \<open>simp_all add: walks_def\<close>)

lemma walks_ofold: "(\<And>x s. walks os s (f x s)) \<Longrightarrow> walks os s (ofold f xs s)"
  by (induction xs arbitrary: s) (simp_all add: walks_obind)

lemma addWatchToCache_walks: "walks os s (addWatchToCache os wd p s)"
proof (cases "addWatchToCache os wd p s")
  case (Ret j t)
  then obtain u where u: "findEmptyCacheSlot os s = Ret j u" and t: "t = u\<lparr>wlCache := (wlCache u)[nat j := \<lparr>w_wd = wd, w_path = strncpy p PATH_MAX\<rparr>]\<rparr>"
    by (auto simp: addWatchToCache_def obind_Ret_iff)
  have "only_cache s (fold markCacheSlotEmpty js (s\<lparr>wlCache := c\<rparr>))" for js c
    using fold_mark(2) [of "s\<lparr>wlCache := c\<rparr>" js] by simp
  then have "only_cache s u" using u by (auto simp: findEmptyCacheSlot_def Let_def split: if_splits option.splits)
  from only_cacheD [OF this] show ?thesis by (simp add: Ret t)
qed (use addWatchToCache_cases [of os s wd p] in \<open>auto simp: walks_def\<close>)

lemma traverseTree_walks: "walks os s (traverseTree os e s)"
proof -
  have "walks os s (addWatchToCache os wd p (s\<lparr>kern := k, dirCnt := d\<rparr>))" for wd p k d
    using addWatchToCache_walks [of os "s\<lparr>kern := k, dirCnt := d\<rparr>"] by (simp add: walks_from [of "s\<lparr>kern := k, dirCnt := d\<rparr>" s])
  then show ?thesis
    by (auto simp: traverseTree_def Let_def simp del: EXIT_FAILURE_def intro!: walks_obind split: prod.splits sum.splits)
qed

lemma watchDir_walks: "walks os s (watchDir os fd p s)"
proof -
  have "walks os s (ofold (traverseTree os) vs (s\<lparr>dirCnt := 0, ifd := fd, kern := k\<rparr>))" for vs k
    using walks_ofold [of os "traverseTree os" "s\<lparr>dirCnt := 0, ifd := fd, kern := k\<rparr>" vs, OF traverseTree_walks]
    by (simp add: walks_from [of "s\<lparr>dirCnt := 0, ifd := fd, kern := k\<rparr>" s])
  then show ?thesis by (auto simp: watchDir_def intro!: walks_obind split: prod.splits)
qed

lemma watchSubtree_walks: "walks os s (watchSubtree os fd p s)"
  by (auto simp: watchSubtree_def intro!: walks_obind watchDir_walks)

lemma rebuild_root_walks: "walks os s (rebuild_root os fd p s)"
  by (simp add: rebuild_root_def watchSubtree_walks split: option.splits)

lemma reinitialize_walks: "walks os s (reinitialize os fd s)"
proof -
  have w: "walks os s (obind (ofold (rebuild_root os n) rs u) (\<lambda>_ s. Ret n (g s)))"
    if "verboseMask u = verboseMask s" "(logfp u = None) = (logfp s = None)"
      "\<And>t. verboseMask (g t) = verboseMask t" "\<And>t. (logfp (g t) = None) = (logfp t = None)" for rs n g u
    unfolding walks_from [OF that(1,2) [symmetric]]
    by (auto simp: that intro!: walks_obind walks_ofold rebuild_root_walks)
  show ?thesis
    by (auto simp: reinitialize_def Let_def freeCache_def simp del: EXIT_FAILURE_def intro!: w split: prod.splits sum.splits)
qed

lemma walks_ends_well: "walks os s m \<Longrightarrow> fresh_ok os s \<Longrightarrow> ends_well m"
  by (simp add: walks_def)

lemmas watchSubtree_ends_well = walks_ends_well [OF watchSubtree_walks]
lemmas reinitialize_ends_well = walks_ends_well [OF reinitialize_walks]

lemma traverseTree_grows:
  assumes os: "add_watch_nonneg os" and ok: "cache_ok (wlCache s)"
    and run: "traverseTree os (p, d) s = Ret () t" and V: "d \<Longrightarrow> p \<in> V"
  shows "grows V s t"
proof (cases d)
  case False
  with run ok show ?thesis by (simp add: traverseTree_def grows_refl)
next
  case True
  obtain r k where call: "sys_inotify_add_watch os (ifd s) p
      (watch_flags (rootDirPaths s) p OR IN_ONLYDIR) (kern s) = (r, k)" by fastforce
  let ?s = "s\<lparr>kern := k\<rparr>"
  show ?thesis
  proof (cases r)
    case (Inl e)
    with run call True ok show ?thesis
      by (auto simp: traverseTree_def Let_def grows_refl split: if_splits)
  next
    case (Inr wd)
    with os call have wd: "0 \<le> wd" by (auto intro: add_watch_nonnegD)
    show ?thesis
    proof (cases "findWatch (wlCache s) wd \<ge> 0")
      case True
      with run call \<open>d\<close> Inr ok show ?thesis by (auto simp: traverseTree_def Let_def grows_refl)
    next
      case False
      with findWatch_iff(1) [OF ok wd] have new: "cache_map (wlCache s) wd = None" by auto
      let ?s1 = "?s\<lparr>dirCnt := dirCnt s + 1\<rparr>"
      from run call \<open>d\<close> Inr False obtain slot u where u: "addWatchToCache os wd p ?s1 = Ret slot u"
        and t: "t = logMessage VB_NOISY (''watchDir'', [FI wd, FI slot, FS p]) u"
        by (auto simp: traverseTree_def Let_def obind_Ret_iff)
      have ok1: "cache_ok (wlCache ?s1)" "cache_map (wlCache ?s1) wd = None" using ok new by simp_all
      note g = wc.put_grows [OF ok1(1) wd ok1(2) u]
      have oc: "cache_ok (wlCache u)" "only_cache ?s1 u"
        using addWatchToCache_spec [OF ok1(1) wd ok1(2) u] by auto
      have "same_config s u" using only_cache_same_config [OF oc(2)] by simp
      moreover have "dirCnt u = dirCnt s + 1" using only_cacheD(5) [OF oc(2)] by simp
      ultimately show ?thesis
        using g oc(1) V [OF \<open>d\<close>] by (auto simp: t grows_def)
    qed
  qed
qed

lemma ofold_grows:
  assumes "\<And>x s t. x \<in> set xs \<Longrightarrow> cache_ok (wlCache s) \<Longrightarrow> f x s = Ret () t \<Longrightarrow> grows V s t"
    and "cache_ok (wlCache s)" and "ofold f xs s = Ret () t"
  shows "grows V s t"
  using assms
proof (induction xs arbitrary: s)
  case Nil
  then show ?case by (simp add: grows_refl)
next
  case (Cons x xs)
  from Cons.prems(3) obtain u where u: "f x s = Ret () u" and rest: "ofold f xs u = Ret () t"
    by (auto simp: obind_Ret_iff)
  have g: "grows V s u" using Cons.prems(1) [of x s u] Cons.prems(2) u by simp
  have "grows V u t"
    by (rule Cons.IH [OF _ grows_ok [OF g] rest]) (meson Cons.prems(1) list.set_intros(2))
  with g show ?case by (rule grows_trans)
qed

definition visited_dirs :: "'k os \<Rightarrow> cstring \<Rightarrow> 'k \<Rightarrow> cstring set" where
  "visited_dirs os p k = {q. (q, True) \<in> set (fst (fst (sys_nftw os p k)))}"

lemma watchDir_grows:
  assumes os: "add_watch_nonneg os" and ok: "cache_ok (wlCache s)" and run: "watchDir os fd p s = Ret cnt t"
  shows "grows (visited_dirs os p (kern s)) (s\<lparr>dirCnt := 0\<rparr>) t" and "cnt = dirCnt t"
proof -
  obtain visits walked k where call: "sys_nftw os p (kern s) = ((visits, walked), k)"
    by (metis prod.exhaust)
  let ?s0 = "s\<lparr>dirCnt := 0, ifd := fd, kern := k\<rparr>" and ?V = "visited_dirs os p (kern s)"
  from run call obtain u where u: "ofold (traverseTree os) visits ?s0 = Ret () u" and cnt: "cnt = dirCnt u"
    and t: "t = (if walked then u else logMessage VB_BASIC (''nftw'', [FS p]) u)"
    by (auto simp: watchDir_def obind_Ret_iff)
  have "grows ?V ?s0 u"
  proof (rule ofold_grows [OF _ _ u])
    fix x v w
    assume x: "x \<in> set visits" "cache_ok (wlCache v)" "traverseTree os x v = Ret () w"
    obtain q b where q: "x = (q, b)" by (cases x)
    have "q \<in> ?V" if b using that q x(1) call by (auto simp: visited_dirs_def)
    then show "grows ?V v w" using traverseTree_grows [OF os x(2), of q b w ?V] x(3) q by simp
  qed (use ok in simp)
  then show "grows ?V (s\<lparr>dirCnt := 0\<rparr>) t" using t by (auto simp: grows_def)
  show "cnt = dirCnt t" using cnt t by simp
qed

text \<open>
  Rebuilding the cache restores the representation invariant from any state, and what it
  then holds was visited by a walk below one of the remaining roots.
\<close>

lemma watchSubtree_grows:
  assumes "add_watch_nonneg os" and "cache_ok (wlCache s)" and "watchSubtree os fd p s = Ret () t"
  shows "grows (visited_dirs os p (kern s)) (s\<lparr>dirCnt := 0\<rparr>) t"
proof -
  from assms(3) obtain cnt u where "watchDir os fd p s = Ret cnt u"
    and t: "t = logMessage VB_BASIC (''watchSubtree'', [FS p, FI cnt]) u"
    by (auto simp: watchSubtree_def obind_Ret_iff)
  from watchDir_grows(1) [OF assms(1,2) this(1)] show ?thesis by (simp add: t)
qed

text \<open>\<^verbatim>\<open>nftw()\<close> reports the directory it is given and objects below it only.\<close>

definition nftw_below :: "'k os \<Rightarrow> bool" where
  "nftw_below os \<longleftrightarrow> (\<forall>p k q d. (q, d) \<in> set (fst (fst (sys_nftw os p k))) \<longrightarrow> subpath p q)"

definition below_roots :: "cstring option list \<Rightarrow> watch list \<Rightarrow> bool" where
  "below_roots roots c \<longleftrightarrow>
     (\<forall>q\<in>ran (cache_map c). \<exists>r q'. Some r \<in> set roots \<and> subpath r q' \<and> q = strncpy q' PATH_MAX)"

lemma watchSubtree_below_roots:
  assumes "nftw_below os" and "grows (visited_dirs os d (kern s)) (s\<lparr>dirCnt := 0\<rparr>) t"
    and "below_roots roots (wlCache s)" and "Some d \<in> set roots"
  shows "below_roots roots (wlCache t)"
proof -
  have "\<forall>q\<in>visited_dirs os d (kern s). subpath d q"
    using assms(1) by (auto simp: nftw_below_def visited_dirs_def)
  moreover have "ran (cache_map (wlCache t)) \<subseteq> ran (cache_map (wlCache s))
      \<union> (\<lambda>p. strncpy p PATH_MAX) ` visited_dirs os d (kern s)"
    using assms(2) by (simp add: grows_def)
  ultimately show ?thesis using assms(3,4) unfolding below_roots_def by blast
qed

lemma rebuild_roots:
  assumes os: "add_watch_nonneg os" and "set ps \<subseteq> set roots"
    and "cache_ok (wlCache s)" and "ofold (rebuild_root os fd) ps s = Ret () t"
  shows "cache_ok (wlCache t) \<and> same_config s t
    \<and> (nftw_below os \<longrightarrow> below_roots roots (wlCache s) \<longrightarrow> below_roots roots (wlCache t))"
  using assms
proof (induction ps arbitrary: s)
  case (Cons p ps)
  from Cons.prems(4) obtain u where u: "rebuild_root os fd p s = Ret () u"
    and rest: "ofold (rebuild_root os fd) ps u = Ret () t"
    by (auto simp: obind_Ret_iff)
  have step: "cache_ok (wlCache u) \<and> same_config s u
    \<and> (nftw_below os \<longrightarrow> below_roots roots (wlCache s) \<longrightarrow> below_roots roots (wlCache u))"
  proof (cases p)
    case None
    with u Cons.prems show ?thesis by (simp add: rebuild_root_def)
  next
    case (Some d)
    with u have "watchSubtree os fd d s = Ret () u" by (simp add: rebuild_root_def)
    note g = watchSubtree_grows [OF os Cons.prems(3) this]
    have d: "Some d \<in> set roots" using Cons.prems(2) Some by auto
    have "same_config s u" using g by (simp add: grows_def)
    moreover have "nftw_below os \<longrightarrow> below_roots roots (wlCache s) \<longrightarrow> below_roots roots (wlCache u)"
      using watchSubtree_below_roots [OF _ g _ d] by blast
    ultimately show ?thesis using grows_ok [OF g] by blast
  qed
  have "set ps \<subseteq> set roots" using Cons.prems(2) by simp
  from Cons.IH [OF os this _ rest] step show ?case by (meson same_config_trans)
qed simp

lemma reinitialize_spec:
  assumes os: "add_watch_nonneg os" and run: "reinitialize os fd s = Ret fd' t"
  shows "cache_ok (wlCache t)" and "same_config s t"
    and "nftw_below os \<Longrightarrow> below_roots (rootDirPaths t) (wlCache t)"
proof -
  from run obtain s3 u where u: "ofold (rebuild_root os fd') (rootDirPaths s) s3 = Ret () u"
    and s3: "wlCache s3 = []" "same_config s s3" and t: "wlCache t = wlCache u" "same_config u t"
    by (auto simp: reinitialize_def Let_def obind_Ret_iff freeCache_def
        split: prod.splits sum.splits if_splits)
  from s3(1) have start: "cache_ok (wlCache s3)" "below_roots (rootDirPaths s) (wlCache s3)"
    by (simp_all add: below_roots_def cache_map_empty)
  note r = rebuild_roots [OF os subset_refl start(1) u]
  from r t show "cache_ok (wlCache t)" by simp
  from r t s3 show c: "same_config s t" by (meson same_config_trans)
  assume "nftw_below os"
  with r start have "below_roots (rootDirPaths s) (wlCache u)" by blast
  moreover have "rootDirPaths s = rootDirPaths t"
    using c by (simp add: same_config_def)
  ultimately show "below_roots (rootDirPaths t) (wlCache t)" by (simp add: t(1))
qed

end
