(* ===== verification/Dtree_Demo.thy ===== *)
theory Dtree_Demo
  imports Dtree_Tree
begin

text \<open>
  A small concrete system for evaluating the model of \<^verbatim>\<open>inotify_dtree.c\<close>: an operating
  system that hands out watch descriptors in order and whose calls succeed, and a cache
  that holds the tree \<^verbatim>\<open>/r\<close>, \<^verbatim>\<open>/r/a\<close>, \<^verbatim>\<open>/r/a/b\<close>, \<^verbatim>\<open>/r/ab\<close>, \<^verbatim>\<open>/r/c\<close>.
\<close>

definition demo_os :: "nat os" where
  "demo_os = \<lparr>
     sys_inotify_init = (\<lambda>k. (Inr 3, k)),
     sys_inotify_add_watch = (\<lambda>fd p m k. (Inr (int k), Suc k)),
     sys_inotify_rm_watch = (\<lambda>fd wd k. (None, k)),
     sys_close = (\<lambda>fd k. k),
     sys_nftw = (\<lambda>p k. (([(p, True)], True), k)),
     sys_lstat = (\<lambda>p k. Inr \<lparr>st_isdir = True, st_ino = length p, st_dev = 1\<rparr>),
     sys_alloc = (\<lambda>n k. True),
     sys_realloc = (\<lambda>n k. Some (\<lambda>j. Some empty_slot)),
     sys_read_events = (\<lambda>fd n k. (Inl EINTR, k)),
     sys_sigaction = (\<lambda>k. True),
     sys_read_stdin = (\<lambda>n k. (Inr [], k)),
     sys_open_creat = (\<lambda>f k. k),
     sys_write_file = (\<lambda>f ls k. Some k)\<rparr>"

definition demo_cache :: "watch list" where
  "demo_cache = [\<lparr>w_wd = 1, w_path = ''/r''\<rparr>, \<lparr>w_wd = 2, w_path = ''/r/a''\<rparr>, empty_slot,
     \<lparr>w_wd = 4, w_path = ''/r/a/b''\<rparr>, \<lparr>w_wd = 3, w_path = ''/r/ab''\<rparr>, \<lparr>w_wd = 7, w_path = ''/r/c''\<rparr>] @ replicate 194 empty_slot"

definition demo :: "nat dtree" where
  "demo = \<lparr>verboseMask = 0, checkCache = False, dumpCache = False, readBufferSize = 0, stopFile = None,
     abortOnCacheProblem = False, logfp = None, stderr_out = [], stdout_out = [], inotifyReadCnt = 1, wlCache = demo_cache,
     rootDirPaths = [Some ''/r''], ignoreRootDirs = 0,
     rootDirStat = [\<lparr>st_isdir = True, st_ino = 2, st_dev = 1\<rparr>], dirCnt = 0, ifd = 3, reinitCnt = 0,
     overflowCnt = 0, kern = 8\<rparr>"

lemma demo_cache_ok: "cache_ok demo_cache"
  by (simp add: cache_ok_def demo_cache_def used_def empty_slot_def ALLOC_INCR_def filter_replicate)

lemma demo_add_watch_nonneg: "add_watch_nonneg demo_os"
  by (simp add: add_watch_nonneg_def demo_os_def)

lemma demo_nftw_below: "nftw_below demo_os"
  by (simp add: nftw_below_def demo_os_def)

lemma find_append: "find P (xs @ ys) = (case find P xs of None \<Rightarrow> find P ys | Some x \<Rightarrow> Some x)"
  by (induction xs) simp_all

lemma demo_map:
  "cache_map (wlCache demo) 1 = Some ''/r''" "cache_map (wlCache demo) 2 = Some ''/r/a''"
  "cache_map (wlCache demo) 4 = Some ''/r/a/b''" "cache_map (wlCache demo) 3 = Some ''/r/ab''"
  "cache_map (wlCache demo) 7 = Some ''/r/c''"
  by (simp_all add: cache_map_def demo_def demo_cache_def empty_slot_def find_append)

lemma demo_sel [simp]:
  "wlCache demo = demo_cache" "rootDirPaths demo = [Some ''/r'']" "checkCache demo = False"
  "dumpCache demo = False" "readBufferSize demo = 0" "abortOnCacheProblem demo = False" "kern demo = 8"
  by (simp_all add: demo_def)

lemmas demo_facts = demo_cache_ok demo_add_watch_nonneg demo_map [simplified]

end
