(* ===== verification/Dtree_Events.thy ===== *)
theory Dtree_Events
  imports Dtree_Demo
begin

text \<open>
  The event handler of \<^verbatim>\<open>inotify_dtree.c\<close>: \<^verbatim>\<open>processNextInotifyEvent()\<close>, one
  definition per branch, and the read loop \<^verbatim>\<open>processInotifyEvents()\<close>.

  The event buffer is the list of the \<^verbatim>\<open>struct inotify_event\<close> records it holds from
  the current position on, together with the number of bytes left in it: the kernel
  delivers whole records, and \<open>event_bytes\<close> is the size of one.
\<close>

section \<open>One event\<close>

definition event_bytes :: "inotify_event \<Rightarrow> int" where
  "event_bytes ev = int EVENT_SIZE + int (ev_len ev)"

definition buffer_bytes :: "inotify_event list \<Rightarrow> int" where
  "buffer_bytes evs = sum_list (map event_bytes evs)"

text \<open>
  \<^verbatim>\<open>wlCache[evCacheSlot]\<close>: the slot variable is only assigned when the event has been
  looked up in the cache, and must index the array.
\<close>

definition with_slot ::
  "int option \<Rightarrow> 'k dtree \<Rightarrow> (nat \<Rightarrow> cstring \<Rightarrow> ('a, 'k dtree) outcome) \<Rightarrow> ('a, 'k dtree) outcome" where
  "with_slot evCacheSlot s f =
     (case evCacheSlot of
        None \<Rightarrow> Undef
      | Some j \<Rightarrow> if 0 \<le> j \<and> nat j < length (wlCache s) then f (nat j) (w_path (wlCache s ! nat j)) else Undef)"

text \<open>The cache reached an inconsistent state: rebuild it and drop the rest of the buffer.\<close>

definition discard_buffer :: "'k os \<Rightarrow> int \<Rightarrow> 'k dtree \<Rightarrow> (int \<times> int, 'k dtree) outcome" where
  "discard_buffer os inotifyFd s =
     obind (reinitialize os inotifyFd s) (\<lambda>fd s. Ret (int INOTIFY_READ_BUF_LEN, fd) s)"

text \<open>The common end of the handler: the optional checks, then the number of bytes consumed.\<close>

definition finish_event :: "'k os \<Rightarrow> int \<Rightarrow> int \<Rightarrow> 'k dtree \<Rightarrow> (int \<times> int, 'k dtree) outcome" where
  "finish_event os evLen inotifyFd s =
     obind (if checkCache s then checkCacheConsistency os s else Ret () s) (\<lambda>_ s.
     obind (if dumpCache s then dumpCacheToLog s else Ret () s) (\<lambda>_ s.
     Ret (evLen, inotifyFd) s))"

definition on_create ::
  "'k os \<Rightarrow> int \<Rightarrow> inotify_event \<Rightarrow> int option \<Rightarrow> 'k dtree \<Rightarrow> (unit, 'k dtree) outcome" where
  "on_create os inotifyFd ev evCacheSlot s =
     with_slot evCacheSlot s (\<lambda>j path.
       let fullPath = snprintf (PATH_MAX + NAME_MAX) (join_path path (ev_name ev));
           s1 = logMessage VB_BASIC (''Directory creation'', [FI (ev_wd ev), FS fullPath]) s
       in if \<not> pathnameInCache (wlCache s1) fullPath then watchSubtree os inotifyFd fullPath s1 else Ret () s1)"

definition on_delete_self ::
  "inotify_event \<Rightarrow> int option \<Rightarrow> 'k dtree \<Rightarrow> (unit, 'k dtree) outcome" where
  "on_delete_self ev evCacheSlot s =
     with_slot evCacheSlot s (\<lambda>j path.
       let s1 = logMessage VB_BASIC (''Clearing watchlist item'', [FI (ev_wd ev), FS path]) s
       in obind (if isRootDirPath (rootDirPaths s1) path then zapRootDirPath path s1 else Ret () s1) (\<lambda>_ s.
            Ret () (markCacheSlotEmpty j s)))"

text \<open>
  A rename within the trees: both cached parent paths are known, all paths below the
  renamed directory are rewritten and both events are consumed.
\<close>

definition on_rename ::
  "'k os \<Rightarrow> int \<Rightarrow> inotify_event \<Rightarrow> inotify_event \<Rightarrow> int option \<Rightarrow> 'k dtree \<Rightarrow> (int \<times> int, 'k dtree) outcome" where
  "on_rename os inotifyFd ev nextEv evCacheSlot s =
     obind (findWatchChecked os (ev_wd nextEv) s) (\<lambda>nextEvCacheSlot s.
       if nextEvCacheSlot = -1 then discard_buffer os inotifyFd s
       else with_slot evCacheSlot s (\<lambda>_ oldPath.
            with_slot (Some nextEvCacheSlot) s (\<lambda>_ newPath.
              finish_event os (event_bytes ev + event_bytes nextEv) inotifyFd
                (rewriteCachedPaths oldPath (ev_name ev) newPath (ev_name nextEv) s))))"

text \<open>A directory that left the monitored trees.\<close>

definition on_moved_out ::
  "'k os \<Rightarrow> int \<Rightarrow> inotify_event \<Rightarrow> int \<Rightarrow> bool \<Rightarrow> int option \<Rightarrow> 'k dtree \<Rightarrow> (int \<times> int, 'k dtree) outcome" where
  "on_moved_out os inotifyFd ev bufSize firstTry evCacheSlot s =
     with_slot evCacheSlot s (\<lambda>j path.
       let s1 = logMessage VB_NOISY (''MOVED_OUT'', []) s;
           s2 = logMessage VB_NOISY (''firstTry'', [FI (if firstTry then 1 else 0), FI (bufSize - event_bytes ev)]) s1;
           fullPath = snprintf (PATH_MAX + NAME_MAX) (join_path path (ev_name ev))
       in obind (zapSubtree os inotifyFd fullPath s2) (\<lambda>cnt s3.
            if cnt = -1 then discard_buffer os inotifyFd s3
            else finish_event os (event_bytes ev) inotifyFd s3))"

definition on_moved_from ::
  "'k os \<Rightarrow> int \<Rightarrow> inotify_event \<Rightarrow> inotify_event list \<Rightarrow> int \<Rightarrow> bool \<Rightarrow> int option \<Rightarrow> 'k dtree
    \<Rightarrow> (int \<times> int, 'k dtree) outcome" where
  "on_moved_from os inotifyFd ev rest bufSize firstTry evCacheSlot s =
     (if event_bytes ev < bufSize then
        (case rest of
           [] \<Rightarrow> Undef
         | nextEv # _ \<Rightarrow>
             if has (ev_mask nextEv) IN_MOVED_TO \<and> ev_cookie nextEv = ev_cookie ev
             then on_rename os inotifyFd ev nextEv evCacheSlot s
             else on_moved_out os inotifyFd ev bufSize firstTry evCacheSlot s)
      else if \<not> firstTry then on_moved_out os inotifyFd ev bufSize firstTry evCacheSlot s
      else Ret (-1, inotifyFd) (logMessage VB_NOISY (''HANGING IN_MOVED_FROM'', []) s))"

definition on_overflow :: "'k os \<Rightarrow> int \<Rightarrow> 'k dtree \<Rightarrow> (int \<times> int, 'k dtree) outcome" where
  "on_overflow os inotifyFd s =
     (let s1 = s\<lparr>overflowCnt := overflowCnt s + 1\<rparr>;
          s2 = logMessage 0 (''Queue overflow'', [FI (overflowCnt s1), FI (inotifyReadCnt s1)]) s1
      in obind (reinitialize os inotifyFd s2) (\<lambda>fd s.
           finish_event os (int INOTIFY_READ_BUF_LEN) fd s))"

definition on_unmount :: "int option \<Rightarrow> 'k dtree \<Rightarrow> (unit, 'k dtree) outcome" where
  "on_unmount evCacheSlot s =
     with_slot evCacheSlot s (\<lambda>j path.
       Ret () (markCacheSlotEmpty j (logMessage 0 (''Filesystem unmounted'', [FS path]) s)))"

text \<open>A root directory was renamed: it is no longer monitored.\<close>

definition on_root_moved ::
  "'k os \<Rightarrow> int \<Rightarrow> inotify_event \<Rightarrow> cstring \<Rightarrow> 'k dtree \<Rightarrow> (int \<times> int, 'k dtree) outcome" where
  "on_root_moved os inotifyFd ev path s =
     obind (zapRootDirPath path (logMessage 0 (''Root path moved'', [FS path]) s)) (\<lambda>_ s.
     obind (zapSubtree os inotifyFd path s) (\<lambda>cnt s1.
       if cnt = -1 then discard_buffer os inotifyFd s1
       else finish_event os (event_bytes ev) inotifyFd s1))"

definition is_moved_from_dir :: "mask \<Rightarrow> bool" where
  "is_moved_from_dir m \<longleftrightarrow> m AND (IN_MOVED_FROM OR IN_ISDIR) = IN_MOVED_FROM OR IN_ISDIR"

definition dispatch_event ::
  "'k os \<Rightarrow> int \<Rightarrow> inotify_event \<Rightarrow> inotify_event list \<Rightarrow> int \<Rightarrow> bool \<Rightarrow> int option \<Rightarrow> 'k dtree
    \<Rightarrow> (int \<times> int, 'k dtree) outcome" where
  "dispatch_event os inotifyFd ev rest bufSize firstTry evCacheSlot s =
     (let m = ev_mask ev; evLen = event_bytes ev in
      if has m IN_ISDIR \<and> has m (IN_CREATE OR IN_MOVED_TO) then
        obind (on_create os inotifyFd ev evCacheSlot s) (\<lambda>_ s. finish_event os evLen inotifyFd s)
      else if has m IN_DELETE_SELF then
        obind (on_delete_self ev evCacheSlot s) (\<lambda>_ s. finish_event os evLen inotifyFd s)
      else if is_moved_from_dir m then
        on_moved_from os inotifyFd ev rest bufSize firstTry evCacheSlot s
      else if has m IN_Q_OVERFLOW then on_overflow os inotifyFd s
      else if has m IN_UNMOUNT then
        obind (on_unmount evCacheSlot s) (\<lambda>_ s. finish_event os evLen inotifyFd s)
      else if has m IN_MOVE_SELF then
        with_slot evCacheSlot s (\<lambda>j path.
          if isRootDirPath (rootDirPaths s) path then on_root_moved os inotifyFd ev path s
          else finish_event os evLen inotifyFd s)
      else finish_event os evLen inotifyFd s)"

definition lookup_event ::
  "'k os \<Rightarrow> inotify_event \<Rightarrow> 'k dtree \<Rightarrow> (int option, 'k dtree) outcome" where
  "lookup_event os ev s =
     (if ev_wd ev \<noteq> -1 \<and> \<not> has (ev_mask ev) IN_IGNORED
      then obind (findWatchChecked os (ev_wd ev) s) (\<lambda>j s. Ret (Some j) s)
      else Ret None s)"

definition processNextInotifyEvent ::
  "'k os \<Rightarrow> int \<Rightarrow> inotify_event list \<Rightarrow> int \<Rightarrow> bool \<Rightarrow> 'k dtree \<Rightarrow> (int \<times> int, 'k dtree) outcome" where
  "processNextInotifyEvent os inotifyFd buf bufSize firstTry s =
     (case buf of
        [] \<Rightarrow> Undef
      | ev # rest \<Rightarrow>
          obind (lookup_event os ev (displayInotifyEvent ev s)) (\<lambda>evCacheSlot s.
            if evCacheSlot = Some (-1) then discard_buffer os inotifyFd s
            else dispatch_event os inotifyFd ev rest bufSize firstTry evCacheSlot s))"

section \<open>Reading events\<close>

text \<open>The records left after \<open>n\<close> bytes of the buffer.\<close>

fun skip_bytes :: "int \<Rightarrow> inotify_event list \<Rightarrow> inotify_event list" where
  "skip_bytes n [] = []"
| "skip_bytes n (e # es) = (if event_bytes e \<le> n then skip_bytes (n - event_bytes e) es else e # es)"

text \<open>
  The loop over the buffer. \<open>numRead\<close> counts the bytes from \<^verbatim>\<open>evp\<close> to the end of the
  data. A hanging \<^verbatim>\<open>IN_MOVED_FROM\<close> asks for one more \<^verbatim>\<open>read()\<close>; when that is
  interrupted, the code still adds the -1 it returned, because it tests \<^verbatim>\<open>errno != -1\<close>
  where the result is meant. The first argument bounds the number of iterations; \<open>None\<close>
  means that the bound was reached.
\<close>

fun process_loop ::
  "nat \<Rightarrow> 'k os \<Rightarrow> int \<Rightarrow> inotify_event list \<Rightarrow> int \<Rightarrow> bool \<Rightarrow> 'k dtree \<Rightarrow> (int, 'k dtree) outcome option" where
  "process_loop 0 os fd evs numRead firstTry s = (if numRead > 0 then None else Some (Ret fd s))"
| "process_loop (Suc n) os fd evs numRead firstTry s =
     (if numRead \<le> 0 then Some (Ret fd s)
      else case processNextInotifyEvent os fd evs numRead firstTry s of
        Exit c t \<Rightarrow> Some (Exit c t)
      | Abort t \<Rightarrow> Some (Abort t)
      | Undef \<Rightarrow> Some Undef
      | Ret (evLen, fd) s \<Rightarrow>
          if evLen > 0 then process_loop n os fd (skip_bytes evLen evs) (numRead - evLen) True s
          else
            (let (r, k) = sys_read_events os fd (nat (int INOTIFY_READ_BUF_LEN - numRead)) (kern s);
                 s1 = s\<lparr>kern := k\<rparr>
             in case r of
                  Inl e \<Rightarrow>
                    if e \<noteq> EINTR then Some (Exit EXIT_FAILURE s1)
                    else (let s2 = s1\<lparr>inotifyReadCnt := inotifyReadCnt s1 + 1\<rparr>
                          in process_loop n os fd evs (numRead - 1) False
                               (logMessage VB_NOISY (''SECONDARY Read'', [FI (inotifyReadCnt s2), FI (-1)]) s2))
                | Inr extra \<Rightarrow>
                    if extra = [] then Some (Exit EXIT_FAILURE s1)
                    else (let s2 = s1\<lparr>inotifyReadCnt := inotifyReadCnt s1 + 1\<rparr>
                          in process_loop n os fd (evs @ extra) (numRead + buffer_bytes extra) False
                               (logMessage VB_NOISY (''SECONDARY Read'', [FI (inotifyReadCnt s2), FI (buffer_bytes extra)]) s2))))"

text \<open>
  The read buffer is an array of fixed size; a larger read count, which the option \<^verbatim>\<open>-b\<close>
  can ask for, lets \<^verbatim>\<open>read()\<close> write past its end.
\<close>

definition processInotifyEvents ::
  "nat \<Rightarrow> 'k os \<Rightarrow> int \<Rightarrow> 'k dtree \<Rightarrow> (int, 'k dtree) outcome option" where
  "processInotifyEvents fuel os inotifyFd s =
     (if \<not> sys_sigaction os (kern s) then Some (Exit EXIT_FAILURE s)
      else
        let cnt = (if readBufferSize s > 0 then nat (readBufferSize s) else INOTIFY_READ_BUF_LEN);
            (r, k) = sys_read_events os inotifyFd cnt (kern s);
            s1 = s\<lparr>kern := k\<rparr>
        in case r of
             Inl e \<Rightarrow> Some (Exit EXIT_FAILURE s1)
           | Inr evs \<Rightarrow>
               if evs = [] then Some (Exit EXIT_FAILURE s1)
               else if buffer_bytes evs > int INOTIFY_READ_BUF_LEN then Some Undef
               else (let s2 = s1\<lparr>inotifyReadCnt := inotifyReadCnt s1 + 1\<rparr>;
                         s3 = logMessage VB_NOISY (''Read'', [FI (inotifyReadCnt s2), FI (buffer_bytes evs)]) s2
                     in process_loop fuel os inotifyFd evs (buffer_bytes evs) True s3))"

section \<open>The invariant of the event loop\<close>

text \<open>
  What holds between two events: the cache is well formed, and the options that dump the
  cache have a log file to dump it to (\<open>L\<close> says that there is one); reads ask for no more than the buffer holds. The option \<^verbatim>\<open>-x\<close> is left out, because the
  check it enables reads uninitialised memory (see \<open>checkCacheConsistency\<close>). New slots are
  logged only where that reads nothing beyond them (\<open>fresh_ok\<close>).
\<close>

definition ready :: "'k os \<Rightarrow> bool \<Rightarrow> 'k dtree \<Rightarrow> bool" where
  "ready os L s \<longleftrightarrow> cache_ok (wlCache s) \<and> \<not> checkCache s \<and> fresh_ok os s
     \<and> (dumpCache s \<or> abortOnCacheProblem s \<longrightarrow> L) \<and> (L \<longrightarrow> logfp s \<noteq> None)
     \<and> readBufferSize s \<le> int INOTIFY_READ_BUF_LEN"

lemma fresh_ok_from:
  "verboseMask t = verboseMask s \<Longrightarrow> (logfp t = None) = (logfp s = None) \<Longrightarrow> fresh_ok os t = fresh_ok os s"
  by (simp add: fresh_ok_def prints_def)

text \<open>
  What \<^verbatim>\<open>inotify(7)\<close> documents of events: a descriptor of -1 marks a queue overflow and
  nothing else; \<^verbatim>\<open>IN_IGNORED\<close> comes alone; all other descriptors are nonnegative.
\<close>

definition event_ok :: "inotify_event \<Rightarrow> bool" where
  "event_ok ev \<longleftrightarrow> (ev_wd ev = -1 \<and> ev_mask ev = IN_Q_OVERFLOW \<or> 0 \<le> ev_wd ev)
     \<and> (has (ev_mask ev) IN_IGNORED \<longrightarrow> ev_mask ev = IN_IGNORED)"

text \<open>\<open>kernel_ok\<close> also says that \<^verbatim>\<open>strdup()\<close> finds memory, which the code does not test.\<close>

definition kernel_ok :: "'k os \<Rightarrow> bool" where
  "kernel_ok os \<longleftrightarrow> add_watch_nonneg os \<and> strdup_ok os
     \<and> (\<forall>fd n k evs k'. sys_read_events os fd n k = (Inr evs, k') \<longrightarrow>
          (\<forall>ev\<in>set evs. event_ok ev) \<and> buffer_bytes evs \<le> int n)"

lemma kernel_okD:
  assumes "kernel_ok os"
  shows "add_watch_nonneg os"
    and "sys_read_events os fd n k = (Inr evs, k') \<Longrightarrow> ev \<in> set evs \<Longrightarrow> event_ok ev"
    and "sys_read_events os fd n k = (Inr evs, k') \<Longrightarrow> buffer_bytes evs \<le> int n"
    and "strdup_ok os"
  using assms unfolding kernel_ok_def by blast+

lemma ready_log [simp]: "ready os L (logMessage v m s) = ready os L s"
  by (simp add: ready_def)

lemma ready_display [simp]: "ready os L (displayInotifyEvent ev s) = ready os L s"
  using fresh_ok_from [of "displayInotifyEvent ev s" s os] by (simp add: ready_def)

lemma ready_kern [simp]: "ready os L (s\<lparr>kern := k\<rparr>) = ready os L s"
  by (simp add: ready_def)

lemma ready_same_config: "same_config s t \<Longrightarrow> ready os L s \<Longrightarrow> cache_ok (wlCache t) \<Longrightarrow> ready os L t"
  using fresh_ok_from [of t s os] by (auto simp: ready_def same_config_def)

lemma ready_fresh: "ready os L s \<Longrightarrow> fresh_ok os s"
  by (simp add: ready_def)

lemma ready_cache: "ready os L s \<Longrightarrow> cache_ok (wlCache s)"
  by (simp add: ready_def)

lemma ready_mark:
  assumes "ready os L s" and "j < length (wlCache s)"
  shows "ready os L (markCacheSlotEmpty j s)"
proof (rule ready_same_config [OF _ assms(1)])
  show "same_config s (markCacheSlotEmpty j s)" by (rule only_cache_same_config) simp
  show "cache_ok (wlCache (markCacheSlotEmpty j s))"
    using cache_ok_mark(1) [OF ready_cache [OF assms(1)] assms(2)] by simp
qed

lemma dumpCacheToLog_safe: "ready os L s \<Longrightarrow> dumpCache s \<or> abortOnCacheProblem s \<Longrightarrow>
   safe (\<lambda>_ t. ready os L t \<and> wlCache t = wlCache s) (dumpCacheToLog s)"
  by (auto simp: dumpCacheToLog_def ready_def)

lemma createStopFileAndAbort_safe:
  "ready os L s \<Longrightarrow> abortOnCacheProblem s \<Longrightarrow> safe Q (createStopFileAndAbort os s)"
  by (auto simp: createStopFileAndAbort_def dumpCacheToLog_def ready_def Let_def split: option.splits)

definition slot_for :: "'k dtree \<Rightarrow> int \<Rightarrow> int \<Rightarrow> bool" where
  "slot_for s wd j \<longleftrightarrow> 0 \<le> j \<and> nat j < length (wlCache s) \<and> w_wd (wlCache s ! nat j) = wd
     \<and> cache_map (wlCache s) wd = Some (w_path (wlCache s ! nat j))"

lemma slot_for_core: "core s = core t \<Longrightarrow> slot_for s wd j = slot_for t wd j"
  using core_eqD [of s t] by (simp add: slot_for_def)

lemma findWatchChecked_safe:
  assumes "ready os L s" and "0 \<le> wd"
  shows "safe (\<lambda>j t. ready os L t \<and> core t = core s \<and> (j = -1 \<and> cache_map (wlCache s) wd = None \<or> slot_for s wd j))
           (findWatchChecked os wd s)"
proof -
  have ok: "cache_ok (wlCache s)" using assms(1) by (simp add: ready_def)
  note f = findWatch_iff [OF ok assms(2)]
  show ?thesis
  proof (cases "findWatch (wlCache s) wd \<ge> 0")
    case True
    then show ?thesis using f(2) assms(1) by (simp add: findWatchChecked_def Let_def slot_for_def)
  next
    case False
    with f(1) have "cache_map (wlCache s) wd = None" by auto
    with False assms(1) show ?thesis
      by (auto simp: findWatchChecked_def Let_def intro: createStopFileAndAbort_safe)
  qed
qed

lemma finish_event_safe:
  "ready os L s \<Longrightarrow> safe (\<lambda>(n, fd) t. ready os L t \<and> n = evLen \<and> fd = fd0 \<and> wlCache t = wlCache s) (finish_event os evLen fd0 s)"
  using dumpCacheToLog_safe [of os L s]
  by (auto simp: finish_event_def ready_def [of os L s] intro: safe_obind)

lemma reinitialize_ready:
  assumes "kernel_ok os" and "ready os L s"
  shows "safe (\<lambda>_ t. ready os L t) (reinitialize os fd s)"
  using reinitialize_spec [OF kernel_okD(1) [OF assms(1)], of fd s] reinitialize_ends_well [OF ready_fresh [OF assms(2)], of fd]
    ready_same_config [OF _ assms(2)]
  by (cases "reinitialize os fd s") auto

lemma discard_buffer_safe:
  assumes "kernel_ok os" and "ready os L s"
  shows "safe (\<lambda>(n, fd) t. ready os L t \<and> n = int INOTIFY_READ_BUF_LEN) (discard_buffer os fd0 s)"
  using reinitialize_ready [OF assms, of fd0] by (auto simp: discard_buffer_def intro: safe_obind)

lemma with_slot_safe: "slot_for s wd j \<Longrightarrow> safe Q (f (nat j) (w_path (wlCache s ! nat j))) \<Longrightarrow>
   safe Q (with_slot (Some j) s f)"
  by (simp add: with_slot_def slot_for_def)

lemma zapSubtree_ready:
  assumes "ready os L s" and "zapSubtree os' fd p s = Ret r t"
  shows "ready os L t"
proof (rule ready_same_config [OF _ assms(1)])
  note z = zapSubtree_spec [OF ready_cache [OF assms(1)] assms(2)]
  show "cache_ok (wlCache t)" by (rule z(1))
  show "same_config s t" using only_cache_same_config [OF z(3)] by simp
qed

lemma zapRootDirPath_safe:
  "ready os L s \<Longrightarrow> safe (\<lambda>_ t. ready os L t \<and> wlCache t = wlCache s) (zapRootDirPath p s)"
  by (auto simp: zapRootDirPath_def Let_def ready_def)

section \<open>Every branch keeps the invariant\<close>

text \<open>
  A handler's result is the number of bytes it consumed: one record, a matched pair of
  records, or the whole buffer; or it is -1, for a hanging \<^verbatim>\<open>IN_MOVED_FROM\<close> at the end
  of the data on the first try.
\<close>

definition handled ::
  "'k os \<Rightarrow> bool \<Rightarrow> inotify_event \<Rightarrow> inotify_event list \<Rightarrow> int \<Rightarrow> bool \<Rightarrow> int \<times> int \<Rightarrow> 'k dtree \<Rightarrow> bool" where
  "handled os L ev rest bufSize firstTry r t \<longleftrightarrow> ready os L t
     \<and> (fst r = -1 \<and> firstTry \<and> is_moved_from_dir (ev_mask ev) \<and> bufSize \<le> event_bytes ev
        \<or> fst r = event_bytes ev \<or> fst r = int INOTIFY_READ_BUF_LEN
        \<or> rest \<noteq> [] \<and> fst r = event_bytes ev + event_bytes (hd rest))"

lemma event_bytes_ge: "int EVENT_SIZE \<le> event_bytes ev"
  by (simp add: event_bytes_def)

lemma event_bytes_pos: "0 < event_bytes ev"
  by (simp add: event_bytes_def EVENT_SIZE_def)

lemma finish_event_handled:
  "ready os L s \<Longrightarrow> safe (handled os L ev rest bufSize b) (finish_event os (event_bytes ev) fd s)"
  "ready os L s \<Longrightarrow> safe (handled os L ev (nx # evs) bufSize b) (finish_event os (event_bytes ev + event_bytes nx) fd s)"
  "ready os L s \<Longrightarrow> safe (handled os L ev rest bufSize b) (finish_event os (int INOTIFY_READ_BUF_LEN) fd s)"
  by (rule safe_mono [OF finish_event_safe], simp, fastforce simp: handled_def)+

lemma discard_buffer_handled:
  "kernel_ok os \<Longrightarrow> ready os L s \<Longrightarrow> safe (handled os L ev rest bufSize b) (discard_buffer os fd s)"
  by (rule safe_mono [OF discard_buffer_safe]) (auto simp: handled_def)

lemma watchSubtree_safe:
  assumes "kernel_ok os" and "ready os L s"
  shows "safe (\<lambda>_ t. ready os L t \<and> cache_map (wlCache s) \<subseteq>\<^sub>m cache_map (wlCache t)) (watchSubtree os fd p s)"
proof (cases "watchSubtree os fd p s")
  case (Ret u t)
  then have "grows (visited_dirs os p (kern s)) (s\<lparr>dirCnt := 0\<rparr>) t"
    using watchSubtree_grows [OF kernel_okD(1) [OF assms(1)] ready_cache [OF assms(2)]] by simp
  then have "same_config s t" "cache_ok (wlCache t)" "cache_map (wlCache s) \<subseteq>\<^sub>m cache_map (wlCache t)"
    by (simp_all add: grows_def)
  with Ret assms(2) ready_same_config show ?thesis by auto
qed (use watchSubtree_ends_well [OF ready_fresh [OF assms(2)], of fd p] in auto)

lemma rewriteCachedPaths_ready: "ready os L s \<Longrightarrow> ready os L (rewriteCachedPaths od on nd nn s)"
proof (rule ready_same_config)
  show "same_config s (rewriteCachedPaths od on nd nn s)"
    by (rule only_cache_same_config) (rule rewriteCachedPaths_spec(2))
  assume "ready os L s"
  then show "cache_ok (wlCache (rewriteCachedPaths od on nd nn s))"
    by (simp add: rewriteCachedPaths_spec(1) cache_ok_rewrite full_path_nonempty ready_cache)
qed

lemma on_create_safe:
  assumes "kernel_ok os" and "ready os L s" and "slot_for s wd j"
  shows "safe (\<lambda>_ t. ready os L t) (on_create os fd ev (Some j) s)"
  unfolding on_create_def
  by (rule with_slot_safe [OF assms(3)])
    (use assms(2) in \<open>auto simp: Let_def intro!: safe_mono [OF watchSubtree_safe [OF assms(1)]]\<close>)

lemma on_delete_self_safe:
  assumes "ready os L s" and "slot_for s wd j"
  shows "safe (\<lambda>_ t. ready os L t) (on_delete_self ev (Some j) s)"
proof -
  have j: "nat j < length (wlCache s)" using assms(2) by (simp add: slot_for_def)
  have z: "safe (\<lambda>_ t. ready os L t \<and> wlCache t = wlCache s)
      (if isRootDirPath r p then zapRootDirPath p (logMessage v m s) else Ret () (logMessage v m s))" for r p v m
    using assms(1) zapRootDirPath_safe [of os L "logMessage v m s" p] by simp
  show ?thesis
    unfolding on_delete_self_def Let_def
  proof (rule with_slot_safe [OF assms(2)], rule safe_obind [OF z])
    fix a t
    assume "ready os L t \<and> wlCache t = wlCache s"
    then show "safe (\<lambda>_ t. ready os L t) (Ret () (markCacheSlotEmpty (nat j) t))" by (simp add: ready_mark j)
  qed
qed

lemma zap_then_handled:
  assumes "kernel_ok os" and "ready os L s"
  shows "safe (handled os L ev rest bufSize b) (obind (zapSubtree os fd p s) (\<lambda>cnt t.
           if cnt = -1 then discard_buffer os fd t else finish_event os (event_bytes ev) fd t))"
proof -
  obtain cnt t where z: "zapSubtree os fd p s = Ret cnt t"
    using zapSubtree_returns [OF kernel_okD(4) [OF assms(1)]] by blast
  from zapSubtree_ready [OF assms(2) z] show ?thesis
    by (simp add: z discard_buffer_handled [OF assms(1)] finish_event_handled(1))
qed

lemma on_moved_out_safe:
  assumes "kernel_ok os" and "ready os L s" and "slot_for s wd j"
  shows "safe (handled os L ev rest bufSize b) (on_moved_out os fd ev bufSize firstTry (Some j) s)"
  unfolding on_moved_out_def Let_def
  by (intro with_slot_safe [OF assms(3)] zap_then_handled [OF assms(1)]) (simp add: assms(2))

lemma on_rename_safe:
  assumes "kernel_ok os" and "ready os L s" and "slot_for s wd j" and "0 \<le> ev_wd nextEv"
  shows "safe (handled os L ev (nextEv # evs) bufSize b) (on_rename os fd ev nextEv (Some j) s)"
  unfolding on_rename_def
proof (rule safe_obind [OF findWatchChecked_safe [OF assms(2,4)]])
  fix i u
  assume u: "ready os L u \<and> core u = core s \<and>
    (i = -1 \<and> cache_map (wlCache s) (ev_wd nextEv) = None \<or> slot_for s (ev_wd nextEv) i)"
  have j: "slot_for u wd j" using u assms(3) slot_for_core by blast
  show "safe (handled os L ev (nextEv # evs) bufSize b)
     (if i = -1 then discard_buffer os fd u
      else with_slot (Some j) u (\<lambda>_ oldPath. with_slot (Some i) u (\<lambda>_ newPath.
        finish_event os (event_bytes ev + event_bytes nextEv) fd
          (rewriteCachedPaths oldPath (ev_name ev) newPath (ev_name nextEv) u))))"
  proof (cases "i = -1")
    case True
    then show ?thesis using u discard_buffer_handled [OF assms(1)] by simp
  next
    case False
    then have i: "slot_for u (ev_wd nextEv) i" using u slot_for_core by blast
    then show ?thesis
      using False u
      by (auto intro!: with_slot_safe [OF j] with_slot_safe [OF i] finish_event_handled(2) rewriteCachedPaths_ready)
  qed
qed

lemma on_overflow_safe:
  assumes "kernel_ok os" and "ready os L s"
  shows "safe (handled os L ev rest bufSize b) (on_overflow os fd s)"
proof -
  have "ready os L (logMessage v m (s\<lparr>overflowCnt := n\<rparr>))" for v m n using assms(2) by (simp add: ready_def)
  then show ?thesis
    unfolding on_overflow_def Let_def
    by (intro safe_obind [OF reinitialize_ready [OF assms(1)]] finish_event_handled(3))
qed

lemma on_root_moved_safe:
  assumes "kernel_ok os" and "ready os L s"
  shows "safe (handled os L ev rest bufSize b) (on_root_moved os fd ev p s)"
proof -
  have "safe (\<lambda>_ t. ready os L t) (zapRootDirPath p (logMessage v m s))" for v m
    using assms(2) zapRootDirPath_safe [of os L "logMessage v m s" p] by (auto intro: safe_mono)
  then show ?thesis
    unfolding on_root_moved_def Let_def by (rule safe_obind) (rule zap_then_handled [OF assms(1)])
qed

lemma on_moved_from_safe:
  assumes "kernel_ok os" and "ready os L s" and "slot_for s wd j" and "\<forall>ev\<in>set rest. event_ok ev"
    and "bufSize \<le> event_bytes ev + buffer_bytes rest" and "is_moved_from_dir (ev_mask ev)"
  shows "safe (handled os L ev rest bufSize firstTry) (on_moved_from os fd ev rest bufSize firstTry (Some j) s)"
proof (cases "event_bytes ev < bufSize")
  case True
  with assms(5) obtain nx evs where rest: "rest = nx # evs"
    by (cases rest) (auto simp: buffer_bytes_def)
  have "has (ev_mask nx) IN_MOVED_TO \<Longrightarrow> 0 \<le> ev_wd nx"
    using assms(4) rest by (auto simp: event_ok_def has_def in_defs)
  then show ?thesis
    using True rest on_rename_safe [OF assms(1-3)] on_moved_out_safe [OF assms(1-3), of ev rest bufSize]
    by (simp add: on_moved_from_def)
next
  case False
  then show ?thesis
    using on_moved_out_safe [OF assms(1-3), of ev rest bufSize] assms(2,6)
    by (auto simp: on_moved_from_def handled_def)
qed

lemma dispatch_slot_safe:
  assumes "kernel_ok os" and "ready os L s" and "slot_for s wd j" and "\<forall>ev\<in>set rest. event_ok ev"
    and "bufSize \<le> event_bytes ev + buffer_bytes rest"
  shows "safe (handled os L ev rest bufSize firstTry) (dispatch_event os fd ev rest bufSize firstTry (Some j) s)"
proof -
  have fin: "ready os L t \<Longrightarrow> safe (handled os L ev rest bufSize firstTry) (finish_event os (event_bytes ev) fd t)" for t
    by (rule finish_event_handled(1))
  have then_fin: "safe (\<lambda>_ t. ready os L t) m \<Longrightarrow>
      safe (handled os L ev rest bufSize firstTry) (obind m (\<lambda>_ s. finish_event os (event_bytes ev) fd s))" for m :: "(unit, 'a dtree) outcome"
    by (erule safe_obind) (rule fin)
  have j: "nat j < length (wlCache s)" using assms(3) by (simp add: slot_for_def)
  have un: "safe (\<lambda>_ t. ready os L t) (on_unmount (Some j) s)"
    unfolding on_unmount_def by (rule with_slot_safe [OF assms(3)]) (simp add: assms(2) j ready_mark)
  have mv: "safe (handled os L ev rest bufSize firstTry) (with_slot (Some j) s (\<lambda>j path.
      if isRootDirPath (rootDirPaths s) path then on_root_moved os fd ev path s
      else finish_event os (event_bytes ev) fd s))"
    by (rule with_slot_safe [OF assms(3)]) (simp add: on_root_moved_safe [OF assms(1,2)] fin assms(2))
  show ?thesis
    unfolding dispatch_event_def Let_def
    by (simp add: then_fin on_create_safe [OF assms(1-3)] on_delete_self_safe [OF assms(2,3)]
        on_moved_from_safe [OF assms] on_overflow_safe [OF assms(1,2)] un mv fin assms(2))
qed

lemma dispatch_no_slot_safe:
  assumes "kernel_ok os" and "ready os L s" and "ev_mask ev = IN_Q_OVERFLOW \<or> ev_mask ev = IN_IGNORED"
  shows "safe (handled os L ev rest bufSize firstTry) (dispatch_event os fd ev rest bufSize firstTry None s)"
  using assms(3) on_overflow_safe [OF assms(1,2)] finish_event_handled(1) [OF assms(2)]
  by (auto simp: dispatch_event_def Let_def has_def in_defs is_moved_from_dir_def)

lemma processNext_safe:
  assumes "kernel_ok os" and "ready os L s" and "\<forall>ev\<in>set buf. event_ok ev" and "buf \<noteq> []"
    and "bufSize \<le> buffer_bytes buf"
  shows "safe (handled os L (hd buf) (tl buf) bufSize firstTry) (processNextInotifyEvent os fd buf bufSize firstTry s)"
proof -
  obtain ev rest where buf: "buf = ev # rest" using assms(4) by (cases buf) auto
  have ev: "event_ok ev" "\<forall>e\<in>set rest. event_ok e" "bufSize \<le> event_bytes ev + buffer_bytes rest"
    using assms(3,5) buf by (auto simp: buffer_bytes_def)
  let ?s = "displayInotifyEvent ev s"
  have r: "ready os L ?s" using assms(2) by simp
  show ?thesis
  proof (cases "ev_wd ev \<noteq> -1 \<and> \<not> has (ev_mask ev) IN_IGNORED")
    case True
    with ev(1) have wd: "0 \<le> ev_wd ev" by (auto simp: event_ok_def)
    have step: "safe (handled os L ev rest bufSize firstTry) (if j = -1 then discard_buffer os fd t
           else dispatch_event os fd ev rest bufSize firstTry (Some j) t)"
      if t: "ready os L t \<and> core t = core ?s \<and> (j = -1 \<and> cache_map (wlCache ?s) (ev_wd ev) = None \<or> slot_for ?s (ev_wd ev) j)"
      for j t
    proof (cases "j = -1")
      case True
      then show ?thesis using t by (simp add: discard_buffer_handled [OF assms(1)])
    next
      case False
      with t have "slot_for t (ev_wd ev) j" using slot_for_core by blast
      then show ?thesis using False t dispatch_slot_safe [OF assms(1) _ _ ev(2,3)] by simp
    qed
    have "processNextInotifyEvent os fd buf bufSize firstTry s =
        obind (findWatchChecked os (ev_wd ev) ?s) (\<lambda>j t. if j = -1 then discard_buffer os fd t
           else dispatch_event os fd ev rest bufSize firstTry (Some j) t)"
      using True by (simp add: processNextInotifyEvent_def buf lookup_event_def obind_assoc)
    then show ?thesis using safe_obind [OF findWatchChecked_safe [OF r wd] step] by (simp add: buf)
  next
    case False
    with ev(1) have "ev_mask ev = IN_Q_OVERFLOW \<or> ev_mask ev = IN_IGNORED" by (auto simp: event_ok_def)
    with False dispatch_no_slot_safe [OF assms(1) r] show ?thesis
      by (auto simp: processNextInotifyEvent_def buf lookup_event_def)
  qed
qed

section \<open>What each kind of event does to the cache\<close>

definition demo_moved_from :: inotify_event where
  "demo_moved_from = \<lparr>ev_wd = 1, ev_mask = IN_MOVED_FROM OR IN_ISDIR, ev_cookie = 9, ev_len = 16, ev_name = ''a''\<rparr>"

definition demo_moved_to :: inotify_event where
  "demo_moved_to = \<lparr>ev_wd = 7, ev_mask = IN_MOVED_TO OR IN_ISDIR, ev_cookie = 9, ev_len = 16, ev_name = ''z''\<rparr>"

definition demo_deleted :: inotify_event where
  "demo_deleted = \<lparr>ev_wd = 4, ev_mask = IN_DELETE_SELF, ev_cookie = 0, ev_len = 0, ev_name = []\<rparr>"

lemma demo_ready: "ready demo_os False demo"
  by (simp add: ready_def demo_facts fresh_ok_def terminated_memory_def demo_os_def)

lemma demo_kernel_ok: "kernel_ok demo_os"
  using demo_add_watch_nonneg by (simp add: kernel_ok_def demo_os_def strdup_ok_def)


lemma finish_event_returns:
  "ready os L s \<Longrightarrow> \<exists>t. finish_event os n fd s = Ret (n, fd) t \<and> wlCache t = wlCache s \<and> ready os L t"
  by (auto simp: finish_event_def ready_def dumpCacheToLog_def)

lemma findWatchChecked_hit:
  assumes "ready os L s" and "cache_map (wlCache s) wd = Some d"
  shows "\<exists>j. findWatchChecked os wd s = Ret j s \<and> slot_for s wd j"
proof -
  have wd: "0 \<le> wd" using assms(2) by (cases "wd < 0") auto
  note f = findWatch_iff [OF ready_cache [OF assms(1)] wd]
  with assms(2) have "findWatch (wlCache s) wd \<ge> 0" by auto
  with f(2) show ?thesis by (simp add: findWatchChecked_def Let_def slot_for_def)
qed

lemma processNext_hit:
  assumes "ready os L s" and "cache_map (wlCache s) (ev_wd ev) = Some d" and "\<not> has (ev_mask ev) IN_IGNORED"
  shows "\<exists>j u. processNextInotifyEvent os fd (ev # rest) bufSize firstTry s
           = dispatch_event os fd ev rest bufSize firstTry (Some j) u
         \<and> slot_for u (ev_wd ev) j \<and> w_path (wlCache u ! nat j) = d \<and> ready os L u \<and> core u = core s"
proof -
  let ?u = "displayInotifyEvent ev s"
  have "ready os L ?u" and c: "cache_map (wlCache ?u) (ev_wd ev) = Some d" using assms(1,2) by simp_all
  then obtain j where j: "findWatchChecked os (ev_wd ev) ?u = Ret j ?u" and slot: "slot_for ?u (ev_wd ev) j"
    using findWatchChecked_hit by blast
  moreover have "ev_wd ev \<noteq> -1" using assms(2) by auto
  moreover have "j \<noteq> -1" using slot by (simp add: slot_for_def)
  ultimately have "processNextInotifyEvent os fd (ev # rest) bufSize firstTry s
      = dispatch_event os fd ev rest bufSize firstTry (Some j) ?u"
    using assms(3) by (simp add: processNextInotifyEvent_def lookup_event_def)
  moreover have "w_path (wlCache ?u ! nat j) = d" using slot c unfolding slot_for_def by (metis option.inject)
  ultimately show ?thesis using slot \<open>ready os L ?u\<close> core_displayInotifyEvent by blast
qed

text \<open>An event that reports a directory leaving its parent, and nothing else.\<close>

definition moved_from_event :: "inotify_event \<Rightarrow> bool" where
  "moved_from_event ev \<longleftrightarrow> ev_mask ev = IN_MOVED_FROM OR IN_ISDIR"

lemma moved_from_event_dispatch:
  "moved_from_event ev \<Longrightarrow> dispatch_event os fd ev rest bufSize firstTry sl s
     = on_moved_from os fd ev rest bufSize firstTry sl s"
  "moved_from_event ev \<Longrightarrow> \<not> has (ev_mask ev) IN_IGNORED"
  "moved_from_event ev \<Longrightarrow> is_moved_from_dir (ev_mask ev)"
  by (simp_all add: moved_from_event_def dispatch_event_def has_def is_moved_from_dir_def in_defs)

text \<open>The pathname after the rename of \<open>old\<close> to \<open>new\<close>: \<open>old\<close> itself and what lies below it get the new prefix, cut to what a slot holds.\<close>

definition renamed :: "cstring \<Rightarrow> cstring \<Rightarrow> cstring \<Rightarrow> cstring" where
  "renamed old new p =
     (if p = old then new
      else if \<exists>r. p = old @ ''/'' @ r then take (PATH_MAX - 1) (new @ drop (length old) p)
      else p)"

lemma rewrite_path_renamed:
  assumes "no_nul p" "length new \<le> PATH_MAX - 1"
  shows "rewrite_path old new p = renamed old new p"
  using in_subtree_iff [OF assms(1), of old] assms(2)
  by (auto simp: rewrite_path_def renamed_def subpath_def snprintf_def strncpy_def)



text \<open>
  A directory that is moved out of the trees (its \<^verbatim>\<open>IN_MOVED_FROM\<close> is followed by an
  unrelated record, or no further record came in time) is forgotten together with
  everything below it, and nothing else is, provided the watches can be removed.
\<close>

theorem moved_out_zaps_subtree:
  assumes "ready os L s" and "moved_from_event ev" and "cache_map (wlCache s) (ev_wd ev) = Some dir"
    and "if event_bytes ev < bufSize
         then rest \<noteq> [] \<and> \<not> (has (ev_mask (hd rest)) IN_MOVED_TO \<and> ev_cookie (hd rest) = ev_cookie ev)
         else \<not> firstTry"
    and "\<And>wd k. fst (sys_inotify_rm_watch os fd wd k) = None" and "strdup_ok os"
  shows "\<exists>t. processNextInotifyEvent os fd (ev # rest) bufSize firstTry s = Ret (event_bytes ev, fd) t
         \<and> ready os L t
         \<and> cache_map (wlCache t) = cache_map (wlCache s) |` {wd. \<forall>p. cache_map (wlCache s) wd = Some p
              \<longrightarrow> \<not> in_subtree (snprintf (PATH_MAX + NAME_MAX) (join_path dir (ev_name ev))) p}"
proof -
  from processNext_hit [OF assms(1,3) moved_from_event_dispatch(2) [OF assms(2)]]
  obtain j u where run: "processNextInotifyEvent os fd (ev # rest) bufSize firstTry s
      = dispatch_event os fd ev rest bufSize firstTry (Some j) u"
    and j: "slot_for u (ev_wd ev) j" "w_path (wlCache u ! nat j) = dir" and u: "ready os L u" "core u = core s"
    by blast
  let ?full = "snprintf (PATH_MAX + NAME_MAX) (join_path dir (ev_name ev))"
  let ?v = "logMessage VB_NOISY (''firstTry'', [FI (if firstTry then 1 else 0), FI (bufSize - event_bytes ev)])
      (logMessage VB_NOISY (''MOVED_OUT'', []) u)"
  obtain cnt w where z: "zapSubtree os fd ?full ?v = Ret cnt w" "zap_all os fd ?full ?v = (cnt, w)"
    using zapSubtree_returns [OF assms(6)] by blast
  have nofail: "cnt \<ge> 0"
    using zapSubtree_loop_nonneg [OF assms(5)] z(2) unfolding zap_all_def by (metis fst_conv order_refl)
  have "processNextInotifyEvent os fd (ev # rest) bufSize firstTry s
      = on_moved_out os fd ev bufSize firstTry (Some j) u"
    using assms(4) unfolding run moved_from_event_dispatch(1) [OF assms(2)] on_moved_from_def
    by (cases rest) (auto split: if_splits)
  also have "\<dots> = finish_event os (event_bytes ev) fd w"
    using j nofail z by (simp add: on_moved_out_def with_slot_def slot_for_def Let_def)
  finally have fin: "processNextInotifyEvent os fd (ev # rest) bufSize firstTry s
      = finish_event os (event_bytes ev) fd w" .
  have v: "ready os L ?v" "wlCache ?v = wlCache s" using u core_eqD(1) [OF u(2)] by simp_all
  note zs = zapSubtree_spec [OF ready_cache [OF v(1)] z(1)]
  have "cache_map (wlCache w) = cache_map (wlCache s) |` {wd. \<forall>p. cache_map (wlCache s) wd = Some p
      \<longrightarrow> \<not> in_subtree ?full p}"
    using zs(4) nofail unfolding v(2) by fastforce
  then show ?thesis
    using finish_event_returns [OF zapSubtree_ready [OF v(1) z(1)]] fin by fastforce
qed

theorem moved_out_zaps_subtree_witness:
  "\<exists>t. processNextInotifyEvent demo_os 3 [demo_moved_from] 31 False demo = Ret (event_bytes demo_moved_from, 3) t
         \<and> ready demo_os False t
         \<and> cache_map (wlCache t) = cache_map (wlCache demo) |` {wd. \<forall>p. cache_map (wlCache demo) wd = Some p
              \<longrightarrow> \<not> in_subtree (snprintf (PATH_MAX + NAME_MAX) (join_path ''/r'' (ev_name demo_moved_from))) p}"
  by (rule moved_out_zaps_subtree [OF demo_ready])
    (simp_all add: demo_facts demo_moved_from_def moved_from_event_def event_bytes_def EVENT_SIZE_def strdup_ok_def
      demo_os_def)

text \<open>
  The deletion of a directory that is not one of the roots removes exactly its own cache
  entry.
\<close>

theorem delete_self_removes_entry:
  assumes "ready os L s" and "ev_mask ev = IN_DELETE_SELF" and "cache_map (wlCache s) (ev_wd ev) = Some dir"
    and "Some dir \<notin> set (rootDirPaths s)"
  shows "\<exists>t. processNextInotifyEvent os fd (ev # rest) bufSize firstTry s = Ret (event_bytes ev, fd) t
         \<and> ready os L t \<and> cache_map (wlCache t) = (cache_map (wlCache s))(ev_wd ev := None)"
proof -
  have "\<not> has (ev_mask ev) IN_IGNORED" using assms(2) by (simp add: has_def in_defs)
  from processNext_hit [OF assms(1,3) this]
  obtain j u where run: "processNextInotifyEvent os fd (ev # rest) bufSize firstTry s
      = dispatch_event os fd ev rest bufSize firstTry (Some j) u"
    and j: "slot_for u (ev_wd ev) j" "w_path (wlCache u ! nat j) = dir" and u: "ready os L u" "core u = core s"
    by blast
  from core_eqD [OF u(2)] have cu: "wlCache u = wlCache s" "rootDirPaths u = rootDirPaths s" by auto
  have "\<not> isRootDirPath (rootDirPaths u) dir"
    using assms(4) cu(2) by (auto simp: isRootDirPath_def findRootDirPath_def find_slot_nonneg_iff)
  then have "processNextInotifyEvent os fd (ev # rest) bufSize firstTry s
      = finish_event os (event_bytes ev) fd
          (markCacheSlotEmpty (nat j) (logMessage VB_BASIC (''Clearing watchlist item'', [FI (ev_wd ev), FS dir]) u))"
    (is "_ = finish_event _ _ _ ?v")
    using assms(2) j unfolding run
    by (simp add: dispatch_event_def on_delete_self_def with_slot_def slot_for_def has_def in_defs Let_def)
  moreover have idx: "nat j < length (wlCache s)" "w_wd (wlCache s ! nat j) = ev_wd ev"
    using j(1) cu by (auto simp: slot_for_def)
  have "ready os L ?v" using u(1) idx(1) cu by (simp add: ready_mark)
  moreover have "cache_map (wlCache ?v) = (cache_map (wlCache s))(ev_wd ev := None)"
    using cache_ok_mark(2) [OF ready_cache [OF assms(1)] idx(1)] idx(2) cu by simp
  ultimately show ?thesis using finish_event_returns by fastforce
qed

theorem delete_self_removes_entry_witness:
  "\<exists>t. processNextInotifyEvent demo_os 3 [demo_deleted] 16 True demo = Ret (event_bytes demo_deleted, 3) t
         \<and> ready demo_os False t \<and> cache_map (wlCache t) = (cache_map (wlCache demo))(ev_wd demo_deleted := None)"
  by (rule delete_self_removes_entry [where dir = "''/r/a/b''"])
    (simp_all add: demo_ready demo_facts demo_deleted_def)

section \<open>The read loop\<close>

lemma buffer_bytes_simps [simp]:
  "buffer_bytes [] = 0" "buffer_bytes (e # es) = event_bytes e + buffer_bytes es"
  "buffer_bytes (es @ es') = buffer_bytes es + buffer_bytes es'"
  by (simp_all add: buffer_bytes_def)

lemma buffer_bytes_nonneg: "0 \<le> buffer_bytes es"
  using event_bytes_pos by (induction es) (auto intro: add_nonneg_nonneg less_imp_le)

lemma set_skip_bytes: "set (skip_bytes n es) \<subseteq> set es"
  by (induction n es rule: skip_bytes.induct) auto

lemma skip_bytes_lower: "0 \<le> n \<Longrightarrow> buffer_bytes es - n \<le> buffer_bytes (skip_bytes n es)"
  by (induction n es rule: skip_bytes.induct) auto

lemma skip_bytes_0 [simp]: "skip_bytes 0 es = es"
  using event_bytes_pos by (cases es) (auto simp: not_le [symmetric])

lemma skip_bytes_exact:
  "skip_bytes (event_bytes e) (e # es) = es"
  "skip_bytes (event_bytes e + event_bytes e') (e # e' # es) = es"
  using event_bytes_pos [of e'] by simp_all

text \<open>One iteration per record is enough for a buffer that does not end in a hanging move.\<close>

lemma process_loop_enough:
  assumes "kernel_ok os" and "length evs \<le> n" and "ready os L s" and "\<forall>ev\<in>set evs. event_ok ev"
    and "buffer_bytes evs \<le> int INOTIFY_READ_BUF_LEN"
    and "evs \<noteq> [] \<Longrightarrow> \<not> is_moved_from_dir (ev_mask (last evs))"
  shows "\<exists>m. process_loop n os fd evs (buffer_bytes evs) firstTry s = Some m"
  using assms(2-6)
proof (induction n arbitrary: fd evs firstTry s)
  case 0
  then show ?case by simp
next
  case (Suc n)
  show ?case
  proof (cases evs)
    case (Cons ev rest)
    have sf: "safe (handled os L ev rest (buffer_bytes evs) firstTry)
        (processNextInotifyEvent os fd evs (buffer_bytes evs) firstTry s)"
      using processNext_safe [OF assms(1) Suc.prems(2,3), of "buffer_bytes evs" firstTry fd] Cons by simp
    have pos: "\<not> buffer_bytes evs \<le> 0" using Cons event_bytes_pos [of ev] buffer_bytes_nonneg [of rest] by simp
    show ?thesis
    proof (cases "processNextInotifyEvent os fd evs (buffer_bytes evs) firstTry s")
      case (Ret r t)
      obtain k fd' where r: "r = (k, fd')" by (cases r)
      have t: "ready os L t" and cases: "k = -1 \<and> is_moved_from_dir (ev_mask ev) \<and> buffer_bytes evs \<le> event_bytes ev
          \<or> k = event_bytes ev \<or> k = int INOTIFY_READ_BUF_LEN \<or> rest \<noteq> [] \<and> k = event_bytes ev + event_bytes (hd rest)"
        using sf Ret r by (auto simp: handled_def)
      have nohang: "k \<noteq> -1"
      proof
        assume "k = -1"
        with cases have h: "is_moved_from_dir (ev_mask ev)" "buffer_bytes rest \<le> 0"
          using Cons event_bytes_pos [of ev] event_bytes_pos [of "hd rest"]
          by (auto simp: INOTIFY_READ_BUF_LEN_def)
        then have "rest = []" using event_bytes_pos buffer_bytes_nonneg
          by (cases rest) (auto simp: not_less [symmetric] add_pos_nonneg)
        with h(1) Suc.prems(5) Cons show False by simp
      qed
      then have kpos: "k > 0" using cases event_bytes_pos [of ev] event_bytes_pos [of "hd rest"]
        by (auto simp: INOTIFY_READ_BUF_LEN_def EVENT_SIZE_def)
      have run: "process_loop (Suc n) os fd evs (buffer_bytes evs) firstTry s =
          process_loop n os fd' (skip_bytes k evs) (buffer_bytes evs - k) True t"
        using pos Ret r kpos by simp
      show ?thesis
      proof (cases "k = int INOTIFY_READ_BUF_LEN")
        case True
        with Suc.prems(4) have "buffer_bytes evs - k \<le> 0" by simp
        then show ?thesis unfolding run by (cases n) auto
      next
        case False
        define left where "left = skip_bytes k evs"
        have left: "left = rest \<or> rest \<noteq> [] \<and> left = tl rest" "buffer_bytes evs - k = buffer_bytes left"
          using cases nohang False Cons skip_bytes_exact(1) [of ev rest] skip_bytes_exact(2) [of ev "hd rest" "tl rest"]
          by (auto simp: left_def neq_Nil_conv)
        have sub: "set left \<subseteq> set evs" "length left \<le> n" "left \<noteq> [] \<Longrightarrow> last left = last evs"
          using left(1) Cons Suc.prems(1) by (auto simp: neq_Nil_conv split: if_splits)
        have "\<exists>m. process_loop n os fd' left (buffer_bytes left) True t = Some m"
        proof (rule Suc.IH [OF sub(2) t])
          show "\<forall>ev\<in>set left. event_ok ev" using sub(1) Suc.prems(3) by blast
          show "buffer_bytes left \<le> int INOTIFY_READ_BUF_LEN" using left(2) Suc.prems(4) kpos by linarith
          show "left \<noteq> [] \<Longrightarrow> \<not> is_moved_from_dir (ev_mask (last left))" using sub(3) Suc.prems(5) Cons by simp
        qed
        then show ?thesis unfolding run left(2) left_def .
      qed
    qed (use pos in auto)
  qed simp
qed

definition demo_os' :: "nat os" where
  "demo_os' = demo_os\<lparr>sys_read_events := (\<lambda>fd n k.
     if buffer_bytes [demo_moved_from, demo_deleted] \<le> int n then (Inr [demo_moved_from, demo_deleted], k)
     else (Inl EINVAL, k))\<rparr>"

lemma demo_buffer:
  "\<forall>ev\<in>set [demo_moved_from, demo_deleted]. event_ok ev"
  "buffer_bytes [demo_moved_from, demo_deleted] \<le> int INOTIFY_READ_BUF_LEN"
  "\<not> is_moved_from_dir (ev_mask (last [demo_moved_from, demo_deleted]))"
  by (simp_all add: demo_moved_from_def demo_deleted_def event_ok_def event_bytes_def EVENT_SIZE_def
      INOTIFY_READ_BUF_LEN_def NAME_MAX_def has_def is_moved_from_dir_def in_defs)

text \<open>
  The loop is free of undefined behaviour and keeps the invariant, whatever events arrive and
  however reads are split or interrupted: no uninitialised slot variable, no slot out of
  range, no event past the end of the buffer is ever used.
\<close>

lemma process_loop_safe:
  assumes "kernel_ok os" and "ready os L s" and "\<forall>ev\<in>set evs. event_ok ev" and "numRead \<le> buffer_bytes evs"
    and "process_loop n os fd evs numRead firstTry s = Some m"
  shows "safe (\<lambda>_ t. ready os L t) m"
  using assms(2-5)
proof (induction n arbitrary: fd evs numRead firstTry s)
  case 0
  then show ?case by (auto split: if_splits)
next
  case (Suc n)
  show ?case
  proof (cases "numRead \<le> 0")
    case True
    with Suc.prems show ?thesis by auto
  next
    case False
    then have ne: "evs \<noteq> []" using Suc.prems(3) by auto
    have sf: "safe (handled os L (hd evs) (tl evs) numRead firstTry) (processNextInotifyEvent os fd evs numRead firstTry s)"
      by (rule processNext_safe [OF assms(1) Suc.prems(1,2) ne Suc.prems(3)])
    show ?thesis
    proof (cases "processNextInotifyEvent os fd evs numRead firstTry s")
      case (Ret r t)
      obtain evLen fd' where r: "r = (evLen, fd')" by (cases r)
      have t: "ready os L t" using sf Ret by (simp add: handled_def)
      show ?thesis
      proof (cases "evLen > 0")
        case True
        then have run: "process_loop n os fd' (skip_bytes evLen evs) (numRead - evLen) True t = Some m"
          using Suc.prems(4) False Ret r by simp
        have ok: "\<forall>ev\<in>set (skip_bytes evLen evs). event_ok ev" using set_skip_bytes Suc.prems(2) by blast
        have le: "numRead - evLen \<le> buffer_bytes (skip_bytes evLen evs)"
          using skip_bytes_lower [of evLen evs] True Suc.prems(3) by linarith
        show ?thesis by (rule Suc.IH [OF t ok le run])
      next
        case neg: False
        obtain x k where rd: "sys_read_events os fd' (nat (int INOTIFY_READ_BUF_LEN - numRead)) (kern t) = (x, k)"
          by fastforce
        show ?thesis
        proof (cases x)
          case (Inl e)
          let ?t = "logMessage VB_NOISY (''SECONDARY Read'', [FI (inotifyReadCnt t + 1), FI (-1)])
            (t\<lparr>kern := k, inotifyReadCnt := inotifyReadCnt t + 1\<rparr>)"
          have t': "ready os L ?t" using t by (simp add: ready_def)
          have le: "numRead - 1 \<le> buffer_bytes evs" using Suc.prems(3) by simp
          show ?thesis
            using Suc.prems(4) False Ret r neg rd Inl Suc.IH [OF t' Suc.prems(2) le]
            by (auto simp: Let_def split: if_splits)
        next
          case (Inr extra)
          let ?t = "logMessage VB_NOISY (''SECONDARY Read'', [FI (inotifyReadCnt t + 1), FI (buffer_bytes extra)])
            (t\<lparr>kern := k, inotifyReadCnt := inotifyReadCnt t + 1\<rparr>)"
          have t': "ready os L ?t" using t by (simp add: ready_def)
          have ok: "\<forall>ev\<in>set (evs @ extra). event_ok ev"
            using Suc.prems(2) kernel_okD(2) [OF assms(1)] rd Inr by auto
          have le: "numRead + buffer_bytes extra \<le> buffer_bytes (evs @ extra)" using Suc.prems(3) by simp
          show ?thesis
            using Suc.prems(4) False Ret r neg rd Inr Suc.IH [OF t' ok le]
            by (auto simp: Let_def split: if_splits)
        qed
      qed
    qed (use Suc.prems False sf in auto)
  qed
qed

lemma processInotifyEvents_safe:
  assumes "kernel_ok os" and "ready os L s" and "processInotifyEvents fuel os fd s = Some m"
  shows "safe (\<lambda>_ t. ready os L t) m"
proof -
  let ?cnt = "if readBufferSize s > 0 then nat (readBufferSize s) else INOTIFY_READ_BUF_LEN"
  obtain r k where rd: "sys_read_events os fd ?cnt (kern s) = (r, k)" by fastforce
  have le: "int ?cnt \<le> int INOTIFY_READ_BUF_LEN" using assms(2) by (auto simp: ready_def)
  show ?thesis
  proof (cases "\<not> sys_sigaction os (kern s) \<or> (\<exists>e. r = Inl e) \<or> r = Inr []")
    case True
    then show ?thesis using assms(3) rd by (auto simp: processInotifyEvents_def split: if_splits)
  next
    case False
    then obtain evs where r: "r = Inr evs" "evs \<noteq> []" by (cases r) auto
    let ?t = "logMessage VB_NOISY (''Read'', [FI (inotifyReadCnt s + 1), FI (buffer_bytes evs)])
      (s\<lparr>kern := k, inotifyReadCnt := inotifyReadCnt s + 1\<rparr>)"
    have ok: "\<forall>ev\<in>set evs. event_ok ev" using kernel_okD(2) [OF assms(1) rd [unfolded r]] by blast
    have "buffer_bytes evs \<le> int INOTIFY_READ_BUF_LEN"
      using kernel_okD(3) [OF assms(1) rd [unfolded r]] le by linarith
    then have "process_loop fuel os fd evs (buffer_bytes evs) True ?t = Some m"
      using assms(3) False rd r by (simp add: processInotifyEvents_def)
    moreover have "ready os L ?t" using assms(2) by (simp add: ready_def)
    ultimately show ?thesis using process_loop_safe [OF assms(1) _ ok order_refl] by blast
  qed
qed



end
