(* ===== verification/Strto_Num.thy ===== *)
theory Strto_Num
  imports Tlpi_Prelude
begin

text \<open>
  The numeric conversions of the C library that the sources call (\<^verbatim>\<open>strtoll()\<close>,
  \<^verbatim>\<open>strtoull()\<close>, \<^verbatim>\<open>strtol()\<close>, \<^verbatim>\<open>atoi()\<close>) as the C standard defines them, on LP64 integers,
  and the decimal printing that \<^verbatim>\<open>printf("%d")\<close> does.
\<close>

section \<open>Integer ranges\<close>

definition INT_MAX :: int where "INT_MAX = 2147483647"
definition INT_MIN :: int where "INT_MIN = -2147483648"
definition UINT_MAX :: int where "UINT_MAX = 4294967295"
definition LONG_MAX :: int where "LONG_MAX = 9223372036854775807"
definition LONG_MIN :: int where "LONG_MIN = -9223372036854775808"
definition ULONG_MAX :: int where "ULONG_MAX = 18446744073709551615"
definition LLONG_MAX :: int where "LLONG_MAX = 9223372036854775807"
definition LLONG_MIN :: int where "LLONG_MIN = -9223372036854775808"
definition ULLONG_MAX :: int where "ULLONG_MAX = 18446744073709551615"

lemmas limit_defs = INT_MAX_def INT_MIN_def UINT_MAX_def LONG_MAX_def LONG_MIN_def ULONG_MAX_def
  LLONG_MAX_def LLONG_MIN_def ULLONG_MAX_def

section \<open>Characters\<close>

definition isspace :: "char \<Rightarrow> bool" where
  "isspace c \<longleftrightarrow> of_char c \<in> {9, 10, 11, 12, 13, 32 :: nat}"

definition digit_val :: "char \<Rightarrow> nat option" where
  "digit_val c =
     (let n = of_char c :: nat in
      if 48 \<le> n \<and> n \<le> 57 then Some (n - 48)
      else if 97 \<le> n \<and> n \<le> 122 then Some (n - 87)
      else if 65 \<le> n \<and> n \<le> 90 then Some (n - 55)
      else None)"

definition is_digit :: "nat \<Rightarrow> char \<Rightarrow> bool" where
  "is_digit base c \<longleftrightarrow> (case digit_val c of None \<Rightarrow> False | Some d \<Rightarrow> d < base)"

section \<open>Scanning\<close>

fun digits_value :: "nat \<Rightarrow> nat \<Rightarrow> cstring \<Rightarrow> nat" where
  "digits_value base acc [] = acc"
| "digits_value base acc (c # cs) =
     (case digit_val c of None \<Rightarrow> acc | Some d \<Rightarrow> digits_value base (acc * base + d) cs)"

text \<open>The optional prefix: hexadecimal only when a hexadecimal digit follows it.\<close>

definition hex_prefix :: "cstring \<Rightarrow> bool" where
  "hex_prefix s \<longleftrightarrow> (case s of
     a # b # c # _ \<Rightarrow> a = CHR ''0'' \<and> (b = CHR ''x'' \<or> b = CHR ''X'') \<and> is_digit 16 c
   | _ \<Rightarrow> False)"

definition scan_base :: "nat \<Rightarrow> cstring \<Rightarrow> nat \<times> cstring" where
  "scan_base base s =
     (if base = 0 then
        (if hex_prefix s then (16, drop 2 s)
         else if s \<noteq> [] \<and> hd s = CHR ''0'' then (8, s)
         else (10, s))
      else if base = 16 \<and> hex_prefix s then (16, drop 2 s)
      else (base, s))"

text \<open>
  \<open>Some (negative, magnitude, rest)\<close>, or \<open>None\<close> when there are no digits, in which case
  the end pointer is the start of the string and the value is 0.
\<close>

definition strto :: "nat \<Rightarrow> cstring \<Rightarrow> (bool \<times> nat \<times> cstring) option" where
  "strto base s =
     (let s1 = dropWhile isspace s;
          neg = (s1 \<noteq> [] \<and> hd s1 = CHR ''-'');
          s2 = (if s1 \<noteq> [] \<and> (hd s1 = CHR ''-'' \<or> hd s1 = CHR ''+'') then tl s1 else s1);
          (b, s3) = scan_base base s2;
          ds = takeWhile (is_digit b) s3
      in if ds = [] then None else Some (neg, digits_value b 0 ds, dropWhile (is_digit b) s3))"

text \<open>The results: value, whether \<^verbatim>\<open>errno\<close> is set to \<^verbatim>\<open>ERANGE\<close>, and the unparsed rest.\<close>

definition strtoll :: "cstring \<Rightarrow> nat \<Rightarrow> int \<times> bool \<times> cstring" where
  "strtoll s base =
     (case strto base s of
        None \<Rightarrow> (0, False, s)
      | Some (neg, m, rest) \<Rightarrow>
          (let v = (if neg then - int m else int m) in
           if v > LLONG_MAX then (LLONG_MAX, True, rest)
           else if v < LLONG_MIN then (LLONG_MIN, True, rest)
           else (v, False, rest)))"

definition strtoull :: "cstring \<Rightarrow> nat \<Rightarrow> int \<times> bool \<times> cstring" where
  "strtoull s base =
     (case strto base s of
        None \<Rightarrow> (0, False, s)
      | Some (neg, m, rest) \<Rightarrow>
          if int m > ULLONG_MAX then (ULLONG_MAX, True, rest)
          else ((if neg then (- int m) mod (ULLONG_MAX + 1) else int m), False, rest))"

text \<open>\<^verbatim>\<open>atoi()\<close> is the \<^verbatim>\<open>int\<close> conversion of \<^verbatim>\<open>strtol(s, NULL, 10)\<close>.\<close>

definition to_int32 :: "int \<Rightarrow> int" where
  "to_int32 v = (v + 2147483648) mod 4294967296 - 2147483648"

definition atoi :: "cstring \<Rightarrow> int" where
  "atoi s = to_int32 (fst (strtoll s 10))"

lemma strtoll_range: "strtoll s b = (v, e, r) \<Longrightarrow> LLONG_MIN \<le> v \<and> v \<le> LLONG_MAX"
  by (auto simp: strtoll_def limit_defs Let_def split: option.splits if_splits prod.splits)

lemma strtoull_range: "strtoull s b = (v, e, r) \<Longrightarrow> 0 \<le> v \<and> v \<le> ULLONG_MAX"
  by (auto simp: strtoull_def limit_defs split: option.splits if_splits prod.splits)

lemma to_int32_id: "INT_MIN \<le> v \<Longrightarrow> v \<le> INT_MAX \<Longrightarrow> to_int32 v = v"
  by (simp add: to_int32_def limit_defs)

lemma to_int32_range: "INT_MIN \<le> to_int32 v \<and> to_int32 v \<le> INT_MAX"
  by (simp add: to_int32_def limit_defs)

section \<open>Printing\<close>

definition digit_char :: "nat \<Rightarrow> char" where
  "digit_char d = char_of (48 + d)"

fun dec_nat :: "nat \<Rightarrow> cstring" where
  "dec_nat n = (if n < 10 then [digit_char n] else dec_nat (n div 10) @ [digit_char (n mod 10)])"

declare dec_nat.simps [simp del]

definition dec :: "int \<Rightarrow> cstring" where
  "dec v = (if v < 0 then CHR ''-'' # dec_nat (nat (- v)) else dec_nat (nat v))"

lemma digit_val_char: "d < 10 \<Longrightarrow> digit_val (digit_char d) = Some d"
  by (simp add: digit_val_def digit_char_def of_char_of)

lemma is_digit_char: "d < 10 \<Longrightarrow> is_digit 10 (digit_char d)"
  by (simp add: is_digit_def digit_val_char)

lemma digits_value_append:
  "\<forall>c\<in>set xs. digit_val c \<noteq> None \<Longrightarrow> digits_value b acc (xs @ ys) = digits_value b (digits_value b acc xs) ys"
  by (induction xs arbitrary: acc) auto

lemma dec_nat_digits: "\<forall>c\<in>set (dec_nat n). is_digit 10 c"
proof (induction n rule: dec_nat.induct)
  case (1 n)
  then show ?case by (subst dec_nat.simps) (auto simp: is_digit_char)
qed

lemma dec_nat_value: "digits_value 10 0 (dec_nat n) = n"
proof (induction n rule: dec_nat.induct)
  case (1 n)
  have d: "\<forall>c\<in>set (dec_nat k). digit_val c \<noteq> None" for k
    using dec_nat_digits [of k] by (auto simp: is_digit_def split: option.splits)
  show ?case
  proof (cases "n < 10")
    case True
    then show ?thesis by (subst dec_nat.simps) (simp add: digit_val_char)
  next
    case False
    with 1 show ?thesis
      by (subst dec_nat.simps) (simp add: digits_value_append d digit_val_char)
  qed
qed

lemma dec_nat_nonempty [simp]: "dec_nat n \<noteq> []"
  by (subst dec_nat.simps) simp

lemma digit10_props: "is_digit 10 c \<Longrightarrow> \<not> isspace c \<and> c \<noteq> CHR ''-'' \<and> c \<noteq> CHR ''+'' \<and> c \<noteq> NUL"
  by (auto simp: is_digit_def digit_val_def isspace_def NUL_def Let_def split: if_splits)

lemma dec_nat_hd: "is_digit 10 (hd (dec_nat n))"
  using dec_nat_digits [of n] by (cases "dec_nat n") auto

text \<open>Scanning what was printed, followed by something that is not a digit.\<close>

lemma strto_dec:
  assumes "rest = [] \<or> \<not> is_digit 10 (hd rest)"
  shows "strto 10 (dec v @ rest) = Some (v < 0, nat \<bar>v\<bar>, rest)"
proof -
  have tw: "takeWhile (is_digit 10) (dec_nat n @ rest) = dec_nat n"
    and dw: "dropWhile (is_digit 10) (dec_nat n @ rest) = rest" for n
    using assms dec_nat_digits [of n] by (cases rest; simp add: takeWhile_append dropWhile_append)+
  have minus: "\<not> isspace (CHR ''-'')" by (simp add: isspace_def)
  have space: "dropWhile isspace (dec_nat n @ rest) = dec_nat n @ rest" for n
    using dec_nat_hd [of n] digit10_props by (cases "dec_nat n") auto
  have hd: "hd (dec_nat n @ rest) \<noteq> CHR ''-''" "hd (dec_nat n @ rest) \<noteq> CHR ''+''" for n
    using dec_nat_hd [of n] digit10_props by (auto simp: hd_append)
  show ?thesis
  proof (cases "v < 0")
    case True
    then show ?thesis by (simp add: strto_def dec_def scan_base_def Let_def minus tw dw dec_nat_value)
  next
    case False
    then have e: "dec v @ rest = dec_nat (nat v) @ rest" by (simp add: dec_def)
    show ?thesis
      using False hd [of "nat v"] unfolding e strto_def Let_def space
      by (simp add: scan_base_def tw dw dec_nat_value)
  qed
qed

lemma no_nul_dec: "no_nul (dec v)"
  using dec_nat_digits digit10_props by (auto simp: dec_def no_nul_def NUL_def)

end
