(* ===== verification/Dtree_Main.thy ===== *)
theory Dtree_Main
  imports Dtree_Events Strto_Num
begin

text \<open>
  The rest of \<^verbatim>\<open>inotify_dtree.c\<close>: the interactive commands, the command-line options and
  the main loop that waits for commands and events. What \<^verbatim>\<open>getopt()\<close> and
  \<^verbatim>\<open>select()\<close> report are arguments of the definitions.
\<close>

section \<open>Commands\<close>

definition put :: "cstring \<Rightarrow> 'k dtree \<Rightarrow> 'k dtree" where
  "put line s = s\<lparr>stdout_out := stdout_out s @ [line]\<rparr>"

definition displayCommandList :: "'k dtree \<Rightarrow> 'k dtree" where
  "displayCommandList s =
     fold put
       [''Commands:'', ''0        Rebuild cache'', ''a path   Add/refresh pathname watches and cache'',
        ''c        Verify cached pathnames'', ''d        Toggle cache dumping'',
        ''l        List cached pathnames'', ''q        Quit'',
        ''v [n]    Toggle/set verbose level for messages to stderr'', ''             0 = no messages'',
        ''             1 = basic messages'', ''             2 = verbose messages'',
        ''             3 = basic and verbose messages'', ''w file   Write directory list to file'',
        ''x        Toggle cache checking'', ''z path   Zap pathname and watches from cache''] s"

fun checkAll_loop ::
  "'k os \<Rightarrow> bool \<Rightarrow> nat list \<Rightarrow> int \<Rightarrow> int \<Rightarrow> 'k dtree \<Rightarrow> (int \<times> int, 'k dtree) outcome" where
  "checkAll_loop os verbose [] cnt failures s = Ret (cnt, failures) s"
| "checkAll_loop os verbose (j # js) cnt failures s =
     (let w = wlCache s ! j;
          say = (\<lambda>vb m s. if verbose then logMessage vb m s else s)
      in if 0 \<le> w_wd w then
           (case sys_lstat os (w_path w) (kern s) of
              Inl e \<Rightarrow> checkAll_loop os verbose js cnt (failures + 1)
                        (say VB_BASIC (''stat'', [FI (int j), FI (w_wd w), FS (w_path w), FE e]) s)
            | Inr sb \<Rightarrow>
                if \<not> st_isdir sb then Exit EXIT_FAILURE (say 0 (''is not a directory'', [FS (w_path w)]) s)
                else checkAll_loop os verbose js (cnt + 1) failures
                       (say VB_NOISY (''OK'', [FI (int j), FI (w_wd w), FS (w_path w)]) s))
         else checkAll_loop os verbose js cnt failures s)"

definition checkAllCachedPathnamesExist :: "'k os \<Rightarrow> char \<Rightarrow> 'k dtree \<Rightarrow> (unit, 'k dtree) outcome" where
  "checkAllCachedPathnamesExist os cmd s =
     obind (checkAll_loop os (cmd = CHR ''c'') [0..<length (wlCache s)] 0 0 s) (\<lambda>(cnt, failures) s.
       Ret () (logMessage 0 (''Failures'', [FI failures]) (logMessage 0 (''Successfully verified'', [FI cnt]) s)))"

text \<open>The bytes read from the terminal up to the last one, which is overwritten with a null byte.\<close>

definition MAX_LINE :: nat where "MAX_LINE = 100"

definition stdin_line :: "cstring \<Rightarrow> cstring" where
  "stdin_line data = takeWhile (\<lambda>c. c \<noteq> NUL) (butlast data)"

text \<open>
  \<^verbatim>\<open>sscanf(line, "%c %s\n", &cmd, arg)\<close> on a nonempty line: the argument stays
  uninitialised (\<open>None\<close>) when there is no second word.
\<close>

definition scan_command :: "cstring \<Rightarrow> char \<times> cstring option" where
  "scan_command line =
     (let r = dropWhile isspace (tl line)
      in (hd line, if r = [] then None else Some (takeWhile (\<lambda>c. \<not> isspace c) r)))"

definition with_arg :: "cstring option \<Rightarrow> (cstring \<Rightarrow> ('a, 's) outcome) \<Rightarrow> ('a, 's) outcome" where
  "with_arg arg f = (case arg of None \<Rightarrow> Undef | Some a \<Rightarrow> f a)"

definition list_cache :: "'k dtree \<Rightarrow> 'k dtree" where
  "list_cache s =
     (let es = filter (\<lambda>(j, w). 0 \<le> w_wd w) (enumerate 0 (wlCache s));
          s1 = fold (logMessage 0) (map (\<lambda>(j, w). (''entry'', [FI (int j), FI (w_wd w), FS (w_path w)])) es) s
      in logMessage VB_BASIC (''Total entries'', [FI (int (length es))]) s1)"

definition run_command ::
  "'k os \<Rightarrow> int \<Rightarrow> char \<Rightarrow> cstring option \<Rightarrow> 'k dtree \<Rightarrow> (int, 'k dtree) outcome" where
  "run_command os fd cmd arg s =
     (if cmd = CHR ''a'' then
        with_arg arg (\<lambda>a.
          obind (zapSubtree os fd a s) (\<lambda>cnt s1.
            let s2 = (if cnt = 0 then logMessage VB_BASIC (''Adding new subtree'', [FS a]) s1
                      else logMessage VB_BASIC (''Zapped'', [FS a, FI cnt]) s1)
            in obind (watchSubtree os fd a s2) (\<lambda>_ s. Ret fd s)))
      else if cmd = CHR ''c'' \<or> cmd = CHR ''C'' then
        obind (checkAllCachedPathnamesExist os cmd s) (\<lambda>_ s. Ret fd s)
      else if cmd = CHR ''l'' then Ret fd (list_cache s)
      else if cmd = CHR ''q'' then Exit EXIT_SUCCESS s
      else if cmd = CHR ''v'' then
        (case arg of
           Some a \<Rightarrow> Ret fd (s\<lparr>verboseMask := atoi a\<rparr>)
         | None \<Rightarrow>
             (let s1 = s\<lparr>verboseMask := if verboseMask s = 0 then 1 else 0\<rparr>
              in Ret fd (put (if verboseMask s1 \<noteq> 0 then ''on'' else ''off'') s1)))
      else if cmd = CHR ''d'' then
        (let s1 = s\<lparr>dumpCache := \<not> dumpCache s\<rparr> in Ret fd (put (if dumpCache s1 then ''on'' else ''off'') s1))
      else if cmd = CHR ''x'' then
        (let s1 = s\<lparr>checkCache := \<not> checkCache s\<rparr> in Ret fd (put (if checkCache s1 then ''on'' else ''off'') s1))
      else if cmd = CHR ''w'' then
        with_arg arg (\<lambda>a.
          case sys_write_file os a (map w_path (filter (\<lambda>w. 0 \<le> w_wd w) (wlCache s))) (kern s) of
            None \<Rightarrow> Undef
          | Some k \<Rightarrow> Ret fd (s\<lparr>kern := k\<rparr>))
      else if cmd = CHR ''z'' then
        with_arg arg (\<lambda>a.
          obind (zapSubtree os fd a s) (\<lambda>cnt s1. Ret fd (logMessage VB_BASIC (''Zapped'', [FS a, FI cnt]) s1)))
      else if cmd = CHR ''0'' then reinitialize os (-1) (s\<lparr>kern := sys_close os fd (kern s)\<rparr>)
      else Ret fd (displayCommandList (put (''Unrecognized command: '' @ [cmd]) s)))"

definition executeCommand :: "'k os \<Rightarrow> int \<Rightarrow> 'k dtree \<Rightarrow> (int, 'k dtree) outcome" where
  "executeCommand os fd s =
     (let (r, k) = sys_read_stdin os MAX_LINE (kern s);
          s1 = s\<lparr>kern := k\<rparr>
      in case r of
           Inl e \<Rightarrow> Exit EXIT_FAILURE (put ''bye!'' s1)
         | Inr data \<Rightarrow>
             if data = [] then Exit EXIT_FAILURE (put ''bye!'' s1)
             else if stdin_line data = [] then Ret fd s1
             else (let (cmd, arg) = scan_command (stdin_line data) in run_command os fd cmd arg s1))"

section \<open>The program\<close>

definition usageError :: "'k dtree \<Rightarrow> ('a, 'k dtree) outcome" where
  "usageError s = Exit EXIT_FAILURE (s\<lparr>stderr_out := stderr_out s @ [(''Usage'', [])]\<rparr>)"

definition initial :: "'k \<Rightarrow> 'k dtree" where
  "initial k = \<lparr>verboseMask = 0, checkCache = False, dumpCache = False, readBufferSize = 0, stopFile = None,
     abortOnCacheProblem = False, logfp = None, stderr_out = [], stdout_out = [], inotifyReadCnt = 0,
     wlCache = [], rootDirPaths = [], ignoreRootDirs = 0, rootDirStat = [], dirCnt = 0, ifd = 0,
     reinitCnt = 0, overflowCnt = 0, kern = k\<rparr>"

text \<open>One option as \<^verbatim>\<open>getopt()\<close> returns it, with its argument (empty when it takes none).\<close>

definition parse_option :: "'k os \<Rightarrow> char \<times> cstring \<Rightarrow> 'k dtree \<Rightarrow> (unit, 'k dtree) outcome" where
  "parse_option os p s =
     (let (opt, optarg) = p in
      if opt = CHR ''a'' then Ret () (s\<lparr>abortOnCacheProblem := True, stopFile := Some optarg\<rparr>)
      else if opt = CHR ''x'' then Ret () (s\<lparr>checkCache := True\<rparr>)
      else if opt = CHR ''d'' then Ret () (s\<lparr>dumpCache := True\<rparr>)
      else if opt = CHR ''v'' then Ret () (s\<lparr>verboseMask := atoi optarg\<rparr>)
      else if opt = CHR ''b'' then Ret () (s\<lparr>readBufferSize := atoi optarg\<rparr>)
      else if opt = CHR ''l'' then
        (case sys_write_file os optarg [] (kern s) of
           None \<Rightarrow> Exit EXIT_FAILURE s
         | Some k \<Rightarrow> Ret () (s\<lparr>kern := k, logfp := Some []\<rparr>))
      else usageError s)"

text \<open>
  One turn of the main loop. \<open>rfds\<close> tells which descriptors \<^verbatim>\<open>select()\<close> reported; a
  command may replace the inotify descriptor before it is tested.
\<close>

definition loop_turn ::
  "nat \<Rightarrow> 'k os \<Rightarrow> cstring \<Rightarrow> (int \<Rightarrow> bool) \<Rightarrow> int \<Rightarrow> 'k dtree \<Rightarrow> (int, 'k dtree) outcome option" where
  "loop_turn fuel os pname rfds fd s =
     (case (if rfds 0
            then obind (executeCommand os fd s) (\<lambda>fd s. Ret fd (put (pname @ ''> '') s))
            else Ret fd s) of
        Ret fd1 s1 \<Rightarrow> if rfds fd1 then processInotifyEvents fuel os fd1 s1 else Some (Ret fd1 s1)
      | m \<Rightarrow> Some m)"

text \<open>The loop for a finite number of calls of \<^verbatim>\<open>select()\<close>; \<open>None\<close> is its failure.\<close>

fun main_loop ::
  "nat \<Rightarrow> 'k os \<Rightarrow> cstring \<Rightarrow> (int \<Rightarrow> bool) option list \<Rightarrow> int \<Rightarrow> 'k dtree \<Rightarrow> (int, 'k dtree) outcome option" where
  "main_loop fuel os pname [] fd s = Some (Ret fd s)"
| "main_loop fuel os pname (None # sels) fd s = Some (Exit EXIT_FAILURE s)"
| "main_loop fuel os pname (Some rfds # sels) fd s =
     (case loop_turn fuel os pname rfds fd s of
        None \<Rightarrow> None
      | Some (Ret fd1 s1) \<Rightarrow> main_loop fuel os pname sels fd1 s1
      | Some m \<Rightarrow> Some m)"

definition start :: "'k os \<Rightarrow> (char \<times> cstring) list \<Rightarrow> cstring list \<Rightarrow> 'k \<Rightarrow> (int, 'k dtree) outcome" where
  "start os opts dirs k =
     obind (ofold (parse_option os) opts (initial k)) (\<lambda>_ s.
     if dirs = [] then usageError s
     else obind (copyRootDirPaths os dirs s) (\<lambda>_ s. reinitialize os (-1) s))"

definition main ::
  "nat \<Rightarrow> 'k os \<Rightarrow> cstring \<Rightarrow> (char \<times> cstring) list \<Rightarrow> cstring list \<Rightarrow> (int \<Rightarrow> bool) option list \<Rightarrow> 'k
    \<Rightarrow> (int, 'k dtree) outcome option" where
  "main fuel os pname opts dirs sels k =
     (case start os opts dirs k of
        Ret fd s \<Rightarrow> main_loop fuel os pname sels fd (put (pname @ ''> '') s)
      | m \<Rightarrow> Some m)"

section \<open>Commands keep the invariant\<close>

text \<open>
  The commands whose behaviour is defined: those that take an argument are given one, the
  cache is not dumped without a log file, and the consistency check stays off (see \<open>ready\<close>).
  Verbose messages, which print what new slots of the cache hold, stay off unless the memory holds
  null bytes.
\<close>

definition quiet_level :: "'k os \<Rightarrow> int \<Rightarrow> bool" where
  "quiet_level os v \<longleftrightarrow> terminated_memory os \<or> VB_NOISY AND v = 0"

definition command_ok :: "'k os \<Rightarrow> bool \<Rightarrow> char \<Rightarrow> cstring option \<Rightarrow> bool" where
  "command_ok os L cmd arg \<longleftrightarrow> cmd \<noteq> CHR ''x'' \<and> (cmd = CHR ''d'' \<longrightarrow> L)
     \<and> (cmd \<in> {CHR ''a'', CHR ''w'', CHR ''z''} \<longrightarrow> arg \<noteq> None)
     \<and> (cmd = CHR ''v'' \<longrightarrow> (case arg of Some a \<Rightarrow> quiet_level os (atoi a) | None \<Rightarrow> True))"

definition terminal_ok :: "bool \<Rightarrow> 'k os \<Rightarrow> bool" where
  "terminal_ok L os \<longleftrightarrow> (\<forall>f ls k. sys_write_file os f ls k \<noteq> None)
     \<and> (\<forall>n k data k'. sys_read_stdin os n k = (Inr data, k') \<longrightarrow>
          stdin_line data \<noteq> [] \<longrightarrow> (case scan_command (stdin_line data) of (cmd, arg) \<Rightarrow> command_ok os L cmd arg))"

lemma fresh_ok_level: "fresh_ok os s \<Longrightarrow> quiet_level os v \<Longrightarrow> fresh_ok os (s\<lparr>verboseMask := v\<rparr>)"
  by (auto simp: fresh_ok_def quiet_level_def prints_def VB_NOISY_def)

lemma quiet_toggle: "quiet_level os 1" "quiet_level os 0"
  by (simp_all add: quiet_level_def VB_NOISY_def)

lemma ready_put [simp]: "ready os L (put l s) = ready os L s"
  by (simp add: ready_def put_def)

lemma ready_fold_put [simp]: "ready os L (fold put ls s) = ready os L s"
  by (induction ls arbitrary: s) simp_all

lemma ready_fold_log [simp]: "ready os L (fold (logMessage v) ms s) = ready os L s"
  by (induction ms arbitrary: s) simp_all

lemma ready_prints [simp]: "ready os L (displayCommandList s) = ready os L s" "ready os L (list_cache s) = ready os L s"
  unfolding displayCommandList_def list_cache_def Let_def by (simp_all only: ready_fold_put ready_fold_log ready_log)

lemma checkAll_loop_safe:
  "ready os L s \<Longrightarrow> safe (\<lambda>_ t. ready os L t) (checkAll_loop os verbose js cnt failures s)"
  by (induction js arbitrary: cnt failures s) (auto simp: Let_def split: sum.splits)

lemma run_command_safe:
  assumes "kernel_ok os" and "terminal_ok L os" and "ready os L s" and "command_ok os L cmd arg"
  shows "safe (\<lambda>_ t. ready os L t) (run_command os fd cmd arg s)"
proof -
  have zap: "safe (\<lambda>_ t. ready os L t) (obind (zapSubtree os fd a s) f)" if "\<And>c t. ready os L t \<Longrightarrow> safe (\<lambda>_ t. ready os L t) (f c t)"
    for a and f :: "int \<Rightarrow> 'a dtree \<Rightarrow> (int, 'a dtree) outcome"
    using zapSubtree_ready [OF assms(3)] zapSubtree_returns [OF kernel_okD(4) [OF assms(1)]] that by (metis obind_simps(1))
  have watch: "ready os L t \<Longrightarrow> safe (\<lambda>_ t. ready os L t) (watchSubtree os fd a t)" for a t
    by (rule safe_mono [OF watchSubtree_safe [OF assms(1)]]) auto
  have add: "safe (\<lambda>_ t. ready os L t) (obind (watchSubtree os fd a t) (\<lambda>_ s. Ret fd s))" if "ready os L t" for a t
    by (rule safe_obind [OF watch [OF that]]) simp
  have check: "safe (\<lambda>_ t. ready os L t) (checkAllCachedPathnamesExist os cmd s)"
    unfolding checkAllCachedPathnamesExist_def
    by (rule safe_obind [OF checkAll_loop_safe [OF assms(3)]]) auto
  have flags: "quiet_level os v \<Longrightarrow> ready os L (s\<lparr>verboseMask := v\<rparr>)" "L \<Longrightarrow> ready os L (s\<lparr>dumpCache := b\<rparr>)" for v b
    using assms(3) fresh_ok_level [of os s v] by (simp_all add: ready_def)
  have init: "safe (\<lambda>_ t. ready os L t) (reinitialize os (-1) (s\<lparr>kern := k\<rparr>))" for k
    by (rule reinitialize_ready [OF assms(1)]) (simp add: assms(3))
  have arg: "safe Q (with_arg arg f)" if "cmd \<in> {CHR ''a'', CHR ''w'', CHR ''z''}" "\<And>a. safe Q (f a)"
    for Q and f :: "cstring \<Rightarrow> (int, 'a dtree) outcome"
    using assms(4) that by (cases arg) (simp_all add: command_ok_def with_arg_def)
  have wr: "sys_write_file os f ls k \<noteq> None" for f ls k using assms(2) by (simp add: terminal_ok_def)
  have d: "cmd = CHR ''d'' \<Longrightarrow> L" "cmd \<noteq> CHR ''x''" using assms(4) by (simp_all add: command_ok_def)
  have v: "cmd = CHR ''v'' \<Longrightarrow> arg = Some a \<Longrightarrow> quiet_level os (atoi a)" for a using assms(4) by (simp add: command_ok_def)
  show ?thesis
    unfolding run_command_def
  proof (intro safe_if, goal_cases)
    case 1
    then show ?case by (intro arg zap) (simp_all add: Let_def add)
  next
    case 2
    show ?case by (rule safe_obind [OF check]) simp
  next
    case 8
    then show ?case by (intro arg) (use wr assms(3) in \<open>simp_all split: option.splits\<close>)
  next
    case 9
    then show ?case by (intro arg zap) simp_all
  next
    case 5
    then show ?case using flags(1) [OF v] flags(1) [OF quiet_toggle(1)] flags(1) [OF quiet_toggle(2)]
      by (auto simp: Let_def split: option.splits)
  qed (use assms(3) flags d in \<open>simp_all add: Let_def init split: option.splits\<close>)
qed

lemma executeCommand_safe:
  assumes "kernel_ok os" and "terminal_ok L os" and "ready os L s"
  shows "safe (\<lambda>_ t. ready os L t) (executeCommand os fd s)"
proof -
  obtain r k where rd: "sys_read_stdin os MAX_LINE (kern s) = (r, k)" by fastforce
  have "safe (\<lambda>_ t. ready os L t) (run_command os fd cmd arg (s\<lparr>kern := k\<rparr>))"
    if "r = Inr data" "stdin_line data \<noteq> []" "scan_command (stdin_line data) = (cmd, arg)" for data cmd arg
    by (rule run_command_safe [OF assms(1,2)]) (use assms(2,3) rd that in \<open>fastforce simp: terminal_ok_def\<close>)+
  then show ?thesis using assms(3) rd
    by (auto simp: executeCommand_def Let_def split: sum.splits prod.splits)
qed

section \<open>The whole program\<close>

lemma loop_turn_safe:
  assumes "kernel_ok os" and "terminal_ok L os" and "ready os L s" and "loop_turn fuel os pname rfds fd s = Some m"
  shows "safe (\<lambda>_ t. ready os L t) m"
proof -
  let ?m = "if rfds 0 then obind (executeCommand os fd s) (\<lambda>fd s. Ret fd (put (pname @ ''> '') s)) else Ret fd s"
  have "safe (\<lambda>_ t. ready os L t) ?m"
    by (intro safe_if safe_obind [OF executeCommand_safe [OF assms(1-3)]]) (simp_all add: assms(3))
  then show ?thesis
    using assms(4) processInotifyEvents_safe [OF assms(1)] unfolding loop_turn_def
    by (cases ?m) (auto split: if_splits)
qed

lemma main_loop_safe:
  assumes "kernel_ok os" and "terminal_ok L os" and "ready os L s" and "main_loop fuel os pname sels fd s = Some m"
  shows "safe (\<lambda>_ t. ready os L t) m"
  using assms(3,4)
proof (induction sels arbitrary: fd s)
  case (Cons sel sels)
  show ?case
  proof (cases sel)
    case (Some rfds)
    with Cons.prems obtain m' where m': "loop_turn fuel os pname rfds fd s = Some m'"
      by (auto split: option.splits)
    with loop_turn_safe [OF assms(1,2) Cons.prems(1)] have "safe (\<lambda>_ t. ready os L t) m'" by blast
    then show ?thesis using Cons Some m' by (cases m') auto
  qed (use Cons.prems in auto)
qed auto

text \<open>
  The options whose use is defined: no \<^verbatim>\<open>-x\<close>, a log file (\<^verbatim>\<open>-l\<close>) wherever \<^verbatim>\<open>-d\<close> or
  \<^verbatim>\<open>-a\<close> may dump the cache to it, and a read size (\<^verbatim>\<open>-b\<close>) the buffer can hold. A log file and
  verbose messages are safe only when the memory of new slots holds null bytes.
\<close>

definition option_ok :: "'k os \<Rightarrow> bool \<Rightarrow> char \<times> cstring \<Rightarrow> bool" where
  "option_ok os L p \<longleftrightarrow> fst p \<noteq> CHR ''x'' \<and> (fst p \<in> {CHR ''a'', CHR ''d''} \<longrightarrow> L)
     \<and> (fst p = CHR ''b'' \<longrightarrow> atoi (snd p) \<le> int INOTIFY_READ_BUF_LEN)
     \<and> (fst p = CHR ''v'' \<longrightarrow> quiet_level os (atoi (snd p))) \<and> (fst p = CHR ''l'' \<longrightarrow> terminated_memory os)"

definition has_log :: "(char \<times> cstring) list \<Rightarrow> bool" where
  "has_log opts \<longleftrightarrow> CHR ''l'' \<in> fst ` set opts"

text \<open>\<open>ready\<close> while the options are being read: the log file may not be open yet.\<close>

definition configured :: "'k os \<Rightarrow> bool \<Rightarrow> 'k dtree \<Rightarrow> bool" where
  "configured os L s \<longleftrightarrow> cache_ok (wlCache s) \<and> \<not> checkCache s \<and> fresh_ok os s \<and> (dumpCache s \<or> abortOnCacheProblem s \<longrightarrow> L)
     \<and> readBufferSize s \<le> int INOTIFY_READ_BUF_LEN"

lemma ready_configured: "ready os L s \<longleftrightarrow> configured os L s \<and> (L \<longrightarrow> logfp s \<noteq> None)"
  by (auto simp: ready_def configured_def)

lemma parse_option_safe:
  assumes "configured os L s" and "option_ok os L p"
  shows "safe (\<lambda>_ t. configured os L t \<and> (logfp s \<noteq> None \<or> fst p = CHR ''l'' \<longrightarrow> logfp t \<noteq> None)) (parse_option os p s)"
proof (cases p)
  case (Pair opt optarg)
  then show ?thesis
    using assms fresh_ok_level [of os s] unfolding parse_option_def Let_def usageError_def
    by (auto simp: configured_def option_ok_def fresh_ok_def [of os "s\<lparr>kern := k, logfp := l\<rparr>" for k l] split: option.splits)
qed

lemma parse_options_safe:
  assumes "configured os L s" and "\<forall>p\<in>set opts. option_ok os L p"
  shows "safe (\<lambda>_ t. configured os L t \<and> (logfp s \<noteq> None \<or> has_log opts \<longrightarrow> logfp t \<noteq> None))
           (ofold (parse_option os) opts s)"
  using assms
proof (induction opts arbitrary: s)
  case Nil
  then show ?case by (simp add: has_log_def)
next
  case (Cons p opts)
  have p: "option_ok os L p" using Cons.prems(2) by simp
  show ?case
    unfolding ofold.simps
  proof (rule safe_obind [OF parse_option_safe [OF Cons.prems(1) p]])
    fix u and t :: "'a dtree"
    assume t: "configured os L t \<and> (logfp s \<noteq> None \<or> fst p = CHR ''l'' \<longrightarrow> logfp t \<noteq> None)"
    then show "safe (\<lambda>_ t. configured os L t \<and> (logfp s \<noteq> None \<or> has_log (p # opts) \<longrightarrow> logfp t \<noteq> None))
        (ofold (parse_option os) opts t)"
      by (intro safe_mono [OF Cons.IH]) (use Cons.prems(2) in \<open>auto simp: has_log_def\<close>)
  qed
qed

lemma copyRootDirPaths_safe:
  assumes "ready os L s"
  shows "safe (\<lambda>_ t. ready os L t) (copyRootDirPaths os dirs s)"
proof -
  have loop: "ready os L s \<Longrightarrow> safe (\<lambda>_ t. ready os L t) (copyRootDirPaths_loop os as s)" for as and s :: "'a dtree"
    by (induction as arbitrary: s) (auto simp: Let_def ready_def split: sum.splits)
  have "ready os L (s\<lparr>rootDirPaths := [], rootDirStat := []\<rparr>)" using assms by (simp add: ready_def)
  then have "safe (\<lambda>_ t. ready os L t) (obind (copyRootDirPaths_loop os dirs (s\<lparr>rootDirPaths := [], rootDirStat := []\<rparr>))
      (\<lambda>_ s. Ret () (s\<lparr>ignoreRootDirs := 0\<rparr>)))"
    by (intro safe_obind [OF loop]) (auto simp: ready_def)
  then show ?thesis unfolding copyRootDirPaths_def by simp
qed

lemma start_safe:
  assumes "kernel_ok os" and "\<forall>p\<in>set opts. option_ok os (has_log opts) p"
  shows "safe (\<lambda>_ t. ready os (has_log opts) t) (start os opts dirs k)"
proof -
  let ?L = "has_log opts"
  have "configured os ?L (initial k)"
    by (simp add: configured_def initial_def cache_ok_Nil INOTIFY_READ_BUF_LEN_def fresh_ok_def prints_def VB_NOISY_def)
  from parse_options_safe [OF this assms(2)]
  have "safe (\<lambda>_ t. ready os ?L t) (ofold (parse_option os) opts (initial k))"
    by (rule safe_mono) (auto simp: ready_configured)
  then show ?thesis
    unfolding start_def
  proof (rule safe_obind)
    fix u and t :: "'a dtree"
    assume "ready os ?L t"
    then show "safe (\<lambda>_ t. ready os ?L t) (if dirs = [] then usageError t
        else obind (copyRootDirPaths os dirs t) (\<lambda>_ s. reinitialize os (-1) s))"
      by (intro safe_if safe_obind [OF copyRootDirPaths_safe] reinitialize_ready [OF assms(1)])
        (simp_all add: usageError_def)
  qed
qed


text \<open>A session in which the contents are listed, then the directory \<^verbatim>\<open>/r/d\<close> is created.\<close>

definition session_os :: "nat os" where
  "session_os = demo_os\<lparr>
     sys_read_events := (\<lambda>fd n k.
       if k = 2 \<and> 32 \<le> n then (Inr [\<lparr>ev_wd = 1, ev_mask = IN_CREATE OR IN_ISDIR, ev_cookie = 0, ev_len = 16, ev_name = ''d''\<rparr>], k)
       else (Inl EINTR, k)),
     sys_realloc := (\<lambda>n k. Some (\<lambda>j. None)),
     sys_read_stdin := (\<lambda>n k. (Inr [CHR ''l'', CHR 0x0A], k))\<rparr>"

lemma session_os_ok:
  "kernel_ok session_os" "terminal_ok (has_log [(CHR ''v'', ''1'')]) session_os"
  "\<forall>p\<in>set [(CHR ''v'', ''1'')]. option_ok session_os (has_log [(CHR ''v'', ''1'')]) p"
proof -
  have "event_ok \<lparr>ev_wd = 1, ev_mask = IN_CREATE OR IN_ISDIR, ev_cookie = 0, ev_len = 16, ev_name = ''d''\<rparr>"
    by (simp add: event_ok_def has_def in_defs)
  then show "kernel_ok session_os"
    by (auto simp: kernel_ok_def add_watch_nonneg_def strdup_ok_def session_os_def demo_os_def event_bytes_def EVENT_SIZE_def buffer_bytes_def)
  show "terminal_ok (has_log [(CHR ''v'', ''1'')]) session_os"
    by (simp add: terminal_ok_def session_os_def demo_os_def stdin_line_def scan_command_def command_ok_def NUL_def)
  have "atoi ''1'' = 1" by code_simp
  then show "\<forall>p\<in>set [(CHR ''v'', ''1'')]. option_ok session_os (has_log [(CHR ''v'', ''1'')]) p"
    by (simp add: option_ok_def quiet_level_def VB_NOISY_def)
qed

text \<open>The session: the cache after the start, after the command and after the event.\<close>

definition session_start :: "nat dtree" where
  "session_start = (initial 2)\<lparr>verboseMask := 1, rootDirPaths := [Some ''/r''],
     rootDirStat := [\<lparr>st_isdir = True, st_ino = 2, st_dev = 1\<rparr>], dirCnt := 1, ifd := 3,
     stderr_out := [(''Initializing cache'', []), (''new inotifyFd'', [FI 3]), (''watchSubtree'', [FS ''/r'', FI 1])],
     wlCache := \<lparr>w_wd = 1, w_path = ''/r''\<rparr> # replicate 199 empty_slot\<rparr>"

lemma session_starts: "start session_os [(CHR ''v'', ''1'')] [''/r''] 1 = Ret 3 session_start"
proof -
  have "atoi ''1'' = 1" by code_simp
  moreover have "replicate ALLOC_INCR x = x # replicate 199 x" for x :: watch
    by (simp add: ALLOC_INCR_def numeral_eq_Suc)
  ultimately show ?thesis
    by (simp add: start_def parse_option_def initial_def copyRootDirPaths_def reinitialize_def session_os_def demo_os_def
        rebuild_root_def watchSubtree_def watchDir_def traverseTree_def addWatchToCache_def findEmptyCacheSlot_grows strncpy_def PATH_MAX_def
        logMessage_def VB_NOISY_def VB_BASIC_def prints_def freeCache_def findWatch_def find_slot_def session_start_def Let_def)
qed

text \<open>The list command, then the creation of \<^verbatim>\<open>/r/d\<close>, which is watched in the second slot.\<close>

lemma core_list_cache: "core (list_cache s) = core s" "logfp (list_cache s) = None \<longleftrightarrow> logfp s = None"
  by (simp_all add: list_cache_def fold_logMessage Let_def)

definition session_state :: "nat dtree \<Rightarrow> bool" where
  "session_state t \<longleftrightarrow> verboseMask t = 1 \<and> logfp t = None \<and> wlCache t = wlCache session_start \<and> kern t = 2
     \<and> readBufferSize t = 0 \<and> \<not> checkCache t \<and> \<not> dumpCache t \<and> rootDirPaths t = [Some ''/r'']"

lemma session_lists:
  "\<exists>t. loop_turn 1 session_os pname (\<lambda>fd. fd = 0) 3 (put l session_start) = Some (Ret 3 t) \<and> session_state t"
proof -
  let ?t = "put (pname @ ''> '') (list_cache (put l session_start))"
  have "loop_turn 1 session_os pname (\<lambda>fd. fd = 0) 3 (put l session_start) = Some (Ret 3 ?t)"
    by (simp add: loop_turn_def executeCommand_def session_os_def demo_os_def stdin_line_def scan_command_def NUL_def
        run_command_def put_def session_start_def initial_def)
  moreover have "session_state ?t"
    using core_eqD [OF core_list_cache(1) [of "put l session_start"]] core_list_cache(2) [of "put l session_start"]
    by (simp add: session_state_def put_def session_start_def initial_def)
  ultimately show ?thesis by blast
qed

definition session_event :: inotify_event where
  "session_event = \<lparr>ev_wd = 1, ev_mask = IN_CREATE OR IN_ISDIR, ev_cookie = 0, ev_len = 16, ev_name = ''d''\<rparr>"

lemma session_event_handled:
  assumes "session_state s"
  shows "\<exists>t. processNextInotifyEvent session_os 3 [session_event] 32 True s = Ret (32, 3) t
     \<and> map w_path (filter (\<lambda>w. 0 \<le> w_wd w) (wlCache t)) = [''/r'', ''/r/d'']"
proof -
  let ?u = "displayInotifyEvent session_event s"
  have c: "wlCache s = \<lparr>w_wd = 1, w_path = ''/r''\<rparr> # empty_slot # replicate 198 empty_slot"
    using assms by (simp add: session_state_def session_start_def numeral_eq_Suc)
  have look: "lookup_event session_os session_event ?u = Ret (Some 0) ?u"
    by (simp add: lookup_event_def session_event_def findWatchChecked_def findWatch_def find_slot_def c has_def in_defs)
  have none: "findWatch (wlCache s) 2 < 0" "\<not> pathnameInCache (wlCache s) ''/r/d''"
    by (simp_all add: c findWatch_def pathnameInCache_def pathnameToCacheSlot_def find_slot_nonneg_iff find_slot_neg_iff empty_slot_def)
  have watch: "\<exists>t. watchSubtree session_os 3 ''/r/d'' u = Ret () t \<and> dumpCache t = dumpCache u \<and> checkCache t = checkCache u
     \<and> wlCache t = [\<lparr>w_wd = 1, w_path = ''/r''\<rparr>, \<lparr>w_wd = 2, w_path = ''/r/d''\<rparr>] @ replicate 198 empty_slot"
    if "wlCache u = wlCache s" "kern u = 2" for u
    using that none c
    by (simp add: watchSubtree_def watchDir_def traverseTree_def session_os_def demo_os_def addWatchToCache_def
        findEmptyCacheSlot_def find_slot_def empty_slot_def strncpy_def PATH_MAX_def Let_def)
  have create: "on_create session_os 3 session_event (Some 0) ?u
      = watchSubtree session_os 3 ''/r/d'' (logMessage VB_BASIC (''Directory creation'', [FI 1, FS ''/r/d'']) ?u)"
    using none(2) by (simp add: on_create_def with_slot_def c session_event_def join_path_def snprintf_def PATH_MAX_def NAME_MAX_def Let_def)
  obtain t where "watchSubtree session_os 3 ''/r/d'' (logMessage VB_BASIC (''Directory creation'', [FI 1, FS ''/r/d'']) ?u) = Ret () t"
    and "\<not> dumpCache t" "\<not> checkCache t"
    and "wlCache t = [\<lparr>w_wd = 1, w_path = ''/r''\<rparr>, \<lparr>w_wd = 2, w_path = ''/r/d''\<rparr>] @ replicate 198 empty_slot"
    using watch [of "logMessage VB_BASIC (''Directory creation'', [FI 1, FS ''/r/d'']) ?u"] assms by (auto simp: session_state_def)
  note t = this
  have "dispatch_event session_os 3 session_event [] 32 True (Some 0) ?u = finish_event session_os 32 3 t"
    using create t(1) by (simp add: dispatch_event_def session_event_def has_def in_defs event_bytes_def EVENT_SIZE_def)
  then have "processNextInotifyEvent session_os 3 [session_event] 32 True s = Ret (32, 3) t"
    using t(2,3) by (simp add: processNextInotifyEvent_def look finish_event_def)
  then show ?thesis using t(4) by (simp add: filter_replicate empty_slot_def)
qed

lemma session_turn:
  assumes "session_state s"
  shows "loop_turn 1 session_os pname (\<lambda>fd. fd = 3) 3 s
    = process_loop 1 session_os 3 [session_event] 32 True
        (logMessage VB_NOISY (''Read'', [FI (inotifyReadCnt s + 1), FI 32]) (s\<lparr>kern := 2, inotifyReadCnt := inotifyReadCnt s + 1\<rparr>))"
proof -
  have rd: "sys_sigaction session_os k" "sys_read_events session_os 3 INOTIFY_READ_BUF_LEN 2 = (Inr [session_event], 2)" for k
    by (simp_all add: session_os_def demo_os_def session_event_def INOTIFY_READ_BUF_LEN_def)
  have b: "buffer_bytes [session_event] = 32" "\<not> int INOTIFY_READ_BUF_LEN < 32"
    by (simp_all add: buffer_bytes_def event_bytes_def EVENT_SIZE_def session_event_def INOTIFY_READ_BUF_LEN_def)
  have s: "kern s = 2" "readBufferSize s = 0" using assms by (simp_all add: session_state_def)
  have "loop_turn 1 session_os pname (\<lambda>fd. fd = 3) 3 s = processInotifyEvents 1 session_os 3 s"
    unfolding loop_turn_def by simp
  then show ?thesis
    unfolding processInotifyEvents_def Let_def using rd b s by (simp del: process_loop.simps)
qed

lemma one_event:
  "processNextInotifyEvent os fd evs n True s = Ret (n, fd) t \<Longrightarrow> 0 < n \<Longrightarrow> process_loop (Suc 0) os fd evs n True s = Some (Ret fd t)"
  by simp

lemma session_watches:
  assumes "session_state s"
  shows "\<exists>t. loop_turn 1 session_os pname (\<lambda>fd. fd = 3) 3 s = Some (Ret 3 t)
     \<and> map w_path (filter (\<lambda>w. 0 \<le> w_wd w) (wlCache t)) = [''/r'', ''/r/d'']"
proof -
  define u where "u = logMessage VB_NOISY (''Read'', [FI (inotifyReadCnt s + 1), FI 32]) (s\<lparr>kern := 2, inotifyReadCnt := inotifyReadCnt s + 1\<rparr>)"
  have turn: "loop_turn 1 session_os pname (\<lambda>fd. fd = 3) 3 s = process_loop (Suc 0) session_os 3 [session_event] 32 True u"
    unfolding u_def using session_turn [OF assms] unfolding One_nat_def .
  have "session_state u" using assms by (simp add: session_state_def u_def)
  from session_event_handled [OF this] obtain t
    where t: "processNextInotifyEvent session_os 3 [session_event] 32 True u = Ret (32, 3) t"
      "map w_path (filter (\<lambda>w. 0 \<le> w_wd w) (wlCache t)) = [''/r'', ''/r/d'']" by (elim exE conjE)
  from turn one_event [OF t(1)] t(2) show ?thesis by (intro exI [of _ t]) simp
qed


end
