(* ===== verification/Dtree_Properties.thy ===== *)
theory Dtree_Properties
  imports Dtree_Main
begin

text \<open>
  Properties of the cache operations of \<^verbatim>\<open>inotify_dtree.c\<close> on their own: renaming back
  undoes a rename, the counts that the tree walk and the removal report are right, rebuilding
  restores the invariant from any state, and what the optional consistency check really tests.
\<close>

section \<open>Renaming\<close>

lemma rewrite_path_back:
  assumes "no_nul p" and "length p < PATH_MAX" and "\<not> subpath new p"
    and "subpath old p \<Longrightarrow> length new + (length p - length old) < PATH_MAX"
  shows "rewrite_path new old (rewrite_path old new p) = p"
proof (cases "subpath old p")
  case True
  then obtain r where p: "p = old @ r" and r: "r = [] \<or> hd r = CHR ''/''" by (auto simp: subpath_def)
  have "in_subtree old (old @ r)" "in_subtree new (new @ r)" using r by (auto simp: in_subtree_append)
  then show ?thesis using assms(2,4) True unfolding p by (simp add: rewrite_path_def cstr_simps)
next
  case False
  then show ?thesis using assms(1,3) by (simp add: rewrite_path_def in_subtree_iff)
qed

text \<open>
  Renaming a directory and renaming it back restores the cached pathname of every watch,
  when the new name was not in use in the cache and no pathname outgrows the slots.
\<close>

theorem rename_there_and_back:
  assumes "length (join_path od on) < PATH_MAX" and "length (join_path nd nn) < PATH_MAX"
    and "\<forall>p\<in>ran (cache_map (wlCache s)). no_nul p \<and> length p < PATH_MAX \<and> \<not> subpath (join_path nd nn) p
           \<and> (subpath (join_path od on) p \<longrightarrow>
                length (join_path nd nn) + (length p - length (join_path od on)) < PATH_MAX)"
  shows "cache_map (wlCache (rewriteCachedPaths nd nn od on (rewriteCachedPaths od on nd nn s))) = cache_map (wlCache s)"
proof
  fix wd
  show "cache_map (wlCache (rewriteCachedPaths nd nn od on (rewriteCachedPaths od on nd nn s))) wd
      = cache_map (wlCache s) wd"
  proof (cases "cache_map (wlCache s) wd")
    case (Some p)
    then have "p \<in> ran (cache_map (wlCache s))" by (rule ranI)
    with assms show ?thesis
      by (simp add: rewriteCachedPaths_spec(1) cache_map_rewrite Some rewrite_path_back cstr_simps del: map_map)
  qed (simp add: rewriteCachedPaths_spec(1) cache_map_rewrite del: map_map)
qed

lemma demo_ran: "ran (cache_map demo_cache) = {''/r'', ''/r/a'', ''/r/a/b'', ''/r/ab'', ''/r/c''}"
proof -
  have "p \<in> ran (cache_map demo_cache) \<longleftrightarrow> (\<exists>w\<in>set demo_cache. used w \<and> w_path w = p)" for p
    by (auto simp: ran_def cache_map_Some_iff [OF demo_cache_ok])
  then show ?thesis by (auto simp: set_eq_iff demo_cache_def used_def empty_slot_def)
qed

theorem rename_there_and_back_witness:
  "cache_map (wlCache (rewriteCachedPaths ''/r/c'' ''z'' ''/r'' ''a'' (rewriteCachedPaths ''/r'' ''a'' ''/r/c'' ''z'' demo)))
   = cache_map (wlCache demo)"
  by (rule rename_there_and_back)
    (simp_all add: demo_ran join_path_def PATH_MAX_def subpath_def NUL_def)

section \<open>Adding and removing subtrees\<close>

text \<open>
  The number \<^verbatim>\<open>watchDir()\<close> returns is the number of cache entries it added: every entry
  that was there is kept, and every new pathname is one the tree walk visited as a directory.
\<close>

theorem watchDir_counts:
  assumes "add_watch_nonneg os" and "cache_ok (wlCache s)" and "watchDir os fd p s = Ret cnt t"
  shows "0 \<le> cnt \<and> int (card (dom (cache_map (wlCache t)))) = int (card (dom (cache_map (wlCache s)))) + cnt
    \<and> cache_ok (wlCache t) \<and> cache_map (wlCache s) \<subseteq>\<^sub>m cache_map (wlCache t)
    \<and> ran (cache_map (wlCache t)) \<subseteq> ran (cache_map (wlCache s))
        \<union> {strncpy q PATH_MAX | q. (q, True) \<in> set (fst (fst (sys_nftw os p (kern s))))}"
  using watchDir_grows [OF assms] by (auto simp: grows_def visited_dirs_def)

theorem watchDir_counts_witness:
  "\<exists>cnt t. watchDir demo_os 3 ''/r/d'' demo = Ret cnt t \<and>
    (0 \<le> cnt \<and> int (card (dom (cache_map (wlCache t)))) = int (card (dom (cache_map (wlCache demo)))) + cnt
    \<and> cache_ok (wlCache t) \<and> cache_map (wlCache demo) \<subseteq>\<^sub>m cache_map (wlCache t)
    \<and> ran (cache_map (wlCache t)) \<subseteq> ran (cache_map (wlCache demo))
        \<union> {strncpy q PATH_MAX | q. (q, True) \<in> set (fst (fst (sys_nftw demo_os ''/r/d'' (kern demo))))})"
proof -
  have "find_slot (\<lambda>w. w_wd w = -1) demo_cache = 2" "findWatch demo_cache 8 = -1"
    by (simp add: find_slot_def demo_cache_def empty_slot_def)
      (simp add: findWatch_def find_slot_eq_minus1_iff demo_cache_def empty_slot_def)
  then have "\<exists>cnt t. watchDir demo_os 3 ''/r/d'' demo = Ret cnt t"
    by (simp add: watchDir_def traverseTree_def demo_os_def Let_def addWatchToCache_def findEmptyCacheSlot_def)
  then obtain cnt t where run: "watchDir demo_os 3 ''/r/d'' demo = Ret cnt t" by blast
  have ok: "cache_ok (wlCache demo)" by (simp add: demo_cache_ok)
  from watchDir_counts [OF demo_add_watch_nonneg ok run] run show ?thesis by blast
qed

text \<open>
  \<^verbatim>\<open>zapSubtree()\<close> never reports success for work it did not do: a nonnegative result is
  the number of cached directories at or below the path, all of them are gone from the cache
  afterwards and nothing else is; a result of -1 leaves a well-formed cache that holds a
  subset of the entries. Settings and roots are unchanged either way.
\<close>

theorem zapSubtree_exact:
  assumes "cache_ok (wlCache s)" and "zapSubtree os fd path s = Ret cnt t"
  shows "cache_ok (wlCache t) \<and> cache_map (wlCache t) \<subseteq>\<^sub>m cache_map (wlCache s) \<and> same_config s t \<and>
    (cnt \<noteq> -1 \<longrightarrow>
       cnt = int (card {wd. \<exists>p. cache_map (wlCache s) wd = Some p \<and> in_subtree path p}) \<and>
       cache_map (wlCache t) = cache_map (wlCache s) |`
         {wd. \<forall>p. cache_map (wlCache s) wd = Some p \<longrightarrow> \<not> in_subtree path p})"
proof -
  note z = zapSubtree_spec [OF assms]
  have "same_config s t" using only_cache_same_config [OF z(3)] by simp
  then show ?thesis using z(1,2,4) by blast
qed

theorem zapSubtree_exact_witness:
  "\<exists>cnt t. zapSubtree demo_os 3 ''/r/a'' demo = Ret cnt t \<and> cache_ok (wlCache t)
     \<and> cnt = int (card {wd. \<exists>p. cache_map (wlCache demo) wd = Some p \<and> in_subtree ''/r/a'' p})"
proof -
  obtain cnt t where z: "zapSubtree demo_os 3 ''/r/a'' demo = Ret cnt t" "zap_all demo_os 3 ''/r/a'' demo = (cnt, t)"
    using zapSubtree_returns [of demo_os 3 "''/r/a''" demo] by (auto simp: strdup_ok_def demo_os_def)
  have "\<And>wd k. fst (sys_inotify_rm_watch demo_os 3 wd k) = None" by (simp add: demo_os_def)
  from zapSubtree_loop_nonneg [OF this order_refl] z(2) have "cnt \<noteq> -1"
    unfolding zap_all_def by (metis fst_conv neg_0_le_iff_le not_one_le_zero)
  moreover have "cache_ok (wlCache demo)" by (simp add: demo_cache_ok)
  ultimately show ?thesis using zapSubtree_exact [OF _ z(1)] z by blast
qed

text \<open>
  Two gaps of the cache code: \<^verbatim>\<open>zapSubtree()\<close> does not test the copy of the path it makes, and
  the first growth of the cache prints the uninitialised pathnames of the new slots when verbose
  messages are on.
\<close>

lemma zap_without_memory:
  "zapSubtree (demo_os\<lparr>sys_alloc := (\<lambda>n k. False)\<rparr>) 3 ''/r/a'' demo = Undef"
  by (simp add: zapSubtree_def demo_os_def demo_cache_def)

lemma noisy_growth_reads_garbage:
  "findEmptyCacheSlot (demo_os\<lparr>sys_realloc := (\<lambda>n k. Some (\<lambda>j. None))\<rparr>) (demo\<lparr>verboseMask := 2, wlCache := []\<rparr>) = Undef"
  by (simp add: findEmptyCacheSlot_def demo_os_def demo_def find_slot_def prints_def VB_NOISY_def ALLOC_INCR_def)
    (rule exI [of _ 0], simp)

text \<open>
  C13. Rebuilding repairs the cache: from any state, however inconsistent, \<^verbatim>\<open>reinitialize()\<close>
  either ends the program or returns with a well-formed cache in which every pathname lies
  at or below one of the root directories that are still monitored, and it changes neither
  the list of roots nor the settings. The one exception is that verbose messages or a log file print the
  new slots of the cache while their pathname arrays hold no null byte. The kernel hands out nonnegative
  watch descriptors and the tree walk visits pathnames below its start.
\<close>

theorem reinitialize_repairs:
  assumes "add_watch_nonneg os" and "nftw_below os"
  shows "safe (\<lambda>fd' t. cache_ok (wlCache t) \<and> below_roots (rootDirPaths t) (wlCache t) \<and> same_config s t)
    (reinitialize os fd s)
   \<or> reinitialize os fd s = Undef \<and> prints VB_NOISY s \<and> \<not> terminated_memory os"
  using reinitialize_spec [OF assms(1), of fd s] reinitialize_ends_well [of os s fd] assms(2)
  by (cases "reinitialize os fd s") (auto simp: fresh_ok_def)

theorem reinitialize_repairs_witness:
  "safe (\<lambda>fd' t. cache_ok (wlCache t) \<and> below_roots (rootDirPaths t) (wlCache t) \<and> same_config demo t)
    (reinitialize demo_os 3 demo)"
proof -
  have "terminated_memory demo_os" by (simp add: terminated_memory_def demo_os_def)
  then show ?thesis using reinitialize_repairs [OF demo_add_watch_nonneg demo_nftw_below, of demo 3] by blast
qed

section \<open>The consistency check\<close>

text \<open>
  The check after each operation (\<^verbatim>\<open>-x\<close>) looks at the type of the wrong slots. With an unused
  slot in front it reads the \<^verbatim>\<open>stat\<close> buffer before anything was stored in it.
\<close>

lemma checkCache_loop_all_used:
  assumes "\<forall>j\<in>set js. used (wlCache s ! j) \<and> (\<exists>st. sys_lstat os (w_path (wlCache s ! j)) (kern s) = Inr st)"
  shows "checkCacheConsistency_loop os js sb n s = Ret n s"
  using assms by (induction js arbitrary: sb) (auto simp: used_def)

text \<open>
  The cache check does not do what it announces. A cache with an unused first slot makes
  it inspect an uninitialised \<^verbatim>\<open>stat\<close> buffer, and a full cache whose pathnames all exist
  passes, whether or not they name directories, because the test for a directory is the
  \<^verbatim>\<open>else\<close> branch of the test for a used slot.
\<close>

theorem checkCache_tests_wrong_slots:
  "(wlCache s \<noteq> [] \<and> \<not> used (hd (wlCache s)) \<longrightarrow> checkCacheConsistency os s = Undef) \<and>
   ((\<forall>w\<in>set (wlCache s). used w \<and> (\<exists>st. sys_lstat os (w_path w) (kern s) = Inr st)) \<longrightarrow>
      checkCacheConsistency os s = Ret () s)"
proof (intro conjI impI)
  assume "wlCache s \<noteq> [] \<and> \<not> used (hd (wlCache s))"
  then show "checkCacheConsistency os s = Undef"
    by (auto simp: checkCacheConsistency_def used_def upt_conv_Cons hd_conv_nth)
next
  assume "\<forall>w\<in>set (wlCache s). used w \<and> (\<exists>st. sys_lstat os (w_path w) (kern s) = Inr st)"
  then show "checkCacheConsistency os s = Ret () s"
    by (simp add: checkCacheConsistency_def checkCache_loop_all_used)
qed

definition file_os :: "nat os" where
  "file_os = demo_os\<lparr>sys_lstat := \<lambda>p k. Inr \<lparr>st_isdir = False, st_ino = 1, st_dev = 1\<rparr>\<rparr>"

theorem checkCache_tests_wrong_slots_witness:
  "checkCacheConsistency demo_os (demo\<lparr>wlCache := [empty_slot]\<rparr>) = Undef \<and>
   checkCacheConsistency file_os (demo\<lparr>wlCache := [\<lparr>w_wd = 1, w_path = ''/etc/passwd''\<rparr>]\<rparr>)
     = Ret () (demo\<lparr>wlCache := [\<lparr>w_wd = 1, w_path = ''/etc/passwd''\<rparr>]\<rparr>)"
  using checkCache_tests_wrong_slots [of "demo\<lparr>wlCache := [empty_slot]\<rparr>" demo_os]
    checkCache_tests_wrong_slots [of "demo\<lparr>wlCache := [\<lparr>w_wd = 1, w_path = ''/etc/passwd''\<rparr>]\<rparr>" file_os]
  by (simp add: file_os_def used_def)

end
