(* ===== verification/Get_Num.thy ===== *)
theory Get_Num
  imports Strto_Num
begin

text \<open>
  The numeric command-line arguments of the library: \<^verbatim>\<open>lib/get_num.c\<close>, whose functions
  end the program on a bad argument, and \<^verbatim>\<open>lib/tryGet_num.c\<close>, whose functions report the
  failure to their caller. An argument is a C string or null (\<open>None\<close>); a failing call gives
  the diagnostic it prints.
\<close>

section \<open>Flags\<close>

definition GN_NONNEG :: int where "GN_NONNEG = 1"
definition GN_GT_0 :: int where "GN_GT_0 = 2"
definition TGN_IGN_TRAILGB :: int where "TGN_IGN_TRAILGB = 8"
definition TGN_IGN_TRAILWS :: int where "TGN_IGN_TRAILWS = 16"
definition GN_ANY_BASE :: int where "GN_ANY_BASE = 64"
definition GN_BASE_8 :: int where "GN_BASE_8 = 128"
definition GN_BASE_16 :: int where "GN_BASE_16 = 256"

lemmas gn_defs = GN_NONNEG_def GN_GT_0_def TGN_IGN_TRAILGB_def TGN_IGN_TRAILWS_def GN_ANY_BASE_def
  GN_BASE_8_def GN_BASE_16_def

definition flag :: "int \<Rightarrow> int \<Rightarrow> bool" where
  "flag flags f \<longleftrightarrow> flags AND f \<noteq> 0"

section \<open>Conversions that end the program\<close>

text \<open>What \<^verbatim>\<open>gnFail()\<close> writes to the standard error stream before it exits.\<close>

definition gnFail :: "cstring \<Rightarrow> cstring \<Rightarrow> cstring option \<Rightarrow> cstring option \<Rightarrow> cstring" where
  "gnFail fname msg arg name =
     fname @ '' error''
     @ (case name of None \<Rightarrow> [] | Some nm \<Rightarrow> '' (in '' @ nm @ '')'')
     @ '': '' @ msg @ [newline]
     @ (case arg of None \<Rightarrow> [] | Some a \<Rightarrow> if a = [] then [] else ''        offending text: '' @ a @ [newline])"

definition gn_base :: "int \<Rightarrow> nat" where
  "gn_base flags =
     (if flag flags GN_ANY_BASE then 0
      else if flag flags GN_BASE_8 then 8
      else if flag flags GN_BASE_16 then 16
      else 10)"

definition getNum :: "cstring \<Rightarrow> cstring option \<Rightarrow> int \<Rightarrow> cstring option \<Rightarrow> cstring + int" where
  "getNum fname arg flags name =
     (case arg of
        None \<Rightarrow> Inl (gnFail fname ''null or empty string'' arg name)
      | Some a \<Rightarrow>
          if a = [] then Inl (gnFail fname ''null or empty string'' arg name)
          else
            let (res, erange, endptr) = strtoll a (gn_base flags) in
            if erange then Inl (gnFail fname ''strtol() failed'' arg name)
            else if endptr \<noteq> [] then Inl (gnFail fname ''nonnumeric characters'' arg name)
            else if flag flags GN_NONNEG \<and> res < 0 then Inl (gnFail fname ''negative value not allowed'' arg name)
            else if flag flags GN_GT_0 \<and> res \<le> 0 then Inl (gnFail fname ''value must be > 0'' arg name)
            else Inr res)"

definition getLLong :: "cstring option \<Rightarrow> int \<Rightarrow> cstring option \<Rightarrow> cstring + int" where
  "getLLong arg flags name = getNum ''getLLong'' arg flags name"

definition getLong :: "cstring option \<Rightarrow> int \<Rightarrow> cstring option \<Rightarrow> cstring + int" where
  "getLong arg flags name =
     (case getNum ''getLong'' arg flags name of
        Inl d \<Rightarrow> Inl d
      | Inr res \<Rightarrow>
          if res > LONG_MAX \<or> res < LONG_MIN then Inl (gnFail ''getLong'' ''long integer out of range'' arg name)
          else Inr res)"

definition getInt :: "cstring option \<Rightarrow> int \<Rightarrow> cstring option \<Rightarrow> cstring + int" where
  "getInt arg flags name =
     (case getNum ''getInt'' arg flags name of
        Inl d \<Rightarrow> Inl d
      | Inr res \<Rightarrow>
          if res > INT_MAX \<or> res < INT_MIN then Inl (gnFail ''getInt'' ''integer out of range'' arg name)
          else Inr res)"

section \<open>Conversions that report failure\<close>

definition hasNonWhitespace :: "cstring \<Rightarrow> bool" where
  "hasNonWhitespace s \<longleftrightarrow> (\<exists>c\<in>set s. \<not> isspace c)"

definition gnWarn :: "cstring \<Rightarrow> cstring \<Rightarrow> cstring option \<Rightarrow> cstring option \<Rightarrow> cstring" where
  "gnWarn fname msg arg name =
     fname @ '' error''
     @ (case name of None \<Rightarrow> [] | Some nm \<Rightarrow> '' (in '' @ nm @ '')'')
     @ '': '' @ msg @ [newline]
     @ (case arg of None \<Rightarrow> []
        | Some a \<Rightarrow> if a = [] then [] else CHR 0x09 # ''offending text: '' @ [CHR 0x22] @ a @ [CHR 0x22, newline])"

text \<open>
  The core parser. The chain of tests is the source's: the test of trailing characters is
  one branch of the chain and the sign tests are the next one, so the sign tests are not
  reached when trailing characters were tolerated.
\<close>

definition tryGetNum ::
  "cstring \<Rightarrow> cstring option \<Rightarrow> int \<Rightarrow> cstring option \<Rightarrow> bool \<Rightarrow> cstring + int" where
  "tryGetNum fname arg flags name is_unsigned =
     (case arg of
        None \<Rightarrow> Inl (gnWarn fname ''null or empty string'' arg name)
      | Some a \<Rightarrow>
          if a = [] then Inl (gnWarn fname ''null or empty string'' arg name)
          else if is_unsigned \<and> hd a = CHR ''-''
          then Inl (gnWarn fname ''negative value not allowed for unsigned type'' arg name)
          else
            let base = gn_base flags;
                (res, erange, endptr) = (if is_unsigned then strtoull a base else strtoll a base)
            in
            if erange then Inl (gnWarn fname ''Numerical result out of range'' arg name)
            else if strto base a = None then Inl (gnWarn fname ''no digits found'' arg name)
            else if endptr \<noteq> [] \<and> \<not> flag flags TGN_IGN_TRAILGB then
              (if \<not> flag flags TGN_IGN_TRAILWS \<or> hasNonWhitespace endptr
               then Inl (gnWarn fname ''nonnumeric characters'' arg name)
               else Inr res)
            else if \<not> is_unsigned then
              (if flag flags GN_NONNEG \<and> res < 0 then Inl (gnWarn fname ''negative value not allowed'' arg name)
               else if flag flags GN_GT_0 \<and> res \<le> 0 then Inl (gnWarn fname ''value must be > 0'' arg name)
               else Inr res)
            else Inr res)"

text \<open>
  The typed wrappers take the current content of \<^verbatim>\<open>*out\<close> (\<open>None\<close> for a null pointer) and
  give the status, the new content and what was written to the standard error stream.
\<close>

datatype tgn_t = TGN_SUCCESS | TGN_FAILURE

type_synonym tgn_result = "tgn_t \<times> int option \<times> cstring"

definition store :: "int option \<Rightarrow> int \<Rightarrow> int option" where
  "store out v = (case out of None \<Rightarrow> None | Some _ \<Rightarrow> Some v)"

definition out_of_range :: "cstring \<Rightarrow> cstring" where
  "out_of_range ty = ''value out of range for '' @ [CHR 0x27] @ ty @ [CHR 0x27]"

definition tryGetLLong :: "cstring option \<Rightarrow> int \<Rightarrow> cstring option \<Rightarrow> int option \<Rightarrow> tgn_result" where
  "tryGetLLong arg flags name out =
     (case tryGetNum ''tryGetLLong'' arg flags name False of
        Inl d \<Rightarrow> (TGN_FAILURE, out, d)
      | Inr temp \<Rightarrow>
          (TGN_SUCCESS, store out temp, []))"

definition tryGetLong :: "cstring option \<Rightarrow> int \<Rightarrow> cstring option \<Rightarrow> int option \<Rightarrow> tgn_result" where
  "tryGetLong arg flags name out =
     (case tryGetNum ''tryGetLong'' arg flags name False of
        Inl d \<Rightarrow> (TGN_FAILURE, out, d)
      | Inr temp \<Rightarrow>
          if temp > LONG_MAX \<or> temp < LONG_MIN then (TGN_FAILURE, out, gnWarn ''tryGetLong'' (out_of_range ''long'') arg name)
          else (TGN_SUCCESS, store out temp, []))"

definition tryGetInt :: "cstring option \<Rightarrow> int \<Rightarrow> cstring option \<Rightarrow> int option \<Rightarrow> tgn_result" where
  "tryGetInt arg flags name out =
     (case tryGetNum ''tryGetInt'' arg flags name False of
        Inl d \<Rightarrow> (TGN_FAILURE, out, d)
      | Inr temp \<Rightarrow>
          if temp > INT_MAX \<or> temp < INT_MIN then (TGN_FAILURE, out, gnWarn ''tryGetInt'' (out_of_range ''int'') arg name)
          else (TGN_SUCCESS, store out temp, []))"

definition tryGetULLong :: "cstring option \<Rightarrow> int \<Rightarrow> cstring option \<Rightarrow> int option \<Rightarrow> tgn_result" where
  "tryGetULLong arg flags name out =
     (case tryGetNum ''tryGetLLong'' arg flags name True of
        Inl d \<Rightarrow> (TGN_FAILURE, out, d)
      | Inr temp \<Rightarrow>
          (TGN_SUCCESS, store out temp, []))"

definition tryGetULong :: "cstring option \<Rightarrow> int \<Rightarrow> cstring option \<Rightarrow> int option \<Rightarrow> tgn_result" where
  "tryGetULong arg flags name out =
     (case tryGetNum ''tryGetLong'' arg flags name True of
        Inl d \<Rightarrow> (TGN_FAILURE, out, d)
      | Inr temp \<Rightarrow>
          if temp > ULONG_MAX then (TGN_FAILURE, out, gnWarn ''tryGetLong'' (out_of_range ''long'') arg name)
          else (TGN_SUCCESS, store out temp, []))"

definition tryGetUInt :: "cstring option \<Rightarrow> int \<Rightarrow> cstring option \<Rightarrow> int option \<Rightarrow> tgn_result" where
  "tryGetUInt arg flags name out =
     (case tryGetNum ''tryGetInt'' arg flags name True of
        Inl d \<Rightarrow> (TGN_FAILURE, out, d)
      | Inr temp \<Rightarrow>
          if temp > UINT_MAX then (TGN_FAILURE, out, gnWarn ''tryGetInt'' (out_of_range ''int'') arg name)
          else (TGN_SUCCESS, store out temp, []))"

section \<open>The contract of the converters\<close>

text \<open>
  All signed converters that check their result share one contract: a value they accept
  lies in the range of their type and obeys the sign flags. Callers that ask for a positive
  value can use it as a count or a size.
\<close>

locale checked_number =
  fixes conv :: "cstring option \<Rightarrow> int \<Rightarrow> cstring option \<Rightarrow> 'e + int"
    and lo :: int and hi :: int
  assumes in_range: "conv arg flags name = Inr v \<Longrightarrow> lo \<le> v \<and> v \<le> hi"
    and nonneg: "conv arg flags name = Inr v \<Longrightarrow> flag flags GN_NONNEG \<Longrightarrow> 0 \<le> v"
    and positive: "conv arg flags name = Inr v \<Longrightarrow> flag flags GN_GT_0 \<Longrightarrow> 0 < v"
begin

lemma usable_count:
  assumes "conv arg flags name = Inr v" and "flag flags GN_NONNEG \<or> flag flags GN_GT_0"
  shows "int (nat v) = v \<and> int (nat v) \<le> hi" and "flag flags GN_GT_0 \<Longrightarrow> nat v \<noteq> 0"
  using in_range [OF assms(1)] nonneg [OF assms(1)] positive [OF assms(1)] assms(2) by auto

end

lemma getNum_InrD:
  assumes "getNum fname arg flags name = Inr v"
  shows "LLONG_MIN \<le> v" "v \<le> LLONG_MAX" "flag flags GN_NONNEG \<Longrightarrow> 0 \<le> v" "flag flags GN_GT_0 \<Longrightarrow> 0 < v"
proof -
  from assms obtain a where a: "arg = Some a" "a \<noteq> []"
    by (auto simp: getNum_def split: option.splits if_splits)
  obtain r e x where s: "strtoll a (gn_base flags) = (r, e, x)" by (metis prod.exhaust)
  with assms a have "r = v" "flag flags GN_NONNEG \<longrightarrow> \<not> r < 0" "flag flags GN_GT_0 \<longrightarrow> \<not> r \<le> 0"
    by (auto simp: getNum_def split: if_splits)
  with strtoll_range [OF s] show "LLONG_MIN \<le> v" "v \<le> LLONG_MAX"
    "flag flags GN_NONNEG \<Longrightarrow> 0 \<le> v" "flag flags GN_GT_0 \<Longrightarrow> 0 < v" by auto
qed

interpretation gint: checked_number getInt INT_MIN INT_MAX
  by unfold_locales (auto simp: getInt_def dest: getNum_InrD split: sum.splits if_splits)

interpretation glong: checked_number getLong LONG_MIN LONG_MAX
  by unfold_locales (auto simp: getLong_def dest: getNum_InrD split: sum.splits if_splits)

interpretation gllong: checked_number getLLong LLONG_MIN LLONG_MAX
  by unfold_locales (auto simp: getLLong_def dest: getNum_InrD)

section \<open>The reporting converters\<close>

definition answer :: "'e + 'a \<Rightarrow> 'a option" where
  "answer r = (case r of Inl _ \<Rightarrow> None | Inr v \<Rightarrow> Some v)"

lemma strtoll_none: "strto b a = None \<Longrightarrow> strtoll a b = (0, False, a)"
  by (simp add: strtoll_def)

lemma strtoll_dec:
  assumes "LLONG_MIN \<le> v" "v \<le> LLONG_MAX" "rest = [] \<or> \<not> is_digit 10 (hd rest)"
  shows "strtoll (dec v @ rest) 10 = (v, False, rest)"
  using assms(1,2) by (simp add: strtoll_def strto_dec [OF assms(3)])

lemma dec_not_Nil [simp]: "dec v @ rest \<noteq> []" "dec v \<noteq> []"
  by (auto simp: dec_def)

lemma gn_base_default: "\<not> flag flags (GN_ANY_BASE OR GN_BASE_8 OR GN_BASE_16) \<Longrightarrow> gn_base flags = 10"
  by (simp add: gn_base_def flag_def bit.conj_disj_distrib or_eq_0_iff)

lemma tryGetNum_answers:
  assumes "\<not> flag flags TGN_IGN_TRAILGB" "\<not> flag flags TGN_IGN_TRAILWS"
  shows "answer (tryGetNum fname arg flags name False) = answer (getNum fname' arg flags name')"
proof (cases arg)
  case None
  then show ?thesis by (simp add: tryGetNum_def getNum_def answer_def)
next
  case (Some a)
  obtain r e x where s: "strtoll a (gn_base flags) = (r, e, x)" by (metis prod.exhaust)
  show ?thesis
  proof (cases "strto (gn_base flags) a")
    case None
    then show ?thesis using Some by (simp add: tryGetNum_def getNum_def answer_def strtoll_none)
  next
    case (Some z)
    then show ?thesis using assms \<open>arg = Some a\<close> s
      by (simp add: tryGetNum_def getNum_def answer_def Let_def)
  qed
qed

text \<open>
  C37. The two argument libraries accept the same signed numbers: without the flags that tolerate
  trailing characters, the reporting parser \<^verbatim>\<open>tryGetNum()\<close>, called for a signed type, gives a value
  exactly when the exiting parser \<^verbatim>\<open>getNum()\<close> does, and the same one; and so do their typed versions:
  \<^verbatim>\<open>tryGetLLong()\<close>, \<^verbatim>\<open>tryGetLong()\<close> and \<^verbatim>\<open>tryGetInt()\<close> succeed, with the value stored in \<^verbatim>\<open>*out\<close>, exactly when
  \<^verbatim>\<open>getLLong()\<close>, \<^verbatim>\<open>getLong()\<close> and \<^verbatim>\<open>getInt()\<close> return that value. For unsigned types, where \<^verbatim>\<open>tryGetNum()\<close> refuses a
  leading minus sign, there is no counterpart.
\<close>

theorem tryGetNum_refines_getNum:
  assumes "\<not> flag flags TGN_IGN_TRAILGB" "\<not> flag flags TGN_IGN_TRAILWS"
  shows "answer (tryGetNum fname arg flags name False) = answer (getNum fname' arg flags name')
    \<and> (\<exists>d. tryGetLLong arg flags name (Some old) = (TGN_SUCCESS, Some v, d)) = (getLLong arg flags name' = Inr v)
    \<and> (\<exists>d. tryGetLong arg flags name (Some old) = (TGN_SUCCESS, Some v, d)) = (getLong arg flags name' = Inr v)
    \<and> (\<exists>d. tryGetInt arg flags name (Some old) = (TGN_SUCCESS, Some v, d)) = (getInt arg flags name' = Inr v)"
proof -
  have a: "answer (tryGetNum f arg flags name False) = answer (getNum g arg flags name')" for f g
    using tryGetNum_answers [OF assms] .
  have typed: "(\<exists>r. tryGetNum f arg flags name False = Inr r \<and> P r) = (\<exists>r. getNum g arg flags name' = Inr r \<and> P r)" for f g P
    using a [of f g] by (auto simp: answer_def split: sum.splits)
  have tLLong: "(\<exists>d. tryGetLLong arg flags name (Some old) = (TGN_SUCCESS, Some v, d)) = (\<exists>r. tryGetNum ''tryGetLLong'' arg flags name False = Inr r \<and> r = v)"
    by (cases "tryGetNum ''tryGetLLong'' arg flags name False") (auto simp: tryGetLLong_def store_def)
  have gLLong: "(getLLong arg flags name' = Inr v) = (\<exists>r. getNum ''getLLong'' arg flags name' = Inr r \<and> r = v)"
    by (cases "getNum ''getLLong'' arg flags name'") (auto simp: getLLong_def)
  have tLong: "(\<exists>d. tryGetLong arg flags name (Some old) = (TGN_SUCCESS, Some v, d)) = (\<exists>r. tryGetNum ''tryGetLong'' arg flags name False = Inr r \<and> r = v \<and> LONG_MIN \<le> r \<and> r \<le> LONG_MAX)"
    by (cases "tryGetNum ''tryGetLong'' arg flags name False") (auto simp: tryGetLong_def store_def)
  have gLong: "(getLong arg flags name' = Inr v) = (\<exists>r. getNum ''getLong'' arg flags name' = Inr r \<and> r = v \<and> LONG_MIN \<le> r \<and> r \<le> LONG_MAX)"
    by (cases "getNum ''getLong'' arg flags name'") (auto simp: getLong_def)
  have tInt: "(\<exists>d. tryGetInt arg flags name (Some old) = (TGN_SUCCESS, Some v, d)) = (\<exists>r. tryGetNum ''tryGetInt'' arg flags name False = Inr r \<and> r = v \<and> INT_MIN \<le> r \<and> r \<le> INT_MAX)"
    by (cases "tryGetNum ''tryGetInt'' arg flags name False") (auto simp: tryGetInt_def store_def)
  have gInt: "(getInt arg flags name' = Inr v) = (\<exists>r. getNum ''getInt'' arg flags name' = Inr r \<and> r = v \<and> INT_MIN \<le> r \<and> r \<le> INT_MAX)"
    by (cases "getNum ''getInt'' arg flags name'") (auto simp: getInt_def)
  show ?thesis unfolding tLLong gLLong tLong gLong tInt gInt by (intro conjI a typed)
qed

theorem tryGetNum_refines_getNum_witness:
  "answer (tryGetNum ''f'' (Some ''42'') GN_GT_0 None False) = Some 42 \<and> answer (getNum ''g'' (Some ''42'') GN_GT_0 None) = Some 42
   \<and> getInt (Some ''42'') GN_GT_0 None = Inr 42"
proof -
  have w: "answer (tryGetNum ''f'' (Some ''42'') GN_GT_0 None False) = Some 42" "tryGetInt (Some ''42'') GN_GT_0 None (Some 0) = (TGN_SUCCESS, Some 42, [])"
    by code_simp+
  show ?thesis
    using tryGetNum_refines_getNum [of GN_GT_0 "''f''" "Some ''42''" None "''g''" None 0 42] w by (simp add: flag_def gn_defs)
qed

lemma unsigned_refuses_negative:
  "answer (tryGetNum ''f'' (Some ''-5'') 0 None True) = None \<and> answer (getNum ''g'' (Some ''-5'') 0 None) = Some (- 5)"
  by code_simp

text \<open>
  Round trip of the integer arguments: the decimal text of any value of C type
  \<^verbatim>\<open>int\<close> that satisfies the sign flags is read back as that value by \<^verbatim>\<open>getInt()\<close>, and
  \<^verbatim>\<open>tryGetInt()\<close> succeeds on it, stores it in \<^verbatim>\<open>*out\<close> and prints nothing.
\<close>

theorem getInt_roundtrip:
  assumes "INT_MIN \<le> v" "v \<le> INT_MAX"
    and "\<not> flag flags (GN_ANY_BASE OR GN_BASE_8 OR GN_BASE_16)"
    and "flag flags GN_NONNEG \<longrightarrow> 0 \<le> v" "flag flags GN_GT_0 \<longrightarrow> 0 < v"
  shows "getInt (Some (dec v)) flags name = Inr v \<and>
         tryGetInt (Some (dec v)) flags name (Some old) = (TGN_SUCCESS, Some v, [])"
proof
  have s: "strtoll (dec v) 10 = (v, False, [])" "strto 10 (dec v) \<noteq> None"
    using strtoll_dec [of v "[]"] strto_dec [of "[]" v] assms(1,2) by (simp_all add: limit_defs)
  show "getInt (Some (dec v)) flags name = Inr v"
    using assms s by (auto simp: getInt_def getNum_def gn_base_default)
  show "tryGetInt (Some (dec v)) flags name (Some old) = (TGN_SUCCESS, Some v, [])"
    using assms s by (auto simp: tryGetInt_def tryGetNum_def gn_base_default store_def)
qed

theorem getInt_roundtrip_witness:
  "getInt (Some (dec 1024)) GN_GT_0 None = Inr 1024 \<and>
   tryGetInt (Some (dec 1024)) GN_GT_0 None (Some 0) = (TGN_SUCCESS, Some 1024, [])"
  by (rule getInt_roundtrip) (simp_all add: flag_def gn_defs limit_defs)

text \<open>
  What a caller of \<^verbatim>\<open>tryGetInt()\<close> can rely on: a failing call leaves \<^verbatim>\<open>*out\<close> as it was
  and prints a diagnostic, a successful one prints nothing and stores a value in the range of
  \<^verbatim>\<open>int\<close> that obeys the sign flags, provided trailing white space is not tolerated.
\<close>

theorem tryGetInt_contract:
  assumes "tryGetInt arg flags name (Some old) = (st, out, err)"
  shows "(st = TGN_FAILURE \<and> out = Some old \<and> err \<noteq> []) \<or>
         (st = TGN_SUCCESS \<and> err = [] \<and>
          (\<exists>v. out = Some v \<and> INT_MIN \<le> v \<and> v \<le> INT_MAX \<and>
            (\<not> flag flags TGN_IGN_TRAILWS \<longrightarrow>
               (flag flags GN_NONNEG \<longrightarrow> 0 \<le> v) \<and> (flag flags GN_GT_0 \<longrightarrow> 0 < v))))"
proof (cases "tryGetNum ''tryGetInt'' arg flags name False")
  case (Inl d)
  then have "d \<noteq> []"
    by (auto simp: tryGetNum_def gnWarn_def Let_def split: option.splits if_splits prod.splits)
  then show ?thesis using assms Inl by (simp add: tryGetInt_def)
next
  case (Inr v)
  then have "\<not> flag flags TGN_IGN_TRAILWS \<longrightarrow>
               (flag flags GN_NONNEG \<longrightarrow> 0 \<le> v) \<and> (flag flags GN_GT_0 \<longrightarrow> 0 < v)"
    by (auto simp: tryGetNum_def Let_def split: option.splits if_splits prod.splits)
  then show ?thesis using assms Inr
    by (auto simp: tryGetInt_def store_def gnWarn_def split: if_splits)
qed

theorem tryGetInt_contract_witness:
  "tryGetInt (Some ''7'') GN_GT_0 None (Some 0) = (TGN_SUCCESS, Some 7, []) \<and> INT_MIN \<le> 7 \<and> 7 \<le> INT_MAX"
proof -
  have run: "tryGetInt (Some ''7'') GN_GT_0 None (Some 0) = (TGN_SUCCESS, Some 7, [])" by code_simp
  from tryGetInt_contract [OF run] run show ?thesis by auto
qed

text \<open>
  The sign flags are not enforced once trailing white space is tolerated: the text of
  any \<^verbatim>\<open>int\<close> followed by white space is accepted with \<^verbatim>\<open>TGN_IGN_TRAILWS\<close>, whatever
  \<^verbatim>\<open>GN_NONNEG\<close> and \<^verbatim>\<open>GN_GT_0\<close> ask for, because the sign tests are a later branch of the
  same chain of tests.
\<close>

theorem trailing_space_skips_sign_check:
  assumes "INT_MIN \<le> v" "v \<le> INT_MAX"
    and "\<not> flag flags (GN_ANY_BASE OR GN_BASE_8 OR GN_BASE_16)"
    and "flag flags TGN_IGN_TRAILWS" "\<not> flag flags TGN_IGN_TRAILGB"
    and "ws \<noteq> []" "\<forall>c\<in>set ws. isspace c"
  shows "tryGetInt (Some (dec v @ ws)) flags name (Some old) = (TGN_SUCCESS, Some v, [])"
proof -
  have nd: "ws = [] \<or> \<not> is_digit 10 (hd ws)"
    using assms(6,7) digit10_props by (cases ws) auto
  have s: "strtoll (dec v @ ws) 10 = (v, False, ws)"
    using strtoll_dec [OF _ _ nd] assms(1,2) by (simp add: limit_defs)
  have t: "strto 10 (dec v @ ws) \<noteq> None" using strto_dec [OF nd] by simp
  have w: "\<not> hasNonWhitespace ws" using assms(7) by (simp add: hasNonWhitespace_def)
  show ?thesis
    using assms s t w by (simp add: tryGetInt_def tryGetNum_def gn_base_default store_def)
qed

theorem trailing_space_skips_sign_check_witness:
  "tryGetInt (Some (dec (-5) @ '' '')) (GN_GT_0 OR TGN_IGN_TRAILWS) None (Some 0) = (TGN_SUCCESS, Some (-5), [])"
  by (rule trailing_space_skips_sign_check) (simp_all add: flag_def gn_defs limit_defs isspace_def)

end
