(* ===== verification/Stream_IO.thy ===== *)
theory Stream_IO
  imports Dtree_State
begin

text \<open>
  \<^verbatim>\<open>sockets/rdwrn.c\<close>: reading and writing a given number of bytes with restarts after
  partial transfers and interruptions. The \<^verbatim>\<open>read()\<close> and \<^verbatim>\<open>write()\<close> system calls are
  arguments: functions over an opaque kernel state that give an error or the bytes (the
  number of bytes) transferred. Loops take a bound on their iterations; \<open>None\<close> means that it
  was reached, and lemmas say how much is enough.
\<close>

section \<open>System calls\<close>

type_synonym 'k reader = "nat \<Rightarrow> 'k \<Rightarrow> (errno + cstring) \<times> 'k"
type_synonym 'k writer = "cstring \<Rightarrow> 'k \<Rightarrow> (errno + nat) \<times> 'k"

text \<open>
  What \<^verbatim>\<open>read(2)\<close> promises of the bytes it stores: never more than asked for.
\<close>

definition bounded_read :: "'k reader \<Rightarrow> bool" where
  "bounded_read rd \<longleftrightarrow> (\<forall>n k bs k'. rd n k = (Inr bs, k') \<longrightarrow> length bs \<le> n)"

text \<open>
  A stream that only fails through interruptions: \<open>cont\<close> is what is still to come before
  end of file, \<open>intr\<close> bounds the interruptions ahead. A read of a positive count delivers
  some bytes, or none at end of file only.
\<close>

definition stream_read :: "'k reader \<Rightarrow> ('k \<Rightarrow> cstring) \<Rightarrow> ('k \<Rightarrow> nat) \<Rightarrow> bool" where
  "stream_read rd cont intr \<longleftrightarrow> (\<forall>n k. 0 < n \<longrightarrow>
     (case rd n k of
        (Inr bs, k') \<Rightarrow> cont k = bs @ cont k' \<and> length bs \<le> n \<and> (bs = [] \<longrightarrow> cont k = []) \<and> intr k' \<le> intr k
      | (Inl e, k') \<Rightarrow> e = EINTR \<and> cont k' = cont k \<and> intr k' < intr k))"

definition stream_write :: "'k writer \<Rightarrow> ('k \<Rightarrow> cstring) \<Rightarrow> ('k \<Rightarrow> nat) \<Rightarrow> bool" where
  "stream_write wr sent intr \<longleftrightarrow> (\<forall>bs k. bs \<noteq> [] \<longrightarrow>
     (case wr bs k of
        (Inr m, k') \<Rightarrow> 0 < m \<and> m \<le> length bs \<and> sent k' = sent k @ take m bs \<and> intr k' \<le> intr k
      | (Inl e, k') \<Rightarrow> e = EINTR \<and> sent k' = sent k \<and> intr k' < intr k))"

lemma stream_read_cases:
  assumes "stream_read rd cont intr" and "0 < n"
  obtains (interrupted) k' where "rd n k = (Inl EINTR, k')" "cont k' = cont k" "intr k' < intr k"
  | (eof) k' where "rd n k = (Inr [], k')" "cont k = []" "cont k' = []" "intr k' \<le> intr k"
  | (data) bs k' where "rd n k = (Inr bs, k')" "bs \<noteq> []" "cont k = bs @ cont k'" "length bs \<le> n" "intr k' \<le> intr k"
proof -
  obtain r k' where rd: "rd n k = (r, k')" by fastforce
  have c: "case rd n k of
        (Inr bs, k') \<Rightarrow> cont k = bs @ cont k' \<and> length bs \<le> n \<and> (bs = [] \<longrightarrow> cont k = []) \<and> intr k' \<le> intr k
      | (Inl e, k') \<Rightarrow> e = EINTR \<and> cont k' = cont k \<and> intr k' < intr k"
    by (rule assms(1) [unfolded stream_read_def, rule_format, OF assms(2)])
  show thesis
  proof (cases r)
    case (Inl e)
    with c rd have "e = EINTR" "cont k' = cont k" "intr k' < intr k" by simp_all
    with rd Inl that(1) show ?thesis by blast
  next
    case (Inr bs)
    with c rd have bs: "cont k = bs @ cont k'" "length bs \<le> n" "bs = [] \<longrightarrow> cont k = []" "intr k' \<le> intr k"
      by auto
    show ?thesis
    proof (cases "bs = []")
      case True
      with bs(1,3) have "cont k = []" "cont k' = []" by auto
      with True rd Inr bs(4) that(2) show ?thesis by blast
    next
      case False
      with rd Inr bs that(3) show ?thesis by blast
    qed
  qed
qed

section \<open>Operations\<close>

text \<open>
  The result of a call: what it returns (\<open>Inl e\<close> stands for -1 with \<^verbatim>\<open>errno\<close> set) and the
  bytes it has stored at the start of the caller's buffer.
\<close>

type_synonym io_result = "(errno + nat) \<times> cstring"

fun readn_loop :: "nat \<Rightarrow> 'k reader \<Rightarrow> nat \<Rightarrow> cstring \<Rightarrow> 'k \<Rightarrow> (io_result \<times> 'k) option" where
  "readn_loop fuel rd n buf k =
     (if \<not> length buf < n then Some ((Inr (length buf), buf), k)
      else case fuel of
        0 \<Rightarrow> None
      | Suc fuel \<Rightarrow>
          (case rd (n - length buf) k of
             (Inl e, k') \<Rightarrow> if e = EINTR then readn_loop fuel rd n buf k' else Some ((Inl e, buf), k')
           | (Inr bs, k') \<Rightarrow>
               if bs = [] then Some ((Inr (length buf), buf), k')
               else readn_loop fuel rd n (buf @ bs) k'))"

definition readn :: "nat \<Rightarrow> 'k reader \<Rightarrow> nat \<Rightarrow> 'k \<Rightarrow> (io_result \<times> 'k) option" where
  "readn fuel rd n k = readn_loop fuel rd n [] k"

fun writen_loop :: "nat \<Rightarrow> 'k writer \<Rightarrow> cstring \<Rightarrow> nat \<Rightarrow> 'k \<Rightarrow> ((errno + nat) \<times> 'k) option" where
  "writen_loop fuel wr buffer totWritten k =
     (if \<not> totWritten < length buffer then Some (Inr totWritten, k)
      else case fuel of
        0 \<Rightarrow> None
      | Suc fuel \<Rightarrow>
          (case wr (drop totWritten buffer) k of
             (Inl e, k') \<Rightarrow> if e = EINTR then writen_loop fuel wr buffer totWritten k' else Some (Inl e, k')
           | (Inr m, k') \<Rightarrow>
               if m = 0 then Some (Inl (EOTHER 0), k')
               else writen_loop fuel wr buffer (totWritten + m) k'))"

definition writen :: "nat \<Rightarrow> 'k writer \<Rightarrow> cstring \<Rightarrow> 'k \<Rightarrow> ((errno + nat) \<times> 'k) option" where
  "writen fuel wr buffer k = writen_loop fuel wr buffer 0 k"

declare readn_loop.simps [simp del] writen_loop.simps [simp del]

section \<open>Correctness\<close>

lemma readn_loop_bounds:
  assumes "bounded_read rd" and "readn_loop fuel rd n buf k = Some ((r, out), k')" and "length buf \<le> n"
  shows "length out \<le> n \<and> (\<forall>m. r = Inr m \<longrightarrow> m = length out)"
  using assms(2,3)
proof (induction fuel arbitrary: buf k)
  case 0
  then show ?case by (subst (asm) readn_loop.simps) (auto split: if_splits)
next
  case (Suc fuel)
  show ?case
  proof (cases "length buf < n")
    case True
    obtain x k1 where rd: "rd (n - length buf) k = (x, k1)" by fastforce
    show ?thesis
    proof (cases x)
      case (Inl e)
      then show ?thesis using Suc rd True by (subst (asm) readn_loop.simps) (auto split: if_splits)
    next
      case (Inr bs)
      have "length bs \<le> n - length buf" using assms(1) rd Inr by (auto simp: bounded_read_def)
      then show ?thesis
        using Suc.IH [of "buf @ bs" k1] Suc.prems rd True Inr
        by (subst (asm) readn_loop.simps) (auto split: if_splits)
    qed
  qed (use Suc.prems in \<open>subst (asm) readn_loop.simps, auto\<close>)
qed

lemma readn_loop_stream:
  assumes "stream_read rd cont intr" and "length buf \<le> n" and "n - length buf + intr k \<le> fuel"
  shows "\<exists>k'. readn_loop fuel rd n buf k =
      Some ((Inr (length (buf @ take (n - length buf) (cont k))), buf @ take (n - length buf) (cont k)), k')
    \<and> cont k' = drop (n - length buf) (cont k) \<and> intr k' \<le> intr k"
  using assms(2,3)
proof (induction fuel arbitrary: buf k)
  case 0
  then show ?case by (subst readn_loop.simps) simp
next
  case (Suc fuel)
  show ?case
  proof (cases "length buf < n")
    case False
    with Suc.prems show ?thesis by (subst readn_loop.simps) simp
  next
    case True
    then have "0 < n - length buf" by simp
    with assms(1) show ?thesis
    proof (cases rule: stream_read_cases [where k = k])
      case (interrupted k')
      with Suc.IH [of buf k'] Suc.prems True show ?thesis by (subst readn_loop.simps) fastforce
    next
      case (eof k')
      with True show ?thesis by (subst readn_loop.simps) simp
    next
      case (data bs k')
      then have "0 < length bs" by simp
      with data Suc.prems have "n - length (buf @ bs) + intr k' \<le> fuel" "length (buf @ bs) \<le> n" using True
        by (simp, linarith, simp)
      from Suc.IH [OF this(2,1)] data True show ?thesis by (subst readn_loop.simps) fastforce
    qed
  qed
qed

lemma writen_loop_stream:
  assumes "stream_write wr sent intr" and "tot \<le> length buffer" and "length buffer - tot + intr k \<le> fuel"
  shows "\<exists>k'. writen_loop fuel wr buffer tot k = Some (Inr (length buffer), k') \<and> sent k' = sent k @ drop tot buffer"
  using assms(2,3)
proof (induction fuel arbitrary: tot k)
  case 0
  then show ?case by (subst writen_loop.simps) simp
next
  case (Suc fuel)
  show ?case
  proof (cases "tot < length buffer")
    case False
    with Suc.prems show ?thesis by (subst writen_loop.simps) simp
  next
    case True
    then have ne: "drop tot buffer \<noteq> []" by simp
    note w = assms(1) [unfolded stream_write_def, rule_format, OF ne, of k]
    obtain r k' where wr: "wr (drop tot buffer) k = (r, k')" by fastforce
    show ?thesis
    proof (cases r)
      case (Inl e)
      with w wr have "e = EINTR" "sent k' = sent k" "intr k' < intr k" by auto
      with Suc.IH [of tot k'] Suc.prems True wr Inl show ?thesis by (subst writen_loop.simps) fastforce
    next
      case (Inr m)
      with w wr have m: "0 < m" "m \<le> length buffer - tot" "sent k' = sent k @ take m (drop tot buffer)"
        "intr k' \<le> intr k" by auto
      with Suc.prems True have "tot + m \<le> length buffer" "length buffer - (tot + m) + intr k' \<le> fuel" by linarith+
      from Suc.IH [OF this] obtain k2 where
        "writen_loop fuel wr buffer (tot + m) k' = Some (Inr (length buffer), k2)"
        "sent k2 = sent k' @ drop (tot + m) buffer" by blast
      moreover have "take m (drop tot buffer) @ drop (tot + m) buffer = drop tot buffer"
        by (metis add.commute append_take_drop_id drop_drop)
      ultimately show ?thesis using True wr Inr m by (subst writen_loop.simps) simp
    qed
  qed
qed

text \<open>
  A kernel to evaluate against: a number of interruptions still to come, and a byte stream
  that is delivered and accepted at most three bytes at a time.
\<close>

definition demo_read :: "(nat \<times> cstring) reader" where
  "demo_read n k = (case k of (i, s) \<Rightarrow>
     if i > 0 then (Inl EINTR, (i - 1, s)) else (Inr (take (min n 3) s), (0, drop (min n 3) s)))"

definition demo_write :: "(nat \<times> cstring) writer" where
  "demo_write bs k = (case k of (i, s) \<Rightarrow>
     if i > 0 then (Inl EINTR, (i - 1, s)) else (Inr (min 3 (length bs)), (0, s @ take (min 3 (length bs)) bs)))"

lemma demo_stream: "stream_read demo_read snd fst" "stream_write demo_write snd fst" "bounded_read demo_read"
  by (auto simp: stream_read_def stream_write_def bounded_read_def demo_read_def demo_write_def
      split: prod.splits if_splits)

text \<open>
  Whatever the kernel does, as long as \<^verbatim>\<open>read()\<close> stores no more than it is asked for,
  \<^verbatim>\<open>readn()\<close> stores at most \<open>n\<close> bytes in the caller's buffer, and a count it returns is the
  number of bytes stored.
\<close>

theorem readn_bounds:
  assumes "bounded_read rd" and "readn fuel rd n k = Some ((r, out), k')"
  shows "length out \<le> n \<and> (\<forall>m. r = Inr m \<longrightarrow> m = length out)"
  using readn_loop_bounds [OF assms(1), of fuel n "[]" k] assms(2) by (simp add: readn_def)

theorem readn_bounds_witness:
  "readn 9 demo_read 4 (2, ''abcdef'') = Some ((Inr 4, ''abcd''), (0, ''ef'')) \<and> length ''abcd'' \<le> 4 \<and> 4 = length ''abcd''"
proof -
  have run: "readn 9 demo_read 4 (2, ''abcdef'') = Some ((Inr 4, ''abcd''), (0, ''ef''))" by code_simp
  from readn_bounds [OF demo_stream(3) run] run show ?thesis by blast
qed

text \<open>
  \<^verbatim>\<open>readn()\<close> on a stream whose reads may be interrupted and may deliver any number of
  bytes at a time returns after at most \<open>n\<close> reads plus the interruptions, with exactly the
  next \<open>n\<close> bytes of the stream, or all that is left of it before end of file, and leaves the
  rest unread.
\<close>

theorem readn_gets_all:
  assumes "stream_read rd cont intr" and "n + intr k \<le> fuel"
  shows "\<exists>k'. readn fuel rd n k = Some ((Inr (min n (length (cont k))), take n (cont k)), k')
    \<and> cont k' = drop n (cont k)"
  using readn_loop_stream [OF assms(1), of "[]" n k fuel] assms(2) by (auto simp: readn_def min.commute)

theorem readn_gets_all_witness:
  "\<exists>k'. readn 8 demo_read 5 (3, ''abcdefgh'') = Some ((Inr (min 5 (length (snd (3::nat, ''abcdefgh'')))),
      take 5 (snd (3::nat, ''abcdefgh''))), k') \<and> snd k' = drop 5 (snd (3::nat, ''abcdefgh''))"
  by (rule readn_gets_all [OF demo_stream(1)]) simp

text \<open>
  \<^verbatim>\<open>writen()\<close> hands the whole buffer to a stream that accepts at least one byte per call
  and interrupts finitely often: it returns \<open>n\<close> and the bytes arrive once each, in order.
\<close>

theorem writen_sends_all:
  assumes "stream_write wr sent intr" and "length buffer + intr k \<le> fuel"
  shows "\<exists>k'. writen fuel wr buffer k = Some (Inr (length buffer), k') \<and> sent k' = sent k @ buffer"
  using writen_loop_stream [OF assms(1), of 0 buffer k fuel] assms(2) by (simp add: writen_def)

theorem writen_sends_all_witness:
  "\<exists>k'. writen 9 demo_write ''abcdefg'' (2, ''x'') = Some (Inr (length ''abcdefg''), k')
     \<and> snd k' = snd (2::nat, ''x'') @ ''abcdefg''"
  by (rule writen_sends_all [OF demo_stream(2)]) simp

end
