(* ===== verification/Line_IO.thy ===== *)
theory Line_IO
  imports Stream_IO
begin

text \<open>
  Reading lines from a socket: \<^verbatim>\<open>readLine()\<close> (\<^verbatim>\<open>sockets/read_line.c\<close>), \<^verbatim>\<open>yreadLine()\<close>
  (\<^verbatim>\<open>yread_line.c\<close>), the buffered \<^verbatim>\<open>ybio_readl()\<close> (\<^verbatim>\<open>ybio.c\<close>) and \<^verbatim>\<open>readLineBuf()\<close>
  (\<^verbatim>\<open>read_line_buf.c\<close>). The first three implement one contract, the locale \<open>line_reader\<close>.
  An argument tells whether the caller's buffer pointer is not null.
\<close>

section \<open>One byte per system call\<close>

fun readLine_loop :: "nat \<Rightarrow> 'k reader \<Rightarrow> nat \<Rightarrow> cstring \<Rightarrow> 'k \<Rightarrow> (io_result \<times> 'k) option" where
  "readLine_loop 0 rd n buf k = None"
| "readLine_loop (Suc fuel) rd n buf k =
     (case rd 1 k of
        (Inl e, k') \<Rightarrow> if e = EINTR then readLine_loop fuel rd n buf k' else Some ((Inl e, buf), k')
      | (Inr [], k') \<Rightarrow>
          if length buf = 0 then Some ((Inr 0, buf), k') else Some ((Inr (length buf), buf @ [NUL]), k')
      | (Inr (ch # _), k') \<Rightarrow>
          (let buf' = (if length buf < n - 1 then buf @ [ch] else buf)
           in if ch = newline then Some ((Inr (length buf'), buf' @ [NUL]), k')
              else readLine_loop fuel rd n buf' k'))"

definition readLine :: "nat \<Rightarrow> 'k reader \<Rightarrow> bool \<Rightarrow> nat \<Rightarrow> 'k \<Rightarrow> (io_result \<times> 'k) option" where
  "readLine fuel rd buffer n k =
     (if n \<le> 0 \<or> \<not> buffer then Some ((Inl EINVAL, []), k) else readLine_loop fuel rd n [] k)"

fun yreadLine_loop :: "nat \<Rightarrow> 'k reader \<Rightarrow> nat \<Rightarrow> cstring \<Rightarrow> 'k \<Rightarrow> (io_result \<times> 'k) option" where
  "yreadLine_loop 0 rd n buf k = None"
| "yreadLine_loop (Suc fuel) rd n buf k =
     (case rd 1 k of
        (Inl e, k') \<Rightarrow> if e = EINTR then yreadLine_loop fuel rd n buf k' else Some ((Inl e, buf), k')
      | (Inr [], k') \<Rightarrow>
          if length buf = 0 then Some ((Inr 0, buf), k') else Some ((Inr (length buf), buf @ [NUL]), k')
      | (Inr (ch # _), k') \<Rightarrow>
          (let buf' = (if length buf + 1 < n then buf @ [ch] else buf)
           in if ch = newline then Some ((Inr (length buf'), buf' @ [NUL]), k')
              else yreadLine_loop fuel rd n buf' k'))"

definition yreadLine :: "nat \<Rightarrow> 'k reader \<Rightarrow> bool \<Rightarrow> nat \<Rightarrow> 'k \<Rightarrow> (io_result \<times> 'k) option" where
  "yreadLine fuel rd buffer n k =
     (if n \<le> 0 \<or> \<not> buffer then Some ((Inl EINVAL, []), k) else yreadLine_loop fuel rd n [] k)"

section \<open>Buffered input\<close>

definition YBIO_SIZE :: nat where "YBIO_SIZE = 8192"

text \<open>\<open>bio_ptr\<close> is the offset of the pointer in the buffer.\<close>

record ybio_t =
  bio_ptr :: nat
  bio_buf :: cstring
  bio_cnt :: int

definition ybio_init :: "cstring \<Rightarrow> ybio_t" where
  "ybio_init garbage = \<lparr>bio_ptr = 0, bio_buf = garbage, bio_cnt = 0\<rparr>"

text \<open>
  The loop that refills the buffer, then the copy out of it. The buffer is an array of
  \<^verbatim>\<open>YBIO_SIZE\<close> bytes: a read overwrites its start.
\<close>

fun ybio_fill :: "nat \<Rightarrow> 'k reader \<Rightarrow> ybio_t \<Rightarrow> 'k \<Rightarrow> ((errno + bool) \<times> ybio_t \<times> 'k) option" where
  "ybio_fill fuel rd p k =
     (if \<not> bio_cnt p \<le> 0 then Some (Inr True, p, k)
      else case fuel of
        0 \<Rightarrow> None
      | Suc fuel \<Rightarrow>
          (case rd YBIO_SIZE k of
             (Inl e, k') \<Rightarrow>
               (let p1 = p\<lparr>bio_cnt := -1\<rparr>
                in if e \<noteq> EINTR then Some (Inl e, p1, k') else ybio_fill fuel rd p1 k')
           | (Inr bs, k') \<Rightarrow>
               (let p1 = p\<lparr>bio_cnt := int (length bs), bio_buf := bs @ drop (length bs) (bio_buf p)\<rparr>
                in if bs = [] then Some (Inr False, p1, k')
                   else ybio_fill fuel rd (p1\<lparr>bio_ptr := 0\<rparr>) k')))"

declare ybio_fill.simps [simp del]

definition ybio_read :: "nat \<Rightarrow> 'k reader \<Rightarrow> nat \<Rightarrow> ybio_t \<Rightarrow> 'k \<Rightarrow> ((errno + cstring) \<times> ybio_t \<times> 'k) option" where
  "ybio_read fuel rd n p k =
     (case ybio_fill fuel rd p k of
        None \<Rightarrow> None
      | Some (Inl e, p, k) \<Rightarrow> Some (Inl e, p, k)
      | Some (Inr False, p, k) \<Rightarrow> Some (Inr [], p, k)
      | Some (Inr True, p, k) \<Rightarrow>
          (let cnt = (if bio_cnt p < int n then nat (bio_cnt p) else n)
           in Some (Inr (take cnt (drop (bio_ptr p) (bio_buf p))),
                    p\<lparr>bio_cnt := bio_cnt p - int cnt, bio_ptr := bio_ptr p + cnt\<rparr>, k)))"

fun ybio_readl_loop ::
  "nat \<Rightarrow> 'k reader \<Rightarrow> nat \<Rightarrow> cstring \<Rightarrow> ybio_t \<times> 'k \<Rightarrow> (io_result \<times> ybio_t \<times> 'k) option" where
  "ybio_readl_loop 0 rd n buf s = None"
| "ybio_readl_loop (Suc fuel) rd n buf s =
     (case ybio_read (Suc fuel) rd 1 (fst s) (snd s) of
        None \<Rightarrow> None
      | Some (Inl e, s') \<Rightarrow> Some ((Inl e, buf), s')
      | Some (Inr [], s') \<Rightarrow>
          if length buf = 0 then Some ((Inr 0, buf), s') else Some ((Inr (length buf), buf @ [NUL]), s')
      | Some (Inr (ch # _), s') \<Rightarrow>
          (let buf' = (if length buf + 1 < n then buf @ [ch] else buf)
           in if ch = newline then Some ((Inr (length buf'), buf' @ [NUL]), s')
              else ybio_readl_loop fuel rd n buf' s'))"

definition ybio_readl :: "nat \<Rightarrow> 'k reader \<Rightarrow> bool \<Rightarrow> nat \<Rightarrow> ybio_t \<times> 'k \<Rightarrow> (io_result \<times> ybio_t \<times> 'k) option" where
  "ybio_readl fuel rd buffer n s =
     (if n \<le> 0 \<or> \<not> buffer then Some ((Inl EINVAL, []), s) else ybio_readl_loop fuel rd n [] s)"

definition RL_MAX_BUF :: nat where "RL_MAX_BUF = 10"

record ReadLineBuf =
  rl_buf :: cstring
  rl_next :: int
  rl_len :: int

definition readLineBufInit :: "cstring \<Rightarrow> ReadLineBuf" where
  "readLineBufInit garbage = \<lparr>rl_buf = garbage, rl_next = 0, rl_len = 0\<rparr>"

text \<open>
  \<^verbatim>\<open>readLineBuf()\<close> has no restart after an interruption and stores no terminating null byte.
\<close>

fun readLineBuf_loop ::
  "nat \<Rightarrow> 'k reader \<Rightarrow> nat \<Rightarrow> cstring \<Rightarrow> ReadLineBuf \<times> 'k \<Rightarrow> (io_result \<times> ReadLineBuf \<times> 'k) option" where
  "readLineBuf_loop 0 rd n buf s = None"
| "readLineBuf_loop (Suc fuel) rd n buf s =
     (let (b, k) = s;
          step = (\<lambda>b k.
            let c = rl_buf b ! nat (rl_next b);
                b1 = b\<lparr>rl_next := rl_next b + 1\<rparr>;
                buf' = (if length buf < n then buf @ [c] else buf)
            in if c = newline then Some ((Inr (length buf'), buf'), b1, k)
               else readLineBuf_loop fuel rd n buf' (b1, k))
      in if rl_next b \<ge> rl_len b then
           (case rd RL_MAX_BUF k of
              (Inl e, k') \<Rightarrow> Some ((Inl e, buf), b\<lparr>rl_len := -1\<rparr>, k')
            | (Inr bs, k') \<Rightarrow>
                (let b1 = b\<lparr>rl_len := int (length bs), rl_buf := bs @ drop (length bs) (rl_buf b)\<rparr>
                 in if bs = [] then Some ((Inr (length buf), buf), b1, k')
                    else step (b1\<lparr>rl_next := 0\<rparr>) k'))
         else step b k)"

definition readLineBuf ::
  "nat \<Rightarrow> 'k reader \<Rightarrow> bool \<Rightarrow> nat \<Rightarrow> ReadLineBuf \<times> 'k \<Rightarrow> (io_result \<times> ReadLineBuf \<times> 'k) option" where
  "readLineBuf fuel rd buffer n s =
     (if n \<le> 0 \<or> \<not> buffer then Some ((Inl EINVAL, []), s) else readLineBuf_loop fuel rd n [] s)"

section \<open>The contract of a line reader\<close>

definition line_of :: "cstring \<Rightarrow> cstring" where
  "line_of s = takeWhile (\<lambda>c. c \<noteq> newline) s @ (if newline \<in> set s then [newline] else [])"

definition rest_of :: "cstring \<Rightarrow> cstring" where
  "rest_of s = drop (length (line_of s)) s"

text \<open>What is stored and returned for a line: at most \<open>n - 1\<close> of its bytes and a null byte.\<close>

definition line_result :: "nat \<Rightarrow> cstring \<Rightarrow> io_result" where
  "line_result n s =
     (let l = take (n - 1) (line_of s)
      in if l = [] \<and> newline \<notin> set s then (Inr 0, []) else (Inr (length l), l @ [NUL]))"

lemma line_of_simps [simp]:
  "line_of [] = []"
  "line_of (c # s) = (if c = newline then [c] else c # line_of s)"
  by (auto simp: line_of_def)

lemma line_of_append: "newline \<notin> set l \<Longrightarrow> line_of (l @ newline # r) = l @ [newline] \<and> rest_of (l @ newline # r) = r"
  by (induction l) (auto simp: rest_of_def)

lemma rest_of_simps [simp]:
  "rest_of [] = []"
  "rest_of (c # s) = (if c = newline then s else rest_of s)"
  by (auto simp: rest_of_def)

lemma line_of_rest_of: "line_of s @ rest_of s = s"
  by (induction s) auto

lemma length_rest_of: "s \<noteq> [] \<Longrightarrow> length (rest_of s) < length s"
proof (induction s)
  case (Cons c s)
  then show ?case by (cases s) auto
qed simp

function lines_of :: "cstring \<Rightarrow> cstring list" where
  "lines_of s = (if s = [] then [] else line_of s # lines_of (rest_of s))"
  by auto
termination by (relation "measure length") (auto simp: length_rest_of)

declare lines_of.simps [simp del]

lemma concat_lines_of: "concat (lines_of s) = s"
proof (induction s rule: lines_of.induct)
  case (1 s)
  then show ?case by (subst lines_of.simps) (simp add: line_of_rest_of)
qed

text \<open>A client that reads lines until a call returns 0, for at most \<open>turns\<close> calls.\<close>

fun drain :: "nat \<Rightarrow> (nat \<Rightarrow> 's \<Rightarrow> (io_result \<times> 's) option) \<Rightarrow> nat \<Rightarrow> 's \<Rightarrow> (cstring list \<times> 's) option" where
  "drain 0 readl n s = None"
| "drain (Suc turns) readl n s =
     (case readl n s of
        Some ((Inr m, out), s') \<Rightarrow>
          if m = 0 then Some ([], s')
          else (case drain turns readl n s' of None \<Rightarrow> None | Some (ls, t) \<Rightarrow> Some (take m out # ls, t))
      | _ \<Rightarrow> None)"

locale line_reader =
  fixes readl :: "nat \<Rightarrow> nat \<Rightarrow> 's \<Rightarrow> (io_result \<times> 's) option"
    and ok :: "'s \<Rightarrow> bool" and cont :: "'s \<Rightarrow> cstring" and intr :: "'s \<Rightarrow> nat"
  assumes reads_line: "ok s \<Longrightarrow> 0 < n \<Longrightarrow> length (cont s) + intr s < fuel \<Longrightarrow>
    \<exists>s'. readl fuel n s = Some (line_result n (cont s), s') \<and> cont s' = rest_of (cont s) \<and> ok s' \<and> intr s' \<le> intr s"
begin

lemma drains:
  assumes "ok s" and "2 \<le> n" and "length (cont s) + intr s < fuel" and "length (cont s) < turns"
  shows "\<exists>s'. drain turns (readl fuel) n s = Some (map (take (n - 1)) (lines_of (cont s)), s') \<and> cont s' = []"
  using assms
proof (induction turns arbitrary: s)
  case (Suc turns)
  from reads_line [OF Suc.prems(1) _ Suc.prems(3), of n] Suc.prems(2) obtain s' where
    r: "readl fuel n s = Some (line_result n (cont s), s')" and c: "cont s' = rest_of (cont s)"
    and ok: "ok s'" and i: "intr s' \<le> intr s" by auto
  show ?case
  proof (cases "cont s")
    case Nil
    then show ?thesis using r c by (auto simp: line_result_def lines_of.simps)
  next
    case (Cons ch cs)
    let ?l = "take (n - 1) (line_of (cont s))"
    have l: "?l \<noteq> []" using Cons Suc.prems(2) by auto
    then have res: "line_result n (cont s) = (Inr (length ?l), ?l @ [NUL])" by (simp add: line_result_def)
    have "length (cont s') < length (cont s)" using length_rest_of [of "cont s"] Cons c by simp
    with Suc.prems i have "length (cont s') + intr s' < fuel" "length (cont s') < turns" by linarith+
    from Suc.IH [OF ok Suc.prems(2) this] obtain t where
      "drain turns (readl fuel) n s' = Some (map (take (n - 1)) (lines_of (cont s')), t)" "cont t = []" by blast
    moreover have "lines_of (cont s) = line_of (cont s) # lines_of (rest_of (cont s))"
      using Cons by (subst lines_of.simps) simp
    ultimately show ?thesis using r res l c by (auto simp: take_Suc)
  qed
qed simp

end

section \<open>The readers implement the contract\<close>

text \<open>The result when \<open>buf\<close> has been stored already and \<open>s\<close> is still to come.\<close>

definition finish_line :: "nat \<Rightarrow> cstring \<Rightarrow> cstring \<Rightarrow> io_result" where
  "finish_line n buf s =
     (let l = take (n - 1) (buf @ line_of s)
      in if l = [] \<and> newline \<notin> set s then (Inr 0, []) else (Inr (length l), l @ [NUL]))"

lemma finish_line_start: "finish_line n [] s = line_result n s"
  by (simp add: finish_line_def line_result_def)

lemma finish_line_eof: "length buf \<le> n - 1 \<Longrightarrow>
   finish_line n buf [] = (if length buf = 0 then (Inr 0, buf) else (Inr (length buf), buf @ [NUL]))"
  by (simp add: finish_line_def)

lemma finish_line_newline: "length buf \<le> n - 1 \<Longrightarrow>
   finish_line n buf (newline # s) = (let b = (if length buf < n - 1 then buf @ [newline] else buf) in (Inr (length b), b @ [NUL]))"
  by (auto simp: finish_line_def Let_def min_def)

lemma finish_line_step: "length buf \<le> n - 1 \<Longrightarrow> c \<noteq> newline \<Longrightarrow>
   finish_line n (if length buf < n - 1 then buf @ [c] else buf) s = finish_line n buf (c # s)"
  by (auto simp: finish_line_def Let_def take_Cons')

lemmas finish_line_simps = finish_line_eof finish_line_newline finish_line_step

lemma readLine_loop_spec:
  assumes "stream_read rd cont intr" and "length buf \<le> n - 1" and "length (cont k) + intr k < fuel"
  shows "\<exists>k'. readLine_loop fuel rd n buf k = Some (finish_line n buf (cont k), k')
    \<and> cont k' = rest_of (cont k) \<and> intr k' \<le> intr k"
  using assms(2,3)
proof (induction fuel arbitrary: buf k)
  case (Suc fuel)
  have "0 < (1::nat)" by simp
  with assms(1) show ?case
  proof (cases rule: stream_read_cases [where k = k])
    case (interrupted k')
    with Suc.IH [of buf k'] Suc.prems show ?thesis by fastforce
  next
    case (eof k')
    with Suc.prems show ?thesis by (simp add: finish_line_eof)
  next
    case (data bs k')
    then obtain ch where bs: "bs = [ch]" by (cases bs) auto
    let ?b = "if length buf < n - 1 then buf @ [ch] else buf"
    have len: "length ?b \<le> n - 1" "length (cont k') + intr k' < fuel" using Suc.prems data bs by auto
    show ?thesis
    proof (cases "ch = newline")
      case True
      with data bs Suc.prems show ?thesis by (auto simp: finish_line_newline Let_def)
    next
      case False
      from Suc.IH [OF len] obtain k2 where
        "readLine_loop fuel rd n ?b k' = Some (finish_line n ?b (cont k'), k2)"
        "cont k2 = rest_of (cont k')" "intr k2 \<le> intr k'" by blast
      with data bs False finish_line_step [OF Suc.prems(1) False] show ?thesis by (auto simp: Let_def)
    qed
  qed
qed simp

lemma yreadLine_loop_eq: "yreadLine_loop fuel rd n buf k = readLine_loop fuel rd n buf k"
proof (induction fuel arbitrary: buf k)
  case (Suc fuel)
  have "length buf + 1 < n \<longleftrightarrow> length buf < n - 1" by linarith
  then show ?case by (simp add: Suc Let_def split: prod.splits sum.splits list.splits)
qed simp

interpretation rl: line_reader "\<lambda>fuel. readLine fuel rd True" "\<lambda>k. stream_read rd cont intr" cont intr
  for rd cont intr
  by unfold_locales (use readLine_loop_spec [of rd cont intr "[]"] in \<open>auto simp: readLine_def finish_line_start\<close>)

interpretation yrl: line_reader "\<lambda>fuel. yreadLine fuel rd True" "\<lambda>k. stream_read rd cont intr" cont intr
  for rd cont intr
  by unfold_locales
    (use readLine_loop_spec [of rd cont intr "[]"] in \<open>auto simp: yreadLine_def yreadLine_loop_eq finish_line_start\<close>)

subsection \<open>The buffered reader\<close>

definition unread :: "ybio_t \<Rightarrow> cstring" where
  "unread p = take (nat (bio_cnt p)) (drop (bio_ptr p) (bio_buf p))"

definition ybio_ok :: "ybio_t \<Rightarrow> bool" where
  "ybio_ok p \<longleftrightarrow> 0 < bio_cnt p \<longrightarrow> bio_ptr p + nat (bio_cnt p) \<le> length (bio_buf p)"

lemma unread_Nil: "bio_cnt p \<le> 0 \<Longrightarrow> unread p = []"
  by (simp add: unread_def)

lemma ybio_fill_spec:
  assumes "stream_read rd cont intr" and "ybio_ok p" and "intr k < fuel"
  shows "\<exists>p' k'. ybio_fill fuel rd p k = Some (Inr (unread p @ cont k \<noteq> []), p', k') \<and> ybio_ok p'
    \<and> unread p' @ cont k' = unread p @ cont k \<and> intr k' \<le> intr k
    \<and> (0 < bio_cnt p' \<longleftrightarrow> unread p @ cont k \<noteq> [])"
  using assms(2,3)
proof (induction fuel arbitrary: p k)
  case (Suc fuel)
  show ?case
  proof (cases "bio_cnt p \<le> 0")
    case False
    then have "unread p \<noteq> []" using Suc.prems(1) by (auto simp: unread_def ybio_ok_def)
    with False Suc.prems(1) show ?thesis by (subst ybio_fill.simps) simp
  next
    case True
    have "0 < YBIO_SIZE" by (simp add: YBIO_SIZE_def)
    with assms(1) show ?thesis
    proof (cases rule: stream_read_cases [where k = k])
      case (interrupted k')
      let ?p = "p\<lparr>bio_cnt := -1\<rparr>"
      have "ybio_ok ?p" "intr k' < fuel" using interrupted Suc.prems by (auto simp: ybio_ok_def)
      from Suc.IH [OF this] interrupted True show ?thesis
        by (subst ybio_fill.simps) (fastforce simp: unread_Nil)
    next
      case (eof k')
      with True show ?thesis by (subst ybio_fill.simps) (simp add: unread_Nil ybio_ok_def)
    next
      case (data bs k')
      let ?p = "p\<lparr>bio_cnt := int (length bs), bio_buf := bs @ drop (length bs) (bio_buf p), bio_ptr := 0\<rparr>"
      have "ybio_fill fuel rd ?p k' = Some (Inr True, ?p, k')"
        using data by (subst ybio_fill.simps) simp
      moreover have "unread ?p = bs" "ybio_ok ?p" by (simp_all add: unread_def ybio_ok_def)
      ultimately show ?thesis using data True by (subst ybio_fill.simps) (simp add: unread_Nil)
    qed
  qed
qed simp

lemma ybio_read_spec:
  assumes "stream_read rd cont intr" and "ybio_ok p" and "intr k < fuel"
  shows "\<exists>p' k'. ybio_read fuel rd 1 p k = Some (Inr (take 1 (unread p @ cont k)), p', k') \<and> ybio_ok p'
    \<and> unread p' @ cont k' = drop 1 (unread p @ cont k) \<and> intr k' \<le> intr k"
proof -
  from ybio_fill_spec [OF assms] obtain p' k' where
    f: "ybio_fill fuel rd p k = Some (Inr (unread p @ cont k \<noteq> []), p', k')" "ybio_ok p'"
      "unread p' @ cont k' = unread p @ cont k" "intr k' \<le> intr k" "0 < bio_cnt p' \<longleftrightarrow> unread p @ cont k \<noteq> []"
    by blast
  show ?thesis
  proof (cases "unread p @ cont k = []")
    case True
    then show ?thesis using f by (auto simp: ybio_read_def)
  next
    case False
    then have pos: "0 < bio_cnt p'" using f(5) by simp
    then have u: "unread p' \<noteq> []" using f(2) by (auto simp: unread_def ybio_ok_def)
    let ?q = "p'\<lparr>bio_cnt := bio_cnt p' - 1, bio_ptr := bio_ptr p' + 1\<rparr>"
    have one: "take 1 (drop (bio_ptr p') (bio_buf p')) = take 1 (unread p')"
      using pos by (simp add: unread_def min_def)
    have "unread ?q = drop 1 (unread p')"
      using pos by (simp add: unread_def drop_take nat_diff_distrib)
    moreover have "ybio_ok ?q" using f(2) pos by (auto simp: ybio_ok_def nat_diff_distrib)
    moreover have "take 1 (unread p @ cont k) = take 1 (unread p')" "drop 1 (unread p @ cont k) = drop 1 (unread p') @ cont k'"
      using u by (simp_all add: f(3) [symmetric] Suc_leI)
    moreover have "ybio_read fuel rd 1 p k = Some (Inr (take 1 (unread p')), ?q, k')"
      using f(1) False pos one by (simp add: ybio_read_def)
    ultimately show ?thesis using f(4) by auto
  qed
qed

lemma ybio_readl_loop_spec:
  assumes "stream_read rd cont intr" and "ybio_ok p" and "length buf \<le> n - 1"
    and "length (unread p @ cont k) + intr k < fuel"
  shows "\<exists>p' k'. ybio_readl_loop fuel rd n buf (p, k) = Some (finish_line n buf (unread p @ cont k), p', k')
    \<and> unread p' @ cont k' = rest_of (unread p @ cont k) \<and> ybio_ok p' \<and> intr k' \<le> intr k"
  using assms(2-4)
proof (induction fuel arbitrary: buf p k)
  case (Suc fuel)
  have i: "intr k < Suc fuel" using Suc.prems(3) by simp
  from ybio_read_spec [OF assms(1) Suc.prems(1) i] obtain p' k' where
    r: "ybio_read (Suc fuel) rd 1 p k = Some (Inr (take 1 (unread p @ cont k)), p', k')" "ybio_ok p'"
      "unread p' @ cont k' = drop 1 (unread p @ cont k)" "intr k' \<le> intr k" by blast
  show ?case
  proof (cases "unread p @ cont k")
    case Nil
    with r Suc.prems show ?thesis by (simp add: finish_line_eof)
  next
    case (Cons ch cs)
    let ?b = "if length buf < n - 1 then buf @ [ch] else buf"
    have b: "(if length buf + 1 < n then buf @ [ch] else buf) = ?b" by auto
    have cs: "unread p' @ cont k' = cs" using r(3) Cons by simp
    have len: "length ?b \<le> n - 1" "length (unread p' @ cont k') + intr k' < fuel"
      using Suc.prems Cons cs r(4) by auto
    show ?thesis
    proof (cases "ch = newline")
      case True
      then show ?thesis using r Cons cs b Suc.prems by (auto simp: finish_line_newline Let_def)
    next
      case False
      from Suc.IH [OF r(2) len] obtain p2 k2 where
        "ybio_readl_loop fuel rd n ?b (p', k') = Some (finish_line n ?b cs, p2, k2)"
        "unread p2 @ cont k2 = rest_of cs" "ybio_ok p2" "intr k2 \<le> intr k'" using cs by auto
      with r Cons False b finish_line_step [OF Suc.prems(2) False] show ?thesis by (auto simp: Let_def)
    qed
  qed
qed simp

interpretation bio: line_reader "\<lambda>fuel. ybio_readl fuel rd True"
    "\<lambda>s. stream_read rd cont intr \<and> ybio_ok (fst s)" "\<lambda>s. unread (fst s) @ cont (snd s)" "\<lambda>s. intr (snd s)"
  for rd cont intr
proof (unfold_locales, goal_cases)
  case (1 s n fuel)
  with ybio_readl_loop_spec [of rd cont intr "fst s" "[]" n "snd s" fuel] show ?case
    by (auto simp: ybio_readl_def finish_line_start)
qed

subsection \<open>The reader without restarts\<close>

definition rl_unread :: "ReadLineBuf \<Rightarrow> cstring" where
  "rl_unread b = take (nat (rl_len b - rl_next b)) (drop (nat (rl_next b)) (rl_buf b))"

definition rl_ok :: "ReadLineBuf \<Rightarrow> bool" where
  "rl_ok b \<longleftrightarrow> 0 \<le> rl_next b \<and> (rl_next b < rl_len b \<longrightarrow> nat (rl_len b) \<le> length (rl_buf b))"

lemma rl_take:
  assumes "rl_ok b" and "rl_next b < rl_len b"
  shows "rl_unread b = rl_buf b ! nat (rl_next b) # rl_unread (b\<lparr>rl_next := rl_next b + 1\<rparr>)"
    and "rl_ok (b\<lparr>rl_next := rl_next b + 1\<rparr>)"
proof -
  have i: "nat (rl_next b) < length (rl_buf b)" using assms by (auto simp: rl_ok_def)
  have "nat (rl_len b - rl_next b) = Suc (nat (rl_len b - (rl_next b + 1)))"
    "nat (rl_next b + 1) = Suc (nat (rl_next b))" using assms by (auto simp: rl_ok_def)
  then show "rl_unread b = rl_buf b ! nat (rl_next b) # rl_unread (b\<lparr>rl_next := rl_next b + 1\<rparr>)"
    using i by (simp add: rl_unread_def Cons_nth_drop_Suc [symmetric])
  show "rl_ok (b\<lparr>rl_next := rl_next b + 1\<rparr>)" using assms by (auto simp: rl_ok_def)
qed

lemma readLineBuf_loop_buffered:
  assumes "rl_ok b" and "rl_next b < rl_len b"
  shows "readLineBuf_loop (Suc fuel) rd n buf (b, k) =
    (let c = hd (rl_unread b); b1 = b\<lparr>rl_next := rl_next b + 1\<rparr>; buf' = (if length buf < n then buf @ [c] else buf)
     in if c = newline then Some ((Inr (length buf'), buf'), b1, k) else readLineBuf_loop fuel rd n buf' (b1, k))"
  using assms(2) rl_take(1) [OF assms] by (simp add: Let_def)

lemma readLineBuf_loop_spec:
  assumes "stream_read rd cont (\<lambda>_. 0)" and "rl_ok b" and "length buf \<le> n"
    and "length (rl_unread b @ cont k) < fuel"
  shows "\<exists>b' k'. readLineBuf_loop fuel rd n buf (b, k) =
      Some ((Inr (length (take n (buf @ line_of (rl_unread b @ cont k)))), take n (buf @ line_of (rl_unread b @ cont k))), b', k')
    \<and> rl_unread b' @ cont k' = rest_of (rl_unread b @ cont k) \<and> rl_ok b'"
  using assms(2-4)
proof (induction fuel arbitrary: buf b k)
  case (Suc fuel)
  have buffered: "\<exists>b' k'. readLineBuf_loop (Suc fuel) rd n buf (b, k) =
      Some ((Inr (length (take n (buf @ line_of (rl_unread b @ cont k)))), take n (buf @ line_of (rl_unread b @ cont k))), b', k')
    \<and> rl_unread b' @ cont k' = rest_of (rl_unread b @ cont k) \<and> rl_ok b'"
    if b: "rl_ok b" "rl_next b < rl_len b" "length (rl_unread b @ cont k) < Suc fuel" for b k
  proof -
    note t = rl_take [OF b(1,2)]
    let ?c = "rl_buf b ! nat (rl_next b)" and ?b1 = "b\<lparr>rl_next := rl_next b + 1\<rparr>"
    let ?b = "if length buf < n then buf @ [?c] else buf"
    have len: "length ?b \<le> n" "length (rl_unread ?b1 @ cont k) < fuel" using b(3) t(1) Suc.prems(2) by auto
    have cut: "take n (?b @ r) = take n (buf @ ?c # r)" for r using Suc.prems(2) by (auto simp: take_Cons')
    show ?thesis
    proof (cases "?c = newline")
      case True
      have "?b = take n (buf @ [?c])" using Suc.prems(2) by (auto simp: take_Cons')
      then show ?thesis using True t Suc.prems(2)
        by (auto simp: readLineBuf_loop_buffered [OF b(1,2)] Let_def simp del: readLineBuf_loop.simps)
    next
      case False
      from Suc.IH [OF t(2) len] show ?thesis using False t(1) cut
        by (auto simp: readLineBuf_loop_buffered [OF b(1,2)] Let_def simp del: readLineBuf_loop.simps)
    qed
  qed
  show ?case
  proof (cases "rl_next b < rl_len b")
    case True
    show ?thesis by (rule buffered [OF Suc.prems(1) True Suc.prems(3)])
  next
    case False
    then have none: "rl_unread b = []" by (simp add: rl_unread_def)
    have "0 < RL_MAX_BUF" by (simp add: RL_MAX_BUF_def)
    with assms(1) show ?thesis
    proof (cases rule: stream_read_cases [where k = k])
      case (eof k')
      with False none Suc.prems show ?thesis by (simp add: rl_unread_def rl_ok_def)
    next
      case (data bs k')
      let ?b = "b\<lparr>rl_len := int (length bs), rl_buf := bs @ drop (length bs) (rl_buf b), rl_next := 0\<rparr>"
      have ok: "rl_ok ?b" "rl_next ?b < rl_len ?b" "rl_unread ?b = bs" using data by (auto simp: rl_ok_def rl_unread_def)
      have "readLineBuf_loop (Suc fuel) rd n buf (b, k) = readLineBuf_loop (Suc fuel) rd n buf (?b, k')"
        using False data by (simp add: Let_def)
      then show ?thesis using buffered [OF ok(1,2), of k'] ok(3) none data Suc.prems(3) by simp
    qed simp
  qed
qed simp

section \<open>Properties\<close>

text \<open>
  The two one-byte readers are the same function: the test \<^verbatim>\<open>totRead < n - 1\<close> of
  \<^verbatim>\<open>readLine()\<close> and the test \<^verbatim>\<open>readTally + 1 < n\<close> of \<^verbatim>\<open>yreadLine()\<close> decide alike, so both store
  and return the same in every case, errors and null arguments included.
\<close>

theorem yreadLine_equals_readLine: "yreadLine fuel rd buffer n k = readLine fuel rd buffer n k"
  by (simp add: yreadLine_def readLine_def yreadLine_loop_eq)

text \<open>
  C26. The buffered \<^verbatim>\<open>ybio_readl()\<close> gives the caller the same line as \<^verbatim>\<open>readLine()\<close> would on the
  bytes not yet handed out, although it reads ahead: what it returns and stores is the
  same, and the bytes that remain (its buffer, then the stream) are the same.
\<close>

theorem ybio_readl_refines_readLine:
  assumes "stream_read rd cont intr" and "ybio_ok p" and "0 < n"
    and "stream_read rd' cont' intr'" and "cont' k' = unread p @ cont k"
    and "length (cont' k') + intr k < fuel" and "length (cont' k') + intr' k' < fuel"
  shows "\<exists>res q k2 k2'. ybio_readl fuel rd True n (p, k) = Some (res, q, k2) \<and> readLine fuel rd' True n k' = Some (res, k2')
    \<and> ybio_ok q \<and> unread q @ cont k2 = cont' k2'"
proof -
  from bio.reads_line [of rd cont intr "(p, k)" n fuel] assms obtain q k2 where
    b: "ybio_readl fuel rd True n (p, k) = Some (line_result n (cont' k'), q, k2)"
      "unread q @ cont k2 = rest_of (cont' k')" "ybio_ok q" by auto
  from rl.reads_line [of rd' cont' intr' n k' fuel] assms obtain k2' where
    "readLine fuel rd' True n k' = Some (line_result n (cont' k'), k2')" "cont' k2' = rest_of (cont' k')" by auto
  with b show ?thesis by auto
qed

theorem ybio_readl_refines_readLine_witness:
  "\<exists>res q k2 k2'. ybio_readl 20 demo_read True 8 (ybio_init [], (1, ''ab'' @ newline # ''cd'')) = Some (res, q, k2)
    \<and> readLine 20 demo_read True 8 (2, ''ab'' @ newline # ''cd'') = Some (res, k2')
    \<and> ybio_ok q \<and> unread q @ snd k2 = snd k2'"
  by (rule ybio_readl_refines_readLine [OF demo_stream(1) _ _ demo_stream(1)])
    (simp_all add: ybio_ok_def ybio_init_def unread_def)

text \<open>
  C11. A client that calls \<^verbatim>\<open>readLine()\<close>, or \<^verbatim>\<open>ybio_readl()\<close> on a fresh buffer, until it returns 0
  receives every line of the stream exactly once and in order, each cut to the first
  \<open>n - 1\<close> bytes, and has then consumed the whole stream, however the kernel splits and
  interrupts the reads.
\<close>

theorem lines_delivered_once:
  assumes "stream_read rd cont intr" and "2 \<le> n" and "length (cont k) + intr k < fuel" and "length (cont k) < turns"
  shows "(\<exists>k'. drain turns (readLine fuel rd True) n k = Some (map (take (n - 1)) (lines_of (cont k)), k') \<and> cont k' = [])
    \<and> (\<exists>p k'. drain turns (ybio_readl fuel rd True) n (ybio_init garbage, k)
          = Some (map (take (n - 1)) (lines_of (cont k)), p, k') \<and> unread p @ cont k' = [])"
proof
  show "\<exists>k'. drain turns (readLine fuel rd True) n k = Some (map (take (n - 1)) (lines_of (cont k)), k') \<and> cont k' = []"
    by (rule rl.drains [OF assms])
  have "unread (ybio_init garbage) = []" "ybio_ok (ybio_init garbage)"
    by (simp_all add: ybio_init_def unread_def ybio_ok_def)
  then show "\<exists>p k'. drain turns (ybio_readl fuel rd True) n (ybio_init garbage, k)
      = Some (map (take (n - 1)) (lines_of (cont k)), p, k') \<and> unread p @ cont k' = []"
    using bio.drains [of rd cont intr "(ybio_init garbage, k)" n fuel turns] assms by auto
qed

theorem lines_delivered_once_witness:
  "(\<exists>k'. drain 9 (readLine 20 demo_read True) 4 (2, ''ab'' @ newline # ''cd'')
      = Some (map (take (4 - 1)) (lines_of (snd (2::nat, ''ab'' @ newline # ''cd''))), k') \<and> snd k' = [])
    \<and> (\<exists>p k'. drain 9 (ybio_readl 20 demo_read True) 4 (ybio_init [], (2, ''ab'' @ newline # ''cd''))
          = Some (map (take (4 - 1)) (lines_of (snd (2::nat, ''ab'' @ newline # ''cd''))), p, k') \<and> unread p @ snd k' = [])"
  by (rule lines_delivered_once [OF demo_stream(1)]) simp_all

lemma readLine_loop_bounds:
  "readLine_loop fuel rd n buf k = Some ((r, out), k') \<Longrightarrow> length buf < n \<Longrightarrow> length out \<le> n"
  by (induction fuel arbitrary: buf k) (auto simp: Let_def split: prod.splits sum.splits list.splits if_splits)

lemma ybio_readl_loop_bounds:
  "ybio_readl_loop fuel rd n buf s = Some ((r, out), s') \<Longrightarrow> length buf < n \<Longrightarrow> length out \<le> n"
  by (induction fuel arbitrary: buf s) (auto simp: Let_def split: option.splits prod.splits sum.splits list.splits if_splits)

lemma readLineBuf_loop_bounds:
  "readLineBuf_loop fuel rd n buf s = Some ((r, out), s') \<Longrightarrow> length buf \<le> n \<Longrightarrow> length out \<le> n"
  by (induction fuel arbitrary: buf s) (auto simp: Let_def split: prod.splits sum.splits if_splits)



text \<open>
  \<^verbatim>\<open>readLineBuf()\<close> on a stream without interruptions returns the next line cut to \<open>n\<close>
  bytes, with no terminating null byte, and keeps what it has read ahead for the next call;
  it returns after at most one iteration per byte.
\<close>

theorem readLineBuf_reads_line:
  assumes "stream_read rd cont (\<lambda>_. 0)" and "rl_ok b" and "0 < n" and "length (rl_unread b @ cont k) < fuel"
  shows "\<exists>b' k'. readLineBuf fuel rd True n (b, k) =
      Some ((Inr (length (take n (line_of (rl_unread b @ cont k)))), take n (line_of (rl_unread b @ cont k))), b', k')
    \<and> rl_unread b' @ cont k' = rest_of (rl_unread b @ cont k) \<and> rl_ok b'"
  using readLineBuf_loop_spec [OF assms(1,2), of "[]" n k fuel] assms(3,4) by (simp add: readLineBuf_def)

definition quiet_read :: "cstring reader" where
  "quiet_read n s = (Inr (take n s), drop n s)"

theorem readLineBuf_reads_line_witness:
  "\<exists>b' k'. readLineBuf 30 quiet_read True 6 (readLineBufInit [], ''hello world'' @ newline # ''x'') =
      Some ((Inr (length (take 6 (line_of (rl_unread (readLineBufInit []) @ ''hello world'' @ newline # ''x'')))),
        take 6 (line_of (rl_unread (readLineBufInit []) @ ''hello world'' @ newline # ''x''))), b', k')
    \<and> rl_unread b' @ k' = rest_of (rl_unread (readLineBufInit []) @ ''hello world'' @ newline # ''x'') \<and> rl_ok b'"
  by (rule readLineBuf_reads_line [where cont = "\<lambda>k. k"])
    (auto simp: stream_read_def quiet_read_def rl_ok_def readLineBufInit_def rl_unread_def)

end
