(* ===== verification/Binary_Sems.thy ===== *)
theory Binary_Sems
  imports Dtree_State
begin

text \<open>
  The protocols built on System V semaphores: binary semaphores (\<^verbatim>\<open>svsem/binary_sems.c\<close>) and
  event flags (\<^verbatim>\<open>svsem/event_flags.c\<close>). The system calls \<^verbatim>\<open>semop()\<close> and \<^verbatim>\<open>semctl()\<close> are
  arguments; \<open>sem_values\<close> states what \<^verbatim>\<open>semop(2)\<close> and \<^verbatim>\<open>semctl(2)\<close> document of the values of
  the semaphores. A call that returns -1 gives the error as \<open>Some e\<close>.
\<close>

section \<open>System calls\<close>

record 'k sem_os =
  sys_semop :: "int \<Rightarrow> nat \<Rightarrow> int \<Rightarrow> bool \<Rightarrow> 'k \<Rightarrow> errno option \<times> 'k"
  sys_setval :: "int \<Rightarrow> nat \<Rightarrow> int \<Rightarrow> 'k \<Rightarrow> errno option \<times> 'k"
  sys_getval :: "int \<Rightarrow> nat \<Rightarrow> 'k \<Rightarrow> errno + int"

record bs_config =
  bsUseSemUndo :: bool
  bsRetryOnEintr :: bool

text \<open>
  A decrement succeeds only on a value that stays nonnegative, a wait for zero only at zero;
  a failing call changes no value. \<open>val k (semId, semNum)\<close> is the value of a semaphore.
\<close>

definition sem_values :: "'k sem_os \<Rightarrow> ('k \<Rightarrow> int \<times> nat \<Rightarrow> int) \<Rightarrow> bool" where
  "sem_values os val \<longleftrightarrow>
     (\<forall>i n op u k e k'. sys_semop os i n op u k = (e, k') \<longrightarrow>
        (if e = None then 0 \<le> val k (i, n) + op \<and> (op = 0 \<longrightarrow> val k (i, n) = 0)
             \<and> val k' = (val k)((i, n) := val k (i, n) + op)
         else val k' = val k)) \<and>
     (\<forall>i n v k e k'. sys_setval os i n v k = (e, k') \<longrightarrow>
        val k' = (if e = None then (val k)((i, n) := v) else val k)) \<and>
     (\<forall>i n k v. sys_getval os i n k = Inr v \<longrightarrow> v = val k (i, n))"

lemma sem_valuesD:
  assumes "sem_values os val"
  shows "sys_semop os i n op u k = (None, k') \<Longrightarrow>
           0 \<le> val k (i, n) + op \<and> (op = 0 \<longrightarrow> val k (i, n) = 0) \<and> val k' = (val k)((i, n) := val k (i, n) + op)"
    and "sys_semop os i n op u k = (Some e, k') \<Longrightarrow> val k' = val k"
    and "sys_setval os i n v k = (None, k') \<Longrightarrow> val k' = (val k)((i, n) := v)"
    and "sys_setval os i n v k = (Some e, k') \<Longrightarrow> val k' = val k"
    and "sys_getval os i n k = Inr v \<Longrightarrow> v = val k (i, n)"
  using assms unfolding sem_values_def by (metis option.distinct(1))+

section \<open>Binary semaphores\<close>

definition initSemAvailable :: "'k sem_os \<Rightarrow> int \<Rightarrow> nat \<Rightarrow> 'k \<Rightarrow> errno option \<times> 'k" where
  "initSemAvailable os semId semNum k = sys_setval os semId semNum 1 k"

definition initSemInUse :: "'k sem_os \<Rightarrow> int \<Rightarrow> nat \<Rightarrow> 'k \<Rightarrow> errno option \<times> 'k" where
  "initSemInUse os semId semNum k = sys_setval os semId semNum 0 k"

fun reserveSem :: "nat \<Rightarrow> 'k sem_os \<Rightarrow> bs_config \<Rightarrow> int \<Rightarrow> nat \<Rightarrow> 'k \<Rightarrow> (errno option \<times> 'k) option" where
  "reserveSem 0 os cf semId semNum k = None"
| "reserveSem (Suc fuel) os cf semId semNum k =
     (case sys_semop os semId semNum (-1) (bsUseSemUndo cf) k of
        (None, k') \<Rightarrow> Some (None, k')
      | (Some e, k') \<Rightarrow>
          if e \<noteq> EINTR \<or> \<not> bsRetryOnEintr cf then Some (Some e, k') else reserveSem fuel os cf semId semNum k')"

definition releaseSem :: "'k sem_os \<Rightarrow> bs_config \<Rightarrow> int \<Rightarrow> nat \<Rightarrow> 'k \<Rightarrow> errno option \<times> 'k" where
  "releaseSem os cf semId semNum k = sys_semop os semId semNum 1 (bsUseSemUndo cf) k"

section \<open>Event flags\<close>

text \<open>A flag is set when its semaphore is 0 and clear when it is 1.\<close>

fun waitForEventFlag :: "nat \<Rightarrow> 'k sem_os \<Rightarrow> int \<Rightarrow> nat \<Rightarrow> 'k \<Rightarrow> (errno option \<times> 'k) option" where
  "waitForEventFlag 0 os semId semNum k = None"
| "waitForEventFlag (Suc fuel) os semId semNum k =
     (case sys_semop os semId semNum 0 False k of
        (None, k') \<Rightarrow> Some (None, k')
      | (Some e, k') \<Rightarrow> if e \<noteq> EINTR then Some (Some e, k') else waitForEventFlag fuel os semId semNum k')"

definition clearEventFlag :: "'k sem_os \<Rightarrow> int \<Rightarrow> nat \<Rightarrow> 'k \<Rightarrow> errno option \<times> 'k" where
  "clearEventFlag os semId semNum k = sys_setval os semId semNum 1 k"

definition setEventFlag :: "'k sem_os \<Rightarrow> int \<Rightarrow> nat \<Rightarrow> 'k \<Rightarrow> errno option \<times> 'k" where
  "setEventFlag os semId semNum k = sys_setval os semId semNum 0 k"

text \<open>\<open>Inr b\<close>: the call returned 0 and stored \<open>b\<close> in \<^verbatim>\<open>*isSet\<close>.\<close>

definition getFlagState :: "'k sem_os \<Rightarrow> int \<Rightarrow> nat \<Rightarrow> 'k \<Rightarrow> errno + bool" where
  "getFlagState os semId semNum k =
     (case sys_getval os semId semNum k of Inl e \<Rightarrow> Inl e | Inr v \<Rightarrow> Inr (v = 0))"

section \<open>The contract of a lock\<close>

text \<open>
  A history of lock operations, successful and not. The number counts the successful takes
  that were not given back.
\<close>

inductive lock_history ::
  "('k \<Rightarrow> errno option \<times> 'k \<Rightarrow> bool) \<Rightarrow> ('k \<Rightarrow> errno option \<times> 'k) \<Rightarrow> 'k \<Rightarrow> int \<Rightarrow> 'k \<Rightarrow> bool"
  for take_lock give where
  start: "lock_history take_lock give k 0 k"
| took: "lock_history take_lock give k h k1 \<Longrightarrow> take_lock k1 (None, k2) \<Longrightarrow> lock_history take_lock give k (h + 1) k2"
| took_not: "lock_history take_lock give k h k1 \<Longrightarrow> take_lock k1 (Some e, k2) \<Longrightarrow> lock_history take_lock give k h k2"
| gave: "lock_history take_lock give k h k1 \<Longrightarrow> 0 < h \<Longrightarrow> give k1 = (None, k2) \<Longrightarrow> lock_history take_lock give k (h - 1) k2"
| gave_not: "lock_history take_lock give k h k1 \<Longrightarrow> give k1 = (Some e, k2) \<Longrightarrow> lock_history take_lock give k h k2"

text \<open>
  What a client of a lock relies on: taking it succeeds only when it is available and makes
  it unavailable, giving it back makes it available, and failing calls change nothing.
\<close>

locale lock =
  fixes ok :: "'k \<Rightarrow> bool" and avail :: "'k \<Rightarrow> int"
    and take_lock :: "'k \<Rightarrow> errno option \<times> 'k \<Rightarrow> bool" and give :: "'k \<Rightarrow> errno option \<times> 'k"
  assumes take_ok: "ok k \<Longrightarrow> take_lock k (None, k') \<Longrightarrow> ok k' \<and> 1 \<le> avail k \<and> avail k' = avail k - 1"
    and take_fail: "ok k \<Longrightarrow> take_lock k (Some e, k') \<Longrightarrow> ok k' \<and> avail k' = avail k"
    and give_ok: "ok k \<Longrightarrow> give k = (None, k') \<Longrightarrow> ok k' \<and> avail k' = avail k + 1"
    and give_fail: "ok k \<Longrightarrow> give k = (Some e, k') \<Longrightarrow> ok k' \<and> avail k' = avail k"
begin

lemma history_count:
  assumes "lock_history take_lock give k h k'" and "ok k" and "0 \<le> avail k"
  shows "ok k' \<and> avail k' + h = avail k \<and> 0 \<le> h \<and> 0 \<le> avail k'"
  using assms
proof induction
  case (took k h k1 k2)
  with take_ok [of k1 k2] show ?case by auto
next
  case (took_not k h k1 e k2)
  with take_fail [of k1 e k2] show ?case by auto
next
  case (gave k h k1 k2)
  with give_ok [of k1 k2] show ?case by auto
next
  case (gave_not k h k1 e k2)
  with give_fail [of k1 e k2] show ?case by auto
qed auto

lemma exclusive: "lock_history take_lock give k h k' \<Longrightarrow> ok k \<Longrightarrow> avail k = 1 \<Longrightarrow> h \<le> 1 \<and> (h = 1 \<longrightarrow> \<not> take_lock k' (None, k''))"
  using history_count [of k h k'] take_ok [of k' k''] by auto

end

lemma reserveSem_values:
  assumes "sem_values os val" and "reserveSem fuel os cf i n k = Some (e, k')"
  shows "if e = None then 1 \<le> val k (i, n) \<and> val k' = (val k)((i, n) := val k (i, n) - 1) else val k' = val k"
  using assms(2)
proof (induction fuel arbitrary: k)
  case (Suc fuel)
  obtain r k1 where op: "sys_semop os i n (-1) (bsUseSemUndo cf) k = (r, k1)" by fastforce
  show ?case
  proof (cases r)
    case None
    then show ?thesis using Suc.prems op sem_valuesD(1) [OF assms(1)] by fastforce
  next
    case (Some x)
    then have "val k1 = val k" using op sem_valuesD(2) [OF assms(1)] by blast
    then show ?thesis using Suc.IH [of k1] Suc.prems op Some by (auto split: if_splits)
  qed
qed simp

interpretation bs: lock "\<lambda>k. sem_values os val" "\<lambda>k. val k (i, n)"
    "\<lambda>k r. \<exists>fuel. reserveSem fuel os cf i n k = Some r" "releaseSem os cf i n" for os val cf i n
proof (unfold_locales, goal_cases)
  case (1 k k')
  then show ?case using reserveSem_values [of os val _ cf i n k None k'] by auto
next
  case (2 k e k')
  then show ?case using reserveSem_values [of os val _ cf i n k "Some e" k'] by auto
next
  case (3 k k')
  then show ?case using sem_valuesD(1) [of os val i n 1] by (auto simp: releaseSem_def)
next
  case (4 k e k')
  then show ?case using sem_valuesD(2) [of os val i n 1] by (auto simp: releaseSem_def)
qed

section \<open>Properties\<close>

text \<open>
  C36. Mutual exclusion: after \<^verbatim>\<open>initSemAvailable()\<close>, in any history of \<^verbatim>\<open>reserveSem()\<close> and
  \<^verbatim>\<open>releaseSem()\<close> calls, interrupted, failing or successful, in which only a holder releases,
  at most one reservation is held at a time, and while it is held no other call of
  \<^verbatim>\<open>reserveSem()\<close> succeeds.
\<close>

theorem binary_semaphore_exclusive:
  assumes "sem_values os val" and "initSemAvailable os i n k0 = (None, k)"
    and "lock_history (\<lambda>k r. \<exists>fuel. reserveSem fuel os cf i n k = Some r) (releaseSem os cf i n) k h k'"
  shows "h \<le> 1 \<and> (h = 1 \<longrightarrow> (\<forall>fuel k''. reserveSem fuel os cf i n k' \<noteq> Some (None, k'')))"
proof -
  have "val k (i, n) = 1" using sem_valuesD(3) [OF assms(1)] assms(2) by (simp add: initSemAvailable_def)
  from bs.exclusive [OF assms(3,1) this] show ?thesis by blast
qed

text \<open>Two processes' worth of documented behaviour to evaluate: a call that would block fails.\<close>

definition demo_sem :: "(int \<times> nat \<Rightarrow> int) sem_os" where
  "demo_sem = \<lparr>
     sys_semop = (\<lambda>i n op u k. if k (i, n) + op < 0 \<or> op = 0 \<and> k (i, n) \<noteq> 0 then (Some EAGAIN, k)
                                else (None, k((i, n) := k (i, n) + op))),
     sys_setval = (\<lambda>i n v k. (None, k((i, n) := v))),
     sys_getval = (\<lambda>i n k. Inr (k (i, n)))\<rparr>"

lemma demo_sem_values: "sem_values demo_sem (\<lambda>k. k)"
  by (auto simp: sem_values_def demo_sem_def split: if_splits)

definition demo_cf :: bs_config where "demo_cf = \<lparr>bsUseSemUndo = False, bsRetryOnEintr = True\<rparr>"

lemma demo_reserved:
  "lock_history (\<lambda>k r. \<exists>fuel. reserveSem fuel demo_sem demo_cf 0 0 k = Some r) (releaseSem demo_sem demo_cf 0 0)
     ((\<lambda>_. 0)((0, 0) := 1)) 1 (((\<lambda>_. 0)((0, 0) := 1))((0, 0) := 0))"
proof -
  have "\<exists>fuel. reserveSem fuel demo_sem demo_cf 0 0 ((\<lambda>_. 0)((0, 0) := 1))
      = Some (None, ((\<lambda>_. 0)((0, 0) := 1))((0, 0) := 0))"
    by (rule exI [of _ "Suc 0"]) (simp add: demo_sem_def)
  then have "lock_history (\<lambda>k r. \<exists>fuel. reserveSem fuel demo_sem demo_cf 0 0 k = Some r) (releaseSem demo_sem demo_cf 0 0)
     ((\<lambda>_. 0)((0, 0) := 1)) (0 + 1) (((\<lambda>_. 0)((0, 0) := 1))((0, 0) := 0))"
    by (rule lock_history.took [rotated]) (rule lock_history.start)
  then show ?thesis by simp
qed

theorem binary_semaphore_exclusive_witness:
  "\<forall>fuel k''. reserveSem fuel demo_sem demo_cf 0 0 (((\<lambda>_. 0)((0, 0) := 1))((0, 0) := 0)) \<noteq> Some (None, k'')"
proof -
  have "initSemAvailable demo_sem 0 0 (\<lambda>_. 0) = (None, (\<lambda>_. 0)((0, 0) := 1))"
    by (simp add: initSemAvailable_def demo_sem_def)
  from binary_semaphore_exclusive [OF demo_sem_values this demo_reserved] show ?thesis by simp
qed

lemma wait_values:
  assumes "sem_values os val" and "waitForEventFlag fuel os i n k = Some (e, k')"
  shows "val k' = val k \<and> (e = None \<longrightarrow> val k (i, n) = 0)"
  using assms(2)
proof (induction fuel arbitrary: k)
  case (Suc fuel)
  obtain r k1 where op: "sys_semop os i n 0 False k = (r, k1)" by fastforce
  show ?case
  proof (cases r)
    case None
    then show ?thesis using Suc.prems op sem_valuesD(1) [OF assms(1)] by fastforce
  next
    case (Some x)
    then have "val k1 = val k" using op sem_valuesD(2) [OF assms(1)] by blast
    then show ?thesis using Suc.IH [of k1] Suc.prems op Some by (auto split: if_splits)
  qed
qed simp

text \<open>
  The event flags keep their meaning: after \<^verbatim>\<open>clearEventFlag()\<close> the state read back is
  clear and no wait succeeds, after \<^verbatim>\<open>setEventFlag()\<close> it is read back as set, and waiting
  changes nothing.
\<close>

theorem event_flag_protocol:
  assumes "sem_values os val"
  shows "(clearEventFlag os i n k = (None, k1) \<longrightarrow>
           (\<forall>b. getFlagState os i n k1 = Inr b \<longrightarrow> \<not> b) \<and> (\<forall>fuel k2. waitForEventFlag fuel os i n k1 \<noteq> Some (None, k2))) \<and>
         (setEventFlag os i n k = (None, k1) \<longrightarrow> (\<forall>b. getFlagState os i n k1 = Inr b \<longrightarrow> b)) \<and>
         (waitForEventFlag fuel os i n k = Some (e, k1) \<longrightarrow> val k1 = val k)"
proof (intro conjI impI)
  assume c: "clearEventFlag os i n k = (None, k1)"
  then have v: "val k1 (i, n) = 1" using sem_valuesD(3) [OF assms] by (simp add: clearEventFlag_def)
  then show "\<forall>b. getFlagState os i n k1 = Inr b \<longrightarrow> \<not> b"
    using sem_valuesD(5) [OF assms, of i n k1] by (auto simp: getFlagState_def split: sum.splits)
  show "\<forall>fuel k2. waitForEventFlag fuel os i n k1 \<noteq> Some (None, k2)"
    using wait_values [OF assms, of _ i n k1 None] v by fastforce
next
  assume "setEventFlag os i n k = (None, k1)"
  then have "val k1 (i, n) = 0" using sem_valuesD(3) [OF assms] by (simp add: setEventFlag_def)
  then show "\<forall>b. getFlagState os i n k1 = Inr b \<longrightarrow> b"
    using sem_valuesD(5) [OF assms, of i n k1] by (auto simp: getFlagState_def split: sum.splits)
qed (use wait_values [OF assms, of fuel i n k e k1] in simp)

theorem event_flag_protocol_witness:
  "getFlagState demo_sem 0 0 ((\<lambda>_. 0)((0, 0) := 1)) = Inr False
   \<and> (\<forall>fuel k2. waitForEventFlag fuel demo_sem 0 0 ((\<lambda>_. 0)((0, 0) := 1)) \<noteq> Some (None, k2))"
proof -
  have "clearEventFlag demo_sem 0 0 (\<lambda>_. 0) = (None, (\<lambda>_. 0)((0, 0) := 1))"
    by (simp add: clearEventFlag_def demo_sem_def)
  moreover have "getFlagState demo_sem 0 0 ((\<lambda>_. 0)((0, 0) := 1)) = Inr False"
    by (simp add: getFlagState_def demo_sem_def)
  ultimately show ?thesis
    using event_flag_protocol [OF demo_sem_values, of 0 0 "\<lambda>_. 0" "(\<lambda>_. 0)((0, 0) := 1)"] by blast
qed

end
