(* ===== verification/Shm_Transfer.thy ===== *)
theory Shm_Transfer
  imports Strto_Num
begin

text \<open>
  The transfer of a stream through shared memory: \<^verbatim>\<open>svshm/svshm_xfr_writer.c\<close> copies its
  standard input block by block into a segment, \<^verbatim>\<open>svshm/svshm_xfr_reader.c\<close> copies the blocks
  to its standard output, and two binary semaphores make them take turns. Each process is a
  step function over the common state, one step per system call or access to the segment;
  the two are interleaved in any order. The model starts when both have the segment and
  the semaphores, which the writer created (\<^verbatim>\<open>initSemAvailable(WRITE_SEM)\<close>,
  \<^verbatim>\<open>initSemInUse(READ_SEM)\<close>).
\<close>

section \<open>State\<close>

definition BUF_SIZE :: nat where "BUF_SIZE = 1024"

text \<open>
  The counts of bytes are variables of type \<^verbatim>\<open>int\<close>: a process whose count would leave the range of
  the type (at 2 GiB) has undefined behaviour, \<open>W_Overflow\<close> or \<open>R_Overflow\<close>. The counts of transfers
  are at most those of bytes.
\<close>

datatype wloc = W_Reserve | W_Read | W_Release | W_Test | W_LastReserve | W_Cleanup | W_Exit | W_Failed | W_Overflow

datatype rloc = R_Reserve | R_Test | R_Write | R_Release | R_Detach | R_LastRelease | R_Exit | R_Failed | R_Overflow

record xfr =
  wpc :: wloc
  rpc :: rloc
  write_sem :: nat
  read_sem :: nat
  cnt :: int
  buf :: cstring
  inp :: cstring
  outp :: cstring
  w_bytes :: int
  w_xfrs :: int
  r_bytes :: int
  r_xfrs :: int

definition xfr_start :: "cstring \<Rightarrow> cstring \<Rightarrow> xfr" where
  "xfr_start garbage input = \<lparr>wpc = W_Reserve, rpc = R_Reserve, write_sem = 1, read_sem = 0, cnt = 0, buf = garbage,
     inp = input, outp = [], w_bytes = 0, w_xfrs = 0, r_bytes = 0, r_xfrs = 0\<rparr>"

text \<open>
  What the environment decides at a step: how many bytes a \<^verbatim>\<open>read()\<close> delivers (at least one,
  unless the input is exhausted), or that the system call fails. A failing \<^verbatim>\<open>write()\<close> may
  have written some of the bytes.
\<close>

datatype choice = Bytes nat | Fail nat

definition failing :: "choice \<Rightarrow> bool" where
  "failing c \<longleftrightarrow> (case c of Bytes _ \<Rightarrow> False | Fail _ \<Rightarrow> True)"

lemma failing_simps [simp]: "\<not> failing (Bytes n)" "failing (Fail n)"
  by (simp_all add: failing_def)

section \<open>The two processes\<close>

text \<open>\<open>None\<close>: the process has ended, or is blocked in \<^verbatim>\<open>reserveSem()\<close>.\<close>

definition writer_step :: "choice \<Rightarrow> xfr \<Rightarrow> xfr option" where
  "writer_step c s = (case wpc s of
     W_Reserve \<Rightarrow>
       if failing c then Some (s\<lparr>wpc := W_Failed\<rparr>)
       else if write_sem s > 0 then Some (s\<lparr>write_sem := write_sem s - 1, wpc := W_Read\<rparr>) else None
   | W_Read \<Rightarrow>
       (case c of
          Fail _ \<Rightarrow> Some (s\<lparr>cnt := -1, wpc := W_Failed\<rparr>)
        | Bytes n \<Rightarrow>
            (let d = take (min (max 1 n) BUF_SIZE) (inp s)
             in Some (s\<lparr>cnt := int (length d), buf := d @ drop (length d) (buf s),
                        inp := drop (length d) (inp s), wpc := W_Release\<rparr>)))
   | W_Release \<Rightarrow>
       if failing c then Some (s\<lparr>wpc := W_Failed\<rparr>)
       else Some (s\<lparr>read_sem := read_sem s + 1, wpc := W_Test\<rparr>)
   | W_Test \<Rightarrow>
       if cnt s = 0 then Some (s\<lparr>wpc := W_LastReserve\<rparr>)
       else if w_bytes s + cnt s > INT_MAX then Some (s\<lparr>wpc := W_Overflow\<rparr>)
       else Some (s\<lparr>w_xfrs := w_xfrs s + 1, w_bytes := w_bytes s + cnt s, wpc := W_Reserve\<rparr>)
   | W_LastReserve \<Rightarrow>
       if failing c then Some (s\<lparr>wpc := W_Failed\<rparr>)
       else if write_sem s > 0 then Some (s\<lparr>write_sem := write_sem s - 1, wpc := W_Cleanup\<rparr>) else None
   | W_Cleanup \<Rightarrow> if failing c then Some (s\<lparr>wpc := W_Failed\<rparr>) else Some (s\<lparr>wpc := W_Exit\<rparr>)
   | W_Exit \<Rightarrow> None
   | W_Failed \<Rightarrow> None
   | W_Overflow \<Rightarrow> None)"

definition reader_step :: "choice \<Rightarrow> xfr \<Rightarrow> xfr option" where
  "reader_step c s = (case rpc s of
     R_Reserve \<Rightarrow>
       if failing c then Some (s\<lparr>rpc := R_Failed\<rparr>)
       else if read_sem s > 0 then Some (s\<lparr>read_sem := read_sem s - 1, rpc := R_Test\<rparr>) else None
   | R_Test \<Rightarrow>
       if cnt s = 0 then Some (s\<lparr>rpc := R_Detach\<rparr>)
       else if r_bytes s + cnt s > INT_MAX then Some (s\<lparr>rpc := R_Overflow\<rparr>)
       else Some (s\<lparr>r_bytes := r_bytes s + cnt s, rpc := R_Write\<rparr>)
   | R_Write \<Rightarrow>
       (case c of
          Fail n \<Rightarrow> Some (s\<lparr>outp := outp s @ take (min n (nat (cnt s) - 1)) (buf s), rpc := R_Failed\<rparr>)
        | Bytes _ \<Rightarrow> Some (s\<lparr>outp := outp s @ take (nat (cnt s)) (buf s), rpc := R_Release\<rparr>))
   | R_Release \<Rightarrow>
       if failing c then Some (s\<lparr>rpc := R_Failed\<rparr>)
       else Some (s\<lparr>write_sem := write_sem s + 1, r_xfrs := r_xfrs s + 1, rpc := R_Reserve\<rparr>)
   | R_Detach \<Rightarrow> if failing c then Some (s\<lparr>rpc := R_Failed\<rparr>) else Some (s\<lparr>rpc := R_LastRelease\<rparr>)
   | R_LastRelease \<Rightarrow>
       if failing c then Some (s\<lparr>rpc := R_Failed\<rparr>)
       else Some (s\<lparr>write_sem := write_sem s + 1, rpc := R_Exit\<rparr>)
   | R_Exit \<Rightarrow> None
   | R_Failed \<Rightarrow> None
   | R_Overflow \<Rightarrow> None)"

section \<open>Interleaving\<close>

text \<open>The flag tells whether a system call failed in the step.\<close>

inductive xfr_step :: "bool \<Rightarrow> xfr \<Rightarrow> xfr \<Rightarrow> bool" where
  writer: "writer_step c s = Some t \<Longrightarrow> xfr_step (failing c) s t"
| reader: "reader_step c s = Some t \<Longrightarrow> xfr_step (failing c) s t"

inductive_cases xfr_stepE: "xfr_step f s t"

text \<open>\<open>xfr_run s n f t\<close>: \<open>n\<close> steps lead from \<open>s\<close> to \<open>t\<close>, with a failure among them if \<open>f\<close>.\<close>

inductive xfr_run :: "xfr \<Rightarrow> nat \<Rightarrow> bool \<Rightarrow> xfr \<Rightarrow> bool" for s where
  start: "xfr_run s 0 False s"
| step: "xfr_run s n f t \<Longrightarrow> xfr_step g t u \<Longrightarrow> xfr_run s (Suc n) (f \<or> g) u"

section \<open>The invariant\<close>

text \<open>The right of access is a token: on a semaphore, with a process, or used up by the clean-up.\<close>

fun w_token :: "wloc \<Rightarrow> nat" where
  "w_token W_Reserve = 0" | "w_token W_Read = 1" | "w_token W_Release = 1" | "w_token W_Test = 0"
| "w_token W_LastReserve = 0" | "w_token W_Cleanup = 1" | "w_token W_Exit = 1" | "w_token W_Failed = 0"
| "w_token W_Overflow = 0"

fun r_token :: "rloc \<Rightarrow> nat" where
  "r_token R_Reserve = 0" | "r_token R_Test = 1" | "r_token R_Write = 1" | "r_token R_Release = 1"
| "r_token R_Detach = 1" | "r_token R_LastRelease = 1" | "r_token R_Exit = 0" | "r_token R_Failed = 0"
| "r_token R_Overflow = 1"

definition tokens :: "xfr \<Rightarrow> nat" where
  "tokens s = write_sem s + read_sem s + w_token (wpc s) + r_token (rpc s)"

text \<open>Bytes that were read by the writer and not yet written by the reader.\<close>

definition full_segment :: "xfr \<Rightarrow> bool" where
  "full_segment s \<longleftrightarrow> wpc s = W_Release \<or> read_sem s = 1 \<or> rpc s \<in> {R_Test, R_Write, R_Overflow}"

definition transit :: "xfr \<Rightarrow> cstring" where
  "transit s = (if full_segment s then take (nat (cnt s)) (buf s) else [])"

definition data_ok :: "cstring \<Rightarrow> xfr \<Rightarrow> bool" where
  "data_ok input s \<longleftrightarrow> (\<exists>rest. outp s @ transit s @ rest = input \<and> (tokens s = 1 \<longrightarrow> rest = inp s))
     \<and> (full_segment s \<longrightarrow> 0 \<le> cnt s \<and> nat (cnt s) \<le> length (buf s))"

definition phase_ok :: "xfr \<Rightarrow> bool" where
  "phase_ok s \<longleftrightarrow>
     (wpc s \<in> {W_Release, W_Test} \<and> cnt s = 0 \<longrightarrow> inp s = []) \<and>
     (wpc s \<in> {W_LastReserve, W_Cleanup, W_Exit} \<longrightarrow> cnt s = 0 \<and> inp s = []) \<and>
     (wpc s = W_Reserve \<and> cnt s = 0 \<longrightarrow> write_sem s = 1 \<and> rpc s \<in> {R_Reserve, R_Failed}) \<and>
     (wpc s \<in> {W_Read, W_Release} \<longrightarrow> rpc s \<in> {R_Reserve, R_Failed}) \<and>
     (rpc s \<in> {R_Detach, R_LastRelease, R_Exit} \<longrightarrow> cnt s = 0 \<and> wpc s \<in> {W_Test, W_LastReserve, W_Cleanup, W_Exit, W_Failed}) \<and>
     (rpc s \<in> {R_Write, R_Release, R_Overflow} \<or> wpc s = W_Overflow \<longrightarrow> cnt s \<noteq> 0) \<and>
     (rpc s = R_Exit \<longrightarrow> read_sem s = 0) \<and>
     (wpc s \<in> {W_Test, W_LastReserve} \<and> cnt s = 0 \<and> write_sem s = 1 \<longrightarrow> rpc s = R_Exit) \<and>
     (wpc s \<in> {W_Cleanup, W_Exit} \<longrightarrow> rpc s = R_Exit)"

definition sent_ok :: "cstring \<Rightarrow> xfr \<Rightarrow> bool" where
  "sent_ok input s \<longleftrightarrow> (wpc s \<noteq> W_Failed \<longrightarrow>
     w_bytes s + (if wpc s \<in> {W_Release, W_Test, W_Overflow} then cnt s else 0) = int (length input) - int (length (inp s)))"

definition received_ok :: "xfr \<Rightarrow> bool" where
  "received_ok s \<longleftrightarrow> (rpc s \<noteq> R_Failed \<longrightarrow> r_bytes s = int (length (outp s)) + (if rpc s = R_Write then cnt s else 0))"

definition xfr_inv :: "cstring \<Rightarrow> bool \<Rightarrow> xfr \<Rightarrow> bool" where
  "xfr_inv input failed s \<longleftrightarrow> tokens s \<le> 1 \<and> data_ok input s \<and> phase_ok s \<and> sent_ok input s \<and> received_ok s
     \<and> (\<not> failed \<longrightarrow> tokens s = 1 \<and> wpc s \<noteq> W_Failed \<and> rpc s \<noteq> R_Failed)
     \<and> (int (length input) \<le> INT_MAX \<longrightarrow> wpc s \<noteq> W_Overflow \<and> rpc s \<noteq> R_Overflow)"

lemmas xfr_defs = tokens_def full_segment_def transit_def data_ok_def phase_ok_def sent_ok_def received_ok_def

lemma xfr_inv_start: "xfr_inv input False (xfr_start garbage input)"
  by (simp add: xfr_inv_def xfr_defs xfr_start_def)



text \<open>What a step of the reader does, by the location it is at.\<close>

lemma reader_stepD:
  assumes "reader_step c s = Some t"
  shows "rpc s = R_Reserve \<Longrightarrow> failing c \<and> t = s\<lparr>rpc := R_Failed\<rparr>
     \<or> \<not> failing c \<and> read_sem s > 0 \<and> t = s\<lparr>read_sem := read_sem s - 1, rpc := R_Test\<rparr>"
    and "rpc s = R_Test \<Longrightarrow> cnt s = 0 \<and> t = s\<lparr>rpc := R_Detach\<rparr>
     \<or> cnt s \<noteq> 0 \<and> \<not> r_bytes s + cnt s > INT_MAX \<and> t = s\<lparr>r_bytes := r_bytes s + cnt s, rpc := R_Write\<rparr>
     \<or> cnt s \<noteq> 0 \<and> r_bytes s + cnt s > INT_MAX \<and> t = s\<lparr>rpc := R_Overflow\<rparr>"
    and "rpc s = R_Write \<Longrightarrow> (\<exists>n. failing c \<and> t = s\<lparr>outp := outp s @ take (min n (nat (cnt s) - 1)) (buf s), rpc := R_Failed\<rparr>)
     \<or> \<not> failing c \<and> t = s\<lparr>outp := outp s @ take (nat (cnt s)) (buf s), rpc := R_Release\<rparr>"
    and "rpc s = R_Release \<Longrightarrow> failing c \<and> t = s\<lparr>rpc := R_Failed\<rparr>
     \<or> \<not> failing c \<and> t = s\<lparr>write_sem := write_sem s + 1, r_xfrs := r_xfrs s + 1, rpc := R_Reserve\<rparr>"
    and "rpc s = R_Detach \<Longrightarrow> failing c \<and> t = s\<lparr>rpc := R_Failed\<rparr> \<or> \<not> failing c \<and> t = s\<lparr>rpc := R_LastRelease\<rparr>"
    and "rpc s = R_LastRelease \<Longrightarrow> failing c \<and> t = s\<lparr>rpc := R_Failed\<rparr>
     \<or> \<not> failing c \<and> t = s\<lparr>write_sem := write_sem s + 1, rpc := R_Exit\<rparr>"
    and "rpc s = R_Exit \<Longrightarrow> False" "rpc s = R_Failed \<Longrightarrow> False" "rpc s = R_Overflow \<Longrightarrow> False"
  using assms unfolding reader_step_def by (simp_all split: if_splits choice.splits) blast

lemma writer_stepD:
  assumes "writer_step c s = Some t"
  shows "wpc s = W_Reserve \<Longrightarrow> failing c \<and> t = s\<lparr>wpc := W_Failed\<rparr>
     \<or> \<not> failing c \<and> write_sem s > 0 \<and> t = s\<lparr>write_sem := write_sem s - 1, wpc := W_Read\<rparr>"
    and "wpc s = W_Read \<Longrightarrow> failing c \<and> t = s\<lparr>cnt := -1, wpc := W_Failed\<rparr>
     \<or> (\<exists>d r. \<not> failing c \<and> inp s = d @ r \<and> (d = [] \<longrightarrow> inp s = []) \<and>
          t = s\<lparr>cnt := int (length d), buf := d @ drop (length d) (buf s), inp := r, wpc := W_Release\<rparr>)"
    and "wpc s = W_Release \<Longrightarrow> failing c \<and> t = s\<lparr>wpc := W_Failed\<rparr>
     \<or> \<not> failing c \<and> t = s\<lparr>read_sem := read_sem s + 1, wpc := W_Test\<rparr>"
    and "wpc s = W_Test \<Longrightarrow> cnt s = 0 \<and> t = s\<lparr>wpc := W_LastReserve\<rparr>
     \<or> cnt s \<noteq> 0 \<and> \<not> w_bytes s + cnt s > INT_MAX \<and> t = s\<lparr>w_xfrs := w_xfrs s + 1, w_bytes := w_bytes s + cnt s, wpc := W_Reserve\<rparr>
     \<or> cnt s \<noteq> 0 \<and> w_bytes s + cnt s > INT_MAX \<and> t = s\<lparr>wpc := W_Overflow\<rparr>"
    and "wpc s = W_LastReserve \<Longrightarrow> failing c \<and> t = s\<lparr>wpc := W_Failed\<rparr>
     \<or> \<not> failing c \<and> write_sem s > 0 \<and> t = s\<lparr>write_sem := write_sem s - 1, wpc := W_Cleanup\<rparr>"
    and "wpc s = W_Cleanup \<Longrightarrow> failing c \<and> t = s\<lparr>wpc := W_Failed\<rparr> \<or> \<not> failing c \<and> t = s\<lparr>wpc := W_Exit\<rparr>"
    and "wpc s = W_Exit \<Longrightarrow> False" "wpc s = W_Failed \<Longrightarrow> False" "wpc s = W_Overflow \<Longrightarrow> False"
proof -
  have d: "take m (inp s) @ drop m (inp s) = inp s" for m by simp
  show "wpc s = W_Read \<Longrightarrow> failing c \<and> t = s\<lparr>cnt := -1, wpc := W_Failed\<rparr>
     \<or> (\<exists>d r. \<not> failing c \<and> inp s = d @ r \<and> (d = [] \<longrightarrow> inp s = []) \<and>
          t = s\<lparr>cnt := int (length d), buf := d @ drop (length d) (buf s), inp := r, wpc := W_Release\<rparr>)"
  proof (cases c)
    case (Bytes n)
    assume "wpc s = W_Read"
    let ?m = "min (max 1 n) BUF_SIZE"
    have "drop (length (take ?m (inp s))) (inp s) = drop ?m (inp s)" by (simp add: min_def)
    moreover have "take ?m (inp s) = [] \<longrightarrow> inp s = []" by (auto simp: BUF_SIZE_def min_def max_def)
    ultimately show ?thesis using assms Bytes \<open>wpc s = W_Read\<close> d [of ?m]
      by (intro disjI2 exI [of _ "take ?m (inp s)"] exI [of _ "drop ?m (inp s)"])
        (simp_all add: writer_step_def Let_def)
  qed (use assms in \<open>simp add: writer_step_def\<close>)
qed (use assms in \<open>simp_all add: writer_step_def split: if_splits\<close>)

lemma reader_cases:
  assumes "reader_step c s = Some t"
  obtains (reserve) "rpc s = R_Reserve" "\<not> failing c" "read_sem s > 0" "t = s\<lparr>read_sem := read_sem s - 1, rpc := R_Test\<rparr>"
  | (eof) "rpc s = R_Test" "cnt s = 0" "t = s\<lparr>rpc := R_Detach\<rparr>"
  | (block) "rpc s = R_Test" "cnt s \<noteq> 0" "t = s\<lparr>r_bytes := r_bytes s + cnt s, rpc := R_Write\<rparr>"
  | (partial) n where "rpc s = R_Write" "failing c" "t = s\<lparr>outp := outp s @ take (min n (nat (cnt s) - 1)) (buf s), rpc := R_Failed\<rparr>"
  | (written) "rpc s = R_Write" "\<not> failing c" "t = s\<lparr>outp := outp s @ take (nat (cnt s)) (buf s), rpc := R_Release\<rparr>"
  | (release) "rpc s = R_Release" "\<not> failing c" "t = s\<lparr>write_sem := write_sem s + 1, r_xfrs := r_xfrs s + 1, rpc := R_Reserve\<rparr>"
  | (detach) "rpc s = R_Detach" "\<not> failing c" "t = s\<lparr>rpc := R_LastRelease\<rparr>"
  | (last) "rpc s = R_LastRelease" "\<not> failing c" "t = s\<lparr>write_sem := write_sem s + 1, rpc := R_Exit\<rparr>"
  | (failed) "rpc s \<in> {R_Reserve, R_Release, R_Detach, R_LastRelease}" "failing c" "t = s\<lparr>rpc := R_Failed\<rparr>"
  | (overflow) "rpc s = R_Test" "cnt s \<noteq> 0" "r_bytes s + cnt s > INT_MAX" "t = s\<lparr>rpc := R_Overflow\<rparr>"
proof (cases "rpc s")
  case R_Reserve
  then have m: "rpc s \<in> {R_Reserve, R_Release, R_Detach, R_LastRelease}" by simp
  from reader_stepD(1) [OF assms R_Reserve] show ?thesis by (elim disjE conjE exE) (rule that(1) [OF R_Reserve] that(9) [OF m]; assumption)+
next
  case R_Test
  from reader_stepD(2) [OF assms this] show ?thesis by (elim disjE conjE) (rule that(2,3,10) [OF R_Test]; assumption)+
next
  case R_Write
  from reader_stepD(3) [OF assms R_Write] show ?thesis by (elim disjE conjE exE) (rule that(4) [OF R_Write] that(5) [OF R_Write]; assumption)+
next
  case R_Release
  then have m: "rpc s \<in> {R_Reserve, R_Release, R_Detach, R_LastRelease}" by simp
  from reader_stepD(4) [OF assms R_Release] show ?thesis by (elim disjE conjE exE) (rule that(6) [OF R_Release] that(9) [OF m]; assumption)+
next
  case R_Detach
  then have m: "rpc s \<in> {R_Reserve, R_Release, R_Detach, R_LastRelease}" by simp
  from reader_stepD(5) [OF assms R_Detach] show ?thesis by (elim disjE conjE exE) (rule that(7) [OF R_Detach] that(9) [OF m]; assumption)+
next
  case R_LastRelease
  then have m: "rpc s \<in> {R_Reserve, R_Release, R_Detach, R_LastRelease}" by simp
  from reader_stepD(6) [OF assms R_LastRelease] show ?thesis by (elim disjE conjE exE) (rule that(8) [OF R_LastRelease] that(9) [OF m]; assumption)+
qed (rule FalseE, rule reader_stepD(7-9) [OF assms]; assumption)+

lemma writer_cases:
  assumes "writer_step c s = Some t"
  obtains (reserve) "wpc s = W_Reserve" "\<not> failing c" "write_sem s > 0" "t = s\<lparr>write_sem := write_sem s - 1, wpc := W_Read\<rparr>"
  | (noread) "wpc s = W_Read" "failing c" "t = s\<lparr>cnt := -1, wpc := W_Failed\<rparr>"
  | (read) d r where "wpc s = W_Read" "\<not> failing c" "inp s = d @ r" "d = [] \<longrightarrow> inp s = []"
      "t = s\<lparr>cnt := int (length d), buf := d @ drop (length d) (buf s), inp := r, wpc := W_Release\<rparr>"
  | (release) "wpc s = W_Release" "\<not> failing c" "t = s\<lparr>read_sem := read_sem s + 1, wpc := W_Test\<rparr>"
  | (eof) "wpc s = W_Test" "cnt s = 0" "t = s\<lparr>wpc := W_LastReserve\<rparr>"
  | (again) "wpc s = W_Test" "cnt s \<noteq> 0" "t = s\<lparr>w_xfrs := w_xfrs s + 1, w_bytes := w_bytes s + cnt s, wpc := W_Reserve\<rparr>"
  | (last) "wpc s = W_LastReserve" "\<not> failing c" "write_sem s > 0" "t = s\<lparr>write_sem := write_sem s - 1, wpc := W_Cleanup\<rparr>"
  | (cleanup) "wpc s = W_Cleanup" "\<not> failing c" "t = s\<lparr>wpc := W_Exit\<rparr>"
  | (failed) "wpc s \<in> {W_Reserve, W_Release, W_LastReserve, W_Cleanup}" "failing c" "t = s\<lparr>wpc := W_Failed\<rparr>"
  | (overflow) "wpc s = W_Test" "cnt s \<noteq> 0" "w_bytes s + cnt s > INT_MAX" "t = s\<lparr>wpc := W_Overflow\<rparr>"
proof (cases "wpc s")
  case W_Reserve
  then have m: "wpc s \<in> {W_Reserve, W_Release, W_LastReserve, W_Cleanup}" by simp
  from writer_stepD(1) [OF assms W_Reserve] show ?thesis by (elim disjE conjE exE) (rule that(1) [OF W_Reserve] that(9) [OF m]; assumption)+
next
  case W_Read
  from writer_stepD(2) [OF assms W_Read] show ?thesis by (elim disjE conjE exE) (rule that(2) [OF W_Read] that(3) [OF W_Read]; assumption)+
next
  case W_Release
  then have m: "wpc s \<in> {W_Reserve, W_Release, W_LastReserve, W_Cleanup}" by simp
  from writer_stepD(3) [OF assms W_Release] show ?thesis by (elim disjE conjE exE) (rule that(4) [OF W_Release] that(9) [OF m]; assumption)+
next
  case W_Test
  from writer_stepD(4) [OF assms this] show ?thesis by (elim disjE conjE) (rule that(5,6,10) [OF W_Test]; assumption)+
next
  case W_LastReserve
  then have m: "wpc s \<in> {W_Reserve, W_Release, W_LastReserve, W_Cleanup}" by simp
  from writer_stepD(5) [OF assms W_LastReserve] show ?thesis by (elim disjE conjE exE) (rule that(7) [OF W_LastReserve] that(9) [OF m]; assumption)+
next
  case W_Cleanup
  then have m: "wpc s \<in> {W_Reserve, W_Release, W_LastReserve, W_Cleanup}" by simp
  from writer_stepD(6) [OF assms W_Cleanup] show ?thesis by (elim disjE conjE exE) (rule that(8) [OF W_Cleanup] that(9) [OF m]; assumption)+
qed (rule FalseE, rule writer_stepD(7-9) [OF assms]; assumption)+

lemma tokens_reader:
  assumes "reader_step c s = Some t"
  shows "tokens t \<le> tokens s \<and> (\<not> failing c \<longrightarrow> tokens t = tokens s)"
  using assms by (cases rule: reader_cases) (simp_all add: tokens_def)

lemma tokens_writer:
  assumes "writer_step c s = Some t"
  shows "tokens t \<le> tokens s \<and> (\<not> failing c \<longrightarrow> tokens t = tokens s)"
  using assms by (cases rule: writer_cases) (simp_all add: tokens_def)


lemma phase_reader_failed:
  assumes "phase_ok s" and "rpc s \<noteq> R_Exit"
  shows "phase_ok (s\<lparr>rpc := R_Failed\<rparr>)" and "phase_ok (s\<lparr>outp := x, rpc := R_Failed\<rparr>)"
  using assms by (cases "wpc s"; simp add: phase_ok_def)+

lemma phase_writer_failed:
  assumes "phase_ok s"
  shows "phase_ok (s\<lparr>wpc := W_Failed\<rparr>)" and "wpc s = W_Read \<Longrightarrow> phase_ok (s\<lparr>cnt := -1, wpc := W_Failed\<rparr>)"
  using assms by (cases "rpc s"; simp add: phase_ok_def)+

lemma phase_reader:
  assumes "reader_step c s = Some t" and "phase_ok s" and "tokens s \<le> 1"
  shows "phase_ok t"
  using assms(1)
proof (cases rule: reader_cases)
  case reserve
  then show ?thesis using assms(2,3) by (cases "wpc s"; simp add: phase_ok_def tokens_def)
next
  case release
  then show ?thesis using assms(2,3) by (cases "wpc s"; simp add: phase_ok_def tokens_def)
next
  case last
  then show ?thesis using assms(2,3) by (cases "wpc s"; simp add: phase_ok_def tokens_def)
next
  case (partial n)
  then show ?thesis using phase_reader_failed(2) [OF assms(2)] by simp
next
  case failed
  then have "rpc s \<noteq> R_Exit" by auto
  with failed show ?thesis using phase_reader_failed(1) [OF assms(2)] by simp
qed (use assms(2) in \<open>cases "wpc s"; simp add: phase_ok_def\<close>)+

lemma phase_writer:
  assumes "writer_step c s = Some t" and "phase_ok s" and "tokens s \<le> 1"
  shows "phase_ok t"
  using assms(1)
proof (cases rule: writer_cases)
  case reserve
  then show ?thesis using assms(2,3) by (cases "rpc s"; simp add: phase_ok_def tokens_def)
next
  case (read d r)
  then show ?thesis using assms(2,3) by (cases "rpc s"; cases d; simp add: phase_ok_def tokens_def)
next
  case release
  then show ?thesis using assms(2,3) by (cases "rpc s"; simp add: phase_ok_def tokens_def)
next
  case eof
  then show ?thesis using assms(2,3) by (cases "rpc s"; simp add: phase_ok_def tokens_def)
next
  case again
  then show ?thesis using assms(2,3) by (cases "rpc s"; simp add: phase_ok_def tokens_def)
next
  case last
  then show ?thesis using assms(2,3) by (cases "rpc s"; simp add: phase_ok_def tokens_def; blast)
next
  case cleanup
  then show ?thesis using assms(2,3) by (cases "rpc s"; simp add: phase_ok_def tokens_def)
next
  case overflow
  then show ?thesis using assms(2,3) by (cases "rpc s"; simp add: phase_ok_def tokens_def)
qed (use assms(2) in \<open>simp_all add: phase_writer_failed\<close>)

text \<open>What belongs to the other process: the reader never writes to the segment.\<close>

lemma reader_frame:
  assumes "reader_step c s = Some t"
  shows "wpc t = wpc s \<and> cnt t = cnt s \<and> buf t = buf s \<and> inp t = inp s \<and> w_bytes t = w_bytes s"
  using assms by (cases rule: reader_cases) simp_all

lemma writer_frame:
  assumes "writer_step c s = Some t"
  shows "rpc t = rpc s \<and> outp t = outp s \<and> r_bytes t = r_bytes s \<and> (wpc s \<noteq> W_Read \<longrightarrow> cnt t = cnt s)"
  using assms by (cases rule: writer_cases) simp_all

lemma counts_reader:
  assumes "reader_step c s = Some t" and "sent_ok input s" and "received_ok s" and "data_ok input s"
  shows "sent_ok input t" and "received_ok t"
proof -
  show "sent_ok input t" using reader_frame [OF assms(1)] assms(2) unfolding sent_ok_def by presburger
  show "received_ok t"
    using assms(1)
  proof (cases rule: reader_cases)
    case written
    with assms(4) have "0 \<le> cnt s" "nat (cnt s) \<le> length (buf s)" by (auto simp: data_ok_def full_segment_def)
    with written assms(3) show ?thesis by (simp add: received_ok_def)
  qed (use assms(3) in \<open>auto simp: received_ok_def\<close>)+
qed

lemma counts_writer:
  assumes "writer_step c s = Some t" and "sent_ok input s" and "received_ok s" and "phase_ok s"
  shows "sent_ok input t" and "received_ok t"
proof -
  show "sent_ok input t"
    using assms(1) by (cases rule: writer_cases) (use assms(2) in \<open>auto simp: sent_ok_def\<close>)
  have "rpc s \<noteq> R_Write" if "wpc s = W_Read" using that assms(4) by (auto simp: phase_ok_def)
  then show "received_ok t" using writer_frame [OF assms(1)] assms(3) by (auto simp: received_ok_def)
qed

text \<open>The data invariant is carried over when neither the bytes nor the token counts change.\<close>

lemma data_same:
  assumes "data_ok input s" and "outp t = outp s" "inp t = inp s" "cnt t = cnt s" "buf t = buf s"
    and "full_segment t = full_segment s" and "tokens t = 1 \<Longrightarrow> tokens s = 1"
  shows "data_ok input t"
  using assms by (auto simp: data_ok_def transit_def)

lemma data_reader:
  assumes "reader_step c s = Some t" and "data_ok input s" and "tokens s \<le> 1" and "phase_ok s"
  shows "data_ok input t"
  using assms(1)
proof (cases rule: reader_cases)
  case reserve
  then have "read_sem s = 1" using assms(3) by (simp add: tokens_def)
  with reserve assms(2) show ?thesis by (intro data_same [OF assms(2)]) (simp_all add: full_segment_def tokens_def)
next
  case eof
  with assms(2,3) show ?thesis by (auto simp: data_ok_def transit_def full_segment_def tokens_def)
next
  case block
  then show ?thesis by (intro data_same [OF assms(2)]) (simp_all add: full_segment_def tokens_def)
next
  case (partial n)
  let ?m = "min n (nat (cnt s) - 1)" and ?d = "take (nat (cnt s)) (buf s)"
  from assms(2) partial obtain rest where rest: "outp s @ ?d @ rest = input"
    by (auto simp: data_ok_def transit_def full_segment_def)
  have "take ?m ?d = take ?m (buf s)" by (simp add: take_take min.absorb1 min.coboundedI2)
  then have "take ?m (buf s) @ drop ?m ?d = ?d" by (metis append_take_drop_id)
  with rest have "outp t @ drop ?m ?d @ rest = input" using partial by simp (metis append_assoc)
  moreover have "tokens t \<noteq> 1" "\<not> full_segment t"
    using partial assms(3,4) by (auto simp: tokens_def full_segment_def phase_ok_def)
  ultimately show ?thesis by (auto simp: data_ok_def transit_def)
next
  case written
  then have "\<not> full_segment t" "full_segment s" "tokens t = tokens s"
    using assms(3,4) by (auto simp: tokens_def full_segment_def phase_ok_def)
  then show ?thesis using assms(2) written by (auto simp: data_ok_def transit_def)
next
  case failed
  then have "full_segment t = full_segment s" by (auto simp: full_segment_def)
  moreover have "tokens t = 1 \<Longrightarrow> tokens s = 1" using tokens_reader [OF assms(1)] assms(3) by simp
  ultimately show ?thesis using failed by (intro data_same [OF assms(2)]) simp_all
qed ((intro data_same [OF assms(2)]; simp add: full_segment_def tokens_def)+)

lemma data_writer:
  assumes "writer_step c s = Some t" and "data_ok input s" and "tokens s \<le> 1" and "phase_ok s"
  shows "data_ok input t"
  using assms(1)
proof (cases rule: writer_cases)
  case noread
  then have "\<not> full_segment s" "\<not> full_segment t" "tokens t \<noteq> 1"
    using assms(3,4) by (auto simp: tokens_def full_segment_def phase_ok_def)
  with noread assms(2) show ?thesis by (auto simp: data_ok_def transit_def)
next
  case (read d r)
  then have n: "\<not> full_segment s" "full_segment t" "tokens s = 1"
    using assms(3,4) by (auto simp: tokens_def full_segment_def phase_ok_def)
  with assms(2) have "outp s @ inp s = input" by (auto simp: data_ok_def transit_def)
  then show ?thesis using read n by (auto simp: data_ok_def transit_def)
next
  case release
  then have "full_segment t = full_segment s" "tokens t = tokens s"
    using assms(3) by (auto simp: tokens_def full_segment_def)
  then show ?thesis using release by (intro data_same [OF assms(2)]) simp_all
next
  case failed
  show ?thesis
  proof (cases "wpc s = W_Release")
    case True
    then have "full_segment s" "\<not> full_segment t" "tokens t \<noteq> 1"
      using failed assms(3,4) by (auto simp: tokens_def full_segment_def phase_ok_def)
    then show ?thesis using assms(2) failed by (auto simp: data_ok_def transit_def)
  next
    case False
    then have "full_segment t = full_segment s" using failed by (auto simp: full_segment_def)
    moreover have "tokens t = 1 \<Longrightarrow> tokens s = 1" using tokens_writer [OF assms(1)] assms(3) by simp
    ultimately show ?thesis using failed by (intro data_same [OF assms(2)]) simp_all
  qed
qed ((intro data_same [OF assms(2)]; simp add: full_segment_def tokens_def)+)

lemma xfr_inv_step:
  assumes "xfr_inv input f s" and "xfr_step g s t"
  shows "xfr_inv input (f \<or> g) t"
proof -
  have i: "tokens s \<le> 1" "data_ok input s" "phase_ok s" "sent_ok input s" "received_ok s"
    "\<not> f \<Longrightarrow> tokens s = 1 \<and> wpc s \<noteq> W_Failed \<and> rpc s \<noteq> R_Failed"
    "int (length input) \<le> INT_MAX \<Longrightarrow> wpc s \<noteq> W_Overflow \<and> rpc s \<noteq> R_Overflow"
    using assms(1) by (auto simp: xfr_inv_def)
  from assms(2) show ?thesis
  proof (cases rule: xfr_step.cases)
    case (writer c)
    have "wpc s \<noteq> W_Failed \<Longrightarrow> \<not> failing c \<Longrightarrow> wpc t \<noteq> W_Failed"
      using writer(2) by (cases rule: writer_cases) simp_all
    moreover have "wpc t \<noteq> W_Overflow" if "int (length input) \<le> INT_MAX"
      using writer(2) i(4) i(7) [OF that] that by (cases rule: writer_cases) (simp_all add: sent_ok_def)
    ultimately show ?thesis
      using i writer tokens_writer [OF writer(2)] data_writer [OF writer(2) i(2,1,3)] phase_writer [OF writer(2) i(3,1)]
        counts_writer [OF writer(2) i(4,5,3)] writer_frame [OF writer(2)]
      unfolding xfr_inv_def by (auto intro: order_trans)
  next
    case (reader c)
    have "rpc s \<noteq> R_Failed \<Longrightarrow> \<not> failing c \<Longrightarrow> rpc t \<noteq> R_Failed"
      using reader(2) by (cases rule: reader_cases) simp_all
    moreover have "rpc t \<noteq> R_Overflow" if "int (length input) \<le> INT_MAX"
      using reader(2)
    proof (cases rule: reader_cases)
      case overflow
      with i(2) have "outp s @ take (nat (cnt s)) (buf s) @ rest = input \<Longrightarrow> r_bytes s + cnt s \<le> int (length input)" for rest
        using i(5) by (auto simp: data_ok_def transit_def full_segment_def received_ok_def)
      moreover from overflow i(2) obtain rest where "outp s @ take (nat (cnt s)) (buf s) @ rest = input"
        by (auto simp: data_ok_def transit_def full_segment_def)
      ultimately have "r_bytes s + cnt s \<le> int (length input)" by blast
      with overflow that show ?thesis by simp
    qed (use i(7) [OF that] in simp_all)
    ultimately show ?thesis
      using i reader tokens_reader [OF reader(2)] data_reader [OF reader(2) i(2,1,3)] phase_reader [OF reader(2) i(3,1)]
        counts_reader [OF reader(2) i(4,5,2)] reader_frame [OF reader(2)]
      unfolding xfr_inv_def by (auto intro: order_trans)
  qed
qed

lemma xfr_run_inv: "xfr_run (xfr_start garbage input) n f t \<Longrightarrow> xfr_inv input f t"
  by (induction rule: xfr_run.induct) (auto intro: xfr_inv_start xfr_inv_step)

section \<open>Progress\<close>

fun w_rank :: "wloc \<Rightarrow> nat" where
  "w_rank W_Release = 12" | "w_rank W_Test = 6" | "w_rank W_Reserve = 5" | "w_rank W_Read = 4"
| "w_rank W_LastReserve = 5" | "w_rank W_Cleanup = 4" | "w_rank W_Exit = 3" | "w_rank W_Failed = 0" | "w_rank W_Overflow = 0"

fun r_rank :: "rloc \<Rightarrow> nat" where
  "r_rank R_Reserve = 0" | "r_rank R_Test = 4" | "r_rank R_Write = 3" | "r_rank R_Release = 2"
| "r_rank R_Detach = 3" | "r_rank R_LastRelease = 2" | "r_rank R_Exit = 0" | "r_rank R_Failed = 0" | "r_rank R_Overflow = 0"

text \<open>
  Steps still possible: at most twenty per byte of input, twenty for the end of the input.
\<close>

definition work_left :: "xfr \<Rightarrow> nat" where
  "work_left s = 20 * (length (inp s) + of_bool (wpc s \<in> {W_Reserve, W_Read} \<or> wpc s \<in> {W_Release, W_Test} \<and> cnt s \<noteq> 0))
     + 5 * read_sem s + w_rank (wpc s) + r_rank (rpc s)"

lemma work_decreases:
  assumes "xfr_step False s t"
  shows "work_left t < work_left s"
  using assms
proof (cases rule: xfr_step.cases)
  case (writer c)
  from writer(2) show ?thesis
  proof (cases rule: writer_cases)
    case (read d r)
    then show ?thesis by (cases d) (simp_all add: work_left_def)
  qed (use writer(1) in \<open>simp_all add: work_left_def\<close>)
next
  case (reader c)
  from reader(2) show ?thesis
    by (cases rule: reader_cases) (use reader(1) in \<open>simp_all add: work_left_def\<close>)
qed

lemma xfr_not_stuck:
  assumes "xfr_inv input False s" and "\<not> (wpc s = W_Exit \<and> rpc s = R_Exit)" and "int (length input) \<le> INT_MAX"
  shows "\<exists>t. xfr_step False s t"
proof -
  have w: "writer_step (Bytes 1) s \<noteq> None \<Longrightarrow> ?thesis"
    using xfr_step.writer [of "Bytes 1" s] by auto
  have r: "reader_step (Bytes 1) s \<noteq> None \<Longrightarrow> ?thesis"
    using xfr_step.reader [of "Bytes 1" s] by auto
  have t: "write_sem s + read_sem s + w_token (wpc s) + r_token (rpc s) = 1" and nf: "wpc s \<noteq> W_Failed" "rpc s \<noteq> R_Failed" "wpc s \<noteq> W_Overflow" "rpc s \<noteq> R_Overflow"
    using assms(1,3) by (auto simp: xfr_inv_def tokens_def)
  have p: "rpc s = R_Exit \<Longrightarrow> read_sem s = 0" "wpc s = W_Exit \<Longrightarrow> rpc s = R_Exit"
    using assms(1) by (auto simp: xfr_inv_def phase_ok_def)
  show ?thesis
  proof (cases "wpc s \<in> {W_Reserve, W_LastReserve} \<and> write_sem s = 0 \<or> wpc s = W_Exit")
    case False
    then show ?thesis using nf by (intro w) (cases "wpc s"; simp add: writer_step_def Let_def)
  next
    case True
    then have "rpc s \<noteq> R_Exit" using p assms(2) t by auto
    then show ?thesis using True nf t p(2) by (intro r) (cases "rpc s"; auto simp: reader_step_def)
  qed
qed

lemma run_bounded: "xfr_run s n f t \<Longrightarrow> \<not> f \<Longrightarrow> n + work_left t \<le> work_left s"
proof (induction rule: xfr_run.induct)
  case (step n f t g u)
  then have "work_left u < work_left t" using work_decreases by simp
  with step show ?case by simp
qed simp

section \<open>Properties\<close>

text \<open>
  C14. Turn taking: however the two processes are scheduled and whichever system calls fail,
  the writer is never between taking and passing on its turn while the reader is, so the
  segment is never written while it is being read; and what the reader has written so far
  is always a prefix of the writer's input. A process whose count of bytes overflows at 2 GiB takes no further step
  in the model.
\<close>

theorem transfer_turns:
  assumes "xfr_run (xfr_start garbage input) n f s"
  shows "\<not> (wpc s \<in> {W_Read, W_Release} \<and> rpc s \<in> {R_Test, R_Write, R_Release}) \<and> (\<exists>rest. outp s @ rest = input)"
proof
  note inv = xfr_run_inv [OF assms]
  show "\<not> (wpc s \<in> {W_Read, W_Release} \<and> rpc s \<in> {R_Test, R_Write, R_Release})"
    using inv by (auto simp: xfr_inv_def tokens_def)
  show "\<exists>rest. outp s @ rest = input" using inv by (auto simp: xfr_inv_def data_ok_def)
qed

lemma demo_run: "xfr_run (xfr_start [] ''hi'') 1 False ((xfr_start [] ''hi'')\<lparr>write_sem := 0, wpc := W_Read\<rparr>)"
proof -
  have "xfr_step (failing (Bytes 1)) (xfr_start [] ''hi'') ((xfr_start [] ''hi'')\<lparr>write_sem := 0, wpc := W_Read\<rparr>)"
    by (rule xfr_step.writer) (simp add: writer_step_def xfr_start_def)
  from xfr_run.step [OF xfr_run.start this] show ?thesis by simp
qed

theorem transfer_turns_witness:
  "\<not> (wpc ((xfr_start [] ''hi'')\<lparr>write_sem := 0, wpc := W_Read\<rparr>) \<in> {W_Read, W_Release} \<and>
      rpc ((xfr_start [] ''hi'')\<lparr>write_sem := 0, wpc := W_Read\<rparr>) \<in> {R_Test, R_Write, R_Release})
   \<and> (\<exists>rest. outp ((xfr_start [] ''hi'')\<lparr>write_sem := 0, wpc := W_Read\<rparr>) @ rest = ''hi'')"
  by (rule transfer_turns [OF demo_run])

text \<open>
  C3. The transfer completes: for an input of at most \<^verbatim>\<open>INT_MAX\<close> bytes, beyond which the counts of both processes overflow,
  and without failing system calls every schedule ends after at most
  \<open>20 * (length input + 1) + 5\<close> steps, it cannot end before both processes have exited (no
  deadlock), and then the output is the input and both processes have counted its bytes.
\<close>

theorem transfer_completes:
  assumes "xfr_run (xfr_start garbage input) n False s" and "int (length input) \<le> INT_MAX"
  shows "n \<le> 20 * (length input + 1) + 5 \<and>
    ((\<exists>t. xfr_step False s t) \<or>
     wpc s = W_Exit \<and> rpc s = R_Exit \<and> outp s = input
       \<and> w_bytes s = int (length input) \<and> r_bytes s = int (length input))"
proof
  note inv = xfr_run_inv [OF assms(1)]
  have "work_left (xfr_start garbage input) = 20 * (length input + 1) + 5" by (simp add: work_left_def xfr_start_def)
  with run_bounded [OF assms(1)] show "n \<le> 20 * (length input + 1) + 5" by simp
  show "(\<exists>t. xfr_step False s t) \<or> wpc s = W_Exit \<and> rpc s = R_Exit \<and> outp s = input
       \<and> w_bytes s = int (length input) \<and> r_bytes s = int (length input)"
  proof (cases "wpc s = W_Exit \<and> rpc s = R_Exit")
    case True
    have "tokens s = 1" and p: "phase_ok s" and d: "data_ok input s" "sent_ok input s" "received_ok s"
      using inv by (auto simp: xfr_inv_def)
    have z: "inp s = []" "read_sem s = 0" using True p by (auto simp: phase_ok_def)
    then have out: "outp s = input" using True d(1) \<open>tokens s = 1\<close> by (auto simp: data_ok_def transit_def full_segment_def)
    then have "w_bytes s = int (length input)" "r_bytes s = int (length input)"
      using True d(2,3) z by (simp_all add: sent_ok_def received_ok_def)
    with True out show ?thesis by blast
  next
    case False
    then show ?thesis using xfr_not_stuck [OF inv _ assms(2)] by blast
  qed
qed

text \<open>A complete transfer of two bytes; \<open>True\<close> is a step of the writer.\<close>

fun xfr_exec :: "bool list \<Rightarrow> xfr \<Rightarrow> xfr option" where
  "xfr_exec [] s = Some s"
| "xfr_exec (b # bs) s = (case (if b then writer_step (Bytes 2) s else reader_step (Bytes 2) s) of None \<Rightarrow> None | Some t \<Rightarrow> xfr_exec bs t)"

lemma xfr_exec_run: "xfr_run a n False s \<Longrightarrow> xfr_exec bs s = Some t \<Longrightarrow> xfr_run a (n + length bs) False t"
proof (induction bs arbitrary: n s)
  case (Cons b bs)
  from Cons.prems(2) obtain u where "(if b then writer_step (Bytes 2) s else reader_step (Bytes 2) s) = Some u" and u: "xfr_exec bs u = Some t"
    by (auto split: option.splits)
  then have "xfr_step (failing (Bytes 2)) s u" by (cases b) (simp_all only: if_True if_False xfr_step.writer xfr_step.reader)
  from xfr_run.step [OF Cons.prems(1) this] have "xfr_run a (Suc n) False u" by simp
  from Cons.IH [OF this u] show ?case by simp
qed simp

definition demo_sent :: xfr where
  "demo_sent = \<lparr>wpc = W_Exit, rpc = R_Exit, write_sem = 0, read_sem = 0, cnt = 0, buf = ''hi'', inp = [], outp = ''hi'',
     w_bytes = 2, w_xfrs = 1, r_bytes = 2, r_xfrs = 1\<rparr>"

lemma demo_transfer:
  "xfr_exec (replicate 4 True @ replicate 4 False @ replicate 4 True @ replicate 4 False @ replicate 2 True) (xfr_start [] ''hi'') = Some demo_sent"
  by code_simp

theorem transfer_completes_witness:
  "18 \<le> 20 * (length ''hi'' + 1) + (5 :: nat) \<and> xfr_run (xfr_start [] ''hi'') 18 False demo_sent
     \<and> outp demo_sent = ''hi'' \<and> w_bytes demo_sent = 2 \<and> r_bytes demo_sent = 2"
proof -
  have r: "xfr_run (xfr_start [] ''hi'') 18 False demo_sent" using xfr_exec_run [OF xfr_run.start demo_transfer] by simp
  have "\<not> xfr_step False demo_sent t" for t
    by (auto simp: demo_sent_def writer_step_def reader_step_def elim!: xfr_stepE)
  with transfer_completes [OF r] r show ?thesis by (simp add: INT_MAX_def)
qed

end
