(* ===== verification/Env_Store.thy ===== *)
theory Env_Store
  imports Tlpi_Prelude
begin

text \<open>
  \<^verbatim>\<open>proc/setenv.c\<close>: \<^verbatim>\<open>setenv()\<close> and \<^verbatim>\<open>unsetenv()\<close> on top of \<^verbatim>\<open>environ\<close>, \<^verbatim>\<open>getenv()\<close> and
  \<^verbatim>\<open>putenv()\<close>. The environment is the list of its strings, in order, duplicates included;
  the two C library functions are defined as their manual pages say. Whether \<^verbatim>\<open>malloc()\<close> and
  \<^verbatim>\<open>putenv()\<close> find memory is an argument.
\<close>

section \<open>The environment list\<close>

definition bad_name :: "cstring option \<Rightarrow> bool" where
  "bad_name name \<longleftrightarrow> (case name of None \<Rightarrow> True | Some n \<Rightarrow> n = [] \<or> strchr n (CHR ''='') \<noteq> None)"

text \<open>\<^verbatim>\<open>strncmp(*ep, name, len) == 0 && (*ep)[len] == '='\<close>\<close>

definition names :: "cstring \<Rightarrow> cstring \<Rightarrow> bool" where
  "names name e \<longleftrightarrow> strncmp_eq e name (length name) \<and> cchar e (length name) = CHR ''=''"

definition entry :: "cstring \<Rightarrow> cstring \<Rightarrow> cstring" where
  "entry name val = name @ ''='' @ val"

definition getenv :: "cstring list \<Rightarrow> cstring \<Rightarrow> cstring option" where
  "getenv env name = map_option (drop (Suc (length name))) (find (names name) env)"

text \<open>
  \<^verbatim>\<open>putenv(es)\<close> for a string of the form \<^verbatim>\<open>name=value\<close>: the first definition of the name
  is replaced, otherwise the string is added.
\<close>

fun putenv :: "cstring \<Rightarrow> cstring \<Rightarrow> cstring list \<Rightarrow> cstring list" where
  "putenv name es [] = [es]"
| "putenv name es (e # env) = (if names name e then es # env else e # putenv name es env)"

section \<open>Operations\<close>

datatype env_error = EINVAL_env | ENOMEM_env

fun unset_loop :: "cstring \<Rightarrow> cstring list \<Rightarrow> cstring list" where
  "unset_loop name [] = []"
| "unset_loop name (e # env) = (if names name e then unset_loop name env else e # unset_loop name env)"

definition unsetenv :: "cstring option \<Rightarrow> cstring list \<Rightarrow> (env_error + unit) \<times> cstring list" where
  "unsetenv name env = (if bad_name name then (Inl EINVAL_env, env) else (Inr (), unset_loop (the name) env))"

definition setenv ::
  "bool \<Rightarrow> bool \<Rightarrow> cstring option \<Rightarrow> cstring option \<Rightarrow> bool \<Rightarrow> cstring list \<Rightarrow> (env_error + unit) \<times> cstring list" where
  "setenv malloc_ok putenv_ok name val overwrite env =
     (if bad_name name \<or> val = None then (Inl EINVAL_env, env)
      else if getenv env (the name) \<noteq> None \<and> \<not> overwrite then (Inr (), env)
      else
        let env1 = snd (unsetenv name env);
            es = entry (the name) (the val)
        in if \<not> malloc_ok then (Inl ENOMEM_env, env1)
           else if \<not> putenv_ok then (Inl ENOMEM_env, env1)
           else (Inr (), putenv (the name) es env1))"

section \<open>Lookup\<close>

definition good_name :: "cstring \<Rightarrow> bool" where
  "good_name n \<longleftrightarrow> n \<noteq> [] \<and> CHR ''='' \<notin> set n"

lemma bad_name_Some: "bad_name (Some n) \<longleftrightarrow> \<not> good_name n"
  by (auto simp: bad_name_def good_name_def strchr_None_iff)

lemma names_iff: "names n e \<longleftrightarrow> (\<exists>v. e = entry n v)"
proof
  assume n: "names n e"
  then have "take (length n) e = n" and c: "cchar e (length n) = CHR ''=''"
    by (auto simp: names_def strncmp_eq_prefix')
  moreover from c have "length n < length e" by (auto simp: cchar_def NUL_def split: if_splits)
  ultimately have "e = n @ CHR ''='' # drop (Suc (length n)) e"
    using id_take_nth_drop [of "length n" e] by (simp add: cchar_def)
  then show "\<exists>v. e = entry n v" by (auto simp: entry_def)
qed (auto simp: names_def entry_def strncmp_eq_prefix' cchar_def)

lemma names_entry: "names n (entry n v)"
  using names_iff by blast

lemma names_unique:
  assumes "good_name n" "good_name m" "names n e" "names m e"
  shows "n = m"
proof -
  from assms obtain v w where "n @ CHR ''='' # v = m @ CHR ''='' # w" by (auto simp: names_iff entry_def)
  then have "strchr (n @ CHR ''='' # v) (CHR ''='') = strchr (m @ CHR ''='' # w) (CHR ''='')" by simp
  then show ?thesis using assms(1,2) by (simp add: good_name_def)
qed

lemma unset_loop_filter: "unset_loop n env = filter (\<lambda>e. \<not> names n e) env"
  by (induction env) simp_all

lemma find_filter_other:
  assumes "\<And>e. P e \<Longrightarrow> Q e"
  shows "find P (filter Q env) = find P env"
  using assms by (induction env) auto

lemma getenv_unset: "good_name n \<Longrightarrow> good_name m \<Longrightarrow>
   getenv (unset_loop n env) m = (if m = n then None else getenv env m)"
proof -
  assume g: "good_name n" "good_name m"
  show ?thesis
  proof (cases "m = n")
    case True
    then show ?thesis by (simp add: getenv_def unset_loop_filter find_None_iff)
  next
    case False
    have "find (names m) (filter (\<lambda>e. \<not> names n e) env) = find (names m) env"
      by (rule find_filter_other) (use False g names_unique in blast)
    then show ?thesis using False by (simp add: getenv_def unset_loop_filter)
  qed
qed

lemma putenv_fresh: "\<forall>e\<in>set env. \<not> names n e \<Longrightarrow> putenv n es env = env @ [es]"
  by (induction env) simp_all

lemma getenv_snoc:
  assumes "good_name n" "good_name m"
  shows "getenv (env @ [entry n v]) m = (case getenv env m of None \<Rightarrow> if m = n then Some v else None | Some w \<Rightarrow> Some w)"
proof (induction env)
  case Nil
  then show ?case using names_unique [OF assms(2,1), of "entry n v"] names_entry [of n v] by (auto simp: getenv_def entry_def)
qed (auto simp: getenv_def)

section \<open>The contract of an environment\<close>

locale env_store =
  fixes get :: "'e \<Rightarrow> cstring \<Rightarrow> cstring option"
    and put :: "cstring \<Rightarrow> cstring \<Rightarrow> 'e \<Rightarrow> 'e"
    and del :: "cstring \<Rightarrow> 'e \<Rightarrow> 'e"
  assumes get_put: "good_name n \<Longrightarrow> good_name m \<Longrightarrow> get (put n v e) m = (if m = n then Some v else get e m)"
    and get_del: "good_name n \<Longrightarrow> good_name m \<Longrightarrow> get (del n e) m = (if m = n then None else get e m)"
begin

text \<open>Defining a list of variables in turn: each keeps the value it was given last.\<close>

lemma get_puts:
  assumes "\<forall>(n, v)\<in>set ds. good_name n" and "good_name m"
  shows "get (fold (\<lambda>(n, v). put n v) ds e) m = (case map_of (rev ds) m of None \<Rightarrow> get e m | Some v \<Rightarrow> Some v)"
  using assms
proof (induction ds arbitrary: e)
  case (Cons d ds)
  obtain n v where d: "d = (n, v)" by (cases d)
  with Cons show ?case by (auto simp: get_put map_add_def split: option.splits)
qed simp

lemma put_then_del: "good_name n \<Longrightarrow> good_name m \<Longrightarrow> get e n = None \<Longrightarrow> get (del n (put n v e)) m = get e m"
  by (simp add: get_put get_del)

end

lemma setenv_overwrite: "good_name n \<Longrightarrow>
   setenv True True (Some n) (Some v) True env = (Inr (), unset_loop n env @ [entry n v])"
  by (simp add: setenv_def bad_name_Some unsetenv_def putenv_fresh unset_loop_filter)

interpretation env: env_store getenv "\<lambda>n v env. snd (setenv True True (Some n) (Some v) True env)"
    "\<lambda>n env. snd (unsetenv (Some n) env)"
proof (unfold_locales, goal_cases)
  case (1 n m v e)
  then show ?case by (simp add: setenv_overwrite getenv_snoc getenv_unset split: option.splits)
next
  case (2 n m e)
  then show ?case by (simp add: unsetenv_def bad_name_Some getenv_unset)
qed

section \<open>Properties\<close>

text \<open>
  \<^verbatim>\<open>setenv()\<close> with \<^verbatim>\<open>overwrite\<close>, called for a list of definitions in turn, leaves every
  variable with the value it was given last, and all other variables as they were.
\<close>

theorem setenv_getenv:
  assumes "\<forall>(n, v)\<in>set ds. good_name n" and "good_name m"
  shows "getenv (fold (\<lambda>(n, v) env. snd (setenv True True (Some n) (Some v) True env)) ds env) m
    = (case map_of (rev ds) m of None \<Rightarrow> getenv env m | Some v \<Rightarrow> Some v)"
  using env.get_puts [OF assms, of env] by (simp add: case_prod_beta')

theorem setenv_getenv_witness:
  "getenv (fold (\<lambda>(n, v) env. snd (setenv True True (Some n) (Some v) True env))
      [(''GREET'', ''hi''), (''BYE'', ''x''), (''GREET'', ''yo'')] [''A=1'']) ''GREET''
    = (case map_of (rev [(''GREET'', ''hi''), (''BYE'', ''x''), (''GREET'', ''yo'')]) ''GREET''
       of None \<Rightarrow> getenv [''A=1''] ''GREET'' | Some v \<Rightarrow> Some v)"
  by (rule setenv_getenv) (simp_all add: good_name_def)

text \<open>
  What each call leaves behind: a rejected name or value changes nothing; an existing
  variable is kept when \<^verbatim>\<open>overwrite\<close> is 0; otherwise every definition of the name is gone and
  exactly one, at the end of the list, takes its place; but when memory runs out after that,
  the call fails with the variable removed.
\<close>

theorem setenv_cases:
  "setenv malloc_ok putenv_ok name val overwrite env =
     (if bad_name name \<or> val = None then (Inl EINVAL_env, env)
      else if getenv env (the name) \<noteq> None \<and> \<not> overwrite then (Inr (), env)
      else if malloc_ok \<and> putenv_ok
      then (Inr (), filter (\<lambda>e. \<not> names (the name) e) env @ [entry (the name) (the val)])
      else (Inl ENOMEM_env, filter (\<lambda>e. \<not> names (the name) e) env))"
  by (auto simp: setenv_def unsetenv_def unset_loop_filter putenv_fresh Let_def)

end
