(* ===== verification/Bpf_Machine.thy ===== *)
theory Bpf_Machine
  imports Tlpi_Prelude
begin

text \<open>
  The language of the seccomp filters under \<^verbatim>\<open>src/seccomp/\<close>: classic BPF instructions as
  the \<^verbatim>\<open>BPF_STMT\<close> and \<^verbatim>\<open>BPF_JUMP\<close> macros build them, the data a filter is run on, the
  execution of a filter (documented in seccomp(2) and in the kernel's description of the BPF
  machine; the sources use the eight instruction codes decoded here), and the static check
  that the kernel applies to a filter before it accepts it. A checked filter always returns
  an action: that is the type-correctness result the component theories use.
\<close>

named_theorems bpf_codes \<open>numeric values of the instruction codes and offsets\<close>
named_theorems bpf_eval \<open>execution of single instructions\<close>

section \<open>Instructions\<close>

record sock_filter =
  sf_code :: "16 word"
  sf_jt :: "8 word"
  sf_jf :: "8 word"
  sf_k :: "32 word"

definition BPF_STMT :: "16 word \<Rightarrow> 32 word \<Rightarrow> sock_filter" where
  "BPF_STMT c k = \<lparr> sf_code = c, sf_jt = 0, sf_jf = 0, sf_k = k \<rparr>"

definition BPF_JUMP :: "16 word \<Rightarrow> 32 word \<Rightarrow> 8 word \<Rightarrow> 8 word \<Rightarrow> sock_filter" where
  "BPF_JUMP c k t f = \<lparr> sf_code = c, sf_jt = t, sf_jf = f, sf_k = k \<rparr>"

definition BPF_LD :: "16 word" where [bpf_codes]: "BPF_LD = 0x00"
definition BPF_ALU :: "16 word" where [bpf_codes]: "BPF_ALU = 0x04"
definition BPF_JMP :: "16 word" where [bpf_codes]: "BPF_JMP = 0x05"
definition BPF_RET :: "16 word" where [bpf_codes]: "BPF_RET = 0x06"
definition BPF_W :: "16 word" where [bpf_codes]: "BPF_W = 0x00"
definition BPF_ABS :: "16 word" where [bpf_codes]: "BPF_ABS = 0x20"
definition BPF_ADD :: "16 word" where [bpf_codes]: "BPF_ADD = 0x00"
definition BPF_JA :: "16 word" where [bpf_codes]: "BPF_JA = 0x00"
definition BPF_JEQ :: "16 word" where [bpf_codes]: "BPF_JEQ = 0x10"
definition BPF_JGT :: "16 word" where [bpf_codes]: "BPF_JGT = 0x20"
definition BPF_JGE :: "16 word" where [bpf_codes]: "BPF_JGE = 0x30"
definition BPF_JSET :: "16 word" where [bpf_codes]: "BPF_JSET = 0x40"
definition BPF_K :: "16 word" where [bpf_codes]: "BPF_K = 0x00"

lemma BPF_RET_plus_K [bpf_eval]: "BPF_RET + BPF_K = BPF_RET OR BPF_K"
  by (simp add: bpf_codes)

text \<open>What an instruction does, once its code is decoded; jump distances are counted from the
  instruction that follows.\<close>

datatype bpf_instr =
    Load "32 word"
  | Add "32 word"
  | Goto "32 word"
  | Branch "32 word \<Rightarrow> bool" "8 word" "8 word"
  | Return "32 word"

definition bpf_decode :: "sock_filter \<Rightarrow> bpf_instr option" where
  "bpf_decode i =
     (let c = sf_code i; k = sf_k i; t = sf_jt i; f = sf_jf i in
      if c = 0x20 then Some (Load k)
      else if c = 0x04 then Some (Add k)
      else if c = 0x05 then Some (Goto k)
      else if c = 0x15 then Some (Branch (\<lambda>a. a = k) t f)
      else if c = 0x25 then Some (Branch (\<lambda>a. k < a) t f)
      else if c = 0x35 then Some (Branch (\<lambda>a. k \<le> a) t f)
      else if c = 0x45 then Some (Branch (\<lambda>a. a AND k \<noteq> 0) t f)
      else if c = 0x06 then Some (Return k)
      else None)"

section \<open>The data a filter sees\<close>

record seccomp_data =
  sd_nr :: "32 word"
  sd_arch :: "32 word"
  sd_ip :: "64 word"
  sd_args :: "64 word list"

definition wf_data :: "seccomp_data \<Rightarrow> bool" where
  "wf_data d \<longleftrightarrow> length (sd_args d) = 6"

text \<open>The 32 bits at a byte offset of \<^verbatim>\<open>struct seccomp_data\<close> on a little-endian machine:
  \<^verbatim>\<open>nr\<close> at 0, \<^verbatim>\<open>arch\<close> at 4, \<^verbatim>\<open>instruction_pointer\<close> at 8 and \<^verbatim>\<open>args[i]\<close> at 16 + 8 i.\<close>

definition half_word :: "64 word \<Rightarrow> nat \<Rightarrow> 32 word" where
  "half_word w off = (if off mod 8 = 0 then ucast w else ucast (drop_bit 32 w))"

definition sd_load :: "seccomp_data \<Rightarrow> nat \<Rightarrow> 32 word option" where
  "sd_load d off =
     (if off mod 4 \<noteq> 0 \<or> 64 \<le> off then None
      else if off = 0 then Some (sd_nr d)
      else if off = 4 then Some (sd_arch d)
      else if off < 16 then Some (half_word (sd_ip d) off)
      else if (off - 16) div 8 < length (sd_args d)
        then Some (half_word (sd_args d ! ((off - 16) div 8)) off)
        else None)"

definition off_nr :: "32 word" where [bpf_codes]: "off_nr = 0"
definition off_arch :: "32 word" where [bpf_codes]: "off_arch = 4"
definition off_args :: "nat \<Rightarrow> 32 word" where [bpf_codes]: "off_args i = 16 + 8 * of_nat i"

section \<open>Execution\<close>

text \<open>The rest of the program, the accumulator and the data. Jumps only go forward, so the rest
  of the program shrinks with every instruction. \<open>None\<close> stands for a program that leaves its
  instructions, has an unknown one, or reads outside the data.\<close>

function bpf_exec :: "sock_filter list \<Rightarrow> 32 word \<Rightarrow> seccomp_data \<Rightarrow> 32 word option" where
  "bpf_exec [] a d = None"
| "bpf_exec (i # is) a d =
     (case bpf_decode i of
        None \<Rightarrow> None
      | Some (Load k) \<Rightarrow> (case sd_load d (unat k) of None \<Rightarrow> None | Some v \<Rightarrow> bpf_exec is v d)
      | Some (Add k) \<Rightarrow> bpf_exec is (a + k) d
      | Some (Goto k) \<Rightarrow> bpf_exec (drop (unat k) is) a d
      | Some (Branch p t f) \<Rightarrow> bpf_exec (drop (unat (if p a then t else f)) is) a d
      | Some (Return k) \<Rightarrow> Some k)"
  by pat_completeness auto

termination bpf_exec
  by (relation "measure (\<lambda>(p, a, d). length p)") auto

definition run_filter :: "sock_filter list \<Rightarrow> seccomp_data \<Rightarrow> 32 word option" where
  "run_filter p d = bpf_exec p 0 d"

lemma bpf_exec_simps [bpf_eval]:
  "bpf_exec (BPF_STMT (BPF_LD OR BPF_W OR BPF_ABS) k # p) a d =
     (case sd_load d (unat k) of None \<Rightarrow> None | Some v \<Rightarrow> bpf_exec p v d)"
  "bpf_exec (BPF_STMT (BPF_ALU OR BPF_ADD OR BPF_K) k # p) a d = bpf_exec p (a + k) d"
  "bpf_exec (BPF_STMT (BPF_RET OR BPF_K) k # p) a d = Some k"
  "bpf_exec (BPF_JUMP (BPF_JMP OR BPF_JA) k t f # p) a d = bpf_exec (drop (unat k) p) a d"
  "bpf_exec (BPF_JUMP (BPF_JMP OR BPF_JEQ OR BPF_K) k t f # p) a d =
     bpf_exec (drop (unat (if a = k then t else f)) p) a d"
  "bpf_exec (BPF_JUMP (BPF_JMP OR BPF_JGT OR BPF_K) k t f # p) a d =
     bpf_exec (drop (unat (if k < a then t else f)) p) a d"
  "bpf_exec (BPF_JUMP (BPF_JMP OR BPF_JGE OR BPF_K) k t f # p) a d =
     bpf_exec (drop (unat (if k \<le> a then t else f)) p) a d"
  "bpf_exec (BPF_JUMP (BPF_JMP OR BPF_JSET OR BPF_K) k t f # p) a d =
     bpf_exec (drop (unat (if a AND k \<noteq> 0 then t else f)) p) a d"
  by (simp_all add: bpf_codes BPF_STMT_def BPF_JUMP_def bpf_decode_def)

lemma sd_load_simps [bpf_eval]:
  "sd_load d (unat off_nr) = Some (sd_nr d)"
  "sd_load d (unat off_arch) = Some (sd_arch d)"
  by (simp_all add: sd_load_def bpf_codes)

lemma sd_load_arg:
  assumes "wf_data d" and "i < 6"
  shows "sd_load d (unat (off_args i)) = Some (ucast (sd_args d ! i))"
    and "sd_load d (unat (off_args i + 4)) = Some (ucast (drop_bit 32 (sd_args d ! i)))"
proof -
  have "unat (off_args i) = 16 + 8 * i" and "unat (off_args i + 4) = 20 + 8 * i"
    using assms(2) by (simp_all add: off_args_def unat_word_ariths unat_of_nat)
  moreover have "(16 + 8 * i) mod 4 = 0" "(20 + 8 * i) mod 4 = 0" "(16 + 8 * i) mod 8 = 0"
      "(20 + 8 * i) mod 8 \<noteq> 0" "(20 + 8 * i - 16) div 8 = i"
    by presburger+
  ultimately show "sd_load d (unat (off_args i)) = Some (ucast (sd_args d ! i))"
    and "sd_load d (unat (off_args i + 4)) = Some (ucast (drop_bit 32 (sd_args d ! i)))"
    using assms by (simp_all add: sd_load_def half_word_def wf_data_def)
qed

section \<open>The check before a filter is installed\<close>

text \<open>The position after which \<open>rest\<close> instructions remain: jumps must land on one of them, loads
  must be aligned and inside the data. A program is one to \<^verbatim>\<open>BPF_MAXINSNS\<close> instructions long
  and ends with a return.\<close>

definition instr_ok :: "nat \<Rightarrow> sock_filter \<Rightarrow> bool" where
  "instr_ok rest i =
     (case bpf_decode i of
        None \<Rightarrow> False
      | Some (Load k) \<Rightarrow> unat k mod 4 = 0 \<and> unat k < 64
      | Some (Add k) \<Rightarrow> True
      | Some (Goto k) \<Rightarrow> unat k < rest
      | Some (Branch p t f) \<Rightarrow> unat t < rest \<and> unat f < rest
      | Some (Return k) \<Rightarrow> True)"

definition is_return :: "sock_filter \<Rightarrow> bool" where
  "is_return i \<longleftrightarrow> (case bpf_decode i of Some (Return k) \<Rightarrow> True | _ \<Rightarrow> False)"

fun code_ok :: "sock_filter list \<Rightarrow> bool" where
  "code_ok [] = True"
| "code_ok (i # p) = (instr_ok (length p) i \<and> code_ok p)"

definition BPF_MAXINSNS :: nat where "BPF_MAXINSNS = 4096"

definition seccomp_check_filter :: "sock_filter list \<Rightarrow> bool" where
  "seccomp_check_filter p \<longleftrightarrow>
     p \<noteq> [] \<and> length p \<le> BPF_MAXINSNS \<and> code_ok p \<and> is_return (last p)"

lemma code_ok_drop: "code_ok p \<Longrightarrow> code_ok (drop n p)"
  by (induction p arbitrary: n) (auto simp: drop_Cons split: nat.split)

lemma code_ok_append_return:
  assumes "code_ok p" and "\<And>i n. i \<in> set q \<Longrightarrow> instr_ok (Suc n) i" and "p \<noteq> []"
  shows "code_ok (q @ p)"
  using assms
proof (induction q)
  case (Cons i q)
  then obtain m where "length (q @ p) = Suc m" by (cases p) auto
  with Cons show ?case by (simp del: length_append)
qed simp

lemma sd_load_ok: "wf_data d \<Longrightarrow> off mod 4 = 0 \<Longrightarrow> off < 64 \<Longrightarrow> \<exists>v. sd_load d off = Some v"
  by (auto simp: sd_load_def wf_data_def)

text \<open>A checked program stays checked after any of its instructions, so it cannot get stuck.\<close>

lemma bpf_exec_total:
  assumes "wf_data d" and "code_ok p" and "p \<noteq> []" and "is_return (last p)"
  shows "\<exists>v. bpf_exec p a d = Some v"
  using assms(2-4)
proof (induction "length p" arbitrary: p a rule: less_induct)
  case less
  then obtain i q where p: "p = i # q" by (cases p) auto
  have ok: "instr_ok (length q) i" and cq: "code_ok q" using less.prems p by simp_all
  have jump: "\<exists>v. bpf_exec (drop n q) b d = Some v" if "n < length q" for n b
  proof (rule less.hyps)
    show "length (drop n q) < length p" and "drop n q \<noteq> []" using p that by auto
    show "code_ok (drop n q)" using cq by (rule code_ok_drop)
    have "q \<noteq> []" using that by auto
    then show "is_return (last (drop n q))" using less.prems(3) p that by (simp add: last_drop)
  qed
  have nonret: "q \<noteq> []" if "\<not> is_return i"
    using less.prems(3) p that by auto
  have step: "\<exists>v. bpf_exec q b d = Some v" if "\<not> is_return i" for b
    using jump [of 0 b] nonret [OF that] by simp
  show ?case
  proof (cases "bpf_decode i")
    case None
    with ok show ?thesis by (simp add: instr_ok_def)
  next
    case (Some c)
    then show ?thesis
    proof (cases c)
      case (Load k)
      with Some ok obtain v where "sd_load d (unat k) = Some v"
        using sd_load_ok [OF assms(1), of "unat k"] by (auto simp: instr_ok_def)
      with Some Load step [of v] p show ?thesis by (simp add: is_return_def)
    next
      case (Add k)
      with Some step [of "a + k"] p show ?thesis by (simp add: is_return_def)
    next
      case (Goto k)
      with Some ok jump [of "unat k" a] p show ?thesis by (simp add: instr_ok_def)
    next
      case (Branch f t e)
      with Some ok jump [of "unat t" a] jump [of "unat e" a] p show ?thesis
        by (simp add: instr_ok_def)
    next
      case (Return k)
      with Some p show ?thesis by simp
    qed
  qed
qed

lemma checked_filter_returns:
  "seccomp_check_filter p \<Longrightarrow> wf_data d \<Longrightarrow> \<exists>v. run_filter p d = Some v"
  using bpf_exec_total by (simp add: seccomp_check_filter_def run_filter_def)

declare bpf_exec.simps(2) [simp del]

end
