(* ===== verification/Seccomp_Filters.thy ===== *)
theory Seccomp_Filters
  imports Bpf_Machine
begin

text \<open>
  The filters that the programs under \<^verbatim>\<open>src/seccomp/\<close> install, written with the
  instructions of the sources, and what each of them decides for every system call: the
  architecture check, the calls that are killed, failed with an error, trapped, logged or
  handed to a supervisor. The numbers of actions, architectures and system calls are those of
  the Linux headers for the architecture a program is compiled for.
\<close>

named_theorems seccomp_consts \<open>values of the seccomp and audit constants\<close>
named_theorems filter_defs \<open>definitions of the filters\<close>

section \<open>Constants of the headers\<close>

definition SECCOMP_RET_KILL_PROCESS :: "32 word" where [seccomp_consts]: "SECCOMP_RET_KILL_PROCESS = 0x80000000"
definition SECCOMP_RET_KILL :: "32 word" where [seccomp_consts]: "SECCOMP_RET_KILL = 0"
definition SECCOMP_RET_TRAP :: "32 word" where [seccomp_consts]: "SECCOMP_RET_TRAP = 0x00030000"
definition SECCOMP_RET_ERRNO :: "32 word" where [seccomp_consts]: "SECCOMP_RET_ERRNO = 0x00050000"
definition SECCOMP_RET_USER_NOTIF :: "32 word" where [seccomp_consts]: "SECCOMP_RET_USER_NOTIF = 0x7fc00000"
definition SECCOMP_RET_TRACE :: "32 word" where [seccomp_consts]: "SECCOMP_RET_TRACE = 0x7ff00000"
definition SECCOMP_RET_LOG :: "32 word" where [seccomp_consts]: "SECCOMP_RET_LOG = 0x7ffc0000"
definition SECCOMP_RET_ALLOW :: "32 word" where [seccomp_consts]: "SECCOMP_RET_ALLOW = 0x7fff0000"

definition AUDIT_ARCH_X86_64 :: "32 word" where [seccomp_consts]: "AUDIT_ARCH_X86_64 = 0xC000003E"
definition AUDIT_ARCH_AARCH64 :: "32 word" where [seccomp_consts]: "AUDIT_ARCH_AARCH64 = 0xC00000B7"
definition AUDIT_ARCH_I386 :: "32 word" where [seccomp_consts]: "AUDIT_ARCH_I386 = 0x40000003"

definition X32_SYSCALL_BIT :: "32 word" where [seccomp_consts]: "X32_SYSCALL_BIT = 0x40000000"

definition NR_lseek :: "32 word" where [seccomp_consts]: "NR_lseek = 8"
definition NR_mkdir :: "32 word" where [seccomp_consts]: "NR_mkdir = 83"
definition NR_getppid :: "32 word" where [seccomp_consts]: "NR_getppid = 110"
definition NR_mq_notify_x86_64 :: "32 word" where [seccomp_consts]: "NR_mq_notify_x86_64 = 244"
definition NR_mq_notify_i386 :: "32 word" where [seccomp_consts]: "NR_mq_notify_i386 = 281"
definition NR_mq_notify_x32 :: "32 word" where [seccomp_consts]: "NR_mq_notify_x32 = 527"

definition ENOTSUP_no :: "32 word" where [seccomp_consts]: "ENOTSUP_no = 95"
definition O_WRONLY :: "32 word" where [seccomp_consts]: "O_WRONLY = 1"
definition O_RDWR :: "32 word" where [seccomp_consts]: "O_RDWR = 2"
definition O_CREAT :: "32 word" where [seccomp_consts]: "O_CREAT = 0x40"

text \<open>The two architectures that the programs with \<^verbatim>\<open>#if defined\<close> can be compiled for;
  \<^verbatim>\<open>open()\<close> has no number on AArch64.\<close>

datatype target = X86_64 | AARCH64

fun NR_open :: "target \<Rightarrow> 32 word option" where
  "NR_open X86_64 = Some 2"
| "NR_open AARCH64 = None"

fun NR_openat :: "target \<Rightarrow> 32 word" where
  "NR_openat X86_64 = 257"
| "NR_openat AARCH64 = 56"

abbreviation "LD_W_ABS \<equiv> BPF_LD OR BPF_W OR BPF_ABS"
abbreviation "JEQ_K \<equiv> BPF_JMP OR BPF_JEQ OR BPF_K"
abbreviation "JGE_K \<equiv> BPF_JMP OR BPF_JGE OR BPF_K"
abbreviation "JGT_K \<equiv> BPF_JMP OR BPF_JGT OR BPF_K"
abbreviation "JSET_K \<equiv> BPF_JMP OR BPF_JSET OR BPF_K"
abbreviation "RET_K \<equiv> BPF_RET OR BPF_K"

section \<open>The filters\<close>

text \<open>The boilerplate of \<^verbatim>\<open>seccomp_unotify_mkdir.c\<close> and \<^verbatim>\<open>seccomp_unotify_openat.c\<close>; the
  other programs write the same five instructions out.\<close>

definition X86_64_CHECK_ARCH_AND_LOAD_SYSCALL_NR :: "sock_filter list" where [filter_defs]:
  "X86_64_CHECK_ARCH_AND_LOAD_SYSCALL_NR =
     [BPF_STMT LD_W_ABS off_arch,
      BPF_JUMP JEQ_K AUDIT_ARCH_X86_64 0 2,
      BPF_STMT LD_W_ABS off_nr,
      BPF_JUMP JGE_K X32_SYSCALL_BIT 0 1,
      BPF_STMT RET_K SECCOMP_RET_KILL_PROCESS]"

definition deny_syscall_filter :: "32 word \<Rightarrow> sock_filter list" where [filter_defs]:
  "deny_syscall_filter syscallNum =
     [BPF_STMT LD_W_ABS off_nr,
      BPF_JUMP JEQ_K syscallNum 1 0,
      BPF_STMT RET_K SECCOMP_RET_ALLOW,
      BPF_STMT RET_K SECCOMP_RET_KILL_PROCESS]"

text \<open>The architecture check of \<^verbatim>\<open>seccomp_deny_open.c\<close> and \<^verbatim>\<open>seccomp_control_open.c\<close>.\<close>

fun arch_check :: "target \<Rightarrow> sock_filter list" where
  "arch_check X86_64 =
     [BPF_STMT LD_W_ABS off_arch,
      BPF_JUMP JEQ_K AUDIT_ARCH_X86_64 0 2,
      BPF_STMT LD_W_ABS off_nr,
      BPF_JUMP JGE_K X32_SYSCALL_BIT 0 1,
      BPF_STMT RET_K SECCOMP_RET_KILL_PROCESS]"
| "arch_check AARCH64 =
     [BPF_STMT LD_W_ABS off_arch,
      BPF_JUMP JEQ_K AUDIT_ARCH_AARCH64 1 0,
      BPF_STMT RET_K SECCOMP_RET_KILL_PROCESS,
      BPF_STMT LD_W_ABS off_nr]"

definition deny_open_filter :: "target \<Rightarrow> sock_filter list" where [filter_defs]:
  "deny_open_filter tg =
     arch_check tg
     @ (case NR_open tg of Some n \<Rightarrow> [BPF_JUMP JEQ_K n 2 0] | None \<Rightarrow> [])
     @ [BPF_JUMP JEQ_K (NR_openat tg) 1 0,
        BPF_STMT RET_K SECCOMP_RET_ALLOW,
        BPF_STMT RET_K SECCOMP_RET_KILL_PROCESS]"

definition control_open_filter :: "target \<Rightarrow> sock_filter list" where [filter_defs]:
  "control_open_filter tg =
     arch_check tg
     @ (case NR_open tg of
          Some n \<Rightarrow>
            [BPF_JUMP JEQ_K n 0 2,
             BPF_STMT LD_W_ABS (off_args 1),
             BPF_JUMP (BPF_JMP OR BPF_JA) 3 0 0]
        | None \<Rightarrow> [])
     @ [BPF_JUMP JEQ_K (NR_openat tg) 1 0,
        BPF_STMT RET_K SECCOMP_RET_ALLOW,
        BPF_STMT LD_W_ABS (off_args 2),
        BPF_JUMP JSET_K O_CREAT 0 1,
        BPF_STMT RET_K SECCOMP_RET_KILL_PROCESS,
        BPF_JUMP JSET_K (O_WRONLY OR O_RDWR) 0 1,
        BPF_STMT RET_K (SECCOMP_RET_ERRNO OR ENOTSUP_no),
        BPF_STMT RET_K SECCOMP_RET_ALLOW]"

definition arg64_filter :: "sock_filter list" where [filter_defs]:
  "arg64_filter =
     [BPF_STMT LD_W_ABS off_arch,
      BPF_JUMP JEQ_K AUDIT_ARCH_X86_64 0 2,
      BPF_STMT LD_W_ABS off_nr,
      BPF_JUMP JGE_K X32_SYSCALL_BIT 0 1,
      BPF_STMT RET_K SECCOMP_RET_KILL_PROCESS,
      BPF_JUMP JEQ_K NR_lseek 1 0,
      BPF_STMT RET_K SECCOMP_RET_ALLOW,
      BPF_STMT LD_W_ABS (off_args 1 + 4),
      BPF_JUMP JEQ_K 0 1 0,
      BPF_STMT RET_K (SECCOMP_RET_ERRNO OR 2),
      BPF_STMT LD_W_ABS (off_args 1),
      BPF_JUMP JGT_K 1000 0 1,
      BPF_STMT RET_K (SECCOMP_RET_ERRNO OR 1),
      BPF_STMT RET_K SECCOMP_RET_ALLOW]"

definition multiarch_filter :: "sock_filter list" where [filter_defs]:
  "multiarch_filter =
     [BPF_STMT LD_W_ABS off_arch,
      BPF_JUMP JEQ_K AUDIT_ARCH_X86_64 0 5,
      BPF_STMT LD_W_ABS off_nr,
      BPF_JUMP JEQ_K NR_mq_notify_x86_64 0 1,
      BPF_STMT RET_K (SECCOMP_RET_ERRNO OR NR_mq_notify_x86_64),
      BPF_JUMP JEQ_K (NR_mq_notify_x32 + X32_SYSCALL_BIT) 0 5,
      BPF_STMT RET_K (SECCOMP_RET_ERRNO OR NR_mq_notify_x32),
      BPF_JUMP JEQ_K AUDIT_ARCH_I386 0 4,
      BPF_STMT LD_W_ABS off_nr,
      BPF_JUMP JEQ_K NR_mq_notify_i386 0 1,
      BPF_STMT RET_K (SECCOMP_RET_ERRNO OR NR_mq_notify_i386),
      BPF_STMT RET_K SECCOMP_RET_ALLOW,
      BPF_STMT RET_K SECCOMP_RET_KILL_PROCESS]"

definition perf_filter :: "sock_filter list" where [filter_defs]:
  "perf_filter =
     [BPF_STMT LD_W_ABS off_arch,
      BPF_JUMP JEQ_K AUDIT_ARCH_X86_64 0 2,
      BPF_STMT LD_W_ABS off_nr,
      BPF_JUMP JGE_K X32_SYSCALL_BIT 0 1,
      BPF_STMT RET_K SECCOMP_RET_KILL_PROCESS,
      BPF_JUMP JEQ_K (NR_openat X86_64) 1 0,
      BPF_STMT RET_K SECCOMP_RET_ALLOW,
      BPF_STMT RET_K SECCOMP_RET_KILL_PROCESS]"

definition logging_filter :: "sock_filter list" where [filter_defs]:
  "logging_filter =
     [BPF_STMT LD_W_ABS off_arch,
      BPF_JUMP JEQ_K AUDIT_ARCH_X86_64 0 2,
      BPF_STMT LD_W_ABS off_nr,
      BPF_JUMP JGE_K X32_SYSCALL_BIT 0 1,
      BPF_STMT RET_K SECCOMP_RET_KILL_PROCESS,
      BPF_STMT RET_K SECCOMP_RET_LOG]"

definition trap_sigsys_filter :: "sock_filter list" where [filter_defs]:
  "trap_sigsys_filter =
     [BPF_STMT LD_W_ABS off_arch,
      BPF_JUMP JEQ_K AUDIT_ARCH_X86_64 1 0,
      BPF_STMT RET_K SECCOMP_RET_KILL,
      BPF_STMT LD_W_ABS off_nr,
      BPF_JUMP JGE_K X32_SYSCALL_BIT 0 1,
      BPF_STMT RET_K SECCOMP_RET_KILL_PROCESS,
      BPF_JUMP JEQ_K NR_getppid 0 1,
      BPF_STMT RET_K SECCOMP_RET_TRAP,
      BPF_STMT RET_K SECCOMP_RET_ALLOW]"

definition mkdir_notify_filter :: "sock_filter list" where [filter_defs]:
  "mkdir_notify_filter =
     X86_64_CHECK_ARCH_AND_LOAD_SYSCALL_NR
     @ [BPF_JUMP JEQ_K NR_mkdir 0 1,
        BPF_STMT (BPF_RET + BPF_K) SECCOMP_RET_USER_NOTIF,
        BPF_STMT RET_K SECCOMP_RET_ALLOW]"

definition openat_notify_filter :: "sock_filter list" where [filter_defs]:
  "openat_notify_filter =
     X86_64_CHECK_ARCH_AND_LOAD_SYSCALL_NR
     @ [BPF_JUMP JEQ_K (NR_openat X86_64) 0 1,
        BPF_STMT (BPF_RET + BPF_K) SECCOMP_RET_USER_NOTIF,
        BPF_STMT RET_K SECCOMP_RET_ALLOW]"

text \<open>The second filter: its last entry is filled in from the option \<^verbatim>\<open>-f\<close>.\<close>

definition mkdir_filter2 :: "32 word \<Rightarrow> sock_filter list" where [filter_defs]:
  "mkdir_filter2 secondFilter =
     (let filter = X86_64_CHECK_ARCH_AND_LOAD_SYSCALL_NR
            @ [BPF_JUMP JEQ_K NR_mkdir 1 0,
               BPF_STMT RET_K SECCOMP_RET_ALLOW,
               \<lparr> sf_code = 0, sf_jt = 0, sf_jf = 0, sf_k = 0 \<rparr>];
          retTrace = BPF_STMT (BPF_RET + BPF_K) SECCOMP_RET_TRACE;
          retErrno = BPF_STMT (BPF_RET + BPF_K) (SECCOMP_RET_ERRNO OR ENOTSUP_no)
      in filter[length filter - 1 := (if secondFilter = SECCOMP_RET_ERRNO then retErrno else retTrace)])"

section \<open>Filters of a given length\<close>

record sock_fprog =
  fp_len :: "16 word"
  fp_filter :: "sock_filter list"

text \<open>\<^verbatim>\<open>create_filter()\<close> of \<^verbatim>\<open>seccomp_bench.c\<close>. \<open>alloc n\<close> says whether \<^verbatim>\<open>calloc()\<close> or
  \<^verbatim>\<open>malloc()\<close> finds \<open>n\<close> bytes; a negative count becomes a huge \<^verbatim>\<open>size_t\<close>, or, for -1, an
  empty array before whose start the return instruction is stored. The length field is an
  \<^verbatim>\<open>unsigned short\<close>.\<close>

definition create_filter :: "(int \<Rightarrow> bool) \<Rightarrow> char \<Rightarrow> int \<Rightarrow> 's \<Rightarrow> (sock_fprog, 's) outcome" where
  "create_filter alloc instr icnt s =
     (let load = BPF_STMT LD_W_ABS 0;
          jump = BPF_JUMP JEQ_K 0 0 0;
          add = BPF_STMT (BPF_ALU OR BPF_ADD OR BPF_K) 1;
          ret = BPF_STMT RET_K SECCOMP_RET_ALLOW;
          build = (\<lambda>instruction.
            if icnt = 2 ^ 31 - 1 then Undef
            else let fsize = icnt + 1 in
              if \<not> alloc (8 * uint (word_of_int fsize :: 64 word)) then Exit EXIT_FAILURE s
              else if icnt < 0 then Undef
              else if \<not> alloc 16 then Exit EXIT_FAILURE s
              else Ret \<lparr> fp_len = word_of_int fsize,
                         fp_filter = replicate (nat icnt) instruction @ [ret] \<rparr> s)
      in if instr = CHR ''a'' then build add
         else if instr = CHR ''j'' then build jump
         else if instr = CHR ''l'' then build load
         else Exit EXIT_FAILURE s)"

section \<open>The architecture check\<close>

text \<open>A filter that follows the boilerplate: calls from another architecture, and x32 calls,
  kill the process; the rest of the filter decides on the others.\<close>

definition native :: "seccomp_data \<Rightarrow> bool" where
  "native d \<longleftrightarrow> sd_arch d = AUDIT_ARCH_X86_64 \<and> sd_nr d < X32_SYSCALL_BIT"

lemma x32_bit_not_native: "bit (sd_nr d) 30 \<Longrightarrow> \<not> native d"
proof -
  assume b: "bit (sd_nr d) 30"
  have "2 ^ 30 \<le> uint (sd_nr d)"
  proof (rule ccontr)
    assume "\<not> 2 ^ 30 \<le> uint (sd_nr d)"
    then have "take_bit 30 (uint (sd_nr d)) = uint (sd_nr d)"
      by (simp add: take_bit_int_eq_self)
    moreover have "bit (uint (sd_nr d)) 30" using b by (simp add: bit_uint_iff)
    ultimately show False by (metis bit_take_bit_iff less_irrefl)
  qed
  then have "X32_SYSCALL_BIT \<le> sd_nr d"
    by (simp add: word_le_def seccomp_consts)
  then show ?thesis by (simp add: native_def not_less)
qed

lemma exec_x86_check:
  "bpf_exec (X86_64_CHECK_ARCH_AND_LOAD_SYSCALL_NR @ p) a d =
     (if native d then bpf_exec p (sd_nr d) d else Some SECCOMP_RET_KILL_PROCESS)"
  by (auto simp: X86_64_CHECK_ARCH_AND_LOAD_SYSCALL_NR_def bpf_eval native_def)

lemma exec_arch_check:
  "bpf_exec (arch_check tg @ p) a d =
     (case tg of
        X86_64 \<Rightarrow> if native d then bpf_exec p (sd_nr d) d else Some SECCOMP_RET_KILL_PROCESS
      | AARCH64 \<Rightarrow> if sd_arch d = AUDIT_ARCH_AARCH64 then bpf_exec p (sd_nr d) d
                   else Some SECCOMP_RET_KILL_PROCESS)"
  by (cases tg) (auto simp: bpf_eval native_def)

declare arch_check.simps [simp del]

locale guarded_filter =
  fixes filter :: "sock_filter list" and rule :: "seccomp_data \<Rightarrow> 32 word"
  assumes decides: "wf_data d \<Longrightarrow>
    run_filter filter d = Some (if native d then rule d else SECCOMP_RET_KILL_PROCESS)"
begin

lemma foreign_killed:
  "wf_data d \<Longrightarrow> sd_arch d \<noteq> AUDIT_ARCH_X86_64 \<Longrightarrow> run_filter filter d = Some SECCOMP_RET_KILL_PROCESS"
  by (simp add: decides native_def)

lemma x32_killed:
  "wf_data d \<Longrightarrow> bit (sd_nr d) 30 \<Longrightarrow> run_filter filter d = Some SECCOMP_RET_KILL_PROCESS"
  by (simp add: decides x32_bit_not_native)

lemma passed_native:
  "wf_data d \<Longrightarrow> run_filter filter d = Some v \<Longrightarrow> v \<noteq> SECCOMP_RET_KILL_PROCESS \<Longrightarrow> native d \<and> rule d = v"
  by (auto simp: decides split: if_splits)

end

text \<open>What each filter decides on a native call.\<close>

definition notify_on :: "32 word \<Rightarrow> seccomp_data \<Rightarrow> 32 word" where
  "notify_on n d = (if sd_nr d = n then SECCOMP_RET_USER_NOTIF else SECCOMP_RET_ALLOW)"

definition open_flags_rule :: "32 word \<Rightarrow> 32 word" where
  "open_flags_rule flags =
     (if flags AND O_CREAT \<noteq> 0 then SECCOMP_RET_KILL_PROCESS
      else if flags AND (O_WRONLY OR O_RDWR) \<noteq> 0 then SECCOMP_RET_ERRNO OR ENOTSUP_no
      else SECCOMP_RET_ALLOW)"

definition control_open_rule :: "target \<Rightarrow> seccomp_data \<Rightarrow> 32 word" where
  "control_open_rule tg d =
     (if NR_open tg = Some (sd_nr d) then open_flags_rule (ucast (sd_args d ! 1))
      else if sd_nr d = NR_openat tg then open_flags_rule (ucast (sd_args d ! 2))
      else SECCOMP_RET_ALLOW)"

definition deny_open_rule :: "target \<Rightarrow> seccomp_data \<Rightarrow> 32 word" where
  "deny_open_rule tg d =
     (if NR_open tg = Some (sd_nr d) \<or> sd_nr d = NR_openat tg then SECCOMP_RET_KILL_PROCESS
      else SECCOMP_RET_ALLOW)"

text \<open>The offset of \<^verbatim>\<open>lseek()\<close> read as the signed 64-bit \<^verbatim>\<open>off_t\<close> that the caller passes.\<close>

definition lseek_rule :: "seccomp_data \<Rightarrow> 32 word" where
  "lseek_rule d =
     (let offset = sint (sd_args d ! 1) in
      if sd_nr d \<noteq> NR_lseek then SECCOMP_RET_ALLOW
      else if offset < 0 \<or> 2 ^ 32 \<le> offset then SECCOMP_RET_ERRNO OR 2
      else if 1000 < offset then SECCOMP_RET_ERRNO OR 1
      else SECCOMP_RET_ALLOW)"

definition built_for :: "target \<Rightarrow> seccomp_data \<Rightarrow> bool" where
  "built_for tg d = (case tg of X86_64 \<Rightarrow> native d | AARCH64 \<Rightarrow> sd_arch d = AUDIT_ARCH_AARCH64)"

section \<open>Decisions of the filters\<close>

lemma high_half_zero: "ucast (drop_bit 32 (w :: 64 word)) = (0 :: 32 word) \<longleftrightarrow> uint w < 2 ^ 32"
proof -
  have "uint w div 2 ^ 32 < 2 ^ 32"
    using uint_bounded [of w] by simp
  then have "uint w div 2 ^ 32 mod 2 ^ 32 = uint w div 2 ^ 32"
    by (intro mod_pos_pos_trivial) (simp_all add: pos_imp_zdiv_nonneg_iff)
  then have "uint (ucast (drop_bit 32 w) :: 32 word) = uint w div 2 ^ 32"
    by (simp add: unsigned_ucast_eq take_bit_eq_mod drop_bit_eq_div uint_div_distrib)
  moreover have "uint w div 2 ^ 32 = 0 \<longleftrightarrow> uint w < 2 ^ 32"
    using uint_ge_0 [of w] by (auto simp: zdiv_eq_0_iff)
  ultimately show ?thesis by (metis uint_0_iff)
qed

lemma low_half: "uint w < 2 ^ 32 \<Longrightarrow> uint (ucast (w :: 64 word) :: 32 word) = uint w"
  by (simp add: unsigned_ucast_eq take_bit_int_eq_self)

lemma uint_below_32_sint:
  fixes w :: "64 word"
  shows "uint w < 2 ^ 32 \<longleftrightarrow> 0 \<le> sint w \<and> sint w < 2 ^ 32"
    and "uint w < 2 ^ 32 \<Longrightarrow> uint w = sint w"
proof -
  have s: "- (2 ^ 63) \<le> sint w" "sint w < 2 ^ 63" using sint_ge [of w] sint_lt [of w] by simp_all
  have u: "uint w = sint w mod 2 ^ 64" using uint_sint [of w] by (simp add: take_bit_eq_mod)
  have nonneg: "0 \<le> sint w \<Longrightarrow> uint w = sint w" using s u by simp
  have neg: "uint w = sint w + 2 ^ 64" if "sint w < 0"
  proof -
    have "sint w mod 2 ^ 64 = (sint w + 2 ^ 64) mod 2 ^ 64" by simp
    also have "\<dots> = sint w + 2 ^ 64" using s that by (intro mod_pos_pos_trivial) simp_all
    finally show ?thesis using u by simp
  qed
  show "uint w < 2 ^ 32 \<longleftrightarrow> 0 \<le> sint w \<and> sint w < 2 ^ 32"
    using nonneg neg s by (cases "0 \<le> sint w") auto
  show "uint w < 2 ^ 32 \<Longrightarrow> uint w = sint w"
    using nonneg neg s by (cases "0 \<le> sint w") auto
qed

lemma run_control_open:
  assumes "wf_data d"
  shows "run_filter (control_open_filter tg) d =
    Some (if built_for tg d then control_open_rule tg d else SECCOMP_RET_KILL_PROCESS)"
  by (cases tg)
    (simp_all add: run_filter_def control_open_filter_def exec_arch_check built_for_def
      control_open_rule_def open_flags_rule_def bpf_eval sd_load_arg [OF assms])

lemma run_deny_open:
  "run_filter (deny_open_filter tg) d =
    Some (if built_for tg d then deny_open_rule tg d else SECCOMP_RET_KILL_PROCESS)"
  by (cases tg)
    (simp_all add: run_filter_def deny_open_filter_def exec_arch_check built_for_def
      deny_open_rule_def bpf_eval)

lemma guarded_filterI:
  assumes "f = X86_64_CHECK_ARCH_AND_LOAD_SYSCALL_NR @ p"
    and "\<And>d. wf_data d \<Longrightarrow> bpf_exec p (sd_nr d) d = Some (rule d)"
  shows "guarded_filter f rule"
  using assms by unfold_locales (simp add: run_filter_def exec_x86_check)

interpretation mkdir_notify: guarded_filter mkdir_notify_filter "notify_on NR_mkdir"
  by (rule guarded_filterI [OF mkdir_notify_filter_def]) (simp add: notify_on_def bpf_eval)

interpretation openat_notify: guarded_filter openat_notify_filter "notify_on (NR_openat X86_64)"
  by (rule guarded_filterI [OF openat_notify_filter_def]) (simp add: notify_on_def bpf_eval)

interpretation control_open: guarded_filter "control_open_filter X86_64" "control_open_rule X86_64"
  by unfold_locales (simp add: run_control_open built_for_def)

interpretation deny_open: guarded_filter "deny_open_filter X86_64" "deny_open_rule X86_64"
  by unfold_locales (simp add: run_deny_open built_for_def)

lemma exec_lseek_rule:
  assumes wf: "wf_data d"
  shows "bpf_exec (drop 5 arg64_filter) (sd_nr d) d = Some (lseek_rule d)"
  using low_half [of "sd_args d ! 1"] uint_below_32_sint [of "sd_args d ! 1"]
  by (auto simp: arg64_filter_def bpf_eval sd_load_arg [OF wf] high_half_zero lseek_rule_def
      word_less_def Let_def)

interpretation arg64: guarded_filter arg64_filter lseek_rule
  by (rule guarded_filterI [of _ "drop 5 arg64_filter"]) (simp add: filter_defs, rule exec_lseek_rule)

interpretation perf: guarded_filter perf_filter
  "\<lambda>d. if sd_nr d = NR_openat X86_64 then SECCOMP_RET_KILL_PROCESS else SECCOMP_RET_ALLOW"
  by (rule guarded_filterI [of _ "drop 5 perf_filter"]) (simp_all add: filter_defs bpf_eval)

interpretation logging: guarded_filter logging_filter "\<lambda>d. SECCOMP_RET_LOG"
  by (rule guarded_filterI [of _ "drop 5 logging_filter"]) (simp_all add: filter_defs bpf_eval)

interpretation filter2: guarded_filter "mkdir_filter2 v"
  "\<lambda>d. if sd_nr d \<noteq> NR_mkdir then SECCOMP_RET_ALLOW
       else if v = SECCOMP_RET_ERRNO then SECCOMP_RET_ERRNO OR ENOTSUP_no else SECCOMP_RET_TRACE" for v
  by (rule guarded_filterI [of _ "drop 5 (mkdir_filter2 v)"]) (simp_all add: filter_defs bpf_eval)

lemma run_multiarch:
  "run_filter multiarch_filter d =
     Some (if sd_arch d = AUDIT_ARCH_X86_64 then
             (if sd_nr d = NR_mq_notify_x86_64 then SECCOMP_RET_ERRNO OR NR_mq_notify_x86_64
              else if sd_nr d = NR_mq_notify_x32 OR X32_SYSCALL_BIT then SECCOMP_RET_ERRNO OR NR_mq_notify_x32
              else SECCOMP_RET_ALLOW)
           else if sd_arch d = AUDIT_ARCH_I386 then
             (if sd_nr d = NR_mq_notify_i386 then SECCOMP_RET_ERRNO OR NR_mq_notify_i386
              else SECCOMP_RET_ALLOW)
           else SECCOMP_RET_KILL_PROCESS)"
  by (simp add: run_filter_def multiarch_filter_def bpf_eval seccomp_consts)

lemma run_deny_syscall:
  "run_filter (deny_syscall_filter n) d =
     Some (if sd_nr d = n then SECCOMP_RET_KILL_PROCESS else SECCOMP_RET_ALLOW)"
  by (simp add: run_filter_def deny_syscall_filter_def bpf_eval)

lemma run_trap_sigsys:
  "run_filter trap_sigsys_filter d =
     Some (if sd_arch d \<noteq> AUDIT_ARCH_X86_64 then SECCOMP_RET_KILL
           else if \<not> native d then SECCOMP_RET_KILL_PROCESS
           else if sd_nr d = NR_getppid then SECCOMP_RET_TRAP else SECCOMP_RET_ALLOW)"
  by (auto simp: run_filter_def trap_sigsys_filter_def bpf_eval native_def not_less)

section \<open>Every filter passes the kernel's check\<close>

lemma instr_ok_simps [bpf_eval]:
  "instr_ok n (BPF_STMT LD_W_ABS k) \<longleftrightarrow> unat k mod 4 = 0 \<and> unat k < 64"
  "instr_ok n (BPF_STMT (BPF_ALU OR BPF_ADD OR BPF_K) k)"
  "instr_ok n (BPF_STMT RET_K k)"
  "instr_ok n (BPF_JUMP (BPF_JMP OR BPF_JA) k t f) \<longleftrightarrow> unat k < n"
  "instr_ok n (BPF_JUMP JEQ_K k t f) \<longleftrightarrow> unat t < n \<and> unat f < n"
  "instr_ok n (BPF_JUMP JGT_K k t f) \<longleftrightarrow> unat t < n \<and> unat f < n"
  "instr_ok n (BPF_JUMP JGE_K k t f) \<longleftrightarrow> unat t < n \<and> unat f < n"
  "instr_ok n (BPF_JUMP JSET_K k t f) \<longleftrightarrow> unat t < n \<and> unat f < n"
  "is_return (BPF_STMT RET_K k)"
  by (simp_all add: instr_ok_def is_return_def bpf_codes BPF_STMT_def BPF_JUMP_def bpf_decode_def)

lemma filters_checked:
  "seccomp_check_filter (deny_open_filter tg)"
  "seccomp_check_filter (control_open_filter tg)"
  "seccomp_check_filter arg64_filter"
  "seccomp_check_filter multiarch_filter"
  "seccomp_check_filter perf_filter"
  "seccomp_check_filter logging_filter"
  "seccomp_check_filter trap_sigsys_filter"
  "seccomp_check_filter mkdir_notify_filter"
  "seccomp_check_filter openat_notify_filter"
  "seccomp_check_filter (mkdir_filter2 v)"
  "seccomp_check_filter (deny_syscall_filter n)"
  by (cases tg; simp add: seccomp_check_filter_def filter_defs arch_check.simps bpf_eval BPF_MAXINSNS_def
      off_nr_def off_arch_def off_args_def)+

definition demo_data :: "32 word \<Rightarrow> 64 word list \<Rightarrow> seccomp_data" where
  "demo_data nr args = \<lparr> sd_nr = nr, sd_arch = AUDIT_ARCH_X86_64, sd_ip = 0x401000, sd_args = args \<rparr>"

text \<open>
  The filters of \<^verbatim>\<open>seccomp_control_open.c\<close> and \<^verbatim>\<open>seccomp_deny_open.c\<close>, compiled for either
  architecture. A call made through another architecture or through the x32 ABI kills the
  process. \<^verbatim>\<open>open()\<close> (flags in its second argument) and \<^verbatim>\<open>openat()\<close> (flags in its third) are
  killed when \<^verbatim>\<open>O_CREAT\<close> is given, fail with \<^verbatim>\<open>ENOTSUP\<close> when they ask for writing, and are
  allowed otherwise; the simpler filter kills both. All other calls are allowed.
\<close>

theorem open_filters_decide:
  assumes "wf_data d"
  shows "run_filter (control_open_filter tg) d =
      Some (if \<not> built_for tg d then SECCOMP_RET_KILL_PROCESS
            else if NR_open tg = Some (sd_nr d) then open_flags_rule (ucast (sd_args d ! 1))
            else if sd_nr d = NR_openat tg then open_flags_rule (ucast (sd_args d ! 2))
            else SECCOMP_RET_ALLOW)
    \<and> run_filter (deny_open_filter tg) d =
      Some (if \<not> built_for tg d \<or> NR_open tg = Some (sd_nr d) \<or> sd_nr d = NR_openat tg
            then SECCOMP_RET_KILL_PROCESS else SECCOMP_RET_ALLOW)"
  using assms by (simp add: run_control_open run_deny_open control_open_rule_def deny_open_rule_def)

theorem open_filters_decide_witness:
  "run_filter (control_open_filter X86_64) (demo_data 257 [0, 0, 1, 0, 0, 0]) = Some (0x50000 OR 95)
   \<and> run_filter (control_open_filter X86_64) (demo_data 2 [0, 0x42, 0, 0, 0, 0]) = Some SECCOMP_RET_KILL_PROCESS
   \<and> run_filter (deny_open_filter X86_64) (demo_data 2 [0, 0, 0, 0, 0, 0]) = Some SECCOMP_RET_KILL_PROCESS"
  using open_filters_decide [of "demo_data 257 [0, 0, 1, 0, 0, 0]" X86_64]
    open_filters_decide [of "demo_data 2 [0, 0x42, 0, 0, 0, 0]" X86_64]
    open_filters_decide [of "demo_data 2 [0, 0, 0, 0, 0, 0]" X86_64]
  by (simp add: demo_data_def wf_data_def built_for_def native_def open_flags_rule_def seccomp_consts)

text \<open>
  The filter of \<^verbatim>\<open>seccomp_arg64.c\<close>, which has to test a 64-bit argument in two 32-bit
  halves, decides on the offset of \<^verbatim>\<open>lseek()\<close> as a signed number: offsets from 0 to 1000 are
  allowed, offsets up to 2^32 - 1 fail with error 1, and offsets of 2^32 or more fail with
  error 2. Negative offsets, which are not greater than 1000, fail with error 2 as well.
\<close>

theorem arg64_tests_signed_offset:
  assumes "wf_data d" and "native d"
  shows "run_filter arg64_filter d = Some
    (let offset = sint (sd_args d ! 1) in
     if sd_nr d \<noteq> NR_lseek then SECCOMP_RET_ALLOW
     else if offset < 0 \<or> 2 ^ 32 \<le> offset then SECCOMP_RET_ERRNO OR 2
     else if 1000 < offset then SECCOMP_RET_ERRNO OR 1
     else SECCOMP_RET_ALLOW)"
  using arg64.decides [OF assms(1)] assms(2) by (simp add: lseek_rule_def)

theorem arg64_tests_signed_offset_witness:
  "run_filter arg64_filter (demo_data 8 [3, 0x100000001, 0, 0, 0, 0]) = Some (SECCOMP_RET_ERRNO OR 2)
   \<and> run_filter arg64_filter (demo_data 8 [3, 10000, 0, 0, 0, 0]) = Some (SECCOMP_RET_ERRNO OR 1)
   \<and> run_filter arg64_filter (demo_data 8 [3, 0, 0, 0, 0, 0]) = Some SECCOMP_RET_ALLOW
   \<and> run_filter arg64_filter (demo_data 8 [3, - 1, 0, 0, 0, 0]) = Some (SECCOMP_RET_ERRNO OR 2)"
  using arg64_tests_signed_offset [of "demo_data 8 [3, 0x100000001, 0, 0, 0, 0]"]
    arg64_tests_signed_offset [of "demo_data 8 [3, 10000, 0, 0, 0, 0]"]
    arg64_tests_signed_offset [of "demo_data 8 [3, 0, 0, 0, 0, 0]"]
    arg64_tests_signed_offset [of "demo_data 8 [3, - 1, 0, 0, 0, 0]"]
  by (simp add: demo_data_def wf_data_def native_def seccomp_consts sint_n1)

text \<open>The error number carried by an action, its low 16 bits.\<close>

definition errno_of :: "32 word \<Rightarrow> 32 word" where
  "errno_of action = action AND 0xFFFF"

text \<open>
  The filter of \<^verbatim>\<open>seccomp_multiarch.c\<close> makes \<^verbatim>\<open>mq_notify()\<close> fail with its own number on
  each of the three Intel ABIs (the x32 number without bit 30), allows every other call of
  x86-64, x32 and i386, and kills the process on any other architecture; in particular the
  error that reaches \<^verbatim>\<open>errno\<close> always fits below 4096.
\<close>

theorem multiarch_decides:
  "run_filter multiarch_filter d =
     Some (if sd_arch d = AUDIT_ARCH_X86_64 then
             (if sd_nr d = NR_mq_notify_x86_64 then SECCOMP_RET_ERRNO OR NR_mq_notify_x86_64
              else if sd_nr d = NR_mq_notify_x32 OR X32_SYSCALL_BIT then SECCOMP_RET_ERRNO OR NR_mq_notify_x32
              else SECCOMP_RET_ALLOW)
           else if sd_arch d = AUDIT_ARCH_I386 then
             (if sd_nr d = NR_mq_notify_i386 then SECCOMP_RET_ERRNO OR NR_mq_notify_i386
              else SECCOMP_RET_ALLOW)
           else SECCOMP_RET_KILL_PROCESS)
   \<and> errno_of (SECCOMP_RET_ERRNO OR NR_mq_notify_x86_64) = NR_mq_notify_x86_64 \<and> NR_mq_notify_x86_64 < 4096
   \<and> errno_of (SECCOMP_RET_ERRNO OR NR_mq_notify_x32) = NR_mq_notify_x32 \<and> NR_mq_notify_x32 < 4096
   \<and> errno_of (SECCOMP_RET_ERRNO OR NR_mq_notify_i386) = NR_mq_notify_i386 \<and> NR_mq_notify_i386 < 4096"
  by (intro conjI, rule run_multiarch) (simp_all add: errno_of_def seccomp_consts)

section \<open>Filters of a given length, accepted or not\<close>

text \<open>The instructions that the kernel reads: as many as the length field says.\<close>

definition loaded :: "sock_fprog \<Rightarrow> sock_filter list" where
  "loaded prog = take (unat (fp_len prog)) (fp_filter prog)"

definition bench_instr :: "char \<Rightarrow> sock_filter option" where
  "bench_instr c =
     (if c = CHR ''a'' then Some (BPF_STMT (BPF_ALU OR BPF_ADD OR BPF_K) 1)
      else if c = CHR ''j'' then Some (BPF_JUMP JEQ_K 0 0 0)
      else if c = CHR ''l'' then Some (BPF_STMT LD_W_ABS 0) else None)"

lemma create_filter_RetD:
  assumes "create_filter alloc c icnt s = Ret prog t"
  obtains i where "bench_instr c = Some i" "0 \<le> icnt" "fp_len prog = word_of_int (icnt + 1)"
    "fp_filter prog = replicate (nat icnt) i @ [BPF_STMT RET_K SECCOMP_RET_ALLOW]"
  using assms that by (auto simp: create_filter_def bench_instr_def Let_def split: if_splits)

lemma bench_instr_cases:
  assumes "bench_instr c = Some i"
  obtains "i = BPF_STMT (BPF_ALU OR BPF_ADD OR BPF_K) 1" | "i = BPF_JUMP JEQ_K 0 0 0" | "i = BPF_STMT LD_W_ABS 0"
  using assms that by (auto simp: bench_instr_def split: if_splits)

lemma bench_instr_not_return: "bench_instr c = Some i \<Longrightarrow> \<not> is_return i"
  by (erule bench_instr_cases)
    (simp_all add: is_return_def bpf_decode_def BPF_STMT_def BPF_JUMP_def bpf_codes)

lemma bench_instr_ok: "bench_instr c = Some i \<Longrightarrow> instr_ok (Suc n) i"
  by (erule bench_instr_cases) (simp_all add: bpf_eval)

lemma bench_instr_exec: "bench_instr c = Some i \<Longrightarrow> \<exists>b. bpf_exec (i # p) a d = bpf_exec p b d"
  using sd_load_simps(1) [of d]
  by (erule_tac bench_instr_cases) (auto simp: bpf_eval off_nr_def)

lemma replicate_exec:
  assumes "bench_instr c = Some i"
  shows "\<exists>b. bpf_exec (replicate n i @ p) a d = bpf_exec p b d"
proof (induction n arbitrary: a)
  case (Suc n)
  obtain b where "bpf_exec (i # replicate n i @ p) a d = bpf_exec (replicate n i @ p) b d"
    using bench_instr_exec [OF assms] by blast
  with Suc [of b] show ?case by auto
qed auto

lemma unat_len: "unat (word_of_int n :: 16 word) = nat (n mod 65536)"
proof -
  have "uint (word_of_int n :: 16 word) = n mod 2 ^ 16"
    by (simp only: uint_word_of_int) simp
  then show ?thesis by (simp add: unat_eq_nat_uint)
qed

lemma long_bench_filter_rejected:
  assumes i: "bench_instr c = Some i" and "4096 \<le> icnt" and len: "fp_len prog = word_of_int (icnt + 1)"
    and f: "fp_filter prog = replicate (nat icnt) i @ [BPF_STMT RET_K SECCOMP_RET_ALLOW]"
  shows "\<not> seccomp_check_filter (loaded prog)"
proof
  assume ok: "seccomp_check_filter (loaded prog)"
  define m where "m = nat ((icnt + 1) mod 65536)"
  have m: "m \<le> nat (icnt + 1)" using assms(2) by (simp add: m_def zmod_le_nonneg_dividend nat_mono)
  have "loaded prog = take m (fp_filter prog)" by (simp only: loaded_def len unat_len m_def)
  then have l: "length (loaded prog) = m" using m f assms(2) by (simp add: nat_add_distrib)
  then have m1: "0 < m" "m \<le> 4096" using ok by (auto simp: seccomp_check_filter_def BPF_MAXINSNS_def)
  then have "loaded prog = replicate m i"
    using assms(2) f \<open>loaded prog = take m (fp_filter prog)\<close> by (simp add: min_def nat_le_iff)
  then have "last (loaded prog) = i" using m1 by simp
  with ok bench_instr_not_return [OF i] show False by (simp add: seccomp_check_filter_def)
qed

lemma short_bench_filter_accepted:
  assumes i: "bench_instr c = Some i" and "0 \<le> icnt" "icnt < 4096"
    and len: "fp_len prog = word_of_int (icnt + 1)"
    and f: "fp_filter prog = replicate (nat icnt) i @ [BPF_STMT RET_K SECCOMP_RET_ALLOW]"
  shows "seccomp_check_filter (loaded prog)" and "run_filter (loaded prog) d = Some SECCOMP_RET_ALLOW"
proof -
  have "nat ((icnt + 1) mod 65536) = nat icnt + 1" using assms(2,3) by (simp add: nat_add_distrib)
  then have ld: "loaded prog = replicate (nat icnt) i @ [BPF_STMT RET_K SECCOMP_RET_ALLOW]"
    by (simp only: loaded_def len unat_len f) simp
  have "code_ok (loaded prog)"
    unfolding ld by (rule code_ok_append_return) (auto simp: bench_instr_ok [OF i] bpf_eval)
  then show "seccomp_check_filter (loaded prog)"
    using assms(2,3) by (simp add: seccomp_check_filter_def ld BPF_MAXINSNS_def bpf_eval)
  show "run_filter (loaded prog) d = Some SECCOMP_RET_ALLOW"
    using replicate_exec [OF i, of "nat icnt" "[BPF_STMT RET_K SECCOMP_RET_ALLOW]" 0 d]
    by (auto simp: run_filter_def ld bpf_eval)
qed

text \<open>
  A filter built by \<^verbatim>\<open>create_filter()\<close> of \<^verbatim>\<open>seccomp_bench.c\<close> is accepted by the kernel
  exactly when fewer than 4096 instructions were asked for: it then allows every system call.
  A longer one is always refused, also when its length wraps around in the 16-bit length field
  of the program (a short prefix is then read, which does not end with a return).
\<close>

theorem bench_filter_accepted:
  assumes "create_filter alloc instr icnt s = Ret prog t"
  shows "(seccomp_check_filter (loaded prog) \<longleftrightarrow> icnt < 4096)
    \<and> (icnt < 4096 \<longrightarrow> run_filter (loaded prog) d = Some SECCOMP_RET_ALLOW)"
proof -
  obtain i where "bench_instr instr = Some i" "0 \<le> icnt" "fp_len prog = word_of_int (icnt + 1)"
    "fp_filter prog = replicate (nat icnt) i @ [BPF_STMT RET_K SECCOMP_RET_ALLOW]"
    using assms by (rule create_filter_RetD)
  then show ?thesis
    using long_bench_filter_rejected short_bench_filter_accepted by (meson linorder_not_less)
qed

theorem bench_filter_accepted_witness:
  "\<not> seccomp_check_filter (loaded \<lparr> fp_len = 1, fp_filter =
       replicate 65536 (BPF_JUMP JEQ_K 0 0 0) @ [BPF_STMT RET_K SECCOMP_RET_ALLOW] \<rparr>)
   \<and> seccomp_check_filter (loaded \<lparr> fp_len = 3, fp_filter =
       replicate 2 (BPF_STMT (BPF_ALU OR BPF_ADD OR BPF_K) 1) @ [BPF_STMT RET_K SECCOMP_RET_ALLOW] \<rparr>)"
proof -
  have "create_filter (\<lambda>n. True) CHR ''j'' 65536 () = Ret \<lparr> fp_len = 1, fp_filter =
       replicate 65536 (BPF_JUMP JEQ_K 0 0 0) @ [BPF_STMT RET_K SECCOMP_RET_ALLOW] \<rparr> ()"
    and "create_filter (\<lambda>n. True) CHR ''a'' 2 () = Ret \<lparr> fp_len = 3, fp_filter =
       replicate 2 (BPF_STMT (BPF_ALU OR BPF_ADD OR BPF_K) 1) @ [BPF_STMT RET_K SECCOMP_RET_ALLOW] \<rparr> ()"
    by (simp_all add: create_filter_def)
  from this [THEN bench_filter_accepted] show ?thesis by simp
qed

section \<open>The filters of the programs and their verdicts\<close>

text \<open>The table of the filters that are written in the sources, each with the verdict that the
  program wants on a system call. The x86-64 programs kill the process on a call of another
  architecture or of the x32 ABI before anything else is decided.\<close>

definition x86_only :: "(seccomp_data \<Rightarrow> 32 word) \<Rightarrow> seccomp_data \<Rightarrow> 32 word" where
  "x86_only verdict d = (if native d then verdict d else SECCOMP_RET_KILL_PROCESS)"

definition verdict_table ::
    "target \<Rightarrow> 32 word \<Rightarrow> 32 word \<Rightarrow> (sock_filter list \<times> (seccomp_data \<Rightarrow> 32 word)) list" where
  "verdict_table tg secondFilter syscallNum =
     [(deny_open_filter tg, \<lambda>d. if built_for tg d then deny_open_rule tg d else SECCOMP_RET_KILL_PROCESS),
      (control_open_filter tg, \<lambda>d. if built_for tg d then control_open_rule tg d else SECCOMP_RET_KILL_PROCESS),
      (arg64_filter, x86_only lseek_rule),
      (multiarch_filter, \<lambda>d.
         if sd_arch d = AUDIT_ARCH_X86_64 \<and> sd_nr d = NR_mq_notify_x86_64
         then SECCOMP_RET_ERRNO OR NR_mq_notify_x86_64
         else if sd_arch d = AUDIT_ARCH_X86_64 \<and> sd_nr d = NR_mq_notify_x32 OR X32_SYSCALL_BIT
         then SECCOMP_RET_ERRNO OR NR_mq_notify_x32
         else if sd_arch d = AUDIT_ARCH_I386 \<and> sd_nr d = NR_mq_notify_i386
         then SECCOMP_RET_ERRNO OR NR_mq_notify_i386
         else if sd_arch d = AUDIT_ARCH_X86_64 \<or> sd_arch d = AUDIT_ARCH_I386
         then SECCOMP_RET_ALLOW else SECCOMP_RET_KILL_PROCESS),
      (perf_filter, x86_only (\<lambda>d.
         if sd_nr d = NR_openat X86_64 then SECCOMP_RET_KILL_PROCESS else SECCOMP_RET_ALLOW)),
      (logging_filter, x86_only (\<lambda>d. SECCOMP_RET_LOG)),
      (trap_sigsys_filter, \<lambda>d.
         if sd_arch d \<noteq> AUDIT_ARCH_X86_64 then SECCOMP_RET_KILL
         else x86_only (\<lambda>d. if sd_nr d = NR_getppid then SECCOMP_RET_TRAP else SECCOMP_RET_ALLOW) d),
      (mkdir_notify_filter, x86_only (notify_on NR_mkdir)),
      (openat_notify_filter, x86_only (notify_on (NR_openat X86_64))),
      (mkdir_filter2 secondFilter, x86_only (\<lambda>d.
         if sd_nr d \<noteq> NR_mkdir then SECCOMP_RET_ALLOW
         else if secondFilter = SECCOMP_RET_ERRNO then SECCOMP_RET_ERRNO OR ENOTSUP_no
         else SECCOMP_RET_TRACE)),
      (deny_syscall_filter syscallNum, \<lambda>d.
         if sd_nr d = syscallNum then SECCOMP_RET_KILL_PROCESS else SECCOMP_RET_ALLOW)]"

lemma verdict_table_right:
  assumes "wf_data d"
  shows "\<forall>(p, verdict) \<in> set (verdict_table tg secondFilter syscallNum).
    seccomp_check_filter p \<and> run_filter p d = Some (verdict d)"
  by (simp add: verdict_table_def x86_only_def filters_checked run_control_open run_deny_open
      run_multiarch run_deny_syscall run_trap_sigsys arg64.decides perf.decides logging.decides
      mkdir_notify.decides openat_notify.decides filter2.decides assms seccomp_consts)

text \<open>
  C31. The filters written in the seccomp programs (except for the one program that installs
  whatever a file holds) do what they are meant to. Each filter of the table, for both
  architectures a program can be compiled for and for every value of its parameters, passes the
  check the kernel makes before it accepts a filter (known instructions, forward jumps inside the
  program, aligned loads inside the data, a final return, at most 4096 instructions) and returns
  on every system call, a well-formed \<^verbatim>\<open>seccomp_data\<close> with six arguments, exactly the verdict
  of the table. A filter that \<^verbatim>\<open>create_filter()\<close> of \<^verbatim>\<open>seccomp_bench.c\<close> builds passes the check
  exactly when fewer than 4096 instructions were asked for, and then allows every call.
\<close>

theorem installed_filters_return:
  assumes "wf_data d"
  shows "(\<forall>(p, verdict) \<in> set (verdict_table tg secondFilter syscallNum).
      seccomp_check_filter p \<and> run_filter p d = Some (verdict d))
    \<and> (\<forall>prog t. create_filter alloc instr icnt s = Ret prog t \<longrightarrow>
      seccomp_check_filter (loaded prog) = (icnt < 4096)
      \<and> (icnt < 4096 \<longrightarrow> run_filter (loaded prog) d = Some SECCOMP_RET_ALLOW))"
proof (intro conjI allI impI)
  show "\<forall>(p, verdict) \<in> set (verdict_table tg secondFilter syscallNum).
      seccomp_check_filter p \<and> run_filter p d = Some (verdict d)"
    using assms by (rule verdict_table_right)
next
  fix prog t assume built: "create_filter alloc instr icnt s = Ret prog t"
  then obtain i where "bench_instr instr = Some i" "0 \<le> icnt" "fp_len prog = word_of_int (icnt + 1)"
    "fp_filter prog = replicate (nat icnt) i @ [BPF_STMT RET_K SECCOMP_RET_ALLOW]"
    by (rule create_filter_RetD)
  then show "seccomp_check_filter (loaded prog) = (icnt < 4096)"
    and "icnt < 4096 \<Longrightarrow> run_filter (loaded prog) d = Some SECCOMP_RET_ALLOW"
    using long_bench_filter_rejected short_bench_filter_accepted by (meson linorder_not_less)+
qed

theorem installed_filters_return_witness:
  "run_filter (control_open_filter X86_64) (demo_data 257 [0, 0, 1, 0, 0, 0]) = Some (0x50000 OR 95)
   \<and> run_filter trap_sigsys_filter (demo_data 110 [0, 0, 0, 0, 0, 0]) = Some SECCOMP_RET_TRAP
   \<and> run_filter perf_filter (demo_data 257 [0, 0, 0, 0, 0, 0]) = Some SECCOMP_RET_KILL_PROCESS
   \<and> run_filter (loaded \<lparr> fp_len = 3, fp_filter =
       replicate 2 (BPF_STMT (BPF_ALU OR BPF_ADD OR BPF_K) 1) @ [BPF_STMT RET_K SECCOMP_RET_ALLOW] \<rparr>)
       (demo_data 257 [0, 0, 1, 0, 0, 0]) = Some SECCOMP_RET_ALLOW"
proof -
  have built: "create_filter (\<lambda>n. True) CHR ''a'' 2 () = Ret \<lparr> fp_len = 3, fp_filter =
       replicate 2 (BPF_STMT (BPF_ALU OR BPF_ADD OR BPF_K) 1) @ [BPF_STMT RET_K SECCOMP_RET_ALLOW] \<rparr> ()"
    by (simp add: create_filter_def)
  show ?thesis
    using installed_filters_return [of "demo_data 257 [0, 0, 1, 0, 0, 0]" X86_64 0 0 "\<lambda>n. True" "CHR ''a''" 2 "()"]
      installed_filters_return [of "demo_data 110 [0, 0, 0, 0, 0, 0]" X86_64 0 0 "\<lambda>n. True" "CHR ''a''" 2 "()"]
      installed_filters_return [of "demo_data 257 [0, 0, 0, 0, 0, 0]" X86_64 0 0 "\<lambda>n. True" "CHR ''a''" 2 "()"]
    unfolding built
    by (simp add: verdict_table_def x86_only_def demo_data_def wf_data_def built_for_def native_def
        control_open_rule_def open_flags_rule_def seccomp_consts)
qed

end
