(* ===== verification/Seccomp_Notify.thy ===== *)
theory Seccomp_Notify
  imports Seccomp_Filters
begin

text \<open>
  The supervisors of \<^verbatim>\<open>seccomp_unotify_mkdir.c\<close> and \<^verbatim>\<open>seccomp_unotify_openat.c\<close> with the
  helper functions of \<^verbatim>\<open>seccomp_functions.c\<close>: fetching the pathname from the memory of the
  target, deciding on a response, sending it. The kernel is an argument: a record of the
  system calls used, over an opaque state \<open>'w\<close>. The model keeps a log of the calls that
  matter, so that theorems can speak about what the supervisor did and in which order.
\<close>

section \<open>The kernel as the supervisors see it\<close>

record seccomp_notif =
  nf_id :: "64 word"
  nf_pid :: int
  nf_data :: seccomp_data

record seccomp_notif_resp =
  rs_id :: "64 word"
  rs_val :: int
  rs_error :: int
  rs_flags :: "32 word"

record seccomp_notif_addfd =
  af_id :: "64 word"
  af_srcfd :: int
  af_newfd :: int
  af_setfd :: bool
  af_cloexec :: bool

text \<open>Error numbers are positive integers; \<open>Inl e\<close> and \<open>Some e\<close> stand for -1 with \<^verbatim>\<open>errno\<close> set
  to \<open>e\<close>. \<open>sys_id_valid\<close> is \<^verbatim>\<open>SECCOMP_IOCTL_NOTIF_ID_VALID\<close>.\<close>

record 'w notif_os =
  sys_notif_sizes :: "'w \<Rightarrow> (int + (nat \<times> nat)) \<times> 'w"
  sys_malloc :: "nat \<Rightarrow> 'w \<Rightarrow> bool \<times> 'w"
  sys_notif_recv :: "'w \<Rightarrow> (int + seccomp_notif) \<times> 'w"
  sys_id_valid :: "64 word \<Rightarrow> 'w \<Rightarrow> bool \<times> 'w"
  sys_notif_send :: "seccomp_notif_resp \<Rightarrow> 'w \<Rightarrow> int option \<times> 'w"
  sys_notif_addfd :: "seccomp_notif_addfd \<Rightarrow> 'w \<Rightarrow> (int + int) \<times> 'w"
  sys_open_mem :: "int \<Rightarrow> 'w \<Rightarrow> int option \<times> 'w"
  sys_pread :: "int \<Rightarrow> nat \<Rightarrow> 64 word \<Rightarrow> 'w \<Rightarrow> cstring option \<times> 'w"
  sys_close :: "int \<Rightarrow> 'w \<Rightarrow> 'w"
  sys_sleep :: "'w \<Rightarrow> 'w"
  sys_mkdir :: "cstring \<Rightarrow> 32 word \<Rightarrow> 'w \<Rightarrow> int option \<times> 'w"
  sys_openat :: "64 word \<Rightarrow> cstring \<Rightarrow> 64 word \<Rightarrow> 64 word \<Rightarrow> 'w \<Rightarrow> (int + int) \<times> 'w"

text \<open>\<^verbatim>\<open>pread(2)\<close> never stores more bytes than the buffer holds.\<close>

definition pread_bounded :: "'w notif_os \<Rightarrow> bool" where
  "pread_bounded os \<longleftrightarrow> (\<forall>fd len a w bs w'. sys_pread os fd len a w = (Some bs, w') \<longrightarrow> length bs \<le> len)"

datatype sup_event =
    Received seccomp_notif
  | Checked "64 word" bool
  | Opened int
  | Read "64 word" cstring
  | Closed int
  | Unexpected "32 word"
  | Mkdir cstring "32 word" "int option"
  | Openat "64 word" cstring "64 word" "64 word"
  | Addfd seccomp_notif_addfd
  | Sent seccomp_notif_resp "int option"

text \<open>The state of a supervisor: the kernel, its array \<^verbatim>\<open>path[PATH_MAX]\<close>, and the log.\<close>

record 'w sup =
  world :: 'w
  path_buf :: cstring
  slog :: "sup_event list"

definition logged :: "sup_event \<Rightarrow> 'w \<Rightarrow> 'w sup \<Rightarrow> 'w sup" where
  "logged e w s = s\<lparr> world := w, slog := slog s @ [e] \<rparr>"

definition EINTR_no :: int where "EINTR_no = 4"
definition EINVAL_no :: int where "EINVAL_no = 22"
definition EOPNOTSUPP_no :: int where "EOPNOTSUPP_no = 95"
definition PATH_MAX_no :: nat where "PATH_MAX_no = 4096"
definition SIZEOF_NOTIF_RESP :: nat where "SIZEOF_NOTIF_RESP = 24"
definition SECCOMP_USER_NOTIF_FLAG_CONTINUE :: "32 word" where "SECCOMP_USER_NOTIF_FLAG_CONTINUE = 1"

text \<open>The C string that starts in an array of bytes.\<close>

definition cstr :: "cstring \<Rightarrow> cstring" where
  "cstr buf = takeWhile (\<lambda>c. c \<noteq> NUL) buf"

section \<open>seccomp\_functions.c\<close>

definition GTP_BAD_READ :: int where "GTP_BAD_READ = -1"
definition GTP_ID_NOT_VALID :: int where "GTP_ID_NOT_VALID = -2"
definition GTP_BAD_PATH :: int where "GTP_BAD_PATH = -3"

definition cookieIsValid :: "'w notif_os \<Rightarrow> 64 word \<Rightarrow> 'w sup \<Rightarrow> bool \<times> 'w sup" where
  "cookieIsValid os cookie s =
     (let (ok, w) = sys_id_valid os cookie (world s) in (ok, logged (Checked cookie ok) w s))"

definition close_fd :: "'w notif_os \<Rightarrow> int \<Rightarrow> 'w sup \<Rightarrow> 'w sup" where
  "close_fd os fd s = logged (Closed fd) (sys_close os fd (world s)) s"

text \<open>\<^verbatim>\<open>strnlen(path, nread) < nread\<close>: the bytes read contain a null byte. A read that fails
  leaves the buffer alone, one that succeeds overwrites its beginning.\<close>

definition accept_path :: "'w notif_os \<Rightarrow> seccomp_notif \<Rightarrow> cstring \<Rightarrow> 'w sup \<Rightarrow> int \<times> 'w sup" where
  "accept_path os req bs s =
     (if bs = [] then (GTP_BAD_READ, s)
      else
        let (valid, s) = cookieIsValid os (nf_id req) s
        in if \<not> valid then (GTP_ID_NOT_VALID, s)
           else if NUL \<in> set bs then (0, s) else (GTP_BAD_PATH, s))"

definition read_path ::
  "'w notif_os \<Rightarrow> seccomp_notif \<Rightarrow> nat \<Rightarrow> nat \<Rightarrow> int \<Rightarrow> 'w sup \<Rightarrow> int \<times> 'w sup" where
  "read_path os req argNum len procMemFd s =
     (let addr = sd_args (nf_data req) ! argNum in
      case sys_pread os procMemFd len addr (world s) of
        (None, w) \<Rightarrow> (GTP_BAD_READ, close_fd os procMemFd (s\<lparr> world := w \<rparr>))
      | (Some bs, w) \<Rightarrow>
          accept_path os req bs (close_fd os procMemFd
            (logged (Read addr bs) w (s\<lparr> path_buf := bs @ drop (length bs) (path_buf s) \<rparr>))))"

definition getTargetPathname ::
  "'w notif_os \<Rightarrow> seccomp_notif \<Rightarrow> nat \<Rightarrow> nat \<Rightarrow> 'w sup \<Rightarrow> int \<times> 'w sup" where
  "getTargetPathname os req argNum len s =
     (case sys_open_mem os (nf_pid req) (world s) of
        (None, w) \<Rightarrow> (GTP_BAD_READ, s\<lparr> world := w \<rparr>)
      | (Some procMemFd, w) \<Rightarrow>
          let (valid, s) = cookieIsValid os (nf_id req) (logged (Opened procMemFd) w s)
          in if \<not> valid then (GTP_ID_NOT_VALID, close_fd os procMemFd s)
             else read_path os req argNum len procMemFd s)"

text \<open>\<^verbatim>\<open>allocSeccompNotifBuffers()\<close> returns the size of the request structure and whether the
  response buffer exists: its test \<^verbatim>\<open>resp == NULL\<close> looks at the parameter, which is never
  null, instead of \<^verbatim>\<open>*resp\<close>.\<close>

definition allocSeccompNotifBuffers :: "'w notif_os \<Rightarrow> 'w sup \<Rightarrow> (nat \<times> bool, 'w sup) outcome" where
  "allocSeccompNotifBuffers os s =
     (case sys_notif_sizes os (world s) of
        (Inl e, w) \<Rightarrow> Exit EXIT_FAILURE (s\<lparr> world := w \<rparr>)
      | (Inr (notif_size, notif_resp_size), w) \<Rightarrow>
          (case sys_malloc os notif_size w of
             (False, w) \<Rightarrow> Exit EXIT_FAILURE (s\<lparr> world := w \<rparr>)
           | (True, w) \<Rightarrow>
               (let resp_size = (if SIZEOF_NOTIF_RESP > notif_resp_size then SIZEOF_NOTIF_RESP else notif_resp_size);
                    (got, w) = sys_malloc os resp_size w
                in Ret (notif_size, got) (s\<lparr> world := w \<rparr>))))"

section \<open>seccomp\_unotify\_mkdir.c\<close>

record cmdLineOpts =
  delaySecs :: int
  secondFilter :: int

text \<open>The delay before a notification is looked at; the supervisor exits when the notification
  has become invalid.\<close>

definition delay_response :: "'w notif_os \<Rightarrow> cmdLineOpts \<Rightarrow> seccomp_notif \<Rightarrow> 'w sup \<Rightarrow> (unit, 'w sup) outcome" where
  "delay_response os opts req s =
     (if delaySecs opts > 0 then
        (let (valid, s) = cookieIsValid os (nf_id req) s
         in if \<not> valid then Exit EXIT_FAILURE s
            else
              (let s = s\<lparr> world := (sys_sleep os ^^ nat (delaySecs opts)) (world s) \<rparr>;
                   (valid, s) = cookieIsValid os (nf_id req) s
               in if \<not> valid then Exit EXIT_FAILURE s else Ret () s))
      else Ret () s)"

definition mkdir_response :: "'w notif_os \<Rightarrow> seccomp_notif \<Rightarrow> int \<Rightarrow> 'w sup \<Rightarrow> seccomp_notif_resp \<times> 'w sup" where
  "mkdir_response os req pathStatus s =
     (let resp = \<lparr> rs_id = nf_id req, rs_val = 0, rs_error = 0, rs_flags = 0 \<rparr>;
          path = path_buf s
      in if pathStatus \<noteq> 0 then (resp\<lparr> rs_error := - EINVAL_no \<rparr>, s)
         else if strncmp_eq path ''/tmp/'' (length ''/tmp/'') then
           (let mode = ucast (sd_args (nf_data req) ! 1);
                (r, w) = sys_mkdir os (cstr path) mode (world s);
                s = logged (Mkdir (cstr path) mode r) w s
            in case r of
                 None \<Rightarrow> (resp\<lparr> rs_error := 0, rs_val := int (length (cstr path)) \<rparr>, s)
               | Some e \<Rightarrow> (resp\<lparr> rs_error := - e \<rparr>, s))
         else if strncmp_eq path ''./'' (length ''./'') then
           (resp\<lparr> rs_error := 0, rs_val := 0, rs_flags := SECCOMP_USER_NOTIF_FLAG_CONTINUE \<rparr>, s)
         else (resp\<lparr> rs_error := - EOPNOTSUPP_no \<rparr>, s))"

text \<open>A failing \<^verbatim>\<open>SECCOMP_IOCTL_NOTIF_SEND\<close> is only reported.\<close>

definition send_response :: "'w notif_os \<Rightarrow> seccomp_notif_resp \<Rightarrow> 'w sup \<Rightarrow> 'w sup" where
  "send_response os resp s = (let (r, w) = sys_notif_send os resp (world s) in logged (Sent resp r) w s)"

text \<open>One turn of the loop; the result says whether the loop is left. \<open>resp_buf\<close> tells whether
  the response structure was allocated: without it the first store goes through a null
  pointer.\<close>

definition mkdir_turn :: "'w notif_os \<Rightarrow> cmdLineOpts \<Rightarrow> bool \<Rightarrow> 'w sup \<Rightarrow> (bool, 'w sup) outcome" where
  "mkdir_turn os opts resp_buf s =
     (case sys_notif_recv os (world s) of
        (Inl e, w) \<Rightarrow> if e = EINTR_no then Ret False (s\<lparr> world := w \<rparr>)
                      else Exit EXIT_FAILURE (s\<lparr> world := w \<rparr>)
      | (Inr req, w) \<Rightarrow>
          (let s = logged (Received req) w s
           in if sd_nr (nf_data req) \<noteq> NR_mkdir
              then Exit EXIT_FAILURE (logged (Unexpected (sd_nr (nf_data req))) w s)
              else
                obind (delay_response os opts req s) (\<lambda>_ s.
                  let (pathStatus, s) = getTargetPathname os req 0 PATH_MAX_no s
                  in if \<not> resp_buf then Undef
                     else
                       let (resp, s) = mkdir_response os req pathStatus s;
                           s = send_response os resp s
                       in Ret (cstr (path_buf s) = ''/bye'') s)))"

text \<open>\<open>n\<close> turns of the loop. Returning means that the supervisor is still running after them;
  it ends only by exiting. The array for the pathname is not initialised: \<open>garbage\<close> is what it happens
  to hold. Its bytes are unspecified until the first successful \<^verbatim>\<open>pread()\<close>, so when the first fetch fails,
  the comparison with \<^verbatim>\<open>/bye\<close>, which looks at five bytes at most, may come out either way; everything
  below holds for all values of \<open>garbage\<close>.\<close>

fun mkdir_loop :: "nat \<Rightarrow> 'w notif_os \<Rightarrow> cmdLineOpts \<Rightarrow> bool \<Rightarrow> 'w sup \<Rightarrow> (unit, 'w sup) outcome" where
  "mkdir_loop 0 os opts resp_buf s = Ret () s"
| "mkdir_loop (Suc n) os opts resp_buf s =
     obind (mkdir_turn os opts resp_buf s) (\<lambda>leave s.
       if leave then Exit EXIT_FAILURE s else mkdir_loop n os opts resp_buf s)"

definition handleNotifications_mkdir :: "nat \<Rightarrow> 'w notif_os \<Rightarrow> cstring \<Rightarrow> cmdLineOpts \<Rightarrow> 'w sup \<Rightarrow> (unit, 'w sup) outcome" where
  "handleNotifications_mkdir n os garbage opts s =
     obind (allocSeccompNotifBuffers os (s\<lparr> path_buf := garbage \<rparr>)) (\<lambda>(size, resp_buf) s. mkdir_loop n os opts resp_buf s)"

section \<open>seccomp\_unotify\_openat.c\<close>

definition openat_response ::
  "'w notif_os \<Rightarrow> seccomp_notif \<Rightarrow> int \<Rightarrow> 'w sup \<Rightarrow> (seccomp_notif_resp, 'w sup) outcome" where
  "openat_response os req pathStatus s =
     (let resp = \<lparr> rs_id = nf_id req, rs_val = 0, rs_error = 0, rs_flags = 0 \<rparr>;
          args = sd_args (nf_data req);
          path = cstr (path_buf s)
      in if pathStatus \<noteq> 0 then Ret (resp\<lparr> rs_error := - EINVAL_no \<rparr>) s
         else
           let (r, w) = sys_openat os (args ! 0) path (args ! 2) (args ! 3) (world s);
               s = logged (Openat (args ! 0) path (args ! 2) (args ! 3)) w s
           in case r of
                Inl e \<Rightarrow> Ret (resp\<lparr> rs_error := - e \<rparr>) s
              | Inr fd \<Rightarrow>
                  let addfd = \<lparr> af_id = nf_id req, af_srcfd = fd, af_newfd = 42 + fd,
                                af_setfd = True, af_cloexec = True \<rparr>;
                      (r, w) = sys_notif_addfd os addfd (world s);
                      s = logged (Addfd addfd) w s
                  in case r of
                       Inl e \<Rightarrow> Exit EXIT_FAILURE s
                     | Inr remoteFd \<Rightarrow> Ret (resp\<lparr> rs_error := 0, rs_val := remoteFd \<rparr>) (close_fd os fd s))"

definition openat_turn :: "'w notif_os \<Rightarrow> bool \<Rightarrow> 'w sup \<Rightarrow> (unit, 'w sup) outcome" where
  "openat_turn os resp_buf s =
     (case sys_notif_recv os (world s) of
        (Inl e, w) \<Rightarrow> if e = EINTR_no then Ret () (s\<lparr> world := w \<rparr>)
                      else Exit EXIT_FAILURE (s\<lparr> world := w \<rparr>)
      | (Inr req, w) \<Rightarrow>
          (let s = logged (Received req) w s
           in if sd_nr (nf_data req) \<noteq> NR_openat X86_64
              then Exit EXIT_FAILURE (logged (Unexpected (sd_nr (nf_data req))) w s)
              else
                let (pathStatus, s) = getTargetPathname os req 1 PATH_MAX_no s
                in if \<not> resp_buf then Undef
                   else
                     obind (openat_response os req pathStatus s) (\<lambda>resp s.
                       Ret () (send_response os resp s))))"

fun openat_loop :: "nat \<Rightarrow> 'w notif_os \<Rightarrow> bool \<Rightarrow> 'w sup \<Rightarrow> (unit, 'w sup) outcome" where
  "openat_loop 0 os resp_buf s = Ret () s"
| "openat_loop (Suc n) os resp_buf s =
     obind (openat_turn os resp_buf s) (\<lambda>_ s. openat_loop n os resp_buf s)"

definition handleNotifications_openat :: "nat \<Rightarrow> 'w notif_os \<Rightarrow> cstring \<Rightarrow> 'w sup \<Rightarrow> (unit, 'w sup) outcome" where
  "handleNotifications_openat n os garbage s =
     obind (allocSeccompNotifBuffers os (s\<lparr> path_buf := garbage \<rparr>)) (\<lambda>(size, resp_buf) s. openat_loop n os resp_buf s)"

section \<open>Fetching the pathname\<close>

named_theorems sup_simps \<open>fields of a supervisor state after one call\<close>

lemma logged_simps [simp, sup_simps]:
  "slog (logged e w s) = slog s @ [e]" "path_buf (logged e w s) = path_buf s" "world (logged e w s) = w"
  by (simp_all add: logged_def)

lemma close_fd_simps [simp, sup_simps]:
  "slog (close_fd os fd s) = slog s @ [Closed fd]" "path_buf (close_fd os fd s) = path_buf s"
  by (simp_all add: close_fd_def)

lemma cookieIsValid_cases:
  obtains ok w where "cookieIsValid os cookie s = (ok, logged (Checked cookie ok) w s)"
  by (cases "sys_id_valid os cookie (world s)") (simp add: cookieIsValid_def)

text \<open>The calls of a successful and of a failed fetch, in order.\<close>

definition fetched :: "seccomp_notif \<Rightarrow> nat \<Rightarrow> cstring \<Rightarrow> sup_event list \<Rightarrow> bool" where
  "fetched req argNum bs evs \<longleftrightarrow> NUL \<in> set bs \<and>
     (\<exists>fd. evs = [Opened fd, Checked (nf_id req) True, Read (sd_args (nf_data req) ! argNum) bs,
                  Closed fd, Checked (nf_id req) True])"

text \<open>The ways to fail: the file cannot be opened, the first check fails, the read fails or is
  empty, the second check fails, or there is no null byte in what was read.\<close>

inductive fetch_failed :: "seccomp_notif \<Rightarrow> nat \<Rightarrow> int \<Rightarrow> sup_event list \<Rightarrow> bool" for req argNum where
  not_opened: "fetch_failed req argNum GTP_BAD_READ []"
| gone_before: "fetch_failed req argNum GTP_ID_NOT_VALID
    [Opened fd, Checked (nf_id req) False, Closed fd]"
| read_error: "fetch_failed req argNum GTP_BAD_READ
    [Opened fd, Checked (nf_id req) True, Closed fd]"
| read_nothing: "fetch_failed req argNum GTP_BAD_READ
    [Opened fd, Checked (nf_id req) True, Read (sd_args (nf_data req) ! argNum) [], Closed fd]"
| gone_after: "bs \<noteq> [] \<Longrightarrow> fetch_failed req argNum GTP_ID_NOT_VALID
    [Opened fd, Checked (nf_id req) True, Read (sd_args (nf_data req) ! argNum) bs, Closed fd,
     Checked (nf_id req) False]"
| not_terminated: "bs \<noteq> [] \<Longrightarrow> NUL \<notin> set bs \<Longrightarrow> fetch_failed req argNum GTP_BAD_PATH
    [Opened fd, Checked (nf_id req) True, Read (sd_args (nf_data req) ! argNum) bs, Closed fd,
     Checked (nf_id req) True]"

lemmas gtp_codes = GTP_BAD_READ_def GTP_ID_NOT_VALID_def GTP_BAD_PATH_def

lemma fetch_failed_status: "fetch_failed req argNum status evs \<Longrightarrow> status \<noteq> 0"
  by (induction rule: fetch_failed.induct) (simp_all add: gtp_codes)

lemma cstr_overwrite: "NUL \<in> set bs \<Longrightarrow> cstr (bs @ rest) = cstr bs"
  by (auto simp: cstr_def takeWhile_append)

text \<open>The outcome of a fetch: its status, the calls it made, and on success the string that the
  buffer now holds.\<close>

definition fetch_result :: "seccomp_notif \<Rightarrow> nat \<Rightarrow> 'w sup \<Rightarrow> int \<times> 'w sup \<Rightarrow> bool" where
  "fetch_result req argNum s r \<longleftrightarrow> (\<exists>evs. slog (snd r) = slog s @ evs \<and>
     (fetch_failed req argNum (fst r) evs
      \<or> fst r = 0 \<and> (\<exists>bs. fetched req argNum bs evs \<and> cstr (path_buf (snd r)) = cstr bs)))"

lemma fetch_result_failed:
  "fetch_failed req argNum st evs \<Longrightarrow> slog t = slog s @ evs \<Longrightarrow> fetch_result req argNum s (st, t)"
  by (auto simp: fetch_result_def)

lemma fetch_result_ok:
  "fetched req argNum bs evs \<Longrightarrow> slog t = slog s @ evs \<Longrightarrow> cstr (path_buf t) = cstr bs
   \<Longrightarrow> fetch_result req argNum s (0, t)"
  by (auto simp: fetch_result_def)

lemma accept_path_result:
  assumes "slog t = slog s @ [Opened fd, Checked (nf_id req) True,
      Read (sd_args (nf_data req) ! argNum) bs, Closed fd]"
    and "path_buf t = bs @ rest"
  shows "fetch_result req argNum s (accept_path os req bs t)"
proof -
  obtain ok w where c: "cookieIsValid os (nf_id req) t = (ok, logged (Checked (nf_id req) ok) w t)"
    by (rule cookieIsValid_cases)
  consider "bs = []" | "bs \<noteq> []" "\<not> ok" | "bs \<noteq> []" "ok" "NUL \<notin> set bs" | "bs \<noteq> []" "ok" "NUL \<in> set bs"
    by blast
  then show ?thesis
  proof cases
    case 1
    with assms show ?thesis by (simp add: accept_path_def fetch_result_failed [OF read_nothing])
  next
    case 2
    with assms c show ?thesis by (simp add: accept_path_def fetch_result_failed [OF gone_after])
  next
    case 3
    with assms c show ?thesis by (simp add: accept_path_def fetch_result_failed [OF not_terminated])
  next
    case 4
    then have "fetched req argNum bs [Opened fd, Checked (nf_id req) True,
        Read (sd_args (nf_data req) ! argNum) bs, Closed fd, Checked (nf_id req) True]"
      by (simp add: fetched_def)
    with 4 assms c show ?thesis
      by (simp add: accept_path_def cstr_overwrite fetch_result_ok)
  qed
qed

lemma read_path_result:
  assumes "slog t = slog s @ [Opened fd, Checked (nf_id req) True]"
  shows "fetch_result req argNum s (read_path os req argNum len fd t)"
proof -
  obtain r w where pr: "sys_pread os fd len (sd_args (nf_data req) ! argNum) (world t) = (r, w)" by fastforce
  show ?thesis
  proof (cases r)
    case None
    with assms pr show ?thesis by (simp add: read_path_def fetch_result_failed [OF read_error])
  next
    case (Some bs)
    with pr show ?thesis
      by (simp add: read_path_def) (rule accept_path_result, simp_all add: assms)
  qed
qed

lemma getTargetPathname_result: "fetch_result req argNum s (getTargetPathname os req argNum len s)"
proof (cases "sys_open_mem os (nf_pid req) (world s)")
  case (Pair m w)
  show ?thesis
  proof (cases m)
    case None
    with Pair show ?thesis by (simp add: getTargetPathname_def fetch_result_failed [OF not_opened])
  next
    case (Some fd)
    obtain ok w1 where c: "cookieIsValid os (nf_id req) (logged (Opened fd) w s)
        = (ok, logged (Checked (nf_id req) ok) w1 (logged (Opened fd) w s))"
      by (rule cookieIsValid_cases)
    show ?thesis
    proof (cases ok)
      case True
      then have "fetch_result req argNum s
          (read_path os req argNum len fd (logged (Checked (nf_id req) ok) w1 (logged (Opened fd) w s)))"
        by (intro read_path_result) simp
      with True Pair Some c show ?thesis by (simp add: getTargetPathname_def)
    next
      case False
      with Pair Some c show ?thesis
        by (simp add: getTargetPathname_def fetch_result_failed [OF gone_before])
    qed
  qed
qed

lemma getTargetPathname_cases:
  assumes "getTargetPathname os req argNum len s = (st, t)"
  obtains (success) bs evs where "st = 0" "fetched req argNum bs evs" "slog t = slog s @ evs"
      "cstr (path_buf t) = cstr bs"
  | (failure) evs where "fetch_failed req argNum st evs" "slog t = slog s @ evs"
  using getTargetPathname_result [of req argNum s os len] assms by (auto simp: fetch_result_def)

section \<open>What a supervisor may do with a notification\<close>

text \<open>The answer of the \<^verbatim>\<open>mkdir()\<close> supervisor, from the pathname that the target passed: it
  performs the call itself for names that start with \<^verbatim>\<open>/tmp/\<close>, lets the target make the call
  for names that start with \<^verbatim>\<open>./\<close>, and refuses the others.\<close>

datatype verdict = Perform | Let_run | Refuse

definition mkdir_policy :: "cstring \<Rightarrow> verdict" where
  "mkdir_policy p =
     (if take 5 p = ''/tmp/'' then Perform else if take 2 p = ''./'' then Let_run else Refuse)"

definition response :: "seccomp_notif \<Rightarrow> int \<Rightarrow> int \<Rightarrow> 32 word \<Rightarrow> seccomp_notif_resp" where
  "response req val err flags = \<lparr> rs_id = nf_id req, rs_val = val, rs_error = err, rs_flags = flags \<rparr>"

inductive mkdir_answer :: "seccomp_notif \<Rightarrow> sup_event list \<Rightarrow> seccomp_notif_resp \<Rightarrow> bool" for req where
  unreadable: "fetch_failed req 0 st evs \<Longrightarrow> mkdir_answer req evs (response req 0 (- EINVAL_no) 0)"
| created: "fetched req 0 bs evs \<Longrightarrow> mkdir_policy (cstr bs) = Perform \<Longrightarrow>
    mkdir_answer req (evs @ [Mkdir (cstr bs) (ucast (sd_args (nf_data req) ! 1)) None])
      (response req (int (length (cstr bs))) 0 0)"
| not_created: "fetched req 0 bs evs \<Longrightarrow> mkdir_policy (cstr bs) = Perform \<Longrightarrow>
    mkdir_answer req (evs @ [Mkdir (cstr bs) (ucast (sd_args (nf_data req) ! 1)) (Some e)])
      (response req 0 (- e) 0)"
| let_run: "fetched req 0 bs evs \<Longrightarrow> mkdir_policy (cstr bs) = Let_run \<Longrightarrow>
    mkdir_answer req evs (response req 0 0 SECCOMP_USER_NOTIF_FLAG_CONTINUE)"
| refused: "fetched req 0 bs evs \<Longrightarrow> mkdir_policy (cstr bs) = Refuse \<Longrightarrow>
    mkdir_answer req evs (response req 0 (- EOPNOTSUPP_no) 0)"

definition delay_passed :: "cmdLineOpts \<Rightarrow> seccomp_notif \<Rightarrow> sup_event list" where
  "delay_passed opts req =
     (if delaySecs opts > 0 then [Checked (nf_id req) True, Checked (nf_id req) True] else [])"

text \<open>The calls of a complete turn, and those of a turn in which the supervisor exits.\<close>

definition mkdir_seg :: "cmdLineOpts \<Rightarrow> sup_event list \<Rightarrow> bool" where
  "mkdir_seg opts l \<longleftrightarrow> (\<exists>req evs resp r. sd_nr (nf_data req) = NR_mkdir \<and> mkdir_answer req evs resp
     \<and> l = Received req # delay_passed opts req @ evs @ [Sent resp r])"

definition mkdir_stop :: "cmdLineOpts \<Rightarrow> sup_event list \<Rightarrow> bool" where
  "mkdir_stop opts l \<longleftrightarrow> (\<exists>req.
     sd_nr (nf_data req) \<noteq> NR_mkdir \<and> l = [Received req, Unexpected (sd_nr (nf_data req))]
   \<or> delaySecs opts > 0 \<and> l \<in> {[Received req, Checked (nf_id req) False],
        [Received req, Checked (nf_id req) True, Checked (nf_id req) False]})"

fun received_ids :: "sup_event list \<Rightarrow> 64 word list" where
  "received_ids [] = []"
| "received_ids (Received req # l) = nf_id req # received_ids l"
| "received_ids (e # l) = received_ids l"

fun sent_ids :: "sup_event list \<Rightarrow> 64 word list" where
  "sent_ids [] = []"
| "sent_ids (Sent resp r # l) = rs_id resp # sent_ids l"
| "sent_ids (e # l) = sent_ids l"

lemma ids_append [simp]:
  "received_ids (a @ b) = received_ids a @ received_ids b" "sent_ids (a @ b) = sent_ids a @ sent_ids b"
  by (induction a rule: received_ids.induct) simp_all

lemma fetch_ids:
  "fetched req k bs evs \<Longrightarrow> received_ids evs = [] \<and> sent_ids evs = []"
  "fetch_failed req k st evs \<Longrightarrow> received_ids evs = [] \<and> sent_ids evs = []"
  by (auto simp: fetched_def elim: fetch_failed.cases)

lemma delay_ids [simp]: "received_ids (delay_passed opts req) = []" "sent_ids (delay_passed opts req) = []"
  by (simp_all add: delay_passed_def)

lemma mkdir_answer_ids:
  "mkdir_answer req evs resp \<Longrightarrow> received_ids evs = [] \<and> sent_ids evs = [] \<and> rs_id resp = nf_id req"
  by (erule mkdir_answer.cases) (simp_all add: fetch_ids response_def)

text \<open>All notifications of a log came from the kernel.\<close>

definition from_kernel :: "'w notif_os \<Rightarrow> sup_event list \<Rightarrow> bool" where
  "from_kernel os l \<longleftrightarrow>
     (\<forall>req. Received req \<in> set l \<longrightarrow> (\<exists>w w'. sys_notif_recv os w = (Inr req, w')))"

lemma received_in_ids: "Received req \<in> set l \<Longrightarrow> nf_id req \<in> set (received_ids l)"
  by (induction l rule: received_ids.induct) auto

lemma from_kernel_turn:
  "sys_notif_recv os w = (Inr req, w') \<Longrightarrow> received_ids l = [] \<Longrightarrow> from_kernel os (Received req # l)"
  using received_in_ids by (fastforce simp: from_kernel_def)

section \<open>Loops over notifications\<close>

text \<open>A log made of complete turns, and possibly an abandoned one at the end.\<close>

definition history :: "(sup_event list \<Rightarrow> bool) \<Rightarrow> (sup_event list \<Rightarrow> bool) \<Rightarrow> sup_event list \<Rightarrow> bool" where
  "history seg stop l \<longleftrightarrow>
     (\<exists>segs tail. l = concat segs @ tail \<and> (\<forall>e \<in> set segs. seg e) \<and> (tail = [] \<or> stop tail))"

text \<open>What the two supervisors share: a loop over turns, each of which adds one complete or one
  abandoned piece to the log.\<close>

locale notify_loop =
  fixes turn :: "'w sup \<Rightarrow> ('r, 'w sup) outcome" and leaves :: "'r \<Rightarrow> bool"
    and loop :: "nat \<Rightarrow> 'w sup \<Rightarrow> (unit, 'w sup) outcome"
    and seg :: "sup_event list \<Rightarrow> bool" and stop :: "sup_event list \<Rightarrow> bool"
  assumes loop_0: "loop 0 s = Ret () s"
    and loop_Suc: "loop (Suc n) s =
      obind (turn s) (\<lambda>r s. if leaves r then Exit EXIT_FAILURE s else loop n s)"
    and turn_returns: "turn s = Ret r t \<Longrightarrow> \<exists>e. slog t = slog s @ e \<and> (e = [] \<or> seg e)"
    and turn_exits: "turn s = Exit c t \<Longrightarrow> \<exists>e. slog t = slog s @ e \<and> (e = [] \<or> stop e)"
    and turn_defined: "turn s \<noteq> Undef" "turn s \<noteq> Abort t"
    and seg_ids: "seg e \<Longrightarrow> received_ids e = sent_ids e"
    and stop_ids: "stop e \<Longrightarrow> sent_ids e = [] \<and> length (received_ids e) = 1"
begin

lemma history_seg:
  assumes "\<forall>e \<in> set segs. seg e" and "e = [] \<or> seg e"
  obtains segs' where "concat segs @ e = concat segs'" "\<forall>e \<in> set segs'. seg e"
  using that [of "segs @ (if e = [] then [] else [e])"] assms by auto

lemma loop_history_from:
  assumes "slog s = concat segs" and "\<forall>e \<in> set segs. seg e"
  shows "final (\<lambda>t. history seg stop (slog t)) (loop n s)"
  using assms
proof (induction n arbitrary: s segs)
  case 0
  then show ?case by (auto simp: loop_0 history_def)
next
  case (Suc n)
  show ?case
  proof (cases "turn s")
    case (Ret r t)
    then obtain e where e: "slog t = slog s @ e" "e = [] \<or> seg e" using turn_returns by blast
    obtain segs' where "slog t = concat segs'" "\<forall>e \<in> set segs'. seg e"
      using history_seg [OF Suc.prems(2) e(2)] e(1) Suc.prems(1) by metis
    then show ?thesis using Suc.IH [of t segs'] Ret by (auto simp: loop_Suc history_def)
  next
    case (Exit c t)
    then obtain e where "slog t = slog s @ e" "e = [] \<or> stop e" using turn_exits by blast
    then show ?thesis using Exit Suc.prems by (auto simp: loop_Suc history_def)
  qed (use turn_defined in simp_all)
qed

lemma loop_history: "slog s = [] \<Longrightarrow> final (\<lambda>t. history seg stop (slog t)) (loop n s)"
  using loop_history_from [of s "[]"] by simp

lemma segs_ids: "\<forall>e \<in> set segs. seg e \<Longrightarrow> received_ids (concat segs) = sent_ids (concat segs)"
  by (induction segs) (simp_all add: seg_ids)

text \<open>Responses answer the notifications in order, one each; at most the last notification is
  left without.\<close>

lemma history_ids:
  "history seg stop l \<Longrightarrow> \<exists>rest. received_ids l = sent_ids l @ rest \<and> length rest \<le> 1"
  using stop_ids segs_ids by (fastforce simp: history_def)

end

lemma strncmp_buf: "no_nul p \<Longrightarrow> strncmp_eq buf p (length p) \<longleftrightarrow> take (length p) (cstr buf) = p"
proof (induction p arbitrary: buf)
  case (Cons c p)
  show ?case
  proof (cases buf)
    case Nil
    then show ?thesis by (simp add: cstr_def)
  next
    case (Cons b bs)
    with Cons.prems Cons.IH [of bs] show ?thesis by (auto simp: cstr_def)
  qed
qed simp

lemma policy_tests:
  "strncmp_eq buf ''/tmp/'' (length ''/tmp/'') \<longleftrightarrow> take 5 (cstr buf) = ''/tmp/''"
  "strncmp_eq buf ''./'' (length ''./'') \<longleftrightarrow> take 2 (cstr buf) = ''./''"
  using strncmp_buf [of "''/tmp/''" buf] strncmp_buf [of "''./''" buf] by (simp_all add: NUL_def eval_nat_numeral)

lemma mkdir_response_answer:
  assumes "getTargetPathname os req 0 len s = (st, t)" and "mkdir_response os req st t = (resp, u)"
  shows "\<exists>evs. slog u = slog s @ evs \<and> mkdir_answer req evs resp"
  using assms(1)
proof (cases rule: getTargetPathname_cases)
  case (success bs evs)
  note r = assms(2) [unfolded mkdir_response_def Let_def policy_tests]
  show ?thesis
  proof (cases "mkdir_policy (cstr bs)")
    case Perform
    then have p: "take 5 (cstr (path_buf t)) = ''/tmp/''" using success by (simp add: mkdir_policy_def split: if_splits)
    obtain x w where mk: "sys_mkdir os (cstr (path_buf t)) (ucast (sd_args (nf_data req) ! 1)) (world t) = (x, w)"
      by fastforce
    show ?thesis
    proof (cases x)
      case None
      with r p mk success(1,3,4) mkdir_answer.created [OF success(2) Perform] show ?thesis
        by (auto simp: response_def)
    next
      case (Some e)
      with r p mk success(1,3,4) mkdir_answer.not_created [OF success(2) Perform, of e] show ?thesis
        by (auto simp: response_def)
    qed
  next
    case Let_run
    then have "take 5 (cstr (path_buf t)) \<noteq> ''/tmp/''" "take 2 (cstr (path_buf t)) = ''./''"
      using success by (simp_all add: mkdir_policy_def split: if_splits)
    with r success mkdir_answer.let_run [OF success(2) Let_run] show ?thesis by (auto simp: response_def)
  next
    case Refuse
    then have "take 5 (cstr (path_buf t)) \<noteq> ''/tmp/''" "take 2 (cstr (path_buf t)) \<noteq> ''./''"
      using success by (simp_all add: mkdir_policy_def split: if_splits)
    with r success mkdir_answer.refused [OF success(2) Refuse] show ?thesis by (auto simp: response_def)
  qed
next
  case (failure evs)
  with assms(2) fetch_failed_status [OF failure(1)] mkdir_answer.unreadable [OF failure(1)] show ?thesis
    by (auto simp: mkdir_response_def response_def)
qed

lemma delay_response_cases:
  obtains (passed) t where "delay_response os opts req s = Ret () t" "slog t = slog s @ delay_passed opts req"
  | (gone) c t e where "delay_response os opts req s = Exit c t" "slog t = slog s @ e" "delaySecs opts > 0"
      "e \<in> {[Checked (nf_id req) False], [Checked (nf_id req) True, Checked (nf_id req) False]}"
proof (cases "delaySecs opts > 0")
  case True
  obtain ok w where c: "cookieIsValid os (nf_id req) s = (ok, logged (Checked (nf_id req) ok) w s)"
    by (rule cookieIsValid_cases)
  define s1 where "s1 = (logged (Checked (nf_id req) ok) w s)
    \<lparr> world := (sys_sleep os ^^ nat (delaySecs opts)) w \<rparr>"
  obtain ok' w' where c': "cookieIsValid os (nf_id req) s1 = (ok', logged (Checked (nf_id req) ok') w' s1)"
    by (rule cookieIsValid_cases)
  have s1: "slog s1 = slog s @ [Checked (nf_id req) ok]" by (simp add: s1_def)
  have eq: "delay_response os opts req s =
      (if \<not> ok then Exit EXIT_FAILURE (logged (Checked (nf_id req) ok) w s)
       else if \<not> ok' then Exit EXIT_FAILURE (logged (Checked (nf_id req) ok') w' s1)
       else Ret () (logged (Checked (nf_id req) ok') w' s1))"
    using True c c' by (cases ok) (simp_all add: delay_response_def s1_def)
  consider "ok" "ok'" | "\<not> ok" | "ok" "\<not> ok'" by blast
  then show thesis
  proof cases
    case 1
    with True eq s1 show thesis by (simp add: passed delay_passed_def)
  next
    case 2
    with True eq show thesis by (simp add: gone)
  next
    case 3
    with True eq s1 show thesis by (simp add: gone)
  qed
qed (simp add: delay_response_def delay_passed_def that(1))

lemma mkdir_turn_cases:
  obtains (interrupted) w where "mkdir_turn os opts True s = Ret False (s\<lparr> world := w \<rparr>)"
  | (failed) w where "mkdir_turn os opts True s = Exit EXIT_FAILURE (s\<lparr> world := w \<rparr>)"
  | (answered) leave t e where "mkdir_turn os opts True s = Ret leave t" "slog t = slog s @ e" "mkdir_seg opts e"
      "from_kernel os e"
  | (stopped) c t e where "mkdir_turn os opts True s = Exit c t" "slog t = slog s @ e" "mkdir_stop opts e"
      "from_kernel os e"
proof (cases "sys_notif_recv os (world s)")
  case (Pair m w)
  show thesis
  proof (cases m)
    case (Inl e)
    with Pair show thesis
      using interrupted failed by (cases "e = EINTR_no") (auto simp: mkdir_turn_def)
  next
    case (Inr req)
    define s1 where "s1 = logged (Received req) w s"
    have s1: "slog s1 = slog s @ [Received req]" by (simp add: s1_def)
    note fk = from_kernel_turn [OF Pair [unfolded Inr]]
    note turn = mkdir_turn_def [of os opts True s, unfolded Pair Inr, simplified, folded s1_def]
    show thesis
    proof (cases "sd_nr (nf_data req) = NR_mkdir")
      case False
      then have "mkdir_stop opts [Received req, Unexpected (sd_nr (nf_data req))]"
        by (auto simp: mkdir_stop_def)
      moreover have "mkdir_turn os opts True s = Exit EXIT_FAILURE (logged (Unexpected (sd_nr (nf_data req))) w s1)"
        using False turn by simp
      ultimately show thesis using stopped s1 fk [of "[Unexpected (sd_nr (nf_data req))]"] by simp
    next
      case nr: True
      show thesis
      proof (cases rule: delay_response_cases [of os opts req s1])
        case (passed t)
        obtain st u where g: "getTargetPathname os req 0 PATH_MAX_no t = (st, u)" by fastforce
        obtain resp v where m: "mkdir_response os req st u = (resp, v)" by fastforce
        obtain evs where evs: "slog v = slog t @ evs" "mkdir_answer req evs resp"
          using mkdir_response_answer [OF g m] by blast
        obtain r where r: "slog (send_response os resp v) = slog v @ [Sent resp r]"
          by (cases "sys_notif_send os resp (world v)") (simp add: send_response_def)
        have "mkdir_seg opts (Received req # delay_passed opts req @ evs @ [Sent resp r])"
          using nr evs by (auto simp: mkdir_seg_def)
        then show thesis
          using turn passed s1 g m evs r nr fk [of "delay_passed opts req @ evs @ [Sent resp r]"]
            mkdir_answer_ids [OF evs(2)] answered by (simp add: Let_def)
      next
        case (gone c t e)
        then have "mkdir_stop opts (Received req # e)" by (auto simp: mkdir_stop_def)
        with turn s1 nr gone fk [of e] stopped show thesis by auto
      qed
    qed
  qed
qed


lemma mkdir_seg_ids: "mkdir_seg opts e \<Longrightarrow> received_ids e = sent_ids e"
  by (auto simp: mkdir_seg_def dest: mkdir_answer_ids)

lemma mkdir_stop_ids: "mkdir_stop opts e \<Longrightarrow> sent_ids e = [] \<and> length (received_ids e) = 1"
  by (auto simp: mkdir_stop_def)

interpretation mkdir_sup: notify_loop "mkdir_turn os opts True" "\<lambda>b. b" "\<lambda>n. mkdir_loop n os opts True"
  "\<lambda>e. mkdir_seg opts e \<and> from_kernel os e" "\<lambda>e. mkdir_stop opts e \<and> from_kernel os e" for os :: "'w notif_os" and opts
proof unfold_locales
  fix s t :: "'w sup" and r c
  show "mkdir_turn os opts True s = Ret r t \<Longrightarrow> \<exists>e. slog t = slog s @ e \<and> (e = [] \<or> mkdir_seg opts e \<and> from_kernel os e)"
    by (cases rule: mkdir_turn_cases [of os opts s]) auto
  show "mkdir_turn os opts True s = Exit c t \<Longrightarrow> \<exists>e. slog t = slog s @ e \<and> (e = [] \<or> mkdir_stop opts e \<and> from_kernel os e)"
    by (cases rule: mkdir_turn_cases [of os opts s]) auto
  show "mkdir_turn os opts True s \<noteq> Undef" "mkdir_turn os opts True s \<noteq> Abort t"
    by (cases rule: mkdir_turn_cases [of os opts s]; auto)+
qed (auto dest: mkdir_seg_ids mkdir_stop_ids)

text \<open>The calls of the \<^verbatim>\<open>openat()\<close> supervisor after the fetch.\<close>

definition openat_call :: "seccomp_notif \<Rightarrow> cstring \<Rightarrow> sup_event" where
  "openat_call req path =
     (let a = sd_args (nf_data req) in Openat (a ! 0) path (a ! 2) (a ! 3))"

definition addfd_of :: "seccomp_notif \<Rightarrow> int \<Rightarrow> seccomp_notif_addfd" where
  "addfd_of req fd =
     \<lparr> af_id = nf_id req, af_srcfd = fd, af_newfd = 42 + fd, af_setfd = True, af_cloexec = True \<rparr>"

inductive openat_answer :: "seccomp_notif \<Rightarrow> sup_event list \<Rightarrow> seccomp_notif_resp \<Rightarrow> bool" for req where
  unreadable: "fetch_failed req 1 st evs \<Longrightarrow> openat_answer req evs (response req 0 (- EINVAL_no) 0)"
| not_opened: "fetched req 1 bs evs \<Longrightarrow>
    openat_answer req (evs @ [openat_call req (cstr bs)]) (response req 0 (- e) 0)"
| passed: "fetched req 1 bs evs \<Longrightarrow>
    openat_answer req (evs @ [openat_call req (cstr bs), Addfd (addfd_of req fd), Closed fd])
      (response req remoteFd 0 0)"

definition openat_seg :: "sup_event list \<Rightarrow> bool" where
  "openat_seg l \<longleftrightarrow> (\<exists>req evs resp r. sd_nr (nf_data req) = NR_openat X86_64 \<and> openat_answer req evs resp
     \<and> l = Received req # evs @ [Sent resp r])"

definition openat_stop :: "sup_event list \<Rightarrow> bool" where
  "openat_stop l \<longleftrightarrow> (\<exists>req.
     sd_nr (nf_data req) \<noteq> NR_openat X86_64 \<and> l = [Received req, Unexpected (sd_nr (nf_data req))]
   \<or> (\<exists>evs bs fd. fetched req 1 bs evs
        \<and> l = Received req # evs @ [openat_call req (cstr bs), Addfd (addfd_of req fd)]))"

lemma openat_answer_ids:
  "openat_answer req evs resp \<Longrightarrow> received_ids evs = [] \<and> sent_ids evs = [] \<and> rs_id resp = nf_id req"
  by (erule openat_answer.cases) (simp_all add: fetch_ids response_def openat_call_def Let_def)

lemma openat_seg_ids: "openat_seg e \<Longrightarrow> received_ids e = sent_ids e"
  by (auto simp: openat_seg_def dest: openat_answer_ids)

lemma openat_stop_ids: "openat_stop e \<Longrightarrow> sent_ids e = [] \<and> length (received_ids e) = 1"
  by (auto simp: openat_stop_def openat_call_def Let_def dest: fetch_ids)

lemma openat_response_eq:
  "openat_response os req 0 t =
     (let path = cstr (path_buf t); a = sd_args (nf_data req) in
      case sys_openat os (a ! 0) path (a ! 2) (a ! 3) (world t) of
        (Inl e, w) \<Rightarrow> Ret (response req 0 (- e) 0) (logged (openat_call req path) w t)
      | (Inr fd, w) \<Rightarrow>
         (case sys_notif_addfd os (addfd_of req fd) w of
            (Inl e, w') \<Rightarrow> Exit EXIT_FAILURE (logged (Addfd (addfd_of req fd)) w' (logged (openat_call req path) w t))
          | (Inr remoteFd, w') \<Rightarrow> Ret (response req remoteFd 0 0)
              (close_fd os fd (logged (Addfd (addfd_of req fd)) w' (logged (openat_call req path) w t)))))"
  by (simp add: openat_response_def Let_def response_def openat_call_def addfd_of_def
      split: prod.splits sum.splits)

lemma openat_response_cases:
  assumes "getTargetPathname os req 1 len s = (st, t)"
  obtains (answered) resp u evs where "openat_response os req st t = Ret resp u" "slog u = slog s @ evs"
      "openat_answer req evs resp"
  | (no_addfd) u bs evs fd where "openat_response os req st t = Exit EXIT_FAILURE u" "fetched req 1 bs evs"
      "slog u = slog s @ evs @ [openat_call req (cstr bs), Addfd (addfd_of req fd)]"
  using assms
proof (cases rule: getTargetPathname_cases)
  case (success bs evs)
  define a where "a = sd_args (nf_data req)"
  obtain x w where op: "sys_openat os (a ! 0) (cstr bs) (a ! 2) (a ! 3) (world t) = (x, w)" by fastforce
  note eq = openat_response_eq [of os req t, unfolded Let_def success(4), folded a_def, unfolded op]
  show thesis
  proof (cases x)
    case (Inl e)
    with success eq not_opened [OF success(2), of e] show thesis by (simp add: answered)
  next
    case (Inr fd)
    obtain y w' where add: "sys_notif_addfd os (addfd_of req fd) w = (y, w')" by fastforce
    show thesis
    proof (cases y)
      case (Inl e)
      with success eq \<open>x = Inr fd\<close> add no_addfd [OF _ success(2)] show thesis by simp
    next
      case (Inr remoteFd)
      with success eq \<open>x = Inr fd\<close> add passed [OF success(2), of fd remoteFd] show thesis
        by (simp add: answered)
    qed
  qed
next
  case (failure evs)
  then have "openat_response os req st t = Ret (response req 0 (- EINVAL_no) 0) t"
    using fetch_failed_status [OF failure(1)] by (simp add: openat_response_def response_def)
  then show thesis using failure unreadable [OF failure(1)] by (rule_tac answered)
qed

lemma openat_turn_cases:
  obtains (interrupted) w where "openat_turn os True s = Ret () (s\<lparr> world := w \<rparr>)"
  | (failed) w where "openat_turn os True s = Exit EXIT_FAILURE (s\<lparr> world := w \<rparr>)"
  | (answered) t e where "openat_turn os True s = Ret () t" "slog t = slog s @ e" "openat_seg e"
      "from_kernel os e"
  | (stopped) c t e where "openat_turn os True s = Exit c t" "slog t = slog s @ e" "openat_stop e"
      "from_kernel os e"
proof (cases "sys_notif_recv os (world s)")
  case (Pair m w)
  show thesis
  proof (cases m)
    case (Inl e)
    with Pair show thesis
      using interrupted failed by (cases "e = EINTR_no") (auto simp: openat_turn_def)
  next
    case (Inr req)
    define s1 where "s1 = logged (Received req) w s"
    have s1: "slog s1 = slog s @ [Received req]" by (simp add: s1_def)
    note fk = from_kernel_turn [OF Pair [unfolded Inr]]
    note turn = openat_turn_def [of os True s, unfolded Pair Inr, simplified, folded s1_def]
    show thesis
    proof (cases "sd_nr (nf_data req) = NR_openat X86_64")
      case False
      then have "openat_stop [Received req, Unexpected (sd_nr (nf_data req))]"
        by (auto simp: openat_stop_def)
      then show thesis
        using False turn s1 stopped fk [of "[Unexpected (sd_nr (nf_data req))]"] by simp
    next
      case nr: True
      obtain st t where g: "getTargetPathname os req 1 PATH_MAX_no s1 = (st, t)" by fastforce
      show thesis
        using g
      proof (cases rule: openat_response_cases)
        case (answered resp u evs)
        obtain r where r: "slog (send_response os resp u) = slog u @ [Sent resp r]"
          by (cases "sys_notif_send os resp (world u)") (simp add: send_response_def)
        have "openat_seg (Received req # evs @ [Sent resp r])"
          using nr answered by (auto simp: openat_seg_def)
        then show thesis
          using turn s1 g answered r nr that(3) fk [of "evs @ [Sent resp r]"]
            openat_answer_ids [OF answered(3)] by simp
      next
        case (no_addfd u bs evs fd)
        then have "openat_stop (Received req # evs @ [openat_call req (cstr bs), Addfd (addfd_of req fd)])"
          by (auto simp: openat_stop_def)
        then show thesis
          using turn s1 g nr no_addfd stopped fetch_ids(1) [OF no_addfd(2)]
            fk [of "evs @ [openat_call req (cstr bs), Addfd (addfd_of req fd)]"]
          by (simp add: openat_call_def Let_def)
      qed
    qed
  qed
qed

interpretation openat_sup: notify_loop "openat_turn os True" "\<lambda>u. False" "\<lambda>n. openat_loop n os True"
  "\<lambda>e. openat_seg e \<and> from_kernel os e" "\<lambda>e. openat_stop e \<and> from_kernel os e" for os :: "'w notif_os"
proof unfold_locales
  fix s t :: "'w sup" and r c
  show "openat_turn os True s = Ret r t \<Longrightarrow> \<exists>e. slog t = slog s @ e \<and> (e = [] \<or> openat_seg e \<and> from_kernel os e)"
    by (cases rule: openat_turn_cases [of os s]) auto
  show "openat_turn os True s = Exit c t \<Longrightarrow> \<exists>e. slog t = slog s @ e \<and> (e = [] \<or> openat_stop e \<and> from_kernel os e)"
    by (cases rule: openat_turn_cases [of os s]) auto
  show "openat_turn os True s \<noteq> Undef" "openat_turn os True s \<noteq> Abort t"
    by (cases rule: openat_turn_cases [of os s]; auto)+
qed (auto dest: openat_seg_ids openat_stop_ids)

end
