(* ===== verification/Seccomp_Supervisor.thy ===== *)
theory Seccomp_Supervisor
  imports Seccomp_Notify
begin

text \<open>
  The theorems about the two supervisors, together with the filters that feed them: their logs
  are made of complete answers in the order of the notifications, the \<^verbatim>\<open>mkdir()\<close> supervisor
  only acts below \<^verbatim>\<open>/tmp/\<close>, the test for an unexpected system call never fires, and a failed
  allocation of the response buffer goes unnoticed. A small kernel serves as an instance.
\<close>

section \<open>Assumptions on the kernel\<close>

definition malloc_ok :: "'w notif_os \<Rightarrow> bool" where
  "malloc_ok os \<longleftrightarrow> (\<forall>n w. fst (sys_malloc os n w))"

text \<open>seccomp\_unotify(2): a notification is generated by a call for which the filter of the
  listener returned \<^verbatim>\<open>SECCOMP_RET_USER_NOTIF\<close>.\<close>

definition notified_by :: "sock_filter list \<Rightarrow> 'w notif_os \<Rightarrow> bool" where
  "notified_by flt os \<longleftrightarrow> (\<forall>w req w'. sys_notif_recv os w = (Inr req, w') \<longrightarrow>
     wf_data (nf_data req) \<and> run_filter flt (nf_data req) = Some SECCOMP_RET_USER_NOTIF)"

text \<open>A kernel with a queue of notifications; the memory of the target holds a pathname at
  each of three addresses.\<close>

definition demo_memory :: "64 word \<Rightarrow> cstring" where
  "demo_memory a = (if a = 16 then ''/tmp/a'' else if a = 32 then ''./b'' else ''/etc/c'') @ [NUL]"

definition demo_notif_os :: "seccomp_notif list notif_os" where
  "demo_notif_os =
     \<lparr> sys_notif_sizes = (\<lambda>w. (Inr (80, 24), w)),
       sys_malloc = (\<lambda>n w. (True, w)),
       sys_notif_recv = (\<lambda>w. case w of [] \<Rightarrow> (Inl 5, w) | r # rs \<Rightarrow>
         if wf_data (nf_data r) \<and> native (nf_data r) \<and> sd_nr (nf_data r) = NR_mkdir then (Inr r, rs) else (Inl 5, w)),
       sys_id_valid = (\<lambda>i w. (True, w)),
       sys_notif_send = (\<lambda>r w. (None, w)),
       sys_notif_addfd = (\<lambda>a w. (Inr (af_newfd a), w)),
       sys_open_mem = (\<lambda>pid w. (Some 7, w)),
       sys_pread = (\<lambda>fd n a w. (Some (take n (demo_memory a)), w)),
       sys_close = (\<lambda>fd w. w),
       sys_sleep = (\<lambda>w. w),
       sys_mkdir = (\<lambda>p m w. (None, w)),
       sys_openat = (\<lambda>d p f m w. (Inr 5, w)) \<rparr>"

definition demo_request :: "64 word \<Rightarrow> 64 word \<Rightarrow> seccomp_notif" where
  "demo_request i a = \<lparr> nf_id = i, nf_pid = 100, nf_data = demo_data NR_mkdir [a, 0x1c0, 0, 0, 0, 0] \<rparr>"

definition demo_opts :: cmdLineOpts where
  "demo_opts = \<lparr> delaySecs = 0, secondFilter = -1 \<rparr>"

definition demo_sup :: "seccomp_notif list \<Rightarrow> seccomp_notif list sup" where
  "demo_sup w = \<lparr> world = w, path_buf = replicate 4096 NUL, slog = [] \<rparr>"

lemma demo_notif_kernel_ok: "malloc_ok demo_notif_os" "notified_by mkdir_notify_filter demo_notif_os"
  by (auto simp: malloc_ok_def notified_by_def demo_notif_os_def mkdir_notify.decides notify_on_def
      split: list.splits if_splits)

section \<open>Logs of complete runs\<close>

lemma history_Nil [simp]: "history seg stop []"
  unfolding history_def by (intro exI [of _ "[]"]) simp

lemma history_mono:
  "history seg stop l \<Longrightarrow> (\<And>e. seg e \<Longrightarrow> seg' e) \<Longrightarrow> (\<And>e. stop e \<Longrightarrow> stop' e) \<Longrightarrow> history seg' stop' l"
  unfolding history_def by blast

lemma alloc_final:
  assumes "malloc_ok os" and "\<And>size t. slog t = slog s \<Longrightarrow> final P (f (size, True) t)"
    and "\<And>t. slog t = slog s \<Longrightarrow> P t"
  shows "final P (obind (allocSeccompNotifBuffers os s) f)"
proof -
  obtain r w where sz: "sys_notif_sizes os (world s) = (r, w)" by fastforce
  show ?thesis
  proof (cases r)
    case (Inl e)
    with sz assms(3) show ?thesis by (simp add: allocSeccompNotifBuffers_def)
  next
    case (Inr p)
    obtain a b where p: "p = (a, b)" by fastforce
    obtain w1 where m: "sys_malloc os a w = (True, w1)"
      using assms(1) unfolding malloc_ok_def by (metis prod.collapse)
    define k where "k = (if SIZEOF_NOTIF_RESP > b then SIZEOF_NOTIF_RESP else b)"
    obtain w2 where m': "sys_malloc os k w1 = (True, w2)"
      using assms(1) unfolding malloc_ok_def by (metis prod.collapse)
    show ?thesis
      using sz Inr p m m' assms(2) by (simp add: allocSeccompNotifBuffers_def k_def [symmetric])
  qed
qed

lemma mkdir_run_history:
  assumes "malloc_ok os" and "slog s = []"
  shows "final (\<lambda>t. history (\<lambda>e. mkdir_seg opts e \<and> from_kernel os e)
      (\<lambda>e. mkdir_stop opts e \<and> from_kernel os e) (slog t)) (handleNotifications_mkdir n os garbage opts s)"
  unfolding handleNotifications_mkdir_def
  using assms(2) mkdir_sup.loop_history by (intro alloc_final [OF assms(1)]) simp_all

lemma openat_run_history:
  assumes "malloc_ok os" and "slog s = []"
  shows "final (\<lambda>t. history (\<lambda>e. openat_seg e \<and> from_kernel os e)
      (\<lambda>e. openat_stop e \<and> from_kernel os e) (slog t)) (handleNotifications_openat n os garbage s)"
  unfolding handleNotifications_openat_def
  using assms(2) openat_sup.loop_history by (intro alloc_final [OF assms(1)]) simp_all

text \<open>An event of a log belongs to one of its turns, and what precedes it in the log ends with what precedes it in the turn.\<close>

lemma concat_at:
  "concat segs = before @ x # after \<Longrightarrow> \<exists>l1 e1 e2. e1 @ x # e2 \<in> set segs \<and> before = l1 @ e1"
proof (induction segs arbitrary: before)
  case (Cons e segs)
  from Cons.prems have "e @ concat segs = before @ x # after" by simp
  then consider (here) us where "e = before @ x # us" | (later) us where "before = e @ us" "concat segs = us @ x # after"
    by (auto simp: append_eq_append_conv2 append_eq_Cons_conv Cons_eq_append_conv)
  then show ?case
  proof cases
    case here
    then show ?thesis by (intro exI [of _ "[]"] exI [of _ before] exI [of _ us]) simp
  next
    case later
    from Cons.IH [OF later(2)] obtain l1 e1 e2 where "e1 @ x # e2 \<in> set segs" "us = l1 @ e1" by blast
    with later(1) show ?thesis by (intro exI [of _ "e @ l1"] exI [of _ e1] exI [of _ e2]) simp
  qed
qed simp

lemma history_at:
  assumes "history (\<lambda>e. seg e \<and> k e) (\<lambda>e. stop e \<and> k e) l" and "l = before @ x # after"
  shows "\<exists>l1 e1 e2. (seg (e1 @ x # e2) \<or> stop (e1 @ x # e2)) \<and> before = l1 @ e1"
proof -
  obtain segs tail where l: "l = concat (segs @ (if tail = [] then [] else [tail]))"
    and s: "\<forall>e\<in>set segs. seg e" "tail = [] \<or> stop tail"
  proof -
    obtain segs tail where "l = concat segs @ tail" "\<forall>e\<in>set segs. seg e" "tail = [] \<or> stop tail"
      using assms(1) by (auto simp: history_def)
    then show thesis by (intro that [of segs tail]) simp_all
  qed
  from concat_at [OF l [symmetric, unfolded assms(2)]] s show ?thesis by (fastforce split: if_splits)
qed

lemma history_in:
  assumes "history seg stop l" and "x \<in> set l"
  obtains e where "seg e \<or> stop e" "x \<in> set e" "set e \<subseteq> set l"
  using assms by (fastforce simp: history_def)

text \<open>The call of \<^verbatim>\<open>mkdir()\<close> directly follows a fetch of its pathname, from the address that the target
  passed, between two checks that found the notification still pending.\<close>

definition acts_on_pending :: "sup_event list \<Rightarrow> cstring \<Rightarrow> bool" where
  "acts_on_pending before p \<longleftrightarrow> take 5 p = ''/tmp/'' \<and> (\<exists>pre req mid fd bs.
     before = pre @ Received req # mid @ [Opened fd, Checked (nf_id req) True, Read (sd_args (nf_data req) ! 0) bs, Closed fd,
        Checked (nf_id req) True]
     \<and> set mid \<subseteq> {Checked (nf_id req) True} \<and> NUL \<in> set bs \<and> p = cstr bs)"

lemma split_at: "a @ x # b = c @ y # [z] \<Longrightarrow> x \<notin> set c \<Longrightarrow> x \<noteq> z \<Longrightarrow> a = c \<and> x = y"
proof (induction a arbitrary: c)
  case Nil
  then show ?case by (cases c) auto
next
  case (Cons d a)
  show ?case
  proof (cases c)
    case Nil
    with Cons.prems have "a @ x # b = [z]" by simp
    then have "x \<in> set [z]" by (metis in_set_conv_decomp)
    with Cons.prems(3) show ?thesis by simp
  next
    case (Cons e c')
    with Cons.prems Cons.IH [of c'] show ?thesis by simp
  qed
qed

lemma mkdir_turn_acts:
  assumes "mkdir_seg opts e \<or> mkdir_stop opts e" and "e = before @ Mkdir p m r # after"
  shows "acts_on_pending before p"
proof -
  have m: "Mkdir p m r \<in> set e" using assms(2) by simp
  then have "\<not> mkdir_stop opts e" by (auto simp: mkdir_stop_def)
  then obtain req evs resp x where a: "mkdir_answer req evs resp"
    and e: "e = Received req # delay_passed opts req @ evs @ [Sent resp x]"
    using assms(1) by (auto simp: mkdir_seg_def)
  have d: "set (delay_passed opts req) \<subseteq> {Checked (nf_id req) True}" by (auto simp: delay_passed_def)
  have in_evs: "Mkdir p m r \<in> set evs" using m e d by auto
  obtain bs fevs r' where f: "fetched req 0 bs fevs" "mkdir_policy (cstr bs) = Perform"
    and evs: "evs = fevs @ [Mkdir (cstr bs) (ucast (sd_args (nf_data req) ! 1)) r']"
    using a in_evs by cases (auto simp: fetched_def elim: fetch_failed.cases)
  let ?x = "Mkdir (cstr bs) (ucast (sd_args (nf_data req) ! 1)) r'"
  let ?b = "Received req # delay_passed opts req @ fevs"
  have no: "Mkdir p m r \<notin> set ?b" using f(1) d by (auto simp: fetched_def)
  have "before @ Mkdir p m r # after = ?b @ ?x # [Sent resp x]" using assms(2) e evs by simp
  then have "before = ?b \<and> Mkdir p m r = ?x"
    using no split_at [of before "Mkdir p m r" after ?b ?x "Sent resp x"] by blast
  then have b: "before = ?b" "p = cstr bs" by auto
  have "take 5 p = ''/tmp/''" using f(2) b(2) by (simp add: mkdir_policy_def split: if_splits)
  moreover obtain fd where "NUL \<in> set bs"
    "fevs = [Opened fd, Checked (nf_id req) True, Read (sd_args (nf_data req) ! 0) bs, Closed fd, Checked (nf_id req) True]"
    using f(1) by (auto simp: fetched_def)
  ultimately show ?thesis using b d unfolding acts_on_pending_def
    by (intro conjI exI [of _ "[]"] exI [of _ req] exI [of _ "delay_passed opts req"] exI [of _ fd] exI [of _ bs]) simp_all
qed

lemma acts_on_pending_later: "acts_on_pending e1 p \<Longrightarrow> acts_on_pending (l1 @ e1) p"
  unfolding acts_on_pending_def by (metis append_assoc)

lemma mkdir_turn_unexpected:
  assumes "mkdir_seg opts e \<or> mkdir_stop opts e" and "Unexpected nr \<in> set e"
  shows "\<exists>req. Received req \<in> set e \<and> sd_nr (nf_data req) \<noteq> NR_mkdir"
proof (cases "mkdir_stop opts e")
  case True
  with assms(2) show ?thesis by (auto simp: mkdir_stop_def)
next
  case False
  then obtain req evs resp x where a: "mkdir_answer req evs resp"
    and e: "e = Received req # delay_passed opts req @ evs @ [Sent resp x]"
    using assms(1) by (auto simp: mkdir_seg_def)
  have "Unexpected nr \<in> set evs" using assms(2) e by (auto simp: delay_passed_def split: if_splits)
  with a have False by cases (auto simp: fetched_def elim: fetch_failed.cases)
  then show ?thesis ..
qed

lemma notified_is_mkdir:
  "notified_by mkdir_notify_filter os \<Longrightarrow> sys_notif_recv os w = (Inr req, w') \<Longrightarrow> sd_nr (nf_data req) = NR_mkdir"
proof -
  assume "notified_by mkdir_notify_filter os" and "sys_notif_recv os w = (Inr req, w')"
  then have "wf_data (nf_data req)" "run_filter mkdir_notify_filter (nf_data req) = Some SECCOMP_RET_USER_NOTIF"
    unfolding notified_by_def by blast+
  then have "notify_on NR_mkdir (nf_data req) = SECCOMP_RET_USER_NOTIF"
    using mkdir_notify.passed_native [of "nf_data req" SECCOMP_RET_USER_NOTIF] by (simp add: seccomp_consts)
  then show ?thesis by (simp add: notify_on_def seccomp_consts split: if_splits)
qed

text \<open>
  C27. When \<^verbatim>\<open>malloc()\<close> finds memory, and otherwise whatever the kernel, the target and other processes do, for every number of turns
  and whatever the uninitialised pathname array holds at first,
  what the \<^verbatim>\<open>mkdir()\<close> supervisor has done consists of complete answers, possibly followed by
  one notification during which it exited. In a complete answer the pathname is read from the
  target between two successful checks of the notification, and exactly one response is sent,
  with the identifier of the notification: the result of the supervisor's own \<^verbatim>\<open>mkdir()\<close> for
  names below \<^verbatim>\<open>/tmp/\<close>, permission to continue for names that start with \<^verbatim>\<open>./\<close>,
  \<^verbatim>\<open>EOPNOTSUPP\<close> for other names, and \<^verbatim>\<open>EINVAL\<close> when no pathname could be fetched. The
  \<^verbatim>\<open>openat()\<close> supervisor opens every file it can read the name of with the target's own
  arguments, installs the descriptor in the target and closes its own copy before it answers.
  Without memory for the response buffer the behaviour is undefined, see below.
\<close>

theorem supervisors_refine_policy:
  assumes "malloc_ok os" and "slog s = []"
  shows "final (\<lambda>t. history (mkdir_seg opts) (mkdir_stop opts) (slog t)) (handleNotifications_mkdir n os garbage opts s)
    \<and> final (\<lambda>t. history openat_seg openat_stop (slog t)) (handleNotifications_openat n os garbage s)"
proof
  show "final (\<lambda>t. history (mkdir_seg opts) (mkdir_stop opts) (slog t)) (handleNotifications_mkdir n os garbage opts s)"
    using mkdir_run_history [OF assms, of opts n garbage] by (rule final_mono) (erule history_mono, simp_all)
  show "final (\<lambda>t. history openat_seg openat_stop (slog t)) (handleNotifications_openat n os garbage s)"
    using openat_run_history [OF assms, of n garbage] by (rule final_mono) (erule history_mono, simp_all)
qed

theorem supervisors_refine_policy_witness:
  "final (\<lambda>t. history (mkdir_seg demo_opts) (mkdir_stop demo_opts) (slog t))
     (handleNotifications_mkdir 3 demo_notif_os ''garbage'' demo_opts (demo_sup [demo_request 1 16, demo_request 2 32]))"
  using supervisors_refine_policy [OF demo_notif_kernel_ok(1), of "demo_sup [demo_request 1 16, demo_request 2 32]" demo_opts 3 "''garbage''"]
  by (simp add: demo_sup_def)

definition mkdir_log_safe :: "sup_event list \<Rightarrow> bool" where
  "mkdir_log_safe l \<longleftrightarrow>
      (\<forall>before p m r after. l = before @ Mkdir p m r # after \<longrightarrow> acts_on_pending before p)
    \<and> (\<exists>rest. received_ids l = sent_ids l @ rest \<and> length rest \<le> 1)
    \<and> (\<forall>nr. Unexpected nr \<notin> set l)"

text \<open>
  C28. The \<^verbatim>\<open>mkdir()\<close> supervisor together with the filter that it installed in the target, when \<^verbatim>\<open>malloc()\<close> finds
  memory and whatever the uninitialised pathname array holds at first: every directory it
  creates has a name that begins with \<^verbatim>\<open>/tmp/\<close> and that it has read, directly before, from the address that the
  target passed, between two checks that found the notification of that call still pending; its responses answer the notifications in the order received, one each, and at most
  the last notification is left unanswered; and its test for a system call other than
  \<^verbatim>\<open>mkdir()\<close> never fires.
\<close>

theorem mkdir_supervisor_safe:
  assumes "malloc_ok os" and "notified_by mkdir_notify_filter os" and "slog s = []"
  shows "final (\<lambda>t. mkdir_log_safe (slog t)) (handleNotifications_mkdir n os garbage opts s)"
  using mkdir_run_history [OF assms(1,3), of opts n garbage]
proof (rule final_mono, unfold mkdir_log_safe_def, intro conjI allI impI)
  fix t :: "'a sup"
  assume h: "history (\<lambda>e. mkdir_seg opts e \<and> from_kernel os e) (\<lambda>e. mkdir_stop opts e \<and> from_kernel os e) (slog t)"
  show "\<exists>rest. received_ids (slog t) = sent_ids (slog t) @ rest \<and> length rest \<le> 1"
    using h by (rule mkdir_sup.history_ids)
  show "acts_on_pending before p" if "slog t = before @ Mkdir p m r # after" for before p m r after
  proof -
    obtain l1 e1 e2 where "mkdir_seg opts (e1 @ Mkdir p m r # e2) \<or> mkdir_stop opts (e1 @ Mkdir p m r # e2)" "before = l1 @ e1"
      using history_at [OF h \<open>slog t = before @ Mkdir p m r # after\<close>] by blast
    then show ?thesis using mkdir_turn_acts acts_on_pending_later by blast
  qed
  show "Unexpected nr \<notin> set (slog t)" for nr
  proof
    assume "Unexpected nr \<in> set (slog t)"
    then obtain e where "mkdir_seg opts e \<or> mkdir_stop opts e" "from_kernel os e" "Unexpected nr \<in> set e"
      using history_in [OF h] by blast
    then obtain req where "Received req \<in> set e" "sd_nr (nf_data req) \<noteq> NR_mkdir"
      using mkdir_turn_unexpected by blast
    with \<open>from_kernel os e\<close> show False
      using notified_is_mkdir [OF assms(2)] by (auto simp: from_kernel_def)
  qed
qed

theorem mkdir_supervisor_safe_witness:
  "\<exists>t. handleNotifications_mkdir 2 demo_notif_os ''garbage'' demo_opts (demo_sup [demo_request 1 16, demo_request 2 48]) = Ret () t
     \<and> mkdir_log_safe (slog t) \<and> Mkdir ''/tmp/a'' 0x1c0 None \<in> set (slog t)"
proof -
  have "case handleNotifications_mkdir 2 demo_notif_os ''garbage'' demo_opts (demo_sup [demo_request 1 16, demo_request 2 48]) of
      Ret _ t \<Rightarrow> Mkdir ''/tmp/a'' 0x1c0 None \<in> set (slog t) | _ \<Rightarrow> False"
    by code_simp
  moreover have "final (\<lambda>t. mkdir_log_safe (slog t))
      (handleNotifications_mkdir 2 demo_notif_os ''garbage'' demo_opts (demo_sup [demo_request 1 16, demo_request 2 48]))"
    using mkdir_supervisor_safe [OF demo_notif_kernel_ok, of "demo_sup [demo_request 1 16, demo_request 2 48]"]
    by (simp add: demo_sup_def)
  ultimately show ?thesis by (auto split: outcome.splits)
qed

section \<open>Fetching a pathname\<close>

fun opened_fds :: "sup_event list \<Rightarrow> int list" where
  "opened_fds [] = []"
| "opened_fds (Opened fd # l) = fd # opened_fds l"
| "opened_fds (e # l) = opened_fds l"

fun closed_fds :: "sup_event list \<Rightarrow> int list" where
  "closed_fds [] = []"
| "closed_fds (Closed fd # l) = fd # closed_fds l"
| "closed_fds (e # l) = closed_fds l"

text \<open>
  \<^verbatim>\<open>getTargetPathname()\<close> reports success exactly when it read a null-terminated string
  from the address in the target's argument, between two checks that both found the
  notification still valid; the caller's buffer then holds that string. Every descriptor that
  it opens is closed again on every path, and the only other results are its three error codes.
\<close>

theorem target_pathname_checked:
  assumes "getTargetPathname os req argNum len s = (st, t)"
  shows "\<exists>evs. slog t = slog s @ evs \<and> opened_fds evs = closed_fds evs
    \<and> (st = 0 \<longleftrightarrow> (\<exists>bs. fetched req argNum bs evs \<and> cstr (path_buf t) = cstr bs))
    \<and> st \<in> {0, GTP_BAD_READ, GTP_ID_NOT_VALID, GTP_BAD_PATH}"
  using assms
proof (cases rule: getTargetPathname_cases)
  case (success bs evs)
  then show ?thesis by (intro exI [of _ evs]) (auto simp: fetched_def)
next
  case (failure evs)
  have "\<not> fetched req argNum bs evs" for bs
    using failure(1) by cases (auto simp: fetched_def)
  moreover have "opened_fds evs = closed_fds evs" "st \<in> {GTP_BAD_READ, GTP_ID_NOT_VALID, GTP_BAD_PATH}"
    using failure(1) by (cases; simp)+
  ultimately show ?thesis
    using failure fetch_failed_status [OF failure(1)] by (intro exI [of _ evs]) auto
qed

theorem target_pathname_checked_witness:
  "\<exists>evs. slog (snd (getTargetPathname demo_notif_os (demo_request 1 16) 0 4096 (demo_sup []))) = evs
     \<and> opened_fds evs = closed_fds evs
     \<and> fst (getTargetPathname demo_notif_os (demo_request 1 16) 0 4096 (demo_sup [])) \<in> {0, -1, -2, -3}"
  using target_pathname_checked [OF prod.collapse [symmetric],
      of demo_notif_os "demo_request 1 16" 0 4096 "demo_sup []"]
  by (auto simp: demo_sup_def gtp_codes)

section \<open>Weaknesses\<close>

text \<open>When the response buffer cannot be allocated, \<^verbatim>\<open>allocSeccompNotifBuffers()\<close> still returns,
  and the first notification is undefined behaviour instead of an error message.\<close>

definition low_memory_os :: "seccomp_notif list notif_os" where
  "low_memory_os = demo_notif_os\<lparr> sys_malloc := (\<lambda>n w. (24 < n, w)) \<rparr>"

lemma missing_response_buffer_unnoticed:
  "handleNotifications_mkdir 1 low_memory_os garbage demo_opts (demo_sup [demo_request 1 16]) = Undef"
  by (simp add: handleNotifications_mkdir_def allocSeccompNotifBuffers_def low_memory_os_def demo_notif_os_def
      SIZEOF_NOTIF_RESP_def demo_sup_def demo_request_def demo_data_def mkdir_turn_def wf_data_def native_def
      seccomp_consts delay_response_def demo_opts_def split: prod.split)

text \<open>When the first pathname cannot be fetched, what the uninitialised array happens to hold decides
  whether the supervisor goes on.\<close>

lemma unread_path_compared:
  "\<exists>s t. handleNotifications_mkdir 1 (demo_notif_os\<lparr> sys_open_mem := (\<lambda>pid w. (None, w)) \<rparr>) (''/bye'' @ [NUL]) demo_opts (demo_sup [demo_request 1 16]) = Exit 1 s
    \<and> handleNotifications_mkdir 1 (demo_notif_os\<lparr> sys_open_mem := (\<lambda>pid w. (None, w)) \<rparr>) [NUL] demo_opts (demo_sup [demo_request 1 16]) = Ret () t"
  by (simp add: handleNotifications_mkdir_def allocSeccompNotifBuffers_def demo_notif_os_def getTargetPathname_def
      SIZEOF_NOTIF_RESP_def demo_sup_def demo_request_def demo_data_def mkdir_turn_def wf_data_def native_def mkdir_response_def
      send_response_def seccomp_consts delay_response_def demo_opts_def cstr_def gtp_codes NUL_def split: prod.split)

text \<open>The test for names below \<^verbatim>\<open>/tmp\<close> only looks at the first five characters.\<close>

lemma tmp_prefix_escapes: "mkdir_policy ''/tmp/../etc/new'' = Perform"
  by (simp add: mkdir_policy_def)

end
