(* ===== verification/Filter_Files.thy ===== *)
theory Filter_Files
  imports Seccomp_Filters
begin

text \<open>
  Filters in files: \<^verbatim>\<open>dump_seccomp_filter.c\<close> fetches a filter of another process and writes
  its instructions to a file, \<^verbatim>\<open>seccomp_launch.c\<close> reads such a file and installs the filter
  before it executes a program. The system calls are arguments over an opaque state.
\<close>

section \<open>The bytes of an instruction\<close>

type_synonym byte = "8 word"

text \<open>\<^verbatim>\<open>struct sock_filter\<close> in memory, on a little-endian machine.\<close>

definition sock_filter_bytes :: "sock_filter \<Rightarrow> byte list" where
  "sock_filter_bytes i =
     [ucast (sf_code i), ucast (drop_bit 8 (sf_code i)), sf_jt i, sf_jf i,
      ucast (sf_k i), ucast (drop_bit 8 (sf_k i)), ucast (drop_bit 16 (sf_k i)), ucast (drop_bit 24 (sf_k i))]"

definition filter_bytes :: "sock_filter list \<Rightarrow> byte list" where
  "filter_bytes p = concat (map sock_filter_bytes p)"

fun bytes_filter :: "byte list \<Rightarrow> sock_filter list" where
  "bytes_filter (c0 # c1 # t # f # k0 # k1 # k2 # k3 # bs) =
     \<lparr> sf_code = ucast c0 OR push_bit 8 (ucast c1), sf_jt = t, sf_jf = f,
       sf_k = ucast k0 OR push_bit 8 (ucast k1) OR push_bit 16 (ucast k2) OR push_bit 24 (ucast k3) \<rparr>
     # bytes_filter bs"
| "bytes_filter bs = []"

definition SIZEOF_SOCK_FILTER :: nat where [simp]: "SIZEOF_SOCK_FILTER = 8"

lemma join_bytes_16: "ucast (ucast (w :: 16 word) :: byte) OR push_bit 8 (ucast (ucast (drop_bit 8 w) :: byte)) = w"
  by (rule bit_word_eqI) (auto simp: bit_simps)

lemma join_bytes_32:
  "ucast (ucast (w :: 32 word) :: byte) OR push_bit 8 (ucast (ucast (drop_bit 8 w) :: byte))
    OR push_bit 16 (ucast (ucast (drop_bit 16 w) :: byte)) OR push_bit 24 (ucast (ucast (drop_bit 24 w) :: byte)) = w"
  (is "?l = w")
proof (rule bit_word_eqI)
  fix n
  assume "n < LENGTH(32)"
  then consider "n < 8" | "8 \<le> n" "n < 16" | "16 \<le> n" "n < 24" | "24 \<le> n" "n < 32" by fastforce
  then show "bit ?l n = bit w n"
    by cases (auto simp: bit_simps)
qed

lemma bytes_filter_bytes: "bytes_filter (filter_bytes p) = p"
  by (induction p) (simp_all add: filter_bytes_def sock_filter_bytes_def join_bytes_16 join_bytes_32 del: push_bit_of_1)

lemma length_filter_bytes [simp]: "length (filter_bytes p) = 8 * length p"
  by (induction p) (simp_all add: filter_bytes_def sock_filter_bytes_def)

section \<open>System calls\<close>

record 'w fs_os =
  fs_create :: "cstring \<Rightarrow> 'w \<Rightarrow> int option \<times> 'w"
  fs_open :: "cstring \<Rightarrow> 'w \<Rightarrow> int option \<times> 'w"
  fs_size :: "int \<Rightarrow> 'w \<Rightarrow> int option"
  fs_write :: "int \<Rightarrow> byte list \<Rightarrow> 'w \<Rightarrow> nat option \<times> 'w"
  fs_read :: "int \<Rightarrow> nat \<Rightarrow> 'w \<Rightarrow> byte list option \<times> 'w"
  fs_close :: "int \<Rightarrow> 'w \<Rightarrow> bool \<times> 'w"
  pr_no_new_privs :: "'w \<Rightarrow> bool \<times> 'w"
  heap_alloc :: "int \<Rightarrow> 'w \<Rightarrow> bool \<times> 'w"
  sc_install :: "sock_fprog \<Rightarrow> 'w \<Rightarrow> bool \<times> 'w"
  pt_attach :: "int \<Rightarrow> 'w \<Rightarrow> bool \<times> 'w"
  pt_wait :: "int \<Rightarrow> 'w \<Rightarrow> bool \<times> 'w"
  pt_filter_count :: "int \<Rightarrow> int \<Rightarrow> 'w \<Rightarrow> int option \<times> 'w"
  pt_get_filter :: "int \<Rightarrow> int \<Rightarrow> 'w \<Rightarrow> sock_filter list option \<times> 'w"

section \<open>dump\_seccomp\_filter.c\<close>

definition fetchFilter :: "'w fs_os \<Rightarrow> int \<Rightarrow> int \<Rightarrow> 'w \<Rightarrow> (sock_filter list, 'w) outcome" where
  "fetchFilter os pid filterIndex w =
     obind (must (pt_attach os pid) w) (\<lambda>_ w.
     obind (must (pt_wait os pid) w) (\<lambda>_ w.
     obind (must_get (pt_filter_count os pid filterIndex) w) (\<lambda>icnt w.
     obind (must (heap_alloc os (8 * icnt)) w) (\<lambda>_ w.
     must_get (pt_get_filter os pid filterIndex) w))))"

text \<open>A short count from \<^verbatim>\<open>write()\<close> is not an error for the program.\<close>

definition dumpFilter :: "'w fs_os \<Rightarrow> cstring \<Rightarrow> sock_filter list \<Rightarrow> 'w \<Rightarrow> (unit, 'w) outcome" where
  "dumpFilter os pathname filterProg w =
     obind (must_get (fs_create os pathname) w) (\<lambda>fd w.
     obind (must_get (fs_write os fd (filter_bytes filterProg)) w) (\<lambda>n w.
     must (fs_close os fd) w))"

definition dump_main :: "'w fs_os \<Rightarrow> int \<Rightarrow> int \<Rightarrow> cstring \<Rightarrow> 'w \<Rightarrow> (unit, 'w) outcome" where
  "dump_main os pid filterIndex pathname w =
     obind (fetchFilter os pid filterIndex w) (\<lambda>filterProg w. dumpFilter os pathname filterProg w)"

section \<open>seccomp\_launch.c\<close>

text \<open>The static flag of \<^verbatim>\<open>loadFilter()\<close> is passed along. The file size is stored in an \<^verbatim>\<open>int\<close>,
  the number of instructions in an \<^verbatim>\<open>unsigned short\<close>.\<close>

definition int_of_size :: "int \<Rightarrow> int" where
  "int_of_size n = sint (word_of_int n :: 32 word)"

definition size_t :: "int \<Rightarrow> int" where
  "size_t n = uint (word_of_int n :: 64 word)"

definition loadFilter :: "'w fs_os \<Rightarrow> cstring \<Rightarrow> bool \<Rightarrow> 'w \<Rightarrow> (bool, 'w) outcome" where
  "loadFilter os filterPathname noNewPrivsAlreadySet w =
     obind (if noNewPrivsAlreadySet then Ret () w else must (pr_no_new_privs os) w) (\<lambda>_ w.
     obind (must_get (fs_open os filterPathname) w) (\<lambda>fd w.
     case fs_size os fd w of
       None \<Rightarrow> Exit EXIT_FAILURE w
     | Some st_size \<Rightarrow>
         (let filterSize = int_of_size st_size in
          if size_t filterSize mod 8 \<noteq> 0 then Exit EXIT_FAILURE w
          else
            obind (must (heap_alloc os (size_t filterSize)) w) (\<lambda>_ w.
            obind (must_get (fs_read os fd (nat (size_t filterSize))) w) (\<lambda>filter w.
            if int (length filter) \<noteq> filterSize then Exit EXIT_FAILURE w
            else
              obind (must (fs_close os fd) w) (\<lambda>_ w.
              obind (must (sc_install os \<lparr> fp_len = word_of_int (size_t filterSize div 8),
                                            fp_filter = bytes_filter filter \<rparr>) w) (\<lambda>_ w.
              Ret True w)))))))"

text \<open>The options \<^verbatim>\<open>-f\<close> in order: every filter is loaded before the program is executed.\<close>

fun load_filters :: "'w fs_os \<Rightarrow> cstring list \<Rightarrow> bool \<Rightarrow> 'w \<Rightarrow> (bool, 'w) outcome" where
  "load_filters os [] nnp w = Ret nnp w"
| "load_filters os (f # fs) nnp w = obind (loadFilter os f nnp w) (\<lambda>nnp w. load_filters os fs nnp w)"

section \<open>From one process to another\<close>

text \<open>A kernel on which nothing fails: \<open>cont\<close> are the contents of the files, \<open>inst\<close> the filters
  installed, newest first. What is written to a new file is what a later \<^verbatim>\<open>open()\<close> finds, a
  regular file delivers all bytes asked for, and a filter that passes the check is installed
  with the instructions its length field covers.\<close>

definition writes_files :: "'w fs_os \<Rightarrow> ('w \<Rightarrow> cstring \<Rightarrow> byte list option) \<Rightarrow> ('w \<Rightarrow> sock_filter list list) \<Rightarrow> bool" where
  "writes_files os cont inst \<longleftrightarrow> (\<forall>p bs w. \<exists>fd w1 w2 w3.
     fs_create os p w = (Some fd, w1) \<and> fs_write os fd bs w1 = (Some (length bs), w2)
     \<and> fs_close os fd w2 = (True, w3) \<and> cont w3 p = Some bs \<and> inst w3 = inst w)"

definition reads_files :: "'w fs_os \<Rightarrow> ('w \<Rightarrow> cstring \<Rightarrow> byte list option) \<Rightarrow> ('w \<Rightarrow> sock_filter list list) \<Rightarrow> bool" where
  "reads_files os cont inst \<longleftrightarrow> (\<forall>p bs w. cont w p = Some bs \<longrightarrow> (\<exists>fd w1 w2 w3 w4.
     fs_open os p w = (Some fd, w1) \<and> fs_size os fd w1 = Some (int (length bs))
     \<and> heap_alloc os (int (length bs)) w1 = (True, w2) \<and> fs_read os fd (length bs) w2 = (Some bs, w3)
     \<and> fs_close os fd w3 = (True, w4) \<and> inst w4 = inst w))"

definition sets_no_new_privs :: "'w fs_os \<Rightarrow> ('w \<Rightarrow> cstring \<Rightarrow> byte list option) \<Rightarrow> ('w \<Rightarrow> sock_filter list list) \<Rightarrow> bool" where
  "sets_no_new_privs os cont inst \<longleftrightarrow>
     (\<forall>w. \<exists>w'. pr_no_new_privs os w = (True, w') \<and> cont w' = cont w \<and> inst w' = inst w)"

definition installs_checked :: "'w fs_os \<Rightarrow> ('w \<Rightarrow> sock_filter list list) \<Rightarrow> bool" where
  "installs_checked os inst \<longleftrightarrow> (\<forall>prog w. seccomp_check_filter (loaded prog) \<longrightarrow>
     (\<exists>w'. sc_install os prog w = (True, w') \<and> inst w' = loaded prog # inst w))"

lemma size_conversions:
  assumes "0 \<le> n" and "n < 2 ^ 31"
  shows "int_of_size n = n" and "size_t n = n"
proof -
  have "int_of_size n = signed_take_bit 31 n"
    by (simp add: int_of_size_def sint_sbintrunc')
  then show "int_of_size n = n"
    using assms by (simp add: signed_take_bit_int_eq_self)
  show "size_t n = n"
    using assms by (simp add: size_t_def uint_word_of_int_eq take_bit_int_eq_self)
qed

lemma loaded_whole:
  assumes "length p < 65536"
  shows "loaded \<lparr> fp_len = word_of_int (8 * int (length p) div 8), fp_filter = p \<rparr> = p"
proof -
  have "unat (word_of_int (int (length p)) :: 16 word) = length p"
    using assms unat_len [of "int (length p)"] by simp
  then show ?thesis by (simp add: loaded_def)
qed

text \<open>\<open>prog\<close> is the filter of process \<open>pid\<close> at index \<open>idx\<close>, and fetching it works: \<^verbatim>\<open>ptrace()\<close> and \<^verbatim>\<open>waitpid()\<close>
  succeed, both requests report the same filter, and there is memory for it.\<close>

definition has_filter :: "'w fs_os \<Rightarrow> ('w \<Rightarrow> sock_filter list list) \<Rightarrow> int \<Rightarrow> int \<Rightarrow> sock_filter list \<Rightarrow> 'w \<Rightarrow> bool" where
  "has_filter os inst pid idx prog w \<longleftrightarrow> (\<exists>w1 w2 w3 w4 w5.
     pt_attach os pid w = (True, w1) \<and> pt_wait os pid w1 = (True, w2)
     \<and> pt_filter_count os pid idx w2 = (Some (int (length prog)), w3) \<and> heap_alloc os (8 * int (length prog)) w3 = (True, w4)
     \<and> pt_get_filter os pid idx w4 = (Some prog, w5) \<and> inst w5 = inst w)"

lemma fetch_returns: "has_filter os inst pid idx prog w \<Longrightarrow> \<exists>w'. fetchFilter os pid idx w = Ret prog w' \<and> inst w' = inst w"
  by (auto simp: has_filter_def fetchFilter_def must_def must_get_def)

text \<open>
  C39. A filter that \<^verbatim>\<open>dump_seccomp_filter\<close> fetches from a process (\<^verbatim>\<open>fetchFilter()\<close>) and writes to a file (\<^verbatim>\<open>dumpFilter()\<close>)
  and that \<^verbatim>\<open>loadFilter()\<close> of \<^verbatim>\<open>seccomp_launch\<close> loads again
  is installed unchanged, instruction by instruction, on a kernel on which nothing fails: fetching works, every \<^verbatim>\<open>write()\<close> is
  complete (the program does not notice a short one), files hold what was written
  to them, there is memory, and filters that pass the kernel's check are accepted. Both programs then return, and the newest filter is the one
  that was fetched.
\<close>

theorem dump_load_roundtrip:
  assumes "writes_files os cont inst" and "reads_files os cont inst"
    and "sets_no_new_privs os cont inst" and "installs_checked os inst"
    and "seccomp_check_filter prog" and "has_filter os inst pid idx prog w0"
  shows "\<exists>w' w''. dump_main os pid idx path w0 = Ret () w'
    \<and> loadFilter os path noNewPrivs w' = Ret True w'' \<and> inst w'' = prog # inst w0"
proof -
  obtain w where w: "fetchFilter os pid idx w0 = Ret prog w" "inst w = inst w0" using fetch_returns [OF assms(6)] by blast
  have len: "length prog \<le> 4096" using assms(5) by (simp add: seccomp_check_filter_def BPF_MAXINSNS_def)
  obtain fd w1 w2 w' where wr: "fs_create os path w = (Some fd, w1)"
      "fs_write os fd (filter_bytes prog) w1 = (Some (length (filter_bytes prog)), w2)"
      "fs_close os fd w2 = (True, w')" "cont w' path = Some (filter_bytes prog)" "inst w' = inst w"
    using assms(1) [unfolded writes_files_def, rule_format, of path w "filter_bytes prog"] by blast
  obtain u where u: "(if noNewPrivs then Ret () w' else must (pr_no_new_privs os) w') = Ret () u"
      "cont u = cont w'" "inst u = inst w'"
    using assms(3) unfolding sets_no_new_privs_def by (cases noNewPrivs) (auto simp: must_Ret_iff)
  obtain fd' u1 u2 u3 u4 where rd: "fs_open os path u = (Some fd', u1)"
      "fs_size os fd' u1 = Some (8 * int (length prog))"
      "heap_alloc os (8 * int (length prog)) u1 = (True, u2)"
      "fs_read os fd' (8 * length prog) u2 = (Some (filter_bytes prog), u3)"
      "fs_close os fd' u3 = (True, u4)" "inst u4 = inst u"
    using assms(2) [unfolded reads_files_def, rule_format, of u path "filter_bytes prog"] wr(4) u(2) by auto
  define fprog where "fprog = \<lparr> fp_len = word_of_int (8 * int (length prog) div 8), fp_filter = prog \<rparr>"
  have ld: "loaded fprog = prog" using len loaded_whole by (simp add: fprog_def)
  obtain w'' where inst: "sc_install os fprog u4 = (True, w'')" "inst w'' = prog # inst u4"
    using assms(4) [unfolded installs_checked_def, rule_format, of fprog u4] assms(5) ld by auto
  have sz: "int_of_size (8 * int (length prog)) = 8 * int (length prog)"
      "size_t (8 * int (length prog)) = 8 * int (length prog)"
    using len size_conversions [of "8 * int (length prog)"] by simp_all
  have "dump_main os pid idx path w0 = Ret () w'"
    using wr w by (simp add: dump_main_def dumpFilter_def must_def must_get_def)
  moreover have "loadFilter os path noNewPrivs w' = Ret True w''"
    using u(1) rd inst(1)
    by (simp add: loadFilter_def must_def must_get_def sz bytes_filter_bytes fprog_def nat_mult_distrib Let_def)
  ultimately show ?thesis using inst(2) rd(6) u(3) wr(5) w(2) by metis
qed

text \<open>A kernel with files and filters; a descriptor stands for the file opened last.\<close>

record demo_fs =
  dfiles :: "(cstring \<times> byte list) list"
  dcur :: cstring
  dinst :: "sock_filter list list"

definition demo_cont :: "demo_fs \<Rightarrow> cstring \<Rightarrow> byte list option" where
  "demo_cont w p = map_of (dfiles w) p"

definition demo_fs_os :: "demo_fs fs_os" where
  "demo_fs_os =
     \<lparr> fs_create = (\<lambda>p w. (Some 3, w\<lparr> dfiles := (p, []) # dfiles w, dcur := p \<rparr>)),
       fs_open = (\<lambda>p w. (if demo_cont w p = None then None else Some 3, w\<lparr> dcur := p \<rparr>)),
       fs_size = (\<lambda>fd w. map_option (\<lambda>bs. int (length bs)) (demo_cont w (dcur w))),
       fs_write = (\<lambda>fd bs w. (Some (length bs), w\<lparr> dfiles := (dcur w, bs) # dfiles w \<rparr>)),
       fs_read = (\<lambda>fd n w. (map_option (take n) (demo_cont w (dcur w)), w)),
       fs_close = (\<lambda>fd w. (True, w)),
       pr_no_new_privs = (\<lambda>w. (True, w)),
       heap_alloc = (\<lambda>n w. (True, w)),
       sc_install = (\<lambda>p w. (seccomp_check_filter (loaded p), w\<lparr> dinst := loaded p # dinst w \<rparr>)),
       pt_attach = (\<lambda>pid w. (True, w)), pt_wait = (\<lambda>pid w. (True, w)),
       pt_filter_count = (\<lambda>pid i w. (Some (int (length (hd (dinst w)))), w)),
       pt_get_filter = (\<lambda>pid i w. (Some (hd (dinst w)), w)) \<rparr>"

lemma demo_fs_works:
  "writes_files demo_fs_os demo_cont dinst" "reads_files demo_fs_os demo_cont dinst"
  "sets_no_new_privs demo_fs_os demo_cont dinst" "installs_checked demo_fs_os dinst"
  by (auto simp: writes_files_def reads_files_def sets_no_new_privs_def installs_checked_def
      demo_fs_os_def demo_cont_def)

theorem dump_load_roundtrip_witness:
  "\<exists>w' w''. dump_main demo_fs_os 99 0 ''f.bpf'' \<lparr> dfiles = [], dcur = [], dinst = [arg64_filter] \<rparr> = Ret () w'
    \<and> loadFilter demo_fs_os ''f.bpf'' False w' = Ret True w'' \<and> dinst w'' = [arg64_filter, arg64_filter]"
proof -
  have "has_filter demo_fs_os dinst 99 0 arg64_filter \<lparr> dfiles = [], dcur = [], dinst = [arg64_filter] \<rparr>"
    by (simp add: has_filter_def demo_fs_os_def)
  from dump_load_roundtrip [OF demo_fs_works filters_checked(3) this, of "''f.bpf''" False] show ?thesis by simp
qed

text \<open>A short \<^verbatim>\<open>write()\<close> goes unnoticed.\<close>

lemma short_dump_unnoticed:
  "\<exists>w'. dumpFilter (demo_fs_os\<lparr> fs_write := (\<lambda>fd bs w. (Some 1, w\<lparr> dfiles := (dcur w, take 1 bs) # dfiles w \<rparr>)) \<rparr>)
     ''f.bpf'' arg64_filter \<lparr> dfiles = [], dcur = [], dinst = [] \<rparr> = Ret () w' \<and> demo_cont w' ''f.bpf'' = Some (take 1 (filter_bytes arg64_filter))"
  by (simp add: dumpFilter_def must_def must_get_def demo_fs_os_def demo_cont_def)

end
