(* ===== verification/Util_Lib.thy ===== *)
theory Util_Lib
  imports Strto_Num
begin

text \<open>
  Small library functions shared by the example programs: parsing of timer settings
  (\<^verbatim>\<open>timers/itimerspec_from_str.c\<close>), names and numeric IDs of users and groups
  (\<^verbatim>\<open>users_groups/ugid_functions.c\<close>), and the text form of file permissions
  (\<^verbatim>\<open>files/file_perms.c\<close>). The password and group databases are arguments.
\<close>

section \<open>Timer settings\<close>

record timespec =
  tv_sec :: int
  tv_nsec :: int

record itimerspec =
  it_value :: timespec
  it_interval :: timespec

text \<open>Cutting a string at the first occurrence of a character, which becomes a null byte.\<close>

definition cut :: "cstring \<Rightarrow> char \<Rightarrow> cstring \<times> cstring option" where
  "cut s c = (case strchr s c of None \<Rightarrow> (s, None) | Some (a, b) \<Rightarrow> (a, Some b))"

definition itimerspecFromStr :: "cstring \<Rightarrow> itimerspec" where
  "itimerspecFromStr str =
     (let (dupstr, cptr) = cut str (CHR '':'');
          (vsec, vnsec) = cut dupstr (CHR ''/'');
          vval = \<lparr>tv_sec = atoi vsec, tv_nsec = (case vnsec of None \<Rightarrow> 0 | Some x \<Rightarrow> atoi x)\<rparr>
      in case cptr of
           None \<Rightarrow> \<lparr>it_value = vval, it_interval = \<lparr>tv_sec = 0, tv_nsec = 0\<rparr>\<rparr>
         | Some istr \<Rightarrow>
             (let (isec, insec) = cut istr (CHR ''/'')
              in \<lparr>it_value = vval,
                  it_interval = \<lparr>tv_sec = atoi isec, tv_nsec = (case insec of None \<Rightarrow> 0 | Some x \<Rightarrow> atoi x)\<rparr>\<rparr>))"

text \<open>The documented syntax: seconds, optionally with nanoseconds after a slash.\<close>

definition time_text :: "int \<Rightarrow> int option \<Rightarrow> cstring" where
  "time_text s ns = dec s @ (case ns of None \<Rightarrow> [] | Some n \<Rightarrow> CHR ''/'' # dec n)"

definition time_of :: "int \<Rightarrow> int option \<Rightarrow> timespec" where
  "time_of s ns = \<lparr>tv_sec = s, tv_nsec = (case ns of None \<Rightarrow> 0 | Some n \<Rightarrow> n)\<rparr>"

definition in_int :: "int \<Rightarrow> bool" where
  "in_int v \<longleftrightarrow> INT_MIN \<le> v \<and> v \<le> INT_MAX"

lemma atoi_dec: "in_int v \<Longrightarrow> atoi (dec v) = v"
  using strto_dec [of "[]" v] to_int32_id [of v] by (auto simp: in_int_def atoi_def strtoll_def limit_defs)

lemma dec_chars: "c \<in> set (dec v) \<Longrightarrow> c \<noteq> CHR ''/'' \<and> c \<noteq> CHR '':'' \<and> c \<noteq> CHR ''=''"
  using dec_nat_digits [of "nat (-v)"] dec_nat_digits [of "nat v"]
  by (auto simp: dec_def is_digit_def digit_val_def Let_def split: if_splits)

lemma cut_dec: "cut (dec v) (CHR ''/'') = (dec v, None)" "cut (dec v @ CHR ''/'' # r) (CHR ''/'') = (dec v, Some r)"
  using dec_chars [of "CHR ''/''" v] strchr_None_iff [of "dec v" "CHR ''/''"] by (auto simp: cut_def)

lemma time_text_read:
  assumes "in_int s" and "\<forall>n. ns = Some n \<longrightarrow> in_int n"
  shows "(case cut (time_text s ns) (CHR ''/'') of (a, b) \<Rightarrow>
     \<lparr>tv_sec = atoi a, tv_nsec = (case b of None \<Rightarrow> 0 | Some x \<Rightarrow> atoi x)\<rparr>) = time_of s ns"
  using assms by (cases ns) (simp_all add: time_text_def time_of_def cut_dec atoi_dec)

lemma colon_time_text: "CHR '':'' \<notin> set (time_text s ns)"
  using dec_chars by (auto simp: time_text_def split: option.splits)

text \<open>
  Timer settings written in the documented syntax, with or without nanoseconds and
  interval, are read as they were written; what is left out is 0.
\<close>

theorem itimerspec_roundtrip:
  assumes "in_int s" and "\<forall>n. ns = Some n \<longrightarrow> in_int n"
    and "\<forall>t m. i = Some (t, m) \<longrightarrow> in_int t \<and> (\<forall>n. m = Some n \<longrightarrow> in_int n)"
  shows "itimerspecFromStr (time_text s ns @ (case i of None \<Rightarrow> [] | Some (t, m) \<Rightarrow> CHR '':'' # time_text t m))
    = \<lparr>it_value = time_of s ns, it_interval = (case i of None \<Rightarrow> \<lparr>tv_sec = 0, tv_nsec = 0\<rparr> | Some (t, m) \<Rightarrow> time_of t m)\<rparr>"
proof (cases i)
  case None
  have "cut (time_text s ns) (CHR '':'') = (time_text s ns, None)"
    using colon_time_text [of s ns] by (simp add: cut_def strchr_None_iff [THEN iffD2])
  then show ?thesis using None time_text_read [OF assms(1,2)] by (simp add: itimerspecFromStr_def case_prod_beta Let_def)
next
  case (Some p)
  obtain t m where p: "p = (t, m)" by (cases p)
  have "cut (time_text s ns @ CHR '':'' # time_text t m) (CHR '':'') = (time_text s ns, Some (time_text t m))"
    using colon_time_text by (simp add: cut_def)
  then show ?thesis using Some p time_text_read [OF assms(1,2)] time_text_read [of t m] assms(3)
    by (simp add: itimerspecFromStr_def case_prod_beta Let_def)
qed

theorem itimerspec_roundtrip_witness:
  "itimerspecFromStr (time_text 5 (Some 250) @ (case Some (1, None) of None \<Rightarrow> [] | Some (t, m) \<Rightarrow> CHR '':'' # time_text t m))
    = \<lparr>it_value = time_of 5 (Some 250),
       it_interval = (case Some (1, None) of None \<Rightarrow> \<lparr>tv_sec = 0, tv_nsec = 0\<rparr> | Some (t, m) \<Rightarrow> time_of t m)\<rparr>"
  by (rule itimerspec_roundtrip) (simp_all add: in_int_def limit_defs)

section \<open>User and group IDs\<close>

type_synonym ugid = "32 word"

definition userNameFromId :: "(ugid \<Rightarrow> cstring option) \<Rightarrow> ugid \<Rightarrow> cstring option" where
  "userNameFromId getpwuid uid = getpwuid uid"

text \<open>The value of \<^verbatim>\<open>strtol()\<close> is converted to the unsigned 32-bit type of IDs.\<close>

definition userIdFromName :: "(cstring \<Rightarrow> ugid option) \<Rightarrow> cstring option \<Rightarrow> ugid" where
  "userIdFromName getpwnam name =
     (case name of
        None \<Rightarrow> -1
      | Some n \<Rightarrow>
          if n = [] then -1
          else
            let (u, _, endptr) = strtoll n 10 in
            if endptr = [] then word_of_int u
            else (case getpwnam n of None \<Rightarrow> -1 | Some uid \<Rightarrow> uid))"

definition groupNameFromId :: "(ugid \<Rightarrow> cstring option) \<Rightarrow> ugid \<Rightarrow> cstring option" where
  "groupNameFromId getgrgid gid = getgrgid gid"

definition groupIdFromName :: "(cstring \<Rightarrow> ugid option) \<Rightarrow> cstring option \<Rightarrow> ugid" where
  "groupIdFromName getgrnam name =
     (case name of
        None \<Rightarrow> -1
      | Some n \<Rightarrow>
          if n = [] then -1
          else
            let (g, _, endptr) = strtoll n 10 in
            if endptr = [] then word_of_int g
            else (case getgrnam n of None \<Rightarrow> -1 | Some gid \<Rightarrow> gid))"

lemma id_of_number:
  assumes "LLONG_MIN \<le> v" "v \<le> LLONG_MAX"
  shows "strtoll (dec v) 10 = (v, False, [])" "dec v \<noteq> []"
  using strto_dec [of "[]" v] assms by (auto simp: strtoll_def dec_def)

text \<open>
  A numeric user or group name stands for itself, whatever the databases hold: the
  decimal text of any ID is converted to that ID. But the conversion keeps only the low 32
  bits of the number, so the text of a larger number names another user: adding a multiple
  of \<open>2 ^ 32\<close> to 0 gives the superuser.
\<close>

theorem numeric_ids:
  assumes "LLONG_MIN \<le> v" "v \<le> LLONG_MAX"
  shows "userIdFromName getpwnam (Some (dec v)) = word_of_int v \<and> groupIdFromName getgrnam (Some (dec v)) = word_of_int v
    \<and> (0 \<le> v \<and> v < 2 ^ 32 \<longrightarrow> uint (userIdFromName getpwnam (Some (dec v))) = v)
    \<and> (v mod 2 ^ 32 = 0 \<longrightarrow> userIdFromName getpwnam (Some (dec v)) = 0)"
proof -
  have u: "userIdFromName getpwnam (Some (dec v)) = word_of_int v" "groupIdFromName getgrnam (Some (dec v)) = word_of_int v"
    using id_of_number [OF assms] by (simp_all add: userIdFromName_def groupIdFromName_def)
  have "uint (word_of_int v :: ugid) = v mod 2 ^ 32" by (simp add: uint_word_of_int)
  then show ?thesis using u by (auto simp: word_of_int_eq_0_iff dvd_eq_mod_eq_0)
qed

theorem numeric_ids_witness:
  "userIdFromName (\<lambda>_. Some 7) (Some (dec 4294967296)) = 0 \<and> uint (userIdFromName (\<lambda>_. Some 7) (Some (dec 1000))) = 1000"
  using numeric_ids [of 4294967296 "\<lambda>_. Some 7"] numeric_ids [of 1000 "\<lambda>_. Some 7"] by (simp add: limit_defs)

section \<open>File permissions\<close>

type_synonym mode = "32 word"

definition S_ISUID :: mode where "S_ISUID = 2 ^ 11"
definition S_ISGID :: mode where "S_ISGID = 2 ^ 10"
definition S_ISVTX :: mode where "S_ISVTX = 2 ^ 9"
definition S_IRUSR :: mode where "S_IRUSR = 2 ^ 8"
definition S_IWUSR :: mode where "S_IWUSR = 2 ^ 7"
definition S_IXUSR :: mode where "S_IXUSR = 2 ^ 6"
definition S_IRGRP :: mode where "S_IRGRP = 2 ^ 5"
definition S_IWGRP :: mode where "S_IWGRP = 2 ^ 4"
definition S_IXGRP :: mode where "S_IXGRP = 2 ^ 3"
definition S_IROTH :: mode where "S_IROTH = 2 ^ 2"
definition S_IWOTH :: mode where "S_IWOTH = 2 ^ 1"
definition S_IXOTH :: mode where "S_IXOTH = 2 ^ 0"

lemmas mode_defs = S_ISUID_def S_ISGID_def S_ISVTX_def S_IRUSR_def S_IWUSR_def S_IXUSR_def
  S_IRGRP_def S_IWGRP_def S_IXGRP_def S_IROTH_def S_IWOTH_def S_IXOTH_def

definition FP_SPECIAL :: int where "FP_SPECIAL = 1"

definition filePermStr :: "mode \<Rightarrow> int \<Rightarrow> cstring" where
  "filePermStr perm flags =
     (let on = (\<lambda>m. perm AND m \<noteq> 0);
          sp = (flags AND FP_SPECIAL \<noteq> 0)
      in [if on S_IRUSR then CHR ''r'' else CHR ''-'', if on S_IWUSR then CHR ''w'' else CHR ''-'',
          if on S_IXUSR then (if on S_ISUID \<and> sp then CHR ''s'' else CHR ''x'')
          else (if on S_ISUID \<and> sp then CHR ''S'' else CHR ''-''),
          if on S_IRGRP then CHR ''r'' else CHR ''-'', if on S_IWGRP then CHR ''w'' else CHR ''-'',
          if on S_IXGRP then (if on S_ISGID \<and> sp then CHR ''s'' else CHR ''x'')
          else (if on S_ISGID \<and> sp then CHR ''S'' else CHR ''-''),
          if on S_IROTH then CHR ''r'' else CHR ''-'', if on S_IWOTH then CHR ''w'' else CHR ''-'',
          if on S_IXOTH then (if on S_ISVTX \<and> sp then CHR ''t'' else CHR ''x'')
          else (if on S_ISVTX \<and> sp then CHR ''T'' else CHR ''-'')])"

lemma on_bit: "(perm AND 2 ^ k \<noteq> (0::mode)) = bit perm k"
  by (simp add: and_exp_eq_0_iff_not_bit)

lemma mask_eq_iff_bits: "p AND mask n = q AND mask n \<longleftrightarrow> (\<forall>i<n. bit p i = bit (q :: mode) i)"
  unfolding bit_eq_iff by (auto simp: bit_simps) (use bit_imp_le_length in \<open>force\<close>)+

lemma all_less_12: "(\<forall>i<12::nat. P i) \<longleftrightarrow> P 0 \<and> P 1 \<and> P 2 \<and> P 3 \<and> P 4 \<and> P 5 \<and> P 6 \<and> P 7 \<and> P 8 \<and> P 9 \<and> P 10 \<and> P 11"
  by (simp add: eval_nat_numeral All_less_Suc conj_ac)

lemma all_less_9: "(\<forall>i<9::nat. P i) \<longleftrightarrow> P 0 \<and> P 1 \<and> P 2 \<and> P 3 \<and> P 4 \<and> P 5 \<and> P 6 \<and> P 7 \<and> P 8"
  by (simp add: eval_nat_numeral All_less_Suc conj_ac)

lemma exec_char:
  "((if x then if s then CHR ''s'' else CHR ''x'' else if s then CHR ''S'' else CHR ''-'')
    = (if y then if t then CHR ''s'' else CHR ''x'' else if t then CHR ''S'' else CHR ''-'')) = (x = y \<and> s = t)"
  "((if x then if s then CHR ''t'' else CHR ''x'' else if s then CHR ''T'' else CHR ''-'')
    = (if y then if t then CHR ''t'' else CHR ''x'' else if t then CHR ''T'' else CHR ''-'')) = (x = y \<and> s = t)"
  "((if x then CHR ''r'' else CHR ''-'') = (if y then CHR ''r'' else CHR ''-'')) = (x = y)"
  "((if x then CHR ''w'' else CHR ''-'') = (if y then CHR ''w'' else CHR ''-'')) = (x = y)"
  "((if x then CHR ''x'' else CHR ''-'') = (if y then CHR ''x'' else CHR ''-'')) = (x = y)"
  by auto

text \<open>
  The permission string says exactly what the mode holds: with \<^verbatim>\<open>FP_SPECIAL\<close> two modes
  give the same string if and only if they agree in all twelve permission bits, set-user-ID,
  set-group-ID and sticky bits included, and without it if and only if they agree in the nine
  access bits.
\<close>

theorem filePermStr_faithful:
  "(filePermStr p FP_SPECIAL = filePermStr q FP_SPECIAL \<longleftrightarrow> p AND mask 12 = q AND mask 12) \<and>
   (filePermStr p 0 = filePermStr q 0 \<longleftrightarrow> p AND mask 9 = q AND mask 9)"
  unfolding filePermStr_def Let_def mode_defs on_bit mask_eq_iff_bits all_less_12 all_less_9
  by (simp add: FP_SPECIAL_def exec_char conj_ac)

end
