(* ===== verification/Acl_Text.thy ===== *)
theory Acl_Text
  imports Util_Lib
begin

text \<open>
  The text form of access control lists, as \<^verbatim>\<open>acl/acl_update.c\<close> parses it: entries
  \<open>tag:[qualifier][:[perms]]\<close> separated by commas. User and group names are looked up through
  \<^verbatim>\<open>users_groups/ugid_functions.c\<close>; the password and group databases are arguments.
\<close>

section \<open>Entries\<close>

datatype acl_tag = ACL_USER_OBJ | ACL_USER | ACL_GROUP_OBJ | ACL_GROUP | ACL_MASK | ACL_OTHER

type_synonym perm_bits = "32 word"

definition ACL_READ :: perm_bits where "ACL_READ = 4"
definition ACL_WRITE :: perm_bits where "ACL_WRITE = 2"
definition ACL_EXECUTE :: perm_bits where "ACL_EXECUTE = 1"

lemmas acl_bits = ACL_READ_def ACL_WRITE_def ACL_EXECUTE_def

text \<open>\<open>ace_perms\<close> is \<open>None\<close> while the field has not been assigned.\<close>

record AccessControlEntry =
  ace_tag :: acl_tag
  ace_qual :: ugid
  ace_perms :: "perm_bits option"

record ugid_db =
  db_user :: "cstring \<Rightarrow> ugid option"
  db_group :: "cstring \<Rightarrow> ugid option"

section \<open>Parsing\<close>

definition MAX_ENTRIES :: nat where "MAX_ENTRIES = 10000"

fun parse_perms :: "cstring \<Rightarrow> perm_bits \<Rightarrow> perm_bits option" where
  "parse_perms [] perms = Some perms"
| "parse_perms (p # ps) perms =
     (if p = CHR ''r'' then parse_perms ps (perms OR ACL_READ)
      else if p = CHR ''w'' then parse_perms ps (perms OR ACL_WRITE)
      else if p = CHR ''x'' then parse_perms ps (perms OR ACL_EXECUTE)
      else if p \<noteq> CHR ''-'' then None
      else parse_perms ps perms)"

definition entry_tag :: "cstring \<Rightarrow> bool \<Rightarrow> acl_tag option" where
  "entry_tag entryStr hasQual =
     (if entryStr = ''u'' \<or> entryStr = ''user'' then Some (if hasQual then ACL_USER else ACL_USER_OBJ)
      else if entryStr = ''g'' \<or> entryStr = ''group'' then Some (if hasQual then ACL_GROUP else ACL_GROUP_OBJ)
      else if entryStr = ''o'' \<or> entryStr = ''other'' then Some ACL_OTHER
      else if entryStr = ''m'' \<or> entryStr = ''mask'' then Some ACL_MASK
      else None)"

text \<open>The qualifier of a user or group entry; \<open>None\<close>: unknown, the entry is refused.\<close>

definition entry_qual :: "ugid_db \<Rightarrow> acl_tag \<Rightarrow> cstring \<Rightarrow> ugid option" where
  "entry_qual db tag name =
     (if tag = ACL_USER then
        (let q = userIdFromName (db_user db) (Some name) in if q = - 1 then None else Some q)
      else if tag = ACL_GROUP then
        (let q = groupIdFromName (db_group db) (Some name) in if q = - 1 then None else Some q)
      else Some 0)"

definition parseEntrySpec :: "ugid_db \<Rightarrow> cstring \<Rightarrow> bool \<Rightarrow> AccessControlEntry option" where
  "parseEntrySpec db entryStr permsReqd =
     (case strchr entryStr (CHR '':'') of
        None \<Rightarrow> None
      | Some (tagStr, rest) \<Rightarrow>
          let hasQual = (rest \<noteq> [] \<and> hd rest \<noteq> CHR '':'');
              colon2 = strchr rest (CHR '':'');
              hasPerms = (case colon2 of None \<Rightarrow> False | Some (q, ps) \<Rightarrow> ps \<noteq> [])
          in if hasPerms \<and> \<not> permsReqd then None
             else if \<not> hasPerms \<and> permsReqd then None
             else
               case entry_tag tagStr hasQual of
                 None \<Rightarrow> None
               | Some tag \<Rightarrow>
                   case entry_qual db tag (case colon2 of None \<Rightarrow> rest | Some (q, ps) \<Rightarrow> q) of
                     None \<Rightarrow> None
                   | Some qual \<Rightarrow>
                       case colon2 of
                         None \<Rightarrow> Some \<lparr> ace_tag = tag, ace_qual = qual, ace_perms = None \<rparr>
                       | Some (q, ps) \<Rightarrow>
                           if ps = [] then Some \<lparr> ace_tag = tag, ace_qual = qual, ace_perms = None \<rparr>
                           else case parse_perms ps 0 of
                                  None \<Rightarrow> None
                                | Some perms \<Rightarrow> Some \<lparr> ace_tag = tag, ace_qual = qual, ace_perms = Some perms \<rparr>)"

text \<open>The loop over the entries; \<open>n\<close> entries have been stored so far. The result has the entries
  found, so that its length is what the function returns.\<close>

function parseACL_loop :: "ugid_db \<Rightarrow> bool \<Rightarrow> nat \<Rightarrow> cstring \<Rightarrow> AccessControlEntry list option" where
  "parseACL_loop db permsReqd n nextEntry =
     (if n \<ge> MAX_ENTRIES then None
      else
        case strchr nextEntry (CHR '','') of
          None \<Rightarrow> map_option (\<lambda>e. [e]) (parseEntrySpec db nextEntry permsReqd)
        | Some (entry, rest) \<Rightarrow>
            case parseEntrySpec db entry permsReqd of
              None \<Rightarrow> None
            | Some e \<Rightarrow> map_option ((#) e) (parseACL_loop db permsReqd (Suc n) rest))"
  by pat_completeness auto

termination parseACL_loop
  by (relation "measure (\<lambda>(db, p, n, s). length s)") (auto dest!: strchr_SomeD)

definition parseACL :: "ugid_db \<Rightarrow> cstring \<Rightarrow> bool \<Rightarrow> AccessControlEntry list option" where
  "parseACL db aclStr permsReqd = parseACL_loop db permsReqd 0 aclStr"

declare parseACL_loop.simps [simp del]

section \<open>Text of entries\<close>

text \<open>The documented syntax, with numeric qualifiers; \<open>long\<close> chooses between the two spellings of
  a tag.\<close>

definition tag_word :: "bool \<Rightarrow> acl_tag \<Rightarrow> cstring" where
  "tag_word long tag =
     (if tag \<in> {ACL_USER_OBJ, ACL_USER} then (if long then ''user'' else ''u'')
      else if tag \<in> {ACL_GROUP_OBJ, ACL_GROUP} then (if long then ''group'' else ''g'')
      else if tag = ACL_MASK then (if long then ''mask'' else ''m'')
      else (if long then ''other'' else ''o''))"

definition qual_text :: "acl_tag \<Rightarrow> ugid \<Rightarrow> cstring" where
  "qual_text tag q = (if tag \<in> {ACL_USER, ACL_GROUP} then dec (uint q) else [])"

definition perms_text :: "perm_bits \<Rightarrow> cstring" where
  "perms_text p = [if p AND ACL_READ \<noteq> 0 then CHR ''r'' else CHR ''-'',
                   if p AND ACL_WRITE \<noteq> 0 then CHR ''w'' else CHR ''-'',
                   if p AND ACL_EXECUTE \<noteq> 0 then CHR ''x'' else CHR ''-'']"

definition entry_text :: "bool \<Rightarrow> bool \<Rightarrow> AccessControlEntry \<Rightarrow> cstring" where
  "entry_text long permsReqd e =
     tag_word long (ace_tag e) @ CHR '':'' # qual_text (ace_tag e) (ace_qual e)
     @ (if permsReqd then CHR '':'' # perms_text (the (ace_perms e)) else [])"

text \<open>Entries that the text form can express: a qualifier exactly for users and groups (and not
  the reserved value -1), and permissions exactly when they are asked for.\<close>

definition entry_ok :: "bool \<Rightarrow> AccessControlEntry \<Rightarrow> bool" where
  "entry_ok permsReqd e \<longleftrightarrow>
     (if ace_tag e \<in> {ACL_USER, ACL_GROUP} then ace_qual e \<noteq> - 1 else ace_qual e = 0)
   \<and> (if permsReqd then (\<exists>p < 8. ace_perms e = Some p) else ace_perms e = None)"

fun acl_text :: "(bool \<times> AccessControlEntry) list \<Rightarrow> bool \<Rightarrow> cstring" where
  "acl_text [] permsReqd = []"
| "acl_text [(long, e)] permsReqd = entry_text long permsReqd e"
| "acl_text ((long, e) # es) permsReqd = entry_text long permsReqd e @ CHR '','' # acl_text es permsReqd"

lemma word_less_8: "(p :: 32 word) < 8 \<Longrightarrow> p = 0 \<or> p = 1 \<or> p = 2 \<or> p = 3 \<or> p = 4 \<or> p = 5 \<or> p = 6 \<or> p = 7"
proof -
  assume "p < 8"
  then have "unat p < 8" by (simp add: word_less_nat_alt)
  then have "unat p = 0 \<or> unat p = 1 \<or> unat p = 2 \<or> unat p = 3 \<or> unat p = 4 \<or> unat p = 5 \<or> unat p = 6 \<or> unat p = 7"
    by auto
  then show ?thesis by (auto simp: word_unat_eq_iff)
qed

lemma parse_perms_text:
  assumes "p < 8"
  shows "parse_perms (perms_text p) 0 = Some p"
  using word_less_8 [OF assms] by (elim disjE) (simp_all add: perms_text_def acl_bits)

lemma tag_word_no_colon: "CHR '':'' \<notin> set (tag_word long tag)" "CHR '','' \<notin> set (tag_word long tag)"
  by (auto simp: tag_word_def split: if_splits)

lemma entry_tag_word: "entry_tag (tag_word long tag) (tag = ACL_USER \<or> tag = ACL_GROUP) = Some tag"
  by (cases tag) (simp_all add: entry_tag_def tag_word_def)

lemma dec_comma: "CHR '','' \<notin> set (dec v)"
  using dec_nat_digits [of "nat (-v)"] dec_nat_digits [of "nat v"]
  by (auto simp: dec_def is_digit_def digit_val_def Let_def split: if_splits)

lemma qual_text_chars: "CHR '':'' \<notin> set (qual_text tag q)" "CHR '','' \<notin> set (qual_text tag q)"
  using dec_chars dec_comma by (auto simp: qual_text_def)

lemma qual_text_Nil: "qual_text tag q = [] \<longleftrightarrow> tag \<notin> {ACL_USER, ACL_GROUP}"
  by (auto simp: qual_text_def dec_def)

lemma entry_qual_text:
  assumes "if tag \<in> {ACL_USER, ACL_GROUP} then q \<noteq> - 1 else q = 0"
  shows "entry_qual db tag (qual_text tag q) = Some q"
proof -
  have "LLONG_MIN \<le> uint q"
    by (rule order_trans [of _ 0]) (simp_all add: limit_defs)
  moreover have "uint q \<le> LLONG_MAX" using uint_bounded [of q] by (simp add: limit_defs)
  ultimately have "LLONG_MIN \<le> uint q" "uint q \<le> LLONG_MAX" by blast+
  from id_of_number [OF this] have "userIdFromName f (Some (dec (uint q))) = q" "groupIdFromName f (Some (dec (uint q))) = q" for f
    by (simp_all add: userIdFromName_def groupIdFromName_def)
  then show ?thesis using assms by (auto simp: entry_qual_def qual_text_def)
qed

lemma parse_entry_text:
  assumes "entry_ok permsReqd e"
  shows "parseEntrySpec db (entry_text long permsReqd e) permsReqd = Some e"
proof -
  define rest where "rest = qual_text (ace_tag e) (ace_qual e)
    @ (if permsReqd then CHR '':'' # perms_text (the (ace_perms e)) else [])"
  have first: "strchr (entry_text long permsReqd e) (CHR '':'') = Some (tag_word long (ace_tag e), rest)"
    using tag_word_no_colon by (simp add: entry_text_def rest_def)
  have second: "strchr rest (CHR '':'') =
      (if permsReqd then Some (qual_text (ace_tag e) (ace_qual e), perms_text (the (ace_perms e))) else None)"
    using qual_text_chars by (simp add: rest_def strchr_None_iff)
  have hq: "(rest \<noteq> [] \<and> hd rest \<noteq> CHR '':'') \<longleftrightarrow> ace_tag e \<in> {ACL_USER, ACL_GROUP}"
    using qual_text_Nil [of "ace_tag e" "ace_qual e"] qual_text_chars(1) [of "ace_tag e" "ace_qual e"]
    by (cases "qual_text (ace_tag e) (ace_qual e)") (auto simp: rest_def)
  have q: "entry_qual db (ace_tag e) (qual_text (ace_tag e) (ace_qual e)) = Some (ace_qual e)"
    using assms by (intro entry_qual_text) (simp add: entry_ok_def)
  show ?thesis
  proof (cases permsReqd)
    case True
    then obtain p where p: "p < 8" "ace_perms e = Some p" using assms by (auto simp: entry_ok_def)
    have "perms_text p \<noteq> []" by (simp add: perms_text_def)
    with True first second hq q p parse_perms_text [OF p(1)] show ?thesis
      by (simp add: parseEntrySpec_def Let_def entry_tag_word)
  next
    case False
    then have p: "ace_perms e = None" "rest = qual_text (ace_tag e) (ace_qual e)"
      using assms by (simp_all add: entry_ok_def rest_def)
    with False first second hq q show ?thesis
      by (simp add: parseEntrySpec_def Let_def entry_tag_word)
  qed
qed

lemma entry_text_no_comma: "CHR '','' \<notin> set (entry_text long permsReqd e)"
  using tag_word_no_colon(2) qual_text_chars(2) by (auto simp: entry_text_def perms_text_def)

lemma parseACL_loop_text:
  assumes "es \<noteq> []" and "n + length es \<le> MAX_ENTRIES" and "\<forall>(long, e) \<in> set es. entry_ok permsReqd e"
  shows "parseACL_loop db permsReqd n (acl_text es permsReqd) = Some (map snd es)"
  using assms
proof (induction es permsReqd arbitrary: n rule: acl_text.induct)
  case (2 long e permsReqd)
  then show ?case
    using entry_text_no_comma [of long permsReqd e] strchr_None_iff [of "entry_text long permsReqd e" "CHR '',''"]
    by (subst parseACL_loop.simps) (simp add: parse_entry_text)
next
  case (3 long e v va permsReqd)
  then show ?case
    using entry_text_no_comma [of long permsReqd e]
    by (subst parseACL_loop.simps) (simp add: parse_entry_text)
qed simp

text \<open>
  C38. An access control list written in the documented syntax, in short or long form, with
  numeric qualifiers and with the permissions that the operation asks for, is parsed to the
  entries it was written from, whatever the user and group databases contain, up to the limit
  of 10000 entries; one entry more is refused.
\<close>

theorem acl_text_roundtrip:
  assumes "es \<noteq> []" and "\<forall>(long, e) \<in> set es. entry_ok permsReqd e"
  shows "parseACL db (acl_text es permsReqd) permsReqd =
    (if length es \<le> MAX_ENTRIES then Some (map snd es) else None)"
proof (cases "length es \<le> MAX_ENTRIES")
  case True
  with parseACL_loop_text [OF assms(1) _ assms(2), of 0] show ?thesis by (simp add: parseACL_def)
next
  case False
  have "parseACL_loop db permsReqd n (acl_text es permsReqd) = None"
    if "es \<noteq> []" "\<forall>(long, e) \<in> set es. entry_ok permsReqd e" "MAX_ENTRIES < n + length es" "n \<le> MAX_ENTRIES" for n es
    using that
  proof (induction es permsReqd arbitrary: n rule: acl_text.induct)
    case (2 long e permsReqd)
    then show ?case by (subst parseACL_loop.simps) simp
  next
    case (3 long e v va permsReqd)
    then show ?case
      using entry_text_no_comma [of long permsReqd e]
      by (subst parseACL_loop.simps) (simp add: parse_entry_text)
  qed simp
  with False assms show ?thesis by (simp add: parseACL_def)
qed

theorem acl_text_roundtrip_witness:
  "parseACL \<lparr> db_user = Map.empty, db_group = Map.empty \<rparr>
     (acl_text [(False, \<lparr> ace_tag = ACL_USER, ace_qual = 1000, ace_perms = Some 6 \<rparr>),
                (True, \<lparr> ace_tag = ACL_MASK, ace_qual = 0, ace_perms = Some 5 \<rparr>)] True) True
   = Some [\<lparr> ace_tag = ACL_USER, ace_qual = 1000, ace_perms = Some 6 \<rparr>,
           \<lparr> ace_tag = ACL_MASK, ace_qual = 0, ace_perms = Some 5 \<rparr>]"
  using acl_text_roundtrip [of "[(False, \<lparr> ace_tag = ACL_USER, ace_qual = 1000, ace_perms = Some 6 \<rparr>),
                (True, \<lparr> ace_tag = ACL_MASK, ace_qual = 0, ace_perms = Some 5 \<rparr>)]" True]
  by (simp add: entry_ok_def MAX_ENTRIES_def)

end
