(* ===== verification/Acl_Update.thy ===== *)
theory Acl_Update
  imports Acl_Text
begin

text \<open>
  \<^verbatim>\<open>acl/acl_update.c\<close> after the parsing: finding an entry, setting its permissions, applying a
  list of entries to the ACL of a file, and the option processing of \<^verbatim>\<open>main()\<close>. The ACL
  library is an argument: a record of its functions over an opaque state, in which one ACL is
  being edited. Entries are named by handles (\<^verbatim>\<open>acl_entry_t\<close>); a permission set is named by
  its entry.
\<close>

section \<open>The library\<close>

text \<open>\<open>la_entries\<close> are the entries that \<^verbatim>\<open>acl_get_entry()\<close> delivers one after the other, and
  whether it then reports the end (\<open>True\<close>) or an error. The \<open>bool\<close> argument of the file
  operations chooses the default ACL.\<close>

record 'w acl_lib =
  la_get_file :: "cstring \<Rightarrow> bool \<Rightarrow> 'w \<Rightarrow> bool \<times> 'w"
  la_entries :: "'w \<Rightarrow> int list \<times> bool"
  la_tag :: "int \<Rightarrow> 'w \<Rightarrow> acl_tag option"
  la_qual :: "int \<Rightarrow> 'w \<Rightarrow> ugid option"
  la_free :: "'w \<Rightarrow> bool \<times> 'w"
  la_delete :: "int \<Rightarrow> 'w \<Rightarrow> bool \<times> 'w"
  la_create :: "'w \<Rightarrow> int option \<times> 'w"
  la_set_tag :: "int \<Rightarrow> acl_tag \<Rightarrow> 'w \<Rightarrow> bool \<times> 'w"
  la_set_qual :: "int \<Rightarrow> ugid \<Rightarrow> 'w \<Rightarrow> bool \<times> 'w"
  la_get_permset :: "int \<Rightarrow> 'w \<Rightarrow> bool \<times> 'w"
  la_clear_perms :: "int \<Rightarrow> 'w \<Rightarrow> bool \<times> 'w"
  la_add_perm :: "int \<Rightarrow> perm_bits \<Rightarrow> 'w \<Rightarrow> bool \<times> 'w"
  la_set_permset :: "int \<Rightarrow> 'w \<Rightarrow> bool \<times> 'w"
  la_calc_mask :: "'w \<Rightarrow> bool \<times> 'w"
  la_valid :: "'w \<Rightarrow> bool \<times> 'w"
  la_set_file :: "cstring \<Rightarrow> bool \<Rightarrow> 'w \<Rightarrow> bool \<times> 'w"
  la_delete_def_file :: "cstring \<Rightarrow> 'w \<Rightarrow> bool \<times> 'w"

section \<open>Operations\<close>

fun find_in :: "'w acl_lib \<Rightarrow> acl_tag \<Rightarrow> ugid \<Rightarrow> int list \<Rightarrow> bool \<Rightarrow> 'w \<Rightarrow> (int option, 'w) outcome" where
  "find_in os tag qual [] ended w = (if ended then Ret None w else Exit EXIT_FAILURE w)"
| "find_in os tag qual (entry # rest) ended w =
     (case la_tag os entry w of
        None \<Rightarrow> Exit EXIT_FAILURE w
      | Some entryTag \<Rightarrow>
          if tag = entryTag then
            if tag = ACL_USER \<or> tag = ACL_GROUP then
              (case la_qual os entry w of
                 None \<Rightarrow> Exit EXIT_FAILURE w
               | Some q \<Rightarrow>
                   obind (must (la_free os) w) (\<lambda>_ w.
                     if qual = q then Ret (Some entry) w else find_in os tag qual rest ended w))
            else Ret (Some entry) w
          else find_in os tag qual rest ended w)"

definition findEntry :: "'w acl_lib \<Rightarrow> acl_tag \<Rightarrow> ugid \<Rightarrow> 'w \<Rightarrow> (int option, 'w) outcome" where
  "findEntry os tag qual w = (case la_entries os w of (es, ended) \<Rightarrow> find_in os tag qual es ended w)"

definition add_if :: "'w acl_lib \<Rightarrow> int \<Rightarrow> perm_bits \<Rightarrow> perm_bits \<Rightarrow> 'w \<Rightarrow> (unit, 'w) outcome" where
  "add_if os entry perms b w = (if perms AND b \<noteq> 0 then must (la_add_perm os entry b) w else Ret () w)"

definition setPerms :: "'w acl_lib \<Rightarrow> int \<Rightarrow> perm_bits \<Rightarrow> 'w \<Rightarrow> (unit, 'w) outcome" where
  "setPerms os entry perms w =
     obind (must (la_get_permset os entry) w) (\<lambda>_ w.
     obind (must (la_clear_perms os entry) w) (\<lambda>_ w.
     obind (add_if os entry perms ACL_READ w) (\<lambda>_ w.
     obind (add_if os entry perms ACL_WRITE w) (\<lambda>_ w.
     obind (add_if os entry perms ACL_EXECUTE w) (\<lambda>_ w.
     must (la_set_permset os entry) w)))))"

datatype Operation = unspecifiedOp | modifyEntries | removeEntries | removeDefaultACL | checkValidACL

definition create_entry :: "'w acl_lib \<Rightarrow> AccessControlEntry \<Rightarrow> 'w \<Rightarrow> (int, 'w) outcome" where
  "create_entry os a w =
     obind (must_get (la_create os) w) (\<lambda>entry w.
     obind (must (la_set_tag os entry (ace_tag a)) w) (\<lambda>_ w.
     obind (if ace_tag a = ACL_USER \<or> ace_tag a = ACL_GROUP
            then must (la_set_qual os entry (ace_qual a)) w else Ret () w) (\<lambda>_ w.
     Ret entry w)))"

definition edit_entry :: "'w acl_lib \<Rightarrow> Operation \<Rightarrow> AccessControlEntry \<Rightarrow> 'w \<Rightarrow> (unit, 'w) outcome" where
  "edit_entry os op a w =
     obind (findEntry os (ace_tag a) (ace_qual a) w) (\<lambda>found w.
       if op = removeEntries then
         (case found of None \<Rightarrow> Ret () w | Some entry \<Rightarrow> must (la_delete os entry) w)
       else
         obind (case found of None \<Rightarrow> create_entry os a w | Some entry \<Rightarrow> Ret entry w) (\<lambda>entry w.
           case ace_perms a of None \<Rightarrow> Undef | Some perms \<Rightarrow> setPerms os entry perms w))"

definition apply_entry ::
  "'w acl_lib \<Rightarrow> cstring \<Rightarrow> bool \<Rightarrow> Operation \<Rightarrow> bool \<Rightarrow> AccessControlEntry \<Rightarrow> 'w \<Rightarrow> (unit, 'w) outcome" where
  "apply_entry os file useDefaultACL op recalcMask a w =
     obind (edit_entry os op a w) (\<lambda>_ w.
     obind (if recalcMask then must (la_calc_mask os) w else Ret () w) (\<lambda>_ w.
     obind (must (la_valid os) w) (\<lambda>_ w.
     must (la_set_file os file useDefaultACL) w)))"

definition updateACL ::
  "'w acl_lib \<Rightarrow> cstring \<Rightarrow> bool \<Rightarrow> AccessControlEntry list \<Rightarrow> Operation \<Rightarrow> bool \<Rightarrow> 'w \<Rightarrow> (unit, 'w) outcome" where
  "updateACL os file useDefaultACL aclist op recalcMask w =
     obind (must (la_get_file os file useDefaultACL) w) (\<lambda>_ w.
     obind (ofold (apply_entry os file useDefaultACL op recalcMask) aclist w) (\<lambda>_ w.
     must (la_free os) w))"

section \<open>Options and the loop over the files\<close>

record acl_opts =
  o_operation :: Operation
  o_recalcMask :: bool
  o_useDefaultACL :: bool
  o_optCnt :: nat
  o_aclSpec :: "cstring option"

definition acl_opts0 :: acl_opts where
  "acl_opts0 = \<lparr> o_operation = unspecifiedOp, o_recalcMask = True, o_useDefaultACL = False,
     o_optCnt = 0, o_aclSpec = None \<rparr>"

text \<open>One option as \<^verbatim>\<open>getopt()\<close> returns it; \<open>None\<close> stands for the exit through \<^verbatim>\<open>usageError()\<close>.\<close>

definition acl_option :: "char \<times> cstring \<Rightarrow> acl_opts \<Rightarrow> acl_opts option" where
  "acl_option p s =
     (case p of (opt, optarg) \<Rightarrow>
      if opt = CHR ''m'' then
        Some (s\<lparr> o_operation := modifyEntries, o_aclSpec := Some optarg, o_optCnt := o_optCnt s + 1 \<rparr>)
      else if opt = CHR ''x'' then
        Some (s\<lparr> o_operation := removeEntries, o_aclSpec := Some optarg, o_optCnt := o_optCnt s + 1 \<rparr>)
      else if opt = CHR ''k'' then
        Some (s\<lparr> o_operation := removeDefaultACL, o_optCnt := o_optCnt s + 1 \<rparr>)
      else if opt = CHR ''V'' then
        Some (s\<lparr> o_operation := checkValidACL, o_aclSpec := Some optarg, o_optCnt := o_optCnt s + 1 \<rparr>)
      else if opt = CHR ''d'' then Some (s\<lparr> o_useDefaultACL := True \<rparr>)
      else if opt = CHR ''n'' then Some (s\<lparr> o_recalcMask := False \<rparr>)
      else None)"

fun acl_options :: "(char \<times> cstring) list \<Rightarrow> acl_opts \<Rightarrow> acl_opts option" where
  "acl_options [] s = Some s"
| "acl_options (p # ps) s = (case acl_option p s of None \<Rightarrow> None | Some s' \<Rightarrow> acl_options ps s')"

definition acl_file :: "'w acl_lib \<Rightarrow> acl_opts \<Rightarrow> AccessControlEntry list \<Rightarrow> cstring \<Rightarrow> 'w \<Rightarrow> (unit, 'w) outcome" where
  "acl_file os s aclist file w =
     (if o_operation s = removeDefaultACL then must (la_delete_def_file os file) w
      else if o_operation s = modifyEntries \<or> o_operation s = removeEntries
        then updateACL os file (o_useDefaultACL s) aclist (o_operation s) (o_recalcMask s) w
      else Exit EXIT_FAILURE w)"

definition acl_main :: "'w acl_lib \<Rightarrow> ugid_db \<Rightarrow> (char \<times> cstring) list \<Rightarrow> cstring list \<Rightarrow> 'w \<Rightarrow> (unit, 'w) outcome" where
  "acl_main os db opts files w =
     (case acl_options opts acl_opts0 of
        None \<Rightarrow> Exit EXIT_FAILURE w
      | Some s \<Rightarrow>
          if o_optCnt s \<noteq> 1 then Exit EXIT_FAILURE w
          else if o_operation s = checkValidACL \<and> o_useDefaultACL s then Exit EXIT_FAILURE w
          else if o_operation s = checkValidACL then
            (case parseACL db (the (o_aclSpec s)) True of
               None \<Rightarrow> Exit EXIT_FAILURE w | Some _ \<Rightarrow> Exit EXIT_SUCCESS w)
          else
            case (if o_operation s = modifyEntries \<or> o_operation s = removeEntries
                  then parseACL db (the (o_aclSpec s)) (o_operation s = modifyEntries) else Some []) of
              None \<Rightarrow> Exit EXIT_FAILURE w
            | Some aclist \<Rightarrow>
                obind (ofold (acl_file os s aclist) files w) (\<lambda>_ w. Exit EXIT_SUCCESS w))"

section \<open>ACLs as maps\<close>

text \<open>An ACL maps a tag, with a qualifier for named users and groups, to permissions.\<close>

type_synonym acl_key = "acl_tag \<times> ugid"
type_synonym acl_item = "int \<times> acl_tag \<times> ugid \<times> perm_bits"

definition acl_key :: "acl_tag \<Rightarrow> ugid \<Rightarrow> acl_key" where
  "acl_key t q = (t, if t = ACL_USER \<or> t = ACL_GROUP then q else 0)"

definition item_key :: "acl_item \<Rightarrow> acl_key" where
  "item_key e = (case e of (h, t, q, p) \<Rightarrow> acl_key t q)"

definition item_perms :: "acl_item \<Rightarrow> perm_bits" where
  "item_perms e = (case e of (h, t, q, p) \<Rightarrow> p)"

definition acl_map :: "acl_item list \<Rightarrow> acl_key \<Rightarrow> perm_bits option" where
  "acl_map l = map_of (map (\<lambda>e. (item_key e, item_perms e)) l)"

definition acl_wf :: "acl_item list \<Rightarrow> bool" where
  "acl_wf l \<longleftrightarrow> distinct (map fst l) \<and> distinct (map item_key l)"

definition set_item :: "int \<Rightarrow> (acl_tag \<times> ugid \<times> perm_bits \<Rightarrow> acl_tag \<times> ugid \<times> perm_bits) \<Rightarrow> acl_item list \<Rightarrow> acl_item list" where
  "set_item h f l = map (\<lambda>(i, v). if i = h then (i, f v) else (i, v)) l"

text \<open>What the library documents: \<open>ents\<close> are the entries of the ACL being edited, \<open>fil\<close> the ACLs
  of the files. Every function may fail; when it succeeds it has the effect given here.
  \<^verbatim>\<open>acl_calc_mask()\<close> may change, add or remove nothing but the mask entry.\<close>

definition keeps :: "('w \<Rightarrow> acl_item list) \<Rightarrow> ('w \<Rightarrow> 'f) \<Rightarrow> ('w \<Rightarrow> bool \<times> 'w) \<Rightarrow> bool" where
  "keeps ents fil f \<longleftrightarrow> (\<forall>w w'. f w = (True, w') \<longrightarrow> ents w' = ents w \<and> fil w' = fil w)"

definition edits :: "('w \<Rightarrow> acl_item list) \<Rightarrow> ('w \<Rightarrow> 'f) \<Rightarrow> ('w \<Rightarrow> bool \<times> 'w) \<Rightarrow> (acl_item list \<Rightarrow> acl_item list) \<Rightarrow> bool" where
  "edits ents fil f g \<longleftrightarrow> (\<forall>w w'. f w = (True, w') \<longrightarrow> ents w' = g (ents w) \<and> fil w' = fil w)"

type_synonym acl_files = "cstring \<times> bool \<Rightarrow> acl_key \<Rightarrow> perm_bits option"

definition acl_lib_reads :: "'w acl_lib \<Rightarrow> ('w \<Rightarrow> acl_item list) \<Rightarrow> ('w \<Rightarrow> acl_files) \<Rightarrow> bool" where
  "acl_lib_reads os ents fil \<longleftrightarrow>
     (\<forall>w. la_entries os w = (map fst (ents w), True))
   \<and> (\<forall>w h t q p. acl_wf (ents w) \<longrightarrow> (h, t, q, p) \<in> set (ents w) \<longrightarrow> la_tag os h w = Some t \<and> la_qual os h w = Some q)
   \<and> (\<forall>f d w w'. la_get_file os f d w = (True, w') \<longrightarrow>
        acl_wf (ents w') \<and> acl_map (ents w') = fil w (f, d) \<and> fil w' = fil w)"

definition acl_lib_edits :: "'w acl_lib \<Rightarrow> ('w \<Rightarrow> acl_item list) \<Rightarrow> ('w \<Rightarrow> acl_files) \<Rightarrow> bool" where
  "acl_lib_edits os ents fil \<longleftrightarrow>
     (\<forall>h. edits ents fil (la_delete os h) (filter (\<lambda>e. fst e \<noteq> h)))
   \<and> (\<forall>h t. edits ents fil (la_set_tag os h t) (set_item h (\<lambda>(_, q, p). (t, q, p))))
   \<and> (\<forall>h q. edits ents fil (la_set_qual os h q) (set_item h (\<lambda>(t, _, p). (t, q, p))))
   \<and> (\<forall>h. edits ents fil (la_clear_perms os h) (set_item h (\<lambda>(t, q, _). (t, q, 0))))
   \<and> (\<forall>h b. edits ents fil (la_add_perm os h b) (set_item h (\<lambda>(t, q, p). (t, q, p OR b))))
   \<and> (\<forall>w h w'. la_create os w = (Some h, w') \<longrightarrow>
        h \<notin> fst ` set (ents w) \<and> (\<exists>v. ents w' = ents w @ [(h, v)]) \<and> fil w' = fil w)
   \<and> (\<forall>h. keeps ents fil (la_get_permset os h)) \<and> (\<forall>h. keeps ents fil (la_set_permset os h))
   \<and> keeps ents fil (la_free os) \<and> keeps ents fil (la_valid os)
   \<and> (\<forall>w w'. la_calc_mask os w = (True, w') \<longrightarrow> acl_wf (ents w) \<longrightarrow> acl_wf (ents w') \<and> fil w' = fil w
        \<and> (\<forall>k. fst k \<noteq> ACL_MASK \<longrightarrow> acl_map (ents w') k = acl_map (ents w) k))
   \<and> (\<forall>f d w w'. la_set_file os f d w = (True, w') \<longrightarrow>
        ents w' = ents w \<and> fil w' = (fil w)((f, d) := acl_map (ents w)))"

text \<open>The specification of an update: the entries are applied to the map one after the other.\<close>

definition edit_map :: "Operation \<Rightarrow> AccessControlEntry \<Rightarrow> (acl_key \<Rightarrow> perm_bits option) \<Rightarrow> acl_key \<Rightarrow> perm_bits option" where
  "edit_map op a m =
     (if op = removeEntries then m(acl_key (ace_tag a) (ace_qual a) := None)
      else m(acl_key (ace_tag a) (ace_qual a) := ace_perms a))"

definition edit_all :: "Operation \<Rightarrow> AccessControlEntry list \<Rightarrow> (acl_key \<Rightarrow> perm_bits option) \<Rightarrow> acl_key \<Rightarrow> perm_bits option" where
  "edit_all op aclist m = fold (edit_map op) aclist m"

section \<open>Effects of the operations\<close>

lemma edits_must: "edits ents fil f g \<Longrightarrow> must f w = Ret () w' \<Longrightarrow> ents w' = g (ents w) \<and> fil w' = fil w"
  by (simp add: edits_def must_Ret_iff)

lemma keeps_must: "keeps ents fil f \<Longrightarrow> must f w = Ret () w' \<Longrightarrow> ents w' = ents w \<and> fil w' = fil w"
  by (simp add: keeps_def must_Ret_iff)

lemma set_item_set_item: "set_item h f (set_item h g l) = set_item h (f \<circ> g) l"
  by (auto simp: set_item_def)

lemma set_item_fst [simp]: "map fst (set_item h f l) = map fst l"
  by (simp add: set_item_def case_prod_beta comp_def)

lemma set_item_id: "set_item h (\<lambda>v. v) l = l"
  by (induction l) (auto simp: set_item_def)

lemma set_item_in: "(i, v) \<in> set l \<Longrightarrow> (if i = h then (i, f v) else (i, v)) \<in> set (set_item h f l)"
  by (force simp: set_item_def)

lemma set_item_fresh: "h \<notin> fst ` set l \<Longrightarrow> set_item h f (l @ [(h, v)]) = l @ [(h, f v)]"
  by (induction l) (auto simp: set_item_def)

lemma acl_map_None: "acl_map l k = None \<longleftrightarrow> k \<notin> item_key ` set l"
  by (simp add: acl_map_def map_of_eq_None_iff comp_def image_image)

lemma acl_map_in:
  assumes "acl_wf l" and "e \<in> set l"
  shows "acl_map l (item_key e) = Some (item_perms e)"
proof -
  have "distinct (map fst (map (\<lambda>e. (item_key e, item_perms e)) l))"
    using assms(1) by (simp add: acl_wf_def comp_def)
  then show ?thesis using assms(2) by (simp add: acl_map_def)
qed

lemma find_in_result:
  assumes "acl_lib_reads os ents fil" and "keeps ents fil (la_free os)"
    and "find_in os t q (map fst es) True w = Ret r w'" and "set es \<subseteq> set (ents w)" and "acl_wf (ents w)"
  shows "ents w' = ents w \<and> fil w' = fil w
    \<and> (case r of None \<Rightarrow> acl_key t q \<notin> item_key ` set es
       | Some h \<Rightarrow> (\<exists>e \<in> set es. fst e = h \<and> item_key e = acl_key t q))"
  using assms(3-5)
proof (induction es arbitrary: w)
  case (Cons e es)
  obtain h t' q' p' where e: "e = (h, t', q', p')" by (cases e)
  have "(h, t', q', p') \<in> set (ents w)" using Cons.prems(2) e by simp
  then have lib: "la_tag os h w = Some t'" "la_qual os h w = Some q'"
    using assms(1) Cons.prems(3) unfolding acl_lib_reads_def by blast+
  have key: "item_key e = acl_key t q \<longleftrightarrow> t = t' \<and> (t = ACL_USER \<or> t = ACL_GROUP \<longrightarrow> q = q')"
    by (auto simp: e item_key_def acl_key_def)
  show ?case
  proof (cases "t = t'")
    case False
    with Cons lib e have "find_in os t q (map fst es) True w = Ret r w'" by simp
    from Cons.IH [OF this] Cons.prems(2,3) key False show ?thesis by (auto split: option.splits)
  next
    case same: True
    show ?thesis
    proof (cases "t = ACL_USER \<or> t = ACL_GROUP")
      case False
      with Cons.prems lib e same key show ?thesis by auto
    next
      case True
      with Cons.prems lib e same obtain w1 where fr: "must (la_free os) w = Ret () w1"
        and rest: "(if q = q' then Ret (Some h) w1 else find_in os t q (map fst es) True w1) = Ret r w'"
        by (auto simp: obind_Ret_iff)
      have k: "ents w1 = ents w" "fil w1 = fil w" using keeps_must [OF assms(2) fr] by simp_all
      show ?thesis
      proof (cases "q = q'")
        case True
        with rest k e same key show ?thesis by auto
      next
        case False
        with rest have "find_in os t q (map fst es) True w1 = Ret r w'" by simp
        from Cons.IH [OF this] Cons.prems(2,3) k key False \<open>t = ACL_USER \<or> t = ACL_GROUP\<close>
        show ?thesis by (auto split: option.splits)
      qed
    qed
  qed
qed simp

lemma acl_lib_editsD:
  assumes "acl_lib_edits os ents fil"
  shows "edits ents fil (la_delete os h) (filter (\<lambda>e. fst e \<noteq> h))"
    and "edits ents fil (la_set_tag os h t) (set_item h (\<lambda>(_, q, p). (t, q, p)))"
    and "edits ents fil (la_set_qual os h q) (set_item h (\<lambda>(t, _, p). (t, q, p)))"
    and "edits ents fil (la_clear_perms os h) (set_item h (\<lambda>(t, q, _). (t, q, 0)))"
    and "edits ents fil (la_add_perm os h b) (set_item h (\<lambda>(t, q, p). (t, q, p OR b)))"
    and "keeps ents fil (la_get_permset os h)" and "keeps ents fil (la_set_permset os h)"
    and "keeps ents fil (la_free os)" and "keeps ents fil (la_valid os)"
  using assms unfolding acl_lib_edits_def by simp_all

lemma findEntry_result:
  assumes "acl_lib_reads os ents fil" and "acl_lib_edits os ents fil" and "findEntry os t q w = Ret r w'"
    and "acl_wf (ents w)"
  shows "ents w' = ents w" and "fil w' = fil w"
    and "r = None \<Longrightarrow> acl_map (ents w) (acl_key t q) = None"
    and "r = Some h \<Longrightarrow> \<exists>e \<in> set (ents w). fst e = h \<and> item_key e = acl_key t q"
proof -
  have "la_entries os w = (map fst (ents w), True)" using assms(1) unfolding acl_lib_reads_def by blast
  then have "find_in os t q (map fst (ents w)) True w = Ret r w'" using assms(3) by (simp add: findEntry_def)
  from find_in_result [OF assms(1) acl_lib_editsD(8) [OF assms(2)] this _ assms(4)]
  show "ents w' = ents w" "fil w' = fil w" "r = None \<Longrightarrow> acl_map (ents w) (acl_key t q) = None"
    "r = Some h \<Longrightarrow> \<exists>e \<in> set (ents w). fst e = h \<and> item_key e = acl_key t q"
    by (simp_all add: acl_map_None)
qed

text \<open>The permissions that the three conditional additions build up.\<close>

definition with_bits :: "perm_bits \<Rightarrow> perm_bits \<Rightarrow> acl_tag \<times> ugid \<times> perm_bits \<Rightarrow> acl_tag \<times> ugid \<times> perm_bits" where
  "with_bits perms b = (\<lambda>(t, q, p). (t, q, if perms AND b \<noteq> 0 then p OR b else p))"

lemma add_if_result:
  assumes "acl_lib_edits os ents fil" and "add_if os h perms b w = Ret () w'"
  shows "ents w' = set_item h (with_bits perms b) (ents w) \<and> fil w' = fil w"
proof (cases "perms AND b = 0")
  case True
  then have "with_bits perms b = (\<lambda>v. v)" by (auto simp: with_bits_def)
  with True assms(2) show ?thesis by (simp add: add_if_def set_item_id)
next
  case False
  with assms(2) edits_must [OF acl_lib_editsD(5) [OF assms(1)], of h b w w'] show ?thesis
    by (simp add: add_if_def with_bits_def)
qed

lemma rebuilt_perms:
  assumes "perms < 8"
  shows "with_bits perms ACL_EXECUTE (with_bits perms ACL_WRITE (with_bits perms ACL_READ (t, q, 0))) = (t, q, perms)"
  using word_less_8 [OF assms] by (elim disjE) (simp_all add: with_bits_def acl_bits)

lemma setPerms_result:
  assumes "acl_lib_edits os ents fil" and "perms < 8" and "setPerms os h perms w = Ret () w'"
  shows "ents w' = set_item h (\<lambda>(t, q, _). (t, q, perms)) (ents w) \<and> fil w' = fil w"
proof -
  note lib = acl_lib_editsD [OF assms(1)]
  obtain w1 w2 w3 w4 w5 where s: "must (la_get_permset os h) w = Ret () w1" "must (la_clear_perms os h) w1 = Ret () w2"
      "add_if os h perms ACL_READ w2 = Ret () w3" "add_if os h perms ACL_WRITE w3 = Ret () w4"
      "add_if os h perms ACL_EXECUTE w4 = Ret () w5" "must (la_set_permset os h) w5 = Ret () w'"
    using assms(3) by (auto simp: setPerms_def obind_Ret_iff)
  note fx = keeps_must [OF lib(6) s(1)] edits_must [OF lib(4) s(2)] add_if_result [OF assms(1) s(3)]
    add_if_result [OF assms(1) s(4)] add_if_result [OF assms(1) s(5)] keeps_must [OF lib(7) s(6)]
  have "ents w' = set_item h (with_bits perms ACL_EXECUTE \<circ> (with_bits perms ACL_WRITE \<circ>
      (with_bits perms ACL_READ \<circ> (\<lambda>(t, q, _). (t, q, 0))))) (ents w)"
    using fx by (simp add: set_item_set_item)
  moreover have "with_bits perms ACL_EXECUTE \<circ> (with_bits perms ACL_WRITE \<circ>
      (with_bits perms ACL_READ \<circ> (\<lambda>(t, q, _ :: perm_bits). (t, q, 0)))) = (\<lambda>(t, q, _). (t, q, perms))"
    using rebuilt_perms [OF assms(2)] by (auto simp: fun_eq_iff)
  ultimately have "ents w' = set_item h (\<lambda>(t, q, _). (t, q, perms)) (ents w)" by simp
  moreover have "fil w' = fil w" using fx by simp
  ultimately show ?thesis ..
qed

lemma set_perms_item:
  assumes "acl_wf l" and "e \<in> set l" and "fst e = h"
  shows "acl_wf (set_item h (\<lambda>(t, q, _). (t, q, perms)) l)"
    and "acl_map (set_item h (\<lambda>(t, q, _). (t, q, perms)) l) = (acl_map l)(item_key e \<mapsto> perms)"
proof -
  let ?l = "set_item h (\<lambda>(t, q, _). (t, q, perms)) l"
  have keys: "map item_key ?l = map item_key l"
    by (auto simp: set_item_def item_key_def split: prod.splits)
  then show wf: "acl_wf ?l" using assms(1) by (simp add: acl_wf_def)
  have e: "x = e" if "x \<in> set l" "fst x = h" for x
    using that assms unfolding acl_wf_def by (metis distinct_map inj_onD)
  show "acl_map ?l = (acl_map l)(item_key e \<mapsto> perms)"
  proof
    fix k
    show "acl_map ?l k = ((acl_map l)(item_key e \<mapsto> perms)) k"
    proof (cases "k \<in> item_key ` set l")
      case True
      then obtain x where x: "x \<in> set l" "item_key x = k" by blast
      obtain i t q p where xx: "x = (i, t, q, p)" by (cases x)
      let ?y = "if i = h then (i, t, q, perms) else x"
      have y: "?y \<in> set ?l" using x xx set_item_in [of i "(t, q, p)" l h "\<lambda>(t, q, _). (t, q, perms)"] by auto
      have ky: "item_key ?y = k" using x xx by (auto simp: item_key_def)
      have "i = h \<longleftrightarrow> k = item_key e"
        using e x xx assms unfolding acl_wf_def by (metis distinct_map inj_onD fst_conv)
      then show ?thesis
        using acl_map_in [OF wf y] acl_map_in [OF assms(1) x(1)] ky x xx
        by (auto simp: item_perms_def split: if_splits)
    next
      case False
      then have "acl_map l k = None" "acl_map ?l k = None"
        using keys by (simp_all add: acl_map_None) (metis list.set_map)
      moreover have "k \<noteq> item_key e" using False assms(2) by blast
      ultimately show ?thesis by simp
    qed
  qed
qed

lemma delete_item:
  assumes "acl_wf l" and "e \<in> set l"
  shows "acl_wf (filter (\<lambda>x. fst x \<noteq> fst e) l)"
    and "acl_map (filter (\<lambda>x. fst x \<noteq> fst e) l) = (acl_map l)(item_key e := None)"
proof -
  let ?l = "filter (\<lambda>x. fst x \<noteq> fst e) l"
  show wf: "acl_wf ?l" using assms(1) by (simp add: acl_wf_def distinct_map_filter)
  have inj: "fst x = fst e \<longleftrightarrow> item_key x = item_key e" if "x \<in> set l" for x
    using that assms unfolding acl_wf_def by (metis distinct_map inj_onD)
  show "acl_map ?l = (acl_map l)(item_key e := None)"
  proof
    fix k
    show "acl_map ?l k = ((acl_map l)(item_key e := None)) k"
    proof (cases "k \<in> item_key ` set ?l")
      case True
      then obtain x where x: "x \<in> set ?l" "item_key x = k" by blast
      then have "x \<in> set l" "fst x \<noteq> fst e" by simp_all
      then have "x \<in> set l" "k \<noteq> item_key e" using inj x(2) by blast+
      then show ?thesis using acl_map_in [OF wf x(1)] acl_map_in [OF assms(1), of x] x(2) by simp
    next
      case False
      then have "k \<noteq> item_key e \<Longrightarrow> acl_map l k = None" "acl_map ?l k = None"
        using inj by (auto simp: acl_map_None)
      then show ?thesis by simp
    qed
  qed
qed

lemma acl_lib_create:
  "acl_lib_edits os ents fil \<Longrightarrow> la_create os w = (Some h, w') \<Longrightarrow>
   h \<notin> fst ` set (ents w) \<and> (\<exists>v. ents w' = ents w @ [(h, v)]) \<and> fil w' = fil w"
  unfolding acl_lib_edits_def by blast

lemma create_entry_result:
  assumes "acl_lib_edits os ents fil" and "create_entry os a w = Ret h w'"
  shows "\<exists>q p. ents w' = ents w @ [(h, ace_tag a, q, p)] \<and> acl_key (ace_tag a) q = acl_key (ace_tag a) (ace_qual a)
    \<and> h \<notin> fst ` set (ents w) \<and> fil w' = fil w"
proof -
  note lib = acl_lib_editsD [OF assms(1)]
  obtain w1 w2 where s: "la_create os w = (Some h, w1)" "must (la_set_tag os h (ace_tag a)) w1 = Ret () w2"
    "(if ace_tag a = ACL_USER \<or> ace_tag a = ACL_GROUP
      then must (la_set_qual os h (ace_qual a)) w2 else Ret () w2) = Ret () w'"
    using assms(2) by (auto simp: create_entry_def obind_Ret_iff must_get_Ret_iff)
  obtain v where c: "h \<notin> fst ` set (ents w)" "ents w1 = ents w @ [(h, v)]" "fil w1 = fil w"
    using acl_lib_create [OF assms(1) s(1)] by blast
  obtain t0 q0 p0 where v: "v = (t0, q0, p0)" by (cases v)
  have w2: "ents w2 = ents w @ [(h, ace_tag a, q0, p0)]" "fil w2 = fil w"
    using edits_must [OF lib(2) s(2)] c v by (simp_all add: set_item_fresh)
  show ?thesis
  proof (cases "ace_tag a = ACL_USER \<or> ace_tag a = ACL_GROUP")
    case True
    then have "must (la_set_qual os h (ace_qual a)) w2 = Ret () w'" using s(3) by simp
    from edits_must [OF lib(3) this] w2 c(1) show ?thesis by (auto simp: set_item_fresh)
  next
    case False
    then have "w' = w2" using s(3) by simp
    with False w2 c(1) show ?thesis by (auto simp: acl_key_def)
  qed
qed

lemma new_item:
  assumes "acl_wf l" and "h \<notin> fst ` set l" and "acl_map l k = None" and "item_key (h, t, q, p) = k"
  shows "acl_wf (l @ [(h, t, q, p)])" and "acl_map (l @ [(h, t, q, p)]) = (acl_map l)(k \<mapsto> p)"
proof -
  have k: "k \<notin> item_key ` set l" using assms(3) by (simp add: acl_map_None)
  then show wf: "acl_wf (l @ [(h, t, q, p)])" using assms by (auto simp: acl_wf_def)
  show "acl_map (l @ [(h, t, q, p)]) = (acl_map l)(k \<mapsto> p)"
    using assms(3,4) by (auto simp: acl_map_def map_of_append item_perms_def map_add_def fun_eq_iff split: option.splits)
qed

text \<open>One entry of the list changes the ACL being edited as the specification says.\<close>

lemma edit_entry_result:
  assumes lib: "acl_lib_reads os ents fil" "acl_lib_edits os ents fil"
    and "acl_wf (ents w)" and "edit_entry os op a w = Ret () w'"
    and ok: "op \<noteq> removeEntries \<Longrightarrow> \<exists>p < 8. ace_perms a = Some p"
  shows "acl_wf (ents w') \<and> acl_map (ents w') = edit_map op a (acl_map (ents w)) \<and> fil w' = fil w"
proof -
  let ?k = "acl_key (ace_tag a) (ace_qual a)"
  obtain r w1 where f: "findEntry os (ace_tag a) (ace_qual a) w = Ret r w1"
    and rest: "(if op = removeEntries then
         (case r of None \<Rightarrow> Ret () w1 | Some entry \<Rightarrow> must (la_delete os entry) w1)
       else
         obind (case r of None \<Rightarrow> create_entry os a w1 | Some entry \<Rightarrow> Ret entry w1) (\<lambda>entry w.
           case ace_perms a of None \<Rightarrow> Undef | Some perms \<Rightarrow> setPerms os entry perms w)) = Ret () w'"
    using assms(4) by (auto simp: edit_entry_def obind_Ret_iff)
  note found = findEntry_result [OF lib f assms(3)]
  have wf: "acl_wf (ents w1)" using assms(3) found(1) by simp
  show ?thesis
  proof (cases "op = removeEntries")
    case True
    show ?thesis
    proof (cases r)
      case None
      with True rest found assms(3) show ?thesis by (auto simp: edit_map_def fun_upd_idem)
    next
      case (Some h)
      then obtain e where e: "e \<in> set (ents w)" "fst e = h" "item_key e = ?k" using found(4) by blast
      from True Some rest have "must (la_delete os h) w1 = Ret () w'" by simp
      from edits_must [OF acl_lib_editsD(1) [OF lib(2)] this] delete_item [OF assms(3) e(1)] e(2,3) found(1,2) True
      show ?thesis by (simp add: edit_map_def)
    qed
  next
    case False
    then obtain p where p: "p < 8" "ace_perms a = Some p" using ok by blast
    show ?thesis
    proof (cases r)
      case None
      with False rest p obtain h w2 where c: "create_entry os a w1 = Ret h w2" and s: "setPerms os h p w2 = Ret () w'"
        by (auto simp: obind_Ret_iff)
      obtain q p0 where n: "ents w2 = ents w1 @ [(h, ace_tag a, q, p0)]" "acl_key (ace_tag a) q = ?k"
          "h \<notin> fst ` set (ents w1)" "fil w2 = fil w1"
        using create_entry_result [OF lib(2) c] by blast
      have "ents w' = ents w1 @ [(h, ace_tag a, q, p)]" "fil w' = fil w"
        using setPerms_result [OF lib(2) p(1) s] n found(2) by (simp_all add: set_item_fresh)
      with new_item [OF wf n(3), of ?k "ace_tag a" q p] found n(2) None False p(2)
      show ?thesis by (simp add: item_key_def edit_map_def)
    next
      case (Some h)
      with False rest p have s: "setPerms os h p w1 = Ret () w'" by simp
      obtain e where e: "e \<in> set (ents w)" "fst e = h" "item_key e = ?k" using found(4) Some by blast
      from setPerms_result [OF lib(2) p(1) s] set_perms_item [OF assms(3) e(1,2), of p] e(3) found(1,2) False p(2)
      show ?thesis by (simp add: edit_map_def)
    qed
  qed
qed

section \<open>Whole updates\<close>

text \<open>The keys that the caller controls: all of them, or all but the mask when it is
  recalculated.\<close>

definition kept_key :: "bool \<Rightarrow> acl_key \<Rightarrow> bool" where
  "kept_key recalcMask k \<longleftrightarrow> \<not> recalcMask \<or> fst k \<noteq> ACL_MASK"

lemma edit_map_cong: "m k = m' k \<Longrightarrow> edit_map op a m k = edit_map op a m' k"
  by (simp add: edit_map_def)

lemma edit_all_cong: "m k = m' k \<Longrightarrow> edit_all op as m k = edit_all op as m' k"
proof (induction as arbitrary: m m')
  case (Cons a as)
  have "edit_map op a m k = edit_map op a m' k" using Cons.prems by (rule edit_map_cong)
  then show ?case using Cons.IH [of "edit_map op a m" "edit_map op a m'"] by (simp add: edit_all_def)
qed (simp add: edit_all_def)

lemma apply_entry_result:
  assumes lib: "acl_lib_reads os ents fil" "acl_lib_edits os ents fil"
    and "acl_wf (ents w)" and "apply_entry os file d op recalcMask a w = Ret () w'"
    and ok: "op \<noteq> removeEntries \<Longrightarrow> \<exists>p < 8. ace_perms a = Some p"
  shows "acl_wf (ents w') \<and> fil w' = (fil w)((file, d) := acl_map (ents w'))
    \<and> (\<forall>k. kept_key recalcMask k \<longrightarrow> acl_map (ents w') k = edit_map op a (acl_map (ents w)) k)"
proof -
  obtain w1 w2 w3 where s: "edit_entry os op a w = Ret () w1"
      "(if recalcMask then must (la_calc_mask os) w1 else Ret () w1) = Ret () w2"
      "must (la_valid os) w2 = Ret () w3" "must (la_set_file os file d) w3 = Ret () w'"
    using assms(4) by (auto simp: apply_entry_def obind_Ret_iff)
  have e: "acl_wf (ents w1)" "acl_map (ents w1) = edit_map op a (acl_map (ents w))" "fil w1 = fil w"
    using edit_entry_result [OF lib assms(3) s(1) ok] by blast+
  have m: "acl_wf (ents w2) \<and> fil w2 = fil w1 \<and> (\<forall>k. kept_key recalcMask k \<longrightarrow> acl_map (ents w2) k = acl_map (ents w1) k)"
  proof (cases recalcMask)
    case True
    then have "la_calc_mask os w1 = (True, w2)" using s(2) by (simp add: must_Ret_iff)
    then show ?thesis using lib(2) e(1) True unfolding acl_lib_edits_def kept_key_def by blast
  next
    case False
    then show ?thesis using s(2) e(1) by auto
  qed
  have v: "ents w3 = ents w2" "fil w3 = fil w2" using keeps_must [OF acl_lib_editsD(9) [OF lib(2)] s(3)] by simp_all
  have f: "ents w' = ents w3" "fil w' = (fil w3)((file, d) := acl_map (ents w3))"
    using lib(2) s(4) unfolding acl_lib_edits_def must_Ret_iff by blast+
  show ?thesis using e m v f by simp
qed

lemma apply_entries_result:
  assumes lib: "acl_lib_reads os ents fil" "acl_lib_edits os ents fil"
    and "acl_wf (ents w)" and "acl_map (ents w) = fil w (file, d)"
    and "ofold (apply_entry os file d op recalcMask) aclist w = Ret () w'"
    and "\<forall>a \<in> set aclist. op \<noteq> removeEntries \<longrightarrow> (\<exists>p < 8. ace_perms a = Some p)"
  shows "(\<forall>k. kept_key recalcMask k \<longrightarrow> fil w' (file, d) k = edit_all op aclist (fil w (file, d)) k)
    \<and> (\<forall>x. x \<noteq> (file, d) \<longrightarrow> fil w' x = fil w x)"
  using assms(3-6)
proof (induction aclist arbitrary: w)
  case Nil
  then show ?case by (simp add: edit_all_def)
next
  case (Cons a as)
  obtain w1 where s: "apply_entry os file d op recalcMask a w = Ret () w1"
      "ofold (apply_entry os file d op recalcMask) as w1 = Ret () w'"
    using Cons.prems(3) by (auto simp: obind_Ret_iff)
  have r: "acl_wf (ents w1)" "fil w1 = (fil w)((file, d) := acl_map (ents w1))"
      "\<forall>k. kept_key recalcMask k \<longrightarrow> acl_map (ents w1) k = edit_map op a (acl_map (ents w)) k"
    using apply_entry_result [OF lib Cons.prems(1) s(1)] Cons.prems(4) by simp_all
  have "acl_map (ents w1) = fil w1 (file, d)" using r(2) by simp
  from Cons.IH [OF r(1) this s(2)] Cons.prems(4)
  have ih: "\<forall>k. kept_key recalcMask k \<longrightarrow> fil w' (file, d) k = edit_all op as (fil w1 (file, d)) k"
      "\<forall>x. x \<noteq> (file, d) \<longrightarrow> fil w' x = fil w1 x" by auto
  have "edit_all op as (fil w1 (file, d)) k = edit_all op (a # as) (fil w (file, d)) k" if "kept_key recalcMask k" for k
    using edit_all_cong [of "fil w1 (file, d)" k "edit_map op a (fil w (file, d))" op as] r that Cons.prems(2)
    by (simp add: edit_all_def)
  then show ?case using ih r(2) by simp
qed


section \<open>A library\<close>

record demo_acl =
  da_ents :: "acl_item list"
  da_files :: "cstring \<times> bool \<Rightarrow> acl_item list"

definition demo_fresh :: "acl_item list \<Rightarrow> int" where
  "demo_fresh l = Max (insert 0 (set (map fst l))) + 1"

definition demo_edit :: "(acl_item list \<Rightarrow> acl_item list) \<Rightarrow> demo_acl \<Rightarrow> bool \<times> demo_acl" where
  "demo_edit g w = (True, w\<lparr> da_ents := g (da_ents w) \<rparr>)"

definition demo_acl_lib :: "demo_acl acl_lib" where
  "demo_acl_lib =
     \<lparr> la_get_file = (\<lambda>f d w. (acl_wf (da_files w (f, d)), w\<lparr> da_ents := da_files w (f, d) \<rparr>)),
       la_entries = (\<lambda>w. (map fst (da_ents w), True)),
       la_tag = (\<lambda>h w. map_option fst (map_of (da_ents w) h)),
       la_qual = (\<lambda>h w. map_option (\<lambda>v. fst (snd v)) (map_of (da_ents w) h)),
       la_free = (\<lambda>w. (True, w)),
       la_delete = (\<lambda>h. demo_edit (filter (\<lambda>e. fst e \<noteq> h))),
       la_create = (\<lambda>w. (Some (demo_fresh (da_ents w)),
          w\<lparr> da_ents := da_ents w @ [(demo_fresh (da_ents w), ACL_OTHER, 0, 0)] \<rparr>)),
       la_set_tag = (\<lambda>h t. demo_edit (set_item h (\<lambda>(_, q, p). (t, q, p)))),
       la_set_qual = (\<lambda>h q. demo_edit (set_item h (\<lambda>(t, _, p). (t, q, p)))),
       la_get_permset = (\<lambda>h w. (True, w)),
       la_clear_perms = (\<lambda>h. demo_edit (set_item h (\<lambda>(t, q, _). (t, q, 0)))),
       la_add_perm = (\<lambda>h b. demo_edit (set_item h (\<lambda>(t, q, p). (t, q, p OR b)))),
       la_set_permset = (\<lambda>h w. (True, w)),
       la_calc_mask = (\<lambda>w. (True, w)),
       la_valid = (\<lambda>w. (acl_wf (da_ents w), w)),
       la_set_file = (\<lambda>f d w. (True, w\<lparr> da_files := (da_files w)((f, d) := da_ents w) \<rparr>)),
       la_delete_def_file = (\<lambda>f w. (True, w\<lparr> da_files := (da_files w)((f, True) := []) \<rparr>)) \<rparr>"

definition demo_fil :: "demo_acl \<Rightarrow> acl_files" where
  "demo_fil w = (\<lambda>x. acl_map (da_files w x))"

lemma demo_fresh_new: "demo_fresh l \<notin> fst ` set l"
proof
  assume "demo_fresh l \<in> fst ` set l"
  then have "demo_fresh l \<le> Max (insert 0 (set (map fst l)))" by (intro Max_ge) auto
  then show False by (simp add: demo_fresh_def)
qed

lemma demo_acl_reads: "acl_lib_reads demo_acl_lib da_ents demo_fil"
  by (auto simp: acl_lib_reads_def demo_acl_lib_def demo_fil_def acl_wf_def)

lemma demo_acl_edits: "acl_lib_edits demo_acl_lib da_ents demo_fil"
  using demo_fresh_new
  by (auto simp: acl_lib_edits_def demo_acl_lib_def demo_fil_def edits_def keeps_def demo_edit_def fun_eq_iff)

definition demo_acl_state :: demo_acl where
  "demo_acl_state = \<lparr> da_ents = [], da_files = (\<lambda>x. if x = (''f'', False)
     then [(1, ACL_USER_OBJ, 0, 6), (2, ACL_USER, 7, 4), (3, ACL_GROUP_OBJ, 0, 4), (4, ACL_OTHER, 0, 0)] else []) \<rparr>"

definition demo_aces :: "AccessControlEntry list" where
  "demo_aces = [\<lparr> ace_tag = ACL_USER, ace_qual = 7, ace_perms = Some 5 \<rparr>,
     \<lparr> ace_tag = ACL_GROUP, ace_qual = 9, ace_perms = Some 6 \<rparr>]"

lemma demo_update: "\<exists>w'. updateACL demo_acl_lib ''f'' False demo_aces modifyEntries False demo_acl_state = Ret () w'"
  by (simp add: updateACL_def apply_entry_def edit_entry_def create_entry_def findEntry_def setPerms_def add_if_def
      must_def must_get_def demo_aces_def demo_acl_state_def demo_acl_lib_def demo_edit_def demo_fresh_def
      set_item_def acl_wf_def item_key_def acl_key_def acl_bits)


end
