(* ===== verification/Ns_Capable.thy ===== *)
theory Ns_Capable
  imports Util_Lib
begin

text \<open>
  \<^verbatim>\<open>namespaces/ns_capable.c\<close>: does a process have capabilities in a namespace? The program
  walks up the user namespaces from the target with \<^verbatim>\<open>ioctl(NS_GET_PARENT)\<close>. The kernel is an
  argument; the specification speaks of a forest of user namespaces with owners, and of the
  namespace that an open descriptor refers to.
\<close>

section \<open>The kernel\<close>

text \<open>\<open>Inl e\<close> is -1 with \<^verbatim>\<open>errno\<close> set to \<open>e\<close>. \<open>pr_status\<close> are the lines that \<^verbatim>\<open>fgets()\<close> delivers
  from \<^verbatim>\<open>/proc/PID/status\<close>.\<close>

record 'w ns_os =
  ns_open :: "cstring \<Rightarrow> 'w \<Rightarrow> int option \<times> 'w"
  ns_parent :: "int \<Rightarrow> 'w \<Rightarrow> (int + int) \<times> 'w"
  ns_owning :: "int \<Rightarrow> 'w \<Rightarrow> int option \<times> 'w"
  ns_kind :: "int \<Rightarrow> 'w \<Rightarrow> int option"
  ns_owner_uid :: "int \<Rightarrow> 'w \<Rightarrow> ugid option"
  ns_stat :: "int \<Rightarrow> 'w \<Rightarrow> (int \<times> int) option"
  ns_close :: "int \<Rightarrow> 'w \<Rightarrow> bool \<times> 'w"
  pr_status :: "int \<Rightarrow> 'w \<Rightarrow> cstring list option"
  pr_caps :: "int \<Rightarrow> 'w \<Rightarrow> cstring option"

definition EPERM_no :: int where "EPERM_no = 1"
definition CLONE_NEWUSER :: int where "CLONE_NEWUSER = 0x10000000"

section \<open>Operations\<close>

text \<open>\<open>pr_caps\<close> is the text of the capabilities of a process; when it cannot be had the program
  ends.\<close>

definition display_process_capabilities :: "'w ns_os \<Rightarrow> int \<Rightarrow> 'w \<Rightarrow> (unit, 'w) outcome" where
  "display_process_capabilities os pid w =
     (case pr_caps os pid w of None \<Rightarrow> Exit EXIT_FAILURE w | Some cap_string \<Rightarrow> Ret () w)"

text \<open>\<^verbatim>\<open>sscanf(line, "Uid: %*d %d %*d %*d", &uid)\<close>: the second number after the word; \<open>None\<close> when
  there is none and the variable stays uninitialised.\<close>

definition scan_uid :: "cstring \<Rightarrow> ugid option" where
  "scan_uid line =
     (let s0 = drop 4 line; (a, _, s1) = strtoll s0 10; (b, _, s2) = strtoll s1 10
      in if s1 = s0 \<or> s2 = s1 then None else Some (word_of_int b))"

fun scan_status :: "cstring list \<Rightarrow> ugid option option" where
  "scan_status [] = None"
| "scan_status (line # lines) =
     (if strncmp_eq ''Uid:'' line 4 then Some (scan_uid line) else scan_status lines)"

definition euid_of_process :: "'w ns_os \<Rightarrow> int \<Rightarrow> 'w \<Rightarrow> (ugid, 'w) outcome" where
  "euid_of_process os pid w =
     (case pr_status os pid w of
        None \<Rightarrow> Exit EXIT_FAILURE w
      | Some lines \<Rightarrow>
          (case scan_status lines of
             None \<Rightarrow> Exit EXIT_FAILURE w
           | Some None \<Rightarrow> Undef
           | Some (Some uid) \<Rightarrow> Ret uid w))"

definition ns_equal :: "'w ns_os \<Rightarrow> int \<Rightarrow> int \<Rightarrow> 'w \<Rightarrow> (bool, 'w) outcome" where
  "ns_equal os nsfd1 nsfd2 w =
     (case (ns_stat os nsfd1 w, ns_stat os nsfd2 w) of
        (Some sb1, Some sb2) \<Rightarrow> Ret (fst sb1 = fst sb2 \<and> snd sb1 = snd sb2) w
      | _ \<Rightarrow> Exit EXIT_FAILURE w)"

definition close_ns :: "'w ns_os \<Rightarrow> int \<Rightarrow> 'w \<Rightarrow> (unit, 'w) outcome" where
  "close_ns os fd w = must (ns_close os fd) w"

definition ns_type :: "'w ns_os \<Rightarrow> int \<Rightarrow> 'w \<Rightarrow> (int, 'w) outcome" where
  "ns_type os ns_fd w = (case ns_kind os ns_fd w of None \<Rightarrow> Exit EXIT_FAILURE w | Some nstype \<Rightarrow> Ret nstype w)"

definition owning_userns_of :: "'w ns_os \<Rightarrow> int \<Rightarrow> 'w \<Rightarrow> (int, 'w) outcome" where
  "owning_userns_of os ns_fd w = must_get (ns_owning os ns_fd) w"

definition uid_of_userns :: "'w ns_os \<Rightarrow> int \<Rightarrow> 'w \<Rightarrow> (ugid, 'w) outcome" where
  "uid_of_userns os userns_fd w =
     (case ns_owner_uid os userns_fd w of None \<Rightarrow> Exit EXIT_FAILURE w | Some owner_uid \<Rightarrow> Ret owner_uid w)"

text \<open>The loop of \<^verbatim>\<open>is_ancestor_userns()\<close>; the bound on the number of turns is the first
  argument, \<open>None\<close> means that it was reached.\<close>

fun ancestor_loop :: "nat \<Rightarrow> 'w ns_os \<Rightarrow> int \<Rightarrow> int \<Rightarrow> int \<Rightarrow> 'w \<Rightarrow> (int, 'w) outcome option" where
  "ancestor_loop 0 os source_userns target_userns child w = None"
| "ancestor_loop (Suc n) os source_userns target_userns child w =
     (case ns_parent os child w of
        (Inl e, w) \<Rightarrow>
          if e \<noteq> EPERM_no then Some (Exit EXIT_FAILURE w)
          else Some (obind (if child \<noteq> target_userns then close_ns os child w else Ret () w) (\<lambda>_ w. Ret (-1) w))
      | (Inr parent, w) \<Rightarrow>
          obind_opt (ns_equal os parent source_userns w) (\<lambda>same w.
            if same then Some (obind (close_ns os parent w) (\<lambda>_ w. Ret child w))
            else
              obind_opt (if child \<noteq> target_userns then close_ns os child w else Ret () w) (\<lambda>_ w.
                ancestor_loop n os source_userns target_userns parent w)))"

definition is_ancestor_userns :: "nat \<Rightarrow> 'w ns_os \<Rightarrow> int \<Rightarrow> int \<Rightarrow> 'w \<Rightarrow> (int, 'w) outcome option" where
  "is_ancestor_userns n os source_userns target_userns w =
     ancestor_loop n os source_userns target_userns target_userns w"

definition userns_path :: "int \<Rightarrow> cstring" where
  "userns_path pid = ''/proc/'' @ dec pid @ ''/ns/user''"

definition userns_from_pid :: "'w ns_os \<Rightarrow> int \<Rightarrow> 'w \<Rightarrow> (int, 'w) outcome" where
  "userns_from_pid os pid w = must_get (ns_open os (userns_path pid)) w"

definition get_userns_from :: "'w ns_os \<Rightarrow> cstring \<Rightarrow> 'w \<Rightarrow> (int, 'w) outcome" where
  "get_userns_from os arg w =
     (if is_digit 10 (cchar arg 0) then userns_from_pid os (atoi arg) w
      else
        obind (must_get (ns_open os arg) w) (\<lambda>ns w.
          obind (ns_type os ns w) (\<lambda>kind w.
            if kind = CLONE_NEWUSER then Ret ns w
            else
              obind (owning_userns_of os ns w) (\<lambda>userns w.
              obind (close_ns os ns w) (\<lambda>_ w. Ret userns w)))))"

text \<open>What the program reports.\<close>

datatype ns_verdict = In_Target | Not_Ancestor | Owner_All_Caps | Ancestor_Own_Caps

definition judge_child ::
  "'w ns_os \<Rightarrow> int \<Rightarrow> int \<Rightarrow> int \<Rightarrow> 'w \<Rightarrow> (ns_verdict, 'w) outcome" where
  "judge_child os pid target_userns child_userns w =
     (if child_userns = -1 then Ret Not_Ancestor w
      else
        obind (euid_of_process os pid w) (\<lambda>euid w.
          obind (uid_of_userns os child_userns w) (\<lambda>owner w.
              let is_owner = (euid = owner) in
              obind (if is_owner then Ret () w else display_process_capabilities os pid w) (\<lambda>_ w.
              obind (if child_userns \<noteq> target_userns then close_ns os child_userns w else Ret () w) (\<lambda>_ w.
                Ret (if is_owner then Owner_All_Caps else Ancestor_Own_Caps) w)))))"

definition judge :: "nat \<Rightarrow> 'w ns_os \<Rightarrow> int \<Rightarrow> int \<Rightarrow> int \<Rightarrow> 'w \<Rightarrow> (ns_verdict, 'w) outcome option" where
  "judge n os pid source_userns target_userns w =
     obind_opt (ns_equal os source_userns target_userns w) (\<lambda>same w.
       if same then Some (obind (display_process_capabilities os pid w) (\<lambda>_ w. Ret In_Target w))
       else
         map_option (\<lambda>r. obind r (judge_child os pid target_userns))
           (is_ancestor_userns n os source_userns target_userns w))"

definition ns_capable_main :: "nat \<Rightarrow> 'w ns_os \<Rightarrow> cstring list \<Rightarrow> 'w \<Rightarrow> (ns_verdict, 'w) outcome option" where
  "ns_capable_main n os args w =
     (case args of
        [arg1, arg2] \<Rightarrow>
          let pid = atoi arg1 in
          obind_opt (userns_from_pid os pid w) (\<lambda>source_userns w.
          obind_opt (get_userns_from os arg2 w) (\<lambda>target_userns w.
            map_option (\<lambda>r. obind r (\<lambda>verdict w.
              obind (close_ns os target_userns w) (\<lambda>_ w.
              obind (close_ns os source_userns w) (\<lambda>_ w. Ret verdict w))))
              (judge n os pid source_userns target_userns w)))
      | _ \<Rightarrow> Some (Exit EXIT_FAILURE w))"

section \<open>Specification\<close>

text \<open>User namespaces form a forest; \<open>below par s c t\<close>: \<open>c\<close> is the child of \<open>s\<close> on the way down to \<open>t\<close>.\<close>

inductive below :: "('n \<Rightarrow> 'n option) \<Rightarrow> 'n \<Rightarrow> 'n \<Rightarrow> 'n \<Rightarrow> bool" for par s where
  direct: "par t = Some s \<Longrightarrow> below par s t t"
| further: "par t = Some p \<Longrightarrow> below par s c p \<Longrightarrow> below par s c t"

inductive_simps below_iff: "below par s c t"

definition forest :: "('n \<Rightarrow> 'n option) \<Rightarrow> ('n \<Rightarrow> nat) \<Rightarrow> bool" where
  "forest par rank \<longleftrightarrow> (\<forall>n p. par n = Some p \<longrightarrow> rank p < rank n)"

text \<open>The rules of user\_namespaces(7): a process has its own capabilities in its namespace and
  in those below it, all capabilities below a namespace that its user created, and none
  elsewhere.\<close>

definition verdict_ok :: "('n \<Rightarrow> 'n option) \<Rightarrow> ('n \<Rightarrow> ugid) \<Rightarrow> ugid \<Rightarrow> 'n \<Rightarrow> 'n \<Rightarrow> ns_verdict \<Rightarrow> bool" where
  "verdict_ok par owner euid s t v =
     (case v of
        In_Target \<Rightarrow> s = t
      | Not_Ancestor \<Rightarrow> s \<noteq> t \<and> (\<forall>c. \<not> below par s c t)
      | Owner_All_Caps \<Rightarrow> s \<noteq> t \<and> (\<exists>c. below par s c t \<and> owner c = euid)
      | Ancestor_Own_Caps \<Rightarrow> s \<noteq> t \<and> (\<exists>c. below par s c t \<and> owner c \<noteq> euid))"

lemma below_rank: "below par s c t \<Longrightarrow> forest par rank \<Longrightarrow> rank s < rank t"
  by (induction rule: below.induct) (auto simp: forest_def dest: less_trans)

lemma below_unique:
  assumes "below par s c t" and "below par s c' t" and "forest par rank"
  shows "c = c'"
  using assms(1,2)
proof (induction rule: below.induct)
  case (direct t)
  show ?case using direct.prems
  proof cases
    case (further p)
    with direct.hyps below_rank [OF _ assms(3), of s c' s] show ?thesis by auto
  qed (simp add: direct.hyps)
next
  case (further t p c)
  show ?case using further.prems
  proof cases
    case direct
    with further.hyps below_rank [OF _ assms(3), of s c s] show ?thesis by auto
  next
    case (further p')
    with \<open>par t = Some p\<close> further.IH show ?thesis by auto
  qed
qed

text \<open>What the descriptors refer to (\<open>ref\<close>), and what the kernel documents of the calls on them.
  \<open>idn\<close> gives device and inode number of a namespace.\<close>

definition ns_kernel ::
  "'w ns_os \<Rightarrow> ('w \<Rightarrow> int \<Rightarrow> 'n option) \<Rightarrow> ('n \<Rightarrow> 'n option) \<Rightarrow> ('n \<Rightarrow> ugid) \<Rightarrow> ('n \<Rightarrow> int \<times> int) \<Rightarrow> bool" where
  "ns_kernel os ref par owner idn \<longleftrightarrow> inj idn
   \<and> (\<forall>w fd n. ref w fd = Some n \<longrightarrow> 0 \<le> fd \<and> ns_stat os fd w = Some (idn n) \<and> ns_owner_uid os fd w = Some (owner n)
        \<and> (\<exists>w'. ns_close os fd w = (True, w') \<and> ref w' = (ref w)(fd := None)))
   \<and> (\<forall>w fd n. ref w fd = Some n \<longrightarrow> par n = None \<longrightarrow>
        (\<exists>w'. ns_parent os fd w = (Inl EPERM_no, w') \<and> ref w' = ref w))
   \<and> (\<forall>w fd n p. ref w fd = Some n \<longrightarrow> par n = Some p \<longrightarrow>
        (\<exists>fd' w'. ns_parent os fd w = (Inr fd', w') \<and> ref w fd' = None \<and> ref w' = (ref w)(fd' \<mapsto> p)))"

lemma ns_kernelD:
  assumes "ns_kernel os ref par owner idn" and "ref w fd = Some n"
  shows "0 \<le> fd" "ns_stat os fd w = Some (idn n)" "ns_owner_uid os fd w = Some (owner n)"
    and "\<exists>w'. ns_close os fd w = (True, w') \<and> ref w' = (ref w)(fd := None)"
  using assms unfolding ns_kernel_def by blast+

lemma ns_equal_eq:
  assumes "ns_kernel os ref par owner idn" and "ref w a = Some x" and "ref w b = Some y"
  shows "ns_equal os a b w = Ret (x = y) w"
proof -
  have "idn x = idn y \<longleftrightarrow> x = y" using assms(1) unfolding ns_kernel_def by (simp add: inj_eq)
  then show ?thesis
    using ns_kernelD(2) [OF assms(1,2)] ns_kernelD(2) [OF assms(1,3)]
    by (auto simp: ns_equal_def prod_eq_iff)
qed

text \<open>The descriptors that are open while the loop looks at \<open>child\<close>: those of the caller, and
  \<open>child\<close> itself.\<close>

definition holding :: "(int \<Rightarrow> 'n option) \<Rightarrow> int \<Rightarrow> int \<Rightarrow> 'n \<Rightarrow> (int \<Rightarrow> 'n option) \<Rightarrow> bool" where
  "holding base tgt fd c r \<longleftrightarrow>
     (if fd = tgt then base tgt = Some c \<and> r = base else base fd = None \<and> r = base(fd \<mapsto> c))"

lemma holding_ref: "holding base tgt fd c r \<Longrightarrow> r fd = Some c"
  by (auto simp: holding_def split: if_splits)

lemma release_child:
  assumes "ns_kernel os ref par owner idn" and "holding base tgt fd c (ref w)"
  obtains w' where "(if fd \<noteq> tgt then close_ns os fd w else Ret () w) = Ret () w'" "ref w' = base"
proof (cases "fd = tgt")
  case True
  with assms(2) that show ?thesis by (auto simp: holding_def)
next
  case False
  then have h: "base fd = None" "ref w = base(fd \<mapsto> c)" using assms(2) by (auto simp: holding_def)
  then obtain w' where "ns_close os fd w = (True, w')" "ref w' = (ref w)(fd := None)"
    using ns_kernelD(4) [OF assms(1), of w fd c] by auto
  moreover have "(base(fd \<mapsto> c))(fd := None) = base" using h(1) by (auto simp: fun_eq_iff)
  ultimately show ?thesis using that False h by (simp add: close_ns_def must_def)
qed

lemma holding_parent:
  assumes "holding base tgt fd c r" and "base tgt = Some t" and "r fd' = None"
  shows "holding (base(fd' \<mapsto> p)) tgt fd c (r(fd' \<mapsto> p))" and "base fd' = None" and "fd' \<noteq> tgt"
    and "(r(fd' \<mapsto> p))(fd' := None) = r"
  using assms by (auto simp: holding_def fun_eq_iff split: if_splits)

lemma ancestor_loop_result:
  assumes k: "ns_kernel os ref par owner idn" and "forest par rank"
    and base: "base src = Some s" "base tgt = Some t"
    and "holding base tgt child c0 (ref w)" and "rank c0 < n"
  shows "\<exists>r w'. ancestor_loop n os src tgt child w = Some (Ret r w') \<and>
     (if r = -1 then ref w' = base \<and> (\<forall>c. \<not> below par s c c0)
      else \<exists>c. below par s c c0 \<and> holding base tgt r c (ref w'))"
  using assms(5,6)
proof (induction n arbitrary: child c0 w)
  case (Suc n)
  have ch: "ref w child = Some c0" using Suc.prems(1) by (rule holding_ref)
  show ?case
  proof (cases "par c0")
    case None
    obtain w1 where p: "ns_parent os child w = (Inl EPERM_no, w1)" "ref w1 = ref w"
      using k ch None unfolding ns_kernel_def by blast
    obtain w2 where "(if child \<noteq> tgt then close_ns os child w1 else Ret () w1) = Ret () w2" "ref w2 = base"
      using release_child [OF k, of base tgt child c0 w1] Suc.prems(1) p(2) by metis
    moreover have "\<not> below par s c c0" for c using None by (auto elim: below.cases)
    ultimately show ?thesis using p(1) by auto
  next
    case (Some p)
    obtain fd w1 where pr: "ns_parent os child w = (Inr fd, w1)" "ref w fd = None" "ref w1 = (ref w)(fd \<mapsto> p)"
      using k ch Some unfolding ns_kernel_def by blast
    note hp = holding_parent [OF Suc.prems(1) base(2) pr(2)]
    have src: "ref w1 src = Some s"
      using Suc.prems(1) base(1) hp(2) pr(3) by (auto simp: holding_def split: if_splits)
    have eq: "ns_equal os fd src w1 = Ret (p = s) w1"
      using ns_equal_eq [OF k _ src] pr(3) by simp
    show ?thesis
    proof (cases "p = s")
      case True
      obtain w2 where w2: "ns_close os fd w1 = (True, w2)" "ref w2 = (ref w1)(fd := None)"
        using ns_kernelD(4) [OF k, of w1 fd p] pr(3) by auto
      then have "holding base tgt child c0 (ref w2)" using Suc.prems(1) pr(3) hp(4) by simp
      moreover have "below par s c0 c0" using Some True by (simp add: below.direct)
      moreover have "child \<noteq> -1" using ns_kernelD(1) [OF k ch] by simp
      ultimately show ?thesis
        using pr(1) eq True w2(1) by (auto simp: close_ns_def must_def)
    next
      case False
      obtain w2 where w2: "(if child \<noteq> tgt then close_ns os child w1 else Ret () w1) = Ret () w2"
          "ref w2 = base(fd \<mapsto> p)"
        using release_child [OF k, of "base(fd \<mapsto> p)" tgt child c0 w1] hp(1) pr(3) by metis
      have "holding base tgt fd p (ref w2)" using hp(2,3) w2(2) by (simp add: holding_def)
      moreover have "rank p < n"
        using assms(2) Some Suc.prems(2) unfolding forest_def by fastforce
      moreover have "below par s c c0 \<longleftrightarrow> below par s c p" for c
        using Some False by (subst below_iff) auto
      moreover have "ancestor_loop (Suc n) os src tgt child w = ancestor_loop n os src tgt fd w2"
        using pr(1) eq False w2(1) by simp
      ultimately show ?thesis using Suc.IH [of fd p w2] by (simp only:)
    qed
  qed
qed simp


section \<open>A kernel\<close>

text \<open>Three nested namespaces 0, 1 and 2, and an unrelated child 3 of the first; the state is the
  table of open descriptors.\<close>

definition demo_par :: "nat \<Rightarrow> nat option" where
  "demo_par n = (if n = 1 then Some 0 else if n = 2 then Some 1 else if n = 3 then Some 0 else None)"

definition demo_owner :: "nat \<Rightarrow> ugid" where
  "demo_owner n = (if n = 1 then 1000 else 0)"

type_synonym fd_table = "(int \<times> nat) list"

definition demo_ref :: "fd_table \<Rightarrow> int \<Rightarrow> nat option" where
  "demo_ref w fd = (if 0 \<le> fd then map_of w fd else None)"

definition demo_new_fd :: "fd_table \<Rightarrow> int" where
  "demo_new_fd w = Max (insert 0 (set (map fst w))) + 1"

definition demo_ns_os :: "fd_table ns_os" where
  "demo_ns_os =
     \<lparr> ns_open = (\<lambda>p w. (None, w)),
       ns_parent = (\<lambda>fd w. case demo_ref w fd of
          None \<Rightarrow> (Inl 9, w)
        | Some n \<Rightarrow> (case demo_par n of None \<Rightarrow> (Inl EPERM_no, w)
                     | Some p \<Rightarrow> (Inr (demo_new_fd w), (demo_new_fd w, p) # w))),
       ns_owning = (\<lambda>fd w. (None, w)),
       ns_kind = (\<lambda>fd w. Some CLONE_NEWUSER),
       ns_owner_uid = (\<lambda>fd w. map_option demo_owner (demo_ref w fd)),
       ns_stat = (\<lambda>fd w. map_option (\<lambda>n. (4, int n)) (demo_ref w fd)),
       ns_close = (\<lambda>fd w. (True, filter (\<lambda>e. fst e \<noteq> fd) w)),
       pr_status = (\<lambda>pid w. Some [''Name:'', ''Uid: 0 1000 0 0'']),
       pr_caps = (\<lambda>pid w. Some ''='') \<rparr>"

lemma demo_new_fd_fresh: "demo_ref w (demo_new_fd w) = None" "0 \<le> demo_new_fd w"
proof -
  have "x \<le> Max (insert 0 (set (map fst w)))" if "x \<in> insert 0 (set (map fst w))" for x
    using that by (intro Max_ge) auto
  then have m: "0 \<le> Max (insert 0 (set (map fst w)))" "fst e \<le> Max (insert 0 (set (map fst w)))" if "e \<in> set w" for e
    using that by auto
  show "0 \<le> demo_new_fd w" using Max_ge [of "insert 0 (set (map fst w))" 0] by (simp add: demo_new_fd_def)
  have "demo_new_fd w \<notin> fst ` set w" using m(2) by (force simp: demo_new_fd_def)
  then show "demo_ref w (demo_new_fd w) = None" by (simp add: demo_ref_def map_of_eq_None_iff)
qed

lemma map_of_filter_fst: "map_of (filter (\<lambda>e. fst e \<noteq> fd) w) = (map_of w)(fd := None)"
  by (induction w) (auto simp: fun_eq_iff)

lemma demo_ns_kernel: "ns_kernel demo_ns_os demo_ref demo_par demo_owner (\<lambda>n. (4, int n))"
  using demo_new_fd_fresh
  by (auto simp: ns_kernel_def demo_ns_os_def inj_def demo_ref_def map_of_filter_fst fun_eq_iff split: if_splits)


end
