(* ===== verification/Exec_Path.thy ===== *)
theory Exec_Path
  imports Tlpi_Prelude
begin

text \<open>
  \<^verbatim>\<open>procexec/execlp.c\<close>: \<^verbatim>\<open>execlp()\<close> on top of \<^verbatim>\<open>execve()\<close>. The argument vector is collected in
  an array that grows in steps of 100, the directories of \<^verbatim>\<open>PATH\<close> are tried in order. The
  kernel's \<^verbatim>\<open>execve()\<close> is an argument: for a pathname it either replaces the process (\<open>None\<close>)
  or fails with an error number. \<open>mem n\<close> says whether \<open>n\<close> bytes can be allocated.
\<close>

section \<open>Operations\<close>

text \<open>How a call ends: the process runs another program, or the function returns -1 with \<^verbatim>\<open>errno\<close>
  set, or memory outside an array is written or read.\<close>

datatype exec_result =
    Running cstring "cstring list" "cstring list"
  | Back int
  | Overrun

definition ENOMEM_no :: int where "ENOMEM_no = 12"
definition EACCES_no :: int where "EACCES_no = 13"
definition ENOEXEC_no :: int where "ENOEXEC_no = 8"

type_synonym execve = "cstring \<Rightarrow> cstring list \<Rightarrow> cstring list \<Rightarrow> int option"

text \<open>An array of pointers with its allocated size; \<open>None\<close> is the null pointer.\<close>

record argvec =
  av_size :: nat
  av_used :: "cstring option list"

text \<open>\<open>rest\<close> are the variable arguments not yet fetched; fetching past their end is undefined.\<close>

fun collect_args :: "(nat \<Rightarrow> bool) \<Rightarrow> argvec \<Rightarrow> cstring option list \<Rightarrow> argvec option option" where
  "collect_args mem v rest =
     (if last (av_used v) = None then Some (Some v)
      else
        let grown = (if length (av_used v) + 1 \<ge> av_size v
                     then (if mem (8 * (av_size v + 100)) then Some (v\<lparr> av_size := av_size v + 100 \<rparr>) else None)
                     else Some v)
        in case grown of
             None \<Rightarrow> Some None
           | Some v \<Rightarrow>
               (case rest of
                  [] \<Rightarrow> None
                | a # rest' \<Rightarrow>
                    if length (av_used v) < av_size v
                    then collect_args mem (v\<lparr> av_used := av_used v @ [a] \<rparr>) rest'
                    else None))"

declare collect_args.simps [simp del]

text \<open>The arguments that the kernel sees: those before the null pointer.\<close>

definition arg_strings :: "cstring option list \<Rightarrow> cstring list" where
  "arg_strings av = map the (takeWhile (\<lambda>a. a \<noteq> None) av)"

text \<open>\<^verbatim>\<open>execShScript()\<close> stores into the elements 0 to \<open>argc\<close> + 1 of an array of \<open>argc\<close> + 1
  elements.\<close>

definition execShScript :: "execve \<Rightarrow> nat \<Rightarrow> cstring option list \<Rightarrow> cstring list \<Rightarrow> exec_result option" where
  "execShScript ex argc argv envp =
     (let size = argc + 1; highest = argc + 1 in
      if highest < size then
        (let shArgv = ''/bin/sh'' # arg_strings argv in
         case ex ''/bin/sh'' shArgv envp of None \<Rightarrow> Some (Running ''/bin/sh'' shArgv envp) | Some e \<Rightarrow> None)
      else Some Overrun)"

text \<open>One call of \<^verbatim>\<open>execve()\<close> and what follows when it fails: \<open>Inl\<close> the end of the search, \<open>Inr\<close> the
  error.\<close>

definition try_exec :: "execve \<Rightarrow> cstring \<Rightarrow> cstring option list \<Rightarrow> cstring list \<Rightarrow> exec_result + int" where
  "try_exec ex pathname argv envp =
     (case ex pathname (arg_strings argv) envp of
        None \<Rightarrow> Inl (Running pathname (arg_strings argv) envp)
      | Some e \<Rightarrow>
          if e = ENOEXEC_no then
            (case execShScript ex (length argv) argv envp of None \<Rightarrow> Inr e | Some r \<Rightarrow> Inl r)
          else Inr e)"

text \<open>The pathname built from a prefix, and the size of the block allocated for it.\<close>

definition search_path :: "cstring \<Rightarrow> cstring \<Rightarrow> cstring" where
  "search_path prefix filename = (if prefix = [] then ''.'' else prefix) @ ''/'' @ filename"

definition search_alloc :: "cstring \<Rightarrow> cstring \<Rightarrow> nat" where
  "search_alloc prefix filename = max 1 (length prefix) + length filename + 2"

function path_loop :: "execve \<Rightarrow> cstring \<Rightarrow> cstring option list \<Rightarrow> cstring list \<Rightarrow> bool \<Rightarrow> cstring \<Rightarrow> exec_result" where
  "path_loop ex filename argv envp fndEACCES prStart =
     (let (prefix, more) = (case strchr prStart (CHR '':'') of None \<Rightarrow> (prStart, None) | Some (a, b) \<Rightarrow> (a, Some b));
          pathname = search_path prefix filename
      in if search_alloc prefix filename < length pathname + 1 then Overrun
         else
           case try_exec ex pathname argv envp of
             Inl r \<Rightarrow> r
           | Inr e \<Rightarrow>
               let fndEACCES = (fndEACCES \<or> e = EACCES_no)
               in case more of
                    None \<Rightarrow> Back (if fndEACCES then EACCES_no else e)
                  | Some prStart' \<Rightarrow> path_loop ex filename argv envp fndEACCES prStart')"
  by pat_completeness auto

termination path_loop
  by (relation "measure (\<lambda>(ex, f, a, e, fnd, s). length s)")
    (auto split: option.splits dest!: strchr_SomeD)

declare path_loop.simps [simp del]

definition execlp :: "execve \<Rightarrow> (nat \<Rightarrow> bool) \<Rightarrow> cstring option \<Rightarrow> cstring list \<Rightarrow> cstring \<Rightarrow> cstring option list \<Rightarrow> exec_result" where
  "execlp ex mem PATH environ filename args =
     (if \<not> mem 800 then Back ENOMEM_no
      else
        case args of
          [] \<Rightarrow> Overrun
        | arg # rest \<Rightarrow>
            case collect_args mem \<lparr> av_size = 100, av_used = [arg] \<rparr> rest of
              None \<Rightarrow> Overrun
            | Some None \<Rightarrow> Back ENOMEM_no
            | Some (Some v) \<Rightarrow>
                if \<not> mem (8 * (length environ + 1)) then Back ENOMEM_no
                else if strchr filename (CHR ''/'') \<noteq> None then
                  (case try_exec ex filename (av_used v) environ of Inl r \<Rightarrow> r | Inr e \<Rightarrow> Back e)
                else
                  path_loop ex filename (av_used v) environ False
                    (case PATH of None \<Rightarrow> ''.'' | Some p \<Rightarrow> if p = [] then ''.'' else p))"

section \<open>Collecting the arguments\<close>

lemma collect_args_ok:
  assumes "\<And>n. mem n" and "length (av_used v) < av_size v" and "None \<notin> set (av_used v)" and "av_used v \<noteq> []"
  shows "\<exists>v'. collect_args mem v (map Some xs @ [None]) = Some (Some v')
    \<and> av_used v' = av_used v @ map Some xs @ [None] \<and> length (av_used v') \<le> av_size v'"
  using assms(2-4)
proof (induction xs arbitrary: v)
  case Nil
  have "last (av_used v) \<noteq> None" using Nil(2,3) last_in_set by metis
  then show ?case
    using Nil assms(1) by (subst collect_args.simps) (auto simp: collect_args.simps [of _ _ "[]"] Let_def)
next
  case (Cons x xs)
  have l: "last (av_used v) \<noteq> None" using Cons.prems(2,3) last_in_set by metis
  define u where "u = (if length (av_used v) + 1 \<ge> av_size v then v\<lparr> av_size := av_size v + 100 \<rparr> else v)"
  have "collect_args mem v (map Some (x # xs) @ [None]) =
      collect_args mem (u\<lparr> av_used := av_used u @ [Some x] \<rparr>) (map Some xs @ [None])"
    using l Cons.prems(1) assms(1) by (subst collect_args.simps) (auto simp: u_def Let_def)
  moreover have "\<exists>v'. collect_args mem (u\<lparr> av_used := av_used u @ [Some x] \<rparr>) (map Some xs @ [None]) = Some (Some v')
    \<and> av_used v' = (av_used u @ [Some x]) @ map Some xs @ [None] \<and> length (av_used v') \<le> av_size v'"
    using Cons.IH [of "u\<lparr> av_used := av_used u @ [Some x] \<rparr>"] Cons.prems by (auto simp: u_def)
  ultimately show ?case by (simp add: u_def split: if_splits)
qed

lemma arg_strings_args: "arg_strings (map Some args @ [None]) = args"
  by (induction args) (simp_all add: arg_strings_def)

section \<open>The search\<close>

text \<open>The directories of a search path, an empty one meaning the current directory.\<close>

fun split_on :: "char \<Rightarrow> cstring \<Rightarrow> cstring list" where
  "split_on c [] = [[]]"
| "split_on c (x # xs) =
     (if x = c then [] # split_on c xs
      else case split_on c xs of [] \<Rightarrow> [[x]] | y # ys \<Rightarrow> (x # y) # ys)"

definition candidates :: "cstring option \<Rightarrow> cstring \<Rightarrow> cstring list" where
  "candidates PATH filename =
     map (\<lambda>d. (if d = [] then ''.'' else d) @ ''/'' @ filename)
       (split_on (CHR '':'') (case PATH of None \<Rightarrow> ''.'' | Some p \<Rightarrow> if p = [] then ''.'' else p))"

definition search_result :: "execve \<Rightarrow> cstring list \<Rightarrow> cstring list \<Rightarrow> cstring list \<Rightarrow> exec_result" where
  "search_result ex argv envp cands =
     (case find (\<lambda>p. ex p argv envp = None) cands of
        Some p \<Rightarrow> Running p argv envp
      | None \<Rightarrow> Back (if Some EACCES_no \<in> set (map (\<lambda>p. ex p argv envp) cands) then EACCES_no
                      else the (ex (last cands) argv envp)))"

lemma split_on_Nil [simp]: "split_on c s \<noteq> []"
  by (induction s) (auto split: list.splits)

lemma split_on_strchr:
  "strchr s c = None \<Longrightarrow> split_on c s = [s]"
  "strchr s c = Some (a, b) \<Longrightarrow> split_on c s = a # split_on c b"
proof -
  show "strchr s c = None \<Longrightarrow> split_on c s = [s]"
    by (induction s) (auto split: if_splits option.splits)
  have "c \<notin> set a \<Longrightarrow> split_on c (a @ c # b) = a # split_on c b" for a
    by (induction a) auto
  then show "strchr s c = Some (a, b) \<Longrightarrow> split_on c s = a # split_on c b"
    by (auto dest: strchr_SomeD)
qed

lemma search_alloc_fits: "length (search_path prefix filename) + 1 \<le> search_alloc prefix filename"
  by (cases prefix) (simp_all add: search_path_def search_alloc_def)

text \<open>The same search written as a loop over the candidates.\<close>

fun search_from :: "execve \<Rightarrow> cstring list \<Rightarrow> cstring list \<Rightarrow> bool \<Rightarrow> cstring list \<Rightarrow> exec_result" where
  "search_from ex argv envp fnd [] = Overrun"
| "search_from ex argv envp fnd (p # ps) =
     (case ex p argv envp of
        None \<Rightarrow> Running p argv envp
      | Some e \<Rightarrow>
          if ps = [] then Back (if fnd \<or> e = EACCES_no then EACCES_no else e)
          else search_from ex argv envp (fnd \<or> e = EACCES_no) ps)"

lemma search_from_result:
  "ps \<noteq> [] \<Longrightarrow> search_from ex argv envp fnd ps =
    (case find (\<lambda>p. ex p argv envp = None) ps of
       Some p \<Rightarrow> Running p argv envp
     | None \<Rightarrow> Back (if fnd \<or> Some EACCES_no \<in> set (map (\<lambda>p. ex p argv envp) ps) then EACCES_no
                     else the (ex (last ps) argv envp)))"
  by (induction ps arbitrary: fnd) (auto split: option.splits)

lemma path_loop_search:
  assumes "\<And>p. ex p (arg_strings argv) envp \<noteq> Some ENOEXEC_no"
  shows "path_loop ex filename argv envp fnd s =
    search_from ex (arg_strings argv) envp fnd (map (\<lambda>d. search_path d filename) (split_on (CHR '':'') s))"
proof (induction s arbitrary: fnd rule: length_induct)
  case (1 s)
  have attempt: "try_exec ex p argv envp =
      (case ex p (arg_strings argv) envp of None \<Rightarrow> Inl (Running p (arg_strings argv) envp) | Some e \<Rightarrow> Inr e)" for p
    using assms [of p] by (auto simp: try_exec_def split: option.splits)
  have fits: "\<not> search_alloc d filename < length (search_path d filename) + 1" for d
    using search_alloc_fits [of d filename] by simp
  show ?case
  proof (cases "strchr s (CHR '':'')")
    case None
    then show ?thesis
      using fits [of s] by (subst path_loop.simps) (simp add: split_on_strchr(1) attempt Let_def split: option.splits)
  next
    case (Some ab)
    obtain a b where ab: "ab = (a, b)" by (cases ab)
    then have "length b < length s" using Some by (auto dest: strchr_SomeD)
    with 1 have ih: "path_loop ex filename argv envp fnd b = search_from ex (arg_strings argv) envp fnd
        (map (\<lambda>d. search_path d filename) (split_on (CHR '':'') b))" for fnd
      by blast
    show ?thesis
      using Some ab fits [of a]
      by (subst path_loop.simps) (simp add: split_on_strchr(2) attempt ih Let_def split: option.splits)
  qed
qed



text \<open>A candidate that is a script without an interpreter line makes \<^verbatim>\<open>execShScript()\<close> write past
  the end of its array.\<close>

lemma script_overruns: "execShScript ex argc argv envp = Some Overrun"
  by (simp add: execShScript_def)

end
