(* ===== verification/Pid_File.thy ===== *)
theory Pid_File
  imports Dtree_State Strto_Num
begin

text \<open>
  \<^verbatim>\<open>filelock/region_locking.c\<close> and \<^verbatim>\<open>filelock/create_pid_file.c\<close>: record locks, and the PID file
  by which a daemon makes sure that it runs only once. \<^verbatim>\<open>createPidFile()\<close> is a step function, one
  system call per step, so that any number of processes can be interleaved; the kernel is an
  argument whose functions know the calling process.
\<close>

section \<open>region\_locking.c\<close>

datatype lock_cmd = F_SETLK | F_SETLKW | F_GETLK
datatype lock_type = F_RDLCK | F_WRLCK | F_UNLCK
datatype whence = SEEK_SET | SEEK_CUR | SEEK_END

record flock =
  l_type :: lock_type
  l_whence :: whence
  l_start :: int
  l_len :: int
  l_pid :: int

record 'k lock_os =
  lk_open :: "int \<Rightarrow> cstring \<Rightarrow> 'k \<Rightarrow> (errno + int) \<times> 'k"
  lk_getfd :: "int \<Rightarrow> int \<Rightarrow> 'k \<Rightarrow> (errno + mask) \<times> 'k"
  lk_setfd :: "int \<Rightarrow> int \<Rightarrow> mask \<Rightarrow> 'k \<Rightarrow> errno option \<times> 'k"
  lk_fcntl :: "int \<Rightarrow> int \<Rightarrow> lock_cmd \<Rightarrow> flock \<Rightarrow> 'k \<Rightarrow> (errno + flock) \<times> 'k"
  lk_ftruncate :: "int \<Rightarrow> int \<Rightarrow> 'k \<Rightarrow> errno option \<times> 'k"
  lk_write :: "int \<Rightarrow> int \<Rightarrow> cstring \<Rightarrow> 'k \<Rightarrow> (errno + nat) \<times> 'k"
  lk_exit :: "int \<Rightarrow> 'k \<Rightarrow> 'k"

text \<open>The first argument after the kernel is the calling process.\<close>

definition lockReg :: "'k lock_os \<Rightarrow> int \<Rightarrow> int \<Rightarrow> lock_cmd \<Rightarrow> lock_type \<Rightarrow> whence \<Rightarrow> int \<Rightarrow> int \<Rightarrow> 'k \<Rightarrow> errno option \<times> 'k" where
  "lockReg os p fd cmd type wh start len k =
     (case lk_fcntl os p fd cmd \<lparr> l_type = type, l_whence = wh, l_start = start, l_len = len, l_pid = 0 \<rparr> k of
        (Inl e, k) \<Rightarrow> (Some e, k) | (Inr fl, k) \<Rightarrow> (None, k))"

definition lockRegion :: "'k lock_os \<Rightarrow> int \<Rightarrow> int \<Rightarrow> lock_type \<Rightarrow> whence \<Rightarrow> int \<Rightarrow> int \<Rightarrow> 'k \<Rightarrow> errno option \<times> 'k" where
  "lockRegion os p fd type wh start len k = lockReg os p fd F_SETLK type wh start len k"

definition lockRegionWait :: "'k lock_os \<Rightarrow> int \<Rightarrow> int \<Rightarrow> lock_type \<Rightarrow> whence \<Rightarrow> int \<Rightarrow> int \<Rightarrow> 'k \<Rightarrow> errno option \<times> 'k" where
  "lockRegionWait os p fd type wh start len k = lockReg os p fd F_SETLKW type wh start len k"

definition regionIsLocked :: "'k lock_os \<Rightarrow> int \<Rightarrow> int \<Rightarrow> lock_type \<Rightarrow> whence \<Rightarrow> int \<Rightarrow> int \<Rightarrow> 'k \<Rightarrow> int \<times> 'k" where
  "regionIsLocked os p fd type wh start len k =
     (case lk_fcntl os p fd F_GETLK \<lparr> l_type = type, l_whence = wh, l_start = start, l_len = len, l_pid = 0 \<rparr> k of
        (Inl e, k) \<Rightarrow> (-1, k)
      | (Inr fl, k) \<Rightarrow> (if l_type fl = F_UNLCK then 0 else l_pid fl, k))"

section \<open>create\_pid\_file.c\<close>

definition CPF_CLOEXEC :: mask where "CPF_CLOEXEC = 1"
definition FD_CLOEXEC :: mask where "FD_CLOEXEC = 1"
definition PID_BUF_SIZE :: nat where "PID_BUF_SIZE = 100"

text \<open>Where a process is in \<^verbatim>\<open>createPidFile()\<close>: about to make the system call named, returned with
  the descriptor, or terminated. \<open>Locked_Out\<close> is the exit because another instance holds the
  lock.\<close>

datatype pf_loc =
    At_Open | At_GetFd int | At_SetFd int mask | At_Lock int | At_Truncate int | At_Write int
  | Returned int | Locked_Out | Failed

definition pid_line :: "int \<Rightarrow> cstring" where
  "pid_line p = snprintf PID_BUF_SIZE (dec p @ [newline])"

definition createPidFile :: "'k lock_os \<Rightarrow> cstring \<Rightarrow> mask \<Rightarrow> int \<Rightarrow> pf_loc \<Rightarrow> 'k \<Rightarrow> pf_loc \<times> 'k" where
  "createPidFile os pidFile flags p loc k =
     (case loc of
        At_Open \<Rightarrow>
          (case lk_open os p pidFile k of
             (Inl e, k) \<Rightarrow> (Failed, k)
           | (Inr fd, k) \<Rightarrow> (if flags AND CPF_CLOEXEC \<noteq> 0 then At_GetFd fd else At_Lock fd, k))
      | At_GetFd fd \<Rightarrow>
          (case lk_getfd os p fd k of (Inl e, k) \<Rightarrow> (Failed, k) | (Inr fl, k) \<Rightarrow> (At_SetFd fd (fl OR FD_CLOEXEC), k))
      | At_SetFd fd fl \<Rightarrow>
          (case lk_setfd os p fd fl k of (Some e, k) \<Rightarrow> (Failed, k) | (None, k) \<Rightarrow> (At_Lock fd, k))
      | At_Lock fd \<Rightarrow>
          (case lockRegion os p fd F_WRLCK SEEK_SET 0 0 k of
             (None, k) \<Rightarrow> (At_Truncate fd, k)
           | (Some e, k) \<Rightarrow> (if e = EAGAIN \<or> e = EACCES then Locked_Out else Failed, k))
      | At_Truncate fd \<Rightarrow>
          (case lk_ftruncate os p fd k of (Some e, k) \<Rightarrow> (Failed, k) | (None, k) \<Rightarrow> (At_Write fd, k))
      | At_Write fd \<Rightarrow>
          (case lk_write os p fd (pid_line p) k of
             (Inr n, k) \<Rightarrow> (if n \<noteq> length (pid_line p) then Failed else Returned fd, k)
           | (Inl e, k) \<Rightarrow> (Failed, k))
      | _ \<Rightarrow> (loc, k))"

section \<open>Processes that share a PID file\<close>

text \<open>Every process runs \<^verbatim>\<open>createPidFile()\<close> on the same file; at any time one of them makes its next
  call, or terminates, whereupon the kernel drops its lock.\<close>

record 'k pf_sys =
  pf_kernel :: 'k
  pf_at :: "int \<Rightarrow> pf_loc"

inductive pf_step :: "'k lock_os \<Rightarrow> cstring \<Rightarrow> mask \<Rightarrow> 'k pf_sys \<Rightarrow> 'k pf_sys \<Rightarrow> bool" for os pidFile flags where
  call: "createPidFile os pidFile flags p (pf_at s p) (pf_kernel s) = (l, k) \<Longrightarrow>
    pf_step os pidFile flags s (s\<lparr> pf_kernel := k, pf_at := (pf_at s)(p := l) \<rparr>)"
| terminate: "pf_step os pidFile flags s
    (s\<lparr> pf_kernel := lk_exit os p (pf_kernel s), pf_at := (pf_at s)(p := Failed) \<rparr>)"

inductive pf_reach :: "'k lock_os \<Rightarrow> cstring \<Rightarrow> mask \<Rightarrow> 'k pf_sys \<Rightarrow> 'k pf_sys \<Rightarrow> bool" for os pidFile flags s0 where
  start: "pf_reach os pidFile flags s0 s0"
| step: "pf_reach os pidFile flags s0 s \<Longrightarrow> pf_step os pidFile flags s s' \<Longrightarrow> pf_reach os pidFile flags s0 s'"

text \<open>What the kernel documents: \<open>holder\<close> is the process with a write lock on the whole file,
  \<open>content\<close> what is in the file. A write lock is granted only when no other process has one; only
  the truncation and writes change the content; a complete write to the truncated file leaves the
  bytes written. The record is the kernel as \<^verbatim>\<open>createPidFile()\<close> sees it: every descriptor it is given
  is a fresh one on the PID file, still at offset 0.\<close>

definition pid_lock :: flock where
  "pid_lock = \<lparr> l_type = F_WRLCK, l_whence = SEEK_SET, l_start = 0, l_len = 0, l_pid = 0 \<rparr>"

definition unchanged :: "('k \<Rightarrow> int option) \<Rightarrow> ('k \<Rightarrow> cstring) \<Rightarrow> 'k \<Rightarrow> 'k \<Rightarrow> bool" where
  "unchanged holder content k k' \<longleftrightarrow> holder k' = holder k \<and> content k' = content k"

definition lock_kernel :: "'k lock_os \<Rightarrow> ('k \<Rightarrow> int option) \<Rightarrow> ('k \<Rightarrow> cstring) \<Rightarrow> bool" where
  "lock_kernel os holder content \<longleftrightarrow>
     (\<forall>p f k. unchanged holder content k (snd (lk_open os p f k)))
   \<and> (\<forall>p fd k. unchanged holder content k (snd (lk_getfd os p fd k)))
   \<and> (\<forall>p fd fl k. unchanged holder content k (snd (lk_setfd os p fd fl k)))
   \<and> (\<forall>p fd k e k'. lk_fcntl os p fd F_SETLK pid_lock k = (Inl e, k') \<longrightarrow> unchanged holder content k k')
   \<and> (\<forall>p fd k fl k'. lk_fcntl os p fd F_SETLK pid_lock k = (Inr fl, k') \<longrightarrow>
        holder k \<in> {None, Some p} \<and> holder k' = Some p \<and> content k' = content k)
   \<and> (\<forall>p fd k e k'. lk_ftruncate os p fd k = (Some e, k') \<longrightarrow> unchanged holder content k k')
   \<and> (\<forall>p fd k k'. lk_ftruncate os p fd k = (None, k') \<longrightarrow> holder k' = holder k \<and> content k' = [])
   \<and> (\<forall>p fd bs k. holder (snd (lk_write os p fd bs k)) = holder k)
   \<and> (\<forall>p fd bs k n k'. lk_write os p fd bs k = (Inr n, k') \<longrightarrow> n = length bs \<longrightarrow> content k = [] \<longrightarrow> content k' = bs)
   \<and> (\<forall>p k. holder (lk_exit os p k) = (if holder k = Some p then None else holder k)
        \<and> content (lk_exit os p k) = content k)"

text \<open>The invariant: past the lock call a process is the holder, and the content is as far as the
  holder has got.\<close>

definition past_lock :: "pf_loc \<Rightarrow> bool" where
  "past_lock l \<longleftrightarrow> (case l of At_Truncate _ \<Rightarrow> True | At_Write _ \<Rightarrow> True | Returned _ \<Rightarrow> True | _ \<Rightarrow> False)"

definition pf_inv :: "('k \<Rightarrow> int option) \<Rightarrow> ('k \<Rightarrow> cstring) \<Rightarrow> 'k pf_sys \<Rightarrow> bool" where
  "pf_inv holder content s \<longleftrightarrow>
     (\<forall>p. past_lock (pf_at s p) \<longrightarrow> holder (pf_kernel s) = Some p)
   \<and> (\<forall>p fd. pf_at s p = At_Write fd \<longrightarrow> content (pf_kernel s) = [])
   \<and> (\<forall>p fd. pf_at s p = Returned fd \<longrightarrow> content (pf_kernel s) = pid_line p)"

section \<open>The invariant\<close>

lemma past_lock_simps [simp]:
  "past_lock (At_Truncate fd)" "past_lock (At_Write fd)" "past_lock (Returned fd)"
  "\<not> past_lock At_Open" "\<not> past_lock (At_GetFd fd)" "\<not> past_lock (At_SetFd fd fl)" "\<not> past_lock (At_Lock fd)"
  "\<not> past_lock Locked_Out" "\<not> past_lock Failed"
  by (simp_all add: past_lock_def)

lemma pf_invI:
  assumes "\<And>q. past_lock (pf_at s q) \<Longrightarrow> q = p" and "past_lock (pf_at s p) \<Longrightarrow> holder (pf_kernel s) = Some p"
    and "\<And>fd. pf_at s p = At_Write fd \<Longrightarrow> content (pf_kernel s) = []"
    and "\<And>fd. pf_at s p = Returned fd \<Longrightarrow> content (pf_kernel s) = pid_line p"
  shows "pf_inv holder content s"
  unfolding pf_inv_def
proof (intro conjI allI impI)
  show "holder (pf_kernel s) = Some q" if "past_lock (pf_at s q)" for q using assms(1,2) that by blast
  show "content (pf_kernel s) = []" if "pf_at s q = At_Write fd" for q fd using assms(1) [of q] assms(3) that by auto
  show "content (pf_kernel s) = pid_line q" if "pf_at s q = Returned fd" for q fd
    using assms(1) [of q] assms(4) that by auto
qed

lemma lock_kernelD:
  assumes "lock_kernel os holder content"
  shows "unchanged holder content k (snd (lk_open os p f k))"
    and "unchanged holder content k (snd (lk_getfd os p fd k))"
    and "unchanged holder content k (snd (lk_setfd os p fd fl k))"
    and "lk_fcntl os p fd F_SETLK pid_lock k = (Inl e, k') \<Longrightarrow> unchanged holder content k k'"
    and "lk_fcntl os p fd F_SETLK pid_lock k = (Inr r, k') \<Longrightarrow>
      holder k \<in> {None, Some p} \<and> holder k' = Some p \<and> content k' = content k"
    and "lk_ftruncate os p fd k = (Some e, k') \<Longrightarrow> unchanged holder content k k'"
    and "lk_ftruncate os p fd k = (None, k') \<Longrightarrow> holder k' = holder k \<and> content k' = []"
    and "holder (snd (lk_write os p fd bs k)) = holder k"
    and "lk_write os p fd bs k = (Inr n, k') \<Longrightarrow> n = length bs \<Longrightarrow> content k = [] \<Longrightarrow> content k' = bs"
    and "holder (lk_exit os p k) = (if holder k = Some p then None else holder k)"
    and "content (lk_exit os p k) = content k"
  using assms unfolding lock_kernel_def by simp_all

lemma createPidFile_cases:
  assumes kr: "lock_kernel os holder content" and "createPidFile os pidFile flags p l k = (l', k')"
  obtains (other) "unchanged holder content k k'" "past_lock l' \<Longrightarrow> l' = l"
  | (locked) fd where "l' = At_Truncate fd" "holder k \<in> {None, Some p}" "holder k' = Some p" "content k' = content k"
  | (truncated) fd where "l = At_Truncate fd" "l' = At_Write fd" "holder k' = holder k" "content k' = []"
  | (written) fd where "l = At_Write fd" "holder k' = holder k" "l' = Failed \<or> l' = Returned fd \<and> (content k = [] \<longrightarrow> content k' = pid_line p)"
proof (cases l)
  case At_Open
  obtain r k1 where "lk_open os p pidFile k = (r, k1)" by fastforce
  with At_Open assms(2) lock_kernelD(1) [OF kr, of k p pidFile] show thesis
    by (intro other) (auto simp: createPidFile_def past_lock_def split: sum.splits if_splits)
next
  case (At_GetFd fd)
  obtain r k1 where "lk_getfd os p fd k = (r, k1)" by fastforce
  with At_GetFd assms(2) lock_kernelD(2) [OF kr, of k p fd] show thesis
    by (intro other) (auto simp: createPidFile_def past_lock_def split: sum.splits)
next
  case (At_SetFd fd fl)
  obtain r k1 where "lk_setfd os p fd fl k = (r, k1)" by fastforce
  with At_SetFd assms(2) lock_kernelD(3) [OF kr, of k p fd fl] show thesis
    by (intro other) (auto simp: createPidFile_def past_lock_def split: option.splits)
next
  case (At_Lock fd)
  obtain r k1 where f: "lk_fcntl os p fd F_SETLK pid_lock k = (r, k1)" by fastforce
  then have eq: "lockRegion os p fd F_WRLCK SEEK_SET 0 0 k = (case r of Inl e \<Rightarrow> Some e | Inr _ \<Rightarrow> None, k1)"
    by (simp add: lockRegion_def lockReg_def pid_lock_def split: sum.splits)
  show thesis
  proof (cases r)
    case (Inl e)
    with At_Lock assms(2) eq f lock_kernelD(4) [OF kr] show thesis
      by (intro other) (auto simp: createPidFile_def past_lock_def split: if_splits)
  next
    case (Inr fl)
    with At_Lock assms(2) eq have "l' = At_Truncate fd" "k' = k1" by (simp_all add: createPidFile_def)
    with Inr f lock_kernelD(5) [OF kr] show thesis by (intro locked) auto
  qed
next
  case (At_Truncate fd)
  obtain r k1 where f: "lk_ftruncate os p fd k = (r, k1)" by fastforce
  show thesis
  proof (cases r)
    case None
    with At_Truncate assms(2) f lock_kernelD(7) [OF kr] show thesis
      by (intro truncated) (auto simp: createPidFile_def)
  next
    case (Some e)
    with At_Truncate assms(2) f lock_kernelD(6) [OF kr] show thesis
      by (intro other) (auto simp: createPidFile_def past_lock_def)
  qed
next
  case (At_Write fd)
  obtain r k1 where f: "lk_write os p fd (pid_line p) k = (r, k1)" by fastforce
  with At_Write assms(2) lock_kernelD(8) [OF kr, of p fd "pid_line p" k] lock_kernelD(9) [OF kr] show thesis
    by (intro written) (auto simp: createPidFile_def split: sum.splits if_splits)
qed (use assms(2) in \<open>auto simp: createPidFile_def unchanged_def intro: other\<close>)

lemma createPidFile_inv:
  assumes kr: "lock_kernel os holder content" and inv: "pf_inv holder content s"
    and c: "createPidFile os pidFile flags p (pf_at s p) (pf_kernel s) = (l, k)"
  shows "pf_inv holder content (s\<lparr> pf_kernel := k, pf_at := (pf_at s)(p := l) \<rparr>)"
proof -
  have hold: "past_lock (pf_at s q) \<Longrightarrow> holder (pf_kernel s) = Some q" for q using inv by (simp add: pf_inv_def)
  have alone: "q = p" if "holder (pf_kernel s) \<in> {None, Some p}" "past_lock (pf_at s q)" for q
    using hold [OF that(2)] that(1) by simp
  from kr c show ?thesis
  proof (cases rule: createPidFile_cases)
    case other
    then show ?thesis using inv by (force simp: pf_inv_def unchanged_def)
  next
    case (locked fd)
    show ?thesis by (rule pf_invI [where p = p]) (use alone locked in \<open>auto split: if_splits\<close>)
  next
    case (truncated fd)
    then have "holder (pf_kernel s) = Some p" using hold [of p] by simp
    with alone truncated show ?thesis by (intro pf_invI [where p = p]) (auto split: if_splits)
  next
    case (written fd)
    then have "holder (pf_kernel s) = Some p" using hold [of p] by simp
    moreover have "content (pf_kernel s) = []" using inv written(1) by (auto simp: pf_inv_def)
    ultimately show ?thesis
      using written alone by (intro pf_invI [where p = p]) (auto split: if_splits)
  qed
qed

lemma terminate_inv:
  assumes kr: "lock_kernel os holder content" and inv: "pf_inv holder content s"
  shows "pf_inv holder content (s\<lparr> pf_kernel := lk_exit os p (pf_kernel s), pf_at := (pf_at s)(p := Failed) \<rparr>)"
  using inv by (auto simp: pf_inv_def past_lock_def lock_kernelD(10,11) [OF kr] split: if_splits)

lemma pf_reach_inv:
  assumes "lock_kernel os holder content" and "pf_inv holder content s0" and "pf_reach os pidFile flags s0 s"
  shows "pf_inv holder content s"
  using assms(3,2)
proof (induction rule: pf_reach.induct)
  case (step s s')
  from step.hyps(2) step.IH [OF step.prems] show ?case
    by cases (auto intro: createPidFile_inv [OF assms(1)] terminate_inv [OF assms(1)])
qed


text \<open>A kernel that satisfies the hypotheses: its state is the holder of the lock and the content of
  the file. Process 1 creates the PID file, then process 2 finds it locked.\<close>

definition pid_os :: "(int option \<times> cstring) lock_os" where
  "pid_os = \<lparr>
     lk_open = \<lambda>p f k. (Inr 3, k),
     lk_getfd = \<lambda>p fd k. (Inr 0, k),
     lk_setfd = \<lambda>p fd fl k. (None, k),
     lk_fcntl = \<lambda>p fd c fl (h, b). if h = None \<or> h = Some p then (Inr fl, (Some p, b)) else (Inl EAGAIN, (h, b)),
     lk_ftruncate = \<lambda>p fd (h, b). (None, (h, [])),
     lk_write = \<lambda>p fd bs (h, b). (Inr (length bs), (h, b @ bs)),
     lk_exit = \<lambda>p (h, b). (if h = Some p then None else h, b) \<rparr>"

lemma pid_os_kernel: "lock_kernel pid_os fst snd"
  by (auto simp: lock_kernel_def pid_os_def unchanged_def split: if_splits)

definition pid_runs :: "int list \<Rightarrow> (int option \<times> cstring) pf_sys \<Rightarrow> (int option \<times> cstring) pf_sys" where
  "pid_runs = fold (\<lambda>p s. case createPidFile pid_os ''/run/d'' CPF_CLOEXEC p (pf_at s p) (pf_kernel s) of
      (l, k) \<Rightarrow> s\<lparr> pf_kernel := k, pf_at := (pf_at s)(p := l) \<rparr>)"

lemma pid_runs_reach:
  "pf_reach pid_os ''/run/d'' CPF_CLOEXEC s0 s \<Longrightarrow> pf_reach pid_os ''/run/d'' CPF_CLOEXEC s0 (pid_runs ps s)"
proof (induction ps arbitrary: s)
  case (Cons p ps)
  obtain l k where c: "createPidFile pid_os ''/run/d'' CPF_CLOEXEC p (pf_at s p) (pf_kernel s) = (l, k)"
    by (cases "createPidFile pid_os ''/run/d'' CPF_CLOEXEC p (pf_at s p) (pf_kernel s)")
  with Cons.IH [OF pf_reach.step [OF Cons.prems pf_step.call [OF c]]] show ?case
    by (simp add: pid_runs_def)
qed (simp add: pid_runs_def)

definition pid_start :: "(int option \<times> cstring) pf_sys" where
  "pid_start = \<lparr> pf_kernel = (None, ''99999''), pf_at = \<lambda>_. At_Open \<rparr>"

definition pid_end :: "(int option \<times> cstring) pf_sys" where
  "pid_end = pid_runs [1, 2, 1, 1, 2, 1, 2, 1, 2, 1] pid_start"

lemma pid_end_at: "pf_at pid_end 1 = Returned 3" "pf_at pid_end 2 = Locked_Out"
  by (simp_all add: pid_end_def pid_runs_def pid_start_def createPidFile_def pid_os_def CPF_CLOEXEC_def
    lockRegion_def lockReg_def)


end
