(* ===== verification/Cap_Functions.thy ===== *)
theory Cap_Functions
  imports Util_Lib
begin

text \<open>
  Capabilities and securebits: \<^verbatim>\<open>cap/cap_functions.c\<close>, and the functions of
  \<^verbatim>\<open>namespaces/userns_child_exec.c\<close> that change the capabilities, securebits and user IDs of the
  calling process as its repeatable options ask. libcap and the system calls are arguments: a
  record of functions over an opaque state \<open>'w\<close>, with \<open>'c\<close> the type of a capability state
  (\<^verbatim>\<open>cap_t\<close>).
\<close>

section \<open>The library and the system calls\<close>

datatype cap_flag = CAP_EFFECTIVE | CAP_PERMITTED | CAP_INHERITABLE

record ('c, 'w) cap_os =
  co_get_proc :: "'w \<Rightarrow> 'c option \<times> 'w"
  co_set_flag :: "cap_flag \<Rightarrow> int \<Rightarrow> bool \<Rightarrow> 'c \<Rightarrow> 'c option"
  co_set_proc :: "'c \<Rightarrow> 'w \<Rightarrow> bool \<times> 'w"
  co_free :: "'c \<Rightarrow> 'w \<Rightarrow> bool \<times> 'w"
  co_from_name :: "cstring \<Rightarrow> int option"
  co_from_text :: "cstring \<Rightarrow> 'w \<Rightarrow> 'c option \<times> 'w"
  co_drop_bounding :: "int \<Rightarrow> 'w \<Rightarrow> bool \<times> 'w"
  co_ambient :: "bool \<Rightarrow> int \<Rightarrow> 'w \<Rightarrow> bool \<times> 'w"
  co_securebits :: "32 word \<Rightarrow> 'w \<Rightarrow> bool \<times> 'w"
  co_setresuid :: "ugid \<Rightarrow> ugid \<Rightarrow> ugid \<Rightarrow> 'w \<Rightarrow> bool \<times> 'w"
  co_sleep :: "int \<Rightarrow> 'w \<Rightarrow> 'w"
  co_display :: "cstring \<Rightarrow> 'w \<Rightarrow> bool \<times> 'w"

definition CAP_LAST_CAP :: nat where "CAP_LAST_CAP = 40"

section \<open>cap\_functions.c\<close>

text \<open>\<open>False\<close> is the result -1.\<close>

definition modifyCapSetting :: "('c, 'w) cap_os \<Rightarrow> cap_flag \<Rightarrow> int \<Rightarrow> bool \<Rightarrow> 'w \<Rightarrow> bool \<times> 'w" where
  "modifyCapSetting os flag capability setting w =
     (case co_get_proc os w of
        (None, w) \<Rightarrow> (False, w)
      | (Some caps, w) \<Rightarrow>
          (case co_set_flag os flag capability setting caps of
             None \<Rightarrow> (False, snd (co_free os caps w))
           | Some caps' \<Rightarrow>
               (case co_set_proc os caps' w of
                  (False, w) \<Rightarrow> (False, snd (co_free os caps' w))
                | (True, w) \<Rightarrow> co_free os caps' w)))"

definition secbitInfoList :: "(32 word \<times> cstring \<times> char) list" where
  "secbitInfoList =
     [(64, ''NO_CAP_AMBIENT_RAISE'', CHR ''a''),
      (128, ''NO_CAP_AMBIENT_RAISE_LOCKED'', CHR ''A''),
      (16, ''KEEP_CAPS'', CHR ''k''),
      (32, ''KEEP_CAPS_LOCKED'', CHR ''K''),
      (1, ''NOROOT'', CHR ''r''),
      (2, ''NOROOT_LOCKED'', CHR ''R''),
      (4, ''NO_SETUID_FIXUP'', CHR ''s''),
      (8, ''NO_SETUID_FIXUP_LOCKED'', CHR ''S'')]"

text \<open>The text that is printed; \<open>printed\<close> counts the names printed so far.\<close>

fun secbit_names :: "32 word \<Rightarrow> nat \<Rightarrow> (32 word \<times> cstring \<times> char) list \<Rightarrow> cstring" where
  "secbit_names secbits printed [] = []"
| "secbit_names secbits printed ((flag, name, letter) # ps) =
     (if secbits AND flag \<noteq> 0
      then (if printed > 0 then '', '' else []) @ name @ secbit_names secbits (printed + 1) ps
      else secbit_names secbits printed ps)"

definition printSecbits :: "32 word \<Rightarrow> bool \<Rightarrow> cstring" where
  "printSecbits secbits verbose =
     (if verbose then ''['' @ secbit_names secbits 0 secbitInfoList @ '']''
      else map (\<lambda>(flag, name, letter). if secbits AND flag \<noteq> 0 then letter else CHR ''-'') secbitInfoList)"

section \<open>Repeatable options of userns\_child\_exec.c\<close>

text \<open>Errors are ignored here.\<close>

definition raise_cap :: "('c, 'w) cap_os \<Rightarrow> bool \<Rightarrow> nat \<Rightarrow> 'w \<Rightarrow> 'w" where
  "raise_cap os doAmbient cap w =
     (let w = snd (modifyCapSetting os CAP_INHERITABLE (int cap) True w)
      in if doAmbient then snd (co_ambient os True (int cap) w) else w)"

definition raiseInheritableAndAmbientCaps :: "('c, 'w) cap_os \<Rightarrow> bool \<Rightarrow> 'w \<Rightarrow> 'w" where
  "raiseInheritableAndAmbientCaps os doAmbient w = fold (raise_cap os doAmbient) [0..<CAP_LAST_CAP + 1] w"

definition modify_one_set :: "('c, 'w) cap_os \<Rightarrow> bool \<Rightarrow> int \<Rightarrow> char \<Rightarrow> 'w \<Rightarrow> (unit, 'w) outcome" where
  "modify_one_set os adding cap p w =
     (if p = CHR ''p'' \<or> p = CHR ''i'' \<or> p = CHR ''e'' then
        (let flag = (if p = CHR ''p'' then CAP_PERMITTED else if p = CHR ''e'' then CAP_EFFECTIVE else CAP_INHERITABLE)
         in must (modifyCapSetting os flag cap adding) w)
      else if p = CHR ''b'' then
        (if adding then Exit EXIT_FAILURE w else must (co_drop_bounding os cap) w)
      else if p = CHR ''a'' then must (co_ambient os adding cap) w
      else Exit EXIT_FAILURE w)"

definition modify_individual_capability :: "('c, 'w) cap_os \<Rightarrow> cstring \<Rightarrow> 'w \<Rightarrow> (unit, 'w) outcome" where
  "modify_individual_capability os optval w =
     (let is_op = (\<lambda>c. c = CHR ''+'' \<or> c = CHR ''-'');
          sets = takeWhile (\<lambda>c. \<not> is_op c) optval;
          rest = dropWhile (\<lambda>c. \<not> is_op c) optval;
          bad_cap = (\<exists>c\<in>set sets. strchr ''peiba'' c = None)
      in case rest of
           op # name \<Rightarrow>
             if name = [] \<or> bad_cap then Exit EXIT_FAILURE w
             else
               (case co_from_name os name of
                  None \<Rightarrow> Exit EXIT_FAILURE w
                | Some cap \<Rightarrow> ofold (modify_one_set os (op = CHR ''+'') cap) sets w)
         | [] \<Rightarrow> Exit EXIT_FAILURE w)"

fun parse_secbits :: "cstring \<Rightarrow> 32 word \<Rightarrow> 32 word option" where
  "parse_secbits [] secbits = Some secbits"
| "parse_secbits (p # ps) secbits =
     (if p = CHR ''a'' then parse_secbits ps (secbits OR 64)
      else if p = CHR ''A'' then parse_secbits ps (secbits OR 128)
      else if p = CHR ''k'' then parse_secbits ps (secbits OR 16)
      else if p = CHR ''K'' then parse_secbits ps (secbits OR 32)
      else if p = CHR ''r'' then parse_secbits ps (secbits OR 1)
      else if p = CHR ''R'' then parse_secbits ps (secbits OR 2)
      else if p = CHR ''s'' then parse_secbits ps (secbits OR 4)
      else if p = CHR ''S'' then parse_secbits ps (secbits OR 8)
      else if p = CHR ''0'' then parse_secbits ps 0
      else None)"

definition set_securebits :: "('c, 'w) cap_os \<Rightarrow> cstring \<Rightarrow> 'w \<Rightarrow> (unit, 'w) outcome" where
  "set_securebits os optval w =
     (case parse_secbits optval 0 of
        None \<Rightarrow> Exit EXIT_FAILURE w
      | Some secbits \<Rightarrow> must (co_securebits os secbits) w)"

definition uid_of :: "cstring \<Rightarrow> ugid" where
  "uid_of s = word_of_int (atoi s)"

definition set_process_uids :: "('c, 'w) cap_os \<Rightarrow> cstring \<Rightarrow> 'w \<Rightarrow> (unit, 'w) outcome" where
  "set_process_uids os optval w =
     (case strchr optval (CHR '','') of
        None \<Rightarrow> Exit EXIT_FAILURE w
      | Some (r, rest) \<Rightarrow>
          (case strchr rest (CHR '','') of
             None \<Rightarrow> Exit EXIT_FAILURE w
           | Some (e, s) \<Rightarrow> must (co_setresuid os (uid_of r) (uid_of e) (uid_of s)) w))"

text \<open>A \<open>None\<close> value is the null pointer: the functions above would read through it. An unexpected
  option is only reported.\<close>

definition with_value :: "cstring option \<Rightarrow> (cstring \<Rightarrow> (unit, 'w) outcome) \<Rightarrow> (unit, 'w) outcome" where
  "with_value val f = (case val of None \<Rightarrow> Undef | Some v \<Rightarrow> f v)"

definition perform_option :: "('c, 'w) cap_os \<Rightarrow> nat \<Rightarrow> char \<times> cstring option \<Rightarrow> 'w \<Rightarrow> (nat, 'w) outcome" where
  "perform_option os display_cnt o1 w =
     (case o1 of (opt, val) \<Rightarrow>
      if opt = CHR ''d'' then
        obind (must (co_display os (snprintf 20 (''[-d '' @ dec (int display_cnt + 1) @ ''] ''))) w)
          (\<lambda>_ w. Ret (display_cnt + 1) w)
      else
        obind
          (if opt = CHR ''A'' then Ret () (raiseInheritableAndAmbientCaps os True w)
           else if opt = CHR ''b'' then with_value val (\<lambda>v. set_securebits os v w)
           else if opt = CHR ''I'' then Ret () (raiseInheritableAndAmbientCaps os False w)
           else if opt = CHR ''s'' then
             with_value val (\<lambda>v. let newuid = uid_of v in must (co_setresuid os newuid newuid newuid) w)
           else if opt = CHR ''S'' then with_value val (\<lambda>v. set_process_uids os v w)
           else if opt = CHR ''w'' then with_value val (\<lambda>v. Ret () (co_sleep os (atoi v) w))
           else if opt = CHR ''x'' then
             with_value val (\<lambda>v.
               obind (must_get (co_from_text os v) w) (\<lambda>caps w.
               obind (must (co_set_proc os caps) w) (\<lambda>_ w.
               Ret () (snd (co_free os caps w)))))
           else if opt = CHR ''X'' then with_value val (\<lambda>v. modify_individual_capability os v w)
           else Ret () w)
          (\<lambda>_ w. Ret display_cnt w))"

fun perform_options :: "('c, 'w) cap_os \<Rightarrow> nat \<Rightarrow> (char \<times> cstring option) list \<Rightarrow> 'w \<Rightarrow> (unit, 'w) outcome" where
  "perform_options os display_cnt [] w = Ret () w"
| "perform_options os display_cnt (p # ps) w =
     obind (perform_option os display_cnt p w) (\<lambda>display_cnt w. perform_options os display_cnt ps w)"

definition perform_repeatable_options :: "('c, 'w) cap_os \<Rightarrow> (char \<times> cstring option) list \<Rightarrow> 'w \<Rightarrow> (unit, 'w) outcome" where
  "perform_repeatable_options os opt_list w = perform_options os 0 opt_list w"

section \<open>Defined behaviour\<close>

lemma safe_must [simp]: "safe (\<lambda>_ _. True) (must f w)"
  by (auto simp: must_def split: prod.splits bool.splits)

lemma safe_must_get: "safe (\<lambda>_ _. True) (must_get f w)"
  by (auto simp: must_get_def split: prod.splits option.splits)

lemma safe_ofold: "(\<And>x w. safe (\<lambda>_ _. True) (f x w)) \<Longrightarrow> safe (\<lambda>_ _. True) (ofold f xs w)"
  by (induction xs arbitrary: w) (auto intro: safe_obind)

lemma modify_one_set_safe: "safe (\<lambda>_ _. True) (modify_one_set os adding cap p w)"
  by (simp add: modify_one_set_def Let_def)

lemma modify_individual_capability_safe: "safe (\<lambda>_ _. True) (modify_individual_capability os v w)"
  unfolding modify_individual_capability_def Let_def
  by (simp add: safe_ofold modify_one_set_safe split: list.split option.split del: strchr.simps)

lemma set_securebits_safe: "safe (\<lambda>_ _. True) (set_securebits os v w)"
  by (auto simp: set_securebits_def split: option.splits)

lemma set_process_uids_safe: "safe (\<lambda>_ _. True) (set_process_uids os v w)"
  by (auto simp: set_process_uids_def split: option.splits)

lemmas option_safe = modify_individual_capability_safe set_securebits_safe set_process_uids_safe

text \<open>The options that the functions read a value of.\<close>

definition takes_value :: "char \<Rightarrow> bool" where
  "takes_value opt \<longleftrightarrow> opt \<in> set ''sSxXwb''"

lemma safe_then [simp]: "safe (\<lambda>_ _. True) (obind m (\<lambda>_ w. Ret (f w) w)) \<longleftrightarrow> safe (\<lambda>_ _. True) m"
  by (cases m) simp_all

lemma set_caps_safe:
  "safe (\<lambda>_ _. True) (obind (must_get (co_from_text os v) w) (\<lambda>caps w.
     obind (must (co_set_proc os caps) w) (\<lambda>_ w. Ret () (snd (co_free os caps w)))))"
  by (rule safe_obind [OF safe_must_get]) (auto intro: safe_obind [OF safe_must])

lemma perform_option_safe:
  assumes "takes_value opt \<Longrightarrow> val \<noteq> None"
  shows "safe (\<lambda>_ _. True) (perform_option os cnt (opt, val) w)"
proof (cases val)
  case None
  then have "opt \<notin> set ''sSxXwb''" using assms by (auto simp: takes_value_def)
  then show ?thesis by (simp add: perform_option_def)
next
  case (Some v)
  then show ?thesis by (simp add: perform_option_def with_value_def Let_def option_safe set_caps_safe)
qed

lemma perform_options_safe:
  assumes "\<forall>(opt, val)\<in>set ps. takes_value opt \<longrightarrow> val \<noteq> None"
  shows "safe (\<lambda>_ _. True) (perform_options os cnt ps w)"
  using assms
proof (induction ps arbitrary: cnt w)
  case (Cons p ps)
  then have "safe (\<lambda>_ _. True) (perform_option os cnt p w)"
    by (cases p) (auto intro: perform_option_safe)
  then show ?case using Cons by (auto intro: safe_obind)
qed simp

section \<open>Securebits in and out\<close>

lemma single_bit: "(if b AND 2 ^ k \<noteq> 0 then 2 ^ k else 0) = b AND (2 ^ k :: 32 word)"
  by (rule bit_word_eqI) (auto simp: and_exp_eq_0_iff_not_bit bit_simps)

definition secbit_entry :: "32 word \<times> cstring \<times> char \<Rightarrow> bool" where
  "secbit_entry e \<longleftrightarrow> (case e of (flag, name, letter) \<Rightarrow>
     letter \<noteq> CHR ''-'' \<and> (\<exists>k. flag = 2 ^ k) \<and> (\<forall>ps acc. parse_secbits (letter # ps) acc = parse_secbits ps (acc OR flag)))"

lemma parse_printed:
  assumes "list_all secbit_entry es"
  shows "parse_secbits (filter (\<lambda>c. c \<noteq> CHR ''-'') (map (\<lambda>(flag, name, letter). if b AND flag \<noteq> 0 then letter else CHR ''-'') es)) acc
    = Some (fold (\<lambda>(flag, name, letter) a. a OR (b AND flag)) es acc)"
  using assms
proof (induction es arbitrary: acc)
  case (Cons e es)
  obtain flag name letter where e: "e = (flag, name, letter)" by (cases e)
  with Cons.prems obtain k where k: "flag = 2 ^ k" "letter \<noteq> CHR ''-''"
    "\<And>ps acc. parse_secbits (letter # ps) acc = parse_secbits ps (acc OR flag)" by (auto simp: secbit_entry_def)
  show ?case
  proof (cases "b AND flag = 0")
    case False
    then have "b AND flag = flag" using single_bit [of b k] k(1) by simp
    with False show ?thesis using Cons e k(2) by (simp add: k(3) del: parse_secbits.simps)
  qed (use Cons e in simp)
qed simp

lemma secbitInfoList_ok: "list_all secbit_entry secbitInfoList"
proof -
  have "\<exists>k. (64 :: 32 word) = 2 ^ k" "\<exists>k. (128 :: 32 word) = 2 ^ k" "\<exists>k. (16 :: 32 word) = 2 ^ k" "\<exists>k. (32 :: 32 word) = 2 ^ k"
    "\<exists>k. (1 :: 32 word) = 2 ^ k" "\<exists>k. (2 :: 32 word) = 2 ^ k" "\<exists>k. (4 :: 32 word) = 2 ^ k" "\<exists>k. (8 :: 32 word) = 2 ^ k"
    by (rule exI [of _ 6], simp, rule exI [of _ 7], simp, rule exI [of _ 4], simp, rule exI [of _ 5], simp,
      rule exI [of _ 0], simp, rule exI [of _ 1], simp, rule exI [of _ 2], simp, rule exI [of _ 3], simp)
  then show ?thesis by (simp add: secbitInfoList_def secbit_entry_def)
qed

text \<open>
  Securebits: what \<^verbatim>\<open>printSecbits()\<close> prints in short form is, without its dashes, an argument
  that \<^verbatim>\<open>set_securebits()\<close> accepts and turns back into the same flags, for all eight flags in any
  combination.
\<close>

theorem secbits_roundtrip:
  "set_securebits os (filter (\<lambda>c. c \<noteq> CHR ''-'') (printSecbits b False)) w = must (co_securebits os (b AND 255)) w"
proof -
  have "(((((((0 OR (b AND 64)) OR (b AND 128)) OR (b AND 16)) OR (b AND 32)) OR (b AND 1)) OR (b AND 2)) OR (b AND 4)) OR (b AND 8)
     = b AND (255 :: 32 word)"
    by (simp add: bit.conj_disj_distrib [symmetric] or.assoc)
  then show ?thesis
    using parse_printed [OF secbitInfoList_ok, of b 0]
    by (simp add: set_securebits_def printSecbits_def secbitInfoList_def)
qed

end
