(* ===== verification/Userns_Exec.thy ===== *)
theory Userns_Exec
  imports Cap_Functions
begin

text \<open>
  \<^verbatim>\<open>namespaces/userns_child_exec.c\<close> with the helpers of \<^verbatim>\<open>namespaces/userns_functions.c\<close>: the
  command line, the ID maps that the parent writes for its child, and the two processes that a
  pipe synchronises. The system calls are arguments over an opaque state \<open>'w\<close> that parent and
  child share; the model keeps a log of what the parent wrote to the map files.
\<close>

section \<open>userns\_functions.c\<close>

record 'w map_os =
  mo_open :: "cstring \<Rightarrow> 'w \<Rightarrow> (int + int) \<times> 'w"
  mo_write :: "int \<Rightarrow> cstring \<Rightarrow> 'w \<Rightarrow> (int + nat) \<times> 'w"
  mo_close :: "int \<Rightarrow> 'w \<Rightarrow> 'w"
  mo_getuid :: ugid
  mo_getgid :: ugid

definition ENOENT_no :: int where "ENOENT_no = 2"
definition PATH_MAX_bytes :: nat where "PATH_MAX_bytes = 4096"

datatype map_event = Wrote cstring cstring | Missing cstring

record 'w mapper =
  m_world :: 'w
  m_log :: "map_event list"

definition put_event :: "map_event \<Rightarrow> 'w \<Rightarrow> 'w mapper \<Rightarrow> 'w mapper" where
  "put_event e w s = s\<lparr> m_world := w, m_log := m_log s @ [e] \<rparr>"

definition commas_to_newlines :: "cstring \<Rightarrow> cstring" where
  "commas_to_newlines mapping = map (\<lambda>c. if c = CHR '','' then newline else c) mapping"

text \<open>\<open>False\<close> is the result -1.\<close>

definition update_map :: "'w map_os \<Rightarrow> cstring \<Rightarrow> cstring \<Rightarrow> 'w mapper \<Rightarrow> bool \<times> 'w mapper" where
  "update_map os mapping map_file s =
     (let mapping = commas_to_newlines mapping in
      case mo_open os map_file (m_world s) of
        (Inl e, w) \<Rightarrow> (False, s\<lparr> m_world := w \<rparr>)
      | (Inr fd, w) \<Rightarrow>
          (case mo_write os fd mapping w of
             (r, w) \<Rightarrow>
               if r = Inr (length mapping)
               then (True, put_event (Wrote map_file mapping) (mo_close os fd w) s)
               else (False, s\<lparr> m_world := mo_close os fd w \<rparr>)))"

definition proc_path :: "int \<Rightarrow> cstring \<Rightarrow> cstring" where
  "proc_path pid file = snprintf PATH_MAX_bytes (''/proc/'' @ dec pid @ ''/'' @ file)"

definition proc_setgroups_write :: "'w map_os \<Rightarrow> int \<Rightarrow> cstring \<Rightarrow> 'w mapper \<Rightarrow> bool \<times> 'w mapper" where
  "proc_setgroups_write os child_pid str s =
     (let setgroups_path = proc_path child_pid ''setgroups'' in
      case mo_open os setgroups_path (m_world s) of
        (Inl e, w) \<Rightarrow>
          if e = ENOENT_no then (True, put_event (Missing setgroups_path) w s) else (False, s\<lparr> m_world := w \<rparr>)
      | (Inr fd, w) \<Rightarrow>
          (case mo_write os fd str w of
             (Inl e, w) \<Rightarrow> (False, s\<lparr> m_world := mo_close os fd w \<rparr>)
           | (Inr n, w) \<Rightarrow> (True, put_event (Wrote setgroups_path (take n str)) (mo_close os fd w) s)))"

section \<open>Command line\<close>

type_synonym clone_flags = "32 word"

definition NEWCGROUP :: clone_flags where "NEWCGROUP = 0x02000000"
definition NEWIPC :: clone_flags where "NEWIPC = 0x08000000"
definition NEWNS :: clone_flags where "NEWNS = 0x00020000"
definition NEWNET :: clone_flags where "NEWNET = 0x40000000"
definition NEWPID :: clone_flags where "NEWPID = 0x20000000"
definition NEWUTS :: clone_flags where "NEWUTS = 0x04000000"
definition NEWUSER :: clone_flags where "NEWUSER = 0x10000000"
definition MAX_OPT :: nat where "MAX_OPT = 100"

record cmd_options =
  c_argv :: "cstring list"
  c_flags :: clone_flags
  create_root_mappings :: bool
  deny_setgroups :: bool
  c_verbose :: bool
  uid_map :: "cstring option"
  gid_map :: "cstring option"
  projid_map :: "cstring option"
  opt_list :: "(char \<times> cstring option) list"

definition cmd_options0 :: cmd_options where
  "cmd_options0 = \<lparr> c_argv = [], c_flags = 0, create_root_mappings = False, deny_setgroups = True,
     c_verbose = False, uid_map = None, gid_map = None, projid_map = None, opt_list = [] \<rparr>"

definition add_flag :: "clone_flags \<Rightarrow> cmd_options \<Rightarrow> cmd_options" where
  "add_flag f o1 = o1\<lparr> c_flags := c_flags o1 OR f \<rparr>"

definition repeatable :: "char \<Rightarrow> bool" where
  "repeatable opt \<longleftrightarrow> opt \<in> set ''IAbsdxXw''"

text \<open>One option as \<^verbatim>\<open>getopt()\<close> returns it; \<open>None\<close> stands for \<^verbatim>\<open>exit(EXIT_FAILURE)\<close>, which is also how
  \<^verbatim>\<open>-h\<close> ends, inside \<^verbatim>\<open>displayHelp()\<close>.\<close>

definition launch_option :: "char \<times> cstring \<Rightarrow> cmd_options \<Rightarrow> cmd_options option" where
  "launch_option p o1 =
     (case p of (opt, optarg) \<Rightarrow>
      if opt = CHR ''C'' then Some (add_flag NEWCGROUP o1)
      else if opt = CHR ''i'' then Some (add_flag NEWIPC o1)
      else if opt = CHR ''m'' then Some (add_flag NEWNS o1)
      else if opt = CHR ''n'' then Some (add_flag NEWNET o1)
      else if opt = CHR ''p'' then Some (add_flag NEWPID o1)
      else if opt = CHR ''u'' then Some (add_flag NEWUTS o1)
      else if opt = CHR ''U'' then Some (add_flag NEWUSER o1)
      else if opt = CHR ''M'' then Some (o1\<lparr> uid_map := Some optarg \<rparr>)
      else if opt = CHR ''G'' then Some (o1\<lparr> gid_map := Some optarg \<rparr>)
      else if opt = CHR ''P'' then Some (o1\<lparr> projid_map := Some optarg \<rparr>)
      else if opt = CHR ''r'' then Some (o1\<lparr> create_root_mappings := True \<rparr>)
      else if opt = CHR ''D'' then Some (o1\<lparr> deny_setgroups := False \<rparr>)
      else if opt = CHR ''v'' then Some (o1\<lparr> c_verbose := True \<rparr>)
      else if repeatable opt then
        (if length (opt_list o1) \<ge> MAX_OPT then None
         else Some (o1\<lparr> opt_list := opt_list o1 @ [(opt, if takes_value opt then Some optarg else None)] \<rparr>))
      else None)"

fun launch_options :: "(char \<times> cstring) list \<Rightarrow> cmd_options \<Rightarrow> cmd_options option" where
  "launch_options [] o1 = Some o1"
| "launch_options (p # ps) o1 = (case launch_option p o1 of None \<Rightarrow> None | Some o2 \<Rightarrow> launch_options ps o2)"

definition parse_command_options :: "(char \<times> cstring) list \<Rightarrow> cstring list \<Rightarrow> cmd_options option" where
  "parse_command_options opts args =
     (case launch_options opts cmd_options0 of
        None \<Rightarrow> None
      | Some o1 \<Rightarrow>
          if (uid_map o1 \<noteq> None \<or> gid_map o1 \<noteq> None \<or> projid_map o1 \<noteq> None \<or> create_root_mappings o1)
             \<and> c_flags o1 AND NEWUSER = 0 then None
          else if create_root_mappings o1 \<and> (uid_map o1 \<noteq> None \<or> gid_map o1 \<noteq> None) then None
          else if args = [] then None
          else Some (o1\<lparr> c_argv := args \<rparr>))"

section \<open>ID maps of the child\<close>

definition root_map :: "ugid \<Rightarrow> cstring" where
  "root_map i = snprintf 100 (''0 '' @ dec (uint i) @ '' 1'')"

text \<open>The map text: the one given, or the root mapping, which takes its place.\<close>

definition map_text :: "bool \<Rightarrow> ugid \<Rightarrow> cstring option \<Rightarrow> cstring option" where
  "map_text root i given = (if root then Some (root_map i) else given)"

definition update_if :: "'w map_os \<Rightarrow> cstring option \<Rightarrow> cstring \<Rightarrow> 'w mapper \<Rightarrow> (unit, 'w mapper) outcome" where
  "update_if os text path s = (case text of None \<Rightarrow> Ret () s | Some t \<Rightarrow> must (update_map os t path) s)"

definition update_gid_map :: "'w map_os \<Rightarrow> cmd_options \<Rightarrow> int \<Rightarrow> 'w mapper \<Rightarrow> (unit, 'w mapper) outcome" where
  "update_gid_map os opts child_pid s =
     (if gid_map opts \<noteq> None \<or> create_root_mappings opts then
        obind (if deny_setgroups opts then must (proc_setgroups_write os child_pid ''deny'') s else Ret () s) (\<lambda>_ s.
          update_if os (map_text (create_root_mappings opts) (mo_getgid os) (gid_map opts)) (proc_path child_pid ''gid_map'') s)
      else Ret () s)"

definition update_child_maps :: "'w map_os \<Rightarrow> cmd_options \<Rightarrow> int \<Rightarrow> 'w mapper \<Rightarrow> (unit, 'w mapper) outcome" where
  "update_child_maps os opts child_pid s =
     obind (update_if os (map_text (create_root_mappings opts) (mo_getuid os) (uid_map opts)) (proc_path child_pid ''uid_map'') s) (\<lambda>_ s.
     obind (update_gid_map os opts child_pid s) (\<lambda>_ s.
     update_if os (projid_map opts) (proc_path child_pid ''projid_map'') s))"

section \<open>Parent and child\<close>

text \<open>After \<^verbatim>\<open>clone()\<close>: the parent updates the maps, closes its end of the pipe and waits; the child
  closes its copy of the write end, waits for the end of file, performs the repeatable options
  and executes the command. A process that exits or is killed loses its descriptors.\<close>

datatype parent_loc = P_Update | P_Close | P_Wait | P_Done | P_Failed
datatype child_loc = C_Close | C_Read | C_Options | C_Exec | C_Running | C_Ended | C_Failed | C_Undefined

record 'w launch =
  la_state :: "'w mapper"
  la_parent :: parent_loc
  la_child :: child_loc

definition write_end_open :: "'w launch \<Rightarrow> bool" where
  "write_end_open s \<longleftrightarrow> la_parent s = P_Update \<or> la_parent s = P_Close \<or> la_child s = C_Close"

definition parent_step :: "'w map_os \<Rightarrow> cmd_options \<Rightarrow> int \<Rightarrow> bool \<Rightarrow> 'w launch \<Rightarrow> 'w launch option" where
  "parent_step os opts child_pid ok s =
     (case la_parent s of
        P_Update \<Rightarrow>
          (case update_child_maps os opts child_pid (la_state s) of
             Ret _ m \<Rightarrow> Some (s\<lparr> la_state := m, la_parent := P_Close \<rparr>)
           | Exit _ m \<Rightarrow> Some (s\<lparr> la_state := m, la_parent := P_Failed \<rparr>)
           | _ \<Rightarrow> None)
      | P_Close \<Rightarrow> Some (s\<lparr> la_parent := P_Wait \<rparr>)
      | P_Wait \<Rightarrow>
          if la_child s = C_Ended \<or> la_child s = C_Failed
          then Some (s\<lparr> la_parent := if ok then P_Done else P_Failed \<rparr>) else None
      | _ \<Rightarrow> None)"

text \<open>\<open>ok\<close>: the \<^verbatim>\<open>read()\<close> is not interrupted, the \<^verbatim>\<open>execvp()\<close> succeeds.\<close>

definition childFunc :: "('c, 'w) cap_os \<Rightarrow> cmd_options \<Rightarrow> bool \<Rightarrow> 'w launch \<Rightarrow> 'w launch option" where
  "childFunc cos opts ok s =
     (case la_child s of
        C_Close \<Rightarrow> Some (s\<lparr> la_child := C_Read \<rparr>)
      | C_Read \<Rightarrow>
          if \<not> ok then Some (s\<lparr> la_child := C_Failed \<rparr>)
          else if write_end_open s then None
          else Some (s\<lparr> la_child := C_Options \<rparr>)
      | C_Options \<Rightarrow>
          (case perform_repeatable_options cos (opt_list opts) (m_world (la_state s)) of
             Ret _ w \<Rightarrow> Some (s\<lparr> la_state := (la_state s)\<lparr> m_world := w \<rparr>, la_child := C_Exec \<rparr>)
           | Exit _ w \<Rightarrow> Some (s\<lparr> la_state := (la_state s)\<lparr> m_world := w \<rparr>, la_child := C_Failed \<rparr>)
           | Abort w \<Rightarrow> Some (s\<lparr> la_state := (la_state s)\<lparr> m_world := w \<rparr>, la_child := C_Failed \<rparr>)
           | Undef \<Rightarrow> Some (s\<lparr> la_child := C_Undefined \<rparr>))
      | C_Exec \<Rightarrow> Some (s\<lparr> la_child := if ok then C_Running else C_Failed \<rparr>)
      | C_Running \<Rightarrow> Some (s\<lparr> la_child := C_Ended \<rparr>)
      | _ \<Rightarrow> None)"

inductive launch_step ::
  "'w map_os \<Rightarrow> ('c, 'w) cap_os \<Rightarrow> cmd_options \<Rightarrow> int \<Rightarrow> 'w launch \<Rightarrow> 'w launch \<Rightarrow> bool" for os cos opts child_pid where
  parent: "parent_step os opts child_pid ok s = Some s' \<Longrightarrow> launch_step os cos opts child_pid s s'"
| child: "childFunc cos opts ok s = Some s' \<Longrightarrow> launch_step os cos opts child_pid s s'"
| kill_parent: "launch_step os cos opts child_pid s (s\<lparr> la_parent := P_Failed \<rparr>)"
| kill_child: "launch_step os cos opts child_pid s (s\<lparr> la_child := C_Failed \<rparr>)"

inductive launch_reach ::
  "'w map_os \<Rightarrow> ('c, 'w) cap_os \<Rightarrow> cmd_options \<Rightarrow> int \<Rightarrow> 'w launch \<Rightarrow> 'w launch \<Rightarrow> bool" for os cos opts child_pid s0 where
  start: "launch_reach os cos opts child_pid s0 s0"
| step: "launch_reach os cos opts child_pid s0 s \<Longrightarrow> launch_step os cos opts child_pid s s' \<Longrightarrow>
    launch_reach os cos opts child_pid s0 s'"

definition launch_start :: "'w \<Rightarrow> 'w launch" where
  "launch_start w = \<lparr> la_state = \<lparr> m_world = w, m_log = [] \<rparr>, la_parent = P_Update, la_child = C_Close \<rparr>"

section \<open>What the maps should be\<close>

definition map_written :: "cstring option \<Rightarrow> cstring \<Rightarrow> map_event list" where
  "map_written text path = (case text of None \<Rightarrow> [] | Some t \<Rightarrow> [Wrote path (commas_to_newlines t)])"

text \<open>\<open>deny\<close> is what happened to the \<^verbatim>\<open>setgroups\<close> file.\<close>

definition maps_written :: "'w map_os \<Rightarrow> cmd_options \<Rightarrow> int \<Rightarrow> map_event list \<Rightarrow> map_event list" where
  "maps_written os opts pid deny =
     map_written (map_text (create_root_mappings opts) (mo_getuid os) (uid_map opts)) (proc_path pid ''uid_map'')
     @ (if gid_map opts \<noteq> None \<or> create_root_mappings opts
        then deny @ map_written (map_text (create_root_mappings opts) (mo_getgid os) (gid_map opts)) (proc_path pid ''gid_map'')
        else [])
     @ map_written (projid_map opts) (proc_path pid ''projid_map'')"

text \<open>Unless the option \<^verbatim>\<open>-D\<close> was given, the word \<^verbatim>\<open>deny\<close> was handed to \<^verbatim>\<open>write()\<close>, which reported no error; what is logged is what it took,
  since a short count is not an error for the program. Only a file that does not exist is left out.\<close>

definition deny_done :: "'w map_os \<Rightarrow> cmd_options \<Rightarrow> int \<Rightarrow> map_event list \<Rightarrow> bool" where
  "deny_done os opts pid deny \<longleftrightarrow>
     (if deny_setgroups opts \<and> (gid_map opts \<noteq> None \<or> create_root_mappings opts)
      then (\<exists>w w'. mo_open os (proc_path pid ''setgroups'') w = (Inl ENOENT_no, w')) \<and> deny = [Missing (proc_path pid ''setgroups'')]
         \<or> (\<exists>fd w n w'. mo_write os fd ''deny'' w = (Inr n, w') \<and> deny = [Wrote (proc_path pid ''setgroups'') (take n ''deny'')])
      else deny = [])"

lemma put_event_simps [simp]: "m_log (put_event e w s) = m_log s @ [e]" "m_world (put_event e w s) = w"
  by (simp_all add: put_event_def)

lemma update_if_log: "update_if os text path s = Ret () s' \<Longrightarrow> m_log s' = m_log s @ map_written text path"
  by (auto simp: update_if_def must_Ret_iff update_map_def Let_def map_written_def split: option.splits sum.splits prod.splits if_splits)

lemma setgroups_log:
  assumes "proc_setgroups_write os pid ''deny'' s = (True, s')" and "deny_setgroups opts" and "gid_map opts \<noteq> None \<or> create_root_mappings opts"
  shows "\<exists>deny. m_log s' = m_log s @ deny \<and> deny_done os opts pid deny"
proof -
  let ?p = "proc_path pid ''setgroups''"
  obtain r w where o: "mo_open os ?p (m_world s) = (r, w)" by fastforce
  show ?thesis
  proof (cases r)
    case (Inl e)
    with assms(1) o have "e = ENOENT_no" "s' = put_event (Missing ?p) w s"
      by (auto simp: proc_setgroups_write_def Let_def split: if_splits)
    with assms(2,3) Inl o show ?thesis by (auto simp: deny_done_def)
  next
    case (Inr fd)
    obtain q w' where wr: "mo_write os fd ''deny'' w = (q, w')" by fastforce
    with assms(1) o Inr obtain n where "q = Inr n" "s' = put_event (Wrote ?p (take n ''deny'')) (mo_close os fd w') s"
      by (auto simp: proc_setgroups_write_def Let_def split: sum.splits)
    with assms(2,3) wr show ?thesis by (auto simp: deny_done_def)
  qed
qed

lemma update_gid_map_log:
  assumes "update_gid_map os opts pid s = Ret () s'"
  shows "\<exists>deny. deny_done os opts pid deny \<and> m_log s' = m_log s @
    (if gid_map opts \<noteq> None \<or> create_root_mappings opts
     then deny @ map_written (map_text (create_root_mappings opts) (mo_getgid os) (gid_map opts)) (proc_path pid ''gid_map'') else [])"
proof (cases "gid_map opts \<noteq> None \<or> create_root_mappings opts")
  case True
  with assms obtain s1 where s1: "(if deny_setgroups opts then must (proc_setgroups_write os pid ''deny'') s else Ret () s) = Ret () s1"
    and u: "update_if os (map_text (create_root_mappings opts) (mo_getgid os) (gid_map opts)) (proc_path pid ''gid_map'') s1 = Ret () s'"
    by (auto simp: update_gid_map_def obind_Ret_iff)
  have "\<exists>deny. m_log s1 = m_log s @ deny \<and> deny_done os opts pid deny"
    using s1 True setgroups_log [of os pid s s1 opts] by (cases "deny_setgroups opts") (auto simp: must_Ret_iff deny_done_def)
  with update_if_log [OF u] True show ?thesis by auto
next
  case False
  with assms have "s' = s" by (auto simp: update_gid_map_def)
  with False show ?thesis by (intro exI [of _ "[]"]) (auto simp: deny_done_def)
qed

lemma update_child_maps_log:
  assumes "update_child_maps os opts pid s = Ret () s'"
  shows "\<exists>deny. deny_done os opts pid deny \<and> m_log s' = m_log s @ maps_written os opts pid deny"
proof -
  from assms obtain s1 s2 where
    u: "update_if os (map_text (create_root_mappings opts) (mo_getuid os) (uid_map opts)) (proc_path pid ''uid_map'') s = Ret () s1"
      "update_gid_map os opts pid s1 = Ret () s2" "update_if os (projid_map opts) (proc_path pid ''projid_map'') s2 = Ret () s'"
    by (auto simp: update_child_maps_def obind_Ret_iff)
  from update_gid_map_log [OF u(2)] update_if_log [OF u(1)] update_if_log [OF u(3)] show ?thesis
    by (auto simp: maps_written_def)
qed

section \<open>Accepted command lines\<close>

definition options_ok :: "cmd_options \<Rightarrow> bool" where
  "options_ok o1 \<longleftrightarrow> length (opt_list o1) \<le> MAX_OPT
     \<and> (\<forall>(opt, val)\<in>set (opt_list o1). repeatable opt \<and> (takes_value opt \<longleftrightarrow> val \<noteq> None))"

lemma launch_option_ok: "launch_option p o1 = Some o2 \<Longrightarrow> options_ok o1 \<Longrightarrow> options_ok o2"
  by (cases p) (auto simp: launch_option_def options_ok_def add_flag_def split: if_split_asm)

lemma launch_options_ok: "launch_options ps o1 = Some o2 \<Longrightarrow> options_ok o1 \<Longrightarrow> options_ok o2"
  by (induction ps arbitrary: o1) (auto split: option.splits dest: launch_option_ok)

lemma not_repeatable [simp]:
  "\<not> repeatable (CHR ''C'')" "\<not> repeatable (CHR ''i'')" "\<not> repeatable (CHR ''m'')" "\<not> repeatable (CHR ''n'')"
  "\<not> repeatable (CHR ''p'')" "\<not> repeatable (CHR ''u'')" "\<not> repeatable (CHR ''U'')" "\<not> repeatable (CHR ''M'')"
  "\<not> repeatable (CHR ''G'')" "\<not> repeatable (CHR ''P'')" "\<not> repeatable (CHR ''r'')" "\<not> repeatable (CHR ''D'')"
  "\<not> repeatable (CHR ''v'')" "\<not> repeatable (CHR ''S'')"
  by (simp_all add: repeatable_def)

lemma launch_option_list:
  "launch_option (opt, optarg) o1 = Some o2 \<Longrightarrow>
   opt_list o2 = opt_list o1 @ (if repeatable opt then [(opt, if takes_value opt then Some optarg else None)] else [])"
  by (auto simp: launch_option_def add_flag_def split: if_split_asm)

lemma launch_options_list:
  "launch_options ps o1 = Some o2 \<Longrightarrow>
   opt_list o2 = opt_list o1 @ map (\<lambda>(opt, optarg). (opt, if takes_value opt then Some optarg else None)) (filter (\<lambda>(opt, _). repeatable opt) ps)"
proof (induction ps arbitrary: o1)
  case (Cons p ps)
  obtain opt optarg where p: "p = (opt, optarg)" by (cases p)
  with Cons.prems obtain o' where o': "launch_option (opt, optarg) o1 = Some o'" "launch_options ps o' = Some o2"
    by (auto split: option.splits)
  show ?case using Cons.IH [OF o'(2)] launch_option_list [OF o'(1)] p by simp
qed simp

lemma launch_options_S: "(CHR ''S'', v) \<in> set ps \<Longrightarrow> launch_options ps o1 = None"
  by (induction ps arbitrary: o1) (auto simp: launch_option_def split: option.splits)

text \<open>\<^verbatim>\<open>-S\<close> is documented, accepted by \<^verbatim>\<open>getopt()\<close> and performed by the child, but the parser has no
  case for it.\<close>

lemma dash_S_rejected: "(CHR ''S'', v) \<in> set opts \<Longrightarrow> parse_command_options opts args = None"
  by (simp add: parse_command_options_def launch_options_S)

lemma parse_command_options_ok:
  assumes "parse_command_options opts args = Some o1"
  shows "options_ok o1"
proof -
  obtain o2 where "launch_options opts cmd_options0 = Some o2" and o1: "o1 = o2\<lparr> c_argv := args \<rparr>"
    using assms by (auto simp: parse_command_options_def split: option.splits if_splits)
  then have "options_ok o2" using launch_options_ok by (auto simp: options_ok_def cmd_options0_def)
  then show ?thesis by (simp add: o1 options_ok_def)
qed

text \<open>
  Command lines that \<^verbatim>\<open>userns_child_exec\<close> accepts are well formed: there is a command; maps and root
  mappings are only given together with a new user namespace, root mappings not together with
  explicit user or group maps; at most 100 repeatable options are kept, in their order, with a
  value exactly when the option has one. What the child then does with them never reads an
  option value that is not there.
\<close>

theorem launch_options_well_formed:
  assumes "parse_command_options opts args = Some o1"
  shows "c_argv o1 = args \<and> args \<noteq> []
     \<and> (uid_map o1 \<noteq> None \<or> gid_map o1 \<noteq> None \<or> projid_map o1 \<noteq> None \<or> create_root_mappings o1 \<longrightarrow> c_flags o1 AND NEWUSER \<noteq> 0)
     \<and> \<not> (create_root_mappings o1 \<and> (uid_map o1 \<noteq> None \<or> gid_map o1 \<noteq> None))
     \<and> opt_list o1 = map (\<lambda>(opt, optarg). (opt, if takes_value opt then Some optarg else None)) (filter (\<lambda>(opt, _). repeatable opt) opts)
     \<and> length (opt_list o1) \<le> MAX_OPT
     \<and> safe (\<lambda>_ _. True) (perform_repeatable_options cos (opt_list o1) w)"
proof -
  have "safe (\<lambda>_ _. True) (perform_repeatable_options cos (opt_list o1) w)"
    using parse_command_options_ok [OF assms] unfolding perform_repeatable_options_def
    by (intro perform_options_safe) (auto simp: options_ok_def)
  moreover have "opt_list o1 = map (\<lambda>(opt, optarg). (opt, if takes_value opt then Some optarg else None)) (filter (\<lambda>(opt, _). repeatable opt) opts)"
    using assms launch_options_list [of opts cmd_options0]
    by (auto simp: parse_command_options_def cmd_options0_def split: option.splits if_splits)
  ultimately show ?thesis
    using assms parse_command_options_ok [OF assms]
    by (auto simp: parse_command_options_def options_ok_def split: option.splits if_splits)
qed

section \<open>The child waits for the maps\<close>

definition child_released :: "child_loc \<Rightarrow> bool" where
  "child_released c \<longleftrightarrow> c \<noteq> C_Close \<and> c \<noteq> C_Read \<and> c \<noteq> C_Failed"

definition launch_inv :: "'w map_os \<Rightarrow> cmd_options \<Rightarrow> int \<Rightarrow> 'w launch \<Rightarrow> bool" where
  "launch_inv os opts pid s \<longleftrightarrow>
     la_child s \<noteq> C_Undefined
   \<and> (la_parent s = P_Update \<longrightarrow> m_log (la_state s) = [])
   \<and> (la_parent s = P_Close \<or> la_parent s = P_Wait \<or> la_parent s = P_Done \<longrightarrow>
        (\<exists>deny. deny_done os opts pid deny \<and> m_log (la_state s) = maps_written os opts pid deny))
   \<and> (child_released (la_child s) \<longrightarrow> la_parent s \<noteq> P_Update \<and> la_parent s \<noteq> P_Close)"

lemma parent_step_other:
  assumes "parent_step os opts pid ok s = Some s'" and "la_parent s \<noteq> P_Update"
  shows "la_state s' = la_state s \<and> la_child s' = la_child s
    \<and> (la_parent s = P_Close \<and> la_parent s' = P_Wait \<or> la_parent s = P_Wait \<and> (la_parent s' = P_Done \<or> la_parent s' = P_Failed))"
  using assms by (cases "la_parent s") (auto simp: parent_step_def split: if_splits)

lemma parent_step_inv:
  assumes "parent_step os opts pid ok s = Some s'" and "launch_inv os opts pid s"
  shows "launch_inv os opts pid s'"
proof (cases "la_parent s = P_Update")
  case True
  show ?thesis
  proof (cases "update_child_maps os opts pid (la_state s)")
    case (Ret u m)
    with update_child_maps_log [of os opts pid "la_state s" m] assms True show ?thesis
      by (auto simp: parent_step_def launch_inv_def)
  qed (use assms True in \<open>auto simp: parent_step_def launch_inv_def\<close>)
next
  case False
  from parent_step_other [OF assms(1) False] assms(2) show ?thesis
    unfolding launch_inv_def by (elim conjE disjE) simp_all
qed

lemma childFunc_other:
  assumes "childFunc cos opts ok s = Some s'" and "la_child s \<noteq> C_Options"
  shows "la_state s' = la_state s \<and> la_parent s' = la_parent s \<and> la_child s' \<noteq> C_Undefined
    \<and> (child_released (la_child s') \<longrightarrow> child_released (la_child s) \<or> \<not> write_end_open s)"
  using assms by (cases "la_child s") (auto simp: childFunc_def child_released_def split: if_splits)

lemma childFunc_options:
  assumes "childFunc cos opts ok s = Some s'" and "la_child s = C_Options" and "options_ok opts"
  shows "m_log (la_state s') = m_log (la_state s) \<and> la_parent s' = la_parent s \<and> la_child s' \<noteq> C_Undefined"
proof -
  have "safe (\<lambda>_ _. True) (perform_repeatable_options cos (opt_list opts) (m_world (la_state s)))"
    using assms(3) unfolding perform_repeatable_options_def by (intro perform_options_safe) (auto simp: options_ok_def)
  with assms(1,2) show ?thesis
    by (cases "perform_repeatable_options cos (opt_list opts) (m_world (la_state s))") (auto simp: childFunc_def)
qed

lemma childFunc_inv:
  assumes "childFunc cos opts ok s = Some s'" and "launch_inv os opts pid s" and "options_ok opts"
  shows "launch_inv os opts pid s'"
proof (cases "la_child s = C_Options")
  case True
  with childFunc_options [OF assms(1) True assms(3)] assms(2) show ?thesis
    unfolding launch_inv_def by (simp add: child_released_def)
next
  case False
  with childFunc_other [OF assms(1) False] assms(2) show ?thesis
    unfolding launch_inv_def write_end_open_def by (elim conjE) (simp, blast)
qed

lemma launch_reach_inv:
  assumes "launch_reach os cos opts pid s0 s" and "launch_inv os opts pid s0" and "options_ok opts"
  shows "launch_inv os opts pid s"
  using assms
proof (induction rule: launch_reach.induct)
  case (step s s')
  then have inv: "launch_inv os opts pid s" by simp
  from step.hyps(2) show ?case
  proof cases
    case (parent ok)
    then show ?thesis using parent_step_inv inv by blast
  next
    case (child ok)
    then show ?thesis using childFunc_inv inv assms(3) by blast
  qed (use inv in \<open>auto simp: launch_inv_def child_released_def\<close>)
qed

text \<open>
  C30. The command is not executed before the ID maps are written: for every accepted command line
  and every interleaving of parent and child, when the child has gone past its wait on the pipe,
  the parent has written the user, group and project ID maps that the options ask for, each
  complete and with its commas replaced by newlines, in this order; unless \<^verbatim>\<open>-D\<close> was given, before the group map the word \<^verbatim>\<open>deny\<close> was
  written to the \<^verbatim>\<open>setgroups\<close> file of the child without an error, or that file does not exist; or else the parent has failed.
\<close>

theorem maps_before_exec:
  assumes "parse_command_options cmdline args = Some opts"
    and "launch_reach os cos opts pid (launch_start w) s" and "child_released (la_child s)"
  shows "la_child s \<noteq> C_Undefined
     \<and> (la_parent s = P_Failed \<or> (\<exists>deny. deny_done os opts pid deny \<and> m_log (la_state s) = maps_written os opts pid deny))"
proof -
  have "launch_inv os opts pid (launch_start w)"
    by (simp add: launch_inv_def launch_start_def child_released_def)
  from launch_reach_inv [OF assms(2) this parse_command_options_ok [OF assms(1)]]
  have "launch_inv os opts pid s" .
  with assms(3) show ?thesis by (cases "la_parent s") (auto simp: launch_inv_def)
qed

section \<open>Runs\<close>

text \<open>A system on which every call succeeds, and one on which the map files cannot be opened; the
  state is the number of calls made.\<close>

definition demo_map_os :: "bool \<Rightarrow> nat map_os" where
  "demo_map_os ok = \<lparr>
     mo_open = \<lambda>f n. (if ok then Inr 3 else Inl 13, n + 1),
     mo_write = \<lambda>fd bs n. (Inr (length bs), n + 1),
     mo_close = \<lambda>fd n. n + 1, mo_getuid = 1000, mo_getgid = 1000 \<rparr>"

definition demo_cap_os :: "(unit, nat) cap_os" where
  "demo_cap_os = \<lparr>
     co_get_proc = \<lambda>n. (Some (), n + 1), co_set_flag = \<lambda>f c b u. Some (),
     co_set_proc = \<lambda>u n. (True, n + 1), co_free = \<lambda>u n. (True, n + 1),
     co_from_name = \<lambda>s. Some 0, co_from_text = \<lambda>s n. (Some (), n + 1),
     co_drop_bounding = \<lambda>c n. (True, n + 1), co_ambient = \<lambda>b c n. (True, n + 1),
     co_securebits = \<lambda>b n. (True, n + 1), co_setresuid = \<lambda>r e s n. (True, n + 1),
     co_sleep = \<lambda>t n. n + 1, co_display = \<lambda>t n. (True, n + 1) \<rparr>"

definition demo_cmdline :: "(char \<times> cstring) list" where
  "demo_cmdline = [(CHR ''U'', []), (CHR ''M'', ''0 1000 1,1 2000 5''), (CHR ''G'', ''0 100 1''), (CHR ''d'', []), (CHR ''s'', ''0'')]"

definition demo_options :: cmd_options where
  "demo_options = \<lparr> c_argv = [''sh''], c_flags = NEWUSER, create_root_mappings = False, deny_setgroups = True,
     c_verbose = False, uid_map = Some ''0 1000 1,1 2000 5'', gid_map = Some ''0 100 1'', projid_map = None,
     opt_list = [(CHR ''d'', None), (CHR ''s'', Some ''0'')] \<rparr>"

lemma demo_parsed: "parse_command_options demo_cmdline [''sh''] = Some demo_options"
  by (simp add: parse_command_options_def demo_cmdline_def demo_options_def cmd_options0_def launch_option_def add_flag_def
    repeatable_def takes_value_def MAX_OPT_def NEWUSER_def)

theorem launch_options_well_formed_witness:
  "parse_command_options demo_cmdline [''sh''] = Some demo_options
   \<and> length (opt_list demo_options) \<le> MAX_OPT
   \<and> safe (\<lambda>_ _. True) (perform_repeatable_options demo_cap_os (opt_list demo_options) 0)"
  using launch_options_well_formed [OF demo_parsed, of demo_cap_os 0] demo_parsed by blast

text \<open>Parent (\<open>True\<close>) and child take the turns of a schedule.\<close>

fun launch_run :: "'w map_os \<Rightarrow> ('c, 'w) cap_os \<Rightarrow> cmd_options \<Rightarrow> int \<Rightarrow> bool list \<Rightarrow> 'w launch \<Rightarrow> 'w launch" where
  "launch_run os cos opts pid [] s = s"
| "launch_run os cos opts pid (b # bs) s =
     launch_run os cos opts pid bs
       (case (if b then parent_step os opts pid True s else childFunc cos opts True s) of None \<Rightarrow> s | Some s' \<Rightarrow> s')"

lemma launch_run_reach:
  "launch_reach os cos opts pid s0 s \<Longrightarrow> launch_reach os cos opts pid s0 (launch_run os cos opts pid bs s)"
proof (induction bs arbitrary: s)
  case (Cons b bs)
  show ?case
  proof (cases "if b then parent_step os opts pid True s else childFunc cos opts True s")
    case (Some s')
    then have "launch_step os cos opts pid s s'"
      by (cases b) (auto intro: launch_step.parent launch_step.child)
    with Cons.IH [OF launch_reach.step [OF Cons.prems]] Some show ?thesis by simp
  qed (use Cons in simp)
qed simp

definition demo_end :: "bool \<Rightarrow> nat launch" where
  "demo_end ok = launch_run (demo_map_os ok) demo_cap_os demo_options 5
     (if ok then [False, False, True, False, True, False, False, False] else [False, True, False, False, False])
     (launch_start 0)"

lemmas launch_eval = demo_end_def launch_start_def parent_step_def childFunc_def update_child_maps_def update_if_def
  update_gid_map_def proc_setgroups_write_def demo_options_def demo_map_os_def demo_cap_os_def map_text_def update_map_def must_def
  write_end_open_def perform_repeatable_options_def perform_option_def with_value_def

lemma demo_end_child: "la_child (demo_end ok) = C_Running" "la_parent (demo_end True) = P_Wait" "la_parent (demo_end False) = P_Failed"
    "m_log (la_state (demo_end False)) = []"
proof -
  show "la_child (demo_end ok) = C_Running" by (cases ok) (simp_all add: launch_eval Let_def put_event_def)
qed (simp_all add: launch_eval Let_def put_event_def)

theorem maps_before_exec_witness:
  "la_child (demo_end True) = C_Running \<and> la_parent (demo_end True) = P_Wait
   \<and> m_log (la_state (demo_end True)) =
       [Wrote ''/proc/5/uid_map'' (''0 1000 1'' @ [newline] @ ''1 2000 5''), Wrote ''/proc/5/setgroups'' ''deny'',
        Wrote ''/proc/5/gid_map'' ''0 100 1'']"
proof -
  have "launch_reach (demo_map_os True) demo_cap_os demo_options 5 (launch_start 0) (demo_end True)"
    unfolding demo_end_def by (rule launch_run_reach [OF launch_reach.start])
  from maps_before_exec [OF demo_parsed this] demo_end_child
  obtain deny where d: "deny_done (demo_map_os True) demo_options 5 deny"
    "m_log (la_state (demo_end True)) = maps_written (demo_map_os True) demo_options 5 deny" by (auto simp: child_released_def)
  have pp: "proc_path 5 ''uid_map'' = ''/proc/5/uid_map''" "proc_path 5 ''setgroups'' = ''/proc/5/setgroups''"
      "proc_path 5 ''gid_map'' = ''/proc/5/gid_map''" by code_simp+
  have "deny = [Wrote ''/proc/5/setgroups'' ''deny'']"
    using d(1) by (auto simp: deny_done_def demo_options_def demo_map_os_def pp)
  with d(2) have "m_log (la_state (demo_end True)) =
       [Wrote ''/proc/5/uid_map'' (''0 1000 1'' @ [newline] @ ''1 2000 5''), Wrote ''/proc/5/setgroups'' ''deny'',
        Wrote ''/proc/5/gid_map'' ''0 100 1'']"
    by (simp add: maps_written_def demo_options_def map_written_def map_text_def commas_to_newlines_def pp)
  with demo_end_child show ?thesis by simp
qed

text \<open>When the parent fails to write the maps it exits, which closes its end of the pipe: the child
  sees the end of file and executes the command in a user namespace without maps.\<close>

lemma exec_without_maps:
  "\<exists>s. launch_reach (demo_map_os False) demo_cap_os demo_options 5 (launch_start 0) s
     \<and> la_parent s = P_Failed \<and> m_log (la_state s) = [] \<and> la_child s = C_Running"
  using launch_run_reach [OF launch_reach.start] demo_end_child unfolding demo_end_def by blast

end
