(* ===== verification/Interleaving.thy ===== *)
theory Interleaving
  imports Tlpi_Prelude
begin

text \<open>
  Concurrent programs as step relations: runs with a count of their steps, and what follows when every
  step keeps an invariant and shrinks a measure of the work that is left. Some steps are
  disturbances from outside (a spurious wake-up of a condition variable): they may add work, by
  a bounded amount. The sum lemmas are for measures over an array of processes.
\<close>

datatype holder = Main | Thread nat

text \<open>\<open>steps step s n k t\<close>: \<open>n\<close> steps lead from \<open>s\<close> to \<open>t\<close>, \<open>k\<close> of them disturbances.\<close>

inductive steps :: "(bool \<Rightarrow> 's \<Rightarrow> 's \<Rightarrow> bool) \<Rightarrow> 's \<Rightarrow> nat \<Rightarrow> nat \<Rightarrow> 's \<Rightarrow> bool" for step s where
  none: "steps step s 0 0 s"
| more: "steps step s n k t \<Longrightarrow> step b t u \<Longrightarrow> steps step s (Suc n) (k + of_bool b) u"

lemma steps_append: "steps step s n k t \<Longrightarrow> step False t u \<Longrightarrow> steps step s (Suc n) k u"
  using steps.more [of step s n k t False u] by simp

text \<open>Running a schedule: who takes the next step.\<close>

fun exec_schedule :: "('p \<Rightarrow> 's \<Rightarrow> 's option) \<Rightarrow> 'p list \<Rightarrow> 's \<Rightarrow> 's option" where
  "exec_schedule f [] s = Some s"
| "exec_schedule f (p # ps) s = (case f p s of None \<Rightarrow> None | Some t \<Rightarrow> exec_schedule f ps t)"

lemma exec_steps:
  assumes "\<And>p s t. f p s = Some t \<Longrightarrow> step False s t" and "steps step s0 n k s" and "exec_schedule f ps s = Some t"
  shows "steps step s0 (n + length ps) k t"
  using assms(2,3)
proof (induction ps arbitrary: n s)
  case (Cons p ps)
  then obtain u where u: "f p s = Some u" "exec_schedule f ps u = Some t" by (auto split: option.splits)
  from Cons.IH [OF steps_append [OF Cons.prems(1) assms(1) [OF u(1)]] u(2)] show ?case by simp
qed simp

locale bounded_system =
  fixes step :: "bool \<Rightarrow> 's \<Rightarrow> 's \<Rightarrow> bool" and inv :: "'s \<Rightarrow> bool" and work :: "'s \<Rightarrow> nat" and extra :: nat
    and finished :: "'s \<Rightarrow> bool"
  assumes keeps: "inv s \<Longrightarrow> step b s t \<Longrightarrow> inv t"
    and shrinks: "inv s \<Longrightarrow> step b s t \<Longrightarrow> Suc (work t) \<le> work s + (if b then extra else 0)"
    and progress: "inv s \<Longrightarrow> \<not> finished s \<Longrightarrow> \<exists>t. step False s t"
begin

lemma reached:
  assumes "inv s" and "steps step s n k t"
  shows "inv t \<and> n + work t \<le> work s + k * extra"
  using assms(2)
proof induction
  case (more n k t b u)
  with keeps [of t b u] shrinks [of t b u] show ?case by (cases b) auto
qed (simp add: assms(1))

text \<open>A run is no longer than the work at its start, with an allowance for the disturbances, and where it
  cannot go on the system has finished.\<close>

lemma bounded: "inv s \<Longrightarrow> steps step s n k t \<Longrightarrow> n \<le> work s + k * extra"
  using reached [of s n k t] by simp

lemma not_stuck: "inv s \<Longrightarrow> steps step s n k t \<Longrightarrow> (\<exists>u. step False t u) \<or> finished t"
  using reached [of s n k t] progress [of t] by blast

text \<open>And some run does get there.\<close>

lemma completes: "inv s \<Longrightarrow> \<exists>n t. steps step s n 0 t \<and> finished t"
proof -
  assume i: "inv s"
  have "\<exists>n t. steps step s n 0 t \<and> finished t" if "steps step s m 0 u" for m u
    using that
  proof (induction "work u" arbitrary: m u rule: less_induct)
    case less
    have u: "inv u" using reached [OF i less.prems] by simp
    show ?case
    proof (cases "finished u")
      case False
      then obtain v where v: "step False u v" using progress [OF u] by blast
      then have "work v < work u" using shrinks [OF u v] by simp
      from less.hyps [OF this steps_append [OF less.prems v]] show ?thesis .
    qed (use less.prems in blast)
  qed
  from this [OF steps.none] show ?thesis .
qed

end

section \<open>Sums over an array of which one element changes\<close>

lemma sum_list_upd:
  fixes f :: "'a \<Rightarrow> nat"
  assumes "i < length xs"
  shows "sum_list (map f (xs[i := x])) + f (xs ! i) = sum_list (map f xs) + f x"
  using assms
proof (induction xs arbitrary: i)
  case (Cons y ys)
  then show ?case by (cases i) (auto simp: algebra_simps)
qed simp

text \<open>The same for a weight that depends on the place.\<close>

definition sum_at :: "(nat \<Rightarrow> 'a \<Rightarrow> nat) \<Rightarrow> 'a list \<Rightarrow> nat" where
  "sum_at f xs = (\<Sum>i<length xs. f i (xs ! i))"

lemma sum_at_upd:
  assumes "i < length xs"
  shows "sum_at f (xs[i := x]) + f i (xs ! i) = sum_at f xs + f i x"
proof -
  have i: "i \<in> {..<length xs}" using assms by simp
  have "sum_at f (xs[i := x]) = f i x + (\<Sum>j\<in>{..<length xs} - {i}. f j (xs ! j))"
    unfolding sum_at_def length_list_update sum.remove [OF finite_lessThan i] using assms
    by (auto intro!: sum.cong)
  moreover have "sum_at f xs = f i (xs ! i) + (\<Sum>j\<in>{..<length xs} - {i}. f j (xs ! j))"
    unfolding sum_at_def by (rule sum.remove [OF finite_lessThan i])
  ultimately show ?thesis by simp
qed

lemma sum_at_le: "(\<And>i. i < length xs \<Longrightarrow> f i (xs ! i) \<le> g i (xs ! i)) \<Longrightarrow> sum_at f xs \<le> sum_at g xs"
  by (auto simp: sum_at_def intro: sum_mono)

lemma sum_at_less:
  assumes "\<And>i. i < length xs \<Longrightarrow> f i (xs ! i) \<le> g i (xs ! i)" and "sum_at f xs < sum_at g xs"
  shows "\<exists>i<length xs. f i (xs ! i) < g i (xs ! i)"
proof (rule ccontr)
  assume "\<not> ?thesis"
  then have "sum_at g xs \<le> sum_at f xs" by (intro sum_at_le) (meson not_less)
  with assms(2) show False by simp
qed

end
