(* ===== verification/Thread_Join.thy ===== *)
theory Thread_Join
  imports Get_Num Interleaving
begin

text \<open>
  \<^verbatim>\<open>threads/thread_multijoin.c\<close>: the main thread joins with any of its threads as it terminates.
  The threads count themselves under a mutex and signal a condition variable. Main and threads are
  step functions over the common state, one step per call of a pthread function or access to a
  shared variable, interleaved in any order. A wait on the condition variable releases the mutex,
  may end without a signal (spurious wake-up), and takes the mutex again before it returns. A
  failing pthread call ends the process through its wrapper and is left out.
\<close>

section \<open>State\<close>

datatype tstate = TS_ALIVE | TS_TERMINATED | TS_JOINED

datatype tpc = T_Unborn | T_Sleep | T_Lock | T_Inc | T_Set | T_Unlock | T_Signal | T_Done

datatype mpc =
    M_Create nat | M_Test | M_Lock | M_Check | M_Waiting | M_Woken | M_Scan nat | M_Join nat | M_Unlock
  | M_Exit | M_Failed

record thread_info =
  t_state :: tstate
  t_sleepTime :: int
  t_pc :: tpc

record mj =
  mj_thread :: "thread_info list"
  totThreads :: int
  numLive :: int
  numUnjoined :: int
  mj_mutex :: "holder option"
  main_pc :: mpc
  reaped :: "nat list"

definition upd_thread :: "nat \<Rightarrow> (thread_info \<Rightarrow> thread_info) \<Rightarrow> mj \<Rightarrow> mj" where
  "upd_thread i f s = s\<lparr> mj_thread := (mj_thread s)[i := f (mj_thread s ! i)] \<rparr>"

section \<open>Steps\<close>

text \<open>\<^verbatim>\<open>threadFunc()\<close>. The signal wakes the main thread if it is waiting and is lost otherwise. When the
  process has exited no thread runs.\<close>

definition threadFunc :: "nat \<Rightarrow> mj \<Rightarrow> mj option" where
  "threadFunc i s =
     (if main_pc s = M_Exit \<or> main_pc s = M_Failed \<or> i \<ge> length (mj_thread s) then None
      else case t_pc (mj_thread s ! i) of
        T_Unborn \<Rightarrow> None
      | T_Sleep \<Rightarrow> Some (upd_thread i (t_pc_update (\<lambda>_. T_Lock)) s)
      | T_Lock \<Rightarrow>
          if mj_mutex s = None then Some (upd_thread i (t_pc_update (\<lambda>_. T_Inc)) (s\<lparr> mj_mutex := Some (Thread i) \<rparr>)) else None
      | T_Inc \<Rightarrow> Some (upd_thread i (t_pc_update (\<lambda>_. T_Set)) (s\<lparr> numUnjoined := numUnjoined s + 1 \<rparr>))
      | T_Set \<Rightarrow> Some (upd_thread i (\<lambda>t. t\<lparr> t_state := TS_TERMINATED, t_pc := T_Unlock \<rparr>) s)
      | T_Unlock \<Rightarrow> Some (upd_thread i (t_pc_update (\<lambda>_. T_Signal)) (s\<lparr> mj_mutex := None \<rparr>))
      | T_Signal \<Rightarrow>
          Some (upd_thread i (t_pc_update (\<lambda>_. T_Done))
            (s\<lparr> main_pc := if main_pc s = M_Waiting then M_Woken else main_pc s \<rparr>))
      | T_Done \<Rightarrow> None)"

definition join_main :: "cstring list \<Rightarrow> mj \<Rightarrow> mj option" where
  "join_main args s =
     (case main_pc s of
        M_Create idx \<Rightarrow>
          if idx < length args then
            (case getInt (Some (args ! idx)) GN_NONNEG None of
               Inl e \<Rightarrow> Some (s\<lparr> main_pc := M_Failed \<rparr>)
             | Inr v \<Rightarrow>
                 Some (upd_thread idx (\<lambda>_. \<lparr> t_state = TS_ALIVE, t_sleepTime = v, t_pc = T_Sleep \<rparr>)
                   (s\<lparr> main_pc := M_Create (idx + 1) \<rparr>)))
          else Some (s\<lparr> totThreads := int (length args), numLive := int (length args), main_pc := M_Test \<rparr>)
      | M_Test \<Rightarrow> Some (s\<lparr> main_pc := if numLive s > 0 then M_Lock else M_Exit \<rparr>)
      | M_Lock \<Rightarrow> if mj_mutex s = None then Some (s\<lparr> mj_mutex := Some Main, main_pc := M_Check \<rparr>) else None
      | M_Check \<Rightarrow>
          if numUnjoined s = 0 then Some (s\<lparr> mj_mutex := None, main_pc := M_Waiting \<rparr>)
          else Some (s\<lparr> main_pc := M_Scan 0 \<rparr>)
      | M_Waiting \<Rightarrow> None
      | M_Woken \<Rightarrow> if mj_mutex s = None then Some (s\<lparr> mj_mutex := Some Main, main_pc := M_Check \<rparr>) else None
      | M_Scan idx \<Rightarrow>
          if int idx < totThreads s then
            Some (s\<lparr> main_pc := if t_state (mj_thread s ! idx) = TS_TERMINATED then M_Join idx else M_Scan (idx + 1) \<rparr>)
          else Some (s\<lparr> main_pc := M_Unlock \<rparr>)
      | M_Join idx \<Rightarrow>
          if t_pc (mj_thread s ! idx) = T_Done then
            Some (upd_thread idx (t_state_update (\<lambda>_. TS_JOINED))
              (s\<lparr> numLive := numLive s - 1, numUnjoined := numUnjoined s - 1, reaped := reaped s @ [idx],
                 main_pc := M_Scan (idx + 1) \<rparr>))
          else None
      | M_Unlock \<Rightarrow> Some (s\<lparr> mj_mutex := None, main_pc := M_Test \<rparr>)
      | M_Exit \<Rightarrow> None
      | M_Failed \<Rightarrow> None)"

text \<open>\<^verbatim>\<open>calloc()\<close> has cleared the array: the state 0 is \<open>TS_ALIVE\<close>.\<close>

definition mj_start :: "cstring list \<Rightarrow> mj" where
  "mj_start args = \<lparr> mj_thread = replicate (length args) \<lparr> t_state = TS_ALIVE, t_sleepTime = 0, t_pc = T_Unborn \<rparr>,
     totThreads = 0, numLive = 0, numUnjoined = 0, mj_mutex = None, main_pc = M_Create 0, reaped = [] \<rparr>"

text \<open>The flag marks a spurious wake-up.\<close>

inductive mj_step :: "cstring list \<Rightarrow> bool \<Rightarrow> mj \<Rightarrow> mj \<Rightarrow> bool" for args where
  main: "join_main args s = Some t \<Longrightarrow> mj_step args False s t"
| thread: "threadFunc i s = Some t \<Longrightarrow> mj_step args False s t"
| spurious: "main_pc s = M_Waiting \<Longrightarrow> mj_step args True s (s\<lparr> main_pc := M_Woken \<rparr>)"

inductive_cases mj_stepE: "mj_step args b s t"

text \<open>\<open>mj_run args n k s\<close>: \<open>n\<close> steps lead to \<open>s\<close>, with \<open>k\<close> spurious wake-ups among them.\<close>

abbreviation mj_run :: "cstring list \<Rightarrow> nat \<Rightarrow> nat \<Rightarrow> mj \<Rightarrow> bool" where
  "mj_run args n k s \<equiv> steps (mj_step args) (mj_start args) n k s"

section \<open>The invariant\<close>

definition cnt :: "('a \<Rightarrow> bool) \<Rightarrow> 'a list \<Rightarrow> nat" where
  "cnt P xs = sum_list (map (\<lambda>x. of_bool (P x)) xs)"

lemma cnt_upd: "i < length xs \<Longrightarrow> cnt P (xs[i := x]) + of_bool (P (xs ! i)) = cnt P xs + of_bool (P x)"
  unfolding cnt_def by (rule sum_list_upd)

lemma cnt_0_iff: "cnt P xs = 0 \<longleftrightarrow> (\<forall>i<length xs. \<not> P (xs ! i))"
  by (auto simp: cnt_def in_set_conv_nth all_set_conv_all_nth [symmetric]) (metis in_set_conv_nth)

lemma cnt_le: "cnt P xs \<le> length xs"
  by (induction xs) (auto simp: cnt_def)

lemma cnt_all: "cnt P xs = length xs \<Longrightarrow> i < length xs \<Longrightarrow> P (xs ! i)"
proof (induction xs arbitrary: i)
  case (Cons y ys)
  have "cnt P ys \<le> length ys" by (rule cnt_le)
  with Cons.prems(1) have "P y" "cnt P ys = length ys" by (auto simp: cnt_def of_bool_def split: if_splits)
  with Cons show ?case by (cases i) auto
qed simp

lemma cnt_replicate [simp]: "cnt P (replicate n x) = n * of_bool (P x)"
  by (simp add: cnt_def sum_list_replicate)

definition main_holds :: "mpc \<Rightarrow> bool" where
  "main_holds p \<longleftrightarrow> (case p of M_Check \<Rightarrow> True | M_Scan _ \<Rightarrow> True | M_Join _ \<Rightarrow> True | M_Unlock \<Rightarrow> True | _ \<Rightarrow> False)"

definition needs_live :: "mpc \<Rightarrow> bool" where
  "needs_live p \<longleftrightarrow> p = M_Lock \<or> p = M_Check \<or> p = M_Waiting \<or> p = M_Woken"

definition thread_holds :: "tpc \<Rightarrow> bool" where
  "thread_holds p \<longleftrightarrow> p = T_Inc \<or> p = T_Set \<or> p = T_Unlock"

definition pc_state :: "tpc \<Rightarrow> tstate \<Rightarrow> bool" where
  "pc_state p st \<longleftrightarrow>
     (case p of T_Unlock \<Rightarrow> st = TS_TERMINATED | T_Signal \<Rightarrow> st = TS_TERMINATED | T_Done \<Rightarrow> st \<noteq> TS_ALIVE | _ \<Rightarrow> st = TS_ALIVE)"

definition joined :: "thread_info \<Rightarrow> bool" where "joined t \<longleftrightarrow> t_state t = TS_JOINED"

definition unborn_from :: "nat \<Rightarrow> mpc \<Rightarrow> nat" where
  "unborn_from n p = (case p of M_Create idx \<Rightarrow> idx | _ \<Rightarrow> n)"

definition creating :: "mpc \<Rightarrow> bool" where "creating p \<longleftrightarrow> (\<exists>idx. p = M_Create idx)"

lemma creating_simps [simp]:
  "creating (M_Create idx)" "\<not> creating M_Test" "\<not> creating M_Lock" "\<not> creating M_Check" "\<not> creating M_Waiting"
  "\<not> creating M_Woken" "\<not> creating (M_Scan idx)" "\<not> creating (M_Join idx)" "\<not> creating M_Unlock" "\<not> creating M_Exit"
  by (simp_all add: creating_def)

definition threads_ok :: "mj \<Rightarrow> bool" where
  "threads_ok s \<longleftrightarrow> (\<forall>i<length (mj_thread s).
     pc_state (t_pc (mj_thread s ! i)) (t_state (mj_thread s ! i))
     \<and> (t_pc (mj_thread s ! i) = T_Unborn \<longleftrightarrow> unborn_from (length (mj_thread s)) (main_pc s) \<le> i)
     \<and> (mj_mutex s = Some (Thread i) \<longleftrightarrow> thread_holds (t_pc (mj_thread s ! i))))"

definition main_ok :: "mj \<Rightarrow> bool" where
  "main_ok s \<longleftrightarrow> (mj_mutex s = Some Main \<longleftrightarrow> main_holds (main_pc s))
     \<and> (\<forall>i. mj_mutex s = Some (Thread i) \<longrightarrow> i < length (mj_thread s))
     \<and> (needs_live (main_pc s) \<longrightarrow> numLive s > 0)
     \<and> (main_pc s = M_Waiting \<longrightarrow> (\<forall>i<length (mj_thread s). t_pc (mj_thread s ! i) = T_Done \<longrightarrow> joined (mj_thread s ! i)))
     \<and> (\<forall>idx. main_pc s = M_Create idx \<longrightarrow> idx \<le> length (mj_thread s))
     \<and> (\<forall>idx. main_pc s = M_Join idx \<longrightarrow> idx < length (mj_thread s) \<and> t_state (mj_thread s ! idx) = TS_TERMINATED)
     \<and> (main_pc s = M_Exit \<longrightarrow> numLive s \<le> 0)"

definition counts_ok :: "mj \<Rightarrow> bool" where
  "counts_ok s \<longleftrightarrow>
     numUnjoined s = int (cnt (\<lambda>t. t_state t = TS_TERMINATED) (mj_thread s)) + int (cnt (\<lambda>t. t_pc t = T_Set) (mj_thread s))
   \<and> (if creating (main_pc s) then cnt joined (mj_thread s) = 0
      else totThreads s = int (length (mj_thread s)) \<and> numLive s = int (length (mj_thread s)) - int (cnt joined (mj_thread s)))
   \<and> distinct (reaped s) \<and> (\<forall>i. i \<in> set (reaped s) \<longleftrightarrow> i < length (mj_thread s) \<and> joined (mj_thread s ! i))"

definition mj_inv :: "cstring list \<Rightarrow> mj \<Rightarrow> bool" where
  "mj_inv args s \<longleftrightarrow> length (mj_thread s) = length args
     \<and> (main_pc s = M_Failed \<or> threads_ok s \<and> main_ok s \<and> counts_ok s)"

lemmas pc_defs = main_holds_def needs_live_def thread_holds_def pc_state_def joined_def unborn_from_def

lemma mj_inv_start: "mj_inv args (mj_start args)"
  by (auto simp: mj_inv_def mj_start_def threads_ok_def main_ok_def counts_ok_def pc_defs cnt_0_iff)

lemma upd_thread_sel [simp]:
  "mj_thread (upd_thread i f s) = (mj_thread s)[i := f (mj_thread s ! i)]" "totThreads (upd_thread i f s) = totThreads s"
  "numLive (upd_thread i f s) = numLive s" "numUnjoined (upd_thread i f s) = numUnjoined s"
  "mj_mutex (upd_thread i f s) = mj_mutex s" "main_pc (upd_thread i f s) = main_pc s" "reaped (upd_thread i f s) = reaped s"
  by (simp_all add: upd_thread_def)


text \<open>A step of a thread: the pc moves on, the state changes only at \<open>T_Set\<close>.\<close>

definition tpc_next :: "tpc \<Rightarrow> tpc" where
  "tpc_next p = (case p of T_Sleep \<Rightarrow> T_Lock | T_Lock \<Rightarrow> T_Inc | T_Inc \<Rightarrow> T_Set | T_Set \<Rightarrow> T_Unlock | T_Unlock \<Rightarrow> T_Signal | T_Signal \<Rightarrow> T_Done | _ \<Rightarrow> p)"

lemma threadFunc_cases:
  assumes "threadFunc i s = Some t"
  shows "i < length (mj_thread s) \<and> main_pc s \<noteq> M_Exit \<and> main_pc s \<noteq> M_Failed
    \<and> t_pc (mj_thread s ! i) \<noteq> T_Unborn \<and> t_pc (mj_thread s ! i) \<noteq> T_Done
    \<and> (\<exists>th. mj_thread t = (mj_thread s)[i := th] \<and> t_pc th = tpc_next (t_pc (mj_thread s ! i))
         \<and> t_state th = (if t_pc (mj_thread s ! i) = T_Set then TS_TERMINATED else t_state (mj_thread s ! i)))
    \<and> (t_pc (mj_thread s ! i) = T_Lock \<longrightarrow> mj_mutex s = None)
    \<and> mj_mutex t = (if t_pc (mj_thread s ! i) = T_Lock then Some (Thread i) else if t_pc (mj_thread s ! i) = T_Unlock then None else mj_mutex s)
    \<and> numUnjoined t = numUnjoined s + of_bool (t_pc (mj_thread s ! i) = T_Inc)
    \<and> main_pc t = (if t_pc (mj_thread s ! i) = T_Signal \<and> main_pc s = M_Waiting then M_Woken else main_pc s)
    \<and> totThreads t = totThreads s \<and> numLive t = numLive s \<and> reaped t = reaped s"
  using assms by (cases "t_pc (mj_thread s ! i)") (auto simp: threadFunc_def tpc_next_def split: if_splits)

lemma threads_ok_upd:
  assumes "threads_ok s" and "mj_thread t = (mj_thread s)[i := th]" and "i < length (mj_thread s)"
    and "pc_state (t_pc th) (t_state th)" and "t_pc th = T_Unborn \<longleftrightarrow> unborn_from (length (mj_thread s)) (main_pc t) \<le> i"
    and "mj_mutex t = Some (Thread i) \<longleftrightarrow> thread_holds (t_pc th)"
    and "\<And>j. j \<noteq> i \<Longrightarrow> unborn_from (length (mj_thread s)) (main_pc t) \<le> j \<longleftrightarrow> unborn_from (length (mj_thread s)) (main_pc s) \<le> j"
    and "\<And>j. j \<noteq> i \<Longrightarrow> j < length (mj_thread s) \<Longrightarrow> mj_mutex t = Some (Thread j) \<longleftrightarrow> mj_mutex s = Some (Thread j)"
  shows "threads_ok t"
  unfolding threads_ok_def assms(2) length_list_update
proof (intro allI impI)
  fix j assume j: "j < length (mj_thread s)"
  show "pc_state (t_pc ((mj_thread s)[i := th] ! j)) (t_state ((mj_thread s)[i := th] ! j))
    \<and> (t_pc ((mj_thread s)[i := th] ! j) = T_Unborn \<longleftrightarrow> unborn_from (length (mj_thread s)) (main_pc t) \<le> j)
    \<and> (mj_mutex t = Some (Thread j) \<longleftrightarrow> thread_holds (t_pc ((mj_thread s)[i := th] ! j)))"
  proof (cases "j = i")
    case True
    with assms(3-6) show ?thesis by simp
  next
    case False
    with assms(1,7,8) j show ?thesis by (simp add: threads_ok_def)
  qed
qed

lemma thread_threads_ok:
  assumes st: "threadFunc i s = Some t" and "threads_ok s"
  shows "threads_ok t"
proof -
  note c = threadFunc_cases [OF st]
  then obtain th where th: "mj_thread t = (mj_thread s)[i := th]" "t_pc th = tpc_next (t_pc (mj_thread s ! i))"
    "t_state th = (if t_pc (mj_thread s ! i) = T_Set then TS_TERMINATED else t_state (mj_thread s ! i))" by blast
  have ub: "unborn_from n (main_pc t) = unborn_from n (main_pc s)" for n using c by (auto simp: unborn_from_def)
  have old: "pc_state (t_pc (mj_thread s ! j)) (t_state (mj_thread s ! j))"
    "t_pc (mj_thread s ! j) = T_Unborn \<longleftrightarrow> unborn_from (length (mj_thread s)) (main_pc s) \<le> j"
    "mj_mutex s = Some (Thread j) \<longleftrightarrow> thread_holds (t_pc (mj_thread s ! j))" if "j < length (mj_thread s)" for j
    using assms(2) that by (auto simp: threads_ok_def)
  have i: "i < length (mj_thread s)" using c by simp
  have new: "pc_state (t_pc th) (t_state th)" "t_pc th \<noteq> T_Unborn" "mj_mutex t = Some (Thread i) \<longleftrightarrow> thread_holds (t_pc th)"
    using old(1,3) [OF i] c th(2,3) by (cases "t_pc (mj_thread s ! i)"; simp add: tpc_next_def pc_state_def thread_holds_def)+
  have other: "mj_mutex t = Some (Thread j) \<longleftrightarrow> mj_mutex s = Some (Thread j)" if "j \<noteq> i" "j < length (mj_thread s)" for j
    using c that old(3) [OF i] by (auto simp: thread_holds_def)
  have born: "\<not> unborn_from (length (mj_thread s)) (main_pc s) \<le> i" using old(2) [OF i] c by simp
  show ?thesis
    by (rule threads_ok_upd [OF assms(2) th(1) i]) (use new born other in \<open>simp_all add: ub\<close>)
qed

lemma thread_main_ok:
  assumes st: "threadFunc i s = Some t" and "threads_ok s" and "main_ok s"
  shows "main_ok t"
proof -
  note c = threadFunc_cases [OF st]
  then obtain th where th: "mj_thread t = (mj_thread s)[i := th]" "t_pc th = tpc_next (t_pc (mj_thread s ! i))"
    "t_state th = (if t_pc (mj_thread s ! i) = T_Set then TS_TERMINATED else t_state (mj_thread s ! i))" by blast
  have i: "i < length (mj_thread s)" using c by simp
  have hold: "mj_mutex s = Some (Thread i) \<longleftrightarrow> thread_holds (t_pc (mj_thread s ! i))"
    "pc_state (t_pc (mj_thread s ! i)) (t_state (mj_thread s ! i))"
    using assms(2) i by (auto simp: threads_ok_def)
  have m: "mj_mutex t = Some Main \<longleftrightarrow> main_holds (main_pc t)"
    using assms(3) c hold by (auto simp: main_ok_def main_holds_def thread_holds_def)
  have w: "main_pc t = M_Waiting \<Longrightarrow> t_pc th = T_Done \<Longrightarrow> joined th"
    using c th(2) by (cases "t_pc (mj_thread s ! i)") (auto simp: tpc_next_def split: if_splits)
  have j: "t_state th = TS_TERMINATED" if "t_state (mj_thread s ! i) = TS_TERMINATED"
    using th(3) that by simp
  show ?thesis
    using assms(3) m w j c i unfolding main_ok_def
    by (auto simp: th(1) nth_list_update needs_live_def split: if_splits)
qed

lemma thread_counts_ok:
  assumes st: "threadFunc i s = Some t" and "threads_ok s" and "counts_ok s"
  shows "counts_ok t"
proof -
  note c = threadFunc_cases [OF st]
  then obtain th where th: "mj_thread t = (mj_thread s)[i := th]" "t_pc th = tpc_next (t_pc (mj_thread s ! i))"
    "t_state th = (if t_pc (mj_thread s ! i) = T_Set then TS_TERMINATED else t_state (mj_thread s ! i))" by blast
  have i: "i < length (mj_thread s)" using c by simp
  have ps: "pc_state (t_pc (mj_thread s ! i)) (t_state (mj_thread s ! i))" using assms(2) i by (auto simp: threads_ok_def)
  have jj: "joined th \<longleftrightarrow> joined (mj_thread s ! i)"
    using ps th(3) by (auto simp: joined_def pc_state_def)
  have "cnt joined (mj_thread t) = cnt joined (mj_thread s)"
    using cnt_upd [OF i, of joined th] jj th(1) by simp
  moreover have "i' \<in> set (reaped t) \<longleftrightarrow> i' < length (mj_thread t) \<and> joined (mj_thread t ! i')" for i'
    using assms(3) c jj i by (auto simp: counts_ok_def th(1) nth_list_update)
  moreover have "int (cnt (\<lambda>t. t_state t = TS_TERMINATED) (mj_thread t)) + int (cnt (\<lambda>t. t_pc t = T_Set) (mj_thread t))
     = int (cnt (\<lambda>t. t_state t = TS_TERMINATED) (mj_thread s)) + int (cnt (\<lambda>t. t_pc t = T_Set) (mj_thread s))
       + of_bool (t_pc (mj_thread s ! i) = T_Inc)"
    using cnt_upd [OF i, of "\<lambda>t. t_state t = TS_TERMINATED" th] cnt_upd [OF i, of "\<lambda>t. t_pc t = T_Set" th] ps th(2,3)
    by (cases "t_pc (mj_thread s ! i)") (auto simp: th(1) tpc_next_def pc_state_def)
  ultimately show ?thesis using assms(3) c by (auto simp: counts_ok_def th(1) split: if_splits)
qed


text \<open>Steps of the main thread.\<close>

lemma join_main_mutex:
  assumes "join_main args s = Some t" and "mj_mutex s = Some Main \<longleftrightarrow> main_holds (main_pc s)" and "main_pc t \<noteq> M_Failed"
  shows "(mj_mutex t = Some Main \<longleftrightarrow> main_holds (main_pc t)) \<and> (\<forall>i. mj_mutex t = Some (Thread i) \<longleftrightarrow> mj_mutex s = Some (Thread i))"
  using assms by (cases "main_pc s") (auto simp: join_main_def main_holds_def split: if_splits sum.splits)

lemma join_main_quiet:
  assumes "join_main args s = Some t" and "\<And>idx. main_pc s \<noteq> M_Join idx" and "\<And>idx. main_pc s = M_Create idx \<Longrightarrow> idx = length args"
  shows "mj_thread t = mj_thread s \<and> numUnjoined t = numUnjoined s \<and> reaped t = reaped s
    \<and> unborn_from (length args) (main_pc t) = unborn_from (length args) (main_pc s)"
  using assms by (cases "main_pc s") (auto simp: join_main_def unborn_from_def split: if_splits)

lemma join_main_create:
  assumes "join_main args s = Some t" and "main_pc s = M_Create idx" and "idx < length args" and "main_pc t \<noteq> M_Failed"
  obtains v where "t = upd_thread idx (\<lambda>_. \<lparr> t_state = TS_ALIVE, t_sleepTime = v, t_pc = T_Sleep \<rparr>) (s\<lparr> main_pc := M_Create (idx + 1) \<rparr>)"
  using assms by (auto simp: join_main_def split: sum.splits)

lemma join_main_join:
  assumes "join_main args s = Some t" and "main_pc s = M_Join idx"
  shows "t_pc (mj_thread s ! idx) = T_Done \<and> t = upd_thread idx (t_state_update (\<lambda>_. TS_JOINED))
    (s\<lparr> numLive := numLive s - 1, numUnjoined := numUnjoined s - 1, reaped := reaped s @ [idx], main_pc := M_Scan (idx + 1) \<rparr>)"
  using assms by (auto simp: join_main_def split: if_splits)

lemma join_main_threads_ok:
  assumes st: "join_main args s = Some t" and ok: "threads_ok s" "main_ok s" and n: "length (mj_thread s) = length args"
    and nf: "main_pc t \<noteq> M_Failed"
  shows "threads_ok t"
proof -
  have "mj_mutex s = Some Main \<longleftrightarrow> main_holds (main_pc s)" using ok(2) by (simp add: main_ok_def)
  from join_main_mutex [OF st this nf] have mtx: "mj_mutex t = Some (Thread i) \<longleftrightarrow> mj_mutex s = Some (Thread i)" for i by simp
  consider (create) idx where "main_pc s = M_Create idx" "idx < length args" | (join) idx where "main_pc s = M_Join idx"
    | (quiet) "\<And>idx. main_pc s \<noteq> M_Join idx" "\<And>idx. main_pc s = M_Create idx \<Longrightarrow> idx = length args"
    using ok(2) n unfolding main_ok_def by (metis le_neq_implies_less)
  then show ?thesis
  proof cases
    case (create idx)
    from join_main_create [OF st create nf] obtain v
      where t: "t = upd_thread idx (\<lambda>_. \<lparr> t_state = TS_ALIVE, t_sleepTime = v, t_pc = T_Sleep \<rparr>) (s\<lparr> main_pc := M_Create (idx + 1) \<rparr>)" .
    have "mj_mutex s \<noteq> Some (Thread idx)" using ok(1) n create by (auto simp: threads_ok_def pc_defs)
    then show ?thesis
      using create n t by (intro threads_ok_upd [OF ok(1), of t idx]) (auto simp: pc_defs)
  next
    case (join idx)
    have i: "idx < length (mj_thread s)" using ok(2) join by (simp add: main_ok_def)
    have "mj_mutex s \<noteq> Some (Thread idx)" "t_pc (mj_thread s ! idx) = T_Done" using join_main_join [OF st join] i ok(1)
      by (auto simp: threads_ok_def thread_holds_def)
    then show ?thesis
      using join_main_join [OF st join] i join by (intro threads_ok_upd [OF ok(1), of t idx]) (auto simp: pc_defs)
  next
    case quiet
    from join_main_quiet [OF st quiet] ok(1) mtx n show ?thesis by (simp add: threads_ok_def)
  qed
qed

lemma check_waits:
  assumes "threads_ok s" and "counts_ok s" and "numUnjoined s = 0" and "i < length (mj_thread s)" and "t_pc (mj_thread s ! i) = T_Done"
  shows "joined (mj_thread s ! i)"
proof -
  have "cnt (\<lambda>t. t_state t = TS_TERMINATED) (mj_thread s) = 0" using assms(2,3) by (simp add: counts_ok_def)
  then have "t_state (mj_thread s ! i) \<noteq> TS_TERMINATED" using assms(4) by (simp add: cnt_0_iff)
  moreover have "t_state (mj_thread s ! i) \<noteq> TS_ALIVE" using assms(1,4,5) by (auto simp: threads_ok_def pc_state_def)
  ultimately show ?thesis by (cases "t_state (mj_thread s ! i)") (simp_all add: joined_def)
qed

lemma join_main_main_ok:
  assumes st: "join_main args s = Some t" and ok: "threads_ok s" "main_ok s" "counts_ok s" and n: "length (mj_thread s) = length args"
    and nf: "main_pc t \<noteq> M_Failed"
  shows "main_ok t"
proof -
  have m: "mj_mutex s = Some Main \<longleftrightarrow> main_holds (main_pc s)" "\<And>i. mj_mutex s = Some (Thread i) \<Longrightarrow> i < length (mj_thread s)"
    "needs_live (main_pc s) \<Longrightarrow> numLive s > 0"
    using ok(2) by (simp_all add: main_ok_def)
  have tot: "\<not> creating (main_pc s) \<Longrightarrow> totThreads s = int (length (mj_thread s))" using ok(3) by (simp add: counts_ok_def)
  have len: "length (mj_thread t) = length (mj_thread s)"
    using st by (cases "main_pc s") (auto simp: join_main_def split: if_splits sum.splits)
  have 1: "needs_live (main_pc t) \<longrightarrow> numLive t > 0"
    using st m(3) by (cases "main_pc s") (auto simp: join_main_def needs_live_def split: if_splits sum.splits)
  have 2: "main_pc t = M_Waiting \<Longrightarrow> main_pc s = M_Check \<and> numUnjoined s = 0 \<and> mj_thread t = mj_thread s"
    using st by (cases "main_pc s") (auto simp: join_main_def split: if_splits sum.splits)
  have 3: "main_pc t = M_Create idx \<Longrightarrow> idx \<le> length (mj_thread s)" for idx
    using st n by (cases "main_pc s") (auto simp: join_main_def split: if_splits sum.splits)
  have 4: "main_pc t = M_Join idx \<Longrightarrow> idx < length (mj_thread s) \<and> t_state (mj_thread s ! idx) = TS_TERMINATED \<and> mj_thread t = mj_thread s" for idx
    using st tot by (cases "main_pc s") (auto simp: join_main_def split: if_splits sum.splits)
  have 5: "main_pc t = M_Exit \<Longrightarrow> numLive t \<le> 0"
    using st by (cases "main_pc s") (auto simp: join_main_def split: if_splits sum.splits)
  note mtx = join_main_mutex [OF st m(1) nf]
  show ?thesis unfolding main_ok_def len
  proof (intro conjI allI impI)
    show "mj_mutex t = Some Main \<longleftrightarrow> main_holds (main_pc t)" using mtx by blast
    show "i < length (mj_thread s)" if "mj_mutex t = Some (Thread i)" for i using mtx m(2) that by blast
    show "joined (mj_thread t ! i)" if "main_pc t = M_Waiting" "i < length (mj_thread s)" "t_pc (mj_thread t ! i) = T_Done" for i
      using 2 [OF that(1)] check_waits [OF ok(1,3)] that(2,3) by simp
    show "t_state (mj_thread t ! idx) = TS_TERMINATED" if "main_pc t = M_Join idx" for idx using 4 [OF that] by simp
    show "numLive t > 0" if "needs_live (main_pc t)" using 1 that by simp
    show "idx \<le> length (mj_thread s)" if "main_pc t = M_Create idx" for idx by (rule 3 [OF that])
    show "idx < length (mj_thread s)" if "main_pc t = M_Join idx" for idx using 4 [OF that] by simp
    show "numLive t \<le> 0" if "main_pc t = M_Exit" by (rule 5 [OF that])
  qed
qed


lemma counts_okD:
  assumes "counts_ok s"
  shows "numUnjoined s = int (cnt (\<lambda>t. t_state t = TS_TERMINATED) (mj_thread s)) + int (cnt (\<lambda>t. t_pc t = T_Set) (mj_thread s))"
    and "creating (main_pc s) \<Longrightarrow> cnt joined (mj_thread s) = 0"
    and "\<not> creating (main_pc s) \<Longrightarrow> totThreads s = int (length (mj_thread s)) \<and> numLive s = int (length (mj_thread s)) - int (cnt joined (mj_thread s))"
    and "distinct (reaped s)" and "i \<in> set (reaped s) \<longleftrightarrow> i < length (mj_thread s) \<and> joined (mj_thread s ! i)"
  using assms unfolding counts_ok_def by (simp_all only: if_True if_False)

lemma counts_ok_quiet:
  assumes "counts_ok s" and "mj_thread t = mj_thread s" and "numUnjoined t = numUnjoined s" and "reaped t = reaped s"
    and "totThreads t = int (length (mj_thread s)) \<and> numLive t = int (length (mj_thread s)) - int (cnt joined (mj_thread s))"
    and "\<not> creating (main_pc t)"
  shows "counts_ok t"
  using assms unfolding counts_ok_def by (simp only: if_False simp_thms)

lemma join_main_quiet_counts:
  assumes "join_main args s = Some t" and "counts_ok s" and "length (mj_thread s) = length args"
    and "\<And>idx. main_pc s \<noteq> M_Join idx" and "\<And>idx. main_pc s = M_Create idx \<Longrightarrow> idx = length args"
  shows "totThreads t = int (length (mj_thread s)) \<and> numLive t = int (length (mj_thread s)) - int (cnt joined (mj_thread s))
    \<and> \<not> creating (main_pc t)"
  using assms(1,3-) counts_okD(2,3) [OF assms(2)] by (cases "main_pc s") (auto simp: join_main_def split: if_splits)

lemma join_main_counts_ok:
  assumes st: "join_main args s = Some t" and ok: "threads_ok s" "main_ok s" "counts_ok s" and n: "length (mj_thread s) = length args"
    and nf: "main_pc t \<noteq> M_Failed"
  shows "counts_ok t"
proof -
  note c = counts_okD [OF ok(3)]
  consider (create) idx where "main_pc s = M_Create idx" "idx < length args" | (join) idx where "main_pc s = M_Join idx"
    | (quiet) "\<And>idx. main_pc s \<noteq> M_Join idx" "\<And>idx. main_pc s = M_Create idx \<Longrightarrow> idx = length args"
    using ok(2) n unfolding main_ok_def by (metis le_neq_implies_less)
  then show ?thesis
  proof cases
    case (create idx)
    from join_main_create [OF st create nf] obtain v
      where t: "t = upd_thread idx (\<lambda>_. \<lparr> t_state = TS_ALIVE, t_sleepTime = v, t_pc = T_Sleep \<rparr>) (s\<lparr> main_pc := M_Create (idx + 1) \<rparr>)" .
    let ?th = "\<lparr> t_state = TS_ALIVE, t_sleepTime = v, t_pc = T_Sleep \<rparr>"
    have i: "idx < length (mj_thread s)" using create n by simp
    have old: "t_pc (mj_thread s ! idx) = T_Unborn" "t_state (mj_thread s ! idx) = TS_ALIVE"
      using ok(1) i create by (auto simp: threads_ok_def pc_defs)
    have "cnt (\<lambda>t. t_state t = TS_TERMINATED) (mj_thread t) = cnt (\<lambda>t. t_state t = TS_TERMINATED) (mj_thread s)"
      "cnt (\<lambda>t. t_pc t = T_Set) (mj_thread t) = cnt (\<lambda>t. t_pc t = T_Set) (mj_thread s)" "cnt joined (mj_thread t) = cnt joined (mj_thread s)"
      using cnt_upd [OF i, of "\<lambda>t. t_state t = TS_TERMINATED" ?th] cnt_upd [OF i, of "\<lambda>t. t_pc t = T_Set" ?th] cnt_upd [OF i, of joined ?th] old t
      by (simp_all add: joined_def)
    moreover have "j \<in> set (reaped t) \<longleftrightarrow> j < length (mj_thread t) \<and> joined (mj_thread t ! j)" for j
      using c(5) [of j] old(2) t by (cases "j = idx") (auto simp: joined_def)
    ultimately show ?thesis using c(1,2,4) t create unfolding counts_ok_def by simp
  next
    case (join idx)
    have i: "idx < length (mj_thread s)" "t_state (mj_thread s ! idx) = TS_TERMINATED" using ok(2) join by (simp_all add: main_ok_def)
    note t = join_main_join [OF st join]
    let ?th = "(mj_thread s ! idx)\<lparr> t_state := TS_JOINED \<rparr>"
    have "cnt joined (mj_thread t) = cnt joined (mj_thread s) + 1"
      "cnt (\<lambda>t. t_state t = TS_TERMINATED) (mj_thread t) + 1 = cnt (\<lambda>t. t_state t = TS_TERMINATED) (mj_thread s)"
      "cnt (\<lambda>t. t_pc t = T_Set) (mj_thread t) = cnt (\<lambda>t. t_pc t = T_Set) (mj_thread s)"
      using cnt_upd [OF i(1), of joined ?th] cnt_upd [OF i(1), of "\<lambda>t. t_state t = TS_TERMINATED" ?th]
        cnt_upd [OF i(1), of "\<lambda>t. t_pc t = T_Set" ?th] i(2) t by (simp_all add: joined_def)
    moreover have "idx \<notin> set (reaped s)" using c(5) [of idx] i by (simp add: joined_def)
    moreover have "j \<in> set (reaped t) \<longleftrightarrow> j < length (mj_thread t) \<and> joined (mj_thread t ! j)" for j
      using c(5) [of j] i t by (cases "j = idx") (auto simp: joined_def)
    ultimately show ?thesis using c(1,3,4) t join unfolding counts_ok_def by simp
  next
    case quiet
    from join_main_quiet [OF st quiet] join_main_quiet_counts [OF st ok(3) n quiet] show ?thesis
      by (intro counts_ok_quiet [OF ok(3)]) auto
  qed
qed

lemma mj_step_inv:
  assumes "mj_step args b s t" and inv: "mj_inv args s"
  shows "mj_inv args t"
  using assms(1)
proof cases
  case main
  have "main_pc s \<noteq> M_Failed" using main by (auto simp: join_main_def)
  then have ok: "threads_ok s" "main_ok s" "counts_ok s" "length (mj_thread s) = length args" using inv by (auto simp: mj_inv_def)
  have "length (mj_thread t) = length (mj_thread s)"
    using main by (cases "main_pc s") (auto simp: join_main_def split: if_splits sum.splits)
  with join_main_threads_ok [OF main(2) ok(1,2,4)] join_main_main_ok [OF main(2) ok] join_main_counts_ok [OF main(2) ok] ok(4)
  show ?thesis unfolding mj_inv_def by auto
next
  case (thread i)
  note c = threadFunc_cases [OF thread(2)]
  then have ok: "threads_ok s" "main_ok s" "counts_ok s" "length (mj_thread s) = length args" using inv by (auto simp: mj_inv_def)
  have "length (mj_thread t) = length (mj_thread s)" using c by auto
  with thread_threads_ok [OF thread(2) ok(1)] thread_main_ok [OF thread(2) ok(1,2)] thread_counts_ok [OF thread(2) ok(1,3)] ok(4)
  show ?thesis unfolding mj_inv_def by auto
next
  case spurious
  then have ok: "threads_ok s" "main_ok s" "counts_ok s" "length (mj_thread s) = length args" using inv by (auto simp: mj_inv_def)
  have "threads_ok t" using ok(1) spurious by (simp add: threads_ok_def unborn_from_def)
  moreover have "main_ok t" using ok(2) spurious by (simp add: main_ok_def main_holds_def needs_live_def)
  moreover have "counts_ok t" using spurious counts_okD(3) [OF ok(3)] by (intro counts_ok_quiet [OF ok(3)]) auto
  ultimately show ?thesis using ok(4) spurious by (simp add: mj_inv_def)
qed

section \<open>No deadlock\<close>

lemma cnt_full: "(\<And>i. i < length xs \<Longrightarrow> P (xs ! i)) \<Longrightarrow> cnt P xs = length xs"
proof (induction xs)
  case (Cons x xs)
  have "P x" using Cons.prems [of 0] by simp
  moreover have "cnt P xs = length xs" using Cons.prems [of "Suc _"] by (intro Cons.IH) auto
  ultimately show ?case by (simp add: cnt_def)
qed (simp add: cnt_def)

lemma holder_can_step:
  assumes "mj_inv args s" and "main_pc s \<noteq> M_Exit" and "main_pc s \<noteq> M_Failed" and "mj_mutex s = Some (Thread i)"
  shows "\<exists>t. threadFunc i s = Some t"
proof -
  have "i < length (mj_thread s)" "thread_holds (t_pc (mj_thread s ! i))"
    using assms by (auto simp: mj_inv_def main_ok_def threads_ok_def)
  with assms(2,3) show ?thesis by (auto simp: threadFunc_def thread_holds_def)
qed

lemma waiting_can_step:
  assumes "mj_inv args s" and "main_pc s = M_Waiting" and "mj_mutex s = None"
  shows "\<exists>i t. threadFunc i s = Some t"
proof -
  have ok: "threads_ok s" "main_ok s" "counts_ok s" using assms by (auto simp: mj_inv_def)
  have "numLive s > 0" using ok(2) assms(2) by (simp add: main_ok_def needs_live_def)
  then have "cnt joined (mj_thread s) \<noteq> length (mj_thread s)" using counts_okD(3) [OF ok(3)] assms(2) by auto
  then obtain i where i: "i < length (mj_thread s)" "\<not> joined (mj_thread s ! i)" using cnt_full by blast
  then have "t_pc (mj_thread s ! i) \<noteq> T_Done" using ok(2) assms(2) by (auto simp: main_ok_def)
  moreover have "t_pc (mj_thread s ! i) \<noteq> T_Unborn" using ok(1) assms(2) i by (auto simp: threads_ok_def unborn_from_def)
  ultimately have "\<exists>t. threadFunc i s = Some t"
    using i assms(2,3) by (cases "t_pc (mj_thread s ! i)") (simp_all add: threadFunc_def)
  then show ?thesis by blast
qed

lemma joining_can_step:
  assumes "mj_inv args s" and "main_pc s = M_Join idx"
  shows "\<exists>t. mj_step args False s t"
proof -
  have ok: "threads_ok s" "main_ok s" using assms by (auto simp: mj_inv_def)
  have i: "idx < length (mj_thread s)" "t_state (mj_thread s ! idx) = TS_TERMINATED" "mj_mutex s = Some Main"
    using ok(2) assms(2) by (auto simp: main_ok_def main_holds_def)
  have "pc_state (t_pc (mj_thread s ! idx)) TS_TERMINATED" "\<not> thread_holds (t_pc (mj_thread s ! idx))"
    using ok(1) i by (auto simp: threads_ok_def)
  then consider "t_pc (mj_thread s ! idx) = T_Signal" | "t_pc (mj_thread s ! idx) = T_Done"
    by (cases "t_pc (mj_thread s ! idx)") (auto simp: pc_state_def thread_holds_def)
  then show ?thesis
  proof cases
    case 1
    then have "\<exists>t. threadFunc idx s = Some t" using i(1) assms(2) by (simp add: threadFunc_def)
    then show ?thesis by (blast intro: mj_step.thread)
  next
    case 2
    then have "\<exists>t. join_main args s = Some t" using assms(2) by (simp add: join_main_def)
    then show ?thesis by (blast intro: mj_step.main)
  qed
qed

lemma join_not_stuck:
  assumes inv: "mj_inv args s" and "main_pc s \<noteq> M_Exit" and "main_pc s \<noteq> M_Failed"
  shows "\<exists>t. mj_step args False s t"
proof (cases "mj_mutex s")
  case (Some h)
  show ?thesis
  proof (cases h)
    case (Thread i)
    with holder_can_step [OF assms] Some show ?thesis by (blast intro: mj_step.thread)
  next
    case Main
    then have "main_holds (main_pc s)" using inv assms(3) Some by (simp add: mj_inv_def main_ok_def)
    then consider idx where "main_pc s = M_Join idx" | "\<exists>t. join_main args s = Some t"
      by (cases "main_pc s") (auto simp: main_holds_def join_main_def)
    then show ?thesis using joining_can_step [OF inv] by cases (blast intro: mj_step.main)+
  qed
next
  case None
  consider idx where "main_pc s = M_Join idx" | "main_pc s = M_Waiting" | "\<exists>t. join_main args s = Some t"
    using assms(2,3) None by (cases "main_pc s") (auto simp: join_main_def split: sum.split)
  then show ?thesis
    using joining_can_step [OF inv] waiting_can_step [OF inv _ None]
    by cases (blast intro: mj_step.main mj_step.thread)+
qed

section \<open>Termination\<close>

definition tpc_weight :: "tpc \<Rightarrow> nat" where
  "tpc_weight p = (case p of T_Unborn \<Rightarrow> 7 | T_Sleep \<Rightarrow> 6 | T_Lock \<Rightarrow> 5 | T_Inc \<Rightarrow> 4 | T_Set \<Rightarrow> 3 | T_Unlock \<Rightarrow> 2 | T_Signal \<Rightarrow> 1 | T_Done \<Rightarrow> 0)"

definition pending :: "mj \<Rightarrow> nat \<Rightarrow> bool" where
  "pending s idx \<longleftrightarrow> (\<exists>j\<ge>idx. j < length (mj_thread s) \<and> t_state (mj_thread s ! j) = TS_TERMINATED)"

text \<open>A pass over the array that has joined no thread yet still has one ahead of it; a pass that has
  none ahead has paid for the next pass.\<close>

definition main_weight :: "mj \<Rightarrow> nat" where
  "main_weight s =
     (let n = length (mj_thread s) in
      case main_pc s of
        M_Create idx \<Rightarrow> 2 * n + 4 + (n - idx) + 1 | M_Test \<Rightarrow> 2 * n + 4 | M_Lock \<Rightarrow> 2 * n + 3 | M_Woken \<Rightarrow> 2 * n + 3
      | M_Check \<Rightarrow> 2 * n + 2 | M_Waiting \<Rightarrow> 0
      | M_Scan idx \<Rightarrow> 2 * (n - idx) + 1 + (if pending s idx then 0 else 2 * n + 5)
      | M_Join idx \<Rightarrow> 2 * (n - idx) | M_Unlock \<Rightarrow> 2 * n + 5 | M_Exit \<Rightarrow> 0 | M_Failed \<Rightarrow> 0)"

definition thread_weight :: "mj \<Rightarrow> nat" where
  "thread_weight s = sum_list (map (\<lambda>t. tpc_weight (t_pc t)) (mj_thread s))"

definition join_work :: "mj \<Rightarrow> nat" where
  "join_work s = (2 * length (mj_thread s) + 4) * thread_weight s
     + (2 * length (mj_thread s) + 5) * (length (mj_thread s) - cnt joined (mj_thread s)) + main_weight s"

lemma thread_decreases:
  assumes st: "threadFunc i s = Some t" and "threads_ok s"
  shows "join_work t < join_work s"
proof -
  note c = threadFunc_cases [OF st]
  then obtain th where th: "mj_thread t = (mj_thread s)[i := th]" "t_pc th = tpc_next (t_pc (mj_thread s ! i))"
    "t_state th = (if t_pc (mj_thread s ! i) = T_Set then TS_TERMINATED else t_state (mj_thread s ! i))" by blast
  have i: "i < length (mj_thread s)" using c by simp
  have ps: "pc_state (t_pc (mj_thread s ! i)) (t_state (mj_thread s ! i))" using assms(2) i by (auto simp: threads_ok_def)
  have jj: "joined th \<longleftrightarrow> joined (mj_thread s ! i)" using ps th(3) by (auto simp: joined_def pc_state_def)
  have "tpc_weight (t_pc th) + 1 = tpc_weight (t_pc (mj_thread s ! i))"
    using c th(2) by (cases "t_pc (mj_thread s ! i)") (auto simp: tpc_next_def tpc_weight_def)
  then have w: "thread_weight t + 1 = thread_weight s"
    using sum_list_upd [OF i, of "\<lambda>t. tpc_weight (t_pc t)" th] by (simp add: thread_weight_def th(1))
  have j: "cnt joined (mj_thread t) = cnt joined (mj_thread s)" using cnt_upd [OF i, of joined th] jj th(1) by simp
  have "pending s idx \<Longrightarrow> pending t idx" for idx
    using th i unfolding pending_def by (metis length_list_update nth_list_update)
  then have "main_weight t \<le> main_weight s + (2 * length (mj_thread s) + 3)"
    using c by (cases "main_pc s") (auto simp: main_weight_def Let_def th(1))
  moreover have "(2 * length (mj_thread s) + 4) * thread_weight s = (2 * length (mj_thread s) + 4) * thread_weight t + (2 * length (mj_thread s) + 4)"
    unfolding w [symmetric] by (simp only: distrib_left mult_1_right)
  ultimately show ?thesis unfolding join_work_def j by (simp add: th(1))
qed

lemma unjoined_pending:
  assumes "threads_ok s" and "main_ok s" and "counts_ok s" and "main_pc s = M_Check" and "numUnjoined s \<noteq> 0"
  shows "pending s 0"
proof -
  have "mj_mutex s = Some Main" using assms(2,4) by (simp add: main_ok_def main_holds_def)
  then have "t_pc (mj_thread s ! i) \<noteq> T_Set" if "i < length (mj_thread s)" for i
    using assms(1) that by (auto simp: threads_ok_def thread_holds_def)
  then have "cnt (\<lambda>t. t_pc t = T_Set) (mj_thread s) = 0" by (simp add: cnt_0_iff)
  then have "cnt (\<lambda>t. t_state t = TS_TERMINATED) (mj_thread s) \<noteq> 0" using counts_okD(1) [OF assms(3)] assms(5) by simp
  then show ?thesis by (auto simp: cnt_0_iff pending_def)
qed

lemma quiet_decreases:
  assumes st: "join_main args s = Some t" and ok: "threads_ok s" "main_ok s" "counts_ok s" and n: "length (mj_thread s) = length args"
    and quiet: "\<And>idx. main_pc s \<noteq> M_Join idx" "\<And>idx. main_pc s = M_Create idx \<Longrightarrow> idx = length args"
  shows "main_weight t < main_weight s"
proof -
  note q = join_main_quiet [OF st quiet]
  then have pt: "pending t = pending s" by (auto simp: pending_def fun_eq_iff)
  have tot: "\<not> creating (main_pc s) \<Longrightarrow> totThreads s = int (length (mj_thread s))" using counts_okD(3) [OF ok(3)] by simp
  show ?thesis
  proof (cases "main_pc s")
    case M_Check
    with st q pt unjoined_pending [OF ok M_Check] show ?thesis
      by (auto simp: join_main_def main_weight_def Let_def split: if_splits)
  next
    case (M_Scan idx)
    then have tot: "totThreads s = int (length (mj_thread s))" using tot by simp
    show ?thesis
    proof (cases "idx < length (mj_thread s)")
      case True
      show ?thesis
      proof (cases "t_state (mj_thread s ! idx) = TS_TERMINATED")
        case found: True
        then have "pending s idx" using True by (auto simp: pending_def)
        with st M_Scan True found tot q show ?thesis by (auto simp: join_main_def main_weight_def Let_def)
      next
        case False
        then have "pending s (Suc idx) \<longleftrightarrow> pending s idx" using not_less_eq_eq by (fastforce simp: pending_def le_eq_less_or_eq)
        with st M_Scan True False tot q pt show ?thesis by (auto simp: join_main_def main_weight_def Let_def)
      qed
    next
      case False
      then have "\<not> pending s idx" by (auto simp: pending_def)
      with st M_Scan False tot q show ?thesis by (auto simp: join_main_def main_weight_def Let_def)
    qed
  qed (use st q quiet n in \<open>auto simp: join_main_def main_weight_def Let_def split: if_splits\<close>)
qed

lemma main_decreases:
  assumes st: "join_main args s = Some t" and ok: "threads_ok s" "main_ok s" "counts_ok s" and n: "length (mj_thread s) = length args"
  shows "join_work t < join_work s"
proof -
  consider (create) idx where "main_pc s = M_Create idx" "idx < length args" | (join) idx where "main_pc s = M_Join idx"
    | (quiet) "\<And>idx. main_pc s \<noteq> M_Join idx" "\<And>idx. main_pc s = M_Create idx \<Longrightarrow> idx = length args"
    using ok(2) n unfolding main_ok_def by (metis le_neq_implies_less)
  then show ?thesis
  proof cases
    case (create idx)
    show ?thesis
    proof (cases "main_pc t = M_Failed")
      case True
      then have "t = s\<lparr> main_pc := M_Failed \<rparr>" using st create by (auto simp: join_main_def split: sum.splits)
      then show ?thesis using create by (simp add: join_work_def main_weight_def thread_weight_def Let_def)
    next
      case False
      from join_main_create [OF st create False] obtain v
        where t: "t = upd_thread idx (\<lambda>_. \<lparr> t_state = TS_ALIVE, t_sleepTime = v, t_pc = T_Sleep \<rparr>) (s\<lparr> main_pc := M_Create (idx + 1) \<rparr>)" .
      let ?th = "\<lparr> t_state = TS_ALIVE, t_sleepTime = v, t_pc = T_Sleep \<rparr>"
      have i: "idx < length (mj_thread s)" using create n by simp
      have old: "t_pc (mj_thread s ! idx) = T_Unborn" "t_state (mj_thread s ! idx) = TS_ALIVE"
        using ok(1) i create by (auto simp: threads_ok_def pc_defs)
      have w: "thread_weight t \<le> thread_weight s"
        using sum_list_upd [OF i, of "\<lambda>t. tpc_weight (t_pc t)" ?th] old t by (simp add: thread_weight_def tpc_weight_def)
      have j: "cnt joined (mj_thread t) = cnt joined (mj_thread s)" using cnt_upd [OF i, of joined ?th] old t by (simp add: joined_def)
      have "main_weight t < main_weight s" using create t i by (simp add: main_weight_def Let_def)
      moreover have len: "length (mj_thread t) = length (mj_thread s)" using t by simp
      ultimately show ?thesis unfolding join_work_def j len by (intro add_le_less_mono add_right_mono mult_le_mono2 w)
    qed
  next
    case (join idx)
    have i: "idx < length (mj_thread s)" "t_state (mj_thread s ! idx) = TS_TERMINATED" using ok(2) join by (simp_all add: main_ok_def)
    note t = join_main_join [OF st join]
    let ?th = "(mj_thread s ! idx)\<lparr> t_state := TS_JOINED \<rparr>"
    have w: "thread_weight t = thread_weight s"
      using sum_list_upd [OF i(1), of "\<lambda>t. tpc_weight (t_pc t)" ?th] t by (simp add: thread_weight_def)
    have j: "cnt joined (mj_thread t) = cnt joined (mj_thread s) + 1" using cnt_upd [OF i(1), of joined ?th] i(2) t by (simp add: joined_def)
    have len: "length (mj_thread t) = length (mj_thread s)" using t by simp
    have "cnt joined (mj_thread s) < length (mj_thread s)" using cnt_le [of joined "mj_thread t"] j len by simp
    then obtain d where "length (mj_thread s) - cnt joined (mj_thread s) = Suc d" by (metis Suc_diff_Suc)
    moreover from this have "length (mj_thread s) - (cnt joined (mj_thread s) + 1) = d" by simp
    moreover have "main_weight t < main_weight s + (2 * length (mj_thread s) + 5)"
      using t join i(1) len by (auto simp: main_weight_def Let_def)
    ultimately show ?thesis unfolding join_work_def len w j by simp
  next
    case quiet
    from join_main_quiet [OF st quiet] quiet_decreases [OF st ok n quiet] show ?thesis
      by (simp add: join_work_def thread_weight_def)
  qed
qed

lemma mj_step_work:
  assumes "mj_step args b s t" and inv: "mj_inv args s"
  shows "join_work t < join_work s + of_bool b * (2 * length args + 5)"
  using assms(1)
proof cases
  case main
  have "main_pc s \<noteq> M_Failed" using main by (auto simp: join_main_def)
  with inv main_decreases [OF main(2)] main(1) show ?thesis by (simp add: mj_inv_def)
next
  case (thread i)
  have "main_pc s \<noteq> M_Failed" using threadFunc_cases [OF thread(2)] by simp
  with inv thread_decreases [OF thread(2)] thread(1) show ?thesis by (simp add: mj_inv_def)
next
  case spurious
  with inv show ?thesis by (simp add: mj_inv_def join_work_def thread_weight_def main_weight_def Let_def)
qed

interpretation mj: bounded_system "mj_step args" "mj_inv args" join_work "2 * length args + 5"
  "\<lambda>s. main_pc s = M_Exit \<or> main_pc s = M_Failed" for args
  using mj_step_inv mj_step_work join_not_stuck by unfold_locales (fastforce simp: Suc_le_eq)+

lemmas mj_run_reached = mj.reached [OF mj_inv_start]

text \<open>
  C4. \<^verbatim>\<open>thread_multijoin\<close>: for any number of threads and any interleaving there is no deadlock, no
  signal is missed, and the program ends: a run of \<open>n\<close> steps with \<open>k\<close> spurious wake-ups has at most the
  number of steps given here, and a state without a further step is one in which \<^verbatim>\<open>main()\<close> refused an
  argument, or has exited after it joined every thread exactly once. A thread is only joined after
  it has finished.
\<close>

theorem multijoin_completes:
  assumes "mj_run args n k s"
  shows "n \<le> (2 * length args + 4) * (7 * length args) + (2 * length args + 5) * length args + 3 * length args + 5 + k * (2 * length args + 5)
    \<and> ((\<exists>t. mj_step args False s t) \<or> main_pc s = M_Failed
         \<or> main_pc s = M_Exit \<and> numLive s = 0 \<and> distinct (reaped s) \<and> set (reaped s) = {..<length args})
    \<and> (main_pc s \<noteq> M_Failed \<longrightarrow> (\<forall>i<length args. t_state (mj_thread s ! i) = TS_JOINED \<longrightarrow> t_pc (mj_thread s ! i) = T_Done))"
proof (intro conjI impI allI)
  have inv: "mj_inv args s" using mj_run_reached [OF assms] by simp
  have "join_work (mj_start args) = (2 * length args + 4) * (7 * length args) + (2 * length args + 5) * length args + 3 * length args + 5"
    by (simp add: join_work_def mj_start_def thread_weight_def main_weight_def tpc_weight_def joined_def sum_list_replicate)
  with mj.bounded [OF mj_inv_start assms] show "n \<le> (2 * length args + 4) * (7 * length args) + (2 * length args + 5) * length args + 3 * length args + 5
      + k * (2 * length args + 5)" by simp
  show "t_pc (mj_thread s ! i) = T_Done" if "main_pc s \<noteq> M_Failed" "i < length args" "t_state (mj_thread s ! i) = TS_JOINED" for i
  proof -
    have "pc_state (t_pc (mj_thread s ! i)) TS_JOINED" using inv that by (auto simp: mj_inv_def threads_ok_def)
    then show ?thesis by (cases "t_pc (mj_thread s ! i)") (simp_all add: pc_state_def)
  qed
  show "(\<exists>t. mj_step args False s t) \<or> main_pc s = M_Failed
     \<or> main_pc s = M_Exit \<and> numLive s = 0 \<and> distinct (reaped s) \<and> set (reaped s) = {..<length args}"
  proof (cases "main_pc s = M_Exit")
    case True
    then have ok: "main_ok s" "counts_ok s" "length (mj_thread s) = length args" using inv by (auto simp: mj_inv_def)
    have c: "numLive s = int (length args) - int (cnt joined (mj_thread s))" using counts_okD(3) [OF ok(2)] True ok(3) by simp
    moreover have "numLive s \<le> 0" using ok(1) True by (simp add: main_ok_def)
    ultimately have full: "cnt joined (mj_thread s) = length (mj_thread s)" using cnt_le [of joined "mj_thread s"] ok(3) by simp
    then have "set (reaped s) = {..<length args}" using counts_okD(5) [OF ok(2)] cnt_all [OF full] ok(3) by auto
    with True c full ok(3) counts_okD(4) [OF ok(2)] show ?thesis by simp
  next
    case False
    then show ?thesis using join_not_stuck [OF inv] by blast
  qed
qed

text \<open>A run with one thread, which terminates while the main thread waits.\<close>

definition mj_turn :: "cstring list \<Rightarrow> nat option \<Rightarrow> mj \<Rightarrow> mj option" where
  "mj_turn args b s = (case b of None \<Rightarrow> join_main args s | Some i \<Rightarrow> threadFunc i s)"

lemma mj_turn_step: "mj_turn args b s = Some t \<Longrightarrow> mj_step args False s t"
  by (cases b) (auto simp: mj_turn_def intro: mj_step.main mj_step.thread)

definition demo_schedule :: "nat option list" where
  "demo_schedule = replicate 5 None @ replicate 6 (Some 0) @ replicate 7 None"

definition demo_joined :: mj where
  "demo_joined = \<lparr> mj_thread = [\<lparr> t_state = TS_JOINED, t_sleepTime = 1, t_pc = T_Done \<rparr>], totThreads = 1, numLive = 0, numUnjoined = 0,
     mj_mutex = None, main_pc = M_Exit, reaped = [0] \<rparr>"

lemma demo_exec: "exec_schedule (mj_turn [''1'']) demo_schedule (mj_start [''1'']) = Some demo_joined"
  by code_simp

theorem multijoin_completes_witness:
  "mj_run [''1''] 18 0 demo_joined \<and> numLive demo_joined = 0 \<and> set (reaped demo_joined) = {..<length [''1'']}"
proof -
  have run: "mj_run [''1''] 18 0 demo_joined"
    using exec_steps [where f = "mj_turn [''1'']" and step = "mj_step [''1'']", OF mj_turn_step steps.none demo_exec] by (simp add: demo_schedule_def)
  have "\<not> mj_step [''1''] False demo_joined t" for t
    by (auto simp: demo_joined_def join_main_def threadFunc_def elim!: mj_stepE)
  with multijoin_completes [OF run] run show ?thesis by (auto simp: demo_joined_def)
qed

end
