(* ===== verification/Socket_Lib.thy ===== *)
theory Socket_Lib
  imports Dtree_State
begin

text \<open>
  Creating sockets: \<^verbatim>\<open>sockets/inet_sockets.c\<close>, \<^verbatim>\<open>sockets/unix_sockets.c\<close> and \<^verbatim>\<open>sockets/yunix_sockets.c\<close> (the
  same files are under \<^verbatim>\<open>lib/\<close>). The socket calls of the kernel and \<^verbatim>\<open>getaddrinfo()\<close> are arguments over
  an opaque state; the interface the callers rely on is that a call hands out one new descriptor or
  leaves the open descriptors as they were.
\<close>

section \<open>System calls\<close>

record addrinfo =
  ai_family :: int
  ai_socktype :: int
  ai_protocol :: int
  ai_addr :: cstring
  ai_addrlen :: nat

record 'w sock_os =
  so_getaddrinfo :: "cstring option \<Rightarrow> cstring \<Rightarrow> int \<Rightarrow> int \<Rightarrow> 'w \<Rightarrow> addrinfo list option \<times> 'w"
  so_socket :: "int \<Rightarrow> int \<Rightarrow> int \<Rightarrow> 'w \<Rightarrow> (errno + int) \<times> 'w"
  so_connect :: "int \<Rightarrow> cstring \<Rightarrow> nat \<Rightarrow> 'w \<Rightarrow> errno option \<times> 'w"
  so_bind :: "int \<Rightarrow> cstring \<Rightarrow> nat \<Rightarrow> 'w \<Rightarrow> errno option \<times> 'w"
  so_reuseaddr :: "int \<Rightarrow> 'w \<Rightarrow> errno option \<times> 'w"
  so_listen :: "int \<Rightarrow> int \<Rightarrow> 'w \<Rightarrow> errno option \<times> 'w"
  so_close :: "int \<Rightarrow> 'w \<Rightarrow> 'w"
  so_remove :: "cstring \<Rightarrow> 'w \<Rightarrow> errno option \<times> 'w"
  so_getnameinfo :: "cstring \<Rightarrow> nat \<Rightarrow> int \<Rightarrow> 'w \<Rightarrow> (cstring \<times> cstring) option"

definition SOCK_STREAM :: int where "SOCK_STREAM = 1"
definition PF_UNIX :: int where "PF_UNIX = 1"
definition AI_PASSIVE :: int where "AI_PASSIVE = 1"
definition AI_NUMERICSERV :: int where "AI_NUMERICSERV = 1024"
definition NI_NUMERICSERV :: int where "NI_NUMERICSERV = 2"

section \<open>inet\_sockets.c\<close>

text \<open>The result is a descriptor or -1. The loops give the descriptor with the rest of the list, whose
  head is the address in use.\<close>

fun connect_loop :: "'w sock_os \<Rightarrow> addrinfo list \<Rightarrow> 'w \<Rightarrow> (int \<times> addrinfo) option \<times> 'w" where
  "connect_loop os [] w = (None, w)"
| "connect_loop os (rp # rps) w =
     (case so_socket os (ai_family rp) (ai_socktype rp) (ai_protocol rp) w of
        (Inl e, w) \<Rightarrow> connect_loop os rps w
      | (Inr sfd, w) \<Rightarrow>
          (case so_connect os sfd (ai_addr rp) (ai_addrlen rp) w of
             (None, w) \<Rightarrow> (Some (sfd, rp), w)
           | (Some e, w) \<Rightarrow> connect_loop os rps (so_close os sfd w)))"

definition inetConnect :: "'w sock_os \<Rightarrow> cstring \<Rightarrow> cstring \<Rightarrow> int \<Rightarrow> 'w \<Rightarrow> int option \<times> 'w" where
  "inetConnect os host service type w =
     (case so_getaddrinfo os (Some host) service type 0 w of
        (None, w) \<Rightarrow> (None, w)
      | (Some result, w) \<Rightarrow>
          (case connect_loop os result w of (r, w) \<Rightarrow> (map_option fst r, w)))"

text \<open>\<open>None\<close> is the early return because \<^verbatim>\<open>setsockopt()\<close> failed.\<close>

fun bind_loop :: "'w sock_os \<Rightarrow> bool \<Rightarrow> addrinfo list \<Rightarrow> 'w \<Rightarrow> (int \<times> addrinfo) option option \<times> 'w" where
  "bind_loop os doListen [] w = (Some None, w)"
| "bind_loop os doListen (rp # rps) w =
     (case so_socket os (ai_family rp) (ai_socktype rp) (ai_protocol rp) w of
        (Inl e, w) \<Rightarrow> bind_loop os doListen rps w
      | (Inr sfd, w) \<Rightarrow>
          (case (if doListen then so_reuseaddr os sfd w else (None, w)) of
             (Some e, w) \<Rightarrow> (None, so_close os sfd w)
           | (None, w) \<Rightarrow>
               (case so_bind os sfd (ai_addr rp) (ai_addrlen rp) w of
                  (None, w) \<Rightarrow> (Some (Some (sfd, rp)), w)
                | (Some e, w) \<Rightarrow> bind_loop os doListen rps (so_close os sfd w))))"

text \<open>The second result is what is stored through \<^verbatim>\<open>addrlen\<close>, if anything. After a failing \<^verbatim>\<open>listen()\<close>
  the socket is not closed.\<close>

definition inetPassiveSocket ::
  "'w sock_os \<Rightarrow> cstring \<Rightarrow> int \<Rightarrow> bool \<Rightarrow> bool \<Rightarrow> int \<Rightarrow> 'w \<Rightarrow> (int option \<times> nat option) \<times> 'w" where
  "inetPassiveSocket os service type addrlen doListen backlog w =
     (case so_getaddrinfo os None service type AI_PASSIVE w of
        (None, w) \<Rightarrow> ((None, None), w)
      | (Some result, w) \<Rightarrow>
          (case bind_loop os doListen result w of
             (None, w) \<Rightarrow> ((None, None), w)
           | (Some None, w) \<Rightarrow> ((None, None), w)
           | (Some (Some (sfd, rp)), w) \<Rightarrow>
               (case (if doListen then so_listen os sfd backlog w else (None, w)) of
                  (Some e, w) \<Rightarrow> ((None, None), w)
                | (None, w) \<Rightarrow> ((Some sfd, if addrlen then Some (ai_addrlen rp) else None), w))))"

definition inetListen :: "'w sock_os \<Rightarrow> cstring \<Rightarrow> int \<Rightarrow> bool \<Rightarrow> 'w \<Rightarrow> (int option \<times> nat option) \<times> 'w" where
  "inetListen os service backlog addrlen w = inetPassiveSocket os service SOCK_STREAM addrlen True backlog w"

definition inetBind :: "'w sock_os \<Rightarrow> cstring \<Rightarrow> int \<Rightarrow> bool \<Rightarrow> 'w \<Rightarrow> (int option \<times> nat option) \<times> 'w" where
  "inetBind os service type addrlen w = inetPassiveSocket os service type addrlen False 0 w"

definition inetAddressStr :: "'w sock_os \<Rightarrow> cstring \<Rightarrow> nat \<Rightarrow> nat \<Rightarrow> 'w \<Rightarrow> cstring" where
  "inetAddressStr os addr addrlen addrStrLen w =
     snprintf addrStrLen
       (case so_getnameinfo os addr addrlen NI_NUMERICSERV w of
          Some (host, service) \<Rightarrow> ''('' @ host @ '', '' @ service @ '')''
        | None \<Rightarrow> ''(?UNKNOWN?)'')"

section \<open>UNIX domain addresses\<close>

text \<open>\<^verbatim>\<open>struct sockaddr_un\<close>: the family and an array of 108 bytes at offset 2, the end of the structure.
  \<^verbatim>\<open>strncpy()\<close> with count \<open>n\<close> stores exactly \<open>n\<close> bytes, padding with null bytes.\<close>

record sockaddr_un =
  sun_family :: int
  sun_path :: cstring

definition SUN_PATH_SIZE :: nat where "SUN_PATH_SIZE = 108"
definition SUN_PATH_OFFSET :: nat where "SUN_PATH_OFFSET = 2"

definition strncpy_bytes :: "cstring \<Rightarrow> nat \<Rightarrow> cstring" where
  "strncpy_bytes src n = take n (src @ replicate n NUL)"

text \<open>\<open>Undef\<close> when the bytes do not fit at the offset: they would be written past the structure.\<close>

definition store_path :: "cstring \<Rightarrow> nat \<Rightarrow> cstring \<Rightarrow> (cstring, unit) outcome" where
  "store_path arr off bs =
     (if off + length bs \<le> length arr then Ret (take off arr @ bs @ drop (off + length bs) arr) () else Undef)"

definition cleared_addr :: sockaddr_un where
  "cleared_addr = \<lparr> sun_family = PF_UNIX, sun_path = replicate SUN_PATH_SIZE NUL \<rparr>"

text \<open>\<open>Inl\<close> the error number, \<open>Inr\<close> the address structure.\<close>

definition unixBuildAddress :: "cstring option \<Rightarrow> (errno + sockaddr_un, unit) outcome" where
  "unixBuildAddress path =
     (case path of
        None \<Rightarrow> Ret (Inl EINVAL) ()
      | Some p \<Rightarrow>
          if length p < SUN_PATH_SIZE then
            obind (store_path (sun_path cleared_addr) 0 (strncpy_bytes p (SUN_PATH_SIZE - 1))) (\<lambda>arr _.
              Ret (Inr (cleared_addr\<lparr> sun_path := arr \<rparr>)) ())
          else Ret (Inl (EOTHER 36)) ())"

definition yunixaddress :: "cstring option \<Rightarrow> (errno + sockaddr_un, unit) outcome" where
  "yunixaddress path =
     (case path of
        None \<Rightarrow> Ret (Inl EINVAL) ()
      | Some p \<Rightarrow>
          if length p < SUN_PATH_SIZE then
            obind (store_path (sun_path cleared_addr) 0 (strncpy_bytes p SUN_PATH_SIZE)) (\<lambda>arr _.
              Ret (Inr (cleared_addr\<lparr> sun_path := arr \<rparr>)) ())
          else Ret (Inl (EOTHER 36)) ())"

definition yunixAaddress :: "cstring option \<Rightarrow> (errno + sockaddr_un, unit) outcome" where
  "yunixAaddress path =
     (case path of
        None \<Rightarrow> Ret (Inl EINVAL) ()
      | Some p \<Rightarrow>
          if 1 + length p < SUN_PATH_SIZE then
            obind (store_path (sun_path cleared_addr) 1 (strncpy_bytes p SUN_PATH_SIZE)) (\<lambda>arr _.
              Ret (Inr (cleared_addr\<lparr> sun_path := arr \<rparr>)) ())
          else Ret (Inl (EOTHER 36)) ())"

definition SUN_LEN :: "sockaddr_un \<Rightarrow> nat" where
  "SUN_LEN addr = SUN_PATH_OFFSET + length (takeWhile (\<lambda>c. c \<noteq> NUL) (sun_path addr))"

text \<open>What \<^verbatim>\<open>connect()\<close> and \<^verbatim>\<open>bind()\<close> are given: the path bytes of the structure and its length. The
  common tail of the functions: a socket, the call, and on failure the socket is closed while
  \<^verbatim>\<open>errno\<close> is kept.\<close>

definition socket_with ::
  "'w sock_os \<Rightarrow> (int \<Rightarrow> cstring \<Rightarrow> nat \<Rightarrow> 'w \<Rightarrow> errno option \<times> 'w) \<Rightarrow> int \<Rightarrow> sockaddr_un \<Rightarrow> nat \<Rightarrow> 'w \<Rightarrow> (errno + int) \<times> 'w" where
  "socket_with os f type addr len w =
     (case so_socket os PF_UNIX type 0 w of
        (Inl e, w) \<Rightarrow> (Inl e, w)
      | (Inr sd, w) \<Rightarrow>
          (case f sd (sun_path addr) len w of
             (Some savedErrno, w) \<Rightarrow> (Inl savedErrno, so_close os sd w)
           | (None, w) \<Rightarrow> (Inr sd, w)))"

definition with_address :: "(errno + sockaddr_un, unit) outcome \<Rightarrow> (sockaddr_un \<Rightarrow> 'w \<Rightarrow> (errno + int) \<times> 'w) \<Rightarrow> 'w \<Rightarrow> (errno + int, 'w) outcome" where
  "with_address a f w =
     (case a of
        Ret (Inl e) _ \<Rightarrow> Ret (Inl e) w
      | Ret (Inr addr) _ \<Rightarrow> (case f addr w of (r, w) \<Rightarrow> Ret r w)
      | _ \<Rightarrow> Undef)"

definition unixConnect :: "'w sock_os \<Rightarrow> cstring option \<Rightarrow> int \<Rightarrow> 'w \<Rightarrow> (errno + int, 'w) outcome" where
  "unixConnect os path type w =
     with_address (unixBuildAddress path) (\<lambda>addr. socket_with os (so_connect os) type addr (SUN_LEN addr)) w"

definition unixBind :: "'w sock_os \<Rightarrow> cstring option \<Rightarrow> int \<Rightarrow> 'w \<Rightarrow> (errno + int, 'w) outcome" where
  "unixBind os path type w =
     with_address (unixBuildAddress path) (\<lambda>addr. socket_with os (so_bind os) type addr (SUN_LEN addr)) w"

definition yunixconnect :: "'w sock_os \<Rightarrow> cstring option \<Rightarrow> int \<Rightarrow> 'w \<Rightarrow> (errno + int, 'w) outcome" where
  "yunixconnect os path type w =
     with_address (yunixaddress path) (\<lambda>addr. socket_with os (so_connect os) type addr (SUN_LEN addr)) w"

text \<open>\<^verbatim>\<open>yunixbind()\<close> takes the length of the path before anything tests it for null.\<close>

definition yunixbind :: "'w sock_os \<Rightarrow> cstring option \<Rightarrow> int \<Rightarrow> 'w \<Rightarrow> (errno + int, 'w) outcome" where
  "yunixbind os path type w =
     (case path of
        None \<Rightarrow> Undef
      | Some p \<Rightarrow>
          if length p + 1 > SUN_PATH_SIZE then Ret (Inl (EOTHER 36)) w
          else
            (case so_remove os p w of
               (r, w) \<Rightarrow>
                 if r \<noteq> None \<and> r \<noteq> Some ENOENT then Ret (Inl (the r)) w
                 else with_address (yunixaddress path)
                        (\<lambda>addr. socket_with os (so_bind os) type addr (SUN_LEN addr)) w))"

definition yunixAconnect :: "'w sock_os \<Rightarrow> cstring option \<Rightarrow> int \<Rightarrow> 'w \<Rightarrow> (errno + int, 'w) outcome" where
  "yunixAconnect os path type w =
     with_address (yunixAaddress path)
       (\<lambda>addr. socket_with os (so_connect os) type addr (SUN_PATH_OFFSET + 1 + length (the path))) w"

definition yunixAbind :: "'w sock_os \<Rightarrow> cstring option \<Rightarrow> int \<Rightarrow> 'w \<Rightarrow> (errno + int, 'w) outcome" where
  "yunixAbind os path type w =
     with_address (yunixAaddress path)
       (\<lambda>addr. socket_with os (so_bind os) type addr (SUN_PATH_OFFSET + 1 + length (the path))) w"

section \<open>Addresses\<close>

lemma length_strncpy_bytes [simp]: "length (strncpy_bytes p n) = n"
  by (simp add: strncpy_bytes_def)

lemma strncpy_bytes_pads: "length p \<le> n \<Longrightarrow> strncpy_bytes p n = p @ replicate (n - length p) NUL"
  by (simp add: strncpy_bytes_def)

lemma unix_address_eq:
  assumes "length p < SUN_PATH_SIZE"
  shows "unixBuildAddress (Some p) = Ret (Inr \<lparr> sun_family = PF_UNIX, sun_path = p @ replicate (SUN_PATH_SIZE - length p) NUL \<rparr>) ()"
    and "yunixaddress (Some p) = unixBuildAddress (Some p)"
proof -
  have "replicate (SUN_PATH_SIZE - Suc (length p)) NUL @ [NUL] = replicate (SUN_PATH_SIZE - length p) NUL"
    using assms replicate_append_same [of "SUN_PATH_SIZE - Suc (length p)" NUL]
    by (simp flip: replicate_Suc add: Suc_diff_Suc)
  then show 1: "unixBuildAddress (Some p) = Ret (Inr \<lparr> sun_family = PF_UNIX, sun_path = p @ replicate (SUN_PATH_SIZE - length p) NUL \<rparr>) ()"
    using assms by (simp add: unixBuildAddress_def store_path_def cleared_addr_def strncpy_bytes_pads SUN_PATH_SIZE_def)
  show "yunixaddress (Some p) = unixBuildAddress (Some p)"
    using assms unfolding 1 by (simp add: yunixaddress_def store_path_def cleared_addr_def strncpy_bytes_pads)
qed

text \<open>The count passed to \<^verbatim>\<open>strncpy()\<close> is the whole array although the copy starts at its second byte.\<close>

lemma abstract_address_overruns: "1 + length p < SUN_PATH_SIZE \<Longrightarrow> yunixAaddress (Some p) = Undef"
  by (simp add: yunixAaddress_def store_path_def cleared_addr_def)

text \<open>
  UNIX domain addresses: \<^verbatim>\<open>unixBuildAddress()\<close> and \<^verbatim>\<open>yunixaddress()\<close> agree on every argument. They accept
  exactly the pathnames that leave room for a null byte, store the pathname and nothing else, and
  the length passed to the kernel covers the pathname and stays within the structure.
\<close>

theorem unix_address_agrees:
  assumes "no_nul p"
  shows "yunixaddress path = unixBuildAddress path
    \<and> (case unixBuildAddress (Some p) of
         Ret (Inr addr) _ \<Rightarrow> length p < SUN_PATH_SIZE \<and> takeWhile (\<lambda>c. c \<noteq> NUL) (sun_path addr) = p
           \<and> length (sun_path addr) = SUN_PATH_SIZE \<and> SUN_LEN addr = SUN_PATH_OFFSET + length p
       | Ret (Inl e) _ \<Rightarrow> e = EOTHER 36 \<and> length p \<ge> SUN_PATH_SIZE
       | _ \<Rightarrow> False)"
proof -
  have "takeWhile (\<lambda>c. c \<noteq> NUL) (p @ replicate n NUL) = p" for n
    using assms by (simp add: takeWhile_append no_nul_def)
  moreover have "yunixaddress path = unixBuildAddress path"
    using unix_address_eq(2) by (cases path) (auto simp: yunixaddress_def unixBuildAddress_def)
  ultimately show ?thesis
    using unix_address_eq(1) [of p] by (cases "length p < SUN_PATH_SIZE") (auto simp: SUN_LEN_def unixBuildAddress_def)
qed

theorem unix_address_agrees_witness:
  "no_nul ''/tmp/x'' \<and> yunixaddress (Some ''/tmp/x'') = unixBuildAddress (Some ''/tmp/x'')"
  using unix_address_agrees [of "''/tmp/x''" "Some ''/tmp/x''"] by (simp add: NUL_def)

section \<open>Descriptors\<close>

text \<open>What the kernel does to the set of open descriptors of the process.\<close>

definition fd_kernel :: "'w sock_os \<Rightarrow> ('w \<Rightarrow> int set) \<Rightarrow> bool" where
  "fd_kernel os opened \<longleftrightarrow>
     (\<forall>h s t p w. opened (snd (so_getaddrinfo os h s t p w)) = opened w)
   \<and> (\<forall>f t p w e w'. so_socket os f t p w = (Inl e, w') \<longrightarrow> opened w' = opened w)
   \<and> (\<forall>f t p w fd w'. so_socket os f t p w = (Inr fd, w') \<longrightarrow> fd \<notin> opened w \<and> opened w' = insert fd (opened w))
   \<and> (\<forall>fd a l w. opened (snd (so_connect os fd a l w)) = opened w)
   \<and> (\<forall>fd a l w. opened (snd (so_bind os fd a l w)) = opened w)
   \<and> (\<forall>fd w. opened (snd (so_reuseaddr os fd w)) = opened w)
   \<and> (\<forall>fd b w. opened (snd (so_listen os fd b w)) = opened w)
   \<and> (\<forall>fd w. opened (so_close os fd w) = opened w - {fd})
   \<and> (\<forall>p w. opened (snd (so_remove os p w)) = opened w)"

lemma fd_kernelD:
  assumes "fd_kernel os opened"
  shows "so_getaddrinfo os h s t p w = (r, w') \<Longrightarrow> opened w' = opened w"
    and "so_socket os f t' p' w = (Inl e, w') \<Longrightarrow> opened w' = opened w"
    and "so_socket os f t' p' w = (Inr fd, w') \<Longrightarrow> fd \<notin> opened w \<and> opened w' = insert fd (opened w)"
    and "so_connect os fd a l w = (x, w') \<Longrightarrow> opened w' = opened w"
    and "so_bind os fd a l w = (x, w') \<Longrightarrow> opened w' = opened w"
    and "so_reuseaddr os fd w = (x, w') \<Longrightarrow> opened w' = opened w"
    and "so_listen os fd b w = (x, w') \<Longrightarrow> opened w' = opened w"
    and "opened (so_close os fd w) = opened w - {fd}"
    and "so_remove os q w = (x, w') \<Longrightarrow> opened w' = opened w"
  using assms unfolding fd_kernel_def by (metis snd_conv)+

text \<open>The interface: one new descriptor or none.\<close>

definition opened_by :: "('w \<Rightarrow> int set) \<Rightarrow> int option \<Rightarrow> 'w \<Rightarrow> 'w \<Rightarrow> bool" where
  "opened_by opened r w w' \<longleftrightarrow>
     (case r of None \<Rightarrow> opened w' = opened w | Some fd \<Rightarrow> fd \<notin> opened w \<and> opened w' = insert fd (opened w))"

lemma opened_by_from: "opened w1 = opened w \<Longrightarrow> opened_by opened r w1 w' \<longleftrightarrow> opened_by opened r w w'"
  by (cases r) (simp_all add: opened_by_def)

fun open_many :: "nat \<Rightarrow> ('w \<Rightarrow> int option \<times> 'w) \<Rightarrow> 'w \<Rightarrow> int list \<times> 'w" where
  "open_many 0 opn w = ([], w)"
| "open_many (Suc k) opn w =
     (case opn w of (r, w) \<Rightarrow> (case open_many k opn w of (fds, w) \<Rightarrow> ((case r of None \<Rightarrow> fds | Some fd \<Rightarrow> fd # fds), w)))"

definition leak_free :: "('w \<Rightarrow> int option \<times> 'w) \<Rightarrow> ('w \<Rightarrow> int set) \<Rightarrow> bool" where
  "leak_free opn opened \<longleftrightarrow> (\<forall>k w fds w'. open_many k opn w = (fds, w') \<longrightarrow>
     distinct fds \<and> set fds \<inter> opened w = {} \<and> opened w' = opened w \<union> set fds)"

locale socket_opener =
  fixes opn :: "'w \<Rightarrow> int option \<times> 'w" and opened :: "'w \<Rightarrow> int set" and lawful :: bool
  assumes opens: "lawful \<Longrightarrow> opn w = (r, w') \<Longrightarrow> opened_by opened r w w'"
begin

lemma many:
  assumes lawful and "open_many k opn w = (fds, w')"
  shows "distinct fds \<and> set fds \<inter> opened w = {} \<and> opened w' = opened w \<union> set fds"
  using assms(2)
proof (induction k arbitrary: w fds)
  case (Suc k)
  obtain r w1 where o1: "opn w = (r, w1)" by fastforce
  obtain fds1 where rest: "open_many k opn w1 = (fds1, w')" and fds: "fds = (case r of None \<Rightarrow> fds1 | Some fd \<Rightarrow> fd # fds1)"
    using Suc.prems o1 by (auto split: prod.splits)
  note ih = Suc.IH [OF rest] and op = opens [OF assms(1) o1]
  show ?case
  proof (cases r)
    case None
    with ih fds op show ?thesis by (simp add: opened_by_def)
  next
    case (Some fd)
    with ih fds op show ?thesis by (auto simp: opened_by_def)
  qed
qed simp

lemma no_leak: "lawful \<Longrightarrow> leak_free opn opened"
  unfolding leak_free_def using many by blast

end

text \<open>The functions seen through the interface.\<close>

definition fd_of :: "(errno + int, 'w) outcome \<Rightarrow> 'w \<Rightarrow> int option \<times> 'w" where
  "fd_of r w = (case r of Ret (Inr fd) w' \<Rightarrow> (Some fd, w') | Ret (Inl e) w' \<Rightarrow> (None, w') | _ \<Rightarrow> (None, w))"

definition drop_len :: "(int option \<times> nat option) \<times> 'w \<Rightarrow> int option \<times> 'w" where
  "drop_len r = (fst (fst r), snd r)"

lemma opened_close: "fd_kernel os opened \<Longrightarrow> fd \<notin> opened w \<Longrightarrow> opened w1 = insert fd (opened w) \<Longrightarrow> opened (so_close os fd w1) = opened w"
  by (simp add: fd_kernelD(8))

lemma connect_loop_fds:
  assumes k: "fd_kernel os opened" and "connect_loop os rps w = (r, w')"
  shows "opened_by opened (map_option fst r) w w'"
  using assms(2)
proof (induction rps arbitrary: w)
  case (Cons rp rps)
  obtain x w1 where s: "so_socket os (ai_family rp) (ai_socktype rp) (ai_protocol rp) w = (x, w1)" by fastforce
  show ?case
  proof (cases x)
    case (Inl e)
    with Cons.prems s have "connect_loop os rps w1 = (r, w')" by simp
    from Cons.IH [OF this] opened_by_from [of opened, OF fd_kernelD(2) [OF k s [unfolded Inl]]] show ?thesis by simp
  next
    case (Inr sfd)
    obtain y w2 where c: "so_connect os sfd (ai_addr rp) (ai_addrlen rp) w1 = (y, w2)" by fastforce
    note f = fd_kernelD(3) [OF k s [unfolded Inr]] fd_kernelD(4) [OF k c]
    show ?thesis
    proof (cases y)
      case None
      with Cons.prems s c Inr f show ?thesis by (auto simp: opened_by_def)
    next
      case (Some e)
      with Cons.prems s c Inr have "connect_loop os rps (so_close os sfd w2) = (r, w')" by simp
      from Cons.IH [OF this] opened_by_from [of opened, OF opened_close [OF k, of sfd w w2]] f show ?thesis by simp
    qed
  qed
qed (simp add: opened_by_def)

lemma bind_loop_fds:
  assumes k: "fd_kernel os opened" and "bind_loop os doListen rps w = (r, w')"
  shows "opened_by opened (map_option fst (case r of None \<Rightarrow> None | Some r \<Rightarrow> r)) w w'"
  using assms(2)
proof (induction rps arbitrary: w)
  case (Cons rp rps)
  obtain x w1 where s: "so_socket os (ai_family rp) (ai_socktype rp) (ai_protocol rp) w = (x, w1)" by fastforce
  show ?case
  proof (cases x)
    case (Inl e)
    with Cons.prems s have "bind_loop os doListen rps w1 = (r, w')" by simp
    from Cons.IH [OF this] opened_by_from [of opened, OF fd_kernelD(2) [OF k s [unfolded Inl]]] show ?thesis by simp
  next
    case (Inr sfd)
    note f = fd_kernelD(3) [OF k s [unfolded Inr]]
    obtain y w2 where o2: "(if doListen then so_reuseaddr os sfd w1 else (None, w1)) = (y, w2)" by fastforce
    then have w2: "opened w2 = insert sfd (opened w)" using f fd_kernelD(6) [OF k, of sfd w1] by (auto split: if_splits)
    obtain z w3 where b: "so_bind os sfd (ai_addr rp) (ai_addrlen rp) w2 = (z, w3)" by fastforce
    have w3: "opened w3 = insert sfd (opened w)" using fd_kernelD(5) [OF k b] w2 by simp
    show ?thesis
    proof (cases y)
      case (Some e)
      with Cons.prems s o2 Inr have "r = None" "w' = so_close os sfd w2" by auto
      with opened_close [OF k _ w2] f show ?thesis by (simp add: opened_by_def)
    next
      case y: None
      show ?thesis
      proof (cases z)
        case None
        with Cons.prems s o2 b y Inr f w3 show ?thesis by (auto simp: opened_by_def)
      next
        case (Some e)
        with Cons.prems s o2 b y Inr have "bind_loop os doListen rps (so_close os sfd w3) = (r, w')" by simp
        from Cons.IH [OF this] opened_by_from [of opened, OF opened_close [OF k _ w3]] f show ?thesis by simp
      qed
    qed
  qed
qed (auto simp: opened_by_def)

lemma inetConnect_fds:
  assumes k: "fd_kernel os opened" and "inetConnect os host service type w = (r, w')"
  shows "opened_by opened r w w'"
proof -
  obtain res w1 where g: "so_getaddrinfo os (Some host) service type 0 w = (res, w1)" by fastforce
  note w1 = fd_kernelD(1) [OF k g]
  show ?thesis
  proof (cases res)
    case (Some l)
    obtain x w2 where c: "connect_loop os l w1 = (x, w2)" by fastforce
    with assms(2) g Some connect_loop_fds [OF k c] opened_by_from [of opened, OF w1] show ?thesis by (simp add: inetConnect_def)
  qed (use assms(2) g w1 in \<open>simp add: inetConnect_def opened_by_def\<close>)
qed

lemma passive_fds:
  assumes k: "fd_kernel os opened" and "inetPassiveSocket os service type addrlen doListen backlog w = ((r, l), w')"
    and "\<not> doListen \<or> r \<noteq> None"
  shows "opened_by opened r w w'"
proof -
  obtain res w1 where g: "so_getaddrinfo os None service type AI_PASSIVE w = (res, w1)" by fastforce
  note w1 = fd_kernelD(1) [OF k g]
  show ?thesis
  proof (cases res)
    case (Some ais)
    obtain x w2 where b: "bind_loop os doListen ais w1 = (x, w2)" by fastforce
    note bf = bind_loop_fds [OF k b]
    show ?thesis
    proof (cases "case x of None \<Rightarrow> None | Some x \<Rightarrow> x")
      case None
      with assms(2) g Some b have "r = None" "w' = w2" by (auto simp: inetPassiveSocket_def split: option.splits)
      with bf None opened_by_from [of opened, OF w1] show ?thesis by simp
    next
      case (Some p)
      obtain sfd rp where p: "p = (sfd, rp)" by (cases p)
      with Some have x: "x = Some (Some (sfd, rp))" by (auto split: option.splits)
      obtain y w3 where li: "(if doListen then so_listen os sfd backlog w2 else (None, w2)) = (y, w3)" by fastforce
      then have w3: "opened w3 = opened w2" using fd_kernelD(7) [OF k, of sfd backlog w2] by (auto split: if_splits)
      have "y = None" using assms(2,3) g \<open>res = Some ais\<close> b x li by (auto simp: inetPassiveSocket_def split: option.splits if_splits)
      with assms(2) g \<open>res = Some ais\<close> b x li have "r = Some sfd" "w' = w3" by (auto simp: inetPassiveSocket_def)
      with bf x w1 w3 show ?thesis by (simp add: opened_by_def)
    qed
  qed (use assms(2) g w1 in \<open>simp add: inetPassiveSocket_def opened_by_def\<close>)
qed

text \<open>The one leak: a socket on which \<^verbatim>\<open>listen()\<close> fails stays open.\<close>

lemma passive_leak:
  assumes k: "fd_kernel os opened" and "inetPassiveSocket os service type addrlen True backlog w = ((None, l), w')"
  shows "opened w' = opened w \<or> (\<exists>fd u e. so_listen os fd backlog u = (Some e, w') \<and> fd \<notin> opened w \<and> opened w' = insert fd (opened w))"
proof -
  obtain res w1 where g: "so_getaddrinfo os None service type AI_PASSIVE w = (res, w1)" by fastforce
  note w1 = fd_kernelD(1) [OF k g]
  show ?thesis
  proof (cases res)
    case (Some ais)
    obtain x w2 where b: "bind_loop os True ais w1 = (x, w2)" by fastforce
    note bf = bind_loop_fds [OF k b]
    show ?thesis
    proof (cases "case x of None \<Rightarrow> None | Some x \<Rightarrow> x")
      case None
      with assms(2) g Some b have "w' = w2" by (auto simp: inetPassiveSocket_def split: option.splits)
      with bf None w1 show ?thesis by (simp add: opened_by_def)
    next
      case (Some p)
      obtain sfd rp where p: "p = (sfd, rp)" by (cases p)
      with Some have x: "x = Some (Some (sfd, rp))" by (auto split: option.splits)
      obtain y w3 where li: "so_listen os sfd backlog w2 = (y, w3)" by fastforce
      then have w3: "opened w3 = opened w2" using fd_kernelD(7) [OF k] by blast
      from assms(2) g \<open>res = Some ais\<close> b x li obtain e where "y = Some e" "w' = w3"
        by (auto simp: inetPassiveSocket_def split: option.splits)
      with li w3 bf x w1 show ?thesis by (intro disjI2 exI [of _ sfd] exI [of _ w2] exI [of _ e]) (simp add: opened_by_def)
    qed
  qed (use assms(2) g w1 in \<open>simp add: inetPassiveSocket_def\<close>)
qed

lemma socket_with_fds:
  assumes k: "fd_kernel os opened" and f: "\<And>fd a l w x w'. f fd a l w = (x, w') \<Longrightarrow> opened w' = opened w"
    and "socket_with os f type addr len w = (r, w')"
  shows "opened_by opened (case r of Inl e \<Rightarrow> None | Inr fd \<Rightarrow> Some fd) w w'"
proof -
  obtain x w1 where s: "so_socket os PF_UNIX type 0 w = (x, w1)" by fastforce
  show ?thesis
  proof (cases x)
    case (Inl e)
    with assms(3) s fd_kernelD(2) [OF k s [unfolded Inl]] show ?thesis by (auto simp: socket_with_def opened_by_def)
  next
    case (Inr sd)
    note o1 = fd_kernelD(3) [OF k s [unfolded Inr]]
    obtain y w2 where c: "f sd (sun_path addr) len w1 = (y, w2)" by fastforce
    have w2: "opened w2 = insert sd (opened w)" using f [OF c] o1 by simp
    show ?thesis
    proof (cases y)
      case None
      with assms(3) s Inr c o1 w2 show ?thesis by (auto simp: socket_with_def opened_by_def)
    next
      case (Some e)
      with assms(3) s Inr c have "r = Inl e" "w' = so_close os sd w2" by (auto simp: socket_with_def)
      with opened_close [OF k _ w2] o1 show ?thesis by (simp add: opened_by_def)
    qed
  qed
qed

lemma with_address_fds:
  assumes "\<And>addr w r w'. f addr w = (r, w') \<Longrightarrow> opened_by opened (case r of Inl e \<Rightarrow> None | Inr fd \<Rightarrow> Some fd) w w'"
    and "fd_of (with_address a f w) w = (r, w')"
  shows "opened_by opened r w w'"
proof (cases "\<exists>addr u. a = Ret (Inr addr) u")
  case True
  then obtain addr u where a: "a = Ret (Inr addr) u" by blast
  obtain x w1 where "f addr w = (x, w1)" by fastforce
  with assms a show ?thesis by (cases x) (fastforce simp: with_address_def fd_of_def)+
next
  case False
  with assms(2) show ?thesis
    by (auto simp: with_address_def fd_of_def opened_by_def split: outcome.splits sum.splits)
qed

interpretation inet_connect: socket_opener "inetConnect os host service type" opened "fd_kernel os opened"
  for os host service type opened
  by unfold_locales (rule inetConnect_fds)

interpretation inet_bind: socket_opener "\<lambda>w. drop_len (inetBind os service type addrlen w)" opened "fd_kernel os opened"
  for os service type addrlen opened
  by unfold_locales (metis drop_len_def inetBind_def passive_fds fst_conv snd_conv prod.collapse)

interpretation unix_connect: socket_opener "\<lambda>w. fd_of (unixConnect os path type w) w" opened "fd_kernel os opened"
  for os path type opened
  by unfold_locales
    (auto simp: unixConnect_def elim!: with_address_fds [rotated] intro: socket_with_fds [OF _ fd_kernelD(4)])

interpretation unix_bind: socket_opener "\<lambda>w. fd_of (unixBind os path type w) w" opened "fd_kernel os opened"
  for os path type opened
  by unfold_locales
    (auto simp: unixBind_def elim!: with_address_fds [rotated] intro: socket_with_fds [OF _ fd_kernelD(5)])

interpretation y_connect: socket_opener "\<lambda>w. fd_of (yunixconnect os path type w) w" opened "fd_kernel os opened"
  for os path type opened
  by unfold_locales
    (auto simp: yunixconnect_def elim!: with_address_fds [rotated] intro: socket_with_fds [OF _ fd_kernelD(4)])

lemma yunixbind_fds:
  assumes k: "fd_kernel os opened" and "fd_of (yunixbind os path type w) w = (r, w')"
  shows "opened_by opened r w w'"
proof (cases path)
  case (Some p)
  obtain x w1 where rm: "so_remove os p w = (x, w1)" by fastforce
  note w1 = fd_kernelD(9) [OF k rm]
  show ?thesis
  proof (cases "length p + 1 > SUN_PATH_SIZE \<or> x \<noteq> None \<and> x \<noteq> Some ENOENT")
    case True
    with assms(2) Some rm w1 show ?thesis by (auto simp: yunixbind_def fd_of_def opened_by_def split: if_splits)
  next
    case False
    have d: "with_address (yunixaddress path) f w1 \<noteq> Undef" for f :: "sockaddr_un \<Rightarrow> 'a \<Rightarrow> (errno + int) \<times> 'a"
      using False Some unix_address_eq [of p]
      by (auto simp: with_address_def yunixaddress_def split: prod.splits)
    from False assms(2) Some rm
    have "fd_of (with_address (yunixaddress path) (\<lambda>addr. socket_with os (so_bind os) type addr (SUN_LEN addr)) w1) w = (r, w')"
      by (auto simp: yunixbind_def)
    then have "fd_of (with_address (yunixaddress path) (\<lambda>addr. socket_with os (so_bind os) type addr (SUN_LEN addr)) w1) w1 = (r, w')"
      using d by (auto simp: fd_of_def with_address_def split: outcome.splits sum.splits prod.splits)
    from with_address_fds [OF socket_with_fds [OF k fd_kernelD(5) [OF k]] this] opened_by_from [of opened, OF w1] show ?thesis by simp
  qed
qed (use assms(2) in \<open>simp add: yunixbind_def fd_of_def opened_by_def\<close>)

interpretation y_bind: socket_opener "\<lambda>w. fd_of (yunixbind os path type w) w" opened "fd_kernel os opened"
  for os path type opened
  by unfold_locales (rule yunixbind_fds)

text \<open>
  C19. No descriptor is lost: any number of calls of \<^verbatim>\<open>inetConnect()\<close>, \<^verbatim>\<open>inetBind()\<close>, \<^verbatim>\<open>unixConnect()\<close>,
  \<^verbatim>\<open>unixBind()\<close>, \<^verbatim>\<open>yunixconnect()\<close> or \<^verbatim>\<open>yunixbind()\<close>, whatever fails in them and however many addresses
  they try, leaves open exactly the descriptors that were returned, all new and distinct; and so
  does \<^verbatim>\<open>inetListen()\<close>, except that it leaves one further socket open when \<^verbatim>\<open>listen()\<close> fails on it. A call of
  \<^verbatim>\<open>close()\<close> always closes the descriptor. The functions for abstract addresses are not included: they
  write past the address structure.
\<close>

theorem sockets_not_leaked:
  assumes "fd_kernel os opened"
  shows "leak_free (inetConnect os host service type) opened
    \<and> leak_free (\<lambda>w. drop_len (inetBind os service type addrlen w)) opened
    \<and> leak_free (\<lambda>w. fd_of (unixConnect os path type w) w) opened \<and> leak_free (\<lambda>w. fd_of (unixBind os path type w) w) opened
    \<and> leak_free (\<lambda>w. fd_of (yunixconnect os path type w) w) opened \<and> leak_free (\<lambda>w. fd_of (yunixbind os path type w) w) opened
    \<and> (inetListen os service backlog addrlen w = ((r, l), w') \<longrightarrow>
        (case r of
           Some fd \<Rightarrow> fd \<notin> opened w \<and> opened w' = insert fd (opened w)
         | None \<Rightarrow> opened w' = opened w
             \<or> (\<exists>fd u e. so_listen os fd backlog u = (Some e, w') \<and> fd \<notin> opened w \<and> opened w' = insert fd (opened w))))"
  using inet_connect.no_leak [OF assms] inet_bind.no_leak [OF assms] unix_connect.no_leak [OF assms] unix_bind.no_leak [OF assms]
    y_connect.no_leak [OF assms] y_bind.no_leak [OF assms]
    passive_fds [OF assms, of service SOCK_STREAM addrlen True backlog w r l w']
    passive_leak [OF assms, of service SOCK_STREAM addrlen backlog w l w']
  by (cases r) (simp_all add: opened_by_def inetListen_def)

text \<open>A kernel whose state is the list of open descriptors: it refuses odd addresses and, if asked to,
  \<^verbatim>\<open>listen()\<close>.\<close>

definition demo_sock_os :: "bool \<Rightarrow> nat list sock_os" where
  "demo_sock_os can_listen = \<lparr>
     so_getaddrinfo = \<lambda>h s t p w. (Some [\<lparr> ai_family = 2, ai_socktype = t, ai_protocol = 0, ai_addr = ''a'', ai_addrlen = 1 \<rparr>,
       \<lparr> ai_family = 10, ai_socktype = t, ai_protocol = 0, ai_addr = ''b'', ai_addrlen = 1 \<rparr>], w),
     so_socket = \<lambda>f t p w. let fd = Suc (fold max w 0) in (Inr (int fd), fd # w),
     so_connect = \<lambda>fd a l w. (if a = ''a'' then Some EACCES else None, w),
     so_bind = \<lambda>fd a l w. (if a = ''a'' then Some EACCES else None, w),
     so_reuseaddr = \<lambda>fd w. (None, w),
     so_listen = \<lambda>fd b w. (if can_listen then None else Some EACCES, w),
     so_close = \<lambda>fd w. filter (\<lambda>x. int x \<noteq> fd) w,
     so_remove = \<lambda>p w. (None, w),
     so_getnameinfo = \<lambda>a l f w. None \<rparr>"

lemma fold_max_ge: "x \<in> set w \<or> x \<le> a \<Longrightarrow> x \<le> fold max w (a :: nat)"
  by (induction w arbitrary: a) fastforce+

lemma demo_fd_kernel: "fd_kernel (demo_sock_os b) (\<lambda>w. int ` set w)"
proof -
  have "Suc (fold max w 0) \<notin> set w" for w using fold_max_ge [of "Suc (fold max w 0)" w 0] by auto
  then have "1 + int (fold max w 0) \<notin> int ` set w" for w by (metis image_iff int_Suc int_int_eq of_nat_Suc)
  then show ?thesis by (auto simp: fd_kernel_def demo_sock_os_def Let_def)
qed

theorem sockets_not_leaked_witness:
  "leak_free (inetConnect (demo_sock_os True) ''h'' ''80'' 1) (\<lambda>w. int ` set w)
   \<and> open_many 2 (inetConnect (demo_sock_os True) ''h'' ''80'' 1) [5] = ([6, 7], [7, 6, 5])"
  using sockets_not_leaked [OF demo_fd_kernel [of True], of "''h''" "''80''" 1]
  by (simp add: numeral_2_eq_2 inetConnect_def demo_sock_os_def Let_def)

text \<open>A failing \<^verbatim>\<open>listen()\<close> loses the socket.\<close>

lemma listen_leaks: "inetListen (demo_sock_os False) ''80'' 5 True [5] = ((None, None), [6, 5])"
  by (simp add: inetListen_def inetPassiveSocket_def demo_sock_os_def Let_def)

end
