(* ===== verification/Seqnum_Service.thy ===== *)
theory Seqnum_Service
  imports Socket_Lib Line_IO Get_Num Util_Lib
begin

text \<open>
  The sequence number services: the socket servers \<^verbatim>\<open>sockets/is_seqnum_sv.c\<close> and
  \<^verbatim>\<open>sockets/is_seqnum_v2_sv.c\<close> with their clients, and the FIFO server \<^verbatim>\<open>pipes/fifo_seqnum_server.c\<close>
  with its client. A server hands every client the start of a run of numbers of the length the
  client asked for. A turn of a server loop reports the run it granted, if any; the locale
  \<open>number_server\<close> is what all three promise.
\<close>

section \<open>Socket servers\<close>

definition INT_LEN :: nat where "INT_LEN = 30"
definition PORT_NUM :: cstring where "PORT_NUM = ''50000''"
definition NI_MAXHOST :: nat where "NI_MAXHOST = 1025"
definition NI_MAXSERV :: nat where "NI_MAXSERV = 32"
definition ADDRSTRLEN :: nat where "ADDRSTRLEN = NI_MAXHOST + NI_MAXSERV + 10"
definition IS_ADDR_STR_LEN :: nat where "IS_ADDR_STR_LEN = 4096"
definition BACKLOG :: int where "BACKLOG = 50"

text \<open>\<^verbatim>\<open>accept()\<close> gives the descriptor and the address of the client with its length.\<close>

record 'w conn_os =
  cn_sock :: "'w sock_os"
  cn_ignore_sigpipe :: "'w \<Rightarrow> bool \<times> 'w"
  cn_malloc :: "nat \<Rightarrow> 'w \<Rightarrow> bool \<times> 'w"
  cn_accept :: "int \<Rightarrow> 'w \<Rightarrow> (errno + int \<times> cstring \<times> nat) \<times> 'w"
  cn_read :: "int \<Rightarrow> 'w reader"
  cn_write :: "int \<Rightarrow> 'w writer"
  cn_closes :: "int \<Rightarrow> 'w \<Rightarrow> bool \<times> 'w"

abbreviation cn_close :: "'w conn_os \<Rightarrow> int \<Rightarrow> 'w \<Rightarrow> 'w" where
  "cn_close os \<equiv> so_close (cn_sock os)"

text \<open>The variables of a server: the next number, what it has printed, and the kernel.\<close>

record 'w seqnum_sv =
  seqNum :: "32 word"
  sv_out :: "cstring list"
  sv_kern :: 'w

type_synonym grant = "32 word \<times> int"

text \<open>The bytes of a buffer up to the null byte.\<close>

definition c_str :: "cstring \<Rightarrow> cstring" where
  "c_str buf = takeWhile (\<lambda>c. c \<noteq> NUL) buf"

text \<open>From the request of a connected client to the end of the connection, which both servers have in
  common. \<^verbatim>\<open>seqNum\<close> is printed with \<^verbatim>\<open>%d\<close>, as a signed number. \<open>None\<close>: the reading has not ended.\<close>

definition serve_client :: "nat \<Rightarrow> 'w conn_os \<Rightarrow> int \<Rightarrow> 'w seqnum_sv \<Rightarrow> (grant option \<times> 'w seqnum_sv) option" where
  "serve_client fuel os cfd s =
     (case readLine fuel (cn_read os cfd) True INT_LEN (sv_kern s) of
        None \<Rightarrow> None
      | Some ((Inl e, buf), w) \<Rightarrow> Some (None, s\<lparr> sv_kern := cn_close os cfd w \<rparr>)
      | Some ((Inr n, reqLenStr), w) \<Rightarrow>
          if n \<le> 0 then Some (None, s\<lparr> sv_kern := cn_close os cfd w \<rparr>)
          else
            (let reqLen = atoi (c_str reqLenStr) in
             if reqLen \<le> 0 then Some (None, s\<lparr> sv_kern := cn_close os cfd w \<rparr>)
             else
               (let seqNumStr = snprintf INT_LEN (dec (sint (seqNum s)) @ [newline]);
                    (r, w) = cn_write os cfd seqNumStr w;
                    s = (if r = Inr (length seqNumStr) then s else s\<lparr> sv_out := sv_out s @ [''Error on write''] \<rparr>)
                in Some (Some (seqNum s, reqLen), s\<lparr> seqNum := seqNum s + word_of_int reqLen, sv_kern := cn_close os cfd w \<rparr>))))"

definition seqnum_turn :: "nat \<Rightarrow> 'w conn_os \<Rightarrow> int \<Rightarrow> 'w seqnum_sv \<Rightarrow> (grant option \<times> 'w seqnum_sv) option" where
  "seqnum_turn fuel os lfd s =
     (case cn_accept os lfd (sv_kern s) of
        (Inl e, w) \<Rightarrow> Some (None, s\<lparr> sv_out := sv_out s @ [''accept''], sv_kern := w \<rparr>)
      | (Inr (cfd, claddr, addrlen), w) \<Rightarrow>
          (let addrStr = snprintf ADDRSTRLEN
                 (case so_getnameinfo (cn_sock os) claddr addrlen 0 w of
                    Some (host, service) \<Rightarrow> ''('' @ host @ '', '' @ service @ '')''
                  | None \<Rightarrow> ''(?UNKNOWN?)'')
           in serve_client fuel os cfd (s\<lparr> sv_out := sv_out s @ [''Connection from '' @ addrStr @ [newline]], sv_kern := w \<rparr>)))"

definition seqnum_v2_turn :: "nat \<Rightarrow> 'w conn_os \<Rightarrow> int \<Rightarrow> 'w seqnum_sv \<Rightarrow> (grant option \<times> 'w seqnum_sv) option" where
  "seqnum_v2_turn fuel os lfd s =
     (case cn_accept os lfd (sv_kern s) of
        (Inl e, w) \<Rightarrow> Some (None, s\<lparr> sv_out := sv_out s @ [''accept''], sv_kern := w \<rparr>)
      | (Inr (cfd, claddr, alen), w) \<Rightarrow>
          serve_client fuel os cfd
            (s\<lparr> sv_out := sv_out s @ [''Connection from '' @ inetAddressStr (cn_sock os) claddr alen IS_ADDR_STR_LEN w @ [newline]],
               sv_kern := w \<rparr>))"

text \<open>Any number of turns of a server loop, with the runs granted on the way.\<close>

fun serve_turns :: "nat \<Rightarrow> ('s \<Rightarrow> (grant option \<times> 's) option) \<Rightarrow> 's \<Rightarrow> (grant list \<times> 's) option" where
  "serve_turns 0 turn s = Some ([], s)"
| "serve_turns (Suc n) turn s =
     (case turn s of
        None \<Rightarrow> None
      | Some (g, s) \<Rightarrow>
          (case serve_turns n turn s of
             None \<Rightarrow> None
           | Some (gs, s) \<Rightarrow> Some ((case g of None \<Rightarrow> gs | Some g \<Rightarrow> g # gs), s)))"

text \<open>The loop that binds the listening socket of the first server: \<^verbatim>\<open>setsockopt()\<close> failing ends the program.\<close>

fun sv_bind_loop :: "'w sock_os \<Rightarrow> addrinfo list \<Rightarrow> 'w \<Rightarrow> (int, 'w) outcome" where
  "sv_bind_loop os [] w = Exit EXIT_FAILURE w"
| "sv_bind_loop os (rp # rps) w =
     (case so_socket os (ai_family rp) (ai_socktype rp) (ai_protocol rp) w of
        (Inl e, w) \<Rightarrow> sv_bind_loop os rps w
      | (Inr lfd, w) \<Rightarrow>
          (case so_reuseaddr os lfd w of
             (Some e, w) \<Rightarrow> Exit EXIT_FAILURE w
           | (None, w) \<Rightarrow>
               (case so_bind os lfd (ai_addr rp) (ai_addrlen rp) w of
                  (None, w) \<Rightarrow> Ret lfd w
                | (Some e, w) \<Rightarrow> sv_bind_loop os rps (so_close os lfd w))))"

definition init_seqnum :: "cstring list \<Rightarrow> 'w \<Rightarrow> (32 word, 'w) outcome" where
  "init_seqnum argv w =
     (if length argv > 1 \<and> argv ! 1 = ''--help'' then Exit EXIT_FAILURE w
      else if length argv > 1 then
        (case getInt (Some (argv ! 1)) 0 (Some ''init-seq-num'') of
           Inl d \<Rightarrow> Exit EXIT_FAILURE w | Inr v \<Rightarrow> Ret (word_of_int v) w)
      else Ret 0 w)"

definition is_seqnum_sv :: "'w conn_os \<Rightarrow> cstring list \<Rightarrow> 'w \<Rightarrow> (int \<times> 'w seqnum_sv, 'w) outcome" where
  "is_seqnum_sv os argv w =
     obind (init_seqnum argv w) (\<lambda>v w.
     obind (must (cn_ignore_sigpipe os) w) (\<lambda>_ w.
     obind (must_get (so_getaddrinfo (cn_sock os) None PORT_NUM SOCK_STREAM (AI_PASSIVE OR AI_NUMERICSERV)) w) (\<lambda>result w.
     obind (sv_bind_loop (cn_sock os) result w) (\<lambda>lfd w.
     case so_listen (cn_sock os) lfd BACKLOG w of
       (Some e, w) \<Rightarrow> Exit EXIT_FAILURE w
     | (None, w) \<Rightarrow> Ret (lfd, \<lparr> seqNum = v, sv_out = [], sv_kern = w \<rparr>) w))))"

definition is_seqnum_v2_sv :: "'w conn_os \<Rightarrow> cstring list \<Rightarrow> 'w \<Rightarrow> (int \<times> 'w seqnum_sv, 'w) outcome" where
  "is_seqnum_v2_sv os argv w =
     obind (init_seqnum argv w) (\<lambda>v w.
     obind (must (cn_ignore_sigpipe os) w) (\<lambda>_ w.
     case inetListen (cn_sock os) PORT_NUM 5 True w of
       ((Some lfd, Some addrlen), w) \<Rightarrow>
         obind (must (cn_malloc os addrlen) w) (\<lambda>_ w. Ret (lfd, \<lparr> seqNum = v, sv_out = [], sv_kern = w \<rparr>) w)
     | (_, w) \<Rightarrow> Exit EXIT_FAILURE w))"

section \<open>Socket clients\<close>

text \<open>Both clients after the connection is made; the result is what is printed.\<close>

definition seqnum_request :: "nat \<Rightarrow> 'w conn_os \<Rightarrow> cstring list \<Rightarrow> int \<Rightarrow> 'w \<Rightarrow> (cstring, 'w) outcome option" where
  "seqnum_request fuel os argv cfd w =
     (let reqLenStr = (if length argv > 2 then argv ! 2 else ''1'');
          (r, w) = cn_write os cfd reqLenStr w
      in if r \<noteq> Inr (length reqLenStr) then Some (Exit EXIT_FAILURE w)
      else (case cn_write os cfd [newline] w of
        (r, w) \<Rightarrow>
          if r \<noteq> Inr 1 then Some (Exit EXIT_FAILURE w)
          else (case readLine fuel (cn_read os cfd) True INT_LEN w of
             None \<Rightarrow> None
           | Some ((Inl e, _), w) \<Rightarrow> Some (Exit EXIT_FAILURE w)
           | Some ((Inr numRead, seqNumStr), w) \<Rightarrow>
               if numRead = 0 then Some (Exit EXIT_FAILURE w)
               else Some (Ret (''Sequence number: '' @ c_str seqNumStr) w))))"

definition is_seqnum_cl :: "nat \<Rightarrow> 'w conn_os \<Rightarrow> cstring list \<Rightarrow> 'w \<Rightarrow> (cstring, 'w) outcome option" where
  "is_seqnum_cl fuel os argv w =
     (if length argv < 2 \<or> argv ! 1 = ''--help'' then Some (Exit EXIT_FAILURE w)
      else obind_opt (must_get (so_getaddrinfo (cn_sock os) (Some (argv ! 1)) PORT_NUM SOCK_STREAM AI_NUMERICSERV) w) (\<lambda>result w.
        case connect_loop (cn_sock os) result w of
          (None, w) \<Rightarrow> Some (Exit EXIT_FAILURE w)
        | (Some (cfd, rp), w) \<Rightarrow> seqnum_request fuel os argv cfd w))"

definition is_seqnum_v2_cl :: "nat \<Rightarrow> 'w conn_os \<Rightarrow> cstring list \<Rightarrow> 'w \<Rightarrow> (cstring, 'w) outcome option" where
  "is_seqnum_v2_cl fuel os argv w =
     (if length argv < 2 \<or> argv ! 1 = ''--help'' then Some (Exit EXIT_FAILURE w)
      else (case inetConnect (cn_sock os) (argv ! 1) PORT_NUM SOCK_STREAM w of
        (None, w) \<Rightarrow> Some (Exit EXIT_FAILURE w)
      | (Some cfd, w) \<Rightarrow> seqnum_request fuel os argv cfd w))"

section \<open>A third server and client\<close>

text \<open>\<^verbatim>\<open>yis_seqnum_sv.c\<close> keeps the next number in an \<^verbatim>\<open>int\<close>, whose overflow is undefined, reads the length with
  \<^verbatim>\<open>tryGetInt()\<close>, takes every \<^verbatim>\<open>int\<close>, and ends when a \<^verbatim>\<open>close()\<close> fails. The state is the next number and the
  kernel; the messages are left out.\<close>

definition yis_drop :: "'w conn_os \<Rightarrow> int \<Rightarrow> int \<Rightarrow> 'w \<Rightarrow> ('a option, int \<times> 'w) outcome" where
  "yis_drop os connfd num w =
     (case cn_closes os connfd w of (True, w) \<Rightarrow> Ret None (num, w) | (False, w) \<Rightarrow> Exit EXIT_FAILURE (num, w))"

definition yis_turn :: "nat \<Rightarrow> 'w conn_os \<Rightarrow> int \<Rightarrow> int \<times> 'w \<Rightarrow> ((int \<times> int) option, int \<times> 'w) outcome option" where
  "yis_turn fuel os lisnfd s =
     (case s of (num, w) \<Rightarrow>
      case cn_accept os lisnfd w of
        (Inl e, w) \<Rightarrow> Some (Ret None (num, w))
      | (Inr (connfd, claddr, alen), w) \<Rightarrow>
          (case yreadLine fuel (cn_read os connfd) True INT_LEN w of
             None \<Rightarrow> None
           | Some ((Inl e, _), w) \<Rightarrow> Some (yis_drop os connfd num w)
           | Some ((Inr n, reqLenStr), w) \<Rightarrow>
               if n \<le> 0 then Some (yis_drop os connfd num w)
               else
                 (case tryGetInt (Some (c_str reqLenStr)) TGN_IGN_TRAILWS (Some ''int-req-num'') (Some 0) of
                    (TGN_SUCCESS, Some reqLen, _) \<Rightarrow>
                      (case cn_write os connfd (snprintf INT_LEN (dec num @ [newline])) w of
                         (_, w) \<Rightarrow>
                           if in_int (num + reqLen) then
                             (case cn_closes os connfd w of
                                (True, w) \<Rightarrow> Some (Ret (Some (num, reqLen)) (num + reqLen, w))
                              | (False, w) \<Rightarrow> Some (Exit EXIT_FAILURE (num + reqLen, w)))
                           else Some Undef)
                  | _ \<Rightarrow> Some (yis_drop os connfd num w))))"

fun yis_bind_loop :: "'w conn_os \<Rightarrow> addrinfo list \<Rightarrow> 'w \<Rightarrow> (int, 'w) outcome" where
  "yis_bind_loop os [] w = Exit EXIT_FAILURE w"
| "yis_bind_loop os (pt # pts) w =
     (case so_socket (cn_sock os) (ai_family pt) (ai_socktype pt) (ai_protocol pt) w of
        (Inl e, w) \<Rightarrow> yis_bind_loop os pts w
      | (Inr lisnfd, w) \<Rightarrow>
          (case so_reuseaddr (cn_sock os) lisnfd w of
             (Some e, w) \<Rightarrow> Exit EXIT_FAILURE w
           | (None, w) \<Rightarrow>
               (case so_bind (cn_sock os) lisnfd (ai_addr pt) (ai_addrlen pt) w of
                  (None, w) \<Rightarrow> Ret lisnfd w
                | (Some e, w) \<Rightarrow>
                    (case cn_closes os lisnfd w of
                       (True, w) \<Rightarrow> yis_bind_loop os pts w | (False, w) \<Rightarrow> Exit EXIT_FAILURE w))))"

definition yis_seqnum_sv :: "'w conn_os \<Rightarrow> cstring list \<Rightarrow> 'w \<Rightarrow> (int \<times> int, 'w) outcome" where
  "yis_seqnum_sv os argv w =
     obind (init_seqnum argv w) (\<lambda>v w.
     obind (must (cn_ignore_sigpipe os) w) (\<lambda>_ w.
     obind (must_get (so_getaddrinfo (cn_sock os) None PORT_NUM SOCK_STREAM (AI_PASSIVE OR AI_NUMERICSERV)) w) (\<lambda>result w.
     obind (yis_bind_loop os result w) (\<lambda>lisnfd w.
     case so_listen (cn_sock os) lisnfd BACKLOG w of
       (Some e, w) \<Rightarrow> Exit EXIT_FAILURE w
     | (None, w) \<Rightarrow> Ret (lisnfd, sint v) w))))"

text \<open>Its client does not test whether the loop over the addresses found one: \<^verbatim>\<open>sofd\<close> is then what the loop
  left in it, \<open>None\<close> when nothing was assigned. A length that \<^verbatim>\<open>tryGetInt()\<close> refuses leaves a null pointer
  for \<^verbatim>\<open>strlen()\<close>.\<close>

fun yis_connect_loop :: "'w conn_os \<Rightarrow> addrinfo list \<Rightarrow> int option \<Rightarrow> 'w \<Rightarrow> (int option, 'w) outcome" where
  "yis_connect_loop os [] sofd w = Ret sofd w"
| "yis_connect_loop os (pt # pts) _ w =
     (case so_socket (cn_sock os) (ai_family pt) (ai_socktype pt) (ai_protocol pt) w of
        (Inl e, w) \<Rightarrow> yis_connect_loop os pts (Some (-1)) w
      | (Inr sofd, w) \<Rightarrow>
          (case so_connect (cn_sock os) sofd (ai_addr pt) (ai_addrlen pt) w of
             (None, w) \<Rightarrow> Ret (Some sofd) w
           | (Some e, w) \<Rightarrow>
               (case cn_closes os sofd w of
                  (True, w) \<Rightarrow> yis_connect_loop os pts (Some sofd) w
                | (False, w) \<Rightarrow> Exit EXIT_FAILURE w)))"

definition yis_seqnum_cl :: "nat \<Rightarrow> 'w conn_os \<Rightarrow> cstring list \<Rightarrow> 'w \<Rightarrow> (cstring, 'w) outcome option" where
  "yis_seqnum_cl fuel os argv w =
     (if length argv < 2 \<or> argv ! 1 = ''--help'' then Some (Exit EXIT_FAILURE w)
      else obind_opt (must_get (so_getaddrinfo (cn_sock os) (Some (argv ! 1)) PORT_NUM SOCK_STREAM AI_NUMERICSERV) w) (\<lambda>result w.
        obind_opt (yis_connect_loop os result None w) (\<lambda>sofd w.
          case (sofd,
                if length argv > 2 then
                  (if fst (tryGetInt (Some (argv ! 2)) GN_GT_0 (Some ''req-num-str'') None) = TGN_SUCCESS then Some (argv ! 2) else None)
                else Some ''1'') of
            (Some sofd, Some reqNumStr) \<Rightarrow>
              (case cn_write os sofd reqNumStr w of
                 (r, w) \<Rightarrow>
                   if r \<noteq> Inr (length reqNumStr) then Some (Exit EXIT_FAILURE w)
                   else (case cn_write os sofd [newline] w of
                     (r, w) \<Rightarrow>
                       if r \<noteq> Inr 1 then Some (Exit EXIT_FAILURE w)
                       else (case yreadLine fuel (cn_read os sofd) True INT_LEN w of
                          None \<Rightarrow> None
                        | Some ((Inl e, _), w) \<Rightarrow> Some (Exit EXIT_FAILURE w)
                        | Some ((Inr numRead, seqNumStr), w) \<Rightarrow>
                            if numRead = 0 then Some (Exit EXIT_FAILURE w)
                            else Some (Ret (''Sequence length: '' @ take numRead (c_str seqNumStr)) w))))
          | _ \<Rightarrow> Some Undef)))"

section \<open>FIFO server and client\<close>

record request =
  rq_pid :: int
  rq_seqLen :: int

definition CLIENT_FIFO_NAME_LEN :: nat where "CLIENT_FIFO_NAME_LEN = 39"
definition SERVER_FIFO :: cstring where "SERVER_FIFO = ''/tmp/seqnum_sv''"

text \<open>Messages are smaller than \<^verbatim>\<open>PIPE_BUF\<close>, so they arrive whole or not at all: \<open>None\<close> is a \<^verbatim>\<open>read()\<close> or
  \<^verbatim>\<open>write()\<close> that did not transfer the whole structure. A response is its only member.\<close>

record 'w fifo_os =
  ff_mkfifo :: "cstring \<Rightarrow> 'w \<Rightarrow> errno option \<times> 'w"
  ff_open_read :: "cstring \<Rightarrow> 'w \<Rightarrow> (errno + int) \<times> 'w"
  ff_open_write :: "cstring \<Rightarrow> 'w \<Rightarrow> (errno + int) \<times> 'w"
  ff_read_request :: "int \<Rightarrow> 'w \<Rightarrow> request option \<times> 'w"
  ff_write_request :: "int \<Rightarrow> request \<Rightarrow> 'w \<Rightarrow> bool \<times> 'w"
  ff_read_response :: "int \<Rightarrow> 'w \<Rightarrow> int option \<times> 'w"
  ff_write_response :: "int \<Rightarrow> int \<Rightarrow> 'w \<Rightarrow> bool \<times> 'w"
  ff_close :: "int \<Rightarrow> 'w \<Rightarrow> 'w"
  ff_ignore_sigpipe :: "'w \<Rightarrow> bool \<times> 'w"
  ff_atexit :: "'w \<Rightarrow> bool \<times> 'w"

definition client_fifo :: "int \<Rightarrow> cstring" where
  "client_fifo pid = snprintf CLIENT_FIFO_NAME_LEN (''/tmp/seqnum_cl.'' @ dec pid)"

text \<open>\<^verbatim>\<open>seqNum\<close> is an \<^verbatim>\<open>int\<close> here: an addition that leaves its range is undefined. The length is not
  looked at.\<close>

definition fifo_turn :: "'w fifo_os \<Rightarrow> int \<Rightarrow> int \<times> 'w \<Rightarrow> ((int \<times> int) option, int \<times> 'w) outcome" where
  "fifo_turn os serverFd s =
     (case s of (num, w) \<Rightarrow>
      case ff_read_request os serverFd w of
        (None, w) \<Rightarrow> Ret None (num, w)
      | (Some req, w) \<Rightarrow>
          (case ff_open_write os (client_fifo (rq_pid req)) w of
             (Inl e, w) \<Rightarrow> Ret None (num, w)
           | (Inr clientFd, w) \<Rightarrow>
               (case ff_write_response os clientFd num w of
                  (_, w) \<Rightarrow>
                    let w = ff_close os clientFd w in
                    if in_int (num + rq_seqLen req) then
                      Ret (Some (num, rq_seqLen req)) (num + rq_seqLen req, w)
                    else Undef)))"

definition must_fd :: "('w \<Rightarrow> (errno + int) \<times> 'w) \<Rightarrow> 'w \<Rightarrow> (int, 'w) outcome" where
  "must_fd f w = (case f w of (Inr fd, w) \<Rightarrow> Ret fd w | (Inl e, w) \<Rightarrow> Exit EXIT_FAILURE w)"

definition EEXIST :: errno where "EEXIST = EOTHER 17"

definition must_mkfifo :: "'w fifo_os \<Rightarrow> cstring \<Rightarrow> 'w \<Rightarrow> (unit, 'w) outcome" where
  "must_mkfifo os path w =
     (case ff_mkfifo os path w of
        (r, w) \<Rightarrow> if r \<noteq> None \<and> r \<noteq> Some EEXIST then Exit EXIT_FAILURE w else Ret () w)"

definition fifo_server :: "'w fifo_os \<Rightarrow> 'w \<Rightarrow> (int \<times> int, 'w) outcome" where
  "fifo_server os w =
     obind (must_mkfifo os SERVER_FIFO w) (\<lambda>_ w.
     obind (must_fd (ff_open_read os SERVER_FIFO) w) (\<lambda>serverFd w.
     obind (must_fd (ff_open_write os SERVER_FIFO) w) (\<lambda>dummyFd w.
     obind (must (ff_ignore_sigpipe os) w) (\<lambda>_ w. Ret (serverFd, 0) w))))"

definition fifo_client :: "'w fifo_os \<Rightarrow> int \<Rightarrow> cstring list \<Rightarrow> 'w \<Rightarrow> (cstring, 'w) outcome" where
  "fifo_client os pid argv w =
     (if length argv > 1 \<and> argv ! 1 = ''--help'' then Exit EXIT_FAILURE w
      else
        obind (must_mkfifo os (client_fifo pid) w) (\<lambda>_ w.
        obind (must (ff_atexit os) w) (\<lambda>_ w.
        case (if length argv > 1 then getInt (Some (argv ! 1)) GN_GT_0 (Some ''seq-len'') else Inr 1) of
          Inl d \<Rightarrow> Exit EXIT_FAILURE w
        | Inr seqLen \<Rightarrow>
            obind (must_fd (ff_open_write os SERVER_FIFO) w) (\<lambda>serverFd w.
            obind (must (ff_write_request os serverFd \<lparr> rq_pid = pid, rq_seqLen = seqLen \<rparr>) w) (\<lambda>_ w.
            obind (must_fd (ff_open_read os (client_fifo pid)) w) (\<lambda>clientFd w.
            obind (must_get (ff_read_response os clientFd) w) (\<lambda>v w.
              Ret (dec v @ [newline]) w)))))))"

section \<open>What a server promises\<close>

text \<open>The numbers of a run, and how many numbers a list of runs has.\<close>

definition run :: "grant \<Rightarrow> 32 word list" where
  "run g = map (\<lambda>i. fst g + of_nat i) [0..<nat (snd g)]"

definition total :: "grant list \<Rightarrow> nat" where
  "total gs = sum_list (map (\<lambda>g. nat (snd g)) gs)"

definition numbers_from :: "32 word \<Rightarrow> nat \<Rightarrow> 32 word list" where
  "numbers_from a n = map (\<lambda>i. a + of_nat i) [0..<n]"

lemma numbers_from_add: "numbers_from a (m + n) = numbers_from a m @ numbers_from (a + of_nat m) n"
proof -
  have "[m..<m + n] = map (\<lambda>i. i + m) [0..<n]" by (simp add: map_add_upt add.commute)
  moreover have "[0..<m + n] = [0..<m] @ [m..<m + n]" by (simp add: upt_add_eq_append [symmetric])
  ultimately show ?thesis by (simp add: numbers_from_def comp_def add_ac)
qed

lemma distinct_numbers_from: "n \<le> 2 ^ 32 \<Longrightarrow> distinct (numbers_from a n)"
proof -
  assume n: "n \<le> 2 ^ 32"
  have u: "unat (of_nat i :: 32 word) = i" if "i < n" for i
    using that n by (simp add: unat_of_nat)
  have "i = j" if "i < n" "j < n" "(of_nat i :: 32 word) = of_nat j" for i j
    using u [OF that(1)] u [OF that(2)] that(3) by metis
  then show ?thesis by (simp add: numbers_from_def distinct_map inj_on_def)
qed

text \<open>The interface: a turn grants nothing and keeps the next number, or grants a run that begins with
  the next number and moves on by its length.\<close>

locale number_server =
  fixes turn :: "'s \<Rightarrow> (grant option \<times> 's) option" and upcoming :: "'s \<Rightarrow> 32 word"
  assumes no_grant: "turn s = Some (None, s') \<Longrightarrow> upcoming s' = upcoming s"
    and grants: "turn s = Some (Some g, s') \<Longrightarrow> fst g = upcoming s \<and> upcoming s' = upcoming s + word_of_int (snd g)"
begin

lemma consecutive:
  assumes "serve_turns n turn s = Some (gs, s')" and "\<forall>g\<in>set gs. 0 \<le> snd g"
  shows "concat (map run gs) = numbers_from (upcoming s) (total gs) \<and> upcoming s' = upcoming s + of_nat (total gs)"
  using assms
proof (induction n arbitrary: s gs)
  case (Suc n)
  obtain g s1 where t: "turn s = Some (g, s1)" using Suc.prems(1) by (cases "turn s") auto
  then obtain gs1 where r: "serve_turns n turn s1 = Some (gs1, s')"
    and gs: "gs = (case g of None \<Rightarrow> gs1 | Some g \<Rightarrow> g # gs1)"
    using Suc.prems(1) by (auto split: option.splits)
  have "\<forall>g\<in>set gs1. 0 \<le> snd g" using Suc.prems(2) gs by (auto split: option.splits)
  note ih = Suc.IH [OF r this]
  show ?case
  proof (cases g)
    case None
    from ih gs no_grant [OF t [unfolded None]] None show ?thesis by simp
  next
    case (Some h)
    note h = grants [OF t [unfolded Some]]
    have "0 \<le> snd h" using Suc.prems(2) gs Some by simp
    then have w: "(of_nat (nat (snd h)) :: 32 word) = word_of_int (snd h)" by simp
    have "run h = numbers_from (upcoming s) (nat (snd h))" using h by (simp add: run_def numbers_from_def)
    moreover have "total gs = nat (snd h) + total gs1" using gs Some by (simp add: total_def)
    moreover have "concat (map run gs) = run h @ concat (map run gs1)" using gs Some by simp
    ultimately show ?thesis
      using ih h w numbers_from_add [of "upcoming s" "nat (snd h)" "total gs1"] by (simp add: add.assoc)
  qed
qed (simp add: numbers_from_def total_def)

lemma unique:
  assumes "serve_turns n turn s = Some (gs, s')" and "\<forall>g\<in>set gs. 0 \<le> snd g" and "total gs \<le> 2 ^ 32"
  shows "distinct (concat (map run gs))"
  using consecutive [OF assms(1,2)] distinct_numbers_from [OF assms(3)] by simp

end

lemma serve_client_grants:
  assumes "serve_client fuel os cfd s = Some (g, s')"
  shows "case g of None \<Rightarrow> seqNum s' = seqNum s
     | Some g \<Rightarrow> fst g = seqNum s \<and> 0 < snd g \<and> snd g \<le> INT_MAX \<and> seqNum s' = seqNum s + word_of_int (snd g)"
  using assms to_int32_range
  by (auto simp: serve_client_def Let_def atoi_def not_le split: option.splits sum.splits prod.splits if_splits)

lemma seqnum_turn_grants:
  assumes "seqnum_turn fuel os lfd s = Some (g, s') \<or> seqnum_v2_turn fuel os lfd s = Some (g, s')"
  shows "case g of None \<Rightarrow> seqNum s' = seqNum s
     | Some g \<Rightarrow> fst g = seqNum s \<and> 0 < snd g \<and> snd g \<le> INT_MAX \<and> seqNum s' = seqNum s + word_of_int (snd g)"
  using assms
  by (auto simp: seqnum_turn_def seqnum_v2_turn_def Let_def dest!: serve_client_grants split: sum.splits prod.splits option.splits)

interpretation is_sv: number_server "seqnum_turn fuel os lfd" seqNum for fuel os lfd
  by unfold_locales (use seqnum_turn_grants in fastforce)+

interpretation is_v2: number_server "seqnum_v2_turn fuel os lfd" seqNum for fuel os lfd
  by unfold_locales (use seqnum_turn_grants in fastforce)+

text \<open>The FIFO server seen through the interface; undefined behaviour ends the run.\<close>

definition fifo_grant :: "'w fifo_os \<Rightarrow> int \<Rightarrow> int \<times> 'w \<Rightarrow> (grant option \<times> int \<times> 'w) option" where
  "fifo_grant os fd s =
     (case fifo_turn os fd s of Ret g s \<Rightarrow> Some (map_option (\<lambda>(n, l). (word_of_int n, l)) g, s) | _ \<Rightarrow> None)"

interpretation fifo_sv: number_server "fifo_grant os fd" "\<lambda>s. word_of_int (fst s)" for os fd
  by unfold_locales
    (auto simp: fifo_grant_def fifo_turn_def Let_def split: outcome.splits prod.splits option.splits sum.splits if_splits)

text \<open>The third socket server likewise; when it ends or its behaviour is undefined the run ends.\<close>

definition yis_grant :: "nat \<Rightarrow> 'w conn_os \<Rightarrow> int \<Rightarrow> int \<times> 'w \<Rightarrow> (grant option \<times> int \<times> 'w) option" where
  "yis_grant fuel os fd s =
     (case yis_turn fuel os fd s of
        Some (Ret g s) \<Rightarrow> Some (map_option (\<lambda>(n, l). (word_of_int n, l)) g, s) | _ \<Rightarrow> None)"

lemma yis_turn_grants:
  assumes "yis_turn fuel os fd (num, w) = Some (Ret g s')"
  shows "case g of None \<Rightarrow> fst s' = num | Some (n, l) \<Rightarrow> n = num \<and> fst s' = num + l"
  using assms
  by (auto simp: yis_turn_def yis_drop_def split: outcome.splits prod.splits option.splits sum.splits if_splits bool.splits tgn_t.splits)

interpretation yis_sv: number_server "yis_grant fuel os fd" "\<lambda>s. word_of_int (fst s)" for fuel os fd
proof
  show "word_of_int (fst s') = (word_of_int (fst s) :: 32 word)" if "yis_grant fuel os fd s = Some (None, s')" for s s'
    using that yis_turn_grants [of fuel os fd "fst s" "snd s" None s'] by (auto simp: yis_grant_def split: option.splits outcome.splits)
  show "fst g = word_of_int (fst s) \<and> word_of_int (fst s') = word_of_int (fst s) + (word_of_int (snd g) :: 32 word)"
    if "yis_grant fuel os fd s = Some (Some g, s')" for s g s'
    using that yis_turn_grants [of fuel os fd "fst s" "snd s" _ s'] by (auto simp: yis_grant_def split: option.splits outcome.splits)
qed

lemma socket_grants_positive:
  assumes "\<And>s g s'. turn s = Some (Some g, s') \<Longrightarrow> 0 < snd g" and "serve_turns n turn s = Some (gs, s')"
  shows "\<forall>g\<in>set gs. 0 < snd g"
  using assms(2)
proof (induction n arbitrary: s gs)
  case (Suc n)
  then show ?case using assms(1) by (fastforce split: option.splits)
qed simp


section \<open>Requests and replies\<close>

lemma length_dec_nat: "n < 10 ^ k \<Longrightarrow> 0 < k \<Longrightarrow> length (dec_nat n) \<le> k"
proof (induction k arbitrary: n)
  case (Suc k)
  show ?case
  proof (cases "n < 10")
    case True
    then show ?thesis by (subst dec_nat.simps) simp
  next
    case False
    with Suc.prems have "n div 10 < 10 ^ k" "0 < k" by (cases k; simp)+
    with Suc.IH [of "n div 10"] False show ?thesis by (subst dec_nat.simps) simp
  qed
qed simp

lemma length_dec: "in_int v \<Longrightarrow> length (dec v) \<le> 11"
proof -
  assume "in_int v"
  then have "nat v < 10 ^ 10" "nat (- v) < 10 ^ 10" by (simp_all add: in_int_def limit_defs) linarith+
  from this [THEN length_dec_nat] show ?thesis by (simp add: dec_def)
qed

lemma newline_notin_dec: "newline \<notin> set (dec v)"
proof -
  have "\<not> is_digit 10 newline" by (simp add: newline_def is_digit_def digit_val_def)
  then show ?thesis using dec_nat_digits by (auto simp: dec_def newline_def)
qed

lemma dec_inj: "dec v = dec v' \<Longrightarrow> v = v'"
  using strto_dec [of "[]" v] strto_dec [of "[]" v'] by auto

text \<open>A printed number and a newline fit the buffers of both sides.\<close>

lemma dec_line:
  assumes "in_int v"
  shows "line_result INT_LEN (dec v @ newline # rest) = (Inr (Suc (length (dec v))), dec v @ [newline, NUL])"
    and "snprintf INT_LEN (dec v @ [newline]) = dec v @ [newline]"
    and "c_str (dec v @ [newline, NUL]) = dec v @ [newline]"
    and "atoi (dec v @ [newline]) = v"
proof -
  note l = length_dec [OF assms] line_of_append [OF newline_notin_dec [of v], of rest]
  then show "line_result INT_LEN (dec v @ newline # rest) = (Inr (Suc (length (dec v))), dec v @ [newline, NUL])"
    by (simp add: line_result_def INT_LEN_def Let_def)
  show "snprintf INT_LEN (dec v @ [newline]) = dec v @ [newline]"
    using l by (simp add: snprintf_def INT_LEN_def)
  show "c_str (dec v @ [newline, NUL]) = dec v @ [newline]"
    using no_nul_dec [of v] by (simp add: c_str_def no_nul_def takeWhile_append newline_def NUL_def)
  have "\<not> is_digit 10 newline" by (simp add: newline_def is_digit_def digit_val_def)
  then show "atoi (dec v @ [newline]) = v"
    using assms strto_dec [of "[newline]" v] to_int32_id [of v] by (auto simp: in_int_def atoi_def strtoll_def limit_defs)
qed

text \<open>A connection: \<open>cont\<close> is what its peer has sent and was not read yet, \<open>sent\<close> what was written to it.\<close>

definition connection :: "'w reader \<Rightarrow> 'w writer \<Rightarrow> ('w \<Rightarrow> cstring) \<Rightarrow> ('w \<Rightarrow> cstring) \<Rightarrow> ('w \<Rightarrow> nat) \<Rightarrow> bool" where
  "connection rd wr cont sent intr \<longleftrightarrow>
     stream_read rd cont intr \<and> (\<forall>n k. sent (snd (rd n k)) = sent k)
   \<and> (\<forall>bs k. fst (wr bs k) = Inr (length bs) \<and> sent (snd (wr bs k)) = sent k @ bs)"

lemma readLine_loop_keeps:
  assumes "\<And>n k. sent (snd (rd n k)) = sent k"
  shows "readLine_loop fuel rd n buf k = Some (r, k') \<Longrightarrow> sent k' = sent k"
proof (induction fuel arbitrary: buf k)
  case (Suc fuel)
  obtain x k1 where x: "rd 1 k = (x, k1)" by fastforce
  with assms [of 1 k] have k1: "sent k1 = sent k" by simp
  show ?case
  proof (cases x)
    case (Inl e)
    with Suc.prems x k1 Suc.IH [of buf k1] show ?thesis by (simp split: if_splits)
  next
    case (Inr bs)
    let ?b = "if length buf < n - 1 then buf @ [hd bs] else buf"
    from Inr Suc.prems x k1 Suc.IH [of ?b k1] show ?thesis
      by (cases bs; cases "hd bs = newline") (simp_all add: Let_def split: if_splits)
  qed
qed simp

lemma reads_number:
  assumes "connection rd wr cont sent intr" and "in_int v" and "cont w = dec v @ newline # rest"
    and "length (cont w) + intr w < fuel"
  obtains w' where "readLine fuel rd True INT_LEN w = Some ((Inr (Suc (length (dec v))), dec v @ [newline, NUL]), w')"
    and "cont w' = rest" and "sent w' = sent w"
proof -
  have "stream_read rd cont intr" using assms(1) by (simp add: connection_def)
  moreover have n: "0 < INT_LEN" by (simp add: INT_LEN_def)
  ultimately obtain w' where
    r: "readLine fuel rd True INT_LEN w = Some (line_result INT_LEN (cont w), w')" and c: "cont w' = rest_of (cont w)"
    using rl.reads_line [where n = INT_LEN and rd = rd and cont = cont and intr = intr, OF _ _ assms(4)] by blast
  from r n have "readLine_loop fuel rd INT_LEN [] w = Some (line_result INT_LEN (cont w), w')" by (simp add: readLine_def)
  from readLine_loop_keeps [of sent rd, OF _ this] assms(1) have "sent w' = sent w" by (simp add: connection_def)
  moreover have "line_result INT_LEN (cont w) = (Inr (Suc (length (dec v))), dec v @ [newline, NUL])"
    unfolding assms(3) by (rule dec_line(1) [OF assms(2)])
  moreover have "rest_of (cont w) = rest" unfolding assms(3) using line_of_append [OF newline_notin_dec] by blast
  ultimately show thesis using that r c by metis
qed

text \<open>
  Request and reply: a server that accepts a client whose request is the decimal text of a positive
  \<^verbatim>\<open>int\<close> grants exactly that many numbers and writes the decimal text of the first one, and nothing else,
  on that connection before closing it; the client sends its argument and a newline, and prints the
  number that the reply holds.
\<close>

theorem seqnum_exchange:
  assumes "cn_accept os lfd (sv_kern s) = (Inr (cfd, claddr, alen), w)"
    and "connection (cn_read os cfd) (cn_write os cfd) cont sent intr"
    and "0 < len" and "len \<le> INT_MAX" and "cont w = dec len @ newline # rest" and "length (cont w) + intr w < fuel"
    and "connection (cn_read cos fd) (cn_write cos fd) ccont csent cintr"
    and "ccont cc = dec (sint (seqNum s)) @ newline # crest" and "length (ccont cc) + cintr cc < fuel"
    and "cc = snd (cn_write cos fd [newline] (snd (cn_write cos fd (dec len) c)))"
  shows "(\<exists>s' w2. seqnum_turn fuel os lfd s = Some (Some (seqNum s, len), s') \<and> seqNum s' = seqNum s + word_of_int len
        \<and> sv_kern s' = cn_close os cfd w2 \<and> sent w2 = sent w @ dec (sint (seqNum s)) @ [newline])
    \<and> csent cc = csent c @ dec len @ [newline]
    \<and> (\<exists>c3. seqnum_request fuel cos [prog, host, dec len] fd c
          = Some (Ret (''Sequence number: '' @ dec (sint (seqNum s)) @ [newline]) c3) \<and> ccont c3 = crest)"
proof -
  have i: "in_int len" "in_int (sint (seqNum s))"
    using assms(3,4) sint_range_size [of "seqNum s"] by (auto simp: in_int_def limit_defs word_size)
  have wr: "\<exists>k'. cn_write os cfd bs k = (Inr (length bs), k') \<and> sent k' = sent k @ bs" for bs k
    using assms(2) by (metis connection_def prod.collapse)
  have cwr: "\<exists>k'. cn_write cos fd bs k = (Inr (length bs), k') \<and> csent k' = csent k @ bs" for bs k
    using assms(7) by (metis connection_def prod.collapse)
  from reads_number [OF assms(2) i(1) assms(5,6)] obtain w1 where
    rd: "readLine fuel (cn_read os cfd) True INT_LEN w = Some ((Inr (Suc (length (dec len))), dec len @ [newline, NUL]), w1)"
    and w1: "sent w1 = sent w" by blast
  obtain w2 where w2: "cn_write os cfd (dec (sint (seqNum s)) @ [newline]) w1 = (Inr (length (dec (sint (seqNum s)) @ [newline])), w2)"
    "sent w2 = sent w1 @ dec (sint (seqNum s)) @ [newline]" using wr by blast
  have sv: "\<exists>s'. seqnum_turn fuel os lfd s = Some (Some (seqNum s, len), s') \<and> seqNum s' = seqNum s + word_of_int len
      \<and> sv_kern s' = cn_close os cfd w2"
    using assms(1,3) rd w2(1) dec_line [OF i(1)] dec_line [OF i(2)]
    by (simp add: seqnum_turn_def serve_client_def Let_def)
  obtain c1 where c1: "cn_write cos fd (dec len) c = (Inr (length (dec len)), c1)" "csent c1 = csent c @ dec len" using cwr by blast
  obtain c2' where cc: "cn_write cos fd [newline] c1 = (Inr 1, c2')" "csent c2' = csent c1 @ [newline]" using cwr [of "[newline]"] by fastforce
  have c2': "c2' = cc" using assms(10) c1 cc by simp
  from reads_number [OF assms(7) i(2) assms(8,9)] obtain c3 where
    "readLine fuel (cn_read cos fd) True INT_LEN cc = Some ((Inr (Suc (length (dec (sint (seqNum s))))), dec (sint (seqNum s)) @ [newline, NUL]), c3)"
    "ccont c3 = crest" by blast
  with c1 cc c2' dec_line(3) [OF i(2)]
  have "\<exists>c3. seqnum_request fuel cos [prog, host, dec len] fd c
          = Some (Ret (''Sequence number: '' @ dec (sint (seqNum s)) @ [newline]) c3) \<and> ccont c3 = crest"
    by (simp add: seqnum_request_def)
  with sv w1 w2 c1 cc c2' show ?thesis by auto
qed

text \<open>The two clients behave the same when \<^verbatim>\<open>getaddrinfo()\<close> finds the same addresses with and without the flag
  that says that the port is a number.\<close>

lemma seqnum_clients_agree:
  assumes "\<And>h w. so_getaddrinfo (cn_sock os) h PORT_NUM SOCK_STREAM 0 w = so_getaddrinfo (cn_sock os) h PORT_NUM SOCK_STREAM AI_NUMERICSERV w"
  shows "is_seqnum_v2_cl fuel os argv w = is_seqnum_cl fuel os argv w"
  using assms by (auto simp: is_seqnum_v2_cl_def is_seqnum_cl_def inetConnect_def must_get_def split: prod.splits option.splits)

text \<open>The two servers read and answer the same; they differ in the address they print.\<close>

lemma seqnum_turns_agree:
  "map_option (\<lambda>(g, t). (g, t\<lparr> sv_out := [] \<rparr>)) (seqnum_v2_turn fuel os lfd s)
   = map_option (\<lambda>(g, t). (g, t\<lparr> sv_out := [] \<rparr>)) (seqnum_turn fuel os lfd s)"
  by (auto simp: seqnum_v2_turn_def seqnum_turn_def serve_client_def Let_def split: sum.splits prod.splits option.splits)

text \<open>Client and server build the same name for the FIFO of a client, and different clients have
  different FIFOs.\<close>

lemma client_fifo_inj: "in_int p \<Longrightarrow> in_int q \<Longrightarrow> client_fifo p = client_fifo q \<Longrightarrow> p = q"
  using length_dec [of p] length_dec [of q] dec_inj [of p q]
  by (simp add: client_fifo_def snprintf_fits CLIENT_FIFO_NAME_LEN_def)


section \<open>A concrete service\<close>

text \<open>A kernel whose state is the input of the connected client and what was written to it.\<close>

definition demo_conn_os :: "(cstring \<times> cstring) conn_os" where
  "demo_conn_os = \<lparr>
     cn_sock = \<lparr> so_getaddrinfo = \<lambda>h s t p w. (None, w), so_socket = \<lambda>f t p w. (Inr 3, w), so_connect = \<lambda>fd a l w. (None, w),
       so_bind = \<lambda>fd a l w. (None, w), so_reuseaddr = \<lambda>fd w. (None, w), so_listen = \<lambda>fd b w. (None, w), so_close = \<lambda>fd w. w,
       so_remove = \<lambda>p w. (None, w), so_getnameinfo = \<lambda>a l f w. None \<rparr>,
     cn_ignore_sigpipe = \<lambda>w. (True, w), cn_malloc = \<lambda>n w. (True, w),
     cn_accept = \<lambda>lfd w. (Inr (4, ''a'', 1), w),
     cn_read = \<lambda>fd n w. (Inr (take n (fst w)), (drop n (fst w), snd w)),
     cn_write = \<lambda>fd bs w. (Inr (length bs), (fst w, snd w @ bs)),
     cn_closes = \<lambda>fd w. (True, w) \<rparr>"

lemma demo_connection: "connection (cn_read demo_conn_os fd) (cn_write demo_conn_os fd) fst snd (\<lambda>_. 0)"
  by (auto simp: connection_def stream_read_def demo_conn_os_def)

definition demo_sv :: "cstring \<Rightarrow> (cstring \<times> cstring) seqnum_sv" where
  "demo_sv inp = \<lparr> seqNum = 7, sv_out = [], sv_kern = (inp, []) \<rparr>"

lemma digit_line_eq: "dec 5 = ''5''" "dec 2 = ''2''" "dec 7 = ''7''"
  by code_simp+

theorem seqnum_exchange_witness:
  "\<exists>s' w2. seqnum_turn 9 demo_conn_os 3 (demo_sv (''5'' @ [newline])) = Some (Some (7, 5), s') \<and> seqNum s' = 12
     \<and> sv_kern s' = cn_close demo_conn_os 4 w2 \<and> snd w2 = ''7'' @ [newline]"
proof -
  have s: "sint (seqNum (demo_sv inp)) = 7" for inp by (simp add: demo_sv_def)
  show ?thesis
    using seqnum_exchange [where s = "demo_sv (''5'' @ [newline])" and lfd = 3 and cfd = 4 and claddr = "''a''" and alen = 1
        and len = 5 and rest = "[]" and fuel = 9 and w = "(''5'' @ [newline], [])" and fd = 4 and c = "(''7'' @ [newline], [])" and crest = "[]"
        and cc = "(''7'' @ [newline], ''5'' @ [newline])",
        OF _ demo_connection _ _ _ _ demo_connection] s
    by (auto simp: digit_line_eq demo_conn_os_def demo_sv_def limit_defs)
qed


section \<open>What can go wrong\<close>

definition demo_fifo_os :: "request list fifo_os" where
  "demo_fifo_os = \<lparr>
     ff_mkfifo = \<lambda>p w. (None, w), ff_open_read = \<lambda>p w. (Inr 3, w), ff_open_write = \<lambda>p w. (Inr 4, w),
     ff_read_request = \<lambda>fd w. (case w of [] \<Rightarrow> (None, []) | r # rs \<Rightarrow> (Some r, rs)), ff_write_request = \<lambda>fd r w. (True, w @ [r]),
     ff_read_response = \<lambda>fd w. (None, w), ff_write_response = \<lambda>fd v w. (True, w), ff_close = \<lambda>fd w. w,
     ff_ignore_sigpipe = \<lambda>w. (True, w), ff_atexit = \<lambda>w. (True, w) \<rparr>"

text \<open>The FIFO server does not look at the length: after a request for -5 numbers, the same numbers are
  granted again.\<close>

lemma fifo_negative_length_grants_again:
  "\<exists>t. serve_turns 3 (fifo_grant demo_fifo_os 3) (0, [\<lparr> rq_pid = 10, rq_seqLen = 5 \<rparr>, \<lparr> rq_pid = 11, rq_seqLen = -5 \<rparr>, \<lparr> rq_pid = 12, rq_seqLen = 5 \<rparr>])
     = Some ([(0, 5), (5, -5), (0, 5)], t)"
  by (simp add: numeral_3_eq_3 fifo_grant_def fifo_turn_def demo_fifo_os_def in_int_def limit_defs)

text \<open>The third server asks \<^verbatim>\<open>tryGetInt()\<close> for any \<^verbatim>\<open>int\<close> followed by white space and so does the same.\<close>

lemma yis_negative_length_taken: "tryGetInt (Some (dec (-5) @ [newline])) TGN_IGN_TRAILWS (Some ''int-req-num'') (Some 0) = (TGN_SUCCESS, Some (-5), [])"
  using strtoll_dec [of "-5" "[newline]"] strto_dec [of "[newline]" "-5"]
  by (simp add: tryGetInt_def tryGetNum_def gn_base_default store_def flag_def gn_defs limit_defs hasNonWhitespace_def isspace_def newline_def
      is_digit_def digit_val_def gn_base_def)

text \<open>Its client dereferences a null pointer when the length is not a positive \<^verbatim>\<open>int\<close>, and uses whatever
  descriptor is left over when no address could be connected.\<close>

lemma yis_client_null_length:
  assumes "so_getaddrinfo (cn_sock os) (Some host) PORT_NUM SOCK_STREAM AI_NUMERICSERV w = (Some result, w1)"
    and "yis_connect_loop os result None w1 = Ret sofd w2" and "host \<noteq> ''--help''"
    and "fst (tryGetInt (Some len) GN_GT_0 (Some ''req-num-str'') None) = TGN_FAILURE"
  shows "yis_seqnum_cl fuel os [prog, host, len] w = Some Undef"
  using assms by (simp add: yis_seqnum_cl_def must_get_def split: option.splits)

text \<open>The client of the FIFO server only sends positive lengths.\<close>

lemma fifo_client_asks_positive:
  assumes "(if length argv > 1 then getInt (Some (argv ! 1)) GN_GT_0 (Some ''seq-len'') else Inr 1) = Inr seqLen"
  shows "0 < seqLen"
  using assms gint.positive [of "Some (argv ! 1)" GN_GT_0 "Some ''seq-len''" seqLen] by (auto simp: flag_def GN_GT_0_def split: if_splits)

text \<open>Numbers from 2^31 on are printed as negative numbers.\<close>

lemma large_numbers_printed_negative: "dec (sint (word_of_int (2 ^ 31) :: 32 word)) = CHR ''-'' # dec_nat (2 ^ 31)"
  by (simp add: dec_def)

end
