(* ===== verification/Prod_Condvar.thy ===== *)
theory Prod_Condvar
  imports Interleaving Util_Lib
begin

text \<open>
  \<^verbatim>\<open>threads/prod_condvar.c\<close>: any number of producers count units under a mutex and signal a condition
  variable; the main thread consumes all units there are, waits when there are none, and ends when it
  has consumed as many as were asked for on the command line. Producers and main thread are step
  functions, interleaved in any order, one step per call of a pthread function or access to a shared
  variable. A failing pthread call ends the process through its wrapper and is left out.
\<close>

section \<open>State\<close>

datatype ppc = P_Unborn | P_Test | P_Lock | P_Inc | P_Unlock | P_Signal | P_Done

datatype cpc =
    C_Create nat | C_Lock | C_Check | C_Waiting | C_Woken | C_Consume | C_Unlock | C_Test | C_Exit | C_Overflow

record producer_info =
  p_pc :: ppc
  p_j :: int

record pcv =
  producers :: "producer_info list"
  avail :: int
  pc_mtx :: "holder option"
  totRequired :: int
  numConsumed :: int
  done_flag :: bool
  cons_pc :: cpc

definition upd_producer :: "nat \<Rightarrow> (producer_info \<Rightarrow> producer_info) \<Rightarrow> pcv \<Rightarrow> pcv" where
  "upd_producer i f s = s\<lparr> producers := (producers s)[i := f (producers s ! i)] \<rparr>"

section \<open>Steps\<close>

text \<open>\<^verbatim>\<open>producer()\<close>; \<open>args ! i\<close> is its argument. The signal wakes the main thread if it is waiting and is lost
  otherwise. When the process has ended no thread runs.\<close>

definition producer :: "cstring list \<Rightarrow> nat \<Rightarrow> pcv \<Rightarrow> pcv option" where
  "producer args i s =
     (if cons_pc s = C_Exit \<or> cons_pc s = C_Overflow \<or> i \<ge> length (producers s) then None
      else case p_pc (producers s ! i) of
        P_Unborn \<Rightarrow> None
      | P_Test \<Rightarrow>
          Some (upd_producer i (p_pc_update (\<lambda>_. if p_j (producers s ! i) < atoi (args ! i) then P_Lock else P_Done)) s)
      | P_Lock \<Rightarrow>
          if pc_mtx s = None then Some (upd_producer i (p_pc_update (\<lambda>_. P_Inc)) (s\<lparr> pc_mtx := Some (Thread i) \<rparr>)) else None
      | P_Inc \<Rightarrow> Some (upd_producer i (p_pc_update (\<lambda>_. P_Unlock)) (s\<lparr> avail := avail s + 1 \<rparr>))
      | P_Unlock \<Rightarrow> Some (upd_producer i (p_pc_update (\<lambda>_. P_Signal)) (s\<lparr> pc_mtx := None \<rparr>))
      | P_Signal \<Rightarrow>
          Some (upd_producer i (\<lambda>p. p\<lparr> p_pc := P_Test, p_j := p_j p + 1 \<rparr>)
            (s\<lparr> cons_pc := if cons_pc s = C_Waiting then C_Woken else cons_pc s \<rparr>))
      | P_Done \<Rightarrow> None)"

text \<open>\<^verbatim>\<open>main()\<close>. The sum of the arguments is an \<^verbatim>\<open>int\<close>, whose overflow is undefined.\<close>

definition consumer :: "cstring list \<Rightarrow> pcv \<Rightarrow> pcv option" where
  "consumer args s =
     (case cons_pc s of
        C_Create j \<Rightarrow>
          if j < length args then
            (if in_int (totRequired s + atoi (args ! j)) then
               Some (upd_producer j (p_pc_update (\<lambda>_. P_Test))
                 (s\<lparr> totRequired := totRequired s + atoi (args ! j), cons_pc := C_Create (j + 1) \<rparr>))
             else Some (s\<lparr> cons_pc := C_Overflow \<rparr>))
          else Some (s\<lparr> cons_pc := C_Lock \<rparr>)
      | C_Lock \<Rightarrow> if pc_mtx s = None then Some (s\<lparr> pc_mtx := Some Main, cons_pc := C_Check \<rparr>) else None
      | C_Check \<Rightarrow>
          if avail s = 0 then Some (s\<lparr> pc_mtx := None, cons_pc := C_Waiting \<rparr>) else Some (s\<lparr> cons_pc := C_Consume \<rparr>)
      | C_Waiting \<Rightarrow> None
      | C_Woken \<Rightarrow> if pc_mtx s = None then Some (s\<lparr> pc_mtx := Some Main, cons_pc := C_Check \<rparr>) else None
      | C_Consume \<Rightarrow>
          if avail s > 0 then
            Some (s\<lparr> avail := avail s - 1, numConsumed := numConsumed s + 1, done_flag := numConsumed s + 1 \<ge> totRequired s \<rparr>)
          else Some (s\<lparr> cons_pc := C_Unlock \<rparr>)
      | C_Unlock \<Rightarrow> Some (s\<lparr> pc_mtx := None, cons_pc := C_Test \<rparr>)
      | C_Test \<Rightarrow> Some (s\<lparr> cons_pc := if done_flag s then C_Exit else C_Lock \<rparr>)
      | C_Exit \<Rightarrow> None
      | C_Overflow \<Rightarrow> None)"

definition pcv_start :: "cstring list \<Rightarrow> pcv" where
  "pcv_start args = \<lparr> producers = replicate (length args) \<lparr> p_pc = P_Unborn, p_j = 0 \<rparr>, avail = 0, pc_mtx = None,
     totRequired = 0, numConsumed = 0, done_flag = False, cons_pc = C_Create 0 \<rparr>"

text \<open>The flag marks a spurious wake-up.\<close>

inductive pcv_step :: "cstring list \<Rightarrow> bool \<Rightarrow> pcv \<Rightarrow> pcv \<Rightarrow> bool" for args where
  main: "consumer args s = Some t \<Longrightarrow> pcv_step args False s t"
| thread: "producer args i s = Some t \<Longrightarrow> pcv_step args False s t"
| spurious: "cons_pc s = C_Waiting \<Longrightarrow> pcv_step args True s (s\<lparr> cons_pc := C_Woken \<rparr>)"

inductive_cases pcv_stepE: "pcv_step args b s t"

section \<open>The invariant\<close>

text \<open>The command lines for which the total is what the producers make.\<close>

definition quota :: "cstring list \<Rightarrow> nat \<Rightarrow> nat" where
  "quota args i = nat (atoi (args ! i))"

definition total_units :: "cstring list \<Rightarrow> nat" where
  "total_units args = (\<Sum>i<length args. quota args i)"

definition proper_args :: "cstring list \<Rightarrow> bool" where
  "proper_args args \<longleftrightarrow> (\<forall>a\<in>set args. 0 \<le> atoi a) \<and> 0 < total_units args \<and> int (total_units args) \<le> INT_MAX"

definition p_holds :: "ppc \<Rightarrow> bool" where "p_holds p \<longleftrightarrow> p = P_Inc \<or> p = P_Unlock"
definition c_holds :: "cpc \<Rightarrow> bool" where "c_holds p \<longleftrightarrow> p = C_Check \<or> p = C_Consume \<or> p = C_Unlock"

text \<open>The units a producer has counted so far.\<close>

definition made :: "producer_info \<Rightarrow> nat" where
  "made p = nat (p_j p) + of_bool (p_pc p = P_Unlock \<or> p_pc p = P_Signal)"

definition p_ok :: "cstring list \<Rightarrow> nat \<Rightarrow> producer_info \<Rightarrow> bool" where
  "p_ok args i p \<longleftrightarrow> 0 \<le> p_j p \<and> p_j p \<le> int (quota args i)
     \<and> (p_pc p \<in> {P_Lock, P_Inc, P_Unlock, P_Signal} \<longrightarrow> p_j p < int (quota args i))
     \<and> (p_pc p = P_Done \<longrightarrow> p_j p = int (quota args i)) \<and> (p_pc p = P_Unborn \<longrightarrow> p_j p = 0)"

definition born :: "nat \<Rightarrow> cpc \<Rightarrow> nat" where
  "born n p = (case p of C_Create j \<Rightarrow> j | _ \<Rightarrow> n)"

definition threads_ok :: "cstring list \<Rightarrow> pcv \<Rightarrow> bool" where
  "threads_ok args s \<longleftrightarrow> length (producers s) = length args
     \<and> (\<forall>i<length args. p_ok args i (producers s ! i) \<and> (p_pc (producers s ! i) = P_Unborn \<longleftrightarrow> born (length args) (cons_pc s) \<le> i)
         \<and> (p_holds (p_pc (producers s ! i)) \<longleftrightarrow> pc_mtx s = Some (Thread i)))
     \<and> (\<forall>i. pc_mtx s = Some (Thread i) \<longrightarrow> i < length args)"

definition c_idle :: "cpc \<Rightarrow> bool" where "c_idle p \<longleftrightarrow> p = C_Lock \<or> p = C_Check \<or> p = C_Waiting \<or> p = C_Woken"

definition main_ok :: "cstring list \<Rightarrow> pcv \<Rightarrow> bool" where
  "main_ok args s \<longleftrightarrow> (c_holds (cons_pc s) \<longleftrightarrow> pc_mtx s = Some Main) \<and> cons_pc s \<noteq> C_Overflow
     \<and> born (length args) (cons_pc s) \<le> length args
     \<and> totRequired s = (\<Sum>i<born (length args) (cons_pc s). int (quota args i))
     \<and> (done_flag s \<longleftrightarrow> 0 < numConsumed s \<and> totRequired s \<le> numConsumed s)
     \<and> (\<forall>j. cons_pc s = C_Create j \<longrightarrow> numConsumed s = 0) \<and> (cons_pc s = C_Exit \<longrightarrow> done_flag s)
     \<and> (c_idle (cons_pc s) \<longrightarrow> \<not> done_flag s)"

definition counts_ok :: "pcv \<Rightarrow> bool" where
  "counts_ok s \<longleftrightarrow> 0 \<le> avail s \<and> 0 \<le> numConsumed s
     \<and> numConsumed s + avail s = int (sum_at (\<lambda>_. made) (producers s))
     \<and> (cons_pc s = C_Waiting \<and> 0 < avail s \<longrightarrow> (\<exists>i<length (producers s). p_pc (producers s ! i) \<in> {P_Unlock, P_Signal}))"

definition pcv_inv :: "cstring list \<Rightarrow> pcv \<Rightarrow> bool" where
  "pcv_inv args s \<longleftrightarrow> threads_ok args s \<and> main_ok args s \<and> counts_ok s"


lemma pcv_inv_start: "pcv_inv args (pcv_start args)"
  by (auto simp: pcv_inv_def threads_ok_def main_ok_def counts_ok_def pcv_start_def p_ok_def p_holds_def c_holds_def c_idle_def born_def
      sum_at_def made_def)

text \<open>What a step of a producer does.\<close>

lemma producer_cases:
  assumes "producer args i s = Some t"
  obtains p where "cons_pc s \<noteq> C_Exit" "cons_pc s \<noteq> C_Overflow" "i < length (producers s)"
    "producers t = (producers s)[i := p]" "totRequired t = totRequired s" "numConsumed t = numConsumed s" "done_flag t = done_flag s"
    "(p_pc (producers s ! i) = P_Test \<and> p = (producers s ! i)\<lparr> p_pc := if p_j (producers s ! i) < atoi (args ! i) then P_Lock else P_Done \<rparr>
         \<and> pc_mtx t = pc_mtx s \<and> avail t = avail s \<and> cons_pc t = cons_pc s)
     \<or> (p_pc (producers s ! i) = P_Lock \<and> p = (producers s ! i)\<lparr> p_pc := P_Inc \<rparr>
         \<and> pc_mtx s = None \<and> pc_mtx t = Some (Thread i) \<and> avail t = avail s \<and> cons_pc t = cons_pc s)
     \<or> (p_pc (producers s ! i) = P_Inc \<and> p = (producers s ! i)\<lparr> p_pc := P_Unlock \<rparr>
         \<and> pc_mtx t = pc_mtx s \<and> avail t = avail s + 1 \<and> cons_pc t = cons_pc s)
     \<or> (p_pc (producers s ! i) = P_Unlock \<and> p = (producers s ! i)\<lparr> p_pc := P_Signal \<rparr>
         \<and> pc_mtx t = None \<and> avail t = avail s \<and> cons_pc t = cons_pc s)
     \<or> (p_pc (producers s ! i) = P_Signal \<and> p = (producers s ! i)\<lparr> p_pc := P_Test, p_j := p_j (producers s ! i) + 1 \<rparr>
         \<and> pc_mtx t = pc_mtx s \<and> avail t = avail s \<and> cons_pc t = (if cons_pc s = C_Waiting then C_Woken else cons_pc s))"
proof -
  have g: "cons_pc s \<noteq> C_Exit" "cons_pc s \<noteq> C_Overflow" "i < length (producers s)"
    using assms by (auto simp: producer_def split: if_splits)
  show thesis
  proof (rule that [OF g, of "producers t ! i"])
  qed (use assms g in \<open>cases "p_pc (producers s ! i)"; auto simp: producer_def upd_producer_def split: if_splits\<close>)+
qed

lemma born_woken: "born n (if c = C_Waiting then C_Woken else c) = born n c"
  by (simp add: born_def)

lemma pcv_threads_upd:
  assumes "threads_ok args s" and "i < length args" and "producers t = (producers s)[i := p]" and "p_ok args i p"
    and "p_pc p = P_Unborn \<longleftrightarrow> born (length args) (cons_pc t) \<le> i"
    and "p_holds (p_pc p) \<longleftrightarrow> pc_mtx t = Some (Thread i)" and "\<And>j. j \<noteq> i \<Longrightarrow> pc_mtx t = Some (Thread j) \<longleftrightarrow> pc_mtx s = Some (Thread j)"
    and "\<And>j. j < length args \<Longrightarrow> j \<noteq> i \<Longrightarrow> born (length args) (cons_pc t) \<le> j \<longleftrightarrow> born (length args) (cons_pc s) \<le> j"
  shows "threads_ok args t"
proof -
  have len: "length (producers s) = length args" using assms(1) by (simp add: threads_ok_def)
  have "p_ok args j (producers t ! j) \<and> (p_pc (producers t ! j) = P_Unborn \<longleftrightarrow> born (length args) (cons_pc t) \<le> j)
         \<and> (p_holds (p_pc (producers t ! j)) \<longleftrightarrow> pc_mtx t = Some (Thread j))" if "j < length args" for j
  proof (cases "j = i")
    case True
    with assms(3-6) len that show ?thesis by simp
  next
    case False
    with assms(1,3,7,8) that show ?thesis by (simp add: threads_ok_def)
  qed
  moreover have "j < length args" if "pc_mtx t = Some (Thread j)" for j
    using that assms(1,2,7) by (cases "j = i") (auto simp: threads_ok_def)
  ultimately show ?thesis using assms(3) len by (simp add: threads_ok_def)
qed

lemma threads_okD:
  assumes "threads_ok args s" and "i < length args"
  shows "p_ok args i (producers s ! i)" and "p_pc (producers s ! i) = P_Unborn \<longleftrightarrow> born (length args) (cons_pc s) \<le> i"
    and "p_holds (p_pc (producers s ! i)) \<longleftrightarrow> pc_mtx s = Some (Thread i)" and "length (producers s) = length args"
  using assms by (auto simp: threads_ok_def)

lemma producer_threads_ok:
  assumes st: "producer args i s = Some t" and ok: "threads_ok args s"
  shows "threads_ok args t"
  using st
proof (cases rule: producer_cases)
  case (1 p)
  then have i: "i < length args" using ok by (simp add: threads_ok_def)
  note d = threads_okD [OF ok i]
  have q: "p_j (producers s ! i) < atoi (args ! i) \<longleftrightarrow> p_j (producers s ! i) < int (quota args i)"
    using d(1) by (auto simp: p_ok_def quota_def)
  have b: "born (length args) (cons_pc t) = born (length args) (cons_pc s)" using 1(8) born_woken by auto
  have mx: "pc_mtx t = Some (Thread j) \<longleftrightarrow> pc_mtx s = Some (Thread j)" if "j \<noteq> i" for j
    using 1(8) d(3) that by (auto simp: p_holds_def)
  have "p_ok args i p" using 1(8) d(1) q by (elim disjE conjE; simp add: p_ok_def)
  moreover have "p_pc p = P_Unborn \<longleftrightarrow> p_pc (producers s ! i) = P_Unborn" using 1(8) by (elim disjE conjE; simp)
  moreover have "p_holds (p_pc p) \<longleftrightarrow> pc_mtx t = Some (Thread i)" using 1(8) d(3) by (elim disjE conjE; simp add: p_holds_def)
  ultimately show ?thesis using pcv_threads_upd [OF ok i 1(4)] d(2) b mx by simp
qed

lemma producer_main_ok:
  assumes st: "producer args i s = Some t" and "threads_ok args s" and "main_ok args s"
  shows "main_ok args t"
  using st
proof (cases rule: producer_cases)
  case (1 p)
  then have i: "i < length args" using assms(2) by (simp add: threads_ok_def)
  have "c_holds (cons_pc t) \<longleftrightarrow> c_holds (cons_pc s)" "c_idle (cons_pc t) \<longleftrightarrow> c_idle (cons_pc s)"
    using 1(8) by (auto simp: c_holds_def c_idle_def split: if_splits)
  moreover have "pc_mtx t = Some Main \<longleftrightarrow> pc_mtx s = Some Main"
    using 1(8) threads_okD(3) [OF assms(2) i] by (auto simp: p_holds_def)
  moreover have "born (length args) (cons_pc t) = born (length args) (cons_pc s)" using 1(8) born_woken by auto
  moreover have "cons_pc t = C_Create j \<longleftrightarrow> cons_pc s = C_Create j" "cons_pc t = C_Overflow \<longleftrightarrow> cons_pc s = C_Overflow"
    "cons_pc t = C_Exit \<longleftrightarrow> cons_pc s = C_Exit" for j using 1(8) by (auto split: if_splits)
  ultimately show ?thesis using assms(3) 1(1,5-7) unfolding main_ok_def by metis
qed

lemma producer_counts_ok:
  assumes st: "producer args i s = Some t" and "threads_ok args s" and "counts_ok s" and "main_ok args s"
  shows "counts_ok t"
  using st
proof (cases rule: producer_cases)
  case (1 p)
  then have i: "i < length args" using assms(2) by (simp add: threads_ok_def)
  have j: "0 \<le> p_j (producers s ! i)" using threads_okD(1) [OF assms(2) i] by (simp add: p_ok_def)
  have "int (sum_at (\<lambda>_. made) (producers t)) + int (made (producers s ! i)) = int (sum_at (\<lambda>_. made) (producers s)) + int (made p)"
    using sum_at_upd [OF 1(3), of "\<lambda>_. made" p] 1(4) by (metis of_nat_add)
  moreover have "int (made p) = int (made (producers s ! i)) + (avail t - avail s)" using 1(8) j by (auto simp: made_def split: if_splits)
  ultimately have c: "numConsumed t + avail t = int (sum_at (\<lambda>_. made) (producers t))"
    using assms(3) 1(6) by (simp add: counts_ok_def)
  have w: "\<exists>k<length (producers t). p_pc (producers t ! k) \<in> {P_Unlock, P_Signal}" if wt: "cons_pc t = C_Waiting" "0 < avail t"
  proof (cases "p_pc (producers s ! i) = P_Inc \<or> p_pc (producers s ! i) = P_Unlock")
    case True
    then have "p_pc p \<in> {P_Unlock, P_Signal}" using 1(8) by auto
    with 1(3,4) show ?thesis by (intro exI [of _ i]) simp
  next
    case False
    then have "avail s = avail t" "cons_pc s = C_Waiting" using wt 1(8) by (auto split: if_splits)
    then obtain k where k: "k < length (producers s)" "p_pc (producers s ! k) \<in> {P_Unlock, P_Signal}"
      using assms(3) wt by (auto simp: counts_ok_def)
    have "p_pc (producers s ! i) \<noteq> P_Signal" using wt \<open>cons_pc s = C_Waiting\<close> 1(8) by auto
    then have "k \<noteq> i" using k False by auto
    with k 1(4) show ?thesis by (intro exI [of _ k]) simp
  qed
  from c w assms(3) 1(6,8) show ?thesis unfolding counts_ok_def by auto
qed

section \<open>The main thread\<close>

lemma born_at_most: "born n p \<le> n \<Longrightarrow> (\<Sum>i<born n p. int (f i)) \<le> (\<Sum>i<n. int (f i))"
  by (intro sum_mono2) auto

lemma consumer_create:
  assumes "consumer args s = Some t" and "cons_pc s = C_Create j" and "j < length args" and "proper_args args" and "pcv_inv args s"
  shows "in_int (totRequired s + atoi (args ! j))" and "int (quota args j) = atoi (args ! j)"
    and "t = upd_producer j (p_pc_update (\<lambda>_. P_Test)) (s\<lparr> totRequired := totRequired s + int (quota args j), cons_pc := C_Create (j + 1) \<rparr>)"
proof -
  show q: "int (quota args j) = atoi (args ! j)" using assms(3,4) by (simp add: quota_def proper_args_def)
  have "totRequired s = (\<Sum>i<j. int (quota args i))" using assms(2,5) by (simp add: pcv_inv_def main_ok_def born_def)
  then have "totRequired s + int (quota args j) = (\<Sum>i<Suc j. int (quota args i))" by simp
  moreover have "\<dots> \<le> (\<Sum>i<length args. int (quota args i))" using assms(3) by (intro sum_mono2) auto
  moreover have "\<dots> \<le> INT_MAX" using assms(4) by (simp add: proper_args_def total_units_def)
  moreover have "0 \<le> totRequired s" using \<open>totRequired s = _\<close> by (simp add: sum_nonneg)
  ultimately show i: "in_int (totRequired s + atoi (args ! j))" unfolding q [symmetric] by (simp add: in_int_def limit_defs)
  show "t = upd_producer j (p_pc_update (\<lambda>_. P_Test)) (s\<lparr> totRequired := totRequired s + int (quota args j), cons_pc := C_Create (j + 1) \<rparr>)"
    using assms(1-3) i q by (simp add: consumer_def)
qed

text \<open>All other steps leave the producers alone.\<close>

lemma consumer_quiet:
  assumes "consumer args s = Some t" and "\<And>j. cons_pc s = C_Create j \<Longrightarrow> j \<ge> length args" and "c_holds (cons_pc s) \<longleftrightarrow> pc_mtx s = Some Main"
  shows "producers t = producers s" "totRequired t = totRequired s" "born (length args) (cons_pc t) = length args"
    "cons_pc t \<noteq> C_Overflow" "cons_pc t \<noteq> C_Create j"
    "pc_mtx t = Some (Thread j) \<longleftrightarrow> pc_mtx s = Some (Thread j)" "c_holds (cons_pc t) \<longleftrightarrow> pc_mtx t = Some Main"
proof -
  have n: "\<not> j < length args" if "cons_pc s = C_Create j" for j using assms(2) [OF that] by simp
  show "producers t = producers s" "totRequired t = totRequired s" "born (length args) (cons_pc t) = length args"
    "cons_pc t \<noteq> C_Overflow" "cons_pc t \<noteq> C_Create j"
    "pc_mtx t = Some (Thread j) \<longleftrightarrow> pc_mtx s = Some (Thread j)" "c_holds (cons_pc t) \<longleftrightarrow> pc_mtx t = Some Main"
    using assms(1,3) n by (cases "cons_pc s"; auto simp: consumer_def born_def c_holds_def split: if_splits)+
qed

lemma main_okD:
  assumes "main_ok args s"
  shows "c_holds (cons_pc s) \<longleftrightarrow> pc_mtx s = Some Main" and "born (length args) (cons_pc s) \<le> length args"
    and "totRequired s = (\<Sum>i<born (length args) (cons_pc s). int (quota args i))"
    and "done_flag s \<longleftrightarrow> 0 < numConsumed s \<and> totRequired s \<le> numConsumed s" and "cons_pc s = C_Exit \<Longrightarrow> done_flag s"
    and "cons_pc s \<noteq> C_Overflow" and "c_idle (cons_pc s) \<Longrightarrow> \<not> done_flag s" and "cons_pc s = C_Create j \<Longrightarrow> numConsumed s = 0"
  using assms by (auto simp: main_ok_def)

lemma pcv_counts_okD:
  assumes "counts_ok s"
  shows "0 \<le> avail s" and "0 \<le> numConsumed s" and "numConsumed s + avail s = int (sum_at (\<lambda>_. made) (producers s))"
  using assms by (auto simp: counts_ok_def)

lemma born_all:
  assumes "\<And>j. cons_pc s = C_Create j \<Longrightarrow> j \<ge> length args" and "born (length args) (cons_pc s) \<le> length args"
  shows "born (length args) (cons_pc s) = length args"
proof (cases "\<exists>j. cons_pc s = C_Create j")
  case True
  with assms show ?thesis by (auto simp: born_def)
next
  case False
  then show ?thesis by (cases "cons_pc s") (auto simp: born_def)
qed

lemma consumer_quiet_main:
  assumes st: "consumer args s = Some t" and q: "\<And>j. cons_pc s = C_Create j \<Longrightarrow> j \<ge> length args" and "main_ok args s" and "counts_ok s"
  shows "main_ok args t"
proof -
  note m = main_okD [OF assms(3)] and c = pcv_counts_okD [OF assms(4)]
  note qu = consumer_quiet [OF st q m(1)] and b = born_all [of s args, OF q m(2)]
  have same: "done_flag t = done_flag s \<and> numConsumed t = numConsumed s
      \<or> done_flag t = (totRequired s \<le> numConsumed s + 1) \<and> numConsumed t = numConsumed s + 1"
    using st by (cases "cons_pc s") (auto simp: consumer_def upd_producer_def split: if_splits)
  have d: "done_flag t \<longleftrightarrow> 0 < numConsumed t \<and> totRequired t \<le> numConsumed t"
    using same m(4) c(2) qu(2) by presburger
  have e: "cons_pc t = C_Exit \<longrightarrow> done_flag t"
    using st by (cases "cons_pc s") (auto simp: consumer_def upd_producer_def split: if_splits)
  have z: "\<not> done_flag s" if "cons_pc s = C_Create j" for j using m(4,8) that by simp
  have f: "c_idle (cons_pc t) \<longrightarrow> \<not> done_flag t"
    using st m(7) z by (cases "cons_pc s") (auto simp: consumer_def upd_producer_def c_idle_def split: if_splits)
  have "totRequired t = (\<Sum>i<born (length args) (cons_pc t). int (quota args i))" by (simp only: qu(2,3) m(3) b)
  with d e f qu(3,4,5,7) show ?thesis by (simp add: main_ok_def)
qed

lemma consumer_quiet_counts:
  assumes st: "consumer args s = Some t" and q: "\<And>j. cons_pc s = C_Create j \<Longrightarrow> j \<ge> length args" and "main_ok args s" and "counts_ok s"
  shows "counts_ok t"
proof -
  note c = pcv_counts_okD [OF assms(4)]
  have "producers t = producers s" using consumer_quiet(1) [OF st q main_okD(1) [OF assms(3)]] .
  moreover have "0 \<le> avail t" "0 \<le> numConsumed t" "numConsumed t + avail t = numConsumed s + avail s"
      "\<not> (cons_pc t = C_Waiting \<and> 0 < avail t)"
    using st c(1,2) by (cases "cons_pc s"; auto simp: consumer_def upd_producer_def split: if_splits)+
  ultimately show ?thesis using c(3) by (auto simp: counts_ok_def)
qed

lemma consumer_inv:
  assumes st: "consumer args s = Some t" and inv: "pcv_inv args s" and proper: "proper_args args"
  shows "pcv_inv args t"
proof (cases "\<exists>j. cons_pc s = C_Create j \<and> j < length args")
  case True
  then obtain j where j: "cons_pc s = C_Create j" "j < length args" by blast
  note c = consumer_create [OF st j proper inv]
  have ok: "threads_ok args s" "main_ok args s" "counts_ok s" using inv by (auto simp: pcv_inv_def)
  note d = threads_okD [OF ok(1) j(2)]
  have unborn: "p_pc (producers s ! j) = P_Unborn" "p_j (producers s ! j) = 0" using d(1,2) j by (auto simp: born_def p_ok_def)
  have "threads_ok args t"
    by (rule pcv_threads_upd [OF ok(1) j(2), where p = "(producers s ! j)\<lparr> p_pc := P_Test \<rparr>"])
      (use c(3) j d unborn in \<open>auto simp: upd_producer_def p_ok_def born_def p_holds_def\<close>)
  moreover have "main_ok args t" using ok(2) c(3) j by (auto simp: main_ok_def upd_producer_def born_def c_holds_def c_idle_def)
  moreover have "counts_ok t"
    using ok(3) c(3) j unborn sum_at_upd [of j "producers s" "\<lambda>_. made" "(producers s ! j)\<lparr> p_pc := P_Test \<rparr>"] d(4)
    by (simp add: counts_ok_def upd_producer_def made_def)
  ultimately show ?thesis by (simp add: pcv_inv_def)
next
  case False
  then have q: "\<And>j. cons_pc s = C_Create j \<Longrightarrow> j \<ge> length args" by (meson not_less)
  have ok: "threads_ok args s" "main_ok args s" "counts_ok s" using inv by (auto simp: pcv_inv_def)
  note m = main_okD [OF ok(2)]
  note qu = consumer_quiet [OF st q m(1)] and b = born_all [of s args, OF q m(2)]
  have "threads_ok args t" using ok(1) qu b by (simp add: threads_ok_def)
  with consumer_quiet_main [OF st q ok(2,3)] consumer_quiet_counts [OF st q ok(2,3)] show ?thesis by (simp add: pcv_inv_def)
qed

lemma pcv_step_inv:
  assumes "pcv_step args b s t" and inv: "pcv_inv args s" and "proper_args args"
  shows "pcv_inv args t"
  using assms(1)
proof cases
  case main
  from consumer_inv [OF main(2) inv assms(3)] show ?thesis .
next
  case (thread i)
  with producer_threads_ok [OF thread(2)] producer_main_ok [OF thread(2)] producer_counts_ok [OF thread(2)] inv
  show ?thesis by (simp add: pcv_inv_def)
next
  case spurious
  then show ?thesis using inv
    by (auto simp: pcv_inv_def threads_ok_def main_ok_def counts_ok_def born_def c_holds_def c_idle_def)
qed

section \<open>Progress\<close>

lemma made_le: "p_ok args i p \<Longrightarrow> made p \<le> quota args i"
  by (auto simp: p_ok_def made_def)

lemma made_sum_le: "threads_ok args s \<Longrightarrow> sum_at (\<lambda>_. made) (producers s) \<le> total_units args"
  using made_le by (auto simp: threads_ok_def sum_at_def total_units_def intro!: sum_mono)

text \<open>A producer that is not blocked and not done can take a step.\<close>

lemma producer_can_step:
  assumes "cons_pc s \<noteq> C_Exit" "cons_pc s \<noteq> C_Overflow" "i < length (producers s)"
    and "p_pc (producers s ! i) \<notin> {P_Unborn, P_Done}" and "p_pc (producers s ! i) = P_Lock \<Longrightarrow> pc_mtx s = None"
  shows "\<exists>t. producer args i s = Some t"
  using assms by (cases "p_pc (producers s ! i)") (auto simp: producer_def)

lemma waiting_progress:
  assumes inv: "pcv_inv args s" and proper: "proper_args args" and w: "cons_pc s = C_Waiting" and m: "pc_mtx s = None"
  shows "\<exists>i t. producer args i s = Some t"
proof -
  have ok: "threads_ok args s" "main_ok args s" "counts_ok s" using inv by (auto simp: pcv_inv_def)
  have len: "length (producers s) = length args" using ok(1) by (simp add: threads_ok_def)
  show ?thesis
  proof (cases "0 < avail s")
    case True
    then obtain i where "i < length (producers s)" "p_pc (producers s ! i) \<in> {P_Unlock, P_Signal}"
      using ok(3) w by (auto simp: counts_ok_def)
    then show ?thesis using producer_can_step [of s i args] w by auto
  next
    case False
    have nd: "\<not> done_flag s" using main_okD(7) [OF ok(2)] w by (simp add: c_idle_def)
    have tot: "totRequired s = int (total_units args)" using main_okD(3) [OF ok(2)] w by (simp add: born_def total_units_def)
    have "numConsumed s < int (total_units args)"
      using nd main_okD(4) [OF ok(2)] proper pcv_counts_okD(2) [OF ok(3)] unfolding tot proper_args_def by linarith
    then have "int (sum_at (\<lambda>_. made) (producers s)) < int (total_units args)"
      using pcv_counts_okD(1,3) [OF ok(3)] False by linarith
    moreover have "total_units args = sum_at (\<lambda>i _. quota args i) (producers s)" using len by (simp add: sum_at_def total_units_def)
    ultimately have "sum_at (\<lambda>_. made) (producers s) < sum_at (\<lambda>i _. quota args i) (producers s)" by simp
    from sum_at_less [OF _ this] made_le threads_okD(1) [OF ok(1)] len
    obtain i where i: "i < length args" "made (producers s ! i) < quota args i" by auto
    note d = threads_okD [OF ok(1) i(1)]
    have "p_pc (producers s ! i) \<notin> {P_Unborn, P_Done}" using d(1,2) i w by (auto simp: p_ok_def made_def born_def)
    then show ?thesis using producer_can_step [of s i args] w m i(1) len by auto
  qed
qed

lemma pcv_progress:
  assumes inv: "pcv_inv args s" and proper: "proper_args args" and "cons_pc s \<noteq> C_Exit"
  shows "\<exists>t. pcv_step args False s t"
proof -
  have ok: "threads_ok args s" "main_ok args s" using inv by (auto simp: pcv_inv_def)
  have o: "cons_pc s \<noteq> C_Overflow" by (rule main_okD(6) [OF ok(2)])
  show ?thesis
  proof (cases "\<exists>i. pc_mtx s = Some (Thread i)")
    case True
    then obtain i where i: "pc_mtx s = Some (Thread i)" "i < length args" using ok(1) by (auto simp: threads_ok_def)
    then have "p_holds (p_pc (producers s ! i))" using threads_okD(3) [OF ok(1) i(2)] by simp
    then have "\<exists>t. producer args i s = Some t"
      using producer_can_step [of s i args] assms(3) o i(2) threads_okD(4) [OF ok(1) i(2)] by (auto simp: p_holds_def)
    then show ?thesis by (blast intro: pcv_step.thread)
  next
    case False
    then have m: "pc_mtx s = None \<or> pc_mtx s = Some Main" by (metis holder.exhaust option.exhaust)
    show ?thesis
    proof (cases "cons_pc s = C_Waiting")
      case True
      then have "pc_mtx s = None" using m main_okD(1) [OF ok(2)] by (auto simp: c_holds_def)
      from waiting_progress [OF inv proper True this] show ?thesis by (blast intro: pcv_step.thread)
    next
      case False
      then have "\<exists>t. consumer args s = Some t"
        using assms(3) o m main_okD(1) [OF ok(2)] by (cases "cons_pc s") (auto simp: consumer_def c_holds_def)
      then show ?thesis by (blast intro: pcv_step.main)
    qed
  qed
qed

section \<open>Termination\<close>

definition p_weight :: "cstring list \<Rightarrow> nat \<Rightarrow> producer_info \<Rightarrow> nat" where
  "p_weight args i p = 10 * (quota args i - nat (p_j p))
     + (case p_pc p of P_Unborn \<Rightarrow> 7 | P_Test \<Rightarrow> 6 | P_Lock \<Rightarrow> 5 | P_Inc \<Rightarrow> 4 | P_Unlock \<Rightarrow> 3 | P_Signal \<Rightarrow> 2 | P_Done \<Rightarrow> 0)"

text \<open>A consumed unit pays for the way round the loop.\<close>

definition c_weight :: "cstring list \<Rightarrow> pcv \<Rightarrow> nat" where
  "c_weight args s =
     (case cons_pc s of
        C_Create j \<Rightarrow> length args - j + 6 | C_Lock \<Rightarrow> 4 | C_Check \<Rightarrow> 3 | C_Waiting \<Rightarrow> 0 | C_Woken \<Rightarrow> 4
      | C_Consume \<Rightarrow> (if avail s > 0 then 2 else 7) | C_Unlock \<Rightarrow> 6 | C_Test \<Rightarrow> 5 | C_Exit \<Rightarrow> 0 | C_Overflow \<Rightarrow> 0)"

definition pcv_work :: "cstring list \<Rightarrow> pcv \<Rightarrow> nat" where
  "pcv_work args s = sum_at (p_weight args) (producers s) + 10 * (total_units args - nat (numConsumed s)) + c_weight args s"

lemma producer_work:
  assumes st: "producer args i s = Some t" and inv: "pcv_inv args s"
  shows "pcv_work args t < pcv_work args s"
  using st
proof (cases rule: producer_cases)
  case (1 p)
  have ok: "threads_ok args s" "main_ok args s" using inv by (auto simp: pcv_inv_def)
  have i: "i < length args" using 1(3) ok(1) by (simp add: threads_ok_def)
  note d = threads_okD [OF ok(1) i]
  note upd = sum_at_upd [OF 1(3), of "p_weight args" p, folded 1(4)]
  have nc: "cons_pc s \<noteq> C_Consume" if "avail t \<noteq> avail s"
    using that 1(8) d(3) main_okD(1) [OF ok(2)] by (auto simp: p_holds_def c_holds_def)
  then have av: "avail t = avail s" if "cons_pc s = C_Consume" using that by blast
  have cw: "cons_pc t = cons_pc s \<Longrightarrow> c_weight args t = c_weight args s"
    using av by (cases "cons_pc s") (auto simp: c_weight_def)
  have "p_weight args i p + c_weight args t < p_weight args i (producers s ! i) + c_weight args s"
  proof (cases "p_pc (producers s ! i) = P_Signal")
    case True
    then have "p_weight args i p + 6 \<le> p_weight args i (producers s ! i)"
      using 1(8) d(1) by (auto simp: p_weight_def p_ok_def nat_add_distrib)
    moreover have "c_weight args t \<le> c_weight args s + 4" using 1(8) True by (auto simp: c_weight_def split: cpc.splits)
    ultimately show ?thesis by simp
  next
    case False
    then have "cons_pc t = cons_pc s" "p_weight args i p < p_weight args i (producers s ! i)"
      using 1(8) by (auto simp: p_weight_def)
    with cw show ?thesis by simp
  qed
  with upd 1(6) show ?thesis by (simp add: pcv_work_def)
qed

lemma consumer_work:
  assumes st: "consumer args s = Some t" and inv: "pcv_inv args s" and proper: "proper_args args"
  shows "pcv_work args t < pcv_work args s"
proof (cases "\<exists>j. cons_pc s = C_Create j \<and> j < length args")
  case True
  then obtain j where j: "cons_pc s = C_Create j" "j < length args" by blast
  note c = consumer_create(3) [OF st j proper inv]
  have ok: "threads_ok args s" "main_ok args s" using inv by (auto simp: pcv_inv_def)
  note d = threads_okD [OF ok(1) j(2)]
  have "p_pc (producers s ! j) = P_Unborn" using d(2) j by (simp add: born_def)
  then have "p_weight args j ((producers s ! j)\<lparr> p_pc := P_Test \<rparr>) < p_weight args j (producers s ! j)" by (simp add: p_weight_def)
  with sum_at_upd [of j "producers s" "p_weight args" "(producers s ! j)\<lparr> p_pc := P_Test \<rparr>"] c j d(4)
  show ?thesis by (simp add: pcv_work_def upd_producer_def c_weight_def)
next
  case False
  then have q: "\<And>j. cons_pc s = C_Create j \<Longrightarrow> j \<ge> length args" by (meson not_less)
  have ok: "threads_ok args s" "main_ok args s" "counts_ok s" using inv by (auto simp: pcv_inv_def)
  have p: "producers t = producers s" by (rule consumer_quiet(1) [OF st q main_okD(1) [OF ok(2)]])
  have le: "numConsumed s + avail s \<le> int (total_units args)" using pcv_counts_okD(3) [OF ok(3)] made_sum_le [OF ok(1)] by simp
  have "10 * (total_units args - nat (numConsumed t)) + c_weight args t < 10 * (total_units args - nat (numConsumed s)) + c_weight args s"
    using st q le pcv_counts_okD(1,2) [OF ok(3)]
    by (cases "cons_pc s") (auto simp: consumer_def c_weight_def nat_add_distrib split: if_splits)
  with p show ?thesis by (simp add: pcv_work_def)
qed

lemma pcv_step_work:
  assumes "pcv_step args b s t" and inv: "pcv_inv args s" and "proper_args args"
  shows "Suc (pcv_work args t) \<le> pcv_work args s + (if b then 5 else 0)"
  using assms(1)
proof cases
  case main
  with consumer_work [OF main(2) inv assms(3)] show ?thesis by simp
next
  case (thread i)
  with producer_work [OF thread(2) inv] show ?thesis by simp
next
  case spurious
  then show ?thesis by (simp add: pcv_work_def c_weight_def)
qed

interpretation pcv: bounded_system "pcv_step args" "\<lambda>s. pcv_inv args s \<and> proper_args args" "pcv_work args" 5 "\<lambda>s. cons_pc s = C_Exit" for args
  using pcv_step_inv pcv_step_work pcv_progress by unfold_locales blast+

text \<open>
  C5. \<^verbatim>\<open>prod_condvar\<close>: for any number of producers with arguments that are not negative and have a positive
  sum that is an \<^verbatim>\<open>int\<close>, and for every interleaving, spurious wake-ups included, no signal is missed, there
  is no deadlock, and the program ends: a run of \<open>n\<close> steps with \<open>k\<close> spurious wake-ups has at most the
  number of steps given here, and it can only stop when the main thread has left its loop, after
  it has consumed exactly as many units as were asked for, and none is left over. At no time has
  it consumed more than was produced.
\<close>

theorem all_units_consumed:
  assumes "proper_args args" and "steps (pcv_step args) (pcv_start args) n k s"
  shows "n \<le> 20 * total_units args + 8 * length args + 6 + 5 * k
    \<and> ((\<exists>t. pcv_step args False s t)
       \<or> cons_pc s = C_Exit \<and> numConsumed s = int (total_units args) \<and> totRequired s = numConsumed s \<and> avail s = 0)
    \<and> numConsumed s + avail s = int (sum_at (\<lambda>_. made) (producers s)) \<and> 0 \<le> avail s"
proof -
  note i0 = pcv_inv_start [of args]
  have inv: "pcv_inv args s" using pcv.reached [of args "pcv_start args" n k s] i0 assms by simp
  have "sum_at (p_weight args) (producers (pcv_start args)) = (\<Sum>i<length args. 10 * quota args i + 7)"
    by (simp add: sum_at_def pcv_start_def p_weight_def)
  also have "\<dots> = 10 * total_units args + 7 * length args" by (simp add: sum.distrib total_units_def sum_distrib_left)
  finally have "pcv_work args (pcv_start args) = 20 * total_units args + 8 * length args + 6"
    by (simp add: pcv_work_def pcv_start_def c_weight_def)
  with pcv.bounded [of args "pcv_start args" n k s] i0 assms have b: "n \<le> 20 * total_units args + 8 * length args + 6 + 5 * k" by simp
  have ok: "threads_ok args s" "main_ok args s" "counts_ok s" using inv by (auto simp: pcv_inv_def)
  note c = pcv_counts_okD [OF ok(3)] and m = main_okD [OF ok(2)]
  have e: "numConsumed s = int (total_units args) \<and> totRequired s = numConsumed s \<and> avail s = 0" if "cons_pc s = C_Exit"
  proof -
    have "totRequired s = int (total_units args)" using m(3) that by (simp add: born_def total_units_def)
    moreover have "totRequired s \<le> numConsumed s" using m(4,5) that by simp
    moreover have "numConsumed s + avail s \<le> int (total_units args)" using c(3) made_sum_le [OF ok(1)] by simp
    ultimately show ?thesis using c(1) by linarith
  qed
  from b e c pcv_progress [OF inv assms(1)] show ?thesis by blast
qed

text \<open>One producer of one unit, which is made while the main thread waits.\<close>

definition pcv_turn :: "cstring list \<Rightarrow> nat option \<Rightarrow> pcv \<Rightarrow> pcv option" where
  "pcv_turn args b s = (case b of None \<Rightarrow> consumer args s | Some i \<Rightarrow> producer args i s)"

lemma pcv_turn_step: "pcv_turn args b s = Some t \<Longrightarrow> pcv_step args False s t"
  by (cases b) (auto simp: pcv_turn_def intro: pcv_step.main pcv_step.thread)

definition demo_consumed :: pcv where
  "demo_consumed = \<lparr> producers = [\<lparr> p_pc = P_Test, p_j = 1 \<rparr>], avail = 0, pc_mtx = None, totRequired = 1, numConsumed = 1,
     done_flag = True, cons_pc = C_Exit \<rparr>"

lemma demo_consume_exec:
  "exec_schedule (pcv_turn [''1'']) (replicate 4 None @ replicate 5 (Some 0) @ replicate 6 None) (pcv_start [''1'']) = Some demo_consumed"
  by code_simp

theorem all_units_consumed_witness:
  "proper_args [''1''] \<and> steps (pcv_step [''1'']) (pcv_start [''1'']) 15 0 demo_consumed
     \<and> numConsumed demo_consumed = int (total_units [''1'']) \<and> avail demo_consumed = 0"
proof -
  have p: "proper_args [''1'']" by code_simp
  have r: "steps (pcv_step [''1'']) (pcv_start [''1'']) 15 0 demo_consumed"
    using exec_steps [where f = "pcv_turn [''1'']" and step = "pcv_step [''1'']", OF pcv_turn_step steps.none demo_consume_exec] by simp
  have "\<not> pcv_step [''1''] False demo_consumed t" for t
    by (auto simp: demo_consumed_def consumer_def producer_def elim!: pcv_stepE)
  with all_units_consumed [OF p r] p r show ?thesis by blast
qed

text \<open>With a sum of 0 the main thread waits for a unit that nobody makes.\<close>

definition demo_hangs :: pcv where
  "demo_hangs = \<lparr> producers = [\<lparr> p_pc = P_Done, p_j = 0 \<rparr>], avail = 0, pc_mtx = None, totRequired = 0, numConsumed = 0,
     done_flag = False, cons_pc = C_Waiting \<rparr>"

lemma zero_units_hang:
  "exec_schedule (pcv_turn [''0'']) (replicate 4 None @ [Some 0]) (pcv_start [''0'']) = Some demo_hangs
   \<and> (\<forall>t. \<not> pcv_step [''0''] False demo_hangs t)"
proof
  show "exec_schedule (pcv_turn [''0'']) (replicate 4 None @ [Some 0]) (pcv_start [''0'']) = Some demo_hangs" by code_simp
  have "producer [''0''] i demo_hangs = None" for i by (cases i) (simp_all add: producer_def demo_hangs_def)
  moreover have "consumer [''0''] demo_hangs = None" by (simp add: consumer_def demo_hangs_def)
  ultimately show "\<forall>t. \<not> pcv_step [''0''] False demo_hangs t" by (auto elim!: pcv_stepE)
qed

end
