(* ===== verification/Msg_File.thy ===== *)
theory Msg_File
  imports Interleaving Stream_IO Strto_Num
begin

text \<open>
  The file server over System V message queues: \<^verbatim>\<open>svmsg/svmsg_file_server.c\<close> and
  \<^verbatim>\<open>svmsg/svmsg_file_client.c\<close>. For every request the server forks a child, which sends the file in
  messages to the queue of the client. Child and client are step functions over that queue, interleaved
  in any order; a message that does not fit into the queue blocks its sender. The queue of the client
  disappears when the client exits.
\<close>

section \<open>Messages\<close>

definition PATH_MAX :: nat where "PATH_MAX = 4096"
definition RESP_MSG_SIZE :: nat where "RESP_MSG_SIZE = 8192"
definition RESP_MT_FAILURE :: int where "RESP_MT_FAILURE = 1"
definition RESP_MT_DATA :: int where "RESP_MT_DATA = 2"
definition RESP_MT_END :: int where "RESP_MT_END = 3"

lemmas resp_defs = RESP_MT_FAILURE_def RESP_MT_DATA_def RESP_MT_END_def

record requestMsg =
  rq_clientId :: int
  rq_pathname :: cstring

text \<open>\<open>rs_data\<close> is the part of the array that is sent.\<close>

record responseMsg =
  rs_mtype :: int
  rs_data :: cstring

section \<open>The server's main loop\<close>

record 'w fserver_os =
  fs_msgget :: "'w \<Rightarrow> bool \<times> 'w"
  fs_sigaction :: "'w \<Rightarrow> bool \<times> 'w"
  fs_msgrcv :: "'w \<Rightarrow> (errno + requestMsg) \<times> 'w"
  fs_fork :: "'w \<Rightarrow> errno option \<times> 'w"
  fs_waitpid :: "'w \<Rightarrow> bool \<times> 'w"
  fs_remove :: "'w \<Rightarrow> bool \<times> 'w"

text \<open>The handler of \<^verbatim>\<open>SIGCHLD\<close>: \<^verbatim>\<open>waitpid()\<close> as long as it returns a process.\<close>

fun grimReaper :: "nat \<Rightarrow> 'w fserver_os \<Rightarrow> 'w \<Rightarrow> 'w option" where
  "grimReaper 0 os w = None"
| "grimReaper (Suc fuel) os w =
     (case fs_waitpid os w of (True, w) \<Rightarrow> grimReaper fuel os w | (False, w) \<Rightarrow> Some w)"

text \<open>A turn of the loop goes on, starts a child for a request, or leaves the loop.\<close>

datatype turn = Again | Child requestMsg | Leave

definition server_turn :: "'w fserver_os \<Rightarrow> 'w \<Rightarrow> turn \<times> 'w" where
  "server_turn os w =
     (case fs_msgrcv os w of
        (Inl e, w) \<Rightarrow> if e = EINTR then (Again, w) else (Leave, w)
      | (Inr req, w) \<Rightarrow>
          (case fs_fork os w of
             (Some e, w) \<Rightarrow> (Leave, w)
           | (None, w) \<Rightarrow> (Child req, w)))"

text \<open>The requests for which a child was started, and how the server ended if it did.\<close>

fun server_loop :: "nat \<Rightarrow> 'w fserver_os \<Rightarrow> 'w \<Rightarrow> requestMsg list \<times> (unit, 'w) outcome" where
  "server_loop 0 os w = ([], Ret () w)"
| "server_loop (Suc turns) os w =
     (case server_turn os w of
        (Again, w) \<Rightarrow> server_loop turns os w
      | (Child req, w) \<Rightarrow> (case server_loop turns os w of (reqs, r) \<Rightarrow> (req # reqs, r))
      | (Leave, w) \<Rightarrow>
          ([], case fs_remove os w of (True, w) \<Rightarrow> Exit EXIT_SUCCESS w | (False, w) \<Rightarrow> Exit EXIT_FAILURE w))"

definition file_server :: "nat \<Rightarrow> 'w fserver_os \<Rightarrow> 'w \<Rightarrow> requestMsg list \<times> (unit, 'w) outcome" where
  "file_server turns os w =
     (case fs_msgget os w of
        (False, w) \<Rightarrow> ([], Exit EXIT_FAILURE w)
      | (True, w) \<Rightarrow>
          (case fs_sigaction os w of
             (False, w) \<Rightarrow> ([], Exit EXIT_FAILURE w)
           | (True, w) \<Rightarrow> server_loop turns os w))"

section \<open>The child and the client\<close>

datatype spc = S_Open | S_Refuse | S_Read | S_Send cstring | S_End | S_Exit int

text \<open>\<open>C_Overflow\<close>: the count of messages, an \<^verbatim>\<open>int\<close>, was incremented beyond its range, which is undefined.\<close>

datatype cpc = C_First | C_Loop | C_Report | C_Exit int | C_Overflow

record 'w file_os =
  fo_open :: "'w \<Rightarrow> bool \<times> 'w"
  fo_read :: "'w reader"

text \<open>\<open>mq\<close> is the queue of the client, \<open>None\<close> once it has been removed; \<open>got\<close> records the messages the
  client has received, for the statements below.\<close>

record 'w mfile =
  fs_pc :: spc
  fc_pc :: cpc
  mq :: "responseMsg list option"
  f_kern :: 'w
  totBytes :: int
  numMsgs :: int
  fc_out :: cstring
  got :: "responseMsg list"

text \<open>\<^verbatim>\<open>msgsnd()\<close>: \<open>None\<close> when the sender blocks. The limit of a queue is on the bytes in it and, as the same
  number, on the messages.\<close>

definition room :: "nat \<Rightarrow> responseMsg list \<Rightarrow> responseMsg \<Rightarrow> bool" where
  "room qbytes q m \<longleftrightarrow> sum_list (map (length \<circ> rs_data) q) + length (rs_data m) \<le> qbytes \<and> length q + 1 \<le> qbytes"

definition msgsnd :: "nat \<Rightarrow> responseMsg \<Rightarrow> 'w mfile \<Rightarrow> (bool \<times> 'w mfile) option" where
  "msgsnd qbytes m s =
     (case mq s of
        None \<Rightarrow> Some (False, s)
      | Some q \<Rightarrow> if room qbytes q m then Some (True, s\<lparr> mq := Some (q @ [m]) \<rparr>) else None)"

definition serveRequest :: "'w file_os \<Rightarrow> nat \<Rightarrow> 'w mfile \<Rightarrow> 'w mfile option" where
  "serveRequest os qbytes s =
     (case fs_pc s of
        S_Open \<Rightarrow>
          (case fo_open os (f_kern s) of
             (False, w) \<Rightarrow> Some (s\<lparr> f_kern := w, fs_pc := S_Refuse \<rparr>)
           | (True, w) \<Rightarrow> Some (s\<lparr> f_kern := w, fs_pc := S_Read \<rparr>))
      | S_Refuse \<Rightarrow>
          map_option (\<lambda>(_, s). s\<lparr> fs_pc := S_Exit EXIT_FAILURE \<rparr>)
            (msgsnd qbytes \<lparr> rs_mtype = RESP_MT_FAILURE, rs_data = snprintf RESP_MSG_SIZE ''Couldn't open'' @ [NUL] \<rparr> s)
      | S_Read \<Rightarrow>
          (case fo_read os RESP_MSG_SIZE (f_kern s) of
             (Inr (b # bs), w) \<Rightarrow> Some (s\<lparr> f_kern := w, fs_pc := S_Send (b # bs) \<rparr>)
           | (_, w) \<Rightarrow> Some (s\<lparr> f_kern := w, fs_pc := S_End \<rparr>))
      | S_Send bs \<Rightarrow>
          map_option (\<lambda>(sent, s). s\<lparr> fs_pc := if sent then S_Read else S_End \<rparr>)
            (msgsnd qbytes \<lparr> rs_mtype = RESP_MT_DATA, rs_data = bs \<rparr> s)
      | S_End \<Rightarrow>
          map_option (\<lambda>(_, s). s\<lparr> fs_pc := S_Exit EXIT_SUCCESS \<rparr>) (msgsnd qbytes \<lparr> rs_mtype = RESP_MT_END, rs_data = [] \<rparr> s)
      | S_Exit c \<Rightarrow> None)"

text \<open>The client up to its request, then the loop over the responses. \<^verbatim>\<open>exit()\<close> calls \<^verbatim>\<open>removeQueue()\<close>.\<close>

record 'w fclient_os =
  fc_server_queue :: "'w \<Rightarrow> bool \<times> 'w"
  fc_private_queue :: "'w \<Rightarrow> int option \<times> 'w"
  fc_atexit :: "'w \<Rightarrow> bool \<times> 'w"
  fc_msgsnd :: "requestMsg \<Rightarrow> 'w \<Rightarrow> bool \<times> 'w"

definition client_request :: "'w fclient_os \<Rightarrow> cstring list \<Rightarrow> 'w \<Rightarrow> (requestMsg, 'w) outcome" where
  "client_request os argv w =
     (if length argv \<noteq> 2 \<or> argv ! 1 = ''--help'' then Exit EXIT_FAILURE w
      else if length (argv ! 1) > PATH_MAX - 1 then Exit EXIT_FAILURE w
      else
        obind (must (fc_server_queue os) w) (\<lambda>_ w.
        obind (must_get (fc_private_queue os) w) (\<lambda>clientId w.
        obind (must (fc_atexit os) w) (\<lambda>_ w.
        let req = \<lparr> rq_clientId = clientId, rq_pathname = strncpy (argv ! 1) (PATH_MAX - 1) \<rparr>
        in obind (must (fc_msgsnd os req) w) (\<lambda>_ w. Ret req w)))))"

definition client_exit :: "int \<Rightarrow> 'w mfile \<Rightarrow> 'w mfile" where
  "client_exit code s = s\<lparr> fc_pc := C_Exit code, mq := None \<rparr>"

definition after_message :: "responseMsg \<Rightarrow> cpc" where
  "after_message resp = (if rs_mtype resp = RESP_MT_DATA then C_Loop else C_Report)"

definition file_client :: "'w mfile \<Rightarrow> 'w mfile option" where
  "file_client s =
     (case fc_pc s of
        C_First \<Rightarrow>
          (case mq s of
             None \<Rightarrow> Some (client_exit EXIT_FAILURE s)
           | Some [] \<Rightarrow> None
           | Some (resp # q) \<Rightarrow>
               let s = s\<lparr> mq := Some q, got := got s @ [resp] \<rparr> in
               if rs_mtype resp = RESP_MT_FAILURE then
                 Some (client_exit EXIT_FAILURE (s\<lparr> fc_out := takeWhile (\<lambda>c. c \<noteq> NUL) (rs_data resp) @ [newline] \<rparr>))
               else Some (s\<lparr> totBytes := int (length (rs_data resp)), numMsgs := 1, fc_pc := after_message resp \<rparr>))
      | C_Loop \<Rightarrow>
          (case mq s of
             None \<Rightarrow> Some (client_exit EXIT_FAILURE s)
           | Some [] \<Rightarrow> None
           | Some (resp # q) \<Rightarrow>
               if numMsgs s = INT_MAX then Some (s\<lparr> fc_pc := C_Overflow \<rparr>)
               else Some (s\<lparr> mq := Some q, got := got s @ [resp], totBytes := totBytes s + int (length (rs_data resp)),
                       numMsgs := numMsgs s + 1, fc_pc := after_message resp \<rparr>))
      | C_Report \<Rightarrow>
          Some (client_exit EXIT_SUCCESS
            (s\<lparr> fc_out := ''Received '' @ dec (totBytes s) @ '' bytes ('' @ dec (numMsgs s) @ '' messages)'' @ [newline] \<rparr>))
      | C_Exit c \<Rightarrow> None
      | C_Overflow \<Rightarrow> None)"

definition mfile_start :: "'w \<Rightarrow> 'w mfile" where
  "mfile_start w = \<lparr> fs_pc = S_Open, fc_pc = C_First, mq = Some [], f_kern = w, totBytes = 0, numMsgs = 0, fc_out = [], got = [] \<rparr>"

inductive mfile_step :: "'w file_os \<Rightarrow> nat \<Rightarrow> bool \<Rightarrow> 'w mfile \<Rightarrow> 'w mfile \<Rightarrow> bool" for os qbytes where
  child: "serveRequest os qbytes s = Some t \<Longrightarrow> mfile_step os qbytes False s t"
| client: "file_client s = Some t \<Longrightarrow> mfile_step os qbytes False s t"

inductive_cases mfile_stepE: "mfile_step os qbytes b s t"

section \<open>The invariant\<close>

text \<open>A file that can be read from beginning to end without an error, or cannot be opened.\<close>

definition serves :: "'w file_os \<Rightarrow> ('w \<Rightarrow> cstring) \<Rightarrow> bool \<Rightarrow> bool" where
  "serves os cont exists \<longleftrightarrow> stream_read (fo_read os) cont (\<lambda>_. 0)
     \<and> (\<forall>w. fst (fo_open os w) = exists \<and> cont (snd (fo_open os w)) = cont w)"

definition data_msg :: "cstring \<Rightarrow> responseMsg" where "data_msg bs = \<lparr> rs_mtype = RESP_MT_DATA, rs_data = bs \<rparr>"
definition end_msg :: responseMsg where "end_msg = \<lparr> rs_mtype = RESP_MT_END, rs_data = [] \<rparr>"
definition failure_msg :: responseMsg where
  "failure_msg = \<lparr> rs_mtype = RESP_MT_FAILURE, rs_data = ''Couldn't open'' @ [NUL] \<rparr>"

lemmas msg_defs = data_msg_def end_msg_def failure_msg_def

definition queued :: "'w mfile \<Rightarrow> responseMsg list" where
  "queued s = (case mq s of None \<Rightarrow> [] | Some q \<Rightarrow> q)"

definition chunks_ok :: "cstring list \<Rightarrow> bool" where
  "chunks_ok cs \<longleftrightarrow> (\<forall>c\<in>set cs. c \<noteq> [])"

text \<open>What the child has sent, by its place in the program.\<close>

definition sent_ok :: "('w \<Rightarrow> cstring) \<Rightarrow> bool \<Rightarrow> cstring \<Rightarrow> 'w mfile \<Rightarrow> bool" where
  "sent_ok cont exists body s \<longleftrightarrow>
     (let h = got s @ queued s; w = f_kern s in
      case fs_pc s of
        S_Open \<Rightarrow> h = [] \<and> cont w = body
      | S_Refuse \<Rightarrow> \<not> exists \<and> h = []
      | S_Read \<Rightarrow> exists \<and> (\<exists>cs. chunks_ok cs \<and> h = map data_msg cs \<and> concat cs @ cont w = body)
      | S_Send bs \<Rightarrow> exists \<and> bs \<noteq> [] \<and> length bs \<le> RESP_MSG_SIZE \<and> (\<exists>cs. chunks_ok cs \<and> h = map data_msg cs \<and> concat cs @ bs @ cont w = body)
      | S_End \<Rightarrow> exists \<and> cont w = [] \<and> (\<exists>cs. chunks_ok cs \<and> h = map data_msg cs \<and> concat cs = body)
      | S_Exit c \<Rightarrow> (if exists then c = 0 \<and> cont w = [] \<and> (\<exists>cs. chunks_ok cs \<and> h = map data_msg cs @ [end_msg] \<and> concat cs = body)
                    else c = 1 \<and> h = [failure_msg]))"

text \<open>What the client has received.\<close>

definition client_ok :: "'w mfile \<Rightarrow> bool" where
  "client_ok s \<longleftrightarrow>
     (case fc_pc s of
        C_First \<Rightarrow> got s = [] \<and> mq s \<noteq> None
      | C_Loop \<Rightarrow> got s \<noteq> [] \<and> mq s \<noteq> None \<and> rs_mtype (last (got s)) = RESP_MT_DATA
      | C_Report \<Rightarrow> got s \<noteq> [] \<and> last (got s) = end_msg \<and> mq s \<noteq> None
      | C_Exit c \<Rightarrow> got s \<noteq> [] \<and> mq s = None \<and> (c = 0 \<and> last (got s) = end_msg \<or> c = 1 \<and> last (got s) = failure_msg)
      | C_Overflow \<Rightarrow> False)
   \<and> (last (got s) \<noteq> failure_msg \<or> got s = [] \<longrightarrow> totBytes s = int (sum_list (map (length \<circ> rs_data) (got s))) \<and> numMsgs s = int (length (got s)))
   \<and> (\<forall>c. fc_pc s = C_Exit c \<longrightarrow> fc_out s =
        (if c = 0 then ''Received '' @ dec (totBytes s) @ '' bytes ('' @ dec (numMsgs s) @ '' messages)'' @ [newline]
         else ''Couldn't open'' @ [newline]))"

definition mfile_inv :: "('w \<Rightarrow> cstring) \<Rightarrow> bool \<Rightarrow> cstring \<Rightarrow> 'w mfile \<Rightarrow> bool" where
  "mfile_inv cont exists body s \<longleftrightarrow> sent_ok cont exists body s \<and> client_ok s \<and> int (length body) < INT_MAX"


lemma msg_distinct [simp]: "data_msg bs \<noteq> end_msg" "data_msg bs \<noteq> failure_msg" "end_msg \<noteq> failure_msg"
    "end_msg \<noteq> data_msg bs" "failure_msg \<noteq> data_msg bs" "failure_msg \<noteq> end_msg"
  by (simp_all add: msg_defs resp_defs)

lemma msg_sel [simp]: "rs_mtype (data_msg bs) = RESP_MT_DATA" "rs_data (data_msg bs) = bs" "rs_mtype end_msg = RESP_MT_END"
    "rs_data end_msg = []" "rs_mtype failure_msg = RESP_MT_FAILURE" "rs_data failure_msg = ''Couldn't open'' @ [NUL]"
  by (simp_all add: msg_defs)

lemma mfile_inv_start: "cont w = body \<Longrightarrow> int (length body) < INT_MAX \<Longrightarrow> mfile_inv cont exists body (mfile_start w)"
  by (simp add: mfile_inv_def sent_ok_def client_ok_def mfile_start_def queued_def)

lemma sent_okD:
  assumes "sent_ok cont exists body s"
  shows "fs_pc s = S_Open \<Longrightarrow> got s @ queued s = [] \<and> cont (f_kern s) = body"
    and "fs_pc s = S_Refuse \<Longrightarrow> \<not> exists \<and> got s @ queued s = []"
    and "fs_pc s = S_Read \<Longrightarrow> exists \<and> (\<exists>cs. chunks_ok cs \<and> got s @ queued s = map data_msg cs \<and> concat cs @ cont (f_kern s) = body)"
    and "fs_pc s = S_Send bs \<Longrightarrow> exists \<and> bs \<noteq> [] \<and> length bs \<le> RESP_MSG_SIZE
      \<and> (\<exists>cs. chunks_ok cs \<and> got s @ queued s = map data_msg cs \<and> concat cs @ bs @ cont (f_kern s) = body)"
    and "fs_pc s = S_End \<Longrightarrow> exists \<and> cont (f_kern s) = [] \<and> (\<exists>cs. chunks_ok cs \<and> got s @ queued s = map data_msg cs \<and> concat cs = body)"
    and "fs_pc s = S_Exit c \<Longrightarrow> exists \<Longrightarrow> c = 0 \<and> cont (f_kern s) = []
      \<and> (\<exists>cs. chunks_ok cs \<and> got s @ queued s = map data_msg cs @ [end_msg] \<and> concat cs = body)"
    and "fs_pc s = S_Exit c \<Longrightarrow> \<not> exists \<Longrightarrow> c = 1 \<and> got s @ queued s = [failure_msg]"
  using assms by (simp_all add: sent_ok_def Let_def)

text \<open>Before the child is done there are only data messages.\<close>

lemma history_cases:
  assumes "sent_ok cont exists body s"
  obtains (data) cs where "chunks_ok cs" "got s @ queued s = map data_msg cs" "\<And>c. fs_pc s \<noteq> S_Exit c" "length (concat cs) \<le> length body"
  | (complete) cs where "exists" "fs_pc s = S_Exit 0" "chunks_ok cs" "got s @ queued s = map data_msg cs @ [end_msg]" "concat cs = body"
  | (refused) "\<not> exists" "fs_pc s = S_Exit 1" "got s @ queued s = [failure_msg]"
proof (cases "fs_pc s")
  case S_Open
  then show ?thesis using data [of "[]"] sent_okD(1) [OF assms] by (simp add: chunks_ok_def)
next
  case S_Refuse
  then show ?thesis using data [of "[]"] sent_okD(2) [OF assms] by (simp add: chunks_ok_def)
next
  case S_Read
  then show ?thesis using data sent_okD(3) [OF assms] by fastforce
next
  case (S_Send bs)
  then show ?thesis using data sent_okD(4) [OF assms] by fastforce
next
  case S_End
  then show ?thesis using data sent_okD(5) [OF assms] by fastforce
next
  case (S_Exit c)
  then show ?thesis using complete refused sent_okD(6,7) [OF assms S_Exit] by (cases "exists") auto
qed

lemma in_history: "sent_ok cont exists body s \<Longrightarrow> m \<in> set (got s @ queued s) \<Longrightarrow> (\<exists>bs. m = data_msg bs) \<or> m = end_msg \<or> m = failure_msg"
  by (erule history_cases) auto

lemma chunks_count: "chunks_ok cs \<Longrightarrow> length cs \<le> length (concat cs)"
proof (induction cs)
  case (Cons c cs)
  then show ?case by (cases c) (auto simp: chunks_ok_def)
qed simp

lemma history_length: "sent_ok cont exists body s \<Longrightarrow> length (got s @ queued s) \<le> length body + 1"
  by (erule history_cases) (auto dest: chunks_count)

lemma failure_alone:
  assumes "sent_ok cont exists body s" and "failure_msg \<in> set (got s @ queued s)"
  shows "got s @ queued s = [failure_msg]"
  using assms(1)
proof (cases rule: history_cases)
  case (data cs)
  with assms(2) have "failure_msg \<in> set (map data_msg cs)" by metis
  then show ?thesis by auto
next
  case (complete cs)
  with assms(2) have "failure_msg \<in> set (map data_msg cs @ [end_msg])" by metis
  then show ?thesis by auto
qed

text \<open>The last message to be received is the last one sent.\<close>

lemma last_received:
  assumes s: "sent_ok cont exists body s" and g: "got s \<noteq> []" and l: "last (got s) = end_msg \<or> last (got s) = failure_msg"
  shows "queued s = [] \<and> (\<exists>c. fs_pc s = S_Exit c) \<and> (exists \<longleftrightarrow> last (got s) = end_msg)"
proof -
  obtain ms m where ms: "got s = ms @ [m]" using g by (metis append_butlast_last_id)
  have m: "m = end_msg \<or> m = failure_msg" using l ms by simp
  from s show ?thesis
  proof (cases rule: history_cases)
    case (data cs)
    then have "m \<in> set (map data_msg cs)" using ms by (metis append_assoc in_set_conv_decomp append_Cons)
    with m show ?thesis by auto
  next
    case (complete cs)
    have "queued s = []"
    proof (rule ccontr)
      assume "queued s \<noteq> []"
      then obtain q x where "queued s = q @ [x]" by (metis append_butlast_last_id)
      with complete(4) ms have "ms @ [m] @ q = map data_msg cs" by (metis append_assoc butlast_snoc)
      then have "m \<in> set (map data_msg cs)" by (metis append_assoc in_set_conv_decomp append_Cons)
      with m show False by auto
    qed
    with complete ms show ?thesis by simp
  next
    case refused
    with ms show ?thesis by (cases ms) auto
  qed
qed

section \<open>Every step keeps the invariant\<close>

lemma running_queue:
  assumes "mfile_inv cont exists body s" and "\<And>c. fs_pc s \<noteq> S_Exit c"
  obtains q where "mq s = Some q" and "queued s = q"
proof -
  have "mq s \<noteq> None"
  proof
    assume "mq s = None"
    then have "got s \<noteq> []" "last (got s) = end_msg \<or> last (got s) = failure_msg"
      using assms(1) by (auto simp: mfile_inv_def client_ok_def split: cpc.splits)
    with last_received assms show False by (metis mfile_inv_def)
  qed
  then show thesis using that by (auto simp: queued_def)
qed

text \<open>What a step of the child changes.\<close>

lemma serveRequest_cases:
  assumes "serveRequest os qbytes s = Some t" and "mq s = Some q"
  obtains (opened) e w where "fs_pc s = S_Open" "fo_open os (f_kern s) = (e, w)" "t = s\<lparr> f_kern := w, fs_pc := if e then S_Read else S_Refuse \<rparr>"
  | (refuse) "fs_pc s = S_Refuse" "t = s\<lparr> mq := Some (q @ [failure_msg]), fs_pc := S_Exit 1 \<rparr>"
  | (block) b bs w where "fs_pc s = S_Read" "fo_read os RESP_MSG_SIZE (f_kern s) = (Inr (b # bs), w)" "t = s\<lparr> f_kern := w, fs_pc := S_Send (b # bs) \<rparr>"
  | (eof) r w where "fs_pc s = S_Read" "fo_read os RESP_MSG_SIZE (f_kern s) = (r, w)" "\<And>b bs. r \<noteq> Inr (b # bs)" "t = s\<lparr> f_kern := w, fs_pc := S_End \<rparr>"
  | (send) bs where "fs_pc s = S_Send bs" "t = s\<lparr> mq := Some (q @ [data_msg bs]), fs_pc := S_Read \<rparr>"
  | (fin) "fs_pc s = S_End" "t = s\<lparr> mq := Some (q @ [end_msg]), fs_pc := S_Exit 0 \<rparr>"
proof (cases "fs_pc s")
  case S_Open
  obtain e w where "fo_open os (f_kern s) = (e, w)" by fastforce
  with assms S_Open opened show ?thesis by (cases e) (auto simp: serveRequest_def)
next
  case S_Refuse
  with assms refuse show ?thesis
    by (auto simp: serveRequest_def msgsnd_def failure_msg_def snprintf_def RESP_MSG_SIZE_def split: if_splits)
next
  case S_Read
  obtain r w where r: "fo_read os RESP_MSG_SIZE (f_kern s) = (r, w)" by fastforce
  show ?thesis
  proof (cases "\<exists>b bs. r = Inr (b # bs)")
    case True
    then obtain b bs where "r = Inr (b # bs)" by blast
    with assms S_Read r block show ?thesis by (auto simp: serveRequest_def)
  next
    case False
    with assms S_Read r eof show ?thesis by (auto simp: serveRequest_def split: sum.splits list.splits)
  qed
next
  case (S_Send bs)
  with assms send show ?thesis by (auto simp: serveRequest_def msgsnd_def data_msg_def split: if_splits)
next
  case S_End
  with assms fin show ?thesis by (auto simp: serveRequest_def msgsnd_def end_msg_def split: if_splits)
next
  case (S_Exit c)
  with assms show ?thesis by (simp add: serveRequest_def)
qed

lemma read_data:
  assumes "stream_read rd cont (\<lambda>_. 0)" and "0 < n" and "rd n w = (r, w')"
  shows "\<exists>bs. r = Inr bs \<and> cont w = bs @ cont w' \<and> length bs \<le> n \<and> (bs = [] \<longrightarrow> cont w = [])"
  using assms(1,2) by (rule stream_read_cases [where k = w]) (use assms(3) in auto)

lemma child_inv:
  assumes st: "serveRequest os qbytes s = Some t" and inv: "mfile_inv cont exists body s" and k: "serves os cont exists"
  shows "mfile_inv cont exists body t"
proof -
  have s: "sent_ok cont exists body s" and c: "client_ok s" using inv by (auto simp: mfile_inv_def)
  have "fs_pc s \<noteq> S_Exit e" for e using st by (auto simp: serveRequest_def)
  then obtain q where q: "mq s = Some q" "queued s = q" using running_queue [OF inv] by blast
  have sr: "stream_read (fo_read os) cont (\<lambda>_. 0)" using k by (simp add: serves_def)
  have op: "e = exists \<and> cont w' = cont w" if "fo_open os w = (e, w')" for e w w' using k that by (metis serves_def fst_conv snd_conv)
  have n: "0 < RESP_MSG_SIZE" by (simp add: RESP_MSG_SIZE_def)
  have "fc_pc t = fc_pc s \<and> got t = got s \<and> totBytes t = totBytes s \<and> numMsgs t = numMsgs s \<and> fc_out t = fc_out s \<and> mq t \<noteq> None"
    using st q(1) by (cases rule: serveRequest_cases) (simp_all add: q(1))
  then have ct: "client_ok t" using c q(1) by (simp add: client_ok_def split: cpc.splits)
  have "sent_ok cont exists body t"
    using st q(1)
  proof (cases rule: serveRequest_cases)
    case (opened e w)
    with op [OF opened(2)] sent_okD(1) [OF s opened(1)] show ?thesis
      by (auto simp: sent_ok_def queued_def Let_def chunks_ok_def intro: exI [of _ "[]"])
  next
    case refuse
    with sent_okD(2) [OF s refuse(1)] q show ?thesis by (simp add: sent_ok_def queued_def)
  next
    case (block b bs w)
    from sent_okD(3) [OF s block(1)] obtain cs where
      "exists" "chunks_ok cs" "got s @ queued s = map data_msg cs" "concat cs @ cont (f_kern s) = body" by blast
    with read_data [OF sr n block(2)] block q show ?thesis by (auto simp: sent_ok_def queued_def Let_def)
  next
    case (eof r w)
    from sent_okD(3) [OF s eof(1)] obtain cs where
      cs: "exists" "chunks_ok cs" "got s @ queued s = map data_msg cs" "concat cs @ cont (f_kern s) = body" by blast
    from read_data [OF sr n eof(2)] eof(3) have "cont (f_kern s) = []" "cont w = []" by (metis append_Nil list.exhaust)+
    with cs eof q show ?thesis by (auto simp: sent_ok_def queued_def Let_def)
  next
    case (send bs)
    from sent_okD(4) [OF s send(1)] obtain cs where
      cs: "exists" "bs \<noteq> []" "chunks_ok cs" "got s @ queued s = map data_msg cs" "concat cs @ bs @ cont (f_kern s) = body" by blast
    with send q show ?thesis
      by (auto simp: sent_ok_def queued_def Let_def chunks_ok_def simp flip: append_assoc intro!: exI [of _ "cs @ [bs]"])
  next
    case fin
    from sent_okD(5) [OF s fin(1)] obtain cs where
      cs: "exists" "cont (f_kern s) = []" "chunks_ok cs" "got s @ queued s = map data_msg cs" "concat cs = body" by blast
    with fin q show ?thesis by (auto simp: sent_ok_def queued_def Let_def simp flip: append_assoc)
  qed
  with ct inv show ?thesis by (simp add: mfile_inv_def)
qed

lemma sent_ok_receive:
  assumes "sent_ok cont exists body s" and "fs_pc t = fs_pc s" and "f_kern t = f_kern s" and "got t @ queued t = got s @ queued s"
  shows "sent_ok cont exists body t"
  using assms by (simp add: sent_ok_def)

text \<open>What a step of the client changes: it receives the next message, or reports and exits.\<close>

lemma file_client_cases:
  assumes "file_client s = Some t" and "mfile_inv cont exists body s"
  obtains (failure) m q where "fc_pc s = C_First" "mq s = Some (m # q)" "rs_mtype m = RESP_MT_FAILURE"
      "t = s\<lparr> mq := None, got := got s @ [m], fc_out := takeWhile (\<lambda>c. c \<noteq> NUL) (rs_data m) @ [newline], fc_pc := C_Exit 1 \<rparr>"
  | (receive) m q where "fc_pc s = C_First \<and> rs_mtype m \<noteq> RESP_MT_FAILURE \<or> fc_pc s = C_Loop" "mq s = Some (m # q)"
      "t = s\<lparr> mq := Some q, got := got s @ [m], totBytes := (if fc_pc s = C_First then 0 else totBytes s) + int (length (rs_data m)),
             numMsgs := (if fc_pc s = C_First then 0 else numMsgs s) + 1, fc_pc := after_message m \<rparr>"
  | (report) "fc_pc s = C_Report"
      "t = s\<lparr> mq := None, fc_out := ''Received '' @ dec (totBytes s) @ '' bytes ('' @ dec (numMsgs s) @ '' messages)'' @ [newline], fc_pc := C_Exit 0 \<rparr>"
proof (cases "fc_pc s")
  case C_First
  then obtain m q where m: "mq s = Some (m # q)" using assms by (auto simp: file_client_def mfile_inv_def client_ok_def split: option.splits list.splits)
  show ?thesis
  proof (cases "rs_mtype m = RESP_MT_FAILURE")
    case True
    with assms(1) C_First m failure show ?thesis by (auto simp: file_client_def client_exit_def Let_def)
  next
    case False
    with assms(1) C_First m receive show ?thesis by (auto simp: file_client_def Let_def)
  qed
next
  case C_Loop
  then obtain m q where m: "mq s = Some (m # q)"
    using assms by (auto simp: file_client_def mfile_inv_def client_ok_def split: option.splits list.splits)
  have "length (got s @ queued s) \<le> length body + 1" using assms(2) history_length unfolding mfile_inv_def by blast
  moreover have "numMsgs s = int (length (got s))" using assms(2) C_Loop by (auto simp: mfile_inv_def client_ok_def resp_defs)
  ultimately have "numMsgs s \<noteq> INT_MAX" using assms(2) m by (simp add: mfile_inv_def queued_def)
  with assms(1) C_Loop m receive show ?thesis by (auto simp: file_client_def)
next
  case C_Report
  with assms(1) report show ?thesis by (auto simp: file_client_def client_exit_def)
next
  case (C_Exit c)
  with assms(1) show ?thesis by (simp add: file_client_def)
next
  case C_Overflow
  with assms(1) show ?thesis by (simp add: file_client_def)
qed

lemma failure_text: "takeWhile (\<lambda>c. c \<noteq> NUL) (rs_data failure_msg) = ''Couldn't open''"
  by (simp add: NUL_def)

lemma client_inv:
  assumes st: "file_client s = Some t" and inv: "mfile_inv cont exists body s"
  shows "mfile_inv cont exists body t"
proof -
  have s: "sent_ok cont exists body s" and c: "client_ok s" and len: "int (length body) < INT_MAX" using inv by (auto simp: mfile_inv_def)
  from st inv show ?thesis
  proof (cases rule: file_client_cases)
    case (failure m q)
    have m: "m = failure_msg" using in_history [OF s, of m] failure(2,3) by (auto simp: queued_def resp_defs)
    have g: "got s = []" using c failure(1) by (simp add: client_ok_def)
    have h: "got s @ queued s = [failure_msg]"
      using s failure(2) g m by (cases rule: history_cases) (auto simp: queued_def Cons_eq_append_conv)
    then have "sent_ok cont exists body t" using failure(2,4) m g by (intro sent_ok_receive [OF s]) (simp_all add: queued_def)
    moreover have "client_ok t" using failure(4) m g failure_text by (simp add: client_ok_def)
    ultimately show ?thesis by (simp add: mfile_inv_def len)
  next
    case (receive m q)
    have mi: "(\<exists>bs. m = data_msg bs) \<or> m = end_msg \<or> m = failure_msg" using in_history [OF s, of m] receive(2) by (simp add: queued_def)
    have nf: "m \<noteq> failure_msg"
    proof
      assume mf: "m = failure_msg"
      then have l: "fc_pc s = C_Loop" using receive(1) by auto
      then have g: "got s \<noteq> []" using c by (simp add: client_ok_def)
      have "got s @ queued s = [failure_msg]" using receive(2) mf by (intro failure_alone [OF s]) (simp add: queued_def)
      with g receive(2) show False by (cases "got s") (auto simp: queued_def)
    qed
    have "sent_ok cont exists body t" using receive(2,3) by (intro sent_ok_receive [OF s]) (simp_all add: queued_def)
    moreover have "client_ok t"
    proof -
      have tot: "(if fc_pc s = C_First then 0 else totBytes s) = int (sum_list (map (length \<circ> rs_data) (got s)))
          \<and> (if fc_pc s = C_First then 0 else numMsgs s) = int (length (got s))"
        using c receive(1) by (auto simp: client_ok_def resp_defs)
      show ?thesis using receive(3) tot nf mi by (auto simp: client_ok_def after_message_def resp_defs)
    qed
    ultimately show ?thesis by (simp add: mfile_inv_def len)
  next
    case report
    have g: "got s \<noteq> []" "last (got s) = end_msg" using c report(1) by (simp_all add: client_ok_def)
    have "queued s = []" using last_received [OF s g(1)] g(2) by simp
    then have "sent_ok cont exists body t" using report(2) by (intro sent_ok_receive [OF s]) (simp_all add: queued_def)
    moreover have "client_ok t" using report c g by (simp add: client_ok_def)
    ultimately show ?thesis by (simp add: mfile_inv_def len)
  qed
qed

section \<open>Progress and termination\<close>

definition pending :: "'w mfile \<Rightarrow> nat" where
  "pending s = (case fs_pc s of S_Send bs \<Rightarrow> length bs | _ \<Rightarrow> 0)"

definition s_weight :: "spc \<Rightarrow> nat" where
  "s_weight p = (case p of S_Open \<Rightarrow> 5 | S_Refuse \<Rightarrow> 3 | S_Read \<Rightarrow> 4 | S_Send _ \<Rightarrow> 3 | S_End \<Rightarrow> 3 | S_Exit _ \<Rightarrow> 0)"

definition c_weight :: "cpc \<Rightarrow> nat" where
  "c_weight p = (case p of C_First \<Rightarrow> 2 | C_Loop \<Rightarrow> 2 | C_Report \<Rightarrow> 1 | C_Exit _ \<Rightarrow> 0 | C_Overflow \<Rightarrow> 0)"

definition mfile_work :: "('w \<Rightarrow> cstring) \<Rightarrow> 'w mfile \<Rightarrow> nat" where
  "mfile_work cont s = 4 * (pending s + length (cont (f_kern s))) + 2 * length (queued s) + s_weight (fs_pc s) + c_weight (fc_pc s)"

lemmas work_defs = mfile_work_def pending_def s_weight_def c_weight_def queued_def

lemma child_work:
  assumes st: "serveRequest os qbytes s = Some t" and inv: "mfile_inv cont exists body s" and k: "serves os cont exists"
  shows "mfile_work cont t < mfile_work cont s"
proof -
  have s: "sent_ok cont exists body s" using inv by (simp add: mfile_inv_def)
  have "fs_pc s \<noteq> S_Exit e" for e using st by (auto simp: serveRequest_def)
  then obtain q where q: "mq s = Some q" "queued s = q" using running_queue [OF inv] by blast
  have sr: "stream_read (fo_read os) cont (\<lambda>_. 0)" using k by (simp add: serves_def)
  have op: "e = exists \<and> cont w' = cont w" if "fo_open os w = (e, w')" for e w w' using k that by (metis serves_def fst_conv snd_conv)
  have n: "0 < RESP_MSG_SIZE" by (simp add: RESP_MSG_SIZE_def)
  from st q(1) show ?thesis
  proof (cases rule: serveRequest_cases)
    case (opened e w)
    with op [OF opened(2)] q show ?thesis by (simp add: work_defs)
  next
    case (block b bs w)
    with read_data [OF sr n block(2)] q show ?thesis by (simp add: work_defs)
  next
    case (eof r w)
    from read_data [OF sr n eof(2)] obtain bs where "cont (f_kern s) = bs @ cont w" by blast
    with eof q show ?thesis by (simp add: work_defs)
  next
    case (send bs)
    then have "4 \<le> 4 * length bs" using sent_okD(4) [OF s send(1)] by (cases bs) auto
    with send q show ?thesis by (simp add: work_defs)
  qed (use q in \<open>simp_all add: work_defs\<close>)
qed

lemma client_work:
  assumes st: "file_client s = Some t" and inv: "mfile_inv cont exists body s"
  shows "mfile_work cont t < mfile_work cont s"
proof -
  from st inv show ?thesis
    by (cases rule: file_client_cases) (auto simp: work_defs after_message_def)
qed

lemma has_room: "0 < RESP_MSG_SIZE \<Longrightarrow> RESP_MSG_SIZE \<le> qbytes \<Longrightarrow> length (rs_data m) \<le> RESP_MSG_SIZE \<Longrightarrow> room qbytes [] m"
  by (simp add: room_def)

lemma child_blocked:
  assumes inv: "mfile_inv cont exists body s" and "RESP_MSG_SIZE \<le> qbytes" and "serveRequest os qbytes s = None" and "\<And>c. fs_pc s \<noteq> S_Exit c"
  shows "queued s \<noteq> []"
proof
  assume e: "queued s = []"
  from running_queue [OF inv assms(4)] e have q: "mq s = Some []" by metis
  have s: "sent_ok cont exists body s" using inv by (simp add: mfile_inv_def)
  have r: "room qbytes [] m" if "length (rs_data m) \<le> RESP_MSG_SIZE" for m using has_room [OF _ assms(2) that] by (simp add: RESP_MSG_SIZE_def)
  show False
  proof (cases "fs_pc s")
    case S_Open
    with assms(3) show ?thesis by (auto simp: serveRequest_def split: prod.splits bool.splits)
  next
    case S_Refuse
    have "length (snprintf RESP_MSG_SIZE ''Couldn't open'' @ [NUL]) \<le> RESP_MSG_SIZE" by (simp add: snprintf_def RESP_MSG_SIZE_def)
    with S_Refuse assms(3) q r show ?thesis by (simp add: serveRequest_def msgsnd_def)
  next
    case S_Read
    with assms(3) show ?thesis by (auto simp: serveRequest_def split: prod.splits sum.splits list.splits)
  next
    case (S_Send bs)
    with assms(3) q r sent_okD(4) [OF s S_Send] show ?thesis by (simp add: serveRequest_def msgsnd_def)
  next
    case S_End
    with assms(3) q r show ?thesis by (simp add: serveRequest_def msgsnd_def)
  next
    case (S_Exit c)
    with assms(4) show ?thesis by blast
  qed
qed

lemma mfile_progress:
  assumes inv: "mfile_inv cont exists body s" and "RESP_MSG_SIZE \<le> qbytes" and "\<not> (\<exists>c. fc_pc s = C_Exit c)"
  shows "\<exists>t. mfile_step os qbytes False s t"
proof (cases "\<exists>t. serveRequest os qbytes s = Some t")
  case False
  have s: "sent_ok cont exists body s" and c: "client_ok s" using inv by (auto simp: mfile_inv_def)
  have ne: "queued s \<noteq> []" if "fc_pc s \<noteq> C_Report"
  proof (cases "\<exists>c. fs_pc s = S_Exit c")
    case True
    have "last (got s) \<noteq> end_msg" "last (got s) \<noteq> failure_msg" if "got s \<noteq> []"
      using c \<open>fc_pc s \<noteq> C_Report\<close> assms(3) that by (auto simp: client_ok_def resp_defs split: cpc.splits)
    with s True show ?thesis by (cases rule: history_cases) (auto simp: append_eq_Cons_conv)
  next
    case 2: False
    with child_blocked [OF inv assms(2)] False show ?thesis by (metis not_None_eq)
  qed
  have "\<exists>t. file_client s = Some t"
    using ne assms(3) c by (cases "fc_pc s") (auto simp: file_client_def client_ok_def queued_def Let_def neq_Nil_conv split: if_splits)
  then show ?thesis by (blast intro: mfile_step.client)
qed (blast intro: mfile_step.child)

interpretation mfile: bounded_system "mfile_step os qbytes"
  "\<lambda>s. mfile_inv cont exists body s \<and> serves os cont exists \<and> RESP_MSG_SIZE \<le> qbytes" "mfile_work cont" 0 "\<lambda>s. \<exists>c. fc_pc s = C_Exit c"
  for os qbytes cont exists body
proof
  fix b s t
  assume i: "mfile_inv cont exists body s \<and> serves os cont exists \<and> RESP_MSG_SIZE \<le> qbytes" and st: "mfile_step os qbytes b s t"
  then show "mfile_inv cont exists body t \<and> serves os cont exists \<and> RESP_MSG_SIZE \<le> qbytes"
    by (auto elim!: mfile_stepE intro: child_inv client_inv)
  from i st show "Suc (mfile_work cont t) \<le> mfile_work cont s + (if b then 0 else 0)"
    by (auto elim!: mfile_stepE dest: child_work client_work simp: Suc_le_eq)
qed (use mfile_progress in blast)


section \<open>Requests\<close>

text \<open>The pathname of an accepted command line reaches the server unchanged.\<close>

lemma request_pathname: "client_request os argv w = Ret req w' \<Longrightarrow> rq_pathname req = argv ! 1"
  by (auto simp: client_request_def strncpy_fits obind_Ret_iff Let_def split: if_splits)

text \<open>Every request that arrives before a call fails gets its child, in the order of arrival, however
  often the server is interrupted.\<close>

definition request_queue :: "'w fserver_os \<Rightarrow> ('w \<Rightarrow> requestMsg list) \<Rightarrow> ('w \<Rightarrow> nat) \<Rightarrow> bool" where
  "request_queue os reqs intr \<longleftrightarrow> (\<forall>w. fst (fs_fork os w) = None \<and> reqs (snd (fs_fork os w)) = reqs w \<and> intr (snd (fs_fork os w)) = intr w \<and>
     (case fs_msgrcv os w of
        (Inr req, w') \<Rightarrow> reqs w = req # reqs w' \<and> intr w' = intr w
      | (Inl e, w') \<Rightarrow> reqs w' = reqs w \<and> (e = EINTR \<and> intr w' < intr w \<or> e \<noteq> EINTR \<and> reqs w = [])))"

lemma requests_served:
  assumes "request_queue os reqs intr" and "length (reqs w) + intr w < turns"
  shows "fst (server_loop turns os w) = reqs w"
  using assms(2)
proof (induction turns arbitrary: w)
  case (Suc turns)
  note q = assms(1) [unfolded request_queue_def, rule_format]
  obtain r w1 where r: "fs_msgrcv os w = (r, w1)" by fastforce
  show ?case
  proof (cases r)
    case (Inl e)
    with q [of w] r have c: "reqs w1 = reqs w" "e = EINTR \<and> intr w1 < intr w \<or> e \<noteq> EINTR \<and> reqs w = []" by auto
    with Suc Inl r show ?thesis by (auto simp: server_turn_def)
  next
    case (Inr req)
    obtain w2 where f: "fs_fork os w1 = (None, w2)" "reqs w2 = reqs w1" "intr w2 = intr w1" using q [of w1] by (metis prod.collapse)
    from q [of w] r Inr have "reqs w = req # reqs w1" "intr w1 = intr w" by auto
    with Suc.prems Suc.IH [of w2] f Inr r show ?thesis by (simp add: server_turn_def case_prod_beta)
  qed
qed simp

text \<open>The handler collects all children that have ended.\<close>

lemma reaper_reaps:
  assumes "\<And>w. zombies w > 0 \<Longrightarrow> fst (fs_waitpid os w) \<and> zombies (snd (fs_waitpid os w)) = zombies w - 1"
    and "\<And>w. zombies w = (0::nat) \<Longrightarrow> \<not> fst (fs_waitpid os w) \<and> zombies (snd (fs_waitpid os w)) = 0" and "zombies w < fuel"
  shows "\<exists>w'. grimReaper fuel os w = Some w' \<and> zombies w' = 0"
  using assms(3)
proof (induction fuel arbitrary: w)
  case (Suc fuel)
  obtain b w1 where b: "fs_waitpid os w = (b, w1)" by fastforce
  with Suc assms(1,2) [of w] show ?case by (cases "zombies w > 0") auto
qed simp

section \<open>A concrete transfer\<close>

definition demo_file_os :: "cstring file_os" where
  "demo_file_os = \<lparr> fo_open = \<lambda>w. (True, w), fo_read = \<lambda>n w. (Inr (take n w), drop n w) \<rparr>"

lemma demo_serves: "serves demo_file_os id True"
  by (auto simp: serves_def stream_read_def demo_file_os_def)

definition mfile_turn :: "bool \<Rightarrow> cstring mfile \<Rightarrow> cstring mfile option" where
  "mfile_turn b s = (if b then serveRequest demo_file_os 16384 s else file_client s)"

lemma mfile_turn_step: "mfile_turn b s = Some t \<Longrightarrow> mfile_step demo_file_os 16384 False s t"
  by (auto simp: mfile_turn_def intro: mfile_step.child mfile_step.client split: if_splits)

definition demo_received :: "cstring mfile" where
  "demo_received = \<lparr> fs_pc = S_Exit 0, fc_pc = C_Exit 0, mq = None, f_kern = [], totBytes = 2, numMsgs = 2,
     fc_out = ''Received 2 bytes (2 messages)'' @ [newline], got = [data_msg ''hi'', end_msg] \<rparr>"

lemma demo_transfer_exec:
  "exec_schedule mfile_turn [True, True, True, False, True, True, False, False] (mfile_start ''hi'') = Some demo_received"
proof -
  have "dec 2 = ''2''" by code_simp
  then show ?thesis
    by (simp add: mfile_turn_def serveRequest_def file_client_def mfile_start_def demo_file_os_def demo_received_def RESP_MSG_SIZE_def
        msgsnd_def room_def after_message_def client_exit_def msg_defs resp_defs INT_MAX_def)
qed


end
