(* ===== verification/Rand_Dtree.thy ===== *)
theory Rand_Dtree
  imports Util_Lib
begin

text \<open>
  \<^verbatim>\<open>inotify/rand_dtree.c\<close>: random creation, removal and renaming of directories below a directory,
  the companion of the directory-tree monitor. The random numbers, \<^verbatim>\<open>nftw()\<close>, the heap and the file
  system calls are arguments; what is asked of the file system is recorded.
\<close>

section \<open>Searching strings\<close>

fun strstr :: "cstring \<Rightarrow> cstring \<Rightarrow> (cstring \<times> cstring) option" where
  "strstr s t =
     (if take (length t) s = t then Some ([], s)
      else case s of [] \<Rightarrow> None | c # cs \<Rightarrow> (case strstr cs t of None \<Rightarrow> None | Some (a, b) \<Rightarrow> Some (c # a, b)))"

declare strstr.simps [simp del]

definition contains :: "cstring \<Rightarrow> cstring \<Rightarrow> bool" where "contains s t \<longleftrightarrow> strstr s t \<noteq> None"

definition strrchr :: "cstring \<Rightarrow> char \<Rightarrow> (cstring \<times> cstring) option" where
  "strrchr s c = (case strchr (rev s) c of None \<Rightarrow> None | Some (b, a) \<Rightarrow> Some (rev a, rev b))"

lemma strrchr_Some_iff: "strrchr s c = Some (a, b) \<longleftrightarrow> s = a @ c # b \<and> c \<notin> set b"
proof -
  have "strchr (rev s) c = Some (rev b, rev a) \<longleftrightarrow> rev s = rev b @ c # rev a \<and> c \<notin> set b" by (simp add: strchr_Some_iff)
  moreover have "rev s = rev b @ c # rev a \<longleftrightarrow> s = a @ c # b" by (metis append.assoc append_Cons append_Nil rev.simps(2) rev_append rev_rev_ident)
  ultimately show ?thesis by (auto simp: strrchr_def split: option.splits prod.splits)
qed

lemma strrchr_None_iff: "strrchr s c = None \<longleftrightarrow> c \<notin> set s"
  using strchr_None_iff [of "rev s" c] by (cases "strchr (rev s) c") (auto simp: strrchr_def)

lemma contains_iff: "contains s t \<longleftrightarrow> (\<exists>a b. s = a @ t @ b)"
proof (induction s)
  case Nil
  then show ?case by (subst contains_def, subst strstr.simps) auto
next
  case (Cons c cs)
  have "contains (c # cs) t \<longleftrightarrow> take (length t) (c # cs) = t \<or> contains cs t"
    unfolding contains_def by (subst strstr.simps) (auto split: option.splits)
  also have "\<dots> \<longleftrightarrow> (\<exists>a b. c # cs = a @ t @ b)"
  proof
    assume "take (length t) (c # cs) = t \<or> contains cs t"
    then show "\<exists>a b. c # cs = a @ t @ b"
      using Cons by (metis append_Cons append_Nil append_take_drop_id)
  next
    assume "\<exists>a b. c # cs = a @ t @ b"
    then obtain a b where "c # cs = a @ t @ b" by blast
    then show "take (length t) (c # cs) = t \<or> contains cs t" using Cons by (cases a) auto
  qed
  finally show ?case .
qed

lemma contains_append: "contains s t \<Longrightarrow> contains (s @ u) t" "contains s t \<Longrightarrow> contains (u @ s) t"
  unfolding contains_iff by (metis append.assoc)+

section \<open>State\<close>

definition DLIM :: nat where "DLIM = 60"
definition D_INCR :: nat where "D_INCR = 1000"
definition PATH_MAX :: nat where "PATH_MAX = 4096"
definition MARKER_STRING :: cstring where "MARKER_STRING = ''--''"

datatype fs_act = Mkdir cstring | Rmdir cstring | Rename cstring cstring

text \<open>\<^verbatim>\<open>nftw()\<close> gives the pathnames it visited, whether each is a directory, and whether it succeeded.\<close>

record 'w rd_os =
  rd_random :: "'w \<Rightarrow> nat \<times> 'w"
  rd_nftw :: "cstring \<Rightarrow> 'w \<Rightarrow> (cstring \<times> bool) list \<times> bool \<times> 'w"
  rd_realloc :: "nat \<Rightarrow> 'w \<Rightarrow> bool \<times> 'w"
  rd_strdup :: "cstring \<Rightarrow> 'w \<Rightarrow> cstring option \<times> 'w"
  rd_do :: "fs_act \<Rightarrow> 'w \<Rightarrow> bool \<times> 'w"
  rd_access :: "cstring option \<Rightarrow> 'w \<Rightarrow> bool \<times> 'w"
  rd_fopen :: "cstring \<Rightarrow> 'w \<Rightarrow> bool \<times> 'w"

text \<open>The first \<^verbatim>\<open>dcnt\<close> elements of \<^verbatim>\<open>dirList\<close>, null where \<^verbatim>\<open>strdup()\<close> failed, and its size; the log, if there is
  one; and what was asked of the file system.\<close>

record 'w rdt =
  dirList :: "cstring option list"
  dlSize :: nat
  rd_log :: "cstring list option"
  opcnt :: int
  acts :: "fs_act list"
  rd_kern :: 'w

abbreviation dcnt :: "'w rdt \<Rightarrow> nat" where "dcnt s \<equiv> length (dirList s)"

section \<open>Operations\<close>

definition rd_traverseTree :: "'w rd_os \<Rightarrow> cstring \<times> bool \<Rightarrow> 'w rdt \<Rightarrow> (unit, 'w rdt) outcome" where
  "rd_traverseTree os v s =
     (if \<not> snd v then Ret () s
      else
        obind (if dcnt s \<ge> dlSize s then
                 (case rd_realloc os (dlSize s + D_INCR) (rd_kern s) of
                    (True, w) \<Rightarrow> Ret () (s\<lparr> dlSize := dlSize s + D_INCR, rd_kern := w \<rparr>)
                  | (False, w) \<Rightarrow> Exit EXIT_FAILURE (s\<lparr> rd_kern := w \<rparr>))
               else Ret () s) (\<lambda>_ s.
        case rd_strdup os (fst v) (rd_kern s) of
          (d, w) \<Rightarrow> Ret () (s\<lparr> dirList := dirList s @ [d], rd_kern := w \<rparr>)))"

definition getDirList :: "'w rd_os \<Rightarrow> cstring \<Rightarrow> 'w rdt \<Rightarrow> (unit, 'w rdt) outcome" where
  "getDirList os pathname s =
     (case rd_nftw os pathname (rd_kern s) of
        (vs, ok, w) \<Rightarrow> ofold (rd_traverseTree os) vs (s\<lparr> dirList := [], rd_kern := w \<rparr>))"

definition log_message :: "cstring \<Rightarrow> 'w rdt \<Rightarrow> 'w rdt" where
  "log_message m s = s\<lparr> rd_log := map_option (\<lambda>l. l @ [m]) (rd_log s) \<rparr>"

definition act_text :: "fs_act \<Rightarrow> cstring" where
  "act_text a =
     (case a of
        Mkdir p \<Rightarrow> ''mkdir: '' @ p @ [newline]
      | Rmdir p \<Rightarrow> ''rmdir: '' @ p @ [newline]
      | Rename p q \<Rightarrow> ''rename: '' @ p @ '' ==> '' @ q @ [newline])"

text \<open>A file system call whose success is logged.\<close>

definition perform :: "'w rd_os \<Rightarrow> fs_act \<Rightarrow> 'w rdt \<Rightarrow> bool \<times> 'w rdt" where
  "perform os a s =
     (case rd_do os a (rd_kern s) of
        (ok, w) \<Rightarrow>
          let s = s\<lparr> acts := acts s @ [a], rd_kern := w \<rparr>
          in (ok, if ok then log_message (act_text a) s else s))"

definition random :: "'w rd_os \<Rightarrow> 'w rdt \<Rightarrow> nat \<times> 'w rdt" where
  "random os s = (case rd_random os (rd_kern s) of (r, w) \<Rightarrow> (r, s\<lparr> rd_kern := w \<rparr>))"

text \<open>\<^verbatim>\<open>dirList[random() % dcnt]\<close>, which is used as a string at once.\<close>

definition pick :: "'w rd_os \<Rightarrow> 'w rdt \<Rightarrow> (cstring, 'w rdt) outcome" where
  "pick os s =
     (if dcnt s = 0 then Undef
      else (case random os s of
        (r, s) \<Rightarrow> (case dirList s ! (r mod dcnt s) of None \<Rightarrow> Undef | Some d \<Rightarrow> Ret d s)))"

text \<open>\<^verbatim>\<open>%04d\<close> for a number that is not negative.\<close>

definition dec4 :: "int \<Rightarrow> cstring" where
  "dec4 v = replicate (4 - length (dec v)) (CHR ''0'') @ dec v"

definition sub_path :: "cstring \<Rightarrow> int \<Rightarrow> int \<Rightarrow> int \<Rightarrow> cstring" where
  "sub_path path pid scnt opc = path @ ''/'' @ dec (pid mod 100) @ MARKER_STRING @ ''scr'' @ dec scnt @ ''_'' @ dec opc"

lemma length_sub_path: "length path < length (sub_path path pid scnt opc)"
  by (simp add: sub_path_def)

lemma sub_path_nearer:
  "length (sub_path path pid scnt opc) \<le> DLIM \<Longrightarrow> Suc DLIM - length (sub_path path pid scnt opc) < Suc DLIM - length path"
  using length_sub_path [of path pid scnt opc] by linarith

function create_loop :: "'w rd_os \<Rightarrow> int \<Rightarrow> cstring \<Rightarrow> int \<Rightarrow> 'w rdt \<Rightarrow> 'w rdt" where
  "create_loop os pid path scnt s =
     (case random os s of
        (r, s) \<Rightarrow>
          if r mod 3 < 2 then
            (if length (sub_path path pid scnt (opcnt s)) > DLIM then s
             else
               (case perform os (Mkdir (snprintf PATH_MAX (sub_path path pid scnt (opcnt s)))) s of
                  (_, s') \<Rightarrow>
                    create_loop os pid (strncpy (snprintf PATH_MAX (sub_path path pid scnt (opcnt s))) (PATH_MAX - 1)) (scnt + 1) s'))
          else s)"
  by auto
termination
proof (relation "measure (\<lambda>(os, pid, path, scnt, s). Suc DLIM - length path)", goal_cases)
  case 1
  then show ?case by simp
next
  case (2 os pid path scnt s)
  then show ?case
    using DLIM_def by (auto simp: snprintf_def strncpy_def PATH_MAX_def not_less intro: sub_path_nearer)
qed

declare create_loop.simps [simp del]

text \<open>The result is false where the branch ends with \<^verbatim>\<open>continue\<close>.\<close>

definition do_create :: "'w rd_os \<Rightarrow> int \<Rightarrow> 'w rdt \<Rightarrow> (bool, 'w rdt) outcome" where
  "do_create os pid s =
     obind (pick os s) (\<lambda>d s.
       let path = snprintf PATH_MAX (d @ ''/'' @ dec (pid mod 100) @ MARKER_STRING @ ''cr'' @ ''_'' @ dec (opcnt s));
           nslashes = length (filter (\<lambda>c. c = CHR ''/'') path)
       in if length path > DLIM then Ret False s
          else
            (case (if nslashes > 1 then random os s else (0, s)) of
               (r, s) \<Rightarrow>
                 if nslashes > 1 \<and> r mod nslashes > 0 then Ret False s
                 else (case perform os (Mkdir path) s of (_, s) \<Rightarrow> Ret True (create_loop os pid path 1 s))))"

function delete_loop :: "'w rd_os \<Rightarrow> cstring \<Rightarrow> 'w rdt \<Rightarrow> 'w rdt" where
  "delete_loop os path s =
     (if contains path MARKER_STRING then
        (case perform os (Rmdir path) s of
           (False, s) \<Rightarrow> s
         | (True, s) \<Rightarrow> (case strrchr path (CHR ''/'') of None \<Rightarrow> s | Some (a, b) \<Rightarrow> delete_loop os a s))
      else s)"
  by auto
termination
  by (relation "measure (\<lambda>(os, path, s). length path)") (auto simp: strrchr_Some_iff)

declare delete_loop.simps [simp del]

definition do_delete :: "'w rd_os \<Rightarrow> 'w rdt \<Rightarrow> (bool, 'w rdt) outcome" where
  "do_delete os s =
     (if dcnt s = 0 then Ret False s
      else obind (pick os s) (\<lambda>d s. Ret True (delete_loop os (snprintf PATH_MAX d) s)))"

definition do_rename :: "'w rd_os \<Rightarrow> int \<Rightarrow> 'w rdt \<Rightarrow> (bool, 'w rdt) outcome" where
  "do_rename os pid s =
     (if dcnt s < 3 then Ret False s
      else obind (pick os s) (\<lambda>to_move s.
        if contains to_move MARKER_STRING then
          (case strrchr to_move (CHR ''/'') of
             None \<Rightarrow> Undef
           | Some (_, name) \<Rightarrow>
               let tfile = snprintf PATH_MAX name;
                   tfile = (case strstr tfile ''__ren'' of None \<Rightarrow> tfile | Some (a, b) \<Rightarrow> a)
               in obind (pick os s) (\<lambda>d s.
                 let target = d @ ''/'' @ tfile @ ''__ren'' @ dec4 (opcnt s) @ ''-'' @ dec pid
                 in if length target > DLIM then Ret True s
                    else (case perform os (Rename to_move (snprintf PATH_MAX target)) s of (_, s) \<Rightarrow> Ret True s)))
        else Ret True s))"

text \<open>A turn of the loop; the result tells whether the loop goes on. A turn that ends with \<^verbatim>\<open>continue\<close>
  frees nothing, is not counted and does not look for the stop file. The pause between turns is left out.\<close>

definition rand_turn :: "'w rd_os \<Rightarrow> int \<Rightarrow> cstring \<Rightarrow> cstring \<Rightarrow> int \<Rightarrow> cstring option \<Rightarrow> 'w rdt \<Rightarrow> (bool, 'w rdt) outcome" where
  "rand_turn os pid dirpath op maxops stopf s =
     obind (getDirList os dirpath s) (\<lambda>_ s.
     obind (if cchar op 0 = CHR ''c'' then do_create os pid s
            else if cchar op 0 = CHR ''d'' then do_delete os s
            else if cchar op 0 = CHR ''m'' then do_rename os pid s
            else Ret True s) (\<lambda>finished s.
       if \<not> finished then Ret True s
       else
         (let s = s\<lparr> dirList := map (\<lambda>_. None) (dirList s), opcnt := opcnt s + 1 \<rparr>
          in if \<not> in_int (opcnt s) then Undef
          else if maxops > 0 \<and> opcnt s \<ge> maxops then Ret False s
          else (case rd_access os stopf (rd_kern s) of (found, w) \<Rightarrow> Ret (\<not> found) (s\<lparr> rd_kern := w \<rparr>)))))"

fun rand_loop :: "nat \<Rightarrow> 'w rd_os \<Rightarrow> int \<Rightarrow> cstring \<Rightarrow> cstring \<Rightarrow> int \<Rightarrow> cstring option \<Rightarrow> 'w rdt \<Rightarrow> (bool, 'w rdt) outcome" where
  "rand_loop 0 os pid dirpath op maxops stopf s = Ret True s"
| "rand_loop (Suc turns) os pid dirpath op maxops stopf s =
     obind (rand_turn os pid dirpath op maxops stopf s) (\<lambda>again s.
       if again then rand_loop turns os pid dirpath op maxops stopf s else Exit EXIT_SUCCESS s)"

text \<open>The options \<^verbatim>\<open>getopt()\<close> found, with their arguments.\<close>

record rd_opts =
  ro_maxops :: int
  ro_stopFile :: "cstring option"
  ro_usecs :: int

fun rand_options :: "'w rd_os \<Rightarrow> (char \<times> cstring) list \<Rightarrow> rd_opts \<Rightarrow> 'w rdt \<Rightarrow> (rd_opts, 'w rdt) outcome" where
  "rand_options os [] r s = Ret r s"
| "rand_options os ((opt, optarg) # ops) r s =
     (if opt = CHR ''s'' then rand_options os ops (r\<lparr> ro_usecs := atoi optarg \<rparr>) s
      else if opt = CHR ''z'' then rand_options os ops (r\<lparr> ro_stopFile := Some optarg \<rparr>) s
      else if opt = CHR ''m'' then rand_options os ops (r\<lparr> ro_maxops := atoi optarg \<rparr>) s
      else if opt = CHR ''l'' then
        (case rd_fopen os optarg (rd_kern s) of
           (True, w) \<Rightarrow> rand_options os ops r (s\<lparr> rd_log := Some [], rd_kern := w \<rparr>)
         | (False, w) \<Rightarrow> Exit EXIT_FAILURE (s\<lparr> rd_kern := w \<rparr>))
      else Exit EXIT_FAILURE s)"

definition rand_main :: "nat \<Rightarrow> 'w rd_os \<Rightarrow> int \<Rightarrow> (char \<times> cstring) list \<Rightarrow> cstring list \<Rightarrow> 'w \<Rightarrow> (bool, 'w rdt) outcome" where
  "rand_main turns os pid opts args w =
     obind (rand_options os opts \<lparr> ro_maxops = 0, ro_stopFile = None, ro_usecs = 1 \<rparr>
         \<lparr> dirList = [], dlSize = 0, rd_log = None, opcnt = 0, acts = [], rd_kern = w \<rparr>) (\<lambda>r s.
       if length args < 2 then Exit EXIT_FAILURE s
       else rand_loop turns os pid (args ! 0) (args ! 1) (ro_maxops r) (ro_stopFile r) s)"

section \<open>Only directories below the root are touched\<close>

definition inside :: "cstring \<Rightarrow> cstring \<Rightarrow> bool" where
  "inside root p \<longleftrightarrow> take (Suc (length root)) p = root @ ''/''"

definition act_ok :: "cstring \<Rightarrow> fs_act \<Rightarrow> bool" where
  "act_ok root a =
     (case a of
        Mkdir p \<Rightarrow> inside root p \<and> contains p MARKER_STRING \<and> length p \<le> DLIM
      | Rmdir p \<Rightarrow> inside root p \<and> contains p MARKER_STRING
      | Rename p q \<Rightarrow> inside root p \<and> contains p MARKER_STRING \<and> inside root q \<and> length q \<le> DLIM)"

text \<open>What is relied on of \<^verbatim>\<open>nftw()\<close>: it visits the root, and pathnames that extend the root by a slash and more.\<close>

definition nftw_below :: "'w rd_os \<Rightarrow> cstring \<Rightarrow> bool" where
  "nftw_below os root \<longleftrightarrow>
     (\<forall>w. (root, True) \<in> set (fst (rd_nftw os root w)) \<and>
          (\<forall>v\<in>set (fst (rd_nftw os root w)). fst v = root \<or> inside root (fst v)))"

definition strdup_works :: "'w rd_os \<Rightarrow> bool" where
  "strdup_works os \<longleftrightarrow> (\<forall>p w. fst (rd_strdup os p w) = Some p)"

lemma inside_iff: "inside root p \<longleftrightarrow> (\<exists>r. p = root @ ''/'' @ r)"
  unfolding inside_def by (metis append_assoc append_eq_conv_conj append_take_drop_id length_append_singleton)

lemma inside_append: "p = root \<or> inside root p \<Longrightarrow> inside root (p @ ''/'' @ q)"
  by (auto simp: inside_iff)

lemma inside_parent: "inside root p \<Longrightarrow> strrchr p (CHR ''/'') = Some (a, b) \<Longrightarrow> a = root \<or> inside root a"
  by (auto simp: inside_iff strrchr_Some_iff append_eq_append_conv2 Cons_eq_append_conv append_eq_Cons_conv)

lemma inside_has_slash: "inside root p \<Longrightarrow> strrchr p (CHR ''/'') \<noteq> None"
  by (auto simp: inside_iff strrchr_None_iff)

lemma marked_inside: "\<not> contains root m \<Longrightarrow> contains p m \<Longrightarrow> p = root \<or> inside root p \<Longrightarrow> inside root p"
  by auto

lemma contains_take: "contains (take n p) t \<Longrightarrow> contains p t"
  by (metis contains_append(1) append_take_drop_id)

lemma inside_take:
  assumes "\<not> contains root m" "contains (take n p) m" "p = root \<or> inside root p"
  shows "inside root (take n p)"
proof -
  have "n > length root"
  proof (rule ccontr)
    assume n: "\<not> n > length root"
    then have "take n p = take n root" using assms(3) by (auto simp: inside_iff)
    then show False using assms(1,2) contains_take by metis
  qed
  moreover have "inside root p" using marked_inside [OF assms(1) contains_take [OF assms(2)] assms(3)] .
  ultimately show ?thesis by (auto simp: inside_def min_def)
qed

subsection \<open>Invariant of a turn\<close>

definition dir_ok :: "cstring \<Rightarrow> cstring option \<Rightarrow> bool" where
  "dir_ok root d \<longleftrightarrow> (\<exists>p. d = Some p \<and> (p = root \<or> inside root p))"

definition turn_inv :: "cstring \<Rightarrow> int \<Rightarrow> 'w rdt \<Rightarrow> bool" where
  "turn_inv root n s \<longleftrightarrow> (\<forall>a\<in>set (acts s). act_ok root a) \<and> (\<forall>d\<in>set (dirList s). dir_ok root d) \<and> opcnt s = n"

lemma turn_inv_random: "turn_inv root n s \<Longrightarrow> random os s = (r, s') \<Longrightarrow> turn_inv root n s' \<and> dirList s' = dirList s"
  by (auto simp: random_def turn_inv_def split: prod.splits)

lemma turn_inv_perform: "turn_inv root n s \<Longrightarrow> act_ok root a \<Longrightarrow> perform os a s = (ok, s') \<Longrightarrow> turn_inv root n s'"
  by (auto simp: perform_def turn_inv_def log_message_def Let_def split: prod.splits if_splits)

lemma pick_safe:
  assumes "turn_inv root n s" "dcnt s > 0"
  shows "\<exists>d s'. pick os s = Ret d s' \<and> (d = root \<or> inside root d) \<and> turn_inv root n s' \<and> dcnt s' > 0"
proof -
  obtain r s' where r: "random os s = (r, s')" by fastforce
  note i = turn_inv_random [OF assms(1) r]
  then have "dir_ok root (dirList s' ! (r mod dcnt s'))"
    using assms(2) by (auto simp: turn_inv_def)
  then show ?thesis using r i assms(2) by (auto simp: pick_def dir_ok_def)
qed

lemma marker_path: "contains (p @ MARKER_STRING @ q) MARKER_STRING"
  by (auto simp: contains_iff)

lemma sub_path_ok:
  "path = root \<or> inside root path \<Longrightarrow> length (sub_path path pid scnt opc) \<le> DLIM \<Longrightarrow> act_ok root (Mkdir (sub_path path pid scnt opc))"
  using marker_path [of "path @ ''/'' @ dec (pid mod 100)"] inside_append [of path root]
  by (simp add: act_ok_def sub_path_def)

lemma snprintf_short [simp]: "length t \<le> DLIM \<Longrightarrow> snprintf PATH_MAX t = t" "length t \<le> DLIM \<Longrightarrow> strncpy t (PATH_MAX - Suc 0) = t"
  by (simp_all add: snprintf_def strncpy_def PATH_MAX_def DLIM_def)

lemma create_loop_inv:
  "turn_inv root n s \<Longrightarrow> path = root \<or> inside root path \<Longrightarrow> turn_inv root n (create_loop os pid path scnt s)"
proof (induction os pid path scnt s rule: create_loop.induct)
  case (1 os pid path scnt s)
  obtain r s1 where r: "random os s = (r, s1)" by fastforce
  note i = turn_inv_random [OF "1.prems"(1) r, THEN conjunct1]
  let ?p = "sub_path path pid scnt (opcnt s1)"
  show ?case
  proof (cases "r mod 3 < 2 \<and> length ?p \<le> DLIM")
    case True
    obtain ok s2 where p: "perform os (Mkdir ?p) s1 = (ok, s2)" by fastforce
    have a: "act_ok root (Mkdir ?p)" using sub_path_ok "1.prems"(2) True by blast
    then have "turn_inv root n (create_loop os pid ?p (scnt + 1) s2)"
      using "1.IH" [OF r [symmetric], of ok s2] True p turn_inv_perform [OF i a p] by (simp add: act_ok_def)
    then show ?thesis using True r p by (subst create_loop.simps) simp
  next
    case False
    then show ?thesis using r i by (subst create_loop.simps) auto
  qed
qed

lemma delete_loop_inv:
  "turn_inv root n s \<Longrightarrow> \<not> contains root MARKER_STRING \<Longrightarrow> \<not> contains path MARKER_STRING \<or> inside root path \<Longrightarrow>
   turn_inv root n (delete_loop os path s)"
proof (induction os path s rule: delete_loop.induct)
  case (1 os path s)
  obtain ok s1 where p: "perform os (Rmdir path) s = (ok, s1)" by fastforce
  show ?case
  proof (cases "contains path MARKER_STRING")
    case True
    then have a: "act_ok root (Rmdir path)" using "1.prems" by (simp add: act_ok_def)
    note i = turn_inv_perform [OF "1.prems"(1) a p]
    show ?thesis
    proof (cases "strrchr path (CHR ''/'')")
      case None
      then show ?thesis using i p True by (subst delete_loop.simps) (auto split: bool.splits)
    next
      case (Some ab)
      obtain a b where ab: "ab = (a, b)" by fastforce
      have "a = root \<or> inside root a" using inside_parent Some ab "1.prems" True by blast
      then have "ok \<Longrightarrow> turn_inv root n (delete_loop os a s1)"
        using "1.IH" [OF True p [symmetric] _ Some ab [symmetric]] i "1.prems"(2) by blast
      then show ?thesis using i p True Some ab by (subst delete_loop.simps) (auto split: bool.splits)
    qed
  next
    case False
    then show ?thesis using "1.prems" by (subst delete_loop.simps) simp
  qed
qed

lemma rd_traverse_inv:
  assumes "turn_inv root n s" "strdup_works os" "fst v = root \<or> inside root (fst v)"
  shows "final (turn_inv root n) (rd_traverseTree os v s)"
    and "rd_traverseTree os v s = Ret () s' \<Longrightarrow> dcnt s' = dcnt s + (if snd v then 1 else 0)"
proof -
  have d: "fst (rd_strdup os p w) = Some p" for p w using assms(2) by (simp add: strdup_works_def)
  then have d: "rd_strdup os p w = (q, w') \<Longrightarrow> q = Some p" for p q w w' by (metis fst_conv)
  show "final (turn_inv root n) (rd_traverseTree os v s)"
    using assms(1,3) by (auto simp: rd_traverseTree_def turn_inv_def dir_ok_def split: prod.splits bool.splits dest: d)
  show "rd_traverseTree os v s = Ret () s' \<Longrightarrow> dcnt s' = dcnt s + (if snd v then 1 else 0)"
    by (auto simp: rd_traverseTree_def split: prod.splits bool.splits if_splits)
qed

lemma rd_fold_inv:
  assumes "strdup_works os" "\<forall>v\<in>set vs. fst v = root \<or> inside root (fst v)"
  shows "turn_inv root n s \<Longrightarrow>
     final (turn_inv root n) (ofold (rd_traverseTree os) vs s) \<and>
     (\<forall>s'. ofold (rd_traverseTree os) vs s = Ret () s' \<longrightarrow> dcnt s' = dcnt s + length (filter snd vs))"
  using assms(2)
proof (induction vs arbitrary: s)
  case (Cons v vs)
  note i = rd_traverse_inv(1) [OF Cons.prems(1) assms(1), of v]
  note j = rd_traverse_inv(2) [OF Cons.prems(1) assms(1), of v]
  show ?case
  proof (cases "rd_traverseTree os v s")
    case (Ret u s')
    then show ?thesis using Cons i j [of s'] by auto
  qed (use Cons i in auto)
qed simp

lemma getDirList_inv:
  assumes "strdup_works os" "nftw_below os root" "\<forall>a\<in>set (acts s). act_ok root a" "opcnt s = n"
  shows "final (turn_inv root n) (getDirList os root s)"
    and "getDirList os root s = Ret u s' \<Longrightarrow> dcnt s' > 0"
proof -
  obtain vs ok w where v: "rd_nftw os root (rd_kern s) = (vs, ok, w)" by (metis prod_cases3)
  have n: "(root, True) \<in> set vs" "\<forall>v\<in>set vs. fst v = root \<or> inside root (fst v)"
    using assms(2) v unfolding nftw_below_def by (metis fst_conv)+
  then have "length (filter snd vs) > 0" by (force simp: filter_empty_conv)
  moreover have "turn_inv root n (s\<lparr> dirList := [], rd_kern := w \<rparr>)" using assms(3,4) by (simp add: turn_inv_def)
  note rd_fold_inv [OF assms(1) n(2) this]
  ultimately show "final (turn_inv root n) (getDirList os root s)"
    and "getDirList os root s = Ret u s' \<Longrightarrow> dcnt s' > 0"
    using v by (simp_all add: getDirList_def)
qed

lemma do_create_inv:
  assumes "turn_inv root n s" "dcnt s > 0"
  shows "final (turn_inv root n) (do_create os pid s)"
proof -
  obtain d s1 where d: "pick os s = Ret d s1" "d = root \<or> inside root d" "turn_inv root n s1"
    using pick_safe [OF assms] by blast
  let ?t = "d @ ''/'' @ dec (pid mod 100) @ MARKER_STRING @ ''cr'' @ ''_'' @ dec (opcnt s1)"
  have m: "contains ?t MARKER_STRING"
    using marker_path [of "d @ ''/'' @ dec (pid mod 100)" "''cr'' @ ''_'' @ dec (opcnt s1)"] by simp
  have l: "length ?t \<le> DLIM" if "length (snprintf PATH_MAX ?t) \<le> DLIM"
    using that by (auto simp: snprintf_def PATH_MAX_def DLIM_def)
  have i: "final (turn_inv root n) (case perform os (Mkdir ?t) s2 of (_, s) \<Rightarrow> Ret True (create_loop os pid ?t 1 s))"
    if s2: "turn_inv root n s2" "length ?t \<le> DLIM" for s2
  proof -
    have a: "act_ok root (Mkdir ?t)" using s2(2) m inside_append [OF d(2)] by (simp add: act_ok_def)
    then show ?thesis using turn_inv_perform [OF s2(1) a] inside_append [OF d(2)]
      by (cases "perform os (Mkdir ?t) s2") (simp add: create_loop_inv)
  qed
  show ?thesis
  proof (cases "length (snprintf PATH_MAX ?t) \<le> DLIM")
    case True
    obtain r s2 where r: "random os s1 = (r, s2)" by fastforce
    note i2 = turn_inv_random [OF d(3) r, THEN conjunct1]
    show ?thesis
      unfolding do_create_def d(1) obind_simps Let_def
      using True snprintf_short(1) [OF l [OF True]] r i [OF i2 l [OF True]] i [OF d(3) l [OF True]] i2 by simp
  qed (use d in \<open>simp add: do_create_def\<close>)
qed

lemma do_delete_inv:
  assumes "turn_inv root n s" "\<not> contains root MARKER_STRING"
  shows "final (turn_inv root n) (do_delete os s)"
proof (cases "dcnt s = 0")
  case False
  then obtain d s1 where d: "pick os s = Ret d s1" "d = root \<or> inside root d" "turn_inv root n s1"
    using pick_safe [OF assms(1)] by blast
  have "\<not> contains (snprintf PATH_MAX d) MARKER_STRING \<or> inside root (snprintf PATH_MAX d)"
    using inside_take [OF assms(2) _ d(2)] by (auto simp: snprintf_def)
  then show ?thesis using False d delete_loop_inv assms(2) by (simp add: do_delete_def)
qed (use assms in \<open>simp add: do_delete_def\<close>)

lemma do_rename_inv:
  assumes "turn_inv root n s" "\<not> contains root MARKER_STRING"
  shows "final (turn_inv root n) (do_rename os pid s)"
proof (cases "dcnt s < 3")
  case False
  then obtain p s1 where p: "pick os s = Ret p s1" "p = root \<or> inside root p" "turn_inv root n s1" "dcnt s1 > 0"
    using pick_safe [OF assms(1)] by fastforce
  show ?thesis
  proof (cases "contains p MARKER_STRING")
    case True
    then have ip: "inside root p" using marked_inside assms(2) p(2) by blast
    then obtain a name where name: "strrchr p (CHR ''/'') = Some (a, name)" using inside_has_slash by fastforce
    obtain d s2 where d: "pick os s1 = Ret d s2" "d = root \<or> inside root d" "turn_inv root n s2"
      using pick_safe [OF p(3,4)] by blast
    have "act_ok root (Rename p (d @ ''/'' @ q))" if "length (d @ ''/'' @ q) \<le> DLIM" for q
      using that ip True inside_append [OF d(2)] by (simp add: act_ok_def)
    then show ?thesis
      unfolding do_rename_def p(1) using False True name d
      by (auto simp: Let_def not_less split: prod.splits dest!: turn_inv_perform [OF d(3), rotated])
  qed (use False p in \<open>simp add: do_rename_def\<close>)
qed (use assms in \<open>simp add: do_rename_def\<close>)

subsection \<open>Whole runs\<close>

definition acts_ok :: "cstring \<Rightarrow> 'w rdt \<Rightarrow> bool" where
  "acts_ok root s \<longleftrightarrow> (\<forall>a\<in>set (acts s). act_ok root a)"

lemma rand_turn_inv:
  assumes "strdup_works os" "nftw_below os root" "\<not> contains root MARKER_STRING"
    "acts_ok root s" "0 \<le> opcnt s" "opcnt s \<le> n" "n < 2147483647"
  shows "final (\<lambda>s. acts_ok root s \<and> 0 \<le> opcnt s \<and> opcnt s \<le> n + 1) (rand_turn os pid root op maxops stopf s)"
proof -
  let ?inv = "turn_inv root (opcnt s)"
  have fin: "final (\<lambda>s. acts_ok root s \<and> 0 \<le> opcnt s \<and> opcnt s \<le> n + 1)
       (if \<not> finished then Ret True s2
        else let s = s2\<lparr> dirList := map (\<lambda>_. None) (dirList s2), opcnt := opcnt s2 + 1 \<rparr>
          in if \<not> in_int (opcnt s) then Undef
          else if maxops > 0 \<and> opcnt s \<ge> maxops then Ret False s
          else (case rd_access os stopf (rd_kern s) of (found, w) \<Rightarrow> Ret (\<not> found) (s\<lparr> rd_kern := w \<rparr>)))"
    if "?inv s2" for finished s2
    using that assms(5-7) by (auto simp: turn_inv_def acts_ok_def in_int_def INT_MIN_def INT_MAX_def Let_def split: prod.splits)
  note g = getDirList_inv [OF assms(1,2) _ refl, of s]
  have a: "\<forall>a\<in>set (acts s). act_ok root a" using assms(4) by (simp add: acts_ok_def)
  have op: "final ?inv (if cchar op 0 = CHR ''c'' then do_create os pid s1
            else if cchar op 0 = CHR ''d'' then do_delete os s1
            else if cchar op 0 = CHR ''m'' then do_rename os pid s1
            else Ret True s1)" if "getDirList os root s = Ret u s1" for u s1
    using g(1) [OF a] g(2) [OF a that] that do_create_inv do_delete_inv do_rename_inv assms(3) by auto
  show ?thesis
    unfolding rand_turn_def
  proof (cases "getDirList os root s", goal_cases)
    case (1 u s1)
    show ?case unfolding 1 obind_simps using op [OF 1] fin
      by (cases "if cchar op 0 = CHR ''c'' then do_create os pid s1
            else if cchar op 0 = CHR ''d'' then do_delete os s1
            else if cchar op 0 = CHR ''m'' then do_rename os pid s1
            else Ret True s1") (use assms(5-7) in \<open>auto simp: turn_inv_def acts_ok_def\<close>)
  qed (use g(1) [OF a] assms(5-7) in \<open>auto simp: turn_inv_def acts_ok_def\<close>)
qed

lemma rand_loop_inv:
  assumes "strdup_works os" "nftw_below os root" "\<not> contains root MARKER_STRING"
  shows "acts_ok root s \<Longrightarrow> 0 \<le> opcnt s \<Longrightarrow> opcnt s + int turns \<le> 2147483647 \<Longrightarrow>
    final (acts_ok root) (rand_loop turns os pid root op maxops stopf s)"
proof (induction turns arbitrary: s)
  case (Suc turns)
  have "final (\<lambda>t. acts_ok root t \<and> 0 \<le> opcnt t \<and> opcnt t \<le> opcnt s + 1) (rand_turn os pid root op maxops stopf s)"
    using rand_turn_inv [OF assms Suc.prems(1,2) order_refl] Suc.prems(3) by simp
  then show ?case using Suc by (cases "rand_turn os pid root op maxops stopf s") (auto simp: Suc.IH)
qed simp

lemma rand_options_inv:
  "acts s = [] \<Longrightarrow> opcnt s = 0 \<Longrightarrow> final (\<lambda>s. acts s = [] \<and> opcnt s = 0) (rand_options os opts r s)"
  by (induction os opts r s rule: rand_options.induct) (auto split: prod.splits bool.splits)


text \<open>A file system that gives a fixed tree and lets every call succeed; the random numbers count up.\<close>

definition rd_demo :: "cstring list \<Rightarrow> nat rd_os" where
  "rd_demo ds =
     \<lparr> rd_random = (\<lambda>w. (w, w + 1)), rd_nftw = (\<lambda>p w. (map (\<lambda>d. (p @ d, True)) ([] # ds), True, w)),
       rd_realloc = (\<lambda>_ w. (True, w)), rd_strdup = (\<lambda>p w. (Some p, w)), rd_do = (\<lambda>_ w. (True, w)),
       rd_access = (\<lambda>_ w. (False, w)), rd_fopen = (\<lambda>_ w. (True, w)) \<rparr>"


section \<open>Limits\<close>

lemmas rd_eval = rand_turn_def getDirList_def rd_traverseTree_def do_delete_def do_rename_def do_create_def pick_def random_def
  perform_def log_message_def rd_demo_def Let_def snprintf_def PATH_MAX_def

lemma rd_demo_nftw [simp]: "rd_nftw (rd_demo ds) p w = (map (\<lambda>d. (p @ d, True)) ([] # ds), True, w)"
  by (simp add: rd_demo_def)

text \<open>The marker is looked for in the whole pathname: a root below a marked directory is removed itself, and
  so is that directory, which is outside the tree.\<close>

lemma marked_root_removed:
  "rand_main 1 (rd_demo []) 7 [(CHR ''m'', ''1'')] [''/x--y/z'', ''d''] 0 =
     Exit 0 \<lparr> dirList = [None], dlSize = 1000, rd_log = None, opcnt = 1, acts = [Rmdir ''/x--y/z'', Rmdir ''/x--y''], rd_kern = 1 \<rparr>"
  by code_simp

text \<open>A relative root with the marker and no slash makes the renaming use a null pointer.\<close>

lemma rename_without_slash:
  "rand_main 1 (rd_demo [''/a'', ''/b'']) 7 [] [''x--y'', ''m''] 0 = Undef"
  by code_simp

text \<open>When every pathname is too long nothing is ever created, counted or tested, so neither \<^verbatim>\<open>-m\<close> nor \<^verbatim>\<open>-z\<close> ends the
  program.\<close>

lemma long_root_spins:
  assumes "length root \<ge> DLIM"
  shows "\<exists>s. rand_loop turns (rd_demo []) pid root ''c'' maxops stopf s0 = Ret True s \<and> opcnt s = opcnt s0 \<and> acts s = acts s0"
proof (induction turns arbitrary: s0)
  case (Suc turns)
  have "\<exists>s. rand_turn (rd_demo []) pid root ''c'' maxops stopf s0 = Ret True s \<and> opcnt s = opcnt s0 \<and> acts s = acts s0"
    using assms by (auto simp: rd_eval cchar_def D_INCR_def DLIM_def)
  then show ?case using Suc by fastforce
qed simp

end
