(* ===== verification/Simple_Init.thy ===== *)
theory Simple_Init
  imports Interleaving Line_IO
begin

text \<open>
  \<^verbatim>\<open>namespaces/simple_init.c\<close>: an init process for a PID namespace with a small shell. The init process, its
  \<^verbatim>\<open>SIGCHLD\<close> handler and its children are step functions that are interleaved in any order; one system call
  is one step. Children may be stopped, continued and killed from outside, and orphans of the namespace
  become children of init. Messages, and the signals that reading from the terminal in the background
  causes, are left out.
\<close>

section \<open>Reading commands\<close>

definition CMD_SIZE :: nat where "CMD_SIZE = 10000"

text \<open>\<^verbatim>\<open>fgets()\<close>: the bytes stored, without the final null byte, and the rest of the input.\<close>

definition fgets :: "nat \<Rightarrow> cstring \<Rightarrow> (cstring \<times> cstring) option" where
  "fgets n inp = (if inp = [] then None else let l = take (n - 1) (line_of inp) in Some (l, drop (length l) inp))"

text \<open>The array up to its first null byte; \<open>None\<close> when that is its first byte, where \<^verbatim>\<open>cmd[strlen(cmd) - 1]\<close> is outside the
  array.\<close>

definition strip_newline :: "cstring \<Rightarrow> cstring option" where
  "strip_newline buf =
     (let cmd = takeWhile (\<lambda>c. c \<noteq> NUL) buf
      in if cmd = [] then None else Some (if last cmd = newline then butlast cmd else cmd))"

section \<open>State\<close>

datatype kpc = K_Expand cstring | K_Setpgid "cstring list" | K_Tcsetpgrp "cstring list" | K_Exec "cstring list"
  | K_Run "cstring list" | K_Zombie

text \<open>\<open>kd_change\<close>: the child has changed state since it was last waited for.\<close>

record kid =
  kd_pid :: nat
  kd_pc :: kpc
  kd_stopped :: bool
  kd_change :: bool

datatype ipc = P_Read | P_Fork cstring | P_Forked | P_Pause | P_Fg | P_Umount | P_Exit int | P_Undef

text \<open>\<open>spawned\<close> records the commands for which a child was started.\<close>

record 'w sinit =
  si_pc :: ipc
  in_handler :: bool
  sigchld :: bool
  kids :: "kid list"
  fg :: nat
  si_input :: cstring
  proc_path :: "cstring option"
  next_pid :: nat
  spawned :: "cstring list"
  si_kern :: 'w

text \<open>The init process has PID 1 in its namespace.\<close>

definition init_pid :: nat where "init_pid = 1"

datatype si_call = Sigaction | Setpgid | Tcsetpgrp | Mount_Slave cstring | Mount_Proc cstring | Umount cstring | Fork | Calloc | Execvp "cstring list"

record 'w si_os =
  si_call :: "si_call \<Rightarrow> 'w \<Rightarrow> bool \<times> 'w"
  si_wordexp :: "cstring \<Rightarrow> 'w \<Rightarrow> cstring list option \<times> 'w"

definition sicall :: "'w si_os \<Rightarrow> si_call \<Rightarrow> 'w sinit \<Rightarrow> bool \<times> 'w sinit" where
  "sicall os c s = (case si_call os c (si_kern s) of (ok, w) \<Rightarrow> (ok, s\<lparr> si_kern := w \<rparr>))"

section \<open>The init process\<close>

text \<open>The options found, then the steps up to the loop.\<close>

fun init_options :: "(char \<times> cstring) list \<Rightarrow> cstring option \<Rightarrow> cstring option option" where
  "init_options [] p = Some p"
| "init_options ((opt, optarg) # opts) p =
     (if opt = CHR ''p'' then init_options opts (Some optarg)
      else if opt = CHR ''v'' then init_options opts p
      else None)"

definition si_must :: "'w si_os \<Rightarrow> si_call \<Rightarrow> 'w sinit \<Rightarrow> (unit, 'w sinit) outcome" where
  "si_must os c s = (case sicall os c s of (True, s) \<Rightarrow> Ret () s | (False, s) \<Rightarrow> Exit EXIT_FAILURE s)"

definition init_setup :: "'w si_os \<Rightarrow> (char \<times> cstring) list \<Rightarrow> 'w sinit \<Rightarrow> (unit, 'w sinit) outcome" where
  "init_setup os opts s =
     (case init_options opts None of
        None \<Rightarrow> Exit EXIT_FAILURE s
      | Some path \<Rightarrow>
          obind (si_must os Sigaction (s\<lparr> proc_path := path \<rparr>)) (\<lambda>_ s.
          obind (si_must os Setpgid s) (\<lambda>_ s.
          obind (si_must os Tcsetpgrp s) (\<lambda>_ s.
            let s = s\<lparr> fg := init_pid \<rparr>
            in case path of
                 None \<Rightarrow> Ret () s
               | Some p \<Rightarrow> si_must os (Mount_Proc p) (snd (sicall os (Mount_Slave p) s))))))"

definition init_start :: "cstring \<Rightarrow> 'w \<Rightarrow> 'w sinit" where
  "init_start inp w =
     \<lparr> si_pc = P_Read, in_handler = False, sigchld = False, kids = [], fg = 0, si_input = inp, proc_path = None, next_pid = 2,
       spawned = [], si_kern = w \<rparr>"

text \<open>One call of \<^verbatim>\<open>waitpid()\<close> in the handler; \<open>None\<close> is the result 0 or the error \<^verbatim>\<open>ECHILD\<close>, with which the handler ends.
  A child that has terminated is gone afterwards.\<close>

fun waitpid :: "kid list \<Rightarrow> (nat \<times> kid list) option" where
  "waitpid [] = None"
| "waitpid (k # ks) =
     (if kd_change k then Some (kd_pid k, if kd_pc k = K_Zombie then ks else k\<lparr> kd_change := False \<rparr> # ks)
      else case waitpid ks of None \<Rightarrow> None | Some (pid, ks) \<Rightarrow> Some (pid, k # ks))"

text \<open>A step of the handler. \<^verbatim>\<open>pause()\<close> returns when the handler has returned.\<close>

definition child_handler :: "'w sinit \<Rightarrow> 'w sinit" where
  "child_handler s =
     (case waitpid (kids s) of
        Some (pid, ks) \<Rightarrow> s\<lparr> kids := ks \<rparr>
      | None \<Rightarrow> s\<lparr> in_handler := False, si_pc := if si_pc s = P_Pause then P_Fg else si_pc s \<rparr>)"

definition init_loop :: "'w si_os \<Rightarrow> 'w sinit \<Rightarrow> 'w sinit option" where
  "init_loop os s =
     (case si_pc s of
        P_Read \<Rightarrow>
          (case fgets CMD_SIZE (si_input s) of
             None \<Rightarrow> Some (s\<lparr> si_pc := P_Umount \<rparr>)
           | Some (buf, rest) \<Rightarrow>
               Some (s\<lparr> si_input := rest,
                        si_pc := (case strip_newline buf of
                                    None \<Rightarrow> P_Undef
                                  | Some cmd \<Rightarrow> if cmd = [] then P_Read else P_Fork cmd) \<rparr>))
      | P_Fork cmd \<Rightarrow>
          (case sicall os Fork s of
             (False, s) \<Rightarrow> Some (s\<lparr> si_pc := P_Umount \<rparr>)
           | (True, s) \<Rightarrow>
               Some (s\<lparr> kids := kids s @ [\<lparr> kd_pid = next_pid s, kd_pc = K_Expand cmd, kd_stopped = False, kd_change = False \<rparr>],
                        next_pid := next_pid s + 1, spawned := spawned s @ [cmd], si_pc := P_Forked \<rparr>))
      | P_Forked \<Rightarrow> Some (s\<lparr> si_pc := P_Pause \<rparr>)
      | P_Pause \<Rightarrow> None
      | P_Fg \<Rightarrow>
          (case sicall os Tcsetpgrp s of
             (True, s) \<Rightarrow> Some (s\<lparr> fg := init_pid, si_pc := P_Read \<rparr>)
           | (False, s) \<Rightarrow> Some (s\<lparr> si_pc := P_Exit EXIT_FAILURE \<rparr>))
      | P_Umount \<Rightarrow>
          (case proc_path s of
             None \<Rightarrow> Some (s\<lparr> si_pc := P_Exit EXIT_SUCCESS \<rparr>)
           | Some p \<Rightarrow>
               (case sicall os (Umount p) s of
                  (True, s) \<Rightarrow> Some (s\<lparr> si_pc := P_Exit EXIT_SUCCESS \<rparr>)
                | (False, s) \<Rightarrow> Some (s\<lparr> si_pc := P_Exit EXIT_FAILURE \<rparr>)))
      | P_Exit c \<Rightarrow> None
      | P_Undef \<Rightarrow> None)"

section \<open>The children\<close>

definition upd_kid :: "nat \<Rightarrow> (kid \<Rightarrow> kid) \<Rightarrow> 'w sinit \<Rightarrow> 'w sinit" where
  "upd_kid i f s = s\<lparr> kids := (kids s)[i := f (kids s ! i)] \<rparr>"

definition kid_dies :: "nat \<Rightarrow> 'w sinit \<Rightarrow> 'w sinit" where
  "kid_dies i s = upd_kid i (\<lambda>k. k\<lparr> kd_pc := K_Zombie, kd_stopped := False, kd_change := True \<rparr>) s\<lparr> sigchld := True \<rparr>"

definition kid_goes :: "nat \<Rightarrow> kpc \<Rightarrow> 'w sinit \<Rightarrow> 'w sinit" where
  "kid_goes i pc s = upd_kid i (\<lambda>k. k\<lparr> kd_pc := pc \<rparr>) s"

definition expand_words :: "'w si_os \<Rightarrow> cstring \<Rightarrow> 'w sinit \<Rightarrow> cstring list option \<times> 'w sinit" where
  "expand_words os cmd s =
     (case si_wordexp os cmd (si_kern s) of
        (None, w) \<Rightarrow> (None, s\<lparr> si_kern := w \<rparr>)
      | (Some ws, w) \<Rightarrow>
          (case sicall os Calloc (s\<lparr> si_kern := w \<rparr>) of (True, s) \<Rightarrow> (Some ws, s) | (False, s) \<Rightarrow> (None, s)))"

text \<open>Without words \<^verbatim>\<open>arg_vec[0]\<close> is null, and \<^verbatim>\<open>execvp()\<close> does not succeed.\<close>

definition child_step :: "'w si_os \<Rightarrow> nat \<Rightarrow> 'w sinit \<Rightarrow> 'w sinit option" where
  "child_step os i s =
     (let k = kids s ! i
      in if kd_stopped k then None
         else (case kd_pc k of
             K_Expand cmd \<Rightarrow>
               (case expand_words os cmd s of (None, s) \<Rightarrow> Some (kid_dies i s) | (Some ws, s) \<Rightarrow> Some (kid_goes i (K_Setpgid ws) s))
           | K_Setpgid ws \<Rightarrow>
               (case sicall os Setpgid s of (False, s) \<Rightarrow> Some (kid_dies i s) | (True, s) \<Rightarrow> Some (kid_goes i (K_Tcsetpgrp ws) s))
           | K_Tcsetpgrp ws \<Rightarrow>
               (case sicall os Tcsetpgrp s of
                  (False, s) \<Rightarrow> Some (kid_dies i s)
                | (True, s) \<Rightarrow> Some (kid_goes i (K_Exec ws) (s\<lparr> fg := kd_pid k \<rparr>)))
           | K_Exec ws \<Rightarrow>
               (case sicall os (Execvp ws) s of
                  (ok, s) \<Rightarrow> if ok \<and> ws \<noteq> [] then Some (kid_goes i (K_Run ws) s) else Some (kid_dies i s))
           | K_Run ws \<Rightarrow> Some (kid_dies i s)
           | K_Zombie \<Rightarrow> None))"

section \<open>Interleaving\<close>

datatype actor = Init | Deliver | Kid nat | Stop nat | Continue nat | Kill nat | Adopt nat

definition init_ended :: "'w sinit \<Rightarrow> bool" where
  "init_ended s \<longleftrightarrow> (case si_pc s of P_Exit c \<Rightarrow> True | P_Undef \<Rightarrow> True | _ \<Rightarrow> False)"

text \<open>Because of \<^verbatim>\<open>SA_NOCLDSTOP\<close> a child that is stopped or continued raises no signal. When init ends the kernel kills
  all processes of the namespace.\<close>

definition simple_init :: "'w si_os \<Rightarrow> actor \<Rightarrow> 'w sinit \<Rightarrow> 'w sinit option" where
  "simple_init os a s =
     (if init_ended s then None
      else (case a of
          Init \<Rightarrow> if in_handler s then Some (child_handler s) else init_loop os s
        | Deliver \<Rightarrow> if sigchld s \<and> \<not> in_handler s then Some (s\<lparr> sigchld := False, in_handler := True \<rparr>) else None
        | Kid i \<Rightarrow> if i < length (kids s) then child_step os i s else None
        | Stop i \<Rightarrow>
            if i < length (kids s) \<and> \<not> kd_stopped (kids s ! i) \<and> kd_pc (kids s ! i) \<noteq> K_Zombie
            then Some (upd_kid i (\<lambda>k. k\<lparr> kd_stopped := True, kd_change := True \<rparr>) s) else None
        | Continue i \<Rightarrow>
            if i < length (kids s) \<and> kd_stopped (kids s ! i)
            then Some (upd_kid i (\<lambda>k. k\<lparr> kd_stopped := False, kd_change := True \<rparr>) s) else None
        | Kill i \<Rightarrow> if i < length (kids s) \<and> kd_pc (kids s ! i) \<noteq> K_Zombie then Some (kid_dies i s) else None
        | Adopt pid \<Rightarrow>
            Some (s\<lparr> kids := kids s @ [\<lparr> kd_pid = pid, kd_pc = K_Run [], kd_stopped = False, kd_change = False \<rparr>] \<rparr>)))"

definition from_outside :: "actor \<Rightarrow> bool" where
  "from_outside a = (case a of Init \<Rightarrow> False | Deliver \<Rightarrow> False | Kid i \<Rightarrow> False | _ \<Rightarrow> True)"

definition si_step :: "'w si_os \<Rightarrow> bool \<Rightarrow> 'w sinit \<Rightarrow> 'w sinit \<Rightarrow> bool" where
  "si_step os b s t \<longleftrightarrow> (\<exists>a. simple_init os a s = Some t \<and> b = from_outside a)"

section \<open>Children are reaped\<close>

abbreviation zombie :: "kid \<Rightarrow> bool" where "zombie k \<equiv> kd_pc k = K_Zombie"

definition si_inv :: "'w sinit \<Rightarrow> bool" where
  "si_inv s \<longleftrightarrow> (\<forall>k\<in>set (kids s). zombie k \<longrightarrow> kd_change k \<and> (sigchld s \<or> in_handler s))"

lemma sicall_fields [simp]:
  "sicall os c s = (ok, t) \<Longrightarrow> kids t = kids s \<and> sigchld t = sigchld s \<and> in_handler t = in_handler s \<and> si_pc t = si_pc s \<and>
    spawned t = spawned s \<and> si_input t = si_input s"
  by (auto simp: sicall_def split: prod.splits)

lemma expand_words_fields:
  "expand_words os c s = (r, t) \<Longrightarrow> kids t = kids s \<and> sigchld t = sigchld s \<and> in_handler t = in_handler s \<and> si_pc t = si_pc s \<and>
    spawned t = spawned s \<and> si_input t = si_input s"
  by (auto simp: expand_words_def split: prod.splits option.splits bool.splits dest!: sicall_fields)

definition same_run :: "'w sinit \<Rightarrow> 'w sinit \<Rightarrow> bool" where
  "same_run s t \<longleftrightarrow> kids t = kids s \<and> sigchld t = sigchld s \<and> in_handler t = in_handler s \<and> si_pc t = si_pc s \<and>
    spawned t = spawned s \<and> si_input t = si_input s"

lemma si_must_fields: "si_must os c s = Ret u t \<Longrightarrow> same_run s t"
  by (auto simp: si_must_def same_run_def split: prod.splits bool.splits dest!: sicall_fields)

lemma sicall_same_run: "same_run s (snd (sicall os c s))"
  using sicall_fields [of os c s "fst (sicall os c s)" "snd (sicall os c s)"] by (simp add: same_run_def)

lemma init_setup_fields:
  assumes "init_setup os opts s = Ret u t"
  shows "same_run s t"
proof -
  obtain path s1 s2 s3 where m: "si_must os Sigaction (s\<lparr> proc_path := path \<rparr>) = Ret () s1" "si_must os Setpgid s1 = Ret () s2"
    "si_must os Tcsetpgrp s2 = Ret () s3"
    and p: "(case path of None \<Rightarrow> Ret () (s3\<lparr> fg := init_pid \<rparr>)
       | Some p \<Rightarrow> si_must os (Mount_Proc p) (snd (sicall os (Mount_Slave p) (s3\<lparr> fg := init_pid \<rparr>)))) = Ret () t"
    using assms by (auto simp: init_setup_def obind_Ret_iff Let_def split: option.splits)
  have "same_run s s3" using m [THEN si_must_fields] by (simp add: same_run_def)
  then show ?thesis
  proof (cases path)
    case (Some q)
    then show ?thesis
      using \<open>same_run s s3\<close> p si_must_fields sicall_same_run [of "s3\<lparr> fg := init_pid \<rparr>" os "Mount_Slave q"]
      by (fastforce simp: same_run_def)
  qed (use p in \<open>auto simp: same_run_def\<close>)
qed

lemma waitpid_None_iff: "waitpid ks = None \<longleftrightarrow> (\<forall>k\<in>set ks. \<not> kd_change k)"
  by (induction ks) (auto split: option.splits)

definition survivors :: "kid list \<Rightarrow> kid list" where
  "survivors ks = map (kd_change_update (\<lambda>_. False)) (filter (\<lambda>k. \<not> (kd_change k \<and> zombie k)) ks)"

definition changes :: "kid list \<Rightarrow> nat" where
  "changes ks = length (filter kd_change ks)"

lemma waitpid_Some:
  "waitpid ks = Some (p, ks') \<Longrightarrow>
     changes ks = Suc (changes ks') \<and> survivors ks' = survivors ks \<and>
     (\<forall>k\<in>set ks'. zombie k \<longrightarrow> k \<in> set ks)"
  by (induction ks arbitrary: ks') (auto simp: changes_def survivors_def split: if_splits option.splits)

lemma si_inv_upd:
  "si_inv s \<Longrightarrow> (zombie (f (kids s ! i)) \<Longrightarrow> kd_change (f (kids s ! i)) \<and> (sigchld s \<or> in_handler s)) \<Longrightarrow> si_inv (upd_kid i f s)"
  by (auto simp: si_inv_def upd_kid_def dest!: set_update_subset_insert [THEN subsetD])

lemma si_inv_dies: "si_inv s \<Longrightarrow> si_inv (kid_dies i s)"
  by (auto simp: si_inv_def upd_kid_def kid_dies_def dest!: set_update_subset_insert [THEN subsetD])

lemma si_inv_goes: "si_inv s \<Longrightarrow> pc \<noteq> K_Zombie \<Longrightarrow> si_inv (kid_goes i pc s)"
  unfolding kid_goes_def by (rule si_inv_upd) simp_all

lemma si_inv_cong: "kids t = kids s \<and> sigchld t = sigchld s \<and> in_handler t = in_handler s \<and> P \<Longrightarrow> si_inv t = si_inv s"
  by (simp add: si_inv_def)

lemmas si_inv_calls = sicall_fields [THEN si_inv_cong] expand_words_fields [THEN si_inv_cong]

lemma si_inv_fg [simp]: "si_inv (s\<lparr> fg := p \<rparr>) = si_inv s"
  by (simp add: si_inv_def)

lemma child_step_inv: "si_inv s \<Longrightarrow> child_step os i s = Some t \<Longrightarrow> si_inv t"
  by (auto simp: child_step_def Let_def si_inv_calls intro!: si_inv_dies si_inv_goes
      split: if_splits kpc.splits prod.splits option.splits bool.splits)

lemma child_handler_inv: "si_inv s \<Longrightarrow> in_handler s \<Longrightarrow> si_inv (child_handler s)"
  using waitpid_None_iff [of "kids s"] waitpid_Some [of "kids s"]
  by (auto simp: child_handler_def si_inv_def split: option.splits)

lemma init_loop_inv: "si_inv s \<Longrightarrow> init_loop os s = Some t \<Longrightarrow> si_inv t"
  by (auto simp: init_loop_def si_inv_def split: ipc.splits prod.splits option.splits bool.splits dest!: sicall_fields)

lemma si_step_inv: "si_inv s \<Longrightarrow> si_step os b s t \<Longrightarrow> si_inv t"
proof (unfold si_step_def, elim exE conjE)
  fix a
  assume i: "si_inv s" and a: "simple_init os a s = Some t"
  have up: "si_inv (upd_kid j f s)" if "\<not> zombie (kids s ! j) \<or> kd_change (f (kids s ! j))" "zombie (f (kids s ! j)) \<longleftrightarrow> zombie (kids s ! j)"
    "j < length (kids s)" for j f
    by (rule si_inv_upd) (use i that in \<open>auto simp: si_inv_def\<close>)
  show "si_inv t"
  proof (cases a)
    case Deliver
    then show ?thesis using a i by (auto simp: simple_init_def si_inv_def split: if_splits)
  next
    case (Adopt p)
    then show ?thesis using a i by (auto simp: simple_init_def si_inv_def split: if_splits)
  qed (use a i in \<open>auto simp: simple_init_def child_handler_inv si_inv_dies intro: init_loop_inv child_step_inv up split: if_splits\<close>)
qed

lemma si_steps_inv: "steps (si_step os) s n k t \<Longrightarrow> si_inv s \<Longrightarrow> si_inv t"
  by (induction rule: steps.induct) (auto intro: si_step_inv)

text \<open>The handler, left alone, returns after one call per change and one more, and has taken the changes.\<close>

lemma handler_returns:
  "in_handler s \<Longrightarrow> \<not> init_ended s \<Longrightarrow>
   exec_schedule (simple_init os) (replicate (Suc (changes (kids s))) Init) s =
     Some (s\<lparr> in_handler := False, kids := survivors (kids s), si_pc := if si_pc s = P_Pause then P_Fg else si_pc s \<rparr>)"
proof (induction "changes (kids s)" arbitrary: s)
  case 0
  then have w: "waitpid (kids s) = None" by (auto simp: waitpid_None_iff changes_def filter_empty_conv)
  then have "survivors (kids s) = kids s" by (auto simp: waitpid_None_iff survivors_def intro!: map_idI)
  then show ?case using 0 w by (simp add: simple_init_def child_handler_def)
next
  case (Suc n)
  then have "waitpid (kids s) \<noteq> None"
    by (auto simp: waitpid_None_iff changes_def dest!: arg_cong [of "Suc n" _ "\<lambda>n. n \<noteq> 0"] simp: filter_empty_conv)
  then obtain p ks where w: "waitpid (kids s) = Some (p, ks)" by auto
  note c = waitpid_Some [OF w]
  have "in_handler (s\<lparr> kids := ks \<rparr>)" "\<not> init_ended (s\<lparr> kids := ks \<rparr>)" "n = changes (kids (s\<lparr> kids := ks \<rparr>))"
    using Suc c by (auto simp: init_ended_def)
  from Suc.hyps(1) [OF this(3,1,2)] show ?case
    using Suc.prems w c by (simp add: simple_init_def child_handler_def)
qed

text \<open>
  C7. After the set-up, in every interleaving of init with its children, with children stopped, continued and killed at any time and
  orphans adopted: whenever no \<^verbatim>\<open>SIGCHLD\<close> is pending and the handler is not running, init has no zombie; and whenever
  one is pending, its delivery runs the handler, which returns after one call of \<^verbatim>\<open>waitpid()\<close> for each child that
  changed state and one more, having reaped every zombie, left all other children, and released \<^verbatim>\<open>pause()\<close>.
\<close>

theorem init_reaps_children:
  assumes "init_setup os opts (init_start inp w) = Ret () s0" "steps (si_step os) s0 n k s"
  shows "(\<not> sigchld s \<longrightarrow> \<not> in_handler s \<longrightarrow> (\<forall>c\<in>set (kids s). kd_pc c \<noteq> K_Zombie)) \<and>
    (sigchld s \<longrightarrow> \<not> in_handler s \<longrightarrow> \<not> init_ended s \<longrightarrow>
      (\<exists>t. exec_schedule (simple_init os) (Deliver # replicate (Suc (length (filter kd_change (kids s)))) Init) s = Some t \<and>
           \<not> in_handler t \<and> \<not> sigchld t \<and> si_pc t \<noteq> P_Pause \<and>
           map kd_pid (kids t) = map kd_pid (filter (\<lambda>c. kd_pc c \<noteq> K_Zombie) (kids s)) \<and>
           (\<forall>c\<in>set (kids t). kd_pc c \<noteq> K_Zombie)))"
proof (intro conjI impI)
  have "si_inv s0" using init_setup_fields [OF assms(1)] by (simp add: same_run_def si_inv_def init_start_def)
  then have i: "si_inv s" using si_steps_inv [OF assms(2)] by blast
  then show "\<forall>c\<in>set (kids s). kd_pc c \<noteq> K_Zombie" if "\<not> sigchld s" "\<not> in_handler s" using that by (auto simp: si_inv_def)
  assume p: "sigchld s" "\<not> in_handler s" "\<not> init_ended s"
  let ?s = "s\<lparr> sigchld := False, in_handler := True \<rparr>"
  have f: "filter (\<lambda>k. kd_change k \<longrightarrow> kd_pc k \<noteq> K_Zombie) (kids s) = filter (\<lambda>c. kd_pc c \<noteq> K_Zombie) (kids s)"
    using i by (auto simp: si_inv_def intro!: filter_cong)
  have e: "\<not> init_ended ?s" using p(3) by (simp add: init_ended_def)
  from handler_returns [of ?s os, OF _ e]
  show "\<exists>t. exec_schedule (simple_init os) (Deliver # replicate (Suc (length (filter kd_change (kids s)))) Init) s = Some t \<and>
       \<not> in_handler t \<and> \<not> sigchld t \<and> si_pc t \<noteq> P_Pause \<and>
       map kd_pid (kids t) = map kd_pid (filter (\<lambda>c. kd_pc c \<noteq> K_Zombie) (kids s)) \<and>
       (\<forall>c\<in>set (kids t). kd_pc c \<noteq> K_Zombie)"
    using p by (simp add: simple_init_def changes_def survivors_def f comp_def del: replicate.simps)
qed

section \<open>Commands are run in order\<close>

definition lines_text :: "cstring list \<Rightarrow> cstring" where
  "lines_text ls = concat (map (\<lambda>l. l @ [newline]) ls)"

definition command_line :: "cstring \<Rightarrow> bool" where
  "command_line l \<longleftrightarrow> newline \<notin> set l \<and> NUL \<notin> set l \<and> length l < CMD_SIZE - 1"

definition fork_works :: "'w si_os \<Rightarrow> bool" where
  "fork_works os \<longleftrightarrow> (\<forall>w. fst (si_call os Fork w))"

lemma fgets_line: "command_line l \<Longrightarrow> fgets CMD_SIZE (l @ newline # rest) = Some (l @ [newline], rest)"
proof -
  assume l: "command_line l"
  then have "min (Suc 0) (CMD_SIZE - Suc (length l)) = Suc 0" "Suc 0 \<le> CMD_SIZE - Suc (length l)" by (auto simp: command_line_def)
  then show ?thesis using l line_of_append [of l rest] by (simp add: fgets_def command_line_def Let_def)
qed

lemma strip_line: "command_line l \<Longrightarrow> strip_newline (l @ [newline]) = Some l"
proof -
  assume "command_line l"
  then have "takeWhile (\<lambda>c. c \<noteq> NUL) (l @ [newline]) = l @ [newline]"
    by (auto simp: command_line_def takeWhile_eq_all_conv newline_def NUL_def)
  then show ?thesis by (simp add: strip_newline_def Let_def)
qed

definition pend :: "ipc \<Rightarrow> cstring list" where
  "pend pc = (case pc of P_Fork cmd \<Rightarrow> [cmd] | _ \<Rightarrow> [])"

definition cmd_inv :: "bool \<Rightarrow> cstring list \<Rightarrow> 'w sinit \<Rightarrow> bool" where
  "cmd_inv fw ls s \<longleftrightarrow>
     (\<exists>lost ls'. set ls' \<subseteq> set ls \<and> si_input s = lines_text ls' \<and>
        filter (\<lambda>l. l \<noteq> []) ls = spawned s @ pend (si_pc s) @ lost @ filter (\<lambda>l. l \<noteq> []) ls' \<and>
        (fw \<longrightarrow> lost = [] \<and> (si_pc s \<in> {P_Umount, P_Exit EXIT_SUCCESS} \<longrightarrow> ls' = [])) \<and>
        (lost \<noteq> [] \<longrightarrow> si_pc s = P_Umount \<or> (\<exists>c. si_pc s = P_Exit c)) \<and> si_pc s \<noteq> P_Undef)"

lemma cmd_invI:
  "set ls' \<subseteq> set ls \<Longrightarrow> si_input s = lines_text ls' \<Longrightarrow>
   filter (\<lambda>l. l \<noteq> []) ls = spawned s @ pend (si_pc s) @ filter (\<lambda>l. l \<noteq> []) ls' \<Longrightarrow>
   si_pc s \<notin> {P_Umount, P_Exit EXIT_SUCCESS, P_Undef} \<Longrightarrow> cmd_inv fw ls s"
  unfolding cmd_inv_def by (intro exI [of _ "[]"] exI [of _ ls']) auto

lemma others_leave_commands:
  assumes "simple_init os a s = Some t" "a \<noteq> Init"
  shows "si_input t = si_input s \<and> spawned t = spawned s \<and> si_pc t = si_pc s"
proof (cases a)
  case (Kid i)
  then show ?thesis using assms(1)
    by (auto simp: simple_init_def child_step_def Let_def kid_dies_def kid_goes_def upd_kid_def
        split: if_splits kpc.splits prod.splits option.splits bool.splits dest!: sicall_fields expand_words_fields)
qed (use assms in \<open>auto simp: simple_init_def kid_dies_def upd_kid_def split: if_splits\<close>)

lemma handler_leaves_commands: "cmd_inv fw ls s \<Longrightarrow> cmd_inv fw ls (child_handler s)"
  by (auto simp: cmd_inv_def child_handler_def pend_def split: option.splits prod.splits)

lemma lines_text_Cons [simp]: "lines_text (l # ls) = l @ newline # lines_text ls" "lines_text [] = []"
  by (simp_all add: lines_text_def)

lemma read_step_commands:
  assumes "cmd_inv fw ls s" "\<forall>l\<in>set ls. command_line l" "si_pc s = P_Read" "init_loop os s = Some t"
  shows "cmd_inv fw ls t"
proof -
  obtain ls' where l: "set ls' \<subseteq> set ls" "si_input s = lines_text ls'"
    "filter (\<lambda>l. l \<noteq> []) ls = spawned s @ filter (\<lambda>l. l \<noteq> []) ls'"
    using assms(1,3) by (auto simp: cmd_inv_def pend_def)
  show ?thesis
  proof (cases ls')
    case Nil
    then show ?thesis using l assms(3,4) by (auto simp: init_loop_def fgets_def cmd_inv_def pend_def intro!: exI [of _ "[]"])
  next
    case (Cons x xs)
    then have x: "command_line x" using l assms(2) by auto
    then have "t = s\<lparr> si_input := lines_text xs, si_pc := if x = [] then P_Read else P_Fork x \<rparr>"
      using Cons l assms(3,4) by (simp add: init_loop_def fgets_line strip_line)
    then show ?thesis using Cons l by (auto simp: cmd_inv_def pend_def intro!: exI [of _ "[]"] exI [of _ xs])
  qed
qed

lemma init_loop_commands:
  assumes "cmd_inv fw ls s" "\<forall>l\<in>set ls. command_line l" "fw \<longrightarrow> fork_works os" "init_loop os s = Some t"
  shows "cmd_inv fw ls t"
proof (cases "si_pc s")
  case P_Read
  then show ?thesis using read_step_commands assms by blast
next
  case (P_Fork cmd)
  obtain ok u where f: "sicall os Fork s = (ok, u)" by fastforce
  moreover have "fst (sicall os Fork s) = fst (si_call os Fork (si_kern s))" by (simp add: sicall_def split: prod.splits)
  ultimately have ok: "fw \<longrightarrow> ok" using assms(3) by (simp add: fork_works_def)
  from assms(1) P_Fork obtain ls' where l: "set ls' \<subseteq> set ls" "si_input s = lines_text ls'"
    "filter (\<lambda>l. l \<noteq> []) ls = spawned s @ cmd # filter (\<lambda>l. l \<noteq> []) ls'"
    by (auto simp: cmd_inv_def pend_def)
  have u: "spawned u = spawned s" "si_input u = si_input s" using sicall_fields [OF f] by auto
  show ?thesis
  proof (cases ok)
    case True
    then have "spawned t = spawned s @ [cmd]" "si_input t = si_input s" "si_pc t = P_Forked"
      using P_Fork f assms(4) u by (auto simp: init_loop_def)
    then show ?thesis using l by (intro cmd_invI [of ls']) (auto simp: pend_def)
  next
    case False
    then have "spawned t = spawned s" "si_input t = si_input s" "si_pc t = P_Umount"
      using P_Fork f assms(4) u by (auto simp: init_loop_def)
    then show ?thesis using l False ok unfolding cmd_inv_def pend_def by (intro exI [of _ "[cmd]"] exI [of _ ls']) auto
  qed
next
  case P_Forked
  then have "t = s\<lparr> si_pc := P_Pause \<rparr>" using assms(4) by (simp add: init_loop_def)
  then show ?thesis using assms(1) P_Forked by (auto simp: cmd_inv_def pend_def)
next
  case P_Fg
  then have "spawned t = spawned s \<and> si_input t = si_input s \<and> (si_pc t = P_Read \<or> si_pc t = P_Exit EXIT_FAILURE)"
    using assms(4) by (auto simp: init_loop_def split: prod.splits bool.splits dest!: sicall_fields)
  moreover from assms(1) P_Fg obtain ls' where "set ls' \<subseteq> set ls" "si_input s = lines_text ls'"
    "filter (\<lambda>l. l \<noteq> []) ls = spawned s @ filter (\<lambda>l. l \<noteq> []) ls'"
    by (auto simp: cmd_inv_def pend_def)
  ultimately show ?thesis by (intro cmd_invI [of ls']) (auto simp: pend_def)
next
  case P_Umount
  then have "spawned t = spawned s \<and> si_input t = si_input s \<and> (\<exists>c. si_pc t = P_Exit c)"
    using assms(4) by (auto simp: init_loop_def split: prod.splits option.splits bool.splits dest!: sicall_fields)
  moreover from assms(1) P_Umount obtain lost ls' where "set ls' \<subseteq> set ls" "si_input s = lines_text ls'"
    "filter (\<lambda>l. l \<noteq> []) ls = spawned s @ lost @ filter (\<lambda>l. l \<noteq> []) ls'" "fw \<longrightarrow> lost = [] \<and> ls' = []"
    by (auto simp: cmd_inv_def pend_def)
  ultimately show ?thesis unfolding cmd_inv_def by (intro exI [of _ lost] exI [of _ ls']) (auto simp: pend_def)
qed (use assms(4) in \<open>simp_all add: init_loop_def\<close>)

lemma si_steps_commands:
  assumes "steps (si_step os) s n k t" "cmd_inv fw ls s" "\<forall>l\<in>set ls. command_line l" "fw \<longrightarrow> fork_works os"
  shows "cmd_inv fw ls t"
  using assms(1)
proof induction
  case (more n k t b u)
  then obtain a where a: "simple_init os a t = Some u" by (auto simp: si_step_def)
  show ?case
  proof (cases "a = Init")
    case True
    then show ?thesis using a more.IH handler_leaves_commands init_loop_commands [OF _ assms(3,4)]
      by (auto simp: simple_init_def split: if_splits)
  next
    case False
    then show ?thesis using others_leave_commands [OF a False] more.IH by (simp add: cmd_inv_def)
  qed
qed (rule assms(2))

text \<open>
  C8. After the set-up, whatever options were given, and for an input of lines that have no null byte and fit into the command buffer, in every interleaving: init never leaves
  the command buffer, the children it has started are for the lines that are not empty, in their order, from
  the first on; and when forks succeed and init ends with status 0, all of them were started.
\<close>

theorem init_runs_commands:
  assumes "init_setup os opts (init_start (lines_text ls) w) = Ret () s0" "steps (si_step os) s0 n k s" "\<forall>l\<in>set ls. command_line l"
  shows "si_pc s \<noteq> P_Undef \<and> (\<exists>rest. filter (\<lambda>l. l \<noteq> []) ls = spawned s @ rest) \<and>
    (fork_works os \<longrightarrow> si_pc s = P_Exit EXIT_SUCCESS \<longrightarrow> spawned s = filter (\<lambda>l. l \<noteq> []) ls)"
proof -
  have "cmd_inv (fork_works os) ls s0" using init_setup_fields [OF assms(1)] by (auto simp: same_run_def init_start_def pend_def intro!: cmd_invI [of ls])
  from si_steps_commands [OF assms(2) this assms(3)] show ?thesis by (auto simp: cmd_inv_def pend_def)
qed

section \<open>A run, and runs that hang\<close>

definition si_demo :: "unit si_os" where
  "si_demo = \<lparr> si_call = (\<lambda>_ _. (True, ())), si_wordexp = (\<lambda>c _. (Some [c], ())) \<rparr>"

definition si_ready :: "cstring \<Rightarrow> unit sinit" where
  "si_ready inp = init_start inp ()\<lparr> fg := init_pid \<rparr>"

lemma si_demo_setup: "init_setup si_demo [] (init_start inp ()) = Ret () (si_ready inp)"
  by (simp add: init_setup_def si_must_def sicall_def si_demo_def si_ready_def init_start_def Let_def)

lemma si_demo_run:
  assumes "exec_schedule (simple_init si_demo) as s = Some t" "\<forall>a\<in>set as. \<not> from_outside a"
  shows "steps (si_step si_demo) s (length as) 0 t"
proof -
  let ?f = "\<lambda>a s. if from_outside a then None else simple_init si_demo a s"
  have "exec_schedule ?f as s = Some t"
    using assms by (induction as arbitrary: s) (auto split: option.splits)
  moreover have "?f a u = Some v \<Longrightarrow> si_step si_demo False u v" for a u v
    by (auto simp: si_step_def split: if_splits)
  ultimately show ?thesis using exec_steps [of ?f "si_step si_demo" s 0 0 s as t] steps.none [of "si_step si_demo" s] by auto
qed

text \<open>The command \<^verbatim>\<open>ls\<close> is run, its child reaped, and init ends.\<close>

definition si_good :: "actor list" where
  "si_good = [Init, Init, Init, Kid 0, Kid 0, Kid 0, Kid 0, Kid 0, Deliver, Init, Init, Init, Init, Init, Init]"

theorem init_runs_commands_witness:
  "\<exists>s. exec_schedule (simple_init si_demo) si_good (si_ready (lines_text [''ls'', []])) = Some s \<and> spawned s = [''ls'']"
proof -
  let ?s = "\<lparr> si_pc = P_Exit 0, in_handler = False, sigchld = False, kids = [], fg = 1, si_input = [], proc_path = None, next_pid = 3,
    spawned = [''ls''], si_kern = () \<rparr>"
  have r: "exec_schedule (simple_init si_demo) si_good (si_ready (lines_text [''ls'', []])) = Some ?s" by code_simp
  have c: "\<forall>l\<in>set [''ls'', []]. command_line l" by (simp add: command_line_def newline_def NUL_def CMD_SIZE_def)
  have "\<forall>a\<in>set si_good. \<not> from_outside a" by code_simp
  from init_runs_commands [OF si_demo_setup si_demo_run [OF r this] c] show ?thesis using r by (auto simp: fork_works_def si_demo_def)
qed

theorem init_reaps_children_witness:
  "\<exists>s t. exec_schedule (simple_init si_demo) (take 8 si_good) (si_ready (lines_text [''ls''])) = Some s \<and>
     exec_schedule (simple_init si_demo) [Deliver, Init, Init] s = Some t \<and> kids s \<noteq> [] \<and> kids t = []"
proof -
  let ?k = "\<lparr> kd_pid = 2, kd_pc = K_Zombie, kd_stopped = False, kd_change = True \<rparr>"
  let ?s = "\<lparr> si_pc = P_Pause, in_handler = False, sigchld = True, kids = [?k], fg = 2, si_input = [], proc_path = None, next_pid = 3,
    spawned = [''ls''], si_kern = () \<rparr>"
  have r: "exec_schedule (simple_init si_demo) (take 8 si_good) (si_ready (lines_text [''ls''])) = Some ?s" by code_simp
  have "\<forall>a\<in>set (take 8 si_good). \<not> from_outside a" by code_simp
  from init_reaps_children [OF si_demo_setup si_demo_run [OF r this]] show ?thesis using r
    by (auto simp: init_ended_def numeral_2_eq_2)
qed

text \<open>When the child has terminated and the signal has been handled between \<^verbatim>\<open>fork()\<close> and \<^verbatim>\<open>pause()\<close>, init waits for a signal that
  does not come: no process can take a step.\<close>

lemma pause_misses_signal:
  "\<exists>s. exec_schedule (simple_init si_demo) ([Init, Init] @ replicate 5 (Kid 0) @ [Deliver, Init, Init, Init])
         (si_ready (lines_text [''ls'', ''ls''])) = Some s \<and>
       si_pc s = P_Pause \<and> kids s = [] \<and> \<not> sigchld s \<and> (\<forall>t. \<not> si_step si_demo False s t)"
proof -
  let ?s = "\<lparr> si_pc = P_Pause, in_handler = False, sigchld = False, kids = [], fg = 2, si_input = ''ls'' @ [newline], proc_path = None,
    next_pid = 3, spawned = [''ls''], si_kern = () \<rparr>"
  have "exec_schedule (simple_init si_demo) ([Init, Init] @ replicate 5 (Kid 0) @ [Deliver, Init, Init, Init])
         (si_ready (lines_text [''ls'', ''ls''])) = Some ?s" by code_simp
  moreover have "simple_init si_demo a ?s = None" if "\<not> from_outside a" for a
    using that by (cases a) (simp_all add: simple_init_def init_ended_def init_loop_def from_outside_def)
  ultimately show ?thesis by (fastforce simp: si_step_def)
qed

text \<open>A command that is stopped from the terminal leaves init waiting too: because of \<^verbatim>\<open>SA_NOCLDSTOP\<close> no signal tells it of the
  change of state that \<^verbatim>\<open>WUNTRACED\<close> is there to catch.\<close>

lemma stopped_child_hangs_init:
  "\<exists>s. exec_schedule (simple_init si_demo) ([Init, Init, Init] @ replicate 4 (Kid 0) @ [Stop 0])
         (si_ready (lines_text [''ls'', ''ls''])) = Some s \<and>
       si_pc s = P_Pause \<and> (\<forall>t. \<not> si_step si_demo False s t)"
proof -
  let ?k = "\<lparr> kd_pid = 2, kd_pc = K_Run [''ls''], kd_stopped = True, kd_change = True \<rparr>"
  let ?s = "\<lparr> si_pc = P_Pause, in_handler = False, sigchld = False, kids = [?k], fg = 2, si_input = ''ls'' @ [newline], proc_path = None,
    next_pid = 3, spawned = [''ls''], si_kern = () \<rparr>"
  have "exec_schedule (simple_init si_demo) ([Init, Init, Init] @ replicate 4 (Kid 0) @ [Stop 0])
         (si_ready (lines_text [''ls'', ''ls''])) = Some ?s" by code_simp
  moreover have "simple_init si_demo a ?s = None" if "\<not> from_outside a" for a
    using that by (cases a) (simp_all add: simple_init_def init_ended_def init_loop_def from_outside_def child_step_def)
  ultimately show ?thesis by (fastforce simp: si_step_def)
qed

text \<open>A line that starts with a null byte makes init look at the byte before the array.\<close>

lemma nul_line_outside_array:
  "map_option si_pc (simple_init si_demo Init (init_start [NUL, newline] ())) = Some P_Undef"
  by code_simp

end
