(* ===== verification/Error_Report.thy ===== *)
theory Error_Report
  imports Strto_Num
begin

text \<open>
  \<^verbatim>\<open>lib/error_functions.c\<close>, through which the programs report errors, with its table of error names
  \<^verbatim>\<open>lib/ename.c.inc\<close>; \<^verbatim>\<open>lib/signal_functions.c\<close>, which prints signal sets and installs handlers; and the substitutes of
  \<^verbatim>\<open>lib/alt_functions.c\<close>. The standard streams are a buffer and what was written of it; every call of the
  C library may fail and may change \<^verbatim>\<open>errno\<close>.
\<close>

section \<open>Streams and the process\<close>

datatype stream = Stdout | Stderr

datatype lib_call = Formatting | Flush stream | Puts stream cstring

text \<open>A call gives whether it succeeded and the value of \<^verbatim>\<open>errno\<close> if it changed it.\<close>

record 'w er_os =
  er_call :: "lib_call \<Rightarrow> 'w \<Rightarrow> bool \<times> int option \<times> 'w"
  er_strerror :: "int \<Rightarrow> cstring"

record 'w eproc =
  er_errno :: int
  pending :: "stream \<Rightarrow> cstring"
  written :: "stream \<Rightarrow> cstring"
  EF_DUMPCORE :: "cstring option"
  handlers_run :: bool
  er_kern :: 'w

definition lib :: "'w er_os \<Rightarrow> lib_call \<Rightarrow> 'w eproc \<Rightarrow> bool \<times> 'w eproc" where
  "lib os c s =
     (case er_call os c (er_kern s) of
        (ok, e, w) \<Rightarrow> (ok, s\<lparr> er_errno := (case e of None \<Rightarrow> er_errno s | Some v \<Rightarrow> v), er_kern := w \<rparr>))"

definition fflush :: "'w er_os \<Rightarrow> stream \<Rightarrow> 'w eproc \<Rightarrow> 'w eproc" where
  "fflush os f s =
     (case lib os (Flush f) s of
        (ok, s) \<Rightarrow> if ok then s\<lparr> written := (written s)(f := written s f @ pending s f), pending := (pending s)(f := []) \<rparr> else s)"

definition fputs :: "'w er_os \<Rightarrow> cstring \<Rightarrow> stream \<Rightarrow> 'w eproc \<Rightarrow> 'w eproc" where
  "fputs os t f s =
     (case lib os (Puts f t) s of
        (ok, s) \<Rightarrow> if ok then s\<lparr> pending := (pending s)(f := pending s f @ t) \<rparr> else s)"

text \<open>\<^verbatim>\<open>exit(3)\<close> runs the exit handlers and flushes the streams; \<^verbatim>\<open>_exit(2)\<close> and \<^verbatim>\<open>abort()\<close> do not.\<close>

definition exit3 :: "'w er_os \<Rightarrow> int \<Rightarrow> 'w eproc \<Rightarrow> ('a, 'w eproc) outcome" where
  "exit3 os status s = Exit status (fflush os Stderr (fflush os Stdout (s\<lparr> handlers_run := True \<rparr>)))"

definition exit2 :: "int \<Rightarrow> 'w eproc \<Rightarrow> ('a, 'w eproc) outcome" where
  "exit2 status s = Exit status s"

section \<open>Names of errors\<close>

definition ename :: "cstring list" where
  "ename = [
    [], ''EPERM'', ''ENOENT'', ''ESRCH'', ''EINTR'', ''EIO'', ''ENXIO'', ''E2BIG'', ''ENOEXEC'', ''EBADF'',
    ''ECHILD'', ''EAGAIN/EWOULDBLOCK'', ''ENOMEM'', ''EACCES'', ''EFAULT'', ''ENOTBLK'', ''EBUSY'', ''EEXIST'',
    ''EXDEV'', ''ENODEV'', ''ENOTDIR'', ''EISDIR'', ''EINVAL'', ''ENFILE'', ''EMFILE'', ''ENOTTY'', ''ETXTBSY'',
    ''EFBIG'', ''ENOSPC'', ''ESPIPE'', ''EROFS'', ''EMLINK'', ''EPIPE'', ''EDOM'', ''ERANGE'', ''EDEADLK/EDEADLOCK'',
    ''ENAMETOOLONG'', ''ENOLCK'', ''ENOSYS'', ''ENOTEMPTY'', ''ELOOP'', [], ''ENOMSG'', ''EIDRM'', ''ECHRNG'',
    ''EL2NSYNC'', ''EL3HLT'', ''EL3RST'', ''ELNRNG'', ''EUNATCH'', ''ENOCSI'', ''EL2HLT'', ''EBADE'', ''EBADR'',
    ''EXFULL'', ''ENOANO'', ''EBADRQC'', ''EBADSLT'', [], ''EBFONT'', ''ENOSTR'', ''ENODATA'', ''ETIME'', ''ENOSR'',
    ''ENONET'', ''ENOPKG'', ''EREMOTE'', ''ENOLINK'', ''EADV'', ''ESRMNT'', ''ECOMM'', ''EPROTO'', ''EMULTIHOP'',
    ''EDOTDOT'', ''EBADMSG'', ''EOVERFLOW'', ''ENOTUNIQ'', ''EBADFD'', ''EREMCHG'', ''ELIBACC'', ''ELIBBAD'',
    ''ELIBSCN'', ''ELIBMAX'', ''ELIBEXEC'', ''EILSEQ'', ''ERESTART'', ''ESTRPIPE'', ''EUSERS'', ''ENOTSOCK'',
    ''EDESTADDRREQ'', ''EMSGSIZE'', ''EPROTOTYPE'', ''ENOPROTOOPT'', ''EPROTONOSUPPORT'', ''ESOCKTNOSUPPORT'',
    ''EOPNOTSUPP/ENOTSUP'', ''EPFNOSUPPORT'', ''EAFNOSUPPORT'', ''EADDRINUSE'', ''EADDRNOTAVAIL'', ''ENETDOWN'',
    ''ENETUNREACH'', ''ENETRESET'', ''ECONNABORTED'', ''ECONNRESET'', ''ENOBUFS'', ''EISCONN'', ''ENOTCONN'',
    ''ESHUTDOWN'', ''ETOOMANYREFS'', ''ETIMEDOUT'', ''ECONNREFUSED'', ''EHOSTDOWN'', ''EHOSTUNREACH'', ''EALREADY'',
    ''EINPROGRESS'', ''ESTALE'', ''EUCLEAN'', ''ENOTNAM'', ''ENAVAIL'', ''EISNAM'', ''EREMOTEIO'', ''EDQUOT'',
    ''ENOMEDIUM'', ''EMEDIUMTYPE'', ''ECANCELED'', ''ENOKEY'', ''EKEYEXPIRED'', ''EKEYREVOKED'', ''EKEYREJECTED'',
    ''EOWNERDEAD'', ''ENOTRECOVERABLE'', ''ERFKILL'', ''EHWPOISON'']"

definition MAX_ENAME :: int where "MAX_ENAME = 133"

lemma ename_covers: "int (length ename) = MAX_ENAME + 1"
  by (simp add: ename_def MAX_ENAME_def)

definition error_name :: "int \<Rightarrow> cstring" where
  "error_name err = (if err > 0 \<and> err \<le> MAX_ENAME then ename ! nat err else ''?UNKNOWN?'')"

section \<open>Error functions\<close>

definition terminate :: "'w er_os \<Rightarrow> bool \<Rightarrow> 'w eproc \<Rightarrow> (unit, 'w eproc) outcome" where
  "terminate os useExit3 s =
     (case EF_DUMPCORE s of
        Some t \<Rightarrow> if cchar t 0 \<noteq> NUL then Abort s else if useExit3 then exit3 os EXIT_FAILURE s else exit2 EXIT_FAILURE s
      | None \<Rightarrow> if useExit3 then exit3 os EXIT_FAILURE s else exit2 EXIT_FAILURE s)"

definition ERR_BUF_SIZE :: nat where "ERR_BUF_SIZE = 500"

text \<open>\<open>msg\<close> is the text the format and the arguments give.\<close>

definition error_text :: "'w er_os \<Rightarrow> bool \<Rightarrow> int \<Rightarrow> cstring \<Rightarrow> cstring" where
  "error_text os useErr err msg =
     (let userMsg = snprintf ERR_BUF_SIZE msg;
          errText = snprintf ERR_BUF_SIZE (if useErr then '' ['' @ error_name err @ '' '' @ er_strerror os err @ '']'' else '':'')
      in snprintf ERR_BUF_SIZE (''ERROR'' @ errText @ '' '' @ userMsg @ [newline]))"

definition outputError :: "'w er_os \<Rightarrow> bool \<Rightarrow> int \<Rightarrow> bool \<Rightarrow> cstring \<Rightarrow> 'w eproc \<Rightarrow> 'w eproc" where
  "outputError os useErr err flushStdout msg s =
     (let s = snd (lib os Formatting s);
          s = (if flushStdout then fflush os Stdout s else s)
      in fflush os Stderr (fputs os (error_text os useErr err msg) Stderr s))"

definition systmWrn :: "'w er_os \<Rightarrow> cstring \<Rightarrow> 'w eproc \<Rightarrow> (unit, 'w eproc) outcome" where
  "systmWrn os msg s =
     (let savedErrno = er_errno s;
          s = outputError os True (er_errno s) True msg s
      in Ret () (s\<lparr> er_errno := savedErrno \<rparr>))"

definition systmErr :: "'w er_os \<Rightarrow> cstring \<Rightarrow> 'w eproc \<Rightarrow> (unit, 'w eproc) outcome" where
  "systmErr os msg s = terminate os True (outputError os True (er_errno s) True msg s)"

definition u_systmerr :: "'w er_os \<Rightarrow> cstring \<Rightarrow> 'w eproc \<Rightarrow> (unit, 'w eproc) outcome" where
  "u_systmerr os msg s = terminate os False (outputError os True (er_errno s) False msg s)"

definition nmsysErr :: "'w er_os \<Rightarrow> int \<Rightarrow> cstring \<Rightarrow> 'w eproc \<Rightarrow> (unit, 'w eproc) outcome" where
  "nmsysErr os errnum msg s = terminate os True (outputError os True errnum True msg s)"

definition custmErr :: "'w er_os \<Rightarrow> cstring \<Rightarrow> 'w eproc \<Rightarrow> (unit, 'w eproc) outcome" where
  "custmErr os msg s = terminate os True (outputError os False 0 True msg s)"

definition usage_exit :: "'w er_os \<Rightarrow> cstring \<Rightarrow> cstring \<Rightarrow> 'w eproc \<Rightarrow> (unit, 'w eproc) outcome" where
  "usage_exit os prefix msg s =
     exit3 os EXIT_FAILURE (fflush os Stderr (fputs os msg Stderr (fputs os prefix Stderr (fflush os Stdout s))))"

definition usageErr :: "'w er_os \<Rightarrow> cstring \<Rightarrow> 'w eproc \<Rightarrow> (unit, 'w eproc) outcome" where
  "usageErr os msg s = usage_exit os ''Usage: '' msg s"

definition cmdLineErr :: "'w er_os \<Rightarrow> cstring \<Rightarrow> 'w eproc \<Rightarrow> (unit, 'w eproc) outcome" where
  "cmdLineErr os msg s = usage_exit os ''Command-line usage error: '' msg s"

section \<open>Behaviour when calls fail\<close>

definition dumps :: "'w eproc \<Rightarrow> bool" where
  "dumps s \<longleftrightarrow> (\<exists>t. EF_DUMPCORE s = Some t \<and> t \<noteq> [] \<and> hd t \<noteq> NUL)"

lemma terminate_cases:
  "terminate os u s = (if dumps s then Abort s else if u then exit3 os 1 s else exit2 1 s)"
  by (cases "EF_DUMPCORE s") (auto simp: terminate_def dumps_def cchar_def hd_conv_nth)

lemma lib_fields [simp]:
  "pending (snd (lib os c s)) = pending s" "written (snd (lib os c s)) = written s"
  "EF_DUMPCORE (snd (lib os c s)) = EF_DUMPCORE s" "handlers_run (snd (lib os c s)) = handlers_run s"
  by (simp_all add: lib_def split: prod.splits)

lemma fflush_fields [simp]:
  "EF_DUMPCORE (fflush os f s) = EF_DUMPCORE s" "handlers_run (fflush os f s) = handlers_run s"
  "f \<noteq> g \<Longrightarrow> pending (fflush os f s) g = pending s g" "f \<noteq> g \<Longrightarrow> written (fflush os f s) g = written s g"
  by (auto simp: fflush_def lib_def split: prod.splits)

lemma fputs_fields [simp]:
  "EF_DUMPCORE (fputs os t f s) = EF_DUMPCORE s" "handlers_run (fputs os t f s) = handlers_run s"
  "f \<noteq> g \<Longrightarrow> pending (fputs os t f s) g = pending s g" "written (fputs os t f s) = written s"
  by (auto simp: fputs_def lib_def split: prod.splits)

lemma outputError_fields [simp]:
  "EF_DUMPCORE (outputError os u e f m s) = EF_DUMPCORE s" "handlers_run (outputError os u e f m s) = handlers_run s"
  "pending (outputError os u e False m s) Stdout = pending s Stdout" "written (outputError os u e False m s) Stdout = written s Stdout"
  by (simp_all add: outputError_def Let_def)

lemma dumps_output [simp]: "dumps (outputError os u e f m s) = dumps s"
  by (simp add: dumps_def)

text \<open>What was in the buffer of a stream or written to it stays there, in order, whatever is flushed.\<close>

definition content :: "'w eproc \<Rightarrow> stream \<Rightarrow> cstring" where
  "content s f = written s f @ pending s f"

lemma content_fflush [simp]: "content (fflush os f s) g = content s g"
  by (auto simp: content_def fflush_def lib_def split: prod.splits)

lemma content_fputs: "content (fputs os t f s) g = content s g \<or> f = g \<and> content (fputs os t f s) g = content s g @ t"
  by (auto simp: content_def fputs_def lib_def split: prod.splits)

lemma content_output:
  "content (outputError os u e f m s) g = content s g \<or>
   g = Stderr \<and> content (outputError os u e f m s) g = content s g @ error_text os u e m"
  using content_fputs [of os "error_text os u e m" Stderr "if f then fflush os Stdout (snd (lib os Formatting s)) else snd (lib os Formatting s)" g]
  by (auto simp: outputError_def Let_def content_def [of "snd (lib os Formatting s)"] content_def [of s] split: if_splits)

lemma length_error_text: "length (error_text os u e m) < 500"
  unfolding error_text_def Let_def using length_snprintf [of ERR_BUF_SIZE] by (simp add: ERR_BUF_SIZE_def)

text \<open>The ways in which a function that reports an error can leave the process.\<close>

definition ends_with_report :: "'w er_os \<Rightarrow> bool \<Rightarrow> cstring \<Rightarrow> 'w eproc \<Rightarrow> (unit, 'w eproc) outcome \<Rightarrow> bool" where
  "ends_with_report os clean m s r =
     (case r of
        Abort t \<Rightarrow> dumps s \<and> handlers_run t = handlers_run s \<and> (content t Stderr = content s Stderr \<or> content t Stderr = content s Stderr @ m)
      | Exit status t \<Rightarrow> \<not> dumps s \<and> status = 1 \<and> handlers_run t = (clean \<or> handlers_run s) \<and>
          (content t Stderr = content s Stderr \<or> content t Stderr = content s Stderr @ m)
      | _ \<Rightarrow> False)"

lemma terminate_reports:
  "ends_with_report os u (error_text os ue e m) s (terminate os u (outputError os ue e f m s))"
  using content_output [of os ue e f m s Stderr]
  by (auto simp: terminate_cases ends_with_report_def exit3_def exit2_def content_def [of "_\<lparr> handlers_run := _ \<rparr>"]
      content_def [of "outputError os ue e f m s", symmetric])


section \<open>Behaviour when the streams work\<close>

definition stdio_works :: "'w er_os \<Rightarrow> bool" where
  "stdio_works os \<longleftrightarrow> (\<forall>c w. fst (er_call os c w))"

lemma lib_works: "stdio_works os \<Longrightarrow> fst (lib os c s)"
  by (auto simp: stdio_works_def lib_def split: prod.splits dest: spec [of _ c]) (metis fst_conv)

lemma fflush_works:
  assumes "stdio_works os"
  shows "pending (fflush os f s) f = []" "written (fflush os f s) f = content s f"
  using lib_works [OF assms, of "Flush f" s] lib_fields(1,2) [of os "Flush f" s]
  by (auto simp: fflush_def content_def simp del: lib_fields split: prod.splits)

lemma fputs_works:
  assumes "stdio_works os"
  shows "content (fputs os t f s) f = content s f @ t"
  using lib_works [OF assms, of "Puts f t" s] lib_fields(1,2) [of os "Puts f t" s]
  by (auto simp: fputs_def content_def simp del: lib_fields split: prod.splits)

lemma content_lib [simp]: "content (snd (lib os c s)) f = content s f"
  by (simp add: content_def)

lemma content_handlers [simp]: "content (s\<lparr> handlers_run := b \<rparr>) f = content s f"
  by (simp add: content_def)

lemma output_works:
  assumes "stdio_works os"
  shows "written (outputError os u e f m s) Stderr = content s Stderr @ error_text os u e m"
    "pending (outputError os u e f m s) Stderr = []"
    "written (outputError os u e True m s) Stdout = content s Stdout" "pending (outputError os u e True m s) Stdout = []"
  by (simp_all add: outputError_def Let_def fflush_works [OF assms] fputs_works [OF assms])

text \<open>The diagnostic as the format string has it.\<close>

definition diagnostic :: "'w er_os \<Rightarrow> int option \<Rightarrow> cstring \<Rightarrow> cstring" where
  "diagnostic os err msg =
     ''ERROR'' @ (case err of None \<Rightarrow> '':'' | Some e \<Rightarrow> '' ['' @ error_name e @ '' '' @ er_strerror os e @ '']'')
     @ '' '' @ msg @ [newline]"

lemma error_text_fits:
  "length (diagnostic os (Some e) m) < 500 \<Longrightarrow> error_text os True e m = diagnostic os (Some e) m"
  "length (diagnostic os None m) < 500 \<Longrightarrow> error_text os False e m = diagnostic os None m"
  by (simp_all add: error_text_def diagnostic_def ERR_BUF_SIZE_def snprintf_fits)

definition end_state :: "('a, 's) outcome \<Rightarrow> 's option" where
  "end_state r = (case r of Ret _ s \<Rightarrow> Some s | Exit _ s \<Rightarrow> Some s | Abort s \<Rightarrow> Some s | Undef \<Rightarrow> None)"

lemma terminate_written:
  assumes "stdio_works os"
  shows "\<exists>t. end_state (terminate os v (outputError os u e f m s)) = Some t \<and>
     written t Stderr = content s Stderr @ error_text os u e m \<and>
     (f \<longrightarrow> written t Stdout = content s Stdout)"
  using output_works(1,2) [OF assms, of u e f m s] output_works(3,4) [OF assms, of u e m s]
  by (auto simp: terminate_cases exit3_def exit2_def end_state_def fflush_works [OF assms] content_def)

text \<open>
  When the streams work and the diagnostic has fewer than 500 characters, each error function leaves the whole of
  it, the name and the text of the error included where it takes one, after everything that was on its way
  to standard error, before the process ends; and those that flush standard output have written everything
  that was pending there.
\<close>

theorem diagnostic_written:
  assumes "stdio_works os" "length (diagnostic os (Some (er_errno s)) m) < 500" "length (diagnostic os (Some e) m) < 500"
    "length (diagnostic os None m) < 500"
  shows "\<exists>t1 t2 t3 t4 t5.
     end_state (systmWrn os m s) = Some t1 \<and> end_state (systmErr os m s) = Some t2 \<and> end_state (nmsysErr os e m s) = Some t3 \<and>
     end_state (custmErr os m s) = Some t4 \<and> end_state (u_systmerr os m s) = Some t5 \<and>
     (\<forall>t\<in>{t1, t2, t5}. written t Stderr = content s Stderr @ diagnostic os (Some (er_errno s)) m) \<and>
     written t3 Stderr = content s Stderr @ diagnostic os (Some e) m \<and>
     written t4 Stderr = content s Stderr @ diagnostic os None m \<and>
     (\<forall>t\<in>{t1, t2, t3, t4}. written t Stdout = content s Stdout)"
proof -
  note w = terminate_written [OF assms(1)]
  have "end_state (systmWrn os m s) = Some (outputError os True (er_errno s) True m s\<lparr> er_errno := er_errno s \<rparr>)"
    by (simp add: systmWrn_def end_state_def Let_def)
  moreover note w [of True True "er_errno s" True m s] w [of True True e True m s] w [of True False 0 True m s]
    w [of False True "er_errno s" False m s]
  ultimately show ?thesis
    using assms(2-4) output_works(1) [OF assms(1), of True "er_errno s" True m s] output_works(3) [OF assms(1), of True "er_errno s" m s]
    by (fastforce simp: systmErr_def nmsysErr_def custmErr_def u_systmerr_def error_text_fits)
qed

text \<open>Streams that always work but set \<^verbatim>\<open>errno\<close> each time.\<close>

definition er_demo :: "unit er_os" where
  "er_demo = \<lparr> er_call = (\<lambda>_ _. (True, Some 25, ())), er_strerror = (\<lambda>_. ''No such file or directory'') \<rparr>"

definition er_start :: "unit eproc" where
  "er_start = \<lparr> er_errno = 2, pending = (\<lambda>_. []), written = (\<lambda>_. []), EF_DUMPCORE = None, handlers_run = False, er_kern = () \<rparr>"

theorem diagnostic_written_witness:
  "\<exists>t. end_state (systmErr er_demo ''open'' er_start) = Some t \<and>
     written t Stderr = ''ERROR [ENOENT No such file or directory] open'' @ [newline]"
proof -
  have "diagnostic er_demo (Some 2) ''open'' = ''ERROR [ENOENT No such file or directory] open'' @ [newline]"
    "diagnostic er_demo (Some 13) ''open'' = ''ERROR [EACCES No such file or directory] open'' @ [newline]"
    "diagnostic er_demo None ''open'' = ''ERROR: open'' @ [newline]"
    by code_simp+
  then show ?thesis
    using diagnostic_written [of er_demo er_start "''open''" 13]
    by (auto simp: stdio_works_def er_demo_def er_start_def content_def)
qed

text \<open>A diagnostic that does not fit loses its newline, so that the next output continues its line.\<close>

lemma long_message_loses_newline:
  assumes "length m \<ge> 492" "newline \<notin> set m"
  shows "newline \<notin> set (error_text os False e m)" "length (error_text os False e m) = 499"
proof -
  have "error_text os False e m = ''ERROR: '' @ take 492 m"
    using assms(1) by (simp add: error_text_def ERR_BUF_SIZE_def snprintf_def min_def)
  then show "newline \<notin> set (error_text os False e m)" "length (error_text os False e m) = 499"
    using assms by (auto simp: newline_def dest: in_set_takeD)
qed

section \<open>Signal sets\<close>

definition NSIG :: nat where "NSIG = 65"

text \<open>The numbers of the members of a signal set are a list; \<open>desc\<close> is \<^verbatim>\<open>strsignal()\<close>.\<close>

definition sig_line :: "(nat \<Rightarrow> cstring) \<Rightarrow> cstring \<Rightarrow> nat \<Rightarrow> cstring" where
  "sig_line desc prefix sig = prefix @ dec (int sig) @ '' ('' @ desc sig @ '')'' @ [newline]"

fun sigset_loop :: "(nat \<Rightarrow> cstring) \<Rightarrow> cstring \<Rightarrow> nat list \<Rightarrow> nat list \<Rightarrow> nat \<Rightarrow> cstring \<Rightarrow> nat \<times> cstring" where
  "sigset_loop desc prefix sigset [] cnt of' = (cnt, of')"
| "sigset_loop desc prefix sigset (sig # sigs) cnt of' =
     (if sig \<in> set sigset then sigset_loop desc prefix sigset sigs (cnt + 1) (of' @ sig_line desc prefix sig)
      else sigset_loop desc prefix sigset sigs cnt of')"

definition printSigset :: "(nat \<Rightarrow> cstring) \<Rightarrow> cstring \<Rightarrow> nat list \<Rightarrow> cstring \<Rightarrow> cstring" where
  "printSigset desc prefix sigset of' =
     (case sigset_loop desc prefix sigset [1..<NSIG] 0 of' of
        (cnt, of') \<Rightarrow> if cnt = 0 then of' @ prefix @ ''<empty signal set>'' @ [newline] else of')"

text \<open>The mask and the pending set of the process, where the kernel gives them.\<close>

definition tabs :: cstring where "tabs = [CHR 0x09, CHR 0x09]"

definition print_current :: "(nat \<Rightarrow> cstring) \<Rightarrow> nat list option \<Rightarrow> cstring option \<Rightarrow> cstring \<Rightarrow> int \<times> cstring" where
  "print_current desc current msg of' =
     (let of' = (case msg of None \<Rightarrow> of' | Some m \<Rightarrow> of' @ m)
      in case current of None \<Rightarrow> (- 1, of') | Some sigset \<Rightarrow> (0, printSigset desc tabs sigset of'))"

definition printSigMask :: "(nat \<Rightarrow> cstring) \<Rightarrow> nat list option \<Rightarrow> cstring option \<Rightarrow> cstring \<Rightarrow> int \<times> cstring" where
  "printSigMask desc currMask msg of' = print_current desc currMask msg of'"

definition printPendingSigs :: "(nat \<Rightarrow> cstring) \<Rightarrow> nat list option \<Rightarrow> cstring option \<Rightarrow> cstring \<Rightarrow> int \<times> cstring" where
  "printPendingSigs desc pendingSigs msg of' = print_current desc pendingSigs msg of'"

lemma sigset_loop_members:
  "sigset_loop desc prefix sigset sigs cnt of' =
     (cnt + length (filter (\<lambda>s. s \<in> set sigset) sigs),
      of' @ concat (map (sig_line desc prefix) (filter (\<lambda>s. s \<in> set sigset) sigs)))"
  by (induction sigs arbitrary: cnt of') auto

text \<open>A signal set is printed as one line for each signal it has, in ascending order, or as the line for the empty set.\<close>

lemma printSigset_lines:
  "printSigset desc prefix sigset of' =
     of' @ (let sigs = filter (\<lambda>s. s \<in> set sigset) [1..<NSIG]
            in if sigs = [] then prefix @ ''<empty signal set>'' @ [newline] else concat (map (sig_line desc prefix) sigs))"
  by (simp add: printSigset_def sigset_loop_members Let_def)

section \<open>Handlers\<close>

datatype sig_handler = SIG_DFL | SIG_IGN | SIG_ERR | Handler nat

record disposition =
  sa_handler :: sig_handler
  sa_mask :: "nat list"
  sa_flags :: "32 word"

definition SA_RESTART :: "32 word" where "SA_RESTART = 0x10000000"

text \<open>\<^verbatim>\<open>sigaction()\<close> on the table of dispositions; it refuses the signals \<open>bad\<close>.\<close>

definition sigaction :: "(nat \<Rightarrow> bool) \<Rightarrow> nat \<Rightarrow> disposition \<Rightarrow> (nat \<Rightarrow> disposition) \<Rightarrow> disposition option \<times> (nat \<Rightarrow> disposition)" where
  "sigaction bad sig d tab = (if bad sig then (None, tab) else (Some (tab sig), tab(sig := d)))"

definition Signal :: "(nat \<Rightarrow> bool) \<Rightarrow> nat \<Rightarrow> sig_handler \<Rightarrow> (nat \<Rightarrow> disposition) \<Rightarrow> sig_handler \<times> (nat \<Rightarrow> disposition)" where
  "Signal bad sig h tab =
     (case sigaction bad sig \<lparr> sa_handler = h, sa_mask = [], sa_flags = SA_RESTART \<rparr> tab of
        (None, tab) \<Rightarrow> (SIG_ERR, tab)
      | (Some oldDisp, tab) \<Rightarrow> (sa_handler oldDisp, tab))"

text \<open>Installing what \<^verbatim>\<open>Signal()\<close> returned gives back the handler of every signal, and returns the one in between.\<close>

lemma Signal_restores:
  "Signal bad sig h tab = (old, tab') \<Longrightarrow> \<not> bad sig \<Longrightarrow>
   fst (Signal bad sig old tab') = h \<and> (\<forall>n. sa_handler (snd (Signal bad sig old tab') n) = sa_handler (tab n))"
  by (auto simp: Signal_def sigaction_def)

section \<open>Substitutes\<close>

definition ALT_BUF_SIZE :: nat where "ALT_BUF_SIZE = 100"

definition ALT_strsignal :: "int \<Rightarrow> cstring" where
  "ALT_strsignal sig = snprintf ALT_BUF_SIZE (''SIG-'' @ dec sig)"

definition ALT_hstrerror :: "int \<Rightarrow> cstring" where
  "ALT_hstrerror err = snprintf ALT_BUF_SIZE (''hstrerror-'' @ dec err)"

end
