(* ===== verification/Process_Lib.thy ===== *)
theory Process_Lib
  imports Error_Report Dtree_State
begin

text \<open>
  Functions around processes and signals: \<^verbatim>\<open>system()\<close> of \<^verbatim>\<open>procexec/system.c\<close> and \<^verbatim>\<open>procexec/simple_system.c\<close>,
  \<^verbatim>\<open>printWaitStatus()\<close> of \<^verbatim>\<open>procexec/print_wait_status.c\<close>, \<^verbatim>\<open>siginterrupt()\<close> of \<^verbatim>\<open>signals/siginterrupt.c\<close> and
  \<^verbatim>\<open>signals/exr2004.c\<close>, and \<^verbatim>\<open>yabort()\<close> of \<^verbatim>\<open>signals/yabort.c\<close>. The signal mask and the dispositions of a process are
  explicit; \<^verbatim>\<open>fork()\<close>, \<^verbatim>\<open>waitpid()\<close> and \<^verbatim>\<open>execl()\<close> are arguments.
\<close>

section \<open>The signal state of a process\<close>

definition SIGINT :: nat where "SIGINT = 2"
definition SIGQUIT :: nat where "SIGQUIT = 3"
definition SIGABRT :: nat where "SIGABRT = 6"
definition SIGCHLD :: nat where "SIGCHLD = 17"

lemmas signal_numbers = SIGINT_def SIGQUIT_def SIGABRT_def SIGCHLD_def

record 'w sproc =
  sp_mask :: "nat set"
  sp_disp :: "nat \<Rightarrow> disposition"
  sp_errno :: errno
  sp_kern :: 'w

text \<open>Calls that succeed may change \<^verbatim>\<open>errno\<close> all the same.\<close>

record 'w sys_os =
  ps_noise :: "'w \<Rightarrow> errno option \<times> 'w"
  ps_fork :: "'w \<Rightarrow> (errno + nat) \<times> 'w"
  ps_waitpid :: "nat \<Rightarrow> 'w \<Rightarrow> (errno + int) \<times> 'w"
  ps_execl :: "cstring \<Rightarrow> cstring list \<Rightarrow> 'w \<Rightarrow> bool \<times> 'w"

definition noise :: "'w sys_os \<Rightarrow> 'w sproc \<Rightarrow> 'w sproc" where
  "noise os s = (case ps_noise os (sp_kern s) of (e, w) \<Rightarrow> s\<lparr> sp_errno := (case e of None \<Rightarrow> sp_errno s | Some v \<Rightarrow> v), sp_kern := w \<rparr>)"

definition sigprocmask_to :: "'w sys_os \<Rightarrow> nat set \<Rightarrow> 'w sproc \<Rightarrow> 'w sproc" where
  "sigprocmask_to os m s = noise os (s\<lparr> sp_mask := m \<rparr>)"

definition set_disp :: "'w sys_os \<Rightarrow> nat \<Rightarrow> disposition \<Rightarrow> 'w sproc \<Rightarrow> 'w sproc" where
  "set_disp os sig d s = noise os (s\<lparr> sp_disp := (sp_disp s)(sig := d) \<rparr>)"

lemma noise_fields [simp]: "sp_mask (noise os s) = sp_mask s" "sp_disp (noise os s) = sp_disp s"
  by (simp_all add: noise_def split: prod.splits)

lemma sigprocmask_fields [simp]: "sp_mask (sigprocmask_to os m s) = m" "sp_disp (sigprocmask_to os m s) = sp_disp s"
  by (simp_all add: sigprocmask_to_def)

lemma set_disp_fields [simp]: "sp_mask (set_disp os sig d s) = sp_mask s" "sp_disp (set_disp os sig d s) = (sp_disp s)(sig := d)"
  by (simp_all add: set_disp_def)

section \<open>system()\<close>

definition saIgnore :: disposition where "saIgnore = \<lparr> sa_handler = SIG_IGN, sa_mask = [], sa_flags = 0 \<rparr>"
definition saDefault :: disposition where "saDefault = \<lparr> sa_handler = SIG_DFL, sa_mask = [], sa_flags = 0 \<rparr>"

text \<open>What the caller does before it forks.\<close>

definition system_prepare :: "'w sys_os \<Rightarrow> 'w sproc \<Rightarrow> 'w sproc" where
  "system_prepare os s =
     set_disp os SIGQUIT saIgnore (set_disp os SIGINT saIgnore (sigprocmask_to os (sp_mask s \<union> {SIGCHLD}) s))"

text \<open>The child up to \<^verbatim>\<open>execl()\<close>; \<open>origInt\<close>, \<open>origQuit\<close> and \<open>origMask\<close> are the saved settings.\<close>

definition system_child :: "'w sys_os \<Rightarrow> disposition \<Rightarrow> disposition \<Rightarrow> nat set \<Rightarrow> 'w sproc \<Rightarrow> 'w sproc" where
  "system_child os origInt origQuit origMask s =
     (let s = (if sa_handler origInt \<noteq> SIG_IGN then set_disp os SIGINT saDefault s else s);
          s = (if sa_handler origQuit \<noteq> SIG_IGN then set_disp os SIGQUIT saDefault s else s)
      in sigprocmask_to os origMask s)"

definition child_exec :: "'w sys_os \<Rightarrow> cstring \<Rightarrow> 'w sproc \<Rightarrow> (unit, 'w sproc) outcome" where
  "child_exec os command s =
     (case ps_execl os ''/bin/sh'' [''sh'', ''-c'', command] (sp_kern s) of
        (True, w) \<Rightarrow> Ret () (s\<lparr> sp_kern := w \<rparr>)
      | (False, w) \<Rightarrow> Exit 127 (s\<lparr> sp_kern := w \<rparr>))"

text \<open>The loop around \<^verbatim>\<open>waitpid()\<close>; a call that is interrupted for ever does not return.\<close>

partial_function (option) wait_loop :: "'w sys_os \<Rightarrow> nat \<Rightarrow> 'w sproc \<Rightarrow> (int \<times> 'w sproc) option" where
  "wait_loop os pid s =
     (case ps_waitpid os pid (sp_kern s) of
        (Inr status, w) \<Rightarrow> Some (status, s\<lparr> sp_kern := w \<rparr>)
      | (Inl e, w) \<Rightarrow>
          if e = EINTR then wait_loop os pid (s\<lparr> sp_kern := w, sp_errno := e \<rparr>)
          else Some (- 1, s\<lparr> sp_kern := w, sp_errno := e \<rparr>))"

definition system_restore :: "'w sys_os \<Rightarrow> disposition \<Rightarrow> disposition \<Rightarrow> nat set \<Rightarrow> 'w sproc \<Rightarrow> 'w sproc" where
  "system_restore os origInt origQuit origMask s =
     (let savedErrno = sp_errno s;
          s = set_disp os SIGQUIT origQuit (set_disp os SIGINT origInt (sigprocmask_to os origMask s))
      in s\<lparr> sp_errno := savedErrno \<rparr>)"

definition system_command :: "'w sys_os \<Rightarrow> cstring \<Rightarrow> 'w sproc \<Rightarrow> (int \<times> 'w sproc) option" where
  "system_command os command s =
     (let s1 = system_prepare os s;
          restore = system_restore os (sp_disp s SIGINT) (sp_disp s SIGQUIT) (sp_mask s)
      in case ps_fork os (sp_kern s1) of
           (Inl e, w) \<Rightarrow> Some (- 1, restore (s1\<lparr> sp_kern := w, sp_errno := e \<rparr>))
         | (Inr childPid, w) \<Rightarrow> map_option (\<lambda>(status, s). (status, restore s)) (wait_loop os childPid (s1\<lparr> sp_kern := w \<rparr>)))"

definition system :: "'w sys_os \<Rightarrow> cstring option \<Rightarrow> 'w sproc \<Rightarrow> (int \<times> 'w sproc) option" where
  "system os command s =
     (case command of
        None \<Rightarrow> map_option (\<lambda>(status, s). (of_bool (status = 0), s)) (system_command os '':'' s)
      | Some c \<Rightarrow> system_command os c s)"

text \<open>The simple version of \<^verbatim>\<open>procexec/simple_system.c\<close>.\<close>

definition simple_system :: "'w sys_os \<Rightarrow> cstring \<Rightarrow> 'w sproc \<Rightarrow> int \<times> 'w sproc" where
  "simple_system os command s =
     (case ps_fork os (sp_kern s) of
        (Inl e, w) \<Rightarrow> (- 1, s\<lparr> sp_kern := w, sp_errno := e \<rparr>)
      | (Inr childPid, w) \<Rightarrow>
          (case ps_waitpid os childPid w of
             (Inl e, w) \<Rightarrow> (- 1, s\<lparr> sp_kern := w, sp_errno := e \<rparr>)
           | (Inr status, w) \<Rightarrow> (status, s\<lparr> sp_kern := w \<rparr>)))"

subsection \<open>Contract\<close>

text \<open>\<open>waits os pid n w w' r\<close>: the call is interrupted \<open>n\<close> times and then gives \<open>r\<close>.\<close>

fun waits :: "'w sys_os \<Rightarrow> nat \<Rightarrow> nat \<Rightarrow> 'w \<Rightarrow> (errno + int) option" where
  "waits os pid 0 w = (case ps_waitpid os pid w of (r, _) \<Rightarrow> if r = Inl EINTR then None else Some r)"
| "waits os pid (Suc n) w = (case ps_waitpid os pid w of (r, w) \<Rightarrow> if r = Inl EINTR then waits os pid n w else Some r)"

lemma wait_loop_returns:
  "waits os pid n (sp_kern s) = Some r \<Longrightarrow>
   \<exists>t. wait_loop os pid s = Some ((case r of Inl _ \<Rightarrow> - 1 | Inr st \<Rightarrow> st), t) \<and>
       sp_mask t = sp_mask s \<and> sp_disp t = sp_disp s \<and> (\<forall>e. r = Inl e \<longrightarrow> sp_errno t = e)"
proof (induction n arbitrary: s)
  case 0
  then show ?case by (subst wait_loop.simps) (auto split: prod.splits sum.splits if_splits)
next
  case (Suc n)
  obtain q w where q: "ps_waitpid os pid (sp_kern s) = (q, w)" by fastforce
  show ?case
  proof (cases "q = Inl EINTR")
    case True
    then have "waits os pid n (sp_kern (s\<lparr> sp_kern := w, sp_errno := EINTR \<rparr>)) = Some r" using Suc.prems q by simp
    from Suc.IH [OF this] True q show ?thesis by (subst wait_loop.simps) simp
  next
    case False
    then show ?thesis using Suc.prems q by (subst wait_loop.simps) (auto split: sum.splits)
  qed
qed

lemma wait_loop_keeps:
  assumes "wait_loop os pid s = Some r"
  shows "sp_mask (snd r) = sp_mask s \<and> sp_disp (snd r) = sp_disp s"
  using assms
proof (rule wait_loop.raw_induct [where P = "\<lambda>os pid s r. sp_mask (snd r) = sp_mask s \<and> sp_disp (snd r) = sp_disp s", rotated], goal_cases)
  case (1 rec os pid s r)
  note step = 1(1) [of os pid "s\<lparr> sp_kern := w, sp_errno := EINTR \<rparr>" r for w]
  from 1(2) step show ?case by (auto split: prod.splits sum.splits if_splits)
qed

lemma restore_fields:
  "sp_mask (system_restore os i q m s) = m" "sp_disp (system_restore os i q m s) = (sp_disp s)(SIGINT := i, SIGQUIT := q)"
  "sp_errno (system_restore os i q m s) = sp_errno s"
  by (simp_all add: system_restore_def Let_def)

lemma prepare_fields:
  "sp_mask (system_prepare os s) = insert SIGCHLD (sp_mask s)"
  "sp_disp (system_prepare os s) = (sp_disp s)(SIGINT := saIgnore, SIGQUIT := saIgnore)"
  by (simp_all add: system_prepare_def)

text \<open>Whatever happens, a call that returns leaves mask and dispositions as it found them.\<close>

lemma system_command_restores:
  assumes "system_command os c s = Some (st, t)"
  shows "sp_mask t = sp_mask s \<and> sp_disp t = sp_disp s"
proof (cases "ps_fork os (sp_kern (system_prepare os s))")
  case (Pair r w)
  show ?thesis
  proof (cases r)
    case (Inl e)
    then show ?thesis using assms Pair by (auto simp: system_command_def Let_def restore_fields prepare_fields)
  next
    case (Inr pid)
    then obtain u where u: "wait_loop os pid (system_prepare os s\<lparr> sp_kern := w \<rparr>) = Some (st, u)"
      "t = system_restore os (sp_disp s SIGINT) (sp_disp s SIGQUIT) (sp_mask s) u"
      using assms Pair by (auto simp: system_command_def Let_def)
    then show ?thesis using wait_loop_keeps [OF u(1)] by (auto simp: restore_fields prepare_fields)
  qed
qed

text \<open>
  C22. A call of \<^verbatim>\<open>system()\<close> that returns has restored the signal mask and the dispositions of all signals, whatever failed in
  it and whatever the restoring calls did to \<^verbatim>\<open>errno\<close>. It does return when \<^verbatim>\<open>fork()\<close> fails, with -1 and the error of
  \<^verbatim>\<open>fork()\<close>, and when \<^verbatim>\<open>waitpid()\<close> is interrupted a finite number of times, with the status of the child, or with -1 and
  the error of \<^verbatim>\<open>waitpid()\<close>. While it waits \<^verbatim>\<open>SIGCHLD\<close> is blocked and \<^verbatim>\<open>SIGINT\<close> and \<^verbatim>\<open>SIGQUIT\<close> are ignored; the child runs
  the shell with the original mask, and with these two signals ignored only where the caller ignored them.
\<close>

theorem system_contract:
  fixes os :: "'w sys_os" and s :: "'w sproc"
  defines "s1 \<equiv> system_prepare os s"
  defines "u \<equiv> system_child os (sp_disp s SIGINT) (sp_disp s SIGQUIT) (sp_mask s) s1"
  shows "(system os (Some c) s = Some (st, t) \<longrightarrow> sp_mask t = sp_mask s \<and> sp_disp t = sp_disp s) \<and>
    (ps_fork os (sp_kern s1) = (Inl e, w) \<longrightarrow> (\<exists>t. system os (Some c) s = Some (- 1, t) \<and> sp_errno t = e)) \<and>
    (ps_fork os (sp_kern s1) = (Inr pid, w) \<longrightarrow> waits os pid n w = Some r \<longrightarrow>
       (\<exists>t. system os (Some c) s = Some ((case r of Inl _ \<Rightarrow> - 1 | Inr status \<Rightarrow> status), t) \<and> (\<forall>e. r = Inl e \<longrightarrow> sp_errno t = e))) \<and>
    sp_mask s1 = insert SIGCHLD (sp_mask s) \<and>
    sa_handler (sp_disp s1 SIGINT) = SIG_IGN \<and> sa_handler (sp_disp s1 SIGQUIT) = SIG_IGN \<and>
    sp_mask u = sp_mask s \<and>
    sa_handler (sp_disp u SIGINT) = (if sa_handler (sp_disp s SIGINT) = SIG_IGN then SIG_IGN else SIG_DFL) \<and>
    sa_handler (sp_disp u SIGQUIT) = (if sa_handler (sp_disp s SIGQUIT) = SIG_IGN then SIG_IGN else SIG_DFL) \<and>
    (\<forall>sig. sig \<noteq> SIGINT \<longrightarrow> sig \<noteq> SIGQUIT \<longrightarrow> sp_disp u sig = sp_disp s sig)"
proof (intro conjI impI)
  show "\<exists>t. system os (Some c) s = Some (- 1, t) \<and> sp_errno t = e" if "ps_fork os (sp_kern s1) = (Inl e, w)"
    using that by (simp add: system_def system_command_def s1_def Let_def restore_fields)
  show "\<exists>t. system os (Some c) s = Some ((case r of Inl _ \<Rightarrow> - 1 | Inr status \<Rightarrow> status), t) \<and> (\<forall>e. r = Inl e \<longrightarrow> sp_errno t = e)"
    if "ps_fork os (sp_kern s1) = (Inr pid, w)" "waits os pid n w = Some r"
    using that wait_loop_returns [of os pid n "s1\<lparr> sp_kern := w \<rparr>" r]
    by (auto simp: system_def system_command_def s1_def Let_def restore_fields)
qed (use system_command_restores [of os c s st t] in
    \<open>auto simp: system_def s1_def u_def prepare_fields system_child_def Let_def saIgnore_def saDefault_def signal_numbers\<close>)

text \<open>A caller with a handler for \<^verbatim>\<open>SIGINT\<close>; the wait is interrupted twice.\<close>

definition ps_demo :: "nat sys_os" where
  "ps_demo =
     \<lparr> ps_noise = (\<lambda>w. (Some EAGAIN, w)), ps_fork = (\<lambda>w. (Inr 100, w)),
       ps_waitpid = (\<lambda>pid w. if w < 2 then (Inl EINTR, w + 1) else (Inr 256, w)), ps_execl = (\<lambda>_ _ w. (True, w)) \<rparr>"

definition ps_start :: "nat sproc" where
  "ps_start =
     \<lparr> sp_mask = {5}, sp_disp = (\<lambda>sig. if sig = 2 then \<lparr> sa_handler = Handler 1, sa_mask = [], sa_flags = 0 \<rparr> else saDefault),
       sp_errno = EOTHER 0, sp_kern = 0 \<rparr>"

theorem system_contract_witness:
  "\<exists>t. system ps_demo (Some ''date'') ps_start = Some (256, t) \<and> sp_mask t = {5} \<and> sa_handler (sp_disp t 2) = Handler 1"
proof -
  have f: "ps_fork ps_demo (sp_kern (system_prepare ps_demo ps_start)) = (Inr 100, 0)" by code_simp
  have w: "waits ps_demo 100 2 0 = Some (Inr 256)" by code_simp
  obtain t where t: "system ps_demo (Some ''date'') ps_start = Some (256, t)"
    using system_contract [of ps_demo "''date''" ps_start 0 ps_start EINTR 0 100 2 "Inr 256"] f w by auto
  then show ?thesis
    using system_contract [of ps_demo "''date''" ps_start 256 t EINTR 0 100 2 "Inr 256"] by (simp add: ps_start_def)
qed

text \<open>The simple version does not try again: interrupted, it fails although the command goes on.\<close>

lemma simple_system_interrupted: "fst (simple_system ps_demo ''date'' ps_start) = - 1"
  by code_simp

section \<open>Wait statuses\<close>

text \<open>The macros of \<^verbatim>\<open><sys/wait.h>\<close> on a status that is not negative.\<close>

definition WTERMSIG :: "int \<Rightarrow> int" where "WTERMSIG status = status mod 128"
definition WIFEXITED :: "int \<Rightarrow> bool" where "WIFEXITED status \<longleftrightarrow> WTERMSIG status = 0"
definition WEXITSTATUS :: "int \<Rightarrow> int" where "WEXITSTATUS status = (status div 256) mod 256"
definition WIFSIGNALED :: "int \<Rightarrow> bool" where "WIFSIGNALED status \<longleftrightarrow> 0 < WTERMSIG status \<and> WTERMSIG status < 127"
definition WCOREDUMP :: "int \<Rightarrow> bool" where "WCOREDUMP status \<longleftrightarrow> (status div 128) mod 2 = 1"
definition WIFSTOPPED :: "int \<Rightarrow> bool" where "WIFSTOPPED status \<longleftrightarrow> status mod 256 = 127"
definition WIFCONTINUED :: "int \<Rightarrow> bool" where "WIFCONTINUED status \<longleftrightarrow> status = 0xffff"

lemmas wait_macros = WIFEXITED_def WTERMSIG_def WEXITSTATUS_def WIFSIGNALED_def WCOREDUMP_def WIFSTOPPED_def WIFCONTINUED_def

text \<open>\<open>hex\<close> is the conversion \<^verbatim>\<open>%x\<close>.\<close>

definition printWaitStatus :: "(int \<Rightarrow> cstring) \<Rightarrow> (int \<Rightarrow> cstring) \<Rightarrow> cstring option \<Rightarrow> int \<Rightarrow> cstring" where
  "printWaitStatus strsignal hex msg status =
     (case msg of None \<Rightarrow> [] | Some m \<Rightarrow> m) @
     (if WIFEXITED status then ''child exited, status='' @ dec (WEXITSTATUS status) @ [newline]
      else if WIFSIGNALED status then
        ''child killed by signal '' @ dec (WTERMSIG status) @ '' ('' @ strsignal (WTERMSIG status) @ '')'' @
        (if WCOREDUMP status then '' (core dumped)'' else []) @ [newline]
      else if WIFSTOPPED status then
        ''child stopped by signal '' @ dec (WEXITSTATUS status) @ '' ('' @ strsignal (WEXITSTATUS status) @ '')'' @ [newline]
      else if WIFCONTINUED status then ''child continued'' @ [newline]
      else ''what happened to this child? (status='' @ hex status @ '')'' @ [newline])"

text \<open>How the kernel encodes what happened to a child.\<close>

datatype change = Exited int | Killed int bool | Stopped int | Continued

fun wait_status :: "change \<Rightarrow> int" where
  "wait_status (Exited c) = c * 256"
| "wait_status (Killed sig dump) = sig + (if dump then 128 else 0)"
| "wait_status (Stopped sig) = sig * 256 + 127"
| "wait_status Continued = 0xffff"

fun possible :: "change \<Rightarrow> bool" where
  "possible (Exited c) = (0 \<le> c \<and> c < 256)"
| "possible (Killed sig dump) = (0 < sig \<and> sig < 65)"
| "possible (Stopped sig) = (0 < sig \<and> sig < 65)"
| "possible Continued = True"

fun change_text :: "(int \<Rightarrow> cstring) \<Rightarrow> change \<Rightarrow> cstring" where
  "change_text d (Exited c) = ''child exited, status='' @ dec c @ [newline]"
| "change_text d (Killed sig dump) =
     ''child killed by signal '' @ dec sig @ '' ('' @ d sig @ '')'' @ (if dump then '' (core dumped)'' else []) @ [newline]"
| "change_text d (Stopped sig) = ''child stopped by signal '' @ dec sig @ '' ('' @ d sig @ '')'' @ [newline]"
| "change_text d Continued = ''child continued'' @ [newline]"

text \<open>The status of every change a child can undergo is printed as that change.\<close>

lemma status_arith:
  fixes c :: int
  shows "(c * 256) mod 128 = 0" "0 \<le> c \<Longrightarrow> c < 256 \<Longrightarrow> (c * 256 div 256) mod 256 = c"
    "0 < c \<Longrightarrow> c < 65 \<Longrightarrow> (c + 128) mod 128 = c" "0 < c \<Longrightarrow> c < 65 \<Longrightarrow> ((c + 128) div 128) mod 2 = 1"
    "0 < c \<Longrightarrow> c < 65 \<Longrightarrow> (c div 128) mod 2 = 0" "0 < c \<Longrightarrow> c < 65 \<Longrightarrow> c mod 128 = c"
    "(c * 256 + 127) mod 128 = 127" "(c * 256 + 127) mod 256 = 127"
    "0 < c \<Longrightarrow> c < 65 \<Longrightarrow> ((c * 256 + 127) div 256) mod 256 = c"
  using mod_mult_self1 [of "127 :: int" "c * 2" 128] mod_mult_self1 [of "127 :: int" c 256] mod_mult_self1 [of "0 :: int" "c * 2" 128]
    div_mult_self1 [of "256 :: int" 127 c]
  by (simp_all add: algebra_simps div_add_self2)

lemma wait_status_printed:
  assumes "possible ch"
  shows "printWaitStatus d hex (Some m) (wait_status ch) = m @ change_text d ch"
proof (cases ch)
  case (Exited c)
  then show ?thesis using assms by (simp only: printWaitStatus_def wait_macros wait_status.simps possible.simps change_text.simps status_arith option.case) simp
next
  case (Killed sig dump)
  then show ?thesis using assms by (cases dump) (simp_all add: printWaitStatus_def wait_macros status_arith)
next
  case (Stopped sig)
  then show ?thesis using assms by (simp only: printWaitStatus_def wait_macros wait_status.simps possible.simps change_text.simps status_arith option.case) simp
next
  case Continued
  then show ?thesis by (simp add: printWaitStatus_def wait_macros)
qed

section \<open>siginterrupt() and yabort()\<close>

text \<open>\<open>bad\<close> are the signals \<^verbatim>\<open>sigaction()\<close> refuses; \<open>None\<close> is -1.\<close>

definition siginterrupt :: "(nat \<Rightarrow> bool) \<Rightarrow> nat \<Rightarrow> int \<Rightarrow> (nat \<Rightarrow> disposition) \<Rightarrow> bool \<times> (nat \<Rightarrow> disposition)" where
  "siginterrupt bad sig flag tab =
     (if bad sig then (False, tab)
      else
        (let act = tab sig;
             act = (if flag \<noteq> 0 then act\<lparr> sa_flags := sa_flags act AND NOT SA_RESTART \<rparr> else act\<lparr> sa_flags := sa_flags act OR SA_RESTART \<rparr>)
         in case sigaction bad sig act tab of (None, tab) \<Rightarrow> (False, tab) | (Some _, tab) \<Rightarrow> (True, tab)))"

definition y_siginterrupt :: "(nat \<Rightarrow> bool) \<Rightarrow> nat \<Rightarrow> int \<Rightarrow> (nat \<Rightarrow> disposition) \<Rightarrow> bool \<times> (nat \<Rightarrow> disposition)" where
  "y_siginterrupt bad sig flag tab =
     (if bad sig then (False, tab)
      else
        (let sa = tab sig;
             sa = (if flag \<noteq> 0 then sa\<lparr> sa_flags := sa_flags sa AND NOT SA_RESTART \<rparr> else sa\<lparr> sa_flags := sa_flags sa OR SA_RESTART \<rparr>)
         in case sigaction bad sig sa tab of (None, tab) \<Rightarrow> (False, tab) | (Some _, tab) \<Rightarrow> (True, tab)))"

text \<open>System calls are restarted after the signal exactly when the flag was 0; everything else stays as it was.\<close>

lemma siginterrupt_spec:
  assumes "siginterrupt bad sig flag tab = (ok, tab')"
  shows "ok \<longleftrightarrow> \<not> bad sig"
    and "ok \<Longrightarrow> sa_flags (tab' sig) AND SA_RESTART = (if flag = 0 then SA_RESTART else 0)"
    and "sa_flags (tab' s) AND NOT SA_RESTART = sa_flags (tab s) AND NOT SA_RESTART"
    and "sa_handler (tab' s) = sa_handler (tab s)" and "s \<noteq> sig \<Longrightarrow> tab' s = tab s"
proof -
  have a: "(f AND NOT m) AND m = 0" "(f OR m) AND m = m" "(f AND NOT m) AND NOT m = f AND NOT m" "(f OR m) AND NOT m = f AND NOT m"
    for f m :: "32 word"
    by (auto intro!: bit_eqI simp: bit_and_iff bit_or_iff bit_not_iff)
  show "ok \<longleftrightarrow> \<not> bad sig" "ok \<Longrightarrow> sa_flags (tab' sig) AND SA_RESTART = (if flag = 0 then SA_RESTART else 0)"
    "sa_flags (tab' s) AND NOT SA_RESTART = sa_flags (tab s) AND NOT SA_RESTART"
    "sa_handler (tab' s) = sa_handler (tab s)" "s \<noteq> sig \<Longrightarrow> tab' s = tab s"
    using assms by (auto simp: siginterrupt_def sigaction_def a Let_def split: if_splits)
qed

lemma siginterrupt_versions_agree: "y_siginterrupt = siginterrupt"
  by (intro ext) (simp add: y_siginterrupt_def siginterrupt_def)

text \<open>What a handler does with a signal: it returns or does not (it exits, or jumps away). A process ends when a signal that is
  not blocked and has the default disposition is raised.\<close>

datatype raised = Killed_By nat | Escaped nat | Returns

definition raise_signal :: "(nat \<Rightarrow> bool) \<Rightarrow> nat \<Rightarrow> nat set \<times> (nat \<Rightarrow> disposition) \<Rightarrow> raised" where
  "raise_signal returns sig st =
     (if sig \<in> fst st then Returns
      else (case sa_handler (snd st sig) of
          SIG_DFL \<Rightarrow> Killed_By sig
        | SIG_IGN \<Rightarrow> Returns
        | Handler h \<Rightarrow> if returns h then Returns else Escaped h
        | SIG_ERR \<Rightarrow> Returns))"

definition yabort :: "(nat \<Rightarrow> bool) \<Rightarrow> nat set \<times> (nat \<Rightarrow> disposition) \<Rightarrow> raised" where
  "yabort returns st =
     (let mask = fst st - {SIGABRT};
          act = snd st SIGABRT;
          act = (if sa_handler act = SIG_IGN then act\<lparr> sa_handler := SIG_DFL \<rparr> else act);
          tab = (snd st)(SIGABRT := act)
      in case raise_signal returns SIGABRT (mask, tab) of
           Returns \<Rightarrow> raise_signal returns SIGABRT (mask, tab(SIGABRT := act\<lparr> sa_handler := SIG_DFL \<rparr>))
         | r \<Rightarrow> r)"

text \<open>Blocked, ignored or caught: the process dies of \<^verbatim>\<open>SIGABRT\<close> unless its handler does not return.\<close>

lemma yabort_kills:
  "yabort returns (m, tab) =
     (case sa_handler (tab SIGABRT) of Handler h \<Rightarrow> if returns h then Killed_By SIGABRT else Escaped h | _ \<Rightarrow> Killed_By SIGABRT)"
  by (auto simp: yabort_def raise_signal_def Let_def split: sig_handler.splits)

end
