(* ===== verification/Daemon_Pty.thy ===== *)
theory Daemon_Pty
  imports Error_Report Dtree_State
begin

text \<open>
  Functions that rearrange the descriptors of a process: \<^verbatim>\<open>becomeDaemon()\<close> of \<^verbatim>\<open>daemons/become_daemon.c\<close>,
  \<^verbatim>\<open>ptyMasterOpen()\<close> and \<^verbatim>\<open>ptyFork()\<close> of \<^verbatim>\<open>pty/\<close>. The table of descriptors, the process group and the session of the
  calling process are explicit; which calls fail is an argument. The terminal functions of
  \<^verbatim>\<open>tty/tty_functions.c\<close> and the program \<^verbatim>\<open>pty/script.c\<close> that uses all of them are below.
\<close>

section \<open>A process and its descriptors\<close>

datatype d_call = D_Fork | D_Setsid | D_Chdir cstring | D_Open cstring | D_Close nat | D_Dup2 nat nat | D_Openpt | D_Grantpt nat
  | D_Unlockpt nat | D_Tcsetattr | D_Winsize | D_Ctty

text \<open>\<open>td_fails\<close> tells whether a call fails; \<open>td_fork\<close> gives 0 in the child, whose identifier is then
  given by \<open>td_pid\<close> from those in use.\<close>

record 'w d_os =
  td_fails :: "d_call \<Rightarrow> 'w \<Rightarrow> errno option \<times> 'w"
  td_fork :: "'w \<Rightarrow> nat \<times> 'w"
  td_pid :: "nat list \<Rightarrow> 'w \<Rightarrow> nat"
  td_ptsname :: "nat \<Rightarrow> 'w \<Rightarrow> (errno + cstring) \<times> 'w"
  td_open_max :: "'w \<Rightarrow> int \<times> 'w"

record 'w dproc =
  d_pid :: nat
  d_pgid :: nat
  d_sid :: nat
  d_umask :: nat
  d_cwd :: cstring
  d_fds :: "nat \<Rightarrow> cstring option"
  d_limit :: nat
  d_errno :: errno
  d_kern :: 'w

definition EMFILE :: errno where "EMFILE = EOTHER 24"
definition EBADF :: errno where "EBADF = EOTHER 9"
definition EOVERFLOW :: errno where "EOVERFLOW = EOTHER 75"

definition dcall :: "'w d_os \<Rightarrow> d_call \<Rightarrow> 'w dproc \<Rightarrow> bool \<times> 'w dproc" where
  "dcall os c s =
     (case td_fails os c (d_kern s) of
        (None, w) \<Rightarrow> (True, s\<lparr> d_kern := w \<rparr>)
      | (Some e, w) \<Rightarrow> (False, s\<lparr> d_kern := w, d_errno := e \<rparr>))"

definition d_fork :: "'w d_os \<Rightarrow> 'w dproc \<Rightarrow> int \<times> 'w dproc" where
  "d_fork os s =
     (case dcall os D_Fork s of
        (False, s) \<Rightarrow> (- 1, s)
      | (True, s) \<Rightarrow>
          (case td_fork os (d_kern s) of
             (pid, w) \<Rightarrow> (int pid, if pid = 0 then s\<lparr> d_pid := td_pid os [d_pid s, d_pgid s, d_sid s] w, d_kern := w \<rparr> else s\<lparr> d_kern := w \<rparr>)))"

text \<open>A process that leads its process group cannot start a session.\<close>

definition d_setsid :: "'w d_os \<Rightarrow> 'w dproc \<Rightarrow> bool \<times> 'w dproc" where
  "d_setsid os s =
     (if d_pid s = d_pgid s then (False, s\<lparr> d_errno := EOTHER 1 \<rparr>)
      else (case dcall os D_Setsid s of (False, s) \<Rightarrow> (False, s) | (True, s) \<Rightarrow> (True, s\<lparr> d_sid := d_pid s, d_pgid := d_pid s \<rparr>)))"

text \<open>A new descriptor is the lowest that is free.\<close>

definition lowest_fd :: "'w dproc \<Rightarrow> nat option" where
  "lowest_fd s = find (\<lambda>n. d_fds s n = None) [0..<d_limit s]"

definition new_fd :: "cstring \<Rightarrow> 'w dproc \<Rightarrow> nat option \<times> 'w dproc" where
  "new_fd name s =
     (case lowest_fd s of
        None \<Rightarrow> (None, s\<lparr> d_errno := EMFILE \<rparr>)
      | Some n \<Rightarrow> (Some n, s\<lparr> d_fds := (d_fds s)(n := Some name) \<rparr>))"

definition d_open :: "'w d_os \<Rightarrow> cstring \<Rightarrow> 'w dproc \<Rightarrow> nat option \<times> 'w dproc" where
  "d_open os name s = (case dcall os (D_Open name) s of (False, s) \<Rightarrow> (None, s) | (True, s) \<Rightarrow> new_fd name s)"

text \<open>\<^verbatim>\<open>close()\<close> releases the descriptor also when it reports an error.\<close>

definition d_close :: "'w d_os \<Rightarrow> nat \<Rightarrow> 'w dproc \<Rightarrow> 'w dproc" where
  "d_close os fd s = (snd (dcall os (D_Close fd) s))\<lparr> d_fds := (d_fds s)(fd := None) \<rparr>"

definition d_dup2 :: "'w d_os \<Rightarrow> nat \<Rightarrow> nat \<Rightarrow> 'w dproc \<Rightarrow> bool \<times> 'w dproc" where
  "d_dup2 os a b s =
     (case dcall os (D_Dup2 a b) s of
        (False, s) \<Rightarrow> (False, s)
      | (True, s) \<Rightarrow> if d_fds s a = None then (False, s\<lparr> d_errno := EBADF \<rparr>) else (True, s\<lparr> d_fds := (d_fds s)(b := d_fds s a) \<rparr>))"

section \<open>becomeDaemon()\<close>

definition BD_NO_CHDIR :: mask where "BD_NO_CHDIR = 1"
definition BD_NO_CLOSE_FILES :: mask where "BD_NO_CLOSE_FILES = 2"
definition BD_NO_REOPEN_STD_FDS :: mask where "BD_NO_REOPEN_STD_FDS = 4"
definition BD_NO_UMASK0 :: mask where "BD_NO_UMASK0 = 8"
definition BD_MAX_CLOSE :: int where "BD_MAX_CLOSE = 8192"

text \<open>Both forks have the same shape: the parent terminates and the child goes on.\<close>

definition fork_away :: "'w d_os \<Rightarrow> ('w dproc \<Rightarrow> (int, 'w dproc) outcome) \<Rightarrow> 'w dproc \<Rightarrow> (int, 'w dproc) outcome" where
  "fork_away os go s =
     (case d_fork os s of (r, s) \<Rightarrow> if r = - 1 then Ret (- 1) s else if r = 0 then go s else Exit EXIT_SUCCESS s)"

fun close_all :: "'w d_os \<Rightarrow> nat list \<Rightarrow> 'w dproc \<Rightarrow> 'w dproc" where
  "close_all os [] s = s"
| "close_all os (fd # fds) s = close_all os fds (d_close os fd s)"

definition close_files :: "'w d_os \<Rightarrow> mask \<Rightarrow> 'w dproc \<Rightarrow> 'w dproc" where
  "close_files os flags s =
     (if flags AND BD_NO_CLOSE_FILES = 0 then
        (case td_open_max os (d_kern s) of
           (m, w) \<Rightarrow> let maxfd = (if m = - 1 then BD_MAX_CLOSE else m) in close_all os [0..<nat maxfd] (s\<lparr> d_kern := w \<rparr>))
      else s)"

definition reopen_std :: "'w d_os \<Rightarrow> mask \<Rightarrow> 'w dproc \<Rightarrow> (int, 'w dproc) outcome" where
  "reopen_std os flags s =
     (if flags AND BD_NO_REOPEN_STD_FDS = 0 then
        (case d_open os ''/dev/null'' (d_close os 0 s) of
           (fd, s) \<Rightarrow>
             if fd \<noteq> Some 0 then Ret (- 1) s
             else (case d_dup2 os 0 1 s of
                 (False, s) \<Rightarrow> Ret (- 1) s
               | (True, s) \<Rightarrow> (case d_dup2 os 0 2 s of (False, s) \<Rightarrow> Ret (- 1) s | (True, s) \<Rightarrow> Ret 0 s)))
      else Ret 0 s)"

definition daemon_env :: "'w d_os \<Rightarrow> mask \<Rightarrow> 'w dproc \<Rightarrow> 'w dproc" where
  "daemon_env os flags s =
     (let s = (if flags AND BD_NO_UMASK0 = 0 then s\<lparr> d_umask := 0 \<rparr> else s)
      in if flags AND BD_NO_CHDIR = 0
         then (case dcall os (D_Chdir ''/'') s of (True, s) \<Rightarrow> s\<lparr> d_cwd := ''/'' \<rparr> | (False, s) \<Rightarrow> s)
         else s)"

definition becomeDaemon :: "'w d_os \<Rightarrow> mask \<Rightarrow> 'w dproc \<Rightarrow> (int, 'w dproc) outcome" where
  "becomeDaemon os flags s =
     fork_away os (\<lambda>s.
       case d_setsid os s of
         (False, s) \<Rightarrow> Ret (- 1) s
       | (True, s) \<Rightarrow> fork_away os (\<lambda>s. reopen_std os flags (close_files os flags (daemon_env os flags s))) s) s"

section \<open>Pseudoterminals\<close>

text \<open>After an error the master is closed and \<^verbatim>\<open>errno\<close> is that of the failing call.\<close>

definition close_keep_errno :: "'w d_os \<Rightarrow> nat \<Rightarrow> 'w dproc \<Rightarrow> 'w dproc" where
  "close_keep_errno os fd s = (d_close os fd s)\<lparr> d_errno := d_errno s \<rparr>"

definition ptyMasterOpen :: "'w d_os \<Rightarrow> nat \<Rightarrow> 'w dproc \<Rightarrow> (nat \<times> cstring) option \<times> 'w dproc" where
  "ptyMasterOpen os snLen s =
     (case (case dcall os D_Openpt s of (False, s) \<Rightarrow> (None, s) | (True, s) \<Rightarrow> new_fd ''/dev/ptmx'' s) of
        (None, s) \<Rightarrow> (None, s)
      | (Some masterFd, s) \<Rightarrow>
          (case dcall os (D_Grantpt masterFd) s of
             (False, s) \<Rightarrow> (None, close_keep_errno os masterFd s)
           | (True, s) \<Rightarrow>
               (case dcall os (D_Unlockpt masterFd) s of
                  (False, s) \<Rightarrow> (None, close_keep_errno os masterFd s)
                | (True, s) \<Rightarrow>
                    (case td_ptsname os masterFd (d_kern s) of
                       (Inl e, w) \<Rightarrow> (None, close_keep_errno os masterFd (s\<lparr> d_kern := w, d_errno := e \<rparr>))
                     | (Inr p, w) \<Rightarrow>
                         let s = s\<lparr> d_kern := w \<rparr>
                         in if length p < snLen then (Some (masterFd, strncpy p snLen), s)
                            else (None, (d_close os masterFd s)\<lparr> d_errno := EOVERFLOW \<rparr>)))))"

definition MAX_SNAME :: nat where "MAX_SNAME = 1000"

text \<open>A call of the child whose failure ends it.\<close>

definition d_must :: "(bool \<times> 'w dproc) \<Rightarrow> (unit, 'w dproc) outcome" where
  "d_must r = (case r of (True, s) \<Rightarrow> Ret () s | (False, s) \<Rightarrow> Exit EXIT_FAILURE s)"

definition pty_child :: "'w d_os \<Rightarrow> nat \<Rightarrow> cstring \<Rightarrow> bool \<Rightarrow> bool \<Rightarrow> 'w dproc \<Rightarrow> (int, 'w dproc) outcome" where
  "pty_child os mfd slname slaveTermios slaveWS s =
     obind (d_must (d_setsid os s)) (\<lambda>_ s.
       case d_open os slname (d_close os mfd s) of
         (None, s) \<Rightarrow> Exit EXIT_FAILURE s
       | (Some slaveFd, s) \<Rightarrow>
           obind (d_must (dcall os D_Ctty s)) (\<lambda>_ s.
           obind (if slaveTermios then d_must (dcall os D_Tcsetattr s) else Ret () s) (\<lambda>_ s.
           obind (if slaveWS then d_must (dcall os D_Winsize s) else Ret () s) (\<lambda>_ s.
           obind (d_must (d_dup2 os slaveFd 0 s)) (\<lambda>_ s.
           obind (d_must (d_dup2 os slaveFd 1 s)) (\<lambda>_ s.
           obind (d_must (d_dup2 os slaveFd 2 s)) (\<lambda>_ s.
             Ret 0 (if slaveFd > 2 then d_close os slaveFd s else s))))))))"

text \<open>The result, and what is stored through \<^verbatim>\<open>masterFd\<close> and \<^verbatim>\<open>slaveName\<close>; \<open>snLen\<close> is \<open>None\<close> where \<^verbatim>\<open>slaveName\<close> is null.\<close>

definition ptyFork :: "'w d_os \<Rightarrow> nat option \<Rightarrow> bool \<Rightarrow> bool \<Rightarrow> 'w dproc \<Rightarrow> (int \<times> nat option \<times> cstring option, 'w dproc) outcome" where
  "ptyFork os snLen slaveTermios slaveWS s =
     (case ptyMasterOpen os MAX_SNAME s of
        (None, s) \<Rightarrow> Ret (- 1, None, None) s
      | (Some (mfd, slname), s) \<Rightarrow>
          if (case snLen of None \<Rightarrow> False | Some n \<Rightarrow> length slname \<ge> n) then
            Ret (- 1, None, None) ((d_close os mfd s)\<lparr> d_errno := EOVERFLOW \<rparr>)
          else
            (let slaveName = map_option (strncpy slname) snLen
             in case d_fork os s of
                  (childPid, s) \<Rightarrow>
                    if childPid = - 1 then Ret (- 1, None, slaveName) (close_keep_errno os mfd s)
                    else if childPid \<noteq> 0 then Ret (childPid, Some mfd, slaveName) s
                    else obind (pty_child os mfd slname slaveTermios slaveWS s) (\<lambda>r s. Ret (r, None, slaveName) s)))"

section \<open>Lemmas\<close>

lemma dcall_fields:
  "dcall os c s = (r, t) \<Longrightarrow> d_fds t = d_fds s \<and> d_limit t = d_limit s \<and> d_pid t = d_pid s \<and> d_pgid t = d_pgid s \<and> d_sid t = d_sid s \<and>
     d_umask t = d_umask s \<and> d_cwd t = d_cwd s"
  by (auto simp: dcall_def split: prod.splits option.splits)

lemma d_close_fields [simp]:
  "d_fds (d_close os fd s) = (d_fds s)(fd := None)" "d_limit (d_close os fd s) = d_limit s" "d_pid (d_close os fd s) = d_pid s"
  "d_pgid (d_close os fd s) = d_pgid s" "d_sid (d_close os fd s) = d_sid s" "d_umask (d_close os fd s) = d_umask s"
  "d_cwd (d_close os fd s) = d_cwd s"
  using dcall_fields [of os "D_Close fd" s "fst (dcall os (D_Close fd) s)" "snd (dcall os (D_Close fd) s)"]
  by (simp_all add: d_close_def)

lemma new_fd_fields:
  "new_fd name s = (r, t) \<Longrightarrow>
     (case r of None \<Rightarrow> d_fds t = d_fds s | Some n \<Rightarrow> d_fds s n = None \<and> n < d_limit s \<and> (\<forall>m<n. d_fds s m \<noteq> None) \<and> d_fds t = (d_fds s)(n := Some name)) \<and>
     d_limit t = d_limit s \<and> d_pid t = d_pid s \<and> d_pgid t = d_pgid s \<and> d_sid t = d_sid s \<and> d_umask t = d_umask s \<and> d_cwd t = d_cwd s"
  by (auto simp: new_fd_def lowest_fd_def find_Some_iff split: option.splits)

lemma d_open_fields:
  "d_open os name s = (r, t) \<Longrightarrow>
     (case r of None \<Rightarrow> d_fds t = d_fds s | Some n \<Rightarrow> d_fds s n = None \<and> n < d_limit s \<and> (\<forall>m<n. d_fds s m \<noteq> None) \<and> d_fds t = (d_fds s)(n := Some name)) \<and>
     d_limit t = d_limit s \<and> d_pid t = d_pid s \<and> d_pgid t = d_pgid s \<and> d_sid t = d_sid s \<and> d_umask t = d_umask s \<and> d_cwd t = d_cwd s"
  unfolding d_open_def
  by (cases "dcall os (D_Open name) s"; cases "fst (dcall os (D_Open name) s)")
     (auto dest!: dcall_fields new_fd_fields split: option.splits)

lemma d_dup2_fields:
  "d_dup2 os a b s = (r, t) \<Longrightarrow>
     d_fds t = (if r then (d_fds s)(b := d_fds s a) else d_fds s) \<and> (r \<longrightarrow> d_fds s a \<noteq> None) \<and>
     d_limit t = d_limit s \<and> d_pid t = d_pid s \<and> d_pgid t = d_pgid s \<and> d_sid t = d_sid s \<and> d_umask t = d_umask s \<and> d_cwd t = d_cwd s"
  by (auto simp: d_dup2_def split: prod.splits bool.splits if_splits dest!: dcall_fields)

lemma close_keep_errno_fields [simp]:
  "d_fds (close_keep_errno os fd s) = (d_fds s)(fd := None)" "d_errno (close_keep_errno os fd s) = d_errno s"
  by (simp_all add: close_keep_errno_def)

lemma ptyMasterOpen_fds:
  assumes "ptyMasterOpen os n s = (r, t)"
  shows "case r of None \<Rightarrow> d_fds t = d_fds s | Some (fd, name) \<Rightarrow> d_fds s fd = None \<and> d_fds t = (d_fds s)(fd := Some ''/dev/ptmx'') \<and> length name < n"
proof -
  obtain q u where q: "(case dcall os D_Openpt s of (False, s) \<Rightarrow> (None, s) | (True, s) \<Rightarrow> new_fd ''/dev/ptmx'' s) = (q, u)" by fastforce
  have u: "case q of None \<Rightarrow> d_fds u = d_fds s | Some fd \<Rightarrow> d_fds s fd = None \<and> d_fds u = (d_fds s)(fd := Some ''/dev/ptmx'')"
    using q by (cases "dcall os D_Openpt s"; cases "fst (dcall os D_Openpt s)") (auto dest!: dcall_fields new_fd_fields split: option.splits)
  show ?thesis
  proof (cases q)
    case None
    then show ?thesis using assms q u by (simp add: ptyMasterOpen_def)
  next
    case (Some fd)
    have c: "(d_fds s)(fd := None) = d_fds s" using u Some by auto
    show ?thesis
      using assms u Some c unfolding ptyMasterOpen_def q
      by (auto simp: Let_def strncpy_def split: prod.splits bool.splits sum.splits if_splits dest!: dcall_fields)
  qed
qed

text \<open>The name that is stored is the one \<^verbatim>\<open>ptsname()\<close> gave for the master.\<close>

lemma ptyMasterOpen_name:
  "ptyMasterOpen os n s = (Some (fd, name), t) \<Longrightarrow> \<exists>w w'. td_ptsname os fd w = (Inr name, w')"
  by (auto simp: ptyMasterOpen_def Let_def strncpy_def split: prod.splits bool.splits sum.splits if_splits option.splits)

lemma d_fork_fields:
  "d_fork os s = (r, t) \<Longrightarrow> d_fds t = d_fds s \<and> d_limit t = d_limit s \<and> d_pgid t = d_pgid s \<and> d_sid t = d_sid s \<and> d_umask t = d_umask s \<and>
     d_cwd t = d_cwd s \<and> (r \<noteq> 0 \<longrightarrow> d_pid t = d_pid s) \<and> - 1 \<le> r"
  by (auto simp: d_fork_def split: prod.splits bool.splits if_splits dest!: dcall_fields)

lemma d_must_Ret_iff: "d_must r = Ret u s \<longleftrightarrow> r = (True, s)"
  by (auto simp: d_must_def split: prod.splits bool.splits)

lemma d_setsid_fields:
  "d_setsid os s = (True, t) \<Longrightarrow> d_fds t = d_fds s \<and> d_limit t = d_limit s \<and> d_pid t = d_pid s \<and> d_sid t = d_pid s \<and> d_pgid t = d_pid s \<and>
     d_umask t = d_umask s \<and> d_cwd t = d_cwd s \<and> d_pid s \<noteq> d_pgid s"
  by (auto simp: d_setsid_def split: if_splits prod.splits bool.splits dest!: dcall_fields)

definition same_fds :: "'w dproc \<Rightarrow> 'w dproc \<Rightarrow> bool" where
  "same_fds s t \<longleftrightarrow> d_fds t = d_fds s \<and> d_sid t = d_sid s \<and> d_pid t = d_pid s"

lemma optional_call: "(if b then d_must (dcall os c s) else Ret () s) = Ret u t \<Longrightarrow> same_fds s t"
  by (auto simp: same_fds_def d_must_Ret_iff split: if_splits dest!: dcall_fields)

lemma pty_child_fds:
  assumes "pty_child os mfd slname ts ws s = Ret r t"
  shows "r = 0 \<and> d_sid t = d_pid t \<and> (\<forall>n. d_fds t n = (if n \<le> 2 then Some slname else if n = mfd then None else d_fds s n))"
proof -
  from assms obtain s1 where s1: "d_setsid os s = (True, s1)"
    unfolding pty_child_def obind_Ret_iff d_must_Ret_iff by blast
  obtain fdo s2 where o2: "d_open os slname (d_close os mfd s1) = (fdo, s2)" by fastforce
  with assms s1 obtain fd where s2: "d_open os slname (d_close os mfd s1) = (Some fd, s2)"
    by (cases fdo) (auto simp: pty_child_def d_must_def)
  from assms s1 s2 obtain s3 s4 s5 s6 s7 s8 where
    s3: "dcall os D_Ctty s2 = (True, s3)"
    and s4: "(if ts then d_must (dcall os D_Tcsetattr s3) else Ret () s3) = Ret () s4"
    and s5: "(if ws then d_must (dcall os D_Winsize s4) else Ret () s4) = Ret () s5"
    and s6: "d_dup2 os fd 0 s5 = (True, s6)" and s7: "d_dup2 os fd 1 s6 = (True, s7)" and s8: "d_dup2 os fd 2 s7 = (True, s8)"
    and t: "r = 0" "t = (if fd > 2 then d_close os fd s8 else s8)"
    by (auto simp: pty_child_def obind_Ret_iff d_must_Ret_iff)
  have f1: "d_fds s1 = d_fds s" "d_sid s1 = d_pid s1" using d_setsid_fields [OF s1] by auto
  have f2: "d_fds s2 = (d_fds s)(mfd := None, fd := Some slname)" "((d_fds s)(mfd := None)) fd = None" "d_sid s2 = d_pid s2"
    using d_open_fields [OF s2] f1 by auto
  have f5: "d_fds s5 = d_fds s2" "d_sid s5 = d_pid s5"
    using dcall_fields [OF s3] optional_call [OF s4] optional_call [OF s5] f2(3) by (auto simp: same_fds_def)
  have f8: "d_fds s8 = (d_fds s5)(0 := Some slname, 1 := Some slname, 2 := Some slname)" "d_sid s8 = d_pid s8"
    using d_dup2_fields [OF s6] d_dup2_fields [OF s7] d_dup2_fields [OF s8] f5 f2(1) by auto
  have "d_fds t n = (if n \<le> 2 then Some slname else if n = mfd then None else d_fds s n)" for n
  proof -
    consider "n = 0" | "n = 1" | "n = 2" | "n > 2" by linarith
    then show ?thesis using t(2) f8(1) f5(1) f2(1,2) by cases (auto split: if_splits)
  qed
  then show ?thesis using t f8(2) by auto
qed

text \<open>
  C23. Whichever way \<^verbatim>\<open>ptyFork()\<close> returns, the descriptors are as the caller expects: after an error the table is what it was before;
  in the parent exactly one descriptor was added, the one of the master that is stored for the caller; in the
  child, which leads a new session, the three standard descriptors refer to the slave, the terminal whose name \<^verbatim>\<open>ptsname()\<close> gave for the
  master, and every other one is what
  the caller of \<^verbatim>\<open>ptyFork()\<close> had, so that neither the master nor a second descriptor of the slave stays open. The
  name that is stored is that of the slave and always leaves room for its null byte.
\<close>

theorem ptyFork_descriptors:
  assumes "ptyFork os snLen ts ws s = Ret (r, m, name) t"
  shows "r \<ge> - 1 \<and> (r = - 1 \<longrightarrow> d_fds t = d_fds s) \<and>
    (r > 0 \<longrightarrow> (\<exists>fd. m = Some fd \<and> d_fds s fd = None \<and> d_fds t = (d_fds s)(fd := Some ''/dev/ptmx''))) \<and>
    (r = 0 \<longrightarrow> d_sid t = d_pid t) \<and>
    (r \<ge> 0 \<longrightarrow> (\<exists>master w w' slave. d_fds s master = None \<and> td_ptsname os master w = (Inr slave, w') \<and>
       name = map_option (\<lambda>_. slave) snLen \<and>
       (if r = 0 then \<forall>n. d_fds t n = (if n \<le> 2 then Some slave else d_fds s n) else m = Some master))) \<and>
    (\<forall>n nm. snLen = Some n \<longrightarrow> name = Some nm \<longrightarrow> length nm < n)"
proof -
  obtain q u where q: "ptyMasterOpen os MAX_SNAME s = (q, u)" by fastforce
  note mo = ptyMasterOpen_fds [OF q]
  show ?thesis
  proof (cases q)
    case None
    then show ?thesis using assms q mo by (simp add: ptyFork_def)
  next
    case (Some fn)
    obtain fd slname where fn: "fn = (fd, slname)" by fastforce
    then have u: "d_fds s fd = None" "d_fds u = (d_fds s)(fd := Some ''/dev/ptmx'')" using mo Some by auto
    then have undo: "(d_fds u)(fd := None) = d_fds s" by auto
    obtain cp v where v: "d_fork os u = (cp, v)" by fastforce
    note f = d_fork_fields [OF v]
    have len: "length (strncpy slname n) < n" "strncpy slname n = slname" if "length slname < n" for n using that by (simp_all add: strncpy_def)
    obtain w w' where pn: "td_ptsname os fd w = (Inr slname, w')" using ptyMasterOpen_name q Some fn by blast
    have nm: "name = map_option (\<lambda>_. slname) snLen" if "r \<ge> 0"
      using assms q Some fn v that len by (cases snLen) (auto simp: ptyFork_def Let_def obind_Ret_iff not_le split: if_splits)
    have std: "\<forall>n. d_fds t n = (if n \<le> 2 then Some slname else d_fds s n)" if "r = 0"
      using assms q Some fn v f u that by (auto simp: ptyFork_def Let_def obind_Ret_iff dest!: pty_child_fds split: if_splits)
    have par: "m = Some fd" if "r > 0"
      using assms q Some fn v that by (auto simp: ptyFork_def Let_def obind_Ret_iff dest!: pty_child_fds split: if_splits)
    have "\<exists>master w w' slave. d_fds s master = None \<and> td_ptsname os master w = (Inr slave, w') \<and>
       name = map_option (\<lambda>_. slave) snLen \<and>
       (if r = 0 then \<forall>n. d_fds t n = (if n \<le> 2 then Some slave else d_fds s n) else m = Some master)" if "r \<ge> 0"
      using u(1) pn nm [OF that] std par that by (intro exI [of _ fd] exI [of _ w] exI [of _ w'] exI [of _ slname]) simp
    then show ?thesis
      using assms q Some fn v f u undo len
      by (auto simp: ptyFork_def Let_def obind_Ret_iff not_le dest!: pty_child_fds split: if_splits option.splits)
  qed
qed

section \<open>Daemons\<close>

definition fresh_pids :: "'w d_os \<Rightarrow> bool" where
  "fresh_pids os \<longleftrightarrow> (\<forall>used w. td_pid os used w \<notin> set used)"

lemma d_fork_child: "fresh_pids os \<Longrightarrow> d_fork os s = (0, t) \<Longrightarrow> d_pid t \<notin> {d_pid s, d_pgid s, d_sid s}"
proof -
  assume "fresh_pids os" "d_fork os s = (0, t)"
  moreover from this(1) have "td_pid os [d_pid s, d_pgid s, d_sid s] w \<notin> {d_pid s, d_pgid s, d_sid s}" for w
    by (metis fresh_pids_def list.set(1,2))
  ultimately show ?thesis by (auto simp: d_fork_def split: prod.splits bool.splits if_splits dest!: dcall_fields)
qed

lemma close_all_fields:
  "d_fds (close_all os fds s) = (\<lambda>n. if n \<in> set fds then None else d_fds s n) \<and> d_limit (close_all os fds s) = d_limit s \<and>
   d_pid (close_all os fds s) = d_pid s \<and> d_pgid (close_all os fds s) = d_pgid s \<and> d_sid (close_all os fds s) = d_sid s \<and>
   d_umask (close_all os fds s) = d_umask s \<and> d_cwd (close_all os fds s) = d_cwd s"
  by (induction fds arbitrary: s) auto

definition open_max_is :: "'w d_os \<Rightarrow> int \<Rightarrow> bool" where
  "open_max_is os m \<longleftrightarrow> (\<forall>w. fst (td_open_max os w) = m)"

lemma close_files_fields:
  assumes "open_max_is os m"
  shows "d_fds (close_files os flags s) =
      (\<lambda>n. if flags AND BD_NO_CLOSE_FILES = 0 \<and> int n < (if m = - 1 then BD_MAX_CLOSE else m) then None else d_fds s n)"
    "d_limit (close_files os flags s) = d_limit s" "d_pid (close_files os flags s) = d_pid s" "d_pgid (close_files os flags s) = d_pgid s"
    "d_sid (close_files os flags s) = d_sid s" "d_umask (close_files os flags s) = d_umask s" "d_cwd (close_files os flags s) = d_cwd s"
proof -
  obtain w where w: "td_open_max os (d_kern s) = (m, w)" using assms by (metis open_max_is_def prod.collapse)
  note c = close_all_fields [of os "[0..<nat (if m = - 1 then BD_MAX_CLOSE else m)]" "s\<lparr> d_kern := w \<rparr>"]
  show "d_fds (close_files os flags s) =
      (\<lambda>n. if flags AND BD_NO_CLOSE_FILES = 0 \<and> int n < (if m = - 1 then BD_MAX_CLOSE else m) then None else d_fds s n)"
    "d_limit (close_files os flags s) = d_limit s" "d_pid (close_files os flags s) = d_pid s" "d_pgid (close_files os flags s) = d_pgid s"
    "d_sid (close_files os flags s) = d_sid s" "d_umask (close_files os flags s) = d_umask s" "d_cwd (close_files os flags s) = d_cwd s"
    using w c by (auto simp: close_files_def Let_def zless_nat_eq_int_zless intro!: ext)
qed

lemma reopen_std_fields:
  assumes "reopen_std os flags s = Ret 0 t"
  shows "d_fds t = (if flags AND BD_NO_REOPEN_STD_FDS = 0 then (d_fds s)(0 := Some ''/dev/null'', 1 := Some ''/dev/null'', 2 := Some ''/dev/null'') else d_fds s)"
    "d_pid t = d_pid s" "d_pgid t = d_pgid s" "d_sid t = d_sid s" "d_umask t = d_umask s" "d_cwd t = d_cwd s"
  using assms by (auto simp: reopen_std_def split: if_splits prod.splits bool.splits dest!: d_open_fields d_dup2_fields)

lemma daemon_env_fields:
  "d_fds (daemon_env os flags s) = d_fds s" "d_pid (daemon_env os flags s) = d_pid s" "d_pgid (daemon_env os flags s) = d_pgid s"
  "d_sid (daemon_env os flags s) = d_sid s" "d_umask (daemon_env os flags s) = (if flags AND BD_NO_UMASK0 = 0 then 0 else d_umask s)"
  "d_cwd (daemon_env os flags s) \<in> {''/'', d_cwd s}" "flags AND BD_NO_CHDIR \<noteq> 0 \<Longrightarrow> d_cwd (daemon_env os flags s) = d_cwd s"
  by (auto simp: daemon_env_def Let_def split: prod.splits bool.splits dest!: dcall_fields)

lemma daemon_env_cwd:
  "flags AND BD_NO_CHDIR = 0 \<Longrightarrow> d_cwd (daemon_env os flags s) = ''/''
     \<or> d_cwd (daemon_env os flags s) = d_cwd s \<and> (\<exists>w e w'. td_fails os (D_Chdir ''/'') w = (Some e, w'))"
  by (auto simp: daemon_env_def dcall_def Let_def split: prod.splits option.splits)

text \<open>
  C24. When \<^verbatim>\<open>becomeDaemon()\<close> returns 0, it does so in a process that belongs to a new session without leading it, so that it cannot
  acquire a controlling terminal; the file mode creation mask is cleared unless the flag says otherwise; the working
  directory is the root, unless the flag forbids to change it or \<^verbatim>\<open>chdir()\<close>, whose result is not looked at, failed, and then it is unchanged; the descriptors below the limit that \<^verbatim>\<open>sysconf()\<close> reports are closed
  and the standard descriptors refer to \<^verbatim>\<open>/dev/null\<close>, each unless its flag is set, and no other descriptor changes. The
  processes left behind terminate with status 0, and nothing else terminates.
\<close>

theorem daemon_detached:
  assumes "fresh_pids os" "open_max_is os m"
  shows "(becomeDaemon os flags s = Ret 0 t \<longrightarrow>
      d_sid t \<noteq> d_pid t \<and> d_pgid t \<noteq> d_pid t \<and> d_sid t \<notin> {d_pid s, d_sid s, d_pgid s} \<and>
      d_umask t = (if flags AND BD_NO_UMASK0 = 0 then 0 else d_umask s) \<and>
      (if flags AND BD_NO_CHDIR = 0
       then d_cwd t = ''/'' \<or> d_cwd t = d_cwd s \<and> (\<exists>w e w'. td_fails os (D_Chdir ''/'') w = (Some e, w'))
       else d_cwd t = d_cwd s) \<and>
      (\<forall>n. d_fds t n =
         (if flags AND BD_NO_REOPEN_STD_FDS = 0 \<and> n \<le> 2 then Some ''/dev/null''
          else if flags AND BD_NO_CLOSE_FILES = 0 \<and> int n < (if m = - 1 then BD_MAX_CLOSE else m) then None else d_fds s n))) \<and>
    (becomeDaemon os flags s = Exit c t \<longrightarrow> c = 0) \<and> becomeDaemon os flags s \<noteq> Undef"
proof (intro conjI impI)
  have no_exit: "reopen_std os flags v \<noteq> Exit c t" "reopen_std os flags v \<noteq> Undef" for v
    by (auto simp: reopen_std_def split: prod.splits bool.splits)
  then show "c = 0" if "becomeDaemon os flags s = Exit c t"
    using that by (auto simp: becomeDaemon_def fork_away_def split: prod.splits bool.splits if_splits)
  show "becomeDaemon os flags s \<noteq> Undef"
    using no_exit by (auto simp: becomeDaemon_def fork_away_def split: prod.splits bool.splits)
next
  assume r: "becomeDaemon os flags s = Ret 0 t"
  obtain r1 s1 where f1: "d_fork os s = (r1, s1)" by fastforce
  obtain b s2 where s2: "d_setsid os s1 = (b, s2)" by fastforce
  obtain r3 s3 where f3: "d_fork os s2 = (r3, s3)" by fastforce
  have e: "r1 = 0" "b" "r3 = 0" "reopen_std os flags (close_files os flags (daemon_env os flags s3)) = Ret 0 t"
    using r f1 s2 f3 by (auto simp: becomeDaemon_def fork_away_def split: if_splits bool.splits)
  note c1 = d_fork_fields [OF f1] d_fork_child [OF assms(1) f1 [unfolded e(1)]]
  have c2: "d_pid s2 = d_pid s1" "d_sid s2 = d_pid s1" "d_pgid s2 = d_pid s1" "d_fds s2 = d_fds s1" "d_umask s2 = d_umask s1" "d_cwd s2 = d_cwd s1"
    using d_setsid_fields [of os s1 s2] s2 e(2) by auto
  note c3 = d_fork_fields [OF f3] d_fork_child [OF assms(1) f3 [unfolded e(3)]]
  note close = close_files_fields [OF assms(2)]
  have id: "d_pid t = d_pid s3" "d_pgid t = d_pgid s3" "d_sid t = d_sid s3"
    "d_umask t = (if flags AND BD_NO_UMASK0 = 0 then 0 else d_umask s3)" "d_cwd t = d_cwd (daemon_env os flags s3)"
    by (simp_all add: reopen_std_fields [OF e(4)] close daemon_env_fields(1-5))
  show "d_sid t \<noteq> d_pid t" "d_pgid t \<noteq> d_pid t" "d_sid t \<notin> {d_pid s, d_sid s, d_pgid s}"
    using id(1-3) c1 c2 c3 by auto
  show "d_umask t = (if flags AND BD_NO_UMASK0 = 0 then 0 else d_umask s)" using id(4) c1 c2 c3 by simp
  show "if flags AND BD_NO_CHDIR = 0
       then d_cwd t = ''/'' \<or> d_cwd t = d_cwd s \<and> (\<exists>w e w'. td_fails os (D_Chdir ''/'') w = (Some e, w'))
       else d_cwd t = d_cwd s"
    using id(5) daemon_env_fields(7) [of flags os s3] daemon_env_cwd [of flags os s3] c1 c2 c3 by auto
  have fd: "d_fds t = (if flags AND BD_NO_REOPEN_STD_FDS = 0
       then (d_fds (close_files os flags (daemon_env os flags s3)))(0 := Some ''/dev/null'', 1 := Some ''/dev/null'', 2 := Some ''/dev/null'')
       else d_fds (close_files os flags (daemon_env os flags s3)))"
    by (rule reopen_std_fields(1) [OF e(4)])
  have s3: "d_fds s3 = d_fds s" using c1 c2 c3 by simp
  show "\<forall>n. d_fds t n =
         (if flags AND BD_NO_REOPEN_STD_FDS = 0 \<and> n \<le> 2 then Some ''/dev/null''
          else if flags AND BD_NO_CLOSE_FILES = 0 \<and> int n < (if m = - 1 then BD_MAX_CLOSE else m) then None else d_fds s n)"
  proof
    fix n :: nat
    consider "n = 0" | "n = 1" | "n = 2" | "n > 2" by linarith
    then show "d_fds t n =
         (if flags AND BD_NO_REOPEN_STD_FDS = 0 \<and> n \<le> 2 then Some ''/dev/null''
          else if flags AND BD_NO_CLOSE_FILES = 0 \<and> int n < (if m = - 1 then BD_MAX_CLOSE else m) then None else d_fds s n)"
      by cases (simp_all add: fd close(1) daemon_env_fields(1) s3)
  qed
qed

text \<open>A process that has the descriptors 0 to 3 open; the kernel lets everything succeed, and we follow the child of each fork.\<close>

definition d_demo :: "bool \<Rightarrow> unit d_os" where
  "d_demo child =
     \<lparr> td_fails = (\<lambda>_ _. (None, ())), td_fork = (\<lambda>_. (if child then 0 else 500, ())), td_pid = (\<lambda>used _. Suc (sum_list used)),
       td_ptsname = (\<lambda>_ _. (Inr ''/dev/pts/7'', ())), td_open_max = (\<lambda>_. (8, ())) \<rparr>"

definition d_start :: "unit dproc" where
  "d_start =
     \<lparr> d_pid = 10, d_pgid = 10, d_sid = 4, d_umask = 18, d_cwd = ''/home'', d_fds = (\<lambda>n. if n \<le> 3 then Some ''/dev/tty1'' else None),
       d_limit = 8, d_errno = EOTHER 0, d_kern = () \<rparr>"

lemma sum_list_ge: "x \<in> set xs \<Longrightarrow> x \<le> sum_list (xs :: nat list)"
  by (induction xs) auto

theorem daemon_detached_witness:
  "\<exists>t. becomeDaemon (d_demo True) 0 d_start = Ret 0 t \<and> d_sid t \<noteq> d_pid t \<and> d_fds t 3 = None \<and> d_fds t 1 = Some ''/dev/null'' \<and> d_cwd t = ''/''"
proof -
  have f: "fresh_pids (d_demo True)" by (auto simp: fresh_pids_def d_demo_def dest: sum_list_ge)
  have m: "open_max_is (d_demo True) 8" by (simp add: open_max_is_def d_demo_def)
  have "(case becomeDaemon (d_demo True) 0 d_start of Ret r t \<Rightarrow> r = 0 | _ \<Rightarrow> False)" by code_simp
  then obtain t where t: "becomeDaemon (d_demo True) 0 d_start = Ret 0 t" by (auto split: outcome.splits)
  show ?thesis using daemon_detached [OF f m, of 0 d_start t] t by (auto simp: d_demo_def)
qed

theorem ptyFork_descriptors_witness:
  "\<exists>t name u. ptyFork (d_demo False) (Some 100) True True d_start = Ret (500, Some 4, name) t \<and> d_fds t = (d_fds d_start)(4 := Some ''/dev/ptmx'')
     \<and> ptyFork (d_demo True) (Some 100) True True d_start = Ret (0, None, Some ''/dev/pts/7'') u \<and> d_fds u 1 = Some ''/dev/pts/7'' \<and> d_fds u 4 = None"
proof -
  have "(case ptyFork (d_demo False) (Some 100) True True d_start of Ret (r, m, nm) t \<Rightarrow> r = 500 \<and> m = Some 4 | _ \<Rightarrow> False)" by code_simp
  then obtain nm t where t: "ptyFork (d_demo False) (Some 100) True True d_start = Ret (500, Some 4, nm) t"
    by (auto split: outcome.splits)
  have "(case ptyFork (d_demo True) (Some 100) True True d_start of Ret (r, m, nm) t \<Rightarrow> r = 0 \<and> m = None | _ \<Rightarrow> False)" by code_simp
  then obtain nm' u where u: "ptyFork (d_demo True) (Some 100) True True d_start = Ret (0, None, nm') u"
    by (auto split: outcome.splits)
  have "nm' = Some ''/dev/pts/7'' \<and> d_fds u 1 = Some ''/dev/pts/7'' \<and> d_fds u 4 = None"
    using ptyFork_descriptors [OF u] by (auto simp: d_demo_def d_start_def)
  with ptyFork_descriptors [OF t] t u show ?thesis by auto
qed

text \<open>Descriptors at or above the limit, which can be open when the limit was lowered, stay open.\<close>

lemma high_descriptor_stays:
  "case becomeDaemon (d_demo True) 0 (d_start\<lparr> d_fds := (d_fds d_start)(9 := Some ''secret'') \<rparr>) of Ret r t \<Rightarrow> r = 0 \<and> d_fds t 9 = Some ''secret'' | _ \<Rightarrow> False"
  by code_simp

end
