(* ===== verification/Script_Relay.thy ===== *)
theory Script_Relay
  imports Daemon_Pty
begin

text \<open>
  The terminal modes of \<^verbatim>\<open>tty/tty_functions.c\<close>, and the programs \<^verbatim>\<open>pty/script.c\<close> and \<^verbatim>\<open>pty/unbuffer.c\<close>, which put the terminal into
  raw mode, connect a child to it through a pseudoterminal and relay what either side writes; \<^verbatim>\<open>script\<close> keeps a copy.
  The attributes of the terminal are explicit; reads, writes and \<^verbatim>\<open>select()\<close> are arguments, and what was read and
  written is recorded.
\<close>

section \<open>Terminal attributes\<close>

record termios =
  c_iflag :: "32 word"
  c_oflag :: "32 word"
  c_lflag :: "32 word"
  c_cc :: "nat \<Rightarrow> nat"

definition IGNBRK :: "32 word" where "IGNBRK = 1"
definition BRKINT :: "32 word" where "BRKINT = 2"
definition PARMRK :: "32 word" where "PARMRK = 8"
definition INPCK :: "32 word" where "INPCK = 16"
definition ISTRIP :: "32 word" where "ISTRIP = 32"
definition INLCR :: "32 word" where "INLCR = 64"
definition IGNCR :: "32 word" where "IGNCR = 128"
definition ICRNL :: "32 word" where "ICRNL = 256"
definition IXON :: "32 word" where "IXON = 1024"
definition OPOST :: "32 word" where "OPOST = 1"
definition ISIG :: "32 word" where "ISIG = 1"
definition ICANON :: "32 word" where "ICANON = 2"
definition ECHO :: "32 word" where "ECHO = 8"
definition IEXTEN :: "32 word" where "IEXTEN = 32768"
definition VTIME :: nat where "VTIME = 5"
definition VMIN :: nat where "VMIN = 6"

lemmas tty_flags = IGNBRK_def BRKINT_def PARMRK_def INPCK_def ISTRIP_def INLCR_def IGNCR_def ICRNL_def IXON_def OPOST_def ISIG_def
  ICANON_def ECHO_def IEXTEN_def

definition cbreak_mode :: "termios \<Rightarrow> termios" where
  "cbreak_mode t =
     t\<lparr> c_lflag := (c_lflag t AND NOT (ICANON OR ECHO)) OR ISIG, c_iflag := c_iflag t AND NOT ICRNL,
        c_cc := (c_cc t)(VMIN := 1, VTIME := 0) \<rparr>"

definition raw_mode :: "termios \<Rightarrow> termios" where
  "raw_mode t =
     t\<lparr> c_lflag := c_lflag t AND NOT (ICANON OR ISIG OR IEXTEN OR ECHO),
        c_iflag := c_iflag t AND NOT (BRKINT OR ICRNL OR IGNBRK OR IGNCR OR INLCR OR INPCK OR ISTRIP OR IXON OR PARMRK),
        c_oflag := c_oflag t AND NOT OPOST, c_cc := (c_cc t)(VMIN := 1, VTIME := 0) \<rparr>"

text \<open>\<open>get\<close> and \<open>set\<close> tell whether \<^verbatim>\<open>tcgetattr()\<close> and \<^verbatim>\<open>tcsetattr()\<close> succeed. The result is that of the function, what it stores through
  \<^verbatim>\<open>prevTermios\<close>, and the attributes of the terminal.\<close>

definition tty_set :: "(termios \<Rightarrow> termios) \<Rightarrow> bool \<Rightarrow> bool \<Rightarrow> termios \<Rightarrow> int \<times> termios option \<times> termios" where
  "tty_set mode get set' t = (if \<not> get then (- 1, None, t) else if set' then (0, Some t, mode t) else (- 1, Some t, t))"

definition ttySetCbreak :: "bool \<Rightarrow> bool \<Rightarrow> termios \<Rightarrow> int \<times> termios option \<times> termios" where
  "ttySetCbreak get set' t = tty_set cbreak_mode get set' t"

definition ttySetRaw :: "bool \<Rightarrow> bool \<Rightarrow> termios \<Rightarrow> int \<times> termios option \<times> termios" where
  "ttySetRaw get set' t = tty_set raw_mode get set' t"

text \<open>What the two modes are for: input character by character without echo; in raw mode no character has an effect
  of its own, in cbreak mode the signal characters have.\<close>

lemma tty_modes:
  "c_lflag (raw_mode t) AND (ICANON OR ISIG OR IEXTEN OR ECHO) = 0" "c_oflag (raw_mode t) AND OPOST = 0"
  "c_lflag (cbreak_mode t) AND (ICANON OR ECHO) = 0" "c_lflag (cbreak_mode t) AND ISIG = ISIG"
  "c_cc (raw_mode t) VMIN = 1" "c_cc (cbreak_mode t) VMIN = 1" "raw_mode (raw_mode t) = raw_mode t"
proof -
  have a: "(f AND NOT m) AND m = 0" "(f AND NOT m) AND NOT m = f AND NOT m" "(f OR m) AND m = m" for f m :: "32 word"
    by (auto intro!: bit_eqI simp: bit_and_iff bit_or_iff bit_not_iff)
  have i: "ISIG AND (ICANON OR ECHO) = 0" by (simp add: tty_flags)
  have d: "(f OR m) AND n = (f AND n) OR (m AND n)" for f m n :: "32 word" by (rule bit.conj_disj_distrib2)
  show "c_lflag (raw_mode t) AND (ICANON OR ISIG OR IEXTEN OR ECHO) = 0" "c_oflag (raw_mode t) AND OPOST = 0"
    "c_lflag (cbreak_mode t) AND (ICANON OR ECHO) = 0" "c_lflag (cbreak_mode t) AND ISIG = ISIG"
    "c_cc (raw_mode t) VMIN = 1" "c_cc (cbreak_mode t) VMIN = 1" "raw_mode (raw_mode t) = raw_mode t"
    by (simp_all add: raw_mode_def cbreak_mode_def a i d VMIN_def VTIME_def del: bit.de_Morgan_disj bit.conj_disj_distrib bit.conj_disj_distrib2)
qed

section \<open>The relay\<close>

definition RELAY_BUF_SIZE :: nat where "RELAY_BUF_SIZE = 256"

text \<open>The streams that are read and written. \<open>sc_select\<close> gives whether terminal and master are ready.\<close>

datatype side = Terminal | Master | Typescript

datatype sc_call = Sc_Tcgetattr | Sc_Tcsetattr | Sc_Winsize | Sc_Open cstring | Sc_Atexit

record 'w sc_os =
  sc_ok :: "sc_call \<Rightarrow> 'w \<Rightarrow> bool \<times> 'w"
  sc_select :: "'w \<Rightarrow> (bool \<times> bool) option \<times> 'w"
  sc_read :: "side \<Rightarrow> nat \<Rightarrow> 'w \<Rightarrow> (errno + cstring) \<times> 'w"
  sc_write :: "side \<Rightarrow> cstring \<Rightarrow> 'w \<Rightarrow> (errno + nat) \<times> 'w"

record ('w, 'd) script =
  sc_term :: termios
  ttyOrig :: termios
  reset_set :: bool
  sc_dumpcore :: bool
  sc_proc :: "'d dproc"
  got_from :: "side \<Rightarrow> cstring"
  put_to :: "side \<Rightarrow> cstring"
  sc_kern :: 'w

definition sccall :: "'w sc_os \<Rightarrow> sc_call \<Rightarrow> ('w, 'd) script \<Rightarrow> bool \<times> ('w, 'd) script" where
  "sccall os c s = (case sc_ok os c (sc_kern s) of (ok, w) \<Rightarrow> (ok, s\<lparr> sc_kern := w \<rparr>))"

text \<open>The exit handler, and \<^verbatim>\<open>exit()\<close> and the error functions, which run it unless they dump core.\<close>

definition ttyReset :: "'w sc_os \<Rightarrow> ('w, 'd) script \<Rightarrow> ('w, 'd) script" where
  "ttyReset os s = (case sccall os Sc_Tcsetattr s of (ok, s) \<Rightarrow> if ok then s\<lparr> sc_term := ttyOrig s \<rparr> else s)"

definition sc_exit :: "'w sc_os \<Rightarrow> int \<Rightarrow> ('w, 'd) script \<Rightarrow> ('a, ('w, 'd) script) outcome" where
  "sc_exit os status s = Exit status (if reset_set s then ttyReset os s else s)"

definition sc_fatal :: "'w sc_os \<Rightarrow> ('w, 'd) script \<Rightarrow> ('a, ('w, 'd) script) outcome" where
  "sc_fatal os s = (if sc_dumpcore s then Abort s else sc_exit os EXIT_FAILURE s)"

definition relay_read :: "'w sc_os \<Rightarrow> side \<Rightarrow> ('w, 'd) script \<Rightarrow> (cstring, ('w, 'd) script) outcome" where
  "relay_read os a s =
     (case sc_read os a RELAY_BUF_SIZE (sc_kern s) of
        (Inl e, w) \<Rightarrow> sc_exit os EXIT_SUCCESS (s\<lparr> sc_kern := w \<rparr>)
      | (Inr bs, w) \<Rightarrow>
          if bs = [] then sc_exit os EXIT_SUCCESS (s\<lparr> sc_kern := w \<rparr>)
          else Ret bs (s\<lparr> sc_kern := w, got_from := (got_from s)(a := got_from s a @ bs) \<rparr>))"

definition relay_write :: "'w sc_os \<Rightarrow> side \<Rightarrow> cstring \<Rightarrow> ('w, 'd) script \<Rightarrow> (unit, ('w, 'd) script) outcome" where
  "relay_write os b bs s =
     (case sc_write os b bs (sc_kern s) of
        (Inl e, w) \<Rightarrow> sc_fatal os (s\<lparr> sc_kern := w \<rparr>)
      | (Inr n, w) \<Rightarrow>
          let s = s\<lparr> sc_kern := w, put_to := (put_to s)(b := put_to s b @ take n bs) \<rparr>
          in if n \<noteq> length bs then sc_fatal os s else Ret () s)"

text \<open>A turn of the loop; \<open>copies\<close> are the places the output of the child goes to.\<close>

definition relay_turn :: "'w sc_os \<Rightarrow> side list \<Rightarrow> ('w, 'd) script \<Rightarrow> (unit, ('w, 'd) script) outcome" where
  "relay_turn os copies s =
     (case sc_select os (sc_kern s) of
        (None, w) \<Rightarrow> sc_fatal os (s\<lparr> sc_kern := w \<rparr>)
      | (Some (from_term, from_master), w) \<Rightarrow>
          obind (if from_term then obind (relay_read os Terminal (s\<lparr> sc_kern := w \<rparr>)) (relay_write os Master)
                 else Ret () (s\<lparr> sc_kern := w \<rparr>)) (\<lambda>_ s.
            if from_master then
              obind (relay_read os Master s) (\<lambda>bs s. ofold (\<lambda>b s. relay_write os b bs s) copies s)
            else Ret () s))"

definition script_turn :: "'w sc_os \<Rightarrow> ('w, 'd) script \<Rightarrow> (unit, ('w, 'd) script) outcome" where
  "script_turn os s = relay_turn os [Terminal, Typescript] s"

definition unbuffer_turn :: "'w sc_os \<Rightarrow> ('w, 'd) script \<Rightarrow> (unit, ('w, 'd) script) outcome" where
  "unbuffer_turn os s = relay_turn os [Terminal] s"

fun relay_loop :: "nat \<Rightarrow> (('w, 'd) script \<Rightarrow> (unit, ('w, 'd) script) outcome) \<Rightarrow> ('w, 'd) script \<Rightarrow> (unit, ('w, 'd) script) outcome" where
  "relay_loop 0 turn s = Ret () s"
| "relay_loop (Suc turns) turn s = obind (turn s) (\<lambda>_ s. relay_loop turns turn s)"

section \<open>The programs\<close>

definition sc_must :: "'w sc_os \<Rightarrow> sc_call \<Rightarrow> ('w, 'd) script \<Rightarrow> (unit, ('w, 'd) script) outcome" where
  "sc_must os c s = (case sccall os c s of (ok, s) \<Rightarrow> if ok then Ret () s else sc_fatal os s)"

text \<open>The attributes of the terminal are read and the child is forked; the result is true in the parent.\<close>

definition script_fork :: "'w sc_os \<Rightarrow> 'd d_os \<Rightarrow> ('w, 'd) script \<Rightarrow> (bool, ('w, 'd) script) outcome" where
  "script_fork os ds s =
     obind (sc_must os Sc_Tcgetattr s) (\<lambda>_ s.
     let s = s\<lparr> ttyOrig := sc_term s \<rparr> in
     obind (sc_must os Sc_Winsize s) (\<lambda>_ s.
       case ptyFork ds (Some MAX_SNAME) True True (sc_proc s) of
         Ret (r, m, name) p \<Rightarrow> if r = - 1 then sc_fatal os (s\<lparr> sc_proc := p \<rparr>) else Ret (r \<noteq> 0) (s\<lparr> sc_proc := p \<rparr>)
       | Exit c p \<Rightarrow> Exit c (s\<lparr> sc_proc := p \<rparr>)
       | Abort p \<Rightarrow> Abort (s\<lparr> sc_proc := p \<rparr>)
       | Undef \<Rightarrow> Undef))"

text \<open>The shell that the child of \<^verbatim>\<open>script\<close> runs.\<close>

definition script_shell :: "cstring option \<Rightarrow> cstring" where
  "script_shell shell = (case shell of None \<Rightarrow> ''/bin/sh'' | Some sh \<Rightarrow> if cchar sh 0 = NUL then ''/bin/sh'' else sh)"

text \<open>The parent up to the loop. The result of \<^verbatim>\<open>ttySetRaw()\<close> is not looked at.\<close>

definition relay_setup :: "'w sc_os \<Rightarrow> ('w, 'd) script \<Rightarrow> (unit, ('w, 'd) script) outcome" where
  "relay_setup os s =
     (case sccall os Sc_Tcgetattr s of
        (get, s) \<Rightarrow>
          (case (if get then sccall os Sc_Tcsetattr s else (False, s)) of
             (set', s) \<Rightarrow>
               (case ttySetRaw get set' (sc_term s) of
                  (_, prev, term') \<Rightarrow>
                    let s = s\<lparr> ttyOrig := (case prev of None \<Rightarrow> ttyOrig s | Some t \<Rightarrow> t), sc_term := term' \<rparr>
                    in (case sccall os Sc_Atexit s of (ok, s) \<Rightarrow> if ok then Ret () (s\<lparr> reset_set := True \<rparr>) else sc_fatal os s))))"

definition script_parent :: "nat \<Rightarrow> 'w sc_os \<Rightarrow> cstring list \<Rightarrow> ('w, 'd) script \<Rightarrow> (unit, ('w, 'd) script) outcome" where
  "script_parent turns os args s =
     obind (sc_must os (Sc_Open (if args \<noteq> [] then hd args else ''typescript'')) s) (\<lambda>_ s.
     obind (relay_setup os s) (\<lambda>_ s. relay_loop turns (script_turn os) s))"

definition unbuffer_parent :: "nat \<Rightarrow> 'w sc_os \<Rightarrow> ('w, 'd) script \<Rightarrow> (unit, ('w, 'd) script) outcome" where
  "unbuffer_parent turns os s = obind (relay_setup os s) (\<lambda>_ s. relay_loop turns (unbuffer_turn os) s)"

section \<open>What is relayed\<close>

type_synonym traffic = "side \<Rightarrow> cstring"

definition ahead :: "cstring \<Rightarrow> cstring \<Rightarrow> bool" where
  "ahead x y \<longleftrightarrow> take (length y) x = y"

lemma ahead_append [simp]: "ahead (x @ y) x" "ahead x x" "ahead (x @ y) (x @ take n y)"
  by (simp_all add: ahead_def)

text \<open>Everything is relayed; or, when the program ended in the middle of a turn, what was relayed are the first bytes that were
  read, and the copy has the first bytes of what went to the terminal.\<close>

definition relayed :: "traffic \<Rightarrow> traffic \<Rightarrow> bool" where
  "relayed g p \<longleftrightarrow> p Master = g Terminal \<and> p Terminal = g Master \<and> p Typescript = g Master"

definition partly :: "traffic \<Rightarrow> traffic \<Rightarrow> bool" where
  "partly g p \<longleftrightarrow> ahead (g Terminal) (p Master) \<and> ahead (g Master) (p Terminal) \<and> ahead (p Terminal) (p Typescript)"

definition relay_ok :: "('a \<Rightarrow> traffic \<Rightarrow> traffic \<Rightarrow> bool) \<Rightarrow> (traffic \<Rightarrow> traffic \<Rightarrow> bool) \<Rightarrow> ('a, ('w, 'd) script) outcome \<Rightarrow> bool" where
  "relay_ok E L r =
     (case r of Ret a t \<Rightarrow> E a (got_from t) (put_to t) | Exit _ t \<Rightarrow> L (got_from t) (put_to t) | Abort t \<Rightarrow> L (got_from t) (put_to t) | Undef \<Rightarrow> False)"

lemma relay_ok_Ret [simp]: "relay_ok E L (Ret a t) = E a (got_from t) (put_to t)"
  by (simp add: relay_ok_def)

lemma relay_ok_obind:
  "relay_ok E L m \<Longrightarrow> (\<And>a s. E a (got_from s) (put_to s) \<Longrightarrow> relay_ok E' L (f a s)) \<Longrightarrow> relay_ok E' L (obind m f)"
  by (cases m) (auto simp: relay_ok_def)

lemma sccall_fields: "sccall os c s = (ok, t) \<Longrightarrow> t = s\<lparr> sc_kern := sc_kern t \<rparr>"
  by (auto simp: sccall_def split: prod.splits)

lemma sccall_traffic: "sccall os c s = (ok, t) \<Longrightarrow> got_from t = got_from s \<and> put_to t = put_to s"
  by (auto simp: sccall_def split: prod.splits)

lemma ttyReset_traffic [simp]: "got_from (ttyReset os s) = got_from s" "put_to (ttyReset os s) = put_to s"
  by (auto simp: ttyReset_def split: prod.splits dest!: sccall_traffic)

lemma relay_ok_exit [simp]: "relay_ok E L (sc_exit os c s) = L (got_from s) (put_to s)"
  by (simp add: sc_exit_def relay_ok_def)

lemma relay_ok_fatal [simp]: "relay_ok E L (sc_fatal os s) = L (got_from s) (put_to s)"
  by (simp add: sc_fatal_def) (simp add: relay_ok_def)

lemma relayed_partly: "relayed g p \<Longrightarrow> partly g p"
  by (simp add: relayed_def partly_def)

lemma read_ok:
  assumes "L (got_from s) (put_to s)" "\<And>bs. E bs ((got_from s)(a := got_from s a @ bs)) (put_to s)"
  shows "relay_ok E L (relay_read os a s)"
  using assms by (simp add: relay_read_def split: prod.splits sum.splits)

lemma write_ok:
  assumes "L (got_from s) (put_to s)" "\<And>n. L (got_from s) ((put_to s)(b := put_to s b @ take n bs))"
    "E () (got_from s) ((put_to s)(b := put_to s b @ bs))"
  shows "relay_ok E L (relay_write os b bs s)"
  using assms by (simp add: relay_write_def Let_def split: prod.splits sum.splits)

lemma ofold_two: "ofold f [a, b] s = obind (f a s) (\<lambda>_ s. obind (f b s) (\<lambda>_ s. Ret () s))"
proof -
  have e: "(\<lambda>_ :: unit. ofold f []) = (\<lambda>_. Ret ())" by (intro ext) simp
  have "ofold f [b] = (\<lambda>s. obind (f b s) (\<lambda>_ s. Ret () s))" by (intro ext) (simp add: e)
  then show ?thesis by simp
qed

lemma script_turn_ok:
  assumes "relayed (got_from s) (put_to s)"
  shows "relay_ok (\<lambda>_. relayed) partly (script_turn os s)"
proof -
  let ?T = "\<lambda>bs g p. g Terminal = p Master @ bs \<and> p Terminal = g Master \<and> p Typescript = g Master"
  let ?M = "\<lambda>bs g p. p Master = g Terminal \<and> g Master = p Terminal @ bs \<and> p Typescript = p Terminal"
  let ?N = "\<lambda>bs g p. p Master = g Terminal \<and> g Master = p Terminal \<and> p Terminal = p Typescript @ bs"
  have tr: "relay_ok (\<lambda>_. relayed) partly (obind (relay_read os Terminal u) (relay_write os Master))"
    if "relayed (got_from u) (put_to u)" for u :: "('a, 'b) script"
    by (rule relay_ok_obind [where E = ?T], rule read_ok, use that in \<open>auto simp: relayed_def partly_def\<close>)
      (rule write_ok, auto simp: relayed_def partly_def)
  have mast: "relay_ok (\<lambda>_. relayed) partly (obind (relay_read os Master u) (\<lambda>bs s. ofold (\<lambda>b s. relay_write os b bs s) [Terminal, Typescript] s))"
    if "relayed (got_from u) (put_to u)" for u :: "('a, 'b) script"
  proof (rule relay_ok_obind [where E = ?M], rule read_ok)
    fix bs and v :: "('a, 'b) script"
    assume "?M bs (got_from v) (put_to v)"
    then have "relay_ok (\<lambda>_. ?N bs) partly (relay_write os Terminal bs v)"
      by (intro write_ok) (auto simp: partly_def)
    moreover have "relay_ok (\<lambda>_. relayed) partly (obind (relay_write os Typescript bs x) (\<lambda>_ s. Ret () s))"
      if "?N bs (got_from x) (put_to x)" for x :: "('a, 'b) script"
      by (rule relay_ok_obind [where E = "\<lambda>_. relayed"], rule write_ok, use that in \<open>auto simp: relayed_def partly_def\<close>)
    ultimately have "relay_ok (\<lambda>_. relayed) partly (obind (relay_write os Terminal bs v) (\<lambda>_ x. obind (relay_write os Typescript bs x) (\<lambda>_ s. Ret () s)))"
      by (rule relay_ok_obind)
    then show "relay_ok (\<lambda>_. relayed) partly (ofold (\<lambda>b s. relay_write os b bs s) [Terminal, Typescript] v)" by (subst ofold_two)
  qed (use that in \<open>auto simp: relayed_def partly_def\<close>)
  show ?thesis
    unfolding script_turn_def relay_turn_def
    using assms relayed_partly [OF assms]
    by (auto split: prod.splits option.splits intro!: relay_ok_obind [where E = "\<lambda>_. relayed"] tr mast simp del: ofold.simps)
qed

lemma relay_loop_ok:
  assumes "\<And>s. relayed (got_from s) (put_to s) \<Longrightarrow> relay_ok (\<lambda>_. relayed) partly (turn s)"
  shows "relayed (got_from s) (put_to s) \<Longrightarrow> relay_ok (\<lambda>_. relayed) partly (relay_loop turns turn s)"
  by (induction turns arbitrary: s) (auto intro!: relay_ok_obind [where E = "\<lambda>_. relayed"] assms)

lemma setup_traffic:
  assumes "relayed (got_from s) (put_to s)"
  shows "relay_ok (\<lambda>_. relayed) partly (sc_must os c s)" "relay_ok (\<lambda>_. relayed) partly (relay_setup os s)"
  using assms relayed_partly [OF assms]
  by (auto simp: sc_must_def relay_setup_def Let_def split: prod.splits if_splits dest!: sccall_traffic)

section \<open>The terminal is restored\<close>

definition call_works :: "'w sc_os \<Rightarrow> sc_call \<Rightarrow> bool" where
  "call_works os c \<longleftrightarrow> (\<forall>w. fst (sc_ok os c w))"

definition keeps_term :: "termios \<Rightarrow> ('w, 'd) script \<Rightarrow> bool" where
  "keeps_term T s \<longleftrightarrow> ttyOrig s = T \<and> (reset_set s \<or> sc_term s = T)"

text \<open>Where the process ends through \<^verbatim>\<open>exit()\<close> the terminal is as it was.\<close>

definition term_ok :: "termios \<Rightarrow> ('a, ('w, 'd) script) outcome \<Rightarrow> bool" where
  "term_ok T r = (case r of Ret _ t \<Rightarrow> keeps_term T t | Exit _ t \<Rightarrow> sc_term t = T | Abort t \<Rightarrow> True | Undef \<Rightarrow> False)"

lemma term_ok_Ret [simp]: "term_ok T (Ret a s) = keeps_term T s"
  by (simp add: term_ok_def)

lemma term_ok_Abort [simp]: "term_ok T (Abort s)"
  by (simp add: term_ok_def)

lemma term_ok_obind: "term_ok T m \<Longrightarrow> (\<And>a s. keeps_term T s \<Longrightarrow> term_ok T (f a s)) \<Longrightarrow> term_ok T (obind m f)"
  by (cases m) (auto simp: term_ok_def)

lemma call_works_sccall: "call_works os c \<Longrightarrow> fst (sccall os c s)"
  by (auto simp: call_works_def sccall_def split: prod.splits) (metis fst_conv)

lemma sccall_keeps: "sccall os c s = (ok, t) \<Longrightarrow> keeps_term T t = keeps_term T s \<and> sc_term t = sc_term s \<and> ttyOrig t = ttyOrig s \<and> reset_set t = reset_set s"
  by (auto simp: sccall_def keeps_term_def split: prod.splits)

lemma term_ok_exit: "call_works os Sc_Tcsetattr \<Longrightarrow> keeps_term T s \<Longrightarrow> term_ok T (sc_exit os c s)"
  using call_works_sccall [of os Sc_Tcsetattr s]
  by (auto simp: sc_exit_def term_ok_def ttyReset_def keeps_term_def split: prod.splits dest: sccall_keeps [of _ _ _ _ _ T])

lemma term_ok_fatal: "call_works os Sc_Tcsetattr \<Longrightarrow> keeps_term T s \<Longrightarrow> term_ok T (sc_fatal os s)"
  by (simp add: sc_fatal_def term_ok_exit)

lemma obind_fatal [simp]: "obind (sc_fatal os s) f = sc_fatal os s"
  by (simp add: sc_fatal_def sc_exit_def)

lemma keeps_term_simps [simp]:
  "keeps_term T (s\<lparr> sc_kern := w \<rparr>) = keeps_term T s" "keeps_term T (s\<lparr> got_from := g \<rparr>) = keeps_term T s"
  "keeps_term T (s\<lparr> put_to := g \<rparr>) = keeps_term T s"
  by (simp_all add: keeps_term_def)

lemma relay_turn_term:
  assumes "call_works os Sc_Tcsetattr" "keeps_term T s"
  shows "term_ok T (relay_turn os copies s)"
proof -
  have r: "term_ok T (relay_read os a u)" if "keeps_term T u" for a and u :: "('a, 'b) script"
    using that assms(1) by (auto simp: relay_read_def term_ok_exit split: prod.splits sum.splits)
  have w: "term_ok T (relay_write os b bs u)" if "keeps_term T u" for b bs and u :: "('a, 'b) script"
    using that assms(1) by (auto simp: relay_write_def term_ok_fatal Let_def split: prod.splits sum.splits)
  have f: "term_ok T (ofold (\<lambda>b s. relay_write os b bs s) cs u)" if "keeps_term T u" for bs cs and u :: "('a, 'b) script"
    using that by (induction cs arbitrary: u) (auto intro!: term_ok_obind w)
  show ?thesis using assms unfolding relay_turn_def
    by (auto simp: term_ok_fatal split: prod.splits option.splits intro!: term_ok_obind r w f)
qed

lemma relay_loop_term:
  "(\<And>s. keeps_term T s \<Longrightarrow> term_ok T (turn s)) \<Longrightarrow> keeps_term T s \<Longrightarrow> term_ok T (relay_loop turns turn s)"
  by (induction turns arbitrary: s) (auto intro!: term_ok_obind)

lemma relay_setup_term:
  assumes "call_works os Sc_Tcsetattr" "call_works os Sc_Atexit" "ttyOrig s = T" "sc_term s = T"
  shows "term_ok T (relay_setup os s)"
proof -
  obtain get s1 where g: "sccall os Sc_Tcgetattr s = (get, s1)" by fastforce
  obtain set' s2 where st: "(if get then sccall os Sc_Tcsetattr s1 else (False, s1)) = (set', s2)" by fastforce
  have e: "ttyOrig s2 = T" "sc_term s2 = T"
    using sccall_keeps [OF g, of T] st assms(3,4) by (auto split: if_splits dest!: sccall_keeps [of _ _ _ _ _ T])
  obtain r prev t' where p: "ttySetRaw get set' (sc_term s2) = (r, prev, t')" by (metis prod_cases3)
  let ?u = "s2\<lparr> ttyOrig := (case prev of None \<Rightarrow> ttyOrig s2 | Some t \<Rightarrow> t), sc_term := t' \<rparr>"
  have o: "ttyOrig ?u = T" using p e by (auto simp: ttySetRaw_def tty_set_def split: if_splits)
  obtain ok s3 where a: "sccall os Sc_Atexit ?u = (ok, s3)" by fastforce
  then have "ok" using call_works_sccall [OF assms(2), of ?u] by simp
  moreover have "ttyOrig s3 = T" using sccall_keeps [OF a, of T] o by simp
  ultimately show ?thesis unfolding relay_setup_def g using st p a by (simp add: Let_def keeps_term_def)
qed

text \<open>
  C25. For a run of \<^verbatim>\<open>script\<close> over any number of turns, whatever fails and however reads and writes are split: as long as it runs,
  what was typed has gone to the child, and what the child wrote has gone to the terminal and to the typescript,
  byte for byte and in order; when it ended in the middle of a turn, what was relayed are the first bytes of what
  was read and the typescript has the first bytes of what went to the terminal. When it ends through \<^verbatim>\<open>exit()\<close> the attributes of
  the terminal are those it had, provided that they can be set and \<^verbatim>\<open>atexit()\<close> works.
\<close>

theorem script_transcript:
  assumes "relayed (got_from s) (put_to s)" "call_works os Sc_Tcsetattr" "call_works os Sc_Atexit"
    "ttyOrig s = sc_term s" "\<not> reset_set s"
  shows "case script_parent turns os args s of
      Ret _ t \<Rightarrow> put_to t Master = got_from t Terminal \<and> put_to t Terminal = got_from t Master \<and> put_to t Typescript = got_from t Master
    | Exit _ t \<Rightarrow> partly (got_from t) (put_to t) \<and> sc_term t = sc_term s
    | Abort t \<Rightarrow> partly (got_from t) (put_to t)
    | Undef \<Rightarrow> False"
proof -
  let ?T = "sc_term s"
  have "relay_ok (\<lambda>_. relayed) partly (script_parent turns os args s)"
    unfolding script_parent_def
    by (intro relay_ok_obind [where E = "\<lambda>_. relayed"] setup_traffic relay_loop_ok script_turn_ok assms(1))
  moreover have "term_ok ?T (script_parent turns os args s)"
  proof -
    obtain ok u where u: "sccall os (Sc_Open (if args \<noteq> [] then hd args else ''typescript'')) s = (ok, u)" by fastforce
    have k: "keeps_term ?T u" "ttyOrig u = ?T" "sc_term u = ?T"
      using sccall_keeps [OF u, of ?T] assms(4) by (auto simp: keeps_term_def)
    have "term_ok ?T (obind (relay_setup os u) (\<lambda>_ s. relay_loop turns (script_turn os) s))"
      using relay_setup_term [OF assms(2,3) k(2,3)]
      by (rule term_ok_obind) (simp add: script_turn_def relay_loop_term relay_turn_term [OF assms(2)])
    then show ?thesis using u k(1) assms(2) by (simp add: script_parent_def sc_must_def term_ok_fatal)
  qed
  ultimately show ?thesis
    by (cases "script_parent turns os args s") (auto simp: relay_ok_def term_ok_def relayed_def)
qed

text \<open>The child writes one line and ends.\<close>

definition sc_demo :: "nat sc_os" where
  "sc_demo =
     \<lparr> sc_ok = (\<lambda>_ w. (True, w)), sc_select = (\<lambda>w. (Some (False, True), w)),
       sc_read = (\<lambda>a n w. (Inr (if w = 0 then ''hi'' else []), w + 1)), sc_write = (\<lambda>b bs w. (Inr (length bs), w)) \<rparr>"

definition cooked :: termios where
  "cooked = \<lparr> c_iflag = ICRNL OR IXON, c_oflag = OPOST, c_lflag = ICANON OR ECHO OR ISIG, c_cc = (\<lambda>_. 0) \<rparr>"

definition sc_start :: "bool \<Rightarrow> (nat, unit) script" where
  "sc_start dump =
     \<lparr> sc_term = cooked, ttyOrig = cooked, reset_set = False, sc_dumpcore = dump, sc_proc = d_start, got_from = (\<lambda>_. []), put_to = (\<lambda>_. []),
       sc_kern = 0 \<rparr>"

theorem script_transcript_witness:
  "(\<exists>t. script_parent 1 sc_demo [] (sc_start False) = Ret () t \<and> put_to t Typescript = ''hi'') \<and>
   (\<exists>c t. script_parent 2 sc_demo [] (sc_start False) = Exit c t \<and> sc_term t = cooked)"
proof -
  have h: "relayed (got_from (sc_start False)) (put_to (sc_start False))" "call_works sc_demo Sc_Tcsetattr" "call_works sc_demo Sc_Atexit"
    "ttyOrig (sc_start False) = sc_term (sc_start False)" "\<not> reset_set (sc_start False)"
    by (simp_all add: relayed_def sc_start_def call_works_def sc_demo_def)
  have "case script_parent 1 sc_demo [] (sc_start False) of Ret _ t \<Rightarrow> got_from t Master = ''hi'' | _ \<Rightarrow> False"
    "case script_parent 2 sc_demo [] (sc_start False) of Exit _ t \<Rightarrow> True | _ \<Rightarrow> False"
    by code_simp+
  then show ?thesis using script_transcript [OF h, of 1 "[]"] script_transcript [OF h, of 2 "[]"]
    by (auto split: outcome.splits simp: sc_start_def)
qed

text \<open>When errors dump core the exit handler does not run, and the terminal stays in raw mode after an error.\<close>

lemma core_dump_leaves_raw:
  "case script_parent 1 (sc_demo\<lparr> sc_write := \<lambda>_ _ w. (Inl EINTR, w) \<rparr>) [] (sc_start True) of Abort t \<Rightarrow> c_lflag (sc_term t) = 0 | _ \<Rightarrow> False"
  by code_simp

text \<open>When \<^verbatim>\<open>atexit()\<close> fails the terminal is already in raw mode and stays there.\<close>

lemma failing_atexit_leaves_raw:
  "case script_parent 1 (sc_demo\<lparr> sc_ok := \<lambda>c w. (c \<noteq> Sc_Atexit, w) \<rparr>) [] (sc_start False) of Exit c t \<Rightarrow> c = 1 \<and> c_lflag (sc_term t) = 0 | _ \<Rightarrow> False"
  by code_simp

end
