(* ===== verification/Multi_Sigchld.thy ===== *)
theory Multi_Sigchld
  imports Interleaving Strto_Num
begin

text \<open>
  \<^verbatim>\<open>procexec/multi_SIGCHLD.c\<close>: a parent that creates a child for each argument and waits for them with \<^verbatim>\<open>sigsuspend()\<close>,
  while a handler of \<^verbatim>\<open>SIGCHLD\<close> reaps them. Parent, handler and children are step functions; the signal is
  blocked except in \<^verbatim>\<open>sigsuspend()\<close>, and signals that coincide are merged. Messages and times are left out.
\<close>

section \<open>Model\<close>

datatype mkid = Unborn | Sleeping | Zombie | Reaped

text \<open>\<open>MS_Suspend\<close>: the process is in \<^verbatim>\<open>sigsuspend()\<close>, in the handler when \<open>ms_handler\<close>.\<close>

datatype mspc = MS_Sigaction | MS_Block | MS_Fork nat | MS_Test | MS_Suspend | MS_Exit int

record msig =
  ms_pc :: mspc
  ms_handler :: bool
  ms_pending :: bool
  ms_kids :: "mkid list"
  numLiveChildren :: int
  sigCnt :: int

text \<open>The start for \<open>n\<close> arguments. Below \<open>fails pc\<close> tells whether the call made at \<open>pc\<close> fails.\<close>

definition ms_start :: "nat \<Rightarrow> msig" where
  "ms_start n = \<lparr> ms_pc = MS_Sigaction, ms_handler = False, ms_pending = False, ms_kids = replicate n Unborn, numLiveChildren = int n, sigCnt = 0 \<rparr>"

definition multi_main :: "(mspc \<Rightarrow> bool) \<Rightarrow> nat \<Rightarrow> msig \<Rightarrow> msig option" where
  "multi_main fails n s =
     (case ms_pc s of
        MS_Sigaction \<Rightarrow> Some (s\<lparr> ms_pc := if fails MS_Sigaction then MS_Exit EXIT_FAILURE else MS_Block \<rparr>)
      | MS_Block \<Rightarrow> Some (s\<lparr> ms_pc := if fails MS_Block then MS_Exit EXIT_FAILURE else MS_Fork 0 \<rparr>)
      | MS_Fork j \<Rightarrow>
          if j < n then
            Some (if fails (MS_Fork j) then s\<lparr> ms_pc := MS_Exit EXIT_FAILURE \<rparr>
                  else s\<lparr> ms_kids := (ms_kids s)[j := Sleeping], ms_pc := MS_Fork (Suc j) \<rparr>)
          else Some (s\<lparr> ms_pc := MS_Test \<rparr>)
      | MS_Test \<Rightarrow> Some (s\<lparr> ms_pc := if numLiveChildren s > 0 then MS_Suspend else MS_Exit EXIT_SUCCESS \<rparr>)
      | MS_Suspend \<Rightarrow> None
      | MS_Exit c \<Rightarrow> None)"

text \<open>One call of \<^verbatim>\<open>waitpid()\<close> in the handler: a child is reaped, or there is none to reap and the handler returns; then
  \<^verbatim>\<open>sigsuspend()\<close> returns.\<close>

definition sigchldHandler :: "nat \<Rightarrow> msig \<Rightarrow> msig option" where
  "sigchldHandler i s =
     (if i < length (ms_kids s) \<and> ms_kids s ! i = Zombie then
        Some (s\<lparr> ms_kids := (ms_kids s)[i := Reaped], numLiveChildren := numLiveChildren s - 1 \<rparr>)
      else if Zombie \<notin> set (ms_kids s) then
        Some (s\<lparr> ms_handler := False, ms_pc := MS_Test, sigCnt := sigCnt s + 1 \<rparr>)
      else None)"

text \<open>A child sleeps and exits, also when its argument is not a number.\<close>

definition multi_child :: "nat \<Rightarrow> msig \<Rightarrow> msig option" where
  "multi_child i s =
     (if i < length (ms_kids s) \<and> ms_kids s ! i = Sleeping then Some (s\<lparr> ms_kids := (ms_kids s)[i := Zombie], ms_pending := True \<rparr>) else None)"

datatype ms_actor = MS_Main | MS_Deliver | MS_Handler nat | MS_Child nat

definition ms_ended :: "msig \<Rightarrow> bool" where
  "ms_ended s \<longleftrightarrow> (case ms_pc s of MS_Exit c \<Rightarrow> True | _ \<Rightarrow> False)"

definition multi_sigchld :: "(mspc \<Rightarrow> bool) \<Rightarrow> nat \<Rightarrow> ms_actor \<Rightarrow> msig \<Rightarrow> msig option" where
  "multi_sigchld fails n a s =
     (if ms_ended s then None
      else (case a of
          MS_Main \<Rightarrow> multi_main fails n s
        | MS_Deliver \<Rightarrow> if ms_pc s = MS_Suspend \<and> \<not> ms_handler s \<and> ms_pending s then Some (s\<lparr> ms_pending := False, ms_handler := True \<rparr>) else None
        | MS_Handler i \<Rightarrow> if ms_handler s then sigchldHandler i s else None
        | MS_Child i \<Rightarrow> multi_child i s))"

definition ms_step :: "(mspc \<Rightarrow> bool) \<Rightarrow> nat \<Rightarrow> bool \<Rightarrow> msig \<Rightarrow> msig \<Rightarrow> bool" where
  "ms_step fails n b s t \<longleftrightarrow> \<not> b \<and> (\<exists>a. multi_sigchld fails n a s = Some t)"

section \<open>Invariant\<close>

lemma count_list_upd:
  "i < length xs \<Longrightarrow> count_list (xs[i := x]) y + of_bool (xs ! i = y) = count_list xs y + of_bool (x = y)"
proof (induction xs arbitrary: i)
  case (Cons z zs)
  then show ?case by (cases i) auto
qed simp

lemma count_list_pos: "i < length xs \<Longrightarrow> 0 < count_list xs (xs ! i)"
  by (metis count_list_0_iff gr0I nth_mem)

definition dead :: "msig \<Rightarrow> nat" where
  "dead s = count_list (ms_kids s) Zombie + count_list (ms_kids s) Reaped"

fun born_until :: "nat \<Rightarrow> mspc \<Rightarrow> nat" where
  "born_until n MS_Sigaction = 0"
| "born_until n MS_Block = 0"
| "born_until n (MS_Fork j) = j"
| "born_until n pc = n"

definition ms_inv :: "nat \<Rightarrow> msig \<Rightarrow> bool" where
  "ms_inv n s \<longleftrightarrow>
     length (ms_kids s) = n \<and>
     numLiveChildren s = int n - int (count_list (ms_kids s) Reaped) \<and>
     (Zombie \<in> set (ms_kids s) \<longrightarrow> ms_pending s \<or> ms_handler s) \<and>
     (ms_handler s \<longrightarrow> ms_pc s = MS_Suspend) \<and>
     (ms_pc s = MS_Suspend \<longrightarrow> \<not> ms_handler s \<longrightarrow> numLiveChildren s > 0) \<and>
     (\<not> ms_ended s \<longrightarrow> born_until n (ms_pc s) \<le> n \<and> (\<forall>i<n. ms_kids s ! i = Unborn \<longleftrightarrow> born_until n (ms_pc s) \<le> i)) \<and>
     0 \<le> sigCnt s \<and> sigCnt s + of_bool (ms_handler s) + of_bool (ms_pending s) \<le> int (dead s) \<and>
     (count_list (ms_kids s) Reaped > 0 \<longrightarrow> ms_handler s \<or> sigCnt s > 0) \<and>
     (ms_pc s = MS_Exit EXIT_SUCCESS \<longrightarrow> numLiveChildren s \<le> 0)"

lemma ms_inv_start: "ms_inv n (ms_start n)"
  by (auto simp: ms_inv_def ms_start_def dead_def count_list_0_iff)

fun kid_weight :: "mkid \<Rightarrow> nat" where
  "kid_weight Unborn = 7" | "kid_weight Sleeping = 6" | "kid_weight Zombie = 1" | "kid_weight Reaped = 0"

fun pc_weight :: "mspc \<Rightarrow> nat" where
  "pc_weight MS_Sigaction = 6" | "pc_weight MS_Block = 5" | "pc_weight (MS_Fork j) = 4" | "pc_weight MS_Test = 3"
| "pc_weight MS_Suspend = 2" | "pc_weight (MS_Exit c) = 0"

definition ms_work :: "msig \<Rightarrow> nat" where
  "ms_work s = sum_list (map kid_weight (ms_kids s)) + pc_weight (ms_pc s) + 3 * of_bool (ms_pending s) + 2 * of_bool (ms_handler s)"

lemma multi_child_ok:
  assumes "ms_inv n s" "\<not> ms_ended s" "multi_child i s = Some t"
  shows "ms_inv n t \<and> ms_work t < ms_work s"
proof -
  have i: "i < length (ms_kids s)" "ms_kids s ! i = Sleeping" and t: "t = s\<lparr> ms_kids := (ms_kids s)[i := Zombie], ms_pending := True \<rparr>"
    using assms(3) by (auto simp: multi_child_def split: if_splits)
  note c = count_list_upd [OF i(1), of Zombie]
  have "dead t = Suc (dead s)" using c [of Zombie] c [of Reaped] i(2) by (simp add: dead_def t)
  moreover have "count_list (ms_kids t) Reaped = count_list (ms_kids s) Reaped" using c [of Reaped] i(2) by (simp add: t)
  moreover have "\<forall>j<n. ms_kids t ! j = Unborn \<longleftrightarrow> ms_kids s ! j = Unborn" using i assms(1) by (auto simp: t nth_list_update ms_inv_def)
  moreover have "ms_work t < ms_work s" using sum_list_upd [OF i(1), of kid_weight Zombie] i(2) by (simp add: ms_work_def t)
  ultimately show ?thesis using assms(1,2) by (auto simp: ms_inv_def t ms_ended_def of_bool_def split: if_splits)
qed

lemma ms_handler_ok:
  assumes "ms_inv n s" "\<not> ms_ended s" "ms_handler s" "sigchldHandler i s = Some t"
  shows "ms_inv n t \<and> ms_work t < ms_work s"
proof (cases "i < length (ms_kids s) \<and> ms_kids s ! i = Zombie")
  case True
  then have t: "t = s\<lparr> ms_kids := (ms_kids s)[i := Reaped], numLiveChildren := numLiveChildren s - 1 \<rparr>"
    using assms(4) by (auto simp: sigchldHandler_def)
  note c = count_list_upd [OF conjunct1 [OF True], of Reaped]
  have "dead t = dead s" "count_list (ms_kids t) Reaped = Suc (count_list (ms_kids s) Reaped)"
    using c [of Zombie] c [of Reaped] True by (simp_all add: dead_def t)
  moreover have "\<forall>j<n. ms_kids t ! j = Unborn \<longleftrightarrow> ms_kids s ! j = Unborn" using True assms(1) by (auto simp: t nth_list_update ms_inv_def)
  moreover have "ms_work t < ms_work s" using sum_list_upd [OF conjunct1 [OF True], of kid_weight Reaped] True by (simp add: ms_work_def t)
  ultimately show ?thesis using assms(1-3) by (auto simp: ms_inv_def t ms_ended_def of_bool_def split: if_splits)
next
  case False
  then have "t = s\<lparr> ms_handler := False, ms_pc := MS_Test, sigCnt := sigCnt s + 1 \<rparr>" "Zombie \<notin> set (ms_kids s)"
    using assms(4) by (auto simp: sigchldHandler_def split: if_splits)
  then show ?thesis using assms(1-3) by (auto simp: ms_inv_def ms_work_def ms_ended_def dead_def of_bool_def split: if_splits)
qed

lemma ms_main_ok:
  assumes "ms_inv n s" "\<not> ms_ended s" "multi_main fails n s = Some t"
  shows "ms_inv n t \<and> ms_work t < ms_work s"
proof (cases "\<exists>j. ms_pc s = MS_Fork j \<and> j < n \<and> \<not> fails (MS_Fork j)")
  case True
  then obtain j where j: "ms_pc s = MS_Fork j" "j < n" "\<not> fails (MS_Fork j)" by blast
  then have t: "t = s\<lparr> ms_kids := (ms_kids s)[j := Sleeping], ms_pc := MS_Fork (Suc j) \<rparr>" using assms(3) by (simp add: multi_main_def)
  have l: "j < length (ms_kids s)" "ms_kids s ! j = Unborn" using assms(1,2) j by (auto simp: ms_inv_def)
  note c = count_list_upd [OF l(1), of Sleeping]
  have "dead t = dead s" "count_list (ms_kids t) Reaped = count_list (ms_kids s) Reaped"
    using c [of Zombie] c [of Reaped] l(2) by (simp_all add: dead_def t)
  moreover have "Zombie \<in> set (ms_kids t) \<longrightarrow> Zombie \<in> set (ms_kids s)" by (auto simp: t dest: set_update_subset_insert [THEN subsetD])
  moreover have "\<forall>i<n. ms_kids t ! i = Unborn \<longleftrightarrow> Suc j \<le> i" using assms(1,2) j l(1) by (auto simp: ms_inv_def t nth_list_update)
  moreover have "ms_work t < ms_work s" using sum_list_upd [OF l(1), of kid_weight Sleeping] l(2) j by (simp add: ms_work_def t)
  ultimately show ?thesis using assms(1,2) j by (auto simp: ms_inv_def t ms_ended_def of_bool_def split: if_splits)
next
  case False
  then have "ms_kids t = ms_kids s \<and> ms_handler t = ms_handler s \<and> ms_pending t = ms_pending s \<and> numLiveChildren t = numLiveChildren s \<and> sigCnt t = sigCnt s"
    using assms(3) by (auto simp: multi_main_def split: mspc.splits if_splits)
  moreover have "\<not> ms_handler s" using assms(1,3) by (auto simp: ms_inv_def multi_main_def)
  ultimately show ?thesis using assms(1-3) False
    by (cases "ms_pc s") (auto simp: multi_main_def ms_inv_def ms_work_def ms_ended_def dead_def of_bool_def split: if_splits)
qed

lemma ms_step_ok: "ms_inv n s \<Longrightarrow> ms_step fails n b s t \<Longrightarrow> ms_inv n t \<and> ms_work t < ms_work s"
proof (unfold ms_step_def, elim conjE exE)
  fix a
  assume i: "ms_inv n s" and a: "multi_sigchld fails n a s = Some t"
  show "ms_inv n t \<and> ms_work t < ms_work s"
  proof (cases a)
    case MS_Deliver
    then have t: "t = s\<lparr> ms_pending := False, ms_handler := True \<rparr>" and p: "ms_pc s = MS_Suspend" "\<not> ms_handler s" "ms_pending s"
      using a by (auto simp: multi_sigchld_def split: if_splits)
    show ?thesis unfolding t using i p by (simp add: ms_inv_def ms_work_def ms_ended_def dead_def)
  next
    case MS_Main
    then show ?thesis using a ms_main_ok [OF i] by (simp add: multi_sigchld_def split: if_splits)
  next
    case (MS_Handler j)
    then show ?thesis using a ms_handler_ok [OF i] by (simp add: multi_sigchld_def split: if_splits)
  next
    case (MS_Child j)
    then show ?thesis using a multi_child_ok [OF i] by (simp add: multi_sigchld_def split: if_splits)
  qed
qed

lemma count_list_full: "\<forall>i<length xs. xs ! i = y \<Longrightarrow> count_list xs y = length xs"
  unfolding all_set_conv_all_nth [symmetric, of xs "\<lambda>x. x = y"] by (induction xs) auto

lemma ms_progress:
  assumes "ms_inv n s" "\<not> ms_ended s"
  shows "\<exists>t. ms_step fails n False s t"
proof -
  have st: "\<exists>t. ms_step fails n False s t" if "multi_sigchld fails n a s \<noteq> None" for a using that by (auto simp: ms_step_def)
  show ?thesis
  proof (cases "ms_handler s")
    case True
    show ?thesis
    proof (cases "Zombie \<in> set (ms_kids s)")
      case z: True
      then obtain i where "i < length (ms_kids s)" "ms_kids s ! i = Zombie" by (auto simp: in_set_conv_nth)
      then show ?thesis using True assms(2) by (intro st [of "MS_Handler i"]) (simp add: multi_sigchld_def sigchldHandler_def)
    next
      case False
      then have "\<not> (0 < length (ms_kids s) \<and> ms_kids s ! 0 = Zombie)" by (metis nth_mem)
      then show ?thesis using True False assms(2) by (intro st [of "MS_Handler 0"]) (auto simp: multi_sigchld_def sigchldHandler_def)
    qed
  next
    case nh: False
    show ?thesis
    proof (cases "ms_pc s = MS_Suspend")
      case susp: True
      show ?thesis
      proof (cases "ms_pending s")
        case True
        then show ?thesis using susp nh assms(2) by (intro st [of MS_Deliver]) (simp add: multi_sigchld_def)
      next
        case False
        have l: "length (ms_kids s) = n" "Zombie \<notin> set (ms_kids s)" "\<forall>i<n. ms_kids s ! i \<noteq> Unborn" "count_list (ms_kids s) Reaped < n"
          using assms susp nh False by (auto simp: ms_inv_def)
        then obtain i where "i < n" "ms_kids s ! i \<noteq> Reaped" using count_list_full [of "ms_kids s" Reaped] by auto
        then have "ms_kids s ! i = Sleeping" using l by (cases "ms_kids s ! i") (metis nth_mem)+
        then show ?thesis using \<open>i < n\<close> l(1) assms(2) by (intro st [of "MS_Child i"]) (simp add: multi_sigchld_def multi_child_def)
      qed
    next
      case False
      then show ?thesis using assms(2)
        by (intro st [of MS_Main]) (auto simp: multi_sigchld_def multi_main_def ms_ended_def split: mspc.splits)
    qed
  qed
qed

interpretation msc: bounded_system "ms_step fails n" "ms_inv n" ms_work 0 ms_ended for fails n
proof
  show "ms_inv n t" if "ms_inv n s" "ms_step fails n b s t" for b s t using ms_step_ok that by blast
  show "Suc (ms_work t) \<le> ms_work s + (if b then 0 else 0)" if "ms_inv n s" "ms_step fails n b s t" for b s t using ms_step_ok [OF that] by simp
  show "\<exists>t. ms_step fails n False s t" if "ms_inv n s" "\<not> ms_ended s" for s using ms_progress that .
qed

text \<open>Only a failing call makes the program fail.\<close>

lemma ms_exit_status: "steps (ms_step fails n) (ms_start n) m k s \<Longrightarrow> ms_pc s = MS_Exit c \<Longrightarrow> c = 0 \<or> c = 1 \<and> (\<exists>pc. fails pc)"
proof (induction arbitrary: c rule: steps.induct)
  case (more m k t b u)
  then obtain a where "multi_sigchld fails n a t = Some u" by (auto simp: ms_step_def)
  then show ?case using more.prems more.IH
    by (cases a) (auto simp: multi_sigchld_def multi_main_def sigchldHandler_def multi_child_def ms_ended_def split: if_splits mspc.splits)
qed (simp add: ms_start_def)

text \<open>
  C9. \<^verbatim>\<open>multi_SIGCHLD\<close>: for any number of children and every interleaving, although signals that coincide are merged, no child is
  missed and the program does not hang: a run has at most the number of steps given here, and it can only stop when the
  parent has exited. It exits with status 0 only after the handler has reaped every child, having caught the
  signal at least once, if there were children, and at most once per child; with status 1 only when a call has failed.
\<close>

theorem multi_sigchld_completes:
  assumes "steps (ms_step fails n) (ms_start n) m k s"
  shows "m \<le> 7 * n + 6 \<and> ((\<exists>t. ms_step fails n False s t) \<or> (\<exists>c. ms_pc s = MS_Exit c)) \<and>
    (ms_pc s = MS_Exit 0 \<longrightarrow>
       (\<forall>i<n. ms_kids s ! i = Reaped) \<and> numLiveChildren s = 0 \<and> sigCnt s \<le> int n \<and> (n > 0 \<longrightarrow> 1 \<le> sigCnt s)) \<and>
    (\<forall>c. ms_pc s = MS_Exit c \<longrightarrow> c = 0 \<or> c = 1 \<and> (\<exists>pc. fails pc))"
proof -
  have inv: "ms_inv n s" using msc.reached [OF ms_inv_start assms] by simp
  have "ms_work (ms_start n) = 7 * n + 6" by (simp add: ms_work_def ms_start_def sum_list_replicate)
  then have b: "m \<le> 7 * n + 6" using msc.bounded [OF ms_inv_start assms] by simp
  have e: "(\<forall>i<n. ms_kids s ! i = Reaped) \<and> numLiveChildren s = 0 \<and> sigCnt s \<le> int n \<and> (n > 0 \<longrightarrow> 1 \<le> sigCnt s)" if x: "ms_pc s = MS_Exit 0"
  proof -
    have l: "length (ms_kids s) = n" "n \<le> count_list (ms_kids s) Reaped" "\<not> ms_handler s" using inv x by (auto simp: ms_inv_def)
    then have c: "count_list (ms_kids s) Reaped = n" using count_le_length [of "ms_kids s" Reaped] by simp
    have all: "\<forall>i<n. ms_kids s ! i = Reaped"
    proof (rule ccontr)
      assume "\<not> (\<forall>i<n. ms_kids s ! i = Reaped)"
      then obtain i where i: "i < n" "ms_kids s ! i \<noteq> Reaped" by blast
      from count_list_upd [of i "ms_kids s" Reaped Reaped] i l(1) c count_le_length [of "(ms_kids s)[i := Reaped]" Reaped] show False by simp
    qed
    then have "Zombie \<notin> set (ms_kids s)" using l(1) by (auto simp: in_set_conv_nth)
    then have "dead s = n" using c by (simp add: dead_def count_list_0_iff)
    then show ?thesis using inv x all c l(3) by (auto simp: ms_inv_def of_bool_def split: if_splits)
  qed
  have "(\<exists>t. ms_step fails n False s t) \<or> (\<exists>c. ms_pc s = MS_Exit c)"
    using msc.not_stuck [OF ms_inv_start assms] by (auto simp: ms_ended_def split: mspc.splits)
  with b e ms_exit_status [OF assms] show ?thesis by blast
qed

text \<open>Two children whose signals coincide are reaped by one run of the handler.\<close>

theorem multi_sigchld_completes_witness:
  "\<exists>s. exec_schedule (multi_sigchld (\<lambda>_. False) 2) (replicate 6 MS_Main @ [MS_Child 0, MS_Child 1, MS_Deliver, MS_Handler 0, MS_Handler 1, MS_Handler 0, MS_Main])
        (ms_start 2) = Some s \<and> ms_kids s ! 0 = Reaped \<and> sigCnt s = 1"
proof -
  let ?as = "replicate 6 MS_Main @ [MS_Child 0, MS_Child 1, MS_Deliver, MS_Handler 0, MS_Handler 1, MS_Handler 0, MS_Main]"
  let ?s = "\<lparr> ms_pc = MS_Exit 0, ms_handler = False, ms_pending = False, ms_kids = [Reaped, Reaped], numLiveChildren = 0, sigCnt = 1 \<rparr>"
  have r: "exec_schedule (multi_sigchld (\<lambda>_. False) 2) ?as (ms_start 2) = Some ?s" by code_simp
  have "steps (ms_step (\<lambda>_. False) 2) (ms_start 2) (length ?as) 0 ?s"
    using exec_steps [where f = "multi_sigchld (\<lambda>_. False) 2" and step = "ms_step (\<lambda>_. False) 2", OF _ steps.none r] by (auto simp: ms_step_def)
  from multi_sigchld_completes [OF this] r show ?thesis by auto
qed

end
