(* ===== verification/Pdeath_Chain.thy ===== *)
theory Pdeath_Chain
  imports Strto_Num
begin

text \<open>
  \<^verbatim>\<open>procexec/pdeath_signal.c\<close>: a chain of processes, each with the threads its argument describes, one of which creates the next
  process; the last one creates the child that asks for a signal when its parent dies. Modelled are the parsing of the
  arguments, the threads and the processes that come about; sleeping and the messages are not.
\<close>

section \<open>strtok()\<close>

text \<open>The next token and what is left of the string; colons before the token are skipped.\<close>

definition strtok :: "cstring \<Rightarrow> (cstring \<times> cstring) option" where
  "strtok s =
     (let s = dropWhile (\<lambda>c. c = CHR '':'') s
      in if s = [] then None else Some (takeWhile (\<lambda>c. c \<noteq> CHR '':'') s, drop 1 (dropWhile (\<lambda>c. c \<noteq> CHR '':'') s)))"

lemma strtok_shorter: "strtok s = Some (tok, rest) \<Longrightarrow> length rest < length s"
proof -
  assume a: "strtok s = Some (tok, rest)"
  define d where "d = dropWhile (\<lambda>c. c = CHR '':'') s"
  have "d \<noteq> []" "rest = drop 1 (dropWhile (\<lambda>c. c \<noteq> CHR '':'') d)"
    using a by (auto simp: strtok_def d_def Let_def split: if_splits)
  moreover have "length (dropWhile (\<lambda>c. c \<noteq> CHR '':'') d) \<le> length d" "length d \<le> length s"
    by (simp_all add: d_def length_dropWhile_le)
  moreover have "0 < length d" using \<open>d \<noteq> []\<close> by simp
  ultimately show ?thesis by (simp del: length_greater_0_conv)
qed

section \<open>Threads\<close>

record threadParam =
  sleepTime :: int
  tp_argv :: "cstring list"
  threadNum :: nat
  ancestorNum :: nat
  createNextChild :: bool

datatype pd_call = PD_Malloc nat | PD_Thread nat | PD_Fork | PD_Subreaper

text \<open>How the initial thread gets through \<^verbatim>\<open>createThreads()\<close>: with its own parameters and the other threads that were started; or the
  process is terminated after some threads were started; or the parameters of the initial thread were never
  set.\<close>

datatype creation = Created threadParam "threadParam list" | Terminated "threadParam list" | Uninitialised

text \<open>\<open>ok c\<close> tells whether the call \<open>c\<close> of this process succeeds.\<close>

function thread_loop ::
  "(pd_call \<Rightarrow> bool) \<Rightarrow> cstring list \<Rightarrow> nat \<Rightarrow> nat \<Rightarrow> cstring \<Rightarrow> bool \<Rightarrow> threadParam option \<Rightarrow> threadParam list \<Rightarrow> creation" where
  "thread_loop ok argv num tnum s nextParentMarked tparamInit threads =
     (case strtok s of
        None \<Rightarrow>
          (case tparamInit of
             None \<Rightarrow> Uninitialised
           | Some p \<Rightarrow> Created (if nextParentMarked then p else p\<lparr> createNextChild := True \<rparr>) threads)
      | Some (tok, rest) \<Rightarrow>
          if \<not> ok (PD_Malloc tnum) then Terminated threads
          else
            (let create = (cchar tok 0 = CHR ''+'')
             in if create \<and> nextParentMarked then Terminated threads
                else
                  (let tok = (if create then drop 1 tok else tok);
                       p = \<lparr> sleepTime = atoi tok, tp_argv = argv, threadNum = tnum, ancestorNum = num, createNextChild = create \<rparr>;
                       marked = (nextParentMarked \<or> create)
                   in if tnum = 0 then thread_loop ok argv num (Suc tnum) rest marked (Some p) threads
                      else if ok (PD_Thread tnum) then thread_loop ok argv num (Suc tnum) rest marked tparamInit (threads @ [p])
                      else Terminated threads)))"
  by pat_completeness auto
termination
  by (relation "measure (\<lambda>(ok, argv, num, tnum, s, m, i, ts). length s)") (auto dest: strtok_shorter)

declare thread_loop.simps [simp del]

definition createThreads :: "(pd_call \<Rightarrow> bool) \<Rightarrow> cstring \<Rightarrow> cstring list \<Rightarrow> nat \<Rightarrow> creation" where
  "createThreads ok ancestorArg argv num = thread_loop ok argv num 0 ancestorArg False None []"

section \<open>Processes\<close>

text \<open>A process of the chain, with its threads from the initial one on.\<close>

record pd_proc =
  pd_num :: nat
  subreaper :: bool
  pd_threads :: "threadParam list"

text \<open>How the chain ends: with the child; or a process could not go on; or it used parameters that were never set.\<close>

datatype pd_end = Orphan | Broken | Undefined_Parameters

text \<open>\<open>ok num c\<close>: whether call \<open>c\<close> of process \<open>num\<close> succeeds. When the initial thread terminates the process, another thread that is to
  create the next process may or may not have done so: \<open>race num\<close>. In \<open>performPerThreadSteps\<close> the result is what the thread
  creates.\<close>

definition forks_next :: "(nat \<Rightarrow> pd_call \<Rightarrow> bool) \<Rightarrow> nat \<Rightarrow> threadParam list \<Rightarrow> bool" where
  "forks_next ok num ths \<longleftrightarrow> (\<exists>p\<in>set ths. createNextChild p) \<and> ok num PD_Fork"

fun createAncestor :: "(nat \<Rightarrow> pd_call \<Rightarrow> bool) \<Rightarrow> (nat \<Rightarrow> bool) \<Rightarrow> nat \<Rightarrow> cstring list \<Rightarrow> pd_proc list \<times> pd_end" where
  "createAncestor ok race num [] = ([], Orphan)"
| "createAncestor ok race num (arg # argv) =
     (let sub = (cchar arg 0 = CHR ''@'')
      in if sub \<and> \<not> ok num PD_Subreaper then ([\<lparr> pd_num = num, subreaper = False, pd_threads = [] \<rparr>], Broken)
         else
           (case createThreads (ok num) (if sub then drop 1 arg else arg) argv num of
              Created p ths \<Rightarrow>
                let this' = \<lparr> pd_num = num, subreaper = sub, pd_threads = p # ths \<rparr>
                in if forks_next ok num (p # ths)
                   then (case createAncestor ok race (Suc num) argv of (ps, e) \<Rightarrow> (this' # ps, e))
                   else ([this'], Broken)
            | Terminated ths \<Rightarrow>
                let this' = \<lparr> pd_num = num, subreaper = sub, pd_threads = ths \<rparr>
                in if race num \<and> forks_next ok num ths
                   then (case createAncestor ok race (Suc num) argv of (ps, e) \<Rightarrow> (this' # ps, e))
                   else ([this'], Broken)
            | Uninitialised \<Rightarrow> ([\<lparr> pd_num = num, subreaper = sub, pd_threads = [] \<rparr>], Undefined_Parameters)))"

text \<open>The settings of the child: how long it sleeps before and after it asks for the signal.\<close>

definition pdeath_main :: "(nat \<Rightarrow> pd_call \<Rightarrow> bool) \<Rightarrow> (nat \<Rightarrow> bool) \<Rightarrow> cstring list \<Rightarrow> ((int \<times> int) \<times> pd_proc list \<times> pd_end) option" where
  "pdeath_main ok race args =
     (case args of
        pre # post # ancestors \<Rightarrow>
          Some ((atoi pre, atoi post), if ok 0 PD_Fork then createAncestor ok race 1 ancestors else ([], Broken))
      | _ \<Rightarrow> None)"

section \<open>One creator per process\<close>

definition marked :: "cstring \<Rightarrow> bool" where
  "marked tok \<longleftrightarrow> cchar tok 0 = CHR ''+''"

definition marks :: "cstring list \<Rightarrow> nat" where
  "marks toks = length (filter marked toks)"

definition token_param :: "cstring list \<Rightarrow> nat \<Rightarrow> nat \<times> cstring \<Rightarrow> threadParam" where
  "token_param argv num nt = \<lparr> sleepTime = atoi (if marked (snd nt) then drop 1 (snd nt) else snd nt), tp_argv = argv,
     threadNum = fst nt, ancestorNum = num, createNextChild = marked (snd nt) \<rparr>"

lemma marks_simps [simp]: "marks [] = 0" "marks (t # toks) = of_bool (marked t) + marks toks"
  by (simp_all add: marks_def)

lemma createNextChild_token_param [simp]: "createNextChild (token_param argv num (n, tok)) = marked tok"
  by (simp add: token_param_def)

text \<open>One turn of the loop.\<close>

lemma thread_loop_end:
  "strtok s = None \<Longrightarrow> thread_loop ok argv num tnum s m i ts =
     (case i of None \<Rightarrow> Uninitialised | Some p \<Rightarrow> Created (if m then p else p\<lparr> createNextChild := True \<rparr>) ts)"
  by (simp add: thread_loop.simps)

lemma thread_loop_token:
  "strtok s = Some (tok, rest) \<Longrightarrow> thread_loop ok argv num tnum s m i ts =
     (if \<not> ok (PD_Malloc tnum) \<or> marked tok \<and> m then Terminated ts
      else if tnum = 0 then thread_loop ok argv num 1 rest (m \<or> marked tok) (Some (token_param argv num (0, tok))) ts
      else if ok (PD_Thread tnum) then thread_loop ok argv num (Suc tnum) rest (m \<or> marked tok) i (ts @ [token_param argv num (tnum, tok)])
      else Terminated ts)"
  by (subst thread_loop.simps) (auto simp: Let_def marked_def token_param_def)

function colon_tokens :: "cstring \<Rightarrow> cstring list" where
  "colon_tokens s = (case strtok s of None \<Rightarrow> [] | Some (tok, rest) \<Rightarrow> tok # colon_tokens rest)"
  by pat_completeness auto
termination
  by (relation "measure length") (auto dest: strtok_shorter)

declare colon_tokens.simps [simp del]

definition creators :: "threadParam list \<Rightarrow> nat" where
  "creators ths = length (filter createNextChild ths)"

lemma creators_simps [simp]: "creators [] = 0" "creators (ths @ [p]) = creators ths + of_bool (createNextChild p)"
  "creators (p # ths) = of_bool (createNextChild p) + creators ths"
  by (simp_all add: creators_def)

text \<open>The invariant of the loop: the marked threads so far are as many as the mark says.\<close>

lemma thread_loop_creators:
  assumes "creators (case i of None \<Rightarrow> ts | Some p \<Rightarrow> p # ts) = of_bool m" "tnum = 0 \<longrightarrow> i = None"
  shows "case thread_loop ok argv num tnum s m i ts of
      Created p ths \<Rightarrow> creators (p # ths) = 1 | Terminated ths \<Rightarrow> creators ths \<le> 1 | Uninitialised \<Rightarrow> True"
  using assms
proof (induction s arbitrary: tnum m i ts rule: colon_tokens.induct)
  case (1 s)
  have le: "creators ts \<le> 1" using "1.prems"(1) by (cases i; cases m) (auto split: if_splits)
  show ?case
  proof (cases "strtok s")
    case None
    then show ?thesis using "1.prems" by (cases m) (auto simp: thread_loop_end split: option.splits)
  next
    case (Some tr)
    obtain tok rest where tr: "tr = (tok, rest)" by fastforce
    have "case thread_loop ok argv num 1 rest (m \<or> marked tok) (Some (token_param argv num (0, tok))) ts of
        Created p ths \<Rightarrow> creators (p # ths) = 1 | Terminated ths \<Rightarrow> creators ths \<le> 1 | Uninitialised \<Rightarrow> True"
      if "tnum = 0" "\<not> (marked tok \<and> m)"
      using that "1.prems" by (intro "1.IH" [OF Some tr [symmetric]]) auto
    moreover have "case thread_loop ok argv num (Suc tnum) rest (m \<or> marked tok) i (ts @ [token_param argv num (tnum, tok)]) of
        Created p ths \<Rightarrow> creators (p # ths) = 1 | Terminated ths \<Rightarrow> creators ths \<le> 1 | Uninitialised \<Rightarrow> True"
      if "\<not> (marked tok \<and> m)"
      using that "1.prems" by (intro "1.IH" [OF Some tr [symmetric]]) (cases m; auto split: option.splits)+
    ultimately show ?thesis
      using le Some tr by (simp add: thread_loop_token del: creators_simps)
  qed
qed

lemma createThreads_creators:
  "createThreads ok arg argv num = Created p ths \<Longrightarrow> creators (p # ths) = 1"
  "createThreads ok arg argv num = Terminated ths \<Longrightarrow> creators ths \<le> 1"
  using thread_loop_creators [where i = None and ts = "[]" and m = False and tnum = 0 and ok = ok and argv = argv and num = num and s = arg]
  by (auto simp: createThreads_def)

lemma createAncestor_creators:
  assumes "createAncestor ok race num args = (ps, e)" "p \<in> set ps"
  shows "creators (pd_threads p) \<le> 1"
  using assms
proof (induction args arbitrary: num ps e)
  case (Cons arg argv)
  show ?case
  proof (cases "createThreads (ok num) (if cchar arg 0 = CHR ''@'' then drop 1 arg else arg) argv num")
    case (Created q ths)
    then have "creators (q # ths) = 1" by (rule createThreads_creators)
    then show ?thesis using Cons Created by (auto simp: Let_def simp del: creators_simps(3) split: if_splits prod.splits)
  next
    case (Terminated ths)
    then have "creators ths \<le> 1" by (rule createThreads_creators)
    then show ?thesis using Cons Terminated by (auto simp: Let_def split: if_splits prod.splits)
  next
    case Uninitialised
    then show ?thesis using Cons by (auto simp: Let_def split: if_splits)
  qed
qed simp

lemma createAncestor_numbered:
  "createAncestor ok race num args = (ps, e) \<Longrightarrow> length ps \<le> length args \<and> map pd_num ps = [num..<num + length ps]"
proof (induction args arbitrary: num ps e)
  case (Cons arg argv)
  have step: "length qs \<le> length argv \<and> map pd_num qs = [Suc num..<Suc num + length qs]"
    if "createAncestor ok race (Suc num) argv = (qs, f)" for qs f
    using Cons.IH [OF that] .
  show ?case
    using Cons.prems
    by (auto simp: Let_def upt_rec [of num] dest: step split: if_splits creation.splits prod.splits)
qed simp

section \<open>What the arguments describe\<close>

definition arg_tokens :: "cstring \<Rightarrow> cstring list" where
  "arg_tokens arg = colon_tokens (if cchar arg 0 = CHR ''@'' then drop 1 arg else arg)"

lemma thread_loop_rest:
  assumes "0 < tnum" "of_bool m + marks (colon_tokens s) \<le> 1"
  shows "thread_loop (\<lambda>c. True) argv num tnum s m (Some p) ts =
    Created (if m \<or> 0 < marks (colon_tokens s) then p else p\<lparr> createNextChild := True \<rparr>)
      (ts @ map (token_param argv num) (enumerate tnum (colon_tokens s)))"
  using assms
proof (induction s arbitrary: tnum m ts rule: colon_tokens.induct)
  case (1 s)
  show ?case
  proof (cases "strtok s")
    case None
    then show ?thesis by (simp add: thread_loop_end colon_tokens.simps)
  next
    case (Some tr)
    obtain tok rest where tr: "tr = (tok, rest)" by fastforce
    have toks: "colon_tokens s = tok # colon_tokens rest" using Some tr by (simp add: colon_tokens.simps)
    have nm: "\<not> (marked tok \<and> m)" using "1.prems"(2) toks by auto
    have le: "of_bool (m \<or> marked tok) + marks (colon_tokens rest) \<le> 1"
      using "1.prems"(2) toks by (auto split: if_splits)
    show ?thesis
      using "1.IH" [OF Some tr [symmetric] _ le, of "Suc tnum"] nm "1.prems"(1) Some tr toks
      by (auto simp: thread_loop_token)
  qed
qed

lemma createThreads_tokens:
  assumes "colon_tokens s = tok # toks" "marks (tok # toks) \<le> 1"
  shows "createThreads (\<lambda>c. True) s argv num =
    Created (if 0 < marks (tok # toks) then token_param argv num (0, tok) else token_param argv num (0, tok)\<lparr> createNextChild := True \<rparr>)
      (map (token_param argv num) (enumerate 1 toks))"
proof -
  obtain rest where r: "strtok s = Some (tok, rest)" "colon_tokens rest = toks"
    using assms(1) by (subst (asm) colon_tokens.simps) (auto split: option.splits)
  show ?thesis
    using thread_loop_rest [where tnum = 1 and s = rest and m = "marked tok" and argv = argv and num = num and ts = "[]"] assms(2) r
    by (auto simp: createThreads_def thread_loop_token)
qed

text \<open>The threads an argument describes: how long each sleeps and whether it creates the next process, which is the initial
  thread when no token has a mark.\<close>

definition described :: "cstring \<Rightarrow> (int \<times> bool) list" where
  "described arg = map (\<lambda>(i, tok). (atoi (if marked tok then drop 1 tok else tok),
     if marks (arg_tokens arg) = 0 then i = 0 else marked tok)) (enumerate 0 (arg_tokens arg))"

definition good_argument :: "cstring \<Rightarrow> bool" where
  "good_argument arg \<longleftrightarrow> arg_tokens arg \<noteq> [] \<and> marks (arg_tokens arg) \<le> 1"

text \<open>What is observed of a process: its number, whether it adopts orphans, and its threads.\<close>

definition observed :: "pd_proc \<Rightarrow> nat \<times> bool \<times> (int \<times> bool) list" where
  "observed p = (pd_num p, subreaper p, map (\<lambda>t. (sleepTime t, createNextChild t)) (pd_threads p))"

lemma marks_0: "marks toks = 0 \<longleftrightarrow> (\<forall>t\<in>set toks. \<not> marked t)"
  by (simp add: marks_def filter_empty_conv)

lemma createThreads_described:
  assumes "good_argument arg"
  obtains p ths where
    "createThreads (\<lambda>c. True) (if cchar arg 0 = CHR ''@'' then drop 1 arg else arg) argv num = Created p ths"
    "map (\<lambda>t. (sleepTime t, createNextChild t)) (p # ths) = described arg"
    "\<exists>t\<in>set (p # ths). createNextChild t"
proof -
  obtain tok toks where t: "arg_tokens arg = tok # toks" "marks (tok # toks) \<le> 1"
    using assms by (cases "arg_tokens arg") (auto simp: good_argument_def)
  let ?p = "if 0 < marks (tok # toks) then token_param argv num (0, tok) else token_param argv num (0, tok)\<lparr> createNextChild := True \<rparr>"
  let ?ths = "map (token_param argv num) (enumerate 1 toks)"
  have eq: "map (\<lambda>t. (sleepTime t, createNextChild t)) (?p # ?ths) = described arg"
  proof (cases "marks (tok # toks) = 0")
    case True
    have "\<not> marked b" if "(a, b) \<in> set (enumerate (Suc 0) toks)" for a b
      using that True by (auto simp: marks_0 enumerate_eq_zip dest: set_zip_rightD)
    then show ?thesis using True t(1)
      by (auto simp: described_def token_param_def in_set_enumerate_eq)
  next
    case False
    then show ?thesis using t(1) by (auto simp: described_def token_param_def)
  qed
  have ex: "\<exists>t\<in>set (?p # ?ths). createNextChild t"
  proof (cases "0 < marks (tok # toks)")
    case True
    then have "marked tok \<or> (\<exists>u\<in>set toks. marked u)" by (auto simp: marks_0 [of toks, symmetric] split: if_splits)
    then show ?thesis
    proof
      assume "\<exists>u\<in>set toks. marked u"
      then obtain j where "j < length toks" "marked (toks ! j)" by (auto simp: in_set_conv_nth)
      then have "(Suc j, toks ! j) \<in> set (enumerate 1 toks)" "createNextChild (token_param argv num (Suc j, toks ! j))"
        by (auto simp: in_set_enumerate_eq)
      then show ?thesis by (metis (no_types, lifting) image_eqI list.set_intros(2) list.set_map)
    qed (use True in simp)
  qed simp
  show ?thesis
    by (rule that [of ?p ?ths]) (use createThreads_tokens t eq ex in \<open>simp_all add: arg_tokens_def\<close>)
qed

lemma createAncestor_described:
  assumes "\<forall>arg\<in>set args. good_argument arg"
  shows "snd (createAncestor (\<lambda>n c. True) race num args) = Orphan \<and>
    map observed (fst (createAncestor (\<lambda>n c. True) race num args)) =
       map (\<lambda>(n, arg). (n, cchar arg 0 = CHR ''@'', described arg)) (enumerate num args)"
  using assms
proof (induction args arbitrary: num)
  case (Cons arg argv)
  have good: "good_argument arg" "\<forall>arg\<in>set argv. good_argument arg" using Cons.prems by simp_all
  obtain ps e where ps: "createAncestor (\<lambda>n c. True) race (Suc num) argv = (ps, e)" by fastforce
  obtain p ths where p: "createThreads (\<lambda>c. True) (if cchar arg 0 = CHR ''@'' then drop 1 arg else arg) argv num = Created p ths"
    "map (\<lambda>t. (sleepTime t, createNextChild t)) (p # ths) = described arg" "\<exists>t\<in>set (p # ths). createNextChild t"
    by (rule createThreads_described [OF good(1)])
  have step: "createAncestor (\<lambda>n c. True) race num (arg # argv) =
      (\<lparr> pd_num = num, subreaper = cchar arg 0 = CHR ''@'', pd_threads = p # ths \<rparr> # ps, e)"
    using p(1,3) ps by (simp add: Let_def forks_next_def)
  show ?case using Cons.IH [OF good(2), of "Suc num"] ps step p(2) by (simp add: observed_def)
qed simp

section \<open>The chain\<close>

text \<open>C10. Whatever calls fail, \<open>createAncestor()\<close> never makes more processes than there are arguments, they are numbered in order, and in each at
  most one thread is there to create the next one, so the chain never branches. When no call fails and every argument has a thread and
  at most one \<open>+\<close>, there is one process per argument, it adopts orphans exactly when the argument starts with \<open>@\<close>, its threads
  sleep as the argument says, the marked one, or else the initial one, creates the next process, and the last creates the child.\<close>

theorem pdeath_chain:
  "(case createAncestor ok race 1 args of
      (ps, e) \<Rightarrow> length ps \<le> length args \<and> map pd_num ps = [1..<Suc (length ps)] \<and>
        (\<forall>p\<in>set ps. length (filter createNextChild (pd_threads p)) \<le> 1)) \<and>
   ((\<forall>n c. ok n c) \<and> (\<forall>arg\<in>set args. good_argument arg) \<longrightarrow>
     snd (createAncestor ok race 1 args) = Orphan \<and>
     map observed (fst (createAncestor ok race 1 args)) =
       map (\<lambda>(n, arg). (n, cchar arg 0 = CHR ''@'', described arg)) (enumerate 1 args))"
proof (intro conjI impI)
  obtain ps e where r: "createAncestor ok race 1 args = (ps, e)" by fastforce
  show "case createAncestor ok race 1 args of
      (ps, e) \<Rightarrow> length ps \<le> length args \<and> map pd_num ps = [1..<Suc (length ps)] \<and>
        (\<forall>p\<in>set ps. length (filter createNextChild (pd_threads p)) \<le> 1)"
    using createAncestor_numbered [OF r] createAncestor_creators [OF r] r by (simp add: creators_def)
next
  assume a: "(\<forall>n c. ok n c) \<and> (\<forall>arg\<in>set args. good_argument arg)"
  then have "ok = (\<lambda>n c. True)" by blast
  with a show "snd (createAncestor ok race 1 args) = Orphan"
    "map observed (fst (createAncestor ok race 1 args)) =
       map (\<lambda>(n, arg). (n, cchar arg 0 = CHR ''@'', described arg)) (enumerate 1 args)"
    using createAncestor_described [of args race 1] by blast+
qed

text \<open>Two processes, the first with a second thread that creates the next process, and that one a subreaper.\<close>

theorem pdeath_chain_witness:
  "map observed (fst (createAncestor (\<lambda>n c. True) (\<lambda>n. False) 1 [''5:+3'', ''@7''])) =
     [(1, False, [(5, False), (3, True)]), (2, True, [(7, True)])]"
proof -
  have good: "\<forall>arg\<in>set [''5:+3'', ''@7'']. good_argument arg" by code_simp
  have eq: "map (\<lambda>(n, arg). (n, cchar arg 0 = CHR ''@'', described arg)) (enumerate 1 [''5:+3'', ''@7'']) =
      [(1, False, [(5, False), (3, True)]), (2, True, [(7, True)])]" by code_simp
  show ?thesis using pdeath_chain [of "[''5:+3'', ''@7'']" "\<lambda>n c. True" "\<lambda>n. False"] good eq by simp
qed

text \<open>An argument with no token, here a lone \<open>@\<close>, leaves the parameters of the initial thread unset.\<close>

lemma empty_argument_uninitialised:
  "createAncestor (\<lambda>n c. True) race 1 [''@''] = ([\<lparr> pd_num = 1, subreaper = True, pd_threads = [] \<rparr>], Undefined_Parameters)"
  by (simp add: createThreads_def thread_loop.simps strtok_def cchar_def)

end
