(* ===== verification/Ancillary_Data.thy ===== *)
theory Ancillary_Data
  imports Strto_Num Filter_Files
begin

text \<open>
  The layout of ancillary data, on a 64-bit little-endian machine: a sequence of blocks, each a \<^verbatim>\<open>struct cmsghdr\<close> followed by its data and
  padding, which the macros of \<^verbatim>\<open>sys/socket.h\<close> take apart. Accesses outside the buffer are values of the model.
\<close>

section \<open>Integers in memory\<close>

fun le_bytes :: "nat \<Rightarrow> nat \<Rightarrow> byte list" where
  "le_bytes 0 x = []"
| "le_bytes (Suc n) x = of_nat (x mod 256) # le_bytes n (x div 256)"

fun le_nat :: "byte list \<Rightarrow> nat" where
  "le_nat [] = 0"
| "le_nat (b # bs) = unat b + 256 * le_nat bs"

definition int_bytes :: "int \<Rightarrow> byte list" where
  "int_bytes i = le_bytes 4 (nat (i mod 2 ^ 32))"

definition bytes_int :: "byte list \<Rightarrow> int" where
  "bytes_int bs = to_int32 (int (le_nat bs))"

lemma length_le_bytes [simp]: "length (le_bytes n x) = n"
  by (induction n arbitrary: x) simp_all

lemma length_int_bytes [simp]: "length (int_bytes i) = 4"
  by (simp add: int_bytes_def)

lemma le_nat_le_bytes [simp]: "le_nat (le_bytes n x) = x mod 256 ^ n"
proof (induction n arbitrary: x)
  case (Suc n)
  have "unat (of_nat (x mod 256) :: byte) = x mod 256"
    by (simp add: unat_of_nat take_bit_eq_mod)
  then show ?case using Suc mod_mult2_eq [of x 256 "256 ^ n"] by simp
qed simp

lemma bytes_int_int_bytes [simp]: "bytes_int (int_bytes i) = to_int32 i"
  by (simp add: bytes_int_def int_bytes_def to_int32_def mod_simps)

section \<open>A buffer\<close>

definition mem_load :: "byte list \<Rightarrow> nat \<Rightarrow> nat \<Rightarrow> byte list option" where
  "mem_load buf p n = (if p + n \<le> length buf then Some (take n (drop p buf)) else None)"

definition mem_store :: "nat \<Rightarrow> byte list \<Rightarrow> byte list \<Rightarrow> byte list option" where
  "mem_store p bs buf = (if p + length bs \<le> length buf then Some (take p buf @ bs @ drop (p + length bs) buf) else None)"

lemma mem_load_append [simp]: "p = length a \<Longrightarrow> n = length b \<Longrightarrow> mem_load (a @ b @ c) p n = Some b"
  by (simp add: mem_load_def)

lemma mem_load_in:
  "mem_load buf p n = Some bs \<Longrightarrow> p + n \<le> length buf \<and> length bs = n"
  by (auto simp: mem_load_def split: if_splits)

lemma mem_store_append [simp]: "p = length a \<Longrightarrow> length b = length bs \<Longrightarrow> mem_store p bs (a @ b @ c) = Some (a @ bs @ c)"
  by (simp add: mem_store_def)

section \<open>Control messages\<close>

definition SOL_SOCKET :: int where "SOL_SOCKET = 1"
definition SCM_RIGHTS :: int where "SCM_RIGHTS = 1"
definition SCM_CREDENTIALS :: int where "SCM_CREDENTIALS = 2"
definition SIZEOF_CMSGHDR :: nat where [simp]: "SIZEOF_CMSGHDR = 16"

definition CMSG_ALIGN :: "nat \<Rightarrow> nat" where
  "CMSG_ALIGN n = (n + 7) div 8 * 8"

definition CMSG_LEN :: "nat \<Rightarrow> nat" where
  "CMSG_LEN n = SIZEOF_CMSGHDR + n"

definition CMSG_SPACE :: "nat \<Rightarrow> nat" where
  "CMSG_SPACE n = SIZEOF_CMSGHDR + CMSG_ALIGN n"

text \<open>A pointer to a header is its offset in the buffer; \<open>None\<close> is the null pointer.\<close>

definition cmsg_len :: "byte list \<Rightarrow> nat \<Rightarrow> nat" where
  "cmsg_len buf p = le_nat (take 8 (drop p buf))"

definition cmsg_level :: "byte list \<Rightarrow> nat \<Rightarrow> int" where
  "cmsg_level buf p = bytes_int (take 4 (drop (p + 8) buf))"

definition cmsg_type :: "byte list \<Rightarrow> nat \<Rightarrow> int" where
  "cmsg_type buf p = bytes_int (take 4 (drop (p + 12) buf))"

definition CMSG_FIRSTHDR :: "byte list \<Rightarrow> nat option" where
  "CMSG_FIRSTHDR buf = (if length buf \<ge> SIZEOF_CMSGHDR then Some 0 else None)"

definition CMSG_NXTHDR :: "byte list \<Rightarrow> nat \<Rightarrow> nat option" where
  "CMSG_NXTHDR buf p =
     (if cmsg_len buf p < SIZEOF_CMSGHDR then None
      else
        (let q = p + CMSG_ALIGN (cmsg_len buf p)
         in if q + SIZEOF_CMSGHDR > length buf \<or> q + CMSG_ALIGN (cmsg_len buf q) > length buf then None else Some q))"

text \<open>Filling in a header and its data.\<close>

definition put_cmsg :: "nat \<Rightarrow> int \<Rightarrow> int \<Rightarrow> byte list \<Rightarrow> byte list \<Rightarrow> byte list option" where
  "put_cmsg p level type dat buf =
     Option.bind (mem_store p (le_bytes 8 (CMSG_LEN (length dat))) buf) (\<lambda>buf.
     Option.bind (mem_store (p + 8) (int_bytes level) buf) (\<lambda>buf.
     Option.bind (mem_store (p + 12) (int_bytes type) buf) (\<lambda>buf.
     mem_store (p + SIZEOF_CMSGHDR) dat buf)))"

section \<open>Blocks\<close>

text \<open>A block as it lies in memory, with \<open>pad\<close> after the data.\<close>

definition block :: "int \<Rightarrow> byte list \<Rightarrow> byte list \<Rightarrow> byte list" where
  "block type dat pad = le_bytes 8 (CMSG_LEN (length dat)) @ int_bytes SOL_SOCKET @ int_bytes type @ dat @ pad"

definition padded :: "byte list \<Rightarrow> byte list \<Rightarrow> bool" where
  "padded dat pad \<longleftrightarrow> length dat + length pad = CMSG_ALIGN (length dat) \<and> length dat < 2 ^ 32"

lemma length_block [simp]: "length (block type dat pad) = 16 + length dat + length pad"
  by (simp add: block_def)

lemma block_header [simp]:
  assumes "length dat < 2 ^ 32"
  shows "cmsg_len (a @ block type dat pad @ c) (length a) = CMSG_LEN (length dat)"
    "cmsg_level (a @ block type dat pad @ c) (length a) = SOL_SOCKET"
    "cmsg_type (a @ block type dat pad @ c) (length a) = to_int32 type"
    "mem_load (a @ block type dat pad @ c) (length a + 16) (length dat) = Some dat"
  using assms
  by (simp_all add: cmsg_len_def cmsg_level_def cmsg_type_def block_def CMSG_LEN_def mem_load_def SOL_SOCKET_def to_int32_def)

lemma put_cmsg_block:
  assumes "length b = 16 + length dat"
  shows "put_cmsg (length a) SOL_SOCKET type dat (a @ b @ c) = Some (a @ block type dat [] @ c)"
proof -
  define b1 b2 b3 b4 where "b1 = take 8 b" and "b2 = take 4 (drop 8 b)" and "b3 = take 4 (drop 12 b)" and "b4 = drop 16 b"
  have d: "drop 12 b = drop 4 (drop 8 b)" "drop 16 b = drop 4 (drop 12 b)" by simp_all
  have b: "b = b1 @ b2 @ b3 @ b4"
    unfolding b1_def b2_def b3_def b4_def d(2) append_take_drop_id d(1) by (rule refl)
  have l: "length b1 = 8" "length b2 = 4" "length b3 = 4" "length b4 = length dat"
    using assms by (simp_all add: b1_def b2_def b3_def b4_def)
  let ?l = "le_bytes 8 (CMSG_LEN (length dat))" and ?v = "int_bytes SOL_SOCKET" and ?t = "int_bytes type"
  have "mem_store (length a) ?l (a @ b @ c) = Some (a @ ?l @ b2 @ b3 @ b4 @ c)"
    using mem_store_append [of "length a" a b1 ?l "b2 @ b3 @ b4 @ c"] l b by simp
  moreover have "mem_store (length a + 8) ?v (a @ ?l @ b2 @ b3 @ b4 @ c) = Some (a @ ?l @ ?v @ b3 @ b4 @ c)"
    using mem_store_append [of "length a + 8" "a @ ?l" b2 ?v "b3 @ b4 @ c"] l by simp
  moreover have "mem_store (length a + 12) ?t (a @ ?l @ ?v @ b3 @ b4 @ c) = Some (a @ ?l @ ?v @ ?t @ b4 @ c)"
    using mem_store_append [of "length a + 12" "a @ ?l @ ?v" b3 ?t "b4 @ c"] l by simp
  moreover have "mem_store (length a + 16) dat (a @ ?l @ ?v @ ?t @ b4 @ c) = Some (a @ ?l @ ?v @ ?t @ dat @ c)"
    using mem_store_append [of "length a + 16" "a @ ?l @ ?v @ ?t" b4 dat c] l by simp
  ultimately show ?thesis by (simp add: put_cmsg_def block_def)
qed

section \<open>From block to block\<close>

lemma CMSG_ALIGN_header: "CMSG_ALIGN (CMSG_LEN n) = 16 + CMSG_ALIGN n"
proof -
  have "(23 + n) div 8 = 2 + (n + 7) div 8" using div_mult_self2 [of 8 "n + 7" 2] by simp
  then show ?thesis by (simp add: CMSG_ALIGN_def CMSG_LEN_def)
qed

lemma CMSG_ALIGN_ge: "n \<le> CMSG_ALIGN n"
  by (simp add: CMSG_ALIGN_def)

lemma CMSG_ALIGN_0 [simp]: "CMSG_ALIGN 0 = 0"
  by (simp add: CMSG_ALIGN_def)

lemma CMSG_NXTHDR_later:
  assumes "CMSG_NXTHDR buf p = Some q"
  shows "p < q \<and> q + 16 \<le> length buf"
  using assms CMSG_ALIGN_ge [of "cmsg_len buf p"]
  by (auto simp: CMSG_NXTHDR_def Let_def split: if_splits)

lemma CMSG_NXTHDR_block:
  assumes "padded dat pad"
  shows "CMSG_NXTHDR (a @ block type dat pad @ c) (length a) =
    (if length c < 16 \<or> CMSG_ALIGN (cmsg_len c 0) > length c then None else Some (length a + length (block type dat pad)))"
proof -
  have "cmsg_len (a @ block type dat pad @ c) (length a + length (block type dat pad)) = cmsg_len c 0"
    by (simp add: cmsg_len_def)
  moreover have "CMSG_ALIGN (cmsg_len (a @ block type dat pad @ c) (length a)) = length (block type dat pad)"
    "\<not> cmsg_len (a @ block type dat pad @ c) (length a) < 16"
    using assms by (simp_all add: padded_def CMSG_ALIGN_header) (simp add: CMSG_LEN_def)
  ultimately show ?thesis by (simp add: CMSG_NXTHDR_def Let_def)
qed

lemma CMSG_NXTHDR_last: "padded dat pad \<Longrightarrow> CMSG_NXTHDR (a @ block type dat pad) (length a) = None"
  using CMSG_NXTHDR_block [of dat pad a type "[]"] by simp

lemma CMSG_NXTHDR_next:
  assumes "padded dat pad" "padded dat' pad'"
  shows "CMSG_NXTHDR (a @ block type dat pad @ block type' dat' pad' @ c) (length a) = Some (length (a @ block type dat pad))"
proof -
  have "cmsg_len (block type' dat' pad' @ c) 0 = CMSG_LEN (length dat')"
    using block_header(1) [of dat' "[]"] assms(2) by (simp add: padded_def)
  then show ?thesis
    using assms by (simp add: CMSG_NXTHDR_block CMSG_ALIGN_header) (simp add: padded_def)
qed

lemma CMSG_NXTHDR_cleared:
  assumes "padded dat pad" "16 \<le> n"
  shows "CMSG_NXTHDR (a @ block type dat pad @ replicate n 0) (length a) = Some (length (a @ block type dat pad))"
proof -
  have "le_nat (replicate m 0) = 0" for m by (induction m) simp_all
  then have "cmsg_len (replicate n 0) 0 = 0" by (simp add: cmsg_len_def)
  then show ?thesis using assms by (simp add: CMSG_NXTHDR_block)
qed

end
