(* ===== verification/Scm_Passing.thy ===== *)
theory Scm_Passing
  imports Ancillary_Data Socket_Lib
begin

text \<open>
  Passing descriptors and credentials over UNIX domain sockets (\<^verbatim>\<open>sockets/scm_functions.c\<close>, \<^verbatim>\<open>scm_rights_send.c\<close>, \<^verbatim>\<open>scm_rights_recv.c\<close>,
  \<^verbatim>\<open>scm_cred_send.c\<close>, \<^verbatim>\<open>scm_cred_recv.c\<close>, \<^verbatim>\<open>scm_multi_send.c\<close>, \<^verbatim>\<open>scm_multi_recv.c\<close>). The system calls are arguments over an opaque state. Messages
  other than those about what was received are left out.
\<close>

section \<open>Credentials and system calls\<close>

record ucred =
  uc_pid :: int
  uc_uid :: int
  uc_gid :: int

definition ucred_bytes :: "ucred \<Rightarrow> byte list" where
  "ucred_bytes c = int_bytes (uc_pid c) @ int_bytes (uc_uid c) @ int_bytes (uc_gid c)"

definition bytes_ucred :: "byte list \<Rightarrow> ucred" where
  "bytes_ucred bs = \<lparr> uc_pid = bytes_int (take 4 bs), uc_uid = int (le_nat (take 4 (drop 4 bs))), uc_gid = int (le_nat (take 4 (drop 8 bs))) \<rparr>"

definition SIZEOF_UCRED :: nat where [simp]: "SIZEOF_UCRED = 12"

text \<open>\<^verbatim>\<open>pid_t\<close> is signed, \<^verbatim>\<open>uid_t\<close> and \<^verbatim>\<open>gid_t\<close> are not.\<close>

definition to_uid :: "int \<Rightarrow> int" where
  "to_uid i = i mod 2 ^ 32"

datatype scm_note = Received_Fd int | Received_Creds ucred | Ctrunc

record 'w scm_os =
  sc_sock :: "'w sock_os"
  sc_accept :: "int \<Rightarrow> 'w \<Rightarrow> int option \<times> 'w"
  sc_passcred :: "int \<Rightarrow> 'w \<Rightarrow> bool \<times> 'w"
  sc_peercred :: "int \<Rightarrow> 'w \<Rightarrow> bool \<times> 'w"
  sc_open :: "cstring \<Rightarrow> 'w \<Rightarrow> int option \<times> 'w"
  sc_read :: "int \<Rightarrow> nat \<Rightarrow> 'w \<Rightarrow> cstring option \<times> 'w"
  sc_write :: "cstring \<Rightarrow> 'w \<Rightarrow> 'w"
  sc_close :: "int \<Rightarrow> 'w \<Rightarrow> bool \<times> 'w"
  sc_malloc :: "nat \<Rightarrow> 'w \<Rightarrow> bool \<times> 'w"
  sc_getids :: "'w \<Rightarrow> ucred"
  sc_sendmsg :: "int \<Rightarrow> byte list \<Rightarrow> byte list \<Rightarrow> 'w \<Rightarrow> (errno + nat) \<times> 'w"
  sc_recvmsg :: "int \<Rightarrow> nat \<Rightarrow> nat \<Rightarrow> 'w \<Rightarrow> (errno + byte list \<times> byte list \<times> bool) \<times> 'w"
  sc_show :: "scm_note \<Rightarrow> 'w \<Rightarrow> 'w"
  sc_list_fds :: "'w \<Rightarrow> 'w"

text \<open>\<open>sc_sendmsg\<close> is given the real and the ancillary data. \<open>sc_recvmsg\<close> is given the sizes of the buffers for both; it yields both, as
  long as they are, and \<^verbatim>\<open>MSG_CTRUNC\<close>. In a buffer for ancillary data of \<open>bsize\<close> bytes no more may arrive.\<close>

definition recv_into :: "'w scm_os \<Rightarrow> nat \<Rightarrow> int \<Rightarrow> nat \<Rightarrow> nat \<Rightarrow> 'w \<Rightarrow> (errno + byte list \<times> byte list \<times> bool, 'w) outcome" where
  "recv_into os bsize sockfd iovlen controllen w =
     (case sc_recvmsg os sockfd iovlen controllen w of
        (Inr (dat, ctl, trunc), w) \<Rightarrow> if length ctl > bsize then Undef else Ret (Inr (dat, ctl, trunc)) w
      | (Inl e, w) \<Rightarrow> Ret (Inl e) w)"

definition or_exit :: "(errno + 'a, 'w) outcome \<Rightarrow> ('a, 'w) outcome" where
  "or_exit r = obind r (\<lambda>v w. case v of Inl e \<Rightarrow> Exit EXIT_FAILURE w | Inr a \<Rightarrow> Ret a w)"

section \<open>scm\_functions.c\<close>

text \<open>\<open>junk\<close> is what the array on the stack holds. The address of a header is that of the buffer, which has room for it.\<close>

definition dummyData :: "byte list" where
  "dummyData = int_bytes 12345"

definition sendfd :: "'w scm_os \<Rightarrow> byte list \<Rightarrow> int \<Rightarrow> int \<Rightarrow> byte list option \<Rightarrow> 'w \<Rightarrow> (int, 'w) outcome" where
  "sendfd os junk sockfd fd dat w =
     (case Option.bind (CMSG_FIRSTHDR junk) (\<lambda>p. put_cmsg p SOL_SOCKET SCM_RIGHTS (int_bytes fd) junk) of
        None \<Rightarrow> Undef
      | Some controlMsg \<Rightarrow>
          (case sc_sendmsg os sockfd (case dat of Some d \<Rightarrow> d | None \<Rightarrow> dummyData) controlMsg w of
             (Inl e, w) \<Rightarrow> Ret (- 1) w
           | (Inr ns, w) \<Rightarrow> Ret 0 w))"

text \<open>The real data goes to a buffer of the caller, \<open>dataLen\<close> bytes, or is ignored. The result of \<open>recvfd\<close> is a descriptor or an error.\<close>

definition recvfd :: "'w scm_os \<Rightarrow> int \<Rightarrow> nat option \<Rightarrow> 'w \<Rightarrow> (errno + int, 'w) outcome" where
  "recvfd os sockfd dataLen w =
     obind (recv_into os (CMSG_SPACE 4) sockfd (case dataLen of Some n \<Rightarrow> n | None \<Rightarrow> 4) (CMSG_SPACE 4) w) (\<lambda>r w.
       case r of
         Inl e \<Rightarrow> Ret (Inl e) w
       | Inr (dat, ctl, trunc) \<Rightarrow>
           (case CMSG_FIRSTHDR ctl of
              None \<Rightarrow> Ret (Inl EINVAL) w
            | Some p \<Rightarrow>
                if cmsg_len ctl p \<noteq> CMSG_LEN 4 \<or> cmsg_level ctl p \<noteq> SOL_SOCKET \<or> cmsg_type ctl p \<noteq> SCM_RIGHTS
                then Ret (Inl EINVAL) w
                else (case mem_load ctl (p + SIZEOF_CMSGHDR) 4 of None \<Rightarrow> Undef | Some bs \<Rightarrow> Ret (Inr (bytes_int bs)) w)))"

section \<open>What the programs share\<close>

definition SOCK_DGRAM :: int where "SOCK_DGRAM = 2"

text \<open>The options \<^verbatim>\<open>getopt()\<close> found, when all of them are known.\<close>

definition known_options :: "char list \<Rightarrow> char list \<Rightarrow> bool" where
  "known_options known opts \<longleftrightarrow> set opts \<subseteq> set known"

definition recv_socket :: "'w scm_os \<Rightarrow> cstring \<Rightarrow> bool \<Rightarrow> 'w \<Rightarrow> (int, 'w) outcome" where
  "recv_socket os path useDatagramSocket w =
     (case so_remove (sc_sock os) path w of
        (e, w) \<Rightarrow>
          if e \<noteq> None \<and> e \<noteq> Some ENOENT then Exit EXIT_FAILURE w
          else if useDatagramSocket then or_exit (unixBind (sc_sock os) (Some path) SOCK_DGRAM w)
          else
            obind (or_exit (unixBind (sc_sock os) (Some path) SOCK_STREAM w)) (\<lambda>lfd w.
            obind (must (\<lambda>w. case so_listen (sc_sock os) lfd 5 w of (e, w) \<Rightarrow> (e = None, w)) w) (\<lambda>_ w.
            must_get (sc_accept os lfd) w)))"

definition send_socket :: "'w scm_os \<Rightarrow> cstring \<Rightarrow> bool \<Rightarrow> 'w \<Rightarrow> (int, 'w) outcome" where
  "send_socket os path useDatagramSocket w =
     or_exit (unixConnect (sc_sock os) (Some path) (if useDatagramSocket then SOCK_DGRAM else SOCK_STREAM) w)"

definition scm_send :: "'w scm_os \<Rightarrow> int \<Rightarrow> byte list \<Rightarrow> byte list \<Rightarrow> 'w \<Rightarrow> (unit, 'w) outcome" where
  "scm_send os sfd dat ctl w = must (\<lambda>w. case sc_sendmsg os sfd dat ctl w of (r, w) \<Rightarrow> (\<not> isl r, w)) w"

text \<open>Reading an open file to its end and writing it to standard output; \<open>False\<close> when \<^verbatim>\<open>read()\<close> fails, \<open>None\<close> when the
  file has no end.\<close>

definition SCM_BUF_SIZE :: nat where [simp]: "SCM_BUF_SIZE = 100"

partial_function (option) copy_file :: "'w scm_os \<Rightarrow> int \<Rightarrow> 'w \<Rightarrow> (bool \<times> 'w) option" where
  "copy_file os fd w =
     (case sc_read os fd SCM_BUF_SIZE w of
        (None, w) \<Rightarrow> Some (False, w)
      | (Some bs, w) \<Rightarrow> if bs = [] then Some (True, w) else copy_file os fd (sc_write os bs w))"

section \<open>scm\_rights\_send.c and scm\_rights\_recv.c\<close>

definition RIGHTS_PATH :: cstring where "RIGHTS_PATH = ''scm_rights''"

definition rights_send :: "'w scm_os \<Rightarrow> char list \<Rightarrow> cstring list \<Rightarrow> 'w \<Rightarrow> (unit, 'w) outcome" where
  "rights_send os opts args w =
     (if \<not> known_options ''dv'' opts \<or> length args \<noteq> 1 then Exit EXIT_FAILURE w
      else
        obind (must_get (sc_open os (hd args)) w) (\<lambda>fd w.
          case Option.bind (CMSG_FIRSTHDR (replicate (CMSG_SPACE 4) 0)) (\<lambda>p.
              put_cmsg p SOL_SOCKET SCM_RIGHTS (int_bytes fd) (replicate (CMSG_SPACE 4) 0)) of
            None \<Rightarrow> Undef
          | Some controlMsg \<Rightarrow>
              obind (send_socket os RIGHTS_PATH (CHR ''d'' \<in> set opts) w) (\<lambda>sfd w.
              obind (scm_send os sfd dummyData controlMsg w) (\<lambda>_ w.
              obind (must (sc_close os fd) w) (\<lambda>_ w. Exit EXIT_SUCCESS w)))))"

definition rights_recv :: "'w scm_os \<Rightarrow> char list \<Rightarrow> 'w \<Rightarrow> (unit, 'w) outcome option" where
  "rights_recv os opts w =
     (if \<not> known_options ''dv'' opts then Some (Exit EXIT_FAILURE w)
      else
        obind_opt (recv_socket os RIGHTS_PATH (CHR ''d'' \<in> set opts) w) (\<lambda>sfd w.
        obind_opt (or_exit (recv_into os (CMSG_SPACE 4) sfd 4 (CMSG_SPACE 4) w)) (\<lambda>(dat, ctl, trunc) w.
          case CMSG_FIRSTHDR ctl of
            None \<Rightarrow> Some (Exit EXIT_FAILURE w)
          | Some p \<Rightarrow>
              if cmsg_len ctl p \<noteq> CMSG_LEN 4 \<or> cmsg_level ctl p \<noteq> SOL_SOCKET \<or> cmsg_type ctl p \<noteq> SCM_RIGHTS
              then Some (Exit EXIT_FAILURE w)
              else
                (case mem_load ctl (p + SIZEOF_CMSGHDR) 4 of
                   None \<Rightarrow> Some Undef
                 | Some bs \<Rightarrow>
                     let fd = bytes_int bs
                     in map_option (\<lambda>(ok, w). Exit (if ok then EXIT_SUCCESS else EXIT_FAILURE) w)
                          (copy_file os fd (sc_show os (Received_Fd fd) w))))))"

section \<open>scm\_cred\_send.c and scm\_cred\_recv.c\<close>

definition CRED_PATH :: cstring where "CRED_PATH = ''scm_cred''"

definition given_id :: "cstring list \<Rightarrow> nat \<Rightarrow> int \<Rightarrow> int" where
  "given_id args i own = (if i < length args \<and> args ! i \<noteq> ''-'' then atoi (args ! i) else own)"

definition explicit_creds :: "cstring list \<Rightarrow> ucred \<Rightarrow> ucred" where
  "explicit_creds args own = \<lparr> uc_pid = given_id args 0 (uc_pid own), uc_uid = to_uid (given_id args 1 (uc_uid own)), uc_gid = to_uid (given_id args 2 (uc_gid own)) \<rparr>"

definition cred_control :: "ucred \<Rightarrow> byte list option" where
  "cred_control c =
     (let buf = replicate (CMSG_SPACE SIZEOF_UCRED) 0
      in Option.bind (CMSG_FIRSTHDR buf) (\<lambda>p. put_cmsg p SOL_SOCKET SCM_CREDENTIALS (ucred_bytes c) buf))"

definition cred_send :: "'w scm_os \<Rightarrow> char list \<Rightarrow> cstring list \<Rightarrow> 'w \<Rightarrow> (unit, 'w) outcome" where
  "cred_send os opts args w =
     (if \<not> known_options ''dnv'' opts then Exit EXIT_FAILURE w
      else
        (case (if CHR ''n'' \<in> set opts then Some [] else cred_control (explicit_creds args (sc_getids os w))) of
           None \<Rightarrow> Undef
         | Some ctl \<Rightarrow>
             obind (send_socket os CRED_PATH (CHR ''d'' \<in> set opts) w) (\<lambda>sfd w.
             obind (scm_send os sfd dummyData ctl w) (\<lambda>_ w. Exit EXIT_SUCCESS w))))"

definition cred_recv :: "'w scm_os \<Rightarrow> char list \<Rightarrow> 'w \<Rightarrow> (unit, 'w) outcome" where
  "cred_recv os opts w =
     (if \<not> known_options ''dv'' opts then Exit EXIT_FAILURE w
      else
        obind (recv_socket os CRED_PATH (CHR ''d'' \<in> set opts) w) (\<lambda>sfd w.
        obind (must (sc_passcred os sfd) w) (\<lambda>_ w.
        obind (or_exit (recv_into os (CMSG_SPACE SIZEOF_UCRED) sfd 4 (CMSG_SPACE SIZEOF_UCRED) w)) (\<lambda>(dat, ctl, trunc) w.
          case CMSG_FIRSTHDR ctl of
            None \<Rightarrow> Exit EXIT_FAILURE w
          | Some p \<Rightarrow>
              if cmsg_len ctl p \<noteq> CMSG_LEN SIZEOF_UCRED \<or> cmsg_level ctl p \<noteq> SOL_SOCKET \<or> cmsg_type ctl p \<noteq> SCM_CREDENTIALS
              then Exit EXIT_FAILURE w
              else
                (case mem_load ctl (p + SIZEOF_CMSGHDR) SIZEOF_UCRED of
                   None \<Rightarrow> Undef
                 | Some bs \<Rightarrow> obind (must (sc_peercred os sfd) (sc_show os (Received_Creds (bytes_ucred bs)) w)) (\<lambda>_ w. Exit EXIT_SUCCESS w))))))"

section \<open>scm\_multi\_send.c and scm\_multi\_recv.c\<close>

definition MULTI_PATH :: cstring where "MULTI_PATH = ''scm_multi''"
definition MAX_FDS :: nat where [simp]: "MAX_FDS = 1024"

record multi_opts =
  useDatagramSocket :: bool
  sendData :: bool
  mo_creds :: ucred

fun multi_send_options :: "(char \<times> cstring) list \<Rightarrow> multi_opts \<Rightarrow> multi_opts option" where
  "multi_send_options [] o1 = Some o1"
| "multi_send_options ((opt, optarg) # opts) o1 =
     (if opt = CHR ''d'' then multi_send_options opts (o1\<lparr> useDatagramSocket := True \<rparr>)
      else if opt = CHR ''n'' then multi_send_options opts (o1\<lparr> sendData := False \<rparr>)
      else if opt = CHR ''p'' then multi_send_options opts (o1\<lparr> mo_creds := (mo_creds o1)\<lparr> uc_pid := atoi optarg \<rparr> \<rparr>)
      else if opt = CHR ''u'' then multi_send_options opts (o1\<lparr> mo_creds := (mo_creds o1)\<lparr> uc_uid := to_uid (atoi optarg) \<rparr> \<rparr>)
      else if opt = CHR ''g'' then multi_send_options opts (o1\<lparr> mo_creds := (mo_creds o1)\<lparr> uc_gid := to_uid (atoi optarg) \<rparr> \<rparr>)
      else None)"

text \<open>The descriptors of the files, opened in order.\<close>

fun open_all :: "'w scm_os \<Rightarrow> cstring list \<Rightarrow> 'w \<Rightarrow> (int list, 'w) outcome" where
  "open_all os [] w = Ret [] w"
| "open_all os (f # fs) w =
     obind (must_get (sc_open os f) w) (\<lambda>fd w. obind (open_all os fs w) (\<lambda>fds w. Ret (fd # fds) w))"

definition fd_bytes :: "int list \<Rightarrow> byte list" where
  "fd_bytes fds = concat (map int_bytes fds)"

text \<open>The ancillary data: a block of descriptors, then one with credentials. The number of descriptors determines the size.\<close>

definition multi_size :: "nat \<Rightarrow> nat" where
  "multi_size fdCnt = CMSG_SPACE (4 * fdCnt) + CMSG_SPACE SIZEOF_UCRED"

definition multi_control :: "int list \<Rightarrow> ucred \<Rightarrow> byte list option" where
  "multi_control fdList creds =
     (let buf = replicate (multi_size (length fdList)) 0
      in Option.bind (CMSG_FIRSTHDR buf) (\<lambda>p.
         Option.bind (put_cmsg p SOL_SOCKET SCM_RIGHTS (fd_bytes fdList) buf) (\<lambda>buf.
         Option.bind (CMSG_NXTHDR buf p) (\<lambda>p.
         put_cmsg p SOL_SOCKET SCM_CREDENTIALS (ucred_bytes creds) buf))))"

definition multi_send :: "'w scm_os \<Rightarrow> (char \<times> cstring) list \<Rightarrow> cstring list \<Rightarrow> 'w \<Rightarrow> (unit, 'w) outcome" where
  "multi_send os opts files w =
     (case multi_send_options opts \<lparr> useDatagramSocket = False, sendData = True, mo_creds = sc_getids os w \<rparr> of
        None \<Rightarrow> Exit EXIT_FAILURE w
      | Some o1 \<Rightarrow>
          if files = [] then Exit EXIT_FAILURE w
          else
            obind (must (sc_malloc os (multi_size (length files))) w) (\<lambda>_ w.
            obind (must (sc_malloc os (4 * length files)) w) (\<lambda>_ w.
            obind (open_all os files w) (\<lambda>fdList w.
              case multi_control fdList (mo_creds o1) of
                None \<Rightarrow> Undef
              | Some controlMsg \<Rightarrow>
                  obind (send_socket os MULTI_PATH (useDatagramSocket o1) w) (\<lambda>sfd w.
                  obind (scm_send os sfd (if sendData o1 then dummyData else []) controlMsg w) (\<lambda>_ w. Exit EXIT_SUCCESS w))))))"

fun show_fds :: "'w scm_os \<Rightarrow> int list \<Rightarrow> 'w \<Rightarrow> (unit, 'w) outcome option" where
  "show_fds os [] w = Some (Ret () w)"
| "show_fds os (fd # fds) w =
     (case copy_file os fd (sc_show os (Received_Fd fd) w) of
        None \<Rightarrow> None
      | Some (ok, w) \<Rightarrow> if ok then obind_opt (must (sc_close os fd) w) (\<lambda>_ w. show_fds os fds w) else Some (Exit EXIT_FAILURE w))"

text \<open>The number of descriptors is computed in \<^verbatim>\<open>size_t\<close> and converted to \<^verbatim>\<open>int\<close>.\<close>

definition fd_count :: "nat \<Rightarrow> int" where
  "fd_count len = to_int32 (int ((len + (2 ^ 64 - CMSG_LEN 0)) mod 2 ^ 64 div 4))"

definition fd_list :: "nat \<Rightarrow> byte list \<Rightarrow> int list" where
  "fd_list n dat = map (\<lambda>j. bytes_int (take 4 (drop (4 * j) dat))) [0..<n]"

definition recv_block :: "'w scm_os \<Rightarrow> byte list \<Rightarrow> nat \<Rightarrow> 'w \<Rightarrow> (unit, 'w) outcome option" where
  "recv_block os ctl p w =
     (if cmsg_level ctl p \<noteq> SOL_SOCKET then Some (Exit EXIT_FAILURE w)
      else if cmsg_type ctl p = SCM_RIGHTS then
        (let fdCnt = fd_count (cmsg_len ctl p);
             fdAllocSize = nat (4 * fdCnt mod 2 ^ 64)
         in obind_opt (must (sc_malloc os fdAllocSize) w) (\<lambda>_ w.
              case mem_load ctl (p + SIZEOF_CMSGHDR) fdAllocSize of
                None \<Rightarrow> Some Undef
              | Some dat \<Rightarrow> show_fds os (fd_list (nat fdCnt) dat) w))
      else if cmsg_type ctl p = SCM_CREDENTIALS then
        (if cmsg_len ctl p \<noteq> CMSG_LEN SIZEOF_UCRED then Some (Exit EXIT_FAILURE w)
         else
           (case mem_load ctl (p + SIZEOF_CMSGHDR) SIZEOF_UCRED of
              None \<Rightarrow> Some Undef
            | Some bs \<Rightarrow> Some (Ret () (sc_show os (Received_Creds (bytes_ucred bs)) w))))
      else Some (Exit EXIT_FAILURE w))"

function recv_walk :: "'w scm_os \<Rightarrow> byte list \<Rightarrow> nat \<Rightarrow> 'w \<Rightarrow> (unit, 'w) outcome option" where
  "recv_walk os ctl p w =
     (case recv_block os ctl p w of
        Some (Ret _ w) \<Rightarrow> (case CMSG_NXTHDR ctl p of None \<Rightarrow> Some (Ret () w) | Some q \<Rightarrow> recv_walk os ctl q w)
      | r \<Rightarrow> r)"
  by pat_completeness auto
termination
  by (relation "measure (\<lambda>(os, ctl, p, w). length ctl - p)") (auto dest: CMSG_NXTHDR_later)

declare recv_walk.simps [simp del]

fun multi_recv_options :: "(char \<times> cstring) list \<Rightarrow> bool \<times> int \<Rightarrow> (bool \<times> int) option" where
  "multi_recv_options [] dn = Some dn"
| "multi_recv_options ((opt, optarg) # opts) dn =
     (if opt = CHR ''d'' then multi_recv_options opts (True, snd dn)
      else if opt = CHR ''n'' then multi_recv_options opts (fst dn, atoi optarg)
      else None)"

definition multi_recv :: "'w scm_os \<Rightarrow> (char \<times> cstring) list \<Rightarrow> 'w \<Rightarrow> (unit, 'w) outcome option" where
  "multi_recv os opts w =
     (let controlMsgSize = multi_size MAX_FDS
      in obind_opt (must (sc_malloc os controlMsgSize) w) (\<lambda>_ w.
           case multi_recv_options opts (False, - 1) of
             None \<Rightarrow> Some (Exit EXIT_FAILURE w)
           | Some (dgram, optControlMsgSize) \<Rightarrow>
               obind_opt (recv_socket os MULTI_PATH dgram w) (\<lambda>sfd w.
               obind_opt (must (sc_passcred os sfd) w) (\<lambda>_ w.
               obind_opt (or_exit (recv_into os controlMsgSize sfd 4
                   (if optControlMsgSize = - 1 then controlMsgSize else nat (optControlMsgSize mod 2 ^ 64)) w)) (\<lambda>(dat, ctl, trunc) w.
                 let w = (if optControlMsgSize \<noteq> - 1 then sc_list_fds os w else w);
                     w = (if trunc then sc_show os Ctrunc w else w)
                 in case CMSG_FIRSTHDR ctl of
                      None \<Rightarrow> Some (Exit EXIT_SUCCESS w)
                    | Some p \<Rightarrow> map_option (\<lambda>r. obind r (\<lambda>_ w. Exit EXIT_SUCCESS w)) (recv_walk os ctl p w))))))"

section \<open>The control messages of the senders\<close>

lemma length_ucred_bytes [simp]: "length (ucred_bytes c) = 12"
  by (simp add: ucred_bytes_def)

lemma length_fd_bytes [simp]: "length (fd_bytes fds) = 4 * length fds"
  by (induction fds) (simp_all add: fd_bytes_def)

definition pad_for :: "byte list \<Rightarrow> byte list" where
  "pad_for dat = replicate (CMSG_ALIGN (length dat) - length dat) 0"

lemma padded_pad_for [simp]: "padded dat (pad_for dat) \<longleftrightarrow> length dat < 2 ^ 32"
  using CMSG_ALIGN_ge [of "length dat"] by (simp add: padded_def pad_for_def)

lemma block_pad: "block type dat [] @ pad = block type dat pad"
  by (simp add: block_def)

lemma put_first:
  "put_cmsg 0 SOL_SOCKET type dat (b @ c) = Some (block type dat c)" if "length b = 16 + length dat"
  using put_cmsg_block [OF that, of "[]" type c] by (simp add: block_pad)

lemma control_one:
  assumes "length buf = CMSG_SPACE (length dat)"
  shows "Option.bind (CMSG_FIRSTHDR buf) (\<lambda>p. put_cmsg p SOL_SOCKET type dat buf) = Some (block type dat (drop (16 + length dat) buf))"
proof -
  let ?b = "take (16 + length dat) buf" and ?c = "drop (16 + length dat) buf"
  have l: "length ?b = 16 + length dat" using assms CMSG_ALIGN_ge [of "length dat"] by (simp add: CMSG_SPACE_def)
  have f: "CMSG_FIRSTHDR buf = Some 0" using assms by (simp add: CMSG_FIRSTHDR_def CMSG_SPACE_def)
  show ?thesis using put_first [OF l, of type ?c] f by (simp only: append_take_drop_id bind.bind_lunit)
qed

lemma replicate_split: "n = i + j + k \<Longrightarrow> replicate n x = replicate i x @ replicate j x @ replicate k x"
  by (simp add: replicate_add)

lemma multi_control_blocks:
  assumes "4 * length fds < (2 :: nat) ^ 32"
  shows "multi_control fds c =
    Some (block SCM_RIGHTS (fd_bytes fds) (pad_for (fd_bytes fds)) @ block SCM_CREDENTIALS (ucred_bytes c) (pad_for (ucred_bytes c)))"
proof -
  let ?f = "fd_bytes fds" and ?u = "ucred_bytes c"
  let ?n = "multi_size (length fds)" and ?b = "block SCM_RIGHTS ?f (pad_for ?f)"
  have n: "?n = (16 + length ?f) + length (pad_for ?f) + CMSG_SPACE SIZEOF_UCRED"
    using CMSG_ALIGN_ge [of "length ?f"] by (simp add: multi_size_def CMSG_SPACE_def pad_for_def)
  have r: "replicate ?n 0 = replicate (16 + length ?f) 0 @ pad_for ?f @ replicate (CMSG_SPACE SIZEOF_UCRED) 0"
    using replicate_split [OF n] by (simp add: pad_for_def)
  have first: "CMSG_FIRSTHDR (replicate ?n 0) = Some 0" by (simp add: CMSG_FIRSTHDR_def multi_size_def CMSG_SPACE_def)
  have put1: "put_cmsg 0 SOL_SOCKET SCM_RIGHTS ?f (replicate ?n 0) = Some (?b @ replicate (CMSG_SPACE SIZEOF_UCRED) 0)"
    unfolding r by (subst put_first) (simp_all add: block_def)
  have next2: "CMSG_NXTHDR (?b @ replicate (CMSG_SPACE SIZEOF_UCRED) 0) 0 = Some (length ?b)"
    using CMSG_NXTHDR_cleared [of ?f "pad_for ?f" "CMSG_SPACE SIZEOF_UCRED" "[]"] assms by (simp add: CMSG_SPACE_def)
  have m: "CMSG_SPACE SIZEOF_UCRED = (16 + length ?u) + length (pad_for ?u)"
    by (simp add: CMSG_SPACE_def pad_for_def CMSG_ALIGN_def)
  have put2: "put_cmsg (length ?b) SOL_SOCKET SCM_CREDENTIALS ?u (?b @ replicate (CMSG_SPACE SIZEOF_UCRED) 0) =
      Some (?b @ block SCM_CREDENTIALS ?u (pad_for ?u))"
    unfolding m replicate_add
    by (subst put_cmsg_block) (simp_all add: block_def pad_for_def)
  show ?thesis by (simp add: multi_control_def first put1 next2 put2 del: length_block SIZEOF_UCRED_def)
qed

section \<open>What the receiver sees\<close>

datatype cblock = Rights "int list" | Creds ucred

fun cblock_bytes :: "cblock \<times> byte list \<Rightarrow> byte list" where
  "cblock_bytes (Rights fds, pad) = block SCM_RIGHTS (fd_bytes fds) pad"
| "cblock_bytes (Creds c, pad) = block SCM_CREDENTIALS (ucred_bytes c) pad"

fun cblock_ok :: "cblock \<times> byte list \<Rightarrow> bool" where
  "cblock_ok (Rights fds, pad) \<longleftrightarrow> padded (fd_bytes fds) pad \<and> (\<forall>fd\<in>set fds. 0 \<le> fd \<and> fd \<le> INT_MAX)"
| "cblock_ok (Creds c, pad) \<longleftrightarrow> padded (ucred_bytes c) pad \<and> 0 \<le> uc_pid c \<and> uc_pid c \<le> INT_MAX \<and>
     to_uid (uc_uid c) = uc_uid c \<and> to_uid (uc_gid c) = uc_gid c"

definition control_of :: "(cblock \<times> byte list) list \<Rightarrow> byte list" where
  "control_of bl = concat (map cblock_bytes bl)"

fun cblock_fds :: "cblock \<Rightarrow> int list" where
  "cblock_fds (Rights fds) = fds"
| "cblock_fds (Creds c) = []"

fun cblock_notes :: "cblock \<Rightarrow> scm_note list" where
  "cblock_notes (Rights fds) = map Received_Fd fds"
| "cblock_notes (Creds c) = [Received_Creds c]"

text \<open>How reading, writing and closing behave: \<open>contents w fd\<close> is what is left to read of an open descriptor, \<open>out w\<close> what was written
  to standard output and \<open>said w\<close> what was reported.\<close>

definition file_kernel :: "'w scm_os \<Rightarrow> ('w \<Rightarrow> int \<Rightarrow> cstring option) \<Rightarrow> ('w \<Rightarrow> cstring) \<Rightarrow> ('w \<Rightarrow> scm_note list) \<Rightarrow> bool" where
  "file_kernel os contents out said \<longleftrightarrow>
     (\<forall>w fd c. contents w fd = Some c \<longrightarrow>
        (\<exists>n w'. sc_read os fd SCM_BUF_SIZE w = (Some (take n c), w') \<and> n \<le> SCM_BUF_SIZE \<and> (n = 0 \<longrightarrow> c = []) \<and>
           contents w' = (contents w)(fd \<mapsto> drop n c) \<and> out w' = out w \<and> said w' = said w)) \<and>
     (\<forall>w bs. contents (sc_write os bs w) = contents w \<and> out (sc_write os bs w) = out w @ bs \<and> said (sc_write os bs w) = said w) \<and>
     (\<forall>w fd c. contents w fd = Some c \<longrightarrow>
        (\<exists>w'. sc_close os fd w = (True, w') \<and> contents w' = (contents w)(fd := None) \<and> out w' = out w \<and> said w' = said w)) \<and>
     (\<forall>w x. contents (sc_show os x w) = contents w \<and> out (sc_show os x w) = out w \<and> said (sc_show os x w) = said w @ [x]) \<and>
     (\<forall>w n. \<exists>w'. sc_malloc os n w = (True, w') \<and> contents w' = contents w \<and> out w' = out w \<and> said w' = said w) \<and>
     (\<forall>w. contents (sc_list_fds os w) = contents w \<and> out (sc_list_fds os w) = out w \<and> said (sc_list_fds os w) = said w)"

lemma restrict_map_UNIV [simp]: "m |` UNIV = m"
  by (simp add: restrict_map_def)

lemma copy_file_ends:
  assumes k: "file_kernel os contents out said"
  shows "contents w fd = Some c \<Longrightarrow>
    \<exists>w'. copy_file os fd w = Some (True, w') \<and> contents w' = (contents w)(fd \<mapsto> []) \<and> out w' = out w @ c \<and> said w' = said w"
proof (induction c arbitrary: w rule: length_induct)
  case (1 c)
  obtain n w1 where r: "sc_read os fd SCM_BUF_SIZE w = (Some (take n c), w1)" "n = 0 \<longrightarrow> c = []"
    "contents w1 = (contents w)(fd \<mapsto> drop n c)" "out w1 = out w" "said w1 = said w"
    using k 1(2) unfolding file_kernel_def by blast
  show ?case
  proof (cases "c = []")
    case True
    then show ?thesis using r by (subst copy_file.simps) auto
  next
    case False
    let ?w = "sc_write os (take n c) w1"
    have w: "contents ?w = (contents w)(fd \<mapsto> drop n c)" "out ?w = out w @ take n c" "said ?w = said w"
      using k r unfolding file_kernel_def by simp_all
    have l: "length (drop n c) < length c" "contents ?w fd = Some (drop n c)" using False r(2) w(1) by auto
    obtain w' where "copy_file os fd ?w = Some (True, w')" "contents w' = (contents ?w)(fd \<mapsto> [])" "out w' = out ?w @ drop n c" "said w' = said ?w"
      using "1.IH" l by blast
    then show ?thesis using r(1,2) False w by (subst copy_file.simps) auto
  qed
qed

lemma show_fds_shows:
  assumes k: "file_kernel os contents out said"
  shows "distinct fds \<Longrightarrow> \<forall>fd\<in>set fds. contents w fd \<noteq> None \<Longrightarrow>
    \<exists>w'. show_fds os fds w = Some (Ret () w') \<and> contents w' = contents w |` (- set fds) \<and>
      out w' = out w @ concat (map (\<lambda>fd. the (contents w fd)) fds) \<and> said w' = said w @ map Received_Fd fds"
proof (induction fds arbitrary: w)
  case (Cons fd fds)
  obtain c where c: "contents w fd = Some c" using Cons.prems(2) by auto
  let ?w = "sc_show os (Received_Fd fd) w"
  have w: "contents ?w = contents w" "out ?w = out w" "said ?w = said w @ [Received_Fd fd]"
    using k unfolding file_kernel_def by simp_all
  obtain w1 where w1: "copy_file os fd ?w = Some (True, w1)" "contents w1 = (contents w)(fd \<mapsto> [])" "out w1 = out w @ c" "said w1 = said w @ [Received_Fd fd]"
    using copy_file_ends [OF k, of ?w fd c] w c by auto
  have "contents w1 fd = Some []" by (simp add: w1(2))
  then obtain w2 where w2: "sc_close os fd w1 = (True, w2)" "contents w2 = (contents w1)(fd := None)" "out w2 = out w1" "said w2 = said w1"
    using k unfolding file_kernel_def by blast
  have c2: "contents w2 = (contents w)(fd := None)" using w2(2) w1(2) by simp
  have "\<forall>f\<in>set fds. contents w2 f \<noteq> None" using Cons.prems c2 by auto
  then obtain w' where w': "show_fds os fds w2 = Some (Ret () w')" "contents w' = contents w2 |` (- set fds)"
    "out w' = out w2 @ concat (map (\<lambda>fd. the (contents w2 fd)) fds)" "said w' = said w2 @ map Received_Fd fds"
    using Cons.IH [of w2] Cons.prems(1) by auto
  have m: "map (\<lambda>fd. the (contents w2 fd)) fds = map (\<lambda>fd. the (contents w fd)) fds"
    using Cons.prems(1) c2 by auto
  have "contents w2 |` (- set fds) = contents w |` (- set (fd # fds))" unfolding c2 by (auto simp: restrict_map_def)
  moreover have "out w' = out w @ concat (map (\<lambda>fd. the (contents w fd)) (fd # fds))"
    unfolding w'(3) m w2(3) w1(3) by (simp add: c)
  moreover have "said w' = said w @ map Received_Fd (fd # fds)" by (simp add: w'(4) w2(4) w1(4))
  moreover have "show_fds os (fd # fds) w = Some (Ret () w')" using w1(1) w2(1) w'(1) by (simp add: must_def)
  ultimately show ?case using w'(2) by metis
qed simp

section \<open>Walking through the blocks\<close>

lemma drop_fd_bytes: "drop (4 * j) (fd_bytes fds) = fd_bytes (drop j fds)"
proof (induction fds arbitrary: j)
  case (Cons fd fds)
  then show ?case by (cases j) (simp_all add: fd_bytes_def)
qed (simp add: fd_bytes_def)

lemma fd_list_fd_bytes:
  assumes "\<forall>fd\<in>set fds. 0 \<le> fd \<and> fd \<le> INT_MAX"
  shows "fd_list (length fds) (fd_bytes fds) = fds"
proof (rule nth_equalityI)
  fix j
  assume "j < length (fd_list (length fds) (fd_bytes fds))"
  then have j: "j < length fds" by (simp add: fd_list_def)
  then have "take 4 (fd_bytes (drop j fds)) = int_bytes (fds ! j)"
    by (simp add: fd_bytes_def flip: Cons_nth_drop_Suc)
  moreover have "to_int32 (fds ! j) = fds ! j" using assms nth_mem [OF j] by (intro to_int32_id) (simp_all add: limit_defs order_trans [of "- 2147483648" 0])
  ultimately show "fd_list (length fds) (fd_bytes fds) ! j = fds ! j"
    using j by (simp add: fd_list_def drop_fd_bytes)
qed (simp add: fd_list_def)

lemma bytes_ucred_ucred_bytes:
  assumes "0 \<le> uc_pid c" "uc_pid c \<le> INT_MAX" "to_uid (uc_uid c) = uc_uid c" "to_uid (uc_gid c) = uc_gid c"
  shows "bytes_ucred (ucred_bytes c) = c"
proof -
  have "int (le_nat (int_bytes i)) = i mod 2 ^ 32" for i by (simp add: int_bytes_def)
  then show ?thesis
    using assms by (simp add: bytes_ucred_def ucred_bytes_def to_uid_def to_int32_id limit_defs)
qed

lemma fd_count_blocks: "4 * n < 2 ^ 32 \<Longrightarrow> fd_count (CMSG_LEN (4 * n)) = int n"
  by (simp add: fd_count_def CMSG_LEN_def to_int32_def)

lemma recv_block_shows:
  assumes k: "file_kernel os contents out said" and ok: "cblock_ok (b, pad)"
    and d: "distinct (cblock_fds b)" "\<forall>fd\<in>set (cblock_fds b). contents w fd \<noteq> None"
  shows "\<exists>w'. recv_block os (a @ cblock_bytes (b, pad) @ c) (length a) w = Some (Ret () w') \<and>
    contents w' = contents w |` (- set (cblock_fds b)) \<and>
    out w' = out w @ concat (map (\<lambda>fd. the (contents w fd)) (cblock_fds b)) \<and> said w' = said w @ cblock_notes b"
proof (cases b)
  case (Rights fds)
  have l: "length (fd_bytes fds) < 2 ^ 32" "4 * length fds < 2 ^ 32" and fds: "\<forall>fd\<in>set fds. 0 \<le> fd \<and> fd \<le> INT_MAX"
    using ok Rights by (auto simp: padded_def)
  obtain w1 where w1: "sc_malloc os (4 * length fds) w = (True, w1)" "contents w1 = contents w" "out w1 = out w" "said w1 = said w"
    using k unfolding file_kernel_def by blast
  obtain w' where w': "show_fds os fds w1 = Some (Ret () w')" "contents w' = contents w1 |` (- set fds)"
    "out w' = out w1 @ concat (map (\<lambda>fd. the (contents w1 fd)) fds)" "said w' = said w1 @ map Received_Fd fds"
    using show_fds_shows [OF k, of fds w1] d w1(2) Rights by auto
  have n: "nat (4 * fd_count (CMSG_LEN (4 * length fds)) mod 2 ^ 64) = 4 * length fds"
    using l(2) by (simp add: fd_count_blocks)
  note h = block_header [OF l(1), of a SCM_RIGHTS pad c]
  have "recv_block os (a @ cblock_bytes (b, pad) @ c) (length a) w = show_fds os fds w1"
    using h w1(1) n Rights fds l(2)
    by (simp add: recv_block_def SCM_RIGHTS_def to_int32_def Let_def must_def fd_count_blocks fd_list_fd_bytes)
  then show ?thesis using w' w1 Rights by simp
next
  case (Creds u)
  have l: "length (ucred_bytes u) < 2 ^ 32" by simp
  note h = block_header [OF l, of a SCM_CREDENTIALS pad c]
  have u: "bytes_ucred (ucred_bytes u) = u" using ok Creds by (intro bytes_ucred_ucred_bytes) simp_all
  have "recv_block os (a @ cblock_bytes (b, pad) @ c) (length a) w = Some (Ret () (sc_show os (Received_Creds u) w))"
    using h Creds u by (simp add: recv_block_def SCM_RIGHTS_def SCM_CREDENTIALS_def to_int32_def)
  moreover have "contents (sc_show os x w) = contents w \<and> out (sc_show os x w) = out w \<and> said (sc_show os x w) = said w @ [x]" for x
    using k unfolding file_kernel_def by blast
  ultimately show ?thesis using Creds by simp
qed

lemma cblock_bytes_block:
  assumes "cblock_ok bp"
  obtains type dat pad where "cblock_bytes bp = block type dat pad" "padded dat pad"
  using assms by (cases bp rule: cblock_ok.cases) auto

definition all_fds :: "(cblock \<times> byte list) list \<Rightarrow> int list" where
  "all_fds bl = concat (map (\<lambda>bp. cblock_fds (fst bp)) bl)"

definition all_notes :: "(cblock \<times> byte list) list \<Rightarrow> scm_note list" where
  "all_notes bl = concat (map (\<lambda>bp. cblock_notes (fst bp)) bl)"

lemma all_simps [simp]: "all_fds [] = []" "all_fds (bp # bl) = cblock_fds (fst bp) @ all_fds bl"
  "all_notes [] = []" "all_notes (bp # bl) = cblock_notes (fst bp) @ all_notes bl"
  by (simp_all add: all_fds_def all_notes_def)

lemma recv_walk_shows:
  assumes k: "file_kernel os contents out said"
  shows "\<forall>bp\<in>set (bp # bl). cblock_ok bp \<Longrightarrow> distinct (all_fds (bp # bl)) \<Longrightarrow>
    \<forall>fd\<in>set (all_fds (bp # bl)). contents w fd \<noteq> None \<Longrightarrow>
    \<exists>w'. recv_walk os (a @ control_of (bp # bl)) (length a) w = Some (Ret () w') \<and>
      contents w' = contents w |` (- set (all_fds (bp # bl))) \<and>
      out w' = out w @ concat (map (\<lambda>fd. the (contents w fd)) (all_fds (bp # bl))) \<and>
      said w' = said w @ all_notes (bp # bl)"
proof (induction bl arbitrary: bp a w)
  case Nil
  obtain b pad where bp: "bp = (b, pad)" by fastforce
  obtain w1 where w1: "recv_block os (a @ cblock_bytes bp) (length a) w = Some (Ret () w1)"
    "contents w1 = contents w |` (- set (cblock_fds b))"
    "out w1 = out w @ concat (map (\<lambda>fd. the (contents w fd)) (cblock_fds b))" "said w1 = said w @ cblock_notes b"
    using recv_block_shows [OF k, of b pad w a "[]"] Nil.prems bp by auto
  obtain type dat pad' where bb: "cblock_bytes bp = block type dat pad'" "padded dat pad'"
    using cblock_bytes_block Nil.prems(1) by (metis list.set_intros(1))
  have "CMSG_NXTHDR (a @ cblock_bytes bp) (length a) = None" unfolding bb by (rule CMSG_NXTHDR_last) (rule bb)
  then show ?case using w1 bp by (subst recv_walk.simps) (simp add: control_of_def)
next
  case (Cons bp2 bl)
  obtain b pad where bp: "bp = (b, pad)" by fastforce
  obtain w1 where w1: "recv_block os (a @ cblock_bytes bp @ control_of (bp2 # bl)) (length a) w = Some (Ret () w1)"
    "contents w1 = contents w |` (- set (cblock_fds b))"
    "out w1 = out w @ concat (map (\<lambda>fd. the (contents w fd)) (cblock_fds b))" "said w1 = said w @ cblock_notes b"
    using recv_block_shows [OF k, of b pad w a "control_of (bp2 # bl)"] Cons.prems bp by auto
  obtain type dat pad' where bb: "cblock_bytes bp = block type dat pad'" "padded dat pad'"
    using cblock_bytes_block Cons.prems(1) by (metis list.set_intros(1))
  obtain type2 dat2 pad2 where bb2: "cblock_bytes bp2 = block type2 dat2 pad2" "padded dat2 pad2"
    using cblock_bytes_block Cons.prems(1) by (metis list.set_intros)
  have nx: "CMSG_NXTHDR (a @ cblock_bytes bp @ control_of (bp2 # bl)) (length a) = Some (length (a @ cblock_bytes bp))"
    using CMSG_NXTHDR_next [OF bb(2) bb2(2), of a type type2 "control_of bl"] bb(1) bb2(1) by (simp add: control_of_def)
  let ?r = "all_fds (bp2 # bl)"
  have dis: "set (cblock_fds b) \<inter> set ?r = {}" using Cons.prems(2) bp by auto
  have same: "contents w1 fd = contents w fd" if "fd \<in> set ?r" for fd
  proof -
    have "fd \<notin> set (cblock_fds b)" using that dis by blast
    then show ?thesis by (simp add: w1(2))
  qed
  have op: "\<forall>fd\<in>set ?r. contents w1 fd \<noteq> None" using Cons.prems(3) bp same by auto
  obtain w' where w': "recv_walk os ((a @ cblock_bytes bp) @ control_of (bp2 # bl)) (length (a @ cblock_bytes bp)) w1 = Some (Ret () w')"
    "contents w' = contents w1 |` (- set ?r)" "out w' = out w1 @ concat (map (\<lambda>fd. the (contents w1 fd)) ?r)"
    "said w' = said w1 @ all_notes (bp2 # bl)"
    using Cons.IH [of bp2 w1 "a @ cblock_bytes bp"] Cons.prems(1,2) op by auto
  have eq: "map (\<lambda>fd. the (contents w1 fd)) ?r = map (\<lambda>fd. the (contents w fd)) ?r"
    using same by (intro map_cong) auto
  have "out w' = out w @ concat (map (\<lambda>fd. the (contents w fd)) (all_fds (bp # bp2 # bl)))"
    unfolding w'(3) eq w1(3) using bp by simp
  moreover have "recv_walk os (a @ control_of (bp # bp2 # bl)) (length a) w = Some (Ret () w')"
    using w1(1) nx w'(1) by (subst recv_walk.simps) (simp add: control_of_def)
  moreover have "contents w' = contents w |` (- set (all_fds (bp # bp2 # bl)))"
    unfolding w'(2) w1(2) using bp by (auto simp: restrict_map_def)
  moreover have "said w' = said w @ all_notes (bp # bp2 # bl)" using w'(4) w1(4) bp by simp
  ultimately show ?case by blast
qed

section \<open>The programs\<close>

lemma open_all_length: "open_all os files w = Ret fds w' \<Longrightarrow> length fds = length files"
  by (induction files arbitrary: w fds w') (auto simp: obind_Ret_iff)

lemma obind_Undef_iff: "obind m f = Undef \<longleftrightarrow> m = Undef \<or> (\<exists>a s. m = Ret a s \<and> f a s = Undef)"
  by (cases m) auto

lemma calls_not_Undef [simp]: "must f w \<noteq> Undef" "must_get g w \<noteq> Undef"
  by (simp_all add: must_def must_get_def split: prod.splits bool.splits option.splits)

lemma scm_send_ends [simp]: "scm_send os sfd dat ctl w \<noteq> Undef" "scm_send os sfd dat ctl w \<noteq> Exit 0 t"
  by (simp_all add: scm_send_def must_def split: prod.splits bool.splits)

lemma open_all_not_Undef [simp]: "open_all os files w \<noteq> Undef"
  by (induction files arbitrary: w) (auto simp: obind_Undef_iff)

lemma send_socket_not_Undef: "length path < SUN_PATH_SIZE \<Longrightarrow> send_socket os path dgram w \<noteq> Undef"
  by (auto simp: send_socket_def or_exit_def unixConnect_def with_address_def unix_address_eq split: prod.splits sum.splits)

lemma obind_Exit_iff: "obind m f = Exit c t \<longleftrightarrow> m = Exit c t \<or> (\<exists>a s. m = Ret a s \<and> f a s = Exit c t)"
  by (cases m) auto

lemma calls_Exit [simp]: "must f w \<noteq> Exit 0 t" "must_get g w \<noteq> Exit 0 t"
  by (simp_all add: must_def must_get_def split: prod.splits bool.splits option.splits)

lemma open_all_Exit [simp]: "open_all os files w \<noteq> Exit 0 t"
  by (induction files arbitrary: w) (auto simp: obind_Exit_iff)

lemma send_socket_Exit [simp]: "send_socket os path dgram w \<noteq> Exit 0 t"
  by (auto simp: send_socket_def or_exit_def unixConnect_def with_address_def obind_Exit_iff split: outcome.splits prod.splits sum.splits)

lemma open_all_control:
  "open_all os files w = Ret fds w' \<Longrightarrow> 4 * length files < (2 :: nat) ^ 32 \<Longrightarrow>
    multi_control fds c = Some (control_of [(Rights fds, pad_for (fd_bytes fds)), (Creds c, pad_for (ucred_bytes c))])"
  by (simp add: multi_control_blocks control_of_def open_all_length)

lemma multi_send_defined: "4 * length files < (2 :: nat) ^ 32 \<Longrightarrow> multi_send os opts files w \<noteq> Undef"
  by (auto simp: multi_send_def obind_Undef_iff open_all_control SUN_PATH_SIZE_def MULTI_PATH_def send_socket_not_Undef split: option.splits)

lemma multi_send_sends:
  fixes w' :: 'a
  assumes "4 * length files < (2 :: nat) ^ 32" "multi_send os opts files w = Exit EXIT_SUCCESS w'"
  shows "\<exists>o1 w1 fds w2 sfd w3 n.
    multi_send_options opts \<lparr> useDatagramSocket = False, sendData = True, mo_creds = sc_getids os w \<rparr> = Some o1 \<and>
    open_all os files w1 = Ret fds w2 \<and>
    sc_sendmsg os sfd (if sendData o1 then dummyData else [])
      (control_of [(Rights fds, pad_for (fd_bytes fds)), (Creds (mo_creds o1), pad_for (ucred_bytes (mo_creds o1)))]) w3 = (Inr n, w')"
proof -
  obtain o1 where o1: "multi_send_options opts \<lparr> useDatagramSocket = False, sendData = True, mo_creds = sc_getids os w \<rparr> = Some o1"
    using assms(2) by (auto simp: multi_send_def split: option.splits)
  have files: "files \<noteq> []" using assms(2) o1 by (auto simp: multi_send_def)
  define dat where "dat = (if sendData o1 then dummyData else [])"
  obtain w1 fds w2 where f: "open_all os files w1 = Ret fds w2"
    and rest: "(case multi_control fds (mo_creds o1) of None \<Rightarrow> Undef
        | Some controlMsg \<Rightarrow> obind (send_socket os MULTI_PATH (useDatagramSocket o1) w2) (\<lambda>sfd w.
            obind (scm_send os sfd dat controlMsg w) (\<lambda>_ w. Exit EXIT_SUCCESS w))) = (Exit EXIT_SUCCESS w' :: (unit, 'a) outcome)"
    using assms(2) o1 files unfolding dat_def by (simp add: multi_send_def obind_Exit_iff) blast
  obtain sfd w3 where "scm_send os sfd dat
      (control_of [(Rights fds, pad_for (fd_bytes fds)), (Creds (mo_creds o1), pad_for (ucred_bytes (mo_creds o1)))]) w3 = Ret () w'"
    using rest unfolding open_all_control [OF f assms(1)] by (auto simp: obind_Exit_iff)
  moreover have "\<exists>n. r = Inr n" if "\<not> isl r" for r :: "errno + nat" using that by (cases r) simp_all
  ultimately show ?thesis using o1 f unfolding dat_def by (fastforce simp: scm_send_def must_Ret_iff split: prod.splits)
qed

lemma multi_recv_shows:
  assumes k: "file_kernel os contents out said"
    and start: "sc_malloc os (multi_size MAX_FDS) w = (True, w1)" "multi_recv_options opts (False, - 1) = Some (dgram, n)"
      "recv_socket os MULTI_PATH dgram w1 = Ret sfd w2" "sc_passcred os sfd w2 = (True, w3)"
    and got: "sc_recvmsg os sfd 4 (if n = - 1 then multi_size MAX_FDS else nat (n mod 2 ^ 64)) w3 = (Inr (dat, control_of bl, trunc), w4)"
    and bl: "length (control_of bl) \<le> multi_size MAX_FDS" "\<forall>bp\<in>set bl. cblock_ok bp" "distinct (all_fds bl)"
      "\<forall>fd\<in>set (all_fds bl). contents w4 fd \<noteq> None"
  shows "\<exists>w'. multi_recv os opts w = Some (Exit EXIT_SUCCESS w') \<and> contents w' = contents w4 |` (- set (all_fds bl)) \<and>
    out w' = out w4 @ concat (map (\<lambda>fd. the (contents w4 fd)) (all_fds bl)) \<and>
    said w' = said w4 @ (if trunc then [Ctrunc] else []) @ all_notes bl"
proof -
  define w5 where "w5 = (if n \<noteq> - 1 then sc_list_fds os w4 else w4)"
  define w6 where "w6 = (if trunc then sc_show os Ctrunc w5 else w5)"
  have w6: "contents w6 = contents w4" "out w6 = out w4" "said w6 = said w4 @ (if trunc then [Ctrunc] else [])"
    using k by (auto simp: w6_def w5_def file_kernel_def)
  have run: "multi_recv os opts w = (case CMSG_FIRSTHDR (control_of bl) of None \<Rightarrow> Some (Exit EXIT_SUCCESS w6)
      | Some p \<Rightarrow> map_option (\<lambda>r. obind r (\<lambda>_ w. Exit EXIT_SUCCESS w)) (recv_walk os (control_of bl) p w6))"
    using start got bl(1) unfolding w6_def w5_def
    by (cases "n = - 1"; cases trunc) (simp_all add: multi_recv_def must_def or_exit_def recv_into_def Let_def del: MAX_FDS_def)
  show ?thesis
  proof (cases bl)
    case Nil
    then show ?thesis using run w6 by (simp add: CMSG_FIRSTHDR_def control_of_def)
  next
    case (Cons bp bl')
    obtain type da pad where "cblock_bytes bp = block type da pad" using bl(2) Cons by (metis cblock_bytes_block list.set_intros(1))
    then have "CMSG_FIRSTHDR (control_of bl) = Some 0" using Cons by (simp add: CMSG_FIRSTHDR_def control_of_def)
    moreover obtain w' where "recv_walk os (control_of bl) 0 w6 = Some (Ret () w')" "contents w' = contents w6 |` (- set (all_fds bl))"
      "out w' = out w6 @ concat (map (\<lambda>fd. the (contents w6 fd)) (all_fds bl))" "said w' = said w6 @ all_notes bl"
      using recv_walk_shows [OF k, of bp bl' w6 "[]"] bl(2,3,4) Cons w6(1) by auto
    ultimately show ?thesis using run w6 by auto
  qed
qed

text \<open>A kernel where the receiver gets the credentials and two files, one of them read in two pieces.\<close>

type_synonym scm_world = "(int \<Rightarrow> cstring option) \<times> cstring \<times> scm_note list"

definition scm_demo_blocks :: "(cblock \<times> byte list) list" where
  "scm_demo_blocks = [(Creds \<lparr> uc_pid = 7, uc_uid = 1000, uc_gid = 100 \<rparr>, [0, 0, 0, 0]), (Rights [4, 5], [])]"

definition scm_demo :: "scm_world scm_os" where
  "scm_demo = \<lparr>
     sc_sock = \<lparr> so_getaddrinfo = \<lambda>h s t p w. (None, w), so_socket = \<lambda>f t p w. (Inr 3, w), so_connect = \<lambda>fd a l w. (None, w),
       so_bind = \<lambda>fd a l w. (None, w), so_reuseaddr = \<lambda>fd w. (None, w), so_listen = \<lambda>fd b w. (None, w), so_close = \<lambda>fd w. w,
       so_remove = \<lambda>p w. (None, w), so_getnameinfo = \<lambda>a l f w. None \<rparr>,
     sc_accept = \<lambda>fd w. (Some 4, w), sc_passcred = \<lambda>fd w. (True, w), sc_peercred = \<lambda>fd w. (True, w),
     sc_open = \<lambda>p w. (Some 5, w),
     sc_read = \<lambda>fd n (cs, out, ns). case cs fd of None \<Rightarrow> (None, (cs, out, ns)) | Some c \<Rightarrow> (Some (take 2 c), (cs(fd \<mapsto> drop 2 c), out, ns)),
     sc_write = \<lambda>bs (cs, out, ns). (cs, out @ bs, ns),
     sc_close = \<lambda>fd (cs, out, ns). (cs fd \<noteq> None, (cs(fd := None), out, ns)),
     sc_malloc = \<lambda>n w. (True, w), sc_getids = \<lambda>w. \<lparr> uc_pid = 7, uc_uid = 1000, uc_gid = 100 \<rparr>,
     sc_sendmsg = \<lambda>fd d c w. (Inr (length d), w),
     sc_recvmsg = \<lambda>fd n m (cs, out, ns). (Inr (int_bytes 12345, control_of scm_demo_blocks, False), (cs(4 \<mapsto> ''abc'', 5 \<mapsto> ''de''), out, ns)),
     sc_show = \<lambda>x (cs, out, ns). (cs, out, ns @ [x]), sc_list_fds = \<lambda>w. w \<rparr>"

lemma scm_demo_kernel: "file_kernel scm_demo fst (fst \<circ> snd) (snd \<circ> snd)"
proof -
  have "\<exists>n. take 2 c = take n c \<and> n \<le> 100 \<and> (n = 0 \<longrightarrow> c = []) \<and> drop 2 c = drop n c" for c :: cstring by (intro exI [of _ 2]) simp
  then show ?thesis by (auto simp: file_kernel_def scm_demo_def split: prod.splits option.splits)
qed

text \<open>C20. \<^verbatim>\<open>scm_multi_send\<close> with fewer than 2^30 files never writes outside its buffer, and where it succeeds it sent one message whose ancillary
  data is a block with the descriptors of the files in order and a block with the credentials. \<^verbatim>\<open>scm_multi_recv\<close>, when the kernel delivers any
  sequence of such blocks that fits its buffer, reports exactly what they hold, prints the contents of all files in order, closes
  every descriptor it got, and ends successfully.\<close>

theorem scm_multi_delivered:
  "(4 * length files < (2 :: nat) ^ 32 \<longrightarrow>
      multi_send os opts files w \<noteq> Undef \<and>
      (multi_send os opts files w = Exit EXIT_SUCCESS w' \<longrightarrow>
        (\<exists>o1 w1 fds w2 sfd w3 n.
          multi_send_options opts \<lparr> useDatagramSocket = False, sendData = True, mo_creds = sc_getids os w \<rparr> = Some o1 \<and>
          open_all os files w1 = Ret fds w2 \<and>
          sc_sendmsg os sfd (if sendData o1 then dummyData else [])
            (control_of [(Rights fds, pad_for (fd_bytes fds)), (Creds (mo_creds o1), pad_for (ucred_bytes (mo_creds o1)))]) w3 = (Inr n, w')))) \<and>
   (file_kernel os contents out said \<longrightarrow> sc_malloc os (multi_size MAX_FDS) u = (True, u1) \<longrightarrow>
      multi_recv_options ropts (False, - 1) = Some (dgram, m) \<longrightarrow> recv_socket os MULTI_PATH dgram u1 = Ret rfd u2 \<longrightarrow>
      sc_passcred os rfd u2 = (True, u3) \<longrightarrow>
      sc_recvmsg os rfd 4 (if m = - 1 then multi_size MAX_FDS else nat (m mod 2 ^ 64)) u3 = (Inr (dat, control_of bl, trunc), u4) \<longrightarrow>
      length (control_of bl) \<le> multi_size MAX_FDS \<longrightarrow> (\<forall>bp\<in>set bl. cblock_ok bp) \<longrightarrow> distinct (all_fds bl) \<longrightarrow>
      (\<forall>fd\<in>set (all_fds bl). contents u4 fd \<noteq> None) \<longrightarrow>
      (\<exists>u'. multi_recv os ropts u = Some (Exit EXIT_SUCCESS u') \<and> contents u' = contents u4 |` (- set (all_fds bl)) \<and>
         out u' = out u4 @ concat (map (\<lambda>fd. the (contents u4 fd)) (all_fds bl)) \<and>
         said u' = said u4 @ (if trunc then [Ctrunc] else []) @ all_notes bl))"
  using multi_send_defined [of files os opts w] multi_send_sends [of files os opts w w'] multi_recv_shows [of os contents out said u u1 ropts dgram m rfd u2 u3 dat bl trunc u4]
  by blast

theorem scm_multi_delivered_witness:
  "(\<exists>u'. multi_recv scm_demo [] (Map.empty, [], []) = Some (Exit 0 u') \<and> fst (snd u') = ''abcde'' \<and>
     snd (snd u') = [Received_Creds \<lparr> uc_pid = 7, uc_uid = 1000, uc_gid = 100 \<rparr>, Received_Fd 4, Received_Fd 5] \<and> fst u' 4 = None) \<and>
   multi_send scm_demo [] [''f''] (Map.empty, [], []) \<noteq> Undef"
proof -
  have recv: "recv_socket scm_demo MULTI_PATH False (Map.empty, [], []) = Ret 4 (Map.empty, [], [])"
    by (simp add: recv_socket_def or_exit_def unixBind_def with_address_def unix_address_eq SUN_PATH_SIZE_def MULTI_PATH_def socket_with_def
        scm_demo_def must_def must_get_def)
  have ok: "\<forall>bp\<in>set scm_demo_blocks. cblock_ok bp"
    by (simp add: scm_demo_blocks_def padded_def CMSG_ALIGN_def to_uid_def limit_defs)
  have len: "length (control_of scm_demo_blocks) \<le> multi_size MAX_FDS"
    by (simp add: scm_demo_blocks_def control_of_def multi_size_def CMSG_SPACE_def CMSG_ALIGN_def)
  have fds: "all_fds scm_demo_blocks = [4, 5]" by (simp add: scm_demo_blocks_def)
  have said: "all_notes scm_demo_blocks = [Received_Creds \<lparr> uc_pid = 7, uc_uid = 1000, uc_gid = 100 \<rparr>, Received_Fd 4, Received_Fd 5]"
    by (simp add: scm_demo_blocks_def)
  show ?thesis
    using scm_multi_delivered [of "[''f'']" scm_demo "[]" "(Map.empty, [], [])" undefined fst "fst \<circ> snd" "snd \<circ> snd" "(Map.empty, [], [])" "(Map.empty, [], [])"
        "[]" False "- 1" 4 "(Map.empty, [], [])" "(Map.empty, [], [])" "int_bytes 12345" scm_demo_blocks False "(Map.empty(4 \<mapsto> ''abc'', 5 \<mapsto> ''de''), [], [])"]
      scm_demo_kernel recv ok len fds said
    by (auto simp: scm_demo_def)
qed

section \<open>One descriptor\<close>

text \<open>\<open>sendfd()\<close> is defined whatever its buffer on the stack holds and returns -1 exactly when \<^verbatim>\<open>sendmsg()\<close> fails. The ancillary
  data it sends, \<open>recvfd()\<close> accepts: when the kernel delivers such a block for descriptor \<open>fd'\<close>, the result is \<open>fd'\<close>. Any other block that
  fits the buffer, and a message with none, is refused with \<open>EINVAL\<close>.\<close>

theorem sendfd_recvfd:
  assumes "length junk = CMSG_SPACE 4" "0 \<le> fd'" "fd' \<le> INT_MAX"
  shows "(\<exists>pad. length pad = 4 \<and> sendfd os junk sockfd fd dat w =
      (case sc_sendmsg os sockfd (case dat of Some d \<Rightarrow> d | None \<Rightarrow> dummyData) (block SCM_RIGHTS (int_bytes fd) pad) w of
         (Inl e, w) \<Rightarrow> Ret (- 1) w | (Inr n, w) \<Rightarrow> Ret 0 w)) \<and>
    (\<forall>pad. length pad \<le> 4 \<longrightarrow> sc_recvmsg os sockfd (case dataLen of Some n \<Rightarrow> n | None \<Rightarrow> 4) (CMSG_SPACE 4) w =
       (Inr (rdat, block SCM_RIGHTS (int_bytes fd') pad, trunc), u) \<longrightarrow> recvfd os sockfd dataLen w = Ret (Inr fd') u) \<and>
    (\<forall>ctl. length ctl \<le> CMSG_SPACE 4 \<longrightarrow> sc_recvmsg os sockfd (case dataLen of Some n \<Rightarrow> n | None \<Rightarrow> 4) (CMSG_SPACE 4) w = (Inr (rdat, ctl, trunc), u) \<longrightarrow>
       length ctl < 16 \<or> cmsg_len ctl 0 \<noteq> CMSG_LEN 4 \<or> cmsg_level ctl 0 \<noteq> SOL_SOCKET \<or> cmsg_type ctl 0 \<noteq> SCM_RIGHTS \<longrightarrow>
       recvfd os sockfd dataLen w = Ret (Inl EINVAL) u)"
proof (intro conjI allI impI)
  have "Option.bind (CMSG_FIRSTHDR junk) (\<lambda>p. put_cmsg p SOL_SOCKET SCM_RIGHTS (int_bytes fd) junk) =
      Some (block SCM_RIGHTS (int_bytes fd) (drop 20 junk))"
    using control_one [of junk "int_bytes fd" SCM_RIGHTS] assms(1) by simp
  moreover have "length (drop 20 junk) = 4" using assms(1) by (simp add: CMSG_SPACE_def CMSG_ALIGN_def)
  ultimately show "\<exists>pad. length pad = 4 \<and> sendfd os junk sockfd fd dat w =
      (case sc_sendmsg os sockfd (case dat of Some d \<Rightarrow> d | None \<Rightarrow> dummyData) (block SCM_RIGHTS (int_bytes fd) pad) w of
         (Inl e, w) \<Rightarrow> Ret (- 1) w | (Inr n, w) \<Rightarrow> Ret 0 w)"
    by (intro exI [of _ "drop 20 junk"]) (simp add: sendfd_def)
next
  fix pad :: "byte list"
  assume l: "length pad \<le> 4"
    and r: "sc_recvmsg os sockfd (case dataLen of Some n \<Rightarrow> n | None \<Rightarrow> 4) (CMSG_SPACE 4) w = (Inr (rdat, block SCM_RIGHTS (int_bytes fd') pad, trunc), u)"
  have s: "to_int32 fd' = fd'" using assms(2,3) by (intro to_int32_id) (simp_all add: limit_defs)
  show "recvfd os sockfd dataLen w = Ret (Inr fd') u"
    using r l s block_header [of "int_bytes fd'" "[]" SCM_RIGHTS pad "[]"]
    by (simp add: recvfd_def recv_into_def CMSG_SPACE_def CMSG_ALIGN_def CMSG_FIRSTHDR_def SCM_RIGHTS_def to_int32_def [of 1])
next
  fix ctl :: "byte list"
  assume "length ctl \<le> CMSG_SPACE 4"
    "sc_recvmsg os sockfd (case dataLen of Some n \<Rightarrow> n | None \<Rightarrow> 4) (CMSG_SPACE 4) w = (Inr (rdat, ctl, trunc), u)"
    "length ctl < 16 \<or> cmsg_len ctl 0 \<noteq> CMSG_LEN 4 \<or> cmsg_level ctl 0 \<noteq> SOL_SOCKET \<or> cmsg_type ctl 0 \<noteq> SCM_RIGHTS"
  then show "recvfd os sockfd dataLen w = Ret (Inl EINVAL) u"
    by (auto simp: recvfd_def recv_into_def CMSG_FIRSTHDR_def)
qed

theorem sendfd_recvfd_witness:
  "sendfd scm_demo (replicate 24 7) 3 5 None (Map.empty, [], []) = Ret 0 (Map.empty, [], []) \<and>
   recvfd (scm_demo\<lparr> sc_recvmsg := \<lambda>fd n m w. (Inr (dummyData, block SCM_RIGHTS (int_bytes 9) [], False), w) \<rparr>) 3 None (Map.empty, [], [])
     = Ret (Inr 9) (Map.empty, [], [])"
proof
  have "sc_sendmsg scm_demo fd d c w = (Inr (length d), w)" for fd d c w by (simp add: scm_demo_def)
  then show "sendfd scm_demo (replicate 24 7) 3 5 None (Map.empty, [], []) = Ret 0 (Map.empty, [], [])"
    using sendfd_recvfd [of "replicate 24 7" 9 scm_demo 3 5 None "(Map.empty, [], [])" None "[]" False "(Map.empty, [], [])"]
    by (simp add: CMSG_SPACE_def CMSG_ALIGN_def limit_defs)
  show "recvfd (scm_demo\<lparr> sc_recvmsg := \<lambda>fd n m w. (Inr (dummyData, block SCM_RIGHTS (int_bytes 9) [], False), w) \<rparr>) 3 None (Map.empty, [], [])
     = Ret (Inr 9) (Map.empty, [], [])"
    using sendfd_recvfd [of "replicate 24 7" 9 "scm_demo\<lparr> sc_recvmsg := \<lambda>fd n m w. (Inr (dummyData, block SCM_RIGHTS (int_bytes 9) [], False), w) \<rparr>" 3 5 None
        "(Map.empty, [], [])" None dummyData False "(Map.empty, [], [])"]
    by (simp add: CMSG_SPACE_def CMSG_ALIGN_def limit_defs)
qed

text \<open>The padded buffer for one descriptor has room for two. \<open>recvfd()\<close> refuses such a message, and both descriptors stay open: the state is the one
  \<^verbatim>\<open>recvmsg()\<close> left.\<close>

lemma two_descriptors_leak:
  assumes "sc_recvmsg os sockfd 4 (CMSG_SPACE 4) w = (Inr (dat, block SCM_RIGHTS (fd_bytes [a, b]) [], False), u)"
  shows "length (block SCM_RIGHTS (fd_bytes [a, b]) []) \<le> CMSG_SPACE 4 \<and> recvfd os sockfd None w = Ret (Inl EINVAL) u"
  using assms block_header(1) [of "fd_bytes [a, b]" "[]" SCM_RIGHTS "[]" "[]"]
  by (simp add: recvfd_def recv_into_def CMSG_SPACE_def CMSG_ALIGN_def CMSG_FIRSTHDR_def CMSG_LEN_def)

section \<open>The other receivers\<close>

lemma rights_recv_shows:
  assumes k: "file_kernel os contents out said" and fd: "0 \<le> fd" "fd \<le> INT_MAX" "contents w2 fd = Some c" "length pad \<le> 4"
    and got: "recv_socket os RIGHTS_PATH (CHR ''d'' \<in> set opts) w = Ret sfd w1" "known_options ''dv'' opts"
      "sc_recvmsg os sfd 4 (CMSG_SPACE 4) w1 = (Inr (dat, block SCM_RIGHTS (int_bytes fd) pad, trunc), w2)"
  shows "\<exists>w'. rights_recv os opts w = Some (Exit EXIT_SUCCESS w') \<and> out w' = out w2 @ c \<and> said w' = said w2 @ [Received_Fd fd]"
proof -
  let ?w = "sc_show os (Received_Fd fd) w2"
  have w: "contents ?w = contents w2" "out ?w = out w2" "said ?w = said w2 @ [Received_Fd fd]"
    using k unfolding file_kernel_def by simp_all
  then obtain w' where "copy_file os fd ?w = Some (True, w')" "out w' = out w2 @ c" "said w' = said w2 @ [Received_Fd fd]"
    using copy_file_ends [OF k, of ?w fd c] fd(3) by auto
  moreover have "to_int32 fd = fd" using fd by (intro to_int32_id) (simp_all add: limit_defs)
  ultimately show ?thesis
    using got fd(4) block_header [of "int_bytes fd" "[]" SCM_RIGHTS pad "[]"]
    by (simp add: rights_recv_def or_exit_def recv_into_def CMSG_SPACE_def CMSG_ALIGN_def CMSG_FIRSTHDR_def SCM_RIGHTS_def to_int32_def [of 1])
qed

lemma cred_recv_shows:
  assumes ok: "cblock_ok (Creds c, pad)" and p: "sc_peercred os sfd (sc_show os (Received_Creds c) w3) = (True, w4)"
    and got: "recv_socket os CRED_PATH (CHR ''d'' \<in> set opts) w = Ret sfd w1" "known_options ''dv'' opts" "sc_passcred os sfd w1 = (True, w2)"
      "sc_recvmsg os sfd 4 (CMSG_SPACE SIZEOF_UCRED) w2 = (Inr (dat, block SCM_CREDENTIALS (ucred_bytes c) pad, trunc), w3)"
  shows "cred_recv os opts w = Exit EXIT_SUCCESS w4"
proof -
  have u: "bytes_ucred (ucred_bytes c) = c" and l: "length pad = 4"
    using ok by (simp_all add: bytes_ucred_ucred_bytes padded_def CMSG_ALIGN_def)
  show ?thesis
    using got p u l block_header [of "ucred_bytes c" "[]" SCM_CREDENTIALS pad "[]"]
    by (simp add: cred_recv_def or_exit_def recv_into_def must_def CMSG_SPACE_def CMSG_ALIGN_def CMSG_FIRSTHDR_def SCM_CREDENTIALS_def to_int32_def [of 2])
qed

lemma cred_control_block: "cred_control c = Some (block SCM_CREDENTIALS (ucred_bytes c) (pad_for (ucred_bytes c)))"
  using control_one [of "replicate (CMSG_SPACE SIZEOF_UCRED) 0" "ucred_bytes c" SCM_CREDENTIALS]
  by (simp add: cred_control_def Let_def CMSG_SPACE_def CMSG_ALIGN_def pad_for_def)

end
