(* ===== verification/Seccomp_Target.thy ===== *)
theory Seccomp_Target
  imports Seccomp_Supervisor Strto_Num
begin

text \<open>
  The target processes of \<^verbatim>\<open>seccomp/seccomp_unotify_mkdir.c\<close> and \<^verbatim>\<open>seccomp_unotify_openat.c\<close>, the start of their supervisors and the programs around
  them. \<^verbatim>\<open>sendfd()\<close> and \<^verbatim>\<open>recvfd()\<close> are arguments with the parameters these programs give them, which are not those of
  \<^verbatim>\<open>sockets/scm_functions.c\<close>.
\<close>

section \<open>Several filters\<close>

text \<open>Every installed filter is run, the most recent first, and the first action of highest precedence applies. In the order of the
  signed action values the smallest takes precedence.\<close>

definition action_of :: "32 word \<Rightarrow> int" where
  "action_of v = sint (v AND 0xffff0000)"

fun combined_verdict :: "sock_filter list list \<Rightarrow> seccomp_data \<Rightarrow> 32 word \<Rightarrow> 32 word option" where
  "combined_verdict [] d v = Some v"
| "combined_verdict (f # fs) d v =
     (case run_filter f d of None \<Rightarrow> None | Some r \<Rightarrow> combined_verdict fs d (if action_of r < action_of v then r else v))"

definition seccomp_verdict :: "sock_filter list list \<Rightarrow> seccomp_data \<Rightarrow> 32 word option" where
  "seccomp_verdict fs d = combined_verdict fs d SECCOMP_RET_ALLOW"

section \<open>The target process\<close>

text \<open>\<open>Called path v\<close>: a call on \<open>path\<close> for which the filters say \<open>v\<close>.\<close>

datatype tg_event = Listener_Sent int | Called cstring "32 word option"

record 'w tg_proc =
  tg_world :: 'w
  tg_filters :: "sock_filter list list"
  tg_nnp :: bool
  tg_fds :: "int set"
  tg_log :: "tg_event list"

record 'w tg_os =
  tg_sigaction :: "'w \<Rightarrow> bool \<times> 'w"
  tg_prctl :: "'w \<Rightarrow> bool \<times> 'w"
  tg_seccomp :: "bool \<Rightarrow> sock_filter list \<Rightarrow> 'w \<Rightarrow> int option \<times> 'w"
  tg_sendfd :: "int \<Rightarrow> int \<Rightarrow> 'w \<Rightarrow> bool \<times> 'w"
  tg_recvfd :: "int \<Rightarrow> 'w \<Rightarrow> int option \<times> 'w"
  tg_close :: "int \<Rightarrow> 'w \<Rightarrow> bool \<times> 'w"
  tg_mkdir :: "cstring \<Rightarrow> 'w \<Rightarrow> int \<times> 'w"
  tg_openat :: "cstring \<Rightarrow> 'w \<Rightarrow> int option \<times> 'w"
  tg_read :: "int \<Rightarrow> nat \<Rightarrow> 'w \<Rightarrow> cstring option \<times> 'w"
  tg_write :: "cstring \<Rightarrow> 'w \<Rightarrow> 'w"
  tg_socketpair :: "'w \<Rightarrow> (int \<times> int) option \<times> 'w"
  tg_fork :: "'w \<Rightarrow> bool \<times> 'w"

definition tg_must :: "('w \<Rightarrow> bool \<times> 'w) \<Rightarrow> 'w tg_proc \<Rightarrow> (unit, 'w tg_proc) outcome" where
  "tg_must f s = (case f (tg_world s) of (ok, w) \<Rightarrow> if ok then Ret () (s\<lparr> tg_world := w \<rparr>) else Exit EXIT_FAILURE (s\<lparr> tg_world := w \<rparr>))"

definition set_no_new_privs :: "'w tg_os \<Rightarrow> 'w tg_proc \<Rightarrow> (unit, 'w tg_proc) outcome" where
  "set_no_new_privs os s = obind (tg_must (tg_prctl os) s) (\<lambda>_ s. Ret () (s\<lparr> tg_nnp := True \<rparr>))"

text \<open>With \<^verbatim>\<open>SECCOMP_FILTER_FLAG_NEW_LISTENER\<close> the result is a descriptor.\<close>

definition installNotifyFilter :: "'w tg_os \<Rightarrow> sock_filter list \<Rightarrow> 'w tg_proc \<Rightarrow> (int, 'w tg_proc) outcome" where
  "installNotifyFilter os f s =
     (case tg_seccomp os True f (tg_world s) of
        (None, w) \<Rightarrow> Exit EXIT_FAILURE (s\<lparr> tg_world := w \<rparr>)
      | (Some notifyFd, w) \<Rightarrow> Ret notifyFd (s\<lparr> tg_world := w, tg_filters := f # tg_filters s, tg_fds := insert notifyFd (tg_fds s) \<rparr>))"

definition installFilter2 :: "'w tg_os \<Rightarrow> cmdLineOpts \<Rightarrow> 'w tg_proc \<Rightarrow> (unit, 'w tg_proc) outcome" where
  "installFilter2 os opts s =
     (let f = mkdir_filter2 (word_of_int (secondFilter opts))
      in case tg_seccomp os False f (tg_world s) of
           (None, w) \<Rightarrow> Exit EXIT_FAILURE (s\<lparr> tg_world := w \<rparr>)
         | (Some _, w) \<Rightarrow> Ret () (s\<lparr> tg_world := w, tg_filters := f # tg_filters s \<rparr>))"

definition tg_closed :: "'w tg_os \<Rightarrow> int \<Rightarrow> 'w tg_proc \<Rightarrow> (unit, 'w tg_proc) outcome" where
  "tg_closed os fd s = obind (tg_must (tg_close os fd) s) (\<lambda>_ s. Ret () (s\<lparr> tg_fds := tg_fds s - {fd} \<rparr>))"

definition closeSocketPair :: "'w tg_os \<Rightarrow> int \<times> int \<Rightarrow> 'w tg_proc \<Rightarrow> (unit, 'w tg_proc) outcome" where
  "closeSocketPair os sockPair s = obind (tg_closed os (fst sockPair) s) (\<lambda>_ s. tg_closed os (snd sockPair) s)"

text \<open>A call of a program for this architecture.\<close>

definition call_data :: "32 word \<Rightarrow> seccomp_data" where
  "call_data nr = \<lparr> sd_nr = nr, sd_arch = AUDIT_ARCH_X86_64, sd_ip = 0, sd_args = replicate 6 0 \<rparr>"

definition tg_called :: "32 word \<Rightarrow> cstring \<Rightarrow> 'w tg_proc \<Rightarrow> 'w tg_proc" where
  "tg_called nr path s = s\<lparr> tg_log := tg_log s @ [Called path (seccomp_verdict (tg_filters s) (call_data nr))] \<rparr>"

fun mkdir_all :: "'w tg_os \<Rightarrow> cstring list \<Rightarrow> 'w tg_proc \<Rightarrow> 'w tg_proc" where
  "mkdir_all os [] s = s"
| "mkdir_all os (path # argv) s =
     (let s = tg_called NR_mkdir path s in mkdir_all os argv (s\<lparr> tg_world := snd (tg_mkdir os path (tg_world s)) \<rparr>))"

definition send_listener :: "'w tg_os \<Rightarrow> int \<Rightarrow> int \<Rightarrow> 'w tg_proc \<Rightarrow> (unit, 'w tg_proc) outcome" where
  "send_listener os sock notifyFd s =
     obind (tg_must (tg_sendfd os sock notifyFd) s) (\<lambda>_ s. Ret () (s\<lparr> tg_log := tg_log s @ [Listener_Sent notifyFd] \<rparr>))"

definition targetProcess_mkdir :: "'w tg_os \<Rightarrow> int \<times> int \<Rightarrow> cstring list \<Rightarrow> cmdLineOpts \<Rightarrow> 'w tg_proc \<Rightarrow> (unit, 'w tg_proc) outcome" where
  "targetProcess_mkdir os sockPair argv opts s =
     obind (tg_must (tg_sigaction os) s) (\<lambda>_ s.
     obind (set_no_new_privs os s) (\<lambda>_ s.
     obind (installNotifyFilter os mkdir_notify_filter s) (\<lambda>notifyFd s.
     obind (if secondFilter opts \<noteq> - 1 then installFilter2 os opts s else Ret () s) (\<lambda>_ s.
     obind (send_listener os (fst sockPair) notifyFd s) (\<lambda>_ s.
     obind (tg_closed os notifyFd s) (\<lambda>_ s.
     obind (closeSocketPair os sockPair s) (\<lambda>_ s.
     Exit EXIT_SUCCESS (mkdir_all os argv s))))))))"

text \<open>\<open>None\<close>: the file that was opened has no end.\<close>

partial_function (option) tg_copy :: "'w tg_os \<Rightarrow> int \<Rightarrow> 'w \<Rightarrow> 'w option" where
  "tg_copy os fd w =
     (case tg_read os fd 100 w of
        (None, w) \<Rightarrow> Some w
      | (Some bs, w) \<Rightarrow> if bs = [] then Some w else tg_copy os fd (tg_write os bs w))"

fun openat_all :: "'w tg_os \<Rightarrow> cstring list \<Rightarrow> 'w tg_proc \<Rightarrow> 'w tg_proc option" where
  "openat_all os [] s = Some s"
| "openat_all os (path # argv) s =
     (let s = tg_called (NR_openat X86_64) path s
      in case tg_openat os path (tg_world s) of
           (None, w) \<Rightarrow> openat_all os argv (s\<lparr> tg_world := w \<rparr>)
         | (Some fd, w) \<Rightarrow>
             (case tg_copy os fd w of
                None \<Rightarrow> None
              | Some w \<Rightarrow> openat_all os argv (s\<lparr> tg_world := snd (tg_close os fd (tg_write os (''=========='' @ [CHR 10]) w)) \<rparr>)))"

definition targetProcess_openat :: "'w tg_os \<Rightarrow> int \<times> int \<Rightarrow> cstring list \<Rightarrow> 'w tg_proc \<Rightarrow> (unit, 'w tg_proc) outcome option" where
  "targetProcess_openat os sockPair argv s =
     obind_opt (set_no_new_privs os s) (\<lambda>_ s.
     obind_opt (installNotifyFilter os openat_notify_filter s) (\<lambda>notifyFd s.
     obind_opt (send_listener os (fst sockPair) notifyFd s) (\<lambda>_ s.
     obind_opt (tg_closed os notifyFd s) (\<lambda>_ s.
     obind_opt (closeSocketPair os sockPair s) (\<lambda>_ s.
     map_option (Exit EXIT_SUCCESS) (openat_all os argv s))))))"

section \<open>The supervisors and the programs\<close>

text \<open>The supervisor's world while it sets up is that of the process; from the listener on, \<open>start w\<close> is the state in which it handles
  notifications.\<close>

definition get_listener :: "'w tg_os \<Rightarrow> int \<times> int \<Rightarrow> 'w tg_proc \<Rightarrow> (int, 'w tg_proc) outcome" where
  "get_listener os sockPair s =
     (case tg_recvfd os (snd sockPair) (tg_world s) of
        (None, w) \<Rightarrow> Exit EXIT_FAILURE (s\<lparr> tg_world := w \<rparr>)
      | (Some notifyFd, w) \<Rightarrow>
          obind (closeSocketPair os sockPair (s\<lparr> tg_world := w, tg_fds := insert notifyFd (tg_fds s) \<rparr>)) (\<lambda>_ s. Ret notifyFd s))"

text \<open>What is left of a process: it ended before, or it handles notifications.\<close>

datatype 'w sup_result = Setup_Ended int "'w tg_proc" | Handling int "'w tg_proc" "(unit, 'w sup) outcome" | Setup_Undefined

definition then_handle :: "(int, 'w tg_proc) outcome \<Rightarrow> ('w \<Rightarrow> (unit, 'w sup) outcome) \<Rightarrow> 'w sup_result" where
  "then_handle r h =
     (case r of Ret fd s \<Rightarrow> Handling fd s (h (tg_world s)) | Exit c s \<Rightarrow> Setup_Ended c s | Abort s \<Rightarrow> Setup_Ended EXIT_FAILURE s | Undef \<Rightarrow> Setup_Undefined)"

definition supervisor_mkdir :: "nat \<Rightarrow> 'w tg_os \<Rightarrow> 'w notif_os \<Rightarrow> ('w \<Rightarrow> 'w sup) \<Rightarrow> int \<times> int \<Rightarrow> cmdLineOpts \<Rightarrow> 'w tg_proc \<Rightarrow> 'w sup_result" where
  "supervisor_mkdir n os nos start sockPair opts s =
     then_handle (get_listener os sockPair s) (\<lambda>w. handleNotifications_mkdir n nos (path_buf (start w)) opts (start w))"

definition supervisor_openat :: "nat \<Rightarrow> 'w tg_os \<Rightarrow> 'w notif_os \<Rightarrow> ('w \<Rightarrow> 'w sup) \<Rightarrow> int \<times> int \<Rightarrow> 'w tg_proc \<Rightarrow> 'w sup_result" where
  "supervisor_openat n os nos start sockPair s =
     then_handle (get_listener os sockPair s) (\<lambda>w. handleNotifications_openat n nos (path_buf (start w)) (start w))"

text \<open>One option as \<^verbatim>\<open>getopt()\<close> returns it; \<open>None\<close> stands for \<^verbatim>\<open>exit(EXIT_FAILURE)\<close>.\<close>

fun mkdir_options :: "(char \<times> cstring) list \<Rightarrow> cmdLineOpts \<Rightarrow> cmdLineOpts option" where
  "mkdir_options [] opts = Some opts"
| "mkdir_options ((opt, optarg) # rest) opts =
     (if opt = CHR ''f'' then
        (if cchar optarg 0 = CHR ''e'' then mkdir_options rest (opts\<lparr> secondFilter := uint SECCOMP_RET_ERRNO \<rparr>)
         else if cchar optarg 0 = CHR ''t'' then mkdir_options rest (opts\<lparr> secondFilter := uint SECCOMP_RET_TRACE \<rparr>)
         else None)
      else if opt = CHR ''d'' then mkdir_options rest (opts\<lparr> delaySecs := atoi optarg \<rparr>)
      else None)"

definition parseCommandLineOptions_mkdir :: "(char \<times> cstring) list \<Rightarrow> cstring list \<Rightarrow> cmdLineOpts option" where
  "parseCommandLineOptions_mkdir optl args =
     (case mkdir_options optl \<lparr> delaySecs = 0, secondFilter = - 1 \<rparr> of None \<Rightarrow> None | Some opts \<Rightarrow> if args = [] then None else Some opts)"

text \<open>The result: what becomes of the target, which may not exist, and of the supervisor. Both start with the pair of sockets; the calls of the
  supervisor are made in a world of its own, in which those of the target may have happened in between.\<close>

definition unotify_mkdir_main ::
  "nat \<Rightarrow> 'w tg_os \<Rightarrow> 'w notif_os \<Rightarrow> ('w \<Rightarrow> 'w sup) \<Rightarrow> (char \<times> cstring) list \<Rightarrow> cstring list \<Rightarrow> 'w tg_proc \<Rightarrow> (unit, 'w tg_proc) outcome option \<times> 'w sup_result" where
  "unotify_mkdir_main n os nos start optl args s =
     (case parseCommandLineOptions_mkdir optl args of
        None \<Rightarrow> (None, Setup_Ended EXIT_FAILURE s)
      | Some opts \<Rightarrow>
          (case tg_socketpair os (tg_world s) of
             (None, w) \<Rightarrow> (None, Setup_Ended EXIT_FAILURE (s\<lparr> tg_world := w \<rparr>))
           | (Some sockPair, w) \<Rightarrow>
               let s = s\<lparr> tg_world := w, tg_fds := insert (fst sockPair) (insert (snd sockPair) (tg_fds s)) \<rparr>
               in case tg_must (tg_fork os) s of
                    Ret _ s \<Rightarrow> (Some (targetProcess_mkdir os sockPair args opts s),
                      (case tg_must (tg_sigaction os) s of
                         Ret _ s \<Rightarrow> supervisor_mkdir n os nos start sockPair opts s
                       | _ \<Rightarrow> Setup_Ended EXIT_FAILURE s))
                  | _ \<Rightarrow> (None, Setup_Ended EXIT_FAILURE s)))"

definition unotify_openat_main ::
  "nat \<Rightarrow> 'w tg_os \<Rightarrow> 'w notif_os \<Rightarrow> ('w \<Rightarrow> 'w sup) \<Rightarrow> cstring list \<Rightarrow> 'w tg_proc \<Rightarrow> (unit, 'w tg_proc) outcome option option \<times> 'w sup_result" where
  "unotify_openat_main n os nos start args s =
     (case tg_socketpair os (tg_world s) of
        (None, w) \<Rightarrow> (None, Setup_Ended EXIT_FAILURE (s\<lparr> tg_world := w \<rparr>))
      | (Some sockPair, w) \<Rightarrow>
          let s = s\<lparr> tg_world := w, tg_fds := insert (fst sockPair) (insert (snd sockPair) (tg_fds s)) \<rparr>
          in case tg_must (tg_fork os) s of
               Ret _ s \<Rightarrow> (Some (targetProcess_openat os sockPair args s),
                 (case tg_must (tg_sigaction os) s of
                    Ret _ s \<Rightarrow> supervisor_openat n os nos start sockPair s
                  | _ \<Rightarrow> Setup_Ended EXIT_FAILURE s))
             | _ \<Rightarrow> (None, Setup_Ended EXIT_FAILURE s))"

section \<open>What the filters say\<close>

lemma run_call:
  "run_filter mkdir_notify_filter (call_data NR_mkdir) = Some SECCOMP_RET_USER_NOTIF"
  "run_filter openat_notify_filter (call_data (NR_openat X86_64)) = Some SECCOMP_RET_USER_NOTIF"
  "run_filter (mkdir_filter2 v) (call_data NR_mkdir) = Some (if v = SECCOMP_RET_ERRNO then SECCOMP_RET_ERRNO OR ENOTSUP_no else SECCOMP_RET_TRACE)"
  by (simp_all add: mkdir_notify.decides openat_notify.decides filter2.decides wf_data_def call_data_def native_def notify_on_def seccomp_consts)

lemma action_values:
  "action_of SECCOMP_RET_ALLOW = 0x7fff0000" "action_of SECCOMP_RET_USER_NOTIF = 0x7fc00000" "action_of SECCOMP_RET_TRACE = 0x7ff00000"
  "action_of (SECCOMP_RET_ERRNO OR ENOTSUP_no) = 0x50000"
  by (simp_all add: action_of_def seccomp_consts)

lemma seccomp_verdict_one:
  "seccomp_verdict [mkdir_notify_filter] (call_data NR_mkdir) = Some SECCOMP_RET_USER_NOTIF"
  "seccomp_verdict [openat_notify_filter] (call_data (NR_openat X86_64)) = Some SECCOMP_RET_USER_NOTIF"
  by (simp_all add: seccomp_verdict_def run_call run_call [simplified] action_values)

lemma seccomp_verdict_two:
  "seccomp_verdict [mkdir_filter2 v, mkdir_notify_filter] (call_data NR_mkdir) =
     Some (if v = SECCOMP_RET_ERRNO then SECCOMP_RET_ERRNO OR ENOTSUP_no else SECCOMP_RET_USER_NOTIF)"
  by (simp add: seccomp_verdict_def run_call action_values)

section \<open>Setting up\<close>

text \<open>A call that either returns with \<open>Q\<close> or ends the process with status 1 before it made any of the calls it is there for.\<close>

definition setting_up :: "('a \<Rightarrow> 'w tg_proc \<Rightarrow> bool) \<Rightarrow> ('a, 'w tg_proc) outcome \<Rightarrow> bool" where
  "setting_up Q m \<longleftrightarrow> (case m of Ret a t \<Rightarrow> Q a t | Exit c t \<Rightarrow> c = EXIT_FAILURE \<and> (\<forall>p v. Called p v \<notin> set (tg_log t)) | _ \<Rightarrow> False)"

lemma setting_up_simps [simp]: "setting_up Q (Ret a t) = Q a t"
  "setting_up Q (Exit c t) \<longleftrightarrow> c = EXIT_FAILURE \<and> (\<forall>p v. Called p v \<notin> set (tg_log t))"
  by (simp_all add: setting_up_def)

definition uncalled :: "'w tg_proc \<Rightarrow> bool" where
  "uncalled s \<longleftrightarrow> (\<forall>p v. Called p v \<notin> set (tg_log s))"

lemma tg_must_sets_up: "uncalled s \<Longrightarrow> setting_up (\<lambda>_ t. \<exists>w. t = s\<lparr> tg_world := w \<rparr>) (tg_must f s)"
  by (auto simp: tg_must_def uncalled_def split: prod.splits)

lemma setting_up_bind:
  "setting_up R m \<Longrightarrow> (\<And>a t. R a t \<Longrightarrow> setting_up Q (f a t)) \<Longrightarrow> setting_up Q (obind m f)"
  by (cases m) (auto simp: setting_up_def)

lemma setting_up_mono: "setting_up R m \<Longrightarrow> (\<And>a t. R a t \<Longrightarrow> Q a t) \<Longrightarrow> setting_up Q m"
  by (cases m) (auto simp: setting_up_def)

lemma set_no_new_privs_sets_up:
  "uncalled s \<Longrightarrow> setting_up (\<lambda>_ t. \<exists>w. t = s\<lparr> tg_world := w, tg_nnp := True \<rparr>) (set_no_new_privs os s)"
  unfolding set_no_new_privs_def by (rule setting_up_bind [OF tg_must_sets_up]) auto

lemma installNotifyFilter_sets_up:
  "uncalled s \<Longrightarrow>
    setting_up (\<lambda>fd t. \<exists>w. t = s\<lparr> tg_world := w, tg_filters := f # tg_filters s, tg_fds := insert fd (tg_fds s) \<rparr>) (installNotifyFilter os f s)"
  by (auto simp: installNotifyFilter_def uncalled_def split: prod.splits option.splits)

lemma installFilter2_sets_up:
  "uncalled s \<Longrightarrow>
    setting_up (\<lambda>_ t. \<exists>w. t = s\<lparr> tg_world := w, tg_filters := mkdir_filter2 (word_of_int (secondFilter opts)) # tg_filters s \<rparr>) (installFilter2 os opts s)"
  by (auto simp: installFilter2_def uncalled_def Let_def split: prod.splits option.splits)

lemma tg_closed_sets_up:
  "uncalled s \<Longrightarrow> setting_up (\<lambda>_ t. \<exists>w. t = s\<lparr> tg_world := w, tg_fds := tg_fds s - {fd} \<rparr>) (tg_closed os fd s)"
  unfolding tg_closed_def by (rule setting_up_bind [OF tg_must_sets_up]) auto

lemma closeSocketPair_sets_up:
  "uncalled s \<Longrightarrow> setting_up (\<lambda>_ t. \<exists>w. t = s\<lparr> tg_world := w, tg_fds := tg_fds s - {fst sp, snd sp} \<rparr>) (closeSocketPair os sp s)"
  unfolding closeSocketPair_def
proof (rule setting_up_bind [OF tg_closed_sets_up])
  fix a t
  assume "uncalled s" "\<exists>w. t = s\<lparr> tg_world := w, tg_fds := tg_fds s - {fst sp} \<rparr>"
  then obtain w where t: "t = s\<lparr> tg_world := w, tg_fds := tg_fds s - {fst sp} \<rparr>" "uncalled t" by (auto simp: uncalled_def)
  have "{fst sp, snd sp} = {snd sp} \<union> {fst sp}" by auto
  then show "setting_up (\<lambda>_ t. \<exists>w. t = s\<lparr> tg_world := w, tg_fds := tg_fds s - {fst sp, snd sp} \<rparr>) (tg_closed os (snd sp) t)"
    using tg_closed_sets_up [OF t(2), of "snd sp" os] t(1)
    by (auto simp: setting_up_def Diff_insert2 [of "tg_fds s" "fst sp" "{snd sp}"] split: outcome.splits)
qed

lemma send_listener_sets_up:
  "uncalled s \<Longrightarrow> setting_up (\<lambda>_ t. \<exists>w. t = s\<lparr> tg_world := w, tg_log := tg_log s @ [Listener_Sent fd] \<rparr>) (send_listener os sock fd s)"
  unfolding send_listener_def by (rule setting_up_bind [OF tg_must_sets_up]) auto

lemmas sets_up = tg_must_sets_up set_no_new_privs_sets_up installNotifyFilter_sets_up installFilter2_sets_up tg_closed_sets_up
  closeSocketPair_sets_up send_listener_sets_up

section \<open>The calls of the target\<close>

definition mkdir_verdict :: "cmdLineOpts \<Rightarrow> 32 word" where
  "mkdir_verdict opts = (if secondFilter opts = uint SECCOMP_RET_ERRNO then SECCOMP_RET_ERRNO OR ENOTSUP_no else SECCOMP_RET_USER_NOTIF)"

lemma mkdir_all_log:
  "tg_log (mkdir_all os argv s) = tg_log s @ map (\<lambda>p. Called p (seccomp_verdict (tg_filters s) (call_data NR_mkdir))) argv \<and>
   tg_fds (mkdir_all os argv s) = tg_fds s \<and> tg_nnp (mkdir_all os argv s) = tg_nnp s"
  by (induction argv arbitrary: s) (simp_all add: Let_def tg_called_def)

lemma openat_all_log:
  "openat_all os argv s = Some t \<Longrightarrow>
   tg_log t = tg_log s @ map (\<lambda>p. Called p (seccomp_verdict (tg_filters s) (call_data (NR_openat X86_64)))) argv \<and>
   tg_fds t = tg_fds s \<and> tg_nnp t = tg_nnp s"
proof (induction argv arbitrary: s)
  case (Cons path argv)
  then show ?case
    by (auto simp: Let_def tg_called_def split: prod.splits option.splits dest!: Cons.IH)
qed simp

text \<open>The state of a process that has set up: filters, the listener sent, and only the descriptors it had besides the sockets.\<close>

definition set_up :: "sock_filter list list \<Rightarrow> int \<times> int \<Rightarrow> 'w tg_proc \<Rightarrow> 'w tg_proc \<Rightarrow> bool" where
  "set_up fs sp s t \<longleftrightarrow> (\<exists>fd. tg_nnp t \<and> tg_filters t = fs \<and> tg_fds t = tg_fds s - {fd, fst sp, snd sp} \<and> tg_log t = [Listener_Sent fd])"

lemma hand_over_sets_up:
  assumes "tg_log s = []" "tg_nnp s" "tg_filters s = fs" "tg_fds s = insert fd (tg_fds s0)"
  shows "setting_up (\<lambda>_. set_up fs sp s0) (obind (send_listener os (fst sp) fd s) (\<lambda>_ s. obind (tg_closed os fd s) (\<lambda>_ s. closeSocketPair os sp s)))"
proof (rule setting_up_bind [OF send_listener_sets_up], goal_cases)
  case 1
  show "uncalled s" using assms(1) by (simp add: uncalled_def)
next
  case (2 a t1)
  then obtain w1 where
    t1: "t1 = s\<lparr> tg_world := w1, tg_log := tg_log s @ [Listener_Sent fd] \<rparr>" by blast
  have u1: "uncalled t1" using assms(1) t1 by (simp add: uncalled_def)
  show ?case
  proof (rule setting_up_bind [OF tg_closed_sets_up [OF u1]])
    fix a t2
    assume "\<exists>w. t2 = t1\<lparr> tg_world := w, tg_fds := tg_fds t1 - {fd} \<rparr>"
    then obtain w2 where t2: "t2 = t1\<lparr> tg_world := w2, tg_fds := tg_fds t1 - {fd} \<rparr>" by blast
    have u2: "uncalled t2" using assms(1) t1 t2 by (simp add: uncalled_def)
    have f: "tg_fds t2 - {fst sp, snd sp} = tg_fds s0 - {fd, fst sp, snd sp}" unfolding t2 t1 by (simp add: assms(4)) blast
    have t: "tg_nnp t2" "tg_filters t2 = fs" "tg_log t2 = [Listener_Sent fd]" using assms(1,2,3) by (simp_all add: t2 t1)
    show "setting_up (\<lambda>_. set_up fs sp s0) (closeSocketPair os sp t2)"
    proof (rule setting_up_mono [OF closeSocketPair_sets_up [OF u2]])
      fix a t
      assume "\<exists>w. t = t2\<lparr> tg_world := w, tg_fds := tg_fds t2 - {fst sp, snd sp} \<rparr>"
      then show "set_up fs sp s0 t" unfolding set_up_def f by (intro exI [of _ fd]) (auto simp: t)
    qed
  qed
qed

definition supervised :: "32 word \<Rightarrow> cstring list \<Rightarrow> int set \<Rightarrow> (unit, 'w tg_proc) outcome \<Rightarrow> bool" where
  "supervised v argv fds r \<longleftrightarrow> (\<exists>c t. r = Exit c t \<and>
     (c = EXIT_FAILURE \<and> (\<forall>p v. Called p v \<notin> set (tg_log t)) \<or>
      c = EXIT_SUCCESS \<and> tg_nnp t \<and> tg_fds t \<subseteq> fds \<and>
      (\<exists>fd. fd \<notin> tg_fds t \<and> tg_log t = Listener_Sent fd # map (\<lambda>p. Called p (Some v)) argv)))"

lemma supervised_bind:
  assumes "setting_up R m" "\<And>a t. R a t \<Longrightarrow> supervised v argv fds (f a t)"
  shows "supervised v argv fds (obind m f)"
  using assms by (cases m) (auto simp: setting_up_def supervised_def)

lemma supervised_calls:
  assumes "set_up fs sp s0 t" "tg_fds s0 - {fst sp, snd sp} \<subseteq> fds"
    "tg_nnp u = tg_nnp t" "tg_fds u = tg_fds t" "tg_log u = tg_log t @ map (\<lambda>p. Called p (Some v)) argv"
  shows "supervised v argv fds (Exit EXIT_SUCCESS u)"
  using assms by (auto simp: supervised_def set_up_def)

text \<open>The first part of a target, up to its filter, and the last, from the handing over of the listener.\<close>

definition filtered :: "(sock_filter list list \<Rightarrow> bool) \<Rightarrow> 'w tg_proc \<Rightarrow> int \<Rightarrow> 'w tg_proc \<Rightarrow> bool" where
  "filtered P s fd t \<longleftrightarrow> tg_log t = [] \<and> tg_nnp t \<and> P (tg_filters t) \<and> tg_fds t = insert fd (tg_fds s)"

lemma install_sets_up:
  assumes "tg_filters s = []" "tg_log s = []"
  shows "setting_up (filtered (\<lambda>fs. fs = [f]) s) (obind (set_no_new_privs os s) (\<lambda>_ s. installNotifyFilter os f s))"
proof (rule setting_up_bind [OF set_no_new_privs_sets_up], goal_cases)
  case 1
  show ?case using assms(2) by (simp add: uncalled_def)
next
  case (2 a t)
  then obtain w where t: "t = s\<lparr> tg_world := w, tg_nnp := True \<rparr>" by blast
  have u: "uncalled t" using assms(2) t by (simp add: uncalled_def)
  show ?case by (rule setting_up_mono [OF installNotifyFilter_sets_up [OF u]]) (auto simp: filtered_def t assms)
qed

lemma hand_over_sets_up':
  assumes "filtered P s fd t"
  shows "setting_up (\<lambda>_. set_up (tg_filters t) sp s) (obind (send_listener os (fst sp) fd t) (\<lambda>_ s. obind (tg_closed os fd s) (\<lambda>_ s. closeSocketPair os sp s)))"
  using assms by (intro hand_over_sets_up) (simp_all add: filtered_def)

lemma second_verdict:
  assumes "secondFilter opts \<in> {- 1, uint SECCOMP_RET_ERRNO, uint SECCOMP_RET_TRACE}" "secondFilter opts \<noteq> - 1"
  shows "seccomp_verdict [mkdir_filter2 (word_of_int (secondFilter opts)), mkdir_notify_filter] (call_data NR_mkdir) = Some (mkdir_verdict opts)"
  using assms by (auto simp: seccomp_verdict_two mkdir_verdict_def SECCOMP_RET_ERRNO_def SECCOMP_RET_TRACE_def)

definition verdict_is :: "32 word \<Rightarrow> sock_filter list list \<Rightarrow> bool" where
  "verdict_is v fs \<longleftrightarrow> seccomp_verdict fs (call_data NR_mkdir) = Some v"

lemma optional_filter_sets_up:
  assumes "filtered (\<lambda>fs. fs = [mkdir_notify_filter]) s0 fd s" "secondFilter opts \<in> {- 1, uint SECCOMP_RET_ERRNO, uint SECCOMP_RET_TRACE}"
  shows "setting_up (\<lambda>_. filtered (verdict_is (mkdir_verdict opts)) s0 fd)
    (if secondFilter opts \<noteq> - 1 then installFilter2 os opts s else Ret () s)"
proof (cases "secondFilter opts = - 1")
  case True
  then have "mkdir_verdict opts = SECCOMP_RET_USER_NOTIF" by (simp add: mkdir_verdict_def SECCOMP_RET_ERRNO_def)
  then show ?thesis using assms(1) True by (simp add: filtered_def verdict_is_def seccomp_verdict_one)
next
  case False
  have v: "verdict_is (mkdir_verdict opts) [mkdir_filter2 (word_of_int (secondFilter opts)), mkdir_notify_filter]"
    using second_verdict [OF assms(2) False] by (simp add: verdict_is_def)
  have u: "uncalled s" using assms(1) by (simp add: filtered_def uncalled_def)
  have "setting_up (\<lambda>_. filtered (verdict_is (mkdir_verdict opts)) s0 fd) (installFilter2 os opts s)"
  proof (rule setting_up_mono [OF installFilter2_sets_up [OF u]])
    fix a t
    assume "\<exists>w. t = s\<lparr> tg_world := w, tg_filters := mkdir_filter2 (word_of_int (secondFilter opts)) # tg_filters s \<rparr>"
    then obtain w where t: "t = s\<lparr> tg_world := w, tg_filters := mkdir_filter2 (word_of_int (secondFilter opts)) # tg_filters s \<rparr>" by blast
    show "filtered (verdict_is (mkdir_verdict opts)) s0 fd t" using assms(1) v by (simp add: filtered_def t)
  qed
  then show ?thesis using False by (simp only: not_False_eq_True if_True)
qed

lemma mkdir_target_supervised:
  assumes "tg_filters s = []" "tg_log s = []" "secondFilter opts \<in> {- 1, uint SECCOMP_RET_ERRNO, uint SECCOMP_RET_TRACE}"
    and fds: "tg_fds s - {fst sp, snd sp} \<subseteq> fds"
  shows "supervised (mkdir_verdict opts) argv fds (targetProcess_mkdir os sp argv opts s)"
proof -
  let ?after = "\<lambda>fd s. obind (if secondFilter opts \<noteq> - 1 then installFilter2 os opts s else Ret () s) (\<lambda>_ s.
     obind (obind (send_listener os (fst sp) fd s) (\<lambda>_ s. obind (tg_closed os fd s) (\<lambda>_ s. closeSocketPair os sp s))) (\<lambda>_ s. Exit EXIT_SUCCESS (mkdir_all os argv s)))"
  have after: "supervised (mkdir_verdict opts) argv fds (?after fd t)" if t: "filtered (\<lambda>fs. fs = [mkdir_notify_filter]) s fd t" for fd t
  proof (rule supervised_bind [OF optional_filter_sets_up [OF t assms(3)]], rule supervised_bind [OF hand_over_sets_up'], assumption)
    fix a u b x
    assume u: "filtered (verdict_is (mkdir_verdict opts)) s fd u" and x: "set_up (tg_filters u) sp s x"
    have "seccomp_verdict (tg_filters x) (call_data NR_mkdir) = Some (mkdir_verdict opts)"
      using u x by (auto simp: filtered_def verdict_is_def set_up_def)
    then show "supervised (mkdir_verdict opts) argv fds (Exit EXIT_SUCCESS (mkdir_all os argv x))"
      by (intro supervised_calls [OF x fds]) (simp_all add: mkdir_all_log)
  qed
  have run: "targetProcess_mkdir os sp argv opts s = obind (tg_must (tg_sigaction os) s) (\<lambda>_ s.
      obind (obind (set_no_new_privs os s) (\<lambda>_ s. installNotifyFilter os mkdir_notify_filter s)) ?after)"
    by (simp add: targetProcess_mkdir_def obind_assoc)
  have u: "uncalled s" using assms(2) by (simp add: uncalled_def)
  show ?thesis
    unfolding run
  proof (rule supervised_bind [OF tg_must_sets_up [OF u]])
    fix a t
    assume "\<exists>w. t = s\<lparr> tg_world := w \<rparr>"
    then have t: "tg_filters t = []" "tg_log t = []" "tg_fds t = tg_fds s" using assms by auto
    show "supervised (mkdir_verdict opts) argv fds (obind (obind (set_no_new_privs os t) (\<lambda>_ s. installNotifyFilter os mkdir_notify_filter s)) ?after)"
      by (rule supervised_bind [OF install_sets_up [OF t(1,2)]]) (rule after, use t(3) in \<open>simp add: filtered_def\<close>)
  qed
qed

lemma supervised_bind_opt:
  assumes "setting_up R m" "\<And>a t r. R a t \<Longrightarrow> f a t = Some r \<Longrightarrow> supervised v argv fds r" "obind_opt m f = Some r"
  shows "supervised v argv fds r"
  using assms by (cases m) (auto simp: setting_up_def supervised_def)

lemma obind_opt_assoc: "obind_opt (obind m f) g = obind_opt m (\<lambda>a s. obind_opt (f a s) g)"
  by (cases m) simp_all

lemma openat_target_supervised:
  fixes s :: "'w tg_proc"
  assumes "tg_filters s = []" "tg_log s = []" and fds: "tg_fds s - {fst sp, snd sp} \<subseteq> fds"
    and r: "targetProcess_openat os sp argv s = Some r"
  shows "supervised SECCOMP_RET_USER_NOTIF argv fds r"
proof -
  let ?after = "\<lambda>fd s. obind_opt (obind (send_listener os (fst sp) fd s) (\<lambda>_ s. obind (tg_closed os fd s) (\<lambda>_ s. closeSocketPair os sp s)))
    (\<lambda>_ s. map_option (Exit EXIT_SUCCESS) (openat_all os argv s))"
  have after: "supervised SECCOMP_RET_USER_NOTIF argv fds q" if t: "filtered (\<lambda>fs. fs = [openat_notify_filter]) s fd t" and q: "?after fd t = Some q" for fd t q
  proof (rule supervised_bind_opt [OF hand_over_sets_up' [OF t] _ q])
    fix a x and q' :: "(unit, 'w tg_proc) outcome"
    assume x: "set_up (tg_filters t) sp s x" and "map_option (Exit EXIT_SUCCESS) (openat_all os argv x) = Some q'"
    then obtain y where y: "openat_all os argv x = Some y" "q' = Exit EXIT_SUCCESS y" by auto
    have "tg_filters x = [openat_notify_filter]" using t x by (auto simp: filtered_def set_up_def)
    then have "seccomp_verdict (tg_filters x) (call_data (NR_openat X86_64)) = Some SECCOMP_RET_USER_NOTIF"
      using seccomp_verdict_one(2) by simp
    then show "supervised SECCOMP_RET_USER_NOTIF argv fds q'"
      unfolding y(2) using openat_all_log [OF y(1)] by (intro supervised_calls [OF x fds]) simp_all
  qed
  have run: "obind_opt (obind (set_no_new_privs os s) (\<lambda>_ s. installNotifyFilter os openat_notify_filter s)) ?after = Some r"
    using r by (simp add: targetProcess_openat_def obind_opt_assoc)
  show ?thesis by (rule supervised_bind_opt [OF install_sets_up [OF assms(1,2)] _ run]) (rule after)
qed

section \<open>The programs\<close>

lemma mkdir_options_second:
  "mkdir_options optl opts = Some o1 \<Longrightarrow> secondFilter opts \<in> {- 1, uint SECCOMP_RET_ERRNO, uint SECCOMP_RET_TRACE} \<Longrightarrow>
    secondFilter o1 \<in> {- 1, uint SECCOMP_RET_ERRNO, uint SECCOMP_RET_TRACE}"
  by (induction optl opts rule: mkdir_options.induct) (simp_all split: if_splits)

definition sup_result_ok :: "int set \<Rightarrow> 'w sup_result \<Rightarrow> bool" where
  "sup_result_ok fds r \<longleftrightarrow> (case r of Setup_Ended c t \<Rightarrow> c = EXIT_FAILURE | Handling fd t h \<Rightarrow> tg_fds t \<subseteq> insert fd fds | Setup_Undefined \<Rightarrow> False)"

lemma get_listener_ok:
  assumes "tg_log s = []" "tg_fds s - {fst sp, snd sp} \<subseteq> fds"
  shows "sup_result_ok fds (then_handle (get_listener os sp s) h)"
proof (cases "tg_recvfd os (snd sp) (tg_world s)")
  case (Pair r w)
  show ?thesis
  proof (cases r)
    case None
    then show ?thesis using Pair by (simp add: get_listener_def then_handle_def sup_result_ok_def)
  next
    case (Some fd)
    let ?s = "s\<lparr> tg_world := w, tg_fds := insert fd (tg_fds s) \<rparr>"
    have u: "uncalled ?s" using assms(1) by (simp add: uncalled_def)
    show ?thesis
      using closeSocketPair_sets_up [OF u, of sp os] assms(2) Pair Some
      by (auto simp: get_listener_def then_handle_def sup_result_ok_def setting_up_def obind_def split: outcome.splits)
  qed
qed

lemma after_fork_ok:
  assumes "tg_log s = []" "tg_fds s - {fst sp, snd sp} \<subseteq> fds"
  shows "sup_result_ok fds (case tg_must (tg_sigaction os) s of Ret _ s \<Rightarrow> supervisor_mkdir n os nos start sp opts s | _ \<Rightarrow> Setup_Ended EXIT_FAILURE s)"
    "sup_result_ok fds (case tg_must (tg_sigaction os) s of Ret _ s \<Rightarrow> supervisor_openat n os nos start sp s | _ \<Rightarrow> Setup_Ended EXIT_FAILURE s)"
proof -
  have "sup_result_ok fds (then_handle (get_listener os sp (s\<lparr> tg_world := w \<rparr>)) h)" for h w
    using assms by (intro get_listener_ok) simp_all
  then show "sup_result_ok fds (case tg_must (tg_sigaction os) s of Ret _ s \<Rightarrow> supervisor_mkdir n os nos start sp opts s | _ \<Rightarrow> Setup_Ended EXIT_FAILURE s)"
    "sup_result_ok fds (case tg_must (tg_sigaction os) s of Ret _ s \<Rightarrow> supervisor_openat n os nos start sp s | _ \<Rightarrow> Setup_Ended EXIT_FAILURE s)"
    by (auto simp: tg_must_def sup_result_ok_def supervisor_mkdir_def supervisor_openat_def split: prod.splits)
qed

text \<open>C29. Whatever calls fail, the target of \<^verbatim>\<open>seccomp_unotify_mkdir\<close> makes its calls only once its filters are installed with
  \<^verbatim>\<open>no_new_privs\<close> set and the listener was passed on, with neither the listener nor the sockets open; it then makes one call per argument, in order,
  and each is subject to the supervisor's decision, except that with \<^verbatim>\<open>-f e\<close> the second filter makes all of them fail. When anything fails before, it
  makes none and exits with status 1. The same holds for \<^verbatim>\<open>seccomp_unotify_openat\<close>. The supervisors handle notifications with the sockets closed,
  and otherwise exit with status 1.\<close>

theorem target_calls_supervised:
  fixes s :: "'w tg_proc"
  assumes "tg_filters s = []" "tg_log s = []"
  shows "(case unotify_mkdir_main n os nos start optl args s of (tgt, svr) \<Rightarrow>
       (\<forall>r. tgt = Some r \<longrightarrow>
          (\<exists>opts. parseCommandLineOptions_mkdir optl args = Some opts \<and> supervised (mkdir_verdict opts) args (tg_fds s) r)) \<and>
       sup_result_ok (tg_fds s) svr) \<and>
    (case unotify_openat_main n os nos start args s of (tgt, svr) \<Rightarrow>
       (\<forall>r. tgt = Some (Some r) \<longrightarrow> supervised SECCOMP_RET_USER_NOTIF args (tg_fds s) r) \<and> sup_result_ok (tg_fds s) svr)"
proof (cases "tg_socketpair os (tg_world s)")
  case (Pair sp w)
  show ?thesis
  proof (cases sp)
    case None
    then show ?thesis using Pair
      by (auto simp: unotify_mkdir_main_def unotify_openat_main_def sup_result_ok_def split: option.splits)
  next
    case (Some ab)
    define s1 where "s1 = s\<lparr> tg_world := w, tg_fds := insert (fst ab) (insert (snd ab) (tg_fds s)) \<rparr>"
    obtain ok w2 where fork: "tg_fork os w = (ok, w2)" by fastforce
    define t where "t = s1\<lparr> tg_world := w2 \<rparr>"
    have fk: "tg_must (tg_fork os) s1 = (if ok then Ret () t else Exit EXIT_FAILURE t)" using fork by (simp add: tg_must_def t_def s1_def)
    have t: "tg_filters t = []" "tg_log t = []" "tg_fds t - {fst ab, snd ab} \<subseteq> tg_fds s" using assms by (auto simp: t_def s1_def)
    have fails: "sup_result_ok (tg_fds s) (Setup_Ended EXIT_FAILURE u)" for u :: "'w tg_proc" by (simp add: sup_result_ok_def)
    have opts: "secondFilter o1 \<in> {- 1, uint SECCOMP_RET_ERRNO, uint SECCOMP_RET_TRACE}" if "parseCommandLineOptions_mkdir optl args = Some o1" for o1
      using that mkdir_options_second [of optl _ o1] by (auto simp: parseCommandLineOptions_mkdir_def split: option.splits if_splits)
    have mkdir: "unotify_mkdir_main n os nos start optl args s = (case parseCommandLineOptions_mkdir optl args of None \<Rightarrow> (None, Setup_Ended EXIT_FAILURE s)
        | Some opts \<Rightarrow> if ok then (Some (targetProcess_mkdir os ab args opts t), (case tg_must (tg_sigaction os) t of
              Ret _ s \<Rightarrow> supervisor_mkdir n os nos start ab opts s | _ \<Rightarrow> Setup_Ended EXIT_FAILURE t)) else (None, Setup_Ended EXIT_FAILURE s1))"
      by (simp add: unotify_mkdir_main_def Pair Some Let_def fk flip: s1_def split: option.split)
    have openat: "unotify_openat_main n os nos start args s = (if ok then (Some (targetProcess_openat os ab args t), (case tg_must (tg_sigaction os) t of
              Ret _ s \<Rightarrow> supervisor_openat n os nos start ab s | _ \<Rightarrow> Setup_Ended EXIT_FAILURE t)) else (None, Setup_Ended EXIT_FAILURE s1))"
      by (simp add: unotify_openat_main_def Pair Some Let_def fk flip: s1_def)
    show ?thesis
      unfolding mkdir openat
      using mkdir_target_supervised [OF t(1,2) opts t(3)] openat_target_supervised [OF t] after_fork_ok [OF t(2,3)] fails
      by (cases ok) (simp_all split: option.split)
  qed
qed

text \<open>A kernel in which all calls succeed, and the second filter wins.\<close>

definition tg_demo :: "nat tg_os" where
  "tg_demo = \<lparr> tg_sigaction = \<lambda>w. (True, w), tg_prctl = \<lambda>w. (True, w), tg_seccomp = \<lambda>l f w. (Some 9, w), tg_sendfd = \<lambda>s fd w. (True, w),
     tg_recvfd = \<lambda>s w. (Some 5, w), tg_close = \<lambda>fd w. (True, w), tg_mkdir = \<lambda>p w. (- 1, Suc w), tg_openat = \<lambda>p w. (None, Suc w),
     tg_read = \<lambda>fd n w. (None, w), tg_write = \<lambda>b w. w, tg_socketpair = \<lambda>w. (Some (3, 4), w), tg_fork = \<lambda>w. (True, w) \<rparr>"

definition tg_start :: "nat tg_proc" where
  "tg_start = \<lparr> tg_world = 0, tg_filters = [], tg_nnp = False, tg_fds = {0, 1, 2}, tg_log = [] \<rparr>"

theorem target_calls_supervised_witness:
  "\<exists>t. fst (unotify_mkdir_main 0 tg_demo undefined undefined [(CHR ''f'', ''e'')] [''/tmp/a''] tg_start) = Some (Exit 0 t) \<and>
     tg_log t = [Listener_Sent 9, Called ''/tmp/a'' (Some (SECCOMP_RET_ERRNO OR ENOTSUP_no))] \<and> tg_fds t \<subseteq> {0, 1, 2}"
proof -
  have opts: "parseCommandLineOptions_mkdir [(CHR ''f'', ''e'')] [''/tmp/a''] = Some \<lparr> delaySecs = 0, secondFilter = uint SECCOMP_RET_ERRNO \<rparr>"
    by (simp add: parseCommandLineOptions_mkdir_def cchar_def)
  obtain t where t: "fst (unotify_mkdir_main 0 tg_demo undefined undefined [(CHR ''f'', ''e'')] [''/tmp/a''] tg_start) = Some (Exit 0 t)" "hd (tg_log t) = Listener_Sent 9"
    using opts by (simp add: unotify_mkdir_main_def tg_demo_def tg_start_def targetProcess_mkdir_def tg_must_def set_no_new_privs_def installNotifyFilter_def
        installFilter2_def send_listener_def tg_closed_def closeSocketPair_def Let_def tg_called_def SECCOMP_RET_ERRNO_def)
  have "supervised (SECCOMP_RET_ERRNO OR ENOTSUP_no) [''/tmp/a''] {0, 1, 2} (Exit 0 t)"
    using target_calls_supervised [where s = tg_start and n = 0 and os = tg_demo and nos = undefined and start = undefined
        and optl = "[(CHR ''f'', ''e'')]" and args = "[''/tmp/a'']"] t(1) opts
    by (auto simp: tg_start_def mkdir_verdict_def split: prod.splits)
  then show ?thesis using t by (auto simp: supervised_def)
qed

end
