(* ===== verification/Ucase_Service.thy ===== *)
theory Ucase_Service
  imports Interleaving Socket_Lib
begin

text \<open>
  The datagram service that returns messages in upper case (\<^verbatim>\<open>sockets/ud_ucase_sv.c\<close>, \<^verbatim>\<open>ud_ucase_cl.c\<close> and their IPv6 versions \<^verbatim>\<open>i6d_ucase_sv.c\<close>,
  \<^verbatim>\<open>i6d_ucase_cl.c\<close>): how server and client set up their sockets, and, from then on, one server and any number of clients as step functions
  over queues of datagrams. Messages about who sent what are left out.
\<close>

section \<open>Setting up\<close>

definition UCASE_BUF_SIZE :: nat where [simp]: "UCASE_BUF_SIZE = 10"
definition UCASE_PATH :: cstring where "UCASE_PATH = ''/tmp/ud_ucase''"
definition AF_INET6 :: int where "AF_INET6 = 10"
definition UCASE_DGRAM :: int where "UCASE_DGRAM = 2"

text \<open>\<open>bind_un os fd path whole w\<close>: a cleared address structure gets the path, cut to leave room for the null byte, and is bound, with the
  length of the whole structure or of what is used.\<close>

definition un_address :: "cstring \<Rightarrow> sockaddr_un" where
  "un_address path = cleared_addr\<lparr> sun_path := strncpy_bytes path (SUN_PATH_SIZE - 1) @ [NUL] \<rparr>"

definition bind_un :: "'w sock_os \<Rightarrow> int \<Rightarrow> cstring \<Rightarrow> bool \<Rightarrow> 'w \<Rightarrow> (unit, 'w) outcome" where
  "bind_un os fd path whole w =
     (let addr = un_address path
      in case so_bind os fd (sun_path addr) (if whole then SUN_PATH_OFFSET + SUN_PATH_SIZE else SUN_LEN addr) w of
           (None, w) \<Rightarrow> Ret () w
         | (Some e, w) \<Rightarrow> Exit EXIT_FAILURE w)"

definition dgram_socket :: "'w sock_os \<Rightarrow> int \<Rightarrow> 'w \<Rightarrow> (int, 'w) outcome" where
  "dgram_socket os family w =
     (case so_socket os family UCASE_DGRAM 0 w of (Inl e, w) \<Rightarrow> Exit EXIT_FAILURE w | (Inr fd, w) \<Rightarrow> Ret fd w)"

definition ud_server_setup :: "'w sock_os \<Rightarrow> 'w \<Rightarrow> (int, 'w) outcome" where
  "ud_server_setup os w =
     obind (dgram_socket os PF_UNIX w) (\<lambda>svfd w.
       if length UCASE_PATH > SUN_PATH_SIZE - 1 then Exit EXIT_FAILURE w
       else
         (case so_remove os UCASE_PATH w of
            (e, w) \<Rightarrow>
              if e \<noteq> None \<and> e \<noteq> Some ENOENT then Exit EXIT_FAILURE w
              else obind (bind_un os svfd UCASE_PATH False w) (\<lambda>_ w. Ret svfd w)))"

text \<open>The client's own path has its process id; the result is the socket and that path.\<close>

definition ud_client_setup :: "'w sock_os \<Rightarrow> cstring \<Rightarrow> cstring list \<Rightarrow> 'w \<Rightarrow> (int \<times> cstring, 'w) outcome" where
  "ud_client_setup os pid argv w =
     (if length argv < 2 \<or> argv ! 1 = ''--help'' then Exit EXIT_FAILURE w
      else
        obind (dgram_socket os PF_UNIX w) (\<lambda>clfd w.
          let path = take (SUN_PATH_SIZE - 1) (''/tmp/ud_ucase_cl.'' @ pid)
          in obind (bind_un os clfd path True w) (\<lambda>_ w. Ret (clfd, path) w)))"

text \<open>\<open>any\<close> is the wildcard address with the port of the service; \<open>pton\<close> is \<^verbatim>\<open>inet_pton()\<close>, which gives the server's address or fails.\<close>

definition i6d_server_setup :: "'w sock_os \<Rightarrow> cstring \<Rightarrow> nat \<Rightarrow> 'w \<Rightarrow> (int, 'w) outcome" where
  "i6d_server_setup os any len w =
     obind (dgram_socket os AF_INET6 w) (\<lambda>sfd w.
       case so_bind os sfd any len w of (None, w) \<Rightarrow> Ret sfd w | (Some e, w) \<Rightarrow> Exit EXIT_FAILURE w)"

definition i6d_client_setup :: "'w sock_os \<Rightarrow> (cstring \<Rightarrow> cstring option) \<Rightarrow> cstring list \<Rightarrow> 'w \<Rightarrow> (int \<times> cstring, 'w) outcome" where
  "i6d_client_setup os pton argv w =
     (if length argv < 3 \<or> argv ! 1 = ''--help'' then Exit EXIT_FAILURE w
      else
        obind (dgram_socket os AF_INET6 w) (\<lambda>sfd w.
          case pton (argv ! 1) of None \<Rightarrow> Exit EXIT_FAILURE w | Some addr \<Rightarrow> Ret (sfd, addr) w))"

text \<open>The address these programs build by hand is the one of \<^verbatim>\<open>unixBuildAddress()\<close>.\<close>

lemma un_address_agrees:
  assumes "length path < SUN_PATH_SIZE"
  shows "unixBuildAddress (Some path) = Ret (Inr (un_address path)) ()"
proof -
  have "replicate (SUN_PATH_SIZE - Suc (length path)) NUL @ [NUL] = replicate (SUN_PATH_SIZE - length path) NUL"
    using assms replicate_append_same [of "SUN_PATH_SIZE - Suc (length path)" NUL] by (simp flip: replicate_Suc add: Suc_diff_Suc)
  then show ?thesis using assms unix_address_eq(1) [OF assms] by (simp add: un_address_def cleared_addr_def strncpy_bytes_pads)
qed

section \<open>Server and clients\<close>

definition toupper :: "char \<Rightarrow> char" where
  "toupper c = (let n = of_char c :: nat in if 97 \<le> n \<and> n \<le> 122 then char_of (n - 32) else c)"

text \<open>The server's loop: it waits for a datagram, or has one in upper case to send to client \<open>i\<close>. A client is to send its message \<open>j\<close> or waits for
  the response to it.\<close>

datatype uspc = US_Recv | US_Send nat cstring | US_Exit int
datatype ucpc = UC_Send nat | UC_Recv nat | UC_Exit int

record ucl =
  uc_pc :: ucpc
  uc_box :: "cstring list"
  uc_resp :: "cstring list"

record ucase =
  us_pc :: uspc
  us_box :: "(nat \<times> cstring) list"
  us_cls :: "ucl list"

definition us_ended :: "ucase \<Rightarrow> bool" where
  "us_ended s \<longleftrightarrow> (case us_pc s of US_Exit c \<Rightarrow> True | _ \<Rightarrow> False)"

definition uc_ended :: "ucl \<Rightarrow> bool" where
  "uc_ended c \<longleftrightarrow> (case uc_pc c of UC_Exit e \<Rightarrow> True | _ \<Rightarrow> False)"

text \<open>\<open>ok\<close> tells whether the call that the step makes succeeds. A datagram for a client that has ended cannot be sent.\<close>

definition ucase_server :: "bool \<Rightarrow> ucase \<Rightarrow> ucase option" where
  "ucase_server ok s =
     (case us_pc s of
        US_Recv \<Rightarrow>
          if \<not> ok then Some (s\<lparr> us_pc := US_Exit EXIT_FAILURE \<rparr>)
          else
            (case us_box s of
               [] \<Rightarrow> None
             | (i, d) # rest \<Rightarrow> Some (s\<lparr> us_box := rest, us_pc := US_Send i (map toupper (take UCASE_BUF_SIZE d)) \<rparr>))
      | US_Send i buf \<Rightarrow>
          let c = us_cls s ! i
          in if \<not> ok \<or> uc_ended c then Some (s\<lparr> us_pc := US_Exit EXIT_FAILURE \<rparr>)
             else Some (s\<lparr> us_cls := (us_cls s)[i := c\<lparr> uc_box := uc_box c @ [buf] \<rparr>], us_pc := US_Recv \<rparr>)
      | US_Exit c \<Rightarrow> None)"

text \<open>Client \<open>i\<close> with messages \<open>msgs\<close>; \<open>qlen\<close> datagrams fit into the queue of the server, and a client that finds it full waits.\<close>

definition ucase_client :: "nat \<Rightarrow> cstring list \<Rightarrow> nat \<Rightarrow> bool \<Rightarrow> ucase \<Rightarrow> ucase option" where
  "ucase_client qlen msgs i ok s =
     (let c = us_cls s ! i
      in case uc_pc c of
           UC_Send j \<Rightarrow>
             if j < length msgs then
               (if \<not> ok \<or> us_ended s then Some (s\<lparr> us_cls := (us_cls s)[i := c\<lparr> uc_pc := UC_Exit EXIT_FAILURE \<rparr>] \<rparr>)
                else if length (us_box s) \<ge> qlen then None
                else Some (s\<lparr> us_box := us_box s @ [(i, msgs ! j)], us_cls := (us_cls s)[i := c\<lparr> uc_pc := UC_Recv j \<rparr>] \<rparr>))
             else Some (s\<lparr> us_cls := (us_cls s)[i := c\<lparr> uc_pc := UC_Exit EXIT_SUCCESS \<rparr>] \<rparr>)
         | UC_Recv j \<Rightarrow>
             if \<not> ok then Some (s\<lparr> us_cls := (us_cls s)[i := c\<lparr> uc_pc := UC_Exit EXIT_FAILURE \<rparr>] \<rparr>)
             else
               (case uc_box c of
                  [] \<Rightarrow> None
                | d # rest \<Rightarrow>
                    Some (s\<lparr> us_cls := (us_cls s)[i := c\<lparr> uc_box := rest, uc_resp := uc_resp c @ [take UCASE_BUF_SIZE d], uc_pc := UC_Send (Suc j) \<rparr>] \<rparr>))
         | UC_Exit e \<Rightarrow> None)"

datatype uc_actor = UC_Server bool | UC_Client nat bool

definition ucase_run :: "nat \<Rightarrow> cstring list list \<Rightarrow> uc_actor \<Rightarrow> ucase \<Rightarrow> ucase option" where
  "ucase_run qlen msgs a s =
     (case a of UC_Server ok \<Rightarrow> ucase_server ok s | UC_Client i ok \<Rightarrow> if i < length msgs then ucase_client qlen (msgs ! i) i ok s else None)"

definition actor_ok :: "uc_actor \<Rightarrow> bool" where
  "actor_ok a = (case a of UC_Server ok \<Rightarrow> ok | UC_Client i ok \<Rightarrow> ok)"

text \<open>The start: the server is bound to its address and the clients are ready. Calls fail only when \<open>may_fail\<close>.\<close>

definition ucase_start :: "nat \<Rightarrow> ucase" where
  "ucase_start n = \<lparr> us_pc = US_Recv, us_box = [], us_cls = replicate n \<lparr> uc_pc = UC_Send 0, uc_box = [], uc_resp = [] \<rparr> \<rparr>"

definition uc_step :: "bool \<Rightarrow> nat \<Rightarrow> cstring list list \<Rightarrow> bool \<Rightarrow> ucase \<Rightarrow> ucase \<Rightarrow> bool" where
  "uc_step may_fail qlen msgs b s t \<longleftrightarrow> \<not> b \<and> (\<exists>a. (actor_ok a \<or> may_fail) \<and> ucase_run qlen msgs a s = Some t)"

section \<open>Invariant\<close>

definition ucase_reply :: "cstring \<Rightarrow> cstring" where
  "ucase_reply m = map toupper (take UCASE_BUF_SIZE m)"

lemma length_ucase_reply [simp]: "length (ucase_reply m) \<le> 10" "take 10 (ucase_reply m) = ucase_reply m"
  by (simp_all add: ucase_reply_def)

text \<open>The responses that are under way to client \<open>i\<close>: messages in the queue of the server, the one it handles, and those in the queue of the client.\<close>

definition handled_for :: "nat \<Rightarrow> uspc \<Rightarrow> cstring list" where
  "handled_for i pc = (case pc of US_Send k b \<Rightarrow> if k = i then [b] else [] | _ \<Rightarrow> [])"

definition flight :: "ucase \<Rightarrow> nat \<Rightarrow> cstring list" where
  "flight s i = map (\<lambda>x. ucase_reply (snd x)) (filter (\<lambda>x. fst x = i) (us_box s)) @ handled_for i (us_pc s) @ uc_box (us_cls s ! i)"

definition client_state :: "bool \<Rightarrow> cstring list \<Rightarrow> cstring list \<Rightarrow> bool \<Rightarrow> ucl \<Rightarrow> bool" where
  "client_state may_fail msgs fl ended c \<longleftrightarrow>
     (case uc_pc c of
        UC_Send j \<Rightarrow> j \<le> length msgs \<and> uc_resp c = map ucase_reply (take j msgs) \<and> fl = []
      | UC_Recv j \<Rightarrow> j < length msgs \<and> uc_resp c = map ucase_reply (take j msgs) \<and> (fl = [ucase_reply (msgs ! j)] \<or> fl = [] \<and> ended)
      | UC_Exit e \<Rightarrow> uc_resp c = map ucase_reply (take (length (uc_resp c)) msgs) \<and> (e = 0 \<and> uc_resp c = map ucase_reply msgs \<and> fl = [] \<or> e = 1 \<and> may_fail))"

definition uc_inv :: "bool \<Rightarrow> cstring list list \<Rightarrow> ucase \<Rightarrow> bool" where
  "uc_inv may_fail msgs s \<longleftrightarrow>
     length (us_cls s) = length msgs \<and>
     (\<forall>i<length msgs. client_state may_fail (msgs ! i) (flight s i) (us_ended s) (us_cls s ! i)) \<and>
     (\<forall>x\<in>set (us_box s). fst x < length msgs) \<and> (\<forall>i b. us_pc s = US_Send i b \<longrightarrow> i < length msgs) \<and>
     (\<forall>c. us_pc s = US_Exit c \<longrightarrow> c = 1 \<and> may_fail)"

lemma uc_inv_start: "uc_inv may_fail msgs (ucase_start (length msgs))"
  by (simp add: uc_inv_def ucase_start_def client_state_def flight_def handled_for_def us_ended_def)

fun us_weight :: "uspc \<Rightarrow> nat" where
  "us_weight US_Recv = 1" | "us_weight (US_Send i b) = 2" | "us_weight (US_Exit c) = 0"

fun uc_weight :: "nat \<Rightarrow> ucpc \<Rightarrow> nat" where
  "uc_weight l (UC_Send j) = 4 * (l - j) + 1" | "uc_weight l (UC_Recv j) = 4 * (l - j) - 2" | "uc_weight l (UC_Exit c) = 0"

definition uc_work :: "cstring list list \<Rightarrow> ucase \<Rightarrow> nat" where
  "uc_work msgs s = sum_at (\<lambda>i c. uc_weight (length (msgs ! i)) (uc_pc c)) (us_cls s) + 2 * length (us_box s) + us_weight (us_pc s)"

definition uc_finished :: "ucase \<Rightarrow> bool" where
  "uc_finished s \<longleftrightarrow> us_ended s \<or> (\<forall>c\<in>set (us_cls s). uc_ended c)"

section \<open>Steps\<close>

lemma client_state_mono: "client_state f msgs fl e c \<Longrightarrow> (e \<Longrightarrow> e') \<Longrightarrow> client_state f msgs fl e' c"
  by (auto simp: client_state_def split: ucpc.splits)

lemma uc_inv_updI:
  assumes inv: "uc_inv f msgs s" and i: "i < length msgs" and t: "us_cls t = (us_cls s)[i := c]"
    and others: "\<And>k. k < length msgs \<Longrightarrow> k \<noteq> i \<Longrightarrow> flight t k = flight s k" and e: "us_ended s \<Longrightarrow> us_ended t"
    and c: "client_state f (msgs ! i) (flight t i) (us_ended t) c"
    and rest: "\<forall>x\<in>set (us_box t). fst x < length msgs" "\<forall>i b. us_pc t = US_Send i b \<longrightarrow> i < length msgs" "\<forall>c. us_pc t = US_Exit c \<longrightarrow> c = 1 \<and> f"
  shows "uc_inv f msgs t"
proof -
  have l: "length (us_cls s) = length msgs" using inv by (simp add: uc_inv_def)
  have "client_state f (msgs ! k) (flight t k) (us_ended t) (us_cls t ! k)" if k: "k < length msgs" for k
  proof (cases "k = i")
    case True
    then show ?thesis using c t i l by simp
  next
    case False
    then have "client_state f (msgs ! k) (flight t k) (us_ended s) (us_cls t ! k)" using inv k others [OF k False] t by (simp add: uc_inv_def)
    then show ?thesis using e by (rule client_state_mono)
  qed
  then show ?thesis using l rest t by (simp add: uc_inv_def)
qed

lemma flight_simps:
  "flight (s\<lparr> us_pc := pc \<rparr>) i = map (\<lambda>x. ucase_reply (snd x)) (filter (\<lambda>x. fst x = i) (us_box s)) @ handled_for i pc @ uc_box (us_cls s ! i)"
  by (simp add: flight_def)

lemma uc_work_client:
  assumes "i < length (us_cls s)"
  shows "uc_work msgs (s\<lparr> us_cls := (us_cls s)[i := c] \<rparr>) + uc_weight (length (msgs ! i)) (uc_pc (us_cls s ! i)) = uc_work msgs s + uc_weight (length (msgs ! i)) (uc_pc c)"
  using sum_at_upd [OF assms, of "\<lambda>i c. uc_weight (length (msgs ! i)) (uc_pc c)" c] by (simp add: uc_work_def)

lemma client_at:
  assumes "uc_inv f msgs s" "i < length msgs"
  shows "i < length (us_cls s)" "client_state f (msgs ! i) (flight s i) (us_ended s) (us_cls s ! i)"
  using assms by (simp_all add: uc_inv_def)

text \<open>A client that only changes its program counter leaves everything else as it is.\<close>

lemma client_moves:
  assumes inv: "uc_inv f msgs s" and i: "i < length msgs" and c: "uc_box c = uc_box (us_cls s ! i)"
    and ok: "client_state f (msgs ! i) (flight s i) (us_ended s) c"
    and w: "uc_weight (length (msgs ! i)) (uc_pc c) < uc_weight (length (msgs ! i)) (uc_pc (us_cls s ! i))"
  shows "uc_inv f msgs (s\<lparr> us_cls := (us_cls s)[i := c] \<rparr>) \<and> uc_work msgs (s\<lparr> us_cls := (us_cls s)[i := c] \<rparr>) < uc_work msgs s"
proof
  let ?t = "s\<lparr> us_cls := (us_cls s)[i := c] \<rparr>"
  have l: "i < length (us_cls s)" using client_at [OF inv i] by simp
  have fl: "flight ?t k = flight s k" for k using c l by (simp add: flight_def nth_list_update)
  have e: "us_ended ?t = us_ended s" by (simp add: us_ended_def)
  show "uc_inv f msgs ?t"
    by (rule uc_inv_updI [OF inv i, where c = c]) (use ok fl e inv in \<open>auto simp: uc_inv_def\<close>)
  show "uc_work msgs ?t < uc_work msgs s" using uc_work_client [OF l, of msgs c] w by simp
qed

lemma single_split: "xs @ ys @ zs = [x] \<Longrightarrow> y \<in> set zs \<Longrightarrow> xs = [] \<and> ys = [] \<and> zs = [x]"
  by (cases xs; cases ys; cases zs) auto

lemma client_send_ok:
  assumes inv: "uc_inv f msgs s" and i: "i < length msgs" and pc: "uc_pc (us_cls s ! i) = UC_Send j" and j: "j < length (msgs ! i)"
    and t: "t = s\<lparr> us_box := us_box s @ [(i, msgs ! i ! j)], us_cls := (us_cls s)[i := (us_cls s ! i)\<lparr> uc_pc := UC_Recv j \<rparr>] \<rparr>"
  shows "uc_inv f msgs t \<and> uc_work msgs t < uc_work msgs s"
proof
  let ?c = "(us_cls s ! i)\<lparr> uc_pc := UC_Recv j \<rparr>"
  have l: "i < length (us_cls s)" and st: "uc_resp (us_cls s ! i) = map ucase_reply (take j (msgs ! i))" and fl: "flight s i = []"
    using client_at [OF inv i] pc by (simp_all add: client_state_def)
  have e: "us_ended t = us_ended s" by (simp add: us_ended_def t)
  have box: "us_cls t = (us_cls s)[i := ?c]" "us_box t = us_box s @ [(i, msgs ! i ! j)]" "us_pc t = us_pc s" by (simp_all add: t)
  have "flight t i = [ucase_reply (msgs ! i ! j)]" using fl l by (simp add: flight_def box)
  then have c: "client_state f (msgs ! i) (flight t i) (us_ended t) ?c" using st j by (simp add: client_state_def)
  show "uc_inv f msgs t"
    by (rule uc_inv_updI [OF inv i box(1) _ _ c]) (use e inv i in \<open>auto simp: flight_def box uc_inv_def\<close>)
  have "uc_work msgs t = uc_work msgs (s\<lparr> us_cls := (us_cls s)[i := ?c] \<rparr>) + 2" by (simp add: uc_work_def t)
  moreover have "4 * (length (msgs ! i) - j) \<ge> 4" using j by simp
  ultimately show "uc_work msgs t < uc_work msgs s" using uc_work_client [OF l, of msgs ?c] pc by simp
qed

lemma client_recv_ok:
  assumes inv: "uc_inv f msgs s" and i: "i < length msgs" and pc: "uc_pc (us_cls s ! i) = UC_Recv j" and d: "uc_box (us_cls s ! i) = d # rest"
    and t: "t = s\<lparr> us_cls := (us_cls s)[i := (us_cls s ! i)\<lparr> uc_box := rest, uc_resp := uc_resp (us_cls s ! i) @ [take 10 d], uc_pc := UC_Send (Suc j) \<rparr>] \<rparr>"
  shows "uc_inv f msgs t \<and> uc_work msgs t < uc_work msgs s"
proof
  let ?c = "(us_cls s ! i)\<lparr> uc_box := rest, uc_resp := uc_resp (us_cls s ! i) @ [take 10 d], uc_pc := UC_Send (Suc j) \<rparr>"
  have l: "i < length (us_cls s)" and j: "j < length (msgs ! i)" and st: "uc_resp (us_cls s ! i) = map ucase_reply (take j (msgs ! i))"
    and fl: "flight s i = [ucase_reply (msgs ! i ! j)] \<or> flight s i = []"
    using client_at [OF inv i] pc by (auto simp: client_state_def)
  have "flight s i \<noteq> []" using d by (simp add: flight_def)
  then have one: "flight s i = [ucase_reply (msgs ! i ! j)]" using fl by simp
  have parts: "map (\<lambda>x. ucase_reply (snd x)) (filter (\<lambda>x. fst x = i) (us_box s)) = [] \<and> handled_for i (us_pc s) = [] \<and> d # rest = [ucase_reply (msgs ! i ! j)]"
    by (rule single_split [of _ _ _ _ d]) (use one d in \<open>simp_all add: flight_def\<close>)
  have box: "us_cls t = (us_cls s)[i := ?c]" "us_box t = us_box s" "us_pc t = us_pc s" by (simp_all add: t)
  have e: "us_ended t = us_ended s" by (simp add: us_ended_def t)
  have "flight t i = []" using parts l by (simp add: flight_def box)
  moreover have "uc_resp ?c = map ucase_reply (take (Suc j) (msgs ! i))" using st parts j by (simp add: take_Suc_conv_app_nth)
  ultimately have c: "client_state f (msgs ! i) (flight t i) (us_ended t) ?c" using j by (simp add: client_state_def)
  show "uc_inv f msgs t"
    by (rule uc_inv_updI [OF inv i box(1) _ _ c]) (use e inv in \<open>auto simp: flight_def box uc_inv_def\<close>)
  have "4 * (length (msgs ! i) - j) = 4 * (length (msgs ! i) - Suc j) + 4" using j by simp
  then show "uc_work msgs t < uc_work msgs s" using uc_work_client [OF l, of msgs ?c] pc by (simp add: t)
qed

lemma uc_client_ok:
  assumes inv: "uc_inv f msgs s" and i: "i < length msgs" and ok: "ok \<or> f" and t: "ucase_client qlen (msgs ! i) i ok s = Some t"
  shows "uc_inv f msgs t \<and> uc_work msgs t < uc_work msgs s"
proof -
  let ?c = "us_cls s ! i"
  have st: "client_state f (msgs ! i) (flight s i) (us_ended s) ?c" using client_at [OF inv i] by simp
  have ended: "us_ended s \<Longrightarrow> f" using inv by (auto simp: uc_inv_def us_ended_def split: uspc.splits)
  have fails: "uc_inv f msgs u \<and> uc_work msgs u < uc_work msgs s"
    if "u = s\<lparr> us_cls := (us_cls s)[i := ?c\<lparr> uc_pc := UC_Exit 1 \<rparr>] \<rparr>" f "\<not> uc_ended ?c" for u
    unfolding that(1)
  proof (rule client_moves [OF inv i])
    show "client_state f (msgs ! i) (flight s i) (us_ended s) (?c\<lparr> uc_pc := UC_Exit 1 \<rparr>)"
      using st that(2,3) by (auto simp: client_state_def uc_ended_def split: ucpc.splits)
    show "uc_weight (length (msgs ! i)) (uc_pc (?c\<lparr> uc_pc := UC_Exit 1 \<rparr>)) < uc_weight (length (msgs ! i)) (uc_pc ?c)"
      using st that(3) by (auto simp: client_state_def uc_ended_def split: ucpc.splits)
  qed simp
  show ?thesis
  proof (cases "uc_pc ?c")
    case (UC_Send j)
    have ne: "\<not> uc_ended ?c" using UC_Send by (simp add: uc_ended_def)
    show ?thesis
    proof (cases "j < length (msgs ! i)")
      case True
      show ?thesis
      proof (cases "\<not> ok \<or> us_ended s")
        case bad: True
        then show ?thesis using t UC_Send True fails [OF _ _ ne] ok ended by (auto simp: ucase_client_def Let_def)
      next
        case False
        then show ?thesis using t UC_Send True client_send_ok [OF inv i UC_Send True] by (auto simp: ucase_client_def Let_def split: if_splits)
      qed
    next
      case False
      then have t': "t = s\<lparr> us_cls := (us_cls s)[i := ?c\<lparr> uc_pc := UC_Exit 0 \<rparr>] \<rparr>" using t UC_Send by (simp add: ucase_client_def Let_def)
      show ?thesis unfolding t'
        by (rule client_moves [OF inv i]) (use st UC_Send False in \<open>auto simp: client_state_def\<close>)
    qed
  next
    case (UC_Recv j)
    have ne: "\<not> uc_ended ?c" using UC_Recv by (simp add: uc_ended_def)
    show ?thesis
    proof (cases ok)
      case False
      then show ?thesis using t UC_Recv fails [OF _ _ ne] ok by (auto simp: ucase_client_def Let_def)
    next
      case True
      then obtain d rest where d: "uc_box ?c = d # rest" using t UC_Recv by (auto simp: ucase_client_def Let_def split: list.splits)
      show ?thesis by (rule client_recv_ok [OF inv i UC_Recv d]) (use t True UC_Recv d in \<open>simp add: ucase_client_def Let_def\<close>)
    qed
  next
    case (UC_Exit e)
    then show ?thesis using t by (simp add: ucase_client_def Let_def)
  qed
qed

lemma server_recv_ok:
  assumes inv: "uc_inv f msgs s" and pc: "us_pc s = US_Recv" and b: "us_box s = (i, d) # rest"
    and t: "t = s\<lparr> us_box := rest, us_pc := US_Send i (ucase_reply d) \<rparr>"
  shows "uc_inv f msgs t \<and> uc_work msgs t < uc_work msgs s"
proof
  have i: "i < length msgs" using inv b by (auto simp: uc_inv_def)
  have l: "i < length (us_cls s)" and st: "client_state f (msgs ! i) (flight s i) (us_ended s) (us_cls s ! i)" using client_at [OF inv i] by simp_all
  have box: "us_cls t = (us_cls s)[i := us_cls s ! i]" "us_box t = rest" "us_pc t = US_Send i (ucase_reply d)" "\<not> us_ended t" "\<not> us_ended s"
    by (simp_all add: t us_ended_def pc)
  have fs: "flight s i = ucase_reply d # map (\<lambda>x. ucase_reply (snd x)) (filter (\<lambda>x. fst x = i) rest) @ uc_box (us_cls s ! i)"
    by (simp add: flight_def b handled_for_def pc)
  have ft: "flight t i = map (\<lambda>x. ucase_reply (snd x)) (filter (\<lambda>x. fst x = i) rest) @ ucase_reply d # uc_box (us_cls s ! i)"
    by (simp add: flight_def box handled_for_def)
  have c: "client_state f (msgs ! i) (flight t i) (us_ended t) (us_cls s ! i)"
    using st unfolding fs ft by (auto simp: client_state_def split: ucpc.splits)
  show "uc_inv f msgs t"
    by (rule uc_inv_updI [OF inv i box(1) _ _ c]) (use inv i b in \<open>auto simp: flight_def box handled_for_def pc uc_inv_def\<close>)
  show "uc_work msgs t < uc_work msgs s" by (simp add: uc_work_def t b pc)
qed

lemma server_send_ok:
  assumes inv: "uc_inv f msgs s" and pc: "us_pc s = US_Send i b" and ne: "\<not> uc_ended (us_cls s ! i)"
    and t: "t = s\<lparr> us_cls := (us_cls s)[i := (us_cls s ! i)\<lparr> uc_box := uc_box (us_cls s ! i) @ [b] \<rparr>], us_pc := US_Recv \<rparr>"
  shows "uc_inv f msgs t \<and> uc_work msgs t < uc_work msgs s"
proof
  let ?c = "(us_cls s ! i)\<lparr> uc_box := uc_box (us_cls s ! i) @ [b] \<rparr>"
  have i: "i < length msgs" using inv pc by (auto simp: uc_inv_def)
  have l: "i < length (us_cls s)" and st: "client_state f (msgs ! i) (flight s i) (us_ended s) (us_cls s ! i)" using client_at [OF inv i] by simp_all
  have box: "us_cls t = (us_cls s)[i := ?c]" "us_box t = us_box s" "us_pc t = US_Recv" "\<not> us_ended t" "\<not> us_ended s"
    by (simp_all add: t us_ended_def pc)
  have fs: "flight s i = map (\<lambda>x. ucase_reply (snd x)) (filter (\<lambda>x. fst x = i) (us_box s)) @ b # uc_box (us_cls s ! i)"
    by (simp add: flight_def handled_for_def pc)
  have ft: "flight t i = map (\<lambda>x. ucase_reply (snd x)) (filter (\<lambda>x. fst x = i) (us_box s)) @ uc_box (us_cls s ! i) @ [b]"
    using l by (simp add: flight_def box handled_for_def)
  have c: "client_state f (msgs ! i) (flight t i) (us_ended t) ?c"
    using st ne unfolding fs ft by (cases "uc_pc (us_cls s ! i)") (auto simp: client_state_def uc_ended_def append_eq_Cons_conv)
  show "uc_inv f msgs t"
    by (rule uc_inv_updI [OF inv i box(1) _ _ c]) (use inv in \<open>auto simp: flight_def box handled_for_def pc uc_inv_def\<close>)
  have "uc_work msgs t + 1 = uc_work msgs (s\<lparr> us_cls := (us_cls s)[i := ?c] \<rparr>)" by (simp add: uc_work_def t pc)
  then show "uc_work msgs t < uc_work msgs s" using uc_work_client [OF l, of msgs ?c] by simp
qed

lemma server_exit_ok:
  assumes inv: "uc_inv f msgs s" and f and ne: "\<not> us_ended s" and t: "t = s\<lparr> us_pc := US_Exit 1 \<rparr>"
  shows "uc_inv f msgs t \<and> uc_work msgs t < uc_work msgs s"
proof
  have "client_state f (msgs ! k) (flight t k) (us_ended t) (us_cls t ! k)" if k: "k < length msgs" for k
  proof -
    have "flight t k = flight s k \<or> (\<exists>a b c. flight s k = a @ b # c \<and> flight t k = a @ c)"
      by (auto simp: flight_def t handled_for_def split: uspc.splits)
    then show ?thesis using client_at(2) [OF inv k]
      by (auto simp: client_state_def t us_ended_def append_eq_Cons_conv Cons_eq_append_conv split: ucpc.splits)
  qed
  then show "uc_inv f msgs t" using inv \<open>f\<close> by (simp add: uc_inv_def t)
  show "uc_work msgs t < uc_work msgs s" using ne by (cases "us_pc s") (simp_all add: uc_work_def t us_ended_def)
qed

lemma uc_step_ok:
  assumes inv: "uc_inv f msgs s" and st: "uc_step f qlen msgs b s t"
  shows "uc_inv f msgs t \<and> uc_work msgs t < uc_work msgs s"
proof -
  obtain a where a: "actor_ok a \<or> f" "ucase_run qlen msgs a s = Some t" using st by (auto simp: uc_step_def)
  show ?thesis
  proof (cases a)
    case (UC_Client i ok)
    then show ?thesis using a uc_client_ok [OF inv] by (auto simp: ucase_run_def actor_ok_def split: if_splits)
  next
    case (UC_Server ok)
    then have r: "ucase_server ok s = Some t" "ok \<or> f" using a by (simp_all add: ucase_run_def actor_ok_def)
    show ?thesis
    proof (cases "us_pc s")
      case US_Recv
      have ne: "\<not> us_ended s" using US_Recv by (simp add: us_ended_def)
      show ?thesis using r US_Recv server_exit_ok [OF inv _ ne] server_recv_ok [OF inv US_Recv]
        by (auto simp: ucase_server_def ucase_reply_def split: if_splits list.splits)
    next
      case (US_Send i b)
      have ne: "\<not> us_ended s" using US_Send by (simp add: us_ended_def)
      have i: "i < length msgs" using inv US_Send by (auto simp: uc_inv_def)
      have "flight s i \<noteq> []" by (simp add: flight_def US_Send handled_for_def)
      then have "f" if "uc_ended (us_cls s ! i)"
        using that client_at(2) [OF inv i] by (auto simp: client_state_def uc_ended_def split: ucpc.splits)
      then show ?thesis using r US_Send server_exit_ok [OF inv _ ne] server_send_ok [OF inv US_Send]
        by (auto simp: ucase_server_def Let_def split: if_splits)
    next
      case (US_Exit c)
      then show ?thesis using r by (simp add: ucase_server_def)
    qed
  qed
qed

lemma uc_progress:
  assumes inv: "uc_inv f msgs s" and q: "0 < qlen" and nf: "\<not> uc_finished s"
  shows "\<exists>t. uc_step f qlen msgs False s t"
proof -
  have st: "\<exists>t. uc_step f qlen msgs False s t" if "actor_ok a" "ucase_run qlen msgs a s \<noteq> None" for a using that by (auto simp: uc_step_def)
  have ne: "\<not> us_ended s" using nf by (simp add: uc_finished_def)
  show ?thesis
  proof (cases "us_pc s = US_Recv \<and> us_box s = []")
    case False
    then have "ucase_server True s \<noteq> None" using ne
      by (cases "us_pc s"; cases "us_box s") (auto simp: ucase_server_def us_ended_def Let_def)
    then show ?thesis by (intro st [of "UC_Server True"]) (simp_all add: actor_ok_def ucase_run_def)
  next
    case True
    obtain i where i: "i < length msgs" "\<not> uc_ended (us_cls s ! i)"
      using nf inv by (auto simp: uc_finished_def in_set_conv_nth uc_inv_def)
    have fl: "flight s i = uc_box (us_cls s ! i)" using True by (simp add: flight_def handled_for_def)
    have "ucase_client qlen (msgs ! i) i True s \<noteq> None"
      using client_at(2) [OF inv i(1)] i(2) ne q True fl
      by (cases "uc_pc (us_cls s ! i)") (auto simp: ucase_client_def client_state_def uc_ended_def Let_def)
    then show ?thesis using i(1) by (intro st [of "UC_Client i True"]) (simp_all add: actor_ok_def ucase_run_def)
  qed
qed

interpretation ucase: bounded_system "uc_step f (Suc q) msgs" "uc_inv f msgs" "uc_work msgs" 0 uc_finished for f q msgs
proof
  show "uc_inv f msgs t" if "uc_inv f msgs s" "uc_step f (Suc q) msgs b s t" for b s t using uc_step_ok that by blast
  show "Suc (uc_work msgs t) \<le> uc_work msgs s + (if b then 0 else 0)" if "uc_inv f msgs s" "uc_step f (Suc q) msgs b s t" for b s t using uc_step_ok [OF that] by simp
  show "\<exists>t. uc_step f (Suc q) msgs False s t" if "uc_inv f msgs s" "\<not> uc_finished s" for s using uc_progress that by simp
qed

section \<open>The responses\<close>

lemma uc_work_start: "uc_work msgs (ucase_start (length msgs)) = sum_list (map (\<lambda>m. 4 * length m + 1) msgs) + 1"
proof -
  have "sum_at (\<lambda>i c. uc_weight (length (msgs ! i)) (uc_pc c)) (us_cls (ucase_start (length msgs))) = (\<Sum>i<length msgs. 4 * length (msgs ! i) + 1)"
    by (auto simp: sum_at_def ucase_start_def intro!: sum.cong)
  also have "\<dots> = sum_list (map (\<lambda>m. 4 * length m + 1) msgs)" by (simp add: sum_list_sum_nth lessThan_atLeast0)
  finally show ?thesis by (simp add: uc_work_def ucase_start_def)
qed

text \<open>C16. The upper-case service with one server and any number of clients, in every interleaving: a run has at most the number of steps given here, and it
  can only stop when the server or all clients have ended. Whatever calls fail, a client has got, in order, for each message it has sent so far the
  first ten bytes in upper case, never the response to another client, and it ends with status 0 only when that holds for all its messages.
  When no call fails the server keeps running, and no client fails.\<close>

theorem ucase_responses:
  assumes "0 < qlen" "steps (uc_step may_fail qlen msgs) (ucase_start (length msgs)) n k s"
  shows "n \<le> sum_list (map (\<lambda>m. 4 * length m + 1) msgs) + 1 \<and>
    ((\<exists>t. uc_step may_fail qlen msgs False s t) \<or> us_ended s \<or> (\<forall>i<length msgs. \<exists>c. uc_pc (us_cls s ! i) = UC_Exit c)) \<and>
    (\<forall>i<length msgs. \<exists>j\<le>length (msgs ! i). uc_resp (us_cls s ! i) = map ucase_reply (take j (msgs ! i)) \<and>
       (uc_pc (us_cls s ! i) = UC_Exit 0 \<longrightarrow> j = length (msgs ! i))) \<and>
    (\<not> may_fail \<longrightarrow> \<not> us_ended s \<and> (\<forall>i<length msgs. \<forall>c. uc_pc (us_cls s ! i) = UC_Exit c \<longrightarrow> c = 0))"
proof -
  obtain q where q: "qlen = Suc q" using assms(1) by (cases qlen) simp_all
  note r = assms(2) [unfolded q]
  have inv: "uc_inv may_fail msgs s" using ucase.reached [OF uc_inv_start r] by simp
  have b: "n \<le> sum_list (map (\<lambda>m. 4 * length m + 1) msgs) + 1" using ucase.bounded [OF uc_inv_start r] uc_work_start [of msgs] by simp
  have p: "(\<exists>t. uc_step may_fail qlen msgs False s t) \<or> us_ended s \<or> (\<forall>i<length msgs. \<exists>c. uc_pc (us_cls s ! i) = UC_Exit c)"
  proof -
    have "uc_finished s \<Longrightarrow> us_ended s \<or> (\<forall>i<length msgs. uc_ended (us_cls s ! i))" using inv by (auto simp: uc_finished_def uc_inv_def)
    moreover have "uc_ended c \<longleftrightarrow> (\<exists>e. uc_pc c = UC_Exit e)" for c by (cases "uc_pc c") (simp_all add: uc_ended_def)
    ultimately show ?thesis using ucase.not_stuck [OF uc_inv_start r] unfolding q by blast
  qed
  have g: "\<exists>j\<le>length (msgs ! i). uc_resp (us_cls s ! i) = map ucase_reply (take j (msgs ! i)) \<and> (uc_pc (us_cls s ! i) = UC_Exit 0 \<longrightarrow> j = length (msgs ! i))"
    if i: "i < length msgs" for i
  proof -
    have c: "client_state may_fail (msgs ! i) (flight s i) (us_ended s) (us_cls s ! i)" using client_at [OF inv i] by simp
    have e: "uc_resp (us_cls s ! i) = map ucase_reply (take (length (uc_resp (us_cls s ! i))) (msgs ! i))"
      using c by (auto simp: client_state_def split: ucpc.splits)
    then have "length (uc_resp (us_cls s ! i)) \<le> length (msgs ! i)" by (metis length_map length_take min.cobounded1)
    moreover have "uc_pc (us_cls s ! i) = UC_Exit 0 \<Longrightarrow> length (uc_resp (us_cls s ! i)) = length (msgs ! i)"
      using c by (simp add: client_state_def)
    ultimately show ?thesis using e by blast
  qed
  have "\<not> us_ended s \<and> (\<forall>i<length msgs. \<forall>c. uc_pc (us_cls s ! i) = UC_Exit c \<longrightarrow> c = 0)" if "\<not> may_fail"
    using that inv by (auto simp: uc_inv_def us_ended_def client_state_def split: uspc.splits)
  with b p g show ?thesis by blast
qed

text \<open>Two clients whose requests wait in the queue together.\<close>

theorem ucase_responses_witness:
  "\<exists>s. exec_schedule (ucase_run 2 [[''long message''], [''b'', ''c'']])
       [UC_Client 1 True, UC_Client 0 True, UC_Server True, UC_Server True, UC_Server True, UC_Server True, UC_Client 0 True, UC_Client 0 True]
       (ucase_start 2) = Some s \<and> uc_resp (us_cls s ! 0) = [''LONG MESSA''] \<and> uc_pc (us_cls s ! 0) = UC_Exit 0"
proof -
  let ?m = "[[''long message''], [''b'', ''c'']]"
  let ?as = "[UC_Client 1 True, UC_Client 0 True, UC_Server True, UC_Server True, UC_Server True, UC_Server True, UC_Client 0 True, UC_Client 0 True]"
  let ?s = "\<lparr> us_pc = US_Recv, us_box = [], us_cls = [\<lparr> uc_pc = UC_Exit 0, uc_box = [], uc_resp = [''LONG MESSA''] \<rparr>,
    \<lparr> uc_pc = UC_Recv 0, uc_box = [''B''], uc_resp = [] \<rparr>] \<rparr>"
  have r: "exec_schedule (ucase_run 2 ?m) ?as (ucase_start 2) = Some ?s" by code_simp
  have run: "steps (uc_step True 2 ?m) (ucase_start (length ?m)) (length ?as) 0 ?s"
    using exec_steps [where f = "ucase_run 2 ?m" and step = "uc_step True 2 ?m", OF _ steps.none r] by (auto simp: uc_step_def numeral_2_eq_2)
  have "\<forall>i<2. \<exists>j\<le>length (?m ! i). uc_resp (us_cls ?s ! i) = map ucase_reply (take j (?m ! i)) \<and> (uc_pc (us_cls ?s ! i) = UC_Exit 0 \<longrightarrow> j = length (?m ! i))"
    using ucase_responses [OF _ run] by simp
  then show ?thesis using r by auto
qed

text \<open>A client that ends while its request waits takes the server down: the datagram cannot be delivered.\<close>

lemma failing_client_ends_server:
  "map_option us_pc (exec_schedule (ucase_run 2 [[''a'']]) [UC_Client 0 True, UC_Server True, UC_Client 0 False, UC_Server True] (ucase_start 1)) = Some (US_Exit 1)"
  by code_simp

end
