(* ===== verification/Lock_Shell.thy ===== *)
theory Lock_Shell
  imports Pid_File Simple_Init Get_Num Util_Lib
begin

text \<open>
  \<^verbatim>\<open>filelock/i_fcntl_locking.c\<close>: reads locking commands, turns each into a call of \<^verbatim>\<open>fcntl()\<close> and reports its result. The system calls are
  arguments over an opaque state; the wording of the messages is left out.
\<close>

section \<open>sscanf()\<close>

text \<open>\<^verbatim>\<open>%c\<close> after white space in the format, \<^verbatim>\<open>%lld\<close> and \<^verbatim>\<open>%d\<close>: what is stored and the rest of the string, or \<open>None\<close> when there is nothing to convert.\<close>

definition scan_char :: "cstring \<Rightarrow> (char \<times> cstring) option" where
  "scan_char s = (case dropWhile isspace s of [] \<Rightarrow> None | c # r \<Rightarrow> Some (c, r))"

definition scan_lld :: "cstring \<Rightarrow> (int \<times> cstring) option" where
  "scan_lld s = (if strto 10 s = None then None else case strtoll s 10 of (v, e, r) \<Rightarrow> Some (v, r))"

text \<open>The variables of \<open>main()\<close> that the conversions store into; they keep their values from one command to the next.\<close>

record cmd_vars =
  cv_fileNum :: int
  cv_cmdCh :: char
  cv_lock :: char
  cv_st :: int
  cv_len :: int
  cv_whence :: char

text \<open>The common tail of both formats; \<open>n\<close> conversions were made before.\<close>

definition scan_fields :: "nat \<Rightarrow> cstring \<Rightarrow> cmd_vars \<Rightarrow> nat \<times> cmd_vars" where
  "scan_fields n s v =
     (case scan_char s of
        None \<Rightarrow> (n, v)
      | Some (c, s) \<Rightarrow>
          let v = v\<lparr> cv_cmdCh := c \<rparr>
          in case scan_char s of
               None \<Rightarrow> (n + 1, v)
             | Some (l, s) \<Rightarrow>
                 let v = v\<lparr> cv_lock := l \<rparr>
                 in case scan_lld s of
                      None \<Rightarrow> (n + 2, v)
                    | Some (st, s) \<Rightarrow>
                        let v = v\<lparr> cv_st := st \<rparr>
                        in case scan_lld s of
                             None \<Rightarrow> (n + 3, v)
                           | Some (len, s) \<Rightarrow>
                               let v = v\<lparr> cv_len := len \<rparr>
                               in case scan_char s of None \<Rightarrow> (n + 4, v) | Some (w, s) \<Rightarrow> (n + 5, v\<lparr> cv_whence := w \<rparr>))"

definition scan_line :: "nat \<Rightarrow> cstring \<Rightarrow> cmd_vars \<Rightarrow> nat \<times> cmd_vars" where
  "scan_line argc line v =
     (if argc = 2 then scan_fields 0 line (v\<lparr> cv_fileNum := 1 \<rparr>)
      else (case scan_lld line of None \<Rightarrow> (0, v) | Some (k, s) \<Rightarrow> scan_fields 1 s (v\<lparr> cv_fileNum := to_int32 k \<rparr>)))"

section \<open>One command\<close>

datatype fcntl_cmd = Plain lock_cmd | Ofd lock_cmd

datatype shell_act = Nothing | Help | Bad_File_Number | Invalid_Command | Request nat fcntl_cmd flock

definition cmd_of :: "char \<Rightarrow> fcntl_cmd" where
  "cmd_of c =
     (if c = CHR ''G'' then Ofd F_GETLK else if c = CHR ''S'' then Ofd F_SETLK else if c = CHR ''W'' then Ofd F_SETLKW
      else if c = CHR ''g'' then Plain F_GETLK else if c = CHR ''s'' then Plain F_SETLK else Plain F_SETLKW)"

definition type_of :: "char \<Rightarrow> lock_type" where
  "type_of c = (if c = CHR ''r'' then F_RDLCK else if c = CHR ''w'' then F_WRLCK else F_UNLCK)"

definition whence_of :: "char \<Rightarrow> whence" where
  "whence_of c = (if c = CHR ''c'' then SEEK_CUR else if c = CHR ''e'' then SEEK_END else SEEK_SET)"

text \<open>The line as \<^verbatim>\<open>fgets()\<close> stored it. Its last character is removed; the first byte may be a null byte, and then the one before the array is
  overwritten.\<close>

definition shell_command :: "nat \<Rightarrow> cstring \<Rightarrow> cmd_vars \<Rightarrow> (shell_act, cmd_vars) outcome" where
  "shell_command argc stored v =
     (let line = takeWhile (\<lambda>c. c \<noteq> NUL) stored
      in if line = [] then Undef
         else
           (let line = butlast line
            in if line = [] then Ret Nothing v
               else if hd line = CHR ''?'' then Ret Help v
               else
                 (let (numRead, v) = scan_line argc line (v\<lparr> cv_whence := CHR ''s'' \<rparr>)
                  in if cv_fileNum v < 1 \<or> cv_fileNum v \<ge> int argc then Ret Bad_File_Number v
                     else if \<not> (numRead \<ge> 4 \<and> argc = 2 \<or> numRead \<ge> 5 \<and> argc > 2) \<or> cv_cmdCh v \<notin> set ''gswGSW'' \<or> cv_lock v \<notin> set ''rwu'' \<or> cv_whence v \<notin> set ''sce''
                     then Ret Invalid_Command v
                     else Ret (Request (nat (cv_fileNum v)) (cmd_of (cv_cmdCh v))
                            \<lparr> l_type = type_of (cv_lock v), l_whence = whence_of (cv_whence v), l_start = cv_st v, l_len = cv_len v, l_pid = 0 \<rparr>) v)))"

section \<open>Carrying it out\<close>

datatype shell_report = Warned | Can_Be_Placed | Denied_By flock | Unlocked | Got_Lock | Incompatible | Deadlock | Said_Help | Said_Bad_File | Said_Invalid

record 'w shell_os =
  sh_open :: "cstring \<Rightarrow> 'w \<Rightarrow> int option \<times> 'w"
  sh_mode :: "int \<Rightarrow> 'w \<Rightarrow> mode option"
  sh_calloc :: "nat \<Rightarrow> 'w \<Rightarrow> bool \<times> 'w"
  sh_fcntl :: "int \<Rightarrow> fcntl_cmd \<Rightarrow> flock \<Rightarrow> 'w \<Rightarrow> (errno + flock) \<times> 'w"

definition EDEADLK :: errno where "EDEADLK = EOTHER 35"

definition is_getlk :: "fcntl_cmd \<Rightarrow> bool" where
  "is_getlk c \<longleftrightarrow> c = Plain F_GETLK \<or> c = Ofd F_GETLK"

definition report_on :: "fcntl_cmd \<Rightarrow> flock \<Rightarrow> errno + flock \<Rightarrow> shell_report" where
  "report_on cmd fl status =
     (if is_getlk cmd then
        (case status of Inl e \<Rightarrow> Warned | Inr r \<Rightarrow> if l_type r = F_UNLCK then Can_Be_Placed else Denied_By r)
      else
        (case status of
           Inr r \<Rightarrow> if l_type fl = F_UNLCK then Unlocked else Got_Lock
         | Inl e \<Rightarrow> if e = EAGAIN \<or> e = EACCES then Incompatible else if e = EDEADLK then Deadlock else Warned))"

text \<open>The loop, on the text of standard input. What it does is the list of reports with the requests they answer.\<close>

definition SHELL_LINE :: nat where [simp]: "SHELL_LINE = 100"

lemma fgets_shorter: "fgets 100 inp = Some (l, r) \<Longrightarrow> length r < length inp"
  by (cases inp) (auto simp: fgets_def Let_def split: if_splits)

function shell_loop ::
  "'w shell_os \<Rightarrow> int list \<Rightarrow> cstring \<Rightarrow> cmd_vars \<Rightarrow> 'w \<Rightarrow> (shell_act \<times> shell_report) list \<Rightarrow> ((shell_act \<times> shell_report) list, 'w) outcome" where
  "shell_loop os fdList inp v w done =
     (case fgets SHELL_LINE inp of
        None \<Rightarrow> Ret done w
      | Some (stored, inp') \<Rightarrow>
            (case shell_command (length fdList) stored v of
               Ret act v \<Rightarrow>
                 (case act of
                    Nothing \<Rightarrow> shell_loop os fdList inp' v w done
                  | Help \<Rightarrow>
                      (if length fdList > 2 \<and> (\<exists>fd\<in>set (tl fdList). sh_mode os fd w = None) then Exit EXIT_FAILURE w
                       else shell_loop os fdList inp' v w (done @ [(Help, Said_Help)]))
                  | Bad_File_Number \<Rightarrow> shell_loop os fdList inp' v w (done @ [(act, Said_Bad_File)])
                  | Invalid_Command \<Rightarrow> shell_loop os fdList inp' v w (done @ [(act, Said_Invalid)])
                  | Request n cmd fl \<Rightarrow>
                      (case sh_fcntl os (fdList ! n) cmd fl w of
                         (status, w) \<Rightarrow> shell_loop os fdList inp' v w (done @ [(act, report_on cmd fl status)])))
             | _ \<Rightarrow> Undef))"
  by pat_completeness auto
termination
  by (relation "measure (\<lambda>(os, fdList, inp, v, w, done). length inp)") (auto dest: fgets_shorter)

declare shell_loop.simps [simp del]

text \<open>\<open>None\<close>: \<^verbatim>\<open>fstat()\<close> fails and the program ends.\<close>

definition mandLockingEnabled :: "'w shell_os \<Rightarrow> int \<Rightarrow> 'w \<Rightarrow> bool option" where
  "mandLockingEnabled os fd w = map_option (\<lambda>m. m AND S_ISGID \<noteq> 0 \<and> m AND S_IXGRP = 0) (sh_mode os fd w)"

fun open_files :: "'w shell_os \<Rightarrow> cstring list \<Rightarrow> 'w \<Rightarrow> (int list, 'w) outcome" where
  "open_files os [] w = Ret [] w"
| "open_files os (f # fs) w = obind (must_get (sh_open os f) w) (\<lambda>fd w. obind (open_files os fs w) (\<lambda>fds w. Ret (fd # fds) w))"

text \<open>Element 0 of the array of descriptors is not used. \<open>v\<close> holds what is in the variables at the start.\<close>

definition lock_shell :: "'w shell_os \<Rightarrow> cstring list \<Rightarrow> cstring \<Rightarrow> cmd_vars \<Rightarrow> 'w \<Rightarrow> ((shell_act \<times> shell_report) list, 'w) outcome" where
  "lock_shell os argv inp v w =
     (if length argv < 2 \<or> argv ! 1 = ''--help'' then Exit EXIT_FAILURE w
      else
        obind (must (sh_calloc os (length argv)) w) (\<lambda>_ w.
        obind (open_files os (tl argv) w) (\<lambda>fds w.
          if \<exists>fd\<in>set fds. mandLockingEnabled os fd w = None then Exit EXIT_FAILURE w
          else shell_loop os (0 # fds) inp v w [])))"

section \<open>What is typed and what is requested\<close>

definition command_text :: "nat \<Rightarrow> nat \<Rightarrow> char \<Rightarrow> char \<Rightarrow> int \<Rightarrow> int \<Rightarrow> char \<Rightarrow> cstring" where
  "command_text argc k c l st len wh =
     (if argc = 2 then [] else dec (int k) @ '' '') @ [c] @ '' '' @ [l] @ '' '' @ dec st @ '' '' @ dec len @ '' '' @ [wh]"

lemma scan_lld_dec:
  assumes "LLONG_MIN \<le> v" "v \<le> LLONG_MAX" "rest = [] \<or> \<not> is_digit 10 (hd rest)"
  shows "scan_lld (dec v @ rest) = Some (v, rest)" "scan_lld (CHR '' '' # dec v @ rest) = Some (v, rest)"
proof -
  have sp: "strto 10 (CHR '' '' # dec v @ rest) = strto 10 (dec v @ rest)" by (simp add: strto_def isspace_def)
  have d: "strto 10 (dec v @ rest) \<noteq> None" using strto_dec [OF assms(3), of v] by simp
  show a: "scan_lld (dec v @ rest) = Some (v, rest)" using strtoll_dec [OF assms] d by (simp add: scan_lld_def)
  show "scan_lld (CHR '' '' # dec v @ rest) = Some (v, rest)"
    using assms(1,2) by (simp add: scan_lld_def strtoll_def sp strto_dec [OF assms(3)])
qed

lemma scan_char_simps [simp]: "\<not> isspace c \<Longrightarrow> scan_char (c # s) = Some (c, s)" "scan_char (CHR '' '' # s) = scan_char s"
  by (simp_all add: scan_char_def isspace_def)

lemma space_not_digit: "\<not> is_digit 10 (CHR '' '')"
  by (simp add: is_digit_def digit_val_def)

lemma letters_not_space:
  "c \<in> set ''gswGSW'' \<Longrightarrow> \<not> isspace c \<and> c \<noteq> NUL \<and> c \<noteq> CHR ''?''"
  "c \<in> set ''rwu'' \<Longrightarrow> \<not> isspace c \<and> c \<noteq> NUL"
  "c \<in> set ''sce'' \<Longrightarrow> \<not> isspace c \<and> c \<noteq> NUL"
  by (auto simp: isspace_def NUL_def)

lemma scan_fields_text:
  assumes c: "c \<in> set ''gswGSW''" and l: "l \<in> set ''rwu''" and wh: "wh \<in> set ''sce''"
    and r: "LLONG_MIN \<le> st" "st \<le> LLONG_MAX" "LLONG_MIN \<le> len" "len \<le> LLONG_MAX"
    and pre: "pre = [] \<or> pre = '' ''"
  shows "scan_fields n (pre @ [c] @ '' '' @ [l] @ '' '' @ dec st @ '' '' @ dec len @ '' '' @ [wh]) v =
    (n + 5, v\<lparr> cv_cmdCh := c, cv_lock := l, cv_st := st, cv_len := len, cv_whence := wh \<rparr>)"
proof -
  have ns: "\<not> isspace c" "\<not> isspace l" "\<not> isspace wh"
    using letters_not_space(1) [OF c] letters_not_space(2) [OF l] letters_not_space(3) [OF wh] by simp_all
  have s1: "scan_lld (CHR '' '' # dec st @ CHR '' '' # dec len @ CHR '' '' # [wh]) = Some (st, CHR '' '' # dec len @ CHR '' '' # [wh])"
    by (rule scan_lld_dec [OF r(1,2)]) (simp add: space_not_digit)
  have s2: "scan_lld (CHR '' '' # dec len @ CHR '' '' # [wh]) = Some (len, CHR '' '' # [wh])"
    by (rule scan_lld_dec [OF r(3,4)]) (simp add: space_not_digit)
  have "scan_char (pre @ c # s) = Some (c, s)" for s using pre ns(1) by auto
  then show ?thesis using ns s1 s2 by (simp add: scan_fields_def)
qed

lemma hd_dec: "\<not> isspace (hd (dec (int k))) \<and> hd (dec (int k)) \<noteq> CHR ''?''"
proof -
  have "hd (dec (int k)) \<in> set (dec_nat k)" by (simp add: dec_def hd_in_set)
  then have "is_digit 10 (hd (dec (int k)))" using dec_nat_digits by blast
  then show ?thesis using digit10_props by (auto simp: is_digit_def digit_val_def)
qed

lemma scan_line_text:
  assumes c: "c \<in> set ''gswGSW''" "l \<in> set ''rwu''" "wh \<in> set ''sce''"
    and r: "LLONG_MIN \<le> st" "st \<le> LLONG_MAX" "LLONG_MIN \<le> len" "len \<le> LLONG_MAX"
    and k: "1 \<le> k" "k < argc" "int argc \<le> INT_MAX"
  shows "scan_line argc (command_text argc k c l st len wh) v =
    ((if argc = 2 then 5 else 6), v\<lparr> cv_fileNum := int k, cv_cmdCh := c, cv_lock := l, cv_st := st, cv_len := len, cv_whence := wh \<rparr>)"
proof (cases "argc = 2")
  case True
  then have "k = 1" using k by simp
  then show ?thesis using True scan_fields_text [OF c r, of "[]" 0] by (simp add: scan_line_def command_text_def)
next
  case False
  have "to_int32 (int k) = int k" using k by (intro to_int32_id) (simp_all add: limit_defs)
  moreover have "scan_lld (dec (int k) @ '' '' @ s) = Some (int k, '' '' @ s)" for s
    using k by (intro scan_lld_dec) (simp_all add: limit_defs space_not_digit)
  ultimately show ?thesis using False scan_fields_text [OF c r, of "'' ''" 1] by (simp add: scan_line_def command_text_def)
qed

lemma shell_command_text:
  assumes c: "c \<in> set ''gswGSW''" "l \<in> set ''rwu''" "wh \<in> set ''sce''"
    and r: "LLONG_MIN \<le> st" "st \<le> LLONG_MAX" "LLONG_MIN \<le> len" "len \<le> LLONG_MAX"
    and k: "1 \<le> k" "k < argc" "int argc \<le> INT_MAX"
  shows "\<exists>v'. shell_command argc (command_text argc k c l st len wh @ [newline]) v =
    Ret (Request k (cmd_of c) \<lparr> l_type = type_of l, l_whence = whence_of wh, l_start = st, l_len = len, l_pid = 0 \<rparr>) v'"
proof -
  let ?t = "command_text argc k c l st len wh"
  have n: "c \<noteq> NUL" "l \<noteq> NUL" "wh \<noteq> NUL" "c \<noteq> CHR ''?''" using letters_not_space(1) [OF c(1)] letters_not_space(2) [OF c(2)] letters_not_space(3) [OF c(3)] by simp_all
  have "NUL \<notin> set ?t" using n no_nul_dec by (auto simp: command_text_def no_nul_def NUL_def)
  then have tw: "takeWhile (\<lambda>c. c \<noteq> NUL) (?t @ [newline]) = ?t @ [newline]" by (subst takeWhile_eq_all_conv) (auto simp: newline_def NUL_def)
  have "?t \<noteq> []" "hd ?t \<noteq> CHR ''?''" using n(4) hd_dec [of k] by (simp_all add: command_text_def)
  then show ?thesis
    unfolding shell_command_def tw using scan_line_text [OF c r k, of "v\<lparr> cv_whence := CHR ''s'' \<rparr>"] c k by (simp add: Let_def)
qed

text \<open>Which requests can come about.\<close>

definition sound_request :: "nat \<Rightarrow> shell_act \<Rightarrow> bool" where
  "sound_request argc act \<longleftrightarrow> (case act of Request n cmd fl \<Rightarrow> 1 \<le> n \<and> n < argc \<and> l_pid fl = 0 | _ \<Rightarrow> True)"

lemma shell_command_sound:
  assumes "takeWhile (\<lambda>c. c \<noteq> NUL) stored \<noteq> []"
  shows "\<exists>act v'. shell_command argc stored v = Ret act v' \<and> sound_request argc act"
proof -
  obtain n v' where s: "scan_line argc (butlast (takeWhile (\<lambda>c. c \<noteq> NUL) stored)) (v\<lparr> cv_whence := CHR ''s'' \<rparr>) = (n, v')" by fastforce
  show ?thesis using assms s by (auto simp: shell_command_def Let_def sound_request_def)
qed

lemma fgets_no_nul:
  assumes "fgets 100 inp = Some (l, r)" "NUL \<notin> set inp"
  shows "takeWhile (\<lambda>c. c \<noteq> NUL) l \<noteq> []" "NUL \<notin> set r"
proof -
  obtain c cs where inp: "inp = c # cs" using assms(1) by (cases inp) (auto simp: fgets_def)
  obtain m where l: "l = c # m" using assms(1) inp by (cases "c = newline") (auto simp: fgets_def Let_def)
  show "takeWhile (\<lambda>c. c \<noteq> NUL) l \<noteq> []" using l assms(2) inp by auto
  have "r = drop (length l) inp" using assms(1) inp by (auto simp: fgets_def Let_def)
  then show "NUL \<notin> set r" using assms(2) in_set_dropD by metis
qed

lemma shell_loop_turn:
  assumes "fgets 100 inp = Some (l, inp')" "shell_command (length fdList) l v = Ret act v'" "\<And>fd w. sh_mode os fd w \<noteq> None"
  shows "shell_loop os fdList inp v w d =
    (case act of
       Nothing \<Rightarrow> shell_loop os fdList inp' v' w d
     | Help \<Rightarrow> shell_loop os fdList inp' v' w (d @ [(Help, Said_Help)])
     | Bad_File_Number \<Rightarrow> shell_loop os fdList inp' v' w (d @ [(act, Said_Bad_File)])
     | Invalid_Command \<Rightarrow> shell_loop os fdList inp' v' w (d @ [(act, Said_Invalid)])
     | Request n cmd fl \<Rightarrow>
         (case sh_fcntl os (fdList ! n) cmd fl w of (status, w) \<Rightarrow> shell_loop os fdList inp' v' w (d @ [(act, report_on cmd fl status)])))"
  using assms by (subst shell_loop.simps) (simp only: SHELL_LINE_def option.case prod.case outcome.case bex_simps HOL.simp_thms if_False bex_triv)

lemma shell_loop_ends:
  assumes "\<And>fd w. sh_mode os fd w \<noteq> None" "NUL \<notin> set inp"
  shows "\<exists>r w'. shell_loop os fdList inp v w d = Ret (d @ r) w' \<and> (\<forall>x\<in>set r. sound_request (length fdList) (fst x))"
  using assms(2)
proof (induction "length inp" arbitrary: inp v w d rule: less_induct)
  case less
  show ?case
  proof (cases "fgets 100 inp")
    case None
    then show ?thesis by (subst shell_loop.simps) simp
  next
    case (Some lr)
    obtain l inp' where lr: "lr = (l, inp')" by fastforce
    have sh: "length inp' < length inp" "NUL \<notin> set inp'" "takeWhile (\<lambda>c. c \<noteq> NUL) l \<noteq> []"
      using fgets_shorter fgets_no_nul less.prems Some lr by auto
    obtain act v' where act: "shell_command (length fdList) l v = Ret act v'" "sound_request (length fdList) act"
      using shell_command_sound [OF sh(3)] by blast
    have rec: "\<exists>r w'. shell_loop os fdList inp' v' w1 (d @ ds) = Ret (d @ r) w' \<and> (\<forall>x\<in>set r. sound_request (length fdList) (fst x))"
      if "\<forall>x\<in>set ds. sound_request (length fdList) (fst x)" for w1 ds
    proof -
      obtain r w' where "shell_loop os fdList inp' v' w1 (d @ ds) = Ret ((d @ ds) @ r) w'" "\<forall>x\<in>set r. sound_request (length fdList) (fst x)"
        using less.hyps [OF sh(1,2)] by blast
      then show ?thesis using that by (intro exI [of _ "ds @ r"] exI [of _ w']) auto
    qed
    note turn = shell_loop_turn [OF Some [unfolded lr] act(1) assms(1), of w d]
    show ?thesis
    proof (cases act)
      case Nothing
      then show ?thesis unfolding turn using rec [of "[]" w] by simp
    next
      case Help
      then show ?thesis unfolding turn using rec [of "[(act, Said_Help)]" w] act(2) by simp
    next
      case Bad_File_Number
      then show ?thesis unfolding turn using rec [of "[(act, Said_Bad_File)]" w] act(2) by simp
    next
      case Invalid_Command
      then show ?thesis unfolding turn using rec [of "[(act, Said_Invalid)]" w] act(2) by simp
    next
      case (Request n cmd fl)
      obtain st w1 where "sh_fcntl os (fdList ! n) cmd fl w = (st, w1)" by fastforce
      then show ?thesis unfolding turn using rec [of "[(act, report_on cmd fl st)]" w1] act(2) Request by simp
    qed
  qed
qed

text \<open>The lock shell: a command typed as it says, for any file, command, lock, range and base, becomes exactly that \<^verbatim>\<open>fcntl()\<close> request. Whatever line
  is read, a request that is made is for one of the files and has the process id 0 that locks of open files require. On any input without null bytes the
  loop comes to its end, whatever the requests lead to.\<close>

theorem lock_commands_carried_out:
  shows "(c \<in> set ''gswGSW'' \<and> l \<in> set ''rwu'' \<and> wh \<in> set ''sce'' \<and> LLONG_MIN \<le> st \<and> st \<le> LLONG_MAX \<and> LLONG_MIN \<le> len \<and> len \<le> LLONG_MAX \<and>
      1 \<le> k \<and> k < argc \<and> int argc \<le> INT_MAX \<longrightarrow>
      (\<exists>v'. shell_command argc (command_text argc k c l st len wh @ [newline]) v =
        Ret (Request k (cmd_of c) \<lparr> l_type = type_of l, l_whence = whence_of wh, l_start = st, l_len = len, l_pid = 0 \<rparr>) v')) \<and>
    (cchar stored 0 \<noteq> NUL \<longrightarrow> (\<exists>act v'. shell_command argc stored v = Ret act v' \<and> sound_request argc act)) \<and>
    ((\<forall>fd w. sh_mode os fd w \<noteq> None) \<and> NUL \<notin> set inp \<longrightarrow>
      (\<exists>r w'. shell_loop os fdList inp v w [] = Ret r w' \<and> (\<forall>x\<in>set r. sound_request (length fdList) (fst x))))"
proof (intro conjI impI)
  show "\<exists>act v'. shell_command argc stored v = Ret act v' \<and> sound_request argc act" if "cchar stored 0 \<noteq> NUL"
    by (rule shell_command_sound) (use that in \<open>cases stored; simp add: cchar_def\<close>)
  show "\<exists>r w'. shell_loop os fdList inp v w [] = Ret r w' \<and> (\<forall>x\<in>set r. sound_request (length fdList) (fst x))"
    if "(\<forall>fd w. sh_mode os fd w \<noteq> None) \<and> NUL \<notin> set inp"
    using shell_loop_ends [of os inp fdList v w "[]"] that by simp
qed (use shell_command_text in blast)

definition sh_demo :: "nat shell_os" where
  "sh_demo = \<lparr> sh_open = \<lambda>p w. (Some 3, w), sh_mode = \<lambda>fd w. Some 0, sh_calloc = \<lambda>n w. (True, w), sh_fcntl = \<lambda>fd c fl w. (Inr fl, Suc w) \<rparr>"

definition cv_demo :: cmd_vars where
  "cv_demo = \<lparr> cv_fileNum = 7, cv_cmdCh = CHR ''x'', cv_lock = CHR ''x'', cv_st = 7, cv_len = 7, cv_whence = CHR ''x'' \<rparr>"

theorem lock_commands_carried_out_witness:
  "(\<exists>v'. shell_command 3 (command_text 3 2 (CHR ''s'') (CHR ''w'') 0 40 (CHR ''e'') @ [newline]) cv_demo =
      Ret (Request 2 (Plain F_SETLK) \<lparr> l_type = F_WRLCK, l_whence = SEEK_END, l_start = 0, l_len = 40, l_pid = 0 \<rparr>) v') \<and>
   (\<exists>r w'. shell_loop sh_demo [0, 3] ''g r 0'' cv_demo 0 [] = Ret r w')"
  using lock_commands_carried_out [of "CHR ''s''" "CHR ''w''" "CHR ''e''" 0 40 2 3 cv_demo "''g''" sh_demo "''g r 0''" "[0, 3]" 0]
  by (auto simp: limit_defs cmd_of_def type_of_def whence_of_def sh_demo_def NUL_def)

text \<open>A last line without a newline loses a character: the length 10 is read as 1.\<close>

lemma last_line_cut:
  "(case shell_command 2 ''s w 0 10'' cv_demo of Ret (Request n c fl) v \<Rightarrow> l_len fl = 1 | _ \<Rightarrow> False)"
  by code_simp

text \<open>A line that starts with a null byte makes the program write before its array.\<close>

lemma null_line_undefined: "shell_command argc (NUL # s) v = Undef"
  by (simp add: shell_command_def)

end
