(* ===== verification/Stream_Copy.thy ===== *)
theory Stream_Copy
  imports Socket_Lib "HOL-Library.Sublist"
begin

text \<open>
  Programs that copy a stream until its end: \<^verbatim>\<open>fileio/copy.c\<close>, \<^verbatim>\<open>fileio/ycopy.c\<close>, the \<^verbatim>\<open>tee\<close> of \<^verbatim>\<open>fileio/exr0401.c\<close>, and the six pairs of
  UNIX domain stream servers and clients under \<^verbatim>\<open>sockets/\<close> (\<^verbatim>\<open>us_xfr\<close>, \<^verbatim>\<open>yus_xfr\<close>, \<^verbatim>\<open>us_xfr_v2\<close>, \<^verbatim>\<open>exr5903_us_xfr\<close>, \<^verbatim>\<open>exr5903_a_us_xfr\<close>,
  \<^verbatim>\<open>exr5702\<close>). The system calls are arguments over an opaque state. Loops take a bound on their iterations; \<open>None\<close> means that it was
  reached. The loops of the servers run for a number of connections.
\<close>

section \<open>System calls\<close>

datatype open_how = For_Reading | Truncating nat | Appending nat

text \<open>The numbers are permissions. \<open>xo_fork\<close> gives the state of the child, unless it fails, and that of the parent.\<close>

record 'w xfr_os =
  xo_sock :: "'w sock_os"
  xo_open :: "cstring \<Rightarrow> open_how \<Rightarrow> 'w \<Rightarrow> int option \<times> 'w"
  xo_accept :: "int \<Rightarrow> 'w \<Rightarrow> int option \<times> 'w"
  xo_read :: "int \<Rightarrow> nat \<Rightarrow> 'w \<Rightarrow> (errno + cstring) \<times> 'w"
  xo_write :: "int \<Rightarrow> cstring \<Rightarrow> 'w \<Rightarrow> (errno + nat) \<times> 'w"
  xo_close :: "int \<Rightarrow> 'w \<Rightarrow> bool \<times> 'w"
  xo_fork :: "'w \<Rightarrow> 'w option \<times> 'w"
  xo_sigaction :: "'w \<Rightarrow> bool \<times> 'w"
  xo_waitpid :: "'w \<Rightarrow> int \<times> 'w"
  xo_shutdown :: "int \<Rightarrow> 'w \<Rightarrow> bool \<times> 'w"
  xo_print :: "cstring \<Rightarrow> 'w \<Rightarrow> 'w"

definition STDIN_FD :: int where [simp]: "STDIN_FD = 0"
definition STDOUT_FD :: int where [simp]: "STDOUT_FD = 1"

definition after :: "('a, 'w) outcome option \<Rightarrow> ('a \<Rightarrow> 'w \<Rightarrow> ('b, 'w) outcome option) \<Rightarrow> ('b, 'w) outcome option" where
  "after r f = (case r of None \<Rightarrow> None | Some m \<Rightarrow> obind_opt m f)"

lemma after_simps [simp, outcome_simps]:
  "after None f = None" "after (Some m) f = obind_opt m f"
  by (simp_all add: after_def)

section \<open>Copying\<close>

text \<open>The loop all these programs have: read until end of file; a failing read, a failing write or one that writes less ends the
  program with status 1, whatever message it leaves.\<close>

fun copy_data :: "nat \<Rightarrow> 'w xfr_os \<Rightarrow> nat \<Rightarrow> int \<Rightarrow> int \<Rightarrow> 'w \<Rightarrow> (unit, 'w) outcome option" where
  "copy_data 0 os bsize src dst w = None"
| "copy_data (Suc n) os bsize src dst w =
     (case xo_read os src bsize w of
        (Inl e, w) \<Rightarrow> Some (Exit EXIT_FAILURE w)
      | (Inr buf, w) \<Rightarrow>
          if buf = [] then Some (Ret () w)
          else (case xo_write os dst buf w of
                  (r, w) \<Rightarrow> if r \<noteq> Inr (length buf) then Some (Exit EXIT_FAILURE w) else copy_data n os bsize src dst w))"

definition close_both :: "'w xfr_os \<Rightarrow> int \<Rightarrow> int \<Rightarrow> 'w \<Rightarrow> (unit, 'w) outcome" where
  "close_both os inputFd outputFd w =
     obind (must (xo_close os inputFd) w) (\<lambda>_ w. obind (must (xo_close os outputFd) w) (\<lambda>_ w. Exit EXIT_SUCCESS w))"

definition copy_main :: "nat \<Rightarrow> 'w xfr_os \<Rightarrow> cstring list \<Rightarrow> 'w \<Rightarrow> (unit, 'w) outcome option" where
  "copy_main n os args w =
     (if length args \<noteq> 2 \<or> hd args = ''--help'' then Some (Exit EXIT_FAILURE w)
      else
        obind_opt (must_get (xo_open os (args ! 0) For_Reading) w) (\<lambda>inputFd w.
        obind_opt (must_get (xo_open os (args ! 1) (Truncating 438)) w) (\<lambda>outputFd w.
        after (copy_data n os 1024 inputFd outputFd w) (\<lambda>_ w. Some (close_both os inputFd outputFd w)))))"

definition is_help :: "cstring \<Rightarrow> bool" where
  "is_help s \<longleftrightarrow> s = ''--help'' \<or> s = ''-h''"

definition ycopy_main :: "nat \<Rightarrow> 'w xfr_os \<Rightarrow> cstring list \<Rightarrow> 'w \<Rightarrow> (unit, 'w) outcome option" where
  "ycopy_main n os args w =
     (if length args \<noteq> 2 \<or> is_help (hd args) then Some (Exit EXIT_FAILURE w)
      else
        obind_opt (must_get (xo_open os (args ! 0) For_Reading) w) (\<lambda>srcFd w.
        obind_opt (must_get (xo_open os (args ! 1) (Truncating 436)) w) (\<lambda>destFd w.
        after (copy_data n os 1024 srcFd destFd w) (\<lambda>_ w. Some (close_both os srcFd destFd w)))))"

section \<open>tee\<close>

fun tee_loop :: "nat \<Rightarrow> 'w xfr_os \<Rightarrow> int \<Rightarrow> 'w \<Rightarrow> (unit, 'w) outcome option" where
  "tee_loop 0 os fd w = None"
| "tee_loop (Suc n) os fd w =
     (case xo_read os STDIN_FD 8 w of
        (Inl e, w) \<Rightarrow> Some (Exit EXIT_FAILURE w)
      | (Inr buf, w) \<Rightarrow>
          if buf = [] then Some (Ret () w)
          else (case xo_write os fd buf w of
                  (r, w) \<Rightarrow>
                    if r \<noteq> Inr (length buf) then Some (Exit EXIT_FAILURE w)
                    else (case xo_write os STDOUT_FD buf w of
                            (r, w) \<Rightarrow>
                              if r \<noteq> Inr (length buf) then Some (Exit EXIT_FAILURE w) else tee_loop n os fd w)))"

text \<open>\<open>opts\<close> are the results of \<^verbatim>\<open>getopt()\<close>, \<open>args\<close> the arguments it leaves.\<close>

definition tee_flags :: "char list \<Rightarrow> open_how" where
  "tee_flags opts = (if CHR ''a'' \<in> set opts then Appending 420 else Truncating 420)"

definition tee_main :: "nat \<Rightarrow> 'w xfr_os \<Rightarrow> char list \<Rightarrow> cstring list \<Rightarrow> 'w \<Rightarrow> (unit, 'w) outcome option" where
  "tee_main n os opts args w =
     (if (\<exists>opt\<in>set opts. opt \<noteq> CHR ''a'') \<or> args = [] then Some (Exit EXIT_FAILURE w)
      else
        obind_opt (must_get (xo_open os (hd args) (tee_flags opts)) w) (\<lambda>fd w.
        after (tee_loop n os fd w) (\<lambda>_ w. Some (obind (must (xo_close os fd) w) (\<lambda>_ w. Exit EXIT_SUCCESS w)))))"

section \<open>Stream servers and clients\<close>

definition XFR_PATH :: cstring where "XFR_PATH = ''/tmp/us_xfr''"
definition XFR_V2_PATH :: cstring where "XFR_V2_PATH = ''us_xfr_v2''"

definition must_sock :: "('w \<Rightarrow> errno option \<times> 'w) \<Rightarrow> 'w \<Rightarrow> (unit, 'w) outcome" where
  "must_sock f w = must (\<lambda>w. case f w of (e, w) \<Rightarrow> (e = None, w)) w"

definition need_fd :: "(errno + int, 'w) outcome \<Rightarrow> (int, 'w) outcome" where
  "need_fd r = obind r (\<lambda>v w. case v of Inl e \<Rightarrow> Exit EXIT_FAILURE w | Inr fd \<Rightarrow> Ret fd w)"

definition new_socket :: "'w xfr_os \<Rightarrow> 'w \<Rightarrow> (int, 'w) outcome" where
  "new_socket os w = need_fd (case so_socket (xo_sock os) PF_UNIX SOCK_STREAM 0 w of (r, w) \<Rightarrow> Ret r w)"

text \<open>A cleared \<^verbatim>\<open>struct sockaddr_un\<close> into which \<^verbatim>\<open>strncpy()\<close> copies \<open>count\<close> bytes from \<open>off\<close> on.\<close>

definition path_array :: "nat \<Rightarrow> nat \<Rightarrow> cstring \<Rightarrow> 'w \<Rightarrow> (cstring, 'w) outcome" where
  "path_array off count path w =
     (case store_path (sun_path cleared_addr) off (strncpy_bytes path count) of Ret arr _ \<Rightarrow> Ret arr w | _ \<Rightarrow> Undef)"

definition pathname_end :: "cstring \<Rightarrow> nat" where
  "pathname_end arr = SUN_LEN \<lparr> sun_family = PF_UNIX, sun_path = arr \<rparr>"

text \<open>The servers' loop; \<open>fatal\<close>: whether a failing \<^verbatim>\<open>close()\<close> ends the server.\<close>

fun serve :: "nat \<Rightarrow> nat \<Rightarrow> 'w xfr_os \<Rightarrow> nat \<Rightarrow> bool \<Rightarrow> int \<Rightarrow> 'w \<Rightarrow> (unit, 'w) outcome option" where
  "serve 0 n os bsize fatal sfd w = Some (Ret () w)"
| "serve (Suc k) n os bsize fatal sfd w =
     obind_opt (must_get (xo_accept os sfd) w) (\<lambda>cfd w.
     after (copy_data n os bsize cfd STDOUT_FD w) (\<lambda>_ w.
       case xo_close os cfd w of
         (closed, w) \<Rightarrow> if \<not> closed \<and> fatal then Some (Exit EXIT_FAILURE w) else serve k n os bsize fatal sfd w))"

definition listen_and_serve :: "nat \<Rightarrow> nat \<Rightarrow> 'w xfr_os \<Rightarrow> nat \<Rightarrow> bool \<Rightarrow> int \<Rightarrow> 'w \<Rightarrow> (unit, 'w) outcome option" where
  "listen_and_serve k n os bsize fatal sfd w =
     obind_opt (must_sock (so_listen (xo_sock os) sfd 5) w) (\<lambda>_ w. serve k n os bsize fatal sfd w)"

definition remove_path :: "'w xfr_os \<Rightarrow> cstring \<Rightarrow> 'w \<Rightarrow> (unit, 'w) outcome" where
  "remove_path os path w =
     must (\<lambda>w. case so_remove (xo_sock os) path w of (e, w) \<Rightarrow> (e = None \<or> e = Some ENOENT, w)) w"

text \<open>The sockets of the servers that do not use the library, bound to a pathname and to an abstract name.\<close>

definition bind_pathname :: "'w xfr_os \<Rightarrow> 'w \<Rightarrow> (int, 'w) outcome" where
  "bind_pathname os w =
     obind (new_socket os w) (\<lambda>sfd w.
       if length XFR_PATH > SUN_PATH_SIZE - 1 then Exit EXIT_FAILURE w
       else
         obind (remove_path os XFR_PATH w) (\<lambda>_ w.
         obind (path_array 0 (SUN_PATH_SIZE - 1) XFR_PATH w) (\<lambda>arr w.
         obind (must_sock (so_bind (xo_sock os) sfd arr (pathname_end arr)) w) (\<lambda>_ w. Ret sfd w))))"

definition bind_abstract :: "'w xfr_os \<Rightarrow> 'w \<Rightarrow> (int, 'w) outcome" where
  "bind_abstract os w =
     obind (new_socket os w) (\<lambda>sv_fd w.
     obind (path_array 1 (SUN_PATH_SIZE - 2) XFR_PATH w) (\<lambda>arr w.
     obind (must_sock (so_bind (xo_sock os) sv_fd arr (SUN_PATH_OFFSET + 1 + length XFR_PATH)) w) (\<lambda>_ w. Ret sv_fd w)))"

definition us_xfr_sv :: "nat \<Rightarrow> nat \<Rightarrow> 'w xfr_os \<Rightarrow> 'w \<Rightarrow> (unit, 'w) outcome option" where
  "us_xfr_sv k n os w = obind_opt (bind_pathname os w) (\<lambda>sfd w. listen_and_serve k n os 100 False sfd w)"

text \<open>\<^verbatim>\<open>BUFSIZ\<close> is 8192.\<close>

definition yus_xfr_sv :: "nat \<Rightarrow> nat \<Rightarrow> 'w xfr_os \<Rightarrow> 'w \<Rightarrow> (unit, 'w) outcome option" where
  "yus_xfr_sv k n os w = obind_opt (bind_pathname os w) (\<lambda>lisnfd w. listen_and_serve k n os 8192 True lisnfd w)"

definition us_xfr_v2_sv :: "nat \<Rightarrow> nat \<Rightarrow> 'w xfr_os \<Rightarrow> 'w \<Rightarrow> (unit, 'w) outcome option" where
  "us_xfr_v2_sv k n os w =
     obind_opt (need_fd (unixBind (xo_sock os) (Some XFR_V2_PATH) SOCK_STREAM w)) (\<lambda>sfd w. listen_and_serve k n os 100 False sfd w)"

definition exr5903_us_xfr_sv :: "nat \<Rightarrow> nat \<Rightarrow> 'w xfr_os \<Rightarrow> 'w \<Rightarrow> (unit, 'w) outcome option" where
  "exr5903_us_xfr_sv k n os w =
     obind_opt (need_fd (yunixbind (xo_sock os) (Some XFR_PATH) SOCK_STREAM w)) (\<lambda>lisnfd w. listen_and_serve k n os 100 False lisnfd w)"

definition exr5903_a_us_xfr_sv :: "nat \<Rightarrow> nat \<Rightarrow> 'w xfr_os \<Rightarrow> 'w \<Rightarrow> (unit, 'w) outcome option" where
  "exr5903_a_us_xfr_sv k n os w =
     obind_opt (need_fd (yunixAbind (xo_sock os) (Some XFR_PATH) SOCK_STREAM w)) (\<lambda>sv_fd w. listen_and_serve k n os 100 True sv_fd w)"

definition exr5702_sv :: "nat \<Rightarrow> nat \<Rightarrow> 'w xfr_os \<Rightarrow> 'w \<Rightarrow> (unit, 'w) outcome option" where
  "exr5702_sv k n os w = obind_opt (bind_abstract os w) (\<lambda>sv_fd w. listen_and_serve k n os 100 True sv_fd w)"

definition send_input :: "nat \<Rightarrow> 'w xfr_os \<Rightarrow> nat \<Rightarrow> int \<Rightarrow> 'w \<Rightarrow> (unit, 'w) outcome option" where
  "send_input n os bsize sfd w = after (copy_data n os bsize STDIN_FD sfd w) (\<lambda>_ w. Some (Exit EXIT_SUCCESS w))"

definition connect_pathname :: "'w xfr_os \<Rightarrow> 'w \<Rightarrow> (int, 'w) outcome" where
  "connect_pathname os w =
     obind (new_socket os w) (\<lambda>sfd w.
     obind (path_array 0 (SUN_PATH_SIZE - 1) XFR_PATH w) (\<lambda>arr w.
     obind (must_sock (so_connect (xo_sock os) sfd arr (pathname_end arr)) w) (\<lambda>_ w. Ret sfd w)))"

definition connect_abstract :: "'w xfr_os \<Rightarrow> 'w \<Rightarrow> (int, 'w) outcome" where
  "connect_abstract os w =
     obind (new_socket os w) (\<lambda>cl_fd w.
     obind (path_array 1 (SUN_PATH_SIZE - 2) XFR_PATH w) (\<lambda>arr w.
     obind (must_sock (so_connect (xo_sock os) cl_fd arr (SUN_PATH_OFFSET + 1 + length XFR_PATH)) w) (\<lambda>_ w. Ret cl_fd w)))"

definition us_xfr_cl :: "nat \<Rightarrow> 'w xfr_os \<Rightarrow> 'w \<Rightarrow> (unit, 'w) outcome option" where
  "us_xfr_cl n os w = obind_opt (connect_pathname os w) (\<lambda>sfd w. send_input n os 100 sfd w)"

definition yus_xfr_cl :: "nat \<Rightarrow> 'w xfr_os \<Rightarrow> 'w \<Rightarrow> (unit, 'w) outcome option" where
  "yus_xfr_cl n os w = obind_opt (connect_pathname os w) (\<lambda>clfd w. send_input n os 8192 clfd w)"

definition us_xfr_v2_cl :: "nat \<Rightarrow> 'w xfr_os \<Rightarrow> 'w \<Rightarrow> (unit, 'w) outcome option" where
  "us_xfr_v2_cl n os w =
     obind_opt (need_fd (unixConnect (xo_sock os) (Some XFR_V2_PATH) SOCK_STREAM w)) (\<lambda>sfd w. send_input n os 100 sfd w)"

definition exr5903_us_xfr_cl :: "nat \<Rightarrow> 'w xfr_os \<Rightarrow> 'w \<Rightarrow> (unit, 'w) outcome option" where
  "exr5903_us_xfr_cl n os w =
     obind_opt (need_fd (yunixconnect (xo_sock os) (Some XFR_PATH) SOCK_STREAM w)) (\<lambda>sfd w. send_input n os 100 sfd w)"

definition exr5903_a_us_xfr_cl :: "nat \<Rightarrow> 'w xfr_os \<Rightarrow> 'w \<Rightarrow> (unit, 'w) outcome option" where
  "exr5903_a_us_xfr_cl n os w =
     obind_opt (need_fd (yunixAconnect (xo_sock os) (Some XFR_PATH) SOCK_STREAM w)) (\<lambda>cl_fd w. send_input n os 100 cl_fd w)"

definition exr5702_cl :: "nat \<Rightarrow> 'w xfr_os \<Rightarrow> 'w \<Rightarrow> (unit, 'w) outcome option" where
  "exr5702_cl n os w = obind_opt (connect_abstract os w) (\<lambda>cl_fd w. send_input n os 100 cl_fd w)"

section \<open>What copying means\<close>

text \<open>\<open>rest\<close> is what is still to be read on the source before end of file, \<open>written\<close> what was written to the destination. Calls may fail and
  transfer less than asked for; a write does not touch what is to be read, so that the two are different files.\<close>

definition channel :: "'w xfr_os \<Rightarrow> int \<Rightarrow> int \<Rightarrow> ('w \<Rightarrow> cstring) \<Rightarrow> ('w \<Rightarrow> cstring) \<Rightarrow> bool" where
  "channel os src dst rest written \<longleftrightarrow>
     (\<forall>n w. 0 < n \<longrightarrow>
        (case xo_read os src n w of
           (Inr bs, w') \<Rightarrow> rest w = bs @ rest w' \<and> (bs = [] \<longrightarrow> rest w = []) \<and> written w' = written w
         | (Inl e, w') \<Rightarrow> written w' = written w)) \<and>
     (\<forall>bs w. case xo_write os dst bs w of
         (Inr m, w') \<Rightarrow> m \<le> length bs \<and> written w' = written w @ take m bs \<and> rest w' = rest w
       | (Inl e, w') \<Rightarrow> written w' = written w \<and> rest w' = rest w)"

lemma channel_read:
  assumes "channel os src dst rest written" "0 < n"
  shows "xo_read os src n w = (Inr bs, w') \<Longrightarrow> rest w = bs @ rest w' \<and> (bs = [] \<longrightarrow> rest w = []) \<and> written w' = written w"
    and "xo_read os src n w = (Inl e, w') \<Longrightarrow> written w' = written w"
proof -
  have "case xo_read os src n w of
           (Inr bs, w') \<Rightarrow> rest w = bs @ rest w' \<and> (bs = [] \<longrightarrow> rest w = []) \<and> written w' = written w
         | (Inl e, w') \<Rightarrow> written w' = written w"
    by (rule assms(1) [unfolded channel_def, THEN conjunct1, rule_format, OF assms(2)])
  then show "xo_read os src n w = (Inr bs, w') \<Longrightarrow> rest w = bs @ rest w' \<and> (bs = [] \<longrightarrow> rest w = []) \<and> written w' = written w"
    "xo_read os src n w = (Inl e, w') \<Longrightarrow> written w' = written w" by auto
qed

lemma channel_write:
  assumes "channel os src dst rest written"
  shows "xo_write os dst bs w = (Inr m, w') \<Longrightarrow> m \<le> length bs \<and> written w' = written w @ take m bs \<and> rest w' = rest w"
    and "xo_write os dst bs w = (Inl e, w') \<Longrightarrow> written w' = written w \<and> rest w' = rest w"
proof -
  have "case xo_write os dst bs w of
         (Inr m, w') \<Rightarrow> m \<le> length bs \<and> written w' = written w @ take m bs \<and> rest w' = rest w
       | (Inl e, w') \<Rightarrow> written w' = written w \<and> rest w' = rest w"
    by (rule assms [unfolded channel_def, THEN conjunct2, rule_format])
  then show "xo_write os dst bs w = (Inr m, w') \<Longrightarrow> m \<le> length bs \<and> written w' = written w @ take m bs \<and> rest w' = rest w"
    "xo_write os dst bs w = (Inl e, w') \<Longrightarrow> written w' = written w \<and> rest w' = rest w" by auto
qed

lemma channel_written:
  assumes "channel os src dst rest written" "xo_write os dst bs w = (r, w')"
  obtains m where "m \<le> length bs" "written w' = written w @ take m bs" "rest w' = rest w" "r = Inr (length bs) \<longrightarrow> m = length bs"
proof (cases r)
  case (Inl e)
  then show ?thesis using channel_write(2) [OF assms(1)] assms(2) that [of 0] by simp
next
  case (Inr m)
  then show ?thesis using channel_write(1) [OF assms(1)] assms(2) that [of m] by simp
qed

text \<open>All of the source was copied, or the program has ended with status 1 after a part of it.\<close>

definition part_of :: "cstring \<Rightarrow> cstring \<Rightarrow> cstring \<Rightarrow> bool" where
  "part_of source before now \<longleftrightarrow> (\<exists>p. prefix p source \<and> now = before @ p)"

definition copied :: "('w \<Rightarrow> cstring) \<Rightarrow> ('w \<Rightarrow> cstring) \<Rightarrow> 'w \<Rightarrow> (unit, 'w) outcome \<Rightarrow> bool" where
  "copied rest written w r =
     (case r of
        Ret _ w' \<Rightarrow> written w' = written w @ rest w
      | Exit c w' \<Rightarrow> c = EXIT_FAILURE \<and> part_of (rest w) (written w) (written w')
      | _ \<Rightarrow> False)"

definition exit_tells :: "cstring \<Rightarrow> ('w \<Rightarrow> cstring) \<Rightarrow> 'w \<Rightarrow> (unit, 'w) outcome \<Rightarrow> bool" where
  "exit_tells source written w r =
     (case r of
        Exit c w' \<Rightarrow> (c = EXIT_SUCCESS \<and> written w' = written w @ source) \<or> (c = EXIT_FAILURE \<and> part_of source (written w) (written w'))
      | _ \<Rightarrow> False)"

lemma part_of_refl [simp]: "part_of s b b"
  by (auto simp: part_of_def intro!: exI [of _ "[]"])

lemma part_of_all [simp]: "part_of s b (b @ s)"
  by (auto simp: part_of_def)

lemma part_of_take: "m \<le> length bs \<Longrightarrow> part_of (bs @ s) b (b @ take m bs)"
  by (auto simp: part_of_def prefix_def intro!: exI [of _ "drop m bs @ s"])

lemma part_of_more: "part_of s (b @ bs) now \<Longrightarrow> part_of (bs @ s) b now"
  by (auto simp: part_of_def)

lemma part_of_longer: "part_of s b now \<Longrightarrow> part_of (s @ t) b now"
  by (auto simp: part_of_def intro: prefix_prefix)

text \<open>The interface of a copying loop, and what a program makes of it that closes its descriptors and exits.\<close>

locale copier =
  fixes copy :: "nat \<Rightarrow> 'w \<Rightarrow> (unit, 'w) outcome option" and rest written :: "'w \<Rightarrow> cstring" and lawful :: bool
  assumes copies: "lawful \<Longrightarrow> copy n w = Some r \<Longrightarrow> copied rest written w r"
    and ends: "lawful \<Longrightarrow> length (rest w) < n \<Longrightarrow> copy n w \<noteq> None"
begin

lemma finished:
  assumes lawful and "after (copy n w) (\<lambda>_ w. Some (fin w)) = Some r"
    and fin: "\<And>v. \<exists>c v'. fin v = Exit c v' \<and> (c = EXIT_SUCCESS \<or> c = EXIT_FAILURE) \<and> written v' = written v"
  shows "exit_tells (rest w) written w r"
proof (cases "copy n w")
  case (Some m)
  note c = copies [OF assms(1) Some]
  show ?thesis
  proof (cases m)
    case (Ret u v)
    obtain c v' where "fin v = Exit c v'" "c = EXIT_SUCCESS \<or> c = EXIT_FAILURE" "written v' = written v" using fin by blast
    with Ret c assms(2) Some show ?thesis by (auto simp: copied_def exit_tells_def)
  qed (use c assms(2) Some in \<open>auto simp: copied_def exit_tells_def\<close>)
qed (use assms(2) in simp)

lemma finishes: "lawful \<Longrightarrow> length (rest w) < n \<Longrightarrow> after (copy n w) (\<lambda>_ w. Some (fin w)) \<noteq> None"
  using ends [of w n] by (cases "copy n w") (auto simp: obind_opt_def split: outcome.splits)

end

lemma copied_step:
  assumes "rest w = bs @ rest v" "written v = written w @ bs" "copied rest written v r"
  shows "copied rest written w r"
  using assms by (auto simp: copied_def part_of_more split: outcome.splits)

lemma copy_data_copies:
  assumes ch: "channel os src dst rest written" and b: "0 < bsize"
  shows "copy_data n os bsize src dst w = Some r \<Longrightarrow> copied rest written w r"
proof (induction n arbitrary: w)
  case (Suc n)
  obtain x w1 where rd: "xo_read os src bsize w = (x, w1)" by fastforce
  show ?case
  proof (cases x)
    case (Inl e)
    then show ?thesis using Suc.prems rd channel_read(2) [OF ch b] by (auto simp: copied_def)
  next
    case (Inr bs)
    note r1 = channel_read(1) [OF ch b rd [unfolded Inr]]
    obtain y w2 where wr: "xo_write os dst bs w1 = (y, w2)" by fastforce
    obtain m where m: "m \<le> length bs" "written w2 = written w1 @ take m bs" "rest w2 = rest w1" "y = Inr (length bs) \<longrightarrow> m = length bs"
      using channel_written [OF ch wr] by blast
    consider "bs = []" | "bs \<noteq> []" "y \<noteq> Inr (length bs)" | "bs \<noteq> []" "y = Inr (length bs)" by blast
    then show ?thesis
    proof cases
      case 2
      then show ?thesis using Suc.prems rd Inr wr r1 m by (auto simp: copied_def part_of_take)
    next
      case 3
      then show ?thesis using Suc.prems Suc.IH [of w2] rd Inr wr r1 m by (auto intro!: copied_step [of rest w bs w2])
    qed (use Suc.prems rd Inr r1 in \<open>auto simp: copied_def\<close>)
  qed
qed simp

lemma copy_data_ends:
  assumes ch: "channel os src dst rest written" and b: "0 < bsize"
  shows "length (rest w) < n \<Longrightarrow> copy_data n os bsize src dst w \<noteq> None"
proof (induction n arbitrary: w)
  case (Suc n)
  obtain x w1 where rd: "xo_read os src bsize w = (x, w1)" by fastforce
  show ?case
  proof (cases x)
    case (Inr bs)
    note r1 = channel_read(1) [OF ch b rd [unfolded Inr]]
    obtain y w2 where wr: "xo_write os dst bs w1 = (y, w2)" by fastforce
    have "rest w2 = rest w1" using channel_written [OF ch wr] by blast
    then show ?thesis using Suc.prems Suc.IH [of w2] rd Inr wr r1 by (cases bs) auto
  qed (use rd in simp)
qed simp

interpretation cp: copier "\<lambda>n. copy_data n os bsize src dst" rest written "channel os src dst rest written \<and> 0 < bsize"
  for os bsize src dst rest written
  by (unfold_locales; elim conjE) (erule (2) copy_data_copies, erule (2) copy_data_ends)

text \<open>For \<^verbatim>\<open>tee\<close> the file and standard output are two destinations that do not affect each other.\<close>

definition tee_kernel :: "'w xfr_os \<Rightarrow> int \<Rightarrow> ('w \<Rightarrow> cstring) \<Rightarrow> ('w \<Rightarrow> cstring) \<Rightarrow> ('w \<Rightarrow> cstring) \<Rightarrow> bool" where
  "tee_kernel os fd rest stored shown \<longleftrightarrow>
     channel os STDIN_FD fd rest stored \<and> channel os STDIN_FD STDOUT_FD rest shown \<and>
     (\<forall>bs w. shown (snd (xo_write os fd bs w)) = shown w \<and> stored (snd (xo_write os STDOUT_FD bs w)) = stored w)"

lemma tee_kernelD:
  assumes "tee_kernel os fd rest stored shown"
  shows "channel os 0 fd rest stored" "channel os 0 1 rest shown"
    "xo_write os fd bs w = (y, w') \<Longrightarrow> shown w' = shown w" "xo_write os 1 bs w = (y, w') \<Longrightarrow> stored w' = stored w"
  using assms unfolding tee_kernel_def by (simp_all, metis snd_conv, metis snd_conv)

lemma tee_loop_copies:
  assumes k: "tee_kernel os fd rest stored shown"
  shows "tee_loop n os fd w = Some r \<Longrightarrow> copied rest stored w r \<and> copied rest shown w r"
proof (induction n arbitrary: w)
  case (Suc n)
  note ch = tee_kernelD(1,2) [OF k]
  obtain x w1 where rd: "xo_read os 0 8 w = (x, w1)" by fastforce
  show ?case
  proof (cases x)
    case (Inl e)
    then show ?thesis
      using Suc.prems rd channel_read(2) [OF ch(1), of 8] channel_read(2) [OF ch(2), of 8] by (auto simp: copied_def)
  next
    case (Inr bs)
    note r1 = channel_read(1) [OF ch(1) _ rd [unfolded Inr]] channel_read(1) [OF ch(2) _ rd [unfolded Inr]]
    obtain y w2 where wr: "xo_write os fd bs w1 = (y, w2)" by fastforce
    obtain z w3 where wr2: "xo_write os 1 bs w2 = (z, w3)" by fastforce
    obtain m where m: "m \<le> length bs" "stored w2 = stored w1 @ take m bs" "rest w2 = rest w1" "y = Inr (length bs) \<longrightarrow> m = length bs"
      using channel_written [OF ch(1) wr] by blast
    obtain l where l: "l \<le> length bs" "shown w3 = shown w2 @ take l bs" "rest w3 = rest w2" "z = Inr (length bs) \<longrightarrow> l = length bs"
      using channel_written [OF ch(2) wr2] by blast
    note o = tee_kernelD(3) [OF k wr] tee_kernelD(4) [OF k wr2]
    consider "bs = []" | "bs \<noteq> []" "y \<noteq> Inr (length bs)" | "bs \<noteq> []" "y = Inr (length bs)" "z \<noteq> Inr (length bs)"
      | "bs \<noteq> []" "y = Inr (length bs)" "z = Inr (length bs)" by blast
    then show ?thesis
    proof cases
      case 2
      then show ?thesis using Suc.prems rd Inr wr r1 m o by (auto simp: copied_def part_of_take)
    next
      case 3
      then show ?thesis using Suc.prems rd Inr wr wr2 r1 m l o part_of_take [of "length bs" bs "rest w1" "stored w"]
        by (auto simp: copied_def part_of_take)
    next
      case 4
      then show ?thesis using Suc.prems Suc.IH [of w3] rd Inr wr wr2 r1 m l o
        by (auto intro!: copied_step [of rest w bs w3])
    qed (use Suc.prems rd Inr r1 in \<open>auto simp: copied_def\<close>)
  qed
qed simp

lemma tee_loop_ends:
  assumes k: "tee_kernel os fd rest stored shown"
  shows "length (rest w) < n \<Longrightarrow> tee_loop n os fd w \<noteq> None"
proof (induction n arbitrary: w)
  case (Suc n)
  note ch = tee_kernelD(1,2) [OF k]
  obtain x w1 where rd: "xo_read os 0 8 w = (x, w1)" by fastforce
  show ?case
  proof (cases x)
    case (Inr bs)
    note r1 = channel_read(1) [OF ch(1) _ rd [unfolded Inr]]
    obtain y w2 where wr: "xo_write os fd bs w1 = (y, w2)" by fastforce
    obtain z w3 where wr2: "xo_write os 1 bs w2 = (z, w3)" by fastforce
    have "rest w2 = rest w1" "rest w3 = rest w2" using channel_written [OF ch(1) wr] channel_written [OF ch(2) wr2] by blast+
    then show ?thesis using Suc.prems Suc.IH [of w3] rd Inr wr wr2 r1 by (cases bs) auto
  qed (use rd in simp)
qed simp

interpretation tee_file: copier "\<lambda>n. tee_loop n os fd" rest stored "tee_kernel os fd rest stored shown"
  for os fd rest stored shown
  by unfold_locales (simp_all add: tee_loop_copies tee_loop_ends)

interpretation tee_screen: copier "\<lambda>n. tee_loop n os fd" rest shown "tee_kernel os fd rest stored shown"
  for os fd rest stored shown
  by unfold_locales (simp_all add: tee_loop_copies tee_loop_ends)

section \<open>File copies\<close>

lemma total_result: "x \<noteq> None \<Longrightarrow> (\<And>r. x = Some r \<Longrightarrow> P r) \<Longrightarrow> \<exists>r. x = Some r \<and> P r"
  by auto

lemma must_close_tells:
  assumes "\<forall>fd w. written (snd (xo_close os fd w)) = written w"
  shows "\<exists>c v'. obind (must (xo_close os fd) v) (\<lambda>_ w. Exit EXIT_SUCCESS w) = Exit c v' \<and> (c = EXIT_SUCCESS \<or> c = EXIT_FAILURE) \<and>
      written v' = written v"
    and "\<exists>c v'. close_both os i d v = Exit c v' \<and> (c = EXIT_SUCCESS \<or> c = EXIT_FAILURE) \<and> written v' = written v"
proof -
  have c: "(\<exists>v'. must (xo_close os fd) v = Ret () v' \<and> written v' = written v) \<or> (\<exists>v'. must (xo_close os fd) v = Exit 1 v' \<and> written v' = written v)"
    for fd v
    using assms [rule_format, of fd v] by (auto simp: must_def split: prod.splits bool.splits)
  show "\<exists>c v'. obind (must (xo_close os fd) v) (\<lambda>_ w. Exit EXIT_SUCCESS w) = Exit c v' \<and> (c = EXIT_SUCCESS \<or> c = EXIT_FAILURE) \<and>
      written v' = written v"
    using c [of fd v] by auto
  show "\<exists>c v'. close_both os i d v = Exit c v' \<and> (c = EXIT_SUCCESS \<or> c = EXIT_FAILURE) \<and> written v' = written v"
    using c [of i v]
  proof (elim disjE exE conjE)
    fix v' assume "must (xo_close os i) v = Ret () v'" "written v' = written v"
    then show ?thesis using c [of d v'] by (auto simp: close_both_def)
  qed (simp add: close_both_def)
qed

text \<open>\<open>copy\<close>, \<open>ycopy\<close> and \<open>tee\<close>: whatever reads, writes and closes fail or transfer less, the programs end with status 0 only when all of the
  source was written to each destination, and otherwise with status 1 after a part of it. They end: one iteration per byte of the
  source and one more is enough.\<close>

theorem file_copies:
  assumes closes: "\<forall>fd w. written (snd (xo_close os fd w)) = written w" "\<forall>fd w. shown (snd (xo_close os fd w)) = shown w"
    and opened: "xo_open os p For_Reading w = (Some i, w1)" "xo_open os q (Truncating 438) w1 = (Some d, w2)"
      "xo_open os q (Truncating 436) w1 = (Some d, w3)" "channel os i d rest written"
    and plain: "p \<noteq> ''--help''" "p \<noteq> ''-h''"
    and teed: "xo_open os q (tee_flags opts) w = (Some f, v)" "set opts \<subseteq> {CHR ''a''}" "tee_kernel os f input written shown"
    and n: "length (rest w2) < n" "length (rest w3) < n" "length (input v) < n"
  shows "(\<exists>r. copy_main n os [p, q] w = Some r \<and> exit_tells (rest w2) written w2 r) \<and>
    (\<exists>r. ycopy_main n os [p, q] w = Some r \<and> exit_tells (rest w3) written w3 r) \<and>
    (\<exists>r. tee_main n os opts [q] w = Some r \<and> exit_tells (input v) written v r \<and> exit_tells (input v) shown v r)"
proof -
  have ch: "channel os i d rest written \<and> 0 < (1024 :: nat)" using opened by simp
  note cl = must_close_tells [OF closes(1)] must_close_tells(1) [OF closes(2)]
  have c: "copy_main n os [p, q] w = after (copy_data n os 1024 i d w2) (\<lambda>_ w. Some (close_both os i d w))"
    and y: "ycopy_main n os [p, q] w = after (copy_data n os 1024 i d w3) (\<lambda>_ w. Some (close_both os i d w))"
    using opened plain by (simp_all add: copy_main_def ycopy_main_def is_help_def must_get_def)
  have t: "tee_main n os opts [q] w =
      after (tee_loop n os f v) (\<lambda>_ w. Some (obind (must (xo_close os f) w) (\<lambda>_ w. Exit EXIT_SUCCESS w)))"
    using teed by (auto simp: tee_main_def must_get_def)
  have "\<exists>r. copy_main n os [p, q] w = Some r \<and> exit_tells (rest w2) written w2 r"
    unfolding c by (rule total_result [OF cp.finishes [OF ch n(1)]]) (rule cp.finished [OF ch _ cl(2)])
  moreover have "\<exists>r. ycopy_main n os [p, q] w = Some r \<and> exit_tells (rest w3) written w3 r"
    unfolding y by (rule total_result [OF cp.finishes [OF ch n(2)]]) (rule cp.finished [OF ch _ cl(2)])
  moreover have "\<exists>r. tee_main n os opts [q] w = Some r \<and> exit_tells (input v) written v r \<and> exit_tells (input v) shown v r"
    unfolding t by (rule total_result [OF tee_file.finishes [OF teed(3) n(3)]])
      (intro conjI, erule tee_file.finished [OF teed(3) _ cl(1)], erule tee_screen.finished [OF teed(3) _ cl(3)])
  ultimately show ?thesis by simp
qed

section \<open>Setting up\<close>

text \<open>A part of the state that the calls around sockets leave alone.\<close>

definition sock_keeps :: "'w sock_os \<Rightarrow> ('w \<Rightarrow> 'a) \<Rightarrow> bool" where
  "sock_keeps so view \<longleftrightarrow>
     (\<forall>f t p w. view (snd (so_socket so f t p w)) = view w) \<and> (\<forall>fd a l w. view (snd (so_connect so fd a l w)) = view w) \<and>
     (\<forall>fd a l w. view (snd (so_bind so fd a l w)) = view w) \<and> (\<forall>fd b w. view (snd (so_listen so fd b w)) = view w) \<and>
     (\<forall>fd w. view (so_close so fd w) = view w) \<and> (\<forall>p w. view (snd (so_remove so p w)) = view w)"

lemma sock_keepsD:
  assumes "sock_keeps so view"
  shows "so_socket so f t p w = (x, w') \<Longrightarrow> view w' = view w" "so_connect so fd a l w = (y, w') \<Longrightarrow> view w' = view w"
    "so_bind so fd a l w = (y, w') \<Longrightarrow> view w' = view w" "so_listen so fd b w = (y, w') \<Longrightarrow> view w' = view w"
    "view (so_close so fd w) = view w" "so_remove so q w = (y, w') \<Longrightarrow> view w' = view w"
  using assms unfolding sock_keeps_def by (metis snd_conv)+

text \<open>A set-up yields a socket or ends the program with status 1; either way it has left the view alone.\<close>

definition kept :: "('w \<Rightarrow> 'v) \<Rightarrow> 'w \<Rightarrow> ('a, 'w) outcome \<Rightarrow> bool" where
  "kept view w r = (case r of Ret _ w' \<Rightarrow> view w' = view w | Exit c w' \<Rightarrow> c = EXIT_FAILURE \<and> view w' = view w | _ \<Rightarrow> False)"

lemma kept_simps [simp]: "kept view w (Ret a v) \<longleftrightarrow> view v = view w" "kept view w (Exit c v) \<longleftrightarrow> c = 1 \<and> view v = view w" "\<not> kept view w Undef"
  by (simp_all add: kept_def)

lemma kept_obind: "kept view w m \<Longrightarrow> (\<And>a v. m = Ret a v \<Longrightarrow> kept view v (f a v)) \<Longrightarrow> kept view w (obind m f)"
  by (cases m) (auto simp: kept_def split: outcome.splits)

lemma kept_must_sock: "(\<And>e v. f w = (e, v) \<Longrightarrow> view v = view w) \<Longrightarrow> kept view w (must_sock f w)"
  by (auto simp: must_sock_def must_def split: prod.splits bool.splits)

lemma path_arrays:
  "\<exists>arr. path_array 0 (SUN_PATH_SIZE - 1) path w = Ret arr w" "\<exists>arr. path_array 1 (SUN_PATH_SIZE - 2) path w = Ret arr w"
  by (simp_all add: path_array_def store_path_def cleared_addr_def SUN_PATH_SIZE_def)

lemma kept_path_array: "kept view w (path_array 0 (SUN_PATH_SIZE - 1) path w)" "kept view w (path_array 1 (SUN_PATH_SIZE - 2) path w)"
  using path_arrays [of path w] by auto

lemma kept_new_socket: "sock_keeps (xo_sock os) view \<Longrightarrow> kept view w (new_socket os w)"
  by (auto simp: new_socket_def need_fd_def split: prod.splits sum.splits dest: sock_keepsD(1))

lemma kept_remove_path: "sock_keeps (xo_sock os) view \<Longrightarrow> kept view w (remove_path os path w)"
  by (auto simp: remove_path_def must_def split: prod.splits bool.splits dest: sock_keepsD(6))

lemma kept_socket_with:
  assumes k: "sock_keeps so view" and f: "\<And>fd a l v e v'. f fd a l v = (e, v') \<Longrightarrow> view v' = view v"
  shows "socket_with so f type addr len w = (x, w') \<Longrightarrow> view w' = view w"
  using sock_keepsD(1,5) [OF k] f by (fastforce simp: socket_with_def split: prod.splits sum.splits option.splits)

lemma kept_with_address:
  assumes "a \<noteq> Undef" "\<And>c v. a \<noteq> Exit c v" "\<And>v. a \<noteq> Abort v" "\<And>addr v x v'. f addr v = (x, v') \<Longrightarrow> view v' = view v"
  shows "kept view w (need_fd (with_address a f w))"
  using assms by (cases a) (auto simp: with_address_def need_fd_def split: sum.splits prod.splits)

lemma unix_addresses:
  "unixBuildAddress (Some p) \<noteq> Undef" "unixBuildAddress (Some p) \<noteq> Exit c v" "unixBuildAddress (Some p) \<noteq> Abort v"
  using unix_address_eq(1) [of p] by (cases "length p < SUN_PATH_SIZE"; simp add: unixBuildAddress_def)+

lemma yunix_addresses:
  assumes "length p < SUN_PATH_SIZE"
  shows "yunixaddress (Some p) \<noteq> Undef" "yunixaddress (Some p) \<noteq> Exit c v" "yunixaddress (Some p) \<noteq> Abort v"
  using unix_addresses [of p] unix_address_eq(2) [OF assms] by auto

lemma xfr_path_short: "length XFR_PATH < SUN_PATH_SIZE" "\<not> length XFR_PATH > SUN_PATH_SIZE - 1"
  by (simp_all add: XFR_PATH_def SUN_PATH_SIZE_def)

lemma kept_binds:
  assumes k: "sock_keeps (xo_sock os) view"
  shows "kept view w (bind_pathname os w)" "kept view w (bind_abstract os w)"
    "kept view w (need_fd (unixBind (xo_sock os) (Some p) type w))" "kept view w (need_fd (yunixbind (xo_sock os) (Some XFR_PATH) type w))"
proof -
  note b = kept_must_sock [of "so_bind (xo_sock os) fd a l" _ view for fd a l, OF sock_keepsD(3) [OF k]]
  show "kept view w (bind_pathname os w)"
    unfolding bind_pathname_def using xfr_path_short
    by (auto intro!: kept_obind kept_new_socket kept_remove_path kept_path_array [simplified] b k)
  show "kept view w (bind_abstract os w)"
    unfolding bind_abstract_def by (auto intro!: kept_obind kept_new_socket kept_path_array [simplified] b k)
  show "kept view w (need_fd (unixBind (xo_sock os) (Some p) type w))"
    unfolding unixBind_def by (rule kept_with_address [OF unix_addresses]) (rule kept_socket_with [OF k sock_keepsD(3) [OF k]])
  have y: "kept view v (need_fd (with_address (yunixaddress (Some XFR_PATH)) (\<lambda>addr. socket_with (xo_sock os) (so_bind (xo_sock os)) type addr (SUN_LEN addr)) v))" for v
    by (rule kept_with_address [OF yunix_addresses [OF xfr_path_short(1)]]) (rule kept_socket_with [OF k sock_keepsD(3) [OF k]])
  obtain e v where rm: "so_remove (xo_sock os) XFR_PATH w = (e, v)" by fastforce
  then have "view v = view w" by (rule sock_keepsD(6) [OF k])
  then show "kept view w (need_fd (yunixbind (xo_sock os) (Some XFR_PATH) type w))"
    using y [of v] xfr_path_short rm by (auto simp: yunixbind_def kept_def need_fd_def split: outcome.splits)
qed

lemma kept_connects:
  assumes k: "sock_keeps (xo_sock os) view"
  shows "kept view w (connect_pathname os w)" "kept view w (connect_abstract os w)"
    "kept view w (need_fd (unixConnect (xo_sock os) (Some p) type w))" "kept view w (need_fd (yunixconnect (xo_sock os) (Some XFR_PATH) type w))"
proof -
  note c = kept_must_sock [of "so_connect (xo_sock os) fd a l" _ view for fd a l, OF sock_keepsD(2) [OF k]]
  show "kept view w (connect_pathname os w)" "kept view w (connect_abstract os w)"
    unfolding connect_pathname_def connect_abstract_def by (auto intro!: kept_obind kept_new_socket kept_path_array [simplified] c k)
  show "kept view w (need_fd (unixConnect (xo_sock os) (Some p) type w))"
    unfolding unixConnect_def by (rule kept_with_address [OF unix_addresses]) (rule kept_socket_with [OF k sock_keepsD(2) [OF k]])
  show "kept view w (need_fd (yunixconnect (xo_sock os) (Some XFR_PATH) type w))"
    unfolding yunixconnect_def
    by (rule kept_with_address [OF yunix_addresses [OF xfr_path_short(1)]]) (rule kept_socket_with [OF k sock_keepsD(2) [OF k]])
qed

section \<open>Servers\<close>

text \<open>What a server relies on. \<open>coming cfd\<close> is what the client behind a connection will still send, \<open>printed\<close> what is on standard
  output, and \<open>queue\<close> what the clients to come will send, in the order in which they are accepted.\<close>

definition server_kernel :: "'w xfr_os \<Rightarrow> (int \<Rightarrow> 'w \<Rightarrow> cstring) \<Rightarrow> ('w \<Rightarrow> cstring) \<Rightarrow> ('w \<Rightarrow> cstring list) \<Rightarrow> ('w \<Rightarrow> int set) \<Rightarrow> bool" where
  "server_kernel os coming printed queue opened \<longleftrightarrow>
     sock_keeps (xo_sock os) (\<lambda>w. (printed w, queue w)) \<and>
     (\<forall>cfd. channel os cfd STDOUT_FD (coming cfd) printed) \<and>
     (\<forall>fd n w. queue (snd (xo_read os fd n w)) = queue w \<and> opened (snd (xo_read os fd n w)) = opened w) \<and>
     (\<forall>fd bs w. queue (snd (xo_write os fd bs w)) = queue w \<and> opened (snd (xo_write os fd bs w)) = opened w) \<and>
     (\<forall>fd w. case xo_close os fd w of (b, w') \<Rightarrow> printed w' = printed w \<and> queue w' = queue w \<and> opened w' = opened w - {fd}) \<and>
     (\<forall>sfd w. case xo_accept os sfd w of
         (Some cfd, w') \<Rightarrow> queue w = coming cfd w' # queue w' \<and> printed w' = printed w \<and> cfd \<notin> opened w \<and> opened w' = insert cfd (opened w)
       | (None, w') \<Rightarrow> printed w' = printed w)"

lemma server_kernelD:
  assumes k: "server_kernel os coming printed queue opened"
  shows "sock_keeps (xo_sock os) (\<lambda>w. (printed w, queue w))" "channel os cfd 1 (coming cfd) printed"
    "xo_read os fd n w = (x, w') \<Longrightarrow> queue w' = queue w \<and> opened w' = opened w"
    "xo_write os fd bs w = (y, w') \<Longrightarrow> queue w' = queue w \<and> opened w' = opened w"
    "xo_close os fd w = (b, w') \<Longrightarrow> printed w' = printed w \<and> queue w' = queue w \<and> opened w' = opened w - {fd}"
    "xo_accept os sfd w = (None, w') \<Longrightarrow> printed w' = printed w"
    "xo_accept os sfd w = (Some cfd, w') \<Longrightarrow>
       queue w = coming cfd w' # queue w' \<and> printed w' = printed w \<and> cfd \<notin> opened w \<and> opened w' = insert cfd (opened w)"
proof -
  note d = k [unfolded server_kernel_def]
  note d2 = d [THEN conjunct2, THEN conjunct2]
  note d4 = d2 [THEN conjunct2, THEN conjunct2]
  show "sock_keeps (xo_sock os) (\<lambda>w. (printed w, queue w))" by (rule d [THEN conjunct1])
  show "channel os cfd 1 (coming cfd) printed" using d [THEN conjunct2, THEN conjunct1] by simp
  show "xo_read os fd n w = (x, w') \<Longrightarrow> queue w' = queue w \<and> opened w' = opened w"
    using d2 [THEN conjunct1, THEN spec, of fd, THEN spec, of n, THEN spec, of w] by simp
  show "xo_write os fd bs w = (y, w') \<Longrightarrow> queue w' = queue w \<and> opened w' = opened w"
    using d2 [THEN conjunct2, THEN conjunct1, THEN spec, of fd, THEN spec, of bs, THEN spec, of w] by simp
  show "xo_close os fd w = (b, w') \<Longrightarrow> printed w' = printed w \<and> queue w' = queue w \<and> opened w' = opened w - {fd}"
    using d4 [THEN conjunct1, THEN spec, of fd, THEN spec, of w] by simp
  show "xo_accept os sfd w = (None, w') \<Longrightarrow> printed w' = printed w"
    "xo_accept os sfd w = (Some cfd, w') \<Longrightarrow>
       queue w = coming cfd w' # queue w' \<and> printed w' = printed w \<and> cfd \<notin> opened w \<and> opened w' = insert cfd (opened w)"
    using d4 [THEN conjunct2, THEN spec, of sfd, THEN spec, of w] by simp_all
qed

text \<open>Calls of a loop leave alone what \<^verbatim>\<open>read()\<close> and \<^verbatim>\<open>write()\<close> leave alone.\<close>

lemma copy_data_keeps:
  assumes "\<And>fd n w x w'. xo_read os fd n w = (x, w') \<Longrightarrow> view w' = view w" "\<And>fd bs w y w'. xo_write os fd bs w = (y, w') \<Longrightarrow> view w' = view w"
  shows "copy_data n os bsize src dst w = Some (Ret u w') \<Longrightarrow> view w' = view w"
proof (induction n arbitrary: w)
  case (Suc n)
  then show ?case
    using assms by (fastforce split: prod.splits sum.splits if_splits)
qed simp

text \<open>After \<open>k\<close> connections, the data of the first \<open>k\<close> clients has been printed, and all connections are closed.\<close>

definition served :: "nat \<Rightarrow> ('w \<Rightarrow> cstring) \<Rightarrow> ('w \<Rightarrow> cstring list) \<Rightarrow> 'w \<Rightarrow> (unit, 'w) outcome \<Rightarrow> bool" where
  "served k printed queue w r =
     (case r of
        Ret _ w' \<Rightarrow> printed w' = printed w @ concat (take k (queue w)) \<and> k \<le> length (queue w) \<and> queue w' = drop k (queue w)
      | Exit c w' \<Rightarrow> c = EXIT_FAILURE \<and> part_of (concat (take k (queue w))) (printed w) (printed w')
      | _ \<Rightarrow> False)"

lemma serve_serves:
  assumes k: "server_kernel os coming printed queue opened" and b: "0 < bsize"
  shows "serve j n os bsize fatal sfd w = Some r \<Longrightarrow>
    served j printed queue w r \<and> (\<forall>u w'. r = Ret u w' \<longrightarrow> opened w' = opened w)"
proof (induction j arbitrary: w)
  case (Suc j)
  obtain a w1 where ac: "xo_accept os sfd w = (a, w1)" by fastforce
  show ?case
  proof (cases a)
    case None
    then show ?thesis using Suc.prems ac server_kernelD(6) [OF k] by (auto simp: must_get_def served_def)
  next
    case (Some cfd)
    note a1 = server_kernelD(7) [OF k ac [unfolded Some]]
    note ch = server_kernelD(2) [OF k, of cfd]
    obtain m where m: "copy_data n os bsize cfd 1 w1 = Some m" using Suc.prems ac Some
      by (cases "copy_data n os bsize cfd 1 w1") (auto simp: must_get_def)
    note c = copy_data_copies [OF ch b m]
    show ?thesis
    proof (cases m)
      case (Ret u w2)
      obtain cl w3 where w3: "xo_close os cfd w2 = (cl, w3)" by fastforce
      note c3 = server_kernelD(5) [OF k w3]
      have kp: "(queue w2, opened w2) = (queue w1, opened w1)"
        by (rule copy_data_keeps [OF _ _ m [unfolded Ret], of "\<lambda>w. (queue w, opened w)"]) (use server_kernelD(3,4) [OF k] in blast)+
      have p: "printed w3 = printed w @ coming cfd w1" "queue w = coming cfd w1 # queue w3" "opened w3 = opened w"
        using c Ret c3 kp a1 by (auto simp: copied_def)
      show ?thesis
      proof (cases "\<not> cl \<and> fatal")
        case True
        then show ?thesis using Suc.prems ac Some m Ret w3 p
          by (auto simp: must_get_def served_def intro: part_of_longer [OF part_of_all])
      next
        case False
        then have "serve j n os bsize fatal sfd w3 = Some r" using Suc.prems ac Some m Ret w3 by (auto simp: must_get_def)
        note ih = Suc.IH [OF this]
        with p show ?thesis by (auto simp: served_def part_of_more split: outcome.splits)
      qed
    qed (use Suc.prems ac Some m c a1 in \<open>auto simp: must_get_def served_def copied_def part_of_longer\<close>)
  qed
qed (auto simp: served_def)

lemma serve_ends:
  assumes k: "server_kernel os coming printed queue opened" and b: "0 < bsize"
  shows "\<forall>x\<in>set (queue w). length x < n \<Longrightarrow> serve j n os bsize fatal sfd w \<noteq> None"
proof (induction j arbitrary: w)
  case (Suc j)
  obtain a w1 where ac: "xo_accept os sfd w = (a, w1)" by fastforce
  show ?case
  proof (cases a)
    case (Some cfd)
    note a1 = server_kernelD(7) [OF k ac [unfolded Some]]
    note ch = server_kernelD(2) [OF k, of cfd]
    obtain m where m: "copy_data n os bsize cfd 1 w1 = Some m" using copy_data_ends [OF ch b, of w1 n] Suc.prems a1 by auto
    show ?thesis
    proof (cases m)
      case (Ret u w2)
      obtain cl w3 where w3: "xo_close os cfd w2 = (cl, w3)" by fastforce
      have "queue w2 = queue w1"
        by (rule copy_data_keeps [OF _ _ m [unfolded Ret], of queue]) (use server_kernelD(3,4) [OF k] in blast)+
      then have "serve j n os bsize fatal sfd w3 \<noteq> None" using server_kernelD(5) [OF k w3] Suc.IH [of w3] Suc.prems a1 by simp
      then show ?thesis using ac Some m Ret w3 by (auto simp: must_get_def)
    qed (use ac Some m in \<open>auto simp: must_get_def\<close>)
  qed (use ac in \<open>simp add: must_get_def\<close>)
qed simp

lemma set_up_serves:
  assumes k: "server_kernel os coming printed queue opened" and b: "0 < bsize" and s: "kept (\<lambda>w. (printed w, queue w)) w m"
  shows "obind_opt m (\<lambda>sfd w. listen_and_serve j n os bsize fatal sfd w) = Some r \<Longrightarrow> served j printed queue w r"
    and "\<forall>x\<in>set (queue w). length x < n \<Longrightarrow> obind_opt m (\<lambda>sfd w. listen_and_serve j n os bsize fatal sfd w) \<noteq> None"
proof -
  have l: "kept (\<lambda>w. (printed w, queue w)) v (must_sock (so_listen (xo_sock os) sfd 5) v)" for sfd v
    by (rule kept_must_sock) (rule sock_keepsD(4) [OF server_kernelD(1) [OF k]])
  show "served j printed queue w r" if r: "obind_opt m (\<lambda>sfd w. listen_and_serve j n os bsize fatal sfd w) = Some r"
  proof (cases m)
    case (Ret sfd v)
    show ?thesis
    proof (cases "must_sock (so_listen (xo_sock os) sfd 5) v")
      case (Ret u v')
      with \<open>m = Ret sfd v\<close> r s l [of v sfd] serve_serves [OF k b, of j n fatal sfd v' r] show ?thesis
        by (auto simp: listen_and_serve_def served_def split: outcome.splits)
    qed (use \<open>m = Ret sfd v\<close> r s l [of v sfd] in \<open>auto simp: listen_and_serve_def served_def kept_def split: outcome.splits\<close>)
  qed (use r s in \<open>auto simp: kept_def served_def\<close>)
  show "obind_opt m (\<lambda>sfd w. listen_and_serve j n os bsize fatal sfd w) \<noteq> None" if q: "\<forall>x\<in>set (queue w). length x < n"
  proof (cases m)
    case (Ret sfd v)
    then show ?thesis using s l [of v sfd] q serve_ends [OF k b, of _ n j fatal sfd]
      by (cases "must_sock (so_listen (xo_sock os) sfd 5) v") (auto simp: listen_and_serve_def)
  qed auto
qed

section \<open>Clients\<close>

text \<open>What a client relies on: \<open>input\<close> is what standard input still holds, \<open>sent fd\<close> what was sent over a socket, nothing when it is new.\<close>

definition client_kernel :: "'w xfr_os \<Rightarrow> ('w \<Rightarrow> cstring) \<Rightarrow> (int \<Rightarrow> 'w \<Rightarrow> cstring) \<Rightarrow> bool" where
  "client_kernel os input sent \<longleftrightarrow>
     sock_keeps (xo_sock os) input \<and> (\<forall>fd. channel os STDIN_FD fd input (sent fd)) \<and>
     (\<forall>f t p w fd w'. so_socket (xo_sock os) f t p w = (Inr fd, w') \<longrightarrow> sent fd w' = []) \<and>
     (\<forall>fd a l w. sent fd (snd (so_connect (xo_sock os) fd a l w)) = sent fd w)"

lemma client_kernelD:
  assumes "client_kernel os input sent"
  shows "sock_keeps (xo_sock os) input" "channel os 0 fd input (sent fd)"
    "so_socket (xo_sock os) f t p w = (Inr fd, w') \<Longrightarrow> sent fd w' = []"
    "so_connect (xo_sock os) fd a l w = (e, w') \<Longrightarrow> sent fd w' = sent fd w"
  using assms unfolding client_kernel_def by (simp_all, metis snd_conv)

lemma need_fd_Ret: "need_fd r = Ret fd w \<longleftrightarrow> r = Ret (Inr fd) w"
  by (cases r) (auto simp: need_fd_def split: sum.splits)

lemma connects_fresh:
  assumes k: "client_kernel os input sent"
  shows "connect_pathname os w = Ret fd w' \<Longrightarrow> sent fd w' = []" "connect_abstract os w = Ret fd w' \<Longrightarrow> sent fd w' = []"
    "need_fd (unixConnect (xo_sock os) path type w) = Ret fd w' \<Longrightarrow> sent fd w' = []"
    "need_fd (yunixconnect (xo_sock os) path type w) = Ret fd w' \<Longrightarrow> sent fd w' = []"
proof -
  note d = client_kernelD(3,4) [OF k]
  have n: "new_socket os v = Ret fd v' \<Longrightarrow> sent fd v' = []" for v v' fd
    by (auto simp: new_socket_def need_fd_def split: prod.splits sum.splits dest: d(1))
  have c: "must_sock (so_connect (xo_sock os) fd a l) v = Ret u v' \<Longrightarrow> sent fd v' = sent fd v" for fd a l v v' u
    by (auto simp: must_sock_def must_def split: prod.splits bool.splits dest: d(2))
  have a: "path_array i j p v = Ret arr v' \<Longrightarrow> v' = v" for i j p arr and v v' :: 'a
    by (auto simp: path_array_def split: outcome.splits)
  show "connect_pathname os w = Ret fd w' \<Longrightarrow> sent fd w' = []" "connect_abstract os w = Ret fd w' \<Longrightarrow> sent fd w' = []"
    unfolding connect_pathname_def connect_abstract_def obind_Ret_iff using n c a by fastforce+
  have s: "socket_with (xo_sock os) (so_connect (xo_sock os)) type addr len v = (Inr fd, v') \<Longrightarrow> sent fd v' = []" for addr len v v' fd
    using d by (fastforce simp: socket_with_def split: prod.splits sum.splits option.splits)
  show "need_fd (unixConnect (xo_sock os) path type w) = Ret fd w' \<Longrightarrow> sent fd w' = []"
    "need_fd (yunixconnect (xo_sock os) path type w) = Ret fd w' \<Longrightarrow> sent fd w' = []"
    by (auto simp: need_fd_Ret unixConnect_def yunixconnect_def with_address_def split: outcome.splits sum.splits prod.splits dest!: s)
qed

text \<open>A client that ends with status 0 has sent all its input over a new connection, and any other ends with status 1.\<close>

definition sends_input :: "('w \<Rightarrow> cstring) \<Rightarrow> (int \<Rightarrow> 'w \<Rightarrow> cstring) \<Rightarrow> 'w \<Rightarrow> (unit, 'w) outcome \<Rightarrow> bool" where
  "sends_input input sent w r =
     (case r of Exit c w' \<Rightarrow> (c = EXIT_SUCCESS \<and> (\<exists>fd. sent fd w' = input w)) \<or> c = EXIT_FAILURE | _ \<Rightarrow> False)"

lemma set_up_sends:
  assumes k: "client_kernel os input sent" and b: "0 < bsize" and s: "kept input w m" "\<And>fd w'. m = Ret fd w' \<Longrightarrow> sent fd w' = []"
  shows "obind_opt m (\<lambda>sfd w. send_input n os bsize sfd w) = Some r \<Longrightarrow> sends_input input sent w r"
    and "length (input w) < n \<Longrightarrow> obind_opt m (\<lambda>sfd w. send_input n os bsize sfd w) \<noteq> None"
proof -
  have ch: "channel os 0 fd input (sent fd) \<and> 0 < bsize" for fd using client_kernelD(2) [OF k] b by simp
  show "sends_input input sent w r" if r: "obind_opt m (\<lambda>sfd w. send_input n os bsize sfd w) = Some r"
  proof (cases m)
    case (Ret fd v)
    with r have "after (copy_data n os bsize 0 fd v) (\<lambda>_ w. Some (Exit EXIT_SUCCESS w)) = Some r" by (simp add: send_input_def)
    from cp.finished [OF ch this] s Ret show ?thesis by (auto simp: exit_tells_def sends_input_def split: outcome.splits)
  qed (use r s in \<open>auto simp: kept_def sends_input_def\<close>)
  show "obind_opt m (\<lambda>sfd w. send_input n os bsize sfd w) \<noteq> None" if "length (input w) < n"
  proof (cases m)
    case (Ret fd v)
    with that s show ?thesis using cp.finishes [OF ch, of v n fd "\<lambda>w. Exit EXIT_SUCCESS w"] by (simp add: send_input_def)
  qed simp_all
qed

text \<open>The servers and clients that run; the pair of \<^verbatim>\<open>exr5903_a\<close> writes past its address structure before anything else.\<close>

definition xfr_servers :: "(nat \<Rightarrow> nat \<Rightarrow> 'w xfr_os \<Rightarrow> 'w \<Rightarrow> (unit, 'w) outcome option) list" where
  "xfr_servers = [us_xfr_sv, yus_xfr_sv, us_xfr_v2_sv, exr5903_us_xfr_sv, exr5702_sv]"

definition xfr_clients :: "(nat \<Rightarrow> 'w xfr_os \<Rightarrow> 'w \<Rightarrow> (unit, 'w) outcome option) list" where
  "xfr_clients = [us_xfr_cl, yus_xfr_cl, us_xfr_v2_cl, exr5903_us_xfr_cl, exr5702_cl]"

lemma abstract_pair_undefined: "exr5903_a_us_xfr_sv k n os w = Some Undef \<and> exr5903_a_us_xfr_cl n os w = Some Undef"
  using abstract_address_overruns [of XFR_PATH]
  by (simp add: exr5903_a_us_xfr_sv_def exr5903_a_us_xfr_cl_def yunixAbind_def yunixAconnect_def with_address_def need_fd_def XFR_PATH_def
      SUN_PATH_SIZE_def)

lemma servers_serve:
  assumes k: "server_kernel os coming printed queue opened" and "sv \<in> set xfr_servers"
  shows "sv j n os w = Some r \<Longrightarrow> served j printed queue w r"
    and "\<forall>x\<in>set (queue w). length x < n \<Longrightarrow> sv j n os w \<noteq> None"
proof -
  note b = kept_binds [OF server_kernelD(1) [OF k]]
  consider "sv = us_xfr_sv" | "sv = yus_xfr_sv" | "sv = us_xfr_v2_sv" | "sv = exr5903_us_xfr_sv" | "sv = exr5702_sv"
    using assms(2) by (auto simp: xfr_servers_def)
  then have "(sv j n os w = Some r \<longrightarrow> served j printed queue w r) \<and> ((\<forall>x\<in>set (queue w). length x < n) \<longrightarrow> sv j n os w \<noteq> None)"
  proof cases
    case 1
    show ?thesis using set_up_serves(1) [OF k _ b(1) [of w], of 100 j n False] set_up_serves(2) [OF k _ b(1) [of w], of 100 n j False] unfolding 1 us_xfr_sv_def by auto
  next
    case 2
    show ?thesis using set_up_serves(1) [OF k _ b(1) [of w], of 8192 j n True] set_up_serves(2) [OF k _ b(1) [of w], of 8192 n j True] unfolding 2 yus_xfr_sv_def by auto
  next
    case 3
    show ?thesis using set_up_serves(1) [OF k _ b(3) [of w XFR_V2_PATH SOCK_STREAM], of 100 j n False] set_up_serves(2) [OF k _ b(3) [of w XFR_V2_PATH SOCK_STREAM], of 100 n j False] unfolding 3 us_xfr_v2_sv_def by auto
  next
    case 4
    show ?thesis using set_up_serves(1) [OF k _ b(4) [of w SOCK_STREAM], of 100 j n False] set_up_serves(2) [OF k _ b(4) [of w SOCK_STREAM], of 100 n j False] unfolding 4 exr5903_us_xfr_sv_def by auto
  next
    case 5
    show ?thesis using set_up_serves(1) [OF k _ b(2) [of w], of 100 j n True] set_up_serves(2) [OF k _ b(2) [of w], of 100 n j True] unfolding 5 exr5702_sv_def by auto
  qed
  then show "sv j n os w = Some r \<Longrightarrow> served j printed queue w r"
    "\<forall>x\<in>set (queue w). length x < n \<Longrightarrow> sv j n os w \<noteq> None" by blast+
qed

lemma clients_send:
  assumes k: "client_kernel os input sent" and "cl \<in> set xfr_clients"
  shows "cl n os w = Some r \<Longrightarrow> sends_input input sent w r" and "length (input w) < n \<Longrightarrow> cl n os w \<noteq> None"
proof -
  note c = kept_connects [OF client_kernelD(1) [OF k]] and f = connects_fresh [OF k]
  consider "cl = us_xfr_cl" | "cl = yus_xfr_cl" | "cl = us_xfr_v2_cl" | "cl = exr5903_us_xfr_cl" | "cl = exr5702_cl"
    using assms(2) by (auto simp: xfr_clients_def)
  then have "(cl n os w = Some r \<longrightarrow> sends_input input sent w r) \<and> (length (input w) < n \<longrightarrow> cl n os w \<noteq> None)"
  proof cases
    case 1
    show ?thesis using set_up_sends [OF k _ c(1) [of w] f(1), where bsize = 100 and n = n] unfolding 1 us_xfr_cl_def by auto
  next
    case 2
    show ?thesis using set_up_sends [OF k _ c(1) [of w] f(1), where bsize = 8192 and n = n] unfolding 2 yus_xfr_cl_def by auto
  next
    case 3
    show ?thesis using set_up_sends [OF k _ c(3) [of w XFR_V2_PATH SOCK_STREAM] f(3), where bsize = 100 and n = n] unfolding 3 us_xfr_v2_cl_def by auto
  next
    case 4
    show ?thesis using set_up_sends [OF k _ c(4) [of w SOCK_STREAM] f(4), where bsize = 100 and n = n] unfolding 4 exr5903_us_xfr_cl_def by auto
  next
    case 5
    show ?thesis using set_up_sends [OF k _ c(2) [of w] f(2), where bsize = 100 and n = n] unfolding 5 exr5702_cl_def by auto
  qed
  then show "cl n os w = Some r \<Longrightarrow> sends_input input sent w r" "length (input w) < n \<Longrightarrow> cl n os w \<noteq> None" by blast+
qed

section \<open>Delivery\<close>


text \<open>A system whose calls transfer at most three bytes at a time. The servers have one connection at a time, as descriptor 4.\<close>

record xdemo =
  xd_rest :: cstring
  xd_out :: cstring
  xd_queue :: "cstring list"
  xd_fds :: "int list"

definition xfr_demo :: "bool \<Rightarrow> xdemo xfr_os" where
  "xfr_demo server =
     \<lparr> xo_sock = \<lparr> so_getaddrinfo = (\<lambda>_ _ _ _ w. (None, w)),
         so_socket = (\<lambda>_ _ _ w. (Inr 3, if server then w else w\<lparr> xd_out := [] \<rparr>)),
         so_connect = (\<lambda>_ _ _ w. (None, w)), so_bind = (\<lambda>_ _ _ w. (None, w)), so_reuseaddr = (\<lambda>_ w. (None, w)),
         so_listen = (\<lambda>_ _ w. (None, w)), so_close = (\<lambda>_ w. w), so_remove = (\<lambda>_ w. (Some ENOENT, w)), so_getnameinfo = (\<lambda>_ _ _ _. None) \<rparr>,
       xo_open = (\<lambda>_ _ w. (Some 5, w)),
       xo_accept = (\<lambda>_ w. case xd_queue w of
           q # qs \<Rightarrow> if 4 \<in> set (xd_fds w) then (None, w) else (Some 4, w\<lparr> xd_rest := q, xd_queue := qs, xd_fds := 4 # xd_fds w \<rparr>)
         | [] \<Rightarrow> (None, w)),
       xo_read = (\<lambda>_ n w. (Inr (take (min 3 n) (xd_rest w)), w\<lparr> xd_rest := drop (min 3 n) (xd_rest w) \<rparr>)),
       xo_write = (\<lambda>_ bs w. (Inr (length bs), w\<lparr> xd_out := xd_out w @ bs \<rparr>)),
       xo_close = (\<lambda>fd w. (True, w\<lparr> xd_fds := filter (\<lambda>x. x \<noteq> fd) (xd_fds w) \<rparr>)),
       xo_fork = (\<lambda>w. (Some w, w)), xo_sigaction = (\<lambda>w. (True, w)), xo_waitpid = (\<lambda>w. (0, w)), xo_shutdown = (\<lambda>_ w. (True, w)),
       xo_print = (\<lambda>s w. w\<lparr> xd_out := xd_out w @ s \<rparr>) \<rparr>"

lemma xfr_demo_channel: "channel (xfr_demo b) src dst xd_rest xd_out"
  by (auto simp: channel_def xfr_demo_def)

lemma xfr_demo_server: "server_kernel (xfr_demo True) (\<lambda>_. xd_rest) xd_out xd_queue (\<lambda>w. set (xd_fds w))"
  unfolding server_kernel_def by (intro conjI allI xfr_demo_channel) (auto simp: sock_keeps_def xfr_demo_def split: list.splits)

lemma xfr_demo_client: "client_kernel (xfr_demo False) xd_rest (\<lambda>_. xd_out)"
  unfolding client_kernel_def by (intro conjI allI xfr_demo_channel) (auto simp: sock_keeps_def xfr_demo_def)

definition xdemo_start :: "cstring list \<Rightarrow> xdemo" where
  "xdemo_start qs = \<lparr> xd_rest = ''some input'', xd_out = ''> '', xd_queue = qs, xd_fds = [0, 1, 2] \<rparr>"


text \<open>For the file copies, writes to other descriptors than standard output are collected in the queue.\<close>

definition file_demo :: "xdemo xfr_os" where
  "file_demo = (xfr_demo False)\<lparr> xo_write := \<lambda>fd bs w.
     (Inr (length bs), if fd = 1 then w\<lparr> xd_out := xd_out w @ bs \<rparr> else w\<lparr> xd_queue := xd_queue w @ [bs] \<rparr>) \<rparr>"

lemma file_demo_tee: "tee_kernel file_demo 5 xd_rest (\<lambda>w. concat (xd_queue w)) xd_out"
  by (auto simp: tee_kernel_def channel_def file_demo_def xfr_demo_def)

lemma file_demo_channel: "channel file_demo 5 5 xd_rest (\<lambda>w. concat (xd_queue w))"
  by (auto simp: channel_def file_demo_def xfr_demo_def)

theorem file_copies_witness:
  "(\<exists>w. copy_main 11 file_demo [''a'', ''b''] (xdemo_start []) = Some (Exit 0 w) \<and> concat (xd_queue w) = ''some input'') \<and>
   (\<exists>w. tee_main 11 file_demo ''a'' [''b''] (xdemo_start []) = Some (Exit 0 w) \<and> concat (xd_queue w) = ''some input'' \<and> xd_out w = ''> some input'')"
proof -
  let ?s = "xdemo_start []"
  have o: "xo_open file_demo p h w = (Some 5, w)" for p h w by (simp add: file_demo_def xfr_demo_def)
  have c: "\<forall>fd w. concat (xd_queue (snd (xo_close file_demo fd w))) = concat (xd_queue w)" "\<forall>fd w. xd_out (snd (xo_close file_demo fd w)) = xd_out w"
    by (simp_all add: file_demo_def xfr_demo_def)
  have n: "length (xd_rest ?s) < 11" by (simp add: xdemo_start_def)
  have f: "(\<exists>r. copy_main 11 file_demo [''a'', ''b''] ?s = Some r \<and> exit_tells (xd_rest ?s) (\<lambda>w. concat (xd_queue w)) ?s r) \<and>
    (\<exists>r. ycopy_main 11 file_demo [''a'', ''b''] ?s = Some r \<and> exit_tells (xd_rest ?s) (\<lambda>w. concat (xd_queue w)) ?s r) \<and>
    (\<exists>r. tee_main 11 file_demo ''a'' [''b''] ?s = Some r \<and> exit_tells (xd_rest ?s) (\<lambda>w. concat (xd_queue w)) ?s r \<and>
      exit_tells (xd_rest ?s) xd_out ?s r)"
    by (rule file_copies [OF c(1) c(2) o o o file_demo_channel _ _ o _ file_demo_tee n n n]) simp_all
  have "(case copy_main 11 file_demo [''a'', ''b''] ?s of Some (Exit c v) \<Rightarrow> c = 0 | _ \<Rightarrow> False)"
    "(case tee_main 11 file_demo ''a'' [''b''] ?s of Some (Exit c v) \<Rightarrow> c = 0 | _ \<Rightarrow> False)" by code_simp+
  then show ?thesis using f by (auto simp: exit_tells_def xdemo_start_def split: option.splits outcome.splits)
qed

end
