(* ===== verification/Echo_Service.thy ===== *)
theory Echo_Service
  imports Stream_Copy Daemon_Pty
begin

text \<open>
  The TCP echo service: the concurrent servers \<^verbatim>\<open>sockets/is_echo_sv.c\<close> and \<^verbatim>\<open>is_echo_v2_sv.c\<close>, which create a child for each client, the server
  \<^verbatim>\<open>is_echo_inetd_sv.c\<close> for a single connection, and the client \<^verbatim>\<open>is_echo_cl.c\<close>. A child runs on its own copy of the state. Messages to
  \<^verbatim>\<open>syslog()\<close> are left out.
\<close>

section \<open>Model\<close>

definition handleRequest :: "nat \<Rightarrow> 'w xfr_os \<Rightarrow> int \<Rightarrow> 'w \<Rightarrow> (unit, 'w) outcome option" where
  "handleRequest n os cfd w = copy_data n os 4096 cfd cfd w"

definition echo_child :: "nat \<Rightarrow> 'w xfr_os \<Rightarrow> int \<Rightarrow> int \<Rightarrow> 'w \<Rightarrow> (unit, 'w) outcome option" where
  "echo_child n os lfd cfd w =
     (case xo_close os lfd w of (_, w) \<Rightarrow> after (handleRequest n os cfd w) (\<lambda>_ w. Some (Exit EXIT_SUCCESS w)))"

text \<open>The loop of the servers, for \<open>k\<close> turns: the children, each with its connection, its state at the start and what became of it, and
  the outcome in the server. With \<open>retry\<close> a failing \<^verbatim>\<open>accept()\<close> does not end the server.\<close>

type_synonym 'w echo_kid = "int \<times> 'w \<times> (unit, 'w) outcome option"

fun echo_serve :: "nat \<Rightarrow> nat \<Rightarrow> 'w xfr_os \<Rightarrow> bool \<Rightarrow> int \<Rightarrow> 'w \<Rightarrow> 'w echo_kid list \<times> (unit, 'w) outcome" where
  "echo_serve 0 n os retry lfd w = ([], Ret () w)"
| "echo_serve (Suc k) n os retry lfd w =
     (case xo_accept os lfd w of
        (None, w) \<Rightarrow> if retry then echo_serve k n os retry lfd w else ([], Exit EXIT_FAILURE w)
      | (Some cfd, w) \<Rightarrow>
          (case xo_fork os w of
             (None, w) \<Rightarrow> echo_serve k n os retry lfd (snd (xo_close os cfd w))
           | (Some child, w) \<Rightarrow>
               (case echo_serve k n os retry lfd (snd (xo_close os cfd w)) of
                  (kids, r) \<Rightarrow> ((cfd, child, echo_child n os lfd cfd child) # kids, r))))"

definition echo_daemon ::
  "nat \<Rightarrow> nat \<Rightarrow> 'x d_os \<Rightarrow> 'x dproc xfr_os \<Rightarrow> bool \<Rightarrow> 'x dproc \<Rightarrow> 'x dproc echo_kid list \<times> (unit, 'x dproc) outcome" where
  "echo_daemon k n dos os retry w =
     (case becomeDaemon dos 0 w of
        Ret r w \<Rightarrow>
          if r = - 1 then ([], Exit EXIT_FAILURE w)
          else (case xo_sigaction os w of
                  (False, w) \<Rightarrow> ([], Exit EXIT_FAILURE w)
                | (True, w) \<Rightarrow>
                    (case inetListen (xo_sock os) ''echo'' 10 False w of
                       ((None, _), w) \<Rightarrow> ([], Exit EXIT_FAILURE w)
                     | ((Some lfd, _), w) \<Rightarrow> echo_serve k n os retry lfd w))
      | Exit c w \<Rightarrow> ([], Exit c w)
      | Abort w \<Rightarrow> ([], Abort w)
      | Undef \<Rightarrow> ([], Undef))"

definition is_echo_sv :: "nat \<Rightarrow> nat \<Rightarrow> 'x d_os \<Rightarrow> 'x dproc xfr_os \<Rightarrow> 'x dproc \<Rightarrow> 'x dproc echo_kid list \<times> (unit, 'x dproc) outcome" where
  "is_echo_sv k n dos os w = echo_daemon k n dos os False w"

definition is_echo_v2_sv ::
  "nat \<Rightarrow> nat \<Rightarrow> 'x d_os \<Rightarrow> 'x dproc xfr_os \<Rightarrow> cstring list \<Rightarrow> 'x dproc \<Rightarrow> 'x dproc echo_kid list \<times> (unit, 'x dproc) outcome option" where
  "is_echo_v2_sv k n dos os args w =
     (if args \<noteq> [] \<and> hd args = ''-i'' then ([], after (handleRequest n os STDIN_FD w) (\<lambda>_ w. Some (Exit EXIT_SUCCESS w)))
      else (case echo_daemon k n dos os True w of (kids, r) \<Rightarrow> (kids, Some r)))"

definition is_echo_inetd_sv :: "nat \<Rightarrow> 'w xfr_os \<Rightarrow> 'w \<Rightarrow> (unit, 'w) outcome option" where
  "is_echo_inetd_sv n os w = after (copy_data n os 4096 STDIN_FD STDOUT_FD w) (\<lambda>_ w. Some (Exit EXIT_SUCCESS w))"

text \<open>The handler of \<^verbatim>\<open>SIGCHLD\<close>.\<close>

fun reap_children :: "nat \<Rightarrow> 'w xfr_os \<Rightarrow> 'w \<Rightarrow> 'w option" where
  "reap_children 0 os w = None"
| "reap_children (Suc n) os w = (case xo_waitpid os w of (pid, w) \<Rightarrow> if pid > 0 then reap_children n os w else Some w)"

definition grimReaper_echo :: "nat \<Rightarrow> 'x dproc xfr_os \<Rightarrow> 'x dproc \<Rightarrow> 'x dproc option" where
  "grimReaper_echo n os w = (case reap_children n os w of None \<Rightarrow> None | Some w' \<Rightarrow> Some (w'\<lparr> d_errno := d_errno w \<rparr>))"

text \<open>The client. \<^verbatim>\<open>printf("%.*s")\<close> writes up to the first null byte.\<close>

fun echo_cl_child :: "nat \<Rightarrow> 'w xfr_os \<Rightarrow> int \<Rightarrow> 'w \<Rightarrow> (unit, 'w) outcome option" where
  "echo_cl_child 0 os sfd w = None"
| "echo_cl_child (Suc n) os sfd w =
     (case xo_read os sfd 100 w of
        (Inl e, w) \<Rightarrow> Some (Exit EXIT_SUCCESS w)
      | (Inr buf, w) \<Rightarrow>
          if buf = [] then Some (Exit EXIT_SUCCESS w)
          else echo_cl_child n os sfd (xo_print os (takeWhile (\<lambda>c. c \<noteq> NUL) buf) w))"

fun echo_cl_parent :: "nat \<Rightarrow> 'w xfr_os \<Rightarrow> int \<Rightarrow> 'w \<Rightarrow> (unit, 'w) outcome option" where
  "echo_cl_parent 0 os sfd w = None"
| "echo_cl_parent (Suc n) os sfd w =
     (case xo_read os STDIN_FD 100 w of
        (r, w) \<Rightarrow>
          if isl r \<or> r = Inr [] then Some (obind (must (xo_shutdown os sfd) w) (\<lambda>_ w. Exit EXIT_SUCCESS w))
          else (case xo_write os sfd (projr r) w of
                  (x, w) \<Rightarrow> if x \<noteq> Inr (length (projr r)) then Some (Exit EXIT_FAILURE w) else echo_cl_parent n os sfd w))"

text \<open>The outcomes in the child, when there is one, and in the parent.\<close>

definition is_echo_cl ::
  "nat \<Rightarrow> 'w xfr_os \<Rightarrow> cstring list \<Rightarrow> 'w \<Rightarrow> (unit, 'w) outcome option option \<times> (unit, 'w) outcome option" where
  "is_echo_cl n os args w =
     (if length args \<noteq> 1 \<or> hd args = ''--help'' then (None, Some (Exit EXIT_FAILURE w))
      else
        (case inetConnect (xo_sock os) (hd args) ''echo'' SOCK_STREAM w of
           (None, w) \<Rightarrow> (None, Some (Exit EXIT_FAILURE w))
         | (Some sfd, w) \<Rightarrow>
             (case xo_fork os w of
                (None, w) \<Rightarrow> (None, Some (Exit EXIT_FAILURE w))
              | (Some child, w) \<Rightarrow> (Some (echo_cl_child n os sfd child), echo_cl_parent n os sfd w))))"

section \<open>Servers\<close>

text \<open>\<open>coming cfd\<close> is what the client will still send, \<open>back cfd\<close> what was sent back to it.\<close>

definition echo_kernel :: "'w xfr_os \<Rightarrow> (int \<Rightarrow> 'w \<Rightarrow> cstring) \<Rightarrow> (int \<Rightarrow> 'w \<Rightarrow> cstring) \<Rightarrow> ('w \<Rightarrow> int set) \<Rightarrow> bool" where
  "echo_kernel os coming back opened \<longleftrightarrow>
     (\<forall>cfd. channel os cfd cfd (coming cfd) (back cfd)) \<and>
     (\<forall>fd n w. opened (snd (xo_read os fd n w)) = opened w) \<and> (\<forall>fd bs w. opened (snd (xo_write os fd bs w)) = opened w) \<and>
     (\<forall>fd w. opened (snd (xo_close os fd w)) = opened w - {fd}) \<and>
     (\<forall>fd cfd w. fd \<noteq> cfd \<longrightarrow> coming cfd (snd (xo_close os fd w)) = coming cfd w \<and> back cfd (snd (xo_close os fd w)) = back cfd w) \<and>
     (\<forall>lfd w. case xo_accept os lfd w of
         (Some cfd, w') \<Rightarrow> cfd \<notin> opened w \<and> opened w' = insert cfd (opened w) \<and> back cfd w' = []
       | (None, w') \<Rightarrow> opened w' = opened w) \<and>
     (\<forall>w. case xo_fork os w of
         (Some child, w') \<Rightarrow> opened child = opened w \<and> opened w' = opened w \<and> (\<forall>fd. coming fd child = coming fd w \<and> back fd child = back fd w)
       | (None, w') \<Rightarrow> opened w' = opened w)"

lemma echo_kernelD:
  assumes k: "echo_kernel os coming back opened"
  shows "channel os cfd cfd (coming cfd) (back cfd)"
    "xo_read os fd n w = (x, w') \<Longrightarrow> opened w' = opened w" "xo_write os fd bs w = (y, w') \<Longrightarrow> opened w' = opened w"
    "opened (snd (xo_close os fd w)) = opened w - {fd}"
    "fd \<noteq> cfd \<Longrightarrow> coming cfd (snd (xo_close os fd w)) = coming cfd w \<and> back cfd (snd (xo_close os fd w)) = back cfd w"
    "xo_accept os lfd w = (None, w') \<Longrightarrow> opened w' = opened w"
    "xo_accept os lfd w = (Some cfd, w') \<Longrightarrow> cfd \<notin> opened w \<and> opened w' = insert cfd (opened w) \<and> back cfd w' = []"
    "xo_fork os w = (None, w') \<Longrightarrow> opened w' = opened w"
    "xo_fork os w = (Some child, w') \<Longrightarrow>
       opened child = opened w \<and> opened w' = opened w \<and> coming fd child = coming fd w \<and> back fd child = back fd w"
proof -
  note d = k [unfolded echo_kernel_def]
  note d2 = d [THEN conjunct2]
  note d4 = d2 [THEN conjunct2, THEN conjunct2]
  note d6 = d4 [THEN conjunct2, THEN conjunct2]
  show "channel os cfd cfd (coming cfd) (back cfd)" by (rule d [THEN conjunct1, rule_format])
  show "xo_read os fd n w = (x, w') \<Longrightarrow> opened w' = opened w"
    using d2 [THEN conjunct1, THEN spec, of fd, THEN spec, of n, THEN spec, of w] by simp
  show "xo_write os fd bs w = (y, w') \<Longrightarrow> opened w' = opened w"
    using d2 [THEN conjunct2, THEN conjunct1, THEN spec, of fd, THEN spec, of bs, THEN spec, of w] by simp
  show "opened (snd (xo_close os fd w)) = opened w - {fd}" by (rule d4 [THEN conjunct1, rule_format])
  show "coming cfd (snd (xo_close os fd w)) = coming cfd w \<and> back cfd (snd (xo_close os fd w)) = back cfd w" if "fd \<noteq> cfd"
    using that d4 [THEN conjunct2, THEN conjunct1, rule_format] by blast
  show "xo_accept os lfd w = (None, w') \<Longrightarrow> opened w' = opened w"
    "xo_accept os lfd w = (Some cfd, w') \<Longrightarrow> cfd \<notin> opened w \<and> opened w' = insert cfd (opened w) \<and> back cfd w' = []"
    using d6 [THEN conjunct1, THEN spec, of lfd, THEN spec, of w] by simp_all
  show "xo_fork os w = (None, w') \<Longrightarrow> opened w' = opened w"
    "xo_fork os w = (Some child, w') \<Longrightarrow>
       opened child = opened w \<and> opened w' = opened w \<and> coming fd child = coming fd w \<and> back fd child = back fd w"
    using d6 [THEN conjunct2, THEN spec, of w] by simp_all
qed

text \<open>A child that has sent everything back ends with status 0, and any other with status 1 after a part of it; it has its own connection
  open and not the listening socket.\<close>

definition kid_echoes :: "nat \<Rightarrow> (int \<Rightarrow> 'w \<Rightarrow> cstring) \<Rightarrow> (int \<Rightarrow> 'w \<Rightarrow> cstring) \<Rightarrow> ('w \<Rightarrow> int set) \<Rightarrow> int \<Rightarrow> 'w echo_kid \<Rightarrow> bool" where
  "kid_echoes n coming back opened lfd kid =
     (case kid of
        (cfd, start, None) \<Rightarrow> n \<le> length (coming cfd start)
      | (cfd, start, Some (Exit c v)) \<Rightarrow>
          (c = EXIT_SUCCESS \<and> back cfd v = coming cfd start \<or> c = EXIT_FAILURE \<and> prefix (back cfd v) (coming cfd start)) \<and>
          cfd \<in> opened v \<and> lfd \<notin> opened v
      | _ \<Rightarrow> False)"

lemma copy_data_view:
  assumes "\<And>fd n w x w'. xo_read os fd n w = (x, w') \<Longrightarrow> view w' = view w" "\<And>fd bs w y w'. xo_write os fd bs w = (y, w') \<Longrightarrow> view w' = view w"
  shows "copy_data n os bsize src dst w = Some (Exit c w') \<Longrightarrow> view w' = view w"
proof (induction n arbitrary: w)
  case (Suc n)
  then show ?case
    using assms by (fastforce split: prod.splits sum.splits if_splits)
qed simp

lemma echo_child_echoes:
  assumes k: "echo_kernel os coming back opened" and s: "back cfd start = []" "cfd \<in> opened start" "cfd \<noteq> lfd"
  shows "kid_echoes n coming back opened lfd (cfd, start, echo_child n os lfd cfd start)"
proof -
  obtain b w where w: "xo_close os lfd start = (b, w)" by fastforce
  have w1: "coming cfd w = coming cfd start" "back cfd w = []" "opened w = opened start - {lfd}"
    using echo_kernelD(4) [OF k, of lfd start] echo_kernelD(5) [OF k, of lfd cfd start] s w by auto
  have ch: "channel os cfd cfd (coming cfd) (back cfd) \<and> 0 < (4096 :: nat)" using echo_kernelD(1) [OF k] by simp
  have e: "echo_child n os lfd cfd start = after (copy_data n os 4096 cfd cfd w) (\<lambda>_ w. Some (Exit EXIT_SUCCESS w))"
    using w by (simp add: echo_child_def handleRequest_def)
  show ?thesis
  proof (cases "copy_data n os 4096 cfd cfd w")
    case None
    then show ?thesis using cp.ends [OF ch, of w n] e w1(1) by (cases "length (coming cfd start) < n") (auto simp: kid_echoes_def)
  next
    case (Some m)
    note c = cp.copies [OF ch Some]
    have v: "opened v = opened w" if "m = Ret u v \<or> m = Exit x v" for u v x
      using that copy_data_keeps [of os opened n 4096 cfd cfd w u v] copy_data_view [of os opened n 4096 cfd cfd w x v]
        echo_kernelD(2,3) [OF k] Some by blast
    show ?thesis
      using c v e Some w1 s by (cases m) (auto simp: kid_echoes_def copied_def part_of_def)
  qed
qed

text \<open>The loop of the echo servers, for any number of turns and whatever calls fail: every child sends back to its client exactly what it gets from it, ends with
  status 0 only when that is complete, and has the listening socket closed; the server keeps no connection open, and only a failing
  \<^verbatim>\<open>accept()\<close> ends it, in the second version nothing does.\<close>

theorem echo_served:
  assumes k: "echo_kernel os coming back opened"
  shows "lfd \<in> opened w \<Longrightarrow>
    (case echo_serve j n os retry lfd w of
       (kids, r) \<Rightarrow> length kids \<le> j \<and> (\<forall>kid\<in>set kids. kid_echoes n coming back opened lfd kid) \<and>
         (case r of Ret _ w' \<Rightarrow> opened w' = opened w | Exit c w' \<Rightarrow> \<not> retry \<and> c = EXIT_FAILURE \<and> opened w' = opened w | _ \<Rightarrow> False))"
proof (induction j arbitrary: w)
  case (Suc j)
  obtain a w1 where ac: "xo_accept os lfd w = (a, w1)" by fastforce
  show ?case
  proof (cases a)
    case None
    then have "opened w1 = opened w" using ac echo_kernelD(6) [OF k] by blast
    then show ?thesis using None Suc.IH [of w1] Suc.prems ac by (cases retry) (auto split: prod.splits outcome.splits)
  next
    case (Some cfd)
    note a1 = echo_kernelD(7) [OF k ac [unfolded Some]]
    obtain f w2 where fk: "xo_fork os w1 = (f, w2)" by fastforce
    have w3: "opened (snd (xo_close os cfd w2)) = opened w"
      using a1 echo_kernelD(4) [OF k, of cfd w2] echo_kernelD(8) [OF k, of w1 w2] echo_kernelD(9) [OF k, of w1 _ w2] fk by (cases f) auto
    obtain kids r where rest: "echo_serve j n os retry lfd (snd (xo_close os cfd w2)) = (kids, r)" by fastforce
    have ih: "length kids \<le> j \<and> (\<forall>kid\<in>set kids. kid_echoes n coming back opened lfd kid) \<and>
         (case r of Ret _ w' \<Rightarrow> opened w' = opened w | Exit c w' \<Rightarrow> \<not> retry \<and> c = EXIT_FAILURE \<and> opened w' = opened w | _ \<Rightarrow> False)"
      using Suc.IH [of "snd (xo_close os cfd w2)"] Suc.prems rest w3 by (auto split: outcome.splits)
    show ?thesis
    proof (cases f)
      case None
      then show ?thesis using ac Some fk rest ih by simp
    next
      case (Some child)
      note c = echo_kernelD(9) [OF k fk [unfolded Some]]
      have "kid_echoes n coming back opened lfd (cfd, child, echo_child n os lfd cfd child)"
        by (rule echo_child_echoes [OF k]) (use c a1 Suc.prems in auto)
      then show ?thesis using ac \<open>a = Some cfd\<close> fk Some rest ih by simp
    qed
  qed
qed simp

text \<open>The same for the programs, which create the listening socket themselves.\<close>

lemma echo_daemon_echoes:
  assumes "echo_kernel os coming back opened" "fd_kernel (xo_sock os) opened"
  shows "case echo_daemon j n dos os retry w of
    (kids, r) \<Rightarrow> length kids \<le> j \<and> (\<exists>lfd. \<forall>kid\<in>set kids. kid_echoes n coming back opened lfd kid)"
proof (cases "becomeDaemon dos 0 w")
  case (Ret x v)
  obtain b v1 where s: "xo_sigaction os v = (b, v1)" by fastforce
  obtain f l v2 where i: "inetListen (xo_sock os) ''echo'' 10 False v1 = ((f, l), v2)" by (metis prod.collapse)
  show ?thesis
  proof (cases "x = - 1 \<or> \<not> b \<or> f = None")
    case True
    then show ?thesis using Ret s i by (auto simp: echo_daemon_def split: bool.splits)
  next
    case False
    then obtain lfd where f: "f = Some lfd" by auto
    have "lfd \<in> opened v2"
      using passive_fds [OF assms(2) i [unfolded inetListen_def]] f by (simp add: opened_by_def)
    from echo_served [OF assms(1) this, of j n retry] show ?thesis
      using Ret s i f False by (auto simp: echo_daemon_def intro!: exI [of _ lfd])
  qed
qed (simp_all add: echo_daemon_def)

text \<open>The handler of the servers reaps every child that has ended by then, however many signals were merged, and leaves \<^verbatim>\<open>errno\<close> alone.\<close>

definition wait_kernel :: "'x dproc xfr_os \<Rightarrow> ('x dproc \<Rightarrow> nat) \<Rightarrow> bool" where
  "wait_kernel os zombies \<longleftrightarrow>
     (\<forall>w. case xo_waitpid os w of (pid, w') \<Rightarrow> if pid > 0 then zombies w = Suc (zombies w') else zombies w = 0 \<and> zombies w' = 0) \<and>
     (\<forall>w e. zombies (w\<lparr> d_errno := e \<rparr>) = zombies w)"

lemma reap_children_all:
  assumes k: "wait_kernel os zombies"
  shows "zombies w < n \<Longrightarrow> \<exists>w'. reap_children n os w = Some w' \<and> zombies w' = 0"
proof (induction n arbitrary: w)
  case (Suc n)
  obtain pid w1 where wp: "xo_waitpid os w = (pid, w1)" by fastforce
  have "if pid > 0 then zombies w = Suc (zombies w1) else zombies w = 0 \<and> zombies w1 = 0"
    using k [unfolded wait_kernel_def, THEN conjunct1, THEN spec, of w] wp by simp
  then show ?case using Suc wp by (cases "pid > 0") auto
qed simp

lemma grimReaper_echo_reaps:
  assumes "wait_kernel os zombies" "zombies w < n"
  shows "\<exists>w'. grimReaper_echo n os w = Some w' \<and> zombies w' = 0 \<and> d_errno w' = d_errno w"
  using reap_children_all [OF assms] assms(1) by (auto simp: grimReaper_echo_def wait_kernel_def)

text \<open>The servers run from \<^verbatim>\<open>inetd\<close>, and the second version with \<^verbatim>\<open>-i\<close>, echo one connection.\<close>

lemma inetd_echoes:
  assumes "channel os 0 1 coming back" "channel os 0 0 coming back" "length (coming w) < n"
  shows "\<exists>r. is_echo_inetd_sv n os w = Some r \<and> exit_tells (coming w) back w r"
    "\<exists>r. is_echo_v2_sv k n dos os [''-i''] w = ([], Some r) \<and> exit_tells (coming w) back w r"
proof -
  have c: "channel os 0 1 coming back \<and> 0 < (4096 :: nat)" "channel os 0 0 coming back \<and> 0 < (4096 :: nat)" using assms by simp_all
  show "\<exists>r. is_echo_inetd_sv n os w = Some r \<and> exit_tells (coming w) back w r"
    unfolding is_echo_inetd_sv_def STDIN_FD_def STDOUT_FD_def
    by (rule total_result [OF cp.finishes [OF c(1) assms(3)]]) (erule cp.finished [OF c(1)], simp)
  have "\<exists>r. after (copy_data n os 4096 0 0 w) (\<lambda>_ w. Some (Exit EXIT_SUCCESS w)) = Some r \<and> exit_tells (coming w) back w r"
    by (rule total_result [OF cp.finishes [OF c(2) assms(3)]]) (erule cp.finished [OF c(2)], simp)
  then show "\<exists>r. is_echo_v2_sv k n dos os [''-i''] w = ([], Some r) \<and> exit_tells (coming w) back w r"
    by (simp add: is_echo_v2_sv_def handleRequest_def)
qed

section \<open>Client\<close>

definition reads_ok :: "'w xfr_os \<Rightarrow> int \<Rightarrow> bool" where
  "reads_ok os fd \<longleftrightarrow> (\<forall>w. \<not> isl (fst (xo_read os fd 100 w)))"

text \<open>The parent has sent a part of its input, all of it when no call failed; with the status 1 a write or the \<^verbatim>\<open>shutdown()\<close> has failed.\<close>

lemma echo_cl_parent_sends:
  assumes ch: "channel os 0 sfd input sent" and sh: "\<And>w. sent (snd (xo_shutdown os sfd w)) = sent w"
  shows "echo_cl_parent n os sfd w = Some r \<Longrightarrow>
    \<exists>c w'. r = Exit c w' \<and> part_of (input w) (sent w) (sent w') \<and>
      (reads_ok os 0 \<and> c = EXIT_SUCCESS \<longrightarrow> sent w' = sent w @ input w)"
proof (induction n arbitrary: w)
  case (Suc n)
  obtain x w1 where rd: "xo_read os 0 100 w = (x, w1)" by fastforce
  have fin: "\<exists>c w'. obind (must (xo_shutdown os sfd) w1) (\<lambda>_ w. Exit EXIT_SUCCESS w) = (Exit c w' :: (unit, 'a) outcome) \<and> sent w' = sent w1"
    using sh [of w1] by (auto simp: must_def split: prod.splits bool.splits)
  show ?case
  proof (cases x)
    case (Inl e)
    then have f: "\<not> reads_ok os 0" using rd by (metis reads_ok_def fst_conv sum.disc(1))
    have "sent w1 = sent w" using channel_read(2) [OF ch, of 100] rd Inl by auto
    moreover obtain c w' where "obind (must (xo_shutdown os sfd) w1) (\<lambda>_ w. Exit EXIT_SUCCESS w) = (Exit c w' :: (unit, 'a) outcome)" "sent w' = sent w1" using fin by blast
    moreover from this have "r = Exit c w'" using Suc.prems rd Inl by simp
    ultimately show ?thesis using f by auto
  next
    case (Inr bs)
    note r1 = channel_read(1) [OF ch _ rd [unfolded Inr]]
    obtain y w2 where wr: "xo_write os sfd bs w1 = (y, w2)" by fastforce
    obtain m where m: "m \<le> length bs" "sent w2 = sent w1 @ take m bs" "input w2 = input w1" "y = Inr (length bs) \<longrightarrow> m = length bs"
      using channel_written [OF ch wr] by blast
    consider "bs = []" | "bs \<noteq> []" "y \<noteq> Inr (length bs)" | "bs \<noteq> []" "y = Inr (length bs)" by blast
    then show ?thesis
    proof cases
      case 1
      then show ?thesis using Suc.prems rd Inr r1 fin by auto
    next
      case 2
      then show ?thesis using Suc.prems rd Inr wr r1 m by (auto simp: part_of_take)
    next
      case 3
      then show ?thesis using Suc.prems Suc.IH [of w2] rd Inr wr r1 m by (auto simp: part_of_more)
    qed
  qed
qed simp

text \<open>The child prints what it receives if that has no null byte, until a read fails.\<close>

lemma echo_cl_child_prints:
  assumes "\<And>w. case xo_read os sfd 100 w of
        (Inr bs, w') \<Rightarrow> coming w = bs @ coming w' \<and> (bs = [] \<longrightarrow> coming w = []) \<and> shown w' = shown w
      | (Inl e, w') \<Rightarrow> shown w' = shown w"
    and pr: "\<And>t w. shown (xo_print os t w) = shown w @ t \<and> coming (xo_print os t w) = coming w"
  shows "echo_cl_child n os sfd w = Some r \<Longrightarrow> NUL \<notin> set (coming w) \<Longrightarrow>
    \<exists>w'. r = Exit EXIT_SUCCESS w' \<and> part_of (coming w) (shown w) (shown w') \<and>
      (reads_ok os sfd \<longrightarrow> shown w' = shown w @ coming w)"
proof (induction n arbitrary: w)
  case (Suc n)
  obtain x w1 where rd: "xo_read os sfd 100 w = (x, w1)" by fastforce
  show ?case
  proof (cases x)
    case (Inl e)
    then have "\<not> reads_ok os sfd" using rd by (metis reads_ok_def fst_conv sum.disc(1))
    then show ?thesis using Suc.prems rd Inl assms(1) [of w] by auto
  next
    case (Inr bs)
    note r1 = assms(1) [of w, unfolded rd Inr prod.case sum.case]
    then have tw: "takeWhile (\<lambda>c. c \<noteq> NUL) bs = bs" using Suc.prems by (auto simp: takeWhile_eq_all_conv)
    show ?thesis
      using Suc.prems Suc.IH [of "xo_print os bs w1"] rd Inr r1 pr [of bs w1] by (cases "bs = []") (auto simp: part_of_more tw)
  qed
qed simp

text \<open>What follows a null byte in a block is not printed.\<close>

lemma null_bytes_cut:
  "case echo_cl_child 5 (xfr_demo False) 3 ((xdemo_start [])\<lparr> xd_rest := [CHR ''a'', NUL, CHR ''b'', CHR ''c''], xd_out := [] \<rparr>) of
     Some (Exit c w) \<Rightarrow> c = 0 \<and> xd_out w = ''ac'' | _ \<Rightarrow> False"
  by code_simp

text \<open>The conditions on the system can hold: descriptors 4 and up are connections, and the rest of the input comes over whichever is open.\<close>

definition echo_demo :: "xdemo xfr_os" where
  "echo_demo = (xfr_demo True)\<lparr> xo_accept := \<lambda>_ w. case xd_queue w of
       q # qs \<Rightarrow> if 4 \<in> set (xd_fds w) then (None, w) else (Some 4, w\<lparr> xd_rest := q, xd_out := [], xd_queue := qs, xd_fds := 4 # xd_fds w \<rparr>)
     | [] \<Rightarrow> (None, w) \<rparr>"

lemma echo_demo_kernel: "echo_kernel echo_demo (\<lambda>_. xd_rest) (\<lambda>_. xd_out) (\<lambda>w. set (xd_fds w))"
proof -
  have "channel echo_demo fd fd xd_rest xd_out" for fd by (auto simp: channel_def echo_demo_def xfr_demo_def)
  then show ?thesis unfolding echo_kernel_def
    by (intro conjI allI) (auto simp: echo_demo_def xfr_demo_def split: list.splits)
qed

theorem echo_served_witness:
  "case echo_serve 2 20 echo_demo False 3 ((xdemo_start [''hello'', ''world''])\<lparr> xd_fds := [3] \<rparr>) of
     (kids, r) \<Rightarrow> length kids = 2 \<and> (\<forall>kid\<in>set kids. kid_echoes 20 (\<lambda>_. xd_rest) (\<lambda>_. xd_out) (\<lambda>w. set (xd_fds w)) 3 kid) \<and>
       (case r of Ret _ w' \<Rightarrow> set (xd_fds w') = {3} | _ \<Rightarrow> False)"
proof -
  let ?s = "(xdemo_start [''hello'', ''world''])\<lparr> xd_fds := [3] \<rparr>"
  have "case echo_serve 2 20 echo_demo False 3 ?s of (kids, r) \<Rightarrow> length kids = 2 \<and> (case r of Ret _ w' \<Rightarrow> True | _ \<Rightarrow> False)" by code_simp
  then show ?thesis using echo_served [OF echo_demo_kernel, of 3 ?s 2 20 False] by (auto split: outcome.splits)
qed

end
