(* ===== verification/Spec2Isabelle.thy ===== *)
theory Spec2Isabelle
  imports Dtree_Properties Get_Num Line_IO Binary_Sems Shm_Transfer Env_Store Seccomp_Supervisor Filter_Files
    Acl_Update Ns_Capable Exec_Path Pid_File Userns_Exec Thread_Join Seqnum_Service
    Prod_Condvar Msg_File Rand_Dtree Simple_Init Process_Lib Script_Relay Multi_Sigchld Pdeath_Chain Scm_Passing Seccomp_Target Ucase_Service Lock_Shell Echo_Service
begin

text \<open>
  A verification library for the programs and library functions that accompany \<^emph>\<open>The Linux
  Programming Interface\<close> in this repository. The repository is a collection: a few larger programs
  with state of their own, a library of functions that many programs use, and a large number of short
  demonstrations. The development covers the programs and functions that have logic to get wrong; each
  is translated definition by definition under the names of the source and proved correct against a
  specification that does not mention the code.

  \<^bold>\<open>Conventions.\<close> A C function that may end the process is a function into \<open>outcome\<close>
  (\<^verbatim>\<open>Tlpi_Prelude\<close>): it returns (\<open>Ret\<close>), exits, aborts, or runs into undefined behaviour (\<open>Undef\<close>: a null
  pointer, an uninitialised variable, an index outside an array). A function that never ends the
  process returns a pair of its result and the new state, or an option or sum for its error. C strings
  are lists of characters without the null byte; machine integers are words where wrap-around can
  happen and otherwise integers with the range written out. The kernel, libcap, libacl, the
  password file and the heap are not part of the sources: they are arguments, records of functions
  over an opaque state, that may fail at every call. What a theorem needs of them is a named
  hypothesis that states documented behaviour (\<open>kernel_ok\<close>, \<open>stream_read\<close>, \<open>sem_values\<close>, \<open>lock_kernel\<close>,
  \<open>ns_kernel\<close>, \<open>acl_lib_reads\<close>, \<open>acl_lib_edits\<close> and so on), and every theorem with hypotheses has a
  witness that discharges them for a concrete instance. Results of \<^verbatim>\<open>getopt()\<close> and \<^verbatim>\<open>select()\<close> are
  arguments too. Concurrent programs are step functions, one step per system call or access to a
  shared variable, and an inductive relation interleaves them in any order.

  \<^bold>\<open>Bounds on loops.\<close> Loops that end with their data are structural recursion or have a termination
  proof. Loops whose end depends on the kernel take a number of turns as their first argument and
  return \<open>None\<close> when it is used up, or are partial functions into an option (\<open>wait_loop\<close>); the theorems say which number is enough: the bytes asked for plus the
  interruptions ahead for \<^verbatim>\<open>readn()\<close>, \<^verbatim>\<open>writen()\<close> and the line readers, the number of records for the event
  loop, the depth of the namespace for \<^verbatim>\<open>is_ancestor_userns()\<close>. The loops of supervisors and servers, of the relay
  programs and the main loop of the directory monitor run forever by design: theorems hold for every number of turns.

  \<^bold>\<open>Directory-tree monitor\<close> (\<^verbatim>\<open>inotify/inotify_dtree.c\<close>). \<^verbatim>\<open>Dtree_State\<close>: its file-scope variables as a
  record, log, events, system calls. \<^verbatim>\<open>Watch_Cache\<close>: the slot array, shown to implement a finite map
  (locale \<open>watch_store\<close>). \<^verbatim>\<open>Dtree_Tree\<close>: roots, tree walk, rename and removal of subtrees,
  reinitialisation. \<^verbatim>\<open>Dtree_Events\<close>: \<^verbatim>\<open>processNextInotifyEvent()\<close>, one definition per branch, and the
  read loop. \<^verbatim>\<open>Dtree_Main\<close>: commands, options and main loop. \<^verbatim>\<open>Dtree_Demo\<close>: a concrete system.
  \<^verbatim>\<open>Dtree_Properties\<close>: properties of single operations. Proved: whole sessions are free of
  undefined behaviour and keep the cache well formed, renames and removals change exactly the entries
  they should, the event loop ends, reinitialisation repairs any state.

  \<^bold>\<open>Random directory trees\<close> (\<^verbatim>\<open>inotify/rand_dtree.c\<close>, the companion of the monitor). \<^verbatim>\<open>Rand_Dtree\<close>: a run creates, removes
  and renames marked directories strictly below its root only, if the root has no marker itself.

  \<^bold>\<open>Library functions.\<close> \<^verbatim>\<open>Strto_Num\<close>: the C conversions. \<^verbatim>\<open>Get_Num\<close>: \<^verbatim>\<open>lib/get_num.c\<close> and
  \<^verbatim>\<open>lib/tryGet_num.c\<close> (locale \<open>checked_number\<close>): they agree, read back what they print, and report errors
  without touching the result. \<^verbatim>\<open>Error_Report\<close>: \<^verbatim>\<open>lib/error_functions.c\<close> on the two standard streams, \<^verbatim>\<open>errno\<close> and
  \<^verbatim>\<open>EF_DUMPCORE\<close>, with the table of error names; \<^verbatim>\<open>lib/signal_functions.c\<close>. \<^verbatim>\<open>Stream_IO\<close>: \<^verbatim>\<open>sockets/rdwrn.c\<close>. \<^verbatim>\<open>Line_IO\<close>: the
  four line readers under \<^verbatim>\<open>sockets/\<close> (locale \<open>line_reader\<close>): every line is delivered once, the buffered reader
  refines the simple one, no buffer is overrun. \<^verbatim>\<open>Socket_Lib\<close>: \<^verbatim>\<open>inet_sockets.c\<close>, \<^verbatim>\<open>unix_sockets.c\<close> and
  \<^verbatim>\<open>yunix_sockets.c\<close> (locale \<open>socket_opener\<close>: a call hands out one new descriptor or leaves the open ones as they were,
  one interpretation per function). \<^verbatim>\<open>Env_Store\<close>: \<^verbatim>\<open>proc/setenv.c\<close> as a map (locale \<open>env_store\<close>). \<^verbatim>\<open>Util_Lib\<close>:
  timer settings, user and group names, permission strings. \<^verbatim>\<open>Cap_Functions\<close>: \<^verbatim>\<open>cap/cap_functions.c\<close>
  and the option functions of the namespace launcher. \<^verbatim>\<open>Exec_Path\<close>: \<^verbatim>\<open>procexec/execlp.c\<close>, which is
  shown to execute the first candidate of the search path. \<^verbatim>\<open>Process_Lib\<close>: \<^verbatim>\<open>system()\<close>, wait statuses,
  \<^verbatim>\<open>siginterrupt()\<close> and \<^verbatim>\<open>yabort()\<close> on the signal state of a process. \<^verbatim>\<open>Daemon_Pty\<close>: \<^verbatim>\<open>becomeDaemon()\<close>, \<^verbatim>\<open>ptyMasterOpen()\<close> and
  \<^verbatim>\<open>ptyFork()\<close> on the table of descriptors: none is leaked, and each process ends up with those it should have.
  \<^verbatim>\<open>Script_Relay\<close>: the terminal modes of \<^verbatim>\<open>tty/tty_functions.c\<close> and the programs \<^verbatim>\<open>pty/script.c\<close> and \<^verbatim>\<open>pty/unbuffer.c\<close>, whose
  transcript is what the terminal showed and which leave the terminal as they found it.

  \<^bold>\<open>Processes and threads that share state.\<close> \<^verbatim>\<open>Interleaving\<close>: runs of step functions, and the locale
  \<open>bounded_system\<close>: an invariant, a measure that every step shrinks and a step for every state that has not finished
  give bounded runs without deadlock. It is interpreted for \<^verbatim>\<open>Thread_Join\<close> (\<^verbatim>\<open>threads/thread_multijoin.c\<close>: every
  thread joined once), \<^verbatim>\<open>Prod_Condvar\<close> (\<^verbatim>\<open>threads/prod_condvar.c\<close>: every unit consumed), \<^verbatim>\<open>Msg_File\<close>
  (\<^verbatim>\<open>svmsg/svmsg_file_server.c\<close> and its client: the file arrives complete), \<^verbatim>\<open>Multi_Sigchld\<close>
  (\<^verbatim>\<open>procexec/multi_SIGCHLD.c\<close>: every child is reaped) and \<^verbatim>\<open>Ucase_Service\<close> (\<^verbatim>\<open>sockets/ud_ucase_sv.c\<close> and \<^verbatim>\<open>ud_ucase_cl.c\<close>,
  with the set-up of the IPv6 versions: every client gets its own messages back in upper case, in order). \<^verbatim>\<open>Seqnum_Service\<close>: the sequence number
  servers and clients under \<^verbatim>\<open>sockets/\<close> and \<^verbatim>\<open>pipes/\<close> (locale \<open>number_server\<close>, interpreted for all four): no number is
  granted twice. \<^verbatim>\<open>Simple_Init\<close>: \<^verbatim>\<open>namespaces/simple_init.c\<close>: commands are run in order and no zombie stays
  unnoticed. \<^verbatim>\<open>Binary_Sems\<close>: \<^verbatim>\<open>svsem/binary_sems.c\<close> (locale \<open>lock\<close>) and
  \<^verbatim>\<open>svsem/event_flags.c\<close>. \<^verbatim>\<open>Shm_Transfer\<close>: writer and reader of \<^verbatim>\<open>svshm/\<close>, which take turns, never
  deadlock and copy the input. \<^verbatim>\<open>Pid_File\<close>: \<^verbatim>\<open>filelock/region_locking.c\<close> and
  \<^verbatim>\<open>filelock/create_pid_file.c\<close>: at most one instance. \<^verbatim>\<open>Userns_Exec\<close>:
  \<^verbatim>\<open>namespaces/userns_child_exec.c\<close> with \<^verbatim>\<open>namespaces/userns_functions.c\<close>: accepted command lines are
  consistent, and the child waits for the ID maps unless the parent fails. \<^verbatim>\<open>Pdeath_Chain\<close>: the chain of processes and threads that
  \<^verbatim>\<open>procexec/pdeath_signal.c\<close> makes of its arguments, which never branches. \<^verbatim>\<open>Lock_Shell\<close>: the commands of
  \<^verbatim>\<open>filelock/i_fcntl_locking.c\<close>, each of which becomes the request it says.

  \<^bold>\<open>Ancillary data.\<close> \<^verbatim>\<open>Ancillary_Data\<close>: the byte layout of control messages and the macros that take them apart. \<^verbatim>\<open>Scm_Passing\<close>: on
  top of it \<^verbatim>\<open>sockets/scm_functions.c\<close> and the programs that pass descriptors and credentials with it: nothing is written
  outside a buffer, and what arrives is what was sent.

  \<^bold>\<open>Seccomp\<close> (\<^verbatim>\<open>seccomp/\<close>). \<^verbatim>\<open>Bpf_Machine\<close>: the instruction set, its execution and the kernel's check of a
  filter; a checked filter always returns an action. \<^verbatim>\<open>Seccomp_Filters\<close>: every filter of the programs,
  instruction by instruction, and what it decides for every call (locale \<open>guarded_filter\<close>, one
  interpretation per filter). \<^verbatim>\<open>Seccomp_Notify\<close>: the supervisors of \<^verbatim>\<open>seccomp_unotify_mkdir.c\<close> and
  \<^verbatim>\<open>seccomp_unotify_openat.c\<close> with \<^verbatim>\<open>seccomp_functions.c\<close> (locale \<open>notify_loop\<close>, interpreted for both).
  \<^verbatim>\<open>Seccomp_Supervisor\<close>: both refine an abstract policy, and the first with its filter is safe.
  \<^verbatim>\<open>Seccomp_Target\<close>: the targets, the start of the supervisors and both \<^verbatim>\<open>main()\<close> functions: a target makes its calls only under its
  filters and with its listener passed on.
  \<^verbatim>\<open>Filter_Files\<close>: \<^verbatim>\<open>dump_seccomp_filter.c\<close> and \<^verbatim>\<open>seccomp_launch.c\<close>, which are inverse to each other.

  \<^bold>\<open>Access control.\<close> \<^verbatim>\<open>Acl_Text\<close> and \<^verbatim>\<open>Acl_Update\<close>: \<^verbatim>\<open>acl/acl_update.c\<close>; texts are read back as written, and
  an update implements the update of a map from tags and qualifiers to permissions. \<^verbatim>\<open>Ns_Capable\<close>:
  \<^verbatim>\<open>namespaces/ns_capable.c\<close>, whose verdict is the one that the rules for nested user namespaces give.

  \<^bold>\<open>Faults.\<close> Where the code does not do what it means to, the model has the fault and a lemma shows it on a concrete
  run: a \<^verbatim>\<open>SIGCHLD\<close> missed between \<^verbatim>\<open>fork()\<close> and \<^verbatim>\<open>pause()\<close>, numbers granted again after a request of negative length, an
  abstract socket address written past its structure, and others, next to the definitions they concern.

  \<^bold>\<open>Not modelled.\<close> The text of most messages, and help texts. The \<^verbatim>\<open>main()\<close> functions of the other seccomp programs.
  The calls that \<^verbatim>\<open>userns_child_exec\<close> makes before \<^verbatim>\<open>clone()\<close>. Failing pthread
  calls in \<^verbatim>\<open>thread_multijoin\<close>, which end the process. Signals that a background process gets when it
  reads from the terminal, in \<^verbatim>\<open>simple_init\<close>. The other programs: most of those under \<^verbatim>\<open>signals/\<close>,
  \<^verbatim>\<open>procexec/\<close>, \<^verbatim>\<open>pgsjc/\<close>, \<^verbatim>\<open>timers/\<close>, \<^verbatim>\<open>altio/\<close>, \<^verbatim>\<open>vmem/\<close>, \<^verbatim>\<open>shlibs/\<close> and similar directories show one
  interface of the kernel each, and what they show is behaviour of the kernel. In \<^verbatim>\<open>pdeath_signal.c\<close> the orphan child, which only
  waits for signals. Candidates that remain are the stream servers and clients under \<^verbatim>\<open>sockets/\<close> and the programs around one-time
  initialisation under \<^verbatim>\<open>threads/\<close>.
\<close>

end
